(* ===== verification/Prelude.thy ===== *)
theory Prelude
  imports Main "HOL-Library.Word" "HOL-Library.Sublist"
begin

unbundle bit_operations_syntax

section \<open>Shared vocabulary of the FPLinux development\<close>

text \<open>
  The types, the collections of facts and the generic lemmas that the component theories
  share.  C integers keep their width: \<open>uint8_t\<close>, \<open>uint16_t\<close>, \<open>uint32_t\<close> (and
  \<open>unsigned int\<close>), \<open>uint64_t\<close> are words, so that \<open>+\<close>, \<open>-\<close> and \<open>*\<close> wrap as
  they do in the source.  Signed 64-bit wall clock times are \<open>int\<close>: every one of them is
  range checked before it takes part in arithmetic.  Byte buffers are lists of \<open>u8\<close>; a
  C string is the list of its bytes before the terminating NUL.
\<close>

type_synonym u8 = "8 word"
type_synonym u16 = "16 word"
type_synonym u32 = "32 word"
type_synonym u64 = "64 word"
type_synonym bytes = "u8 list"

abbreviation UINT64_MAX :: u64 where "UINT64_MAX \<equiv> - 1"

named_theorems inv_intros \<open>preservation of the component invariants\<close>
named_theorems op_defs \<open>definitions of the operations, for symbolic execution\<close>

subsection \<open>Strings as bytes\<close>

definition bytes_of :: "string \<Rightarrow> bytes" where
  "bytes_of s = map (\<lambda>c. of_nat (of_char c)) s"

lemma bytes_of_simps [simp]:
  "bytes_of [] = []"
  "bytes_of (c # s) = of_nat (of_char c) # bytes_of s"
  by (simp_all add: bytes_of_def)

lemma length_bytes_of [simp]: "length (bytes_of s) = length s"
  by (simp add: bytes_of_def)

subsection \<open>Bitwise operations as arithmetic\<close>

lemma or_eq_plus: "x AND y = 0 \<Longrightarrow> x OR y = x + (y :: 'a::len word)"
  using word_plus_and_or [of x y] by simp

lemma unat_and_mask: "unat (x AND mask n) = unat (x :: 'a::len word) mod 2 ^ n"
  by (metis take_bit_eq_mask take_bit_eq_mod unsigned_take_bit_eq)

lemma unat_drop_bit: "unat (drop_bit n x) = unat (x :: 'a::len word) div 2 ^ n"
  unfolding unat_drop_bit_eq by (rule drop_bit_eq_div)

lemma u8_lt [simp]: "unat (b :: u8) < 256" using unsigned_less [of b, where 'a=nat] by simp

lemma unat_push_bit: "unat x * 2 ^ n < 2 ^ LENGTH('a) \<Longrightarrow> unat (push_bit n (x :: 'a::len word)) = unat x * 2 ^ n"
  unfolding unsigned_push_bit_eq by (simp add: push_bit_eq_mult mult.commute take_bit_eq_mod)

lemma and_c0: "(b :: u8) AND 0xc0 = push_bit 6 (drop_bit 6 b)"
proof -
  have *: "(0xc0 :: u8) = push_bit 6 (mask 2)" by (simp add: mask_eq_exp_minus_1)
  show ?thesis unfolding * by (rule bit_word_eqI) (auto simp: bit_simps)
qed

lemma cont_byte_iff: "b AND 0xc0 = 0x80 \<longleftrightarrow> 128 \<le> unat (b :: u8) \<and> unat b < 192"
proof -
  have "unat b div 64 < 4" using u8_lt [of b] by (auto intro: div_less_iff_less_mult [THEN iffD2])
  then have "unat (b AND 0xc0) = unat b div 64 * 64"
    unfolding and_c0 by (subst unat_push_bit) (simp_all add: unat_drop_bit)
  then have "b AND 0xc0 = 0x80 \<longleftrightarrow> unat b div 64 * 64 = 128"
    by (simp add: word_unat_eq_iff)
  then show ?thesis by auto
qed

lemma unat_and_low:
  "unat (x AND 0x3f) = unat (x :: 'a::len word) mod 64"
  "unat (x AND 0x1f) = unat x mod 32"
  "unat (x AND 0x0f) = unat x mod 16"
  "unat (x AND 7) = unat x mod 8"
  using unat_and_mask [of x 6] unat_and_mask [of x 5] unat_and_mask [of x 4] unat_and_mask [of x 3]
  by (simp_all add: mask_eq_exp_minus_1)

lemma unat_ucast_u8 [simp]: "unat (ucast (b :: u8) :: u32) = unat b"
  by (simp add: unsigned_ucast_eq take_bit_nat_eq_self_iff less_trans [OF u8_lt])

lemma unat_ucast_u32 [simp]: "unat c < 256 \<Longrightarrow> unat (ucast (c :: u32) :: u8) = unat c"
  by (simp add: unsigned_ucast_eq take_bit_nat_eq_self_iff)

lemma unat_or_disj: "x AND y = 0 \<Longrightarrow> unat x + unat y < 2 ^ LENGTH('a) \<Longrightarrow> unat (x OR y) = unat x + unat (y :: 'a::len word)"
  by (simp add: or_eq_plus unat_add_lem [THEN iffD1])

lemma unat_or_low: 
  assumes "drop_bit n y = 0" "take_bit n x = 0" "unat x + unat y < 2 ^ LENGTH('a)"
  shows "unat (x OR y) = unat x + unat (y :: 'a::len word)"
proof (rule unat_or_disj)
  show "x AND y = 0"
  proof (rule bit_word_eqI)
    fix k assume "k < LENGTH('a)"
    have "k < n \<Longrightarrow> \<not> bit x k"
      using assms(2) by (metis bit_0_eq bit_take_bit_iff bot_apply bot_bool_def)
    moreover have "\<not> k < n \<Longrightarrow> \<not> bit y k"
      using assms(1) by (metis bit_0_eq bit_drop_bit_eq bot_apply bot_bool_def comp_apply le_add_diff_inverse not_less)
    ultimately have "\<not> bit x k \<or> \<not> bit y k" by blast
    then show "bit (x AND y) k \<longleftrightarrow> bit (0::'a word) k" by (simp add: bit_simps)
  qed
qed fact

lemma drop_bit_zero_iff: "drop_bit n y = 0 \<longleftrightarrow> unat (y :: 'a::len word) < 2 ^ n"
  by (simp add: word_unat_eq_iff unat_drop_bit div_eq_0_iff)

subsection \<open>Transition systems\<close>

text \<open>
  The interface between a state machine and its invariant: what the initial states and the steps
  have to keep, and what then holds of every state that is reached.
\<close>

locale transition_system =
  fixes initial :: "'s \<Rightarrow> bool" and step :: "'s \<Rightarrow> 's \<Rightarrow> bool" and inv :: "'s \<Rightarrow> bool"
  assumes initial_inv: "initial s \<Longrightarrow> inv s"
    and step_inv: "inv s \<Longrightarrow> step s s' \<Longrightarrow> inv s'"
begin

lemma reached: "step\<^sup>*\<^sup>* s s' \<Longrightarrow> inv s \<Longrightarrow> inv s'"
  by (induction rule: rtranclp_induct) (auto intro: step_inv)

lemma reachable: "initial s \<Longrightarrow> step\<^sup>*\<^sup>* s s' \<Longrightarrow> inv s'"
  by (blast intro: reached initial_inv)

end

end
