(* ===== verification/Utf8.thy ===== *)
theory Utf8
  imports Prelude
begin

section \<open>UTF-8 decoding, encoding and case-insensitive search\<close>

text \<open>
  \<^verbatim>\<open>lib/fplinux/fplinux-utf8.c\<close> and the encoder of \<^verbatim>\<open>lib/fplinux/fplinux-text-input.c\<close>.
  A cursor with its end pointer is the list of the bytes still to read, so a decoder that
  advances the cursor returns the rest of the list, and one that fails leaves it as it was
  (\<^const>\<open>None\<close>).
\<close>

subsection \<open>Definitions\<close>

text \<open>The loop over the continuation bytes, and the statement that takes one of them in.\<close>

definition utf8_push :: "u32 \<Rightarrow> u8 \<Rightarrow> u32" where
  "utf8_push codepoint b = push_bit 6 codepoint OR ucast (b AND 0x3f)"

fun utf8_continue :: "nat \<Rightarrow> u32 \<Rightarrow> bytes \<Rightarrow> u32 option" where
  "utf8_continue 0 codepoint text = Some codepoint"
| "utf8_continue (Suc n) codepoint [] = None"
| "utf8_continue (Suc n) codepoint (b # text) =
     (if b AND 0xc0 \<noteq> 0x80 then None
      else utf8_continue n (utf8_push codepoint b) text)"

definition utf8_sequence :: "nat \<Rightarrow> u32 \<Rightarrow> bytes \<Rightarrow> (u32 \<times> bytes) option" where
  "utf8_sequence count lead text =
     (if length text < count then None
      else case utf8_continue (count - 1) lead (tl text) of
        None \<Rightarrow> None
      | Some codepoint \<Rightarrow>
          if (count = 3 \<and> codepoint < 0x800) \<or> (count = 4 \<and> codepoint < 0x10000) \<or>
             codepoint > 0x10ffff \<or> (codepoint \<ge> 0xd800 \<and> codepoint \<le> 0xdfff)
          then None else Some (codepoint, drop count text))"

fun fplinux_utf8_next :: "bytes \<Rightarrow> (u32 \<times> bytes) option" where
  "fplinux_utf8_next [] = None"
| "fplinux_utf8_next (b # rest) =
     (if b < 0x80 then Some (ucast b, rest)
      else if b \<ge> 0xc2 \<and> b \<le> 0xdf then utf8_sequence 2 (ucast (b AND 0x1f)) (b # rest)
      else if b \<ge> 0xe0 \<and> b \<le> 0xef then utf8_sequence 3 (ucast (b AND 0x0f)) (b # rest)
      else if b \<ge> 0xf0 \<and> b \<le> 0xf4 then utf8_sequence 4 (ucast (b AND 7)) (b # rest)
      else None)"

definition fplinux_text_input_encode_utf8 :: "u32 \<Rightarrow> bytes" where
  "fplinux_text_input_encode_utf8 character =
     (if character > 0x10ffff \<or> (character \<ge> 0xd800 \<and> character \<le> 0xdfff) then []
      else if character < 0x80 then [ucast character]
      else if character < 0x800 then
        [ucast (0xc0 OR drop_bit 6 character),
         ucast (0x80 OR (character AND 0x3f))]
      else if character < 0x10000 then
        [ucast (0xe0 OR drop_bit 12 character),
         ucast (0x80 OR (drop_bit 6 character AND 0x3f)),
         ucast (0x80 OR (character AND 0x3f))]
      else
        [ucast (0xf0 OR drop_bit 18 character),
         ucast (0x80 OR (drop_bit 12 character AND 0x3f)),
         ucast (0x80 OR (drop_bit 6 character AND 0x3f)),
         ucast (0x80 OR (character AND 0x3f))])"

text \<open>Case folding; a byte that starts no character folds to a value above Unicode.\<close>

fun folded_next :: "bytes \<Rightarrow> u32 \<times> bytes" where
  "folded_next [] = (0x110000, [])"
| "folded_next (b # rest) =
     (let (value, rest') =
            (case fplinux_utf8_next (b # rest) of
               Some p \<Rightarrow> p
             | None \<Rightarrow> (0x110000 + ucast b, rest))
      in (if value \<ge> 0x41 \<and> value \<le> 0x5a then value + (0x61 - 0x41)
          else if value \<ge> 0x410 \<and> value \<le> 0x42f then value + 0x20
          else if value = 0x401 then 0x451 else value, rest'))"

declare fplinux_utf8_next.simps(2) [simp del]

lemma utf8_sequence_shorter:
  "utf8_sequence n lead bs = Some (c, rest) \<Longrightarrow> 0 < n \<Longrightarrow> bs \<noteq> [] \<Longrightarrow> length rest < length bs"
  by (auto simp: utf8_sequence_def split: if_splits option.splits)

lemma utf8_next_shorter:
  "fplinux_utf8_next bs = Some (c, rest) \<Longrightarrow> length rest < length bs"
  by (cases bs) (auto simp: fplinux_utf8_next.simps(2) dest: utf8_sequence_shorter split: if_split_asm)

lemma folded_next_shorter:
  "bs \<noteq> [] \<Longrightarrow> length (snd (folded_next bs)) < length bs"
  by (cases bs) (auto simp: Let_def split: option.splits prod.splits dest!: utf8_next_shorter)

text \<open>
  The inner loop of the search: the pair tells whether no difference was met and what of
  the query is left over.
\<close>

function match_from :: "bytes \<Rightarrow> bytes \<Rightarrow> bool \<times> bytes" where
  "match_from candidate part =
     (if part \<noteq> [] \<and> candidate \<noteq> [] then
        (if fst (folded_next candidate) \<noteq> fst (folded_next part) then (False, part)
         else match_from (snd (folded_next candidate)) (snd (folded_next part)))
      else (True, part))"
  by pat_completeness auto
termination
  by (relation "measure (\<lambda>(c, p). length c)") (auto intro: folded_next_shorter)

function fplinux_utf8_contains_casefold :: "bytes \<Rightarrow> bytes \<Rightarrow> bool" where
  "fplinux_utf8_contains_casefold start needle =
     (let (matches, part) = match_from start needle in
      if matches \<and> part = [] then True
      else if start = [] then False
      else fplinux_utf8_contains_casefold (snd (folded_next start)) needle)"
  by pat_completeness auto
termination
  by (relation "measure (\<lambda>(s, n). length s)") (auto intro: folded_next_shorter)

declare match_from.simps [simp del] fplinux_utf8_contains_casefold.simps [simp del]

subsection \<open>Bytes and code points as numbers\<close>

lemma encode_byte:
  "unat (ucast (0x80 OR (c AND 0x3f) :: u32) :: u8) = 128 + unat c mod 64"
  "unat c < 32 \<Longrightarrow> unat (ucast (0xc0 OR c :: u32) :: u8) = 192 + unat c"
  "unat c < 16 \<Longrightarrow> unat (ucast (0xe0 OR c :: u32) :: u8) = 224 + unat c"
  "unat c < 8 \<Longrightarrow> unat (ucast (0xf0 OR c :: u32) :: u8) = 240 + unat c"
proof -
  have "unat (0x80 OR (c AND 0x3f)) = 128 + unat c mod 64"
    by (subst unat_or_low [where n = 6]) (auto simp: drop_bit_zero_iff unat_and_low take_bit_eq_mod)
  then show "unat (ucast (0x80 OR (c AND 0x3f) :: u32) :: u8) = 128 + unat c mod 64"
    by simp
  show "unat (ucast (0xc0 OR c :: u32) :: u8) = 192 + unat c" if "unat c < 32" 
    using that by (subst unat_ucast_u32; subst unat_or_low [where n = 5]) (auto simp: drop_bit_zero_iff unat_and_low take_bit_eq_mod)
  show "unat (ucast (0xe0 OR c :: u32) :: u8) = 224 + unat c" if "unat c < 16" 
    using that by (subst unat_ucast_u32; subst unat_or_low [where n = 4]) (auto simp: drop_bit_zero_iff unat_and_low take_bit_eq_mod)
  show "unat (ucast (0xf0 OR c :: u32) :: u8) = 240 + unat c" if "unat c < 8" 
    using that by (subst unat_ucast_u32; subst unat_or_low [where n = 3]) (auto simp: drop_bit_zero_iff unat_and_low take_bit_eq_mod)
qed

lemma unat_utf8_push:
  assumes "unat a < 2 ^ 26"
  shows "unat (utf8_push a b) = unat a * 64 + unat b mod 64"
proof -
  have p: "unat (push_bit 6 a :: u32) = unat a * 64"
    using assms by (subst unat_push_bit) simp_all
  show ?thesis unfolding utf8_push_def
    by (subst unat_or_low [where n = 6])
      (use assms in \<open>auto simp: drop_bit_zero_iff unat_and_low p take_bit_push_bit\<close>)
qed

text \<open>Unicode scalar values, and bytes that continue a character.\<close>

definition is_scalar :: "u32 \<Rightarrow> bool" where
  "is_scalar c \<longleftrightarrow> c \<le> 0x10ffff \<and> \<not> (0xd800 \<le> c \<and> c \<le> 0xdfff)"

abbreviation is_cont :: "u8 \<Rightarrow> bool" where "is_cont b \<equiv> b AND 0xc0 = 0x80"

lemma is_scalar_unat: "is_scalar c \<longleftrightarrow> unat c \<le> 0x10ffff \<and> \<not> (0xd800 \<le> unat c \<and> unat c \<le> 0xdfff)"
  by (simp add: is_scalar_def word_le_nat_alt)

lemma utf8_continue_run:
  "is_cont y \<Longrightarrow> is_cont z \<Longrightarrow> utf8_continue 2 cp (y # z # rest) = Some (utf8_push (utf8_push cp y) z)"
  "is_cont y \<Longrightarrow> is_cont z \<Longrightarrow> is_cont w \<Longrightarrow>
     utf8_continue 3 cp (y # z # w # rest) = Some (utf8_push (utf8_push (utf8_push cp y) z) w)"
  by (simp_all add: numeral_2_eq_2 numeral_3_eq_3)

lemma utf8_next_ascii: "unat b < 128 \<Longrightarrow> fplinux_utf8_next (b # rest) = Some (ucast b, rest)"
  by (simp add: fplinux_utf8_next.simps(2) word_less_nat_alt)

lemma utf8_next_lead:
  "194 \<le> unat x \<Longrightarrow> unat x \<le> 223 \<Longrightarrow> fplinux_utf8_next (x # rest) = utf8_sequence 2 (ucast (x AND 31)) (x # rest)"
  "224 \<le> unat x \<Longrightarrow> unat x \<le> 239 \<Longrightarrow> fplinux_utf8_next (x # rest) = utf8_sequence 3 (ucast (x AND 15)) (x # rest)"
  "240 \<le> unat x \<Longrightarrow> unat x \<le> 244 \<Longrightarrow> fplinux_utf8_next (x # rest) = utf8_sequence 4 (ucast (x AND 7)) (x # rest)"
  by (simp_all add: fplinux_utf8_next.simps(2) word_less_nat_alt word_le_nat_alt)

lemma utf8_continue_Some:
  "utf8_continue n cp bs = Some c \<Longrightarrow>
     n \<le> length bs \<and> (\<forall>b\<in>set (take n bs). is_cont b) \<and> c = fold (\<lambda>b cp. utf8_push cp b) (take n bs) cp"
  by (induction n cp bs rule: utf8_continue.induct) (auto split: if_split_asm)

lemma utf8_sequence_Some:
  assumes "utf8_sequence (Suc n) lead (b # text) = Some (c, rest)"
  shows "n \<le> length text" "\<forall>b\<in>set (take n text). is_cont b" "rest = drop n text" "is_scalar c"
    "c = fold (\<lambda>b cp. utf8_push cp b) (take n text) lead"
    "Suc n = 3 \<longrightarrow> 0x800 \<le> c" "Suc n = 4 \<longrightarrow> 0x10000 \<le> c"
  using assms
  by (auto simp: utf8_sequence_def is_scalar_def not_le not_less dest!: utf8_continue_Some
      split: option.split_asm if_split_asm)

lemma unat_utf8_push_chain:
  assumes "unat a < 32"
  shows "unat (utf8_push a y) = unat a * 64 + unat y mod 64"
    "unat (utf8_push (utf8_push a y) z) = (unat a * 64 + unat y mod 64) * 64 + unat z mod 64"
    "unat (utf8_push (utf8_push (utf8_push a y) z) w) =
       ((unat a * 64 + unat y mod 64) * 64 + unat z mod 64) * 64 + unat w mod 64"
proof -
  have b: "unat y mod 64 < 64" "unat z mod 64 < 64" by simp_all
  show 1: "unat (utf8_push a y) = unat a * 64 + unat y mod 64"
    using assms by (simp add: unat_utf8_push)
  show 2: "unat (utf8_push (utf8_push a y) z) = (unat a * 64 + unat y mod 64) * 64 + unat z mod 64"
    by (subst unat_utf8_push) (use assms b 1 in simp_all)
  show "unat (utf8_push (utf8_push (utf8_push a y) z) w) =
       ((unat a * 64 + unat y mod 64) * 64 + unat z mod 64) * 64 + unat w mod 64"
    by (subst unat_utf8_push) (use assms b 2 in simp_all)
qed

lemma unat_lead:
  "unat (ucast (x AND 31 :: u8) :: u32) = unat x mod 32" "unat (ucast (x AND 31 :: u8) :: u32) < 32"
  "unat (ucast (x AND 15 :: u8) :: u32) = unat x mod 16" "unat (ucast (x AND 15 :: u8) :: u32) < 32"
  "unat (ucast (x AND 7 :: u8) :: u32) = unat x mod 8" "unat (ucast (x AND 7 :: u8) :: u32) < 32"
proof -
  have "unat x mod 16 < 16" "unat x mod 8 < 8" by simp_all
  then show "unat (ucast (x AND 15 :: u8) :: u32) < 32" "unat (ucast (x AND 7 :: u8) :: u32) < 32"
    by (simp_all add: unat_and_low)
qed (simp_all add: unat_and_low)

lemma utf8_next_two:
  assumes "194 \<le> unat x" "unat x \<le> 223" "is_cont y"
    and "unat c = unat x mod 32 * 64 + unat y mod 64"
  shows "fplinux_utf8_next (x # y # rest) = Some (c, rest)"
proof -
  have c: "utf8_push (ucast (x AND 31)) y = c"
    by (rule word_unat_eq_iff [THEN iffD2]) (simp only: unat_utf8_push_chain(1) [OF unat_lead(2)] unat_lead(1) assms(4))
  have bound: "unat c < 0x800" using assms(4) by simp
  show ?thesis
    using assms(1-3) bound
    by (simp add: utf8_next_lead utf8_sequence_def c word_less_nat_alt word_le_nat_alt)
qed

lemma utf8_next_three:
  assumes "224 \<le> unat x" "unat x \<le> 239" "is_cont y" "is_cont z"
    and "unat c = (unat x mod 16 * 64 + unat y mod 64) * 64 + unat z mod 64"
    and "0x800 \<le> c" "is_scalar c"
  shows "fplinux_utf8_next (x # y # z # rest) = Some (c, rest)"
proof -
  have c: "utf8_push (utf8_push (ucast (x AND 15)) y) z = c"
    by (rule word_unat_eq_iff [THEN iffD2]) (simp only: unat_utf8_push_chain(2) [OF unat_lead(4)] unat_lead(3) assms(5))
  show ?thesis
    using assms(6,7) by (simp add: utf8_next_lead(2) [OF assms(1,2)] assms(3,4) utf8_sequence_def utf8_continue_run c is_scalar_def not_less not_le)
qed

lemma utf8_next_four:
  assumes "240 \<le> unat x" "unat x \<le> 244" "is_cont y" "is_cont z" "is_cont w"
    and "unat c = ((unat x mod 8 * 64 + unat y mod 64) * 64 + unat z mod 64) * 64 + unat w mod 64"
    and "0x10000 \<le> c" "is_scalar c"
  shows "fplinux_utf8_next (x # y # z # w # rest) = Some (c, rest)"
proof -
  have c: "utf8_push (utf8_push (utf8_push (ucast (x AND 7)) y) z) w = c"
    by (rule word_unat_eq_iff [THEN iffD2]) (simp only: unat_utf8_push_chain(3) [OF unat_lead(6)] unat_lead(5) assms(6))
  show ?thesis
    using assms(7,8) by (simp add: utf8_next_lead(3) [OF assms(1,2)] assms(3-5) utf8_sequence_def utf8_continue_run c is_scalar_def not_less not_le)
qed

text \<open>Every successful decoding has one of the four shapes.\<close>

lemma utf8_next_cases:
  assumes "fplinux_utf8_next bs = Some (c, rest)"
  obtains (one) b where "bs = b # rest" "unat b < 128" "c = ucast b"
  | (two) x y where "bs = x # y # rest" "194 \<le> unat x" "unat x \<le> 223" "is_cont y"
      "unat c = unat x mod 32 * 64 + unat y mod 64"
  | (three) x y z where "bs = x # y # z # rest" "224 \<le> unat x" "unat x \<le> 239" "is_cont y" "is_cont z"
      "unat c = (unat x mod 16 * 64 + unat y mod 64) * 64 + unat z mod 64" "0x800 \<le> c" "is_scalar c"
  | (four) x y z w where "bs = x # y # z # w # rest" "240 \<le> unat x" "unat x \<le> 244"
      "is_cont y" "is_cont z" "is_cont w"
      "unat c = ((unat x mod 8 * 64 + unat y mod 64) * 64 + unat z mod 64) * 64 + unat w mod 64"
      "0x10000 \<le> c" "is_scalar c"
proof -
  from assms obtain b tl where bs: "bs = b # tl" by (cases bs) auto
  consider "unat b < 128" | "194 \<le> unat b" "unat b \<le> 223" | "224 \<le> unat b" "unat b \<le> 239"
    | "240 \<le> unat b" "unat b \<le> 244" | "unat b > 244 \<or> (unat b < 194 \<and> unat b \<ge> 128)" by linarith
  then show thesis
  proof cases
    case 1
    with assms bs show thesis by (intro one [of b]) (auto simp: utf8_next_ascii)
  next
    case 2
    with assms bs have "utf8_sequence (Suc 1) (ucast (b AND 31)) (b # tl) = Some (c, rest)"
      by (simp add: utf8_next_lead numeral_2_eq_2)
    note s = utf8_sequence_Some [OF this]
    from s(1) obtain y tl' where tl: "tl = y # tl'" by (cases tl) auto
    show thesis
      by (rule two [of b y]) (use 2 bs tl s in \<open>auto simp: unat_utf8_push_chain(1) [OF unat_lead(2)] unat_and_low\<close>)
  next
    case 3
    with assms bs have "utf8_sequence (Suc 2) (ucast (b AND 15)) (b # tl) = Some (c, rest)"
      by (simp add: utf8_next_lead numeral_3_eq_3 numeral_2_eq_2)
    note s = utf8_sequence_Some [OF this]
    from s(1) obtain y z tl' where tl: "tl = y # z # tl'"
      by (auto simp: Suc_le_length_iff numeral_2_eq_2)
    show thesis
      by (rule three [of b y z])
        (use 3 bs tl s in \<open>auto simp: numeral_2_eq_2 unat_utf8_push_chain(2) [OF unat_lead(4)] unat_and_low\<close>)
  next
    case 4
    with assms bs have "utf8_sequence (Suc 3) (ucast (b AND 7)) (b # tl) = Some (c, rest)"
      by (simp add: utf8_next_lead)
    note s = utf8_sequence_Some [OF this]
    from s(1) obtain y z w tl' where tl: "tl = y # z # w # tl'"
      by (auto simp: Suc_le_length_iff numeral_3_eq_3)
    show thesis
      by (rule four [of b y z w])
        (use 4 bs tl s in \<open>auto simp: numeral_3_eq_3 unat_utf8_push_chain(3) [OF unat_lead(6)] unat_and_low\<close>)
  next
    case 5
    with assms bs show thesis
      by (auto simp: fplinux_utf8_next.simps(2) word_less_nat_alt word_le_nat_alt)
  qed
qed

subsection \<open>Decoder and encoder are inverse\<close>

lemma encode_unat:
  "unat c < 0x80 \<Longrightarrow> fplinux_text_input_encode_utf8 c = [ucast c]"
  "0x80 \<le> unat c \<Longrightarrow> unat c < 0x800 \<Longrightarrow> fplinux_text_input_encode_utf8 c =
     [ucast (0xc0 OR drop_bit 6 c), ucast (0x80 OR (c AND 0x3f))]"
  "0x800 \<le> unat c \<Longrightarrow> unat c < 0x10000 \<Longrightarrow> is_scalar c \<Longrightarrow> fplinux_text_input_encode_utf8 c =
     [ucast (0xe0 OR drop_bit 12 c), ucast (0x80 OR (drop_bit 6 c AND 0x3f)), ucast (0x80 OR (c AND 0x3f))]"
  "0x10000 \<le> unat c \<Longrightarrow> is_scalar c \<Longrightarrow> fplinux_text_input_encode_utf8 c =
     [ucast (0xf0 OR drop_bit 18 c), ucast (0x80 OR (drop_bit 12 c AND 0x3f)),
      ucast (0x80 OR (drop_bit 6 c AND 0x3f)), ucast (0x80 OR (c AND 0x3f))]"
  by (auto simp: fplinux_text_input_encode_utf8_def is_scalar_unat word_less_nat_alt word_le_nat_alt)

lemma is_cont_tail: "is_cont (ucast (0x80 OR (c AND 0x3f) :: u32))"
  by (simp add: cont_byte_iff encode_byte)

lemma digits64:
  fixes n :: nat
  shows "n div 64 * 64 + n mod 64 = n"
    "(n div 4096 * 64 + n div 64 mod 64) * 64 + n mod 64 = n"
    "((n div 262144 * 64 + n div 4096 mod 64) * 64 + n div 64 mod 64) * 64 + n mod 64 = n"
proof -
  have d: "n div 4096 = n div 64 div 64" "n div 262144 = n div 4096 div 64"
    by (simp_all add: div_mult2_eq [symmetric])
  show 1: "n div 64 * 64 + n mod 64 = n" by (rule div_mult_mod_eq)
  show 2: "(n div 4096 * 64 + n div 64 mod 64) * 64 + n mod 64 = n"
    by (simp only: d div_mult_mod_eq)
  show "((n div 262144 * 64 + n div 4096 mod 64) * 64 + n div 64 mod 64) * 64 + n mod 64 = n"
    by (simp only: d div_mult_mod_eq)
qed

lemma marker_mod:
  fixes n :: nat
  shows "n < 32 \<Longrightarrow> (192 + n) mod 32 = n" "n < 16 \<Longrightarrow> (224 + n) mod 16 = n" "n < 8 \<Longrightarrow> (240 + n) mod 8 = n"
    "(128 + n mod 64) mod 64 = n mod 64"
  using mod_mult_self3 [of 6 32 n] mod_mult_self3 [of 14 16 n] mod_mult_self3 [of 30 8 n]
    mod_mult_self3 [of 2 64 "n mod 64"] by simp_all

lemma decode_encode:
  assumes "is_scalar c"
  shows "fplinux_utf8_next (fplinux_text_input_encode_utf8 c @ rest) = Some (c, rest)"
proof -
  have u: "unat c \<le> 0x10ffff" using assms by (simp add: is_scalar_unat)
  consider "unat c < 0x80" | "0x80 \<le> unat c" "unat c < 0x800" | "0x800 \<le> unat c" "unat c < 0x10000"
    | "0x10000 \<le> unat c" by linarith
  then show ?thesis
  proof cases
    case 1
    then have "ucast (ucast c :: u8) = c" by (simp add: word_unat_eq_iff)
    with 1 show ?thesis by (simp add: encode_unat utf8_next_ascii)
  next
    case 2
    then have d: "unat c div 64 < 32" "2 \<le> unat c div 64" by auto
    then have x: "unat (ucast (0xc0 OR drop_bit 6 c) :: u8) = 192 + unat c div 64"
      by (subst encode_byte) (simp_all add: unat_drop_bit)
    have eq: "unat c = unat (ucast (0xc0 OR drop_bit 6 c) :: u8) mod 32 * 64 +
        unat (ucast (0x80 OR (c AND 0x3f)) :: u8) mod 64"
      by (simp only: x encode_byte(1) marker_mod(1) [OF d(1)] marker_mod(4) digits64)
    show ?thesis unfolding encode_unat(2) [OF 2] append.simps
      by (rule utf8_next_two [OF _ _ is_cont_tail eq]) (use d x in simp_all)
  next
    case 3
    then have d: "unat c div 4096 < 16" by auto
    then have x: "unat (ucast (0xe0 OR drop_bit 12 c) :: u8) = 224 + unat c div 4096"
      by (subst encode_byte) (simp_all add: unat_drop_bit)
    have y: "unat (ucast (0x80 OR (drop_bit 6 c AND 0x3f)) :: u8) = 128 + unat c div 64 mod 64"
      by (simp add: encode_byte unat_drop_bit)
    have eq: "unat c = (unat (ucast (0xe0 OR drop_bit 12 c) :: u8) mod 16 * 64 +
        unat (ucast (0x80 OR (drop_bit 6 c AND 0x3f)) :: u8) mod 64) * 64 +
        unat (ucast (0x80 OR (c AND 0x3f)) :: u8) mod 64"
      by (simp only: x y encode_byte(1) [of c] marker_mod(2) [OF d(1)] marker_mod(4) digits64)
    show ?thesis unfolding encode_unat(3) [OF 3 assms] append.simps
      by (rule utf8_next_three [OF _ _ is_cont_tail is_cont_tail eq])
        (use 3 d x assms in \<open>simp_all add: word_le_nat_alt\<close>)
  next
    case 4
    then have d: "unat c div 262144 < 5" using u by auto
    then have x: "unat (ucast (0xf0 OR drop_bit 18 c) :: u8) = 240 + unat c div 262144"
      by (subst encode_byte) (simp_all add: unat_drop_bit)
    have y: "unat (ucast (0x80 OR (drop_bit 6 c AND 0x3f)) :: u8) = 128 + unat c div 64 mod 64"
      "unat (ucast (0x80 OR (drop_bit 12 c AND 0x3f)) :: u8) = 128 + unat c div 4096 mod 64"
      by (simp_all add: encode_byte unat_drop_bit)
    from d have d8: "unat c div 262144 < 8" by simp
    have eq: "unat c = ((unat (ucast (0xf0 OR drop_bit 18 c) :: u8) mod 8 * 64 +
        unat (ucast (0x80 OR (drop_bit 12 c AND 0x3f)) :: u8) mod 64) * 64 +
        unat (ucast (0x80 OR (drop_bit 6 c AND 0x3f)) :: u8) mod 64) * 64 +
        unat (ucast (0x80 OR (c AND 0x3f)) :: u8) mod 64"
      by (simp only: x y encode_byte(1) [of c] marker_mod(3) [OF d8] marker_mod(4) digits64)
    show ?thesis unfolding encode_unat(4) [OF 4 assms] append.simps
      by (rule utf8_next_four [OF _ _ is_cont_tail is_cont_tail is_cont_tail eq])
        (use 4 d x assms in \<open>simp_all add: word_le_nat_alt\<close>)
  qed
qed

lemma byte_eqI: "unat (x :: u8) = unat y \<Longrightarrow> x = y"
  by (rule word_unat_eq_iff [THEN iffD2])

lemma cont_byteE:
  assumes "is_cont y"
  obtains i where "unat y = 128 + i" "i < 64" "unat y mod 64 = i"
proof
  from assms have b: "128 \<le> unat y" "unat y < 192" by (simp_all add: cont_byte_iff)
  show y: "unat y = 128 + (unat y - 128)" "unat y - 128 < 64" using b by simp_all
  show "unat y mod 64 = unat y - 128"
    by (subst y(1)) (use y(2) marker_mod(4) [of "unat y - 128"] in simp)
qed

lemma digits64_inverse:
  fixes i j k l :: nat
  assumes "i < 64" "k < 64" "l < 64"
  shows "(j * 64 + i) div 64 = j" "(j * 64 + i) mod 64 = i"
    "((j * 64 + i) * 64 + k) div 4096 = j" "((j * 64 + i) * 64 + k) div 64 = j * 64 + i"
    "((j * 64 + i) * 64 + k) mod 64 = k"
    "(((j * 64 + i) * 64 + k) * 64 + l) div 262144 = j"
    "(((j * 64 + i) * 64 + k) * 64 + l) div 4096 = j * 64 + i"
    "(((j * 64 + i) * 64 + k) * 64 + l) div 64 = (j * 64 + i) * 64 + k"
    "(((j * 64 + i) * 64 + k) * 64 + l) mod 64 = l"
proof -
  have one: "(m * 64 + n) div 64 = m" "(m * 64 + n) mod 64 = n" if "n < 64" for m n :: nat
    using that by simp_all
  have two: "m div 4096 = m div 64 div 64" "m div 262144 = m div 64 div 64 div 64" for m :: nat
    by (simp_all add: div_mult2_eq [symmetric])
  show "(j * 64 + i) div 64 = j" "(j * 64 + i) mod 64 = i"
    "((j * 64 + i) * 64 + k) div 4096 = j" "((j * 64 + i) * 64 + k) div 64 = j * 64 + i"
    "((j * 64 + i) * 64 + k) mod 64 = k"
    "(((j * 64 + i) * 64 + k) * 64 + l) div 262144 = j"
    "(((j * 64 + i) * 64 + k) * 64 + l) div 4096 = j * 64 + i"
    "(((j * 64 + i) * 64 + k) * 64 + l) div 64 = (j * 64 + i) * 64 + k"
    "(((j * 64 + i) * 64 + k) * 64 + l) mod 64 = l"
    by (simp_all only: two one [OF assms(1)] one [OF assms(2)] one [OF assms(3)])
qed

lemma encode_decode:
  assumes "fplinux_utf8_next bs = Some (c, rest)"
  shows "is_scalar c \<and> bs = fplinux_text_input_encode_utf8 c @ rest"
  using assms
proof (cases rule: utf8_next_cases)
  case (one b)
  then have u: "unat c < 0x80" by simp
  with one show ?thesis by (auto simp: encode_unat is_scalar_unat intro!: byte_eqI)
next
  case (two x y)
  from two(4) obtain i where y: "unat y = 128 + i" "i < 64" "unat y mod 64 = i" by (rule cont_byteE)
  define j where "j = unat x - 192"
  have x: "unat x = 192 + j" "j < 32" "2 \<le> j" using two(2,3) by (simp_all add: j_def)
  then have xm: "unat x mod 32 = j" by (simp only: marker_mod)
  have c: "unat c = j * 64 + i" by (simp only: two(5) xm y(3))
  then have r: "0x80 \<le> unat c" "unat c < 0x800" using x y by simp_all
  show ?thesis unfolding two(1) encode_unat(2) [OF r]
    using r x y by (auto simp: is_scalar_unat encode_byte unat_drop_bit c digits64_inverse intro!: byte_eqI)
next
  case (three x y z)
  from three(4) obtain i where y: "unat y = 128 + i" "i < 64" "unat y mod 64 = i" by (rule cont_byteE)
  from three(5) obtain k where z: "unat z = 128 + k" "k < 64" "unat z mod 64 = k" by (rule cont_byteE)
  define j where "j = unat x - 224"
  have x: "unat x = 224 + j" "j < 16" using three(2,3) by (simp_all add: j_def)
  then have xm: "unat x mod 16 = j" by (simp only: marker_mod)
  have c: "unat c = (j * 64 + i) * 64 + k" by (simp only: three(6) xm y(3) z(3))
  then have r: "0x800 \<le> unat c" "unat c < 0x10000" using three(7) x y z by (simp_all add: word_le_nat_alt)
  have d: "unat c div 4096 = j" "unat c div 64 mod 64 = i" "unat c mod 64 = k"
    by (simp_all only: c digits64_inverse [OF y(2) z(2) z(2)])
  show ?thesis unfolding three(1) encode_unat(3) [OF r three(8)]
    using three(8) x y z by (auto simp: encode_byte unat_drop_bit d intro!: byte_eqI)
next
  case (four x y z w)
  from four(4) obtain i where y: "unat y = 128 + i" "i < 64" "unat y mod 64 = i" by (rule cont_byteE)
  from four(5) obtain k where z: "unat z = 128 + k" "k < 64" "unat z mod 64 = k" by (rule cont_byteE)
  from four(6) obtain l where w: "unat w = 128 + l" "l < 64" "unat w mod 64 = l" by (rule cont_byteE)
  define j where "j = unat x - 240"
  have x: "unat x = 240 + j" "j < 8" using four(2,3) by (simp_all add: j_def)
  then have xm: "unat x mod 8 = j" by (simp only: marker_mod)
  have c: "unat c = ((j * 64 + i) * 64 + k) * 64 + l" by (simp only: four(7) xm y(3) z(3) w(3))
  have r: "0x10000 \<le> unat c" using four(8) by (simp add: word_le_nat_alt)
  have d: "unat c div 262144 = j" "unat c div 4096 mod 64 = i" "unat c div 64 mod 64 = k" "unat c mod 64 = l"
    by (simp_all only: c digits64_inverse [OF y(2) z(2) w(2)])
  show ?thesis unfolding four(1) encode_unat(4) [OF r four(9)]
    using four(9) x y z w by (auto simp: encode_byte unat_drop_bit d intro!: byte_eqI)
qed
subsection \<open>Whole texts\<close>

function utf8_decode :: "bytes \<Rightarrow> u32 list option" where
  "utf8_decode bs =
     (if bs = [] then Some []
      else case fplinux_utf8_next bs of
        None \<Rightarrow> None
      | Some (c, rest) \<Rightarrow> map_option (Cons c) (utf8_decode rest))"
  by pat_completeness auto
termination
  by (relation "measure length") (auto dest: utf8_next_shorter)

declare utf8_decode.simps [simp del]

definition utf8_encode :: "u32 list \<Rightarrow> bytes" where
  "utf8_encode cs = concat (map fplinux_text_input_encode_utf8 cs)"

definition valid_utf8 :: "bytes \<Rightarrow> bool" where
  "valid_utf8 bs \<longleftrightarrow> utf8_decode bs \<noteq> None"

lemma utf8_encode_simps [simp]:
  "utf8_encode [] = []" "utf8_encode (c # cs) = fplinux_text_input_encode_utf8 c @ utf8_encode cs"
  "utf8_encode (cs @ ds) = utf8_encode cs @ utf8_encode ds"
  by (simp_all add: utf8_encode_def)

lemma encode_nonempty: "is_scalar c \<Longrightarrow> fplinux_text_input_encode_utf8 c \<noteq> []"
  using decode_encode [of c "[]"] by auto

lemma utf8_decode_encode: "\<forall>c\<in>set cs. is_scalar c \<Longrightarrow> utf8_decode (utf8_encode cs) = Some cs"
  by (induction cs) (auto simp: utf8_decode.simps [of "_ @ _"] utf8_decode.simps [of "[]"] decode_encode encode_nonempty)

lemma utf8_decode_Some:
  "utf8_decode bs = Some cs \<Longrightarrow> bs = utf8_encode cs \<and> (\<forall>c\<in>set cs. is_scalar c)"
proof (induction bs arbitrary: cs rule: utf8_decode.induct)
  case (1 bs)
  show ?case
  proof (cases "bs = []")
    case True
    with "1.prems" show ?thesis by (simp add: utf8_decode.simps)
  next
    case False
    with "1.prems" obtain c rest cs' where n: "fplinux_utf8_next bs = Some (c, rest)"
      and r: "utf8_decode rest = Some cs'" and cs: "cs = c # cs'"
      by (auto simp: utf8_decode.simps [of bs] split: option.splits prod.splits)
    from "1.IH" [OF False n refl r] encode_decode [OF n] cs show ?thesis by simp
  qed
qed

lemma valid_utf8_iff: "valid_utf8 bs \<longleftrightarrow> (\<exists>cs. bs = utf8_encode cs \<and> (\<forall>c\<in>set cs. is_scalar c))"
  unfolding valid_utf8_def using utf8_decode_Some utf8_decode_encode by fastforce

lemma valid_utf8_Nil [simp]: "valid_utf8 []"
  by (simp add: valid_utf8_def utf8_decode.simps)

lemma valid_utf8_append: "valid_utf8 xs \<Longrightarrow> valid_utf8 ys \<Longrightarrow> valid_utf8 (xs @ ys)"
  unfolding valid_utf8_iff by (metis UnE set_append utf8_encode_simps(3))

lemma valid_utf8_encode1: "is_scalar c \<Longrightarrow> valid_utf8 (fplinux_text_input_encode_utf8 c)"
  unfolding valid_utf8_iff by (rule exI [of _ "[c]"]) simp

subsection \<open>The search is a search for a contiguous part\<close>

function casefold :: "bytes \<Rightarrow> u32 list" where
  "casefold bs = (if bs = [] then [] else fst (folded_next bs) # casefold (snd (folded_next bs)))"
  by pat_completeness auto
termination
  by (relation "measure length") (auto intro: folded_next_shorter)

declare casefold.simps [simp del]

lemma casefold_Nil [simp]: "casefold [] = []"
  by (simp add: casefold.simps)

lemma casefold_step: "bs \<noteq> [] \<Longrightarrow> casefold bs = fst (folded_next bs) # casefold (snd (folded_next bs))"
  by (simp add: casefold.simps [of bs])

lemma casefold_eq_Nil [simp]: "casefold bs = [] \<longleftrightarrow> bs = []"
  by (auto simp: casefold.simps [of bs])

lemma match_from_prefix:
  "fst (match_from candidate part) \<and> snd (match_from candidate part) = [] \<longleftrightarrow>
     prefix (casefold part) (casefold candidate)"
proof (induction candidate part rule: match_from.induct)
  case (1 candidate part)
  then show ?case
    by (auto simp: match_from.simps [of candidate part] casefold_step [of candidate] casefold_step [of part])
qed

text \<open>
  The search finds a text in another exactly when the case-folded characters of the one occur as
  a contiguous part of those of the other, whatever bytes are no UTF-8 in either.
\<close>

theorem contains_casefold_sublist:
  "fplinux_utf8_contains_casefold start needle \<longleftrightarrow> sublist (casefold needle) (casefold start)"
proof (induction start needle rule: fplinux_utf8_contains_casefold.induct)
  case (1 start needle)
  obtain m p where mp: "match_from start needle = (m, p)" by fastforce
  from match_from_prefix [of start needle] mp
  have pre: "m \<and> p = [] \<longleftrightarrow> prefix (casefold needle) (casefold start)" by simp
  show ?case
  proof (cases "start = [] \<or> (m \<and> p = [])")
    case True
    with pre mp show ?thesis
      by (auto simp: fplinux_utf8_contains_casefold.simps [of start needle])
  next
    case False
    with "1.IH" [OF refl mp [symmetric]] have
      "fplinux_utf8_contains_casefold (snd (folded_next start)) needle \<longleftrightarrow>
       sublist (casefold needle) (casefold (snd (folded_next start)))" by simp
    with False pre mp show ?thesis
      by (auto simp: fplinux_utf8_contains_casefold.simps [of start needle] casefold_step [of start] sublist_Cons_right)
  qed
qed

subsection \<open>The codec as a whole\<close>

text \<open>
  C23. The decoder and the encoder agree: the decoder accepts the bytes in front of it as a character
  exactly when they begin with the encoding of that Unicode scalar value, and then leaves the bytes
  after it.  Overlong forms, surrogates, values past U+10FFFF, stray and missing continuation bytes
  are thereby refused.
\<close>

theorem utf8_codec_exact:
  "fplinux_utf8_next bs = Some (c, rest) \<longleftrightarrow> is_scalar c \<and> bs = fplinux_text_input_encode_utf8 c @ rest"
  using encode_decode decode_encode by blast

end
