(* ===== verification/Language.thy ===== *)
theory Language
  imports Utf8 "HOL-Library.List_Lexorder" "HOL-Library.Multiset"
begin

section \<open>Language definition files\<close>

text \<open>
  \<^verbatim>\<open>lib/fplinux/fplinux-language.c\<close>: the reader of \<^verbatim>\<open>key=value\<close> language files, the
  built-in English definition and the directory listing.  The C library's file system is a
  parameter: a path leads to the error of \<^verbatim>\<open>fopen\<close> or to the bytes that \<^verbatim>\<open>getline\<close>
  delivers together with the error that ended the reading, if any.  Every \<^verbatim>\<open>char[n]\<close>
  member holds the string before its NUL; the reader checks the size before it copies.
\<close>

subsection \<open>Data\<close>

definition LANGUAGE_CODE_BYTES :: nat where "LANGUAGE_CODE_BYTES = 4"
definition LANGUAGE_TEXT_BYTES :: nat where "LANGUAGE_TEXT_BYTES = 64"
definition LANGUAGE_KEYS :: nat where "LANGUAGE_KEYS = 10"
definition PATH_MAX :: nat where "PATH_MAX = 4096"

datatype fplinux_language_case = LANGUAGE_SENTENCE | LANGUAGE_LOWER | LANGUAGE_UPPER

datatype errno = EINVAL | ENAMETOOLONG | ENOMEM | EIO | ENOENT | E2BIG | EOTHER nat

record fplinux_language =
  la_code :: bytes
  la_name :: bytes
  la_lang :: bytes
  la_system :: bool
  la_input :: bool
  la_decimal :: u8
  la_date_long :: bytes
  la_date_short :: bytes
  la_weekday :: "bytes list"
  la_month :: "bytes list"
  la_month_genitive :: "bytes list"
  la_indicator :: "bytes list"
  la_multitap :: "bytes list"
  la_xkb :: bytes

definition zero_language :: fplinux_language where
  "zero_language = \<lparr> la_code = [], la_name = [], la_lang = [], la_system = False, la_input = False,
     la_decimal = 0, la_date_long = [], la_date_short = [], la_weekday = replicate 7 [],
     la_month = replicate 12 [], la_month_genitive = replicate 12 [],
     la_indicator = replicate 3 [], la_multitap = replicate LANGUAGE_KEYS [], la_xkb = [] \<rparr>"

record reader =
  rd_language :: fplinux_language
  rd_system :: bytes
  rd_input :: bytes
  rd_decimal :: bytes
  rd_seen :: u64

text \<open>The bit of each key in \<^verbatim>\<open>reader.seen\<close>.\<close>

abbreviation (input) SLOT_NAME :: nat where "SLOT_NAME \<equiv> 0"
abbreviation (input) SLOT_LANG :: nat where "SLOT_LANG \<equiv> 1"
abbreviation (input) SLOT_SYSTEM :: nat where "SLOT_SYSTEM \<equiv> 2"
abbreviation (input) SLOT_INPUT :: nat where "SLOT_INPUT \<equiv> 3"
abbreviation (input) SLOT_DECIMAL :: nat where "SLOT_DECIMAL \<equiv> 4"
abbreviation (input) SLOT_DATE_LONG :: nat where "SLOT_DATE_LONG \<equiv> 5"
abbreviation (input) SLOT_DATE_SHORT :: nat where "SLOT_DATE_SHORT \<equiv> 6"
abbreviation (input) SLOT_XKB :: nat where "SLOT_XKB \<equiv> 7"
abbreviation (input) SLOT_INDICATOR :: nat where "SLOT_INDICATOR \<equiv> 8"
abbreviation (input) SLOT_WEEKDAY :: nat where "SLOT_WEEKDAY \<equiv> SLOT_INDICATOR + 3"
abbreviation (input) SLOT_MONTH :: nat where "SLOT_MONTH \<equiv> SLOT_WEEKDAY + 7"
abbreviation (input) SLOT_MONTH_GENITIVE :: nat where "SLOT_MONTH_GENITIVE \<equiv> SLOT_MONTH + 12"
abbreviation (input) SLOT_MULTITAP :: nat where "SLOT_MULTITAP \<equiv> SLOT_MONTH_GENITIVE + 12"

text \<open>The buffer a key's value is stored in; in the source a pointer into the reader.\<close>

datatype place = P_name | P_lang | P_system | P_input | P_decimal | P_date_long | P_date_short
  | P_xkb | P_indicator nat | P_weekday nat | P_month nat | P_month_genitive nat | P_multitap nat

record target =
  tg_text :: place
  tg_size :: nat
  tg_slot :: nat

definition english :: fplinux_language where
  "english = \<lparr>
     la_code = bytes_of ''en'',
     la_name = bytes_of ''English'',
     la_lang = bytes_of ''en_US.UTF-8'',
     la_system = True,
     la_input = True,
     la_decimal = 0x2e,
     la_date_long = bytes_of ''{weekday}, {month} {day}'',
     la_date_short = bytes_of ''{mm}/{dd}/{yyyy}'',
     la_weekday = map bytes_of [''Sunday'', ''Monday'', ''Tuesday'', ''Wednesday'', ''Thursday'',
       ''Friday'', ''Saturday''],
     la_month = map bytes_of [''January'', ''February'', ''March'', ''April'', ''May'', ''June'',
       ''July'', ''August'', ''September'', ''October'', ''November'', ''December''],
     la_month_genitive = map bytes_of [''January'', ''February'', ''March'', ''April'', ''May'',
       ''June'', ''July'', ''August'', ''September'', ''October'', ''November'', ''December''],
     la_indicator = map bytes_of [''Abc'', ''abc'', ''ABC''],
     la_multitap = [bytes_of '' 0'',
       bytes_of ''.,?!1@'' @ [0x27, 0x22] @ bytes_of ''-()/:_;+&%*=$#^'',
       bytes_of ''abc2'', bytes_of ''def3'', bytes_of ''ghi4'', bytes_of ''jkl5'', bytes_of ''mno6'',
       bytes_of ''pqrs7'', bytes_of ''tuv8'', bytes_of ''wxyz9''],
     la_xkb = bytes_of ''us'' \<rparr>"

definition fplinux_language_english :: fplinux_language where
  "fplinux_language_english = english"

subsection \<open>Character classes\<close>

definition is_lower :: "u8 \<Rightarrow> bool" where "is_lower b \<longleftrightarrow> 0x61 \<le> b \<and> b \<le> 0x7a"
definition is_upper :: "u8 \<Rightarrow> bool" where "is_upper b \<longleftrightarrow> 0x41 \<le> b \<and> b \<le> 0x5a"
definition is_digit :: "u8 \<Rightarrow> bool" where "is_digit b \<longleftrightarrow> 0x30 \<le> b \<and> b \<le> 0x39"

definition is_code :: "bytes \<Rightarrow> bool" where
  "is_code code =
     (let len = length (takeWhile is_lower code)
      in (len = 2 \<or> len = 3) \<and> len = length code)"

definition is_key :: "bytes \<Rightarrow> bool" where
  "is_key key =
     (let len = length (takeWhile (\<lambda>b. is_lower b \<or> is_upper b \<or> is_digit b \<or>
            b \<in> set (bytes_of ''._-'')) key)
      in len \<noteq> 0 \<and> len = length key)"

function is_text :: "bytes \<Rightarrow> bool" where
  "is_text cursor =
     (if cursor = [] then True
      else case fplinux_utf8_next cursor of
        None \<Rightarrow> False
      | Some (code, rest) \<Rightarrow>
          if code < 0x20 \<or> (code \<ge> 0x7f \<and> code \<le> 0x9f) then False else is_text rest)"
  by pat_completeness auto
termination
  by (relation "measure length") (auto dest: utf8_next_shorter)

declare is_text.simps [simp del]

fun unescape :: "bytes \<Rightarrow> bytes option" where
  "unescape [] = Some []"
| "unescape (b # bs) =
     (if b = 0x5c then
        (case bs of
           [] \<Rightarrow> None
         | e # rest \<Rightarrow>
             if e = 0x6e then map_option (Cons 0x0a) (unescape rest)
             else if e = 0x72 then map_option (Cons 0x0d) (unescape rest)
             else if e = 0x5c then map_option (Cons 0x5c) (unescape rest)
             else None)
      else map_option (Cons b) (unescape bs))"

subsection \<open>Keys and their targets\<close>

fun key_digits :: "nat \<Rightarrow> bytes \<Rightarrow> nat option" where
  "key_digits value [] = Some value"
| "key_digits value (d # ds) =
     (if d < 0x30 \<or> d > 0x39 \<or> value > 100 then None
      else key_digits (value * 10 + unat (d - 0x30)) ds)"

definition key_index :: "bytes \<Rightarrow> bytes \<Rightarrow> nat \<Rightarrow> nat \<Rightarrow> nat option" where
  "key_index key pre first cnt =
     (let digits = drop (length pre) key in
      if take (length pre) key \<noteq> pre \<or> digits = [] \<or> (hd digits = 0x30 \<and> tl digits \<noteq> []) then None
      else case key_digits 0 digits of
        None \<Rightarrow> None
      | Some value \<Rightarrow>
          if value < first \<or> value - first \<ge> cnt then None else Some (value - first))"

definition set_target :: "place \<Rightarrow> nat \<Rightarrow> nat \<Rightarrow> target option" where
  "set_target p sz slot = Some \<lparr> tg_text = p, tg_size = sz, tg_slot = slot \<rparr>"

definition find_target :: "bytes \<Rightarrow> target option" where
  "find_target key =
     (let txt = LANGUAGE_TEXT_BYTES in
      if key = bytes_of ''name'' then set_target P_name txt SLOT_NAME
      else if key = bytes_of ''lang'' then set_target P_lang txt SLOT_LANG
      else if key = bytes_of ''system'' then set_target P_system txt SLOT_SYSTEM
      else if key = bytes_of ''input'' then set_target P_input txt SLOT_INPUT
      else if key = bytes_of ''decimal'' then set_target P_decimal txt SLOT_DECIMAL
      else if key = bytes_of ''date.long'' then set_target P_date_long txt SLOT_DATE_LONG
      else if key = bytes_of ''date.short'' then set_target P_date_short txt SLOT_DATE_SHORT
      else if key = bytes_of ''xkb'' then set_target P_xkb (LANGUAGE_CODE_BYTES * 4) SLOT_XKB
      else if key = bytes_of ''input.indicator.sentence'' then
        set_target (P_indicator 0) txt (SLOT_INDICATOR + 0)
      else if key = bytes_of ''input.indicator.lower'' then
        set_target (P_indicator 1) txt (SLOT_INDICATOR + 1)
      else if key = bytes_of ''input.indicator.upper'' then
        set_target (P_indicator 2) txt (SLOT_INDICATOR + 2)
      else case key_index key (bytes_of ''weekday.'') 0 7 of
        Some i \<Rightarrow> set_target (P_weekday i) txt (SLOT_WEEKDAY + i)
      | None \<Rightarrow>
     (case key_index key (bytes_of ''month.genitive.'') 1 12 of
        Some i \<Rightarrow> set_target (P_month_genitive i) txt (SLOT_MONTH_GENITIVE + i)
      | None \<Rightarrow>
     (case key_index key (bytes_of ''month.'') 1 12 of
        Some i \<Rightarrow> set_target (P_month i) txt (SLOT_MONTH + i)
      | None \<Rightarrow>
     (case key_index key (bytes_of ''multitap.'') 0 LANGUAGE_KEYS of
        Some i \<Rightarrow> set_target (P_multitap i) txt (SLOT_MULTITAP + i)
      | None \<Rightarrow> None))))"

text \<open>The \<^verbatim>\<open>strcpy\<close> into the target.\<close>

fun store :: "place \<Rightarrow> bytes \<Rightarrow> reader \<Rightarrow> reader" where
  "store P_name v r = r\<lparr>rd_language := (rd_language r)\<lparr>la_name := v\<rparr>\<rparr>"
| "store P_lang v r = r\<lparr>rd_language := (rd_language r)\<lparr>la_lang := v\<rparr>\<rparr>"
| "store P_system v r = r\<lparr>rd_system := v\<rparr>"
| "store P_input v r = r\<lparr>rd_input := v\<rparr>"
| "store P_decimal v r = r\<lparr>rd_decimal := v\<rparr>"
| "store P_date_long v r = r\<lparr>rd_language := (rd_language r)\<lparr>la_date_long := v\<rparr>\<rparr>"
| "store P_date_short v r = r\<lparr>rd_language := (rd_language r)\<lparr>la_date_short := v\<rparr>\<rparr>"
| "store P_xkb v r = r\<lparr>rd_language := (rd_language r)\<lparr>la_xkb := v\<rparr>\<rparr>"
| "store (P_indicator i) v r =
     r\<lparr>rd_language := (rd_language r)\<lparr>la_indicator := (la_indicator (rd_language r))[i := v]\<rparr>\<rparr>"
| "store (P_weekday i) v r =
     r\<lparr>rd_language := (rd_language r)\<lparr>la_weekday := (la_weekday (rd_language r))[i := v]\<rparr>\<rparr>"
| "store (P_month i) v r =
     r\<lparr>rd_language := (rd_language r)\<lparr>la_month := (la_month (rd_language r))[i := v]\<rparr>\<rparr>"
| "store (P_month_genitive i) v r =
     r\<lparr>rd_language := (rd_language r)\<lparr>la_month_genitive := (la_month_genitive (rd_language r))[i := v]\<rparr>\<rparr>"
| "store (P_multitap i) v r =
     r\<lparr>rd_language := (rd_language r)\<lparr>la_multitap := (la_multitap (rd_language r))[i := v]\<rparr>\<rparr>"

definition read_line :: "reader \<Rightarrow> bytes \<Rightarrow> reader option" where
  "read_line r line =
     (if 0x3d \<notin> set line then None
      else
        let key = takeWhile (\<lambda>b. b \<noteq> 0x3d) line;
            raw = tl (dropWhile (\<lambda>b. b \<noteq> 0x3d) line)
        in if \<not> is_key key then None
           else case unescape raw of
             None \<Rightarrow> None
           | Some value \<Rightarrow>
               if \<not> is_text value then None
               else case find_target key of
                 None \<Rightarrow> Some r
               | Some t \<Rightarrow>
                   if rd_seen r AND push_bit (tg_slot t) 1 \<noteq> 0 \<or> length value \<ge> tg_size t then None
                   else Some (store (tg_text t) value
                          (r\<lparr>rd_seen := rd_seen r OR push_bit (tg_slot t) 1\<rparr>)))"

subsection \<open>Validation of a whole file\<close>

definition date_fields :: "bytes list" where
  "date_fields = map bytes_of [''weekday'', ''day'', ''dd'', ''month'', ''month.genitive'', ''mm'', ''yyyy'']"

function is_date_pattern_from :: "bytes \<Rightarrow> bool" where
  "is_date_pattern_from pattern =
     (case pattern of
        [] \<Rightarrow> True
      | b # rest \<Rightarrow>
          if b = 0x7d then False
          else if b \<noteq> 0x7b then is_date_pattern_from rest
          else if 0x7d \<notin> set rest then False
          else if takeWhile (\<lambda>c. c \<noteq> 0x7d) rest \<notin> set date_fields then False
          else is_date_pattern_from (tl (dropWhile (\<lambda>c. c \<noteq> 0x7d) rest)))"
  by pat_completeness auto
termination
  by (relation "measure length") (auto simp: less_Suc_eq_le intro: le_trans [OF diff_le_self length_dropWhile_le])

declare is_date_pattern_from.simps [simp del]

definition is_date_pattern :: "bytes \<Rightarrow> bool" where
  "is_date_pattern pattern \<longleftrightarrow> pattern \<noteq> [] \<and> is_date_pattern_from pattern"

text \<open>\<^const>\<open>None\<close> when the text is no flag, otherwise the flag.\<close>

definition read_flag :: "bytes \<Rightarrow> bool option" where
  "read_flag txt =
     (let flag = (txt = bytes_of ''yes'')
      in if flag \<or> txt = [] \<or> txt = bytes_of ''no'' then Some flag else None)"

definition is_lang :: "bytes \<Rightarrow> bool" where
  "is_lang lang =
     (let len = length (takeWhile (\<lambda>b. is_lower b \<or> is_upper b \<or> is_digit b \<or>
            b \<in> set (bytes_of ''._@-'')) lang)
      in len \<noteq> 0 \<and> len = length lang)"

definition is_xkb_layout :: "bytes \<Rightarrow> bool" where
  "is_xkb_layout layout =
     (length (takeWhile (\<lambda>b. is_lower b \<or> is_digit b \<or> b \<in> set (bytes_of ''_-'')) layout)
        = length layout)"

definition finish_decimal :: "reader \<Rightarrow> bool \<Rightarrow> u8 option" where
  "finish_decimal r sys =
     (if rd_decimal r = [] \<and> \<not> sys then Some 0x2e
      else if rd_decimal r = bytes_of ''.'' \<or> rd_decimal r = bytes_of '','' then Some (hd (rd_decimal r))
      else None)"

definition finish :: "reader \<Rightarrow> fplinux_language option" where
  "finish r =
     (let language = rd_language r in
      if la_name language = [] then None
      else case read_flag (rd_system r) of None \<Rightarrow> None | Some sys \<Rightarrow>
     (case read_flag (rd_input r) of None \<Rightarrow> None | Some inp \<Rightarrow>
     (if \<not> is_xkb_layout (la_xkb language) then None
      else case finish_decimal r sys of None \<Rightarrow> None | Some dec \<Rightarrow>
        if sys \<and> (\<not> is_lang (la_lang language) \<or> \<not> is_date_pattern (la_date_long language) \<or>
             \<not> is_date_pattern (la_date_short language)) then None
        else if sys \<and> [] \<in> set (la_weekday language) then None
        else if sys \<and> ([] \<in> set (la_month language) \<or> [] \<in> set (la_month_genitive language)) then None
        else if inp \<and> [] \<in> set (la_indicator language) then None
        else Some (language\<lparr>la_system := sys, la_input := inp, la_decimal := dec\<rparr>))))"

text \<open>
  \<^verbatim>\<open>getline\<close> yields the lines of the file, the last one perhaps without its newline.
\<close>

function getlines :: "bytes \<Rightarrow> bytes list" where
  "getlines content =
     (if content = [] then []
      else takeWhile (\<lambda>b. b \<noteq> 0x0a) content # getlines (drop 1 (dropWhile (\<lambda>b. b \<noteq> 0x0a) content)))"
  by pat_completeness auto
termination
proof (relation "measure length", goal_cases)
  case (2 content)
  then show ?case
    by (cases content) (auto simp: less_Suc_eq_le length_dropWhile_le intro: le_trans [OF diff_le_self length_dropWhile_le])
qed simp

declare getlines.simps [simp del]

fun read_lines :: "reader \<Rightarrow> bytes list \<Rightarrow> reader option" where
  "read_lines r [] = Some r"
| "read_lines r (line # rest) =
     (if 0 \<in> set line then None
      else if line = [] \<or> hd line = 0x23 then read_lines r rest
      else case read_line r line of
        None \<Rightarrow> None
      | Some r' \<Rightarrow> read_lines r' rest)"

definition read_file :: "bytes \<times> errno option \<Rightarrow> reader \<Rightarrow> errno + fplinux_language" where
  "read_file file r =
     (case read_lines r (getlines (fst file)) of
        None \<Rightarrow> Inl EINVAL
      | Some r' \<Rightarrow>
          (case snd file of
             Some e \<Rightarrow> Inl e
           | None \<Rightarrow> (case finish r' of None \<Rightarrow> Inl EINVAL | Some language \<Rightarrow> Inr language)))"

subsection \<open>Loading and listing\<close>

type_synonym file_system = "bytes \<Rightarrow> errno + (bytes \<times> errno option)"

definition empty_reader :: reader where
  "empty_reader = \<lparr> rd_language = zero_language, rd_system = [], rd_input = [], rd_decimal = [], rd_seen = 0 \<rparr>"

definition fplinux_language_load ::
    "file_system \<Rightarrow> bytes option \<Rightarrow> bytes option \<Rightarrow> errno + fplinux_language" where
  "fplinux_language_load fopen directory code =
     (case (directory, code) of
        (Some dir, Some c) \<Rightarrow>
          if \<not> is_code c then Inl EINVAL
          else if length dir + 1 + length c \<ge> PATH_MAX then Inl ENAMETOOLONG
          else (case fopen (dir @ bytes_of ''/'' @ c) of
            Inl e \<Rightarrow> Inl e
          | Inr file \<Rightarrow>
              (case read_file file empty_reader of
                 Inl e \<Rightarrow> Inl e
               | Inr language \<Rightarrow> Inr (language\<lparr>la_code := c\<rparr>)))
      | _ \<Rightarrow> Inl EINVAL)"

text \<open>
  The insertion loop: \<open>codes\<close> is the caller's array, of which the first \<open>min cnt capacity\<close>
  entries are in use.
\<close>

fun shift_codes :: "bytes \<Rightarrow> nat \<Rightarrow> nat \<Rightarrow> bytes list \<Rightarrow> nat \<times> bytes list" where
  "shift_codes name capacity 0 codes = (0, codes)"
| "shift_codes name capacity (Suc at) codes =
     (if name < codes ! at then
        shift_codes name capacity at
          (if Suc at < capacity then codes[Suc at := codes ! at] else codes)
      else (Suc at, codes))"

definition insert_code :: "bytes \<Rightarrow> nat \<Rightarrow> nat \<times> bytes list \<Rightarrow> nat \<times> bytes list" where
  "insert_code name capacity s =
     (case s of (cnt, codes) \<Rightarrow>
        let at = (if cnt < capacity then cnt else capacity) in
        (case shift_codes name capacity at codes of (at', codes') \<Rightarrow>
           (Suc cnt, if at' < capacity then codes'[at' := name] else codes')))"

fun list_entries :: "file_system \<Rightarrow> bytes \<Rightarrow> nat \<Rightarrow> bytes list \<Rightarrow> nat \<times> bytes list \<Rightarrow> nat \<times> bytes list" where
  "list_entries fopen directory capacity [] s = s"
| "list_entries fopen directory capacity (d_name # entries) s =
     (if \<not> is_code d_name \<or> isl (fplinux_language_load fopen (Some directory) (Some d_name))
      then list_entries fopen directory capacity entries s
      else list_entries fopen directory capacity entries (insert_code d_name capacity s))"

text \<open>\<open>opendir\<close> is \<^const>\<open>None\<close> when the directory cannot be opened, else the names \<^verbatim>\<open>readdir\<close> gives.\<close>

definition fplinux_language_list ::
    "file_system \<Rightarrow> bytes list option \<Rightarrow> bytes option \<Rightarrow> nat \<Rightarrow> bytes list \<Rightarrow> nat \<times> bytes list" where
  "fplinux_language_list fopen opendir directory capacity codes =
     (case directory of
        None \<Rightarrow> (0, codes)
      | Some dir \<Rightarrow>
          (case opendir of
             None \<Rightarrow> (0, codes)
           | Some entries \<Rightarrow> list_entries fopen dir capacity entries (0, codes)))"

section \<open>Facts about language files\<close>

subsection \<open>Texts\<close>

definition is_plain :: "u32 \<Rightarrow> bool" where
  "is_plain c \<longleftrightarrow> \<not> (c < 0x20 \<or> (c \<ge> 0x7f \<and> c \<le> 0x9f))"

lemma is_text_decode: "is_text bs \<longleftrightarrow> (\<exists>cs. utf8_decode bs = Some cs \<and> list_all is_plain cs)"
proof (induction bs rule: is_text.induct)
  case (1 bs)
  show ?case
  proof (cases "bs = [] \<or> fplinux_utf8_next bs = None")
    case True
    then show ?thesis by (auto simp: is_text.simps [of bs] utf8_decode.simps [of bs])
  next
    case False
    then obtain c rest where n: "bs \<noteq> []" "fplinux_utf8_next bs = Some (c, rest)" by auto
    show ?thesis
    proof (cases "is_plain c")
      case True
      with "1.IH" [OF n refl] n show ?thesis
        by (auto simp: is_text.simps [of bs] utf8_decode.simps [of bs] is_plain_def)
    next
      case False
      with n show ?thesis
        by (auto simp: is_text.simps [of bs] utf8_decode.simps [of bs] is_plain_def)
    qed
  qed
qed

lemma is_text_valid: "is_text bs \<Longrightarrow> valid_utf8 bs"
  by (auto simp: is_text_decode valid_utf8_def)

lemma is_text_Nil [simp]: "is_text []"
  by (simp add: is_text.simps)

subsection \<open>What a loaded language guarantees\<close>

definition field_ok :: "nat \<Rightarrow> bytes \<Rightarrow> bool" where
  "field_ok n v \<longleftrightarrow> is_text v \<and> length v < n"

definition texts_ok :: "fplinux_language \<Rightarrow> bool" where
  "texts_ok l \<longleftrightarrow>
     list_all (field_ok LANGUAGE_TEXT_BYTES)
       (la_name l # la_lang l # la_date_long l # la_date_short l #
        la_weekday l @ la_month l @ la_month_genitive l @ la_indicator l @ la_multitap l) \<and>
     field_ok (4 * LANGUAGE_CODE_BYTES) (la_xkb l) \<and>
     length (la_weekday l) = 7 \<and> length (la_month l) = 12 \<and> length (la_month_genitive l) = 12 \<and>
     length (la_indicator l) = 3 \<and> length (la_multitap l) = LANGUAGE_KEYS"

definition wf_language :: "fplinux_language \<Rightarrow> bool" where
  "wf_language l \<longleftrightarrow> texts_ok l \<and> la_name l \<noteq> [] \<and> la_decimal l \<in> {0x2e, 0x2c} \<and>
     (la_system l \<longrightarrow> is_lang (la_lang l) \<and> is_date_pattern (la_date_long l) \<and>
        is_date_pattern (la_date_short l) \<and>
        [] \<notin> set (la_weekday l @ la_month l @ la_month_genitive l)) \<and>
     (la_input l \<longrightarrow> [] \<notin> set (la_indicator l))"

lemma field_ok_Nil [simp]: "0 < n \<Longrightarrow> field_ok n []"
  by (simp add: field_ok_def)

lemma set_update_ok: "list_all P xs \<Longrightarrow> P v \<Longrightarrow> list_all P (xs[i := v])"
  by (auto simp: list_all_iff dest!: set_update_subset_insert [THEN subsetD])

lemma find_target_size:
  "find_target key = Some t \<Longrightarrow> tg_size t = (if tg_text t = P_xkb then 4 * LANGUAGE_CODE_BYTES else LANGUAGE_TEXT_BYTES)"
  by (auto simp: find_target_def set_target_def Let_def split: if_split_asm option.split_asm)

lemma store_texts_ok:
  assumes "texts_ok (rd_language r)"
    and "field_ok (if p = P_xkb then 4 * LANGUAGE_CODE_BYTES else LANGUAGE_TEXT_BYTES) v"
  shows "texts_ok (rd_language (store p v r))"
  using assms by (cases p) (auto simp: texts_ok_def intro: set_update_ok)

lemma read_line_texts_ok:
  assumes "read_line r line = Some r'" and "texts_ok (rd_language r)"
  shows "texts_ok (rd_language r')"
  using assms
  by (auto simp: read_line_def Let_def field_ok_def find_target_size not_le simp del: store.simps
      intro!: store_texts_ok split: if_split_asm option.split_asm)

lemma read_lines_texts_ok:
  "read_lines r ls = Some r' \<Longrightarrow> texts_ok (rd_language r) \<Longrightarrow> texts_ok (rd_language r')"
  by (induction r ls rule: read_lines.induct)
    (auto split: if_split_asm option.split_asm intro: read_line_texts_ok)

lemma empty_reader_ok: "texts_ok (rd_language empty_reader)"
  by (simp add: empty_reader_def zero_language_def texts_ok_def LANGUAGE_TEXT_BYTES_def
      LANGUAGE_CODE_BYTES_def LANGUAGE_KEYS_def list_all_iff)

lemma texts_ok_flags [simp]:
  "texts_ok (l\<lparr>la_system := a, la_input := b, la_decimal := c\<rparr>) = texts_ok l"
  "texts_ok (l\<lparr>la_code := d\<rparr>) = texts_ok l"
  by (simp_all add: texts_ok_def)

lemma finish_decimal_Some: "finish_decimal r sys = Some d \<Longrightarrow> d \<in> {0x2e, 0x2c}"
  by (auto simp: finish_decimal_def split: if_split_asm)

lemma finish_wf: "finish r = Some l \<Longrightarrow> texts_ok (rd_language r) \<Longrightarrow> wf_language l"
  by (auto simp: finish_def wf_language_def Let_def dest: finish_decimal_Some
      split: if_split_asm option.split_asm)

lemma load_wf:
  assumes "fplinux_language_load fopen directory code = Inr l"
  shows "wf_language l \<and> directory \<noteq> None \<and> code = Some (la_code l) \<and> is_code (la_code l)"
proof -
  from assms obtain dir c fl l0 where d: "directory = Some dir" "code = Some c" "is_code c"
    and f: "read_file fl empty_reader = Inr l0" and l: "l = l0\<lparr>la_code := c\<rparr>"
    by (auto simp: fplinux_language_load_def split: option.split_asm if_split_asm sum.split_asm)
  from f obtain r where "read_lines empty_reader (getlines (fst fl)) = Some r" and "finish r = Some l0"
    by (auto simp: read_file_def split: option.split_asm)
  then have "wf_language l0"
    by (blast intro: finish_wf read_lines_texts_ok empty_reader_ok)
  with d l show ?thesis by (simp add: wf_language_def)
qed

subsection \<open>A known key may appear once\<close>

abbreviation line_key :: "bytes \<Rightarrow> bytes" where
  "line_key line \<equiv> takeWhile (\<lambda>b. b \<noteq> 0x3d) line"

definition is_entry :: "bytes \<Rightarrow> bool" where
  "is_entry line \<longleftrightarrow> line \<noteq> [] \<and> hd line \<noteq> 0x23"

lemma key_index_bound: "key_index key pre first cnt = Some i \<Longrightarrow> i < cnt"
  by (auto simp: key_index_def Let_def split: if_split_asm option.split_asm)

lemma find_target_slot: "find_target key = Some t \<Longrightarrow> tg_slot t < 64"
  by (auto simp: find_target_def set_target_def Let_def LANGUAGE_KEYS_def
      dest!: key_index_bound split: if_split_asm option.split_asm)

lemma rd_seen_store [simp]: "rd_seen (store p v r) = rd_seen r"
  by (cases p) simp_all

lemma read_line_seen:
  assumes "read_line r line = Some r'"
  shows "\<And>k. bit (rd_seen r) k \<Longrightarrow> bit (rd_seen r') k"
    and "find_target (line_key line) = Some t \<Longrightarrow> \<not> bit (rd_seen r) (tg_slot t) \<and> bit (rd_seen r') (tg_slot t)"
proof -
  show "bit (rd_seen r') k" if "bit (rd_seen r) k" for k
    using assms that
    by (auto simp: read_line_def Let_def bit_simps simp del: store.simps split: if_split_asm option.split_asm)
  show "\<not> bit (rd_seen r) (tg_slot t) \<and> bit (rd_seen r') (tg_slot t)" if t: "find_target (line_key line) = Some t"
  proof -
    from find_target_slot [OF t] have s: "tg_slot t < 64" .
    from assms t have n: "rd_seen r AND push_bit (tg_slot t) 1 = 0"
      and r': "rd_seen r' = rd_seen r OR push_bit (tg_slot t) 1"
      by (auto simp: read_line_def Let_def simp del: store.simps split: if_split_asm option.split_asm)
    from n have "\<not> bit (rd_seen r AND push_bit (tg_slot t) 1) (tg_slot t)" by simp
    then show ?thesis using s by (simp add: bit_simps r' del: push_bit_of_1)
  qed
qed

lemma read_lines_seen:
  "read_lines r ls = Some r' \<Longrightarrow> bit (rd_seen r) k \<Longrightarrow> bit (rd_seen r') k"
  by (induction r ls rule: read_lines.induct)
    (auto split: if_split_asm option.split_asm dest: read_line_seen(1))

lemma read_lines_append:
  "read_lines r (xs @ ys) = Option.bind (read_lines r xs) (\<lambda>r'. read_lines r' ys)"
  by (induction r xs rule: read_lines.induct) (auto split: option.split)

lemma repeated_key_rejected:
  assumes "is_entry a" "is_entry b" "find_target (line_key a) = Some t" "find_target (line_key b) = Some t"
  shows "read_lines r (xs @ a # ys @ b # zs) = None"
proof (rule ccontr)
  assume "read_lines r (xs @ a # ys @ b # zs) \<noteq> None"
  then obtain r1 r2 r3 r4 where 1: "read_line r1 a = Some r2" and 2: "read_lines r2 ys = Some r3"
    and 3: "read_line r3 b = Some r4"
    using assms(1,2)
    by (auto simp: read_lines_append is_entry_def bind_eq_Some_conv split: if_split_asm option.split_asm)
  from read_line_seen(2) [OF 1 assms(3)] have "bit (rd_seen r2) (tg_slot t)" ..
  with 2 have "bit (rd_seen r3) (tg_slot t)" by (rule read_lines_seen)
  with read_line_seen(2) [OF 3 assms(4)] show False by simp
qed

subsection \<open>The listing is the sorted listing, cut at the capacity\<close>

lemma shift_codes_spec:
  assumes "shift_codes name capacity at codes = (k, codes')" "at \<le> capacity" "capacity \<le> length codes"
  shows "k \<le> at \<and> length codes' = length codes \<and> (\<forall>i \<le> k. i < length codes \<longrightarrow> codes' ! i = codes ! i) \<and>
    (\<forall>i. k < i \<and> i \<le> at \<and> i < capacity \<longrightarrow> codes' ! i = codes ! (i - 1)) \<and>
    (\<forall>i > at. codes' ! i = codes ! i) \<and> (\<forall>i. k \<le> i \<and> i < at \<longrightarrow> name < codes ! i) \<and> (0 < k \<longrightarrow> codes ! (k - 1) \<le> name)"
  using assms
proof (induction name capacity at codes rule: shift_codes.induct)
  case (1 name capacity codes)
  then show ?case by simp
next
  case (2 name capacity at codes)
  show ?case
  proof (cases "name < codes ! at")
    case False
    with 2 show ?thesis by (auto simp: not_less)
  next
    case True
    let ?c = "if Suc at < capacity then codes[Suc at := codes ! at] else codes"
    have s: "shift_codes name capacity at ?c = (k, codes')" using 2 True by simp
    have "at \<le> capacity" "capacity \<le> length ?c" using 2 by auto
    note IH = "2.IH" [OF True s this]
    have same: "\<And>i. i \<le> at \<Longrightarrow> ?c ! i = codes ! i" by simp
    show ?thesis
    proof (intro conjI allI impI)
      show "k \<le> Suc at" "length codes' = length codes" using IH by auto
      show "codes' ! i = codes ! i" if "i \<le> k" "i < length codes" for i
        using IH that same [of i] by auto
      show "codes' ! i = codes ! (i - 1)" if i: "k < i \<and> i \<le> Suc at \<and> i < capacity" for i
      proof (cases "i = Suc at")
        case True
        with i IH 2 show ?thesis by auto
      next
        case False
        with i IH same [of "i - 1"] show ?thesis by auto
      qed
      show "codes' ! i = codes ! i" if "Suc at < i" for i
        using IH that by auto
      show "name < codes ! i" if "k \<le> i \<and> i < Suc at" for i
        using IH that same [of i] True by (auto simp: less_Suc_eq)
      show "codes ! (k - 1) \<le> name" if "0 < k" 
        using IH that same [of "k - 1"] by auto
    qed
  qed
qed

lemma insort_take: "take n (insort x (take n xs)) = take n (insort x xs)"
  by (induction xs arbitrary: n) (auto simp: take_Cons' min_def split: nat.split)

lemma sorted_insort_at:
  fixes xs :: "'a::linorder list"
  assumes "sorted xs" "k \<le> length xs" "\<forall>i. k \<le> i \<and> i < length xs \<longrightarrow> x < xs ! i" "0 < k \<longrightarrow> xs ! (k - 1) \<le> x"
  shows "insort x xs = take k xs @ x # drop k xs"
proof -
  have "y \<le> x" if y: "y \<in> set (take k xs)" for y
  proof -
    from y obtain i where i: "i < k" "y = xs ! i" "i < length xs" by (auto simp: in_set_conv_nth)
    with assms(1,2) have "y \<le> xs ! (k - 1)" by (auto intro: sorted_nth_mono)
    with i assms(4) show ?thesis by simp
  qed
  moreover have "x \<le> y" if "y \<in> set (drop k xs)" for y
    using that assms(2,3) by (auto simp: in_set_conv_nth less_imp_le)
  ultimately have "sorted (take k xs @ x # drop k xs)"
    using assms(1) by (auto simp: sorted_append sorted_wrt_take sorted_wrt_drop
        dest: in_set_takeD in_set_dropD intro: order_trans)
  moreover have "mset (insort x xs) = mset (take k xs @ x # drop k xs)"
    using mset_append [of "take k xs" "drop k xs"] by simp
  ultimately show ?thesis
    using assms(1) by (metis properties_for_sort sorted_insort sort_key_id_if_sorted sorted_sort_id)
qed

text \<open>The state of the listing loop: the used part of the array is the sorted listing so far.\<close>

definition listing :: "nat \<Rightarrow> bytes list \<Rightarrow> nat \<times> bytes list \<Rightarrow> bool" where
  "listing capacity names s \<longleftrightarrow>
     fst s = length names \<and> capacity \<le> length (snd s) \<and>
     take (min (fst s) capacity) (snd s) = take capacity (sort names)"

lemma insert_code_listing:
  assumes "listing capacity names s"
  shows "listing capacity (names @ [name]) (insert_code name capacity s)"
proof -
  obtain cnt codes where s: "s = (cnt, codes)" by fastforce
  let ?m = "min cnt capacity"
  let ?xs = "take ?m codes"
  obtain k codes' where sh: "shift_codes name capacity ?m codes = (k, codes')" by fastforce
  from assms s have cnt: "cnt = length names" and cap: "capacity \<le> length codes"
    and xs: "?xs = take capacity (sort names)" by (auto simp: listing_def)
  from shift_codes_spec [OF sh min.cobounded2 cap]
  have k: "k \<le> ?m" and l': "length codes' = length codes"
    and low: "\<And>i. i < k \<Longrightarrow> codes' ! i = codes ! i"
    and mid: "\<And>i. k < i \<Longrightarrow> i \<le> ?m \<Longrightarrow> i < capacity \<Longrightarrow> codes' ! i = codes ! (i - 1)"
    and gt: "\<And>i. k \<le> i \<Longrightarrow> i < ?m \<Longrightarrow> name < codes ! i" and le: "0 < k \<Longrightarrow> codes ! (k - 1) \<le> name"
    using cap by (auto simp: le_trans)
  have lxs: "length ?xs = ?m" using cap by simp
  have "sorted ?xs" unfolding xs by (simp add: sorted_wrt_take)
  then have ins: "insort name ?xs = take k ?xs @ name # drop k ?xs"
  proof (rule sorted_insort_at)
    show "k \<le> length ?xs" using k lxs by simp
    show "\<forall>i. k \<le> i \<and> i < length ?xs \<longrightarrow> name < ?xs ! i" using gt lxs by simp
    have "k - 1 < ?m" if "0 < k" using that k by linarith
    then show "0 < k \<longrightarrow> ?xs ! (k - 1) \<le> name" using le by simp
  qed
  have "sort (names @ [name]) = insort name (sort names)"
    by (rule properties_for_sort) (simp_all add: sorted_insort)
  then have "take capacity (sort (names @ [name])) = take capacity (insort name ?xs)"
    unfolding xs by (simp add: insort_take)
  also have "\<dots> = take (min (Suc cnt) capacity) (if k < capacity then codes'[k := name] else codes')"
    unfolding ins
  proof (rule nth_equalityI)
    show "length (take capacity (take k ?xs @ name # drop k ?xs)) =
      length (take (min (Suc cnt) capacity) (if k < capacity then codes'[k := name] else codes'))"
      using k l' cap lxs by auto
    fix i assume "i < length (take capacity (take k ?xs @ name # drop k ?xs))"
    then have i: "i < capacity" "i \<le> ?m" using lxs k by auto
    then have "?xs ! (i - 1) = codes ! (i - 1)" if "k < i" using that by (intro nth_take) linarith
    with i
    show "take capacity (take k ?xs @ name # drop k ?xs) ! i =
      take (min (Suc cnt) capacity) (if k < capacity then codes'[k := name] else codes') ! i"
      using k l' low mid cap lxs by (cases "i < k"; cases "i = k") (auto simp: nth_append nth_Cons' nth_list_update)
  qed
  finally have res: "take capacity (sort (names @ [name])) =
      take (min (Suc cnt) capacity) (if k < capacity then codes'[k := name] else codes')" .
  have "(if cnt < capacity then cnt else capacity) = ?m" by auto
  then have "insert_code name capacity s = (Suc cnt, if k < capacity then codes'[k := name] else codes')"
    by (simp add: insert_code_def s Let_def sh)
  then show ?thesis using res l' cap cnt by (simp add: listing_def)
qed

definition loadable :: "file_system \<Rightarrow> bytes \<Rightarrow> bytes \<Rightarrow> bool" where
  "loadable fopen dir name \<longleftrightarrow> is_code name \<and> \<not> isl (fplinux_language_load fopen (Some dir) (Some name))"

lemma list_entries_listing:
  "listing capacity names s \<Longrightarrow>
     listing capacity (names @ filter (loadable fopen dir) entries) (list_entries fopen dir capacity entries s)"
proof (induction entries arbitrary: names s)
  case (Cons e entries)
  show ?case
  proof (cases "loadable fopen dir e")
    case True
    with Cons.IH [OF insert_code_listing [OF Cons.prems, of e]] show ?thesis
      by (simp add: loadable_def)
  next
    case False
    with Cons.IH [OF Cons.prems] show ?thesis by (auto simp: loadable_def)
  qed
qed simp

subsection \<open>The built-in English definition\<close>

definition is_ascii_text :: "bytes \<Rightarrow> bool" where
  "is_ascii_text bs \<longleftrightarrow> list_all (\<lambda>b. 0x20 \<le> b \<and> b < 0x7f) bs"

lemma ascii_is_text: "is_ascii_text bs \<Longrightarrow> is_text bs"
proof (induction bs)
  case (Cons b bs)
  then have "unat b < 127" "32 \<le> unat b" "is_text bs"
    by (simp_all add: is_ascii_text_def word_less_nat_alt word_le_nat_alt)
  then show ?case
    by (simp add: is_text.simps [of "b # bs"] utf8_next_ascii word_less_nat_alt word_le_nat_alt)
qed simp

lemma english_wf: "wf_language english"
proof -
  have a: "list_all (\<lambda>v. is_ascii_text v \<and> length v < LANGUAGE_TEXT_BYTES)
       (la_name english # la_lang english # la_date_long english # la_date_short english #
        la_weekday english @ la_month english @ la_month_genitive english @ la_indicator english @ la_multitap english)"
    by (simp add: english_def is_ascii_text_def LANGUAGE_TEXT_BYTES_def)
  have "list_all (field_ok LANGUAGE_TEXT_BYTES)
       (la_name english # la_lang english # la_date_long english # la_date_short english #
        la_weekday english @ la_month english @ la_month_genitive english @ la_indicator english @ la_multitap english)"
    by (rule list.pred_mono_strong [OF a]) (auto simp: field_ok_def ascii_is_text)
  moreover have "is_ascii_text (la_xkb english) \<and> length (la_xkb english) < 4 * LANGUAGE_CODE_BYTES"
    by code_simp
  then have "field_ok (4 * LANGUAGE_CODE_BYTES) (la_xkb english)"
    by (simp add: field_ok_def ascii_is_text)
  moreover have "is_lang (la_lang english) \<and> is_date_pattern (la_date_long english) \<and> is_date_pattern (la_date_short english)"
    by code_simp
  ultimately show ?thesis
    by (simp add: wf_language_def texts_ok_def) (simp add: english_def LANGUAGE_KEYS_def)
qed

subsection \<open>Properties\<close>

text \<open>A directory with two language files, the second of which defines its name twice.\<close>

definition example_file :: bytes where
  "example_file = bytes_of ''name=A'' @ [0x0a] @ bytes_of ''input=no''"

definition repeated_file :: bytes where
  "repeated_file = bytes_of ''name=A'' @ [0x0a] @ bytes_of ''name=B'' @ [0x0a]"

definition example_directory :: file_system where
  "example_directory path =
     (if path = bytes_of ''/l/xx'' \<or> path = bytes_of ''/l/aa'' then Inr (example_file, None)
      else if path = bytes_of ''/l/rr'' then Inr (repeated_file, None) else Inl ENOENT)"

text \<open>
  C31. A language that loads is well formed: every text is valid UTF-8 without control characters and
  fits its array with its NUL, the name is there, the decimal sign is a point or a comma, a system
  language has its locale, its date patterns and all names of days and months, an input language
  all its indicators; and its code is the one asked for.
\<close>

theorem loaded_language_wf:
  assumes "fplinux_language_load fopen directory code = Inr l"
  shows "wf_language l \<and> code = Some (la_code l) \<and> is_code (la_code l)"
  using load_wf [OF assms] by simp

theorem loaded_language_wf_witness:
  "\<exists>l. fplinux_language_load example_directory (Some (bytes_of ''/l'')) (Some (bytes_of ''xx'')) = Inr l \<and>
     la_name l = bytes_of ''A'' \<and> wf_language l"
proof -
  have "case fplinux_language_load example_directory (Some (bytes_of ''/l'')) (Some (bytes_of ''xx'')) of
      Inl e \<Rightarrow> False | Inr l \<Rightarrow> la_name l = bytes_of ''A''"
    by code_simp
  then obtain l where l: "fplinux_language_load example_directory (Some (bytes_of ''/l'')) (Some (bytes_of ''xx'')) = Inr l"
    and n: "la_name l = bytes_of ''A''"
    by (auto split: sum.split_asm)
  from loaded_language_wf [OF l] l n show ?thesis by blast
qed

text \<open>
  A file in which two lines set the same entry is refused with EINVAL, wherever the two lines
  stand and whatever the rest of the file holds.
\<close>

theorem repeated_entry_refused:
  assumes "fopen (dir @ bytes_of ''/'' @ c) = Inr file" "is_code c" "length dir + 1 + length c < PATH_MAX"
    and "getlines (fst file) = xs @ a # ys @ b # zs"
    and "is_entry a" "is_entry b" "find_target (line_key a) = Some t" "find_target (line_key b) = Some t"
  shows "fplinux_language_load fopen (Some dir) (Some c) = Inl EINVAL"
  using assms by (simp add: fplinux_language_load_def read_file_def repeated_key_rejected)

theorem repeated_entry_refused_witness:
  "fplinux_language_load example_directory (Some (bytes_of ''/l'')) (Some (bytes_of ''rr'')) = Inl EINVAL"
proof (rule repeated_entry_refused)
  show "example_directory (bytes_of ''/l'' @ bytes_of ''/'' @ bytes_of ''rr'') = Inr (repeated_file, None)"
    by code_simp
  show "is_code (bytes_of ''rr'')" "length (bytes_of ''/l'') + 1 + length (bytes_of ''rr'') < PATH_MAX"
    by code_simp+
  show "getlines (fst (repeated_file, None)) = [] @ bytes_of ''name=A'' # [] @ bytes_of ''name=B'' # []"
    by code_simp
  show "is_entry (bytes_of ''name=A'')" "is_entry (bytes_of ''name=B'')" by code_simp+
  show "find_target (line_key (bytes_of ''name=A'')) = Some \<lparr> tg_text = P_name, tg_size = 64, tg_slot = 0 \<rparr>"
    "find_target (line_key (bytes_of ''name=B'')) = Some \<lparr> tg_text = P_name, tg_size = 64, tg_slot = 0 \<rparr>"
    by code_simp+
qed

text \<open>
  The listing reports how many languages of the directory load, and leaves in the caller's array,
  in ascending order of their codes, the smallest of them as far as the array reaches: an insertion
  sort that drops what falls off the end is the sort of the whole directory cut to the capacity.
\<close>

theorem language_list_sorted:
  assumes "capacity \<le> length codes"
    and "fplinux_language_list fopen (Some entries) (Some dir) capacity codes = (cnt, codes')"
  shows "cnt = length (filter (loadable fopen dir) entries) \<and>
     take (min cnt capacity) codes' = take capacity (sort (filter (loadable fopen dir) entries))"
  using list_entries_listing [of capacity "[]" "(0, codes)" fopen dir entries] assms
  by (auto simp: fplinux_language_list_def listing_def)

theorem language_list_sorted_witness:
  "take 1 (snd (fplinux_language_list example_directory (Some (map bytes_of [''.'', ''xx'', ''rr'', ''aa'']))
      (Some (bytes_of ''/l'')) 1 [[], []])) = [bytes_of ''aa'']"
proof -
  have e: "fplinux_language_list example_directory (Some (map bytes_of [''.'', ''xx'', ''rr'', ''aa'']))
      (Some (bytes_of ''/l'')) 1 [[], []] = (2, [bytes_of ''aa'', []])"
    by code_simp
  have s: "take 1 (sort (filter (loadable example_directory (bytes_of ''/l'')) (map bytes_of [''.'', ''xx'', ''rr'', ''aa'']))) =
      [bytes_of ''aa'']"
    by code_simp
  show ?thesis using language_list_sorted [OF _ e] s e by simp
qed

end
