(* ===== verification/Multitap.thy ===== *)
theory Multitap
  imports Language
begin

section \<open>Multi-tap composition\<close>

text \<open>
  \<^verbatim>\<open>lib/fplinux/fplinux-multitap.c\<close>: loading the input languages and the state machine
  that cycles the characters of a numeric key.  A pointer to a language is the language
  itself (\<^const>\<open>None\<close> for NULL): a language is not changed while it is pointed to.  The
  array \<^verbatim>\<open>languages->language\<close> with its \<^verbatim>\<open>count\<close> is the list of the loaded languages.
  The emit callback with its context is a function from the context to a result and the new
  context; a NULL callback is \<^const>\<open>None\<close>.  The index into a key map is a natural number:
  a map has fewer than 64 bytes, so the source's \<^verbatim>\<open>unsigned char\<close> never wraps
  (\<open>pending_index_bound\<close> below).
\<close>

subsection \<open>Data\<close>

definition MULTITAP_LANGUAGE_COUNT :: nat where "MULTITAP_LANGUAGE_COUNT = 8"
definition LANGUAGE_LIST_COUNT :: nat where "LANGUAGE_LIST_COUNT = 64"

record fplinux_multitap_language =
  ml_code :: bytes
  ml_indicator :: "bytes list"
  ml_keys :: "bytes list"

type_synonym fplinux_multitap_languages = "fplinux_multitap_language list"

record fplinux_multitap =
  mt_key :: u8
  mt_index :: nat
  mt_pending :: bool
  mt_advanced :: bool
  mt_timeout_ms :: u32
  mt_language :: "fplinux_multitap_language option"

datatype fplinux_multitap_emit_result = EMIT_ACCEPTED | EMIT_BLOCKED | EMIT_REJECTED

datatype fplinux_multitap_result =
  MULTITAP_IGNORED | MULTITAP_PENDING | MULTITAP_COMMITTED | MULTITAP_BLOCKED | MULTITAP_REJECTED

type_synonym 'c emit_fn = "('c \<Rightarrow> u32 \<Rightarrow> fplinux_multitap_emit_result \<times> 'c) option"

definition zero_multitap_language :: fplinux_multitap_language where
  "zero_multitap_language =
     \<lparr> ml_code = [], ml_indicator = replicate 3 [], ml_keys = replicate LANGUAGE_KEYS [] \<rparr>"

subsection \<open>Key maps\<close>

function character_at :: "bytes \<Rightarrow> nat \<Rightarrow> u32" where
  "character_at cursor index =
     (if cursor = [] then 0
      else case fplinux_utf8_next cursor of
        None \<Rightarrow> 0
      | Some (character, rest) \<Rightarrow> if index = 0 then character else character_at rest (index - 1))"
  by pat_completeness auto
termination
  by (relation "measure (\<lambda>(c, i). length c)") (auto dest: utf8_next_shorter)

function key_map_scan :: "bytes \<Rightarrow> u8 \<Rightarrow> bool \<Rightarrow> bool" where
  "key_map_scan cursor digit has_digit =
     (if cursor = [] then has_digit
      else case fplinux_utf8_next cursor of
        None \<Rightarrow> False
      | Some (character, rest) \<Rightarrow> key_map_scan rest digit (has_digit \<or> character = ucast digit))"
  by pat_completeness auto
termination
  by (relation "measure (\<lambda>(c, d, h). length c)") (auto dest: utf8_next_shorter)

declare character_at.simps [simp del] key_map_scan.simps [simp del]

definition is_key_map_valid :: "bytes \<Rightarrow> u8 \<Rightarrow> bool" where
  "is_key_map_valid characters digit = key_map_scan characters digit False"

subsection \<open>Loading the input languages\<close>

definition add_language ::
    "fplinux_multitap_languages \<Rightarrow> fplinux_language \<Rightarrow> bool \<times> fplinux_multitap_languages" where
  "add_language languages language =
     (if \<not> la_input language \<or> length languages = MULTITAP_LANGUAGE_COUNT then (False, languages)
      else if \<not> list_all (\<lambda>key. is_key_map_valid (la_multitap language ! key) (0x30 + of_nat key))
                [0..<LANGUAGE_KEYS] then (False, languages)
      else (True, languages @ [\<lparr> ml_code = la_code language, ml_indicator = la_indicator language,
             ml_keys = la_multitap language \<rparr>]))"

definition load_language ::
    "file_system \<Rightarrow> bytes option \<Rightarrow> bytes \<Rightarrow> fplinux_multitap_languages \<Rightarrow> fplinux_multitap_languages" where
  "load_language fopen directory code languages =
     (case fplinux_language_load fopen directory (Some code) of
        Inl e \<Rightarrow> languages
      | Inr language \<Rightarrow> snd (add_language languages language))"

definition fplinux_multitap_load_languages ::
    "file_system \<Rightarrow> bytes list option \<Rightarrow> bytes option \<Rightarrow> bytes option \<Rightarrow> fplinux_multitap_languages" where
  "fplinux_multitap_load_languages fopen opendir directory first =
     (let (cnt, array) =
            (case directory of
               None \<Rightarrow> (0, replicate LANGUAGE_LIST_COUNT [])
             | Some _ \<Rightarrow> fplinux_language_list fopen opendir directory LANGUAGE_LIST_COUNT
                          (replicate LANGUAGE_LIST_COUNT []));
          cnt' = (if cnt > LANGUAGE_LIST_COUNT then LANGUAGE_LIST_COUNT else cnt);
          codes = take cnt' array;
          head = (case first of None \<Rightarrow> [] | Some f \<Rightarrow> filter (\<lambda>c. c = f) codes);
          others = (case first of None \<Rightarrow> codes | Some f \<Rightarrow> filter (\<lambda>c. c \<noteq> f) codes);
          languages = fold (load_language fopen directory) others
                        (fold (load_language fopen directory) head [])
      in if languages = [] then snd (add_language languages fplinux_language_english) else languages)"

definition english_input :: fplinux_multitap_language where
  "english_input = \<lparr> ml_code = la_code english, ml_indicator = la_indicator english,
     ml_keys = la_multitap english \<rparr>"

subsection \<open>The state machine\<close>

definition fplinux_multitap_handles :: "u8 \<Rightarrow> bool" where
  "fplinux_multitap_handles key \<longleftrightarrow> key \<ge> 0x30 \<and> key \<le> 0x39"

definition characters_for :: "fplinux_multitap \<Rightarrow> u8 \<Rightarrow> bytes option" where
  "characters_for state key =
     (if \<not> fplinux_multitap_handles key then None
      else case mt_language state of
        None \<Rightarrow> None
      | Some language \<Rightarrow> Some (ml_keys language ! unat (key - 0x30)))"

definition fplinux_multitap_init ::
    "fplinux_multitap_language option \<Rightarrow> u32 \<Rightarrow> fplinux_multitap" where
  "fplinux_multitap_init language timeout_ms =
     \<lparr> mt_key = 0, mt_index = 0, mt_pending = False, mt_advanced = False,
       mt_timeout_ms = timeout_ms, mt_language = language \<rparr>"

definition fplinux_multitap_candidate :: "fplinux_multitap \<Rightarrow> u32" where
  "fplinux_multitap_candidate state =
     (if \<not> mt_pending state then 0
      else case characters_for state (mt_key state) of
        None \<Rightarrow> 0
      | Some characters \<Rightarrow> character_at characters (mt_index state))"

definition fplinux_multitap_cancel :: "fplinux_multitap \<Rightarrow> fplinux_multitap" where
  "fplinux_multitap_cancel state =
     state\<lparr>mt_key := 0, mt_index := 0, mt_pending := False, mt_advanced := False\<rparr>"

definition fplinux_multitap_set_language ::
    "fplinux_multitap \<Rightarrow> fplinux_multitap_language option \<Rightarrow> fplinux_multitap" where
  "fplinux_multitap_set_language state language =
     (fplinux_multitap_cancel state)\<lparr>mt_language := language\<rparr>"

text \<open>\<open>towupper\<close> is the C library's.\<close>

definition fplinux_multitap_uppercase :: "(u32 \<Rightarrow> u32) \<Rightarrow> u32 \<Rightarrow> u32" where
  "fplinux_multitap_uppercase towupper character =
     (if character \<ge> 0x61 \<and> character \<le> 0x7a then character - 0x61 + 0x41
      else if character \<ge> 0x430 \<and> character \<le> 0x44f then character - 0x20
      else if character = 0x451 then 0x401
      else if character < 0x80 \<or> character > 0x10ffff then character
      else towupper character)"

definition emit_pending ::
    "fplinux_multitap \<Rightarrow> 'c emit_fn \<Rightarrow> 'c \<Rightarrow> fplinux_multitap_result \<times> fplinux_multitap \<times> 'c" where
  "emit_pending state emit ctx =
     (if \<not> mt_pending state then (MULTITAP_PENDING, state, ctx)
      else case emit of
        None \<Rightarrow> (MULTITAP_BLOCKED, state, ctx)
      | Some f \<Rightarrow>
          (case f ctx (fplinux_multitap_candidate state) of
             (EMIT_ACCEPTED, ctx') \<Rightarrow> (MULTITAP_COMMITTED, fplinux_multitap_cancel state, ctx')
           | (EMIT_BLOCKED, ctx') \<Rightarrow> (MULTITAP_BLOCKED, state, ctx')
           | (EMIT_REJECTED, ctx') \<Rightarrow> (MULTITAP_REJECTED, fplinux_multitap_cancel state, ctx')))"

definition fplinux_multitap_commit ::
    "fplinux_multitap \<Rightarrow> 'c emit_fn \<Rightarrow> 'c \<Rightarrow> fplinux_multitap_result \<times> fplinux_multitap \<times> 'c" where
  "fplinux_multitap_commit state emit ctx = emit_pending state emit ctx"

definition fplinux_multitap_expire ::
    "fplinux_multitap \<Rightarrow> u32 \<Rightarrow> 'c emit_fn \<Rightarrow> 'c \<Rightarrow> fplinux_multitap_result \<times> fplinux_multitap \<times> 'c" where
  "fplinux_multitap_expire state elapsed_ms emit ctx =
     (if \<not> mt_pending state \<or> elapsed_ms < mt_timeout_ms state then (MULTITAP_PENDING, state, ctx)
      else emit_pending state emit ctx)"

text \<open>The start of a new cycle at the end of \<^verbatim>\<open>fplinux_multitap_press\<close>.\<close>

definition start_cycle :: "fplinux_multitap \<Rightarrow> u8 \<Rightarrow> fplinux_multitap" where
  "start_cycle state key =
     state\<lparr>mt_key := key, mt_index := 0, mt_pending := True, mt_advanced := False\<rparr>"

definition fplinux_multitap_press ::
    "fplinux_multitap \<Rightarrow> u8 \<Rightarrow> u32 \<Rightarrow> 'c emit_fn \<Rightarrow> 'c \<Rightarrow>
     fplinux_multitap_result \<times> fplinux_multitap \<times> 'c" where
  "fplinux_multitap_press state key elapsed_ms emit ctx =
     (case characters_for state key of
        None \<Rightarrow> (MULTITAP_IGNORED, state, ctx)
      | Some characters \<Rightarrow>
          if characters = [] then (MULTITAP_IGNORED, state, ctx)
          else if mt_pending state \<and> mt_key state = key \<and> elapsed_ms < mt_timeout_ms state then
            (MULTITAP_PENDING,
             state\<lparr>mt_index := (if character_at characters (mt_index state + 1) = 0 then 0
                                else mt_index state + 1),
                   mt_advanced := True\<rparr>, ctx)
          else if mt_pending state then
            (case emit_pending state emit ctx of (result, state', ctx') \<Rightarrow>
               if result \<noteq> MULTITAP_COMMITTED then (result, state', ctx')
               else (MULTITAP_COMMITTED, start_cycle state' key, ctx'))
          else (MULTITAP_PENDING, start_cycle state key, ctx))"

text \<open>The two loops of \<^verbatim>\<open>fplinux_multitap_hold\<close>; a map ends with the character 0.\<close>

lemma character_at_end: "character_at bs i \<noteq> 0 \<Longrightarrow> i < length bs"
proof (induction bs i rule: character_at.induct)
  case (1 bs i)
  show ?case
  proof (cases "bs = [] \<or> fplinux_utf8_next bs = None")
    case True
    with "1.prems" show ?thesis by (auto simp: character_at.simps [of bs] split: if_split_asm)
  next
    case False
    then obtain c rest where n: "bs \<noteq> []" "fplinux_utf8_next bs = Some (c, rest)" by auto
    show ?thesis
    proof (cases i)
      case 0
      with n show ?thesis by simp
    next
      case (Suc m)
      with "1.IH" [OF n refl] "1.prems" n have "m < length rest"
        by (simp add: character_at.simps [of bs])
      with utf8_next_shorter [OF n(2)] Suc show ?thesis by linarith
    qed
  qed
qed

function find_digit :: "bytes \<Rightarrow> u8 \<Rightarrow> nat \<Rightarrow> nat" where
  "find_digit characters key digit =
     (if character_at characters digit \<noteq> 0 \<and> character_at characters digit \<noteq> ucast key
      then find_digit characters key (digit + 1) else digit)"
  by pat_completeness auto
termination
  by (relation "measure (\<lambda>(c, k, d). length c - d)") (auto dest: character_at_end)

function last_index :: "bytes \<Rightarrow> nat \<Rightarrow> nat" where
  "last_index characters index =
     (if character_at characters (index + 1) \<noteq> 0 then last_index characters (index + 1) else index)"
  by pat_completeness auto
termination
  by (relation "measure (\<lambda>(c, i). length c - i)") (auto dest!: character_at_end)

declare find_digit.simps [simp del] last_index.simps [simp del]

definition fplinux_multitap_hold ::
    "fplinux_multitap \<Rightarrow> 'c emit_fn \<Rightarrow> 'c \<Rightarrow> fplinux_multitap_result \<times> fplinux_multitap \<times> 'c" where
  "fplinux_multitap_hold state emit ctx =
     (let key = mt_key state in
      case characters_for state key of
        None \<Rightarrow> (MULTITAP_IGNORED, state, ctx)
      | Some characters \<Rightarrow>
          if \<not> mt_pending state then (MULTITAP_IGNORED, state, ctx)
          else
            let digit = find_digit characters key 0 in
            if character_at characters digit = 0 then (MULTITAP_IGNORED, state, ctx)
            else if mt_advanced state then
              let previous = (if mt_index state \<noteq> 0 then mt_index state - 1
                              else last_index characters 0)
              in (case emit_pending (state\<lparr>mt_index := previous, mt_advanced := False\<rparr>) emit ctx of
                    (result, state', ctx') \<Rightarrow>
                      if result \<noteq> MULTITAP_COMMITTED then (result, state', ctx')
                      else emit_pending
                             (state'\<lparr>mt_key := key, mt_pending := True, mt_index := digit\<rparr>) emit ctx')
            else emit_pending (state\<lparr>mt_index := digit\<rparr>) emit ctx)"

section \<open>Facts about multi-tap composition\<close>

subsection \<open>Key maps as character lists\<close>

lemma character_at_decode:
  "utf8_decode bs = Some cs \<Longrightarrow> character_at bs i = (if i < length cs then cs ! i else 0)"
proof (induction bs i arbitrary: cs rule: character_at.induct)
  case (1 bs i)
  show ?case
  proof (cases "bs = []")
    case True
    with "1.prems" show ?thesis by (simp add: character_at.simps [of "[]"] utf8_decode.simps [of "[]"])
  next
    case False
    with "1.prems" obtain c rest ds where n: "fplinux_utf8_next bs = Some (c, rest)"
      and d: "utf8_decode rest = Some ds" "cs = c # ds"
      by (auto simp: utf8_decode.simps [of bs] split: option.split_asm prod.split_asm)
    show ?thesis
      using "1.IH" [OF False n refl _ d(1)] False n d
      by (cases i) (simp_all add: character_at.simps [of bs])
  qed
qed

lemma key_map_scan_decode:
  "key_map_scan bs digit h \<longleftrightarrow> (\<exists>cs. utf8_decode bs = Some cs \<and> (h \<or> ucast digit \<in> set cs))"
proof (induction bs digit h rule: key_map_scan.induct)
  case (1 bs digit h)
  show ?case
  proof (cases "bs = [] \<or> fplinux_utf8_next bs = None")
    case True
    then show ?thesis by (auto simp: key_map_scan.simps [of bs] utf8_decode.simps [of bs])
  next
    case False
    then obtain c rest where n: "bs \<noteq> []" "fplinux_utf8_next bs = Some (c, rest)" by auto
    with "1.IH" [OF n refl] show ?thesis
      by (auto simp: key_map_scan.simps [of bs] utf8_decode.simps [of bs])
  qed
qed

text \<open>A key map the engine can use: printable text below 64 bytes with the key's own digit.\<close>

definition usable_map :: "bytes \<Rightarrow> u8 \<Rightarrow> bool" where
  "usable_map bs digit \<longleftrightarrow> field_ok LANGUAGE_TEXT_BYTES bs \<and> is_key_map_valid bs digit"

definition usable_language :: "fplinux_multitap_language \<Rightarrow> bool" where
  "usable_language l \<longleftrightarrow> length (ml_keys l) = LANGUAGE_KEYS \<and> length (ml_indicator l) = 3 \<and>
     (\<forall>key < LANGUAGE_KEYS. usable_map (ml_keys l ! key) (0x30 + of_nat key))"

lemma plain_nonzero: "list_all is_plain cs \<Longrightarrow> 0 \<notin> set cs"
  by (auto simp: list_all_iff is_plain_def)

lemma usable_mapE:
  assumes "usable_map bs digit"
  obtains cs where "utf8_decode bs = Some cs" "ucast digit \<in> set cs" "0 \<notin> set cs" "length bs < 64"
proof -
  from assms obtain cs where cs: "utf8_decode bs = Some cs" "list_all is_plain cs" "length bs < 64"
    by (auto simp: usable_map_def field_ok_def is_text_decode LANGUAGE_TEXT_BYTES_def)
  then have "0 \<notin> set cs" by (simp add: plain_nonzero)
  moreover have "ucast digit \<in> set cs"
    using assms cs by (auto simp: usable_map_def is_key_map_valid_def key_map_scan_decode)
  ultimately show thesis using cs that by blast
qed

lemma usable_map_nonempty: "usable_map bs digit \<Longrightarrow> bs \<noteq> []"
  by (auto elim!: usable_mapE simp: utf8_decode.simps)

lemma digit_index:
  assumes "fplinux_multitap_handles key"
  shows "unat (key - 0x30) < LANGUAGE_KEYS" and "0x30 + of_nat (unat (key - 0x30)) = key"
  using assms by (auto simp: fplinux_multitap_handles_def LANGUAGE_KEYS_def word_le_nat_alt unat_sub)

lemma usable_language_map:
  assumes "usable_language l" "fplinux_multitap_handles key"
  shows "usable_map (ml_keys l ! unat (key - 0x30)) key"
  using assms digit_index [OF assms(2)] unfolding usable_language_def by metis

subsection \<open>Loading\<close>

lemma add_language_usable:
  assumes "wf_language la" "list_all usable_language ls" "length ls \<le> MULTITAP_LANGUAGE_COUNT"
  shows "list_all usable_language (snd (add_language ls la)) \<and>
    length (snd (add_language ls la)) \<le> MULTITAP_LANGUAGE_COUNT"
  using assms
  by (auto simp: add_language_def usable_language_def usable_map_def wf_language_def texts_ok_def list_all_iff)

lemma load_language_usable:
  assumes "list_all usable_language ls \<and> length ls \<le> MULTITAP_LANGUAGE_COUNT"
  shows "list_all usable_language (load_language fopen directory code ls) \<and>
    length (load_language fopen directory code ls) \<le> MULTITAP_LANGUAGE_COUNT"
  using assms
  by (auto simp: load_language_def split: sum.split dest!: load_wf add_language_usable)

lemma fold_load_usable:
  assumes "list_all usable_language ls \<and> length ls \<le> MULTITAP_LANGUAGE_COUNT"
  shows "list_all usable_language (fold (load_language fopen directory) codes ls) \<and>
    length (fold (load_language fopen directory) codes ls) \<le> MULTITAP_LANGUAGE_COUNT"
  using assms by (induction codes arbitrary: ls) (simp, metis fold_simps(2) load_language_usable)

lemma english_maps:
  "list_all (\<lambda>key. is_key_map_valid (la_multitap english ! key) (0x30 + of_nat key)) [0..<LANGUAGE_KEYS]"
  by code_simp

lemma add_english: "snd (add_language [] fplinux_language_english) \<noteq> []"
  using english_maps
  by (simp add: add_language_def fplinux_language_english_def MULTITAP_LANGUAGE_COUNT_def)
    (simp add: english_def)

subsection \<open>The state invariant\<close>

text \<open>
  \<open>ok\<close> is what every character of the key maps satisfies: that it is printable, for the
  maps of a language file, or that it is one of the characters of a phone number.
\<close>

definition map_ok :: "(u32 \<Rightarrow> bool) \<Rightarrow> bytes \<Rightarrow> bool" where
  "map_ok ok bs \<longleftrightarrow> length bs < LANGUAGE_TEXT_BYTES \<and>
     (case utf8_decode bs of None \<Rightarrow> False | Some cs \<Rightarrow> 0 \<notin> set cs \<and> list_all ok cs)"

definition language_ok :: "(u32 \<Rightarrow> bool) \<Rightarrow> fplinux_multitap_language \<Rightarrow> bool" where
  "language_ok ok l \<longleftrightarrow> length (ml_keys l) = LANGUAGE_KEYS \<and> list_all (map_ok ok) (ml_keys l)"

definition language_in :: "(u32 \<Rightarrow> bool) \<Rightarrow> fplinux_multitap \<Rightarrow> bool" where
  "language_in ok st \<longleftrightarrow> (case mt_language st of None \<Rightarrow> True | Some l \<Rightarrow> language_ok ok l)"

definition multitap_ok :: "(u32 \<Rightarrow> bool) \<Rightarrow> fplinux_multitap \<Rightarrow> bool" where
  "multitap_ok ok st \<longleftrightarrow>
     (mt_pending st \<longrightarrow> language_in ok st \<and> fplinux_multitap_candidate st \<noteq> 0)"

lemma language_in_cong: "mt_language a = mt_language b \<Longrightarrow> language_in ok a = language_in ok b"
  by (simp add: language_in_def)

lemma usable_map_ok: "usable_map bs digit \<Longrightarrow> map_ok is_plain bs"
  by (auto simp: usable_map_def map_ok_def field_ok_def is_text_decode plain_nonzero)

lemma usable_language_ok: "usable_language l \<Longrightarrow> language_ok is_plain l"
  by (auto simp: usable_language_def language_ok_def list_all_length intro: usable_map_ok)

lemma map_okE:
  assumes "map_ok ok bs"
  obtains cs where "utf8_decode bs = Some cs" "0 \<notin> set cs" "list_all ok cs" "length bs < 64"
  using assms by (auto simp: map_ok_def LANGUAGE_TEXT_BYTES_def split: option.split_asm)

lemma characters_for_ok:
  assumes "language_in ok st" "characters_for st key = Some bs"
  shows "map_ok ok bs"
  using assms digit_index(1) [of key]
  by (auto simp: language_in_def characters_for_def language_ok_def list_all_length
      split: if_split_asm option.split_asm)

lemma map_char_ok: "map_ok ok bs \<Longrightarrow> character_at bs i \<noteq> 0 \<Longrightarrow> ok (character_at bs i)"
  by (auto elim!: map_okE simp: character_at_decode list_all_length split: if_split_asm)

lemma candidate_ok:
  assumes "multitap_ok ok st" "mt_pending st"
  shows "ok (fplinux_multitap_candidate st)" "fplinux_multitap_candidate st \<noteq> 0"
proof -
  show n: "fplinux_multitap_candidate st \<noteq> 0" using assms by (simp add: multitap_ok_def)
  then obtain bs where bs: "characters_for st (mt_key st) = Some bs"
    and c: "fplinux_multitap_candidate st = character_at bs (mt_index st)"
    by (auto simp: fplinux_multitap_candidate_def split: if_split_asm option.split_asm)
  show "ok (fplinux_multitap_candidate st)"
    using map_char_ok [OF characters_for_ok [OF _ bs]] n c assms by (simp add: multitap_ok_def)
qed

lemma map_first: "map_ok ok bs \<Longrightarrow> bs \<noteq> [] \<Longrightarrow> character_at bs 0 \<noteq> 0"
proof (elim map_okE)
  fix cs assume "bs \<noteq> []" "utf8_decode bs = Some cs" "0 \<notin> set cs"
  then show "character_at bs 0 \<noteq> 0"
    by (cases cs) (auto simp: character_at_decode dest: utf8_decode_Some)
qed

text \<open>Changing only the position in a map.\<close>

lemma characters_for_moved [simp]:
  "characters_for (st\<lparr>mt_index := i\<rparr>) key = characters_for st key"
  "characters_for (st\<lparr>mt_advanced := a\<rparr>) key = characters_for st key"
  "characters_for (st\<lparr>mt_key := k\<rparr>) key = characters_for st key"
  "characters_for (st\<lparr>mt_pending := p\<rparr>) key = characters_for st key"
  by (simp_all add: characters_for_def)

lemma characters_for_language: "mt_language a = mt_language b \<Longrightarrow> characters_for a key = characters_for b key"
  by (simp add: characters_for_def)

lemma start_cycle_language [simp]: "mt_language (start_cycle st key) = mt_language st"
  by (simp add: start_cycle_def)

lemma candidate_at:
  "characters_for st (mt_key st) = Some bs \<Longrightarrow> mt_pending st \<Longrightarrow>
     fplinux_multitap_candidate (st\<lparr>mt_index := i, mt_advanced := a\<rparr>) = character_at bs i"
  "characters_for st (mt_key st) = Some bs \<Longrightarrow> mt_pending st \<Longrightarrow>
     fplinux_multitap_candidate (st\<lparr>mt_index := i\<rparr>) = character_at bs i"
  "characters_for st key = Some bs \<Longrightarrow>
     fplinux_multitap_candidate (st\<lparr>mt_key := key, mt_pending := True, mt_index := i\<rparr>) = character_at bs i"
  "characters_for st key = Some bs \<Longrightarrow> fplinux_multitap_candidate (start_cycle st key) = character_at bs 0"
  by (simp_all add: fplinux_multitap_candidate_def start_cycle_def)

lemma cancel_ok [simp]: "multitap_ok ok (fplinux_multitap_cancel st)"
  by (simp add: multitap_ok_def fplinux_multitap_cancel_def)

lemma cancel_language [simp]: "mt_language (fplinux_multitap_cancel st) = mt_language st"
  by (simp add: fplinux_multitap_cancel_def)

lemma cancel_not_pending [simp]: "\<not> mt_pending (fplinux_multitap_cancel st)"
  by (simp add: fplinux_multitap_cancel_def)

lemma cancel_characters [simp]: "characters_for (fplinux_multitap_cancel st) key = characters_for st key"
  by (simp add: characters_for_def fplinux_multitap_cancel_def)

lemma set_language_ok [simp]: "multitap_ok ok (fplinux_multitap_set_language st l)"
  by (simp add: multitap_ok_def fplinux_multitap_set_language_def fplinux_multitap_cancel_def)

lemma start_cycle_ok:
  assumes "language_in ok st" "characters_for st key = Some bs" "bs \<noteq> []"
  shows "multitap_ok ok (start_cycle st key)"
  using assms map_first [OF characters_for_ok [OF assms(1,2)] assms(3)]
  by (simp add: multitap_ok_def candidate_at(4) [OF assms(2)] language_in_def)

lemma move_ok:
  assumes "multitap_ok ok st" "mt_pending st" "characters_for st (mt_key st) = Some bs" "character_at bs i \<noteq> 0"
  shows "multitap_ok ok (st\<lparr>mt_index := i, mt_advanced := a\<rparr>)" "multitap_ok ok (st\<lparr>mt_index := i\<rparr>)"
  using assms by (simp_all add: multitap_ok_def candidate_at language_in_def)

lemma find_digit_stop:
  "character_at bs (find_digit bs key i) = 0 \<or> character_at bs (find_digit bs key i) = ucast key"
proof (induction bs key i rule: find_digit.induct)
  case (1 bs key i)
  then show ?case by (cases "character_at bs i \<noteq> 0 \<and> character_at bs i \<noteq> ucast key")
      (auto simp: find_digit.simps [of bs key i])
qed

lemma last_index_char:
  "character_at bs i \<noteq> 0 \<Longrightarrow> character_at bs (last_index bs i) \<noteq> 0 \<and> character_at bs (last_index bs i + 1) = 0"
proof (induction bs i rule: last_index.induct)
  case (1 bs i)
  then show ?case by (cases "character_at bs (i + 1) = 0") (auto simp: last_index.simps [of bs i])
qed

lemma previous_char:
  assumes "multitap_ok ok st" "mt_pending st" "characters_for st (mt_key st) = Some bs"
  shows "character_at bs (if mt_index st \<noteq> 0 then mt_index st - 1 else last_index bs 0) \<noteq> 0"
proof -
  have c: "character_at bs (mt_index st) \<noteq> 0"
    using candidate_ok(2) [OF assms(1,2)] assms(2,3) by (simp add: fplinux_multitap_candidate_def)
  have "language_in ok st" using assms(1,2) by (simp add: multitap_ok_def)
  from characters_for_ok [OF this assms(3)] obtain cs where cs: "utf8_decode bs = Some cs" "0 \<notin> set cs"
    by (elim map_okE)
  show ?thesis
  proof (cases "mt_index st = 0")
    case True
    with c last_index_char [of bs 0] show ?thesis by simp
  next
    case False
    with c cs(1) have "mt_index st - 1 < length cs" by (simp add: character_at_decode split: if_split_asm)
    with cs False show ?thesis by (auto simp: character_at_decode dest: nth_mem)
  qed
qed

subsection \<open>A sink for the emitted characters\<close>

text \<open>
  The contract between the engine and the owner of the text: emitting a character the maps
  may hold keeps what the owner promises about its state.
\<close>

locale emit_sink =
  fixes f :: "'c \<Rightarrow> u32 \<Rightarrow> fplinux_multitap_emit_result \<times> 'c"
    and inv :: "'c \<Rightarrow> bool"
    and ok :: "u32 \<Rightarrow> bool"
  assumes emit_keeps: "inv ctx \<Longrightarrow> ok character \<Longrightarrow> inv (snd (f ctx character))"
begin

lemma emit_pending_keeps:
  assumes "multitap_ok ok st" "inv ctx" "emit_pending st (Some f) ctx = (result, st', ctx')"
  shows "multitap_ok ok st' \<and> inv ctx' \<and> mt_language st' = mt_language st"
proof (cases "mt_pending st")
  case False
  with assms show ?thesis by (simp add: emit_pending_def)
next
  case True
  obtain r c where r: "f ctx (fplinux_multitap_candidate st) = (r, c)" by fastforce
  have "inv c" using emit_keeps [OF assms(2) candidate_ok(1) [OF assms(1) True]] r by simp
  with assms True r show ?thesis by (cases r) (auto simp: emit_pending_def)
qed

lemma commit_keeps:
  assumes "multitap_ok ok st" "inv ctx" "fplinux_multitap_commit st (Some f) ctx = (result, st', ctx')"
  shows "multitap_ok ok st' \<and> inv ctx' \<and> mt_language st' = mt_language st"
  using emit_pending_keeps [OF assms(1,2)] assms(3) by (simp add: fplinux_multitap_commit_def)

lemma expire_keeps:
  assumes "multitap_ok ok st" "inv ctx" "fplinux_multitap_expire st e (Some f) ctx = (result, st', ctx')"
  shows "multitap_ok ok st' \<and> inv ctx' \<and> mt_language st' = mt_language st"
  using emit_pending_keeps [OF assms(1,2)] assms by (simp add: fplinux_multitap_expire_def split: if_split_asm)

lemma press_keeps:
  assumes "multitap_ok ok st" "inv ctx" "language_in ok st" "fplinux_multitap_press st key e (Some f) ctx = (result, st', ctx')"
  shows "multitap_ok ok st' \<and> inv ctx' \<and> mt_language st' = mt_language st"
proof (cases "characters_for st key")
  case None
  with assms show ?thesis by (simp add: fplinux_multitap_press_def)
next
  case (Some bs)
  consider "bs = []" | "bs \<noteq> []" "mt_pending st \<and> mt_key st = key \<and> e < mt_timeout_ms st"
    | "bs \<noteq> []" "mt_pending st" "\<not> (mt_key st = key \<and> e < mt_timeout_ms st)"
    | "bs \<noteq> []" "\<not> mt_pending st" by blast
  then show ?thesis
  proof cases
    case 1
    with Some assms show ?thesis by (simp add: fplinux_multitap_press_def)
  next
    case 2
    with Some assms map_first [OF characters_for_ok [OF assms(3) Some]] show ?thesis
      by (auto simp: fplinux_multitap_press_def intro!: move_ok split: if_split_asm)
  next
    case 3
    obtain r1 st1 ctx1 where e: "emit_pending st (Some f) ctx = (r1, st1, ctx1)" by (cases "emit_pending st (Some f) ctx")
    note k = emit_pending_keeps [OF assms(1,2) e]
    have "characters_for st1 key = Some bs" using characters_for_language [of st1 st key] k Some by simp
    then have "multitap_ok ok (start_cycle st1 key)" using start_cycle_ok k 3(1) assms(3) language_in_cong by metis
    with k 3 Some e assms(4) show ?thesis
      by (auto simp: fplinux_multitap_press_def split: if_split_asm)
  next
    case 4
    with Some assms(2,4) start_cycle_ok [OF assms(3) Some] show ?thesis
      by (auto simp: fplinux_multitap_press_def)
  qed
qed

lemma hold_keeps:
  assumes "multitap_ok ok st" "inv ctx" "fplinux_multitap_hold st (Some f) ctx = (result, st', ctx')"
  shows "multitap_ok ok st' \<and> inv ctx' \<and> mt_language st' = mt_language st"
proof (cases "characters_for st (mt_key st)")
  case None
  with assms show ?thesis by (simp add: fplinux_multitap_hold_def)
next
  case (Some bs)
  let ?d = "find_digit bs (mt_key st) 0"
  let ?p = "if mt_index st \<noteq> 0 then mt_index st - 1 else last_index bs 0"
  show ?thesis
  proof (cases "mt_pending st \<and> character_at bs ?d \<noteq> 0")
    case False
    with Some assms show ?thesis by (simp add: fplinux_multitap_hold_def Let_def split: if_split_asm)
  next
    case True
    then have pend: "mt_pending st" and d: "character_at bs ?d \<noteq> 0" by auto
    show ?thesis
    proof (cases "mt_advanced st")
      case False
      then have "emit_pending (st\<lparr>mt_index := ?d\<rparr>) (Some f) ctx = (result, st', ctx')"
        using Some pend d assms(3) by (simp add: fplinux_multitap_hold_def Let_def)
      from emit_pending_keeps [OF move_ok(2) [OF assms(1) pend Some d] assms(2) this] show ?thesis by simp
    next
      case True
      have ok1: "multitap_ok ok (st\<lparr>mt_index := ?p, mt_advanced := False\<rparr>)"
        by (rule move_ok(1) [OF assms(1) pend Some previous_char [OF assms(1) pend Some]])
      obtain r1 st1 ctx1 where e: "emit_pending (st\<lparr>mt_index := ?p, mt_advanced := False\<rparr>) (Some f) ctx = (r1, st1, ctx1)"
        by (cases "emit_pending (st\<lparr>mt_index := ?p, mt_advanced := False\<rparr>) (Some f) ctx")
      note k = emit_pending_keeps [OF ok1 assms(2) e]
      have st1: "characters_for st1 (mt_key st) = Some bs"
        using characters_for_language [of st1 st] k Some by simp
      have "multitap_ok ok (st1\<lparr>mt_key := mt_key st, mt_pending := True, mt_index := ?d\<rparr>)"
        using k d pend assms(1) by (simp add: multitap_ok_def candidate_at(3) [OF st1] language_in_def)
      note k2 = emit_pending_keeps [OF this k [THEN conjunct2, THEN conjunct1]]
      have "(if r1 \<noteq> MULTITAP_COMMITTED then (r1, st1, ctx1) else
          emit_pending (st1\<lparr>mt_key := mt_key st, mt_pending := True, mt_index := ?d\<rparr>) (Some f) ctx1) = (result, st', ctx')"
        using assms(3) Some pend d True e unfolding fplinux_multitap_hold_def Let_def by simp
      then show ?thesis using k k2 by (simp split: if_split_asm)
    qed
  qed
qed

end

subsection \<open>Bounds and cycling\<close>

lemma pending_index_bound:
  assumes "multitap_ok ok st" "mt_pending st"
  shows "mt_index st < LANGUAGE_TEXT_BYTES - 1"
proof -
  have "fplinux_multitap_candidate st \<noteq> 0" by (rule candidate_ok(2) [OF assms])
  then obtain bs where bs: "characters_for st (mt_key st) = Some bs" "character_at bs (mt_index st) \<noteq> 0"
    by (auto simp: fplinux_multitap_candidate_def split: if_split_asm option.split_asm)
  have "length bs < LANGUAGE_TEXT_BYTES"
    using characters_for_ok [OF _ bs(1)] assms by (auto simp: multitap_ok_def map_ok_def)
  with character_at_end [OF bs(2)] show ?thesis by linarith
qed

lemma find_digit_bound: "map_ok ok bs \<Longrightarrow> find_digit bs key 0 < LANGUAGE_TEXT_BYTES"
proof -
  have "find_digit bs key i \<le> max i (length bs)" for i
  proof (induction bs key i rule: find_digit.induct)
    case (1 bs key i)
    show ?case using "1.IH" character_at_end [of bs i]
      by (cases "character_at bs i \<noteq> 0 \<and> character_at bs i \<noteq> ucast key")
        (auto simp: find_digit.simps [of bs key i])
  qed
  from this [of 0] show "map_ok ok bs \<Longrightarrow> find_digit bs key 0 < LANGUAGE_TEXT_BYTES"
    by (simp add: map_ok_def)
qed

lemma find_digit_before: "i \<le> j \<Longrightarrow> j < find_digit bs key i \<Longrightarrow> character_at bs j \<noteq> ucast key"
proof (induction bs key i rule: find_digit.induct)
  case (1 bs key i)
  show ?case
  proof (cases "character_at bs i \<noteq> 0 \<and> character_at bs i \<noteq> ucast key")
    case True
    with 1 show ?thesis by (cases "i = j") (auto simp: find_digit.simps [of bs key i])
  next
    case False
    with "1.prems" show ?thesis by (auto simp: find_digit.simps [of bs key i])
  qed
qed

lemma find_digit_found:
  assumes "utf8_decode bs = Some cs" "0 \<notin> set cs" "ucast key \<in> set cs"
  shows "character_at bs (find_digit bs key 0) = ucast key"
proof (rule ccontr)
  let ?d = "find_digit bs key 0"
  assume "\<not> ?thesis"
  then have "character_at bs ?d = 0" using find_digit_stop by blast
  then have "length cs \<le> ?d" using assms(1,2) by (metis character_at_decode not_less nth_mem)
  moreover obtain j where "j < length cs" "cs ! j = ucast key" using assms(3) by (auto simp: in_set_conv_nth)
  ultimately show False using find_digit_before [of 0 j bs key] assms(1) by (simp add: character_at_decode)
qed

text \<open>A key map of a language, as the list of its characters.\<close>

definition key_characters :: "fplinux_multitap_language \<Rightarrow> u8 \<Rightarrow> u32 list" where
  "key_characters l key = (case utf8_decode (ml_keys l ! unat (key - 0x30)) of None \<Rightarrow> [] | Some cs \<Rightarrow> cs)"

lemma key_characters_usable:
  assumes "usable_language l" "fplinux_multitap_handles key"
  shows "utf8_decode (ml_keys l ! unat (key - 0x30)) = Some (key_characters l key)"
    and "ucast key \<in> set (key_characters l key)" and "0 \<notin> set (key_characters l key)"
    and "ml_keys l ! unat (key - 0x30) \<noteq> []"
  using usable_language_map [OF assms] usable_map_nonempty
  by (auto elim!: usable_mapE simp: key_characters_def)

lemma fast_press:
  assumes "characters_for st key = Some bs" "bs \<noteq> []" "mt_pending st" "mt_key st = key" "e < mt_timeout_ms st"
  shows "fplinux_multitap_press st key e emit ctx =
    (MULTITAP_PENDING, st\<lparr>mt_index := (if character_at bs (mt_index st + 1) = 0 then 0 else mt_index st + 1),
                          mt_advanced := True\<rparr>, ctx)"
  using assms by (simp add: fplinux_multitap_press_def)

lemma cycle_state:
  assumes "mt_language st = Some l" "usable_language l" "fplinux_multitap_handles key"
    "\<not> mt_pending st" "e < mt_timeout_ms st"
  shows "((\<lambda>s. fst (snd (fplinux_multitap_press s key e emit ctx))) ^^ Suc n) st =
    st\<lparr>mt_key := key, mt_index := n mod length (key_characters l key), mt_pending := True, mt_advanced := n > 0\<rparr>"
proof (induction n)
  case 0
  have "characters_for st key = Some (ml_keys l ! unat (key - 0x30))"
    using assms by (simp add: characters_for_def)
  then show ?case using assms key_characters_usable(4) [OF assms(2,3)]
    by (simp add: fplinux_multitap_press_def start_cycle_def)
next
  case (Suc n)
  let ?cs = "key_characters l key" and ?bs = "ml_keys l ! unat (key - 0x30)"
  let ?s = "st\<lparr>mt_key := key, mt_index := n mod length ?cs, mt_pending := True, mt_advanced := n > 0\<rparr>"
  have c: "characters_for ?s key = Some ?bs" using assms by (simp add: characters_for_def)
  note u = key_characters_usable [OF assms(2,3)]
  have len: "0 < length ?cs" using u(2) by auto
  have z: "character_at ?bs (n mod length ?cs + 1) = 0 \<longleftrightarrow> \<not> n mod length ?cs + 1 < length ?cs"
    using u(1,3) by (auto simp: character_at_decode dest: nth_mem)
  have "Suc n mod length ?cs = (if n mod length ?cs + 1 < length ?cs then n mod length ?cs + 1 else 0)"
    using mod_less_divisor [OF len, of n] by (auto simp: mod_Suc)
  then show ?case
    using fast_press [OF c u(4), of e emit ctx] assms(5) Suc.IH z by simp
qed

lemma step_back:
  assumes "utf8_decode bs = Some cs" "0 \<notin> set cs" "character_at bs i \<noteq> 0" "character_at bs (i + 1) = 0"
  shows "last_index bs 0 = i"
proof -
  have at: "character_at bs k \<noteq> 0 \<longleftrightarrow> k < length cs" for k
    using assms(1,2) by (auto simp: character_at_decode dest: nth_mem)
  have "i + 1 = length cs" using at [of i] at [of "i + 1"] assms(3,4) by linarith
  moreover have "last_index bs 0 + 1 = length cs"
    using last_index_char [of bs 0] at [of 0] at [of i] at [of "last_index bs 0"] at [of "last_index bs 0 + 1"] assms(3)
    by linarith
  ultimately show ?thesis by linarith
qed

lemma hold_advanced:
  assumes "characters_for st (mt_key st) = Some bs" "mt_pending st" "mt_advanced st"
    "character_at bs (find_digit bs (mt_key st) 0) \<noteq> 0"
    "previous = (if mt_index st \<noteq> 0 then mt_index st - 1 else last_index bs 0)"
    "emit_pending (st\<lparr>mt_index := previous, mt_advanced := False\<rparr>) emit ctx = (MULTITAP_COMMITTED, st1, ctx1)"
  shows "fplinux_multitap_hold st emit ctx =
    emit_pending (st1\<lparr>mt_key := mt_key st, mt_pending := True, mt_index := find_digit bs (mt_key st) 0\<rparr>) emit ctx1"
  using assms by (cases "mt_index st = 0") (simp_all add: fplinux_multitap_hold_def Let_def)

text \<open>The built-in English maps, for the examples.\<close>

lemma english_usable:
  "add_language [] fplinux_language_english = (True, [english_input])" "usable_language english_input"
proof -
  show a: "add_language [] fplinux_language_english = (True, [english_input])"
    using english_maps by (simp add: add_language_def fplinux_language_english_def MULTITAP_LANGUAGE_COUNT_def
        english_input_def) (simp add: english_def)
  show "usable_language english_input"
    using add_language_usable [OF english_wf, of "[]"] a by (simp add: fplinux_language_english_def)
qed

lemma english_two: "key_characters english_input 0x32 = [0x61, 0x62, 0x63, 0x32]"
  by (simp add: key_characters_def english_input_def english_def) code_simp

lemma loaded_languages:
  "let languages = fplinux_multitap_load_languages fopen opendir directory first in
     1 \<le> length languages \<and> length languages \<le> MULTITAP_LANGUAGE_COUNT \<and>
     list_all usable_language languages"
proof -
  define loaded where "loaded others head =
    fold (load_language fopen directory) others (fold (load_language fopen directory) head [])" for others head
  have l: "list_all usable_language (loaded others head) \<and> length (loaded others head) \<le> MULTITAP_LANGUAGE_COUNT"
    for others head unfolding loaded_def by (intro fold_load_usable) simp
  have e: "list_all usable_language (snd (add_language [] fplinux_language_english)) \<and>
    length (snd (add_language [] fplinux_language_english)) \<le> MULTITAP_LANGUAGE_COUNT"
    using add_language_usable [OF english_wf, of "[]"] by (simp add: fplinux_language_english_def)
  show ?thesis
    unfolding fplinux_multitap_load_languages_def Let_def split_def loaded_def [symmetric]
    using l e add_english by (auto simp: Suc_le_eq)
qed

section \<open>Properties of multi-tap composition\<close>

text \<open>
  Whatever the language directory holds and whatever code is asked for first, loading
  gives between one and eight input languages, and each of them has a usable map for each of
  the ten keys: printable UTF-8 that contains the digit of the key.
\<close>

theorem load_languages_usable:
  "let languages = fplinux_multitap_load_languages fopen opendir directory first in
     1 \<le> length languages \<and> length languages \<le> MULTITAP_LANGUAGE_COUNT \<and>
     list_all usable_language languages"
  by (rule loaded_languages)

text \<open>
  C25.  Pressing one key again and again within the time limit walks through the characters
  of its map in their order and starts over after the last: after n + 1 presses the pending
  candidate is the character at position n modulo the length of the map.
\<close>

theorem press_cycles:
  assumes "mt_language st = Some l" "usable_language l" "fplinux_multitap_handles key"
    "\<not> mt_pending st" "e < mt_timeout_ms st"
  shows "fplinux_multitap_candidate
      (((\<lambda>s. fst (snd (fplinux_multitap_press s key e emit ctx))) ^^ Suc n) st) =
    key_characters l key ! (n mod length (key_characters l key))"
proof -
  note u = key_characters_usable [OF assms(2,3)]
  have "n mod length (key_characters l key) < length (key_characters l key)"
    using u(2) by (auto intro!: mod_less_divisor)
  then show ?thesis
    using u(1) assms(1,3) unfolding cycle_state [OF assms]
    by (simp add: fplinux_multitap_candidate_def characters_for_def character_at_decode)
qed

theorem press_cycles_witness:
  "fplinux_multitap_candidate (((\<lambda>s. fst (snd (fplinux_multitap_press s 0x32 100 None ()))) ^^ Suc 6)
     (fplinux_multitap_init (Some english_input) 800)) = 0x63"
  by (subst press_cycles [OF _ english_usable(2)])
    (simp_all add: fplinux_multitap_init_def fplinux_multitap_handles_def english_two)

text \<open>
  Holding a key after a press that stepped the candidate undoes that step: the candidate
  from before the press is emitted, then the digit of the key, and nothing is left pending.
\<close>

theorem hold_undoes_step:
  assumes "mt_language st = Some l" "usable_language l" "fplinux_multitap_handles (mt_key st)"
    "mt_pending st" "fplinux_multitap_candidate st \<noteq> 0" "e < mt_timeout_ms st"
    and "f ctx (fplinux_multitap_candidate st) = (EMIT_ACCEPTED, ctx1)"
    and "f ctx1 (ucast (mt_key st)) = (EMIT_ACCEPTED, ctx2)"
  shows "fplinux_multitap_hold (fst (snd (fplinux_multitap_press st (mt_key st) e emit ctx))) (Some f) ctx =
    (MULTITAP_COMMITTED, fplinux_multitap_cancel st, ctx2)"
proof -
  let ?bs = "ml_keys l ! unat (mt_key st - 0x30)" and ?cs = "key_characters l (mt_key st)"
  note u = key_characters_usable [OF assms(2,3)]
  have c: "characters_for s (mt_key st) = Some ?bs" if "mt_language s = Some l" for s
    using assms(3) that by (simp add: characters_for_def)
  let ?i = "mt_index st" and ?d = "find_digit ?bs (mt_key st) 0"
  define j where "j = (if character_at ?bs (?i + 1) = 0 then 0 else ?i + 1)"
  have p: "fst (snd (fplinux_multitap_press st (mt_key st) e emit ctx)) = st\<lparr>mt_index := j, mt_advanced := True\<rparr>"
    unfolding fast_press [OF c [OF assms(1)] u(4) assms(4) refl assms(6)] by (simp add: j_def)
  have d: "character_at ?bs ?d = ucast (mt_key st)" using find_digit_found [OF u(1,3,2)] .
  have dn: "ucast (mt_key st) \<noteq> (0 :: u32)" using u(2,3) by metis
  have cand: "fplinux_multitap_candidate st = character_at ?bs ?i"
    using c [OF assms(1)] assms(4) by (simp add: fplinux_multitap_candidate_def)
  have prev: "(if j \<noteq> 0 then j - 1 else last_index ?bs 0) = ?i"
    using step_back [OF u(1,3)] assms(5) unfolding cand j_def by simp
  have c1: "fplinux_multitap_candidate (st\<lparr>mt_index := ?i, mt_advanced := False\<rparr>) = fplinux_multitap_candidate st"
    unfolding cand by (rule candidate_at(1) [OF c [OF assms(1)] assms(4)])
  have c2: "fplinux_multitap_candidate ((fplinux_multitap_cancel (st\<lparr>mt_index := ?i, mt_advanced := False\<rparr>))
      \<lparr>mt_key := mt_key st, mt_pending := True, mt_index := ?d\<rparr>) = ucast (mt_key st)"
    unfolding d [symmetric] by (rule candidate_at(3), rule c) (simp add: assms(1))
  have e1: "emit_pending (st\<lparr>mt_index := ?i, mt_advanced := False\<rparr>) (Some f) ctx =
      (MULTITAP_COMMITTED, fplinux_multitap_cancel (st\<lparr>mt_index := ?i, mt_advanced := False\<rparr>), ctx1)"
    unfolding emit_pending_def c1 using assms(4,7) by simp
  have e2: "emit_pending ((fplinux_multitap_cancel (st\<lparr>mt_index := ?i, mt_advanced := False\<rparr>))
      \<lparr>mt_key := mt_key st, mt_pending := True, mt_index := ?d\<rparr>) (Some f) ctx1 =
      (MULTITAP_COMMITTED, fplinux_multitap_cancel st, ctx2)"
    unfolding emit_pending_def c2 using assms(8) by (simp add: fplinux_multitap_cancel_def)
  show ?thesis unfolding p
  proof (rule hold_advanced [where bs = ?bs and previous = ?i, THEN trans])
    show "?i = (if mt_index (st\<lparr>mt_index := j, mt_advanced := True\<rparr>) \<noteq> 0
      then mt_index (st\<lparr>mt_index := j, mt_advanced := True\<rparr>) - 1 else last_index ?bs 0)" using prev by auto
  qed (use c [OF assms(1)] assms(4) d dn e1 e2 in simp_all)
qed

theorem hold_undoes_step_witness:
  "fplinux_multitap_hold (fst (snd (fplinux_multitap_press
       (start_cycle (fplinux_multitap_init (Some english_input) 800) 0x32) 0x32 100 None ([] :: u32 list))))
     (Some (\<lambda>out c. (EMIT_ACCEPTED, out @ [c]))) [] =
   (MULTITAP_COMMITTED, fplinux_multitap_init (Some english_input) 800, [0x61, 0x32])"
proof -
  let ?st = "start_cycle (fplinux_multitap_init (Some english_input) 800) 0x32"
  have c: "fplinux_multitap_candidate ?st = 0x61"
    using character_at_decode [OF key_characters_usable(1) [OF english_usable(2), where key = "0x32"], where i = 0] english_two
    by (simp add: fplinux_multitap_candidate_def start_cycle_def fplinux_multitap_init_def characters_for_def
        fplinux_multitap_handles_def)
  show ?thesis
    using hold_undoes_step [where st = ?st and l = english_input and e = 100 and ctx = "[]" and emit = None
        and f = "\<lambda>out c. (EMIT_ACCEPTED, out @ [c])" and ?ctx1.0 = "[0x61]" and ?ctx2.0 = "[0x61, 0x32]"]
      english_usable(2) c
    by (simp add: start_cycle_def fplinux_multitap_init_def fplinux_multitap_cancel_def fplinux_multitap_handles_def)
qed

text \<open>
  A sink that blocks loses nothing: when a press, a commit or an expiry reports that it
  was blocked, the state is the one before the call and the pending candidate is still there.
\<close>

theorem blocked_keeps_pending:
  "(\<forall>st' ctx'. fplinux_multitap_press st key e emit ctx = (MULTITAP_BLOCKED, st', ctx') \<longrightarrow> st' = st \<and> mt_pending st) \<and>
   (\<forall>st' ctx'. fplinux_multitap_commit st emit ctx = (MULTITAP_BLOCKED, st', ctx') \<longrightarrow> st' = st \<and> mt_pending st) \<and>
   (\<forall>st' ctx'. fplinux_multitap_expire st e emit ctx = (MULTITAP_BLOCKED, st', ctx') \<longrightarrow> st' = st \<and> mt_pending st)"
proof -
  have e: "st' = st \<and> mt_pending st" if "emit_pending st emit ctx = (MULTITAP_BLOCKED, st', ctx')" for st' ctx'
    using that by (auto simp: emit_pending_def split: if_split_asm option.split_asm prod.split_asm
        fplinux_multitap_emit_result.split_asm)
  show ?thesis using e
    by (auto simp: fplinux_multitap_press_def fplinux_multitap_commit_def fplinux_multitap_expire_def
        split: option.split_asm if_split_asm prod.split_asm)
qed

theorem blocked_keeps_pending_witness:
  "\<exists>st'. fplinux_multitap_press (start_cycle (fplinux_multitap_init (Some english_input) 800) 0x32) 0x33 100 None () =
      (MULTITAP_BLOCKED, st', ()) \<and>
    st' = start_cycle (fplinux_multitap_init (Some english_input) 800) 0x32"
proof -
  let ?st = "start_cycle (fplinux_multitap_init (Some english_input) 800) 0x32"
  have "ml_keys english_input ! 3 \<noteq> []" using key_characters_usable(4) [OF english_usable(2), where key = "0x33"]
    by (simp add: fplinux_multitap_handles_def)
  then obtain st' where p: "fplinux_multitap_press ?st 0x33 100 None () = (MULTITAP_BLOCKED, st', ())"
    by (simp add: fplinux_multitap_press_def start_cycle_def fplinux_multitap_init_def characters_for_def
        fplinux_multitap_handles_def emit_pending_def)
  then show ?thesis using blocked_keeps_pending [where st = ?st and key = "0x33" and e = 100 and emit = None and ctx = "()"] by blast
qed

end
