(* ===== verification/Text_Input.thy ===== *)
theory Text_Input
  imports Multitap
begin

section \<open>The keypad policy\<close>

text \<open>
  \<^verbatim>\<open>lib/fplinux/fplinux-text-input.c\<close>: input modes, the composition of the multi-tap engine
  with its deadlines, physical holds of digit and control keys, the repeat of Clear and the
  symbol picker.  Milliseconds are \<^typ>\<open>u64\<close> and wrap as in the source.  Positions in the
  language array and in the symbol grid are natural numbers; they stay below 8 and 38
  (\<open>input_ok\<close>), so their unsigned types never wrap.

  The callbacks of the source receive a context that holds the input structure itself.
  Here an emit function receives the input as it is when it is called, and an erase function
  returns the input it may have changed, next to the context.  An emit function may look at
  the modes of the input; the composition it sees is the one before the call.
\<close>

subsection \<open>Data\<close>

definition TEXT_INPUT_COMMIT_MS :: nat where "TEXT_INPUT_COMMIT_MS = 1000"
definition TEXT_INPUT_HOLD_MS :: nat where "TEXT_INPUT_HOLD_MS = 500"
definition TEXT_INPUT_REPEAT_MS :: nat where "TEXT_INPUT_REPEAT_MS = 100"
definition TEXT_INPUT_PICKER_COLUMNS :: nat where "TEXT_INPUT_PICKER_COLUMNS = 6"

abbreviation COMMIT_MS :: u64 where "COMMIT_MS \<equiv> of_nat TEXT_INPUT_COMMIT_MS"
abbreviation HOLD_MS :: u64 where "HOLD_MS \<equiv> of_nat TEXT_INPUT_HOLD_MS"
abbreviation REPEAT_MS :: u64 where "REPEAT_MS \<equiv> of_nat TEXT_INPUT_REPEAT_MS"

datatype fplinux_text_input_gesture = GESTURE_UNDECIDED | GESTURE_TAP | GESTURE_HOLD

datatype fplinux_text_input_direction = DIR_LEFT | DIR_RIGHT | DIR_UP | DIR_DOWN

record fplinux_text_input =
  ti_languages :: fplinux_multitap_languages
  ti_language :: nat
  ti_letter_case :: fplinux_language_case
  ti_numeric :: bool
  ti_allow_sentence :: bool
  ti_compose :: fplinux_multitap
  ti_compose_ms :: u64
  ti_held_digit :: u8
  ti_held_ms :: u64
  ti_held_control :: u8
  ti_control_ms :: u64
  ti_control_gesture :: fplinux_text_input_gesture
  ti_clearing :: bool
  ti_clear_ms :: u64
  ti_picker_open :: bool
  ti_picker_index :: nat
  ti_picker_columns :: nat

type_synonym 'c input_emit = "(fplinux_text_input \<Rightarrow> 'c \<Rightarrow> u32 \<Rightarrow> fplinux_multitap_emit_result \<times> 'c) option"
type_synonym 'c input_erase =
  "fplinux_text_input \<Rightarrow> 'c \<Rightarrow> fplinux_multitap_emit_result \<times> fplinux_text_input \<times> 'c"
type_synonym 'c input_result = "fplinux_multitap_result \<times> fplinux_text_input \<times> 'c"

definition symbols :: "u32 list" where
  "symbols =
     [0x2e, 0x2c, 0x3f, 0x21, 0x27, 0x22, 0x2d, 0x28, 0x29, 0x40,
      0x2f, 0x3a, 0x3b, 0x5f, 0x2b, 0x3d, 0x2a, 0x23, 0x25, 0x26,
      0x24, 0x3c, 0x3e, 0x7e, 0x5b, 0x5d, 0x7b, 0x7d, 0x5c, 0x7c,
      0xab, 0xbb, 0x2014, 0x2116, 0x20ac, 0xb0, 0x60, 0x5e]"

definition fplinux_text_input_symbol_count :: nat where
  "fplinux_text_input_symbol_count = length symbols"

definition fplinux_text_input_symbol :: "nat \<Rightarrow> u32" where
  "fplinux_text_input_symbol index =
     (if index < fplinux_text_input_symbol_count then symbols ! index else 0)"

definition fplinux_text_input_symbol_label :: "nat \<Rightarrow> bytes option" where
  "fplinux_text_input_symbol_label index =
     (let character = fplinux_text_input_symbol index
      in if character = 0 then None else Some (fplinux_text_input_encode_utf8 character))"

text \<open>A slot of the language array past the loaded ones is all zero.\<close>

definition language_slot :: "fplinux_multitap_languages \<Rightarrow> nat \<Rightarrow> fplinux_multitap_language" where
  "language_slot ls i = (if i < length ls then ls ! i else zero_multitap_language)"

text \<open>The memory after \<^verbatim>\<open>memset(input, 0, sizeof(*input))\<close>.\<close>

definition zero_text_input :: fplinux_text_input where
  "zero_text_input =
     \<lparr> ti_languages = [], ti_language = 0, ti_letter_case = LANGUAGE_SENTENCE, ti_numeric = False,
       ti_allow_sentence = False, ti_compose = fplinux_multitap_init None 0, ti_compose_ms = 0,
       ti_held_digit = 0, ti_held_ms = 0, ti_held_control = 0, ti_control_ms = 0,
       ti_control_gesture = GESTURE_UNDECIDED, ti_clearing = False, ti_clear_ms = 0,
       ti_picker_open = False, ti_picker_index = 0, ti_picker_columns = 0 \<rparr>"

subsection \<open>Modes\<close>

definition first_case :: "fplinux_text_input \<Rightarrow> fplinux_language_case" where
  "first_case input = (if ti_allow_sentence input then LANGUAGE_SENTENCE else LANGUAGE_LOWER)"

fun next_case :: "fplinux_language_case \<Rightarrow> fplinux_language_case" where
  "next_case LANGUAGE_SENTENCE = LANGUAGE_LOWER"
| "next_case LANGUAGE_LOWER = LANGUAGE_UPPER"
| "next_case LANGUAGE_UPPER = LANGUAGE_UPPER"

definition fplinux_text_input_cancel_held :: "fplinux_text_input \<Rightarrow> fplinux_text_input" where
  "fplinux_text_input_cancel_held input =
     input\<lparr>ti_held_digit := 0, ti_held_control := 0, ti_clearing := False, ti_picker_open := False\<rparr>"

definition fplinux_text_input_reset_mode :: "fplinux_text_input \<Rightarrow> bool \<Rightarrow> fplinux_text_input" where
  "fplinux_text_input_reset_mode input numeric =
     (let input = fplinux_text_input_cancel_held
            (input\<lparr>ti_language := 0, ti_letter_case := first_case input, ti_numeric := numeric\<rparr>)
      in input\<lparr>ti_compose := fplinux_multitap_set_language (ti_compose input)
                               (Some (language_slot (ti_languages input) 0))\<rparr>)"

definition fplinux_text_input_load_languages ::
    "file_system \<Rightarrow> bytes list option \<Rightarrow> fplinux_text_input \<Rightarrow> bytes option \<Rightarrow> bytes option \<Rightarrow>
     fplinux_text_input" where
  "fplinux_text_input_load_languages fopen opendir input directory first =
     fplinux_text_input_reset_mode
       (input\<lparr>ti_languages := fplinux_multitap_load_languages fopen opendir directory first\<rparr>) False"

definition fplinux_text_input_init ::
    "file_system \<Rightarrow> bytes list option \<Rightarrow> bytes option \<Rightarrow> bytes option \<Rightarrow> bool \<Rightarrow> fplinux_text_input" where
  "fplinux_text_input_init fopen opendir directory first allow_sentence =
     fplinux_text_input_load_languages fopen opendir
       (zero_text_input
         \<lparr>ti_allow_sentence := allow_sentence, ti_picker_columns := TEXT_INPUT_PICKER_COLUMNS,
          ti_compose := fplinux_multitap_init None (of_nat TEXT_INPUT_COMMIT_MS)\<rparr>)
       directory first"

definition fplinux_text_input_set_sentence_case :: "fplinux_text_input \<Rightarrow> bool \<Rightarrow> fplinux_text_input" where
  "fplinux_text_input_set_sentence_case input allowed =
     (let input = input\<lparr>ti_allow_sentence := allowed\<rparr>
      in if \<not> allowed \<and> ti_letter_case input = LANGUAGE_SENTENCE
         then input\<lparr>ti_letter_case := LANGUAGE_LOWER\<rparr> else input)"

definition fplinux_text_input_apply_case ::
    "(u32 \<Rightarrow> u32) \<Rightarrow> fplinux_text_input \<Rightarrow> u32 \<Rightarrow> bool \<Rightarrow> u32" where
  "fplinux_text_input_apply_case towupper input character starts_sentence =
     (if \<not> ti_numeric input \<and>
         (ti_letter_case input = LANGUAGE_UPPER \<or>
          ti_letter_case input = LANGUAGE_SENTENCE \<and> starts_sentence)
      then fplinux_multitap_uppercase towupper character else character)"

fun case_position :: "fplinux_language_case \<Rightarrow> nat" where
  "case_position LANGUAGE_SENTENCE = 0"
| "case_position LANGUAGE_LOWER = 1"
| "case_position LANGUAGE_UPPER = 2"

definition fplinux_text_input_indicator :: "fplinux_text_input \<Rightarrow> bytes" where
  "fplinux_text_input_indicator input =
     (if ti_numeric input then bytes_of ''123''
      else ml_indicator (language_slot (ti_languages input) (ti_language input))
             ! case_position (ti_letter_case input))"

subsection \<open>Composition, holds and Clear\<close>

text \<open>An operation of the engine on the composition of an input.\<close>

definition run_compose ::
    "(fplinux_multitap \<Rightarrow> 'c emit_fn \<Rightarrow> 'c \<Rightarrow> fplinux_multitap_result \<times> fplinux_multitap \<times> 'c) \<Rightarrow>
     fplinux_text_input \<Rightarrow> 'c input_emit \<Rightarrow> 'c \<Rightarrow> 'c input_result" where
  "run_compose operation input emit ctx =
     (case operation (ti_compose input) (map_option (\<lambda>f. f input) emit) ctx of
        (result, compose, ctx') \<Rightarrow> (result, input\<lparr>ti_compose := compose\<rparr>, ctx'))"

definition fplinux_text_input_commit ::
    "fplinux_text_input \<Rightarrow> 'c input_emit \<Rightarrow> 'c \<Rightarrow> 'c input_result" where
  "fplinux_text_input_commit input emit ctx =
     (case run_compose fplinux_multitap_commit input emit ctx of
        (result, input, ctx) \<Rightarrow>
          (result, if result \<noteq> MULTITAP_BLOCKED then input\<lparr>ti_held_digit := 0\<rparr> else input, ctx))"

definition fplinux_text_input_cancel :: "fplinux_text_input \<Rightarrow> fplinux_text_input" where
  "fplinux_text_input_cancel input =
     input\<lparr>ti_held_digit := 0, ti_held_control := 0,
           ti_compose := fplinux_multitap_cancel (ti_compose input)\<rparr>"

definition fplinux_text_input_open_picker ::
    "fplinux_text_input \<Rightarrow> 'c input_emit \<Rightarrow> 'c \<Rightarrow> 'c input_result" where
  "fplinux_text_input_open_picker input emit ctx =
     (case fplinux_text_input_commit input emit ctx of
        (result, input, ctx) \<Rightarrow>
          (result,
           if result \<noteq> MULTITAP_BLOCKED
           then input\<lparr>ti_held_control := 0, ti_picker_open := True, ti_picker_index := 0\<rparr> else input,
           ctx))"

text \<open>What a control key does once the pending character is committed.\<close>

definition apply_control :: "fplinux_text_input \<Rightarrow> fplinux_text_input" where
  "apply_control input =
     (if ti_held_control input = 0x23 then
        (if ti_control_gesture input = GESTURE_HOLD then input\<lparr>ti_numeric := \<not> ti_numeric input\<rparr>
         else if ti_numeric input then input\<lparr>ti_numeric := False\<rparr>
         else input\<lparr>ti_letter_case :=
                (if ti_letter_case input = LANGUAGE_UPPER then first_case input
                 else next_case (ti_letter_case input))\<rparr>)
      else
        let language = (ti_language input + 1) mod length (ti_languages input)
        in input\<lparr>ti_language := language, ti_numeric := False,
                 ti_compose := fplinux_multitap_set_language (ti_compose input)
                                 (Some (language_slot (ti_languages input) language))\<rparr>)
     \<lparr>ti_held_control := 0\<rparr>"

definition control_action :: "fplinux_text_input \<Rightarrow> 'c input_emit \<Rightarrow> 'c \<Rightarrow> 'c input_result" where
  "control_action input emit ctx =
     (if ti_held_control input = 0x2a \<and> ti_control_gesture input = GESTURE_TAP
      then fplinux_text_input_open_picker input emit ctx
      else case fplinux_text_input_commit input emit ctx of
        (result, input, ctx) \<Rightarrow>
          if result = MULTITAP_BLOCKED then (result, input, ctx)
          else (result, apply_control input, ctx))"

definition elapsed_ms :: "u64 \<Rightarrow> u64 \<Rightarrow> u32" where
  "elapsed_ms now_ms since_ms =
     (let elapsed = (if now_ms > since_ms then now_ms - since_ms else 0)
      in if elapsed > 0xffffffff then 0xffffffff else ucast elapsed)"

definition fplinux_text_input_compose ::
    "fplinux_text_input \<Rightarrow> u8 \<Rightarrow> u64 \<Rightarrow> 'c input_emit \<Rightarrow> 'c \<Rightarrow> 'c input_result" where
  "fplinux_text_input_compose input key now_ms emit ctx =
     (case run_compose (\<lambda>state. fplinux_multitap_press state key (elapsed_ms now_ms (ti_compose_ms input)))
             input emit ctx of
        (result, input, ctx) \<Rightarrow>
          (result, if result \<noteq> MULTITAP_BLOCKED then input\<lparr>ti_compose_ms := now_ms\<rparr> else input, ctx))"

fun emitted :: "fplinux_multitap_emit_result \<Rightarrow> fplinux_multitap_result" where
  "emitted EMIT_ACCEPTED = MULTITAP_COMMITTED"
| "emitted EMIT_REJECTED = MULTITAP_REJECTED"
| "emitted EMIT_BLOCKED = MULTITAP_BLOCKED"

definition fplinux_text_input_press ::
    "fplinux_text_input \<Rightarrow> u8 \<Rightarrow> u64 \<Rightarrow> 'c input_emit \<Rightarrow> 'c \<Rightarrow> 'c input_result" where
  "fplinux_text_input_press input key now_ms emit ctx =
     (if key = 0x23 \<or> key = 0x2a then
        (MULTITAP_PENDING,
         input\<lparr>ti_held_control := key, ti_control_ms := now_ms, ti_control_gesture := GESTURE_UNDECIDED,
               ti_held_digit := 0, ti_clearing := False\<rparr>, ctx)
      else if \<not> fplinux_multitap_handles key then (MULTITAP_IGNORED, input, ctx)
      else
        let input = input\<lparr>ti_held_control := 0\<rparr> in
        if ti_numeric input then
          (case fplinux_text_input_commit input emit ctx of
             (result, input, ctx) \<Rightarrow>
               if result = MULTITAP_BLOCKED then (result, input, ctx)
               else (case emit of
                       None \<Rightarrow> (MULTITAP_BLOCKED, input, ctx)
                     | Some f \<Rightarrow> (case f input ctx (ucast key) of (r, ctx) \<Rightarrow> (emitted r, input, ctx))))
        else
          (case fplinux_text_input_compose input key now_ms emit ctx of
             (result, input, ctx) \<Rightarrow>
               (result,
                if result \<noteq> MULTITAP_BLOCKED \<and> mt_pending (ti_compose input)
                then input\<lparr>ti_held_digit := key, ti_held_ms := now_ms\<rparr> else input,
                ctx)))"

definition hold_digit :: "fplinux_text_input \<Rightarrow> u64 \<Rightarrow> 'c input_emit \<Rightarrow> 'c \<Rightarrow> 'c input_result" where
  "hold_digit input now_ms emit ctx =
     (if ti_held_digit input = 0 \<or> now_ms < ti_held_ms input + HOLD_MS then (MULTITAP_PENDING, input, ctx)
      else case run_compose fplinux_multitap_hold input emit ctx of
        (result, input, ctx) \<Rightarrow>
          (result, if result \<noteq> MULTITAP_BLOCKED then input\<lparr>ti_held_digit := 0\<rparr> else input, ctx))"

definition fplinux_text_input_release ::
    "fplinux_text_input \<Rightarrow> u8 \<Rightarrow> u64 \<Rightarrow> 'c input_emit \<Rightarrow> 'c \<Rightarrow> 'c input_result" where
  "fplinux_text_input_release input key now_ms emit ctx =
     (if ti_held_control input \<noteq> 0 \<and> ti_held_control input = key then
        control_action
          (if ti_control_gesture input = GESTURE_UNDECIDED
           then input\<lparr>ti_control_gesture :=
                  (if now_ms \<ge> ti_control_ms input + HOLD_MS then GESTURE_HOLD else GESTURE_TAP)\<rparr>
           else input) emit ctx
      else if ti_held_digit input = 0 \<or> ti_held_digit input \<noteq> key then (MULTITAP_IGNORED, input, ctx)
      else case hold_digit input now_ms emit ctx of
        (result, input, ctx) \<Rightarrow>
          (result, if result \<noteq> MULTITAP_BLOCKED then input\<lparr>ti_held_digit := 0\<rparr> else input, ctx))"

definition fplinux_text_input_clear_press ::
    "fplinux_text_input \<Rightarrow> u64 \<Rightarrow> 'c input_erase \<Rightarrow> 'c \<Rightarrow>
     fplinux_multitap_emit_result \<times> fplinux_text_input \<times> 'c" where
  "fplinux_text_input_clear_press input now_ms erase ctx =
     (case erase input ctx of
        (result, input, ctx) \<Rightarrow>
          (result,
           if result \<noteq> EMIT_BLOCKED
           then input\<lparr>ti_held_digit := 0, ti_held_control := 0, ti_clearing := (result = EMIT_ACCEPTED),
                      ti_clear_ms := now_ms + HOLD_MS\<rparr>
           else input, ctx))"

definition fplinux_text_input_clear_release :: "fplinux_text_input \<Rightarrow> fplinux_text_input" where
  "fplinux_text_input_clear_release input = input\<lparr>ti_clearing := False\<rparr>"

text \<open>
  The four steps of \<^verbatim>\<open>fplinux_text_input_tick\<close>.  Each of them receives the result so far and
  the tick ends at the first one that is blocked.
\<close>

definition tick_control :: "u64 \<Rightarrow> 'c input_emit \<Rightarrow> 'c input_result \<Rightarrow> 'c input_result" where
  "tick_control now_ms emit = (\<lambda>(result, input, ctx).
     if ti_held_control input \<noteq> 0 \<and> now_ms \<ge> ti_control_ms input + HOLD_MS
     then control_action
            (if ti_control_gesture input = GESTURE_UNDECIDED
             then input\<lparr>ti_control_gesture := GESTURE_HOLD\<rparr> else input) emit ctx
     else (result, input, ctx))"

definition tick_commit :: "u64 \<Rightarrow> 'c input_emit \<Rightarrow> 'c input_result \<Rightarrow> 'c input_result" where
  "tick_commit now_ms emit = (\<lambda>(result, input, ctx).
     if ti_held_digit input = 0 \<and> mt_pending (ti_compose input) \<and>
        now_ms \<ge> ti_compose_ms input + COMMIT_MS
     then fplinux_text_input_commit input emit ctx
     else (result, input, ctx))"

definition tick_clear :: "u64 \<Rightarrow> 'c input_erase \<Rightarrow> 'c input_result \<Rightarrow> 'c input_result" where
  "tick_clear now_ms erase = (\<lambda>(result, input, ctx).
     if ti_clearing input \<and> now_ms \<ge> ti_clear_ms input
     then (case erase input ctx of
             (erased, input, ctx) \<Rightarrow>
               if erased = EMIT_BLOCKED then (MULTITAP_BLOCKED, input, ctx)
               else (result, input\<lparr>ti_clearing := (erased = EMIT_ACCEPTED),
                                  ti_clear_ms := now_ms + REPEAT_MS\<rparr>, ctx))
     else (result, input, ctx))"

definition unless_blocked :: "('c input_result \<Rightarrow> 'c input_result) \<Rightarrow> 'c input_result \<Rightarrow> 'c input_result" where
  "unless_blocked step r = (if fst r = MULTITAP_BLOCKED then r else step r)"

definition fplinux_text_input_tick ::
    "fplinux_text_input \<Rightarrow> u64 \<Rightarrow> 'c input_emit \<Rightarrow> 'c input_erase \<Rightarrow> 'c \<Rightarrow> 'c input_result" where
  "fplinux_text_input_tick input now_ms emit erase ctx =
     unless_blocked (tick_clear now_ms erase)
       (unless_blocked (tick_commit now_ms emit)
         (unless_blocked (tick_control now_ms emit)
           (hold_digit input now_ms emit ctx)))"

definition fplinux_text_input_deadline :: "fplinux_text_input \<Rightarrow> u64 option" where
  "fplinux_text_input_deadline input =
     (let deadline = (if ti_held_digit input \<noteq> 0 then ti_held_ms input + HOLD_MS
                      else if mt_pending (ti_compose input) then ti_compose_ms input + COMMIT_MS
                      else UINT64_MAX);
          deadline = (if ti_held_control input \<noteq> 0 \<and> ti_control_ms input + HOLD_MS < deadline
                      then ti_control_ms input + HOLD_MS else deadline);
          deadline = (if ti_clearing input \<and> ti_clear_ms input < deadline
                      then ti_clear_ms input else deadline)
      in if deadline = UINT64_MAX then None else Some deadline)"

subsection \<open>The symbol picker\<close>

definition fplinux_text_input_close_picker :: "fplinux_text_input \<Rightarrow> fplinux_text_input" where
  "fplinux_text_input_close_picker input = input\<lparr>ti_picker_open := False\<rparr>"

definition fplinux_text_input_set_picker_columns :: "fplinux_text_input \<Rightarrow> nat \<Rightarrow> fplinux_text_input" where
  "fplinux_text_input_set_picker_columns input columns =
     input\<lparr>ti_picker_columns :=
        (if columns \<noteq> 0 \<and> columns \<le> fplinux_text_input_symbol_count then columns
         else TEXT_INPUT_PICKER_COLUMNS)\<rparr>"

text \<open>
  The loop of an upward move from the first row.  It ends because a grid has at least one
  column; the symbol count as fuel is enough (\<open>bottom_row_end\<close>).
\<close>

fun bottom_row :: "nat \<Rightarrow> nat \<Rightarrow> nat \<Rightarrow> nat \<Rightarrow> nat" where
  "bottom_row 0 symbol_count columns index = index"
| "bottom_row (Suc fuel) symbol_count columns index =
     (if index + columns < symbol_count then bottom_row fuel symbol_count columns (index + columns) else index)"

definition fplinux_text_input_move_picker ::
    "fplinux_text_input \<Rightarrow> fplinux_text_input_direction \<Rightarrow> fplinux_text_input" where
  "fplinux_text_input_move_picker input direction =
     (let symbol_count = fplinux_text_input_symbol_count;
          columns = ti_picker_columns input;
          index = ti_picker_index input
      in input\<lparr>ti_picker_index :=
           (case direction of
              DIR_LEFT \<Rightarrow> if index \<noteq> 0 then index - 1 else symbol_count - 1
            | DIR_RIGHT \<Rightarrow> (index + 1) mod symbol_count
            | DIR_UP \<Rightarrow> if index \<ge> columns then index - columns
                        else bottom_row symbol_count symbol_count columns index
            | DIR_DOWN \<Rightarrow> if index + columns < symbol_count then index + columns else index mod columns)\<rparr>)"

definition fplinux_text_input_select_symbol ::
    "fplinux_text_input \<Rightarrow> (fplinux_text_input \<Rightarrow> 'c \<Rightarrow> u32 \<Rightarrow> fplinux_multitap_emit_result \<times> 'c) \<Rightarrow> 'c \<Rightarrow>
     fplinux_multitap_emit_result \<times> fplinux_text_input \<times> 'c" where
  "fplinux_text_input_select_symbol input emit ctx =
     (case emit input ctx (fplinux_text_input_symbol (ti_picker_index input)) of
        (result, ctx) \<Rightarrow>
          (result, if result \<noteq> EMIT_BLOCKED then fplinux_text_input_close_picker input else input, ctx))"

section \<open>Facts about the keypad policy\<close>

subsection \<open>The picker\<close>

lemma symbol_count [simp]: "fplinux_text_input_symbol_count = 38"
  by (simp add: fplinux_text_input_symbol_count_def symbols_def)

lemma symbols_plain: "list_all is_plain symbols"
  by code_simp

lemma symbol_plain: "i < fplinux_text_input_symbol_count \<Longrightarrow> is_plain (fplinux_text_input_symbol i)"
  unfolding fplinux_text_input_symbol_def fplinux_text_input_symbol_count_def
  using symbols_plain by (simp add: list_all_length)

lemma bottom_row_end:
  assumes "0 < columns" "index < symbol_count" "symbol_count \<le> index + fuel"
  shows "let i = bottom_row fuel symbol_count columns index in
    i < symbol_count \<and> symbol_count \<le> i + columns \<and> i mod columns = index mod columns \<and> index \<le> i"
  using assms
proof (induction fuel arbitrary: index)
  case 0
  then show ?case by simp
next
  case (Suc fuel)
  show ?case
  proof (cases "index + columns < symbol_count")
    case True
    with Suc.prems have "symbol_count \<le> index + columns + fuel" by linarith
    from Suc.IH [OF Suc.prems(1) True this] True show ?thesis by (simp add: Let_def)
  next
    case False
    with Suc.prems show ?thesis by (simp add: Let_def)
  qed
qed

definition picker_ok :: "fplinux_text_input \<Rightarrow> bool" where
  "picker_ok input \<longleftrightarrow> ti_picker_index input < fplinux_text_input_symbol_count \<and>
     1 \<le> ti_picker_columns input \<and> ti_picker_columns input \<le> fplinux_text_input_symbol_count"

lemma picker_column: "picker_ok input \<Longrightarrow> ti_picker_index input mod ti_picker_columns input < 38"
  by (metis mod_less_eq_dividend order_le_less_trans picker_ok_def symbol_count)

lemma picker_bottom:
  assumes "picker_ok input"
  shows "bottom_row 38 38 (ti_picker_columns input) (ti_picker_index input) < 38"
    "38 \<le> bottom_row 38 38 (ti_picker_columns input) (ti_picker_index input) + ti_picker_columns input"
    "bottom_row 38 38 (ti_picker_columns input) (ti_picker_index input) mod ti_picker_columns input =
       ti_picker_index input mod ti_picker_columns input"
    "ti_picker_index input \<le> bottom_row 38 38 (ti_picker_columns input) (ti_picker_index input)"
  using assms bottom_row_end [of "ti_picker_columns input" "ti_picker_index input" 38 38]
  by (auto simp: picker_ok_def Let_def)

lemma move_picker_ok:
  assumes "picker_ok input"
  shows "picker_ok (fplinux_text_input_move_picker input d)"
  using assms picker_bottom(1) [OF assms] picker_column [OF assms]
  by (cases d) (auto simp: picker_ok_def fplinux_text_input_move_picker_def Let_def)

lemma same_row:
  fixes i j c :: nat
  assumes "i mod c = j mod c" "i < j + c" "j < i + c"
  shows "i = j"
proof (rule ccontr)
  assume ne: "i \<noteq> j"
  then consider "i < j" | "j < i" by linarith
  then show False
  proof cases
    case 1
    with assms have "c dvd j - i" by (metis less_imp_le mod_eq_dvd_iff_nat)
    with 1 assms(3) show False by (auto dest: dvd_imp_le)
  next
    case 2
    with assms have "c dvd i - j" by (metis less_imp_le mod_eq_dvd_iff_nat)
    with 2 assms(2) show False by (auto dest: dvd_imp_le)
  qed
qed

subsection \<open>Deadlines\<close>

text \<open>When each of the four timers of an input runs out.\<close>

definition due_times :: "fplinux_text_input \<Rightarrow> u64 set" where
  "due_times input =
     (if ti_held_digit input \<noteq> 0 then {ti_held_ms input + HOLD_MS} else {}) \<union>
     (if ti_held_digit input = 0 \<and> mt_pending (ti_compose input) then {ti_compose_ms input + COMMIT_MS} else {}) \<union>
     (if ti_held_control input \<noteq> 0 then {ti_control_ms input + HOLD_MS} else {}) \<union>
     (if ti_clearing input then {ti_clear_ms input} else {})"

lemma min_UINT64_MAX [simp]: "min UINT64_MAX x = x" "min x UINT64_MAX = x"
  by (simp_all add: min_absorb1 min_absorb2)

lemma earlier_min: "(if p \<and> t < d then t else d) = (if p then min d t else d)" for t d :: u64
  by (auto simp: min_def)

lemma deadline_Min:
  "fplinux_text_input_deadline input =
     (let d = Min (insert UINT64_MAX (due_times input)) in if d = UINT64_MAX then None else Some d)"
proof -
  let ?d0 = "if ti_held_digit input \<noteq> 0 then ti_held_ms input + HOLD_MS
             else if mt_pending (ti_compose input) then ti_compose_ms input + COMMIT_MS else UINT64_MAX"
  let ?d1 = "if ti_held_control input \<noteq> 0 then min ?d0 (ti_control_ms input + HOLD_MS) else ?d0"
  let ?d2 = "if ti_clearing input then min ?d1 (ti_clear_ms input) else ?d1"
  have "Min (insert UINT64_MAX (due_times input)) = ?d2"
    unfolding due_times_def
    by (cases "ti_held_digit input = 0"; cases "mt_pending (ti_compose input)";
        cases "ti_held_control input = 0"; cases "ti_clearing input")
      (simp_all add: min.assoc min.commute min.left_commute)
  then show ?thesis unfolding fplinux_text_input_deadline_def Let_def earlier_min by simp
qed

lemma due_times_finite [simp]: "finite (due_times input)"
  by (simp add: due_times_def)

lemma deadline_due:
  "fplinux_text_input_deadline input = Some d \<Longrightarrow> d \<in> due_times input \<and> (\<forall>t \<in> due_times input. d \<le> t)"
proof -
  assume "fplinux_text_input_deadline input = Some d"
  then have d: "d = Min (insert UINT64_MAX (due_times input))" "d \<noteq> UINT64_MAX"
    by (simp_all add: deadline_Min Let_def split: if_split_asm)
  then show ?thesis using Min_in [of "insert UINT64_MAX (due_times input)"] by auto
qed

lemma deadline_none: "fplinux_text_input_deadline input = None \<longleftrightarrow> due_times input \<subseteq> {UINT64_MAX}"
proof -
  have "Min (insert UINT64_MAX (due_times input)) = UINT64_MAX \<longleftrightarrow> (\<forall>t \<in> due_times input. t = UINT64_MAX)"
    by (subst Min_eq_iff) (auto simp: word_order.extremum_unique)
  then show ?thesis by (auto simp: deadline_Min Let_def)
qed

text \<open>The four timers one by one: which of them are not due at \<open>now\<close>.\<close>

definition quiet_digit :: "u64 \<Rightarrow> fplinux_text_input \<Rightarrow> bool" where
  "quiet_digit now i \<longleftrightarrow> ti_held_digit i = 0 \<or> now < ti_held_ms i + HOLD_MS"
definition quiet_control :: "u64 \<Rightarrow> fplinux_text_input \<Rightarrow> bool" where
  "quiet_control now i \<longleftrightarrow> ti_held_control i = 0 \<or> now < ti_control_ms i + HOLD_MS"
definition quiet_compose :: "u64 \<Rightarrow> fplinux_text_input \<Rightarrow> bool" where
  "quiet_compose now i \<longleftrightarrow> ti_held_digit i \<noteq> 0 \<or> \<not> mt_pending (ti_compose i) \<or> now < ti_compose_ms i + COMMIT_MS"
definition quiet_clear :: "u64 \<Rightarrow> fplinux_text_input \<Rightarrow> bool" where
  "quiet_clear now i \<longleftrightarrow> \<not> ti_clearing i \<or> now < ti_clear_ms i"

lemmas quiet_defs = quiet_digit_def quiet_control_def quiet_compose_def quiet_clear_def

lemma due_times_quiet:
  "(\<forall>t \<in> due_times i. now < t) \<longleftrightarrow> quiet_digit now i \<and> quiet_control now i \<and> quiet_compose now i \<and> quiet_clear now i"
  by (auto simp: due_times_def quiet_defs)

lemma quiet_steps:
  "quiet_digit now i \<Longrightarrow> hold_digit i now emit ctx = (MULTITAP_PENDING, i, ctx)"
  "quiet_control now i \<Longrightarrow> tick_control now emit (r, i, ctx) = (r, i, ctx)"
  "quiet_compose now i \<Longrightarrow> tick_commit now emit (r, i, ctx) = (r, i, ctx)"
  "quiet_clear now i \<Longrightarrow> tick_clear now erase (r, i, ctx) = (r, i, ctx)"
  by (auto simp: quiet_defs hold_digit_def tick_control_def tick_commit_def tick_clear_def not_le)

lemma tick_idle:
  assumes "\<forall>t \<in> due_times i. now < t"
  shows "fplinux_text_input_tick i now emit erase ctx = (MULTITAP_PENDING, i, ctx)"
  using assms unfolding due_times_quiet
  by (simp add: fplinux_text_input_tick_def unless_blocked_def quiet_steps)

lemma emit_pending_done:
  "emit_pending st emit ctx = (r, st', ctx') \<Longrightarrow> r \<noteq> MULTITAP_BLOCKED \<Longrightarrow> \<not> mt_pending st'"
  by (auto simp: emit_pending_def split: if_split_asm option.split_asm prod.split_asm
      fplinux_multitap_emit_result.split_asm)

lemma run_compose_frame:
  "run_compose operation i emit ctx = (r, i', ctx') \<Longrightarrow> \<exists>c. i' = i\<lparr>ti_compose := c\<rparr>"
  by (auto simp: run_compose_def split: prod.split_asm)

lemma commit_done:
  assumes "fplinux_text_input_commit i emit ctx = (r, i', ctx')" "r \<noteq> MULTITAP_BLOCKED"
  shows "\<exists>c. i' = i\<lparr>ti_compose := c, ti_held_digit := 0\<rparr> \<and> \<not> mt_pending c"
  using assms
  by (auto simp: fplinux_text_input_commit_def run_compose_def fplinux_multitap_commit_def
      split: prod.split_asm dest: emit_pending_done)

lemma hold_digit_done:
  assumes "hold_digit i now emit ctx = (r, i', ctx')" "r \<noteq> MULTITAP_BLOCKED"
  shows "quiet_digit now i'"
  using assms by (auto simp: hold_digit_def quiet_digit_def split: prod.split_asm if_split_asm)

lemma control_action_done:
  assumes "control_action i emit ctx = (r, i', ctx')" "r \<noteq> MULTITAP_BLOCKED"
  shows "ti_held_control i' = 0 \<and> ti_held_digit i' = 0 \<and> \<not> mt_pending (ti_compose i')"
  using assms
  by (auto simp: control_action_def fplinux_text_input_open_picker_def apply_control_def Let_def
      fplinux_multitap_set_language_def split: prod.split_asm if_split_asm dest!: commit_done)

text \<open>What an erase function may do to the input: nothing, or cancel its composition.\<close>

definition erase_cancels :: "'c input_erase \<Rightarrow> bool" where
  "erase_cancels erase \<longleftrightarrow> (\<forall>i ctx. fst (snd (erase i ctx)) \<in> {i, fplinux_text_input_cancel i})"

lemma control_step_done:
  assumes "tick_control now emit (r, i, ctx) = (r', i', ctx')" "r' \<noteq> MULTITAP_BLOCKED" "quiet_digit now i"
  shows "quiet_digit now i' \<and> quiet_control now i'"
proof (cases "quiet_control now i")
  case True
  with assms show ?thesis by (simp add: quiet_steps)
next
  case False
  with assms(1) obtain j where "control_action j emit ctx = (r', i', ctx')"
    by (auto simp: tick_control_def quiet_control_def not_less split: if_split_asm)
  from control_action_done [OF this assms(2)] show ?thesis by (simp add: quiet_defs)
qed

lemma commit_step_done:
  assumes "tick_commit now emit (r, i, ctx) = (r', i', ctx')" "r' \<noteq> MULTITAP_BLOCKED"
    "quiet_digit now i" "quiet_control now i"
  shows "quiet_digit now i' \<and> quiet_control now i' \<and> quiet_compose now i'"
proof (cases "quiet_compose now i")
  case True
  with assms show ?thesis by (simp add: quiet_steps)
next
  case False
  with assms(1) have "fplinux_text_input_commit i emit ctx = (r', i', ctx')"
    by (auto simp: tick_commit_def quiet_compose_def not_less split: if_split_asm)
  from commit_done [OF this assms(2)] assms(4) show ?thesis by (auto simp: quiet_defs)
qed

lemma clear_step_done:
  assumes "tick_clear now erase (r, i, ctx) = (r', i', ctx')" "r' \<noteq> MULTITAP_BLOCKED" "erase_cancels erase"
    "quiet_digit now i" "quiet_control now i" "quiet_compose now i" "now < now + REPEAT_MS"
  shows "\<forall>t \<in> due_times i'. now < t"
proof (cases "quiet_clear now i")
  case True
  with assms show ?thesis unfolding due_times_quiet by (simp add: quiet_steps)
next
  case False
  obtain e j c where e: "erase i ctx = (e, j, c)" by (cases "erase i ctx")
  have j: "j = i \<or> j = fplinux_text_input_cancel i"
    using assms(3) e unfolding erase_cancels_def by (metis fst_conv insertE singletonD snd_conv)
  have i': "i' = j\<lparr>ti_clearing := (e = EMIT_ACCEPTED), ti_clear_ms := now + REPEAT_MS\<rparr>"
    using assms(1,2) False e by (auto simp: tick_clear_def quiet_clear_def not_less split: if_split_asm)
  show ?thesis
    unfolding due_times_quiet i' using j assms(4-7)
    by (auto simp: quiet_defs fplinux_text_input_cancel_def)
qed

lemma tick_done:
  assumes "fplinux_text_input_tick i now emit erase ctx = (r, i', ctx')" "r \<noteq> MULTITAP_BLOCKED"
    "erase_cancels erase" "now < now + REPEAT_MS"
  shows "\<forall>t \<in> due_times i'. now < t"
proof -
  obtain r1 i1 c1 where 1: "hold_digit i now emit ctx = (r1, i1, c1)" by (cases "hold_digit i now emit ctx")
  obtain r2 i2 c2 where 2: "unless_blocked (tick_control now emit) (r1, i1, c1) = (r2, i2, c2)"
    by (cases "unless_blocked (tick_control now emit) (r1, i1, c1)")
  obtain r3 i3 c3 where 3: "unless_blocked (tick_commit now emit) (r2, i2, c2) = (r3, i3, c3)"
    by (cases "unless_blocked (tick_commit now emit) (r2, i2, c2)")
  have 4: "unless_blocked (tick_clear now erase) (r3, i3, c3) = (r, i', ctx')"
    using assms(1) by (simp add: fplinux_text_input_tick_def 1 2 3)
  have "r3 \<noteq> MULTITAP_BLOCKED" using 4 assms(2) by (auto simp: unless_blocked_def split: if_split_asm)
  moreover from this have "r2 \<noteq> MULTITAP_BLOCKED" using 3 by (auto simp: unless_blocked_def split: if_split_asm)
  moreover from this have "r1 \<noteq> MULTITAP_BLOCKED" using 2 by (auto simp: unless_blocked_def split: if_split_asm)
  ultimately show ?thesis
    using hold_digit_done [OF 1] control_step_done [of now emit r1 i1 c1 r2 i2 c2]
      commit_step_done [of now emit r2 i2 c2 r3 i3 c3] clear_step_done [of now erase r3 i3 c3 r i' ctx'] 2 3 4 assms(2-4)
    by (simp add: unless_blocked_def)
qed

subsection \<open>The invariant\<close>

text \<open>
  \<open>free\<close> is whether the field takes any text: only then do control keys and the picker work,
  and only then may the input leave the numeric mode.  \<open>ok\<close> is what a composed character
  satisfies.
\<close>

lemma set_language_simps [simp]:
  "mt_language (fplinux_multitap_set_language st l) = l"
  "\<not> mt_pending (fplinux_multitap_set_language st l)"
  by (simp_all add: fplinux_multitap_set_language_def)

definition modes_ok :: "bool \<Rightarrow> fplinux_text_input \<Rightarrow> bool" where
  "modes_ok free i \<longleftrightarrow>
     ti_language i < length (ti_languages i) \<and>
     length (ti_languages i) \<le> MULTITAP_LANGUAGE_COUNT \<and> list_all usable_language (ti_languages i) \<and>
     (\<not> ti_allow_sentence i \<longrightarrow> ti_letter_case i \<noteq> LANGUAGE_SENTENCE) \<and>
     (\<not> free \<longrightarrow> ti_numeric i \<and> ti_held_control i = 0 \<and> \<not> ti_picker_open i) \<and>
     (free \<longrightarrow> mt_language (ti_compose i) = Some (ti_languages i ! ti_language i))"

definition input_ok :: "bool \<Rightarrow> (u32 \<Rightarrow> bool) \<Rightarrow> fplinux_text_input \<Rightarrow> bool" where
  "input_ok free ok i \<longleftrightarrow> modes_ok free i \<and> picker_ok i \<and> multitap_ok ok (ti_compose i)"

lemma input_okI: "modes_ok free i \<Longrightarrow> picker_ok i \<Longrightarrow> multitap_ok ok (ti_compose i) \<Longrightarrow> input_ok free ok i"
  by (simp add: input_ok_def)

text \<open>Fields that the invariant does not mention.\<close>

lemma input_ok_frame [simp]:
  "input_ok free ok (i\<lparr>ti_held_digit := d\<rparr>) = input_ok free ok i"
  "input_ok free ok (i\<lparr>ti_held_ms := t\<rparr>) = input_ok free ok i"
  "input_ok free ok (i\<lparr>ti_compose_ms := t\<rparr>) = input_ok free ok i"
  "input_ok free ok (i\<lparr>ti_control_ms := t\<rparr>) = input_ok free ok i"
  "input_ok free ok (i\<lparr>ti_control_gesture := g\<rparr>) = input_ok free ok i"
  "input_ok free ok (i\<lparr>ti_clearing := c\<rparr>) = input_ok free ok i"
  "input_ok free ok (i\<lparr>ti_clear_ms := t\<rparr>) = input_ok free ok i"
  by (simp_all add: input_ok_def modes_ok_def picker_ok_def)

lemma input_ok_control:
  "input_ok free ok i \<Longrightarrow> free \<or> k = 0 \<Longrightarrow> input_ok free ok (i\<lparr>ti_held_control := k\<rparr>)"
  by (auto simp: input_ok_def modes_ok_def picker_ok_def)

lemma input_ok_control_0 [simp]: "input_ok free ok i \<Longrightarrow> input_ok free ok (i\<lparr>ti_held_control := 0\<rparr>)"
  by (simp add: input_ok_control)

lemma cancel_held_ok: "input_ok free ok i \<Longrightarrow> input_ok free ok (fplinux_text_input_cancel_held i)"
  by (simp add: input_ok_def modes_ok_def picker_ok_def fplinux_text_input_cancel_held_def)

lemma cancel_input_ok: "input_ok free ok i \<Longrightarrow> input_ok free ok (fplinux_text_input_cancel i)"
  by (simp add: input_ok_def modes_ok_def picker_ok_def fplinux_text_input_cancel_def)

lemma close_picker_ok: "input_ok free ok i \<Longrightarrow> input_ok free ok (fplinux_text_input_close_picker i)"
  by (simp add: input_ok_def modes_ok_def picker_ok_def fplinux_text_input_close_picker_def)

lemma clear_release_ok: "input_ok free ok i \<Longrightarrow> input_ok free ok (fplinux_text_input_clear_release i)"
  by (simp add: fplinux_text_input_clear_release_def)

lemma set_sentence_case_ok:
  "input_ok free ok i \<Longrightarrow> input_ok free ok (fplinux_text_input_set_sentence_case i allowed)"
  by (auto simp: input_ok_def modes_ok_def picker_ok_def fplinux_text_input_set_sentence_case_def Let_def)

lemma set_picker_columns_ok:
  "input_ok free ok i \<Longrightarrow> input_ok free ok (fplinux_text_input_set_picker_columns i columns)"
  by (auto simp: input_ok_def modes_ok_def picker_ok_def fplinux_text_input_set_picker_columns_def
      TEXT_INPUT_PICKER_COLUMNS_def)

lemma move_picker_input_ok:
  "input_ok free ok i \<Longrightarrow> input_ok free ok (fplinux_text_input_move_picker i d)"
  using move_picker_ok [of i d]
  by (simp add: input_ok_def modes_ok_def fplinux_text_input_move_picker_def Let_def)

lemma reset_mode_ok:
  assumes "input_ok free' ok' i" "free \<or> numeric"
  shows "input_ok free ok (fplinux_text_input_reset_mode i numeric)"
  using assms
  by (auto simp: input_ok_def modes_ok_def picker_ok_def fplinux_text_input_reset_mode_def Let_def
      fplinux_text_input_cancel_held_def first_case_def language_slot_def)

lemma init_ok: "input_ok True ok (fplinux_text_input_init fopen opendir directory first allow_sentence)"
proof -
  let ?ls = "fplinux_multitap_load_languages fopen opendir directory first"
  have "?ls \<noteq> [] \<and> length ?ls \<le> MULTITAP_LANGUAGE_COUNT \<and> list_all usable_language ?ls"
    using loaded_languages [of fopen opendir directory first] by (auto simp: Let_def)
  then show ?thesis
    by (auto simp: fplinux_text_input_init_def fplinux_text_input_load_languages_def zero_text_input_def
        fplinux_text_input_reset_mode_def Let_def fplinux_text_input_cancel_held_def first_case_def
        language_slot_def input_ok_def modes_ok_def picker_ok_def
        TEXT_INPUT_PICKER_COLUMNS_def)
qed

lemma free_language:
  assumes "input_ok True ok i" "\<And>c. is_plain c \<Longrightarrow> ok c"
  shows "language_in ok (ti_compose i)"
proof -
  have l: "mt_language (ti_compose i) = Some (ti_languages i ! ti_language i)"
    "usable_language (ti_languages i ! ti_language i)"
    using assms(1) by (auto simp: input_ok_def modes_ok_def list_all_length)
  have "map_ok ok bs" if "map_ok is_plain bs" for bs
    using that assms(2) by (auto simp: map_ok_def list_all_iff split: option.split_asm)
  with usable_language_ok [OF l(2)] l(1) show ?thesis
    by (auto simp: language_in_def language_ok_def list_all_iff)
qed

lemma apply_control_ok:
  assumes "input_ok True ok i" "\<not> mt_pending (ti_compose i)"
  shows "input_ok True ok (apply_control i)"
proof -
  have "Suc (ti_language i) mod length (ti_languages i) < length (ti_languages i)"
    using assms(1) by (intro mod_less_divisor) (auto simp: input_ok_def modes_ok_def)
  moreover have "ti_letter_case i \<noteq> LANGUAGE_UPPER \<Longrightarrow> next_case (ti_letter_case i) \<noteq> LANGUAGE_SENTENCE"
    by (cases "ti_letter_case i") auto
  ultimately show ?thesis
    using assms
    by (auto simp: apply_control_def Let_def input_ok_def modes_ok_def picker_ok_def first_case_def language_slot_def)
qed

subsection \<open>The contract with the owner of the text\<close>

text \<open>
  The owner keeps its promise \<open>inv\<close> when a permitted character is emitted to it and when it
  is asked to erase one, and erasing changes the input at most by cancelling the composition.
  Then every operation of the keypad policy keeps both invariants.
\<close>

lemma digit_plain: "fplinux_multitap_handles key \<Longrightarrow> is_plain (ucast key)"
proof -
  assume "fplinux_multitap_handles key"
  then have "0x30 \<le> unat key" "unat key \<le> 0x39"
    by (simp_all add: fplinux_multitap_handles_def word_le_nat_alt)
  then show ?thesis by (simp add: is_plain_def word_less_nat_alt word_le_nat_alt)
qed

locale input_client =
  fixes f :: "fplinux_text_input \<Rightarrow> 'c \<Rightarrow> u32 \<Rightarrow> fplinux_multitap_emit_result \<times> 'c"
    and erase :: "'c input_erase"
    and inv :: "'c \<Rightarrow> bool"
    and free :: bool
    and ok :: "u32 \<Rightarrow> bool"
  assumes emit_keeps: "inv ctx \<Longrightarrow> free \<or> ti_numeric i \<Longrightarrow> ok character \<Longrightarrow> inv (snd (f i ctx character))"
    and erase_keeps: "inv ctx \<Longrightarrow> inv (snd (snd (erase i ctx)))"
    and erase_input: "erase_cancels erase"
    and plain_ok: "free \<Longrightarrow> is_plain character \<Longrightarrow> ok character"
begin

lemma sink: "free \<or> ti_numeric i \<Longrightarrow> emit_sink (f i) inv ok"
  by unfold_locales (rule emit_keeps)

lemma run_compose_keeps:
  assumes "input_ok free ok i" "inv ctx" "run_compose operation i (Some f) ctx = (r, i', ctx')"
    and "\<And>st' ctx'. operation (ti_compose i) (Some (f i)) ctx = (r, st', ctx') \<Longrightarrow>
        multitap_ok ok st' \<and> inv ctx' \<and> mt_language st' = mt_language (ti_compose i)"
  shows "input_ok free ok i' \<and> inv ctx' \<and> mt_language (ti_compose i') = mt_language (ti_compose i)"
proof -
  obtain c where c: "operation (ti_compose i) (Some (f i)) ctx = (r, c, ctx')" and i': "i' = i\<lparr>ti_compose := c\<rparr>"
    using assms(3) by (auto simp: run_compose_def split: prod.split_asm)
  from assms(4) [OF c] assms(1) show ?thesis
    unfolding i' by (auto simp: input_ok_def modes_ok_def picker_ok_def)
qed

lemma numeric_or_free: "input_ok free ok i \<Longrightarrow> free \<or> ti_numeric i"
  by (auto simp: input_ok_def modes_ok_def)

lemma commit_keeps:
  assumes "input_ok free ok i" "inv ctx" "fplinux_text_input_commit i (Some f) ctx = (r, i', ctx')"
  shows "input_ok free ok i' \<and> inv ctx' \<and> mt_language (ti_compose i') = mt_language (ti_compose i)"
proof -
  obtain j where j: "run_compose fplinux_multitap_commit i (Some f) ctx = (r, j, ctx')"
    and i': "i' = j \<or> i' = j\<lparr>ti_held_digit := 0\<rparr>"
    using assms(3) by (auto simp: fplinux_text_input_commit_def split: prod.split_asm)
  have "multitap_ok ok (ti_compose i)" using assms(1) by (simp add: input_ok_def)
  from run_compose_keeps [OF assms(1,2) j] emit_sink.commit_keeps [OF sink [OF numeric_or_free [OF assms(1)]] this assms(2)] i'
  show ?thesis by auto
qed

lemma hold_digit_keeps:
  assumes "input_ok free ok i" "inv ctx" "hold_digit i now (Some f) ctx = (r, i', ctx')"
  shows "input_ok free ok i' \<and> inv ctx' \<and> mt_language (ti_compose i') = mt_language (ti_compose i)"
proof (cases "quiet_digit now i")
  case True
  with assms show ?thesis by (simp add: quiet_steps)
next
  case False
  then obtain j where j: "run_compose fplinux_multitap_hold i (Some f) ctx = (r, j, ctx')"
    and i': "i' = j \<or> i' = j\<lparr>ti_held_digit := 0\<rparr>"
    using assms(3) by (auto simp: hold_digit_def quiet_digit_def split: prod.split_asm if_split_asm)
  have "multitap_ok ok (ti_compose i)" using assms(1) by (simp add: input_ok_def)
  from run_compose_keeps [OF assms(1,2) j] emit_sink.hold_keeps [OF sink [OF numeric_or_free [OF assms(1)]] this assms(2)] i'
  show ?thesis by auto
qed

lemma compose_keeps:
  assumes "input_ok free ok i" "inv ctx" "language_in ok (ti_compose i)"
    "fplinux_text_input_compose i key now (Some f) ctx = (r, i', ctx')"
  shows "input_ok free ok i' \<and> inv ctx' \<and> mt_language (ti_compose i') = mt_language (ti_compose i)"
proof -
  obtain j where j: "run_compose (\<lambda>state. fplinux_multitap_press state key (elapsed_ms now (ti_compose_ms i)))
      i (Some f) ctx = (r, j, ctx')"
    and i': "i' = j \<or> i' = j\<lparr>ti_compose_ms := now\<rparr>"
    using assms(4) by (auto simp: fplinux_text_input_compose_def split: prod.split_asm)
  have "multitap_ok ok (ti_compose i)" using assms(1) by (simp add: input_ok_def)
  from run_compose_keeps [OF assms(1,2) j]
    emit_sink.press_keeps [OF sink [OF numeric_or_free [OF assms(1)]] this assms(2,3)] i'
  show ?thesis by auto
qed

lemma open_picker_keeps:
  assumes "input_ok free ok i" "inv ctx" "free" "fplinux_text_input_open_picker i (Some f) ctx = (r, i', ctx')"
  shows "input_ok free ok i' \<and> inv ctx'"
proof -
  obtain j where j: "fplinux_text_input_commit i (Some f) ctx = (r, j, ctx')"
    and i': "i' = j \<or> i' = j\<lparr>ti_held_control := 0, ti_picker_open := True, ti_picker_index := 0\<rparr>"
    using assms(4) by (auto simp: fplinux_text_input_open_picker_def split: prod.split_asm)
  from commit_keeps [OF assms(1,2) j] i' assms(3) show ?thesis
    by (auto simp: input_ok_def modes_ok_def picker_ok_def)
qed

lemma control_action_keeps:
  assumes "input_ok free ok i" "inv ctx" "free" "control_action i (Some f) ctx = (r, i', ctx')"
  shows "input_ok free ok i' \<and> inv ctx'"
proof (cases "ti_held_control i = 0x2a \<and> ti_control_gesture i = GESTURE_TAP")
  case True
  then have "fplinux_text_input_open_picker i (Some f) ctx = (r, i', ctx')"
    using assms(4) by (simp add: control_action_def)
  then show ?thesis by (rule open_picker_keeps [OF assms(1-3)])
next
  case False
  obtain r' j c where j: "fplinux_text_input_commit i (Some f) ctx = (r', j, c)"
    by (cases "fplinux_text_input_commit i (Some f) ctx")
  have eq: "(if r' = MULTITAP_BLOCKED then (r', j, c) else (r', apply_control j, c)) = (r, i', ctx')"
    using assms(4) False j by (simp add: control_action_def split: if_split_asm)
  note k = commit_keeps [OF assms(1,2) j]
  have "input_ok free ok (apply_control j)" if "r' \<noteq> MULTITAP_BLOCKED"
    using k commit_done [OF j that] assms(3) by (auto intro: apply_control_ok)
  with eq k show ?thesis by (auto split: if_split_asm)
qed

lemma input_press_keeps:
  assumes "input_ok free ok i" "inv ctx" "free" "fplinux_text_input_press i key now (Some f) ctx = (r, i', ctx')"
  shows "input_ok free ok i' \<and> inv ctx'"
proof -
  let ?i = "i\<lparr>ti_held_control := 0\<rparr>"
  have i: "input_ok free ok ?i" using assms(1) by (simp add: input_ok_control)
  consider "key = 0x23 \<or> key = 0x2a" | "\<not> (key = 0x23 \<or> key = 0x2a)" "\<not> fplinux_multitap_handles key"
    | "\<not> (key = 0x23 \<or> key = 0x2a)" "fplinux_multitap_handles key" "ti_numeric i"
    | "\<not> (key = 0x23 \<or> key = 0x2a)" "fplinux_multitap_handles key" "\<not> ti_numeric i" by blast
  then show ?thesis
  proof cases
    case 1
    with assms show ?thesis by (auto simp: fplinux_text_input_press_def intro!: input_ok_control)
  next
    case 2
    with assms show ?thesis by (simp add: fplinux_text_input_press_def)
  next
    case 3
    obtain r1 j c where j: "fplinux_text_input_commit ?i (Some f) ctx = (r1, j, c)"
      by (cases "fplinux_text_input_commit ?i (Some f) ctx")
    obtain r2 c2 where f: "f j c (ucast key) = (r2, c2)" by fastforce
    note k = commit_keeps [OF i assms(2) j]
    have "ok (ucast key)" using digit_plain [OF 3(2)] plain_ok assms(3) by blast
    then have "inv c2" using emit_keeps [of c j "ucast key"] k f assms(3) by simp
    with k assms(4) 3 j f show ?thesis
      by (auto simp: fplinux_text_input_press_def Let_def split: if_split_asm)
  next
    case 4
    obtain j c where j: "fplinux_text_input_compose ?i key now (Some f) ctx = (r, j, c)" and
      i': "i' = j \<or> i' = j\<lparr>ti_held_digit := key, ti_held_ms := now\<rparr>" "ctx' = c"
      using assms(4) 4 by (auto simp: fplinux_text_input_press_def Let_def split: prod.split_asm)
    have "language_in ok (ti_compose ?i)" using free_language [of ok ?i] i assms(3) plain_ok by simp
    from compose_keeps [OF i assms(2) this j] i' show ?thesis by auto
  qed
qed

lemma release_keeps:
  assumes "input_ok free ok i" "inv ctx" "fplinux_text_input_release i key now (Some f) ctx = (r, i', ctx')"
  shows "input_ok free ok i' \<and> inv ctx' \<and> (free \<or> mt_language (ti_compose i') = mt_language (ti_compose i))"
proof (cases "ti_held_control i \<noteq> 0 \<and> ti_held_control i = key")
  case True
  then have "free" using assms(1) by (auto simp: input_ok_def modes_ok_def)
  define j where "j = (if ti_control_gesture i = GESTURE_UNDECIDED then i\<lparr>ti_control_gesture :=
      (if now \<ge> ti_control_ms i + HOLD_MS then GESTURE_HOLD else GESTURE_TAP)\<rparr> else i)"
  have "input_ok free ok j" using assms(1) by (simp add: j_def)
  moreover have "control_action j (Some f) ctx = (r, i', ctx')"
    using assms(3) unfolding fplinux_text_input_release_def j_def if_P [OF True] .
  ultimately show ?thesis using control_action_keeps [OF _ assms(2) \<open>free\<close>] \<open>free\<close> by blast
next
  case False
  show ?thesis
  proof (cases "ti_held_digit i = 0 \<or> ti_held_digit i \<noteq> key")
    case True
    with False assms show ?thesis by (auto simp: fplinux_text_input_release_def split: if_split_asm)
  next
    case d: False
    with False obtain j where j: "hold_digit i now (Some f) ctx = (r, j, ctx')"
      and i': "i' = j \<or> i' = j\<lparr>ti_held_digit := 0\<rparr>"
      using assms(3) by (auto simp: fplinux_text_input_release_def split: if_split_asm prod.split_asm)
    from hold_digit_keeps [OF assms(1,2) j] i' show ?thesis by auto
  qed
qed

lemma erased_ok:
  assumes "input_ok free ok i" "inv ctx" "erase i ctx = (r, i', ctx')"
  shows "input_ok free ok i' \<and> inv ctx' \<and> mt_language (ti_compose i') = mt_language (ti_compose i)"
proof -
  have "i' = i \<or> i' = fplinux_text_input_cancel i"
    using erase_input assms(3) unfolding erase_cancels_def by (metis fst_conv insertE singletonD snd_conv)
  moreover have "inv ctx'" using erase_keeps [OF assms(2), of i] assms(3) by simp
  ultimately show ?thesis
    using assms(1) cancel_input_ok [OF assms(1)] by (auto simp: fplinux_text_input_cancel_def)
qed

lemma clear_press_keeps:
  assumes "input_ok free ok i" "inv ctx" "fplinux_text_input_clear_press i now erase ctx = (r, i', ctx')"
  shows "input_ok free ok i' \<and> inv ctx' \<and> mt_language (ti_compose i') = mt_language (ti_compose i)"
proof -
  obtain r1 j c where j: "erase i ctx = (r1, j, c)" by (cases "erase i ctx")
  from erased_ok [OF assms(1,2) j] assms(3) j show ?thesis
    by (auto simp: fplinux_text_input_clear_press_def)
qed

lemma select_symbol_keeps:
  assumes "input_ok free ok i" "inv ctx" "ti_picker_open i" "fplinux_text_input_select_symbol i f ctx = (r, i', ctx')"
  shows "input_ok free ok i' \<and> inv ctx'"
proof -
  have "free" and i: "ti_picker_index i < fplinux_text_input_symbol_count"
    using assms(1,3) by (auto simp: input_ok_def modes_ok_def picker_ok_def)
  then have "inv (snd (f i ctx (fplinux_text_input_symbol (ti_picker_index i))))"
    using emit_keeps [OF assms(2)] plain_ok symbol_plain by blast
  with assms show ?thesis
    by (auto simp: fplinux_text_input_select_symbol_def split: prod.split_asm if_split_asm intro: close_picker_ok)
qed

lemma tick_keeps:
  assumes "input_ok free ok i" "inv ctx" "fplinux_text_input_tick i now (Some f) erase ctx = (r, i', ctx')"
  shows "input_ok free ok i' \<and> inv ctx' \<and> (free \<or> mt_language (ti_compose i') = mt_language (ti_compose i))"
proof -
  define ok3 where "ok3 = (\<lambda>(r :: fplinux_multitap_result, j, c). input_ok free ok j \<and> inv c \<and>
    (free \<or> mt_language (ti_compose j) = mt_language (ti_compose i)))"
  have 1: "ok3 (hold_digit i now (Some f) ctx)"
    using hold_digit_keeps [OF assms(1,2)] by (auto simp: ok3_def split: prod.split)
  have 2: "ok3 (tick_control now (Some f) x)" if "ok3 x" for x
  proof -
    obtain r j c where x: "x = (r, j, c)" by (cases x)
    show ?thesis
    proof (cases "quiet_control now j")
      case True
      with that show ?thesis by (simp add: x quiet_steps)
    next
      case False
      define k where "k = (if ti_control_gesture j = GESTURE_UNDECIDED then j\<lparr>ti_control_gesture := GESTURE_HOLD\<rparr> else j)"
      have "tick_control now (Some f) x = control_action k (Some f) c"
        using False by (simp add: x tick_control_def quiet_control_def not_less k_def)
      moreover have "input_ok free ok k" "inv c" using that by (simp_all add: ok3_def x k_def)
      moreover have "free" using that False by (auto simp: ok3_def x quiet_control_def input_ok_def modes_ok_def)
      ultimately show ?thesis using control_action_keeps [of k c] by (auto simp: ok3_def split: prod.split)
    qed
  qed
  have 3: "ok3 (tick_commit now (Some f) x)" if "ok3 x" for x
  proof -
    obtain r j c where x: "x = (r, j, c)" by (cases x)
    show ?thesis using that commit_keeps [of j c] by (auto simp: ok3_def x tick_commit_def split: prod.split)
  qed
  have 4: "ok3 (tick_clear now erase x)" if "ok3 x" for x
  proof -
    obtain r j c where x: "x = (r, j, c)" by (cases x)
    show ?thesis using that erased_ok [of j c] by (auto simp: ok3_def x tick_clear_def split: prod.split)
  qed
  have "ok3 (fplinux_text_input_tick i now (Some f) erase ctx)"
    unfolding fplinux_text_input_tick_def unless_blocked_def using 1 2 3 4 by simp
  then show ?thesis by (simp add: assms(3) ok3_def)
qed

end
section \<open>Properties of the keypad policy\<close>

lemma move_picker_index:
  "fplinux_text_input_move_picker i d = i\<lparr>ti_picker_index := ti_picker_index (fplinux_text_input_move_picker i d)\<rparr>"
  by (simp add: fplinux_text_input_move_picker_def Let_def)

lemma up_down_index:
  assumes "picker_ok i"
  shows "ti_picker_index (fplinux_text_input_move_picker (fplinux_text_input_move_picker i DIR_DOWN) DIR_UP) = ti_picker_index i"
    and "ti_picker_index (fplinux_text_input_move_picker (fplinux_text_input_move_picker i DIR_UP) DIR_DOWN) = ti_picker_index i"
proof -
  let ?c = "ti_picker_columns i" and ?n = "ti_picker_index i"
  have c: "0 < ?c" "?n < 38" using assms by (auto simp: picker_ok_def)
  let ?down = "i\<lparr>ti_picker_index := ?n mod ?c\<rparr>"
  have "picker_ok ?down" using assms picker_column [OF assms] by (simp add: picker_ok_def)
  note b = picker_bottom [OF this]
  have "bottom_row 38 38 ?c (?n mod ?c) = ?n" if "38 \<le> ?n + ?c"
    by (rule same_row [of _ ?c]) (use b that c in simp_all)
  then show "ti_picker_index (fplinux_text_input_move_picker (fplinux_text_input_move_picker i DIR_DOWN) DIR_UP) = ?n"
    using c mod_less_divisor [OF c(1), of ?n] by (simp add: fplinux_text_input_move_picker_def Let_def not_le)
  show "ti_picker_index (fplinux_text_input_move_picker (fplinux_text_input_move_picker i DIR_UP) DIR_DOWN) = ?n"
    using c picker_bottom [OF assms] by (auto simp: fplinux_text_input_move_picker_def Let_def not_le)
qed

text \<open>
  In the symbol grid every move stays on a symbol, moves to the left and to the right
  undo each other, moves up and down undo each other even when they wrap around, and a
  vertical move keeps the column.
\<close>

theorem picker_moves:
  assumes "picker_ok i"
  shows "picker_ok (fplinux_text_input_move_picker i d) \<and>
    fplinux_text_input_move_picker (fplinux_text_input_move_picker i DIR_RIGHT) DIR_LEFT = i \<and>
    fplinux_text_input_move_picker (fplinux_text_input_move_picker i DIR_LEFT) DIR_RIGHT = i \<and>
    fplinux_text_input_move_picker (fplinux_text_input_move_picker i DIR_DOWN) DIR_UP = i \<and>
    fplinux_text_input_move_picker (fplinux_text_input_move_picker i DIR_UP) DIR_DOWN = i \<and>
    ti_picker_index (fplinux_text_input_move_picker i DIR_UP) mod ti_picker_columns i =
      ti_picker_index i mod ti_picker_columns i \<and>
    ti_picker_index (fplinux_text_input_move_picker i DIR_DOWN) mod ti_picker_columns i =
      ti_picker_index i mod ti_picker_columns i"
proof (intro conjI)
  let ?m = "fplinux_text_input_move_picker"
  have returns: "?m (?m i d) e = i" if "ti_picker_index (?m (?m i d) e) = ti_picker_index i" for d e
    using that by (metis (no_types, lifting) move_picker_index fplinux_text_input.surjective fplinux_text_input.update_convs(16))
  have n: "ti_picker_index i < 38" using assms by (simp add: picker_ok_def)
  show "picker_ok (?m i d)" by (rule move_picker_ok [OF assms])
  show "?m (?m i DIR_RIGHT) DIR_LEFT = i"
    by (rule returns) (use n in \<open>auto simp: fplinux_text_input_move_picker_def Let_def mod_Suc\<close>)
  show "?m (?m i DIR_LEFT) DIR_RIGHT = i"
    by (rule returns) (use n in \<open>auto simp: fplinux_text_input_move_picker_def Let_def\<close>)
  show "?m (?m i DIR_DOWN) DIR_UP = i" by (rule returns) (rule up_down_index(1) [OF assms])
  show "?m (?m i DIR_UP) DIR_DOWN = i" by (rule returns) (rule up_down_index(2) [OF assms])
  show "ti_picker_index (?m i DIR_UP) mod ti_picker_columns i = ti_picker_index i mod ti_picker_columns i"
    using picker_bottom(3) [OF assms] by (auto simp: fplinux_text_input_move_picker_def Let_def le_mod_geq)
  show "ti_picker_index (?m i DIR_DOWN) mod ti_picker_columns i = ti_picker_index i mod ti_picker_columns i"
    by (auto simp: fplinux_text_input_move_picker_def Let_def)
qed

theorem picker_moves_witness:
  "let i = zero_text_input\<lparr>ti_picker_index := 36, ti_picker_columns := 6\<rparr> in
   fplinux_text_input_move_picker (fplinux_text_input_move_picker i DIR_DOWN) DIR_UP = i"
proof -
  have "picker_ok (zero_text_input\<lparr>ti_picker_index := 36, ti_picker_columns := 6\<rparr>)" by (simp add: picker_ok_def)
  from picker_moves [OF this] show ?thesis by (simp add: Let_def)
qed

text \<open>
  The reported deadline is exact: a tick before it changes nothing and emits nothing.
\<close>

theorem tick_before_deadline:
  assumes "fplinux_text_input_deadline i = Some d" "now < d"
  shows "fplinux_text_input_tick i now emit erase ctx = (MULTITAP_PENDING, i, ctx)"
  using deadline_due [OF assms(1)] assms(2) by (intro tick_idle) (auto intro: order_less_le_trans)

theorem tick_before_deadline_witness:
  "fplinux_text_input_tick (zero_text_input\<lparr>ti_clearing := True, ti_clear_ms := 700\<rparr>) 600 None
     (\<lambda>i c. (EMIT_ACCEPTED, i, c + 1)) (0 :: nat) =
   (MULTITAP_PENDING, zero_text_input\<lparr>ti_clearing := True, ti_clear_ms := 700\<rparr>, 0)"
  by (rule tick_before_deadline [where d = 700])
    (simp_all add: fplinux_text_input_deadline_def zero_text_input_def fplinux_multitap_init_def)

text \<open>
  C27.  A tick that is not blocked runs everything that is due: afterwards nothing is
  scheduled, or the next deadline lies in the future.
\<close>

theorem tick_runs_what_is_due:
  assumes "fplinux_text_input_tick i now emit erase ctx = (r, i', ctx')" "r \<noteq> MULTITAP_BLOCKED"
    "erase_cancels erase" "now < now + REPEAT_MS"
  shows "case fplinux_text_input_deadline i' of None \<Rightarrow> True | Some d \<Rightarrow> now < d"
  using tick_done [OF assms] deadline_due [of i'] by (auto split: option.split)

theorem tick_runs_what_is_due_witness:
  "case fplinux_text_input_deadline (fst (snd (fplinux_text_input_tick
       (zero_text_input\<lparr>ti_clearing := True, ti_clear_ms := 700\<rparr>) 800 None
       (\<lambda>i c. (EMIT_ACCEPTED, i, c + 1)) (0 :: nat)))) of None \<Rightarrow> False | Some d \<Rightarrow> 800 < d"
proof -
  let ?i = "zero_text_input\<lparr>ti_clearing := True, ti_clear_ms := 700\<rparr>"
  let ?erase = "\<lambda>i c. (EMIT_ACCEPTED, i, c + 1 :: nat)"
  have t: "fplinux_text_input_tick ?i 800 None ?erase 0 =
      (MULTITAP_PENDING, ?i\<lparr>ti_clearing := True, ti_clear_ms := 900\<rparr>, 1)"
    by (simp add: fplinux_text_input_tick_def unless_blocked_def hold_digit_def tick_control_def tick_commit_def
        tick_clear_def zero_text_input_def fplinux_multitap_init_def TEXT_INPUT_REPEAT_MS_def)
  have "fplinux_text_input_deadline (?i\<lparr>ti_clearing := True, ti_clear_ms := 900\<rparr>) = Some 900"
    by (simp add: fplinux_text_input_deadline_def zero_text_input_def fplinux_multitap_init_def)
  with tick_runs_what_is_due [OF t] show ?thesis
    unfolding t by (simp add: erase_cancels_def TEXT_INPUT_REPEAT_MS_def)
qed

end
