(* ===== verification/Text_Model.thy ===== *)
theory Text_Model
  imports Text_Input
begin

section \<open>The editing state of a text field\<close>

text \<open>
  \<^verbatim>\<open>lib/fplinux/fplinux-ui-text-model.c\<close>: the committed text with its caret, the typed fields
  (any text, whole number, decimal number, phone number), phone and keyboard events, the
  shown text and the masked text of a password.

  \<^verbatim>\<open>text\<close> with \<^verbatim>\<open>length\<close> is the list \<open>tm_text\<close> of its bytes, \<^verbatim>\<open>display\<close> the list of the
  shown bytes, \<^verbatim>\<open>masked\<close> a list or \<^const>\<open>None\<close> for NULL.  The C library is a parameter:
  \<open>te_towupper\<close> is \<^verbatim>\<open>towupper\<close>, \<open>te_alloc n s\<close> is whether the n-th allocation request, for
  \<open>s\<close> bytes, succeeds (\<open>tm_requests\<close> counts the requests), and \<open>te_wide\<close> tells whether
  \<^verbatim>\<open>size_t\<close> has 64 bits, as on the host, or 32, as on the phone: \<open>te_size_max\<close> is \<^verbatim>\<open>SIZE_MAX\<close>.
  Key codes are those of \<^verbatim>\<open>linux/input-event-codes.h\<close>.
\<close>

subsection \<open>Data\<close>

definition INITIAL_CAPACITY :: nat where "INITIAL_CAPACITY = 64"
definition KEY_COUNT :: nat where "KEY_COUNT = 0x300"

definition BULLET :: bytes where "BULLET = [0xe2, 0x80, 0xa2]"

definition KEY_ESC :: nat where "KEY_ESC = 1"
definition KEY_BACKSPACE :: nat where "KEY_BACKSPACE = 14"
definition KEY_ENTER :: nat where "KEY_ENTER = 28"
definition KEY_KPENTER :: nat where "KEY_KPENTER = 96"
definition KEY_HOME :: nat where "KEY_HOME = 102"
definition KEY_UP :: nat where "KEY_UP = 103"
definition KEY_LEFT :: nat where "KEY_LEFT = 105"
definition KEY_RIGHT :: nat where "KEY_RIGHT = 106"
definition KEY_END :: nat where "KEY_END = 107"
definition KEY_DOWN :: nat where "KEY_DOWN = 108"
definition KEY_DELETE :: nat where "KEY_DELETE = 111"
definition KEY_F14 :: nat where "KEY_F14 = 184"
definition KEY_OK :: nat where "KEY_OK = 0x160"
definition KEY_NUMERIC_0 :: nat where "KEY_NUMERIC_0 = 0x200"
definition KEY_NUMERIC_9 :: nat where "KEY_NUMERIC_9 = 0x209"
definition KEY_NUMERIC_STAR :: nat where "KEY_NUMERIC_STAR = 0x20a"
definition KEY_NUMERIC_POUND :: nat where "KEY_NUMERIC_POUND = 0x20b"

lemmas key_codes = KEY_ESC_def KEY_BACKSPACE_def KEY_ENTER_def KEY_KPENTER_def KEY_HOME_def KEY_UP_def
  KEY_LEFT_def KEY_RIGHT_def KEY_END_def KEY_DOWN_def KEY_DELETE_def KEY_F14_def KEY_OK_def
  KEY_NUMERIC_0_def KEY_NUMERIC_9_def KEY_NUMERIC_STAR_def KEY_NUMERIC_POUND_def

datatype fplinux_ui_text_model_result = TEXT_IGNORED | TEXT_CONSUMED | TEXT_LINE_UP | TEXT_LINE_DOWN

datatype fplinux_ui_text_model_type = TEXT_ANY | TEXT_NUMERIC | TEXT_DECIMAL | TEXT_PHONE

record fplinux_ui_text_model_key =
  tk_keyboard :: bool
  tk_code :: nat
  tk_pressed :: bool
  tk_shortcut :: bool
  tk_text :: "bytes option"

record fplinux_ui_text_model =
  tm_text :: bytes
  tm_cursor :: nat
  tm_characters :: nat
  tm_display :: bytes
  tm_capacity :: nat
  tm_limit :: nat
  tm_multiline :: bool
  tm_focused :: bool
  tm_input :: fplinux_text_input
  tm_type :: fplinux_ui_text_model_type
  tm_separator :: u8
  tm_separator_typed :: bool
  tm_separator_revision :: u32
  tm_separator_ms :: u64
  tm_password :: bool
  tm_masked :: "bytes option"
  tm_masked_capacity :: nat
  tm_phone_zero_held :: bool
  tm_phone_zero_ms :: u64
  tm_read_only :: bool
  tm_consumed :: "u8 list list"
  tm_dirty :: bool
  tm_revision :: u32
  tm_requests :: nat

record text_env =
  te_towupper :: "u32 \<Rightarrow> u32"
  te_alloc :: "nat \<Rightarrow> nat \<Rightarrow> bool"
  te_wide :: bool

definition te_size_max :: "text_env \<Rightarrow> nat" where
  "te_size_max env = (if te_wide env then 2 ^ 64 - 1 else 2 ^ 32 - 1)"

definition phone_star :: fplinux_multitap_language where
  "phone_star = zero_multitap_language\<lparr>ml_keys := bytes_of ''*+pw'' # replicate 9 []\<rparr>"

text \<open>The part of a buffer that C string functions see.\<close>

definition c_string :: "bytes \<Rightarrow> bytes" where "c_string bs = takeWhile (\<lambda>b. b \<noteq> 0) bs"

subsection \<open>Bytes and boundaries\<close>

definition is_continuation :: "u8 \<Rightarrow> bool" where
  "is_continuation byte \<longleftrightarrow> byte AND 0xc0 = 0x80"

definition count_characters :: "bytes \<Rightarrow> nat \<Rightarrow> nat" where
  "count_characters bs n = length (filter (\<lambda>b. \<not> is_continuation b) (take n bs))"

fun previous_boundary :: "bytes \<Rightarrow> nat \<Rightarrow> nat" where
  "previous_boundary bs 0 = 0"
| "previous_boundary bs (Suc offset) =
     (if offset \<noteq> 0 \<and> is_continuation (bs ! offset) then previous_boundary bs offset else offset)"

function next_boundary :: "bytes \<Rightarrow> nat \<Rightarrow> nat \<Rightarrow> nat" where
  "next_boundary bs len offset =
     (if offset \<ge> len then len
      else if offset + 1 < len \<and> is_continuation (bs ! (offset + 1)) then next_boundary bs len (offset + 1)
      else offset + 1)"
  by pat_completeness auto
termination by (relation "measure (\<lambda>(bs, len, offset). len - offset)") auto

declare next_boundary.simps [simp del]

definition fits :: "fplinux_ui_text_model \<Rightarrow> nat \<Rightarrow> bool" where
  "fits model characters \<longleftrightarrow> tm_limit model = 0 \<or> characters \<le> tm_limit model"

subsection \<open>Memory\<close>

definition request :: "text_env \<Rightarrow> nat \<Rightarrow> fplinux_ui_text_model \<Rightarrow> bool \<times> fplinux_ui_text_model" where
  "request env amount model =
     (te_alloc env (tm_requests model) amount, model\<lparr>tm_requests := tm_requests model + 1\<rparr>)"

definition reserve :: "text_env \<Rightarrow> fplinux_ui_text_model \<Rightarrow> nat \<Rightarrow> bool \<times> fplinux_ui_text_model" where
  "reserve env model amount =
     (if amount < tm_capacity model then (True, model)
      else if amount \<ge> te_size_max env div 2 then (False, model)
      else
        let capacity = tm_capacity model * 2;
            capacity = (if capacity \<le> amount then amount + 1 else capacity)
        in case request env capacity model of
             (False, model) \<Rightarrow> (False, model)
           | (True, model) \<Rightarrow>
               (case request env capacity model of
                  (False, model) \<Rightarrow> (False, model)
                | (True, model) \<Rightarrow> (True, model\<lparr>tm_capacity := capacity\<rparr>)))"

subsection \<open>Editing\<close>

fun skip_spaces :: "bytes \<Rightarrow> nat \<Rightarrow> nat" where
  "skip_spaces bs 0 = 0"
| "skip_spaces bs (Suc offset) = (if bs ! offset = 0x20 then skip_spaces bs offset else Suc offset)"

definition starts_sentence :: "fplinux_ui_text_model \<Rightarrow> bool" where
  "starts_sentence model =
     (let offset = skip_spaces (tm_text model) (tm_cursor model);
          spaced = (offset \<noteq> tm_cursor model)
      in if offset = 0 then True
         else let previous = tm_text model ! (offset - 1)
              in if previous = 0x0a then True
                 else spaced \<and> (previous = 0x2e \<or> previous = 0x21 \<or> previous = 0x3f))"

definition apply_case :: "text_env \<Rightarrow> fplinux_ui_text_model \<Rightarrow> u32 \<Rightarrow> u32" where
  "apply_case env model character =
     fplinux_text_input_apply_case (te_towupper env) (tm_input model) character (starts_sentence model)"

abbreviation pending :: "fplinux_ui_text_model \<Rightarrow> bool" where
  "pending model \<equiv> mt_pending (ti_compose (tm_input model))"

definition pending_bytes :: "text_env \<Rightarrow> fplinux_ui_text_model \<Rightarrow> bytes" where
  "pending_bytes env model =
     (if \<not> pending model then []
      else fplinux_text_input_encode_utf8
             (apply_case env model (fplinux_multitap_candidate (ti_compose (tm_input model)))))"

definition insert_bytes ::
    "text_env \<Rightarrow> fplinux_ui_text_model \<Rightarrow> bytes \<Rightarrow> bool \<times> fplinux_ui_text_model" where
  "insert_bytes env model bs =
     (let added = count_characters bs (length bs) in
      if \<not> fits model (tm_characters model + added) then (False, model)
      else case reserve env model (length (tm_text model) + length bs) of
        (False, model) \<Rightarrow> (False, model)
      | (True, model) \<Rightarrow>
          (True, model\<lparr>
             tm_text := take (tm_cursor model) (tm_text model) @ bs @ drop (tm_cursor model) (tm_text model),
             tm_cursor := tm_cursor model + length bs,
             tm_characters := tm_characters model + added,
             tm_dirty := True\<rparr>))"

definition delete_range :: "fplinux_ui_text_model \<Rightarrow> nat \<Rightarrow> nat \<Rightarrow> fplinux_ui_text_model" where
  "delete_range model start stop =
     model\<lparr>tm_characters := tm_characters model - count_characters (drop start (tm_text model)) (stop - start),
           tm_text := take start (tm_text model) @ drop stop (tm_text model),
           tm_cursor := start, tm_dirty := True\<rparr>"

definition emit_character ::
    "text_env \<Rightarrow> fplinux_ui_text_model \<Rightarrow> u32 \<Rightarrow> fplinux_multitap_emit_result \<times> fplinux_ui_text_model" where
  "emit_character env model character =
     (case insert_bytes env model (fplinux_text_input_encode_utf8 (apply_case env model character)) of
        (True, model) \<Rightarrow> (EMIT_ACCEPTED, model)
      | (False, model) \<Rightarrow> (EMIT_REJECTED, model))"

text \<open>
  The context that the keypad policy passes back is the model that contains it: the emit
  function sees the policy's current state, and the model receives the state it ends with.
\<close>

definition emit_for ::
    "text_env \<Rightarrow> fplinux_text_input \<Rightarrow> fplinux_ui_text_model \<Rightarrow> u32 \<Rightarrow>
     fplinux_multitap_emit_result \<times> fplinux_ui_text_model" where
  "emit_for env input model character = emit_character env (model\<lparr>tm_input := input\<rparr>) character"

definition put_input :: "'r \<times> fplinux_text_input \<times> fplinux_ui_text_model \<Rightarrow> fplinux_ui_text_model" where
  "put_input = (\<lambda>(r, input, model). model\<lparr>tm_input := input\<rparr>)"

definition commit_pending :: "text_env \<Rightarrow> fplinux_ui_text_model \<Rightarrow> fplinux_ui_text_model" where
  "commit_pending env model =
     (let model = model\<lparr>tm_phone_zero_held := False,
                        tm_input := fplinux_text_input_cancel_held (tm_input model)\<rparr> in
      if \<not> pending model then model
      else (put_input (fplinux_text_input_commit (tm_input model) (Some (emit_for env)) model))
             \<lparr>tm_dirty := True\<rparr>)"

definition cancel_pending :: "fplinux_ui_text_model \<Rightarrow> fplinux_ui_text_model" where
  "cancel_pending model =
     model\<lparr>tm_phone_zero_held := False, tm_input := fplinux_text_input_cancel (tm_input model),
           tm_dirty := True\<rparr>"

subsection \<open>What is shown\<close>

definition put_bullets :: "nat \<Rightarrow> bytes" where
  "put_bullets n = concat (replicate n BULLET)"

text \<open>
  The size of the masked text is a \<^verbatim>\<open>size_t\<close>: its sum wraps, and it is compared with the
  capacity before the number of characters is.
\<close>

definition refresh_masked ::
    "text_env \<Rightarrow> fplinux_ui_text_model \<Rightarrow> bytes \<Rightarrow> fplinux_ui_text_model" where
  "refresh_masked env model pending_text =
     (let before = count_characters (tm_text model) (tm_cursor model);
          after = tm_characters model - before;
          amount = (tm_characters model * length BULLET + length pending_text + 1) mod (te_size_max env + 1);
          dots = Some (put_bullets before @ pending_text @ put_bullets after)
      in if amount > tm_masked_capacity model then
           (if tm_characters model < te_size_max env div 4 then
              (case request env amount model of
                 (True, model) \<Rightarrow> model\<lparr>tm_masked := dots, tm_masked_capacity := amount\<rparr>
               | (False, model) \<Rightarrow> model\<lparr>tm_masked := None, tm_masked_capacity := 0\<rparr>)
            else model\<lparr>tm_masked := None, tm_masked_capacity := 0\<rparr>)
         else model\<lparr>tm_masked := dots\<rparr>)"

definition refresh_display :: "text_env \<Rightarrow> fplinux_ui_text_model \<Rightarrow> fplinux_ui_text_model" where
  "refresh_display env model =
     (let bs = pending_bytes env model;
          (bs, model) =
            (if bs = [] then (bs, model)
             else case reserve env model (length (tm_text model) + length bs) of
               (True, model) \<Rightarrow> (bs, model)
             | (False, model) \<Rightarrow> ([], model\<lparr>tm_input := fplinux_text_input_cancel (tm_input model)\<rparr>));
          model = model\<lparr>tm_display :=
            take (tm_cursor model) (tm_text model) @ bs @ drop (tm_cursor model) (tm_text model)\<rparr>
      in if tm_password model then refresh_masked env model bs else model)"

definition finish_model :: "text_env \<Rightarrow> fplinux_ui_text_model \<Rightarrow> fplinux_ui_text_model" where
  "finish_model env model =
     (if \<not> tm_dirty model then model
      else let model = refresh_display env model
           in model\<lparr>tm_dirty := False, tm_revision := tm_revision model + 1\<rparr>)"

subsection \<open>Typing\<close>

definition press_multitap ::
    "text_env \<Rightarrow> fplinux_ui_text_model \<Rightarrow> u8 \<Rightarrow> u64 \<Rightarrow> bool \<Rightarrow> bool \<times> fplinux_ui_text_model" where
  "press_multitap env model key now_ms hold =
     (let model = (put_input
            (if hold then fplinux_text_input_press (tm_input model) key now_ms (Some (emit_for env)) model
             else fplinux_text_input_compose (tm_input model) key now_ms (Some (emit_for env)) model))
            \<lparr>tm_dirty := True\<rparr>;
          bs = pending_bytes env model
      in if \<not> fits model (tm_characters model + 1) then (False, cancel_pending model)
         else case reserve env model (length (tm_text model) + length bs) of
           (False, model) \<Rightarrow> (False, cancel_pending model)
         | (True, model) \<Rightarrow> (True, model))"

definition is_number :: "fplinux_ui_text_model \<Rightarrow> bool" where
  "is_number model \<longleftrightarrow> tm_type model = TEXT_NUMERIC \<or> tm_type model = TEXT_DECIMAL"

definition skip_minus :: "fplinux_ui_text_model \<Rightarrow> fplinux_ui_text_model" where
  "skip_minus model =
     (if is_number model \<and> tm_cursor model = 0 \<and> tm_text model \<noteq> [] \<and> tm_text model ! 0 = 0x2d
      then model\<lparr>tm_cursor := 1\<rparr> else model)"

definition toggle_minus :: "text_env \<Rightarrow> fplinux_ui_text_model \<Rightarrow> fplinux_ui_text_model" where
  "toggle_minus env model =
     (let cursor = tm_cursor model in
      if tm_text model \<noteq> [] \<and> tm_text model ! 0 = 0x2d then
        (delete_range model 0 1)\<lparr>tm_cursor := (if cursor \<noteq> 0 then cursor - 1 else 0)\<rparr>
      else case insert_bytes env (model\<lparr>tm_cursor := 0\<rparr>) [0x2d] of
        (True, model) \<Rightarrow> model\<lparr>tm_cursor := cursor + 1\<rparr>
      | (False, model) \<Rightarrow> model\<lparr>tm_cursor := cursor\<rparr>)"

definition has_separator :: "fplinux_ui_text_model \<Rightarrow> bool" where
  "has_separator model \<longleftrightarrow> tm_separator model \<in> set (tm_text model)"

definition type_separator :: "text_env \<Rightarrow> fplinux_ui_text_model \<Rightarrow> bool \<times> fplinux_ui_text_model" where
  "type_separator env model =
     (if has_separator model then (False, model)
      else let model = skip_minus model in insert_bytes env model [tm_separator model])"

definition decimal_star :: "text_env \<Rightarrow> fplinux_ui_text_model \<Rightarrow> u64 \<Rightarrow> fplinux_ui_text_model" where
  "decimal_star env model now_ms =
     (let again = (tm_separator_typed model \<and> tm_separator_revision model = tm_revision model \<and>
                   now_ms < tm_separator_ms model + COMMIT_MS \<and> tm_cursor model \<noteq> 0 \<and>
                   tm_text model ! (tm_cursor model - 1) = tm_separator model);
          model = model\<lparr>tm_separator_typed := False\<rparr>
      in if again then toggle_minus env (delete_range model (tm_cursor model - 1) (tm_cursor model))
         else if has_separator model then toggle_minus env model
         else case type_separator env model of
           (False, model) \<Rightarrow> model
         | (True, model) \<Rightarrow>
             model\<lparr>tm_separator_typed := True, tm_separator_revision := tm_revision model + 1,
                   tm_separator_ms := now_ms\<rparr>)"

definition type_digit ::
    "text_env \<Rightarrow> fplinux_ui_text_model \<Rightarrow> nat \<Rightarrow> u8 \<Rightarrow> u64 \<Rightarrow> fplinux_ui_text_model" where
  "type_digit env model code digit now_ms =
     (let model = skip_minus (commit_pending env model)
      in case insert_bytes env model [digit] of
           (False, model) \<Rightarrow> model
         | (True, model) \<Rightarrow>
             if tm_type model = TEXT_PHONE \<and> code = KEY_NUMERIC_0
             then model\<lparr>tm_phone_zero_held := True, tm_phone_zero_ms := now_ms\<rparr> else model)"

definition hold_plus :: "fplinux_ui_text_model \<Rightarrow> fplinux_ui_text_model" where
  "hold_plus model =
     (if tm_cursor model = 0 \<or> tm_text model ! (tm_cursor model - 1) \<noteq> 0x30 then model
      else model\<lparr>tm_text := (tm_text model)[tm_cursor model - 1 := 0x2b], tm_dirty := True\<rparr>)"

definition hold_phone_zero :: "fplinux_ui_text_model \<Rightarrow> u64 \<Rightarrow> fplinux_ui_text_model" where
  "hold_phone_zero model now_ms =
     (if \<not> tm_phone_zero_held model \<or> now_ms < tm_phone_zero_ms model + HOLD_MS then model
      else hold_plus (model\<lparr>tm_phone_zero_held := False\<rparr>))"

definition delete_backward :: "fplinux_ui_text_model \<Rightarrow> fplinux_ui_text_model" where
  "delete_backward model =
     (if pending model then cancel_pending model
      else if tm_cursor model \<noteq> 0
      then delete_range model (previous_boundary (tm_text model) (tm_cursor model)) (tm_cursor model)
      else model)"

definition erase_character :: "fplinux_ui_text_model \<Rightarrow> fplinux_multitap_emit_result \<times> fplinux_ui_text_model" where
  "erase_character model =
     (let model = delete_backward model
      in (if tm_cursor model \<noteq> 0 then EMIT_ACCEPTED else EMIT_REJECTED, model))"

definition erase_for ::
    "fplinux_text_input \<Rightarrow> fplinux_ui_text_model \<Rightarrow>
     fplinux_multitap_emit_result \<times> fplinux_text_input \<times> fplinux_ui_text_model" where
  "erase_for input model =
     (case erase_character (model\<lparr>tm_input := input\<rparr>) of (result, model) \<Rightarrow> (result, tm_input model, model))"

definition delete_forward :: "fplinux_ui_text_model \<Rightarrow> fplinux_ui_text_model" where
  "delete_forward model =
     (if tm_cursor model < length (tm_text model)
      then delete_range model (tm_cursor model)
             (next_boundary (tm_text model) (length (tm_text model)) (tm_cursor model))
      else model)"

definition move_cursor :: "fplinux_ui_text_model \<Rightarrow> nat \<Rightarrow> fplinux_ui_text_model" where
  "move_cursor model cursor =
     (if cursor = tm_cursor model then model else model\<lparr>tm_cursor := cursor, tm_dirty := True\<rparr>)"

function line_end :: "bytes \<Rightarrow> nat \<Rightarrow> nat" where
  "line_end bs cursor =
     (if cursor < length bs \<and> bs ! cursor \<noteq> 0x0a then line_end bs (cursor + 1) else cursor)"
  by pat_completeness auto
termination by (relation "measure (\<lambda>(bs, cursor). length bs - cursor)") auto

declare line_end.simps [simp del]

fun line_start :: "bytes \<Rightarrow> nat \<Rightarrow> nat" where
  "line_start bs 0 = 0"
| "line_start bs (Suc cursor) = (if bs ! cursor \<noteq> 0x0a then line_start bs cursor else Suc cursor)"

definition move_to_line_edge :: "fplinux_ui_text_model \<Rightarrow> bool \<Rightarrow> fplinux_ui_text_model" where
  "move_to_line_edge model to_end =
     move_cursor model
       (if to_end then line_end (tm_text model) (tm_cursor model)
        else line_start (tm_text model) (tm_cursor model))"

subsection \<open>The symbol picker\<close>

definition close_picker :: "text_env \<Rightarrow> fplinux_ui_text_model \<Rightarrow> bool \<Rightarrow> fplinux_ui_text_model" where
  "close_picker env model insert_symbol =
     (if insert_symbol
      then put_input (fplinux_text_input_select_symbol (tm_input model) (emit_for env) model)
      else model\<lparr>tm_input := fplinux_text_input_close_picker (tm_input model)\<rparr>)
     \<lparr>tm_dirty := True\<rparr>"

definition picker_direction :: "nat \<Rightarrow> fplinux_text_input_direction option" where
  "picker_direction code =
     (if code = KEY_LEFT then Some DIR_LEFT
      else if code = KEY_RIGHT then Some DIR_RIGHT
      else if code = KEY_UP then Some DIR_UP
      else if code = KEY_DOWN then Some DIR_DOWN
      else None)"

definition move_picker :: "fplinux_ui_text_model \<Rightarrow> nat \<Rightarrow> bool \<times> fplinux_ui_text_model" where
  "move_picker model code =
     (case picker_direction code of
        None \<Rightarrow> (False, model)
      | Some direction \<Rightarrow>
          (True, model\<lparr>tm_input := fplinux_text_input_move_picker (tm_input model) direction, tm_dirty := True\<rparr>))"

definition picker_phone_key ::
    "text_env \<Rightarrow> fplinux_ui_text_model \<Rightarrow> nat \<Rightarrow> fplinux_ui_text_model_result \<times> fplinux_ui_text_model" where
  "picker_phone_key env model code =
     (case move_picker model code of
        (True, model) \<Rightarrow> (TEXT_CONSUMED, model)
      | (False, model) \<Rightarrow>
          (TEXT_CONSUMED,
           if code = KEY_OK then close_picker env model True
           else if code = KEY_F14 \<or> code = KEY_NUMERIC_STAR then close_picker env model False
           else model))"

subsection \<open>Keys\<close>

definition line_move :: "fplinux_ui_text_model \<Rightarrow> bool \<Rightarrow> fplinux_ui_text_model_result" where
  "line_move model up =
     (if \<not> tm_multiline model then TEXT_IGNORED else if up then TEXT_LINE_UP else TEXT_LINE_DOWN)"

definition fplinux_ui_text_model_takes_newline :: "fplinux_ui_text_model \<Rightarrow> bool" where
  "fplinux_ui_text_model_takes_newline model \<longleftrightarrow>
     tm_multiline model \<and> tm_type model = TEXT_ANY \<and> \<not> tm_read_only model"

definition fplinux_ui_text_model_is_empty :: "fplinux_ui_text_model \<Rightarrow> bool" where
  "fplinux_ui_text_model_is_empty model \<longleftrightarrow> length (tm_text model) = 0 \<and> \<not> pending model"

definition insert_newline ::
    "text_env \<Rightarrow> fplinux_ui_text_model \<Rightarrow> fplinux_ui_text_model_result \<times> fplinux_ui_text_model" where
  "insert_newline env model =
     (if \<not> fplinux_ui_text_model_takes_newline model then (TEXT_IGNORED, model)
      else (TEXT_CONSUMED, snd (insert_bytes env model [0x0a])))"

text \<open>The phone keys that first commit the pending character.\<close>

definition phone_command ::
    "text_env \<Rightarrow> fplinux_ui_text_model \<Rightarrow> nat \<Rightarrow> u64 \<Rightarrow> fplinux_ui_text_model_result \<times> fplinux_ui_text_model" where
  "phone_command env model code now_ms =
     (let had_pending = pending model;
          model = commit_pending env model
      in if code = KEY_NUMERIC_POUND then
           (if tm_type model \<noteq> TEXT_PHONE then (TEXT_IGNORED, model)
            else (TEXT_CONSUMED, snd (insert_bytes env model [0x23])))
         else if code = KEY_NUMERIC_STAR then
           (TEXT_CONSUMED,
            if tm_type model = TEXT_NUMERIC then toggle_minus env model else decimal_star env model now_ms)
         else if code = KEY_LEFT then
           (TEXT_CONSUMED, move_cursor model (previous_boundary (tm_text model) (tm_cursor model)))
         else if code = KEY_RIGHT then
           (TEXT_CONSUMED,
            if \<not> had_pending
            then move_cursor model (next_boundary (tm_text model) (length (tm_text model)) (tm_cursor model))
            else model)
         else if code = KEY_UP \<or> code = KEY_DOWN then (line_move model (code = KEY_UP), model)
         else if code = KEY_OK then insert_newline env model
         else (TEXT_IGNORED, model))"

definition phone_key ::
    "text_env \<Rightarrow> fplinux_ui_text_model \<Rightarrow> nat \<Rightarrow> u64 \<Rightarrow> fplinux_ui_text_model_result \<times> fplinux_ui_text_model" where
  "phone_key env model code now_ms =
     (if ti_picker_open (tm_input model) then picker_phone_key env model code
      else if tm_type model = TEXT_ANY \<and> (code = KEY_NUMERIC_POUND \<or> code = KEY_NUMERIC_STAR) then
        (TEXT_CONSUMED,
         put_input (fplinux_text_input_press (tm_input model)
           (if code = KEY_NUMERIC_POUND then 0x23 else 0x2a) now_ms (Some (emit_for env)) model))
      else if KEY_NUMERIC_0 \<le> code \<and> code \<le> KEY_NUMERIC_9 then
        let digit = of_nat (0x30 + code - KEY_NUMERIC_0) in
        (TEXT_CONSUMED,
         if \<not> ti_numeric (tm_input model) then snd (press_multitap env model digit now_ms True)
         else type_digit env model code digit now_ms)
      else if code = KEY_NUMERIC_STAR \<and> tm_type model = TEXT_PHONE then
        (TEXT_CONSUMED,
         snd (press_multitap env
                (model\<lparr>tm_input := (tm_input model)\<lparr>ti_held_digit := 0\<rparr>, tm_phone_zero_held := False\<rparr>)
                0x30 now_ms False))
      else if code = KEY_F14 then
        let model = model\<lparr>tm_input := fplinux_text_input_cancel_held (tm_input model),
                          tm_phone_zero_held := False\<rparr> in
        if fplinux_ui_text_model_is_empty model then (TEXT_IGNORED, model)
        else (TEXT_CONSUMED, put_input (fplinux_text_input_clear_press (tm_input model) now_ms erase_for model))
      else phone_command env model code now_ms)"

definition is_printable :: "bytes option \<Rightarrow> bool" where
  "is_printable bs =
     (case bs of
        None \<Rightarrow> False
      | Some bs \<Rightarrow> bs \<noteq> [] \<and> list_all (\<lambda>b. \<not> (b < 0x20 \<or> b = 0x7f)) bs)"

definition typed_text ::
    "text_env \<Rightarrow> fplinux_ui_text_model \<Rightarrow> bytes \<Rightarrow> fplinux_ui_text_model_result \<times> fplinux_ui_text_model" where
  "typed_text env model bs =
     (let character = (if length bs > 1 then 0 else bs ! 0) in
      if 0x30 \<le> character \<and> character \<le> 0x39 then
        (TEXT_CONSUMED, snd (insert_bytes env (skip_minus model) (take 1 bs)))
      else if is_number model \<and> character = 0x2d then (TEXT_CONSUMED, toggle_minus env model)
      else if tm_type model = TEXT_DECIMAL \<and> (character = 0x2e \<or> character = 0x2c) then
        (TEXT_CONSUMED, snd (type_separator env model))
      else if tm_type model = TEXT_PHONE \<and> character \<noteq> 0 \<and> character \<in> set (bytes_of ''+*#pPwW'') then
        (TEXT_CONSUMED,
         snd (insert_bytes env model
                [if character = 0x50 then 0x70 else if character = 0x57 then 0x77 else character]))
      else (TEXT_IGNORED, model))"

text \<open>A keyboard key once the picker is closed and holds are cancelled.\<close>

definition keyboard_command ::
    "text_env \<Rightarrow> fplinux_ui_text_model \<Rightarrow> fplinux_ui_text_model_key \<Rightarrow>
     fplinux_ui_text_model_result \<times> fplinux_ui_text_model" where
  "keyboard_command env model key =
     (let model = commit_pending env model; code = tk_code key in
      if code = KEY_DELETE then (TEXT_CONSUMED, delete_forward model)
      else if code = KEY_LEFT then
        (TEXT_CONSUMED, move_cursor model (previous_boundary (tm_text model) (tm_cursor model)))
      else if code = KEY_RIGHT then
        (TEXT_CONSUMED,
         move_cursor model (next_boundary (tm_text model) (length (tm_text model)) (tm_cursor model)))
      else if code = KEY_HOME \<or> code = KEY_END then (TEXT_CONSUMED, move_to_line_edge model (code = KEY_END))
      else if code = KEY_UP \<or> code = KEY_DOWN then (line_move model (code = KEY_UP), model)
      else if code = KEY_ENTER \<or> code = KEY_KPENTER then insert_newline env model
      else case tk_text key of
        None \<Rightarrow> (TEXT_IGNORED, model)
      | Some bs \<Rightarrow>
          if \<not> is_printable (Some bs) then (TEXT_IGNORED, model)
          else if tm_type model \<noteq> TEXT_ANY then typed_text env model bs
          else (TEXT_CONSUMED, snd (insert_bytes env model bs)))"

definition keyboard_key ::
    "text_env \<Rightarrow> fplinux_ui_text_model \<Rightarrow> fplinux_ui_text_model_key \<Rightarrow>
     fplinux_ui_text_model_result \<times> fplinux_ui_text_model" where
  "keyboard_key env model key =
     (let code = tk_code key;
          rest = (\<lambda>model.
            let model = model\<lparr>tm_input := fplinux_text_input_cancel_held (tm_input model)\<rparr> in
            if code = KEY_BACKSPACE then
              (let model = model\<lparr>tm_phone_zero_held := False\<rparr>
               in if fplinux_ui_text_model_is_empty model then (TEXT_IGNORED, model)
                  else (TEXT_CONSUMED, delete_backward model))
            else keyboard_command env model key)
      in if tk_shortcut key then (TEXT_IGNORED, model)
         else if ti_picker_open (tm_input model) then
           (case move_picker model code of
              (True, model) \<Rightarrow> (TEXT_CONSUMED, model)
            | (False, model) \<Rightarrow>
                if code = KEY_ENTER \<or> code = KEY_KPENTER \<or> code = KEY_ESC
                then (TEXT_CONSUMED, close_picker env model (code \<noteq> KEY_ESC))
                else rest (close_picker env model False))
         else rest model)"

definition consumed_bit :: "nat \<Rightarrow> u8" where
  "consumed_bit code = push_bit (code mod 8) 1"

definition set_consumed :: "fplinux_ui_text_model \<Rightarrow> bool \<Rightarrow> nat \<Rightarrow> u8 \<Rightarrow> fplinux_ui_text_model" where
  "set_consumed model keyboard code byte =
     (let row = of_bool keyboard
      in model\<lparr>tm_consumed := (tm_consumed model)[row := (tm_consumed model ! row)[code div 8 := byte]]\<rparr>)"

definition consumed_byte :: "fplinux_ui_text_model \<Rightarrow> bool \<Rightarrow> nat \<Rightarrow> u8" where
  "consumed_byte model keyboard code = tm_consumed model ! of_bool keyboard ! (code div 8)"

definition take_consumed ::
    "fplinux_ui_text_model \<Rightarrow> fplinux_ui_text_model_key \<Rightarrow> bool \<times> fplinux_ui_text_model" where
  "take_consumed model key =
     (let byte = consumed_byte model (tk_keyboard key) (tk_code key); mask_bit = consumed_bit (tk_code key)
      in (byte AND mask_bit \<noteq> 0,
          set_consumed model (tk_keyboard key) (tk_code key) (byte AND NOT mask_bit)))"

definition release_key ::
    "text_env \<Rightarrow> fplinux_ui_text_model \<Rightarrow> fplinux_ui_text_model_key \<Rightarrow> u64 \<Rightarrow> fplinux_ui_text_model" where
  "release_key env model key now_ms =
     (if tk_keyboard key then model
      else
        let code = tk_code key; had_pending = pending model;
            release = (\<lambda>model k.
              put_input (fplinux_text_input_release (tm_input model) k now_ms (Some (emit_for env)) model));
            model =
              (if tm_type model = TEXT_ANY \<and>
                  (code = KEY_NUMERIC_POUND \<and> ti_held_control (tm_input model) = 0x23 \<or>
                   code = KEY_NUMERIC_STAR \<and> ti_held_control (tm_input model) = 0x2a)
               then (release model (if code = KEY_NUMERIC_POUND then 0x23 else 0x2a))\<lparr>tm_dirty := True\<rparr>
               else model);
            model =
              (if KEY_NUMERIC_0 \<le> code \<and> code \<le> KEY_NUMERIC_9
               then release model (of_nat (0x30 + code - KEY_NUMERIC_0)) else model);
            model =
              (if code = KEY_NUMERIC_0 then (hold_phone_zero model now_ms)\<lparr>tm_phone_zero_held := False\<rparr>
               else model);
            model =
              (if code = KEY_F14 then model\<lparr>tm_input := fplinux_text_input_clear_release (tm_input model)\<rparr>
               else model)
        in if had_pending \<noteq> pending model then model\<lparr>tm_dirty := True\<rparr> else model)"

subsection \<open>The interface\<close>

definition fplinux_ui_text_model_cleanup :: "fplinux_ui_text_model \<Rightarrow> fplinux_ui_text_model" where
  "fplinux_ui_text_model_cleanup model =
     model\<lparr>tm_text := [], tm_display := [], tm_masked := None, tm_capacity := 0, tm_masked_capacity := 0\<rparr>"

text \<open>The memory after \<^verbatim>\<open>memset\<close>.\<close>

definition zero_text_model :: fplinux_ui_text_model where
  "zero_text_model =
     \<lparr> tm_text = [], tm_cursor = 0, tm_characters = 0, tm_display = [], tm_capacity = 0, tm_limit = 0,
       tm_multiline = False, tm_focused = False, tm_input = zero_text_input, tm_type = TEXT_ANY,
       tm_separator = 0, tm_separator_typed = False, tm_separator_revision = 0, tm_separator_ms = 0,
       tm_password = False, tm_masked = None, tm_masked_capacity = 0, tm_phone_zero_held = False,
       tm_phone_zero_ms = 0, tm_read_only = False,
       tm_consumed = replicate 2 (replicate (KEY_COUNT div 8) 0), tm_dirty = False, tm_revision = 0,
       tm_requests = 0 \<rparr>"

definition fplinux_ui_text_model_init ::
    "text_env \<Rightarrow> file_system \<Rightarrow> bytes list option \<Rightarrow> bool \<Rightarrow> nat \<Rightarrow> bytes option \<Rightarrow> bytes option \<Rightarrow>
     bool \<times> fplinux_ui_text_model" where
  "fplinux_ui_text_model_init env fopen opendir multiline limit directory input_language =
     (case request env INITIAL_CAPACITY zero_text_model of
        (got_text, model) \<Rightarrow>
          (case request env INITIAL_CAPACITY model of
             (got_display, model) \<Rightarrow>
               if \<not> got_text \<or> \<not> got_display then (False, fplinux_ui_text_model_cleanup model)
               else (True, model\<lparr>
                 tm_capacity := INITIAL_CAPACITY, tm_separator := 0x2e, tm_limit := limit,
                 tm_multiline := multiline, tm_focused := True,
                 tm_input := fplinux_text_input_init fopen opendir directory input_language True\<rparr>)))"

definition fplinux_ui_text_model_cancel_picker ::
    "text_env \<Rightarrow> fplinux_ui_text_model \<Rightarrow> fplinux_ui_text_model" where
  "fplinux_ui_text_model_cancel_picker env model =
     (if \<not> ti_picker_open (tm_input model) then model
      else finish_model env (close_picker env model False))"

definition fplinux_ui_text_model_key ::
    "text_env \<Rightarrow> fplinux_ui_text_model \<Rightarrow> fplinux_ui_text_model_key \<Rightarrow> u64 \<Rightarrow>
     fplinux_ui_text_model_result \<times> fplinux_ui_text_model" where
  "fplinux_ui_text_model_key env model key now_ms =
     (if \<not> tm_focused model \<or> tk_code key \<ge> KEY_COUNT then (TEXT_IGNORED, model)
      else if \<not> tk_pressed key then
        (case take_consumed model key of
           (consumed, model) \<Rightarrow>
             (if consumed then TEXT_CONSUMED else TEXT_IGNORED,
              finish_model env (release_key env model key now_ms)))
      else if tm_read_only model then (TEXT_IGNORED, model)
      else
        case (if tk_keyboard key then keyboard_key env model key
              else phone_key env model (tk_code key) now_ms) of
          (result, model) \<Rightarrow>
            (result,
             finish_model env
               (if result = TEXT_CONSUMED
                then set_consumed model (tk_keyboard key) (tk_code key)
                       (consumed_byte model (tk_keyboard key) (tk_code key) OR consumed_bit (tk_code key))
                else model)))"

text \<open>
  \<^verbatim>\<open>tick\<close> compares the addresses of the indicators: two of them are equal when the mode, the
  language and the case are.
\<close>

definition indicator_address :: "fplinux_text_input \<Rightarrow> (nat \<times> fplinux_language_case) option" where
  "indicator_address input =
     (if ti_numeric input then None else Some (ti_language input, ti_letter_case input))"

definition fplinux_ui_text_model_tick ::
    "text_env \<Rightarrow> fplinux_ui_text_model \<Rightarrow> u64 \<Rightarrow> fplinux_ui_text_model" where
  "fplinux_ui_text_model_tick env model now_ms =
     (let had_pending = pending model;
          indicator = indicator_address (tm_input model);
          model = hold_phone_zero model now_ms;
          model = put_input
            (fplinux_text_input_tick (tm_input model) now_ms (Some (emit_for env)) erase_for model)
      in finish_model env
           (if had_pending \<noteq> pending model \<or> indicator \<noteq> indicator_address (tm_input model)
            then model\<lparr>tm_dirty := True\<rparr> else model))"

definition fplinux_ui_text_model_cancel_held ::
    "text_env \<Rightarrow> fplinux_ui_text_model \<Rightarrow> fplinux_ui_text_model" where
  "fplinux_ui_text_model_cancel_held env model =
     (let model = (if ti_picker_open (tm_input model) then model\<lparr>tm_dirty := True\<rparr> else model)
      in finish_model env
           (model\<lparr>tm_phone_zero_held := False, tm_input := fplinux_text_input_cancel_held (tm_input model)\<rparr>))"

definition fplinux_ui_text_model_deadline :: "fplinux_ui_text_model \<Rightarrow> u64 option" where
  "fplinux_ui_text_model_deadline model =
     (let deadline = fplinux_text_input_deadline (tm_input model) in
      if tm_phone_zero_held model \<and>
         (case deadline of None \<Rightarrow> True | Some d \<Rightarrow> tm_phone_zero_ms model + HOLD_MS < d)
      then Some (tm_phone_zero_ms model + HOLD_MS) else deadline)"

fun suits_number :: "bool \<Rightarrow> bool \<Rightarrow> bytes \<Rightarrow> bool" where
  "suits_number decimal separator [] = True"
| "suits_number decimal separator (b # bs) =
     (if (b = 0x2e \<or> b = 0x2c) \<and> decimal \<and> \<not> separator then suits_number decimal True bs
      else if b < 0x30 \<or> b > 0x39 then False
      else suits_number decimal separator bs)"

definition suits :: "fplinux_ui_text_model_type \<Rightarrow> bytes \<Rightarrow> bool" where
  "suits type bs =
     (let bs = c_string bs in
      if type = TEXT_ANY then True
      else if type = TEXT_PHONE then list_all (\<lambda>b. b \<in> set (bytes_of ''0123456789+*#pw'')) bs
      else suits_number (type = TEXT_DECIMAL) False
             (case bs of [] \<Rightarrow> [] | b # rest \<Rightarrow> if b = 0x2d then rest else bs))"

text \<open>The first byte of a C string that is a separator, replaced.\<close>

fun replace_separator :: "u8 \<Rightarrow> bytes \<Rightarrow> bytes" where
  "replace_separator separator [] = []"
| "replace_separator separator (b # bs) =
     (if b = 0 then b # bs
      else if b = 0x2e \<or> b = 0x2c then separator # bs
      else b # replace_separator separator bs)"

definition use_separator :: "fplinux_ui_text_model \<Rightarrow> fplinux_ui_text_model" where
  "use_separator model =
     (if tm_type model \<noteq> TEXT_DECIMAL then model
      else model\<lparr>tm_text := replace_separator (tm_separator model) (tm_text model)\<rparr>)"

text \<open>The setters that can fail return the error number, \<^const>\<open>None\<close> for success.\<close>

definition fplinux_ui_text_model_set_text ::
    "text_env \<Rightarrow> fplinux_ui_text_model \<Rightarrow> bytes \<Rightarrow> errno option \<times> fplinux_ui_text_model" where
  "fplinux_ui_text_model_set_text env model bs =
     (let characters = count_characters bs (length bs) in
      if \<not> fits model characters then (Some E2BIG, model)
      else if \<not> tm_multiline model \<and> 0x0a \<in> set bs \<or> \<not> suits (tm_type model) bs then (Some EINVAL, model)
      else case reserve env model (length bs) of
        (False, model) \<Rightarrow> (Some ENOMEM, model)
      | (True, model) \<Rightarrow>
          let model = cancel_pending model;
              model = model\<lparr>tm_input := (tm_input model)\<lparr>ti_clearing := False\<rparr>\<rparr>;
              model = use_separator (model\<lparr>tm_text := bs\<rparr>)
          in (None, finish_model env (model\<lparr>tm_cursor := length bs, tm_characters := characters\<rparr>)))"

definition fplinux_ui_text_model_set_type ::
    "text_env \<Rightarrow> fplinux_ui_text_model \<Rightarrow> fplinux_ui_text_model_type option \<Rightarrow> u8 \<Rightarrow>
     errno option \<times> fplinux_ui_text_model" where
  "fplinux_ui_text_model_set_type env model type_arg separator =
     (case type_arg of
        None \<Rightarrow> (Some EINVAL, model)
      | Some type \<Rightarrow>
          if type = TEXT_DECIMAL \<and> separator \<noteq> 0x2e \<and> separator \<noteq> 0x2c then (Some EINVAL, model)
          else
            let model = commit_pending env model in
            if \<not> suits type (tm_text model) then (Some EINVAL, finish_model env model)
            else
              let model = model\<lparr>tm_type := type, tm_separator := separator,
                    tm_input := (fplinux_text_input_reset_mode (tm_input model) (type \<noteq> TEXT_ANY))
                                  \<lparr>ti_picker_open := False\<rparr>,
                    tm_separator_typed := False\<rparr>;
                  model = use_separator model;
                  input = tm_input model;
                  model = model\<lparr>tm_input := input\<lparr>ti_compose := fplinux_multitap_set_language (ti_compose input)
                      (Some (if type = TEXT_PHONE then phone_star else language_slot (ti_languages input) 0))\<rparr>,
                    tm_dirty := True\<rparr>
              in (None, finish_model env model))"

definition fplinux_ui_text_model_set_password ::
    "text_env \<Rightarrow> fplinux_ui_text_model \<Rightarrow> bool \<Rightarrow> fplinux_ui_text_model" where
  "fplinux_ui_text_model_set_password env model password =
     (if tm_password model = password then model
      else finish_model env
             (model\<lparr>tm_password := password,
                    tm_input := fplinux_text_input_set_sentence_case (tm_input model) (\<not> password),
                    tm_dirty := True\<rparr>))"

definition fplinux_ui_text_model_set_focused ::
    "text_env \<Rightarrow> fplinux_ui_text_model \<Rightarrow> bool \<Rightarrow> fplinux_ui_text_model" where
  "fplinux_ui_text_model_set_focused env model focused =
     (if tm_focused model = focused then model
      else
        let model =
              (if focused then model
               else let model = commit_pending env model
                    in model\<lparr>tm_input := (tm_input model)\<lparr>ti_picker_open := False, ti_clearing := False\<rparr>,
                             tm_consumed := replicate 2 (replicate (KEY_COUNT div 8) 0)\<rparr>)
        in finish_model env (model\<lparr>tm_focused := focused, tm_dirty := True\<rparr>))"

definition fplinux_ui_text_model_set_picker_columns ::
    "fplinux_ui_text_model \<Rightarrow> nat \<Rightarrow> fplinux_ui_text_model" where
  "fplinux_ui_text_model_set_picker_columns model columns =
     model\<lparr>tm_input := fplinux_text_input_set_picker_columns (tm_input model) columns\<rparr>"

definition fplinux_ui_text_model_set_read_only ::
    "text_env \<Rightarrow> fplinux_ui_text_model \<Rightarrow> bool \<Rightarrow> fplinux_ui_text_model" where
  "fplinux_ui_text_model_set_read_only env model read_only =
     (if tm_read_only model = read_only then model
      else
        let model =
              (if \<not> read_only then model
               else let model = commit_pending env model
                    in model\<lparr>tm_input := (tm_input model)\<lparr>ti_picker_open := False, ti_clearing := False\<rparr>,
                             tm_separator_typed := False\<rparr>)
        in finish_model env (model\<lparr>tm_read_only := read_only, tm_dirty := True\<rparr>))"

fun caret_offset :: "bytes \<Rightarrow> nat \<Rightarrow> nat \<Rightarrow> nat" where
  "caret_offset bs 0 cursor = cursor"
| "caret_offset bs (Suc index) cursor =
     (if cursor < length bs then caret_offset bs index (next_boundary bs (length bs) cursor) else cursor)"

definition fplinux_ui_text_model_set_caret ::
    "text_env \<Rightarrow> fplinux_ui_text_model \<Rightarrow> nat \<Rightarrow> fplinux_ui_text_model" where
  "fplinux_ui_text_model_set_caret env model index =
     (let model = commit_pending env model
      in finish_model env (move_cursor model (caret_offset (tm_text model) index 0)))"

definition fplinux_ui_text_model_view :: "fplinux_ui_text_model \<Rightarrow> bytes" where
  "fplinux_ui_text_model_view model =
     (if \<not> tm_password model then tm_display model
      else case tm_masked model of None \<Rightarrow> [] | Some bs \<Rightarrow> bs)"

definition fplinux_ui_text_model_caret :: "fplinux_ui_text_model \<Rightarrow> nat" where
  "fplinux_ui_text_model_caret model =
     count_characters (tm_text model) (tm_cursor model) + (if pending model then 1 else 0)"

definition fplinux_ui_text_model_pending :: "fplinux_ui_text_model \<Rightarrow> nat option" where
  "fplinux_ui_text_model_pending model =
     (if \<not> pending model then None else Some (count_characters (tm_text model) (tm_cursor model)))"

definition fplinux_ui_text_model_indicator :: "fplinux_ui_text_model \<Rightarrow> bytes" where
  "fplinux_ui_text_model_indicator model = fplinux_text_input_indicator (tm_input model)"

fun decimal_digits :: "nat \<Rightarrow> bytes" where
  "decimal_digits n = (if n < 10 then [] else decimal_digits (n div 10)) @ [of_nat (0x30 + n mod 10)]"

declare decimal_digits.simps [simp del]

text \<open>
  \<^verbatim>\<open>snprintf\<close> writes at most \<^verbatim>\<open>size - 1\<close> bytes and the NUL; the result is \<^const>\<open>None\<close> when the
  buffer is left alone.
\<close>

definition snprintf_bytes :: "nat \<Rightarrow> bytes \<Rightarrow> bytes option" where
  "snprintf_bytes buffer_size bs = (if buffer_size = 0 then None else Some (take (buffer_size - 1) bs))"

definition fplinux_ui_text_model_status :: "fplinux_ui_text_model \<Rightarrow> nat \<Rightarrow> bytes option" where
  "fplinux_ui_text_model_status model buffer_size =
     (let indicator = fplinux_ui_text_model_indicator model;
          used = tm_characters model + (if pending model then 1 else 0)
      in if tm_read_only model then snprintf_bytes buffer_size []
         else if tm_limit model = 0 \<or> used < tm_limit model - tm_limit model div 10
         then snprintf_bytes buffer_size indicator
         else snprintf_bytes buffer_size
                (indicator @ bytes_of ''  '' @ decimal_digits used @ bytes_of ''/'' @
                 decimal_digits (tm_limit model)))"

end
