(* ===== verification/Text_Boundary.thy ===== *)
theory Text_Boundary
  imports Text_Model
begin

section \<open>Character boundaries of UTF-8 text\<close>

text \<open>
  What the byte scans of \<^verbatim>\<open>fplinux-ui-text-model.c\<close> mean for valid UTF-8: counting the bytes
  that do not continue a character counts characters, and the positions that the scans
  stop at cut the text into valid parts.
\<close>

lemma cont_ge: "is_continuation b \<longleftrightarrow> 128 \<le> unat b \<and> unat b < 192"
  by (simp add: is_continuation_def cont_byte_iff)

lemma encode_shape:
  assumes "is_scalar c"
  obtains lead tail where "fplinux_text_input_encode_utf8 c = lead # tail" "\<not> is_continuation lead"
    "list_all is_continuation tail" "tail = [] \<longrightarrow> c = ucast lead"
    "tail \<noteq> [] \<longrightarrow> 128 \<le> unat lead"
proof -
  have "fplinux_utf8_next (fplinux_text_input_encode_utf8 c) = Some (c, [])"
    using decode_encode [OF assms, of "[]"] by simp
  then show thesis
  proof (cases rule: utf8_next_cases)
    case (one b)
    then show ?thesis using that [of b "[]"] by (auto simp: is_continuation_def cont_byte_iff)
  next
    case (two b y)
    then show ?thesis using that [of b "[y]"] by (auto simp: is_continuation_def cont_byte_iff)
  next
    case (three b y z)
    then show ?thesis using that [of b "[y, z]"] by (auto simp: is_continuation_def cont_byte_iff)
  next
    case (four b y z w)
    then show ?thesis using that [of b "[y, z, w]"] by (auto simp: is_continuation_def cont_byte_iff)
  qed
qed

lemma encode_invalid: "\<not> is_scalar c \<Longrightarrow> fplinux_text_input_encode_utf8 c = []"
  by (auto simp: is_scalar_def fplinux_text_input_encode_utf8_def not_le)

lemma valid_utf8_encode [simp]: "valid_utf8 (fplinux_text_input_encode_utf8 c)"
  by (cases "is_scalar c") (simp_all add: valid_utf8_encode1 encode_invalid)

lemma encode_bytes: "b \<in> set (fplinux_text_input_encode_utf8 c) \<Longrightarrow> 128 \<le> unat b \<or> c = ucast b"
proof (cases "is_scalar c")
  case True
  assume b: "b \<in> set (fplinux_text_input_encode_utf8 c)"
  from True obtain lead tail where "fplinux_text_input_encode_utf8 c = lead # tail"
    "list_all is_continuation tail" "tail = [] \<longrightarrow> c = ucast lead" "tail \<noteq> [] \<longrightarrow> 128 \<le> unat lead"
    by (rule encode_shape)
  with b show ?thesis by (cases "tail = []") (auto simp: list_all_iff cont_ge)
qed (simp add: encode_invalid)

lemma valid_utf8_Cons: "valid_utf8 (fplinux_text_input_encode_utf8 c @ bs) \<longleftrightarrow> valid_utf8 bs" if "is_scalar c"
  using that unfolding valid_utf8_def
  by (subst utf8_decode.simps) (auto simp: decode_encode encode_nonempty split: option.split)

lemma ucast_byte [simp]: "ucast (ucast b :: u32) = (b :: u8)"
  by (rule bit_word_eqI) (auto simp: bit_simps)

lemma ascii_encode: "unat b < 128 \<Longrightarrow> fplinux_text_input_encode_utf8 (ucast b) = [b] \<and> is_scalar (ucast b)" for b :: u8
  by (auto simp: fplinux_text_input_encode_utf8_def is_scalar_def word_less_nat_alt word_le_nat_alt)

lemma valid_utf8_ascii_Cons: "unat b < 128 \<Longrightarrow> valid_utf8 (b # bs) \<longleftrightarrow> valid_utf8 bs"
  using valid_utf8_Cons [of "ucast b" bs] ascii_encode [of b] by simp

lemma valid_utf8_ascii: "list_all (\<lambda>b. unat b < 128) bs \<Longrightarrow> valid_utf8 bs"
  by (induction bs) (auto simp: valid_utf8_ascii_Cons)

lemma valid_utf8_induct [consumes 1, case_names Nil Cons]:
  assumes "valid_utf8 bs" "P []"
    "\<And>c bs. is_scalar c \<Longrightarrow> valid_utf8 bs \<Longrightarrow> P bs \<Longrightarrow> P (fplinux_text_input_encode_utf8 c @ bs)"
  shows "P bs"
proof -
  obtain cs where cs: "bs = utf8_encode cs" "\<forall>c\<in>set cs. is_scalar c" using assms(1) valid_utf8_iff by blast
  have "P (utf8_encode cs)" using cs(2)
    by (induction cs) (use assms(2,3) valid_utf8_iff in auto)
  with cs(1) show ?thesis by simp
qed

subsection \<open>Boundaries\<close>

definition boundary :: "bytes \<Rightarrow> nat \<Rightarrow> bool" where
  "boundary bs n \<longleftrightarrow> n \<le> length bs \<and> (n < length bs \<longrightarrow> \<not> is_continuation (bs ! n))"

lemma boundary_split:
  assumes "valid_utf8 bs"
  shows "boundary bs n \<Longrightarrow> valid_utf8 (take n bs) \<and> valid_utf8 (drop n bs)"
  using assms
proof (induction bs arbitrary: n rule: valid_utf8_induct)
  case Nil
  then show ?case by simp
next
  case (Cons c bs)
  obtain lead tail where e: "fplinux_text_input_encode_utf8 c = lead # tail" "list_all is_continuation tail"
    using encode_shape [OF Cons.hyps(1)] by metis
  consider "n = 0" | "0 < n" "n \<le> length tail" | "length tail < n" by linarith
  then show ?case
  proof cases
    case 1
    with Cons.hyps show ?thesis by (simp add: valid_utf8_append)
  next
    case 2
    then have "is_continuation ((lead # tail @ bs) ! n)"
      using e(2) by (auto simp: nth_append list_all_length nth_Cons split: nat.split)
    with 2 Cons.prems e show ?thesis by (simp add: boundary_def)
  next
    case 3
    then obtain k where k: "n = Suc (length tail + k)" using less_imp_Suc_add by metis
    have "boundary bs k" using Cons.prems e k by (auto simp: boundary_def nth_append)
    from Cons.IH [OF this] have "valid_utf8 (fplinux_text_input_encode_utf8 c @ take k bs)" "valid_utf8 (drop k bs)"
      using valid_utf8_Cons [OF Cons.hyps(1)] by simp_all
    with k e show ?thesis by simp
  qed
qed

lemma valid_hd: "valid_utf8 (b # bs) \<Longrightarrow> \<not> is_continuation b"
proof -
  assume v: "valid_utf8 (b # bs)"
  then obtain cs where cs: "b # bs = utf8_encode cs" "\<forall>c\<in>set cs. is_scalar c" using valid_utf8_iff by blast
  then obtain c ds where "cs = c # ds" by (cases cs) auto
  with cs encode_shape [of c] show ?thesis by (metis append_Cons list.inject list.set_intros(1) utf8_encode_simps(2))
qed

lemma boundary_append: "valid_utf8 ys \<Longrightarrow> boundary (xs @ ys) (length xs)"
  by (cases ys) (auto simp: boundary_def nth_append dest: valid_hd)

lemma boundary_0: "valid_utf8 bs \<Longrightarrow> boundary bs 0"
  using boundary_append [of bs "[]"] by simp

lemma boundary_length [simp]: "boundary bs (length bs)"
  by (simp add: boundary_def)

lemma boundary_le: "boundary bs n \<Longrightarrow> n \<le> length bs"
  by (simp add: boundary_def)

lemma previous_boundary_le: "previous_boundary bs n \<le> n"
  by (induction bs n rule: previous_boundary.induct) auto

lemma previous_boundary_less: "0 < n \<Longrightarrow> previous_boundary bs n < n"
  by (induction bs n rule: previous_boundary.induct) (auto intro: less_SucI)

lemma previous_boundary:
  assumes "valid_utf8 bs" "n \<le> length bs"
  shows "boundary bs (previous_boundary bs n)"
  using assms
proof (induction bs n rule: previous_boundary.induct)
  case (2 bs offset)
  then show ?case by (auto simp: boundary_def dest: boundary_0)
qed (simp add: boundary_0)

lemma next_boundary:
  "boundary bs (next_boundary bs (length bs) n)"
proof (induction bs "length bs" n rule: next_boundary.induct)
  case (1 bs n)
  then show ?case
    by (auto simp: next_boundary.simps [of bs "length bs" n] boundary_def)
qed

lemma next_boundary_ge: "n \<le> length bs \<Longrightarrow> n \<le> next_boundary bs (length bs) n"
proof (induction bs "length bs" n rule: next_boundary.induct)
  case (1 bs n)
  then show ?case by (auto simp: next_boundary.simps [of bs "length bs" n])
qed

lemma caret_offset_boundary: "boundary bs cursor \<Longrightarrow> boundary bs (caret_offset bs index cursor)"
  by (induction bs index cursor rule: caret_offset.induct) (auto intro: next_boundary)

lemma ascii_not_cont: "unat b < 128 \<Longrightarrow> \<not> is_continuation b"
  by (simp add: cont_ge)

lemma boundary_after_ascii:
  assumes "valid_utf8 bs" "i < length bs" "unat (bs ! i) < 128"
  shows "boundary bs (Suc i)"
proof -
  have "boundary bs i" using assms by (simp add: boundary_def ascii_not_cont)
  from boundary_split [OF assms(1) this] assms have "valid_utf8 (drop (Suc i) bs)"
    by (metis Cons_nth_drop_Suc valid_utf8_ascii_Cons)
  with boundary_append [of "drop (Suc i) bs" "take (Suc i) bs"] assms(2) show ?thesis
    by (simp add: min_absorb2 Suc_le_eq)
qed

lemma line_end_boundary: "cursor \<le> length bs \<Longrightarrow> boundary bs (line_end bs cursor)"
proof (induction bs cursor rule: line_end.induct)
  case (1 bs cursor)
  then show ?case
    by (cases "cursor < length bs \<and> bs ! cursor \<noteq> 0x0a") (auto simp: line_end.simps [of bs cursor] boundary_def cont_ge)
qed

lemma line_start_boundary:
  assumes "valid_utf8 bs" "cursor \<le> length bs"
  shows "boundary bs (line_start bs cursor)"
  using assms
proof (induction bs cursor rule: line_start.induct)
  case (2 bs cursor)
  then show ?case using boundary_after_ascii [of bs cursor] by auto
qed (simp add: boundary_0)

subsection \<open>Counting\<close>

lemma count_append [simp]:
  "count_characters (xs @ ys) (length xs + n) = count_characters xs (length xs) + count_characters ys n"
  by (simp add: count_characters_def)

lemma count_encode: "is_scalar c \<Longrightarrow> count_characters (fplinux_text_input_encode_utf8 c) (length (fplinux_text_input_encode_utf8 c)) = 1"
proof -
  assume "is_scalar c"
  then obtain lead tail where "fplinux_text_input_encode_utf8 c = lead # tail" "\<not> is_continuation lead"
    "list_all is_continuation tail" by (rule encode_shape)
  then show ?thesis by (simp add: count_characters_def filter_False list_all_iff)
qed

lemma count_decode: "utf8_decode bs = Some cs \<Longrightarrow> count_characters bs (length bs) = length cs"
proof -
  assume "utf8_decode bs = Some cs"
  then have "bs = utf8_encode cs" "\<forall>c\<in>set cs. is_scalar c" using utf8_decode_Some by auto
  moreover have "\<forall>c\<in>set cs. is_scalar c \<Longrightarrow> count_characters (utf8_encode cs) (length (utf8_encode cs)) = length cs"
    by (induction cs) (auto simp: count_encode, simp add: count_characters_def)
  ultimately show ?thesis by simp
qed

end
