(* ===== verification/Text_Invariant.thy ===== *)
theory Text_Invariant
  imports Text_Boundary
begin

section \<open>The invariant of a text field\<close>

text \<open>
  A text field always holds valid UTF-8 without NUL, in which the caret stands on a character
  boundary; it knows how many characters it holds and stays within its limit and its buffers;
  and the text is one that the type of the field takes.  Every operation keeps this, whatever
  the allocator answers.
\<close>

subsection \<open>What the types take\<close>

definition is_separator :: "u8 \<Rightarrow> bool" where "is_separator b \<longleftrightarrow> b = 0x2e \<or> b = 0x2c"

definition number_ok :: "bool \<Rightarrow> bytes \<Rightarrow> bool" where
  "number_ok decimal bs \<longleftrightarrow> list_all (\<lambda>b. is_digit b \<or> is_separator b) bs \<and>
     length (filter is_separator bs) \<le> of_bool decimal"

definition strip_minus :: "bytes \<Rightarrow> bytes" where
  "strip_minus bs = (case bs of [] \<Rightarrow> [] | b # rest \<Rightarrow> if b = 0x2d then rest else bs)"

lemma digit_separator: "is_digit b \<Longrightarrow> \<not> is_separator b"
  by (auto simp: is_digit_def is_separator_def)

lemma not_digit: "b < 0x30 \<or> b > 0x39 \<longleftrightarrow> \<not> is_digit b"
  by (auto simp: is_digit_def not_le)

lemma suits_number_ok:
  "suits_number decimal separator bs \<longleftrightarrow>
     list_all (\<lambda>b. is_digit b \<or> is_separator b) bs \<and> length (filter is_separator bs) \<le> of_bool (decimal \<and> \<not> separator)"
proof (induction decimal separator bs rule: suits_number.induct)
  case (2 decimal separator b bs)
  show ?case
  proof (cases "is_separator b")
    case True
    then have "\<not> is_digit b" using digit_separator by blast
    with True 2 show ?thesis by (auto simp: is_separator_def [of b] not_digit)
  next
    case False
    with 2 show ?thesis by (auto simp: is_separator_def [of b] not_digit)
  qed
qed simp

lemma c_string_id: "0 \<notin> set bs \<Longrightarrow> c_string bs = bs"
  unfolding c_string_def by (rule takeWhile_eq_all_conv [THEN iffD2]) auto

definition phone_bytes :: bytes where "phone_bytes = bytes_of ''0123456789+*#pw''"

lemma suits_iff:
  assumes "0 \<notin> set bs"
  shows "suits TEXT_ANY bs" "suits TEXT_PHONE bs \<longleftrightarrow> set bs \<subseteq> set phone_bytes"
    "suits TEXT_NUMERIC bs \<longleftrightarrow> number_ok False (strip_minus bs)"
    "suits TEXT_DECIMAL bs \<longleftrightarrow> number_ok True (strip_minus bs)"
  using assms
  by (auto simp: suits_def c_string_id Let_def phone_bytes_def list_all_iff suits_number_ok number_ok_def strip_minus_def)

lemma number_ok_append [simp]:
  "number_ok d (xs @ ys) \<longleftrightarrow> list_all (\<lambda>b. is_digit b \<or> is_separator b) xs \<and>
     list_all (\<lambda>b. is_digit b \<or> is_separator b) ys \<and>
     length (filter is_separator xs) + length (filter is_separator ys) \<le> of_bool d"
  by (auto simp: number_ok_def)

lemma number_ok_strip: "number_ok d bs \<Longrightarrow> strip_minus bs = bs"
  by (auto simp: number_ok_def strip_minus_def is_digit_def is_separator_def split: list.split)

lemma strip_minus_simps [simp]: "strip_minus [] = []" "strip_minus (0x2d # bs) = bs"
  "b \<noteq> 0x2d \<Longrightarrow> strip_minus (b # bs) = b # bs"
  by (simp_all add: strip_minus_def)

lemma number_insert:
  assumes "number_ok d (strip_minus (pre @ post))" "is_digit b \<or> is_separator b"
    "is_separator b \<longrightarrow> d \<and> filter is_separator (pre @ post) = []"
    "pre = [] \<longrightarrow> take 1 post \<noteq> [0x2d]"
  shows "number_ok d (strip_minus (pre @ b # post))"
proof (cases pre)
  case Nil
  then have "strip_minus post = post" using assms(4) by (cases post) auto
  moreover have "strip_minus (b # post) = b # post"
    by (rule strip_minus_simps(3)) (use assms(2) in \<open>auto simp: is_digit_def is_separator_def\<close>)
  ultimately show ?thesis using assms Nil by (auto simp: number_ok_def)
next
  case (Cons p ps)
  show ?thesis
  proof (cases "p = 0x2d")
    case True
    then have "\<not> is_separator p" by (simp add: is_separator_def)
    with Cons assms True show ?thesis by (auto simp: number_ok_def)
  next
    case False
    with Cons assms show ?thesis by (auto simp: number_ok_def)
  qed
qed

lemma number_delete:
  assumes "number_ok d (strip_minus (pre @ mid @ post))"
  shows "number_ok d (strip_minus (pre @ post))"
proof (cases "mid = []")
  case False
  then obtain x xs where mid: "mid = x # xs" by (cases mid) auto
  show ?thesis
  proof (cases pre)
    case Nil
    then have "number_ok d post"
      using assms mid by (cases "x = 0x2d") (auto simp: number_ok_def split: if_split_asm)
    with Nil number_ok_strip show ?thesis by simp
  next
    case (Cons p ps)
    with assms show ?thesis by (cases "p = 0x2d") (auto simp: number_ok_def)
  qed
qed (use assms in simp)

lemma suits_delete:
  assumes "0 \<notin> set (pre @ mid @ post)" "suits T (pre @ mid @ post)"
  shows "suits T (pre @ post)"
proof -
  have "0 \<notin> set (pre @ post)" using assms(1) by auto
  with assms show ?thesis by (cases T) (simp_all add: suits_iff number_delete del: number_ok_append)
qed

subsection \<open>The invariant\<close>

definition text_ok :: "fplinux_ui_text_model \<Rightarrow> bool" where
  "text_ok m \<longleftrightarrow>
     valid_utf8 (tm_text m) \<and> 0 \<notin> set (tm_text m) \<and> boundary (tm_text m) (tm_cursor m) \<and>
     tm_characters m = count_characters (tm_text m) (length (tm_text m)) \<and> fits m (tm_characters m) \<and>
     suits (tm_type m) (tm_text m) \<and> (tm_multiline m \<or> 0x0a \<notin> set (tm_text m)) \<and>
     (tm_type m = TEXT_DECIMAL \<longrightarrow> is_separator (tm_separator m) \<and>
        (\<forall>b \<in> set (tm_text m). is_separator b \<longrightarrow> b = tm_separator m))"

definition masked_fits :: "bytes option \<Rightarrow> nat \<Rightarrow> bool" where
  "masked_fits masked capacity \<longleftrightarrow> (case masked of None \<Rightarrow> True | Some bs \<Rightarrow> length bs < capacity)"

text \<open>
  The buffers of the text and of the shown text always hold them.  The size of the masked text is
  computed in a \<^verbatim>\<open>size_t\<close>, which cannot wrap while the capacity is at most \<open>2\<^sup>3\<^sup>0\<close>; capacities
  never shrink, so the masked text fits its buffer up to then.
\<close>

definition memory_ok :: "fplinux_ui_text_model \<Rightarrow> bool" where
  "memory_ok m \<longleftrightarrow> length (tm_text m) < tm_capacity m \<and> length (tm_display m) < tm_capacity m \<and>
     (tm_capacity m \<le> 2 ^ 30 \<longrightarrow> masked_fits (tm_masked m) (tm_masked_capacity m)) \<and>
     map length (tm_consumed m) = [KEY_COUNT div 8, KEY_COUNT div 8]"

lemmas text_okD = text_ok_def [THEN iffD1, rule_format]

text \<open>The invariant of the text for a field of type \<open>T\<close>: what emitting and erasing keep.\<close>

definition model_ok :: "fplinux_ui_text_model_type \<Rightarrow> fplinux_ui_text_model \<Rightarrow> bool" where
  "model_ok T m \<longleftrightarrow> tm_type m = T \<and> text_ok m \<and> memory_ok m \<and> (tm_phone_zero_held m \<longrightarrow> T = TEXT_PHONE)"

lemma model_ok_frame [simp]:
  "model_ok T (m\<lparr>tm_input := i\<rparr>) = model_ok T m"
  "model_ok T (m\<lparr>tm_dirty := d\<rparr>) = model_ok T m"
  "model_ok T (m\<lparr>tm_phone_zero_ms := t\<rparr>) = model_ok T m"
  "model_ok T (m\<lparr>tm_separator_typed := b\<rparr>) = model_ok T m"
  "model_ok T (m\<lparr>tm_separator_revision := n\<rparr>) = model_ok T m"
  "model_ok T (m\<lparr>tm_separator_ms := t\<rparr>) = model_ok T m"
  "model_ok T (m\<lparr>tm_revision := n\<rparr>) = model_ok T m"
  "model_ok T (m\<lparr>tm_requests := r\<rparr>) = model_ok T m"
  "model_ok T (m\<lparr>tm_focused := b\<rparr>) = model_ok T m"
  "model_ok T (m\<lparr>tm_read_only := b\<rparr>) = model_ok T m"
  "model_ok T (m\<lparr>tm_password := b\<rparr>) = model_ok T m"
  by (simp_all add: model_ok_def text_ok_def memory_ok_def fits_def)

lemma model_ok_zero_held:
  "model_ok T m \<Longrightarrow> h \<longrightarrow> T = TEXT_PHONE \<Longrightarrow> model_ok T (m\<lparr>tm_phone_zero_held := h\<rparr>)"
  by (auto simp: model_ok_def text_ok_def memory_ok_def fits_def)

lemma model_ok_not_held [simp]: "model_ok T m \<Longrightarrow> model_ok T (m\<lparr>tm_phone_zero_held := False\<rparr>)"
  by (simp add: model_ok_zero_held)

lemma model_ok_type: "model_ok T m \<Longrightarrow> tm_type m = T"
  by (simp add: model_ok_def)

lemma model_ok_cursor:
  "model_ok T m \<Longrightarrow> boundary (tm_text m) c \<Longrightarrow> model_ok T (m\<lparr>tm_cursor := c\<rparr>)"
  by (auto simp: model_ok_def text_ok_def memory_ok_def fits_def split: option.split)

lemma model_ok_capacity:
  assumes "model_ok T m" "tm_capacity m \<le> cap"
  shows "model_ok T (m\<lparr>tm_capacity := cap, tm_requests := req\<rparr>)"
proof -
  have "length (tm_text m) < cap" "length (tm_display m) < cap"
    "cap \<le> 2 ^ 30 \<Longrightarrow> masked_fits (tm_masked m) (tm_masked_capacity m)"
    using assms by (auto simp: model_ok_def memory_ok_def simp del: power_numeral)
  with assms(1) show ?thesis by (auto simp: model_ok_def text_ok_def memory_ok_def fits_def)
qed

lemma reserve_cases:
  assumes "reserve env m n = (r, m')"
  obtains cap req where "m' = m\<lparr>tm_capacity := cap, tm_requests := req\<rparr>" "tm_capacity m \<le> cap" "r \<longrightarrow> n < cap"
proof -
  have "\<exists>cap req. m' = m\<lparr>tm_capacity := cap, tm_requests := req\<rparr> \<and> tm_capacity m \<le> cap \<and> (r \<longrightarrow> n < cap)"
  proof (cases "n < tm_capacity m \<or> te_size_max env div 2 \<le> n")
    case True
    with assms have "m' = m \<and> (r \<longrightarrow> n < tm_capacity m)" by (auto simp: reserve_def split: if_split_asm)
    then show ?thesis by (intro exI [of _ "tm_capacity m"] exI [of _ "tm_requests m"]) simp
  next
    case False
    define cap where "cap = (if tm_capacity m * 2 \<le> n then n + 1 else tm_capacity m * 2)"
    have cap: "tm_capacity m \<le> cap" "n < cap" using False by (auto simp: cap_def)
    let ?r = "tm_requests m"
    have "reserve env m n =
      (if \<not> te_alloc env ?r cap then (False, m\<lparr>tm_requests := ?r + 1\<rparr>)
       else if \<not> te_alloc env (?r + 1) cap then (False, m\<lparr>tm_requests := ?r + 2\<rparr>)
       else (True, m\<lparr>tm_capacity := cap, tm_requests := ?r + 2\<rparr>))"
      using False by (simp add: reserve_def request_def cap_def [symmetric] Let_def)
    with assms show ?thesis using cap
      by (cases "te_alloc env ?r cap"; cases "te_alloc env (?r + 1) cap")
        (simp, metis fplinux_ui_text_model.surjective fplinux_ui_text_model.update_convs(5) order_refl)+
  qed
  with that show thesis by blast
qed

subsection \<open>Inserting and deleting\<close>

text \<open>What a change of the text leaves alone.\<close>

definition kept :: "fplinux_ui_text_model \<Rightarrow> fplinux_ui_text_model \<Rightarrow> bool" where
  "kept m m' \<longleftrightarrow> tm_input m' = tm_input m \<and> tm_phone_zero_held m' = tm_phone_zero_held m \<and>
     tm_multiline m' = tm_multiline m \<and> tm_separator m' = tm_separator m \<and> tm_limit m' = tm_limit m \<and>
     tm_type m' = tm_type m"

lemma kept_refl [simp]: "kept m m"
  by (simp add: kept_def)

lemma kept_trans: "kept a b \<Longrightarrow> kept b c \<Longrightarrow> kept a c"
  by (simp add: kept_def)

lemma count_split: "n \<le> length bs \<Longrightarrow>
  count_characters bs (length bs) = count_characters bs n + count_characters (drop n bs) (length bs - n)"
proof -
  assume "n \<le> length bs"
  then have "filter (\<lambda>b. \<not> is_continuation b) bs =
    filter (\<lambda>b. \<not> is_continuation b) (take n bs) @ filter (\<lambda>b. \<not> is_continuation b) (drop n bs)"
    by (metis append_take_drop_id filter_append)
  then show ?thesis by (simp add: count_characters_def)
qed

lemma count_all: "count_characters bs (length bs) = length (filter (\<lambda>b. \<not> is_continuation b) bs)"
  by (simp add: count_characters_def)

lemma filter_take_drop: "length (filter P (take n xs)) + length (filter P (drop n xs)) = length (filter P xs)"
  by (metis append_take_drop_id filter_append length_append)

definition inserted :: "fplinux_ui_text_model \<Rightarrow> bytes \<Rightarrow> bytes" where
  "inserted m bs = take (tm_cursor m) (tm_text m) @ bs @ drop (tm_cursor m) (tm_text m)"

lemma insert_cases:
  assumes "insert_bytes env m bs = (r, m')"
  obtains (no) cap req where "\<not> r" "m' = m\<lparr>tm_capacity := cap, tm_requests := req\<rparr>" "tm_capacity m \<le> cap"
  | (yes) cap req where "r" "fits m (tm_characters m + count_characters bs (length bs))"
      "m' = m\<lparr>tm_capacity := cap, tm_requests := req, tm_text := inserted m bs, tm_cursor := tm_cursor m + length bs,
             tm_characters := tm_characters m + count_characters bs (length bs), tm_dirty := True\<rparr>"
      "tm_capacity m \<le> cap" "length (tm_text m) + length bs < cap"
proof (cases "fits m (tm_characters m + count_characters bs (length bs))")
  case False
  with assms have "\<not> r" "m' = m" by (auto simp: insert_bytes_def Let_def)
  then show thesis using no [where cap = "tm_capacity m" and req = "tm_requests m"] by simp
next
  case True
  obtain r1 m1 where m1: "reserve env m (length (tm_text m) + length bs) = (r1, m1)" by fastforce
  from reserve_cases [OF m1] obtain cap req where c: "m1 = m\<lparr>tm_capacity := cap, tm_requests := req\<rparr>"
    "tm_capacity m \<le> cap" "r1 \<longrightarrow> length (tm_text m) + length bs < cap" .
  show thesis
  proof (cases r1)
    case False
    with assms True m1 c no show ?thesis by (auto simp: insert_bytes_def Let_def)
  next
    case r1: True
    with assms True m1 c yes show ?thesis by (auto simp: insert_bytes_def Let_def inserted_def)
  qed
qed

lemma insert_ok:
  assumes "model_ok T m" "valid_utf8 bs" "0 \<notin> set bs" "tm_multiline m \<or> 0x0a \<notin> set bs"
    "suits T (inserted m bs)" "T = TEXT_DECIMAL \<longrightarrow> (\<forall>b \<in> set bs. is_separator b \<longrightarrow> b = tm_separator m)"
    "insert_bytes env m bs = (r, m')"
  shows "model_ok T m' \<and> kept m m' \<and> (r \<longrightarrow> tm_text m' = inserted m bs \<and> tm_cursor m' = tm_cursor m + length bs) \<and>
    (\<not> r \<longrightarrow> tm_text m' = tm_text m \<and> tm_cursor m' = tm_cursor m)"
  using assms(7)
proof (cases rule: insert_cases)
  case (no cap req)
  then show ?thesis using model_ok_capacity [OF assms(1)] by (simp add: kept_def)
next
  case (yes cap req)
  let ?t = "tm_text m" and ?c = "tm_cursor m"
  have b: "boundary ?t ?c" and v: "valid_utf8 ?t" using assms(1) by (auto simp: model_ok_def text_ok_def)
  note sp = boundary_split [OF v b]
  have 1: "valid_utf8 (inserted m bs)" unfolding inserted_def using sp assms(2) by (intro valid_utf8_append) auto
  have "boundary ((take ?c ?t @ bs) @ drop ?c ?t) (length (take ?c ?t @ bs))"
    by (rule boundary_append) (use sp in simp)
  then have 2: "boundary (inserted m bs) (?c + length bs)"
    using boundary_le [OF b] by (simp add: inserted_def min_absorb2)
  have 3: "set (inserted m bs) \<subseteq> set ?t \<union> set bs"
    by (auto simp: inserted_def dest: in_set_takeD in_set_dropD)
  have 4: "count_characters (inserted m bs) (length (inserted m bs)) = tm_characters m + count_characters bs (length bs)"
    using assms(1) filter_take_drop [of "\<lambda>b. \<not> is_continuation b" ?c ?t] unfolding count_all
    by (simp add: count_all inserted_def model_ok_def text_ok_def)
  have 5: "length (inserted m bs) < cap" using yes(5) boundary_le [OF b] by (simp add: inserted_def)
  show ?thesis
    using yes 1 2 3 4 5 assms(1,3-6)
    by (auto simp: model_ok_def text_ok_def memory_ok_def fits_def kept_def)
qed

lemma delete_ok:
  assumes "model_ok T m" "boundary (tm_text m) start" "boundary (tm_text m) stop" "start \<le> stop"
  shows "model_ok T (delete_range m start stop)"
proof -
  let ?t = "tm_text m" and ?n = "take start (tm_text m) @ drop stop (tm_text m)"
  have v: "valid_utf8 ?t" and z: "0 \<notin> set ?t" using assms(1) by (auto simp: model_ok_def text_ok_def)
  note s1 = boundary_split [OF v assms(2)] and s2 = boundary_split [OF v assms(3)]
  have parts: "?t = take start ?t @ take (stop - start) (drop start ?t) @ drop stop ?t"
    using assms(4) by (metis append_assoc append_take_drop_id le_add_diff_inverse take_add)
  have 1: "valid_utf8 ?n" using s1 s2 by (intro valid_utf8_append) auto
  have 2: "boundary ?n start"
    using boundary_append [of "drop stop ?t" "take start ?t"] s2 boundary_le [OF assms(2)] by (simp add: min_absorb2)
  have 3: "set ?n \<subseteq> set ?t" by (auto dest: in_set_takeD in_set_dropD)
  have "suits T ?t" using assms(1) by (auto simp: model_ok_def text_ok_def)
  then have 4: "suits T ?n" using suits_delete z parts by metis
  have "length (filter (\<lambda>b. \<not> is_continuation b) ?t) =
    length (filter (\<lambda>b. \<not> is_continuation b) ?n) + count_characters (drop start ?t) (stop - start)"
    by (subst parts) (simp add: count_characters_def)
  then have 5: "count_characters ?n (length ?n) = tm_characters m - count_characters (drop start ?t) (stop - start)"
    using assms(1) unfolding count_all by (simp add: model_ok_def text_ok_def count_all)
  have 6: "length ?n \<le> length ?t" using assms(2-4) by (auto dest!: boundary_le)
  show ?thesis
    using 1 2 3 4 5 6 assms(1)
    by (auto simp: model_ok_def text_ok_def memory_ok_def fits_def delete_range_def)
qed

end
