(* ===== verification/Text_Field.thy ===== *)
theory Text_Field
  imports Text_Invariant
begin

section \<open>Every operation keeps the invariant of a text field\<close>

text \<open>
  The operations of \<^verbatim>\<open>fplinux-ui-text-model.c\<close> one by one.  The text field is the owner of the
  text in the contract \<open>input_client\<close> of the keypad policy: it emits by \<^const>\<open>emit_for\<close> and
  erases by \<^const>\<open>erase_for\<close>.
\<close>

subsection \<open>Characters that a field of a type composes\<close>

definition typed_char :: "fplinux_ui_text_model_type \<Rightarrow> u32 \<Rightarrow> bool" where
  "typed_char T c = (case T of TEXT_ANY \<Rightarrow> is_plain c | TEXT_PHONE \<Rightarrow> c \<in> {0x2a, 0x2b, 0x70, 0x77} | _ \<Rightarrow> False)"

definition number_type :: "fplinux_ui_text_model_type \<Rightarrow> bool" where
  "number_type T \<longleftrightarrow> T = TEXT_NUMERIC \<or> T = TEXT_DECIMAL"

text \<open>The upper case of a printable character is printable.\<close>

definition good_env :: "text_env \<Rightarrow> bool" where
  "good_env env \<longleftrightarrow> (\<forall>c. is_plain c \<longrightarrow> is_plain (te_towupper env c))"

lemma is_plain_unat: "is_plain c \<longleftrightarrow> 0x20 \<le> unat c \<and> \<not> (0x7f \<le> unat c \<and> unat c \<le> 0x9f)"
  by (auto simp: is_plain_def word_less_nat_alt word_le_nat_alt)

lemma uppercase_plain:
  assumes "good_env env" "is_plain c"
  shows "is_plain (fplinux_multitap_uppercase (te_towupper env) c)"
proof -
  have "is_plain (c - 0x61 + 0x41)" if "0x61 \<le> c" "c \<le> 0x7a"
  proof -
    have "c - 0x61 + 0x41 = c - 0x20" by simp
    moreover have "unat (c - 0x20) = unat c - 0x20" using that
      by (subst unat_sub) (auto simp: word_le_nat_alt)
    ultimately show ?thesis using that by (auto simp: is_plain_unat word_le_nat_alt)
  qed
  moreover have "is_plain (c - 0x20)" if "0x430 \<le> c" "c \<le> 0x44f"
  proof -
    have "unat (c - 0x20) = unat c - 0x20" using that by (subst unat_sub) (auto simp: word_le_nat_alt)
    then show ?thesis using that by (auto simp: is_plain_unat word_le_nat_alt)
  qed
  moreover have "is_plain 0x401" by (simp add: is_plain_def)
  ultimately show ?thesis
    using assms by (simp add: fplinux_multitap_uppercase_def good_env_def)
qed

lemma apply_case_plain:
  "good_env env \<Longrightarrow> is_plain c \<Longrightarrow> is_plain (apply_case env m c)"
  by (simp add: apply_case_def fplinux_text_input_apply_case_def uppercase_plain)

lemma apply_case_numeric: "ti_numeric (tm_input m) \<Longrightarrow> apply_case env m c = c"
  by (simp add: apply_case_def fplinux_text_input_apply_case_def)

lemma plain_bytes:
  assumes "is_plain c" "b \<in> set (fplinux_text_input_encode_utf8 c)"
  shows "b \<noteq> 0 \<and> b \<noteq> 0x0a"
  using encode_bytes [OF assms(2)] assms(1) by (auto simp: is_plain_unat)

subsection \<open>What may be inserted where\<close>

lemma set_inserted: "set (inserted m bs) \<subseteq> set (tm_text m) \<union> set bs"
  by (auto simp: inserted_def dest: in_set_takeD in_set_dropD)

lemma inserted_nonzero: "model_ok T m \<Longrightarrow> 0 \<notin> set bs \<Longrightarrow> 0 \<notin> set (inserted m bs)"
  using set_inserted [of m bs] by (auto simp: model_ok_def text_ok_def)

lemma model_suits: "model_ok T m \<Longrightarrow> suits T (tm_text m)"
  by (auto simp: model_ok_def text_ok_def)

lemma model_nonzero: "model_ok T m \<Longrightarrow> 0 \<notin> set (tm_text m)"
  by (simp add: model_ok_def text_ok_def)

lemma inserted_phone:
  assumes "model_ok TEXT_PHONE m" "set bs \<subseteq> set phone_bytes" "0 \<notin> set bs"
  shows "suits TEXT_PHONE (inserted m bs)"
  using assms suits_iff(2) [OF model_nonzero [OF assms(1)]] set_inserted [of m bs]
  by (auto simp: suits_iff(2) [OF inserted_nonzero [OF assms(1,3)]] model_ok_def text_ok_def)

lemma number_suits: "number_type T \<Longrightarrow> 0 \<notin> set bs \<Longrightarrow> suits T bs \<longleftrightarrow> number_ok (T = TEXT_DECIMAL) (strip_minus bs)"
  by (auto simp: number_type_def suits_iff)

lemma inserted_number:
  assumes "model_ok T m" "number_type T" "is_digit b \<or> is_separator b" "b \<noteq> 0"
    "is_separator b \<longrightarrow> T = TEXT_DECIMAL \<and> filter is_separator (tm_text m) = []"
    "tm_cursor m = 0 \<longrightarrow> take 1 (tm_text m) \<noteq> [0x2d]"
  shows "suits T (inserted m [b])"
proof -
  let ?p = "take (tm_cursor m) (tm_text m)" and ?q = "drop (tm_cursor m) (tm_text m)"
  have 1: "number_ok (T = TEXT_DECIMAL) (strip_minus (?p @ ?q))"
    using model_suits [OF assms(1)] number_suits [OF assms(2) model_nonzero [OF assms(1)]] by simp
  have 2: "?p = [] \<longrightarrow> take 1 ?q \<noteq> [0x2d]"
    using assms(6) by (cases "tm_text m") auto
  have "number_ok (T = TEXT_DECIMAL) (strip_minus (?p @ b # ?q))"
    by (rule number_insert [OF 1 assms(3) _ 2]) (use assms(5) in simp)
  then show ?thesis
    using number_suits [OF assms(2) inserted_nonzero [OF assms(1), of "[b]"]] assms(4) by (simp add: inserted_def)
qed

lemma inserted_minus:
  assumes "model_ok T m" "number_type T" "tm_cursor m = 0" "take 1 (tm_text m) \<noteq> [0x2d]"
  shows "suits T (inserted m [0x2d])"
proof -
  have "strip_minus (tm_text m) = tm_text m" using assms(4) by (cases "tm_text m") auto
  then have "number_ok (T = TEXT_DECIMAL) (tm_text m)"
    using model_suits [OF assms(1)] number_suits [OF assms(2) model_nonzero [OF assms(1)]] by simp
  then show ?thesis
    using number_suits [OF assms(2) inserted_nonzero [OF assms(1), of "[0x2d]"]] assms(3) by (simp add: inserted_def)
qed

lemma digit_bytes: "is_digit b \<Longrightarrow> b \<noteq> 0 \<and> b \<noteq> 0x0a \<and> unat b < 128 \<and> b \<in> set phone_bytes"
proof -
  assume "is_digit b"
  then have b: "0x30 \<le> unat b" "unat b \<le> 0x39" by (simp_all add: is_digit_def word_le_nat_alt)
  then have "unat b \<in> {0x30..0x39}" by simp
  also have "{0x30..0x39::nat} = {48,49,50,51,52,53,54,55,56,57}" by (simp add: atLeastAtMost_insertL [symmetric] flip: One_nat_def)
  finally have "b \<in> set phone_bytes"
    by (auto simp: phone_bytes_def word_unat_eq_iff)
  with b show ?thesis by auto
qed

lemma insert_digit_ok:
  assumes "model_ok T m" "is_digit b" "number_type T \<Longrightarrow> tm_cursor m = 0 \<longrightarrow> take 1 (tm_text m) \<noteq> [0x2d]"
    "insert_bytes env m [b] = (r, m')"
  shows "model_ok T m' \<and> kept m m'"
proof -
  note d = digit_bytes [OF assms(2)]
  have s: "suits T (inserted m [b])"
  proof (cases "number_type T")
    case True
    with inserted_number [OF assms(1) True, of b] assms(2,3) d show ?thesis by (simp add: digit_separator)
  next
    case False
    with assms(1) inserted_phone [of m "[b]"] d inserted_nonzero [OF assms(1), of "[b]"] show ?thesis
      by (cases T) (auto simp: number_type_def suits_iff)
  qed
  have "valid_utf8 [b]" using d by (simp add: valid_utf8_ascii)
  from insert_ok [OF assms(1) this _ _ s _ assms(4)] d digit_separator [OF assms(2)] show ?thesis by auto
qed

lemma first_byte_conv: "take 1 bs = [b] \<longleftrightarrow> bs \<noteq> [] \<and> bs ! 0 = b"
  by (cases bs) auto

lemma skip_minus_ok:
  assumes "model_ok T m"
  shows "model_ok T (skip_minus m)" "kept m (skip_minus m)" "tm_text (skip_minus m) = tm_text m"
    "number_type T \<Longrightarrow> tm_cursor (skip_minus m) = 0 \<longrightarrow> take 1 (tm_text m) \<noteq> [0x2d]"
proof -
  show "model_ok T (skip_minus m)"
  proof (cases "tm_text m \<noteq> [] \<and> tm_text m ! 0 = 0x2d")
    case True
    then have "boundary (tm_text m) (Suc 0)"
      using assms by (intro boundary_after_ascii) (auto simp: model_ok_def text_ok_def)
    with assms show ?thesis by (simp add: skip_minus_def model_ok_cursor)
  next
    case False
    then show ?thesis using assms by (auto simp: skip_minus_def)
  qed
  show "kept m (skip_minus m)" "tm_text (skip_minus m) = tm_text m" by (simp_all add: skip_minus_def kept_def)
  show "number_type T \<Longrightarrow> tm_cursor (skip_minus m) = 0 \<longrightarrow> take 1 (tm_text m) \<noteq> [0x2d]"
    using model_ok_type [OF assms] unfolding first_byte_conv
    by (auto simp: skip_minus_def is_number_def number_type_def)
qed

lemma boundary_Cons: "boundary (b # bs) (Suc n) \<longleftrightarrow> boundary bs n"
  by (auto simp: boundary_def)

lemma toggle_minus_ok:
  assumes "model_ok T m" "number_type T"
  shows "model_ok T (toggle_minus env m) \<and> kept m (toggle_minus env m)"
proof (cases "tm_text m \<noteq> [] \<and> tm_text m ! 0 = 0x2d")
  case True
  then obtain rest where t: "tm_text m = 0x2d # rest" by (cases "tm_text m") auto
  have v: "valid_utf8 (tm_text m)" and b: "boundary (tm_text m) (tm_cursor m)"
    using assms(1) by (auto simp: model_ok_def text_ok_def)
  have "model_ok T (delete_range m 0 1)"
    using boundary_0 [OF v] boundary_after_ascii [OF v, of 0] t by (intro delete_ok [OF assms(1)]) auto
  moreover have "boundary rest (if tm_cursor m \<noteq> 0 then tm_cursor m - 1 else 0)"
  proof (cases "tm_cursor m")
    case 0
    then show ?thesis using v t by (simp add: boundary_0 valid_utf8_ascii_Cons)
  next
    case (Suc n)
    then show ?thesis using b t by (simp add: boundary_Cons)
  qed
  ultimately have "model_ok T ((delete_range m 0 1)\<lparr>tm_cursor := (if tm_cursor m \<noteq> 0 then tm_cursor m - 1 else 0)\<rparr>)"
    by (intro model_ok_cursor) (simp_all add: delete_range_def t)
  moreover have "toggle_minus env m = (delete_range m 0 1)\<lparr>tm_cursor := (if tm_cursor m \<noteq> 0 then tm_cursor m - 1 else 0)\<rparr>"
    using True by (simp add: toggle_minus_def)
  ultimately show ?thesis by (simp add: kept_def delete_range_def)
next
  case False
  let ?m0 = "m\<lparr>tm_cursor := 0\<rparr>"
  have v: "valid_utf8 (tm_text m)" and b: "boundary (tm_text m) (tm_cursor m)"
    using assms(1) by (auto simp: model_ok_def text_ok_def)
  have m0: "model_ok T ?m0" using assms(1) boundary_0 [OF v] by (rule model_ok_cursor)
  obtain r m' where i: "insert_bytes env ?m0 [0x2d] = (r, m')" by fastforce
  have "take 1 (tm_text ?m0) \<noteq> [0x2d]" using False unfolding first_byte_conv by simp
  then have s: "suits T (inserted ?m0 [0x2d])" using inserted_minus [OF m0 assms(2)] by simp
  have "valid_utf8 [0x2d]" by (rule valid_utf8_ascii) simp
  from insert_ok [OF m0 this _ _ s _ i]
  have k: "model_ok T m'" "kept ?m0 m'" "r \<Longrightarrow> tm_text m' = 0x2d # tm_text m" "\<not> r \<Longrightarrow> tm_text m' = tm_text m"
    by (auto simp: is_separator_def inserted_def)
  have "model_ok T (m'\<lparr>tm_cursor := (if r then tm_cursor m + 1 else tm_cursor m)\<rparr>)"
    using k(3,4) b by (intro model_ok_cursor [OF k(1)]) (auto simp: boundary_Cons)
  moreover have "toggle_minus env m = m'\<lparr>tm_cursor := (if r then tm_cursor m + 1 else tm_cursor m)\<rparr>"
    using False i by (auto simp: toggle_minus_def)
  ultimately show ?thesis using k(2) by (simp add: kept_def)
qed

lemma type_separator_ok:
  assumes "model_ok TEXT_DECIMAL m" "type_separator env m = (r, m')"
  shows "model_ok TEXT_DECIMAL m' \<and> kept m m'"
proof (cases "has_separator m")
  case True
  with assms show ?thesis by (simp add: type_separator_def)
next
  case False
  let ?m1 = "skip_minus m"
  note k = skip_minus_ok [OF assms(1)]
  have sep: "tm_separator ?m1 = tm_separator m" using k(2) by (simp add: kept_def)
  have s0: "is_separator (tm_separator m)" and only: "\<forall>b \<in> set (tm_text m). is_separator b \<longrightarrow> b = tm_separator m"
    using assms(1) by (auto simp: model_ok_def text_ok_def)
  have none: "filter is_separator (tm_text ?m1) = []"
    using only False k(3) by (auto simp: has_separator_def filter_empty_conv)
  have b: "unat (tm_separator m) < 128" "tm_separator m \<noteq> 0" "tm_separator m \<noteq> 0x0a"
    using s0 by (auto simp: is_separator_def)
  have s: "suits TEXT_DECIMAL (inserted ?m1 [tm_separator m])"
    by (rule inserted_number [OF k(1)]) (use s0 none k(3,4) b in \<open>simp_all add: number_type_def\<close>)
  have i: "insert_bytes env ?m1 [tm_separator m] = (r, m')"
    using assms(2) False by (simp add: type_separator_def sep)
  have "valid_utf8 [tm_separator m]" using b by (simp add: valid_utf8_ascii)
  from insert_ok [OF k(1) this _ _ s _ i] b k(2) sep show ?thesis by (auto intro: kept_trans)
qed

lemma decimal_star_ok:
  assumes "model_ok TEXT_DECIMAL m"
  shows "model_ok TEXT_DECIMAL (decimal_star env m now) \<and> kept m (decimal_star env m now)"
proof -
  let ?m1 = "m\<lparr>tm_separator_typed := False\<rparr>"
  let ?again = "tm_separator_typed m \<and> tm_separator_revision m = tm_revision m \<and>
                   now < tm_separator_ms m + COMMIT_MS \<and> tm_cursor m \<noteq> 0 \<and>
                   tm_text m ! (tm_cursor m - 1) = tm_separator m"
  have m1: "model_ok TEXT_DECIMAL ?m1" "kept m ?m1" using assms by (simp_all add: kept_def)
  consider "?again" | "\<not> ?again" "has_separator ?m1" | "\<not> ?again" "\<not> has_separator ?m1" by blast
  then show ?thesis
  proof cases
    case 1
    have b: "boundary (tm_text m) (tm_cursor m)" and s: "is_separator (tm_separator m)"
      using assms by (auto simp: model_ok_def text_ok_def)
    then have "boundary (tm_text m) (tm_cursor m - 1)"
      using 1 by (auto simp: boundary_def is_separator_def cont_ge)
    with b have d: "model_ok TEXT_DECIMAL (delete_range ?m1 (tm_cursor m - 1) (tm_cursor m))"
      by (intro delete_ok m1) auto
    have "decimal_star env m now = toggle_minus env (delete_range ?m1 (tm_cursor m - 1) (tm_cursor m))"
      using 1 by (simp add: decimal_star_def)
    moreover have "kept m (delete_range ?m1 (tm_cursor m - 1) (tm_cursor m))" by (simp add: kept_def delete_range_def)
    ultimately show ?thesis using toggle_minus_ok [OF d] kept_trans by (auto simp: number_type_def)
  next
    case 2
    then have "decimal_star env m now = toggle_minus env ?m1" unfolding decimal_star_def Let_def by auto
    then show ?thesis using toggle_minus_ok [OF m1(1)] m1(2) kept_trans by (auto simp: number_type_def)
  next
    case 3
    obtain r m2 where t: "type_separator env ?m1 = (r, m2)" by fastforce
    have "decimal_star env m now = (if r then m2\<lparr>tm_separator_typed := True,
        tm_separator_revision := tm_revision m2 + 1, tm_separator_ms := now\<rparr> else m2)"
      using 3 t unfolding decimal_star_def Let_def by auto
    with type_separator_ok [OF m1(1) t] m1(2) show ?thesis by (auto simp: kept_def)
  qed
qed

subsection \<open>The field as the owner of the text\<close>

lemma emit_character_ok:
  assumes "good_env env" "model_ok T m" "T = TEXT_ANY \<or> ti_numeric (tm_input m)" "typed_char T c"
  shows "model_ok T (snd (emit_character env m c)) \<and> kept m (snd (emit_character env m c))"
proof -
  let ?bs = "fplinux_text_input_encode_utf8 (apply_case env m c)"
  obtain r m' where i: "insert_bytes env m ?bs = (r, m')" by fastforce
  have T: "T = TEXT_ANY \<or> T = TEXT_PHONE" using assms(4) by (cases T) (auto simp: typed_char_def)
  have "0 \<notin> set ?bs \<and> 0x0a \<notin> set ?bs \<and> suits T (inserted m ?bs)"
  proof (cases "T = TEXT_ANY")
    case True
    with assms have "is_plain (apply_case env m c)" by (simp add: typed_char_def apply_case_plain)
    then have z: "0 \<notin> set ?bs \<and> 0x0a \<notin> set ?bs" using plain_bytes by blast
    with True suits_iff(1) [OF inserted_nonzero [OF assms(2), of ?bs]] show ?thesis by simp
  next
    case False
    with T have P: "T = TEXT_PHONE" by simp
    with assms(3,4) False have bs: "?bs \<in> {[0x2a], [0x2b], [0x70], [0x77]}"
      by (auto simp: typed_char_def apply_case_numeric fplinux_text_input_encode_utf8_def)
    then have "0 \<notin> set ?bs \<and> 0x0a \<notin> set ?bs \<and> set ?bs \<subseteq> set phone_bytes" by (auto simp: phone_bytes_def)
    with inserted_phone [of m ?bs] assms(2) P show ?thesis by simp
  qed
  moreover from this have "model_ok T m' \<and> kept m m'"
    using insert_ok [OF assms(2) valid_utf8_encode _ _ _ _ i] T by auto
  moreover have "snd (emit_character env m c) = m'"
    using i by (cases r) (simp_all add: emit_character_def)
  ultimately show ?thesis by simp
qed

lemma delete_backward_ok:
  assumes "model_ok T m"
  shows "model_ok T (delete_backward m)"
    "tm_input (delete_backward m) \<in> {tm_input m, fplinux_text_input_cancel (tm_input m)}"
    "tm_phone_zero_held (delete_backward m) \<Longrightarrow> tm_phone_zero_held m"
proof -
  have b: "valid_utf8 (tm_text m)" "boundary (tm_text m) (tm_cursor m)"
    using assms by (auto simp: model_ok_def text_ok_def)
  have "model_ok T (delete_range m (previous_boundary (tm_text m) (tm_cursor m)) (tm_cursor m))"
    using previous_boundary [OF b(1) boundary_le [OF b(2)]] previous_boundary_le
    by (intro delete_ok [OF assms _ b(2)])
  then show "model_ok T (delete_backward m)"
    using assms by (simp add: delete_backward_def cancel_pending_def)
  show "tm_input (delete_backward m) \<in> {tm_input m, fplinux_text_input_cancel (tm_input m)}"
    "tm_phone_zero_held (delete_backward m) \<Longrightarrow> tm_phone_zero_held m"
    by (auto simp: delete_backward_def cancel_pending_def delete_range_def split: if_split_asm)
qed

lemma erase_for_cancels: "erase_cancels erase_for"
  by (auto simp: erase_cancels_def erase_for_def erase_character_def Let_def delete_backward_def cancel_pending_def
      delete_range_def)

text \<open>A field that works with the library functions of \<open>env\<close>.\<close>

locale text_field =
  fixes env :: text_env
  assumes towupper_plain: "good_env env"

sublocale text_field \<subseteq> client: input_client "emit_for env" erase_for "model_ok T" "T = TEXT_ANY" "typed_char T"
  for T
proof
  fix T ctx character and i :: fplinux_text_input
  assume "model_ok T ctx" "T = TEXT_ANY \<or> ti_numeric i" "typed_char T character"
  then show "model_ok T (snd (emit_for env i ctx character))"
    using emit_character_ok [OF towupper_plain, of T "ctx\<lparr>tm_input := i\<rparr>" character] by (simp add: emit_for_def)
next
  fix T ctx and i :: fplinux_text_input
  assume "model_ok T ctx"
  then show "model_ok T (snd (snd (erase_for i ctx)))"
    using delete_backward_ok(1) [of T "ctx\<lparr>tm_input := i\<rparr>"]
    by (simp add: erase_for_def erase_character_def Let_def)
qed (simp_all add: erase_for_cancels typed_char_def)

text \<open>In the C locale \<^verbatim>\<open>towupper\<close> changes no character above ASCII.\<close>

definition c_locale_env :: "(nat \<Rightarrow> nat \<Rightarrow> bool) \<Rightarrow> bool \<Rightarrow> text_env" where
  "c_locale_env alloc wide = \<lparr> te_towupper = id, te_alloc = alloc, te_wide = wide \<rparr>"

interpretation c_locale: text_field "c_locale_env alloc wide"
  by unfold_locales (simp add: c_locale_env_def good_env_def)

subsection \<open>The invariant of the whole field\<close>

definition field_inv :: "fplinux_ui_text_model_type \<Rightarrow> fplinux_ui_text_model \<Rightarrow> bool" where
  "field_inv T m \<longleftrightarrow> model_ok T m \<and> input_ok (T = TEXT_ANY) (typed_char T) (tm_input m) \<and>
     (T = TEXT_PHONE \<longrightarrow> mt_language (ti_compose (tm_input m)) = Some phone_star)"

lemma field_inv_frame [simp]:
  "field_inv T (m\<lparr>tm_dirty := d\<rparr>) = field_inv T m"
  "field_inv T (m\<lparr>tm_separator_typed := b\<rparr>) = field_inv T m"
  "field_inv T (m\<lparr>tm_separator_revision := n\<rparr>) = field_inv T m"
  "field_inv T (m\<lparr>tm_separator_ms := t\<rparr>) = field_inv T m"
  "field_inv T (m\<lparr>tm_revision := n\<rparr>) = field_inv T m"
  "field_inv T (m\<lparr>tm_focused := b\<rparr>) = field_inv T m"
  "field_inv T (m\<lparr>tm_read_only := b\<rparr>) = field_inv T m"
  "field_inv T (m\<lparr>tm_password := b\<rparr>) = field_inv T m"
  "field_inv T (m\<lparr>tm_phone_zero_ms := t\<rparr>) = field_inv T m"
  by (simp_all add: field_inv_def)

lemma field_inv_not_held [simp]: "field_inv T m \<Longrightarrow> field_inv T (m\<lparr>tm_phone_zero_held := False\<rparr>)"
  by (simp add: field_inv_def)

lemma field_inv_type: "field_inv T m \<Longrightarrow> tm_type m = T"
  by (simp add: field_inv_def model_ok_def)

lemma field_inv_kept: "field_inv T m \<Longrightarrow> model_ok T m' \<Longrightarrow> kept m m' \<Longrightarrow> field_inv T m'"
  by (simp add: field_inv_def kept_def)

lemma field_inv_input:
  assumes "field_inv T m" "input_ok (T = TEXT_ANY) (typed_char T) i"
    "T = TEXT_PHONE \<longrightarrow> mt_language (ti_compose i) = mt_language (ti_compose (tm_input m))"
  shows "field_inv T (m\<lparr>tm_input := i\<rparr>)"
  using assms by (simp add: field_inv_def)

lemma field_inv_cancel_held [simp]:
  "field_inv T m \<Longrightarrow> field_inv T (m\<lparr>tm_input := fplinux_text_input_cancel_held (tm_input m)\<rparr>)"
  by (rule field_inv_input) (auto simp: field_inv_def cancel_held_ok, simp add: fplinux_text_input_cancel_held_def)

lemma field_inv_cancel [simp]:
  "field_inv T m \<Longrightarrow> field_inv T (m\<lparr>tm_input := fplinux_text_input_cancel (tm_input m)\<rparr>)"
  by (rule field_inv_input) (auto simp: field_inv_def cancel_input_ok, simp add: fplinux_text_input_cancel_def)

lemma cancel_pending_inv [simp]: "field_inv T m \<Longrightarrow> field_inv T (cancel_pending m)"
  using field_inv_cancel [OF field_inv_not_held, of T m] by (simp add: cancel_pending_def)

lemma reserve_inv: "field_inv T m \<Longrightarrow> reserve env m n = (r, m') \<Longrightarrow> field_inv T m'"
  by (erule reserve_cases) (simp add: field_inv_def model_ok_capacity del: model_ok_frame(8))

lemma put_input_inv:
  assumes "input_ok (T = TEXT_ANY) (typed_char T) i" "model_ok T m"
    "T = TEXT_ANY \<or> mt_language (ti_compose i) = mt_language (ti_compose (tm_input m0))" "field_inv T m0"
  shows "field_inv T (put_input (r, i, m))"
  using assms by (auto simp: field_inv_def put_input_def)

lemma typed_map: "language_ok (typed_char TEXT_PHONE) phone_star"
  by code_simp

lemma phone_language: "field_inv TEXT_PHONE m \<Longrightarrow> language_in (typed_char TEXT_PHONE) (ti_compose (tm_input m))"
  using typed_map by (simp add: field_inv_def language_in_def)

lemma move_cursor_inv:
  "field_inv T m \<Longrightarrow> boundary (tm_text m) c \<Longrightarrow> field_inv T (move_cursor m c)"
  by (simp add: move_cursor_def field_inv_def model_ok_cursor)

lemma field_inv_text: "field_inv T m \<Longrightarrow> valid_utf8 (tm_text m) \<and> boundary (tm_text m) (tm_cursor m) \<and> tm_cursor m \<le> length (tm_text m)"
  by (auto simp: field_inv_def model_ok_def text_ok_def dest: boundary_le)

lemma move_left_inv:
  "field_inv T m \<Longrightarrow> field_inv T (move_cursor m (previous_boundary (tm_text m) (tm_cursor m)))"
  using field_inv_text by (blast intro: move_cursor_inv previous_boundary)

lemma move_right_inv:
  "field_inv T m \<Longrightarrow> field_inv T (move_cursor m (next_boundary (tm_text m) (length (tm_text m)) (tm_cursor m)))"
  by (intro move_cursor_inv next_boundary)

lemma move_to_line_edge_inv: "field_inv T m \<Longrightarrow> field_inv T (move_to_line_edge m to_end)"
  unfolding move_to_line_edge_def using field_inv_text
  by (cases to_end) (auto intro!: move_cursor_inv line_end_boundary line_start_boundary)

lemma kept_delete [simp]: "kept m (delete_range m a b)"
  by (simp add: kept_def delete_range_def)

lemma field_inv_model: "field_inv T m \<Longrightarrow> model_ok T m"
  by (simp add: field_inv_def)

lemma delete_inv:
  "field_inv T m \<Longrightarrow> boundary (tm_text m) a \<Longrightarrow> boundary (tm_text m) b \<Longrightarrow> a \<le> b \<Longrightarrow> field_inv T (delete_range m a b)"
  by (rule field_inv_kept [of T m]) (auto simp: field_inv_def delete_ok)

lemma delete_forward_inv: "field_inv T m \<Longrightarrow> field_inv T (delete_forward m)"
  using field_inv_text [of T m] next_boundary_ge [of "tm_cursor m" "tm_text m"]
  by (auto simp: delete_forward_def intro!: delete_inv next_boundary)

lemma delete_backward_inv: "field_inv T m \<Longrightarrow> field_inv T (delete_backward m)"
  using field_inv_text [of T m] previous_boundary_le
  by (auto simp: delete_backward_def intro!: delete_inv previous_boundary)

lemma insert_inv:
  assumes "field_inv T m" "valid_utf8 bs" "0 \<notin> set bs" "tm_multiline m \<or> 0x0a \<notin> set bs"
    "suits T (inserted m bs)" "T = TEXT_DECIMAL \<longrightarrow> (\<forall>b \<in> set bs. is_separator b \<longrightarrow> b = tm_separator m)"
  shows "field_inv T (snd (insert_bytes env m bs))"
proof -
  obtain r m' where i: "insert_bytes env m bs = (r, m')" by fastforce
  have "model_ok T m" using assms(1) by (simp add: field_inv_def)
  from insert_ok [OF this assms(2-6) i] field_inv_kept [OF assms(1)] i show ?thesis by auto
qed

lemma insert_any_inv:
  assumes "field_inv TEXT_ANY m" "valid_utf8 bs" "0 \<notin> set bs" "tm_multiline m \<or> 0x0a \<notin> set bs"
  shows "field_inv TEXT_ANY (snd (insert_bytes env m bs))"
proof -
  have "0 \<notin> set (inserted m bs)" using assms(1,3) by (intro inserted_nonzero) (auto simp: field_inv_def)
  then show ?thesis using assms by (intro insert_inv) (auto simp: suits_iff)
qed

lemma insert_phone_inv:
  assumes "field_inv TEXT_PHONE m" "b \<in> set phone_bytes"
  shows "field_inv TEXT_PHONE (snd (insert_bytes env m [b]))"
proof -
  have b: "b \<noteq> 0 \<and> b \<noteq> 0x0a \<and> unat b < 128" using assms(2) by (auto simp: phone_bytes_def)
  have "model_ok TEXT_PHONE m" using assms(1) by (simp add: field_inv_def)
  from inserted_phone [OF this, of "[b]"] b assms show ?thesis
    by (intro insert_inv) (auto intro: valid_utf8_ascii)
qed

lemma hold_plus_ok:
  assumes "model_ok TEXT_PHONE m"
  shows "model_ok TEXT_PHONE (hold_plus m) \<and> kept m (hold_plus m)"
proof (cases "tm_cursor m = 0 \<or> tm_text m ! (tm_cursor m - 1) \<noteq> 0x30")
  case False
  then obtain i where i: "tm_cursor m = Suc i" "tm_text m ! i = 0x30" by (cases "tm_cursor m") auto
  let ?t = "tm_text m" and ?n = "(tm_text m)[i := 0x2b]"
  have t: "valid_utf8 ?t" "0 \<notin> set ?t" "boundary ?t (Suc i)" "i < length ?t"
    using assms i by (auto simp: model_ok_def text_ok_def dest: boundary_le)
  have sp: "?t = take i ?t @ 0x30 # drop (Suc i) ?t" "?n = take i ?t @ 0x2b # drop (Suc i) ?t"
    using t(4) i(2) id_take_nth_drop [of i ?t] upd_conv_take_nth_drop [of i ?t] by simp_all
  have "boundary ?t i" using t(4) i(2) by (simp add: boundary_def cont_ge)
  then have "valid_utf8 (take i ?t)" "valid_utf8 (drop (Suc i) ?t)" using boundary_split t(1,3) by blast+
  then have 1: "valid_utf8 ?n" unfolding sp(2) by (intro valid_utf8_append) (simp_all add: valid_utf8_ascii_Cons)
  have 2: "boundary ?n (Suc i)" using t(3) by (simp add: boundary_def)
  have 3: "length (filter (\<lambda>b. \<not> is_continuation b) ?n) = length (filter (\<lambda>b. \<not> is_continuation b) ?t)"
    by (subst (2) sp(1), subst sp(2)) (simp add: cont_ge)
  have 4: "set ?n \<subseteq> insert 0x2b (set ?t)" by (rule set_update_subset_insert)
  have "suits TEXT_PHONE ?t" by (rule model_suits [OF assms])
  then have "set ?t \<subseteq> set phone_bytes" using suits_iff(2) [OF t(2)] by simp
  moreover have "0x2b \<in> set phone_bytes" by (simp add: phone_bytes_def)
  moreover have "0 \<notin> set ?n" using 4 t(2) by auto
  ultimately have 5: "suits TEXT_PHONE ?n" using 4 suits_iff(2) [of ?n] by blast
  have "hold_plus m = m\<lparr>tm_text := ?n, tm_dirty := True\<rparr>" using False i by (simp add: hold_plus_def)
  moreover have "model_ok TEXT_PHONE (m\<lparr>tm_text := ?n\<rparr>)"
    using 1 2 3 4 5 assms t(2) i(1)
    by (auto simp: model_ok_def text_ok_def memory_ok_def fits_def count_characters_def)
  ultimately show ?thesis by (simp add: kept_def)
qed (use assms in \<open>simp add: hold_plus_def\<close>)

lemma hold_phone_zero_inv: "field_inv T m \<Longrightarrow> field_inv T (hold_phone_zero m now)"
proof (cases "\<not> tm_phone_zero_held m \<or> now < tm_phone_zero_ms m + HOLD_MS")
  case False
  assume f: "field_inv T m"
  let ?m = "m\<lparr>tm_phone_zero_held := False\<rparr>"
  have "T = TEXT_PHONE" using f False by (simp add: field_inv_def model_ok_def)
  moreover have "field_inv T ?m" using f by simp
  ultimately show ?thesis
    using hold_plus_ok [of ?m] field_inv_kept [of T ?m "hold_plus ?m"] False
    by (simp add: hold_phone_zero_def field_inv_def)
qed (simp add: hold_phone_zero_def)

lemma move_picker_inv: "field_inv T m \<Longrightarrow> field_inv T (snd (move_picker m code))"
  using move_picker_input_ok [of "T = TEXT_ANY" "typed_char T" "tm_input m"]
  by (auto simp: move_picker_def field_inv_def fplinux_text_input_move_picker_def Let_def split: option.split)

lemma toggle_minus_inv: "field_inv T m \<Longrightarrow> number_type T \<Longrightarrow> field_inv T (toggle_minus env m)"
  by (rule field_inv_kept) (use toggle_minus_ok [OF field_inv_model] in auto)

lemma type_separator_inv: "field_inv TEXT_DECIMAL m \<Longrightarrow> field_inv TEXT_DECIMAL (snd (type_separator env m))"
  using type_separator_ok [of m env] field_inv_kept [of TEXT_DECIMAL m]
  by (cases "type_separator env m") (auto simp: field_inv_def)

lemma decimal_star_inv: "field_inv TEXT_DECIMAL m \<Longrightarrow> field_inv TEXT_DECIMAL (decimal_star env m now)"
  by (rule field_inv_kept) (use decimal_star_ok [OF field_inv_model] in auto)

lemma insert_newline_inv: "field_inv T m \<Longrightarrow> field_inv T (snd (insert_newline env m))"
  using field_inv_type [of T m]
  by (auto simp: insert_newline_def fplinux_ui_text_model_takes_newline_def valid_utf8_ascii intro!: insert_any_inv)

lemma length_bullets [simp]: "length (put_bullets n) = 3 * n"
  by (simp add: put_bullets_def BULLET_def length_concat map_replicate_const sum_list_replicate)

lemma count_le: "count_characters bs n \<le> count_characters bs (length bs)"
  using filter_take_drop [of "\<lambda>b. \<not> is_continuation b" n bs] by (simp add: count_characters_def)

lemma length_pending: "length (pending_bytes env m) \<le> 4"
  by (simp add: pending_bytes_def fplinux_text_input_encode_utf8_def Let_def)

text \<open>Up to a capacity of \<open>2\<^sup>3\<^sup>0\<close> the size of the masked text does not wrap.\<close>

lemma masked_size_exact:
  assumes "model_ok T m" "length bs \<le> 4" "tm_capacity m \<le> 2 ^ 30"
  shows "(tm_characters m * length BULLET + length bs + 1) mod (te_size_max env + 1) = 3 * tm_characters m + length bs + 1"
proof -
  have "tm_characters m \<le> length (tm_text m)" "length (tm_text m) < tm_capacity m"
    using assms(1) by (simp_all add: model_ok_def text_ok_def memory_ok_def count_characters_def)
  then have "3 * tm_characters m + length bs + 1 < te_size_max env + 1"
    using assms(2,3) by (simp add: te_size_max_def)
  then show ?thesis by (simp add: BULLET_def mult.commute)
qed

lemma refresh_masked_ok:
  assumes "model_ok T m" "length bs \<le> 4"
  shows "model_ok T (refresh_masked env m bs) \<and> kept m (refresh_masked env m bs)"
proof -
  let ?b = "count_characters (tm_text m) (tm_cursor m)" and ?n = "tm_characters m"
  let ?dots = "put_bullets ?b @ bs @ put_bullets (?n - ?b)"
  let ?size = "(?n * length BULLET + length bs + 1) mod (te_size_max env + 1)"
  have "?b \<le> ?n" using assms count_le [of "tm_text m" "tm_cursor m"] by (simp add: model_ok_def text_ok_def)
  then have len: "length ?dots = 3 * ?n + length bs" by simp
  have set_masked: "model_ok T (m\<lparr>tm_masked := x, tm_masked_capacity := c\<rparr>)"
    "model_ok T (m\<lparr>tm_requests := q, tm_masked := x, tm_masked_capacity := c\<rparr>)"
    if "tm_capacity m \<le> 2 ^ 30 \<Longrightarrow> masked_fits x c" for x c q
    using assms that by (auto simp: model_ok_def text_ok_def memory_ok_def fits_def)
  have fit: "masked_fits (Some ?dots) c" if "?size \<le> c" "tm_capacity m \<le> 2 ^ 30" for c
    using that masked_size_exact [OF assms that(2), of env] len by (simp add: masked_fits_def)
  have "model_ok T (m\<lparr>tm_masked := Some ?dots\<rparr>)" if "?size \<le> tm_masked_capacity m"
    using set_masked(1) [of "Some ?dots" "tm_masked_capacity m"] fit [OF that] by simp
  moreover have "model_ok T (m\<lparr>tm_requests := q, tm_masked := Some ?dots, tm_masked_capacity := ?size\<rparr>)" for q
    by (rule set_masked(2)) (use fit in simp)
  moreover have "masked_fits None 0" by (simp add: masked_fits_def)
  ultimately show ?thesis using set_masked [of None 0]
    by (auto simp: refresh_masked_def Let_def request_def kept_def not_less split: bool.split)
qed

text \<open>The shown text without the masking.\<close>

definition shown :: "text_env \<Rightarrow> fplinux_ui_text_model \<Rightarrow> bytes" where
  "shown env m = take (tm_cursor m) (tm_text m) @ pending_bytes env m @ drop (tm_cursor m) (tm_text m)"

definition drop_pending :: "text_env \<Rightarrow> fplinux_ui_text_model \<Rightarrow> fplinux_ui_text_model" where
  "drop_pending env m =
     (if pending_bytes env m = [] then m
      else case reserve env m (length (tm_text m) + length (pending_bytes env m)) of
        (True, m) \<Rightarrow> m
      | (False, m) \<Rightarrow> m\<lparr>tm_input := fplinux_text_input_cancel (tm_input m)\<rparr>)"

lemma pending_bytes_frame [simp]:
  "pending_bytes env (m\<lparr>tm_capacity := c\<rparr>) = pending_bytes env m"
  "pending_bytes env (m\<lparr>tm_requests := n\<rparr>) = pending_bytes env m"
  "pending_bytes env (m\<lparr>tm_display := d\<rparr>) = pending_bytes env m"
  "pending_bytes env (m\<lparr>tm_dirty := b\<rparr>) = pending_bytes env m"
  "pending_bytes env (m\<lparr>tm_revision := v\<rparr>) = pending_bytes env m"
  "pending_bytes env (m\<lparr>tm_masked := x\<rparr>) = pending_bytes env m"
  "pending_bytes env (m\<lparr>tm_masked_capacity := c\<rparr>) = pending_bytes env m"
  by (simp_all add: pending_bytes_def apply_case_def starts_sentence_def Let_def)

lemma cancel_not_pending_bytes [simp]:
  "pending_bytes env (m\<lparr>tm_input := fplinux_text_input_cancel i\<rparr>) = []"
  by (simp add: pending_bytes_def fplinux_text_input_cancel_def)

lemma refresh_display_eq:
  "refresh_display env m =
     (let m = drop_pending env m; m = m\<lparr>tm_display := shown env m\<rparr>
      in if tm_password m then refresh_masked env m (pending_bytes env m) else m)"
proof (cases "pending_bytes env m = []")
  case True
  then show ?thesis by (simp add: refresh_display_def drop_pending_def shown_def Let_def)
next
  case False
  obtain r m' where r: "reserve env m (length (tm_text m) + length (pending_bytes env m)) = (r, m')" by fastforce
  from reserve_cases [OF r] obtain cap req where "m' = m\<lparr>tm_capacity := cap, tm_requests := req\<rparr>" .
  with False r show ?thesis
    by (cases r) (simp_all add: refresh_display_def drop_pending_def shown_def Let_def)
qed

lemma drop_pending_ok:
  assumes "field_inv T m"
  shows "field_inv T (drop_pending env m) \<and> length (shown env (drop_pending env m)) < tm_capacity (drop_pending env m)"
proof -
  have c: "tm_cursor m \<le> length (tm_text m)" and l: "length (tm_text m) < tm_capacity m"
    using assms field_inv_text by (auto simp: field_inv_def model_ok_def memory_ok_def)
  show ?thesis
  proof (cases "pending_bytes env m = []")
    case True
    with assms c l show ?thesis by (simp add: drop_pending_def shown_def)
  next
    case False
    obtain r m' where r: "reserve env m (length (tm_text m) + length (pending_bytes env m)) = (r, m')" by fastforce
    from reserve_cases [OF r] obtain cap req where m': "m' = m\<lparr>tm_capacity := cap, tm_requests := req\<rparr>" "tm_capacity m \<le> cap"
      "r \<longrightarrow> length (tm_text m) + length (pending_bytes env m) < cap" .
    have f: "field_inv T m'" by (rule reserve_inv [OF assms r])
    with field_inv_cancel [OF f] False r m' c l show ?thesis
      by (cases r) (simp_all add: drop_pending_def shown_def)
  qed
qed

lemma finish_inv:
  assumes "field_inv T m"
  shows "field_inv T (finish_model env m)"
proof -
  let ?m1 = "drop_pending env m"
  let ?m2 = "?m1\<lparr>tm_display := shown env ?m1\<rparr>"
  note d = drop_pending_ok [OF assms, of env]
  have "model_ok T ?m2" using d by (auto simp: field_inv_def model_ok_def text_ok_def memory_ok_def fits_def)
  then have m2: "field_inv T ?m2" using d by (simp add: field_inv_def)
  have "field_inv T (refresh_masked env ?m2 bs)" if "length bs \<le> 4" for bs
    using field_inv_kept [OF m2] refresh_masked_ok [OF field_inv_model [OF m2] that] by blast
  with m2 length_pending have "field_inv T (refresh_display env m)" by (simp add: refresh_display_eq Let_def)
  then show ?thesis using assms by (simp add: finish_model_def Let_def)
qed

lemma set_consumed_inv: "field_inv T m \<Longrightarrow> field_inv T (set_consumed m keyboard code byte)"
proof -
  assume f: "field_inv T m"
  then obtain a b where c: "tm_consumed m = [a, b]" "length a = KEY_COUNT div 8" "length b = KEY_COUNT div 8"
    by (auto simp: field_inv_def model_ok_def memory_ok_def map_eq_Cons_conv)
  have "map length ((tm_consumed m)[of_bool keyboard := (tm_consumed m ! of_bool keyboard)[code div 8 := byte]]) =
      [KEY_COUNT div 8, KEY_COUNT div 8]"
    by (cases keyboard) (simp_all add: c)
  with f show ?thesis
    by (auto simp: set_consumed_def Let_def field_inv_def model_ok_def text_ok_def memory_ok_def fits_def)
qed

lemma replace_separator_facts:
  assumes "0 \<notin> set bs" "is_separator sep"
  shows "length (replace_separator sep bs) = length bs \<and>
    map is_continuation (replace_separator sep bs) = map is_continuation bs \<and>
    0 \<notin> set (replace_separator sep bs)"
  using assms(1)
proof (induction bs)
  case (Cons b bs)
  have "\<not> is_continuation sep" "\<not> is_continuation 0x2e" "\<not> is_continuation 0x2c" "sep \<noteq> 0"
    using assms(2) by (auto simp: is_separator_def cont_ge)
  with Cons show ?case by auto
qed simp

lemma number_replaced:
  assumes "0 \<notin> set bs" "is_separator sep" "number_ok True (strip_minus bs)"
  shows "number_ok True (strip_minus (replace_separator sep bs))"
    "\<forall>b \<in> set (replace_separator sep bs). is_separator b \<longrightarrow> b = sep"
proof -
  have m: "\<not> is_separator 0x2d" by (simp add: is_separator_def)
  have r: "number_ok True (replace_separator sep bs) \<and> (\<forall>b \<in> set (replace_separator sep bs). is_separator b \<longrightarrow> b = sep)"
    if "number_ok True bs" "0 \<notin> set bs" for bs
    using that
  proof (induction bs)
    case (Cons b bs)
    show ?case
    proof (cases "is_separator b")
      case True
      then have "filter is_separator bs = []" using Cons.prems(1) by (simp add: number_ok_def)
      moreover have "b \<noteq> 0" using Cons.prems(2) by auto
      ultimately show ?thesis using True Cons.prems assms(2)
        by (auto simp: number_ok_def is_separator_def [of b] filter_empty_conv)
    next
      case False
      with Cons show ?thesis by (auto simp: number_ok_def is_separator_def [of b])
    qed
  qed simp
  have "number_ok True (strip_minus (replace_separator sep bs)) \<and>
      (\<forall>b \<in> set (replace_separator sep bs). is_separator b \<longrightarrow> b = sep)"
  proof (cases "bs \<noteq> [] \<and> bs ! 0 = 0x2d")
    case True
    then obtain rest where bs: "bs = 0x2d # rest" by (cases bs) auto
    then have "replace_separator sep bs = 0x2d # replace_separator sep rest" by simp
    with r [of rest] assms bs m show ?thesis by auto
  next
    case False
    then have "strip_minus bs = bs" by (cases bs) auto
    with r [of bs] assms number_ok_strip show ?thesis by metis
  qed
  then show "number_ok True (strip_minus (replace_separator sep bs))"
    "\<forall>b \<in> set (replace_separator sep bs). is_separator b \<longrightarrow> b = sep" by auto
qed

lemma ascii_number: "number_ok d (strip_minus bs) \<Longrightarrow> valid_utf8 bs \<and> 0x0a \<notin> set bs"
proof -
  assume n: "number_ok d (strip_minus bs)"
  have "\<forall>b \<in> set (strip_minus bs). unat b < 128 \<and> b \<noteq> 0x0a"
    using n digit_bytes by (fastforce simp: number_ok_def list_all_iff is_separator_def)
  then have "\<forall>b \<in> set bs. unat b < 128 \<and> b \<noteq> 0x0a" by (cases bs) (auto simp: strip_minus_def split: if_split_asm)
  then show ?thesis by (auto intro: valid_utf8_ascii simp: list_all_iff)
qed

lemma model_ok_new_text:
  assumes "memory_ok m" "valid_utf8 bs" "0 \<notin> set bs" "fits m (count_characters bs (length bs))" "suits T bs"
    "tm_multiline m \<or> 0x0a \<notin> set bs" "T = TEXT_DECIMAL \<longrightarrow> is_separator (tm_separator m)"
    "length bs < tm_capacity m" "\<not> tm_phone_zero_held m" "tm_type m = T" "boundary bs c"
  shows "model_ok T ((use_separator (m\<lparr>tm_text := bs\<rparr>))
    \<lparr>tm_cursor := c, tm_characters := count_characters bs (length bs)\<rparr>)"
proof (cases "T = TEXT_DECIMAL")
  case False
  with assms show ?thesis
    by (auto simp: use_separator_def model_ok_def text_ok_def memory_ok_def fits_def)
next
  case True
  then have sep: "is_separator (tm_separator m)" using assms(7) by simp
  let ?n = "replace_separator (tm_separator m) bs"
  have f: "length ?n = length bs" "map is_continuation ?n = map is_continuation bs" "0 \<notin> set ?n"
    using replace_separator_facts [OF assms(3) sep] by simp_all
  have num: "number_ok True (strip_minus bs)" using assms(5) True suits_iff(4) [OF assms(3)] by simp
  note r = number_replaced [OF assms(3) sep num]
  have "count_characters ?n (length ?n) = count_characters bs (length bs)"
    using arg_cong [OF f(2), of "\<lambda>l. length (filter (\<lambda>x. \<not> x) l)"] unfolding count_all
    by (simp add: filter_map comp_def)
  moreover have "boundary ?n c"
    using assms(11) f(1,2) by (metis boundary_def nth_map)
  ultimately show ?thesis
    using assms True f(1,3) r ascii_number [OF r(1)] suits_iff(4) [OF f(3)] sep
    by (simp add: use_separator_def model_ok_def text_ok_def memory_ok_def fits_def)
qed

lemma emit_for_zero [simp]:
  "tm_phone_zero_held (snd (emit_for env i m c)) = tm_phone_zero_held m"
proof -
  let ?m = "m\<lparr>tm_input := i\<rparr>"
  let ?bs = "fplinux_text_input_encode_utf8 (apply_case env ?m c)"
  obtain r m' where b: "insert_bytes env ?m ?bs = (r, m')" by fastforce
  then have "tm_phone_zero_held m' = tm_phone_zero_held m" by (cases rule: insert_cases) auto
  with b show ?thesis by (cases r) (simp_all add: emit_for_def emit_character_def)
qed

lemma commit_zero:
  "tm_phone_zero_held (snd (snd (fplinux_text_input_commit i (Some (emit_for env)) m))) = tm_phone_zero_held m"
proof -
  let ?c = "fplinux_multitap_candidate (ti_compose i)"
  obtain r m' where e: "emit_for env i m ?c = (r, m')" by fastforce
  then have "tm_phone_zero_held m' = tm_phone_zero_held m" using emit_for_zero [of env i m ?c] by simp
  with e show ?thesis
    by (cases r) (simp_all add: fplinux_text_input_commit_def run_compose_def fplinux_multitap_commit_def emit_pending_def)
qed

lemma commit_pending_zero: "\<not> tm_phone_zero_held (commit_pending env m)"
proof -
  let ?m = "m\<lparr>tm_phone_zero_held := False, tm_input := fplinux_text_input_cancel_held (tm_input m)\<rparr>"
  have "\<not> tm_phone_zero_held (snd (snd (fplinux_text_input_commit (tm_input ?m) (Some (emit_for env)) ?m)))"
    unfolding commit_zero by simp
  then show ?thesis
    by (simp add: commit_pending_def Let_def put_input_def split_def)
qed

context text_field
begin

lemma commit_pending_inv: "field_inv T m \<Longrightarrow> field_inv T (commit_pending env m)"
proof -
  assume f: "field_inv T m"
  let ?m = "m\<lparr>tm_phone_zero_held := False, tm_input := fplinux_text_input_cancel_held (tm_input m)\<rparr>"
  have m: "field_inv T ?m" using field_inv_cancel_held [OF field_inv_not_held [OF f]] by simp
  obtain r i m' where c: "fplinux_text_input_commit (tm_input ?m) (Some (emit_for env)) ?m = (r, i, m')"
    by (cases "fplinux_text_input_commit (tm_input ?m) (Some (emit_for env)) ?m")
  have "input_ok (T = TEXT_ANY) (typed_char T) i \<and> model_ok T m' \<and>
      mt_language (ti_compose i) = mt_language (ti_compose (tm_input ?m))"
    using client.commit_keeps [OF _ _ c, of T] m by (simp add: field_inv_def)
  then have "field_inv T (put_input (r, i, m'))" using put_input_inv [of T i m' ?m r] m by simp
  with m c show ?thesis by (simp add: commit_pending_def Let_def)
qed

lemma press_multitap_inv:
  assumes "field_inv T m" "T = TEXT_ANY \<or> T = TEXT_PHONE \<and> \<not> hold"
  shows "field_inv T (snd (press_multitap env m key now hold))"
proof -
  let ?call = "if hold then fplinux_text_input_press (tm_input m) key now (Some (emit_for env)) m
             else fplinux_text_input_compose (tm_input m) key now (Some (emit_for env)) m"
  obtain r i m' where c: "?call = (r, i, m')" by (cases ?call)
  have m: "input_ok (T = TEXT_ANY) (typed_char T) (tm_input m)" "model_ok T m" using assms(1) by (simp_all add: field_inv_def)
  have "input_ok (T = TEXT_ANY) (typed_char T) i \<and> model_ok T m' \<and>
      (T = TEXT_ANY \<or> mt_language (ti_compose i) = mt_language (ti_compose (tm_input m)))"
  proof (cases hold)
    case True
    with assms(2) c client.input_press_keeps [OF m, of key now r i m'] show ?thesis by simp
  next
    case False
    have "language_in (typed_char T) (ti_compose (tm_input m))"
      using assms free_language [of "typed_char T" "tm_input m"] m(1) phone_language by (auto simp: typed_char_def)
    with False c client.compose_keeps [OF m, of key now r i m'] show ?thesis by simp
  qed
  then have p: "field_inv T ((put_input ?call)\<lparr>tm_dirty := True\<rparr>)"
    using put_input_inv [of T i m' m r] assms(1) unfolding c by simp
  define p1 where "p1 = (put_input ?call)\<lparr>tm_dirty := True\<rparr>"
  obtain r2 m2 where r2: "reserve env p1 (length (tm_text p1) + length (pending_bytes env p1)) = (r2, m2)" by fastforce
  have "field_inv T m2" using reserve_inv [OF _ r2] p by (simp add: p1_def)
  moreover have "press_multitap env m key now hold =
    (if \<not> fits p1 (tm_characters p1 + 1) then (False, cancel_pending p1) else if r2 then (True, m2) else (False, cancel_pending m2))"
    unfolding press_multitap_def Let_def p1_def [symmetric] using r2 by simp
  ultimately show ?thesis using p by (simp add: p1_def)
qed

lemma type_digit_inv:
  assumes "field_inv T m" "is_digit d"
  shows "field_inv T (type_digit env m code d now)"
proof -
  let ?m1 = "commit_pending env m"
  have m1: "field_inv T ?m1" by (rule commit_pending_inv [OF assms(1)])
  note k = skip_minus_ok [OF field_inv_model [OF m1]]
  obtain r m2 where i: "insert_bytes env (skip_minus ?m1) [d] = (r, m2)" by fastforce
  have m2: "field_inv T m2"
    using insert_digit_ok [OF k(1) assms(2) _ i] k m1 field_inv_kept kept_trans by metis
  have "field_inv T (m2\<lparr>tm_phone_zero_held := True, tm_phone_zero_ms := now\<rparr>)" if "tm_type m2 = TEXT_PHONE"
    using m2 that field_inv_type [OF m2] by (simp add: field_inv_def model_ok_zero_held)
  with m2 i show ?thesis by (cases r) (simp_all add: type_digit_def Let_def)
qed

lemma close_picker_inv:
  assumes "field_inv T m" "ti_picker_open (tm_input m)"
  shows "field_inv T (close_picker env m ins)"
proof (cases ins)
  case True
  obtain r i m' where c: "fplinux_text_input_select_symbol (tm_input m) (emit_for env) m = (r, i, m')"
    by (cases "fplinux_text_input_select_symbol (tm_input m) (emit_for env) m")
  have T: "T = TEXT_ANY" using assms by (auto simp: field_inv_def input_ok_def modes_ok_def)
  have "input_ok (T = TEXT_ANY) (typed_char T) i \<and> model_ok T m'"
    using client.select_symbol_keeps [OF _ _ assms(2) c, of T] assms(1) by (simp add: field_inv_def)
  then have "field_inv T (put_input (r, i, m'))" using put_input_inv [of T i m' m r] assms(1) T by simp
  with True c show ?thesis by (simp add: close_picker_def)
next
  case False
  have "field_inv T (m\<lparr>tm_input := fplinux_text_input_close_picker (tm_input m)\<rparr>)"
    using assms(1) by (intro field_inv_input)
      (auto simp: field_inv_def close_picker_ok, simp add: fplinux_text_input_close_picker_def)
  with False show ?thesis by (simp add: close_picker_def)
qed

lemma move_picker_other: "move_picker m code = (False, m') \<Longrightarrow> m' = m"
  by (auto simp: move_picker_def split: option.split_asm)

lemma picker_phone_key_inv:
  assumes "field_inv T m" "ti_picker_open (tm_input m)"
  shows "field_inv T (snd (picker_phone_key env m code))"
proof -
  obtain r m' where p: "move_picker m code = (r, m')" by fastforce
  have "field_inv T m'" using move_picker_inv [OF assms(1), of code] p by simp
  moreover have "\<not> r \<Longrightarrow> m' = m" using p move_picker_other by (cases r) auto
  ultimately show ?thesis
    using p assms by (cases r) (auto simp: picker_phone_key_def intro!: close_picker_inv)
qed

lemma phone_command_inv:
  assumes "field_inv T m" "code = KEY_NUMERIC_STAR \<longrightarrow> number_type T"
  shows "field_inv T (snd (phone_command env m code now))"
proof -
  let ?m = "commit_pending env m"
  have m: "field_inv T ?m" by (rule commit_pending_inv [OF assms(1)])
  have ty: "tm_type ?m = T" by (rule field_inv_type [OF m])
  have "0x23 \<in> set phone_bytes" by (simp add: phone_bytes_def)
  then have pound: "T = TEXT_PHONE \<Longrightarrow> field_inv T (snd (insert_bytes env ?m [0x23]))"
    using insert_phone_inv m by blast
  have star: "number_type T \<Longrightarrow> field_inv T (if tm_type ?m = TEXT_NUMERIC then toggle_minus env ?m else decimal_star env ?m now)"
    using toggle_minus_inv [OF m] decimal_star_inv m by (auto simp: ty number_type_def)
  show ?thesis
    unfolding phone_command_def Let_def
    using assms(2) m pound star move_left_inv [OF m] move_right_inv [OF m] insert_newline_inv [OF m] by (auto simp: ty)
qed

lemma clear_press_inv:
  assumes "field_inv T m"
  shows "field_inv T (put_input (fplinux_text_input_clear_press (tm_input m) now erase_for m))"
proof -
  obtain r i m' where c: "fplinux_text_input_clear_press (tm_input m) now erase_for m = (r, i, m')"
    by (cases "fplinux_text_input_clear_press (tm_input m) now erase_for m")
  have "input_ok (T = TEXT_ANY) (typed_char T) i \<and> model_ok T m' \<and>
      mt_language (ti_compose i) = mt_language (ti_compose (tm_input m))"
    using client.clear_press_keeps [OF _ _ c, of T] assms by (simp add: field_inv_def)
  then show ?thesis using put_input_inv [of T i m' m r] assms c by simp
qed

lemma press_control_inv:
  assumes "field_inv TEXT_ANY m"
  shows "field_inv TEXT_ANY (put_input (fplinux_text_input_press (tm_input m) k now (Some (emit_for env)) m))"
proof -
  obtain r i m' where c: "fplinux_text_input_press (tm_input m) k now (Some (emit_for env)) m = (r, i, m')"
    by (cases "fplinux_text_input_press (tm_input m) k now (Some (emit_for env)) m")
  have "input_ok True (typed_char TEXT_ANY) i \<and> model_ok TEXT_ANY m'"
    using client.input_press_keeps [of TEXT_ANY, OF _ _ _ c] assms by (simp add: field_inv_def)
  then show ?thesis using put_input_inv [of TEXT_ANY i m' m r] assms c by simp
qed

lemma key_digit: "KEY_NUMERIC_0 \<le> code \<Longrightarrow> code \<le> KEY_NUMERIC_9 \<Longrightarrow> is_digit (of_nat (0x30 + code - KEY_NUMERIC_0))"
proof -
  assume a: "KEY_NUMERIC_0 \<le> code" "code \<le> KEY_NUMERIC_9"
  define n where "n = 0x30 + code - KEY_NUMERIC_0"
  have "0x30 \<le> n" "n \<le> 0x39" using a by (simp_all add: n_def key_codes)
  then have "is_digit (of_nat n)" by (simp add: is_digit_def word_le_nat_alt unat_of_nat)
  then show ?thesis by (simp only: n_def)
qed

lemma phone_key_inv:
  assumes "field_inv T m"
  shows "field_inv T (snd (phone_key env m code now))"
proof -
  have ty: "tm_type m = T" by (rule field_inv_type [OF assms])
  have held: "field_inv T (m\<lparr>tm_input := fplinux_text_input_cancel_held (tm_input m), tm_phone_zero_held := False\<rparr>)"
    using assms by simp
  have star: "field_inv T (m\<lparr>tm_input := (tm_input m)\<lparr>ti_held_digit := 0\<rparr>, tm_phone_zero_held := False\<rparr>)"
    by (intro field_inv_not_held field_inv_input [OF assms]) (use assms in \<open>simp_all add: field_inv_def\<close>)
  have num: "\<not> ti_numeric (tm_input m) \<Longrightarrow> T = TEXT_ANY"
    using assms by (auto simp: field_inv_def input_ok_def modes_ok_def)
  consider "ti_picker_open (tm_input m)"
    | "\<not> ti_picker_open (tm_input m)" "T = TEXT_ANY" "code = KEY_NUMERIC_POUND \<or> code = KEY_NUMERIC_STAR"
    | "\<not> ti_picker_open (tm_input m)" "KEY_NUMERIC_0 \<le> code" "code \<le> KEY_NUMERIC_9"
    | "\<not> ti_picker_open (tm_input m)" "code = KEY_NUMERIC_STAR" "T = TEXT_PHONE"
    | "\<not> ti_picker_open (tm_input m)" "code = KEY_F14"
    | "\<not> ti_picker_open (tm_input m)" "\<not> (T = TEXT_ANY \<and> (code = KEY_NUMERIC_POUND \<or> code = KEY_NUMERIC_STAR))"
      "\<not> (KEY_NUMERIC_0 \<le> code \<and> code \<le> KEY_NUMERIC_9)" "\<not> (code = KEY_NUMERIC_STAR \<and> T = TEXT_PHONE)" "code \<noteq> KEY_F14"
    by blast
  then show ?thesis
  proof cases
    case 1
    then show ?thesis using picker_phone_key_inv [OF assms] by (simp add: phone_key_def)
  next
    case 2
    then show ?thesis using press_control_inv assms by (auto simp: phone_key_def ty)
  next
    case 3
    then show ?thesis
      using type_digit_inv [OF assms key_digit [OF 3(2,3)]] press_multitap_inv [OF assms, of True] num
      by (auto simp: phone_key_def ty Let_def key_codes)
  next
    case 4
    then show ?thesis using press_multitap_inv [OF star, of False] by (simp add: phone_key_def ty key_codes)
  next
    case 5
    then show ?thesis using held clear_press_inv [OF held]
      by (simp add: phone_key_def ty Let_def key_codes)
  next
    case 6
    have "code = KEY_NUMERIC_STAR \<longrightarrow> number_type T" using 6 by (cases T) (auto simp: number_type_def)
    moreover have "phone_key env m code now = phone_command env m code now"
      unfolding phone_key_def ty if_not_P [OF 6(1)] if_not_P [OF 6(2)] if_not_P [OF 6(3)] if_not_P [OF 6(4)]
        if_not_P [OF 6(5)] by simp
    ultimately show ?thesis using phone_command_inv [OF assms, of code now] by simp
  qed
qed

lemma typed_text_inv:
  assumes "field_inv T m" "T \<noteq> TEXT_ANY" "bs \<noteq> []"
  shows "field_inv T (snd (typed_text env m bs))"
proof -
  define c where "c = (if length bs > 1 then 0 else bs ! 0)"
  have ty: "tm_type m = T" by (rule field_inv_type [OF assms(1)])
  have single: "c \<noteq> 0 \<Longrightarrow> take 1 bs = [c]" using assms(3) by (cases bs) (auto simp: c_def split: if_split_asm)
  have num: "is_number m \<longleftrightarrow> number_type T" by (simp add: is_number_def number_type_def ty)
  note k = skip_minus_ok [OF field_inv_model [OF assms(1)]]
  have digit: "field_inv T (snd (insert_bytes env (skip_minus m) (take 1 bs)))" if "0x30 \<le> c" "c \<le> 0x39"
  proof -
    have d: "is_digit c" "c \<noteq> 0" using that by (auto simp: is_digit_def)
    obtain r m2 where i: "insert_bytes env (skip_minus m) [c] = (r, m2)" by fastforce
    have "field_inv T m2"
      using insert_digit_ok [OF k(1) d(1) _ i] k assms(1) field_inv_kept kept_trans by metis
    with i single d show ?thesis by simp
  qed
  have phone: "field_inv T (snd (insert_bytes env m [if c = 0x50 then 0x70 else if c = 0x57 then 0x77 else c]))"
    if "T = TEXT_PHONE" "c \<in> set (bytes_of ''+*#pPwW'')"
    using that assms(1) by (auto simp: phone_bytes_def intro!: insert_phone_inv)
  show ?thesis
    unfolding typed_text_def Let_def c_def [symmetric] num ty
    using assms(1) digit phone toggle_minus_inv [OF assms(1)] type_separator_inv [of m] by auto
qed

lemma printable_bytes: "is_printable (Some bs) \<Longrightarrow> bs \<noteq> [] \<and> 0 \<notin> set bs \<and> 0x0a \<notin> set bs"
  by (auto simp: is_printable_def list_all_iff)

lemma keyboard_command_inv:
  assumes "field_inv T m" "case tk_text key of None \<Rightarrow> True | Some bs \<Rightarrow> valid_utf8 bs"
  shows "field_inv T (snd (keyboard_command env m key))"
proof -
  let ?m = "commit_pending env m"
  have m: "field_inv T ?m" by (rule commit_pending_inv [OF assms(1)])
  have ty: "tm_type ?m = T" by (rule field_inv_type [OF m])
  have typed: "field_inv T (snd (if tm_type ?m \<noteq> TEXT_ANY then typed_text env ?m bs
      else (TEXT_CONSUMED, snd (insert_bytes env ?m bs))))" if "tk_text key = Some bs" "is_printable (Some bs)" for bs
    using that assms(2) printable_bytes [of bs] typed_text_inv [OF m] insert_any_inv m by (auto simp: ty)
  then have rest: "field_inv T (snd (case tk_text key of None \<Rightarrow> (TEXT_IGNORED, ?m)
      | Some bs \<Rightarrow> if \<not> is_printable (Some bs) then (TEXT_IGNORED, ?m)
          else if tm_type ?m \<noteq> TEXT_ANY then typed_text env ?m bs
          else (TEXT_CONSUMED, snd (insert_bytes env ?m bs))))"
    using m by (auto split: option.split)
  show ?thesis
    unfolding keyboard_command_def Let_def
    using rest m delete_forward_inv [OF m] move_left_inv [OF m] move_right_inv [OF m] move_to_line_edge_inv [OF m]
      insert_newline_inv [OF m] by simp
qed

lemma keyboard_key_inv:
  assumes "field_inv T m" "case tk_text key of None \<Rightarrow> True | Some bs \<Rightarrow> valid_utf8 bs"
  shows "field_inv T (snd (keyboard_key env m key))"
proof -
  define rest where "rest = (\<lambda>model.
            let model = model\<lparr>tm_input := fplinux_text_input_cancel_held (tm_input model)\<rparr> in
            if tk_code key = KEY_BACKSPACE then
              (let model = model\<lparr>tm_phone_zero_held := False\<rparr>
               in if fplinux_ui_text_model_is_empty model then (TEXT_IGNORED, model)
                  else (TEXT_CONSUMED, delete_backward model))
            else keyboard_command env model key)"
  have rest: "field_inv T (snd (rest x))" if "field_inv T x" for x
    using that keyboard_command_inv [OF field_inv_cancel_held [OF that] assms(2)]
      delete_backward_inv [OF field_inv_not_held [OF field_inv_cancel_held [OF that]]]
    by (simp add: rest_def Let_def)
  obtain r m' where p: "move_picker m (tk_code key) = (r, m')" by fastforce
  have m': "field_inv T m'" using move_picker_inv [OF assms(1), of "tk_code key"] p by simp
  have same: "\<not> r \<Longrightarrow> m' = m" using p move_picker_other by (cases r) auto
  have "keyboard_key env m key =
    (if tk_shortcut key then (TEXT_IGNORED, m)
     else if ti_picker_open (tm_input m) then
       (case (r, m') of
          (True, model) \<Rightarrow> (TEXT_CONSUMED, model)
        | (False, model) \<Rightarrow>
            if tk_code key = KEY_ENTER \<or> tk_code key = KEY_KPENTER \<or> tk_code key = KEY_ESC
            then (TEXT_CONSUMED, close_picker env model (tk_code key \<noteq> KEY_ESC))
            else rest (close_picker env model False))
     else rest m)"
    unfolding keyboard_key_def rest_def p [symmetric] Let_def by (rule refl)
  then show ?thesis
    using m' same assms(1) rest [OF assms(1)] rest [of "close_picker env m False"] close_picker_inv [OF assms(1)]
    by (cases r) auto
qed

lemma release_inv:
  assumes "field_inv T m"
  shows "field_inv T (put_input (fplinux_text_input_release (tm_input m) k now (Some (emit_for env)) m))"
proof -
  obtain r i m' where c: "fplinux_text_input_release (tm_input m) k now (Some (emit_for env)) m = (r, i, m')"
    by (cases "fplinux_text_input_release (tm_input m) k now (Some (emit_for env)) m")
  have "input_ok (T = TEXT_ANY) (typed_char T) i \<and> model_ok T m' \<and>
      (T = TEXT_ANY \<or> mt_language (ti_compose i) = mt_language (ti_compose (tm_input m)))"
    using client.release_keeps [OF _ _ c, of T] assms by (simp add: field_inv_def)
  then show ?thesis using put_input_inv [of T i m' m r] assms c by simp
qed

lemma release_key_inv:
  assumes "field_inv T m"
  shows "field_inv T (release_key env m key now)"
proof -
  let ?release = "\<lambda>model k. put_input (fplinux_text_input_release (tm_input model) k now (Some (emit_for env)) model)"
  let ?code = "tk_code key"
  define m1 where "m1 = (if tm_type m = TEXT_ANY \<and>
                  (?code = KEY_NUMERIC_POUND \<and> ti_held_control (tm_input m) = 0x23 \<or>
                   ?code = KEY_NUMERIC_STAR \<and> ti_held_control (tm_input m) = 0x2a)
               then (?release m (if ?code = KEY_NUMERIC_POUND then 0x23 else 0x2a))\<lparr>tm_dirty := True\<rparr> else m)"
  define m2 where "m2 = (if KEY_NUMERIC_0 \<le> ?code \<and> ?code \<le> KEY_NUMERIC_9
               then ?release m1 (of_nat (0x30 + ?code - KEY_NUMERIC_0)) else m1)"
  define m3 where "m3 = (if ?code = KEY_NUMERIC_0 then (hold_phone_zero m2 now)\<lparr>tm_phone_zero_held := False\<rparr> else m2)"
  define m4 where "m4 = (if ?code = KEY_F14 then m3\<lparr>tm_input := fplinux_text_input_clear_release (tm_input m3)\<rparr> else m3)"
  have "field_inv T m1" unfolding m1_def using assms release_inv [OF assms] by (simp del: One_nat_def)
  then have "field_inv T m2" unfolding m2_def using release_inv by (simp del: of_nat_diff of_nat_add)
  then have "field_inv T m3" unfolding m3_def using hold_phone_zero_inv by simp
  then have "field_inv T m4"
    unfolding m4_def using clear_release_ok [of "T = TEXT_ANY" "typed_char T" "tm_input m3"]
    by (auto simp: field_inv_def fplinux_text_input_clear_release_def)
  moreover have "release_key env m key now = (if tk_keyboard key then m else if pending m \<noteq> pending m4 then m4\<lparr>tm_dirty := True\<rparr> else m4)"
    unfolding release_key_def Let_def m4_def m3_def m2_def m1_def by (rule refl)
  ultimately show ?thesis using assms by simp
qed

lemma key_inv:
  assumes "field_inv T m" "case tk_text key of None \<Rightarrow> True | Some bs \<Rightarrow> valid_utf8 bs"
  shows "field_inv T (snd (fplinux_ui_text_model_key env m key now))"
proof -
  have press: "field_inv T (snd (if tk_keyboard key then keyboard_key env m key else phone_key env m (tk_code key) now))"
    using keyboard_key_inv [OF assms] phone_key_inv [OF assms(1)] by simp
  have release: "field_inv T (snd (take_consumed m key))"
    using set_consumed_inv [OF assms(1)] by (simp add: take_consumed_def Let_def)
  show ?thesis
    unfolding fplinux_ui_text_model_key_def
    using assms(1) press release
    by (auto simp: split_def intro!: finish_inv set_consumed_inv release_key_inv)
qed

lemma tick_inv:
  assumes "field_inv T m"
  shows "field_inv T (fplinux_ui_text_model_tick env m now)"
proof -
  let ?m = "hold_phone_zero m now"
  have m: "field_inv T ?m" by (rule hold_phone_zero_inv [OF assms])
  obtain r i m' where c: "fplinux_text_input_tick (tm_input ?m) now (Some (emit_for env)) erase_for ?m = (r, i, m')"
    by (cases "fplinux_text_input_tick (tm_input ?m) now (Some (emit_for env)) erase_for ?m")
  have "input_ok (T = TEXT_ANY) (typed_char T) i \<and> model_ok T m' \<and>
      (T = TEXT_ANY \<or> mt_language (ti_compose i) = mt_language (ti_compose (tm_input ?m)))"
    using client.tick_keeps [OF _ _ c, of T] m by (simp add: field_inv_def)
  then have "field_inv T (put_input (r, i, m'))" using put_input_inv [of T i m' ?m r] m by simp
  then show ?thesis by (auto simp: fplinux_ui_text_model_tick_def Let_def c intro!: finish_inv)
qed

lemma cancel_held_inv: "field_inv T m \<Longrightarrow> field_inv T (fplinux_ui_text_model_cancel_held env m)"
  unfolding fplinux_ui_text_model_cancel_held_def Let_def
  using field_inv_cancel_held [OF field_inv_not_held, of T "m\<lparr>tm_dirty := True\<rparr>"]
    field_inv_cancel_held [OF field_inv_not_held, of T m]
  by (auto intro!: finish_inv)

lemma cancel_picker_inv: "field_inv T m \<Longrightarrow> field_inv T (fplinux_ui_text_model_cancel_picker env m)"
  by (auto simp: fplinux_ui_text_model_cancel_picker_def intro!: finish_inv close_picker_inv)

lemma set_text_inv:
  assumes "field_inv T m" "valid_utf8 bs" "0 \<notin> set bs"
  shows "field_inv T (snd (fplinux_ui_text_model_set_text env m bs))"
proof -
  let ?n = "count_characters bs (length bs)"
  obtain r m1 where r: "reserve env m (length bs) = (r, m1)" by fastforce
  have m1: "field_inv T m1" by (rule reserve_inv [OF assms(1) r])
  from reserve_cases [OF r] obtain cap req where m1_def: "m1 = m\<lparr>tm_capacity := cap, tm_requests := req\<rparr>"
    "r \<longrightarrow> length bs < cap" by metis
  define m2 where "m2 = (cancel_pending m1)\<lparr>tm_input := (tm_input (cancel_pending m1))\<lparr>ti_clearing := False\<rparr>\<rparr>"
  have m2: "field_inv T m2"
    using cancel_pending_inv [OF m1] by (simp add: m2_def field_inv_def)
  have new: "field_inv T ((use_separator (m2\<lparr>tm_text := bs\<rparr>))\<lparr>tm_cursor := length bs, tm_characters := ?n\<rparr>)"
    if "r" "fits m ?n" "\<not> (\<not> tm_multiline m \<and> 0x0a \<in> set bs \<or> \<not> suits (tm_type m) bs)"
  proof -
    have "model_ok T ((use_separator (m2\<lparr>tm_text := bs\<rparr>))\<lparr>tm_cursor := length bs, tm_characters := ?n\<rparr>)"
      using that assms(2,3) m1_def m2 field_inv_type [OF assms(1)]
      by (intro model_ok_new_text) (auto simp: m2_def cancel_pending_def fits_def field_inv_def model_ok_def text_ok_def)
    with m2 show ?thesis by (simp add: field_inv_def use_separator_def)
  qed
  have "fplinux_ui_text_model_set_text env m bs =
    (if \<not> fits m ?n then (Some E2BIG, m)
     else if \<not> tm_multiline m \<and> 0x0a \<in> set bs \<or> \<not> suits (tm_type m) bs then (Some EINVAL, m)
     else if \<not> r then (Some ENOMEM, m1)
     else (None, finish_model env ((use_separator (m2\<lparr>tm_text := bs\<rparr>))\<lparr>tm_cursor := length bs, tm_characters := ?n\<rparr>)))"
    unfolding fplinux_ui_text_model_set_text_def Let_def r m2_def by (cases r) simp_all
  then show ?thesis using assms(1) m1 finish_inv [OF new] by simp
qed

lemma set_password_inv:
  assumes "field_inv T m"
  shows "field_inv T (fplinux_ui_text_model_set_password env m b)"
proof -
  let ?i = "fplinux_text_input_set_sentence_case (tm_input m) (\<not> b)"
  have "input_ok (T = TEXT_ANY) (typed_char T) ?i" using assms by (intro set_sentence_case_ok) (simp add: field_inv_def)
  moreover have "ti_compose ?i = ti_compose (tm_input m)"
    by (simp add: fplinux_text_input_set_sentence_case_def Let_def)
  ultimately have "field_inv T (m\<lparr>tm_password := b, tm_input := ?i, tm_dirty := True\<rparr>)"
    using assms by (simp add: field_inv_def)
  then show ?thesis using assms by (simp add: fplinux_ui_text_model_set_password_def finish_inv)
qed

lemma set_picker_columns_inv: "field_inv T m \<Longrightarrow> field_inv T (fplinux_ui_text_model_set_picker_columns m columns)"
  using set_picker_columns_ok [of "T = TEXT_ANY" "typed_char T" "tm_input m" columns]
  by (simp add: fplinux_ui_text_model_set_picker_columns_def field_inv_def fplinux_text_input_set_picker_columns_def)

lemma set_caret_inv: "field_inv T m \<Longrightarrow> field_inv T (fplinux_ui_text_model_set_caret env m index)"
proof -
  assume "field_inv T m"
  then have m: "field_inv T (commit_pending env m)" by (rule commit_pending_inv)
  then have "boundary (tm_text (commit_pending env m)) (caret_offset (tm_text (commit_pending env m)) index 0)"
    using field_inv_text boundary_0 caret_offset_boundary by blast
  with m show ?thesis by (simp add: fplinux_ui_text_model_set_caret_def Let_def finish_inv move_cursor_inv)
qed

lemma closed_inv:
  assumes "field_inv T m"
  shows "field_inv T (m\<lparr>tm_input := (tm_input m)\<lparr>ti_picker_open := False, ti_clearing := False\<rparr>\<rparr>)"
  using assms close_picker_ok [of "T = TEXT_ANY" "typed_char T" "tm_input m"]
  by (simp add: field_inv_def fplinux_text_input_close_picker_def)

lemma set_read_only_inv:
  assumes "field_inv T m"
  shows "field_inv T (fplinux_ui_text_model_set_read_only env m b)"
  using assms closed_inv [OF commit_pending_inv [OF assms]]
  by (simp add: fplinux_ui_text_model_set_read_only_def Let_def finish_inv)

lemma set_focused_inv:
  assumes "field_inv T m"
  shows "field_inv T (fplinux_ui_text_model_set_focused env m b)"
proof -
  let ?m = "commit_pending env m"
  let ?c = "replicate 2 (replicate (KEY_COUNT div 8) (0 :: u8))"
  have "field_inv T (?m\<lparr>tm_input := (tm_input ?m)\<lparr>ti_picker_open := False, ti_clearing := False\<rparr>, tm_consumed := ?c\<rparr>)"
    using closed_inv [OF commit_pending_inv [OF assms]]
    by (auto simp: field_inv_def model_ok_def text_ok_def memory_ok_def fits_def numeral_2_eq_2)
  with assms show ?thesis by (simp add: fplinux_ui_text_model_set_focused_def Let_def finish_inv)
qed

lemma set_type_inv:
  assumes "field_inv T m"
  shows "\<exists>T'. field_inv T' (snd (fplinux_ui_text_model_set_type env m type_arg separator))"
proof (cases type_arg)
  case None
  then show ?thesis using assms by (auto simp: fplinux_ui_text_model_set_type_def)
next
  case (Some T')
  let ?m = "commit_pending env m"
  have m: "field_inv T ?m" by (rule commit_pending_inv [OF assms])
  consider "T' = TEXT_DECIMAL \<and> separator \<noteq> 0x2e \<and> separator \<noteq> 0x2c"
    | "\<not> (T' = TEXT_DECIMAL \<and> separator \<noteq> 0x2e \<and> separator \<noteq> 0x2c)" "\<not> suits T' (tm_text ?m)"
    | "\<not> (T' = TEXT_DECIMAL \<and> separator \<noteq> 0x2e \<and> separator \<noteq> 0x2c)" "suits T' (tm_text ?m)" by blast
  then show ?thesis
  proof cases
    case 1
    then show ?thesis using assms Some by (auto simp: fplinux_ui_text_model_set_type_def)
  next
    case 2
    then show ?thesis using finish_inv [OF m, of env] Some by (auto simp: fplinux_ui_text_model_set_type_def Let_def)
  next
    case 3
    define i1 where "i1 = (fplinux_text_input_reset_mode (tm_input ?m) (T' \<noteq> TEXT_ANY))\<lparr>ti_picker_open := False\<rparr>"
    define i2 where "i2 = i1\<lparr>ti_compose := fplinux_multitap_set_language (ti_compose i1)
      (Some (if T' = TEXT_PHONE then phone_star else language_slot (ti_languages i1) 0))\<rparr>"
    define m1 where "m1 = ?m\<lparr>tm_type := T', tm_separator := separator, tm_input := i1, tm_separator_typed := False\<rparr>"
    define m2 where "m2 = (use_separator m1)\<lparr>tm_input := i2, tm_dirty := True\<rparr>"
    have res: "fplinux_ui_text_model_set_type env m type_arg separator = (None, finish_model env m2)"
      using 3 Some by (simp add: fplinux_ui_text_model_set_type_def Let_def m2_def m1_def i2_def i1_def use_separator_def)
    have "input_ok (T' = TEXT_ANY) (typed_char T') i1"
      using m close_picker_ok [OF reset_mode_ok [of "T = TEXT_ANY" "typed_char T" "tm_input ?m" "T' = TEXT_ANY" "T' \<noteq> TEXT_ANY"]]
      by (simp add: i1_def field_inv_def fplinux_text_input_close_picker_def)
    then have i2: "input_ok (T' = TEXT_ANY) (typed_char T') i2"
      by (auto simp: i2_def i1_def fplinux_text_input_reset_mode_def Let_def input_ok_def modes_ok_def picker_ok_def
          fplinux_text_input_cancel_held_def language_slot_def)
    have z: "\<not> tm_phone_zero_held ?m" by (rule commit_pending_zero)
    have mem: "memory_ok m1" "length (tm_text ?m) < tm_capacity m1"
      using m by (simp_all add: m1_def field_inv_def model_ok_def memory_ok_def)
    have t: "text_ok ?m" using m by (simp add: field_inv_def model_ok_def)
    then have t1: "valid_utf8 (tm_text ?m)" "0 \<notin> set (tm_text ?m)" "boundary (tm_text ?m) (tm_cursor ?m)"
      "tm_multiline m1 \<or> 0x0a \<notin> set (tm_text ?m)" "fits m1 (count_characters (tm_text ?m) (length (tm_text ?m)))"
      by (auto simp: text_ok_def m1_def fits_def)
    have "T' = TEXT_DECIMAL \<longrightarrow> is_separator (tm_separator m1)" "\<not> tm_phone_zero_held m1" "tm_type m1 = T'"
      using 3(1) z by (auto simp: m1_def is_separator_def)
    from model_ok_new_text [OF mem(1) t1(1,2,5) 3(2) t1(4) this(1) mem(2) this(2,3) t1(3)]
    have "model_ok T' ((use_separator (m1\<lparr>tm_text := tm_text ?m\<rparr>))
      \<lparr>tm_cursor := tm_cursor ?m, tm_characters := count_characters (tm_text ?m) (length (tm_text ?m))\<rparr>)" .
    moreover have "(use_separator (m1\<lparr>tm_text := tm_text ?m\<rparr>))
      \<lparr>tm_cursor := tm_cursor ?m, tm_characters := count_characters (tm_text ?m) (length (tm_text ?m))\<rparr> = use_separator m1"
      using t by (simp add: m1_def use_separator_def text_ok_def)
    ultimately have "model_ok T' (use_separator m1)" by simp
    then have "field_inv T' m2"
      using i2 by (simp add: m2_def field_inv_def) (simp add: i2_def)
    with res finish_inv [of T' m2 env] show ?thesis by auto
  qed
qed

end

lemma init_inv:
  assumes "fplinux_ui_text_model_init env fopen opendir multiline limit directory language = (True, m)"
  shows "field_inv TEXT_ANY m"
proof -
  have m: "m = zero_text_model\<lparr>tm_capacity := INITIAL_CAPACITY, tm_separator := 0x2e, tm_limit := limit,
      tm_multiline := multiline, tm_focused := True,
      tm_input := fplinux_text_input_init fopen opendir directory language True, tm_requests := 2\<rparr>"
    using assms by (auto simp: fplinux_ui_text_model_init_def request_def zero_text_model_def split: if_split_asm)
  show ?thesis
    unfolding m
    by (simp add: field_inv_def init_ok model_ok_def text_ok_def memory_ok_def zero_text_model_def boundary_def
        count_characters_def fits_def suits_iff masked_fits_def INITIAL_CAPACITY_def numeral_2_eq_2)
qed

subsection \<open>Runs of a field\<close>

text \<open>
  The events a field receives.  The texts that the caller hands over, by a keyboard event or
  as a new text, are UTF-8 without NUL.
\<close>

definition event_ok :: "fplinux_ui_text_model_key \<Rightarrow> bool" where
  "event_ok key \<longleftrightarrow> (case tk_text key of None \<Rightarrow> True | Some bs \<Rightarrow> valid_utf8 bs)"

inductive text_step :: "text_env \<Rightarrow> fplinux_ui_text_model \<Rightarrow> fplinux_ui_text_model \<Rightarrow> bool" for env where
  step_key: "event_ok key \<Longrightarrow> text_step env m (snd (fplinux_ui_text_model_key env m key now))"
| step_tick: "text_step env m (fplinux_ui_text_model_tick env m now)"
| step_cancel_held: "text_step env m (fplinux_ui_text_model_cancel_held env m)"
| step_cancel_picker: "text_step env m (fplinux_ui_text_model_cancel_picker env m)"
| step_set_text: "valid_utf8 bs \<Longrightarrow> 0 \<notin> set bs \<Longrightarrow> text_step env m (snd (fplinux_ui_text_model_set_text env m bs))"
| step_set_type: "text_step env m (snd (fplinux_ui_text_model_set_type env m type_arg separator))"
| step_set_password: "text_step env m (fplinux_ui_text_model_set_password env m b)"
| step_set_focused: "text_step env m (fplinux_ui_text_model_set_focused env m b)"
| step_set_read_only: "text_step env m (fplinux_ui_text_model_set_read_only env m b)"
| step_set_columns: "text_step env m (fplinux_ui_text_model_set_picker_columns m columns)"
| step_set_caret: "text_step env m (fplinux_ui_text_model_set_caret env m index)"

context text_field
begin

lemma step_inv:
  assumes "text_step env m m'" "field_inv T m"
  shows "\<exists>T'. field_inv T' m'"
  using assms
  by (cases rule: text_step.cases)
    (auto simp: event_ok_def intro: key_inv tick_inv cancel_held_inv cancel_picker_inv set_text_inv set_type_inv
      set_password_inv set_focused_inv set_read_only_inv set_picker_columns_inv set_caret_inv)

lemma run_inv:
  assumes "(text_step env)\<^sup>*\<^sup>* m m'" "field_inv T m"
  shows "\<exists>T'. field_inv T' m'"
  using assms by (induction rule: rtranclp_induct) (auto dest: step_inv)

end

lemma reachable_inv:
  assumes "good_env env" "fplinux_ui_text_model_init env fopen opendir multiline limit directory language = (True, m0)"
    "(text_step env)\<^sup>*\<^sup>* m0 m"
  shows "field_inv (tm_type m) m"
  using text_field.run_inv [OF text_field.intro [OF assms(1)] assms(3) init_inv [OF assms(2)]] field_inv_type
  by metis

end
