(* ===== verification/Text_Properties.thy ===== *)
theory Text_Properties
  imports Text_Field
begin

section \<open>Properties of the text field\<close>

text \<open>
  What holds of every field that is reached from an initialised one by any sequence of events
  (\<^const>\<open>text_step\<close>), and what single operations do.
\<close>

subsection \<open>Helpers\<close>

lemma previous_boundary_to:
  "i < n \<Longrightarrow> i = 0 \<or> \<not> is_continuation (bs ! i) \<Longrightarrow> \<forall>j. i < j \<and> j < n \<longrightarrow> is_continuation (bs ! j) \<Longrightarrow>
   previous_boundary bs n = i"
proof (induction bs n rule: previous_boundary.induct)
  case (2 bs n)
  show ?case
  proof (cases "i = n")
    case True
    with "2.prems" show ?thesis by auto
  next
    case False
    with "2.prems" have "i < n" "is_continuation (bs ! n)" by auto
    with 2 show ?thesis by auto
  qed
qed simp

lemma previous_boundary_encode:
  assumes "is_scalar c"
  shows "previous_boundary (pre @ fplinux_text_input_encode_utf8 c @ post)
    (length pre + length (fplinux_text_input_encode_utf8 c)) = length pre"
proof -
  obtain lead tail where e: "fplinux_text_input_encode_utf8 c = lead # tail" "\<not> is_continuation lead"
    "list_all is_continuation tail" using encode_shape [OF assms] by metis
  show ?thesis
  proof (rule previous_boundary_to)
    show "\<forall>j. length pre < j \<and> j < length pre + length (fplinux_text_input_encode_utf8 c) \<longrightarrow>
        is_continuation ((pre @ fplinux_text_input_encode_utf8 c @ post) ! j)"
    proof (intro allI impI)
      fix j
      assume j: "length pre < j \<and> j < length pre + length (fplinux_text_input_encode_utf8 c)"
      then obtain k where "j = length pre + Suc k" "k < length tail"
        using e(1) by (metis add_Suc_right less_imp_Suc_add list.size(4) nat_add_left_cancel_less not_less_eq add.right_neutral)
      then show "is_continuation ((pre @ fplinux_text_input_encode_utf8 c @ post) ! j)"
        using e by (simp add: nth_append list_all_length)
    qed
  qed (use e in auto)
qed

lemma next_boundary_to:
  "n < j \<Longrightarrow> j \<le> len \<Longrightarrow> j = len \<or> \<not> is_continuation (bs ! j) \<Longrightarrow>
   \<forall>i. n < i \<and> i < j \<longrightarrow> is_continuation (bs ! i) \<Longrightarrow> next_boundary bs len n = j"
proof (induction bs len n rule: next_boundary.induct)
  case (1 bs len n)
  show ?case
  proof (cases "j = n + 1")
    case True
    with "1.prems" show ?thesis by (auto simp: next_boundary.simps [of bs len n])
  next
    case False
    with "1.prems" have "n + 1 < j" "n + 1 < len" "is_continuation (bs ! (n + 1))" by auto
    with 1 show ?thesis by (simp add: next_boundary.simps [of bs len n])
  qed
qed

lemma count_next:
  assumes "valid_utf8 bs" "boundary bs n" "n < length bs"
  shows "count_characters bs (next_boundary bs (length bs) n) = count_characters bs n + 1"
proof -
  from boundary_split [OF assms(1,2)] obtain cs where cs: "drop n bs = utf8_encode cs" "\<forall>c\<in>set cs. is_scalar c"
    using valid_utf8_iff by blast
  with assms(3) obtain c ds where c: "cs = c # ds" by (cases cs) auto
  then have d: "drop n bs = fplinux_text_input_encode_utf8 c @ utf8_encode ds" "is_scalar c" "valid_utf8 (utf8_encode ds)"
    using cs valid_utf8_iff by auto
  obtain lead tail where e: "fplinux_text_input_encode_utf8 c = lead # tail" "list_all is_continuation tail"
    using encode_shape [OF d(2)] by metis
  let ?l = "length (fplinux_text_input_encode_utf8 c)"
  have bs: "bs = take n bs @ fplinux_text_input_encode_utf8 c @ utf8_encode ds" using d(1) by (metis append_take_drop_id)
  have ln: "length (take n bs) = n" using assms(3) by simp
  have "next_boundary bs (length bs) n = n + ?l"
  proof (rule next_boundary_to)
    show "n + ?l \<le> length bs" by (subst bs) (use ln in simp)
    have "boundary ((take n bs @ fplinux_text_input_encode_utf8 c) @ utf8_encode ds)
        (length (take n bs @ fplinux_text_input_encode_utf8 c))" by (rule boundary_append [OF d(3)])
    then have "boundary bs (n + ?l)" using bs ln by simp
    then show "n + ?l = length bs \<or> \<not> is_continuation (bs ! (n + ?l))" by (auto simp: boundary_def)
    show "\<forall>i. n < i \<and> i < n + ?l \<longrightarrow> is_continuation (bs ! i)"
    proof (intro allI impI)
      fix i assume i: "n < i \<and> i < n + ?l"
      then obtain k where k: "i = n + Suc k" using less_imp_Suc_add by auto
      have "bs ! i = drop n bs ! Suc k" using k assms(3) by simp
      then show "is_continuation (bs ! i)" using d(1) e i k by (simp add: nth_append list_all_length)
    qed
  qed (use e in simp)
  moreover have "take (n + ?l) bs = take n bs @ fplinux_text_input_encode_utf8 c" using d(1) by (simp add: take_add)
  ultimately show ?thesis using count_encode [OF d(2)] by (simp add: count_characters_def)
qed

lemma caret_offset_count:
  assumes "valid_utf8 bs" "boundary bs n"
  shows "count_characters bs (caret_offset bs k n) =
    min (count_characters bs n + k) (count_characters bs (length bs))"
  using assms
proof (induction bs k n rule: caret_offset.induct)
  case (1 bs n)
  then show ?case using count_le [of bs n] by simp
next
  case (2 bs k n)
  show ?case
  proof (cases "n < length bs")
    case True
    from "2.IH" [OF True "2.prems"(1) next_boundary] count_next [OF "2.prems" True] True show ?thesis by simp
  next
    case False
    with "2.prems" have "n = length bs" by (auto simp: boundary_def)
    then show ?thesis by simp
  qed
qed

lemma finish_frame:
  "tm_text (finish_model env m) = tm_text m \<and> tm_cursor (finish_model env m) = tm_cursor m \<and>
   tm_characters (finish_model env m) = tm_characters m \<and> (\<not> pending m \<longrightarrow> \<not> pending (finish_model env m)) \<and>
   \<not> tm_dirty (finish_model env m)"
proof -
  have d: "tm_text (drop_pending env m) = tm_text m \<and> tm_cursor (drop_pending env m) = tm_cursor m \<and>
      tm_characters (drop_pending env m) = tm_characters m \<and> (\<not> pending m \<longrightarrow> \<not> pending (drop_pending env m))"
  proof (cases "pending_bytes env m = []")
    case False
    obtain r m' where r: "reserve env m (length (tm_text m) + length (pending_bytes env m)) = (r, m')" by fastforce
    from reserve_cases [OF r] obtain cap req where "m' = m\<lparr>tm_capacity := cap, tm_requests := req\<rparr>" .
    with False r show ?thesis by (cases r) (auto simp: drop_pending_def fplinux_text_input_cancel_def)
  qed (simp add: drop_pending_def)
  have k: "tm_text (refresh_masked env n bs) = tm_text n \<and> tm_cursor (refresh_masked env n bs) = tm_cursor n \<and>
      tm_characters (refresh_masked env n bs) = tm_characters n \<and> tm_input (refresh_masked env n bs) = tm_input n" for n bs
    by (auto simp: refresh_masked_def Let_def request_def split: bool.split)
  have "tm_text (refresh_display env m) = tm_text m \<and> tm_cursor (refresh_display env m) = tm_cursor m \<and>
      tm_characters (refresh_display env m) = tm_characters m \<and> (\<not> pending m \<longrightarrow> \<not> pending (refresh_display env m))"
    using d k by (simp add: refresh_display_eq Let_def)
  then show ?thesis by (simp add: finish_model_def Let_def)
qed

subsection \<open>Reachable fields\<close>

text \<open>
  C1.  The text of a reachable field is always valid UTF-8 without NUL, the caret stands between
  two of its characters, and the character count is the number of characters that the text
  decodes to; it never exceeds the limit.
\<close>

theorem reachable_text:
  assumes "good_env env" "fplinux_ui_text_model_init env fopen opendir multiline limit directory language = (True, m0)"
    "(text_step env)\<^sup>*\<^sup>* m0 m"
  shows "\<exists>before after. utf8_decode (take (tm_cursor m) (tm_text m)) = Some before \<and>
    utf8_decode (drop (tm_cursor m) (tm_text m)) = Some after \<and>
    tm_characters m = length before + length after \<and> 0 \<notin> set (tm_text m) \<and> fits m (tm_characters m)"
proof -
  have t: "text_ok m" using reachable_inv [OF assms] by (simp add: field_inv_def model_ok_def)
  then have "valid_utf8 (take (tm_cursor m) (tm_text m)) \<and> valid_utf8 (drop (tm_cursor m) (tm_text m))"
    by (intro boundary_split) (auto simp: text_ok_def)
  then obtain before after where d: "utf8_decode (take (tm_cursor m) (tm_text m)) = Some before"
    "utf8_decode (drop (tm_cursor m) (tm_text m)) = Some after" by (auto simp: valid_utf8_def)
  have "tm_characters m = length before + length after"
    using t count_decode [OF d(1), unfolded count_all] count_decode [OF d(2), unfolded count_all] filter_take_drop [of "\<lambda>b. \<not> is_continuation b" "tm_cursor m" "tm_text m"]
    by (simp add: text_ok_def count_characters_def)
  with d t show ?thesis by (auto simp: text_ok_def)
qed

text \<open>A concrete field for the examples: one line, at most ten characters, built-in languages.\<close>

definition example_env :: text_env where
  "example_env = c_locale_env (\<lambda>n s. True) False"

definition example_field :: fplinux_ui_text_model where
  "example_field = snd (fplinux_ui_text_model_init example_env (\<lambda>path. Inl ENOENT) None False 10 None None)"

definition example_run :: fplinux_ui_text_model where
  "example_run = snd (fplinux_ui_text_model_set_type example_env
     (snd (fplinux_ui_text_model_set_text example_env example_field (bytes_of ''12''))) (Some TEXT_DECIMAL) 0x2c)"

lemma example_reachable:
  "good_env example_env"
  "fplinux_ui_text_model_init example_env (\<lambda>path. Inl ENOENT) None False 10 None None = (True, example_field)"
  "(text_step example_env)\<^sup>*\<^sup>* example_field example_run"
proof -
  show "good_env example_env" by (simp add: example_env_def c_locale_env_def good_env_def)
  show "fplinux_ui_text_model_init example_env (\<lambda>path. Inl ENOENT) None False 10 None None = (True, example_field)"
    by (simp add: example_field_def fplinux_ui_text_model_init_def request_def example_env_def c_locale_env_def)
  have "text_step example_env example_field (snd (fplinux_ui_text_model_set_text example_env example_field (bytes_of ''12'')))"
    by (rule step_set_text) (auto intro: valid_utf8_ascii)
  then show "(text_step example_env)\<^sup>*\<^sup>* example_field example_run"
    unfolding example_run_def by (meson converse_rtranclp_into_rtranclp r_into_rtranclp step_set_type)
qed

theorem reachable_text_witness:
  "\<exists>before after. utf8_decode (take (tm_cursor example_run) (tm_text example_run)) = Some before \<and>
    utf8_decode (drop (tm_cursor example_run) (tm_text example_run)) = Some after \<and>
    tm_characters example_run = length before + length after \<and> 0 \<notin> set (tm_text example_run) \<and>
    fits example_run (tm_characters example_run)"
  by (rule reachable_text [OF example_reachable])

text \<open>
  C15.  A reachable field only ever holds a text that its type takes: digits with an optional
  leading minus in a whole number, at most one separator, which is the field's own, in a
  decimal number, the characters of a phone number in a phone field, and no line break in a
  field of one line.  In such a typed field the keypad stays in the numeric mode and the symbol
  picker stays closed.
\<close>

theorem reachable_typed:
  assumes "good_env env" "fplinux_ui_text_model_init env fopen opendir multiline limit directory language = (True, m0)"
    "(text_step env)\<^sup>*\<^sup>* m0 m"
  shows "suits (tm_type m) (tm_text m) \<and> (tm_multiline m \<or> 0x0a \<notin> set (tm_text m)) \<and>
    (tm_type m = TEXT_DECIMAL \<longrightarrow>
       filter is_separator (tm_text m) = [] \<or> filter is_separator (tm_text m) = [tm_separator m]) \<and>
    (tm_type m \<noteq> TEXT_ANY \<longrightarrow> ti_numeric (tm_input m) \<and> \<not> ti_picker_open (tm_input m))"
proof -
  have f: "field_inv (tm_type m) m" by (rule reachable_inv [OF assms])
  then have t: "text_ok m" by (simp add: field_inv_def model_ok_def)
  have "filter is_separator (tm_text m) = [] \<or> filter is_separator (tm_text m) = [tm_separator m]"
    if "tm_type m = TEXT_DECIMAL"
  proof -
    have n: "number_ok True (strip_minus (tm_text m))"
      using t that suits_iff(4) [of "tm_text m"] by (simp add: text_ok_def)
    have "length (filter is_separator (tm_text m)) \<le> 1"
      using n by (cases "tm_text m") (auto simp: number_ok_def strip_minus_def is_separator_def split: if_split_asm)
    moreover have "\<forall>b \<in> set (filter is_separator (tm_text m)). b = tm_separator m"
      using t that by (auto simp: text_ok_def)
    ultimately show ?thesis by (cases "filter is_separator (tm_text m)") auto
  qed
  with t f show ?thesis by (auto simp: text_ok_def field_inv_def input_ok_def modes_ok_def)
qed

theorem reachable_typed_witness:
  "suits (tm_type example_run) (tm_text example_run)"
  using reachable_typed [OF example_reachable] by blast


lemma example_field_simps [simp]:
  "tm_text example_field = []" "tm_cursor example_field = 0" "tm_characters example_field = 0"
  "tm_limit example_field = 10" "tm_multiline example_field = False" "tm_type example_field = TEXT_ANY"
  "tm_capacity example_field = 64" "tm_dirty example_field = False" "tm_focused example_field = True"
  "tm_password example_field = False" "tm_masked_capacity example_field = 0"
  "tm_input example_field = fplinux_text_input_init (\<lambda>path. Inl ENOENT) None None None True"
  by (simp_all add: example_field_def fplinux_ui_text_model_init_def request_def zero_text_model_def example_env_def
      c_locale_env_def INITIAL_CAPACITY_def)

text \<open>A password of two characters, which is shown as two dots.\<close>

definition example_secret :: fplinux_ui_text_model where
  "example_secret = fplinux_ui_text_model_set_password example_env
     (snd (fplinux_ui_text_model_set_text example_env example_field (bytes_of ''12''))) True"

lemma secret_reachable: "(text_step example_env)\<^sup>*\<^sup>* example_field example_secret"
proof -
  have "text_step example_env example_field (snd (fplinux_ui_text_model_set_text example_env example_field (bytes_of ''12'')))"
    by (rule step_set_text) (auto intro: valid_utf8_ascii)
  then show ?thesis
    unfolding example_secret_def by (meson converse_rtranclp_into_rtranclp r_into_rtranclp step_set_password)
qed

lemma secret_shown: "tm_capacity example_secret = 64 \<and> tm_masked example_secret = Some (BULLET @ BULLET)"
  unfolding example_secret_def
  by (simp add: fplinux_ui_text_model_set_password_def fplinux_ui_text_model_set_text_def fits_def suits_def Let_def
      reserve_def count_characters_def is_continuation_def finish_model_def refresh_display_def refresh_masked_def
      request_def pending_bytes_def cancel_pending_def fplinux_text_input_cancel_def use_separator_def
      fplinux_text_input_set_sentence_case_def example_env_def c_locale_env_def te_size_max_def put_bullets_def
      BULLET_def)


text \<open>
  Beyond that bound the size does wrap on a 32-bit machine: with \<open>(2\<^sup>3\<^sup>2 - 1) / 3\<close> characters it
  is zero, which is never above the capacity, so no buffer is asked for and the guard on the
  number of characters, which stands inside, is not reached.
\<close>

lemma masked_size_wraps:
  assumes "\<not> te_wide env" "tm_characters m = 1431655765" "count_characters (tm_text m) (tm_cursor m) \<le> tm_characters m"
  shows "\<exists>dots. refresh_masked env m [] = m\<lparr>tm_masked := Some dots\<rparr> \<and> length dots = 2 ^ 32 - 1"
proof (intro exI conjI)
  let ?b = "count_characters (tm_text m) (tm_cursor m)"
  let ?dots = "put_bullets ?b @ [] @ put_bullets (tm_characters m - ?b)"
  have "length BULLET = 3" by (simp add: BULLET_def)
  then show "refresh_masked env m [] = m\<lparr>tm_masked := Some ?dots\<rparr>"
    using assms(1,2) by (simp add: refresh_masked_def te_size_max_def Let_def)
  show "length ?dots = 2 ^ 32 - 1" using assms(2,3) by simp
qed

subsection \<open>Single operations\<close>

text \<open>
  Setting the text reports a text above the limit first and a text the field does not take
  second; when it fails the field keeps its text, caret, count and input state; when it succeeds
  the field holds the new text, with the separator of a decimal number replaced by the field's
  own, the caret is at its end and nothing is pending.
\<close>

theorem set_text_result:
  "case fplinux_ui_text_model_set_text env m bs of (e, m') \<Rightarrow>
     (e = Some E2BIG \<longleftrightarrow> \<not> fits m (count_characters bs (length bs))) \<and>
     (e = Some EINVAL \<longleftrightarrow> fits m (count_characters bs (length bs)) \<and>
        (\<not> tm_multiline m \<and> 0x0a \<in> set bs \<or> \<not> suits (tm_type m) bs)) \<and>
     (e \<noteq> None \<longrightarrow> tm_text m' = tm_text m \<and> tm_cursor m' = tm_cursor m \<and> tm_characters m' = tm_characters m \<and>
        tm_input m' = tm_input m) \<and>
     (e = None \<longrightarrow> tm_text m' = (if tm_type m = TEXT_DECIMAL then replace_separator (tm_separator m) bs else bs) \<and>
        tm_cursor m' = length bs \<and> tm_characters m' = count_characters bs (length bs) \<and> \<not> pending m')"
proof -
  obtain r m1 where r: "reserve env m (length bs) = (r, m1)" by fastforce
  from reserve_cases [OF r] obtain cap req where m1: "m1 = m\<lparr>tm_capacity := cap, tm_requests := req\<rparr>" .
  show ?thesis
  proof (cases "r \<and> fits m (count_characters bs (length bs)) \<and>
      \<not> (\<not> tm_multiline m \<and> 0x0a \<in> set bs \<or> \<not> suits (tm_type m) bs)")
    case True
    let ?m2 = "(cancel_pending m1)\<lparr>tm_input := (tm_input (cancel_pending m1))\<lparr>ti_clearing := False\<rparr>\<rparr>"
    let ?m3 = "(use_separator (?m2\<lparr>tm_text := bs\<rparr>))\<lparr>tm_cursor := length bs, tm_characters := count_characters bs (length bs)\<rparr>"
    have eq: "fplinux_ui_text_model_set_text env m bs = (None, finish_model env ?m3)"
      using True r by (simp add: fplinux_ui_text_model_set_text_def Let_def)
    have "\<not> pending ?m3"
      by (simp add: use_separator_def cancel_pending_def fplinux_text_input_cancel_def)
    moreover have "tm_text ?m3 = (if tm_type m = TEXT_DECIMAL then replace_separator (tm_separator m) bs else bs)"
      by (simp add: use_separator_def cancel_pending_def m1)
    moreover have "tm_cursor ?m3 = length bs" "tm_characters ?m3 = count_characters bs (length bs)" by simp_all
    ultimately show ?thesis unfolding eq prod.case using finish_frame [of env ?m3] True by simp
  next
    case False
    then show ?thesis using r m1 by (auto simp: fplinux_ui_text_model_set_text_def Let_def)
  qed
qed

lemma example_set: "fst (fplinux_ui_text_model_set_text example_env example_field (bytes_of ''12'')) = None"
  by (simp add: fplinux_ui_text_model_set_text_def fits_def suits_def Let_def reserve_def count_characters_def
      is_continuation_def)

theorem set_text_result_witness:
  "tm_text (snd (fplinux_ui_text_model_set_text example_env example_field (bytes_of ''12''))) = bytes_of ''12'' \<and>
   tm_cursor (snd (fplinux_ui_text_model_set_text example_env example_field (bytes_of ''12''))) = 2"
  using set_text_result [where env = example_env and m = example_field and bs = "bytes_of ''12''"] example_set by (simp add: split_def)

text \<open>
  The deadline a field reports is exact: a tick before it leaves a field without unshown
  changes as it is.
\<close>

theorem field_tick_before_deadline:
  assumes "fplinux_ui_text_model_deadline m = Some d" "now < d" "\<not> tm_dirty m"
  shows "fplinux_ui_text_model_tick env m now = m"
proof -
  let ?z = "tm_phone_zero_ms m + HOLD_MS"
  have zero: "\<not> tm_phone_zero_held m \<or> now < ?z"
    using assms(1,2) by (auto simp: fplinux_ui_text_model_deadline_def Let_def not_less split: if_split_asm option.split_asm)
  have "\<forall>t \<in> due_times (tm_input m). now < t"
  proof (cases "fplinux_text_input_deadline (tm_input m)")
    case None
    have "now < UINT64_MAX" using assms(2) by (rule order_less_le_trans) simp
    with None show ?thesis using deadline_none by auto
  next
    case (Some e)
    then have "now < e"
      using assms(1,2) by (auto simp: fplinux_ui_text_model_deadline_def Let_def split: if_split_asm)
    with deadline_due [OF Some] show ?thesis by (auto intro: order_less_le_trans)
  qed
  then show ?thesis using zero assms(3)
    by (simp add: tick_idle fplinux_ui_text_model_tick_def Let_def hold_phone_zero_def put_input_def finish_model_def)
qed

theorem field_tick_before_deadline_witness:
  "let m = example_field\<lparr>tm_phone_zero_held := True, tm_phone_zero_ms := 1000\<rparr> in
   fplinux_ui_text_model_tick example_env m 1400 = m"
proof -
  have "fplinux_text_input_deadline (tm_input example_field) = None"
    by (simp add: fplinux_text_input_deadline_def fplinux_text_input_init_def fplinux_text_input_load_languages_def
        fplinux_text_input_reset_mode_def fplinux_text_input_cancel_held_def zero_text_input_def Let_def)
  then show ?thesis unfolding Let_def
    by (intro field_tick_before_deadline [where d = 1500])
      (simp_all add: fplinux_ui_text_model_deadline_def TEXT_INPUT_HOLD_MS_def)
qed

text \<open>
  Clear undoes typing: erasing right after a character was inserted at the caret restores
  the text, the caret and the character count.
\<close>

theorem erase_undoes_insert:
  assumes "field_inv T m" "is_scalar c" "\<not> pending m"
    "insert_bytes env m (fplinux_text_input_encode_utf8 c) = (True, m')"
  shows "tm_text (delete_backward m') = tm_text m \<and> tm_cursor (delete_backward m') = tm_cursor m \<and>
    tm_characters (delete_backward m') = tm_characters m"
  using assms(4)
proof (cases rule: insert_cases)
  case (yes cap req)
  let ?e = "fplinux_text_input_encode_utf8 c" and ?p = "take (tm_cursor m) (tm_text m)" and ?q = "drop (tm_cursor m) (tm_text m)"
  have len: "length ?p = tm_cursor m" using field_inv_text [OF assms(1)] by simp
  have pos: "previous_boundary (tm_text m') (tm_cursor m') = tm_cursor m"
    using previous_boundary_encode [OF assms(2), of ?p ?q] len yes(3) by (simp add: inserted_def)
  have cnt: "count_characters (drop (tm_cursor m) (tm_text m')) (length ?e) = 1"
    using count_encode [OF assms(2)] len yes(3) by (simp add: inserted_def count_characters_def)
  have "delete_backward m' = delete_range m' (tm_cursor m) (tm_cursor m + length ?e)"
    using yes(3) assms(3) pos encode_nonempty [OF assms(2)] by (simp add: delete_backward_def)
  then show ?thesis
    using yes(3) cnt count_encode [OF assms(2)] len by (simp add: delete_range_def inserted_def)
qed simp

theorem erase_undoes_insert_witness:
  "tm_text (delete_backward (snd (insert_bytes example_env example_field (fplinux_text_input_encode_utf8 0x20ac)))) = []"
proof -
  have f: "field_inv TEXT_ANY example_field" using init_inv example_reachable(2) by blast
  have s: "is_scalar 0x20ac" by (simp add: is_scalar_def)
  have p: "\<not> pending example_field"
    by (simp add: fplinux_text_input_init_def fplinux_text_input_load_languages_def fplinux_text_input_reset_mode_def Let_def)
  have "fst (insert_bytes example_env example_field (fplinux_text_input_encode_utf8 0x20ac)) = True"
    using count_encode [OF s]
    by (simp add: insert_bytes_def Let_def fits_def reserve_def fplinux_text_input_encode_utf8_def)
  then have i: "insert_bytes example_env example_field (fplinux_text_input_encode_utf8 0x20ac) =
    (True, snd (insert_bytes example_env example_field (fplinux_text_input_encode_utf8 0x20ac)))" by (metis prod.collapse)
  from erase_undoes_insert [OF f s p i] show ?thesis by simp
qed

text \<open>
  Moving the caret to a character index puts it there, or at the end of a shorter text:
  afterwards the field reports that index as the position of the caret.
\<close>

theorem set_caret_position:
  assumes "field_inv T m" "\<not> pending m"
  shows "fplinux_ui_text_model_caret (fplinux_ui_text_model_set_caret env m index) = min index (tm_characters m)"
proof -
  let ?m = "m\<lparr>tm_phone_zero_held := False, tm_input := fplinux_text_input_cancel_held (tm_input m)\<rparr>"
  let ?k = "caret_offset (tm_text m) index 0"
  have p: "\<not> pending ?m" using assms(2) by (simp add: fplinux_text_input_cancel_held_def)
  then have c: "commit_pending env m = ?m" by (simp add: commit_pending_def)
  have t: "text_ok m" using assms(1) by (simp add: field_inv_def model_ok_def)
  then have "count_characters (tm_text m) ?k = min index (tm_characters m)"
    using caret_offset_count [of "tm_text m" 0 index] by (simp add: text_ok_def boundary_0 count_characters_def)
  moreover have "tm_text (move_cursor ?m ?k) = tm_text m \<and> tm_cursor (move_cursor ?m ?k) = ?k \<and> \<not> pending (move_cursor ?m ?k)"
    using p by (simp add: move_cursor_def)
  ultimately show ?thesis
    using finish_frame [of env "move_cursor ?m ?k"]
    by (simp add: fplinux_ui_text_model_set_caret_def c fplinux_ui_text_model_caret_def)
qed

theorem set_caret_position_witness:
  "fplinux_ui_text_model_caret (fplinux_ui_text_model_set_caret example_env example_field 3) = 0"
proof -
  have f: "field_inv TEXT_ANY example_field" using init_inv example_reachable(2) by blast
  have p: "\<not> pending example_field"
    by (simp add: fplinux_text_input_init_def fplinux_text_input_load_languages_def fplinux_text_input_reset_mode_def Let_def)
  show ?thesis using set_caret_position [OF f p] by simp
qed

text \<open>
  C28.  Typing a digit in front of the minus of a number field that is full inserts nothing but
  moves the caret behind the minus, and the field does not count this as a visible change: the
  revision stays the same, although the position of the caret is another one.
\<close>

theorem caret_moves_unseen:
  assumes "tm_focused m" "\<not> tm_read_only m" "\<not> ti_picker_open (tm_input m)" "ti_numeric (tm_input m)"
    "is_number m" "\<not> pending m" "\<not> tm_dirty m" "tm_cursor m = 0" "tm_text m = 0x2d # rest"
    "tm_limit m = tm_characters m" "tm_characters m \<noteq> 0"
    "KEY_NUMERIC_0 \<le> tk_code key" "tk_code key \<le> KEY_NUMERIC_9" "\<not> tk_keyboard key" "tk_pressed key"
  shows "case fplinux_ui_text_model_key env m key now of (r, m') \<Rightarrow>
    tm_text m' = tm_text m \<and> fplinux_ui_text_model_caret m = 0 \<and> fplinux_ui_text_model_caret m' = 1 \<and>
    tm_revision m' = tm_revision m"
proof -
  let ?d = "of_nat (0x30 + tk_code key - KEY_NUMERIC_0) :: u8"
  let ?m = "m\<lparr>tm_phone_zero_held := False, tm_input := fplinux_text_input_cancel_held (tm_input m)\<rparr>"
  have p: "\<not> pending ?m" using assms(6) by (simp add: fplinux_text_input_cancel_held_def)
  then have c: "commit_pending env m = ?m" by (simp add: commit_pending_def)
  have s: "skip_minus ?m = ?m\<lparr>tm_cursor := 1\<rparr>"
    using assms(5,8,9) by (simp add: skip_minus_def is_number_def)
  have dig: "is_digit ?d" by (rule text_field.key_digit [OF text_field.intro [OF example_reachable(1)] assms(12,13)])
  then have "count_characters [?d] (length [?d]) = 1"
    using ascii_not_cont digit_bytes [OF dig] by (simp add: count_characters_def del: of_nat_add of_nat_diff)
  then have i: "insert_bytes env (?m\<lparr>tm_cursor := 1\<rparr>) [?d] = (False, ?m\<lparr>tm_cursor := 1\<rparr>)"
    using assms(10,11) by (simp add: insert_bytes_def fits_def Let_def del: of_nat_add of_nat_diff)
  have t: "type_digit env m (tk_code key) ?d now = ?m\<lparr>tm_cursor := 1\<rparr>"
    unfolding type_digit_def c Let_def s i by simp
  have ty: "tm_type m \<noteq> TEXT_ANY" using assms(5) by (auto simp: is_number_def)
  have k: "phone_key env m (tk_code key) now = (TEXT_CONSUMED, ?m\<lparr>tm_cursor := 1\<rparr>)"
    unfolding phone_key_def Let_def using assms(3,4,12,13) ty t by simp
  have "tk_code key < KEY_COUNT" using assms(13) by (simp add: key_codes KEY_COUNT_def)
  then have r: "fplinux_ui_text_model_key env m key now = (TEXT_CONSUMED,
      set_consumed (?m\<lparr>tm_cursor := 1\<rparr>) False (tk_code key)
        (consumed_byte (?m\<lparr>tm_cursor := 1\<rparr>) False (tk_code key) OR consumed_bit (tk_code key)))"
    unfolding fplinux_ui_text_model_key_def using assms(1,2,7,14,15) k
    by (simp add: finish_model_def set_consumed_def Let_def)
  have "\<not> is_continuation 0x2d" by (simp add: is_continuation_def)
  then show ?thesis
    unfolding r using assms(6,8,9) p
    by (simp add: fplinux_ui_text_model_caret_def set_consumed_def Let_def count_characters_def)
qed

theorem caret_moves_unseen_witness:
  "let m = zero_text_model\<lparr>tm_text := [0x2d, 0x35], tm_characters := 2, tm_limit := 2, tm_focused := True,
       tm_type := TEXT_NUMERIC, tm_input := zero_text_input\<lparr>ti_numeric := True\<rparr>\<rparr>;
       key = \<lparr> tk_keyboard = False, tk_code = KEY_NUMERIC_0 + 7, tk_pressed = True, tk_shortcut = False, tk_text = None \<rparr>
   in tm_revision (snd (fplinux_ui_text_model_key example_env m key 5)) = 0 \<and>
      fplinux_ui_text_model_caret (snd (fplinux_ui_text_model_key example_env m key 5)) = 1"
proof -
  let ?m = "zero_text_model\<lparr>tm_text := [0x2d, 0x35], tm_characters := 2, tm_limit := 2, tm_focused := True,
       tm_type := TEXT_NUMERIC, tm_input := zero_text_input\<lparr>ti_numeric := True\<rparr>\<rparr>"
  let ?key = "\<lparr> tk_keyboard = False, tk_code = KEY_NUMERIC_0 + 7, tk_pressed = True, tk_shortcut = False, tk_text = None \<rparr>"
  have "case fplinux_ui_text_model_key example_env ?m ?key 5 of (r, m') \<Rightarrow>
    tm_text m' = tm_text ?m \<and> fplinux_ui_text_model_caret ?m = 0 \<and> fplinux_ui_text_model_caret m' = 1 \<and>
    tm_revision m' = tm_revision ?m"
    by (rule caret_moves_unseen [where rest = "[0x35]"])
      (simp_all add: zero_text_model_def zero_text_input_def fplinux_multitap_init_def is_number_def key_codes)
  then show ?thesis by (simp add: split_def Let_def zero_text_model_def)
qed

end
