(* ===== verification/Snake.thy ===== *)
theory Snake
  imports Prelude
begin

section \<open>The snake game\<close>

text \<open>
  \<^verbatim>\<open>alpine/aports/fplinux-snake/snake.c\<close>: the model of the game.  \<^verbatim>\<open>body\<close> with \<^verbatim>\<open>length\<close> is the
  list of the cells of the snake, head first; a cell is y * columns + x.  Cells, sides and
  scores are natural numbers: a board has at most 512 cells (\<open>snake_ok\<close>), so the unsigned
  values never wrap.  The random state is a 32-bit word.
\<close>

subsection \<open>Data\<close>

definition SNAKE_MAX_CELLS :: nat where "SNAKE_MAX_CELLS = 512"
definition SNAKE_MIN_SIDE :: nat where "SNAKE_MIN_SIDE = 5"

datatype fplinux_snake_direction = SNAKE_UP | SNAKE_RIGHT | SNAKE_DOWN | SNAKE_LEFT

record fplinux_snake =
  sn_body :: "nat list"
  sn_columns :: nat
  sn_rows :: nat
  sn_score :: nat
  sn_best :: nat
  sn_food :: nat
  sn_random :: u32
  sn_direction :: fplinux_snake_direction
  sn_pending :: fplinux_snake_direction
  sn_paused :: bool
  sn_dead :: bool
  sn_won :: bool

fun direction_number :: "fplinux_snake_direction \<Rightarrow> nat" where
  "direction_number SNAKE_UP = 0"
| "direction_number SNAKE_RIGHT = 1"
| "direction_number SNAKE_DOWN = 2"
| "direction_number SNAKE_LEFT = 3"

subsection \<open>Operations\<close>

definition clamp :: "nat \<Rightarrow> nat \<Rightarrow> nat \<Rightarrow> nat" where
  "clamp value low high = (if value < low then low else if value > high then high else value)"

definition next_random :: "u32 \<Rightarrow> u32" where
  "next_random r =
     (let r = r XOR push_bit 13 r; r = r XOR drop_bit 17 r in r XOR push_bit 5 r)"

text \<open>The loop over the cells: the free cell that \<open>chosen\<close> free cells precede.\<close>

fun find_food :: "nat list \<Rightarrow> nat list \<Rightarrow> nat \<Rightarrow> nat option" where
  "find_food body [] chosen = None"
| "find_food body (cell # cells) chosen =
     (if cell \<in> set body then find_food body cells chosen
      else if chosen = 0 then Some cell
      else find_food body cells (chosen - 1))"

definition place_food :: "fplinux_snake \<Rightarrow> fplinux_snake" where
  "place_food snake =
     (let cells = sn_columns snake * sn_rows snake;
          available = cells - length (sn_body snake)
      in if available = 0 then snake\<lparr>sn_won := True, sn_paused := True\<rparr>
         else
           let random = next_random (sn_random snake);
               snake = snake\<lparr>sn_random := random\<rparr>
           in case find_food (sn_body snake) [0..<cells] (unat random mod available) of
                None \<Rightarrow> snake
              | Some cell \<Rightarrow> snake\<lparr>sn_food := cell\<rparr>)"

definition fplinux_snake_start :: "fplinux_snake \<Rightarrow> u32 \<Rightarrow> nat \<Rightarrow> nat \<Rightarrow> fplinux_snake" where
  "fplinux_snake_start snake seed columns rows =
     (let best = sn_best snake;
          columns = clamp columns SNAKE_MIN_SIDE (SNAKE_MAX_CELLS div SNAKE_MIN_SIDE);
          rows = clamp rows SNAKE_MIN_SIDE (SNAKE_MAX_CELLS div columns);
          center = columns * (rows div 2) + columns div 2
      in place_food
           \<lparr> sn_body = [center, center - 1, center - 2], sn_columns = columns, sn_rows = rows,
             sn_score = 0, sn_best = best, sn_food = 0, sn_random = (if seed \<noteq> 0 then seed else 1),
             sn_direction = SNAKE_RIGHT, sn_pending = SNAKE_RIGHT, sn_paused = True, sn_dead = False,
             sn_won = False \<rparr>)"

definition fplinux_snake_turn :: "fplinux_snake \<Rightarrow> fplinux_snake_direction \<Rightarrow> fplinux_snake" where
  "fplinux_snake_turn snake direction =
     (if sn_pending snake = sn_direction snake \<and>
         (direction_number direction + 2) mod 4 \<noteq> direction_number (sn_direction snake)
      then snake\<lparr>sn_pending := direction\<rparr> else snake)"

text \<open>The position of a cell and the step of a direction, in signed coordinates.\<close>

definition cell_x :: "fplinux_snake \<Rightarrow> nat \<Rightarrow> int" where
  "cell_x snake cell = int cell mod int (sn_columns snake)"

definition cell_y :: "fplinux_snake \<Rightarrow> nat \<Rightarrow> int" where
  "cell_y snake cell = int cell div int (sn_columns snake)"

fun step_x :: "fplinux_snake_direction \<Rightarrow> int" where
  "step_x SNAKE_UP = 0" | "step_x SNAKE_DOWN = 0" | "step_x SNAKE_LEFT = -1" | "step_x SNAKE_RIGHT = 1"

fun step_y :: "fplinux_snake_direction \<Rightarrow> int" where
  "step_y SNAKE_UP = -1" | "step_y SNAKE_DOWN = 1" | "step_y SNAKE_LEFT = 0" | "step_y SNAKE_RIGHT = 0"

definition collision :: "fplinux_snake \<Rightarrow> fplinux_snake" where
  "collision snake = snake\<lparr>sn_dead := True, sn_paused := True\<rparr>"

definition fplinux_snake_tick :: "fplinux_snake \<Rightarrow> bool \<times> fplinux_snake" where
  "fplinux_snake_tick snake =
     (if sn_paused snake \<or> sn_dead snake \<or> sn_won snake then (False, snake)
      else
        let snake = snake\<lparr>sn_direction := sn_pending snake\<rparr>;
            x = cell_x snake (sn_body snake ! 0) + step_x (sn_direction snake);
            y = cell_y snake (sn_body snake ! 0) + step_y (sn_direction snake)
        in if x < 0 \<or> x \<ge> int (sn_columns snake) \<or> y < 0 \<or> y \<ge> int (sn_rows snake)
           then (True, collision snake)
           else
             let next_cell = nat (y * int (sn_columns snake) + x);
                 eating = (next_cell = sn_food snake);
                 occupied = length (sn_body snake) - (if eating then 0 else 1)
             in if next_cell \<in> set (take occupied (sn_body snake)) then (True, collision snake)
                else
                  let new_length = length (sn_body snake) + (if eating then 1 else 0);
                      score = sn_score snake + (if eating then 1 else 0);
                      snake = snake\<lparr>sn_score := score,
                                     sn_best := (if eating \<and> score > sn_best snake then score else sn_best snake),
                                     sn_body := next_cell # take (new_length - 1) (sn_body snake)\<rparr>
                  in (True, if eating then place_food snake else snake))"

section \<open>Facts about the game\<close>

definition cells :: "fplinux_snake \<Rightarrow> nat" where "cells s = sn_columns s * sn_rows s"

definition board_ok :: "fplinux_snake \<Rightarrow> bool" where
  "board_ok s \<longleftrightarrow> SNAKE_MIN_SIDE \<le> sn_columns s \<and> SNAKE_MIN_SIDE \<le> sn_rows s \<and> cells s \<le> SNAKE_MAX_CELLS"

definition body_ok :: "fplinux_snake \<Rightarrow> bool" where
  "body_ok s \<longleftrightarrow> distinct (sn_body s) \<and> (\<forall>c \<in> set (sn_body s). c < cells s) \<and>
     length (sn_body s) = sn_score s + 3 \<and> sn_score s \<le> sn_best s"

text \<open>The head lies one step from the neck, in the direction of the last move.\<close>

definition neck_ok :: "fplinux_snake \<Rightarrow> bool" where
  "neck_ok s \<longleftrightarrow>
     cell_x s (sn_body s ! 0) = cell_x s (sn_body s ! 1) + step_x (sn_direction s) \<and>
     cell_y s (sn_body s ! 0) = cell_y s (sn_body s ! 1) + step_y (sn_direction s) \<and>
     (direction_number (sn_pending s) + 2) mod 4 \<noteq> direction_number (sn_direction s)"

definition snake_ok :: "fplinux_snake \<Rightarrow> bool" where
  "snake_ok s \<longleftrightarrow> board_ok s \<and> body_ok s \<and> (\<not> sn_dead s \<longrightarrow> neck_ok s) \<and>
     (sn_won s \<longleftrightarrow> length (sn_body s) = cells s) \<and>
     (\<not> sn_won s \<longrightarrow> sn_food s < cells s \<and> sn_food s \<notin> set (sn_body s))"

lemma find_food_Some:
  "chosen < length (filter (\<lambda>c. c \<notin> set body) cs) \<Longrightarrow>
     find_food body cs chosen = Some (filter (\<lambda>c. c \<notin> set body) cs ! chosen)"
  by (induction body cs chosen rule: find_food.induct) (auto simp: nth_Cons')

lemma free_cells:
  assumes "distinct body" "\<forall>c \<in> set body. c < n"
  shows "length (filter (\<lambda>c. c \<notin> set body) [0..<n]) = n - length body"
proof -
  have "set (filter (\<lambda>c. c \<notin> set body) [0..<n]) = {0..<n} - set body" by auto
  then have "length (filter (\<lambda>c. c \<notin> set body) [0..<n]) = card ({0..<n} - set body)"
    by (metis distinct_card distinct_filter distinct_upt)
  also have "\<dots> = n - length body"
    using assms by (subst card_Diff_subset) (auto simp: distinct_card)
  finally show ?thesis .
qed

lemma place_food_ok:
  assumes "distinct (sn_body s)" "\<forall>c \<in> set (sn_body s). c < cells s" "\<not> sn_won s"
  shows "let s' = place_food s in
    (sn_won s' \<longleftrightarrow> length (sn_body s) = cells s) \<and>
    (\<not> sn_won s' \<longrightarrow> sn_food s' < cells s \<and> sn_food s' \<notin> set (sn_body s)) \<and>
    sn_body s' = sn_body s \<and> sn_columns s' = sn_columns s \<and> sn_rows s' = sn_rows s \<and> sn_score s' = sn_score s \<and>
    sn_best s' = sn_best s \<and> sn_direction s' = sn_direction s \<and> sn_pending s' = sn_pending s \<and> sn_dead s' = sn_dead s"
proof -
  let ?n = "cells s" and ?b = "sn_body s"
  have len: "length ?b \<le> ?n"
    using assms(1,2) by (metis card_mono distinct_card finite_lessThan lessThan_iff subsetI card_lessThan)
  show ?thesis
  proof (cases "?n - length ?b = 0")
    case True
    with len show ?thesis by (auto simp: place_food_def cells_def Let_def)
  next
    case False
    define k where "k = unat (next_random (sn_random s)) mod (?n - length ?b)"
    have k: "k < length (filter (\<lambda>c. c \<notin> set ?b) [0..<?n])"
      unfolding free_cells [OF assms(1,2)] k_def using False by simp
    from find_food_Some [OF this] have f: "find_food ?b [0..<?n] k = Some (filter (\<lambda>c. c \<notin> set ?b) [0..<?n] ! k)" .
    have "filter (\<lambda>c. c \<notin> set ?b) [0..<?n] ! k \<in> set (filter (\<lambda>c. c \<notin> set ?b) [0..<?n])" using k by (rule nth_mem)
    moreover have "place_food s = s\<lparr>sn_random := next_random (sn_random s), sn_food := filter (\<lambda>c. c \<notin> set ?b) [0..<?n] ! k\<rparr>"
      using False f by (simp add: place_food_def cells_def Let_def k_def)
    ultimately show ?thesis using False assms(3) by (auto simp: Let_def)
  qed
qed

lemma cell_coordinates:
  assumes "0 \<le> x" "x < int (sn_columns s)" "0 \<le> y" "y < int (sn_rows s)"
  shows "cell_x s (nat (y * int (sn_columns s) + x)) = x" "cell_y s (nat (y * int (sn_columns s) + x)) = y"
    "nat (y * int (sn_columns s) + x) < cells s"
proof -
  let ?c = "int (sn_columns s)"
  have nn: "int (nat (y * ?c + x)) = y * ?c + x" using assms by simp
  show "cell_x s (nat (y * ?c + x)) = x" unfolding cell_x_def nn using assms by (simp add: mod_mult_self3)
  show "cell_y s (nat (y * ?c + x)) = y" unfolding cell_y_def nn using assms by simp
  have "y * ?c + x < y * ?c + ?c" using assms by simp
  also have "\<dots> = (y + 1) * ?c" by (simp add: algebra_simps)
  also have "\<dots> \<le> int (sn_rows s) * ?c" using assms by (intro mult_right_mono) auto
  finally have "int (nat (y * ?c + x)) < int (cells s)" unfolding nn by (simp add: cells_def mult.commute)
  then show "nat (y * ?c + x) < cells s" by (rule of_nat_less_imp_less)
qed

lemma direction_straight [simp]: "(direction_number d + 2) mod 4 \<noteq> direction_number d"
  "Suc (Suc (direction_number d)) mod 4 \<noteq> direction_number d"
  by (cases d, auto)+

lemma opposite_direction:
  "step_x p = - step_x d \<Longrightarrow> step_y p = - step_y d \<Longrightarrow> (direction_number p + 2) mod 4 = direction_number d"
  by (cases p; cases d) auto

lemma turn_frame [simp]:
  "sn_body (fplinux_snake_turn s d) = sn_body s" "sn_columns (fplinux_snake_turn s d) = sn_columns s"
  "sn_rows (fplinux_snake_turn s d) = sn_rows s" "sn_dead (fplinux_snake_turn s d) = sn_dead s"
  by (simp_all add: fplinux_snake_turn_def)

lemma turn_ok: "snake_ok s \<Longrightarrow> snake_ok (fplinux_snake_turn s d)"
  by (auto simp: fplinux_snake_turn_def snake_ok_def board_ok_def body_ok_def neck_ok_def cells_def cell_x_def cell_y_def)

lemma clamp_bounds: "low \<le> high \<Longrightarrow> low \<le> clamp v low high \<and> clamp v low high \<le> high"
  by (simp add: clamp_def)

lemma start_ok: "snake_ok (fplinux_snake_start s seed columns rows)"
proof -
  define c where "c = clamp columns SNAKE_MIN_SIDE (SNAKE_MAX_CELLS div SNAKE_MIN_SIDE)"
  define r where "r = clamp rows SNAKE_MIN_SIDE (SNAKE_MAX_CELLS div c)"
  define m where "m = c * (r div 2) + c div 2"
  define s0 where "s0 = \<lparr> sn_body = [m, m - 1, m - 2], sn_columns = c, sn_rows = r,
             sn_score = 0, sn_best = sn_best s, sn_food = 0, sn_random = (if seed \<noteq> 0 then seed else 1),
             sn_direction = SNAKE_RIGHT, sn_pending = SNAKE_RIGHT, sn_paused = True, sn_dead = False,
             sn_won = False \<rparr>"
  have c: "5 \<le> c" "c \<le> 102"
    using clamp_bounds [of SNAKE_MIN_SIDE "SNAKE_MAX_CELLS div SNAKE_MIN_SIDE" columns]
    by (simp_all add: c_def SNAKE_MIN_SIDE_def SNAKE_MAX_CELLS_def)
  have "5 * c \<le> 512" using c(2) by simp
  then have "5 \<le> 512 div c" using c(1) by (simp add: less_eq_div_iff_mult_less_eq mult.commute)
  then have r: "5 \<le> r" "r \<le> 512 div c"
    using clamp_bounds [of SNAKE_MIN_SIDE "SNAKE_MAX_CELLS div c" rows]
    by (simp_all add: r_def SNAKE_MIN_SIDE_def SNAKE_MAX_CELLS_def)
  have area: "c * r \<le> 512" using r(2) c(1) by (simp add: less_eq_div_iff_mult_less_eq mult.commute)
  have half: "2 \<le> c div 2" "c div 2 < c" "r div 2 < r" using c(1) r(1) by auto
  then have m: "2 \<le> m" by (simp add: m_def)
  have "r div 2 + 1 \<le> r" using half by simp
  then have "c * (r div 2 + 1) \<le> c * r" by (rule mult_le_mono2)
  moreover have "m < c * (r div 2 + 1)" using half by (simp add: m_def)
  ultimately have mlt: "m < c * r" by linarith
  have big: "3 < c * r" using c(1) r(1) mult_le_mono [of 5 c 5 r] by linarith
  have x: "int m mod int c = int (c div 2)" "int m div int c = int (r div 2)"
    using half by (simp_all add: m_def flip: of_nat_mod of_nat_div)
  have m1: "m - 1 = c * (r div 2) + (c div 2 - 1)" using half by (simp add: m_def)
  have "c div 2 - 1 < c" using half by linarith
  then have "(m - 1) mod c = c div 2 - 1" "(m - 1) div c = r div 2" unfolding m1 by simp_all
  then have x1: "int (m - 1) mod int c = int (c div 2 - 1)" "int (m - 1) div int c = int (r div 2)"
    by (metis of_nat_mod, metis of_nat_div)
  have b: "board_ok s0" using c r area by (simp add: board_ok_def s0_def SNAKE_MIN_SIDE_def SNAKE_MAX_CELLS_def cells_def)
  have d: "distinct (sn_body s0)" "\<forall>k \<in> set (sn_body s0). k < cells s0" "\<not> sn_won s0"
    using m mlt by (auto simp: s0_def cells_def)
  have n: "neck_ok s0"
    using x x1 half by (simp add: neck_ok_def s0_def cell_x_def cell_y_def)
  have "fplinux_snake_start s seed columns rows = place_food s0"
    by (simp add: fplinux_snake_start_def Let_def s0_def c_def r_def m_def)
  moreover have "length (sn_body s0) = 3" "sn_score s0 = 0" by (simp_all add: s0_def)
  ultimately show ?thesis
    using place_food_ok [OF d] b n d
    by (auto simp: snake_ok_def board_ok_def body_ok_def neck_ok_def Let_def cell_x_def cell_y_def cells_def)
qed

text \<open>A tick of a running game, by what is in front of the head.\<close>

definition head_x :: "fplinux_snake \<Rightarrow> int" where
  "head_x s = cell_x s (sn_body s ! 0) + step_x (sn_pending s)"

definition head_y :: "fplinux_snake \<Rightarrow> int" where
  "head_y s = cell_y s (sn_body s ! 0) + step_y (sn_pending s)"

definition inside :: "fplinux_snake \<Rightarrow> bool" where
  "inside s \<longleftrightarrow> 0 \<le> head_x s \<and> head_x s < int (sn_columns s) \<and> 0 \<le> head_y s \<and> head_y s < int (sn_rows s)"

definition next_cell :: "fplinux_snake \<Rightarrow> nat" where
  "next_cell s = nat (head_y s * int (sn_columns s) + head_x s)"

definition moved :: "fplinux_snake \<Rightarrow> fplinux_snake" where
  "moved s = (let eating = (next_cell s = sn_food s) in
     s\<lparr>sn_direction := sn_pending s,
       sn_score := sn_score s + (if eating then 1 else 0),
       sn_best := (if eating \<and> sn_score s + 1 > sn_best s then sn_score s + 1 else sn_best s),
       sn_body := next_cell s # (if eating then sn_body s else butlast (sn_body s))\<rparr>)"

lemma tick_cases:
  assumes "\<not> sn_paused s" "\<not> sn_dead s" "\<not> sn_won s"
  shows "fplinux_snake_tick s =
    (if \<not> inside s \<or> next_cell s \<in> set (if next_cell s = sn_food s then sn_body s else butlast (sn_body s))
     then (True, collision (s\<lparr>sn_direction := sn_pending s\<rparr>))
     else (True, if next_cell s = sn_food s then place_food (moved s) else moved s))"
proof -
  have f: "cell_x (s\<lparr>sn_direction := d\<rparr>) k = cell_x s k" "cell_y (s\<lparr>sn_direction := d\<rparr>) k = cell_y s k" for d k
    by (simp_all add: cell_x_def cell_y_def)
  show ?thesis
    using assms
    by (simp add: fplinux_snake_tick_def f head_x_def [symmetric] head_y_def [symmetric] next_cell_def [symmetric]
        inside_def moved_def Let_def butlast_conv_take not_less not_le)
qed

lemma moved_ok:
  assumes "snake_ok s" "\<not> sn_won s" "\<not> sn_dead s" "inside s"
    "next_cell s \<notin> set (if next_cell s = sn_food s then sn_body s else butlast (sn_body s))"
  shows "board_ok (moved s)" "body_ok (moved s)" "neck_ok (moved s)" "cells (moved s) = cells s"
proof -
  let ?tail = "if next_cell s = sn_food s then sn_body s else butlast (sn_body s)"
  have len: "length (sn_body s) = sn_score s + 3" and b: "body_ok s" and bd: "board_ok s"
    using assms(1) by (auto simp: snake_ok_def body_ok_def)
  show "board_ok (moved s)" "cells (moved s) = cells s"
    using bd by (simp_all add: moved_def board_ok_def cells_def Let_def)
  have "next_cell s < cells s" using assms(4) cell_coordinates(3) by (simp add: inside_def next_cell_def)
  moreover have "distinct ?tail" "set ?tail \<subseteq> set (sn_body s)"
    using b by (auto simp: body_ok_def distinct_butlast dest: in_set_butlastD)
  ultimately show "body_ok (moved s)"
    using assms(5) b len by (auto simp: body_ok_def moved_def Let_def cells_def)
  have ne: "?tail \<noteq> []" "?tail ! 0 = sn_body s ! 0"
    using len by (cases "sn_body s"; auto simp: nth_butlast neq_Nil_conv)+
  have "cell_x (moved s) (next_cell s) = head_x s" "cell_y (moved s) (next_cell s) = head_y s"
    using assms(4) cell_coordinates(1,2) by (simp_all add: inside_def next_cell_def moved_def Let_def cell_x_def cell_y_def)
  moreover have "cell_x (moved s) k = cell_x s k" "cell_y (moved s) k = cell_y s k" for k
    by (simp_all add: moved_def Let_def cell_x_def cell_y_def)
  moreover have "sn_body (moved s) = next_cell s # ?tail" "sn_direction (moved s) = sn_pending s"
    "sn_pending (moved s) = sn_pending s" by (simp_all add: moved_def Let_def)
  ultimately show "neck_ok (moved s)"
    unfolding neck_ok_def using ne by (simp add: head_x_def head_y_def)
qed

lemma tick_ok:
  assumes "snake_ok s"
  shows "snake_ok (snd (fplinux_snake_tick s))"
proof (cases "sn_paused s \<or> sn_dead s \<or> sn_won s")
  case True
  with assms show ?thesis by (simp add: fplinux_snake_tick_def)
next
  case False
  let ?tail = "if next_cell s = sn_food s then sn_body s else butlast (sn_body s)"
  have t: "fplinux_snake_tick s = (if \<not> inside s \<or> next_cell s \<in> set ?tail
     then (True, collision (s\<lparr>sn_direction := sn_pending s\<rparr>))
     else (True, if next_cell s = sn_food s then place_food (moved s) else moved s))"
    using tick_cases False by blast
  show ?thesis
  proof (cases "\<not> inside s \<or> next_cell s \<in> set ?tail")
    case True
    have "snake_ok (collision (s\<lparr>sn_direction := sn_pending s\<rparr>))"
      using assms by (simp add: snake_ok_def collision_def board_ok_def body_ok_def cells_def)
    with True show ?thesis unfolding t by simp
  next
    case free: False
    then have "inside s" "next_cell s \<notin> set ?tail" by auto
    note m = moved_ok [OF assms _ _ this]
    have m': "board_ok (moved s)" "body_ok (moved s)" "neck_ok (moved s)" "cells (moved s) = cells s"
      using m False by auto
    have w: "\<not> sn_won (moved s)" "\<not> sn_dead (moved s)" "sn_food (moved s) = sn_food s"
      using False by (simp_all add: moved_def Let_def)
    show ?thesis
    proof (cases "next_cell s = sn_food s")
      case True
      have d: "distinct (sn_body (moved s))" "\<forall>c \<in> set (sn_body (moved s)). c < cells (moved s)"
        using m'(2) by (simp_all add: body_ok_def)
      have "snake_ok (place_food (moved s))"
        using place_food_ok [OF d w(1)] m' w(2)
        by (auto simp: snake_ok_def board_ok_def body_ok_def neck_ok_def Let_def cell_x_def cell_y_def cells_def)
      with True free show ?thesis unfolding t by simp
    next
      case no: False
      have "sn_body (moved s) = next_cell s # butlast (sn_body s)" using no by (simp add: moved_def Let_def)
      moreover have "length (sn_body s) = sn_score s + 3" using assms by (simp add: snake_ok_def body_ok_def)
      ultimately have "length (sn_body (moved s)) = length (sn_body s)"
        "sn_food s \<notin> set (sn_body (moved s))"
        using no assms False by (auto simp: snake_ok_def dest: in_set_butlastD)
      then have "snake_ok (moved s)" using assms m' w False by (simp add: snake_ok_def)
      with no free show ?thesis unfolding t by simp
    qed
  qed
qed

lemma place_food_frame [simp]:
  "sn_body (place_food s) = sn_body s" "sn_columns (place_food s) = sn_columns s" "sn_rows (place_food s) = sn_rows s"
  "sn_dead (place_food s) = sn_dead s" "sn_direction (place_food s) = sn_direction s"
  "sn_pending (place_food s) = sn_pending s"
  by (simp_all add: place_food_def Let_def split: option.split)

section \<open>Properties of the game\<close>

text \<open>
  The application starts games, forwards turns, lets the game tick and toggles the pause.
\<close>

inductive snake_step :: "fplinux_snake \<Rightarrow> fplinux_snake \<Rightarrow> bool" where
  snake_start: "snake_step s (fplinux_snake_start s seed columns rows)"
| snake_turn: "snake_step s (fplinux_snake_turn s d)"
| snake_tick: "snake_step s (snd (fplinux_snake_tick s))"
| snake_pause: "snake_step s (s\<lparr>sn_paused := p\<rparr>)"

lemma step_ok: "snake_step s t \<Longrightarrow> snake_ok s \<Longrightarrow> snake_ok t"
  by (induction rule: snake_step.induct)
    (auto simp: start_ok turn_ok tick_ok, auto simp: snake_ok_def board_ok_def body_ok_def neck_ok_def cells_def
      cell_x_def cell_y_def)

lemma run_ok: "snake_step\<^sup>*\<^sup>* s t \<Longrightarrow> snake_ok s \<Longrightarrow> snake_ok t"
  by (induction rule: rtranclp_induct) (auto dest: step_ok)

text \<open>
  C5.  Whatever the sides and the seed a game was started with and whatever happens then, the
  body of the snake consists of distinct cells of the board and its length is the score plus
  three; the food lies on a free cell until the game is won, and it is won exactly when the
  snake covers the board; the array of 512 cells is never exceeded.
\<close>

theorem snake_invariant:
  assumes "snake_step\<^sup>*\<^sup>* (fplinux_snake_start s0 seed columns rows) s"
  shows "distinct (sn_body s) \<and> (\<forall>c \<in> set (sn_body s). c < sn_columns s * sn_rows s) \<and>
    length (sn_body s) = sn_score s + 3 \<and> length (sn_body s) \<le> SNAKE_MAX_CELLS \<and> sn_score s \<le> sn_best s \<and>
    (sn_won s \<longleftrightarrow> length (sn_body s) = sn_columns s * sn_rows s) \<and>
    (\<not> sn_won s \<longrightarrow> sn_food s < sn_columns s * sn_rows s \<and> sn_food s \<notin> set (sn_body s))"
proof -
  have s: "snake_ok s" using run_ok [OF assms start_ok] .
  have "length (sn_body s) \<le> cells s"
    using s by (metis body_ok_def card_lessThan card_mono distinct_card finite_lessThan lessThan_iff snake_ok_def subsetI)
  with s show ?thesis by (auto simp: snake_ok_def body_ok_def board_ok_def cells_def)
qed

theorem snake_invariant_witness:
  "let s = snd (fplinux_snake_tick ((fplinux_snake_start \<lparr> sn_body = [], sn_columns = 0, sn_rows = 0, sn_score = 0,
       sn_best = 7, sn_food = 0, sn_random = 0, sn_direction = SNAKE_UP, sn_pending = SNAKE_UP, sn_paused = False,
       sn_dead = False, sn_won = False \<rparr> 42 10 9)\<lparr>sn_paused := False\<rparr>))
   in distinct (sn_body s) \<and> length (sn_body s) = sn_score s + 3"
proof -
  let ?z = "\<lparr> sn_body = [], sn_columns = 0, sn_rows = 0, sn_score = 0,
       sn_best = 7, sn_food = 0, sn_random = 0, sn_direction = SNAKE_UP, sn_pending = SNAKE_UP, sn_paused = False,
       sn_dead = False, sn_won = False \<rparr>"
  have "snake_step\<^sup>*\<^sup>* (fplinux_snake_start ?z 42 10 9)
      (snd (fplinux_snake_tick ((fplinux_snake_start ?z 42 10 9)\<lparr>sn_paused := False\<rparr>)))"
    by (rule rtranclp.rtrancl_into_rtrancl [OF r_into_rtranclp [where r = snake_step, OF snake_pause] snake_tick])
  from snake_invariant [OF this] show ?thesis by (simp add: Let_def)
qed

text \<open>
  The snake cannot turn back into its own neck: no sequence of turns between two ticks
  makes the next cell the one behind the head.
\<close>

theorem no_reversal:
  assumes "snake_step\<^sup>*\<^sup>* (fplinux_snake_start s0 seed columns rows) s" "\<not> sn_dead s"
    "inside (foldl fplinux_snake_turn s ds)"
  shows "next_cell (foldl fplinux_snake_turn s ds) \<noteq> sn_body s ! 1"
proof
  let ?t = "foldl fplinux_snake_turn s ds"
  have s: "snake_ok s" using run_ok [OF assms(1) start_ok] .
  have t: "snake_ok ?t" "sn_body ?t = sn_body s" "\<not> sn_dead ?t"
    using s assms(2) by (induction ds arbitrary: s) (simp_all add: turn_ok)
  then have n: "neck_ok ?t" by (simp add: snake_ok_def)
  assume eq: "next_cell ?t = sn_body s ! 1"
  have "cell_x ?t (next_cell ?t) = head_x ?t" "cell_y ?t (next_cell ?t) = head_y ?t"
    using assms(3) cell_coordinates(1,2) by (simp_all add: inside_def next_cell_def)
  then have "step_x (sn_pending ?t) = - step_x (sn_direction ?t)" "step_y (sn_pending ?t) = - step_y (sn_direction ?t)"
    using n t(2) eq by (simp_all add: neck_ok_def head_x_def head_y_def)
  from opposite_direction [OF this] n show False by (simp add: neck_ok_def)
qed

theorem no_reversal_witness:
  "let z = \<lparr> sn_body = [], sn_columns = 0, sn_rows = 0, sn_score = 0,
       sn_best = 7, sn_food = 0, sn_random = 0, sn_direction = SNAKE_UP, sn_pending = SNAKE_UP, sn_paused = False,
       sn_dead = False, sn_won = False \<rparr>; s = fplinux_snake_start z 42 10 9
   in next_cell (foldl fplinux_snake_turn s [SNAKE_UP, SNAKE_LEFT]) \<noteq> sn_body s ! 1"
proof -
  let ?z = "\<lparr> sn_body = [], sn_columns = 0, sn_rows = 0, sn_score = 0,
       sn_best = 7, sn_food = 0, sn_random = 0, sn_direction = SNAKE_UP, sn_pending = SNAKE_UP, sn_paused = False,
       sn_dead = False, sn_won = False \<rparr>"
  let ?s = "fplinux_snake_start ?z 42 10 9"
  have d: "\<not> sn_dead ?s" by (simp add: fplinux_snake_start_def Let_def)
  have i: "inside (foldl fplinux_snake_turn ?s [SNAKE_UP, SNAKE_LEFT])"
    by (simp add: fplinux_snake_start_def Let_def fplinux_snake_turn_def inside_def head_x_def head_y_def cell_x_def
        cell_y_def clamp_def SNAKE_MIN_SIDE_def SNAKE_MAX_CELLS_def)
  show ?thesis unfolding Let_def by (rule no_reversal [OF rtranclp.rtrancl_refl d i])
qed

end
