(* ===== verification/Clock_Model.thy ===== *)
theory Clock_Model
  imports Utf8
begin

section \<open>Alarms, timer, stopwatch and world clock\<close>

text \<open>
  \<^verbatim>\<open>alpine/aports/fplinux-clocks/clock-model.c\<close>: the state machine behind the clock application
  and its daemon.  Wall clock times are \<open>int\<close> (every one that enters arithmetic was checked
  to lie between 1980 and 2099), monotonic times and event ids 64-bit words, ids and
  generations 32-bit words.  An array with its count is the list of the live entries; the
  source clears the entries behind them.  A pointer into an array is an index.  NULL arguments,
  which every operation rejects first, have no counterpart.  Operations return their status and
  the model.
\<close>

subsection \<open>Data\<close>

definition CLOCK_ALARM_LIMIT :: nat where "CLOCK_ALARM_LIMIT = 8"
definition CLOCK_WORLD_LIMIT :: nat where "CLOCK_WORLD_LIMIT = 8"
definition CLOCK_QUEUE_LIMIT :: nat where "CLOCK_QUEUE_LIMIT = 8"
definition CLOCK_MISSED_LIMIT :: nat where "CLOCK_MISSED_LIMIT = 8"
definition CLOCK_LAP_LIMIT :: nat where "CLOCK_LAP_LIMIT = 20"
definition CLOCK_TEXT_BYTES :: nat where "CLOCK_TEXT_BYTES = 128"
definition CLOCK_TEXT_CHARACTERS :: nat where "CLOCK_TEXT_CHARACTERS = 32"
definition CLOCK_TIMER_MAX_SECONDS :: nat where "CLOCK_TIMER_MAX_SECONDS = 359999"
definition CLOCK_RING_TIMEOUT_MS :: u64 where "CLOCK_RING_TIMEOUT_MS = 60000"
definition CLOCK_ALARM_GRACE_SECONDS :: int where "CLOCK_ALARM_GRACE_SECONDS = 60"
definition CLOCK_WALL_MIN :: int where "CLOCK_WALL_MIN = 315532800"
definition CLOCK_WALL_MAX :: int where "CLOCK_WALL_MAX = 4102444799"
definition SECONDS_PER_DAY :: int where "SECONDS_PER_DAY = 86400"

datatype clock_status = CLOCK_OK | CLOCK_INVALID | CLOCK_NOT_FOUND | CLOCK_FULL | CLOCK_ACTIVE_EVENT
  | CLOCK_STALE_EVENT | CLOCK_NO_EVENT | CLOCK_WRONG_STATE | CLOCK_TIME_BACKWARD | CLOCK_EXHAUSTED
  | CLOCK_STORAGE_ERROR

datatype clock_alarm_schedule = ALARM_ONCE | ALARM_WEEKLY
datatype clock_view = VIEW_DIGITAL | VIEW_ANALOG
datatype clock_event_kind = EVENT_NONE | EVENT_ALARM | EVENT_TIMER
datatype clock_missed_reason = MISSED_NONE | MISSED_LATE | MISSED_QUEUE_FULL | MISSED_EXPIRED
datatype clock_timer_state = TIMER_STOPPED | TIMER_RUNNING | TIMER_PAUSED | TIMER_FINISHED

record clock_alarm_spec =
  sp_label :: bytes
  sp_schedule :: clock_alarm_schedule
  sp_once_utc :: int
  sp_hour :: nat
  sp_minute :: nat
  sp_repeat_days :: nat
  sp_enabled :: bool

record clock_alarm =
  al_id :: u32
  al_generation :: u32
  al_spec :: clock_alarm_spec
  al_next_due_utc :: int
  al_last_due_utc :: int
  al_snoozed :: bool
  al_snooze_deadline_ms :: u64

record clock_event =
  ev_id :: u64
  ev_kind :: clock_event_kind
  ev_source_id :: u32
  ev_generation :: u32
  ev_label :: bytes
  ev_due_wall_utc :: int
  ev_due_monotonic_ms :: u64
  ev_ring_started_ms :: u64
  ev_snoozed :: bool
  ev_missed_reason :: clock_missed_reason

record clock_timer =
  ct_state :: clock_timer_state
  ct_generation :: u32
  ct_duration_seconds :: nat
  ct_remaining_ms :: u64
  ct_deadline_ms :: u64

record clock_lap =
  lap_elapsed_ms :: u64
  lap_difference_ms :: u64

record clock_stopwatch =
  sw_running :: bool
  sw_elapsed_ms :: u64
  sw_laps :: "clock_lap list"

record clock_world_entry =
  we_id :: u32
  we_offset_minutes :: int

record clock_local_time =
  lt_year :: int
  lt_month :: nat
  lt_day :: nat
  lt_weekday :: nat
  lt_hour :: nat
  lt_minute :: nat
  lt_second :: nat

record clock_model =
  cm_wall_utc :: int
  cm_monotonic_ms :: u64
  cm_view :: clock_view
  cm_snooze_minutes :: nat
  cm_last_alarm_hour :: nat
  cm_last_alarm_minute :: nat
  cm_alarms :: "clock_alarm list"
  cm_active :: clock_event
  cm_queue :: "clock_event list"
  cm_missed :: "clock_event list"
  cm_missed_total :: u64
  cm_timer :: clock_timer
  cm_stopwatch :: clock_stopwatch
  cm_world :: "clock_world_entry list"
  cm_next_alarm_id :: u32
  cm_next_world_id :: u32
  cm_next_event_id :: u64

text \<open>Memory cleared by \<^verbatim>\<open>memset\<close>.\<close>

definition zero_event :: clock_event where
  "zero_event = \<lparr> ev_id = 0, ev_kind = EVENT_NONE, ev_source_id = 0, ev_generation = 0, ev_label = [],
     ev_due_wall_utc = 0, ev_due_monotonic_ms = 0, ev_ring_started_ms = 0, ev_snoozed = False,
     ev_missed_reason = MISSED_NONE \<rparr>"

definition zero_stopwatch :: clock_stopwatch where
  "zero_stopwatch = \<lparr> sw_running = False, sw_elapsed_ms = 0, sw_laps = [] \<rparr>"

definition zero_timer :: clock_timer where
  "zero_timer = \<lparr> ct_state = TIMER_STOPPED, ct_generation = 0, ct_duration_seconds = 0,
     ct_remaining_ms = 0, ct_deadline_ms = 0 \<rparr>"

subsection \<open>Time\<close>

definition valid_wall :: "int \<Rightarrow> bool" where
  "valid_wall wall_utc \<longleftrightarrow> wall_utc \<ge> CLOCK_WALL_MIN \<and> wall_utc \<le> CLOCK_WALL_MAX"

definition saturated_add :: "u64 \<Rightarrow> u64 \<Rightarrow> u64" where
  "saturated_add value increment = (if increment > UINT64_MAX - value then UINT64_MAX else value + increment)"

text \<open>
  The proleptic Gregorian calendar of \<^verbatim>\<open>gmtime_r\<close> and \<^verbatim>\<open>timegm\<close>, for days since 1970-01-01
  and for months numbered from 0.
\<close>

definition leap_year :: "nat \<Rightarrow> bool" where
  "leap_year y \<longleftrightarrow> y mod 4 = 0 \<and> y mod 100 \<noteq> 0 \<or> y mod 400 = 0"

definition year_days :: "nat \<Rightarrow> nat" where
  "year_days y = (if leap_year y then 366 else 365)"

definition month_days :: "nat \<Rightarrow> nat \<Rightarrow> nat" where
  "month_days y m = (if m = 1 then (if leap_year y then 29 else 28)
     else if m \<in> {3, 5, 8, 10} then 30 else 31)"

lemma year_days_pos [simp]: "0 < year_days y"
  by (simp add: year_days_def)

function split_year :: "nat \<Rightarrow> nat \<Rightarrow> nat \<times> nat" where
  "split_year y day = (if day < year_days y then (y, day) else split_year (y + 1) (day - year_days y))"
  by pat_completeness auto
termination
  by (relation "measure (\<lambda>(y, day). day)")
    (simp_all add: not_less, metis diff_less less_le_trans year_days_pos)

declare split_year.simps [simp del]

fun split_month :: "nat \<Rightarrow> nat list \<Rightarrow> nat \<Rightarrow> nat \<times> nat" where
  "split_month m [] day = (m, day)"
| "split_month m (n # ns) day = (if day < n then (m, day) else split_month (m + 1) ns (day - n))"

definition gmtime :: "int \<Rightarrow> clock_local_time" where
  "gmtime instant =
     (let day = nat (instant div 86400); second = nat (instant mod 86400);
          (year, year_day) = split_year 1970 day;
          (month, month_day) = split_month 0 (map (month_days year) [0..<12]) year_day
      in \<lparr> lt_year = int year, lt_month = month + 1, lt_day = month_day + 1, lt_weekday = (day + 4 + 6) mod 7,
           lt_hour = second div 3600, lt_minute = second div 60 mod 60, lt_second = second mod 60 \<rparr>)"

definition timegm :: "clock_local_time \<Rightarrow> int" where
  "timegm value =
     (let year = nat (lt_year value);
          day = sum_list (map year_days [1970..<year]) + sum_list (map (month_days year) [0..<lt_month value - 1])
      in (int day + int (lt_day value) - 1) * 86400 + int (lt_hour value) * 3600 + int (lt_minute value) * 60 +
         int (lt_second value))"

definition clock_model_utc_time :: "int \<Rightarrow> clock_local_time option" where
  "clock_model_utc_time wall_utc = (if \<not> valid_wall wall_utc then None else Some (gmtime wall_utc))"

definition clock_model_utc_from_calendar :: "clock_local_time \<Rightarrow> int option" where
  "clock_model_utc_from_calendar calendar =
     (if lt_year calendar < 1980 \<or> lt_year calendar > 2099 \<or> lt_month calendar < 1 \<or> lt_month calendar > 12 \<or>
         lt_day calendar < 1 \<or> lt_day calendar > 31 \<or> lt_hour calendar > 23 \<or> lt_minute calendar > 59 \<or>
         lt_second calendar > 59
      then None
      else
        let instant = timegm calendar in
        case clock_model_utc_time instant of
          None \<Rightarrow> None
        | Some checked \<Rightarrow>
            if lt_year checked \<noteq> lt_year calendar \<or> lt_month checked \<noteq> lt_month calendar \<or>
               lt_day checked \<noteq> lt_day calendar \<or> lt_hour checked \<noteq> lt_hour calendar \<or>
               lt_minute checked \<noteq> lt_minute calendar \<or> lt_second checked \<noteq> lt_second calendar
            then None else Some instant)"

subsection \<open>Labels and schedules\<close>

function check_text :: "bytes \<Rightarrow> nat \<Rightarrow> bool" where
  "check_text cursor characters =
     (if cursor = [] then True
      else case fplinux_utf8_next cursor of
        None \<Rightarrow> False
      | Some (codepoint, rest) \<Rightarrow>
          if codepoint < 0x20 \<or> codepoint \<ge> 0x7f \<and> codepoint \<le> 0x9f then False
          else if characters + 1 > CLOCK_TEXT_CHARACTERS then False
          else check_text rest (characters + 1))"
  by pat_completeness auto
termination by (relation "measure (\<lambda>(c, n). length c)") (auto dest: utf8_next_shorter)

declare check_text.simps [simp del]

definition clock_model_validate_text :: "bytes \<Rightarrow> bool \<Rightarrow> clock_status" where
  "clock_model_validate_text text_bytes allow_empty =
     (if length text_bytes > CLOCK_TEXT_BYTES \<or> \<not> allow_empty \<and> text_bytes = [] then CLOCK_INVALID
      else if check_text text_bytes 0 then CLOCK_OK else CLOCK_INVALID)"

definition validate_string :: "bytes \<Rightarrow> bool \<Rightarrow> clock_status" where
  "validate_string text_bytes allow_empty =
     clock_model_validate_text (takeWhile (\<lambda>b. b \<noteq> 0) (take (CLOCK_TEXT_BYTES + 1) text_bytes)) allow_empty"

definition valid_spec :: "clock_alarm_spec \<Rightarrow> bool" where
  "valid_spec spec \<longleftrightarrow>
     validate_string (sp_label spec) True = CLOCK_OK \<and>
     (case sp_schedule spec of
        ALARM_ONCE \<Rightarrow> valid_wall (sp_once_utc spec) \<and> sp_once_utc spec mod 60 = 0 \<and> sp_hour spec = 0 \<and>
          sp_minute spec = 0 \<and> sp_repeat_days spec = 0
      | ALARM_WEEKLY \<Rightarrow> sp_once_utc spec = 0 \<and> sp_hour spec < 24 \<and> sp_minute spec < 60 \<and>
          sp_repeat_days spec \<noteq> 0 \<and> sp_repeat_days spec \<le> 0x7f)"

definition due_candidate :: "clock_alarm_spec \<Rightarrow> int \<Rightarrow> int" where
  "due_candidate spec local_day =
     local_day * SECONDS_PER_DAY + int (sp_hour spec) * 3600 + int (sp_minute spec) * 60"

fun first_due :: "clock_alarm_spec \<Rightarrow> int \<Rightarrow> int \<Rightarrow> nat list \<Rightarrow> int option" where
  "first_due spec after day [] = None"
| "first_due spec after day (offset # offsets) =
     (let local_day = day + int offset; weekday = nat ((local_day + 3) mod 7); candidate = due_candidate spec local_day
      in if candidate > after \<and> valid_wall candidate \<and> bit (sp_repeat_days spec) weekday then Some candidate
         else first_due spec after day offsets)"

definition clock_model_alarm_next_due :: "clock_alarm_spec \<Rightarrow> int \<Rightarrow> int option" where
  "clock_model_alarm_next_due spec after =
     (if \<not> valid_spec spec \<or> \<not> valid_wall after then None
      else case sp_schedule spec of
        ALARM_ONCE \<Rightarrow> if sp_once_utc spec \<le> after then None else Some (sp_once_utc spec)
      | ALARM_WEEKLY \<Rightarrow> first_due spec after (after div SECONDS_PER_DAY) [0..<8])"

definition remember_alarm_time :: "clock_model \<Rightarrow> clock_alarm_spec \<Rightarrow> clock_model" where
  "remember_alarm_time model spec =
     (case sp_schedule spec of
        ALARM_ONCE \<Rightarrow>
          let seconds = nat (sp_once_utc spec mod SECONDS_PER_DAY)
          in model\<lparr>cm_last_alarm_hour := seconds div 3600, cm_last_alarm_minute := seconds div 60 mod 60\<rparr>
      | ALARM_WEEKLY \<Rightarrow>
          model\<lparr>cm_last_alarm_hour := sp_hour spec, cm_last_alarm_minute := sp_minute spec\<rparr>)"

subsection \<open>Events\<close>

fun find_index :: "u32 \<Rightarrow> clock_alarm list \<Rightarrow> nat \<Rightarrow> nat option" where
  "find_index ident [] index = None"
| "find_index ident (alarm # alarms) index =
     (if al_id alarm = ident then Some index else find_index ident alarms (index + 1))"

definition find_alarm :: "clock_model \<Rightarrow> u32 \<Rightarrow> nat option" where
  "find_alarm model ident = find_index ident (cm_alarms model) 0"

definition clock_model_alarm_find :: "clock_model \<Rightarrow> u32 \<Rightarrow> clock_alarm option" where
  "clock_model_alarm_find model ident = map_option (\<lambda>index. cm_alarms model ! index) (find_alarm model ident)"

definition promote_event :: "clock_model \<Rightarrow> clock_model" where
  "promote_event model =
     (case cm_queue model of
        [] \<Rightarrow> model
      | event # queue \<Rightarrow>
          if ev_kind (cm_active model) \<noteq> EVENT_NONE then model
          else model\<lparr>cm_active := event\<lparr>ev_ring_started_ms := cm_monotonic_ms model\<rparr>, cm_queue := queue\<rparr>)"

definition record_missed :: "clock_model \<Rightarrow> clock_event \<Rightarrow> clock_missed_reason \<Rightarrow> clock_model" where
  "record_missed model event reason =
     (let missed = (if length (cm_missed model) = CLOCK_MISSED_LIMIT then tl (cm_missed model) else cm_missed model)
      in model\<lparr>cm_missed := missed @ [event\<lparr>ev_missed_reason := reason\<rparr>],
               cm_missed_total := saturated_add (cm_missed_total model) 1\<rparr>)"

definition submit_event :: "clock_model \<Rightarrow> clock_event \<Rightarrow> bool \<Rightarrow> clock_model" where
  "submit_event model event late =
     (if late then record_missed model event MISSED_LATE
      else if ev_kind (cm_active model) = EVENT_NONE
      then model\<lparr>cm_active := event\<lparr>ev_ring_started_ms := cm_monotonic_ms model\<rparr>\<rparr>
      else if length (cm_queue model) < CLOCK_QUEUE_LIMIT then model\<lparr>cm_queue := cm_queue model @ [event]\<rparr>
      else record_missed model event MISSED_QUEUE_FULL)"

definition active_alarm :: "clock_model \<Rightarrow> u32 \<Rightarrow> bool" where
  "active_alarm model ident \<longleftrightarrow> ev_kind (cm_active model) = EVENT_ALARM \<and> ev_source_id (cm_active model) = ident"

definition queued_alarm :: "clock_model \<Rightarrow> u32 \<Rightarrow> bool" where
  "queued_alarm model ident \<longleftrightarrow>
     list_ex (\<lambda>event. ev_kind event = EVENT_ALARM \<and> ev_source_id event = ident) (cm_queue model)"

definition cancel_events :: "clock_model \<Rightarrow> clock_event_kind \<Rightarrow> u32 \<Rightarrow> clock_model" where
  "cancel_events model kind source_id =
     (let model = model\<lparr>cm_queue :=
            filter (\<lambda>event. \<not> (ev_kind event = kind \<and> ev_source_id event = source_id)) (cm_queue model)\<rparr>
      in if ev_kind (cm_active model) = kind \<and> ev_source_id (cm_active model) = source_id
         then promote_event (model\<lparr>cm_active := zero_event\<rparr>) else model)"

definition create_event ::
    "clock_model \<Rightarrow> clock_alarm option \<Rightarrow> int \<Rightarrow> u64 \<Rightarrow> bool \<Rightarrow> (clock_model \<times> clock_event) option" where
  "create_event model alarm due_wall due_monotonic snoozed =
     (if cm_next_event_id model = 0 then None
      else Some
        (model\<lparr>cm_next_event_id := cm_next_event_id model + 1\<rparr>,
         \<lparr> ev_id = cm_next_event_id model,
           ev_kind = (case alarm of None \<Rightarrow> EVENT_TIMER | Some _ \<Rightarrow> EVENT_ALARM),
           ev_source_id = (case alarm of None \<Rightarrow> 0 | Some a \<Rightarrow> al_id a),
           ev_generation = (case alarm of None \<Rightarrow> ct_generation (cm_timer model) | Some a \<Rightarrow> al_generation a),
           ev_label = (case alarm of None \<Rightarrow> [] | Some a \<Rightarrow> sp_label (al_spec a)),
           ev_due_wall_utc = due_wall, ev_due_monotonic_ms = due_monotonic, ev_ring_started_ms = 0,
           ev_snoozed = snoozed, ev_missed_reason = MISSED_NONE \<rparr>))"

definition clock_model_init :: "int \<Rightarrow> u64 \<Rightarrow> clock_model option" where
  "clock_model_init wall_utc monotonic_ms =
     (if \<not> valid_wall wall_utc then None
      else Some
        \<lparr> cm_wall_utc = wall_utc, cm_monotonic_ms = monotonic_ms, cm_view = VIEW_DIGITAL, cm_snooze_minutes = 5,
          cm_last_alarm_hour = 7, cm_last_alarm_minute = 0, cm_alarms = [], cm_active = zero_event, cm_queue = [],
          cm_missed = [], cm_missed_total = 0, cm_timer = zero_timer\<lparr>ct_generation := 1\<rparr>,
          cm_stopwatch = zero_stopwatch, cm_world = [], cm_next_alarm_id = 1, cm_next_world_id = 1,
          cm_next_event_id = 1 \<rparr>)"

subsection \<open>Ticks\<close>

definition alarm_ready :: "clock_model \<Rightarrow> bool \<Rightarrow> clock_alarm \<Rightarrow> bool" where
  "alarm_ready model snoozed alarm =
     (if snoozed then al_snoozed alarm \<and> al_snooze_deadline_ms alarm \<le> cm_monotonic_ms model
      else sp_enabled (al_spec alarm) \<and> al_next_due_utc alarm \<le> cm_wall_utc model)"

text \<open>Whether an alarm goes before the earliest one found so far: by its time, then by its id.\<close>

definition alarm_before :: "bool \<Rightarrow> clock_alarm \<Rightarrow> clock_alarm \<Rightarrow> bool" where
  "alarm_before snoozed alarm due =
     (if snoozed then al_snooze_deadline_ms alarm < al_snooze_deadline_ms due \<or>
         al_snooze_deadline_ms alarm = al_snooze_deadline_ms due \<and> al_id alarm < al_id due
      else al_next_due_utc alarm < al_next_due_utc due \<or>
         al_next_due_utc alarm = al_next_due_utc due \<and> al_id alarm < al_id due)"

definition select_due :: "clock_model \<Rightarrow> bool \<Rightarrow> nat option" where
  "select_due model snoozed =
     fold (\<lambda>index due.
             if \<not> alarm_ready model snoozed (cm_alarms model ! index) then due
             else case due of
               None \<Rightarrow> Some index
             | Some best \<Rightarrow>
                 if alarm_before snoozed (cm_alarms model ! index) (cm_alarms model ! best)
                 then Some index else due)
       [0..<length (cm_alarms model)] None"

text \<open>An alarm after one of its occurrences was turned into an event.\<close>

definition consume_alarm :: "clock_model \<Rightarrow> bool \<Rightarrow> clock_alarm \<Rightarrow> clock_alarm" where
  "consume_alarm model snoozed due =
     (if snoozed then due\<lparr>al_snoozed := False, al_snooze_deadline_ms := 0\<rparr>
      else
        let due = due\<lparr>al_last_due_utc := al_next_due_utc due\<rparr> in
        case sp_schedule (al_spec due) of
          ALARM_ONCE \<Rightarrow> due\<lparr>al_spec := (al_spec due)\<lparr>sp_enabled := False\<rparr>, al_next_due_utc := 0\<rparr>
        | ALARM_WEEKLY \<Rightarrow>
            (case clock_model_alarm_next_due (al_spec due) (cm_wall_utc model) of
               Some next_due \<Rightarrow> due\<lparr>al_next_due_utc := next_due\<rparr>
             | None \<Rightarrow> due\<lparr>al_next_due_utc := 0, al_spec := (al_spec due)\<lparr>sp_enabled := False\<rparr>\<rparr>))"

definition alarm_late :: "clock_model \<Rightarrow> bool \<Rightarrow> clock_alarm \<Rightarrow> bool" where
  "alarm_late model snoozed due =
     (if snoozed then cm_monotonic_ms model - al_snooze_deadline_ms due > CLOCK_RING_TIMEOUT_MS
      else cm_wall_utc model - al_next_due_utc due > CLOCK_ALARM_GRACE_SECONDS)"

fun tick_alarms_from :: "nat \<Rightarrow> clock_model \<Rightarrow> bool \<Rightarrow> clock_status \<times> clock_model" where
  "tick_alarms_from 0 model snoozed = (CLOCK_OK, model)"
| "tick_alarms_from (Suc remaining) model snoozed =
     (case select_due model snoozed of
        None \<Rightarrow> (CLOCK_OK, model)
      | Some index \<Rightarrow>
          let due = cm_alarms model ! index in
          case create_event model (Some due)
                 (if snoozed then cm_wall_utc model else al_next_due_utc due)
                 (if snoozed then al_snooze_deadline_ms due else cm_monotonic_ms model) snoozed of
            None \<Rightarrow> (CLOCK_EXHAUSTED, model)
          | Some (model, event) \<Rightarrow>
              let late = alarm_late model snoozed due;
                  model = model\<lparr>cm_alarms := (cm_alarms model)[index := consume_alarm model snoozed due]\<rparr>
              in tick_alarms_from remaining (submit_event model event late) snoozed)"

definition tick_alarms :: "clock_model \<Rightarrow> bool \<Rightarrow> clock_status \<times> clock_model" where
  "tick_alarms model snoozed = tick_alarms_from (length (cm_alarms model)) model snoozed"

definition clock_model_timer_remaining :: "clock_model \<Rightarrow> u64" where
  "clock_model_timer_remaining model =
     (if ct_state (cm_timer model) = TIMER_RUNNING
      then (if ct_deadline_ms (cm_timer model) > cm_monotonic_ms model
            then ct_deadline_ms (cm_timer model) - cm_monotonic_ms model else 0)
      else ct_remaining_ms (cm_timer model))"

text \<open>The parts of \<^verbatim>\<open>clock_model_tick\<close>: the clocks, the end of the ring and the timer.\<close>

definition tick_clocks :: "clock_model \<Rightarrow> int \<Rightarrow> u64 \<Rightarrow> clock_model" where
  "tick_clocks model wall_utc monotonic_ms =
     (let elapsed = monotonic_ms - cm_monotonic_ms model;
          model = model\<lparr>cm_wall_utc := wall_utc, cm_monotonic_ms := monotonic_ms\<rparr>
      in if sw_running (cm_stopwatch model)
         then model\<lparr>cm_stopwatch := (cm_stopwatch model)
                \<lparr>sw_elapsed_ms := saturated_add (sw_elapsed_ms (cm_stopwatch model)) elapsed\<rparr>\<rparr>
         else model)"

definition tick_ring :: "clock_model \<Rightarrow> clock_model" where
  "tick_ring model =
     (if ev_kind (cm_active model) \<noteq> EVENT_NONE \<and>
         cm_monotonic_ms model - ev_ring_started_ms (cm_active model) \<ge> CLOCK_RING_TIMEOUT_MS
      then promote_event ((record_missed model (cm_active model) MISSED_EXPIRED)\<lparr>cm_active := zero_event\<rparr>)
      else model)"

definition tick_timer :: "clock_model \<Rightarrow> clock_status \<times> clock_model" where
  "tick_timer model =
     (if ct_state (cm_timer model) = TIMER_RUNNING then
        let model = model\<lparr>cm_timer := (cm_timer model)\<lparr>ct_remaining_ms := clock_model_timer_remaining model\<rparr>\<rparr> in
        if ct_remaining_ms (cm_timer model) = 0 then
          case create_event model None (cm_wall_utc model) (ct_deadline_ms (cm_timer model)) False of
            None \<Rightarrow> (CLOCK_EXHAUSTED, model)
          | Some (model, event) \<Rightarrow>
              (CLOCK_OK,
               submit_event (model\<lparr>cm_timer := (cm_timer model)\<lparr>ct_state := TIMER_FINISHED\<rparr>\<rparr>) event False)
        else (CLOCK_OK, model)
      else (CLOCK_OK, model))"

definition clock_model_tick :: "clock_model \<Rightarrow> int \<Rightarrow> u64 \<Rightarrow> clock_status \<times> clock_model" where
  "clock_model_tick model wall_utc monotonic_ms =
     (if \<not> valid_wall wall_utc then (CLOCK_INVALID, model)
      else if monotonic_ms < cm_monotonic_ms model then (CLOCK_TIME_BACKWARD, model)
      else
        case tick_alarms (tick_ring (tick_clocks model wall_utc monotonic_ms)) False of
          (status, model) \<Rightarrow>
            if status \<noteq> CLOCK_OK then (status, model)
            else case tick_alarms model True of
              (status, model) \<Rightarrow> if status \<noteq> CLOCK_OK then (status, model) else tick_timer model)"

subsection \<open>Settings and alarms\<close>

definition clock_model_set_view :: "clock_model \<Rightarrow> clock_view option \<Rightarrow> clock_status \<times> clock_model" where
  "clock_model_set_view model view =
     (case view of None \<Rightarrow> (CLOCK_INVALID, model) | Some v \<Rightarrow> (CLOCK_OK, model\<lparr>cm_view := v\<rparr>))"

definition clock_model_set_snooze :: "clock_model \<Rightarrow> nat \<Rightarrow> clock_status \<times> clock_model" where
  "clock_model_set_snooze model minutes =
     (if minutes < 1 \<or> minutes > 30 then (CLOCK_INVALID, model)
      else (CLOCK_OK, model\<lparr>cm_snooze_minutes := minutes\<rparr>))"

text \<open>The due time of a specification: 0 while it is disabled, \<^const>\<open>None\<close> without an occurrence.\<close>

definition spec_due :: "clock_alarm_spec \<Rightarrow> int \<Rightarrow> int option" where
  "spec_due spec after = (if sp_enabled spec then clock_model_alarm_next_due spec after else Some 0)"

definition clock_model_alarm_add ::
    "clock_model \<Rightarrow> clock_alarm_spec \<Rightarrow> clock_status \<times> u32 option \<times> clock_model" where
  "clock_model_alarm_add model spec =
     (if \<not> valid_spec spec then (CLOCK_INVALID, None, model)
      else case spec_due spec (cm_wall_utc model) of
        None \<Rightarrow> (CLOCK_INVALID, None, model)
      | Some due \<Rightarrow>
          if length (cm_alarms model) = CLOCK_ALARM_LIMIT then (CLOCK_FULL, None, model)
          else if cm_next_alarm_id model = 0 then (CLOCK_EXHAUSTED, None, model)
          else
            (CLOCK_OK, Some (cm_next_alarm_id model),
             remember_alarm_time
               (model\<lparr>cm_alarms := cm_alarms model @
                        [\<lparr> al_id = cm_next_alarm_id model, al_generation = 1, al_spec = spec, al_next_due_utc = due,
                           al_last_due_utc = 0, al_snoozed = False, al_snooze_deadline_ms = 0 \<rparr>],
                      cm_next_alarm_id := cm_next_alarm_id model + 1\<rparr>) spec))"

definition clock_model_alarm_edit ::
    "clock_model \<Rightarrow> u32 \<Rightarrow> clock_alarm_spec \<Rightarrow> bool \<Rightarrow> clock_status \<times> clock_model" where
  "clock_model_alarm_edit model ident spec cancel_active =
     (if \<not> valid_spec spec then (CLOCK_INVALID, model)
      else case find_alarm model ident of
        None \<Rightarrow> (CLOCK_NOT_FOUND, model)
      | Some index \<Rightarrow>
          let alarm = cm_alarms model ! index in
          if active_alarm model ident \<and> \<not> cancel_active then (CLOCK_ACTIVE_EVENT, model)
          else if al_generation alarm = 0xffffffff then (CLOCK_EXHAUSTED, model)
          else
            let after = (if cm_wall_utc model > al_last_due_utc alarm then cm_wall_utc model
                         else al_last_due_utc alarm)
            in case spec_due spec after of
                 None \<Rightarrow> (CLOCK_INVALID, model)
               | Some due \<Rightarrow>
                   (CLOCK_OK,
                    cancel_events
                      (remember_alarm_time
                        (model\<lparr>cm_alarms := (cm_alarms model)[index :=
                           alarm\<lparr>al_spec := spec, al_generation := al_generation alarm + 1, al_snoozed := False,
                                 al_snooze_deadline_ms := 0, al_next_due_utc := due\<rparr>]\<rparr>) spec)
                      EVENT_ALARM ident))"

definition clock_model_alarm_enable ::
    "clock_model \<Rightarrow> u32 \<Rightarrow> bool \<Rightarrow> bool \<Rightarrow> clock_status \<times> clock_model" where
  "clock_model_alarm_enable model ident enabled cancel_active =
     (case find_alarm model ident of
        None \<Rightarrow> (CLOCK_NOT_FOUND, model)
      | Some index \<Rightarrow>
          let alarm = cm_alarms model ! index in
          if \<not> enabled \<and> active_alarm model ident \<and> \<not> cancel_active then (CLOCK_ACTIVE_EVENT, model)
          else if sp_enabled (al_spec alarm) = enabled \<and>
                  (enabled \<or> \<not> al_snoozed alarm \<and> \<not> active_alarm model ident \<and> \<not> queued_alarm model ident)
          then (CLOCK_OK, model)
          else clock_model_alarm_edit model ident ((al_spec alarm)\<lparr>sp_enabled := enabled\<rparr>) cancel_active)"

definition clock_model_alarm_delete :: "clock_model \<Rightarrow> u32 \<Rightarrow> bool \<Rightarrow> clock_status \<times> clock_model" where
  "clock_model_alarm_delete model ident cancel_active =
     (case find_alarm model ident of
        None \<Rightarrow> (CLOCK_NOT_FOUND, model)
      | Some index \<Rightarrow>
          if active_alarm model ident \<and> \<not> cancel_active then (CLOCK_ACTIVE_EVENT, model)
          else
            let model = cancel_events model EVENT_ALARM ident
            in (CLOCK_OK, model\<lparr>cm_alarms := take index (cm_alarms model) @ drop (index + 1) (cm_alarms model)\<rparr>))"

definition clock_model_alarm_cancel_snooze :: "clock_model \<Rightarrow> u32 \<Rightarrow> clock_status \<times> clock_model" where
  "clock_model_alarm_cancel_snooze model ident =
     (case find_alarm model ident of
        None \<Rightarrow> (CLOCK_NOT_FOUND, model)
      | Some index \<Rightarrow>
          (CLOCK_OK, model\<lparr>cm_alarms := (cm_alarms model)[index :=
             (cm_alarms model ! index)\<lparr>al_snoozed := False, al_snooze_deadline_ms := 0\<rparr>]\<rparr>))"

subsection \<open>The ringing event\<close>

definition clock_model_dismiss :: "clock_model \<Rightarrow> u64 \<Rightarrow> clock_status \<times> clock_model" where
  "clock_model_dismiss model event_id =
     (if ev_kind (cm_active model) = EVENT_NONE then (CLOCK_NO_EVENT, model)
      else if ev_id (cm_active model) \<noteq> event_id then (CLOCK_STALE_EVENT, model)
      else (CLOCK_OK, promote_event (model\<lparr>cm_active := zero_event\<rparr>)))"

definition clock_model_snooze :: "clock_model \<Rightarrow> u64 \<Rightarrow> nat \<Rightarrow> clock_status \<times> clock_model" where
  "clock_model_snooze model event_id requested =
     (let minutes = (if requested = 0 then cm_snooze_minutes model else requested) in
      if minutes < 1 \<or> minutes > 30 then (CLOCK_INVALID, model)
      else if ev_kind (cm_active model) = EVENT_NONE then (CLOCK_NO_EVENT, model)
      else if ev_id (cm_active model) \<noteq> event_id then (CLOCK_STALE_EVENT, model)
      else if ev_kind (cm_active model) \<noteq> EVENT_ALARM then (CLOCK_WRONG_STATE, model)
      else case find_alarm model (ev_source_id (cm_active model)) of
        None \<Rightarrow> (CLOCK_STALE_EVENT, model)
      | Some index \<Rightarrow>
          let alarm = cm_alarms model ! index; duration = of_nat minutes * 60000 in
          if al_generation alarm \<noteq> ev_generation (cm_active model) then (CLOCK_STALE_EVENT, model)
          else if duration > UINT64_MAX - cm_monotonic_ms model then (CLOCK_EXHAUSTED, model)
          else clock_model_dismiss
                 (model\<lparr>cm_alarms := (cm_alarms model)[index :=
                    alarm\<lparr>al_snoozed := True, al_snooze_deadline_ms := cm_monotonic_ms model + duration\<rparr>]\<rparr>)
                 event_id)"

definition clock_model_clear_missed :: "clock_model \<Rightarrow> clock_model" where
  "clock_model_clear_missed model = model\<lparr>cm_missed := [], cm_missed_total := 0\<rparr>"

subsection \<open>The timer\<close>

definition clock_model_timer_set :: "clock_model \<Rightarrow> nat \<Rightarrow> clock_status \<times> clock_model" where
  "clock_model_timer_set model seconds =
     (if seconds > CLOCK_TIMER_MAX_SECONDS then (CLOCK_INVALID, model)
      else if ct_generation (cm_timer model) = 0xffffffff then (CLOCK_EXHAUSTED, model)
      else
        (CLOCK_OK,
         cancel_events
           (model\<lparr>cm_timer := \<lparr> ct_state = TIMER_STOPPED, ct_generation = ct_generation (cm_timer model) + 1,
              ct_duration_seconds = seconds, ct_remaining_ms = of_nat seconds * 1000, ct_deadline_ms = 0 \<rparr>\<rparr>)
           EVENT_TIMER 0))"

definition run_timer :: "clock_model \<Rightarrow> clock_status \<times> clock_model" where
  "run_timer model =
     (if ct_remaining_ms (cm_timer model) > UINT64_MAX - cm_monotonic_ms model then (CLOCK_EXHAUSTED, model)
      else (CLOCK_OK, model\<lparr>cm_timer := (cm_timer model)
              \<lparr>ct_deadline_ms := cm_monotonic_ms model + ct_remaining_ms (cm_timer model), ct_state := TIMER_RUNNING\<rparr>\<rparr>))"

definition clock_model_timer_start :: "clock_model \<Rightarrow> clock_status \<times> clock_model" where
  "clock_model_timer_start model =
     (if ct_duration_seconds (cm_timer model) = 0 then (CLOCK_INVALID, model)
      else if ct_state (cm_timer model) \<noteq> TIMER_STOPPED then (CLOCK_WRONG_STATE, model)
      else run_timer model)"

definition clock_model_timer_pause :: "clock_model \<Rightarrow> clock_status \<times> clock_model" where
  "clock_model_timer_pause model =
     (if ct_state (cm_timer model) \<noteq> TIMER_RUNNING then (CLOCK_WRONG_STATE, model)
      else (CLOCK_OK, model\<lparr>cm_timer := (cm_timer model)
              \<lparr>ct_remaining_ms := clock_model_timer_remaining model, ct_deadline_ms := 0, ct_state := TIMER_PAUSED\<rparr>\<rparr>))"

definition clock_model_timer_resume :: "clock_model \<Rightarrow> clock_status \<times> clock_model" where
  "clock_model_timer_resume model =
     (if ct_state (cm_timer model) \<noteq> TIMER_PAUSED then (CLOCK_WRONG_STATE, model) else run_timer model)"

definition clock_model_timer_stop :: "clock_model \<Rightarrow> clock_status \<times> clock_model" where
  "clock_model_timer_stop model = clock_model_timer_set model (ct_duration_seconds (cm_timer model))"

definition clock_model_timer_restart :: "clock_model \<Rightarrow> clock_status \<times> clock_model" where
  "clock_model_timer_restart model =
     (if ct_duration_seconds (cm_timer model) = 0 then (CLOCK_INVALID, model)
      else if of_nat (ct_duration_seconds (cm_timer model)) * 1000 > UINT64_MAX - cm_monotonic_ms model
      then (CLOCK_EXHAUSTED, model)
      else case clock_model_timer_stop model of
        (status, model) \<Rightarrow> if status = CLOCK_OK then clock_model_timer_start model else (status, model))"

subsection \<open>The stopwatch and the world clock\<close>

definition clock_model_stopwatch_elapsed :: "clock_model \<Rightarrow> u64" where
  "clock_model_stopwatch_elapsed model = sw_elapsed_ms (cm_stopwatch model)"

definition clock_model_stopwatch_start :: "clock_model \<Rightarrow> clock_status \<times> clock_model" where
  "clock_model_stopwatch_start model =
     (if sw_running (cm_stopwatch model) then (CLOCK_WRONG_STATE, model)
      else (CLOCK_OK, model\<lparr>cm_stopwatch := (cm_stopwatch model)\<lparr>sw_running := True\<rparr>\<rparr>))"

definition clock_model_stopwatch_pause :: "clock_model \<Rightarrow> clock_status \<times> clock_model" where
  "clock_model_stopwatch_pause model =
     (if \<not> sw_running (cm_stopwatch model) then (CLOCK_WRONG_STATE, model)
      else (CLOCK_OK, model\<lparr>cm_stopwatch := (cm_stopwatch model)\<lparr>sw_running := False\<rparr>\<rparr>))"

definition clock_model_stopwatch_reset :: "clock_model \<Rightarrow> clock_status \<times> clock_model" where
  "clock_model_stopwatch_reset model = (CLOCK_OK, model\<lparr>cm_stopwatch := zero_stopwatch\<rparr>)"

definition clock_model_stopwatch_lap :: "clock_model \<Rightarrow> clock_status \<times> clock_model" where
  "clock_model_stopwatch_lap model =
     (let stopwatch = cm_stopwatch model in
      if \<not> sw_running stopwatch then (CLOCK_WRONG_STATE, model)
      else if length (sw_laps stopwatch) = CLOCK_LAP_LIMIT then (CLOCK_FULL, model)
      else
        let previous = (if sw_laps stopwatch = [] then 0 else lap_elapsed_ms (last (sw_laps stopwatch)))
        in (CLOCK_OK, model\<lparr>cm_stopwatch := stopwatch\<lparr>sw_laps := sw_laps stopwatch @
              [\<lparr> lap_elapsed_ms = sw_elapsed_ms stopwatch,
                 lap_difference_ms = sw_elapsed_ms stopwatch - previous \<rparr>]\<rparr>\<rparr>))"

text \<open>The remainder of C has the sign of the dividend; it is 0 exactly when \<open>mod\<close> is.\<close>

definition clock_model_world_offset_valid :: "int \<Rightarrow> bool" where
  "clock_model_world_offset_valid offset_minutes \<longleftrightarrow>
     offset_minutes \<ge> -720 \<and> offset_minutes \<le> 840 \<and> offset_minutes mod 15 = 0"

definition clock_model_world_add :: "clock_model \<Rightarrow> int \<Rightarrow> clock_status \<times> u32 option \<times> clock_model" where
  "clock_model_world_add model offset_minutes =
     (if \<not> clock_model_world_offset_valid offset_minutes then (CLOCK_INVALID, None, model)
      else if list_ex (\<lambda>entry. we_offset_minutes entry = offset_minutes) (cm_world model)
      then (CLOCK_INVALID, None, model)
      else if length (cm_world model) = CLOCK_WORLD_LIMIT then (CLOCK_FULL, None, model)
      else if cm_next_world_id model = 0 then (CLOCK_EXHAUSTED, None, model)
      else (CLOCK_OK, Some (cm_next_world_id model),
            model\<lparr>cm_world := cm_world model @
                    [\<lparr> we_id = cm_next_world_id model, we_offset_minutes = offset_minutes \<rparr>],
                  cm_next_world_id := cm_next_world_id model + 1\<rparr>))"

fun find_world :: "u32 \<Rightarrow> clock_world_entry list \<Rightarrow> nat \<Rightarrow> nat option" where
  "find_world ident [] index = None"
| "find_world ident (entry # entries) index =
     (if we_id entry = ident then Some index else find_world ident entries (index + 1))"

definition clock_model_world_edit :: "clock_model \<Rightarrow> u32 \<Rightarrow> int \<Rightarrow> clock_status \<times> clock_model" where
  "clock_model_world_edit model ident offset_minutes =
     (if \<not> clock_model_world_offset_valid offset_minutes then (CLOCK_INVALID, model)
      else case find_world ident (cm_world model) 0 of
        None \<Rightarrow> (CLOCK_NOT_FOUND, model)
      | Some index \<Rightarrow>
          if list_ex (\<lambda>entry. we_id entry \<noteq> ident \<and> we_offset_minutes entry = offset_minutes) (cm_world model)
          then (CLOCK_INVALID, model)
          else (CLOCK_OK, model\<lparr>cm_world := (cm_world model)[index :=
                  (cm_world model ! index)\<lparr>we_offset_minutes := offset_minutes\<rparr>]\<rparr>))"

definition clock_model_world_delete :: "clock_model \<Rightarrow> u32 \<Rightarrow> clock_status \<times> clock_model" where
  "clock_model_world_delete model ident =
     (case find_world ident (cm_world model) 0 of
        None \<Rightarrow> (CLOCK_NOT_FOUND, model)
      | Some index \<Rightarrow>
          (CLOCK_OK, model\<lparr>cm_world := take index (cm_world model) @ drop (index + 1) (cm_world model)\<rparr>))"

fun clock_model_status_name :: "clock_status \<Rightarrow> string" where
  "clock_model_status_name CLOCK_OK = ''ok''"
| "clock_model_status_name CLOCK_INVALID = ''invalid''"
| "clock_model_status_name CLOCK_NOT_FOUND = ''not-found''"
| "clock_model_status_name CLOCK_FULL = ''full''"
| "clock_model_status_name CLOCK_ACTIVE_EVENT = ''active-event''"
| "clock_model_status_name CLOCK_STALE_EVENT = ''stale-event''"
| "clock_model_status_name CLOCK_NO_EVENT = ''no-event''"
| "clock_model_status_name CLOCK_WRONG_STATE = ''wrong-state''"
| "clock_model_status_name CLOCK_TIME_BACKWARD = ''time-backward''"
| "clock_model_status_name CLOCK_EXHAUSTED = ''exhausted''"
| "clock_model_status_name CLOCK_STORAGE_ERROR = ''storage-error''"

end
