(* ===== verification/Clock_Wire.thy ===== *)
theory Clock_Wire
  imports Clock_Model "HOL-Library.Monad_Syntax"
begin

section \<open>Requests, snapshots and preferences of the clock as JSON\<close>

text \<open>
  \<^verbatim>\<open>alpine/aports/fplinux-clocks/clock-wire.c\<close>: the messages between the clock daemon and its
  clients, the stored preferences, and the lexical check that accompanies the JSON library.  The
  library, json-c, is a parameter: a record of the functions the source calls, over an arbitrary
  type of its objects.  A \<^verbatim>\<open>struct json_object *\<close> is an option, \<^const>\<open>None\<close> for NULL; an
  object is used by one owner only, so the functions that change one return the changed object.
  A reader that fills a structure returns it, or \<^const>\<open>None\<close> where the source returns false.
  Variables of an enumeration type hold one of its enumerators.
\<close>

subsection \<open>The JSON library\<close>

datatype json_type = json_type_null | json_type_boolean | json_type_double | json_type_int
  | json_type_object | json_type_array | json_type_string

record 'j json_library =
  js_get_type :: "'j \<Rightarrow> json_type"
  js_object_get_ex :: "'j \<Rightarrow> string \<Rightarrow> 'j option option"
  js_object_length :: "'j \<Rightarrow> nat"
  js_array_length :: "'j \<Rightarrow> nat"
  js_array_get_idx :: "'j \<Rightarrow> nat \<Rightarrow> 'j option"
  js_get_uint64 :: "'j \<Rightarrow> u64"
  js_get_int64 :: "'j \<Rightarrow> int"
  js_get_boolean :: "'j \<Rightarrow> bool"
  js_get_string :: "'j \<Rightarrow> bytes"
  js_to_json_string :: "'j \<Rightarrow> bytes option"
  js_new_object :: "'j option"
  js_new_array :: "'j option"
  js_new_uint64 :: "u64 \<Rightarrow> 'j option"
  js_new_int64 :: "int \<Rightarrow> 'j option"
  js_new_boolean :: "bool \<Rightarrow> 'j option"
  js_new_string :: "bytes \<Rightarrow> 'j option"
  js_object_add :: "'j \<Rightarrow> string \<Rightarrow> 'j option \<Rightarrow> 'j"
  js_array_add :: "'j \<Rightarrow> 'j option \<Rightarrow> 'j"
  js_tokener_parse :: "nat \<Rightarrow> bool \<Rightarrow> bytes \<Rightarrow> 'j option"

text \<open>
  \<^verbatim>\<open>js_get_string\<close> gives the bytes up to the length the library reports, NUL bytes included.
  \<^verbatim>\<open>js_object_get_ex\<close> gives \<^const>\<open>None\<close> for a missing key and \<^term>\<open>Some None\<close> for a null.
  \<^verbatim>\<open>js_tokener_parse\<close> takes the nesting depth, the flag that asks for the validation of UTF-8 and
  the text, and gives the object when the parser reports success.
\<close>

definition require :: "bool \<Rightarrow> unit option" where
  "require b = (if b then Some () else None)"

definition CLOCK_WIRE_CAPACITY :: nat where "CLOCK_WIRE_CAPACITY = 16384"

subsection \<open>Members of an object\<close>

definition object_member :: "'j json_library \<Rightarrow> 'j option \<Rightarrow> string \<Rightarrow> json_type \<Rightarrow> 'j option" where
  "object_member J object name type =
     do {
       ob \<leftarrow> object;
       require (js_get_type J ob = json_type_object);
       found \<leftarrow> js_object_get_ex J ob name;
       value \<leftarrow> found;
       require (js_get_type J value = type);
       Some value
     }"

definition shape :: "'j json_library \<Rightarrow> 'j option \<Rightarrow> nat \<Rightarrow> bool" where
  "shape J object members =
     (case object of None \<Rightarrow> False
      | Some ob \<Rightarrow> js_get_type J ob = json_type_object \<and> js_object_length J ob = members)"

text \<open>The first character of the number as the library prints it.\<close>

definition prints_minus :: "'j json_library \<Rightarrow> 'j \<Rightarrow> bool" where
  "prints_minus J number =
     (case js_to_json_string J number of Some (b # _) \<Rightarrow> b = 0x2d | _ \<Rightarrow> False)"

definition unsigned_value :: "'j json_library \<Rightarrow> 'j option \<Rightarrow> string \<Rightarrow> u64 \<Rightarrow> u64 option" where
  "unsigned_value J object name maximum =
     do {
       number \<leftarrow> object_member J object name json_type_int;
       require (\<not> prints_minus J number);
       require (js_get_uint64 J number \<le> maximum);
       Some (js_get_uint64 J number)
     }"

definition signed_value :: "'j json_library \<Rightarrow> 'j option \<Rightarrow> string \<Rightarrow> int \<Rightarrow> int \<Rightarrow> int option" where
  "signed_value J object name minimum maximum =
     do {
       number \<leftarrow> object_member J object name json_type_int;
       require (\<not> (\<not> prints_minus J number \<and> js_get_uint64 J number > 0x7fffffffffffffff));
       require (js_get_int64 J number \<ge> minimum \<and> js_get_int64 J number \<le> maximum);
       Some (js_get_int64 J number)
     }"

definition boolean_value :: "'j json_library \<Rightarrow> 'j option \<Rightarrow> string \<Rightarrow> bool option" where
  "boolean_value J object name =
     do { boolean \<leftarrow> object_member J object name json_type_boolean; Some (js_get_boolean J boolean) }"

definition offset_value :: "'j json_library \<Rightarrow> 'j option \<Rightarrow> int option" where
  "offset_value J object =
     do {
       value \<leftarrow> signed_value J object ''offset_minutes'' (- 2147483648) 2147483647;
       require (clock_model_world_offset_valid value);
       Some value
     }"

definition text_value :: "'j json_library \<Rightarrow> 'j option \<Rightarrow> string \<Rightarrow> bool \<Rightarrow> bytes option" where
  "text_value J object name allow_empty =
     do {
       str \<leftarrow> object_member J object name json_type_string;
       require (clock_model_validate_text (js_get_string J str) allow_empty = CLOCK_OK);
       Some (js_get_string J str)
     }"

definition literal_value :: "'j json_library \<Rightarrow> 'j option \<Rightarrow> string \<Rightarrow> string \<Rightarrow> bool" where
  "literal_value J object name literal =
     (case object_member J object name json_type_string of
        None \<Rightarrow> False
      | Some str \<Rightarrow> js_get_string J str = bytes_of literal)"

subsection \<open>The lexical check\<close>

text \<open>
  \<^verbatim>\<open>struct lexical_check\<close> is the list of the bytes that are still to be read; a scan returns what
  it leaves.
\<close>

definition is_space :: "u8 \<Rightarrow> bool" where
  "is_space byte \<longleftrightarrow> byte = 0x20 \<or> byte = 0x09 \<or> byte = 0x0d \<or> byte = 0x0a"

definition skip_space :: "bytes \<Rightarrow> bytes" where
  "skip_space check = dropWhile is_space check"

definition hex_digit :: "u8 \<Rightarrow> nat option" where
  "hex_digit byte =
     (if 0x30 \<le> byte \<and> byte \<le> 0x39 then Some (unat byte - 48)
      else if 0x61 \<le> byte \<and> byte \<le> 0x66 then Some (unat byte - 97 + 10)
      else if 0x41 \<le> byte \<and> byte \<le> 0x46 then Some (unat byte - 65 + 10)
      else None)"

fun hex_value :: "nat \<Rightarrow> bytes \<Rightarrow> nat option" where
  "hex_value codepoint [] = Some codepoint"
| "hex_value codepoint (byte # rest) =
     (case hex_digit byte of None \<Rightarrow> None | Some digit \<Rightarrow> hex_value (codepoint * 16 + digit) rest)"

definition unicode_escape :: "bytes \<Rightarrow> nat option" where
  "unicode_escape bs = (if length bs < 4 then None else hex_value 0 (take 4 bs))"

definition low_surrogate :: "bytes \<Rightarrow> bool" where
  "low_surrogate bs \<longleftrightarrow> length bs \<ge> 6 \<and> bs ! 0 = 0x5c \<and> bs ! 1 = 0x75 \<and>
     (case unicode_escape (drop 2 bs) of None \<Rightarrow> False | Some low \<Rightarrow> 0xdc00 \<le> low \<and> low \<le> 0xdfff)"

definition escape_bytes :: "u8 list" where
  "escape_bytes = [0x22, 0x5c, 0x2f, 0x62, 0x66, 0x6e, 0x72, 0x74, 0x75]"

function scan_characters :: "bytes \<Rightarrow> bytes option" where
  "scan_characters [] = None"
| "scan_characters (byte # rest) =
     (if byte < 0x20 then None
      else if byte = 0x5c then
        (case rest of
           [] \<Rightarrow> None
         | escape # rest \<Rightarrow>
             if escape \<notin> set escape_bytes then None
             else if escape = 0x75 then
               (case unicode_escape rest of
                  None \<Rightarrow> None
                | Some codepoint \<Rightarrow>
                    if 0xdc00 \<le> codepoint \<and> codepoint \<le> 0xdfff then None
                    else if 0xd800 \<le> codepoint \<and> codepoint \<le> 0xdbff then
                      if \<not> low_surrogate (drop 4 rest) then None else scan_characters (drop 10 rest)
                    else scan_characters (drop 4 rest))
             else scan_characters rest)
      else if byte = 0x22 then Some rest
      else scan_characters rest)"
  by pat_completeness auto
termination by (relation "measure length") auto

text \<open>The token with its quotation marks, and the bytes after it.\<close>

definition scan_string :: "bytes \<Rightarrow> (bytes \<times> bytes) option" where
  "scan_string check =
     (case check of
        [] \<Rightarrow> None
      | byte # rest \<Rightarrow>
          if byte \<noteq> 0x22 then None
          else case scan_characters rest of
            None \<Rightarrow> None
          | Some after \<Rightarrow> Some (take (length check - length after) check, after))"

definition key_text :: "bytes \<Rightarrow> string" where
  "key_text bs = map (\<lambda>b. char_of (unat b)) bs"

text \<open>The value a key token stands for in the object; the inner option is the pointer to it.\<close>

definition key_member :: "'j json_library \<Rightarrow> 'j \<Rightarrow> bytes \<Rightarrow> 'j option option" where
  "key_member J object token =
     do {
       key \<leftarrow> js_tokener_parse J 4 False token;
       require (js_get_type J key = json_type_string);
       require (0 \<notin> set (js_get_string J key));
       js_object_get_ex J object (key_text (js_get_string J key))
     }"

text \<open>
  The loops over the members and the elements, with the recursive call as their argument.  They
  end with the number of entries and the bytes from the closing bracket on.  Every round reads at
  least one byte, so the number of bytes is fuel enough.
\<close>

fun scan_members ::
    "'j json_library \<Rightarrow> 'j \<Rightarrow> ('j option \<Rightarrow> bytes \<Rightarrow> bytes option) \<Rightarrow> nat \<Rightarrow> nat \<Rightarrow> bytes \<Rightarrow> (nat \<times> bytes) option" where
  "scan_members J object scan 0 entries check = None"
| "scan_members J object scan (Suc fuel) entries check =
     (if check = [] \<or> hd check = 0x7d then Some (entries, check)
      else do {
        (token, check) \<leftarrow> scan_string check;
        value \<leftarrow> key_member J object token;
        let check = skip_space check;
        require (check \<noteq> [] \<and> hd check = 0x3a);
        check \<leftarrow> scan value (tl check);
        let check = skip_space check;
        (if check \<noteq> [] \<and> hd check = 0x2c then do {
           let check = skip_space (tl check);
           require (check \<noteq> [] \<and> hd check \<noteq> 0x7d);
           scan_members J object scan fuel (entries + 1) check
         } else Some (entries + 1, check))
      })"

fun scan_elements ::
    "'j json_library \<Rightarrow> 'j \<Rightarrow> ('j option \<Rightarrow> bytes \<Rightarrow> bytes option) \<Rightarrow> nat \<Rightarrow> nat \<Rightarrow> bytes \<Rightarrow> (nat \<times> bytes) option" where
  "scan_elements J object scan 0 entries check = None"
| "scan_elements J object scan (Suc fuel) entries check =
     (if check = [] \<or> hd check = 0x5d then Some (entries, check)
      else do {
        require (entries < js_array_length J object);
        check \<leftarrow> scan (js_array_get_idx J object entries) check;
        let check = skip_space check;
        (if check \<noteq> [] \<and> hd check = 0x2c then do {
           let check = skip_space (tl check);
           require (check \<noteq> [] \<and> hd check \<noteq> 0x5d);
           scan_elements J object scan fuel (entries + 1) check
         } else Some (entries + 1, check))
      })"

definition is_delimiter :: "u8 \<Rightarrow> bool" where
  "is_delimiter byte \<longleftrightarrow> byte = 0x2c \<or> byte = 0x7d \<or> byte = 0x5d \<or> is_space byte"

fun decimal_value :: "nat \<Rightarrow> bytes \<Rightarrow> nat" where
  "decimal_value n [] = n"
| "decimal_value n (byte # rest) = decimal_value (n * 10 + (unat byte - 48)) rest"

text \<open>\<^verbatim>\<open>strtoll\<close> and \<^verbatim>\<open>strtoull\<close> report a number out of range.\<close>

definition integer_token :: "bytes \<Rightarrow> bool" where
  "integer_token number \<longleftrightarrow>
     number \<noteq> [] \<and> length number < 32 \<and>
     (let negative = (hd number = 0x2d); digits = (if negative then tl number else number) in
      digits \<noteq> [] \<and> (hd digits = 0x30 \<longrightarrow> length digits = 1) \<and>
      list_all (\<lambda>byte. 0x30 \<le> byte \<and> byte \<le> 0x39) digits \<and>
      (if negative then decimal_value 0 digits \<le> 2 ^ 63 else decimal_value 0 digits < 2 ^ 64))"

definition scan_scalar :: "'j json_library \<Rightarrow> 'j option \<Rightarrow> bytes \<Rightarrow> bytes option" where
  "scan_scalar J object check =
     (let token = takeWhile (\<lambda>byte. \<not> is_delimiter byte) check;
          rest = dropWhile (\<lambda>byte. \<not> is_delimiter byte) check
      in case object of
           None \<Rightarrow> None
         | Some ob \<Rightarrow>
             if js_get_type J ob = json_type_int then (if integer_token token then Some rest else None)
             else if js_get_type J ob = json_type_boolean
             then (if token = bytes_of ''true'' \<or> token = bytes_of ''false'' then Some rest else None)
             else None)"

text \<open>The first argument counts the levels that are left: 17 at depth 0, none below depth 16.\<close>

primrec scan_tree :: "nat \<Rightarrow> 'j json_library \<Rightarrow> 'j option \<Rightarrow> bytes \<Rightarrow> bytes option" where
  "scan_tree 0 J object check = None"
| "scan_tree (Suc levels) J object check =
     (let check = skip_space check in
      if check = [] then None
      else if hd check = 0x7b then
        do {
          ob \<leftarrow> object;
          require (js_get_type J ob = json_type_object);
          (entries, check) \<leftarrow> scan_members J ob (scan_tree levels J) (length check) 0 (skip_space (tl check));
          require (check \<noteq> [] \<and> hd check = 0x7d);
          require (entries = js_object_length J ob);
          Some (tl check)
        }
      else if hd check = 0x5b then
        do {
          ob \<leftarrow> object;
          require (js_get_type J ob = json_type_array);
          (entries, check) \<leftarrow> scan_elements J ob (scan_tree levels J) (length check) 0 (skip_space (tl check));
          require (check \<noteq> [] \<and> hd check = 0x5d);
          require (entries = js_array_length J ob);
          Some (tl check)
        }
      else if hd check = 0x22 then
        do {
          ob \<leftarrow> object;
          require (js_get_type J ob = json_type_string);
          (token, check) \<leftarrow> scan_string check;
          Some check
        }
      else scan_scalar J object check)"

definition parse_object :: "'j json_library \<Rightarrow> bytes \<Rightarrow> 'j option" where
  "parse_object J json =
     do {
       require (\<not> (json = [] \<or> length json \<ge> CLOCK_WIRE_CAPACITY \<or> 0 \<in> set json));
       object \<leftarrow> js_tokener_parse J 16 True json;
       require (js_get_type J object = json_type_object);
       rest \<leftarrow> scan_tree 17 J (Some object) json;
       require (skip_space rest = []);
       Some object
     }"

definition write_object :: "'j json_library \<Rightarrow> 'j option \<Rightarrow> nat \<Rightarrow> clock_status + bytes" where
  "write_object J object capacity =
     (case object of
        None \<Rightarrow> Inl CLOCK_INVALID
      | Some ob \<Rightarrow>
          if capacity = 0 then Inl CLOCK_INVALID
          else case js_to_json_string J ob of
            None \<Rightarrow> Inl CLOCK_INVALID
          | Some text_bytes \<Rightarrow>
              let len = length (takeWhile (\<lambda>b. b \<noteq> 0) text_bytes)
              in if len \<ge> capacity \<or> len \<ge> CLOCK_WIRE_CAPACITY then Inl CLOCK_FULL
                 else Inr (take len text_bytes))"

definition add_uint :: "'j json_library \<Rightarrow> string \<Rightarrow> u64 \<Rightarrow> 'j \<Rightarrow> 'j" where
  "add_uint J name value object = js_object_add J object name (js_new_uint64 J value)"

definition add_int :: "'j json_library \<Rightarrow> string \<Rightarrow> int \<Rightarrow> 'j \<Rightarrow> 'j" where
  "add_int J name value object = js_object_add J object name (js_new_int64 J value)"

definition add_bool :: "'j json_library \<Rightarrow> string \<Rightarrow> bool \<Rightarrow> 'j \<Rightarrow> 'j" where
  "add_bool J name value object = js_object_add J object name (js_new_boolean J value)"

text \<open>A text without a NUL inside its storage is added as null.\<close>

definition add_text :: "'j json_library \<Rightarrow> string \<Rightarrow> bytes \<Rightarrow> 'j \<Rightarrow> 'j" where
  "add_text J name value object =
     (let str = takeWhile (\<lambda>b. b \<noteq> 0) value
      in js_object_add J object name (if length str \<le> CLOCK_TEXT_BYTES then js_new_string J str else None))"

definition add_object :: "'j json_library \<Rightarrow> string \<Rightarrow> 'j option \<Rightarrow> 'j \<Rightarrow> 'j" where
  "add_object J name value object = js_object_add J object name value"

definition add_literal :: "'j json_library \<Rightarrow> string \<Rightarrow> string \<Rightarrow> 'j \<Rightarrow> 'j" where
  "add_literal J name literal object = js_object_add J object name (js_new_string J (bytes_of literal))"

subsection \<open>Enumerations as numbers\<close>

fun schedule_number :: "clock_alarm_schedule \<Rightarrow> u64" where
  "schedule_number ALARM_ONCE = 0" | "schedule_number ALARM_WEEKLY = 1"

definition schedule_of :: "u64 \<Rightarrow> clock_alarm_schedule" where
  "schedule_of n = (if n = 0 then ALARM_ONCE else ALARM_WEEKLY)"

fun view_number :: "clock_view \<Rightarrow> u64" where
  "view_number VIEW_DIGITAL = 0" | "view_number VIEW_ANALOG = 1"

definition view_of :: "u64 \<Rightarrow> clock_view" where
  "view_of n = (if n = 0 then VIEW_DIGITAL else VIEW_ANALOG)"

fun kind_number :: "clock_event_kind \<Rightarrow> u64" where
  "kind_number EVENT_NONE = 0" | "kind_number EVENT_ALARM = 1" | "kind_number EVENT_TIMER = 2"

definition kind_of :: "u64 \<Rightarrow> clock_event_kind" where
  "kind_of n = (if n = 0 then EVENT_NONE else if n = 1 then EVENT_ALARM else EVENT_TIMER)"

fun reason_number :: "clock_missed_reason \<Rightarrow> u64" where
  "reason_number MISSED_NONE = 0" | "reason_number MISSED_LATE = 1" | "reason_number MISSED_QUEUE_FULL = 2"
| "reason_number MISSED_EXPIRED = 3"

definition reason_of :: "u64 \<Rightarrow> clock_missed_reason" where
  "reason_of n = (if n = 0 then MISSED_NONE else if n = 1 then MISSED_LATE
     else if n = 2 then MISSED_QUEUE_FULL else MISSED_EXPIRED)"

fun timer_number :: "clock_timer_state \<Rightarrow> u64" where
  "timer_number TIMER_STOPPED = 0" | "timer_number TIMER_RUNNING = 1" | "timer_number TIMER_PAUSED = 2"
| "timer_number TIMER_FINISHED = 3"

definition timer_of :: "u64 \<Rightarrow> clock_timer_state" where
  "timer_of n = (if n = 0 then TIMER_STOPPED else if n = 1 then TIMER_RUNNING
     else if n = 2 then TIMER_PAUSED else TIMER_FINISHED)"

subsection \<open>Alarm specifications\<close>

definition read_alarm_spec :: "'j json_library \<Rightarrow> 'j option \<Rightarrow> clock_alarm_spec option" where
  "read_alarm_spec J object =
     do {
       require (shape J object 7);
       label \<leftarrow> text_value J object ''label'' True;
       schedule \<leftarrow> unsigned_value J object ''schedule'' (schedule_number ALARM_WEEKLY);
       once_utc \<leftarrow> signed_value J object ''once_utc'' 0 CLOCK_WALL_MAX;
       hour \<leftarrow> unsigned_value J object ''hour'' 23;
       minute \<leftarrow> unsigned_value J object ''minute'' 59;
       days \<leftarrow> unsigned_value J object ''repeat_days'' 127;
       enabled \<leftarrow> boolean_value J object ''enabled'';
       require
         (case schedule_of schedule of
            ALARM_ONCE \<Rightarrow> once_utc \<ge> CLOCK_WALL_MIN \<and> once_utc mod 60 = 0 \<and> hour = 0 \<and> minute = 0 \<and> days = 0
          | ALARM_WEEKLY \<Rightarrow> once_utc = 0 \<and> days \<noteq> 0);
       Some \<lparr> sp_label = label, sp_schedule = schedule_of schedule, sp_once_utc = once_utc, sp_hour = unat hour,
              sp_minute = unat minute, sp_repeat_days = unat days, sp_enabled = enabled \<rparr>
     }"

definition make_alarm_spec :: "'j json_library \<Rightarrow> clock_alarm_spec \<Rightarrow> 'j option" where
  "make_alarm_spec J spec =
     do {
       object \<leftarrow> js_new_object J;
       let object = add_text J ''label'' (sp_label spec) object;
       let object = add_uint J ''schedule'' (schedule_number (sp_schedule spec)) object;
       let object = add_int J ''once_utc'' (sp_once_utc spec) object;
       let object = add_uint J ''hour'' (of_nat (sp_hour spec)) object;
       let object = add_uint J ''minute'' (of_nat (sp_minute spec)) object;
       let object = add_uint J ''repeat_days'' (of_nat (sp_repeat_days spec)) object;
       let object = add_bool J ''enabled'' (sp_enabled spec) object;
       Some object
     }"

subsection \<open>Requests\<close>

datatype clock_request_op = REQUEST_SNAPSHOT | REQUEST_ALARM_ADD | REQUEST_ALARM_EDIT | REQUEST_ALARM_ENABLE
  | REQUEST_ALARM_DELETE | REQUEST_DISMISS | REQUEST_SNOOZE | REQUEST_TIMER_SET | REQUEST_TIMER_START
  | REQUEST_TIMER_PAUSE | REQUEST_TIMER_RESUME | REQUEST_TIMER_STOP | REQUEST_TIMER_RESTART
  | REQUEST_STOPWATCH_START | REQUEST_STOPWATCH_PAUSE | REQUEST_STOPWATCH_RESET | REQUEST_STOPWATCH_LAP
  | REQUEST_WORLD_ADD | REQUEST_WORLD_EDIT | REQUEST_WORLD_DELETE | REQUEST_SET_VIEW | REQUEST_SET_SNOOZE
  | REQUEST_CLEAR_MISSED | REQUEST_SAVE | REQUEST_ALARM_CANCEL_SNOOZE

definition request_names :: "(clock_request_op \<times> string) list" where
  "request_names =
     [(REQUEST_SNAPSHOT, ''snapshot''), (REQUEST_ALARM_ADD, ''alarm-add''), (REQUEST_ALARM_EDIT, ''alarm-edit''),
      (REQUEST_ALARM_ENABLE, ''alarm-enable''), (REQUEST_ALARM_DELETE, ''alarm-delete''),
      (REQUEST_DISMISS, ''dismiss''), (REQUEST_SNOOZE, ''snooze''), (REQUEST_TIMER_SET, ''timer-set''),
      (REQUEST_TIMER_START, ''timer-start''), (REQUEST_TIMER_PAUSE, ''timer-pause''),
      (REQUEST_TIMER_RESUME, ''timer-resume''), (REQUEST_TIMER_STOP, ''timer-stop''),
      (REQUEST_TIMER_RESTART, ''timer-restart''), (REQUEST_STOPWATCH_START, ''stopwatch-start''),
      (REQUEST_STOPWATCH_PAUSE, ''stopwatch-pause''), (REQUEST_STOPWATCH_RESET, ''stopwatch-reset''),
      (REQUEST_STOPWATCH_LAP, ''stopwatch-lap''), (REQUEST_WORLD_ADD, ''world-add''),
      (REQUEST_WORLD_EDIT, ''world-edit''), (REQUEST_WORLD_DELETE, ''world-delete''),
      (REQUEST_SET_VIEW, ''set-view''), (REQUEST_SET_SNOOZE, ''set-snooze''),
      (REQUEST_CLEAR_MISSED, ''clear-missed''), (REQUEST_SAVE, ''save''),
      (REQUEST_ALARM_CANCEL_SNOOZE, ''alarm-cancel-snooze'')]"

definition clock_wire_request_name :: "clock_request_op \<Rightarrow> string option" where
  "clock_wire_request_name op = map_of request_names op"

record clock_request =
  rq_op :: clock_request_op
  rq_alarm :: clock_alarm_spec
  rq_id :: u32
  rq_event_id :: u64
  rq_cancel_active :: bool
  rq_enabled :: bool
  rq_seconds :: nat
  rq_minutes :: nat
  rq_offset_minutes :: int
  rq_view :: clock_view

definition zero_spec :: clock_alarm_spec where
  "zero_spec = \<lparr> sp_label = [], sp_schedule = ALARM_ONCE, sp_once_utc = 0, sp_hour = 0, sp_minute = 0,
     sp_repeat_days = 0, sp_enabled = False \<rparr>"

definition zero_request :: clock_request where
  "zero_request = \<lparr> rq_op = REQUEST_SNAPSHOT, rq_alarm = zero_spec, rq_id = 0, rq_event_id = 0,
     rq_cancel_active = False, rq_enabled = False, rq_seconds = 0, rq_minutes = 0, rq_offset_minutes = 0,
     rq_view = VIEW_DIGITAL \<rparr>"

text \<open>The operations that name an alarm or a world clock, and those that may end a ring.\<close>

definition has_id :: "clock_request_op \<Rightarrow> bool" where
  "has_id op \<longleftrightarrow> op \<in> {REQUEST_ALARM_EDIT, REQUEST_ALARM_ENABLE, REQUEST_ALARM_DELETE,
     REQUEST_ALARM_CANCEL_SNOOZE, REQUEST_WORLD_EDIT, REQUEST_WORLD_DELETE}"

definition has_cancel :: "clock_request_op \<Rightarrow> bool" where
  "has_cancel op \<longleftrightarrow> op \<in> {REQUEST_ALARM_EDIT, REQUEST_ALARM_ENABLE, REQUEST_ALARM_DELETE}"

definition read_id ::
    "'j json_library \<Rightarrow> 'j option \<Rightarrow> clock_request \<times> nat \<Rightarrow> (clock_request \<times> nat) option" where
  "read_id J object = (\<lambda>(request, members).
     if has_id (rq_op request) then
       do {
         value \<leftarrow> unsigned_value J object ''id'' 0xffffffff;
         require (value \<noteq> 0);
         Some (request\<lparr>rq_id := ucast value\<rparr>, members + 1)
       }
     else Some (request, members))"

definition read_cancel ::
    "'j json_library \<Rightarrow> 'j option \<Rightarrow> clock_request \<times> nat \<Rightarrow> (clock_request \<times> nat) option" where
  "read_cancel J object = (\<lambda>(request, members).
     if has_cancel (rq_op request) then
       do {
         value \<leftarrow> boolean_value J object ''cancel_active'';
         Some (request\<lparr>rq_cancel_active := value\<rparr>, members + 1)
       }
     else Some (request, members))"

definition read_arguments ::
    "'j json_library \<Rightarrow> 'j option \<Rightarrow> clock_request \<times> nat \<Rightarrow> (clock_request \<times> nat) option" where
  "read_arguments J object = (\<lambda>(request, members).
     if rq_op request \<in> {REQUEST_ALARM_ADD, REQUEST_ALARM_EDIT} then
       do {
         alarm \<leftarrow> object_member J object ''alarm'' json_type_object;
         spec \<leftarrow> read_alarm_spec J (Some alarm);
         Some (request\<lparr>rq_alarm := spec\<rparr>, members + 1)
       }
     else if rq_op request = REQUEST_ALARM_ENABLE then
       do {
         value \<leftarrow> boolean_value J object ''enabled'';
         Some (request\<lparr>rq_enabled := value\<rparr>, members + 1)
       }
     else if rq_op request \<in> {REQUEST_DISMISS, REQUEST_SNOOZE} then
       do {
         event_id \<leftarrow> unsigned_value J object ''event_id'' UINT64_MAX;
         require (event_id \<noteq> 0);
         let request = request\<lparr>rq_event_id := event_id\<rparr>;
         (if rq_op request = REQUEST_DISMISS then Some (request, members + 1)
          else do {
            value \<leftarrow> unsigned_value J object ''minutes'' 30;
            Some (request\<lparr>rq_minutes := unat value\<rparr>, members + 2)
          })
       }
     else if rq_op request = REQUEST_TIMER_SET then
       do {
         value \<leftarrow> unsigned_value J object ''seconds'' (of_nat CLOCK_TIMER_MAX_SECONDS);
         Some (request\<lparr>rq_seconds := unat value\<rparr>, members + 1)
       }
     else if rq_op request \<in> {REQUEST_WORLD_ADD, REQUEST_WORLD_EDIT} then
       do {
         value \<leftarrow> offset_value J object;
         Some (request\<lparr>rq_offset_minutes := value\<rparr>, members + 1)
       }
     else if rq_op request = REQUEST_SET_VIEW then
       do {
         value \<leftarrow> unsigned_value J object ''view'' (view_number VIEW_ANALOG);
         Some (request\<lparr>rq_view := view_of value\<rparr>, members + 1)
       }
     else if rq_op request = REQUEST_SET_SNOOZE then
       do {
         value \<leftarrow> unsigned_value J object ''minutes'' 30;
         require (value \<noteq> 0);
         Some (request\<lparr>rq_minutes := unat value\<rparr>, members + 1)
       }
     else Some (request, members))"

definition read_request :: "'j json_library \<Rightarrow> 'j option \<Rightarrow> clock_request option" where
  "read_request J object =
     do {
       name \<leftarrow> object_member J object ''op'' json_type_string;
       found \<leftarrow> find (\<lambda>(op, name). literal_value J object ''op'' name) request_names;
       step \<leftarrow> read_id J object (zero_request\<lparr>rq_op := fst found\<rparr>, 1);
       step \<leftarrow> read_cancel J object step;
       (request, members) \<leftarrow> read_arguments J object step;
       require (shape J object members);
       Some request
     }"

definition add_arguments :: "'j json_library \<Rightarrow> clock_request \<Rightarrow> 'j \<Rightarrow> 'j" where
  "add_arguments J request object =
     (if rq_op request \<in> {REQUEST_ALARM_ADD, REQUEST_ALARM_EDIT}
      then add_object J ''alarm'' (make_alarm_spec J (rq_alarm request)) object
      else if rq_op request = REQUEST_ALARM_ENABLE then add_bool J ''enabled'' (rq_enabled request) object
      else if rq_op request = REQUEST_DISMISS then add_uint J ''event_id'' (rq_event_id request) object
      else if rq_op request = REQUEST_SNOOZE
      then add_uint J ''minutes'' (of_nat (rq_minutes request)) (add_uint J ''event_id'' (rq_event_id request) object)
      else if rq_op request = REQUEST_TIMER_SET then add_uint J ''seconds'' (of_nat (rq_seconds request)) object
      else if rq_op request \<in> {REQUEST_WORLD_ADD, REQUEST_WORLD_EDIT}
      then add_int J ''offset_minutes'' (rq_offset_minutes request) object
      else if rq_op request = REQUEST_SET_VIEW then add_uint J ''view'' (view_number (rq_view request)) object
      else if rq_op request = REQUEST_SET_SNOOZE then add_uint J ''minutes'' (of_nat (rq_minutes request)) object
      else object)"

definition make_request :: "'j json_library \<Rightarrow> clock_request \<Rightarrow> 'j option" where
  "make_request J request =
     do {
       name \<leftarrow> clock_wire_request_name (rq_op request);
       object \<leftarrow> js_new_object J;
       let object = add_literal J ''op'' name object;
       let object = (if has_id (rq_op request) then add_uint J ''id'' (ucast (rq_id request)) object else object);
       let object = (if has_cancel (rq_op request)
                     then add_bool J ''cancel_active'' (rq_cancel_active request) object else object);
       Some (add_arguments J request object)
     }"

definition clock_wire_request_encode :: "'j json_library \<Rightarrow> clock_request \<Rightarrow> nat \<Rightarrow> clock_status + bytes" where
  "clock_wire_request_encode J request capacity =
     (let object = make_request J request
      in case read_request J object of
           None \<Rightarrow> Inl CLOCK_INVALID
         | Some checked \<Rightarrow> write_object J object capacity)"

definition clock_wire_request_decode :: "'j json_library \<Rightarrow> bytes \<Rightarrow> clock_status + clock_request" where
  "clock_wire_request_decode J json =
     (case read_request J (parse_object J json) of None \<Rightarrow> Inl CLOCK_INVALID | Some decoded \<Rightarrow> Inr decoded)"

definition once_elapsed :: "clock_model \<Rightarrow> clock_request \<Rightarrow> bool" where
  "once_elapsed model request \<longleftrightarrow>
     rq_op request \<in> {REQUEST_ALARM_ADD, REQUEST_ALARM_EDIT} \<and> sp_enabled (rq_alarm request) \<and>
     sp_schedule (rq_alarm request) = ALARM_ONCE \<and>
     clock_model_alarm_next_due (rq_alarm request) (cm_wall_utc model) = None"

definition apply_checked :: "clock_model \<Rightarrow> clock_request \<Rightarrow> clock_status \<times> clock_model" where
  "apply_checked model request =
     (case rq_op request of
        REQUEST_SNAPSHOT \<Rightarrow> (CLOCK_OK, model)
      | REQUEST_SAVE \<Rightarrow> (CLOCK_OK, model)
      | REQUEST_ALARM_ADD \<Rightarrow>
          (case clock_model_alarm_add model (rq_alarm request) of (status, ident, model) \<Rightarrow> (status, model))
      | REQUEST_ALARM_EDIT \<Rightarrow>
          clock_model_alarm_edit model (rq_id request) (rq_alarm request) (rq_cancel_active request)
      | REQUEST_ALARM_ENABLE \<Rightarrow>
          clock_model_alarm_enable model (rq_id request) (rq_enabled request) (rq_cancel_active request)
      | REQUEST_ALARM_DELETE \<Rightarrow> clock_model_alarm_delete model (rq_id request) (rq_cancel_active request)
      | REQUEST_ALARM_CANCEL_SNOOZE \<Rightarrow> clock_model_alarm_cancel_snooze model (rq_id request)
      | REQUEST_DISMISS \<Rightarrow> clock_model_dismiss model (rq_event_id request)
      | REQUEST_SNOOZE \<Rightarrow> clock_model_snooze model (rq_event_id request) (rq_minutes request)
      | REQUEST_TIMER_SET \<Rightarrow> clock_model_timer_set model (rq_seconds request)
      | REQUEST_TIMER_START \<Rightarrow> clock_model_timer_start model
      | REQUEST_TIMER_PAUSE \<Rightarrow> clock_model_timer_pause model
      | REQUEST_TIMER_RESUME \<Rightarrow> clock_model_timer_resume model
      | REQUEST_TIMER_STOP \<Rightarrow> clock_model_timer_stop model
      | REQUEST_TIMER_RESTART \<Rightarrow> clock_model_timer_restart model
      | REQUEST_STOPWATCH_START \<Rightarrow> clock_model_stopwatch_start model
      | REQUEST_STOPWATCH_PAUSE \<Rightarrow> clock_model_stopwatch_pause model
      | REQUEST_STOPWATCH_RESET \<Rightarrow> clock_model_stopwatch_reset model
      | REQUEST_STOPWATCH_LAP \<Rightarrow> clock_model_stopwatch_lap model
      | REQUEST_WORLD_ADD \<Rightarrow>
          (case clock_model_world_add model (rq_offset_minutes request) of (status, ident, model) \<Rightarrow> (status, model))
      | REQUEST_WORLD_EDIT \<Rightarrow> clock_model_world_edit model (rq_id request) (rq_offset_minutes request)
      | REQUEST_WORLD_DELETE \<Rightarrow> clock_model_world_delete model (rq_id request)
      | REQUEST_SET_VIEW \<Rightarrow> clock_model_set_view model (Some (rq_view request))
      | REQUEST_SET_SNOOZE \<Rightarrow> clock_model_set_snooze model (rq_minutes request)
      | REQUEST_CLEAR_MISSED \<Rightarrow> (CLOCK_OK, clock_model_clear_missed model))"

definition clock_wire_request_apply ::
    "'j json_library \<Rightarrow> clock_model \<Rightarrow> clock_request \<Rightarrow> clock_status \<times> clock_model" where
  "clock_wire_request_apply J model request =
     (case read_request J (make_request J request) of
        None \<Rightarrow> (CLOCK_INVALID, model)
      | Some checked \<Rightarrow>
          if once_elapsed model checked then (CLOCK_INVALID, model) else apply_checked model checked)"

subsection \<open>Events, alarms, timer, stopwatch and world clocks\<close>

definition wall_value :: "'j json_library \<Rightarrow> 'j option \<Rightarrow> string \<Rightarrow> int \<Rightarrow> bool \<Rightarrow> int option" where
  "wall_value J object name maximum allow_zero =
     do {
       value \<leftarrow> signed_value J object name (if allow_zero then 0 else CLOCK_WALL_MIN) maximum;
       require (value \<ge> CLOCK_WALL_MIN \<or> allow_zero \<and> value = 0);
       Some value
     }"

definition read_event :: "'j json_library \<Rightarrow> 'j option \<Rightarrow> clock_event option" where
  "read_event J object =
     do {
       require (shape J object 10);
       ident \<leftarrow> unsigned_value J object ''id'' UINT64_MAX;
       kind \<leftarrow> unsigned_value J object ''kind'' (kind_number EVENT_TIMER);
       source \<leftarrow> unsigned_value J object ''source_id'' 0xffffffff;
       generation \<leftarrow> unsigned_value J object ''generation'' 0xffffffff;
       label \<leftarrow> text_value J object ''label'' True;
       due_wall \<leftarrow> wall_value J object ''due_wall_utc'' CLOCK_WALL_MAX True;
       due_monotonic \<leftarrow> unsigned_value J object ''due_monotonic_ms'' UINT64_MAX;
       ring_started \<leftarrow> unsigned_value J object ''ring_started_ms'' UINT64_MAX;
       snoozed \<leftarrow> boolean_value J object ''snoozed'';
       reason \<leftarrow> unsigned_value J object ''missed_reason'' (reason_number MISSED_EXPIRED);
       require
         (if kind_of kind = EVENT_NONE
          then ident = 0 \<and> source = 0 \<and> generation = 0 \<and> label = [] \<and> due_wall = 0 \<and> due_monotonic = 0 \<and>
               ring_started = 0 \<and> \<not> snoozed \<and> reason = 0
          else ident \<noteq> 0 \<and> generation \<noteq> 0 \<and> due_wall \<ge> CLOCK_WALL_MIN \<and>
               (if kind_of kind = EVENT_ALARM then source \<noteq> 0 else source = 0) \<and>
               (kind_of kind = EVENT_ALARM \<or> \<not> snoozed));
       Some \<lparr> ev_id = ident, ev_kind = kind_of kind, ev_source_id = ucast source, ev_generation = ucast generation,
              ev_label = label, ev_due_wall_utc = due_wall, ev_due_monotonic_ms = due_monotonic,
              ev_ring_started_ms = ring_started, ev_snoozed = snoozed, ev_missed_reason = reason_of reason \<rparr>
     }"

definition make_event :: "'j json_library \<Rightarrow> clock_event \<Rightarrow> 'j option" where
  "make_event J event =
     do {
       object \<leftarrow> js_new_object J;
       let object = add_uint J ''id'' (ev_id event) object;
       let object = add_uint J ''kind'' (kind_number (ev_kind event)) object;
       let object = add_uint J ''source_id'' (ucast (ev_source_id event)) object;
       let object = add_uint J ''generation'' (ucast (ev_generation event)) object;
       let object = add_text J ''label'' (ev_label event) object;
       let object = add_int J ''due_wall_utc'' (ev_due_wall_utc event) object;
       let object = add_uint J ''due_monotonic_ms'' (ev_due_monotonic_ms event) object;
       let object = add_uint J ''ring_started_ms'' (ev_ring_started_ms event) object;
       let object = add_bool J ''snoozed'' (ev_snoozed event) object;
       let object = add_uint J ''missed_reason'' (reason_number (ev_missed_reason event)) object;
       Some object
     }"

definition read_alarm :: "'j json_library \<Rightarrow> 'j option \<Rightarrow> clock_alarm option" where
  "read_alarm J object =
     do {
       require (shape J object 7);
       ident \<leftarrow> unsigned_value J object ''id'' 0xffffffff;
       require (ident \<noteq> 0);
       generation \<leftarrow> unsigned_value J object ''generation'' 0xffffffff;
       require (generation \<noteq> 0);
       spec_object \<leftarrow> object_member J object ''spec'' json_type_object;
       spec \<leftarrow> read_alarm_spec J (Some spec_object);
       next_due \<leftarrow> wall_value J object ''next_due_utc'' CLOCK_WALL_MAX True;
       last_due \<leftarrow> wall_value J object ''last_due_utc'' CLOCK_WALL_MAX True;
       snoozed \<leftarrow> boolean_value J object ''snoozed'';
       deadline \<leftarrow> unsigned_value J object ''snooze_deadline_ms'' UINT64_MAX;
       Some \<lparr> al_id = ucast ident, al_generation = ucast generation, al_spec = spec, al_next_due_utc = next_due,
              al_last_due_utc = last_due, al_snoozed = snoozed, al_snooze_deadline_ms = deadline \<rparr>
     }"

definition make_alarm :: "'j json_library \<Rightarrow> clock_alarm \<Rightarrow> 'j option" where
  "make_alarm J alarm =
     do {
       object \<leftarrow> js_new_object J;
       let object = add_uint J ''id'' (ucast (al_id alarm)) object;
       let object = add_uint J ''generation'' (ucast (al_generation alarm)) object;
       let object = add_object J ''spec'' (make_alarm_spec J (al_spec alarm)) object;
       let object = add_int J ''next_due_utc'' (al_next_due_utc alarm) object;
       let object = add_int J ''last_due_utc'' (al_last_due_utc alarm) object;
       let object = add_bool J ''snoozed'' (al_snoozed alarm) object;
       let object = add_uint J ''snooze_deadline_ms'' (al_snooze_deadline_ms alarm) object;
       Some object
     }"

text \<open>The elements of an array that has at most \<open>maximum\<close> of them.\<close>

definition array_value :: "'j json_library \<Rightarrow> 'j option \<Rightarrow> string \<Rightarrow> nat \<Rightarrow> 'j option list option" where
  "array_value J object name maximum =
     do {
       arr \<leftarrow> object_member J object name json_type_array;
       require (js_array_length J arr \<le> maximum);
       Some (map (js_array_get_idx J arr) [0..<js_array_length J arr])
     }"

text \<open>
  The loops over such an array: each element is read and then compared with those read before it.
\<close>

fun read_items ::
    "('j option \<Rightarrow> 'a option) \<Rightarrow> ('a list \<Rightarrow> 'a \<Rightarrow> bool) \<Rightarrow> 'j option list \<Rightarrow> 'a list \<Rightarrow> 'a list option" where
  "read_items rd ok [] previous = Some previous"
| "read_items rd ok (value # items) previous =
     do {
       item \<leftarrow> rd value;
       require (ok previous item);
       read_items rd ok items (previous @ [item])
     }"

definition add_items :: "'j json_library \<Rightarrow> ('a \<Rightarrow> 'j option) \<Rightarrow> 'a list \<Rightarrow> 'j \<Rightarrow> 'j" where
  "add_items J mk items arr = fold (\<lambda>item arr. js_array_add J arr (mk item)) items arr"

definition read_timer :: "'j json_library \<Rightarrow> 'j option \<Rightarrow> clock_timer option" where
  "read_timer J object =
     do {
       require (shape J object 5);
       state \<leftarrow> unsigned_value J object ''state'' (timer_number TIMER_FINISHED);
       generation \<leftarrow> unsigned_value J object ''generation'' 0xffffffff;
       require (generation \<noteq> 0);
       duration \<leftarrow> unsigned_value J object ''duration_seconds'' (of_nat CLOCK_TIMER_MAX_SECONDS);
       remaining \<leftarrow> unsigned_value J object ''remaining_ms'' (of_nat CLOCK_TIMER_MAX_SECONDS * 1000);
       deadline \<leftarrow> unsigned_value J object ''deadline_ms'' UINT64_MAX;
       Some \<lparr> ct_state = timer_of state, ct_generation = ucast generation, ct_duration_seconds = unat duration,
              ct_remaining_ms = remaining, ct_deadline_ms = deadline \<rparr>
     }"

definition make_timer :: "'j json_library \<Rightarrow> clock_timer \<Rightarrow> 'j option" where
  "make_timer J timer =
     do {
       object \<leftarrow> js_new_object J;
       let object = add_uint J ''state'' (timer_number (ct_state timer)) object;
       let object = add_uint J ''generation'' (ucast (ct_generation timer)) object;
       let object = add_uint J ''duration_seconds'' (of_nat (ct_duration_seconds timer)) object;
       let object = add_uint J ''remaining_ms'' (ct_remaining_ms timer) object;
       let object = add_uint J ''deadline_ms'' (ct_deadline_ms timer) object;
       Some object
     }"

definition read_lap :: "'j json_library \<Rightarrow> 'j option \<Rightarrow> clock_lap option" where
  "read_lap J lap =
     do {
       require (shape J lap 2);
       elapsed \<leftarrow> unsigned_value J lap ''elapsed_ms'' UINT64_MAX;
       difference \<leftarrow> unsigned_value J lap ''difference_ms'' UINT64_MAX;
       Some \<lparr> lap_elapsed_ms = elapsed, lap_difference_ms = difference \<rparr>
     }"

definition read_stopwatch :: "'j json_library \<Rightarrow> 'j option \<Rightarrow> clock_stopwatch option" where
  "read_stopwatch J object =
     do {
       require (shape J object 3);
       running \<leftarrow> boolean_value J object ''running'';
       elapsed \<leftarrow> unsigned_value J object ''elapsed_ms'' UINT64_MAX;
       items \<leftarrow> array_value J object ''laps'' CLOCK_LAP_LIMIT;
       laps \<leftarrow> read_items (read_lap J) (\<lambda>previous lap. True) items [];
       Some \<lparr> sw_running = running, sw_elapsed_ms = elapsed, sw_laps = laps \<rparr>
     }"

definition make_lap :: "'j json_library \<Rightarrow> clock_lap \<Rightarrow> 'j option" where
  "make_lap J lap =
     do {
       object \<leftarrow> js_new_object J;
       let object = add_uint J ''elapsed_ms'' (lap_elapsed_ms lap) object;
       let object = add_uint J ''difference_ms'' (lap_difference_ms lap) object;
       Some object
     }"

definition make_stopwatch :: "'j json_library \<Rightarrow> clock_stopwatch \<Rightarrow> 'j option" where
  "make_stopwatch J stopwatch =
     do {
       object \<leftarrow> js_new_object J;
       laps \<leftarrow> js_new_array J;
       let object = add_bool J ''running'' (sw_running stopwatch) object;
       let object = add_uint J ''elapsed_ms'' (sw_elapsed_ms stopwatch) object;
       Some (add_object J ''laps'' (Some (add_items J (make_lap J) (sw_laps stopwatch) laps)) object)
     }"

definition read_world :: "'j json_library \<Rightarrow> 'j option \<Rightarrow> clock_world_entry option" where
  "read_world J object =
     do {
       require (shape J object 2);
       ident \<leftarrow> unsigned_value J object ''id'' 0xffffffff;
       require (ident \<noteq> 0);
       offset \<leftarrow> offset_value J object;
       Some \<lparr> we_id = ucast ident, we_offset_minutes = offset \<rparr>
     }"

definition make_world :: "'j json_library \<Rightarrow> clock_world_entry \<Rightarrow> 'j option" where
  "make_world J entry =
     do {
       object \<leftarrow> js_new_object J;
       let object = add_uint J ''id'' (ucast (we_id entry)) object;
       let object = add_int J ''offset_minutes'' (we_offset_minutes entry) object;
       Some object
     }"

text \<open>The comparisons with the entries that stand before.\<close>

definition new_alarm_id :: "clock_alarm list \<Rightarrow> clock_alarm \<Rightarrow> bool" where
  "new_alarm_id previous alarm \<longleftrightarrow> list_all (\<lambda>other. al_id alarm \<noteq> al_id other) previous"

definition new_world_entry :: "clock_world_entry list \<Rightarrow> clock_world_entry \<Rightarrow> bool" where
  "new_world_entry previous entry \<longleftrightarrow>
     list_all (\<lambda>other. we_id entry \<noteq> we_id other \<and> we_offset_minutes entry \<noteq> we_offset_minutes other) previous"

subsection \<open>Snapshots of the whole model\<close>

definition read_model :: "'j json_library \<Rightarrow> 'j option \<Rightarrow> clock_model option" where
  "read_model J object =
     do {
       require (shape J object 17);
       wall \<leftarrow> wall_value J object ''wall_utc'' CLOCK_WALL_MAX False;
       monotonic \<leftarrow> unsigned_value J object ''monotonic_ms'' UINT64_MAX;
       view \<leftarrow> unsigned_value J object ''view'' (view_number VIEW_ANALOG);
       snooze \<leftarrow> unsigned_value J object ''snooze_minutes'' 30;
       require (snooze \<noteq> 0);
       last_hour \<leftarrow> unsigned_value J object ''last_alarm_hour'' 23;
       last_minute \<leftarrow> unsigned_value J object ''last_alarm_minute'' 59;
       alarm_items \<leftarrow> array_value J object ''alarms'' CLOCK_ALARM_LIMIT;
       active_object \<leftarrow> object_member J object ''active'' json_type_object;
       active \<leftarrow> read_event J (Some active_object);
       require (ev_missed_reason active = MISSED_NONE);
       queue_items \<leftarrow> array_value J object ''queue'' CLOCK_QUEUE_LIMIT;
       missed_items \<leftarrow> array_value J object ''missed'' CLOCK_MISSED_LIMIT;
       missed_total \<leftarrow> unsigned_value J object ''missed_total'' UINT64_MAX;
       require (missed_total \<ge> of_nat (length missed_items));
       timer_object \<leftarrow> object_member J object ''timer'' json_type_object;
       timer \<leftarrow> read_timer J (Some timer_object);
       stopwatch_object \<leftarrow> object_member J object ''stopwatch'' json_type_object;
       stopwatch \<leftarrow> read_stopwatch J (Some stopwatch_object);
       world_items \<leftarrow> array_value J object ''world'' CLOCK_WORLD_LIMIT;
       next_alarm \<leftarrow> unsigned_value J object ''next_alarm_id'' 0xffffffff;
       next_world \<leftarrow> unsigned_value J object ''next_world_id'' 0xffffffff;
       next_event \<leftarrow> unsigned_value J object ''next_event_id'' UINT64_MAX;
       alarms \<leftarrow> read_items (read_alarm J) new_alarm_id alarm_items [];
       queue \<leftarrow> read_items (read_event J)
         (\<lambda>previous event. ev_kind event \<noteq> EVENT_NONE \<and> ev_missed_reason event = MISSED_NONE) queue_items [];
       missed \<leftarrow> read_items (read_event J)
         (\<lambda>previous event. ev_kind event \<noteq> EVENT_NONE \<and> ev_missed_reason event \<noteq> MISSED_NONE) missed_items [];
       world \<leftarrow> read_items (read_world J) new_world_entry world_items [];
       Some \<lparr> cm_wall_utc = wall, cm_monotonic_ms = monotonic, cm_view = view_of view,
              cm_snooze_minutes = unat snooze, cm_last_alarm_hour = unat last_hour,
              cm_last_alarm_minute = unat last_minute, cm_alarms = alarms, cm_active = active, cm_queue = queue,
              cm_missed = missed, cm_missed_total = missed_total, cm_timer = timer, cm_stopwatch = stopwatch,
              cm_world = world, cm_next_alarm_id = ucast next_alarm, cm_next_world_id = ucast next_world,
              cm_next_event_id = next_event \<rparr>
     }"

definition make_model :: "'j json_library \<Rightarrow> clock_model \<Rightarrow> 'j option" where
  "make_model J model =
     do {
       require (\<not> (length (cm_alarms model) > CLOCK_ALARM_LIMIT \<or> length (cm_queue model) > CLOCK_QUEUE_LIMIT \<or>
         length (cm_missed model) > CLOCK_MISSED_LIMIT \<or> length (cm_world model) > CLOCK_WORLD_LIMIT \<or>
         length (sw_laps (cm_stopwatch model)) > CLOCK_LAP_LIMIT));
       object \<leftarrow> js_new_object J;
       arr \<leftarrow> js_new_array J;
       let object = add_int J ''wall_utc'' (cm_wall_utc model) object;
       let object = add_uint J ''monotonic_ms'' (cm_monotonic_ms model) object;
       let object = add_uint J ''view'' (view_number (cm_view model)) object;
       let object = add_uint J ''snooze_minutes'' (of_nat (cm_snooze_minutes model)) object;
       let object = add_uint J ''last_alarm_hour'' (of_nat (cm_last_alarm_hour model)) object;
       let object = add_uint J ''last_alarm_minute'' (of_nat (cm_last_alarm_minute model)) object;
       let object = add_object J ''alarms'' (Some (add_items J (make_alarm J) (cm_alarms model) arr)) object;
       let object = add_object J ''active'' (make_event J (cm_active model)) object;
       let object = add_object J ''queue'' (Some (add_items J (make_event J) (cm_queue model) arr)) object;
       let object = add_object J ''missed'' (Some (add_items J (make_event J) (cm_missed model) arr)) object;
       let object = add_uint J ''missed_total'' (cm_missed_total model) object;
       let object = add_object J ''timer'' (make_timer J (cm_timer model)) object;
       let object = add_object J ''stopwatch'' (make_stopwatch J (cm_stopwatch model)) object;
       let object = add_object J ''world'' (Some (add_items J (make_world J) (cm_world model) arr)) object;
       let object = add_uint J ''next_alarm_id'' (ucast (cm_next_alarm_id model)) object;
       let object = add_uint J ''next_world_id'' (ucast (cm_next_world_id model)) object;
       let object = add_uint J ''next_event_id'' (cm_next_event_id model) object;
       Some object
     }"

subsection \<open>Preferences\<close>

text \<open>
  A stored alarm.  An enabled one is scheduled after the current time and after its last
  occurrence; it is disabled when it has none there.
\<close>

definition schedule_stored :: "int \<Rightarrow> clock_alarm \<Rightarrow> clock_alarm" where
  "schedule_stored wall alarm =
     (if sp_enabled (al_spec alarm) then
        case clock_model_alarm_next_due (al_spec alarm)
               (if wall > al_last_due_utc alarm then wall else al_last_due_utc alarm) of
          Some due \<Rightarrow> alarm\<lparr>al_next_due_utc := due\<rparr>
        | None \<Rightarrow> alarm\<lparr>al_spec := (al_spec alarm)\<lparr>sp_enabled := False\<rparr>\<rparr>
      else alarm)"

definition read_stored_alarm :: "'j json_library \<Rightarrow> int \<Rightarrow> u64 \<Rightarrow> 'j option \<Rightarrow> clock_alarm option" where
  "read_stored_alarm J wall next_alarm object =
     do {
       require (shape J object 4);
       ident \<leftarrow> unsigned_value J object ''id'' 0xffffffff;
       require (ident \<noteq> 0 \<and> \<not> (next_alarm \<noteq> 0 \<and> ident \<ge> next_alarm));
       generation \<leftarrow> unsigned_value J object ''generation'' 0xffffffff;
       require (generation \<noteq> 0);
       spec_object \<leftarrow> object_member J object ''spec'' json_type_object;
       spec \<leftarrow> read_alarm_spec J (Some spec_object);
       last_due \<leftarrow> wall_value J object ''last_due_utc'' CLOCK_WALL_MAX True;
       require (last_due mod 60 = 0);
       Some (schedule_stored wall
         \<lparr> al_id = ucast ident, al_generation = ucast generation, al_spec = spec, al_next_due_utc = 0,
           al_last_due_utc = last_due, al_snoozed = False, al_snooze_deadline_ms = 0 \<rparr>)
     }"

definition read_stored_world :: "'j json_library \<Rightarrow> u64 \<Rightarrow> 'j option \<Rightarrow> clock_world_entry option" where
  "read_stored_world J next_world object =
     do {
       entry \<leftarrow> read_world J object;
       require (\<not> (next_world \<noteq> 0 \<and> ucast (we_id entry) \<ge> next_world));
       Some entry
     }"

definition read_preferences :: "'j json_library \<Rightarrow> 'j option \<Rightarrow> clock_model \<Rightarrow> clock_model option" where
  "read_preferences J object model =
     do {
       require (shape J object 9);
       view \<leftarrow> unsigned_value J object ''view'' (view_number VIEW_ANALOG);
       snooze \<leftarrow> unsigned_value J object ''snooze_minutes'' 30;
       require (snooze \<noteq> 0);
       last_hour \<leftarrow> unsigned_value J object ''last_alarm_hour'' 23;
       last_minute \<leftarrow> unsigned_value J object ''last_alarm_minute'' 59;
       duration \<leftarrow> unsigned_value J object ''timer_duration_seconds'' (of_nat CLOCK_TIMER_MAX_SECONDS);
       next_alarm \<leftarrow> unsigned_value J object ''next_alarm_id'' 0xffffffff;
       next_world \<leftarrow> unsigned_value J object ''next_world_id'' 0xffffffff;
       alarm_items \<leftarrow> array_value J object ''alarms'' CLOCK_ALARM_LIMIT;
       world_items \<leftarrow> array_value J object ''world'' CLOCK_WORLD_LIMIT;
       alarms \<leftarrow> read_items (read_stored_alarm J (cm_wall_utc model) next_alarm) new_alarm_id alarm_items [];
       world \<leftarrow> read_items (read_stored_world J next_world) new_world_entry world_items [];
       Some (model\<lparr>cm_view := view_of view, cm_snooze_minutes := unat snooze, cm_last_alarm_hour := unat last_hour,
         cm_last_alarm_minute := unat last_minute,
         cm_timer := (cm_timer model)\<lparr>ct_duration_seconds := unat duration, ct_remaining_ms := duration * 1000\<rparr>,
         cm_next_alarm_id := ucast next_alarm, cm_next_world_id := ucast next_world,
         cm_alarms := alarms, cm_world := world\<rparr>)
     }"

definition make_stored_alarm :: "'j json_library \<Rightarrow> clock_alarm \<Rightarrow> 'j option" where
  "make_stored_alarm J alarm =
     do {
       object \<leftarrow> js_new_object J;
       let object = add_uint J ''id'' (ucast (al_id alarm)) object;
       let object = add_uint J ''generation'' (ucast (al_generation alarm)) object;
       let object = add_object J ''spec'' (make_alarm_spec J (al_spec alarm)) object;
       let object = add_int J ''last_due_utc'' (al_last_due_utc alarm) object;
       Some object
     }"

definition make_preferences :: "'j json_library \<Rightarrow> clock_model \<Rightarrow> 'j option" where
  "make_preferences J model =
     do {
       require (\<not> (length (cm_alarms model) > CLOCK_ALARM_LIMIT \<or> length (cm_world model) > CLOCK_WORLD_LIMIT));
       object \<leftarrow> js_new_object J;
       arr \<leftarrow> js_new_array J;
       let object = add_uint J ''view'' (view_number (cm_view model)) object;
       let object = add_uint J ''snooze_minutes'' (of_nat (cm_snooze_minutes model)) object;
       let object = add_uint J ''last_alarm_hour'' (of_nat (cm_last_alarm_hour model)) object;
       let object = add_uint J ''last_alarm_minute'' (of_nat (cm_last_alarm_minute model)) object;
       let object = add_uint J ''timer_duration_seconds'' (of_nat (ct_duration_seconds (cm_timer model))) object;
       let object = add_uint J ''next_alarm_id'' (ucast (cm_next_alarm_id model)) object;
       let object = add_uint J ''next_world_id'' (ucast (cm_next_world_id model)) object;
       let object = add_object J ''alarms'' (Some (add_items J (make_stored_alarm J) (cm_alarms model) arr)) object;
       let object = add_object J ''world'' (Some (add_items J (make_world J) (cm_world model) arr)) object;
       Some object
     }"

definition clock_wire_preferences_encode :: "'j json_library \<Rightarrow> clock_model \<Rightarrow> nat \<Rightarrow> clock_status + bytes" where
  "clock_wire_preferences_encode J model capacity =
     (case clock_model_init (cm_wall_utc model) (cm_monotonic_ms model) of
        None \<Rightarrow> Inl CLOCK_INVALID
      | Some checked \<Rightarrow>
          let object = make_preferences J model
          in case read_preferences J object checked of
               None \<Rightarrow> Inl CLOCK_INVALID
             | Some checked \<Rightarrow> write_object J object capacity)"

definition clock_wire_preferences_decode ::
    "'j json_library \<Rightarrow> bytes \<Rightarrow> clock_model \<Rightarrow> clock_status \<times> clock_model" where
  "clock_wire_preferences_decode J json model =
     (case clock_model_init (cm_wall_utc model) (cm_monotonic_ms model) of
        None \<Rightarrow> (CLOCK_INVALID, model)
      | Some decoded \<Rightarrow>
          (case read_preferences J (parse_object J json) decoded of
             None \<Rightarrow> (CLOCK_INVALID, model)
           | Some decoded \<Rightarrow> (CLOCK_OK, decoded)))"

subsection \<open>Results\<close>

datatype fplinux_storage_state = STORAGE_UNPUBLISHED | STORAGE_PUBLISHED_UNSYNCED | STORAGE_DURABLE

record clock_result =
  rs_status :: clock_status
  rs_applied :: bool
  rs_state :: fplinux_storage_state
  rs_error :: int

definition all_statuses :: "clock_status list" where
  "all_statuses = [CLOCK_OK, CLOCK_INVALID, CLOCK_NOT_FOUND, CLOCK_FULL, CLOCK_ACTIVE_EVENT, CLOCK_STALE_EVENT,
     CLOCK_NO_EVENT, CLOCK_WRONG_STATE, CLOCK_TIME_BACKWARD, CLOCK_EXHAUSTED, CLOCK_STORAGE_ERROR]"

definition read_status :: "'j json_library \<Rightarrow> 'j option \<Rightarrow> clock_status option" where
  "read_status J object =
     find (\<lambda>status. literal_value J object ''status'' (clock_model_status_name status)) all_statuses"

fun storage_name :: "fplinux_storage_state \<Rightarrow> string" where
  "storage_name STORAGE_UNPUBLISHED = ''unpublished''"
| "storage_name STORAGE_PUBLISHED_UNSYNCED = ''published-unsynced''"
| "storage_name STORAGE_DURABLE = ''durable''"

definition read_result :: "'j json_library \<Rightarrow> 'j option \<Rightarrow> clock_result option" where
  "read_result J object =
     do {
       status \<leftarrow> read_status J object;
       applied \<leftarrow> boolean_value J object ''applied'';
       error \<leftarrow> unsigned_value J object ''error'' 0x7fffffff;
       state \<leftarrow> find (\<lambda>state. literal_value J object ''storage'' (storage_name state))
         [STORAGE_UNPUBLISHED, STORAGE_PUBLISHED_UNSYNCED, STORAGE_DURABLE];
       require (if state = STORAGE_DURABLE then error = 0 else error \<noteq> 0);
       require (if status = CLOCK_OK then applied else status = CLOCK_STORAGE_ERROR \<or> \<not> applied);
       Some \<lparr> rs_status = status, rs_applied = applied, rs_state = state, rs_error = uint error \<rparr>
     }"

definition read_snapshot :: "'j json_library \<Rightarrow> 'j option \<Rightarrow> (clock_model \<times> clock_result \<times> u64) option" where
  "read_snapshot J object =
     do {
       require (shape J object 7);
       require (literal_value J object ''op'' ''snapshot'');
       result \<leftarrow> read_result J object;
       serial \<leftarrow> unsigned_value J object ''serial'' UINT64_MAX;
       data \<leftarrow> object_member J object ''model'' json_type_object;
       model \<leftarrow> read_model J (Some data);
       Some (model, result, serial)
     }"

definition make_snapshot :: "'j json_library \<Rightarrow> clock_model \<Rightarrow> clock_result \<Rightarrow> u64 \<Rightarrow> 'j option" where
  "make_snapshot J model result serial =
     do {
       object \<leftarrow> js_new_object J;
       let object = add_literal J ''op'' ''snapshot'' object;
       let object = add_literal J ''status'' (clock_model_status_name (rs_status result)) object;
       let object = add_bool J ''applied'' (rs_applied result) object;
       let object = add_literal J ''storage'' (storage_name (rs_state result)) object;
       let object = add_int J ''error'' (rs_error result) object;
       let object = add_uint J ''serial'' serial object;
       let object = add_object J ''model'' (make_model J model) object;
       Some object
     }"

definition clock_wire_snapshot_encode ::
    "'j json_library \<Rightarrow> clock_model \<Rightarrow> clock_result \<Rightarrow> u64 \<Rightarrow> nat \<Rightarrow> clock_status + bytes" where
  "clock_wire_snapshot_encode J model result serial capacity =
     (let object = make_snapshot J model result serial
      in case read_snapshot J object of
           None \<Rightarrow> Inl CLOCK_INVALID
         | Some checked \<Rightarrow> write_object J object capacity)"

definition clock_wire_snapshot_decode ::
    "'j json_library \<Rightarrow> bytes \<Rightarrow> clock_status + clock_model \<times> clock_result \<times> u64" where
  "clock_wire_snapshot_decode J json =
     (case read_snapshot J (parse_object J json) of None \<Rightarrow> Inl CLOCK_INVALID | Some decoded \<Rightarrow> Inr decoded)"

subsection \<open>The ring\<close>

record clock_ring =
  rg_event :: clock_event
  rg_snooze_minutes :: nat
  rg_missed_total :: u64

definition clock_wire_ring_from_model :: "clock_model \<Rightarrow> clock_ring" where
  "clock_wire_ring_from_model model =
     \<lparr> rg_event = cm_active model, rg_snooze_minutes = cm_snooze_minutes model, rg_missed_total = cm_missed_total model \<rparr>"

definition read_ring :: "'j json_library \<Rightarrow> 'j option \<Rightarrow> (clock_ring \<times> u64) option" where
  "read_ring J object =
     do {
       require (shape J object 5);
       require (literal_value J object ''op'' ''ring'');
       serial \<leftarrow> unsigned_value J object ''serial'' UINT64_MAX;
       event_object \<leftarrow> object_member J object ''event'' json_type_object;
       event \<leftarrow> read_event J (Some event_object);
       require (ev_missed_reason event = MISSED_NONE);
       snooze \<leftarrow> unsigned_value J object ''snooze_minutes'' 30;
       require (snooze \<noteq> 0);
       missed_total \<leftarrow> unsigned_value J object ''missed_total'' UINT64_MAX;
       Some (\<lparr> rg_event = event, rg_snooze_minutes = unat snooze, rg_missed_total = missed_total \<rparr>, serial)
     }"

definition make_ring :: "'j json_library \<Rightarrow> clock_ring \<Rightarrow> u64 \<Rightarrow> 'j option" where
  "make_ring J ring serial =
     do {
       object \<leftarrow> js_new_object J;
       let object = add_literal J ''op'' ''ring'' object;
       let object = add_uint J ''serial'' serial object;
       let object = add_object J ''event'' (make_event J (rg_event ring)) object;
       let object = add_uint J ''snooze_minutes'' (of_nat (rg_snooze_minutes ring)) object;
       let object = add_uint J ''missed_total'' (rg_missed_total ring) object;
       Some object
     }"

definition clock_wire_ring_encode :: "'j json_library \<Rightarrow> clock_ring \<Rightarrow> u64 \<Rightarrow> nat \<Rightarrow> clock_status + bytes" where
  "clock_wire_ring_encode J ring serial capacity =
     (let object = make_ring J ring serial
      in case read_ring J object of
           None \<Rightarrow> Inl CLOCK_INVALID
         | Some checked \<Rightarrow> write_object J object capacity)"

definition clock_wire_ring_decode :: "'j json_library \<Rightarrow> bytes \<Rightarrow> clock_status + clock_ring \<times> u64" where
  "clock_wire_ring_decode J json =
     (case read_ring J (parse_object J json) of None \<Rightarrow> Inl CLOCK_INVALID | Some decoded \<Rightarrow> Inr decoded)"

end
