(* ===== verification/Clock_Calendar.thy ===== *)
theory Clock_Calendar
  imports Clock_Model
begin

section \<open>The calendar and the schedules of alarms\<close>

text \<open>
  \<^const>\<open>gmtime\<close> and \<^const>\<open>timegm\<close> are inverse on real dates, so that
  \<^const>\<open>clock_model_utc_from_calendar\<close> accepts exactly these; the weekday loop of
  \<^const>\<open>clock_model_alarm_next_due\<close> finds the earliest later occurrence of a schedule.
\<close>

subsection \<open>Years and months\<close>

definition days_before_year :: "nat \<Rightarrow> nat \<Rightarrow> nat" where
  "days_before_year y0 y = sum_list (map year_days [y0..<y])"

lemma days_before_year_simps:
  "days_before_year y y = 0"
  "y0 \<le> y \<Longrightarrow> days_before_year y0 (Suc y) = days_before_year y0 y + year_days y"
  "y0 < y \<Longrightarrow> days_before_year y0 y = year_days y0 + days_before_year (Suc y0) y"
  by (simp_all add: days_before_year_def upt_conv_Cons)

lemma days_before_year_mono: "y \<le> z \<Longrightarrow> y0 \<le> y \<Longrightarrow> days_before_year y0 y \<le> days_before_year y0 z"
  by (induction z rule: dec_induct) (auto simp: days_before_year_simps(2))

lemma split_year_exact:
  "split_year y0 day = (y, r) \<Longrightarrow> y0 \<le> y \<and> r < year_days y \<and> days_before_year y0 y + r = day"
proof (induction y0 day rule: split_year.induct)
  case (1 y0 day)
  show ?case
  proof (cases "day < year_days y0")
    case True
    then show ?thesis using "1.prems" by (subst (asm) split_year.simps) (simp add: days_before_year_simps)
  next
    case False
    then have "Suc y0 \<le> y \<and> r < year_days y \<and> days_before_year (Suc y0) y + r = day - year_days y0"
      using 1 by (subst (asm) (2) split_year.simps) simp
    then show ?thesis using False by (auto simp: days_before_year_simps(3))
  qed
qed

lemma split_year_unique:
  "y0 \<le> y \<Longrightarrow> r < year_days y \<Longrightarrow> split_year y0 (days_before_year y0 y + r) = (y, r)"
proof (induction "y - y0" arbitrary: y0)
  case 0
  then show ?case by (subst split_year.simps) (simp add: days_before_year_simps)
next
  case (Suc n)
  then have "y0 < y" by simp
  moreover have "split_year (Suc y0) (days_before_year (Suc y0) y + r) = (y, r)"
    using Suc by (intro Suc.hyps(1)) auto
  ultimately show ?case by (subst split_year.simps) (simp add: days_before_year_simps(3))
qed

lemma split_month_exact:
  "split_month m ns day = (k, r) \<Longrightarrow> day < sum_list ns \<Longrightarrow>
   m \<le> k \<and> k - m < length ns \<and> r < ns ! (k - m) \<and> sum_list (take (k - m) ns) + r = day"
proof (induction m ns day rule: split_month.induct)
  case (2 m n ns day)
  show ?case
  proof (cases "day < n")
    case False
    then have *: "Suc m \<le> k \<and> k - Suc m < length ns \<and> r < ns ! (k - Suc m) \<and>
        sum_list (take (k - Suc m) ns) + r = day - n"
      using 2 by simp
    then have "k - m = Suc (k - Suc m)" by (simp add: Suc_diff_Suc Suc_le_eq)
    then show ?thesis using * False by auto
  qed (use 2 in auto)
qed simp

lemma split_month_unique:
  "j < length ns \<Longrightarrow> r < ns ! j \<Longrightarrow> split_month m ns (sum_list (take j ns) + r) = (m + j, r)"
proof (induction ns arbitrary: m j)
  case (Cons n ns)
  then show ?case by (cases j) auto
qed simp

lemma year_months: "sum_list (map (month_days y) [0..<12]) = year_days y"
  by (simp add: upt_conv_Cons month_days_def year_days_def)

lemma take_months: "m \<le> 12 \<Longrightarrow> take m (map (month_days y) [0..<12]) = map (month_days y) [0..<m]"
  by (simp add: take_map)

lemma months_mono: "m \<le> n \<Longrightarrow> sum_list (map (month_days y) [0..<m]) \<le> sum_list (map (month_days y) [0..<n])"
  by (induction n rule: dec_induct) auto

subsection \<open>Dates\<close>

definition real_date :: "clock_local_time \<Rightarrow> bool" where
  "real_date c \<longleftrightarrow> 1970 \<le> lt_year c \<and> 1 \<le> lt_month c \<and> lt_month c \<le> 12 \<and> 1 \<le> lt_day c \<and>
     lt_day c \<le> month_days (nat (lt_year c)) (lt_month c - 1) \<and> lt_hour c < 24 \<and> lt_minute c < 60 \<and> lt_second c < 60"

definition weekday_of :: "int \<Rightarrow> nat" where
  "weekday_of instant = nat ((instant div 86400 + 3) mod 7)"

lemma gmtime_time:
  "lt_hour (gmtime t) = nat (t mod 86400) div 3600"
  "lt_minute (gmtime t) = nat (t mod 86400) div 60 mod 60"
  "lt_second (gmtime t) = nat (t mod 86400) mod 60"
  by (simp_all add: gmtime_def Let_def split: prod.split)

lemma gmtime_weekday: "0 \<le> t \<Longrightarrow> lt_weekday (gmtime t) = weekday_of t"
proof -
  assume "0 \<le> t"
  then have "int ((nat (t div 86400) + 4 + 6) mod 7) = (t div 86400 + 3 + 7) mod 7"
    by (simp add: zmod_int)
  moreover have "(t div 86400 + 3 + 7) mod 7 = (t div 86400 + 3) mod 7" by (rule mod_add_self2)
  ultimately have "int ((nat (t div 86400) + 4 + 6) mod 7) = (t div 86400 + 3) mod 7" by (simp only:)
  then have "(nat (t div 86400) + 4 + 6) mod 7 = weekday_of t" unfolding weekday_of_def by (metis nat_int)
  then show ?thesis by (simp add: gmtime_def Let_def split: prod.split)
qed

lemma gmtime_split:
  "split_year 1970 (nat (t div 86400)) = (y, r) \<Longrightarrow> split_month 0 (map (month_days y) [0..<12]) r = (m, d) \<Longrightarrow>
   gmtime t = \<lparr> lt_year = int y, lt_month = m + 1, lt_day = d + 1,
      lt_weekday = (nat (t div 86400) + 4 + 6) mod 7, lt_hour = nat (t mod 86400) div 3600,
      lt_minute = nat (t mod 86400) div 60 mod 60, lt_second = nat (t mod 86400) mod 60 \<rparr>"
  unfolding gmtime_def Let_def by (simp only: prod.case)

lemma clock_parts: "n div 3600 * 3600 + n div 60 mod 60 * 60 + n mod 60 = (n::nat)"
proof -
  have hours: "x * 3600 + y * 60 = (x * 60 + y) * 60" for x y :: nat by simp
  have "n div 3600 = n div 60 div 60" by (simp add: div_mult2_eq [symmetric])
  then have "n div 3600 * 3600 + n div 60 mod 60 * 60 = (n div 60 div 60 * 60 + n div 60 mod 60) * 60"
    using hours [of "n div 60 div 60" "n div 60 mod 60"] by (simp only:)
  also have "\<dots> = n div 60 * 60" by (simp only: div_mult_mod_eq)
  finally show ?thesis by simp
qed

lemma gmtime_real: "0 \<le> t \<Longrightarrow> real_date (gmtime t) \<and> timegm (gmtime t) = t"
proof -
  assume t: "0 \<le> t"
  obtain y r where y: "split_year 1970 (nat (t div 86400)) = (y, r)" by force
  obtain m d where m: "split_month 0 (map (month_days y) [0..<12]) r = (m, d)" by force
  have Y: "1970 \<le> y" "r < year_days y" "days_before_year 1970 y + r = nat (t div 86400)"
    using split_year_exact [OF y] by auto
  then have M: "m < 12" "d < month_days y m" "sum_list (map (month_days y) [0..<m]) + d = r"
    using split_month_exact [OF m] by (auto simp: year_months take_months)
  have day: "int (days_before_year 1970 y) + int (sum_list (map (month_days y) [0..<m])) + int d = t div 86400"
    using Y(3) M(3) t by linarith
  have sec: "int (nat (t mod 86400) div 3600) * 3600 + int (nat (t mod 86400) div 60 mod 60) * 60 +
      int (nat (t mod 86400) mod 60) = t mod 86400"
    using arg_cong [OF clock_parts [of "nat (t mod 86400)"], of int] by simp
  note g = gmtime_split [OF y m]
  have "nat (t mod 86400) < 24 * 3600" by simp
  then have "nat (t mod 86400) div 3600 < 24" by (simp add: div_less_iff_less_mult)
  then have "real_date (gmtime t)" unfolding g using Y(1) M(1,2) by (simp add: real_date_def)
  moreover have "timegm (gmtime t) =
      (int (days_before_year 1970 y) + int (sum_list (map (month_days y) [0..<m])) + int d) * 86400 +
      (int (nat (t mod 86400) div 3600) * 3600 + int (nat (t mod 86400) div 60 mod 60) * 60 +
       int (nat (t mod 86400) mod 60))"
    unfolding g timegm_def Let_def by (simp add: days_before_year_def [symmetric])
  ultimately show ?thesis by (simp only: day sec div_mult_mod_eq)
qed

lemma div_mod_day: "s < 86400 \<Longrightarrow> (int d * 86400 + int s) div 86400 = int d \<and> (int d * 86400 + int s) mod 86400 = int s"
  by simp

lemma second_parts:
  assumes "h < 24" "i < 60" "s < (60::nat)"
  shows "h * 3600 + i * 60 + s < 86400" "(h * 3600 + i * 60 + s) div 3600 = h"
    "(h * 3600 + i * 60 + s) div 60 mod 60 = i" "(h * 3600 + i * 60 + s) mod 60 = s"
proof -
  have sixty: "(h * 3600 + i * 60 + s) div 60 = h * 60 + i"
    using assms(3) by (intro div_nat_eqI) auto
  then show "(h * 3600 + i * 60 + s) div 60 mod 60 = i" using assms(2) by simp
  have "(h * 3600 + i * 60 + s) div 3600 = (h * 3600 + i * 60 + s) div 60 div 60"
    by (simp add: div_mult2_eq [symmetric])
  then show "(h * 3600 + i * 60 + s) div 3600 = h" using sixty assms(2) by simp
  show "h * 3600 + i * 60 + s < 86400" using assms by linarith
  show "(h * 3600 + i * 60 + s) mod 60 = s" using assms(3) by (simp add: mod_add_left_eq [symmetric] mod_mult_left_eq)
qed

lemma gmtime_timegm:
  assumes "real_date c"
  shows "0 \<le> timegm c" "gmtime (timegm c) = c\<lparr>lt_weekday := weekday_of (timegm c)\<rparr>"
proof -
  define y where "y = nat (lt_year c)"
  define d where "d = days_before_year 1970 y + (sum_list (map (month_days y) [0..<lt_month c - 1]) + (lt_day c - 1))"
  define s where "s = lt_hour c * 3600 + lt_minute c * 60 + lt_second c"
  note * = assms [unfolded real_date_def, folded y_def]
  have t: "timegm c = int d * 86400 + int s"
    using * by (simp add: timegm_def Let_def d_def s_def y_def days_before_year_def algebra_simps of_nat_diff)
  have s: "s < 86400" "s div 3600 = lt_hour c" "s div 60 mod 60 = lt_minute c" "s mod 60 = lt_second c"
    unfolding s_def using * by (simp_all add: second_parts)
  have months: "split_month 0 (map (month_days y) [0..<12])
      (sum_list (take (lt_month c - 1) (map (month_days y) [0..<12])) + (lt_day c - 1)) = (0 + (lt_month c - 1), lt_day c - 1)"
    by (rule split_month_unique) (use * in auto)
  then have m: "split_month 0 (map (month_days y) [0..<12])
      (sum_list (map (month_days y) [0..<lt_month c - 1]) + (lt_day c - 1)) = (lt_month c - 1, lt_day c - 1)"
    using * by (subst (asm) take_months) auto
  have "split_month 0 (map (month_days y) [0..<12])
      (sum_list (map (month_days y) [0..<lt_month c - 1]) + (lt_day c - 1)) = (lt_month c - 1, lt_day c - 1)"
    by (rule m)
  have bound: "sum_list (map (month_days y) [0..<lt_month c - 1]) + (lt_day c - 1) < year_days y"
  proof -
    have "sum_list (map (month_days y) [0..<lt_month c - 1]) + (lt_day c - 1) <
        sum_list (map (month_days y) [0..<Suc (lt_month c - 1)])"
      using * by (simp only: upt_Suc le0 if_True map_append sum_list.append) auto
    also have "\<dots> \<le> sum_list (map (month_days y) [0..<12])"
      using * by (intro months_mono) auto
    finally show ?thesis by (simp only: year_months)
  qed
  have sy: "split_year 1970 d = (y, sum_list (map (month_days y) [0..<lt_month c - 1]) + (lt_day c - 1))"
    unfolding d_def by (rule split_year_unique [OF _ bound]) (use * in \<open>auto simp: y_def\<close>)
  show "0 \<le> timegm c" unfolding t by simp
  have parts: "timegm c div 86400 = int d" "timegm c mod 86400 = int s"
    using div_mod_day [OF s(1), of d] by (simp_all add: t)
  have w: "lt_weekday (gmtime (timegm c)) = weekday_of (timegm c)"
    by (rule gmtime_weekday) (simp add: t)
  have yr: "int y = lt_year c" using * by (simp add: y_def)
  have "split_year 1970 (nat (timegm c div 86400)) =
      (y, sum_list (map (month_days y) [0..<lt_month c - 1]) + (lt_day c - 1))"
    by (simp only: parts nat_int sy)
  note g = gmtime_split [OF this m, unfolded parts nat_int s yr]
  have "gmtime (timegm c) = c\<lparr>lt_weekday := lt_weekday (gmtime (timegm c))\<rparr>"
    unfolding g using * by simp
  then show "gmtime (timegm c) = c\<lparr>lt_weekday := weekday_of (timegm c)\<rparr>" by (simp only: w)
qed

text \<open>Which years the range of the wall clock covers.\<close>

lemma first_day: "days_before_year 1970 1980 = 3652"
  by (simp add: days_before_year_def year_days_def leap_year_def upt_conv_Cons)

lemma last_day: "days_before_year 1970 2100 = 47482"
  by (simp add: days_before_year_def year_days_def leap_year_def upt_conv_Cons)

lemma wall_years:
  assumes "valid_wall t"
  shows "1980 \<le> lt_year (gmtime t)" "lt_year (gmtime t) \<le> 2099" "0 \<le> t"
proof -
  show t: "0 \<le> t" using assms by (simp add: valid_wall_def CLOCK_WALL_MIN_def)
  obtain y r where y: "split_year 1970 (nat (t div 86400)) = (y, r)" by force
  obtain m d where m: "split_month 0 (map (month_days y) [0..<12]) r = (m, d)" by force
  note Y = split_year_exact [OF y]
  have day: "3652 \<le> nat (t div 86400)" "nat (t div 86400) < 47482"
    using assms by (auto simp: valid_wall_def CLOCK_WALL_MIN_def CLOCK_WALL_MAX_def)
  have "\<not> Suc y \<le> 1980"
  proof
    assume "Suc y \<le> 1980"
    then have "days_before_year 1970 (Suc y) \<le> days_before_year 1970 1980" using Y by (intro days_before_year_mono) auto
    then show False using Y day by (simp add: days_before_year_simps(2) first_day)
  qed
  moreover have "\<not> 2100 \<le> y"
  proof
    assume "2100 \<le> y"
    then have "days_before_year 1970 2100 \<le> days_before_year 1970 y" by (intro days_before_year_mono) auto
    then show False using Y day by (simp add: last_day)
  qed
  ultimately show "1980 \<le> lt_year (gmtime t)" "lt_year (gmtime t) \<le> 2099"
    unfolding gmtime_split [OF y m] by auto
qed

lemma date_wall:
  assumes "real_date c" "1980 \<le> lt_year c" "lt_year c \<le> 2099"
  shows "valid_wall (timegm c)"
proof -
  obtain y r where y: "split_year 1970 (nat (timegm c div 86400)) = (y, r)" by force
  obtain m d where m: "split_month 0 (map (month_days y) [0..<12]) r = (m, d)" by force
  note Y = split_year_exact [OF y]
  have "lt_year (gmtime (timegm c)) = lt_year c" by (simp add: gmtime_timegm(2) [OF assms(1)])
  then have yc: "int y = lt_year c" unfolding gmtime_split [OF y m] by simp
  have "days_before_year 1970 1980 \<le> days_before_year 1970 y" "days_before_year 1970 (Suc y) \<le> days_before_year 1970 2100"
    using assms yc by (auto intro!: days_before_year_mono)
  then have "3652 \<le> nat (timegm c div 86400)" "nat (timegm c div 86400) < 47482"
    using Y by (auto simp: days_before_year_simps(2) first_day last_day)
  then have "3652 \<le> timegm c div 86400" "timegm c div 86400 \<le> 47481" using gmtime_timegm(1) [OF assms(1)] by linarith+
  moreover have "timegm c = timegm c div 86400 * 86400 + timegm c mod 86400" by simp
  moreover have "0 \<le> timegm c mod 86400" "timegm c mod 86400 < 86400" by simp_all
  ultimately show ?thesis unfolding valid_wall_def CLOCK_WALL_MIN_def CLOCK_WALL_MAX_def by linarith
qed

lemma from_calendar_iff:
  "clock_model_utc_from_calendar c = Some t \<longleftrightarrow>
   real_date c \<and> 1980 \<le> lt_year c \<and> lt_year c \<le> 2099 \<and> t = timegm c"
proof
  assume *: "clock_model_utc_from_calendar c = Some t"
  then have t: "t = timegm c" and v: "valid_wall t" and y: "1980 \<le> lt_year c" "lt_year c \<le> 2099"
    and same: "lt_year (gmtime t) = lt_year c" "lt_month (gmtime t) = lt_month c" "lt_day (gmtime t) = lt_day c"
      "lt_hour (gmtime t) = lt_hour c" "lt_minute (gmtime t) = lt_minute c" "lt_second (gmtime t) = lt_second c"
    by (auto simp: clock_model_utc_from_calendar_def clock_model_utc_time_def Let_def split: if_split_asm)
  have "real_date (gmtime t)" using gmtime_real wall_years(3) [OF v] by blast
  then have "real_date c" by (simp add: real_date_def same)
  then show "real_date c \<and> 1980 \<le> lt_year c \<and> lt_year c \<le> 2099 \<and> t = timegm c"
    using y t by blast
next
  assume *: "real_date c \<and> 1980 \<le> lt_year c \<and> lt_year c \<le> 2099 \<and> t = timegm c"
  then have "valid_wall (timegm c)" "gmtime (timegm c) = c\<lparr>lt_weekday := weekday_of (timegm c)\<rparr>"
    using date_wall gmtime_timegm(2) by auto
  moreover have "month_days y m \<le> 31" for y m by (simp add: month_days_def)
  then have "lt_day c \<le> 31" using * by (auto simp: real_date_def intro: le_trans)
  ultimately show "clock_model_utc_from_calendar c = Some t"
    using * by (simp add: clock_model_utc_from_calendar_def clock_model_utc_time_def Let_def real_date_def)
qed

lemma timegm_weekday [simp]: "timegm (c\<lparr>lt_weekday := w\<rparr>) = timegm c"
  by (simp add: timegm_def)

lemma real_date_weekday [simp]: "real_date (c\<lparr>lt_weekday := w\<rparr>) = real_date c"
  by (simp add: real_date_def)

text \<open>
  C29.  The two calendar conversions are inverse: a calendar is converted to an instant exactly
  when that instant is converted to this calendar, with the weekday of the instant in the place
  of the calendar's, which is not read.
\<close>

theorem calendar_round_trip:
  "clock_model_utc_from_calendar c = Some t \<longleftrightarrow>
   clock_model_utc_time t = Some (c\<lparr>lt_weekday := weekday_of t\<rparr>)"
proof
  assume "clock_model_utc_from_calendar c = Some t"
  then show "clock_model_utc_time t = Some (c\<lparr>lt_weekday := weekday_of t\<rparr>)"
    by (auto simp: from_calendar_iff clock_model_utc_time_def date_wall gmtime_timegm(2))
next
  assume "clock_model_utc_time t = Some (c\<lparr>lt_weekday := weekday_of t\<rparr>)"
  then have v: "valid_wall t" and g: "gmtime t = c\<lparr>lt_weekday := weekday_of t\<rparr>"
    by (auto simp: clock_model_utc_time_def split: if_split_asm)
  show "clock_model_utc_from_calendar c = Some t"
    using wall_years [OF v] gmtime_real [of t] unfolding g by (auto simp: from_calendar_iff)
qed

text \<open>
  Exactly the real dates of the years 1980 to 2099 are accepted: months 1 to 12, days up to
  the length of the month, the 29th of February in leap years only, and times up to 23:59:59.
\<close>

theorem real_dates_accepted:
  "(\<exists>t. clock_model_utc_from_calendar c = Some t) \<longleftrightarrow>
   1980 \<le> lt_year c \<and> lt_year c \<le> 2099 \<and> 1 \<le> lt_month c \<and> lt_month c \<le> 12 \<and> 1 \<le> lt_day c \<and>
   lt_day c \<le> month_days (nat (lt_year c)) (lt_month c - 1) \<and>
   lt_hour c \<le> 23 \<and> lt_minute c \<le> 59 \<and> lt_second c \<le> 59"
  by (auto simp: from_calendar_iff real_date_def)

subsection \<open>Occurrences of an alarm\<close>

text \<open>
  When an alarm is due, read off the calendar: at its instant, or at its time of day on each of
  its weekdays.
\<close>

definition occurs :: "clock_alarm_spec \<Rightarrow> int \<Rightarrow> bool" where
  "occurs spec t \<longleftrightarrow> valid_wall t \<and>
     (case sp_schedule spec of
        ALARM_ONCE \<Rightarrow> t = sp_once_utc spec
      | ALARM_WEEKLY \<Rightarrow>
          lt_hour (gmtime t) = sp_hour spec \<and> lt_minute (gmtime t) = sp_minute spec \<and> lt_second (gmtime t) = 0 \<and>
          bit (sp_repeat_days spec) (lt_weekday (gmtime t)))"

text \<open>The test of the weekday loop, and the loop as a search.\<close>

definition due_on :: "clock_alarm_spec \<Rightarrow> int \<Rightarrow> int \<Rightarrow> bool" where
  "due_on spec after day \<longleftrightarrow>
     due_candidate spec day > after \<and> valid_wall (due_candidate spec day) \<and>
     bit (sp_repeat_days spec) (nat ((day + 3) mod 7))"

lemma first_due_find:
  "first_due spec after day offsets =
   map_option (\<lambda>offset. due_candidate spec (day + int offset)) (find (\<lambda>offset. due_on spec after (day + int offset)) offsets)"
  by (induction offsets) (auto simp: Let_def due_on_def)

lemma weekly_time:
  assumes "valid_spec spec" "sp_schedule spec = ALARM_WEEKLY"
  shows "int (sp_hour spec) * 3600 + int (sp_minute spec) * 60 < 86400"
  using assms by (simp add: valid_spec_def)

lemma occurs_weekly:
  assumes "valid_spec spec" "sp_schedule spec = ALARM_WEEKLY" "valid_wall t"
  shows "occurs spec t \<longleftrightarrow> t = due_candidate spec (t div 86400) \<and> bit (sp_repeat_days spec) (weekday_of t)"
proof -
  have "0 \<le> t" by (rule wall_years(3) [OF assms(3)])
  note day = gmtime_weekday [OF this]
  have h: "sp_hour spec < 24" "sp_minute spec < 60" using assms by (simp_all add: valid_spec_def)
  let ?s = "nat (t mod 86400)"
  have "lt_hour (gmtime t) = sp_hour spec \<and> lt_minute (gmtime t) = sp_minute spec \<and> lt_second (gmtime t) = 0 \<longleftrightarrow>
      ?s = sp_hour spec * 3600 + sp_minute spec * 60"
    unfolding gmtime_time using clock_parts [of ?s] second_parts [OF h, of 0] by auto
  also have "\<dots> \<longleftrightarrow> t mod 86400 = int (sp_hour spec) * 3600 + int (sp_minute spec) * 60"
    by (simp add: nat_eq_iff)
  also have "\<dots> \<longleftrightarrow> t = due_candidate spec (t div 86400)"
    unfolding due_candidate_def SECONDS_PER_DAY_def using div_mult_mod_eq [of t 86400] by linarith
  finally show ?thesis using assms by (auto simp: occurs_def day)
qed

lemma due_candidate_day:
  assumes "valid_spec spec" "sp_schedule spec = ALARM_WEEKLY"
  shows "due_candidate spec day div 86400 = day"
proof -
  have "due_candidate spec day = (int (sp_hour spec) * 3600 + int (sp_minute spec) * 60) + day * 86400"
    by (simp add: due_candidate_def SECONDS_PER_DAY_def)
  then show ?thesis using weekly_time [OF assms] by simp
qed

lemma due_on_occurs:
  assumes "valid_spec spec" "sp_schedule spec = ALARM_WEEKLY"
  shows "due_on spec after day \<longleftrightarrow> after < due_candidate spec day \<and> occurs spec (due_candidate spec day)"
  using occurs_weekly [OF assms, of "due_candidate spec day"] due_candidate_day [OF assms, of day]
  by (auto simp: due_on_def weekday_of_def occurs_def)

lemma due_candidate_mono: "due_candidate spec d \<le> due_candidate spec e \<longleftrightarrow> d \<le> e"
  by (simp add: due_candidate_def SECONDS_PER_DAY_def)

lemma occurs_due_on:
  assumes "valid_spec spec" "sp_schedule spec = ALARM_WEEKLY" "occurs spec u" "after < u"
  shows "u = due_candidate spec (u div 86400)" "due_on spec after (u div 86400)" "after div 86400 \<le> u div 86400"
proof -
  show u: "u = due_candidate spec (u div 86400)"
    using occurs_weekly [OF assms(1,2), of u] assms(3) by (auto simp: occurs_def)
  show "due_on spec after (u div 86400)" using assms(3,4) u by (simp add: due_on_occurs [OF assms(1,2)])
  show "after div 86400 \<le> u div 86400" using assms(4) by (intro zdiv_mono1) auto
qed

text \<open>Eight days hold every weekday with its time of day still to come.\<close>

lemma due_within_week:
  assumes "valid_wall after" "due_on spec after e" "after div 86400 \<le> e"
  shows "\<exists>offset < 8. due_on spec after (after div 86400 + int offset)"
proof (cases "e \<le> after div 86400 + 7")
  case True
  then show ?thesis using assms(2,3) by (intro exI [of _ "nat (e - after div 86400)"]) auto
next
  case False
  define day where "day = after div 86400"
  define k where "k = 1 + (e - day - 1) mod 7"
  have e: "e = day + k + 7 * ((e - day - 1) div 7)" unfolding k_def by (simp add: minus_mult_div_eq_mod [symmetric])
  have k: "1 \<le> k" "k \<le> 7" using pos_mod_bound [of 7 "e - day - 1"] by (auto simp: k_def)
  have "(e + 3) mod 7 = (day + k + 3 + 7 * ((e - day - 1) div 7)) mod 7" by (subst e) (simp add: algebra_simps)
  then have week: "(day + k + 3) mod 7 = (e + 3) mod 7" by simp
  have "after < (day + 1) * 86400" using div_mult_mod_eq [of after 86400] pos_mod_bound [of 86400 after]
    by (simp add: day_def)
  also have "\<dots> \<le> due_candidate spec (day + k)" using k by (simp add: due_candidate_def SECONDS_PER_DAY_def)
  finally have "after < due_candidate spec (day + k)" .
  moreover have "due_candidate spec (day + k) \<le> due_candidate spec e"
    unfolding due_candidate_mono using False k by (simp add: day_def)
  ultimately have "due_on spec after (day + k)"
    using assms(1,2) week by (auto simp: due_on_def valid_wall_def)
  then show ?thesis using k by (intro exI [of _ "nat k"]) (auto simp: day_def)
qed

lemma next_due_weekly:
  assumes "valid_spec spec" "sp_schedule spec = ALARM_WEEKLY" "valid_wall after"
  shows "clock_model_alarm_next_due spec after = None \<Longrightarrow> occurs spec u \<Longrightarrow> u \<le> after"
    "clock_model_alarm_next_due spec after = Some t \<Longrightarrow> occurs spec t \<and> after < t"
    "clock_model_alarm_next_due spec after = Some t \<Longrightarrow> occurs spec u \<Longrightarrow> after < u \<Longrightarrow> t \<le> u"
proof -
  let ?day = "after div 86400"
  have eq: "clock_model_alarm_next_due spec after =
      map_option (\<lambda>offset. due_candidate spec (?day + int offset))
        (find (\<lambda>offset. due_on spec after (?day + int offset)) [0..<8])"
    using assms by (simp add: clock_model_alarm_next_due_def first_due_find SECONDS_PER_DAY_def)
  {
    assume none: "clock_model_alarm_next_due spec after = None" and u: "occurs spec u"
    show "u \<le> after"
    proof (rule ccontr)
      assume "\<not> u \<le> after"
      then obtain offset where "offset < 8" "due_on spec after (?day + int offset)"
        using occurs_due_on [OF assms(1,2) u] due_within_week [OF assms(3)] by (meson not_le)
      then show False using none unfolding eq by (auto simp: find_None_iff)
    qed
  }
  assume "clock_model_alarm_next_due spec after = Some t"
  then obtain offset where offset: "offset < 8" "due_on spec after (?day + int offset)"
      "t = due_candidate spec (?day + int offset)" "\<forall>j < offset. \<not> due_on spec after (?day + int j)"
    unfolding eq by (auto simp: find_Some_iff)
  then show "occurs spec t \<and> after < t" by (simp add: due_on_occurs [OF assms(1,2)])
  assume u: "occurs spec u" "after < u"
  note U = occurs_due_on [OF assms(1,2) u]
  have "\<not> nat (u div 86400 - ?day) < offset" using offset(4) U(2,3) by auto
  then have "due_candidate spec (?day + int offset) \<le> due_candidate spec (u div 86400)"
    using U(3) unfolding due_candidate_mono by linarith
  then show "t \<le> u" using U(1) offset(3) by simp
qed

lemma next_due_Some:
  assumes "clock_model_alarm_next_due spec after = Some t"
  shows "occurs spec t" "after < t" "valid_spec spec" "valid_wall after"
proof -
  show v: "valid_spec spec" "valid_wall after"
    using assms by (simp_all add: clock_model_alarm_next_due_def split: if_split_asm)
  have "occurs spec t \<and> after < t"
  proof (cases "sp_schedule spec")
    case ALARM_ONCE
    then show ?thesis using assms v
      by (auto simp: clock_model_alarm_next_due_def occurs_def valid_spec_def split: if_split_asm)
  next
    case ALARM_WEEKLY
    then show ?thesis using next_due_weekly(2) [OF v(1) _ v(2) assms] by blast
  qed
  then show "occurs spec t" "after < t" by auto
qed

text \<open>
  C16.  The next due time of a valid schedule is the earliest later instant at which the calendar
  shows its time of day on one of its weekdays, or its single instant; and it reports that there
  is none only when no later occurrence lies before the end of 2099.
\<close>

theorem next_due_earliest:
  assumes "valid_spec spec" "valid_wall after"
  shows "case clock_model_alarm_next_due spec after of
      None \<Rightarrow> \<forall>u. occurs spec u \<longrightarrow> u \<le> after
    | Some t \<Rightarrow> occurs spec t \<and> after < t \<and> (\<forall>u. occurs spec u \<longrightarrow> after < u \<longrightarrow> t \<le> u)"
proof (cases "sp_schedule spec")
  case ALARM_ONCE
  then show ?thesis using assms by (auto simp: clock_model_alarm_next_due_def occurs_def valid_spec_def)
next
  case ALARM_WEEKLY
  then show ?thesis using next_due_weekly [OF assms(1) _ assms(2)] by (auto split: option.split)
qed

definition weekday_alarm :: clock_alarm_spec where
  "weekday_alarm = \<lparr> sp_label = bytes_of ''up'', sp_schedule = ALARM_WEEKLY, sp_once_utc = 0, sp_hour = 7,
     sp_minute = 30, sp_repeat_days = 0x1f, sp_enabled = True \<rparr>"

lemma ascii_text:
  "list_all (\<lambda>b. 0x20 \<le> unat b \<and> unat b < 0x7f) bs \<Longrightarrow> n + length bs \<le> CLOCK_TEXT_CHARACTERS \<Longrightarrow> check_text bs n"
proof (induction bs arbitrary: n)
  case (Cons b bs)
  then show ?case
    by (subst check_text.simps) (auto simp: utf8_next_ascii word_less_nat_alt word_le_nat_alt)
qed (simp add: check_text.simps)

lemma weekday_alarm_valid: "valid_spec weekday_alarm"
  by (simp add: valid_spec_def weekday_alarm_def validate_string_def clock_model_validate_text_def CLOCK_TEXT_BYTES_def
      ascii_text CLOCK_TEXT_CHARACTERS_def)

text \<open>From the evening of Friday, 2024-03-01, to the morning of Monday, 2024-03-04.\<close>

lemma weekday_alarm_due: "clock_model_alarm_next_due weekday_alarm 1709316000 = Some 1709537400"
  by (simp add: clock_model_alarm_next_due_def weekday_alarm_valid [unfolded weekday_alarm_def, simplified] weekday_alarm_def
      valid_wall_def CLOCK_WALL_MIN_def CLOCK_WALL_MAX_def SECONDS_PER_DAY_def upt_conv_Cons Let_def
      due_candidate_def)

theorem next_due_earliest_witness: "occurs weekday_alarm 1709537400"
  using next_due_earliest [OF weekday_alarm_valid, of 1709316000] weekday_alarm_due
  by (simp add: valid_wall_def CLOCK_WALL_MIN_def CLOCK_WALL_MAX_def)

end
