(* ===== verification/Clock_Events.thy ===== *)
theory Clock_Events
  imports Clock_Calendar
begin

section \<open>Tables of the clock and its queue of events\<close>

text \<open>
  The two tables that are searched by id, alarms and world clock entries, share their lemmas
  through a locale.  The ringing event and the queue behind it form one first-in first-out
  list, \<open>pending\<close>: promoting an event does not change it, submitting appends to it, dismissing
  and expiring remove its head, and cancelling filters it.
\<close>

subsection \<open>Tables searched by id\<close>

locale id_table =
  fixes ident :: "'a \<Rightarrow> u32" and find_id :: "u32 \<Rightarrow> 'a list \<Rightarrow> nat \<Rightarrow> nat option"
  assumes find_Nil: "find_id k [] i = None"
    and find_Cons: "find_id k (x # xs) i = (if ident x = k then Some i else find_id k xs (i + 1))"
begin

lemma find_Some_shift: "find_id k xs i = Some j \<Longrightarrow> i \<le> j \<and> j - i < length xs \<and> ident (xs ! (j - i)) = k"
proof (induction xs arbitrary: i)
  case (Cons x xs)
  show ?case
  proof (cases "ident x = k")
    case False
    then have *: "Suc i \<le> j \<and> j - Suc i < length xs \<and> ident (xs ! (j - Suc i)) = k"
      using Cons.IH [of "Suc i"] Cons.prems by (simp add: find_Cons)
    then have "j - i = Suc (j - Suc i)" by (simp add: Suc_diff_Suc Suc_le_eq)
    then show ?thesis using * by auto
  qed (use Cons.prems in \<open>auto simp: find_Cons\<close>)
qed (simp add: find_Nil)

lemma find_Some: "find_id k xs 0 = Some j \<Longrightarrow> j < length xs \<and> ident (xs ! j) = k"
  using find_Some_shift [of k xs 0 j] by simp

lemma find_None: "find_id k xs i = None \<longleftrightarrow> k \<notin> ident ` set xs"
  by (induction xs arbitrary: i) (auto simp: find_Nil find_Cons)

lemma find_distinct:
  assumes "distinct (map ident xs)" "j < length xs"
  shows "find_id (ident (xs ! j)) xs 0 = Some j"
proof (cases "find_id (ident (xs ! j)) xs 0")
  case None
  then show ?thesis using assms(2) by (auto simp: find_None)
next
  case (Some i)
  then have "i < length xs" "ident (xs ! i) = ident (xs ! j)" using find_Some by auto
  then have "i = j" using assms nth_eq_iff_index_eq [of "map ident xs" i j] by simp
  then show ?thesis using Some by simp
qed

lemma keys_update:
  "find_id k xs 0 = Some j \<Longrightarrow> ident x = k \<Longrightarrow> map ident (xs[j := x]) = map ident xs"
  using find_Some [of k xs j] by (auto simp: map_update list_update_same_conv)

lemma keys_remove:
  assumes "find_id k xs 0 = Some j" "distinct (map ident xs)"
  shows "take j xs @ drop (j + 1) xs = filter (\<lambda>x. ident x \<noteq> k) xs"
proof -
  have j: "j < length xs" "ident (xs ! j) = k" using find_Some assms(1) by auto
  then have xs: "xs = take j xs @ xs ! j # drop (j + 1) xs" by (simp add: id_take_nth_drop)
  then have "map ident xs = map ident (take j xs) @ k # map ident (drop (j + 1) xs)"
    using j(2) by (metis list.simps(9) map_append)
  then have "k \<notin> ident ` set (take j xs)" "k \<notin> ident ` set (drop (j + 1) xs)"
    using assms(2) by (simp_all flip: set_map)
  then have "filter (\<lambda>x. ident x \<noteq> k) (take j xs) = take j xs"
    "filter (\<lambda>x. ident x \<noteq> k) (drop (j + 1) xs) = drop (j + 1) xs"
    by (auto simp: filter_id_conv)
  then show ?thesis using j(2) by (subst (3) xs) simp
qed

end

interpretation alarm_table: id_table al_id find_index
  by unfold_locales simp_all

interpretation world_table: id_table we_id find_world
  by unfold_locales simp_all

text \<open>Ids that were handed out in order: different, never 0, and below the next one.\<close>

definition ids_below :: "'a::len word \<Rightarrow> 'a word list \<Rightarrow> bool" where
  "ids_below next ids \<longleftrightarrow> distinct ids \<and> 0 \<notin> set ids \<and> (next \<noteq> 0 \<longrightarrow> (\<forall>i \<in> set ids. i < next))"

lemma ids_below_Nil [simp]: "ids_below next []"
  by (simp add: ids_below_def)

lemma less_next: "(next :: 'a::len word) + 1 \<noteq> 0 \<Longrightarrow> next < next + 1"
  using unatSuc [of "next"] by (simp add: word_less_nat_alt add.commute)

lemma ids_below_append:
  assumes "ids_below next ids" "next \<noteq> 0"
  shows "ids_below (next + 1) (ids @ [next])"
  using assms less_next [of "next"] by (auto simp: ids_below_def intro: less_trans)

lemma ids_below_filter: "ids_below next (map f xs) \<Longrightarrow> ids_below next (map f (filter P xs))"
  by (auto simp: ids_below_def distinct_map inj_on_def)

subsection \<open>The pending events\<close>

definition unring :: "clock_event \<Rightarrow> clock_event" where
  "unring event = event\<lparr>ev_ring_started_ms := 0\<rparr>"

definition pending_events :: "clock_model \<Rightarrow> clock_event list" where
  "pending_events model =
     map unring ((if ev_kind (cm_active model) = EVENT_NONE then [] else [cm_active model]) @ cm_queue model)"

lemma unring_simps [simp]:
  "ev_id (unring e) = ev_id e" "ev_kind (unring e) = ev_kind e" "ev_source_id (unring e) = ev_source_id e"
  "ev_generation (unring e) = ev_generation e" "ev_label (unring e) = ev_label e"
  "unring (e\<lparr>ev_ring_started_ms := t\<rparr>) = unring e" "unring (unring e) = unring e"
  by (simp_all add: unring_def)

lemma zero_event_kind [simp]: "ev_kind zero_event = EVENT_NONE"
  by (simp add: zero_event_def)

text \<open>Nothing waits while nothing rings, the queue fits its array, and the ring has begun.\<close>

definition queue_inv :: "clock_model \<Rightarrow> bool" where
  "queue_inv model \<longleftrightarrow>
     (if ev_kind (cm_active model) = EVENT_NONE then cm_queue model = []
      else ev_ring_started_ms (cm_active model) \<le> cm_monotonic_ms model) \<and>
     EVENT_NONE \<notin> ev_kind ` set (cm_queue model) \<and> length (cm_queue model) \<le> CLOCK_QUEUE_LIMIT"

lemma promote_pending:
  assumes "EVENT_NONE \<notin> ev_kind ` set (cm_queue model)"
  shows "pending_events (promote_event model) = pending_events model"
  using assms by (auto simp: promote_event_def pending_events_def split: list.split)

lemma promote_queue_inv:
  assumes "EVENT_NONE \<notin> ev_kind ` set (cm_queue model)" "length (cm_queue model) \<le> CLOCK_QUEUE_LIMIT"
    "ev_kind (cm_active model) \<noteq> EVENT_NONE \<Longrightarrow> ev_ring_started_ms (cm_active model) \<le> cm_monotonic_ms model"
  shows "queue_inv (promote_event model)"
  using assms by (auto simp: promote_event_def queue_inv_def split: list.split)

lemma cancel_pending:
  assumes "queue_inv model" "kind \<noteq> EVENT_NONE"
  shows "pending_events (cancel_events model kind source) =
      filter (\<lambda>e. \<not> (ev_kind e = kind \<and> ev_source_id e = source)) (pending_events model)"
    "queue_inv (cancel_events model kind source)"
proof -
  have *: "EVENT_NONE \<notin> ev_kind ` set (filter P (cm_queue model))" for P
    using assms(1) by (auto simp: queue_inv_def)
  show "pending_events (cancel_events model kind source) =
      filter (\<lambda>e. \<not> (ev_kind e = kind \<and> ev_source_id e = source)) (pending_events model)"
    (is "_ = filter ?keep _")
  proof -
    let ?m = "model\<lparr>cm_queue := filter ?keep (cm_queue model)\<rparr>"
    have "pending_events (cancel_events model kind source) =
        pending_events (if ev_kind (cm_active model) = kind \<and> ev_source_id (cm_active model) = source
          then ?m\<lparr>cm_active := zero_event\<rparr> else ?m)"
      using promote_pending [of "?m\<lparr>cm_active := zero_event\<rparr>"] * by (auto simp: cancel_events_def Let_def)
    then show ?thesis using assms(2) by (auto simp: pending_events_def filter_map comp_def)
  qed
  have "length (filter P (cm_queue model)) \<le> CLOCK_QUEUE_LIMIT" for P
    using assms(1) by (auto simp: queue_inv_def intro: le_trans [OF length_filter_le])
  note sizes = this *
  show "queue_inv (cancel_events model kind source)"
  proof (cases "ev_kind (cm_active model) = kind \<and> ev_source_id (cm_active model) = source")
    case True
    then show ?thesis using assms(1) sizes(1) by (auto simp: cancel_events_def queue_inv_def [of model] intro!: promote_queue_inv)
  next
    case False
    then show ?thesis using assms sizes by (auto simp: cancel_events_def Let_def queue_inv_def)
  qed
qed

lemma drop_active_pending:
  assumes "queue_inv model" "ev_kind (cm_active model) \<noteq> EVENT_NONE"
  shows "pending_events (promote_event (model\<lparr>cm_active := zero_event\<rparr>)) = tl (pending_events model)"
    "queue_inv (promote_event (model\<lparr>cm_active := zero_event\<rparr>))"
proof -
  let ?m = "model\<lparr>cm_active := zero_event\<rparr>"
  have "pending_events (promote_event ?m) = pending_events ?m"
    by (rule promote_pending) (use assms(1) in \<open>simp add: queue_inv_def\<close>)
  then show "pending_events (promote_event ?m) = tl (pending_events model)"
    using assms(2) by (simp add: pending_events_def)
  show "queue_inv (promote_event ?m)"
    by (rule promote_queue_inv) (use assms(1) in \<open>auto simp: queue_inv_def\<close>)
qed

lemma submit_pending:
  assumes "queue_inv model" "ev_kind event \<noteq> EVENT_NONE"
  shows "pending_events (submit_event model event late) \<in>
      {pending_events model, pending_events model @ [unring event]}"
    "queue_inv (submit_event model event late)"
  using assms by (auto simp: submit_event_def record_missed_def Let_def pending_events_def queue_inv_def)

end
