(* ===== verification/Clock_Invariant.thy ===== *)
theory Clock_Invariant
  imports Clock_Events
begin

section \<open>The invariant of the clock\<close>

text \<open>
  The invariant is a conjunction of predicates on the groups of fields: the settings, the
  alarms, the pending events, the missed events, the timer, the stopwatch and the world clock.
  Every operation keeps it.  A tick also leaves nothing due behind, unless the event ids are
  used up.
\<close>

subsection \<open>The groups of fields\<close>

definition settings_inv :: "clock_model \<Rightarrow> bool" where
  "settings_inv m \<longleftrightarrow> valid_wall (cm_wall_utc m) \<and> 1 \<le> cm_snooze_minutes m \<and> cm_snooze_minutes m \<le> 30 \<and>
     cm_last_alarm_hour m < 24 \<and> cm_last_alarm_minute m < 60"

definition alarm_wf :: "clock_alarm \<Rightarrow> bool" where
  "alarm_wf a \<longleftrightarrow> valid_spec (al_spec a) \<and> (al_last_due_utc a = 0 \<or> valid_wall (al_last_due_utc a)) \<and>
     (if sp_enabled (al_spec a) then occurs (al_spec a) (al_next_due_utc a) else al_next_due_utc a = 0) \<and>
     (al_snoozed a \<or> al_snooze_deadline_ms a = 0)"

definition alarms_inv :: "u32 \<Rightarrow> clock_alarm list \<Rightarrow> bool" where
  "alarms_inv next alarms \<longleftrightarrow> length alarms \<le> CLOCK_ALARM_LIMIT \<and> ids_below next (map al_id alarms) \<and>
     list_all alarm_wf alarms"

definition alarm_key :: "clock_alarm \<Rightarrow> u32 \<times> u32 \<times> bytes" where
  "alarm_key a = (al_id a, al_generation a, sp_label (al_spec a))"

abbreviation alarm_keys :: "clock_model \<Rightarrow> (u32 \<times> u32 \<times> bytes) set" where
  "alarm_keys m \<equiv> alarm_key ` set (cm_alarms m)"

text \<open>
  An event that rings or waits stands for an alarm that still exists, of the same generation and
  label, or for the timer that has finished.
\<close>

definition event_wf :: "(u32 \<times> u32 \<times> bytes) set \<Rightarrow> clock_timer \<Rightarrow> clock_event \<Rightarrow> bool" where
  "event_wf keys timer e \<longleftrightarrow>
     (case ev_kind e of
        EVENT_NONE \<Rightarrow> False
      | EVENT_ALARM \<Rightarrow> (ev_source_id e, ev_generation e, ev_label e) \<in> keys
      | EVENT_TIMER \<Rightarrow> ev_source_id e = 0 \<and> ev_generation e = ct_generation timer \<and> ev_label e = [] \<and>
          ct_state timer = TIMER_FINISHED)"

definition pending_inv ::
    "u64 \<Rightarrow> (u32 \<times> u32 \<times> bytes) set \<Rightarrow> clock_timer \<Rightarrow> clock_event list \<Rightarrow> bool" where
  "pending_inv next keys timer es \<longleftrightarrow> list_all (event_wf keys timer) es \<and> sorted_wrt (<) (map ev_id es) \<and>
     ids_below next (map ev_id es) \<and> length (filter (\<lambda>e. ev_kind e = EVENT_TIMER) es) \<le> 1"

definition missed_inv :: "clock_event list \<Rightarrow> u64 \<Rightarrow> bool" where
  "missed_inv missed n \<longleftrightarrow> length missed \<le> CLOCK_MISSED_LIMIT \<and> length missed \<le> unat n \<and>
     list_all (\<lambda>e. ev_kind e \<noteq> EVENT_NONE \<and> ev_missed_reason e \<noteq> MISSED_NONE) missed"

definition timer_inv :: "u64 \<Rightarrow> clock_timer \<Rightarrow> bool" where
  "timer_inv now timer \<longleftrightarrow> ct_duration_seconds timer \<le> CLOCK_TIMER_MAX_SECONDS \<and>
     unat (ct_remaining_ms timer) \<le> ct_duration_seconds timer * 1000 \<and>
     (case ct_state timer of
        TIMER_STOPPED \<Rightarrow> unat (ct_remaining_ms timer) = ct_duration_seconds timer * 1000
      | TIMER_RUNNING \<Rightarrow> unat (ct_deadline_ms timer) \<le> unat now + ct_duration_seconds timer * 1000
      | TIMER_PAUSED \<Rightarrow> True
      | TIMER_FINISHED \<Rightarrow> ct_remaining_ms timer = 0)"

fun laps_inv :: "u64 \<Rightarrow> clock_lap list \<Rightarrow> u64 \<Rightarrow> bool" where
  "laps_inv previous [] elapsed \<longleftrightarrow> previous \<le> elapsed"
| "laps_inv previous (lap # laps) elapsed \<longleftrightarrow> previous \<le> lap_elapsed_ms lap \<and>
     lap_difference_ms lap = lap_elapsed_ms lap - previous \<and> laps_inv (lap_elapsed_ms lap) laps elapsed"

definition stopwatch_inv :: "clock_stopwatch \<Rightarrow> bool" where
  "stopwatch_inv sw \<longleftrightarrow> length (sw_laps sw) \<le> CLOCK_LAP_LIMIT \<and> laps_inv 0 (sw_laps sw) (sw_elapsed_ms sw)"

definition world_inv :: "u32 \<Rightarrow> clock_world_entry list \<Rightarrow> bool" where
  "world_inv next world \<longleftrightarrow> length world \<le> CLOCK_WORLD_LIMIT \<and> ids_below next (map we_id world) \<and>
     distinct (map we_offset_minutes world) \<and>
     list_all (\<lambda>w. clock_model_world_offset_valid (we_offset_minutes w)) world"

definition clock_wf :: "clock_model \<Rightarrow> bool" where
  "clock_wf m \<longleftrightarrow> settings_inv m \<and> alarms_inv (cm_next_alarm_id m) (cm_alarms m) \<and> queue_inv m \<and>
     pending_inv (cm_next_event_id m) (alarm_keys m) (cm_timer m) (pending_events m) \<and>
     missed_inv (cm_missed m) (cm_missed_total m) \<and> timer_inv (cm_monotonic_ms m) (cm_timer m) \<and>
     stopwatch_inv (cm_stopwatch m) \<and> world_inv (cm_next_world_id m) (cm_world m)"

definition alarms_quiet :: "clock_model \<Rightarrow> bool" where
  "alarms_quiet m \<longleftrightarrow> list_all (\<lambda>a. (sp_enabled (al_spec a) \<longrightarrow> cm_wall_utc m < al_next_due_utc a) \<and>
     (al_snoozed a \<longrightarrow> cm_monotonic_ms m < al_snooze_deadline_ms a)) (cm_alarms m)"

definition timer_quiet :: "clock_model \<Rightarrow> bool" where
  "timer_quiet m \<longleftrightarrow> (ct_state (cm_timer m) = TIMER_RUNNING \<longrightarrow> cm_monotonic_ms m < ct_deadline_ms (cm_timer m)) \<and>
     (ct_state (cm_timer m) = TIMER_PAUSED \<longrightarrow> 0 < ct_remaining_ms (cm_timer m))"

definition clock_inv :: "clock_model \<Rightarrow> bool" where
  "clock_inv m \<longleftrightarrow> clock_wf m \<and> (cm_next_event_id m \<noteq> 0 \<longrightarrow> alarms_quiet m \<and> timer_quiet m)"

lemmas inv_defs = clock_inv_def clock_wf_def alarms_quiet_def timer_quiet_def settings_inv_def

subsection \<open>Fields an operation leaves alone\<close>

lemma promote_frame [simp]:
  "cm_wall_utc (promote_event m) = cm_wall_utc m" "cm_monotonic_ms (promote_event m) = cm_monotonic_ms m"
  "cm_snooze_minutes (promote_event m) = cm_snooze_minutes m" "cm_last_alarm_hour (promote_event m) = cm_last_alarm_hour m"
  "cm_last_alarm_minute (promote_event m) = cm_last_alarm_minute m" "cm_alarms (promote_event m) = cm_alarms m"
  "cm_missed (promote_event m) = cm_missed m" "cm_missed_total (promote_event m) = cm_missed_total m"
  "cm_timer (promote_event m) = cm_timer m" "cm_stopwatch (promote_event m) = cm_stopwatch m"
  "cm_world (promote_event m) = cm_world m" "cm_next_alarm_id (promote_event m) = cm_next_alarm_id m"
  "cm_next_world_id (promote_event m) = cm_next_world_id m" "cm_next_event_id (promote_event m) = cm_next_event_id m"
  by (simp_all add: promote_event_def split: list.split)

lemma cancel_frame [simp]:
  "cm_wall_utc (cancel_events m k s) = cm_wall_utc m" "cm_monotonic_ms (cancel_events m k s) = cm_monotonic_ms m"
  "cm_snooze_minutes (cancel_events m k s) = cm_snooze_minutes m"
  "cm_last_alarm_hour (cancel_events m k s) = cm_last_alarm_hour m"
  "cm_last_alarm_minute (cancel_events m k s) = cm_last_alarm_minute m" "cm_alarms (cancel_events m k s) = cm_alarms m"
  "cm_missed (cancel_events m k s) = cm_missed m" "cm_missed_total (cancel_events m k s) = cm_missed_total m"
  "cm_timer (cancel_events m k s) = cm_timer m" "cm_stopwatch (cancel_events m k s) = cm_stopwatch m"
  "cm_world (cancel_events m k s) = cm_world m" "cm_next_alarm_id (cancel_events m k s) = cm_next_alarm_id m"
  "cm_next_world_id (cancel_events m k s) = cm_next_world_id m" "cm_next_event_id (cancel_events m k s) = cm_next_event_id m"
  by (simp_all add: cancel_events_def Let_def)

lemma record_frame [simp]:
  "cm_wall_utc (record_missed m e r) = cm_wall_utc m" "cm_monotonic_ms (record_missed m e r) = cm_monotonic_ms m"
  "cm_snooze_minutes (record_missed m e r) = cm_snooze_minutes m"
  "cm_last_alarm_hour (record_missed m e r) = cm_last_alarm_hour m"
  "cm_last_alarm_minute (record_missed m e r) = cm_last_alarm_minute m" "cm_alarms (record_missed m e r) = cm_alarms m"
  "cm_active (record_missed m e r) = cm_active m" "cm_queue (record_missed m e r) = cm_queue m"
  "cm_timer (record_missed m e r) = cm_timer m" "cm_stopwatch (record_missed m e r) = cm_stopwatch m"
  "cm_world (record_missed m e r) = cm_world m" "cm_next_alarm_id (record_missed m e r) = cm_next_alarm_id m"
  "cm_next_world_id (record_missed m e r) = cm_next_world_id m" "cm_next_event_id (record_missed m e r) = cm_next_event_id m"
  "pending_events (record_missed m e r) = pending_events m" "queue_inv (record_missed m e r) = queue_inv m"
  by (simp_all add: record_missed_def Let_def pending_events_def queue_inv_def)

lemma submit_frame [simp]:
  "cm_wall_utc (submit_event m e l) = cm_wall_utc m" "cm_monotonic_ms (submit_event m e l) = cm_monotonic_ms m"
  "cm_snooze_minutes (submit_event m e l) = cm_snooze_minutes m"
  "cm_last_alarm_hour (submit_event m e l) = cm_last_alarm_hour m"
  "cm_last_alarm_minute (submit_event m e l) = cm_last_alarm_minute m" "cm_alarms (submit_event m e l) = cm_alarms m"
  "cm_timer (submit_event m e l) = cm_timer m" "cm_stopwatch (submit_event m e l) = cm_stopwatch m"
  "cm_world (submit_event m e l) = cm_world m" "cm_next_alarm_id (submit_event m e l) = cm_next_alarm_id m"
  "cm_next_world_id (submit_event m e l) = cm_next_world_id m" "cm_next_event_id (submit_event m e l) = cm_next_event_id m"
  by (simp_all add: submit_event_def)

text \<open>The pending events depend on the ringing event and the queue only.\<close>

lemma pending_frame [simp]:
  "pending_events (m\<lparr>cm_wall_utc := w\<rparr>) = pending_events m" "pending_events (m\<lparr>cm_monotonic_ms := t\<rparr>) = pending_events m"
  "pending_events (m\<lparr>cm_view := v\<rparr>) = pending_events m" "pending_events (m\<lparr>cm_snooze_minutes := n\<rparr>) = pending_events m"
  "pending_events (m\<lparr>cm_last_alarm_hour := n\<rparr>) = pending_events m"
  "pending_events (m\<lparr>cm_last_alarm_minute := n\<rparr>) = pending_events m"
  "pending_events (m\<lparr>cm_alarms := a\<rparr>) = pending_events m" "pending_events (m\<lparr>cm_missed := es\<rparr>) = pending_events m"
  "pending_events (m\<lparr>cm_missed_total := t\<rparr>) = pending_events m" "pending_events (m\<lparr>cm_timer := c\<rparr>) = pending_events m"
  "pending_events (m\<lparr>cm_stopwatch := s\<rparr>) = pending_events m" "pending_events (m\<lparr>cm_world := ws\<rparr>) = pending_events m"
  "pending_events (m\<lparr>cm_next_alarm_id := i\<rparr>) = pending_events m"
  "pending_events (m\<lparr>cm_next_world_id := i\<rparr>) = pending_events m"
  "pending_events (m\<lparr>cm_next_event_id := t\<rparr>) = pending_events m"
  by (simp_all add: pending_events_def)

lemma queue_frame [simp]:
  "queue_inv (m\<lparr>cm_wall_utc := w\<rparr>) = queue_inv m"
  "queue_inv (m\<lparr>cm_view := v\<rparr>) = queue_inv m" "queue_inv (m\<lparr>cm_snooze_minutes := n\<rparr>) = queue_inv m"
  "queue_inv (m\<lparr>cm_last_alarm_hour := n\<rparr>) = queue_inv m" "queue_inv (m\<lparr>cm_last_alarm_minute := n\<rparr>) = queue_inv m"
  "queue_inv (m\<lparr>cm_alarms := a\<rparr>) = queue_inv m" "queue_inv (m\<lparr>cm_missed := es\<rparr>) = queue_inv m"
  "queue_inv (m\<lparr>cm_missed_total := t\<rparr>) = queue_inv m" "queue_inv (m\<lparr>cm_timer := c\<rparr>) = queue_inv m"
  "queue_inv (m\<lparr>cm_stopwatch := s\<rparr>) = queue_inv m" "queue_inv (m\<lparr>cm_world := ws\<rparr>) = queue_inv m"
  "queue_inv (m\<lparr>cm_next_alarm_id := i\<rparr>) = queue_inv m" "queue_inv (m\<lparr>cm_next_world_id := i\<rparr>) = queue_inv m"
  "queue_inv (m\<lparr>cm_next_event_id := t\<rparr>) = queue_inv m"
  by (simp_all add: queue_inv_def)

lemma remember_time_frame [simp]:
  "cm_wall_utc (remember_alarm_time m s) = cm_wall_utc m" "cm_monotonic_ms (remember_alarm_time m s) = cm_monotonic_ms m"
  "cm_snooze_minutes (remember_alarm_time m s) = cm_snooze_minutes m" "cm_alarms (remember_alarm_time m s) = cm_alarms m"
  "cm_missed (remember_alarm_time m s) = cm_missed m" "cm_missed_total (remember_alarm_time m s) = cm_missed_total m"
  "cm_timer (remember_alarm_time m s) = cm_timer m" "cm_stopwatch (remember_alarm_time m s) = cm_stopwatch m"
  "cm_world (remember_alarm_time m s) = cm_world m" "cm_next_alarm_id (remember_alarm_time m s) = cm_next_alarm_id m"
  "cm_next_world_id (remember_alarm_time m s) = cm_next_world_id m"
  "cm_next_event_id (remember_alarm_time m s) = cm_next_event_id m"
  "pending_events (remember_alarm_time m s) = pending_events m" "queue_inv (remember_alarm_time m s) = queue_inv m"
  by (simp_all add: remember_alarm_time_def Let_def split: clock_alarm_schedule.split)

subsection \<open>The pending events\<close>

lemma pending_inv_Nil [simp]: "pending_inv next keys timer []"
  by (simp add: pending_inv_def)

lemma sorted_wrt_map_filter: "sorted_wrt (<) (map f xs) \<Longrightarrow> sorted_wrt (<) (map f (filter P xs))"
  by (induction xs) auto

lemma pending_inv_sub:
  "pending_inv next keys timer es \<Longrightarrow> list_all (event_wf keys' timer') (filter P es) \<Longrightarrow>
   pending_inv next keys' timer' (filter P es)"
proof -
  assume *: "pending_inv next keys timer es" "list_all (event_wf keys' timer') (filter P es)"
  have "length (filter Q (filter P es)) \<le> length (filter Q es)" for Q
    by (induction es) auto
  from this [of "\<lambda>e. ev_kind e = EVENT_TIMER"] * show ?thesis
    by (auto simp: pending_inv_def sorted_wrt_map_filter ids_below_filter intro: le_trans)
qed

lemma pending_inv_tl: "pending_inv next keys timer es \<Longrightarrow> pending_inv next keys timer (tl es)"
  by (cases es) (auto simp: pending_inv_def ids_below_def split: if_split_asm)

lemma pending_inv_next:
  "pending_inv next keys timer es \<Longrightarrow> next \<noteq> 0 \<Longrightarrow> pending_inv (next + 1) keys timer es"
  using less_next [of "next"] by (auto simp: pending_inv_def ids_below_def intro: less_trans)

lemma pending_inv_append:
  assumes "pending_inv next keys timer es" "next \<noteq> 0" "ev_id e = next" "event_wf keys timer e"
    "ev_kind e = EVENT_TIMER \<Longrightarrow> \<forall>x \<in> set es. ev_kind x \<noteq> EVENT_TIMER"
  shows "pending_inv (next + 1) keys timer (es @ [e])"
  using assms ids_below_append [of "next" "map ev_id es"]
  by (auto simp: pending_inv_def sorted_wrt_append ids_below_def filter_empty_conv)

lemma pending_inv_mono: "pending_inv next keys timer es \<Longrightarrow> keys \<subseteq> keys' \<Longrightarrow> pending_inv next keys' timer es"
  by (auto simp: pending_inv_def event_wf_def list_all_iff split: clock_event_kind.splits)

lemma pending_inv_cancel_alarm:
  assumes "pending_inv next keys timer es" "\<And>k. k \<in> keys \<Longrightarrow> fst k \<noteq> ident \<Longrightarrow> k \<in> keys'"
  shows "pending_inv next keys' timer (filter (\<lambda>e. ev_kind e = EVENT_ALARM \<longrightarrow> ev_source_id e \<noteq> ident) es)"
  by (rule pending_inv_sub [OF assms(1)])
    (use assms in \<open>fastforce simp: pending_inv_def list_all_iff event_wf_def split: clock_event_kind.splits\<close>)

lemma pending_inv_cancel_timer:
  assumes "pending_inv next keys timer es"
  shows "pending_inv next keys timer' (filter (\<lambda>e. ev_kind e = EVENT_TIMER \<longrightarrow> ev_source_id e \<noteq> 0) es)"
  by (rule pending_inv_sub [OF assms])
    (use assms in \<open>auto simp: pending_inv_def list_all_iff event_wf_def split: clock_event_kind.splits\<close>)

lemma pending_inv_idle:
  "pending_inv next keys timer es \<Longrightarrow> ct_state timer \<noteq> TIMER_FINISHED \<Longrightarrow> pending_inv next keys timer' es"
  by (auto simp: pending_inv_def event_wf_def list_all_iff split: clock_event_kind.splits)

lemma pending_no_timer:
  "pending_inv next keys timer es \<Longrightarrow> ct_state timer \<noteq> TIMER_FINISHED \<Longrightarrow> e \<in> set es \<Longrightarrow> ev_kind e \<noteq> EVENT_TIMER"
  by (auto simp: pending_inv_def event_wf_def list_all_iff split: clock_event_kind.splits)

subsection \<open>Times\<close>

lemma unat_u64_max: "unat UINT64_MAX = 2 ^ 64 - 1"
  by (simp add: unsigned_minus_1_eq_mask mask_eq_exp_minus_1)

lemma u64_le: "unat (x :: u64) \<le> 2 ^ 64 - 1"
  using unsigned_less [of x, where 'a=nat] by simp

lemma u64_room: "y \<le> UINT64_MAX - x \<longleftrightarrow> unat x + unat y \<le> 2 ^ 64 - 1"
  "y > UINT64_MAX - x \<longleftrightarrow> unat x + unat y > 2 ^ 64 - 1"
proof -
  have "unat (UINT64_MAX - x) = 2 ^ 64 - 1 - unat x" by (subst unat_sub) (simp_all add: unat_u64_max)
  then show "y \<le> UINT64_MAX - x \<longleftrightarrow> unat x + unat y \<le> 2 ^ 64 - 1"
    "y > UINT64_MAX - x \<longleftrightarrow> unat x + unat y > 2 ^ 64 - 1"
    using u64_le [of x] by (auto simp: word_le_nat_alt word_less_nat_alt)
qed

lemma u64_add: "unat x + unat y \<le> 2 ^ 64 - 1 \<Longrightarrow> unat (x + y) = unat x + unat (y :: u64)"
  by (simp add: unat_add_lem [THEN iffD1])

lemma word_gt_0_unat: "0 < x \<longleftrightarrow> 0 < unat (x :: 'a::len word)"
  by (simp add: word_less_nat_alt)

lemma saturated_add_unat: "unat (saturated_add x y) = min (unat x + unat y) (2 ^ 64 - 1)"
  by (auto simp: saturated_add_def u64_room(2) u64_add unat_u64_max)

lemma saturated_add_le: "x \<le> saturated_add x y"
  using u64_le [of x] by (simp add: word_le_nat_alt saturated_add_unat)

lemma timer_ms: "seconds \<le> CLOCK_TIMER_MAX_SECONDS \<Longrightarrow> unat (of_nat seconds * 1000 :: u64) = seconds * 1000"
proof -
  assume *: "seconds \<le> CLOCK_TIMER_MAX_SECONDS"
  have "unat (of_nat (seconds * 1000) :: u64) = seconds * 1000"
    using * unfolding unat_of_nat by (simp add: CLOCK_TIMER_MAX_SECONDS_def)
  then show ?thesis by simp
qed

subsection \<open>Operations on one group of fields\<close>

lemma laps_inv_mono: "laps_inv p laps t \<Longrightarrow> t \<le> u \<Longrightarrow> laps_inv p laps u"
  by (induction p laps t rule: laps_inv.induct) auto

lemma laps_inv_append:
  "laps_inv p laps t \<Longrightarrow> lap_elapsed_ms lap = t \<Longrightarrow>
   lap_difference_ms lap = t - (if laps = [] then p else lap_elapsed_ms (last laps)) \<Longrightarrow> laps_inv p (laps @ [lap]) t"
  by (induction p laps t rule: laps_inv.induct) (auto split: if_split_asm)

lemma missed_append:
  assumes "missed_inv missed n" "ev_kind e \<noteq> EVENT_NONE" "ev_missed_reason e \<noteq> MISSED_NONE"
  shows "missed_inv ((if length missed = CLOCK_MISSED_LIMIT then tl missed else missed) @ [e]) (saturated_add n 1)"
proof -
  have "list_all P xs \<Longrightarrow> list_all P (tl xs)" for P and xs :: "clock_event list" by (cases xs) auto
  then show ?thesis using assms by (auto simp: missed_inv_def saturated_add_unat CLOCK_MISSED_LIMIT_def)
qed

lemma record_missed_wf:
  assumes "clock_wf m" "ev_kind e \<noteq> EVENT_NONE" "reason \<noteq> MISSED_NONE"
  shows "clock_wf (record_missed m e reason)"
  using assms missed_append [of "cm_missed m" "cm_missed_total m" "e\<lparr>ev_missed_reason := reason\<rparr>"]
  by (auto simp: clock_wf_def settings_inv_def record_missed_def Let_def)

lemma clock_init_inv: "clock_model_init wall now = Some m \<Longrightarrow> clock_inv m"
  by (auto simp: clock_model_init_def inv_defs alarms_inv_def queue_inv_def pending_events_def missed_inv_def
      timer_inv_def zero_timer_def zero_stopwatch_def stopwatch_inv_def world_inv_def split: if_split_asm)

lemma set_view_inv: "clock_inv m \<Longrightarrow> clock_inv (snd (clock_model_set_view m v))"
  by (auto simp: clock_model_set_view_def inv_defs split: option.split)

lemma set_snooze_inv: "clock_inv m \<Longrightarrow> clock_inv (snd (clock_model_set_snooze m n))"
  by (auto simp: clock_model_set_snooze_def inv_defs)

lemma clear_missed_inv: "clock_inv m \<Longrightarrow> clock_inv (clock_model_clear_missed m)"
  by (auto simp: clock_model_clear_missed_def inv_defs missed_inv_def)

lemma stopwatch_start_inv: "clock_inv m \<Longrightarrow> clock_inv (snd (clock_model_stopwatch_start m))"
  by (auto simp: clock_model_stopwatch_start_def inv_defs stopwatch_inv_def)

lemma stopwatch_pause_inv: "clock_inv m \<Longrightarrow> clock_inv (snd (clock_model_stopwatch_pause m))"
  by (auto simp: clock_model_stopwatch_pause_def inv_defs stopwatch_inv_def)

lemma stopwatch_reset_inv: "clock_inv m \<Longrightarrow> clock_inv (snd (clock_model_stopwatch_reset m))"
  by (auto simp: clock_model_stopwatch_reset_def inv_defs stopwatch_inv_def zero_stopwatch_def)

lemma stopwatch_lap_inv: "clock_inv m \<Longrightarrow> clock_inv (snd (clock_model_stopwatch_lap m))"
  by (auto simp: clock_model_stopwatch_lap_def Let_def inv_defs stopwatch_inv_def intro!: laps_inv_append)

lemma world_add_inv: "clock_inv m \<Longrightarrow> clock_inv (snd (snd (clock_model_world_add m offset)))"
  by (auto simp: clock_model_world_add_def inv_defs world_inv_def ids_below_append list_ex_iff)

lemma world_edit_inv:
  assumes "clock_inv m"
  shows "clock_inv (snd (clock_model_world_edit m k offset))"
proof -
  have "world_inv next (ws[j := (ws ! j)\<lparr>we_offset_minutes := offset\<rparr>])"
    if "world_inv next ws" "find_world k ws 0 = Some j" "clock_model_world_offset_valid offset"
      "\<not> list_ex (\<lambda>entry. we_id entry \<noteq> k \<and> we_offset_minutes entry = offset) ws" for ws j "next"
  proof -
    have j: "j < length ws" "we_id (ws ! j) = k" using world_table.find_Some [OF that(2)] by auto
    have ids: "map we_id (ws[j := (ws ! j)\<lparr>we_offset_minutes := offset\<rparr>]) = map we_id ws"
      by (rule world_table.keys_update [OF that(2)]) (simp add: j)
    have "distinct (map we_id ws)" using that(1) by (simp add: world_inv_def ids_below_def)
    then have other: "we_id (ws ! i) \<noteq> k" if "i < length ws" "i \<noteq> j" for i
      using that j nth_eq_iff_index_eq [of "map we_id ws" i j] by auto
    have "distinct ((map we_offset_minutes ws)[j := offset])"
    proof (rule distinct_list_update)
      show "distinct (map we_offset_minutes ws)" using that(1) by (simp add: world_inv_def)
      show "offset \<notin> set (map we_offset_minutes ws) - {map we_offset_minutes ws ! j}"
      proof
        assume "offset \<in> set (map we_offset_minutes ws) - {map we_offset_minutes ws ! j}"
        then obtain i where i: "i < length ws" "we_offset_minutes (ws ! i) = offset" "offset \<noteq> we_offset_minutes (ws ! j)"
          using j(1) by (auto simp: in_set_conv_nth)
        then have "i \<noteq> j" by auto
        then show False using i(1,2) other [of i] that(4) by (auto simp: list_ex_iff)
      qed
    qed
    then show ?thesis using that(1,3) ids j(1)
      by (auto simp: world_inv_def map_update list_all_iff dest!: set_update_subset_insert [THEN subsetD])
  qed
  then show ?thesis using assms by (auto simp: clock_model_world_edit_def inv_defs split: option.split)
qed

lemma world_delete_inv: "clock_inv m \<Longrightarrow> clock_inv (snd (clock_model_world_delete m k))"
proof -
  assume m: "clock_inv m"
  then have w: "world_inv (cm_next_world_id m) (cm_world m)" by (simp add: clock_inv_def clock_wf_def)
  have "world_inv (cm_next_world_id m) (filter P (cm_world m))" for P
    using w by (auto simp: world_inv_def ids_below_filter distinct_map_filter list_all_iff intro: le_trans [OF length_filter_le])
  moreover have "distinct (map we_id (cm_world m))" using w by (simp add: world_inv_def ids_below_def)
  ultimately show ?thesis using m
    by (auto simp: clock_model_world_delete_def inv_defs world_table.keys_remove [simplified] split: option.split)
qed

subsection \<open>The ringing event and the timer\<close>

lemma dismiss_wf:
  assumes "clock_wf m"
  shows "clock_wf (snd (clock_model_dismiss m k))"
proof (cases "ev_kind (cm_active m) \<noteq> EVENT_NONE \<and> ev_id (cm_active m) = k")
  case True
  then have k: "ev_kind (cm_active m) \<noteq> EVENT_NONE" by simp
  have q: "queue_inv m" using assms by (simp add: clock_wf_def)
  show ?thesis using assms True
    by (auto simp: clock_model_dismiss_def clock_wf_def settings_inv_def drop_active_pending [OF q k] pending_inv_tl)
qed (use assms in \<open>auto simp: clock_model_dismiss_def\<close>)

lemma dismiss_frame [simp]:
  "cm_wall_utc (snd (clock_model_dismiss m k)) = cm_wall_utc m"
  "cm_monotonic_ms (snd (clock_model_dismiss m k)) = cm_monotonic_ms m"
  "cm_alarms (snd (clock_model_dismiss m k)) = cm_alarms m" "cm_timer (snd (clock_model_dismiss m k)) = cm_timer m"
  "cm_next_event_id (snd (clock_model_dismiss m k)) = cm_next_event_id m"
  by (simp_all add: clock_model_dismiss_def)

lemma dismiss_inv: "clock_inv m \<Longrightarrow> clock_inv (snd (clock_model_dismiss m k))"
  by (auto simp: clock_inv_def dismiss_wf alarms_quiet_def timer_quiet_def)

lemma update_alarm_inv:
  assumes "alarms_inv next as" "find_index k as 0 = Some j" "al_id a = k" "alarm_wf a"
  shows "alarms_inv next (as[j := a])"
proof -
  have "map al_id (as[j := a]) = map al_id as" by (rule alarm_table.keys_update [OF assms(2,3)])
  then show ?thesis using assms by (auto simp: alarms_inv_def list_all_iff dest!: set_update_subset_insert [THEN subsetD])
qed

lemma update_alarm_keys: "j < length as \<Longrightarrow> alarm_key a = alarm_key (as ! j) \<Longrightarrow> alarm_key ` set (as[j := a]) = alarm_key ` set as"
  by (metis list.set_map list_update_id map_update)

lemma find_alarm_nth:
  assumes "find_alarm m k = Some j"
  shows "find_index k (cm_alarms m) 0 = Some j" "j < length (cm_alarms m)" "al_id (cm_alarms m ! j) = k"
  using assms alarm_table.find_Some [of k "cm_alarms m" j] by (simp_all add: find_alarm_def)

lemma alarm_nth_wf: "clock_wf m \<Longrightarrow> j < length (cm_alarms m) \<Longrightarrow> alarm_wf (cm_alarms m ! j)"
  by (simp add: clock_wf_def alarms_inv_def list_all_length)

text \<open>Changing how an alarm is snoozed keeps what its events are checked against.\<close>

lemma set_snoozed_inv:
  assumes "clock_inv m" "find_alarm m k = Some j" "snoozed \<or> deadline = 0"
    "cm_next_event_id m \<noteq> 0 \<Longrightarrow> snoozed \<Longrightarrow> cm_monotonic_ms m < deadline"
  shows "clock_inv (m\<lparr>cm_alarms := (cm_alarms m)[j :=
    (cm_alarms m ! j)\<lparr>al_snoozed := snoozed, al_snooze_deadline_ms := deadline\<rparr>]\<rparr>)"
    (is "clock_inv (m\<lparr>cm_alarms := (cm_alarms m)[j := ?a]\<rparr>)")
proof -
  note j = find_alarm_nth [OF assms(2)]
  have "alarm_wf (cm_alarms m ! j)" using assms(1) j(2) by (auto simp: clock_inv_def intro: alarm_nth_wf)
  then have "alarm_wf ?a" using assms(3) by (simp add: alarm_wf_def)
  then have "alarms_inv (cm_next_alarm_id m) ((cm_alarms m)[j := ?a])"
    using assms(1) j by (intro update_alarm_inv [OF _ j(1)]) (auto simp: clock_inv_def clock_wf_def)
  moreover have "alarm_key ` set ((cm_alarms m)[j := ?a]) = alarm_keys m"
    by (rule update_alarm_keys) (simp_all add: j alarm_key_def)
  moreover have "alarms_quiet (m\<lparr>cm_alarms := (cm_alarms m)[j := ?a]\<rparr>)" if "alarms_quiet m" "cm_next_event_id m \<noteq> 0"
    using that assms(4) j(2) by (auto simp: alarms_quiet_def list_all_length nth_list_update)
  ultimately show ?thesis using assms(1) by (auto simp: clock_inv_def clock_wf_def settings_inv_def timer_quiet_def)
qed

lemma cancel_snooze_inv: "clock_inv m \<Longrightarrow> clock_inv (snd (clock_model_alarm_cancel_snooze m k))"
  by (auto simp: clock_model_alarm_cancel_snooze_def set_snoozed_inv split: option.split)

lemma snooze_ms: "minutes \<le> 30 \<Longrightarrow> unat (of_nat minutes * 60000 :: u64) = minutes * 60000"
proof -
  assume *: "minutes \<le> 30"
  have "unat (of_nat (minutes * 60000) :: u64) = minutes * 60000" using * unfolding unat_of_nat by simp
  then show ?thesis by simp
qed

lemma snooze_inv: "clock_inv m \<Longrightarrow> clock_inv (snd (clock_model_snooze m k requested))"
proof -
  assume m: "clock_inv m"
  have "cm_monotonic_ms m < cm_monotonic_ms m + of_nat n * 60000"
    if "1 \<le> n" "n \<le> 30" "\<not> of_nat n * 60000 > UINT64_MAX - cm_monotonic_ms m" for n
  proof -
    have "unat (cm_monotonic_ms m) + unat (of_nat n * 60000 :: u64) \<le> 2 ^ 64 - 1"
      using that(3) unfolding u64_room(2) by simp
    then show ?thesis using that(1) snooze_ms [OF that(2)] by (simp add: word_less_nat_alt u64_add)
  qed
  then show ?thesis using m
    by (auto simp: clock_model_snooze_def Let_def not_less split: option.split intro!: dismiss_inv set_snoozed_inv)
qed

lemma timer_set_inv: "clock_inv m \<Longrightarrow> clock_inv (snd (clock_model_timer_set m seconds))"
proof -
  assume m: "clock_inv m"
  have q: "queue_inv (m\<lparr>cm_timer := t\<rparr>)" for t using m by (simp add: clock_inv_def clock_wf_def)
  have "timer_inv now \<lparr> ct_state = TIMER_STOPPED, ct_generation = g, ct_duration_seconds = seconds,
      ct_remaining_ms = of_nat seconds * 1000, ct_deadline_ms = 0 \<rparr>" if "seconds \<le> CLOCK_TIMER_MAX_SECONDS" for now g
    using that by (simp add: timer_inv_def timer_ms)
  then show ?thesis using m cancel_pending [OF q, of EVENT_TIMER]
    by (auto simp: clock_model_timer_set_def inv_defs intro: pending_inv_cancel_timer)
qed

lemma timer_stop_inv: "clock_inv m \<Longrightarrow> clock_inv (snd (clock_model_timer_stop m))"
  by (simp add: clock_model_timer_stop_def timer_set_inv)

lemma run_timer_inv:
  assumes "clock_inv m" "ct_state (cm_timer m) \<noteq> TIMER_FINISHED"
    "cm_next_event_id m \<noteq> 0 \<Longrightarrow> 0 < ct_remaining_ms (cm_timer m)"
  shows "clock_inv (snd (run_timer m))"
proof (cases "ct_remaining_ms (cm_timer m) > UINT64_MAX - cm_monotonic_ms m")
  case False
  then have d: "unat (cm_monotonic_ms m + ct_remaining_ms (cm_timer m)) =
      unat (cm_monotonic_ms m) + unat (ct_remaining_ms (cm_timer m))"
    by (intro u64_add) (simp add: u64_room(2))
  have "pending_inv (cm_next_event_id m) (alarm_keys m) t (pending_events m)" for t
    by (rule pending_inv_idle [of _ _ "cm_timer m"]) (use assms in \<open>simp_all add: clock_inv_def clock_wf_def\<close>)
  moreover have "timer_inv (cm_monotonic_ms m) ((cm_timer m)
      \<lparr>ct_deadline_ms := cm_monotonic_ms m + ct_remaining_ms (cm_timer m), ct_state := TIMER_RUNNING\<rparr>)"
    using assms(1) d by (simp add: clock_inv_def clock_wf_def timer_inv_def)
  moreover have "cm_monotonic_ms m < cm_monotonic_ms m + ct_remaining_ms (cm_timer m)" if "cm_next_event_id m \<noteq> 0"
    using assms(3) [OF that] by (simp add: word_less_nat_alt [of "cm_monotonic_ms m"] d word_gt_0_unat)
  ultimately show ?thesis using assms(1) False
    by (auto simp: run_timer_def inv_defs)
qed (use assms in \<open>simp add: run_timer_def\<close>)

lemma timer_start_inv: "clock_inv m \<Longrightarrow> clock_inv (snd (clock_model_timer_start m))"
proof -
  assume m: "clock_inv m"
  have "0 < ct_remaining_ms (cm_timer m)" if "ct_duration_seconds (cm_timer m) \<noteq> 0" "ct_state (cm_timer m) = TIMER_STOPPED"
  proof -
    have "unat (ct_remaining_ms (cm_timer m)) = ct_duration_seconds (cm_timer m) * 1000"
      using m that by (simp add: clock_inv_def clock_wf_def timer_inv_def)
    then show ?thesis using that by (simp add: word_less_nat_alt)
  qed
  then show ?thesis using m by (auto simp: clock_model_timer_start_def intro!: run_timer_inv)
qed

lemma timer_resume_inv: "clock_inv m \<Longrightarrow> clock_inv (snd (clock_model_timer_resume m))"
  by (auto simp: clock_model_timer_resume_def clock_inv_def [of m] timer_quiet_def intro!: run_timer_inv)

lemma timer_restart_inv: "clock_inv m \<Longrightarrow> clock_inv (snd (clock_model_timer_restart m))"
  using timer_start_inv [of "snd (clock_model_timer_stop m)"] timer_stop_inv [of m]
  by (auto simp: clock_model_timer_restart_def split: prod.split)

lemma timer_remaining_le:
  "timer_inv (cm_monotonic_ms m) (cm_timer m) \<Longrightarrow>
   unat (clock_model_timer_remaining m) \<le> ct_duration_seconds (cm_timer m) * 1000"
  unfolding clock_model_timer_remaining_def timer_inv_def
  by (cases "ct_state (cm_timer m)") (auto simp: unat_sub order_less_imp_le)

lemma timer_pause_inv: "clock_inv m \<Longrightarrow> clock_inv (snd (clock_model_timer_pause m))"
proof -
  assume m: "clock_inv m"
  have "pending_inv (cm_next_event_id m) (alarm_keys m) t (pending_events m)"
    if "ct_state (cm_timer m) = TIMER_RUNNING" for t
    by (rule pending_inv_idle [of _ _ "cm_timer m"]) (use m that in \<open>simp_all add: clock_inv_def clock_wf_def\<close>)
  moreover have "unat (clock_model_timer_remaining m) \<le> ct_duration_seconds (cm_timer m) * 1000"
    using m by (intro timer_remaining_le) (simp add: clock_inv_def clock_wf_def)
  moreover have "0 < clock_model_timer_remaining m"
    if "ct_state (cm_timer m) = TIMER_RUNNING" "cm_monotonic_ms m < ct_deadline_ms (cm_timer m)"
    using that by (simp add: clock_model_timer_remaining_def word_gt_0_unat unat_sub order_less_imp_le)
      (simp add: word_less_nat_alt)
  ultimately show ?thesis using m
    by (cases "ct_state (cm_timer m) = TIMER_RUNNING") (auto simp: clock_model_timer_pause_def inv_defs timer_inv_def)
qed

subsection \<open>Editing alarms\<close>

lemma remember_settings: "settings_inv m \<Longrightarrow> valid_spec spec \<Longrightarrow> settings_inv (remember_alarm_time m spec)"
proof (cases "sp_schedule spec")
  case ALARM_ONCE
  assume *: "settings_inv m"
  have "nat (sp_once_utc spec mod 86400) < 24 * 3600" by simp
  then have "nat (sp_once_utc spec mod 86400) div 3600 < 24" by (simp add: div_less_iff_less_mult)
  then show ?thesis using * ALARM_ONCE by (simp add: remember_alarm_time_def Let_def settings_inv_def SECONDS_PER_DAY_def)
qed (auto simp: remember_alarm_time_def settings_inv_def valid_spec_def)

lemma spec_due_Some:
  assumes "spec_due spec after = Some due" "valid_spec spec"
  shows "if sp_enabled spec then occurs spec due \<and> after < due else due = 0"
  using assms next_due_Some [of spec after due] by (auto simp: spec_due_def split: if_split_asm)

lemma alarm_add_inv:
  assumes "clock_inv m"
  shows "clock_inv (snd (snd (clock_model_alarm_add m spec)))"
proof -
  have "clock_inv (remember_alarm_time (m\<lparr>cm_alarms := cm_alarms m @
      [\<lparr> al_id = cm_next_alarm_id m, al_generation = 1, al_spec = spec, al_next_due_utc = due,
         al_last_due_utc = 0, al_snoozed = False, al_snooze_deadline_ms = 0 \<rparr>],
      cm_next_alarm_id := cm_next_alarm_id m + 1\<rparr>) spec)" (is "clock_inv (remember_alarm_time ?m spec)")
    if "valid_spec spec" "spec_due spec (cm_wall_utc m) = Some due" "length (cm_alarms m) \<noteq> CLOCK_ALARM_LIMIT"
      "cm_next_alarm_id m \<noteq> 0" for due
  proof -
    note due = spec_due_Some [OF that(2,1)]
    have "alarms_inv (cm_next_alarm_id ?m) (cm_alarms ?m)"
      using assms that due ids_below_append [of "cm_next_alarm_id m" "map al_id (cm_alarms m)"]
      by (auto simp: clock_inv_def clock_wf_def alarms_inv_def alarm_wf_def)
    moreover have "settings_inv (remember_alarm_time ?m spec)"
      using assms that(1) by (intro remember_settings) (auto simp: clock_inv_def clock_wf_def settings_inv_def)
    moreover have "pending_inv (cm_next_event_id m) (alarm_keys ?m) (cm_timer m) (pending_events m)"
      by (rule pending_inv_mono [where keys = "alarm_keys m"]) (use assms in \<open>auto simp: clock_inv_def clock_wf_def\<close>)
    moreover have "alarms_quiet ?m" if "alarms_quiet m" using that due by (simp add: alarms_quiet_def)
    ultimately show ?thesis using assms
      by (auto simp: clock_inv_def clock_wf_def alarms_quiet_def timer_quiet_def)
  qed
  then show ?thesis using assms by (auto simp: clock_model_alarm_add_def split: option.split)
qed

text \<open>
  The alarms after an edit or a removal: what the events of the other alarms are checked against
  stays.
\<close>

lemma cancel_alarm_inv:
  assumes "clock_inv m" "settings_inv m'" "alarms_inv (cm_next_alarm_id m') (cm_alarms m')"
    "\<And>a. a \<in> set (cm_alarms m) \<Longrightarrow> al_id a \<noteq> k \<Longrightarrow> a \<in> set (cm_alarms m')"
    "alarms_quiet m \<Longrightarrow> alarms_quiet m'"
    "queue_inv m'" "pending_events m' = pending_events m" "cm_next_event_id m' = cm_next_event_id m"
    "cm_missed m' = cm_missed m" "cm_missed_total m' = cm_missed_total m" "cm_timer m' = cm_timer m"
    "cm_stopwatch m' = cm_stopwatch m" "cm_world m' = cm_world m" "cm_next_world_id m' = cm_next_world_id m"
    "cm_monotonic_ms m' = cm_monotonic_ms m"
  shows "clock_inv (cancel_events m' EVENT_ALARM k)"
proof -
  have "pending_inv (cm_next_event_id m) (alarm_keys m') (cm_timer m)
      (filter (\<lambda>e. ev_kind e = EVENT_ALARM \<longrightarrow> ev_source_id e \<noteq> k) (pending_events m))"
    by (rule pending_inv_cancel_alarm [where keys = "alarm_keys m"])
      (use assms(1,4) in \<open>auto simp: clock_inv_def clock_wf_def alarm_key_def\<close>)
  moreover have "settings_inv (cancel_events m' EVENT_ALARM k)" using assms(2) by (simp add: settings_inv_def)
  ultimately show ?thesis using assms cancel_pending [OF assms(6), of EVENT_ALARM k]
    by (auto simp: clock_inv_def clock_wf_def alarms_quiet_def timer_quiet_def)
qed

lemma set_update_other: "x \<in> set xs \<Longrightarrow> x \<noteq> xs ! j \<Longrightarrow> x \<in> set (xs[j := y])"
  by (metis in_set_conv_nth length_list_update nth_list_update_neq)

lemma alarm_edit_inv:
  assumes "clock_inv m"
  shows "clock_inv (snd (clock_model_alarm_edit m k spec cancel))"
proof -
  have edited: "clock_inv (cancel_events (remember_alarm_time (m\<lparr>cm_alarms := (cm_alarms m)[j :=
      (cm_alarms m ! j)\<lparr>al_spec := spec, al_generation := al_generation (cm_alarms m ! j) + 1, al_snoozed := False,
        al_snooze_deadline_ms := 0, al_next_due_utc := due\<rparr>]\<rparr>) spec) EVENT_ALARM k)"
    (is "clock_inv (cancel_events ?m EVENT_ALARM k)")
    if "valid_spec spec" "find_alarm m k = Some j" "cm_wall_utc m \<le> after" "spec_due spec after = Some due" for j due after
  proof (rule cancel_alarm_inv [OF assms])
    note due = spec_due_Some [OF that(4,1)] and j = find_alarm_nth [OF that(2)]
    show "settings_inv ?m"
      using assms that(1) by (intro remember_settings) (auto simp: clock_inv_def clock_wf_def settings_inv_def)
    have "alarm_wf (cm_alarms m ! j)" using assms j(2) by (auto simp: clock_inv_def intro: alarm_nth_wf)
    then show "alarms_inv (cm_next_alarm_id ?m) (cm_alarms ?m)"
      using due that(1) j assms
      by (auto simp: alarm_wf_def clock_inv_def clock_wf_def intro!: update_alarm_inv [OF _ j(1)])
    show "a \<in> set (cm_alarms ?m)" if "a \<in> set (cm_alarms m)" "al_id a \<noteq> k" for a
      using that j(3) by (auto intro!: set_update_other)
    show "alarms_quiet ?m" if "alarms_quiet m"
      using that due \<open>cm_wall_utc m \<le> after\<close> j(2) by (auto simp: alarms_quiet_def list_all_length nth_list_update)
    show "queue_inv ?m" using assms by (simp add: clock_inv_def clock_wf_def)
  qed simp_all
  show ?thesis using assms
    by (auto simp: clock_model_alarm_edit_def Let_def not_less split: option.split intro: edited)
qed

lemma alarm_enable_inv: "clock_inv m \<Longrightarrow> clock_inv (snd (clock_model_alarm_enable m k on cancel))"
  by (auto simp: clock_model_alarm_enable_def Let_def alarm_edit_inv split: option.split)

lemma alarm_delete_inv:
  assumes "clock_inv m"
  shows "clock_inv (snd (clock_model_alarm_delete m k cancel))"
proof -
  have "clock_inv ((cancel_events m EVENT_ALARM k)\<lparr>cm_alarms := take j (cm_alarms m) @ drop (j + 1) (cm_alarms m)\<rparr>)"
    if "find_alarm m k = Some j" for j
  proof -
    have as: "alarms_inv (cm_next_alarm_id m) (cm_alarms m)" and q: "queue_inv m"
      using assms by (simp_all add: clock_inv_def clock_wf_def)
    let ?as = "filter (\<lambda>a. al_id a \<noteq> k) (cm_alarms m)"
    have eq: "take j (cm_alarms m) @ drop (j + 1) (cm_alarms m) = ?as"
      by (rule alarm_table.keys_remove [OF find_alarm_nth(1) [OF that]])
        (use as in \<open>simp add: alarms_inv_def ids_below_def\<close>)
    have "alarms_inv (cm_next_alarm_id m) ?as"
      using as by (auto simp: alarms_inv_def ids_below_filter list_all_iff intro: le_trans [OF length_filter_le])
    moreover have "pending_inv (cm_next_event_id m) (alarm_key ` set ?as) (cm_timer m)
        (filter (\<lambda>e. ev_kind e = EVENT_ALARM \<longrightarrow> ev_source_id e \<noteq> k) (pending_events m))"
    proof (rule pending_inv_cancel_alarm [where keys = "alarm_keys m"])
      show "pending_inv (cm_next_event_id m) (alarm_keys m) (cm_timer m) (pending_events m)"
        using assms by (simp add: clock_inv_def clock_wf_def)
      fix key assume "key \<in> alarm_keys m" "fst key \<noteq> k"
      then obtain a where "a \<in> set (cm_alarms m)" "key = alarm_key a" "al_id a \<noteq> k" by (auto simp: alarm_key_def)
      then show "key \<in> alarm_key ` set ?as" by auto
    qed
    moreover have "alarms_quiet m \<Longrightarrow> alarms_quiet ((cancel_events m EVENT_ALARM k)\<lparr>cm_alarms := ?as\<rparr>)"
      by (auto simp: alarms_quiet_def list_all_iff)
    ultimately show ?thesis unfolding eq using assms cancel_pending [OF q, of EVENT_ALARM k]
      by (auto simp: clock_inv_def clock_wf_def settings_inv_def timer_quiet_def)
  qed
  then show ?thesis using assms by (auto simp: clock_model_alarm_delete_def Let_def split: option.split)
qed

end
