(* ===== verification/Clock_Tick.thy ===== *)
theory Clock_Tick
  imports Clock_Invariant "HOL-Library.Product_Lexorder"
begin

section \<open>Ticks of the clock\<close>

text \<open>
  \<^const>\<open>clock_model_tick\<close> keeps the invariant and leaves no alarm and no timer due, unless the
  64-bit event ids are used up.  The loop of \<^const>\<open>tick_alarms\<close> runs once per alarm at most: every
  round takes the earliest alarm that is due and consumes its occurrence, so that the number of
  due alarms, which its fuel bounds, falls by one.
\<close>

subsection \<open>Choosing the alarm\<close>

lemma fold_least:
  fixes key :: "nat \<Rightarrow> 'k::linorder"
  shows "case fold (\<lambda>i due. if \<not> ready i then due else case due of None \<Rightarrow> Some i
        | Some b \<Rightarrow> if key i < key b then Some i else due) [0..<n] None of
      None \<Rightarrow> \<forall>i < n. \<not> ready i
    | Some b \<Rightarrow> b < n \<and> ready b \<and> (\<forall>i < n. ready i \<longrightarrow> key b \<le> key i)"
proof (induction n)
  case (Suc n)
  then show ?case by (auto simp: less_Suc_eq not_less split: option.splits)
qed simp

definition alarm_time :: "bool \<Rightarrow> clock_alarm \<Rightarrow> int \<times> u32" where
  "alarm_time snoozed a = ((if snoozed then uint (al_snooze_deadline_ms a) else al_next_due_utc a), al_id a)"

lemma alarm_before_time: "alarm_before snoozed a b \<longleftrightarrow> alarm_time snoozed a < alarm_time snoozed b"
  by (auto simp: alarm_before_def alarm_time_def word_less_def word_uint_eq_iff)

lemma select_due_least:
  "case select_due m snoozed of
     None \<Rightarrow> \<forall>a \<in> set (cm_alarms m). \<not> alarm_ready m snoozed a
   | Some j \<Rightarrow> j < length (cm_alarms m) \<and> alarm_ready m snoozed (cm_alarms m ! j) \<and>
       (\<forall>a \<in> set (cm_alarms m). alarm_ready m snoozed a \<longrightarrow> alarm_time snoozed (cm_alarms m ! j) \<le> alarm_time snoozed a)"
  using fold_least [of "length (cm_alarms m)" "\<lambda>i. alarm_ready m snoozed (cm_alarms m ! i)"
      "\<lambda>i. alarm_time snoozed (cm_alarms m ! i)"]
  unfolding select_due_def alarm_before_time by (auto simp: in_set_conv_nth split: option.splits)

subsection \<open>One round of the loop\<close>

text \<open>The event of a due alarm, and the model after the round that takes it.\<close>

definition alarm_event :: "clock_model \<Rightarrow> bool \<Rightarrow> clock_alarm \<Rightarrow> clock_event" where
  "alarm_event m snoozed due =
     \<lparr> ev_id = cm_next_event_id m, ev_kind = EVENT_ALARM, ev_source_id = al_id due, ev_generation = al_generation due,
       ev_label = sp_label (al_spec due), ev_due_wall_utc = (if snoozed then cm_wall_utc m else al_next_due_utc due),
       ev_due_monotonic_ms = (if snoozed then al_snooze_deadline_ms due else cm_monotonic_ms m),
       ev_ring_started_ms = 0, ev_snoozed = snoozed, ev_missed_reason = MISSED_NONE \<rparr>"

definition alarm_round :: "clock_model \<Rightarrow> bool \<Rightarrow> nat \<Rightarrow> clock_model" where
  "alarm_round m snoozed j =
     submit_event
       (m\<lparr>cm_next_event_id := cm_next_event_id m + 1,
          cm_alarms := (cm_alarms m)[j := consume_alarm m snoozed (cm_alarms m ! j)]\<rparr>)
       (alarm_event m snoozed (cm_alarms m ! j)) (alarm_late m snoozed (cm_alarms m ! j))"

lemma tick_alarms_round:
  "tick_alarms_from (Suc n) m snoozed =
     (case select_due m snoozed of
        None \<Rightarrow> (CLOCK_OK, m)
      | Some j \<Rightarrow> if cm_next_event_id m = 0 then (CLOCK_EXHAUSTED, m)
          else tick_alarms_from n (alarm_round m snoozed j) snoozed)"
proof -
  have "consume_alarm (m\<lparr>cm_next_event_id := i\<rparr>) = consume_alarm m" "alarm_late (m\<lparr>cm_next_event_id := i\<rparr>) = alarm_late m" for i
    by (auto simp: fun_eq_iff consume_alarm_def alarm_late_def Let_def split: clock_alarm_schedule.split)
  then show ?thesis
    by (auto simp: create_event_def alarm_round_def alarm_event_def Let_def split: option.split)
qed

lemma consume_key [simp]:
  "al_id (consume_alarm m snoozed a) = al_id a" "alarm_key (consume_alarm m snoozed a) = alarm_key a"
  by (auto simp: consume_alarm_def alarm_key_def Let_def split: clock_alarm_schedule.split option.split)

lemma valid_spec_enabled [simp]: "valid_spec (spec\<lparr>sp_enabled := on\<rparr>) = valid_spec spec"
  by (simp add: valid_spec_def cong: clock_alarm_schedule.case_cong)

lemma consume_wf:
  assumes "alarm_wf a" "alarm_ready m snoozed a"
  shows "alarm_wf (consume_alarm m snoozed a)"
proof (cases snoozed)
  case False
  then have "valid_wall (al_next_due_utc a)" using assms by (simp add: alarm_wf_def alarm_ready_def occurs_def)
  then show ?thesis using assms False next_due_Some [of "al_spec a" "cm_wall_utc m"]
    by (auto simp: consume_alarm_def alarm_wf_def alarm_ready_def Let_def split: clock_alarm_schedule.split option.split)
qed (use assms in \<open>auto simp: consume_alarm_def alarm_wf_def\<close>)

lemma consume_not_ready: "\<not> alarm_ready m snoozed (consume_alarm m snoozed a)"
  by (auto simp: consume_alarm_def alarm_ready_def Let_def not_le split: clock_alarm_schedule.split option.split
      dest: next_due_Some(2))

lemma consume_snoozed_ready: "alarm_ready m False (consume_alarm m True a) = alarm_ready m False a"
  by (simp add: consume_alarm_def alarm_ready_def)

lemma alarm_ready_round [simp]: "alarm_ready (alarm_round m snoozed j) s = alarm_ready m s"
  by (simp add: alarm_ready_def alarm_round_def fun_eq_iff)

lemma round_frame [simp]:
  "cm_wall_utc (alarm_round m s j) = cm_wall_utc m" "cm_monotonic_ms (alarm_round m s j) = cm_monotonic_ms m"
  "cm_timer (alarm_round m s j) = cm_timer m" "cm_stopwatch (alarm_round m s j) = cm_stopwatch m"
  "cm_alarms (alarm_round m s j) = (cm_alarms m)[j := consume_alarm m s (cm_alarms m ! j)]"
  "cm_next_event_id (alarm_round m s j) = cm_next_event_id m + 1"
  by (simp_all add: alarm_round_def)

lemma submit_wf:
  assumes "clock_wf m" "cm_next_event_id m \<noteq> 0" "ev_id e = cm_next_event_id m" "event_wf (alarm_keys m) (cm_timer m) e"
    "ev_kind e = EVENT_TIMER \<Longrightarrow> \<forall>x \<in> set (pending_events m). ev_kind x \<noteq> EVENT_TIMER"
  shows "clock_wf (submit_event (m\<lparr>cm_next_event_id := cm_next_event_id m + 1\<rparr>) e late)"
proof -
  let ?m = "m\<lparr>cm_next_event_id := cm_next_event_id m + 1\<rparr>"
  have k: "ev_kind e \<noteq> EVENT_NONE" using assms(4) by (auto simp: event_wf_def)
  have q: "queue_inv ?m" and p: "pending_inv (cm_next_event_id m) (alarm_keys m) (cm_timer m) (pending_events m)"
    using assms(1) by (simp_all add: clock_wf_def)
  have e: "event_wf (alarm_keys m) (cm_timer m) (unring e)"
    using assms(4) by (simp add: event_wf_def split: clock_event_kind.splits)
  have "pending_inv (cm_next_event_id m + 1) (alarm_keys m) (cm_timer m) (pending_events m @ [unring e])"
    using assms(2,3,5) by (intro pending_inv_append [OF p _ _ e]) auto
  then have "pending_inv (cm_next_event_id m + 1) (alarm_keys m) (cm_timer m) (pending_events (submit_event ?m e late))"
    using submit_pending(1) [OF q k, of late] pending_inv_next [OF p assms(2)] by auto
  moreover have "missed_inv (cm_missed (submit_event ?m e late)) (cm_missed_total (submit_event ?m e late))"
    using assms(1) k missed_append [of "cm_missed m" "cm_missed_total m" "e\<lparr>ev_missed_reason := _\<rparr>"]
    by (auto simp: submit_event_def record_missed_def Let_def clock_wf_def)
  ultimately show ?thesis using assms(1) submit_pending(2) [OF q k, of late]
    by (auto simp: clock_wf_def settings_inv_def)
qed

lemma round_wf:
  assumes "clock_wf m" "cm_next_event_id m \<noteq> 0" "j < length (cm_alarms m)" "alarm_ready m snoozed (cm_alarms m ! j)"
  shows "clock_wf (alarm_round m snoozed j)"
proof -
  let ?a = "consume_alarm m snoozed (cm_alarms m ! j)"
  let ?m = "m\<lparr>cm_alarms := (cm_alarms m)[j := ?a]\<rparr>"
  have "alarm_wf ?a" by (rule consume_wf [OF alarm_nth_wf [OF assms(1,3)] assms(4)])
  moreover have "find_index (al_id (cm_alarms m ! j)) (cm_alarms m) 0 = Some j"
    by (rule alarm_table.find_distinct [OF _ assms(3)]) (use assms(1) in \<open>simp add: clock_wf_def alarms_inv_def ids_below_def\<close>)
  ultimately have "alarms_inv (cm_next_alarm_id m) ((cm_alarms m)[j := ?a])"
    using assms(1) by (intro update_alarm_inv) (auto simp: clock_wf_def)
  moreover have keys: "alarm_keys ?m = alarm_keys m" using assms(3) by (simp add: update_alarm_keys)
  ultimately have "clock_wf ?m" using assms(1) by (auto simp: clock_wf_def settings_inv_def)
  moreover have "event_wf (alarm_keys ?m) (cm_timer ?m) (alarm_event m snoozed (cm_alarms m ! j))"
    unfolding keys using assms(3) by (auto simp: event_wf_def alarm_event_def alarm_key_def [symmetric])
  ultimately have "clock_wf (submit_event (?m\<lparr>cm_next_event_id := cm_next_event_id ?m + 1\<rparr>)
      (alarm_event m snoozed (cm_alarms m ! j)) (alarm_late m snoozed (cm_alarms m ! j)))"
    using assms(2) by (intro submit_wf) (auto simp: alarm_event_def)
  moreover have "m\<lparr>cm_alarms := as, cm_next_event_id := i\<rparr> = m\<lparr>cm_next_event_id := i, cm_alarms := as\<rparr>" for as i by simp
  ultimately show ?thesis by (simp add: alarm_round_def)
qed

text \<open>Each round leaves one alarm fewer due.\<close>

definition due_count :: "clock_model \<Rightarrow> bool \<Rightarrow> nat" where
  "due_count m snoozed = length (filter (alarm_ready m snoozed) (cm_alarms m))"

lemma round_count:
  assumes "j < length (cm_alarms m)" "alarm_ready m snoozed (cm_alarms m ! j)"
  shows "due_count m snoozed = Suc (due_count (alarm_round m snoozed j) snoozed)"
proof -
  let ?as = "cm_alarms m" and ?P = "alarm_ready m snoozed"
  have as: "?as = take j ?as @ ?as ! j # drop (Suc j) ?as" by (rule id_take_nth_drop [OF assms(1)])
  have "?as[j := a] = take j ?as @ a # drop (Suc j) ?as" for a by (rule upd_conv_take_nth_drop [OF assms(1)])
  then have "length (filter ?P (?as[j := consume_alarm m snoozed (?as ! j)])) =
      length (filter ?P (take j ?as)) + length (filter ?P (drop (Suc j) ?as))"
    by (simp add: consume_not_ready)
  moreover have "length (filter ?P ?as) = length (filter ?P (take j ?as)) + Suc (length (filter ?P (drop (Suc j) ?as)))"
    using assms(2) by (subst as) simp
  ultimately show ?thesis by (simp add: due_count_def)
qed

lemma due_count_zero: "due_count m snoozed = 0 \<longleftrightarrow> (\<forall>a \<in> set (cm_alarms m). \<not> alarm_ready m snoozed a)"
  by (simp add: due_count_def filter_empty_conv)

subsection \<open>The loop\<close>

lemma tick_alarms_from_spec:
  assumes "clock_wf m" "due_count m snoozed \<le> n" "tick_alarms_from n m snoozed = (status, m')"
  shows "clock_wf m' \<and> cm_wall_utc m' = cm_wall_utc m \<and> cm_monotonic_ms m' = cm_monotonic_ms m \<and>
    cm_timer m' = cm_timer m \<and> cm_stopwatch m' = cm_stopwatch m \<and>
    (status = CLOCK_OK \<and> due_count m' snoozed = 0 \<or> status = CLOCK_EXHAUSTED \<and> cm_next_event_id m' = 0) \<and>
    (snoozed \<longrightarrow> due_count m False = 0 \<longrightarrow> due_count m' False = 0)"
  using assms
proof (induction n arbitrary: m)
  case (Suc n)
  note least = select_due_least [of m snoozed] and round = Suc.prems(3) [unfolded tick_alarms_round]
  show ?case
  proof (cases "select_due m snoozed")
    case None
    then show ?thesis using Suc.prems(1) round least by (auto simp: due_count_zero)
  next
    case (Some j)
    then have j: "j < length (cm_alarms m)" "alarm_ready m snoozed (cm_alarms m ! j)" using least by auto
    show ?thesis
    proof (cases "cm_next_event_id m = 0")
      case True
      then show ?thesis using Suc.prems(1) round Some by auto
    next
      case False
      have wf: "clock_wf (alarm_round m snoozed j)" by (rule round_wf [OF Suc.prems(1) False j])
      have "tick_alarms_from n (alarm_round m snoozed j) snoozed = (status, m')"
        using round Some False by simp
      note IH = Suc.IH [OF wf _ this]
      have "due_count (alarm_round m snoozed j) False = 0" if "snoozed" "due_count m False = 0"
        using that j by (auto simp: due_count_zero consume_snoozed_ready dest!: set_update_subset_insert [THEN subsetD])
      then show ?thesis using IH round_count [OF j] Suc.prems(2) by auto
    qed
  qed
qed auto

lemma tick_alarms_spec:
  assumes "clock_wf m" "tick_alarms m snoozed = (status, m')"
  shows "clock_wf m' \<and> cm_wall_utc m' = cm_wall_utc m \<and> cm_monotonic_ms m' = cm_monotonic_ms m \<and>
    cm_timer m' = cm_timer m \<and> cm_stopwatch m' = cm_stopwatch m \<and>
    (status = CLOCK_OK \<and> due_count m' snoozed = 0 \<or> status = CLOCK_EXHAUSTED \<and> cm_next_event_id m' = 0) \<and>
    (snoozed \<longrightarrow> due_count m False = 0 \<longrightarrow> due_count m' False = 0)"
  using assms by (intro tick_alarms_from_spec [where n = "length (cm_alarms m)"])
    (auto simp: tick_alarms_def due_count_def)

subsection \<open>The rest of a tick\<close>

lemma tick_clocks_wf:
  assumes "clock_wf m" "valid_wall wall" "cm_monotonic_ms m \<le> now"
  shows "clock_wf (tick_clocks m wall now)"
proof -
  have "stopwatch_inv (s\<lparr>sw_elapsed_ms := saturated_add (sw_elapsed_ms s) e\<rparr>)" if "stopwatch_inv s" for s e
    using that by (auto simp: stopwatch_inv_def intro: laps_inv_mono saturated_add_le)
  moreover have "timer_inv now (cm_timer m)"
    using assms(1,3) by (auto simp: clock_wf_def timer_inv_def word_le_nat_alt split: clock_timer_state.splits)
  moreover have "queue_inv (m\<lparr>cm_wall_utc := wall, cm_monotonic_ms := now\<rparr>)"
    using assms(1,3) by (auto simp: clock_wf_def queue_inv_def intro: order_trans)
  ultimately show ?thesis using assms(1,2) by (auto simp: tick_clocks_def Let_def clock_wf_def settings_inv_def)
qed

lemma tick_clocks_frame [simp]:
  "cm_wall_utc (tick_clocks m wall now) = wall" "cm_monotonic_ms (tick_clocks m wall now) = now"
  "cm_timer (tick_clocks m wall now) = cm_timer m" "cm_next_event_id (tick_clocks m wall now) = cm_next_event_id m"
  by (simp_all add: tick_clocks_def Let_def)

lemma tick_ring_wf: "clock_wf m \<Longrightarrow> clock_wf (tick_ring m)"
proof -
  assume m: "clock_wf m"
  have "clock_wf (promote_event ((record_missed m (cm_active m) MISSED_EXPIRED)\<lparr>cm_active := zero_event\<rparr>))"
    if k: "ev_kind (cm_active m) \<noteq> EVENT_NONE"
  proof -
    let ?m = "record_missed m (cm_active m) MISSED_EXPIRED"
    have w: "clock_wf ?m" by (rule record_missed_wf [OF m k]) simp
    then have q: "queue_inv ?m" by (simp add: clock_wf_def)
    have "ev_kind (cm_active ?m) \<noteq> EVENT_NONE" using k by simp
    from drop_active_pending [OF q this] w show ?thesis
      by (auto simp: clock_wf_def settings_inv_def pending_inv_tl)
  qed
  then show ?thesis using m by (simp add: tick_ring_def)
qed

lemma tick_ring_frame [simp]:
  "cm_wall_utc (tick_ring m) = cm_wall_utc m" "cm_monotonic_ms (tick_ring m) = cm_monotonic_ms m"
  "cm_timer (tick_ring m) = cm_timer m" "cm_next_event_id (tick_ring m) = cm_next_event_id m"
  by (simp_all add: tick_ring_def)

lemma due_count_quiet:
  "due_count m False = 0 \<Longrightarrow> due_count m True = 0 \<Longrightarrow> alarms_quiet m"
  by (auto simp: due_count_zero alarms_quiet_def list_all_iff alarm_ready_def not_le)

lemma tick_timer_spec:
  assumes "clock_wf m" "tick_timer m = (status, m')"
  shows "clock_wf m' \<and> cm_wall_utc m' = cm_wall_utc m \<and> cm_monotonic_ms m' = cm_monotonic_ms m \<and>
    cm_alarms m' = cm_alarms m \<and>
    (status = CLOCK_OK \<and>
       (ct_state (cm_timer m') = TIMER_RUNNING \<longrightarrow> cm_monotonic_ms m' < ct_deadline_ms (cm_timer m')) \<and>
       (ct_state (cm_timer m') = TIMER_PAUSED \<longrightarrow> cm_timer m' = cm_timer m)
     \<or> status = CLOCK_EXHAUSTED \<and> cm_next_event_id m' = 0)"
proof (cases "ct_state (cm_timer m) = TIMER_RUNNING")
  case True
  define t where "t = (cm_timer m)\<lparr>ct_remaining_ms := clock_model_timer_remaining m\<rparr>"
  let ?m = "m\<lparr>cm_timer := t\<rparr>"
  have p: "pending_inv (cm_next_event_id m) (alarm_keys m) u (pending_events m)" for u
    by (rule pending_inv_idle [of _ _ "cm_timer m"]) (use assms True in \<open>simp_all add: clock_wf_def\<close>)
  have r: "unat (ct_remaining_ms t) \<le> ct_duration_seconds t * 1000"
    using assms(1) timer_remaining_le [of m] by (simp add: clock_wf_def t_def)
  have w: "clock_wf (m\<lparr>cm_timer := t\<lparr>ct_state := s\<rparr>\<rparr>)"
    if "s = TIMER_RUNNING \<or> s = TIMER_FINISHED \<and> ct_remaining_ms t = 0" for s
    using assms(1) p r that True by (auto simp: clock_wf_def settings_inv_def timer_inv_def t_def)
  have "t\<lparr>ct_state := TIMER_RUNNING\<rparr> = t" using True by (simp add: t_def)
  with w [of TIMER_RUNNING] have w0: "clock_wf ?m" by simp
  consider (later) "ct_remaining_ms t \<noteq> 0" | (exhausted) "ct_remaining_ms t = 0" "cm_next_event_id m = 0"
    | (finished) "ct_remaining_ms t = 0" "cm_next_event_id m \<noteq> 0" by blast
  then show ?thesis
  proof cases
    case later
    then have "cm_monotonic_ms m < ct_deadline_ms (cm_timer m)"
      using True by (simp add: t_def clock_model_timer_remaining_def split: if_split_asm)
    then show ?thesis using later True assms(2) w0
      by (auto simp: tick_timer_def Let_def t_def [symmetric]) (simp_all add: t_def)
  next
    case exhausted
    then show ?thesis using True assms(2) w0 by (auto simp: tick_timer_def Let_def t_def [symmetric] create_event_def)
  next
    case finished
    let ?f = "m\<lparr>cm_timer := t\<lparr>ct_state := TIMER_FINISHED\<rparr>\<rparr>"
    let ?e = "\<lparr> ev_id = cm_next_event_id m, ev_kind = EVENT_TIMER, ev_source_id = 0, ev_generation = ct_generation t,
      ev_label = [], ev_due_wall_utc = cm_wall_utc m, ev_due_monotonic_ms = ct_deadline_ms t, ev_ring_started_ms = 0,
      ev_snoozed = False, ev_missed_reason = MISSED_NONE \<rparr>"
    have "\<forall>x \<in> set (pending_events m). ev_kind x \<noteq> EVENT_TIMER"
      using pending_no_timer [OF p [of "cm_timer m"]] True by auto
    then have "clock_wf (submit_event (?f\<lparr>cm_next_event_id := cm_next_event_id ?f + 1\<rparr>) ?e False)"
      using finished w [of TIMER_FINISHED] by (intro submit_wf) (auto simp: event_wf_def)
    moreover have swap: "m\<lparr>cm_next_event_id := i, cm_timer := u\<rparr> = m\<lparr>cm_timer := u, cm_next_event_id := i\<rparr>" for i u by simp
    have "tick_timer m = (CLOCK_OK, submit_event (?f\<lparr>cm_next_event_id := cm_next_event_id ?f + 1\<rparr>) ?e False)"
      using finished True by (simp add: tick_timer_def t_def [symmetric] create_event_def swap)
    ultimately show ?thesis using assms(2) by auto
  qed
qed (use assms in \<open>auto simp: tick_timer_def\<close>)

lemma clock_tick_cases:
  assumes "clock_wf m" "valid_wall wall" "cm_monotonic_ms m \<le> now" "clock_model_tick m wall now = (status, m')"
  shows "clock_wf m' \<and> cm_wall_utc m' = wall \<and> cm_monotonic_ms m' = now \<and>
    (status = CLOCK_OK \<and> alarms_quiet m' \<and>
       (ct_state (cm_timer m') = TIMER_RUNNING \<longrightarrow> now < ct_deadline_ms (cm_timer m')) \<and>
       (ct_state (cm_timer m') = TIMER_PAUSED \<longrightarrow> cm_timer m' = cm_timer m)
     \<or> status = CLOCK_EXHAUSTED \<and> cm_next_event_id m' = 0)"
proof -
  define m0 where "m0 = tick_ring (tick_clocks m wall now)"
  have m0: "clock_wf m0" "cm_wall_utc m0 = wall" "cm_monotonic_ms m0 = now" "cm_timer m0 = cm_timer m"
    using tick_ring_wf tick_clocks_wf [OF assms(1-3)] by (auto simp: m0_def)
  obtain s1 m1 where t1: "tick_alarms m0 False = (s1, m1)" by force
  note S1 = tick_alarms_spec [OF m0(1) t1]
  show ?thesis
  proof (cases "s1 = CLOCK_OK")
    case False
    then show ?thesis using assms S1 t1 m0 by (auto simp: clock_model_tick_def m0_def [symmetric] split: if_split_asm)
  next
    case True
    obtain s2 m2 where t2: "tick_alarms m1 True = (s2, m2)" by force
    note S2 = tick_alarms_spec [OF conjunct1 [OF S1] t2]
    show ?thesis
    proof (cases "s2 = CLOCK_OK")
      case False
      then show ?thesis using assms S1 S2 t1 t2 m0 True
        by (auto simp: clock_model_tick_def m0_def [symmetric] split: if_split_asm)
    next
      case s2: True
      have t3: "tick_timer m2 = (status, m')"
        using assms t1 t2 True s2 by (simp add: clock_model_tick_def m0_def [symmetric] split: if_split_asm)
      note S3 = tick_timer_spec [OF conjunct1 [OF S2] t3]
      have "alarms_quiet m2" using S1 S2 True s2 by (auto intro: due_count_quiet)
      then have "alarms_quiet m'" using S3 by (simp add: alarms_quiet_def)
      then show ?thesis using S1 S2 S3 m0 by auto
    qed
  qed
qed

text \<open>Once used up, the event ids stay used up.\<close>

lemma exhausted_alarms: "cm_next_event_id m = 0 \<Longrightarrow> snd (tick_alarms m snoozed) = m"
  by (cases "length (cm_alarms m)")
    (auto simp: tick_alarms_def tick_alarms_round simp del: tick_alarms_from.simps(2) split: option.split)

lemma exhausted_timer: "cm_next_event_id m = 0 \<Longrightarrow> cm_next_event_id (snd (tick_timer m)) = 0"
  by (simp add: tick_timer_def Let_def create_event_def)

lemma exhausted_tick: "cm_next_event_id m = 0 \<Longrightarrow> cm_next_event_id (snd (clock_model_tick m wall now)) = 0"
proof -
  assume "cm_next_event_id m = 0"
  then have m0: "cm_next_event_id (tick_ring (tick_clocks m wall now)) = 0" by simp
  define m0 where "m0 = tick_ring (tick_clocks m wall now)"
  obtain s1 where s1: "tick_alarms m0 False = (s1, m0)"
    using exhausted_alarms [OF m0] unfolding m0_def by (metis prod.collapse)
  obtain s2 where s2: "tick_alarms m0 True = (s2, m0)"
    using exhausted_alarms [OF m0] unfolding m0_def by (metis prod.collapse)
  have "cm_next_event_id (snd (tick_timer m0)) = 0" using m0 unfolding m0_def by (rule exhausted_timer)
  then show ?thesis using m0 \<open>cm_next_event_id m = 0\<close> by (simp add: clock_model_tick_def m0_def [symmetric] s1 s2)
qed

lemma clock_tick_inv: "clock_inv m \<Longrightarrow> clock_inv (snd (clock_model_tick m wall now))"
proof (cases "valid_wall wall \<and> cm_monotonic_ms m \<le> now")
  case True
  assume m: "clock_inv m"
  obtain status m' where t: "clock_model_tick m wall now = (status, m')" by force
  have C: "clock_wf m' \<and> cm_wall_utc m' = wall \<and> cm_monotonic_ms m' = now \<and>
    (status = CLOCK_OK \<and> alarms_quiet m' \<and>
       (ct_state (cm_timer m') = TIMER_RUNNING \<longrightarrow> now < ct_deadline_ms (cm_timer m')) \<and>
       (ct_state (cm_timer m') = TIMER_PAUSED \<longrightarrow> cm_timer m' = cm_timer m)
     \<or> status = CLOCK_EXHAUSTED \<and> cm_next_event_id m' = 0)"
    using m True t by (intro clock_tick_cases) (auto simp: clock_inv_def)
  have "timer_quiet m'" if "cm_next_event_id m' \<noteq> 0"
  proof -
    have "cm_next_event_id m \<noteq> 0" using that exhausted_tick [of m wall now] t by auto
    then have "timer_quiet m" using m by (simp add: clock_inv_def)
    then show ?thesis using C that by (auto simp: timer_quiet_def)
  qed
  then show ?thesis using C t by (auto simp: clock_inv_def)
qed (auto simp: clock_model_tick_def)

end
