(* ===== verification/Clock_Properties.thy ===== *)
theory Clock_Properties
  imports Clock_Tick
begin

section \<open>What the clock promises\<close>

text \<open>
  The operations as a transition system, whose reachable states satisfy the invariant, and the
  properties of single operations that rest on it.
\<close>

subsection \<open>Reachable states\<close>

inductive clock_step :: "clock_model \<Rightarrow> clock_model \<Rightarrow> bool" where
  tick: "clock_step m (snd (clock_model_tick m wall now))"
| set_view: "clock_step m (snd (clock_model_set_view m view))"
| set_snooze: "clock_step m (snd (clock_model_set_snooze m minutes))"
| alarm_add: "clock_step m (snd (snd (clock_model_alarm_add m spec)))"
| alarm_edit: "clock_step m (snd (clock_model_alarm_edit m k spec cancel))"
| alarm_enable: "clock_step m (snd (clock_model_alarm_enable m k on cancel))"
| alarm_delete: "clock_step m (snd (clock_model_alarm_delete m k cancel))"
| cancel_snooze: "clock_step m (snd (clock_model_alarm_cancel_snooze m k))"
| dismiss: "clock_step m (snd (clock_model_dismiss m event))"
| snooze: "clock_step m (snd (clock_model_snooze m event minutes))"
| clear_missed: "clock_step m (clock_model_clear_missed m)"
| timer_set: "clock_step m (snd (clock_model_timer_set m seconds))"
| timer_start: "clock_step m (snd (clock_model_timer_start m))"
| timer_pause: "clock_step m (snd (clock_model_timer_pause m))"
| timer_resume: "clock_step m (snd (clock_model_timer_resume m))"
| timer_stop: "clock_step m (snd (clock_model_timer_stop m))"
| timer_restart: "clock_step m (snd (clock_model_timer_restart m))"
| stopwatch_start: "clock_step m (snd (clock_model_stopwatch_start m))"
| stopwatch_pause: "clock_step m (snd (clock_model_stopwatch_pause m))"
| stopwatch_reset: "clock_step m (snd (clock_model_stopwatch_reset m))"
| stopwatch_lap: "clock_step m (snd (clock_model_stopwatch_lap m))"
| world_add: "clock_step m (snd (snd (clock_model_world_add m offset)))"
| world_edit: "clock_step m (snd (clock_model_world_edit m k offset))"
| world_delete: "clock_step m (snd (clock_model_world_delete m k))"

lemmas clock_op_inv =
  clock_tick_inv set_view_inv set_snooze_inv alarm_add_inv alarm_edit_inv alarm_enable_inv alarm_delete_inv
  cancel_snooze_inv dismiss_inv snooze_inv clear_missed_inv timer_set_inv timer_start_inv timer_pause_inv
  timer_resume_inv timer_stop_inv timer_restart_inv stopwatch_start_inv stopwatch_pause_inv
  stopwatch_reset_inv stopwatch_lap_inv world_add_inv world_edit_inv world_delete_inv

lemma clock_step_inv: "clock_step m m' \<Longrightarrow> clock_inv m \<Longrightarrow> clock_inv m'"
  by (induction rule: clock_step.induct) (erule clock_op_inv)+

definition clock_initial :: "clock_model \<Rightarrow> bool" where
  "clock_initial m \<longleftrightarrow> (\<exists>wall now. clock_model_init wall now = Some m)"

interpretation clock: transition_system clock_initial clock_step clock_inv
  by unfold_locales (auto simp: clock_initial_def clock_init_inv clock_step_inv)

definition clock_reachable :: "clock_model \<Rightarrow> bool" where
  "clock_reachable m \<longleftrightarrow> (\<exists>m0. clock_initial m0 \<and> clock_step\<^sup>*\<^sup>* m0 m)"

lemma reachable_clock_inv: "clock_reachable m \<Longrightarrow> clock_inv m"
  using clock.reachable by (auto simp: clock_reachable_def)

lemma reachable_step: "clock_reachable m \<Longrightarrow> clock_step m m' \<Longrightarrow> clock_reachable m'"
  by (auto simp: clock_reachable_def intro: rtranclp.rtrancl_into_rtrancl)

lemma reachable_clock_wf: "clock_reachable m \<Longrightarrow> clock_wf m"
  using reachable_clock_inv by (simp add: clock_inv_def)

text \<open>
  A run for the witnesses: started on a Friday evening, an alarm for the mornings of the working
  days, a timer of ten seconds, and a tick on Monday at the time of the alarm.
\<close>

definition evening :: clock_model where
  "evening = \<lparr> cm_wall_utc = 1709316000, cm_monotonic_ms = 1000, cm_view = VIEW_DIGITAL, cm_snooze_minutes = 5,
     cm_last_alarm_hour = 7, cm_last_alarm_minute = 0, cm_alarms = [], cm_active = zero_event, cm_queue = [],
     cm_missed = [], cm_missed_total = 0, cm_timer = zero_timer\<lparr>ct_generation := 1\<rparr>,
     cm_stopwatch = zero_stopwatch, cm_world = [], cm_next_alarm_id = 1, cm_next_world_id = 1,
     cm_next_event_id = 1 \<rparr>"

lemma evening_init: "clock_model_init 1709316000 1000 = Some evening"
  by (simp add: clock_model_init_def evening_def valid_wall_def CLOCK_WALL_MIN_def CLOCK_WALL_MAX_def)

lemma evening_reachable: "clock_reachable evening"
  using evening_init by (auto simp: clock_reachable_def clock_initial_def)

definition set_alarm :: clock_alarm where
  "set_alarm = \<lparr> al_id = 1, al_generation = 1, al_spec = weekday_alarm, al_next_due_utc = 1709537400,
     al_last_due_utc = 0, al_snoozed = False, al_snooze_deadline_ms = 0 \<rparr>"

definition night :: clock_model where
  "night = evening\<lparr>cm_alarms := [set_alarm], cm_next_alarm_id := 2, cm_last_alarm_minute := 30\<rparr>"

lemma night_add: "clock_model_alarm_add evening weekday_alarm = (CLOCK_OK, Some 1, night)"
proof -
  have "spec_due weekday_alarm 1709316000 = Some 1709537400"
    by (simp add: spec_due_def weekday_alarm_due) (simp add: weekday_alarm_def)
  then show ?thesis
    by (simp add: clock_model_alarm_add_def weekday_alarm_valid evening_def night_def set_alarm_def CLOCK_ALARM_LIMIT_def
        remember_alarm_time_def weekday_alarm_def [THEN arg_cong [of _ _ sp_schedule]]
        weekday_alarm_def [THEN arg_cong [of _ _ sp_hour]] weekday_alarm_def [THEN arg_cong [of _ _ sp_minute]])
qed

lemma night_reachable: "clock_reachable night"
  using reachable_step [OF evening_reachable clock_step.alarm_add, of weekday_alarm] by (simp add: night_add)

definition rung_alarm :: clock_alarm where
  "rung_alarm = set_alarm\<lparr>al_last_due_utc := 1709537400, al_next_due_utc := 1709623800\<rparr>"

definition morning :: clock_model where
  "morning = night\<lparr>cm_wall_utc := 1709537400, cm_monotonic_ms := 222401000, cm_alarms := [rung_alarm],
     cm_active := \<lparr> ev_id = 1, ev_kind = EVENT_ALARM, ev_source_id = 1, ev_generation = 1,
       ev_label = sp_label weekday_alarm, ev_due_wall_utc = 1709537400, ev_due_monotonic_ms = 222401000,
       ev_ring_started_ms = 222401000, ev_snoozed = False, ev_missed_reason = MISSED_NONE \<rparr>,
     cm_next_event_id := 2\<rparr>"

lemma weekday_alarm_again: "clock_model_alarm_next_due weekday_alarm 1709537400 = Some 1709623800"
  by (simp add: clock_model_alarm_next_due_def weekday_alarm_valid [unfolded weekday_alarm_def, simplified] weekday_alarm_def
      valid_wall_def CLOCK_WALL_MIN_def CLOCK_WALL_MAX_def SECONDS_PER_DAY_def upt_conv_Cons Let_def
      due_candidate_def)

lemma weekday_alarm_fields [simp]: "sp_enabled weekday_alarm" "sp_schedule weekday_alarm = ALARM_WEEKLY"
  by (simp_all add: weekday_alarm_def)

lemma morning_tick: "clock_model_tick night 1709537400 222401000 = (CLOCK_OK, morning)"
proof -
  let ?m = "night\<lparr>cm_wall_utc := 1709537400, cm_monotonic_ms := 222401000\<rparr>"
  have m: "tick_ring (tick_clocks night 1709537400 222401000) = ?m"
    by (simp add: tick_clocks_def tick_ring_def night_def evening_def zero_stopwatch_def)
  have a: "cm_alarms ?m = [set_alarm]" "cm_alarms morning = [rung_alarm]" by (simp_all add: night_def morning_def)
  have "select_due ?m False = Some 0"
    unfolding select_due_def a by (simp add: alarm_ready_def set_alarm_def)
  moreover have "alarm_round ?m False 0 = morning"
    unfolding alarm_round_def a
    by (simp add: alarm_event_def consume_alarm_def alarm_late_def set_alarm_def weekday_alarm_again submit_event_def
        night_def evening_def morning_def rung_alarm_def CLOCK_ALARM_GRACE_SECONDS_def)
  ultimately have one: "tick_alarms ?m False = (CLOCK_OK, morning)"
    unfolding tick_alarms_def a by (simp add: tick_alarms_round night_def evening_def del: tick_alarms_from.simps(2))
  have "select_due morning True = None"
    unfolding select_due_def a by (simp add: alarm_ready_def rung_alarm_def set_alarm_def)
  then have two: "tick_alarms morning True = (CLOCK_OK, morning)" unfolding tick_alarms_def a by simp
  have "tick_timer morning = (CLOCK_OK, morning)"
    by (simp add: tick_timer_def morning_def night_def evening_def zero_timer_def)
  then show ?thesis unfolding clock_model_tick_def m one
    by (simp add: two) (simp add: valid_wall_def CLOCK_WALL_MIN_def CLOCK_WALL_MAX_def night_def evening_def)
qed

lemma morning_reachable: "clock_reachable morning"
  using reachable_step [OF night_reachable clock_step.tick, of 1709537400 222401000] by (simp add: morning_tick)

subsection \<open>Invariants\<close>

text \<open>
  In every reachable state there are at most eight alarms, with different ids, none of them
  0; their specifications are valid; an enabled alarm waits for an instant that the calendar
  shows as one of its occurrences, and a disabled alarm waits for none.
\<close>

theorem reachable_alarms:
  assumes "clock_reachable m"
  shows "length (cm_alarms m) \<le> 8 \<and> distinct (map al_id (cm_alarms m)) \<and>
    (\<forall>a \<in> set (cm_alarms m). al_id a \<noteq> 0 \<and> valid_spec (al_spec a) \<and>
       (if sp_enabled (al_spec a) then occurs (al_spec a) (al_next_due_utc a) else al_next_due_utc a = 0))"
proof -
  have a: "alarms_inv (cm_next_alarm_id m) (cm_alarms m)"
    using reachable_clock_wf [OF assms] by (simp add: clock_wf_def)
  have "al_id x \<noteq> 0" if "x \<in> set (cm_alarms m)" for x
    using a that by (force simp: alarms_inv_def ids_below_def)
  then show ?thesis using a by (auto simp: alarms_inv_def ids_below_def CLOCK_ALARM_LIMIT_def list_all_iff alarm_wf_def)
qed

theorem reachable_alarms_witness: "length (cm_alarms morning) = 1 \<and> length (cm_alarms morning) \<le> 8"
  using reachable_alarms [OF morning_reachable] by (simp add: morning_def)

text \<open>
  In every reachable state the ringing event and the events that wait form one queue: none
  waits while none rings, the ids ascend in the order in which the events will ring, and no array
  overflows.  Every one of these events stands for an alarm that still exists, with the same
  generation and the same label, or for the timer, which has finished; and there is at most one
  event of the timer.
\<close>

theorem reachable_events:
  assumes "clock_reachable m"
  shows "(ev_kind (cm_active m) = EVENT_NONE \<longrightarrow> cm_queue m = []) \<and> length (cm_queue m) \<le> 8 \<and>
    length (cm_missed m) \<le> 8 \<and> sorted_wrt (<) (map ev_id (pending_events m)) \<and>
    (\<forall>e \<in> set (pending_events m).
       ev_kind e = EVENT_ALARM \<and> (\<exists>a \<in> set (cm_alarms m). al_id a = ev_source_id e \<and>
         al_generation a = ev_generation e \<and> sp_label (al_spec a) = ev_label e) \<or>
       ev_kind e = EVENT_TIMER \<and> ct_state (cm_timer m) = TIMER_FINISHED \<and>
         ev_generation e = ct_generation (cm_timer m)) \<and>
    length (filter (\<lambda>e. ev_kind e = EVENT_TIMER) (pending_events m)) \<le> 1"
proof -
  note w = reachable_clock_wf [OF assms]
  have p: "pending_inv (cm_next_event_id m) (alarm_keys m) (cm_timer m) (pending_events m)" and q: "queue_inv m"
    and n: "missed_inv (cm_missed m) (cm_missed_total m)" using w by (simp_all add: clock_wf_def)
  have "ev_kind e = EVENT_ALARM \<and> (\<exists>a \<in> set (cm_alarms m). al_id a = ev_source_id e \<and>
         al_generation a = ev_generation e \<and> sp_label (al_spec a) = ev_label e) \<or>
       ev_kind e = EVENT_TIMER \<and> ct_state (cm_timer m) = TIMER_FINISHED \<and>
         ev_generation e = ct_generation (cm_timer m)" if "e \<in> set (pending_events m)" for e
  proof -
    have "event_wf (alarm_keys m) (cm_timer m) e" using p that by (simp add: pending_inv_def list_all_iff)
    then show ?thesis by (auto simp: event_wf_def alarm_key_def split: clock_event_kind.splits)
  qed
  then show ?thesis using p q n
    by (auto simp: pending_inv_def queue_inv_def missed_inv_def CLOCK_QUEUE_LIMIT_def CLOCK_MISSED_LIMIT_def)
qed

theorem reachable_events_witness:
  "map ev_id (pending_events morning) = [1] \<and> sorted_wrt (<) (map ev_id (pending_events morning))"
  using reachable_events [OF morning_reachable] by (simp add: morning_def night_def evening_def pending_events_def)

lemma laps_inv_sum:
  "laps_inv p laps t \<Longrightarrow> i < length laps \<Longrightarrow>
   unat (lap_elapsed_ms (laps ! i)) = unat p + sum_list (map (unat \<circ> lap_difference_ms) (take (Suc i) laps)) \<and>
   lap_elapsed_ms (laps ! i) \<le> t"
proof (induction p laps t arbitrary: i rule: laps_inv.induct)
  case (2 p lap laps t)
  have step: "unat (lap_elapsed_ms lap) = unat p + unat (lap_difference_ms lap)"
    using "2.prems"(1) by (simp add: unat_sub word_le_nat_alt)
  have top: "laps_inv q ls t \<Longrightarrow> q \<le> t" for q ls
    by (induction q ls t rule: laps_inv.induct) auto
  show ?case
  proof (cases i)
    case 0
    then show ?thesis using "2.prems"(1) step top [of "lap_elapsed_ms lap" laps] by simp
  next
    case (Suc j)
    then show ?thesis using "2.IH" [of j] "2.prems" step by simp
  qed
qed simp

text \<open>
  The laps of the stopwatch add up: in every reachable state there are at most twenty, the
  time of each is the sum of the differences up to it, without a wrap, and none lies after the
  time the stopwatch shows.
\<close>

theorem reachable_laps:
  assumes "clock_reachable m" "laps = sw_laps (cm_stopwatch m)" "i < length laps"
  shows "length laps \<le> 20 \<and>
    unat (lap_elapsed_ms (laps ! i)) = sum_list (map (unat \<circ> lap_difference_ms) (take (Suc i) laps)) \<and>
    lap_elapsed_ms (laps ! i) \<le> clock_model_stopwatch_elapsed m"
proof -
  have "stopwatch_inv (cm_stopwatch m)" using reachable_clock_wf [OF assms(1)] by (simp add: clock_wf_def)
  then show ?thesis using laps_inv_sum [of 0 laps _ i] assms(2,3)
    by (auto simp: stopwatch_inv_def clock_model_stopwatch_elapsed_def CLOCK_LAP_LIMIT_def)
qed

definition lapped :: clock_model where
  "lapped = evening\<lparr>cm_stopwatch := \<lparr> sw_running = True, sw_elapsed_ms = 0,
     sw_laps = [\<lparr> lap_elapsed_ms = 0, lap_difference_ms = 0 \<rparr>] \<rparr>\<rparr>"

lemma lapped_reachable: "clock_reachable lapped"
proof -
  have "snd (clock_model_stopwatch_lap (snd (clock_model_stopwatch_start evening))) = lapped"
    by (simp add: clock_model_stopwatch_start_def clock_model_stopwatch_lap_def Let_def lapped_def evening_def
        zero_stopwatch_def CLOCK_LAP_LIMIT_def)
  then show ?thesis
    using reachable_step [OF reachable_step [OF evening_reachable clock_step.stopwatch_start] clock_step.stopwatch_lap]
    by simp
qed

theorem reachable_laps_witness:
  "lap_elapsed_ms (sw_laps (cm_stopwatch lapped) ! 0) \<le> clock_model_stopwatch_elapsed lapped"
  using reachable_laps [OF lapped_reachable refl, of 0] by (simp add: lapped_def)

subsection \<open>Operations\<close>

text \<open>
  C3.  A tick with a wall time out of range or with a monotonic time before the last one is
  rejected and changes nothing.  Every other tick takes over both times and, unless the 64-bit
  event ids are used up, leaves nothing due: every enabled alarm waits for a later wall time,
  every snoozed alarm and a running timer for a later monotonic time.
\<close>

theorem tick_leaves_nothing_due:
  assumes "clock_reachable m" "clock_model_tick m wall now = (status, m')"
  shows "if \<not> valid_wall wall then status = CLOCK_INVALID \<and> m' = m
    else if now < cm_monotonic_ms m then status = CLOCK_TIME_BACKWARD \<and> m' = m
    else cm_wall_utc m' = wall \<and> cm_monotonic_ms m' = now \<and>
      (status = CLOCK_EXHAUSTED \<and> cm_next_event_id m' = 0 \<or>
       status = CLOCK_OK \<and>
       (\<forall>a \<in> set (cm_alarms m'). (sp_enabled (al_spec a) \<longrightarrow> wall < al_next_due_utc a) \<and>
          (al_snoozed a \<longrightarrow> now < al_snooze_deadline_ms a)) \<and>
       (ct_state (cm_timer m') = TIMER_RUNNING \<longrightarrow> now < ct_deadline_ms (cm_timer m')))"
proof (cases "valid_wall wall \<and> \<not> now < cm_monotonic_ms m")
  case True
  then have "valid_wall wall" "cm_monotonic_ms m \<le> now" by (auto simp: not_less)
  from clock_tick_cases [OF reachable_clock_wf [OF assms(1)] this assms(2)] True show ?thesis
    by (auto simp: alarms_quiet_def list_all_iff)
qed (use assms(2) in \<open>auto simp: clock_model_tick_def\<close>)

theorem tick_leaves_nothing_due_witness: "cm_wall_utc morning = 1709537400 \<and> cm_next_event_id morning = 2"
  using tick_leaves_nothing_due [OF night_reachable morning_tick]
  by (simp add: valid_wall_def CLOCK_WALL_MIN_def CLOCK_WALL_MAX_def night_def evening_def morning_def)

text \<open>An operation that reports an error has changed nothing.\<close>

definition atomic :: "clock_model \<Rightarrow> clock_status \<times> clock_model \<Rightarrow> bool" where
  "atomic m r \<longleftrightarrow> fst r = CLOCK_OK \<or> snd r = m"

lemma dismiss_atomic: "atomic m (clock_model_dismiss m k)"
  by (simp add: atomic_def clock_model_dismiss_def)

lemma edit_atomic: "atomic m (clock_model_alarm_edit m k spec cancel)"
  by (auto simp: atomic_def clock_model_alarm_edit_def Let_def split: option.split)

lemma snooze_atomic: "atomic m (clock_model_snooze m k requested)"
  by (auto simp: atomic_def clock_model_snooze_def clock_model_dismiss_def Let_def split: option.split)

lemma run_timer_atomic: "atomic m (run_timer m)"
  by (simp add: atomic_def run_timer_def)

lemma restart_atomic: "atomic m (clock_model_timer_restart m)"
  by (auto simp: atomic_def clock_model_timer_restart_def clock_model_timer_stop_def clock_model_timer_set_def
      clock_model_timer_start_def run_timer_def)

text \<open>
  Every operation but the tick is atomic: when it reports anything but success, the model is
  what it was, also where the operation is made of several, as in restarting the timer or
  snoozing.
\<close>

lemma operations_atomic:
  "atomic m (clock_model_set_view m view) \<and> atomic m (clock_model_set_snooze m minutes) \<and>
   atomic m (fst (clock_model_alarm_add m spec), snd (snd (clock_model_alarm_add m spec))) \<and>
   atomic m (clock_model_alarm_edit m k spec cancel) \<and> atomic m (clock_model_alarm_enable m k on cancel) \<and>
   atomic m (clock_model_alarm_delete m k cancel) \<and> atomic m (clock_model_alarm_cancel_snooze m k) \<and>
   atomic m (clock_model_dismiss m event) \<and> atomic m (clock_model_snooze m event minutes) \<and>
   atomic m (clock_model_timer_set m seconds) \<and> atomic m (clock_model_timer_start m) \<and>
   atomic m (clock_model_timer_pause m) \<and> atomic m (clock_model_timer_resume m) \<and>
   atomic m (clock_model_timer_stop m) \<and> atomic m (clock_model_timer_restart m) \<and>
   atomic m (clock_model_stopwatch_start m) \<and> atomic m (clock_model_stopwatch_pause m) \<and>
   atomic m (clock_model_stopwatch_lap m) \<and>
   atomic m (fst (clock_model_world_add m offset), snd (snd (clock_model_world_add m offset))) \<and>
   atomic m (clock_model_world_edit m k offset) \<and> atomic m (clock_model_world_delete m k)"
  by (intro conjI dismiss_atomic edit_atomic snooze_atomic restart_atomic)
    (auto simp: atomic_def clock_model_set_view_def clock_model_set_snooze_def clock_model_alarm_add_def
      clock_model_alarm_enable_def edit_atomic [unfolded atomic_def] clock_model_alarm_delete_def
      clock_model_alarm_cancel_snooze_def clock_model_timer_set_def clock_model_timer_start_def
      run_timer_atomic [unfolded atomic_def] clock_model_timer_pause_def clock_model_timer_resume_def
      clock_model_timer_stop_def clock_model_stopwatch_start_def clock_model_stopwatch_pause_def
      clock_model_stopwatch_lap_def clock_model_world_add_def clock_model_world_edit_def
      clock_model_world_delete_def Let_def split: option.split)

text \<open>
  Dismissing refines the removal of the head of a queue: it succeeds exactly when the given
  id is that of the event at the head and then removes this event alone; with another id or
  without an event it reports so and changes nothing.
\<close>

theorem dismiss_removes_head:
  assumes "clock_reachable m"
  shows "(pending_events m = [] \<longrightarrow> clock_model_dismiss m event = (CLOCK_NO_EVENT, m)) \<and>
    (\<forall>e es. pending_events m = e # es \<longrightarrow>
       (if ev_id e = event
        then fst (clock_model_dismiss m event) = CLOCK_OK \<and> pending_events (snd (clock_model_dismiss m event)) = es
        else clock_model_dismiss m event = (CLOCK_STALE_EVENT, m)))"
proof -
  have q: "queue_inv m" using reachable_clock_wf [OF assms] by (simp add: clock_wf_def)
  show ?thesis
  proof (cases "ev_kind (cm_active m) = EVENT_NONE")
    case True
    then show ?thesis using q by (simp add: pending_events_def queue_inv_def clock_model_dismiss_def)
  next
    case False
    then have "pending_events m = unring (cm_active m) # map unring (cm_queue m)" by (simp add: pending_events_def)
    then show ?thesis using False drop_active_pending(1) [OF q False] by (auto simp: clock_model_dismiss_def)
  qed
qed

theorem dismiss_removes_head_witness: "pending_events (snd (clock_model_dismiss morning 1)) = []"
proof -
  have "map ev_id (pending_events morning) = [1]" by (simp add: morning_def night_def evening_def pending_events_def)
  then show ?thesis using dismiss_removes_head [OF morning_reachable, of 1] by (auto simp: map_eq_Cons_conv)
qed

text \<open>
  Snoozing the alarm that rings works: with the id of the ringing event and at most thirty
  minutes it succeeds unless the monotonic clock has no room, the event is never stale, and the
  alarm then waits for exactly the given number of minutes.
\<close>

theorem snooze_works:
  assumes "clock_reachable m" "ev_kind (cm_active m) = EVENT_ALARM" "1 \<le> minutes" "minutes \<le> 30"
    "unat (cm_monotonic_ms m) + minutes * 60000 < 2 ^ 64"
  shows "\<exists>m' a. clock_model_snooze m (ev_id (cm_active m)) minutes = (CLOCK_OK, m') \<and>
    clock_model_alarm_find m' (ev_source_id (cm_active m)) = Some a \<and> al_snoozed a \<and>
    unat (al_snooze_deadline_ms a) = unat (cm_monotonic_ms m) + minutes * 60000 \<and>
    pending_events m' = tl (pending_events m)"
proof -
  let ?k = "ev_source_id (cm_active m)"
  have w: "clock_wf m" and q: "queue_inv m" and ids: "distinct (map al_id (cm_alarms m))"
    using reachable_clock_wf [OF assms(1)] by (simp_all add: clock_wf_def alarms_inv_def ids_below_def)
  have "unring (cm_active m) \<in> set (pending_events m)" using assms(2) by (simp add: pending_events_def)
  then have "event_wf (alarm_keys m) (cm_timer m) (unring (cm_active m))"
    using w by (auto simp: clock_wf_def pending_inv_def list_all_iff)
  then obtain j where j: "j < length (cm_alarms m)" "al_id (cm_alarms m ! j) = ?k"
      "al_generation (cm_alarms m ! j) = ev_generation (cm_active m)"
    using assms(2) by (auto simp: event_wf_def alarm_key_def in_set_conv_nth)
  then have f: "find_alarm m ?k = Some j" using alarm_table.find_distinct [OF ids j(1)] by (simp add: find_alarm_def)
  let ?a = "(cm_alarms m ! j)\<lparr>al_snoozed := True, al_snooze_deadline_ms := cm_monotonic_ms m + of_nat minutes * 60000\<rparr>"
  let ?m = "m\<lparr>cm_alarms := (cm_alarms m)[j := ?a]\<rparr>"
  note ms = snooze_ms [OF assms(4)]
  have room: "\<not> of_nat minutes * 60000 > UINT64_MAX - cm_monotonic_ms m" unfolding u64_room(2) ms using assms(5) by simp
  have k: "ev_kind (cm_active ?m) \<noteq> EVENT_NONE" and q': "queue_inv ?m" using assms(2) q by simp_all
  have ids': "distinct (map al_id (cm_alarms ?m))"
    using alarm_table.keys_update [OF find_alarm_nth(1) [OF f], of ?a] ids j(2) by simp
  have "find_index (al_id (cm_alarms ?m ! j)) (cm_alarms ?m) 0 = Some j"
    by (rule alarm_table.find_distinct [OF ids']) (simp add: j(1))
  then have found: "find_index ?k ((cm_alarms m)[j := ?a]) 0 = Some j" using j by simp
  have "clock_model_snooze m (ev_id (cm_active m)) minutes = clock_model_dismiss ?m (ev_id (cm_active m))"
    using assms(2,3,4) f j(3) room by (simp add: clock_model_snooze_def)
  also have "\<dots> = (CLOCK_OK, promote_event (?m\<lparr>cm_active := zero_event\<rparr>))"
    using assms(2) by (simp add: clock_model_dismiss_def)
  finally have s: "clock_model_snooze m (ev_id (cm_active m)) minutes = (CLOCK_OK, promote_event (?m\<lparr>cm_active := zero_event\<rparr>))" .
  have "clock_model_alarm_find (promote_event (?m\<lparr>cm_active := zero_event\<rparr>)) ?k = Some ?a"
    using found j(1) by (simp add: clock_model_alarm_find_def find_alarm_def)
  moreover have "unat (al_snooze_deadline_ms ?a) = unat (cm_monotonic_ms m) + minutes * 60000"
    using assms(5) ms by (simp add: u64_add)
  moreover have "pending_events (promote_event (?m\<lparr>cm_active := zero_event\<rparr>)) = tl (pending_events m)"
    using drop_active_pending(1) [OF q' k] by simp
  ultimately show ?thesis using s by auto
qed

theorem snooze_works_witness: "\<exists>m'. clock_model_snooze morning 1 5 = (CLOCK_OK, m')"
  using snooze_works [OF morning_reachable, of 5] by (auto simp: morning_def)

text \<open>
  Editing or deleting an alarm takes back everything it still has to say: afterwards neither
  the ringing event nor one that waits stands for this alarm, while the events of all others are
  left in their order.
\<close>

theorem edit_cancels_events:
  assumes "clock_reachable m"
    "clock_model_alarm_edit m k spec cancel = (CLOCK_OK, m') \<or> clock_model_alarm_delete m k cancel = (CLOCK_OK, m')"
  shows "pending_events m' = filter (\<lambda>e. \<not> (ev_kind e = EVENT_ALARM \<and> ev_source_id e = k)) (pending_events m)"
proof -
  have q: "queue_inv m" using reachable_clock_wf [OF assms(1)] by (simp add: clock_wf_def)
  have c: "queue_inv m1 \<Longrightarrow> pending_events m1 = pending_events m \<Longrightarrow> pending_events (cancel_events m1 EVENT_ALARM k) =
      filter (\<lambda>e. \<not> (ev_kind e = EVENT_ALARM \<and> ev_source_id e = k)) (pending_events m)" for m1
    using cancel_pending(1) [of m1 EVENT_ALARM k] by simp
  from assms(2) show ?thesis
  proof
    assume "clock_model_alarm_edit m k spec cancel = (CLOCK_OK, m')"
    then show ?thesis using q
      by (auto simp: clock_model_alarm_edit_def Let_def simp del: de_Morgan_conj
          split: if_split_asm option.split_asm intro!: c)
  next
    assume "clock_model_alarm_delete m k cancel = (CLOCK_OK, m')"
    then show ?thesis using c [OF q refl]
      by (auto simp: clock_model_alarm_delete_def Let_def split: if_split_asm option.split_asm)
  qed
qed

theorem edit_cancels_events_witness: "pending_events (snd (clock_model_alarm_delete morning 1 True)) = []"
proof -
  have "find_alarm morning 1 = Some 0" by (simp add: find_alarm_def morning_def rung_alarm_def set_alarm_def)
  then obtain m' where d: "clock_model_alarm_delete morning 1 True = (CLOCK_OK, m')"
    by (simp add: clock_model_alarm_delete_def Let_def)
  then have "pending_events m' = filter (\<lambda>e. \<not> (ev_kind e = EVENT_ALARM \<and> ev_source_id e = 1)) (pending_events morning)"
    using edit_cancels_events [OF morning_reachable, of 1] by blast
  then show ?thesis by (simp add: d) (simp add: morning_def night_def evening_def pending_events_def)
qed

text \<open>
  A paused timer keeps its time: pausing a timer, letting time pass and resuming it leaves
  exactly the time that remained when it was paused, and it runs again.
\<close>

theorem pause_keeps_remaining:
  assumes "clock_reachable m" "clock_model_timer_pause m = (CLOCK_OK, m1)"
    "clock_model_tick m1 wall now = (CLOCK_OK, m2)" "clock_model_timer_resume m2 = (CLOCK_OK, m3)"
  shows "clock_model_timer_remaining m3 = clock_model_timer_remaining m \<and> ct_state (cm_timer m3) = TIMER_RUNNING"
proof -
  have m1: "cm_timer m1 = (cm_timer m)\<lparr>ct_remaining_ms := clock_model_timer_remaining m, ct_deadline_ms := 0,
      ct_state := TIMER_PAUSED\<rparr>"
    using assms(2) by (auto simp: clock_model_timer_pause_def split: if_split_asm)
  have "clock_reachable m1" using reachable_step [OF assms(1) clock_step.timer_pause] assms(2) by simp
  moreover have "valid_wall wall" "cm_monotonic_ms m1 \<le> now"
    using assms(3) by (auto simp: clock_model_tick_def not_less split: if_split_asm)
  ultimately have "clock_wf m2" "ct_state (cm_timer m2) = TIMER_PAUSED \<longrightarrow> cm_timer m2 = cm_timer m1"
    using clock_tick_cases [OF reachable_clock_wf _ _ assms(3)] by auto
  moreover have p: "ct_state (cm_timer m2) = TIMER_PAUSED"
    using assms(4) by (simp add: clock_model_timer_resume_def split: if_split_asm)
  ultimately have t: "cm_timer m2 = cm_timer m1" by simp
  then have r: "ct_remaining_ms (cm_timer m2) = clock_model_timer_remaining m" using m1 by simp
  have room: "\<not> ct_remaining_ms (cm_timer m2) > UINT64_MAX - cm_monotonic_ms m2"
    and m3: "m3 = m2\<lparr>cm_timer := (cm_timer m2)\<lparr>ct_deadline_ms := cm_monotonic_ms m2 + ct_remaining_ms (cm_timer m2),
      ct_state := TIMER_RUNNING\<rparr>\<rparr>"
    using assms(4) p by (auto simp: clock_model_timer_resume_def run_timer_def split: if_split_asm)
  have "unat (cm_monotonic_ms m2 + ct_remaining_ms (cm_timer m2)) = unat (cm_monotonic_ms m2) + unat (ct_remaining_ms (cm_timer m2))"
    using room unfolding u64_room(2) by (intro u64_add) simp
  then have "cm_monotonic_ms m2 + ct_remaining_ms (cm_timer m2) > cm_monotonic_ms m2 \<or> ct_remaining_ms (cm_timer m2) = 0"
    by (auto simp: word_less_nat_alt unat_gt_0)
  then show ?thesis using r by (auto simp: m3 clock_model_timer_remaining_def)
qed

definition boiling :: clock_model where
  "boiling = evening\<lparr>cm_timer := \<lparr> ct_state = TIMER_RUNNING, ct_generation = 2, ct_duration_seconds = 10,
     ct_remaining_ms = 10000, ct_deadline_ms = 11000 \<rparr>\<rparr>"

lemma boiling_reachable: "clock_reachable boiling"
proof -
  have "snd (clock_model_timer_start (snd (clock_model_timer_set evening 10))) = boiling"
    by (simp add: clock_model_timer_set_def clock_model_timer_start_def run_timer_def cancel_events_def boiling_def
        evening_def zero_event_def zero_timer_def CLOCK_TIMER_MAX_SECONDS_def)
  then show ?thesis
    using reachable_step [OF reachable_step [OF evening_reachable clock_step.timer_set [of _ 10]] clock_step.timer_start]
    by simp
qed

definition paused :: clock_model where
  "paused = boiling\<lparr>cm_timer := (cm_timer boiling)\<lparr>ct_deadline_ms := 0, ct_state := TIMER_PAUSED\<rparr>\<rparr>"

lemma boiling_pause: "clock_model_timer_pause boiling = (CLOCK_OK, paused)"
  by (simp add: clock_model_timer_pause_def clock_model_timer_remaining_def boiling_def paused_def evening_def)

lemma paused_tick: "clock_model_tick paused 1709316060 61000 = (CLOCK_OK, paused\<lparr>cm_wall_utc := 1709316060, cm_monotonic_ms := 61000\<rparr>)"
  by (simp add: clock_model_tick_def tick_clocks_def tick_ring_def tick_alarms_def tick_timer_def paused_def boiling_def
      evening_def zero_stopwatch_def valid_wall_def CLOCK_WALL_MIN_def CLOCK_WALL_MAX_def)

theorem pause_keeps_remaining_witness:
  "clock_model_timer_remaining
     (snd (clock_model_timer_resume (paused\<lparr>cm_wall_utc := 1709316060, cm_monotonic_ms := 61000\<rparr>))) = 10000"
proof -
  obtain m3 where r: "clock_model_timer_resume (paused\<lparr>cm_wall_utc := 1709316060, cm_monotonic_ms := 61000\<rparr>) = (CLOCK_OK, m3)"
    by (simp add: clock_model_timer_resume_def run_timer_def paused_def boiling_def)
  have "clock_model_timer_remaining m3 = clock_model_timer_remaining boiling"
    using pause_keeps_remaining [OF boiling_reachable boiling_pause paused_tick r] by simp
  then show ?thesis unfolding r by (simp add: clock_model_timer_remaining_def boiling_def evening_def)
qed

end
