(* ===== verification/Clock_Storage.thy ===== *)
theory Clock_Storage
  imports Clock_Wire Clock_Properties
begin

section \<open>What is read from a message or from the storage is well formed\<close>

text \<open>
  The readers of \<^verbatim>\<open>clock-wire.c\<close> for an arbitrary JSON library: whatever it makes of the bytes,
  the preferences that are accepted give a model that satisfies the invariant of the clock, and a
  request is one of the operations of the model.
\<close>

subsection \<open>Readers\<close>

lemma require_Some [simp]: "require b = Some u \<longleftrightarrow> b"
  by (simp add: require_def)

lemma require_True [simp]: "require True = Some ()"
  by (simp add: require_def)

lemma require_False [simp]: "require False = None"
  by (simp add: require_def)

lemma unsigned_value_le: "unsigned_value J object name maximum = Some v \<Longrightarrow> unat v \<le> unat maximum"
  by (auto simp: unsigned_value_def bind_eq_Some_conv word_le_nat_alt)

lemma signed_value_between:
  "signed_value J object name minimum maximum = Some v \<Longrightarrow> minimum \<le> v \<and> v \<le> maximum"
  by (auto simp: signed_value_def bind_eq_Some_conv)

lemma wall_value_valid:
  "wall_value J object name CLOCK_WALL_MAX allow_zero = Some v \<Longrightarrow> valid_wall v \<or> allow_zero \<and> v = 0"
  by (auto simp: wall_value_def bind_eq_Some_conv valid_wall_def dest!: signed_value_between)

lemma encode_no_nul: "0 \<in> set (fplinux_text_input_encode_utf8 c) \<Longrightarrow> unat c < 0x80 \<and> ucast c = (0 :: u8)"
proof -
  assume z: "0 \<in> set (fplinux_text_input_encode_utf8 c)"
  then have s: "is_scalar c" by (auto simp: fplinux_text_input_encode_utf8_def is_scalar_def split: if_split_asm)
  have o: "ucast (0x80 OR (x AND 0x3f) :: u32) \<noteq> (0 :: u8)" for x
    using encode_byte(1) [of x] by auto
  have l: "unat x < 32 \<Longrightarrow> ucast (0xc0 OR x :: u32) \<noteq> (0 :: u8)"
    "unat x < 16 \<Longrightarrow> ucast (0xe0 OR x :: u32) \<noteq> (0 :: u8)"
    "unat x < 8 \<Longrightarrow> ucast (0xf0 OR x :: u32) \<noteq> (0 :: u8)" for x
    using encode_byte(2,3,4) [of x] by auto
  have u: "unat c \<le> 0x10ffff" using s by (simp add: is_scalar_unat)
  consider "unat c < 0x80" | "0x80 \<le> unat c" "unat c < 0x800" | "0x800 \<le> unat c" "unat c < 0x10000"
    | "0x10000 \<le> unat c" by linarith
  then show ?thesis
  proof cases
    case 1
    then show ?thesis using z by (simp add: encode_unat)
  next
    case 2
    then have "unat (drop_bit 6 c) < 32" by (simp add: unat_drop_bit)
    then show ?thesis using z o l(1) [of "drop_bit 6 c"] by (auto simp: encode_unat(2) [OF 2])
  next
    case 3
    then have "unat (drop_bit 12 c) < 16" by (simp add: unat_drop_bit)
    then show ?thesis using z o l(2) [of "drop_bit 12 c"] by (auto simp: encode_unat(3) [OF 3 s])
  next
    case 4
    then have "unat (drop_bit 18 c) < 8" using u by (simp add: unat_drop_bit)
    then show ?thesis using z o l(3) [of "drop_bit 18 c"] by (auto simp: encode_unat(4) [OF 4 s])
  qed
qed

lemma check_text_no_nul: "check_text bs n \<Longrightarrow> 0 \<notin> set bs"
proof (induction bs n rule: check_text.induct)
  case (1 cursor characters)
  show ?case
  proof (cases "cursor = []")
    case False
    with "1.prems" obtain c rest where next': "fplinux_utf8_next cursor = Some (c, rest)"
      and c: "\<not> c < 0x20" "check_text rest (characters + 1)" and n: "\<not> characters + 1 > CLOCK_TEXT_CHARACTERS"
      and d: "\<not> (c < 0x20 \<or> c \<ge> 0x7f \<and> c \<le> 0x9f)"
      by (auto simp: check_text.simps [of cursor] split: option.split_asm if_split_asm prod.split_asm)
    have "0 \<notin> set rest" using "1.IH" [OF False next' refl d n c(2)] .
    moreover have "0 \<notin> set (fplinux_text_input_encode_utf8 c)"
    proof
      assume "0 \<in> set (fplinux_text_input_encode_utf8 c)"
      then have "unat c < 0x80" "ucast c = (0 :: u8)" using encode_no_nul by blast+
      then have "unat c = 0" using unat_ucast_u32 [of c] by simp
      with c(1) show False by (simp add: word_less_nat_alt)
    qed
    ultimately show ?thesis using encode_decode [OF next'] by simp
  qed simp
qed

lemma validate_text_string:
  assumes "clock_model_validate_text bs allow = CLOCK_OK"
  shows "validate_string bs allow = CLOCK_OK" "takeWhile (\<lambda>b. b \<noteq> 0) bs = bs" "length bs \<le> CLOCK_TEXT_BYTES"
proof -
  have c: "length bs \<le> CLOCK_TEXT_BYTES" "check_text bs 0"
    using assms by (auto simp: clock_model_validate_text_def split: if_split_asm)
  then have "\<forall>b \<in> set bs. b \<noteq> 0" using check_text_no_nul by fastforce
  then show t: "takeWhile (\<lambda>b. b \<noteq> 0) bs = bs" by (simp add: takeWhile_eq_all_conv)
  have k: "take (CLOCK_TEXT_BYTES + 1) bs = bs" using c by simp
  show "validate_string bs allow = CLOCK_OK" unfolding validate_string_def k t by (rule assms)
  show "length bs \<le> CLOCK_TEXT_BYTES" by fact
qed

lemma text_value_valid: "text_value J object name allow = Some bs \<Longrightarrow> clock_model_validate_text bs allow = CLOCK_OK"
  by (auto simp: text_value_def bind_eq_Some_conv)

lemma read_alarm_spec_valid:
  assumes "read_alarm_spec J object = Some spec"
  shows "valid_spec spec"
  using assms
  by (auto simp: read_alarm_spec_def bind_eq_Some_conv valid_spec_def valid_wall_def schedule_of_def unat_gt_0
      dest!: text_value_valid validate_text_string(1) signed_value_between unsigned_value_le split: if_split_asm)

lemma offset_value_valid: "offset_value J object = Some v \<Longrightarrow> clock_model_world_offset_valid v"
  by (auto simp: offset_value_def bind_eq_Some_conv)

text \<open>Reading an array keeps what holds of each element and what the comparison ensures.\<close>

lemma read_items_inv:
  assumes "read_items rd ok items previous = Some xs" "P previous"
    and "\<And>previous x item. rd x = Some item \<Longrightarrow> ok previous item \<Longrightarrow> P previous \<Longrightarrow> P (previous @ [item])"
  shows "P xs" "length xs = length previous + length items"
  using assms by (induction items arbitrary: previous) (auto simp: bind_eq_Some_conv)

subsection \<open>Preferences\<close>

lemma unat_narrow: "unat (v :: u64) \<le> unat (0xffffffff :: u64) \<Longrightarrow> unat (ucast v :: u32) = unat v"
  by (simp add: unsigned_ucast_eq take_bit_nat_eq_self_iff)

lemma narrow_0: "unat (v :: u64) \<le> unat (0xffffffff :: u64) \<Longrightarrow> (ucast v :: u32) = 0 \<longleftrightarrow> v = 0"
  using unat_narrow [of v] by (metis unat_eq_zero unsigned_0)

lemma narrow_less:
  assumes "unat (v :: u64) \<le> unat (0xffffffff :: u64)" "unat (w :: u64) \<le> unat (0xffffffff :: u64)"
  shows "(ucast v :: u32) < ucast w \<longleftrightarrow> v < w"
  using assms by (simp add: word_less_nat_alt unat_narrow)

definition restored_alarm :: "int \<Rightarrow> u32 \<Rightarrow> clock_alarm \<Rightarrow> bool" where
  "restored_alarm wall next a \<longleftrightarrow> alarm_wf a \<and> al_id a \<noteq> 0 \<and> (next \<noteq> 0 \<longrightarrow> al_id a < next) \<and> \<not> al_snoozed a \<and>
     (sp_enabled (al_spec a) \<longrightarrow> wall < al_next_due_utc a)"

lemma schedule_stored_wf:
  assumes "valid_spec (al_spec a)" "al_last_due_utc a = 0 \<or> valid_wall (al_last_due_utc a)" "al_next_due_utc a = 0"
    "\<not> al_snoozed a" "al_snooze_deadline_ms a = 0"
  shows "alarm_wf (schedule_stored wall a)" "\<not> al_snoozed (schedule_stored wall a)"
    "al_id (schedule_stored wall a) = al_id a"
    "sp_enabled (al_spec (schedule_stored wall a)) \<longrightarrow> wall < al_next_due_utc (schedule_stored wall a)"
  using assms next_due_Some [of "al_spec a" "if wall > al_last_due_utc a then wall else al_last_due_utc a"]
  by (auto simp: schedule_stored_def alarm_wf_def split: option.split if_split_asm)

lemma read_stored_alarm_wf:
  assumes "read_stored_alarm J wall n object = Some a" "unat n \<le> unat (0xffffffff :: u64)"
  shows "restored_alarm wall (ucast n) a"
proof -
  from assms(1) obtain i g spec l where "unsigned_value J object ''id'' 0xffffffff = Some i"
    and i: "i \<noteq> 0" "n \<noteq> 0 \<longrightarrow> i < n"
    and "read_alarm_spec J (object_member J object ''spec'' json_type_object) = Some spec"
    and "wall_value J object ''last_due_utc'' CLOCK_WALL_MAX True = Some l"
    and a: "a = schedule_stored wall \<lparr> al_id = ucast i, al_generation = g, al_spec = spec, al_next_due_utc = 0,
         al_last_due_utc = l, al_snoozed = False, al_snooze_deadline_ms = 0 \<rparr>"
    by (auto simp: read_stored_alarm_def bind_eq_Some_conv not_le)
  then have "unat i \<le> unat (0xffffffff :: u64)" "valid_spec spec" "l = 0 \<or> valid_wall l"
    by (auto dest: unsigned_value_le read_alarm_spec_valid wall_value_valid)
  with i assms(2) show ?thesis
    unfolding a restored_alarm_def by (auto simp: schedule_stored_wf narrow_0 narrow_less)
qed

definition restored_world :: "u32 \<Rightarrow> clock_world_entry \<Rightarrow> bool" where
  "restored_world next w \<longleftrightarrow> we_id w \<noteq> 0 \<and> (next \<noteq> 0 \<longrightarrow> we_id w < next) \<and>
     clock_model_world_offset_valid (we_offset_minutes w)"

lemma read_stored_world_wf:
  assumes "read_stored_world J n object = Some w" "unat n \<le> unat (0xffffffff :: u64)"
  shows "restored_world (ucast n) w"
proof -
  from assms(1) obtain i offset where i: "unsigned_value J object ''id'' 0xffffffff = Some i" "i \<noteq> 0"
    and o: "offset_value J object = Some offset" and n: "n \<noteq> 0 \<longrightarrow> ucast (ucast i :: u32) < n"
    and w: "w = \<lparr> we_id = ucast i, we_offset_minutes = offset \<rparr>"
    by (auto simp: read_stored_world_def read_world_def bind_eq_Some_conv not_le)
  have b: "unat i \<le> unat (0xffffffff :: u64)" using i(1) by (rule unsigned_value_le)
  then have "unat (ucast (ucast i :: u32) :: u64) = unat i"
    by (simp add: unsigned_ucast_eq unsigned_take_bit_eq take_bit_nat_eq_self_iff)
  then have "n \<noteq> 0 \<longrightarrow> i < n" using n by (simp add: word_less_nat_alt)
  then show ?thesis using b i(2) offset_value_valid [OF o] assms(2)
    by (auto simp: w restored_world_def narrow_0 narrow_less)
qed

lemma read_stored_alarms:
  assumes "read_items (read_stored_alarm J wall n) new_alarm_id items [] = Some alarms"
    "unat n \<le> unat (0xffffffff :: u64)"
  shows "list_all (restored_alarm wall (ucast n)) alarms \<and> distinct (map al_id alarms)"
  by (rule read_items_inv(1) [OF assms(1)])
    (auto simp: new_alarm_id_def list_all_iff dest: read_stored_alarm_wf [OF _ assms(2)])

lemma read_stored_worlds:
  assumes "read_items (read_stored_world J n) new_world_entry items [] = Some world"
    "unat n \<le> unat (0xffffffff :: u64)"
  shows "list_all (restored_world (ucast n)) world \<and> distinct (map we_id world) \<and> distinct (map we_offset_minutes world)"
  by (rule read_items_inv(1) [OF assms(1)])
    (auto simp: new_world_entry_def list_all_iff dest: read_stored_world_wf [OF _ assms(2)])

lemma array_value_length: "array_value J object name maximum = Some items \<Longrightarrow> length items \<le> maximum"
  by (auto simp: array_value_def bind_eq_Some_conv)

lemma restored_alarms_inv:
  assumes "list_all (restored_alarm wall n) alarms" "distinct (map al_id alarms)" "length alarms \<le> CLOCK_ALARM_LIMIT"
  shows "alarms_inv n alarms"
  using assms by (auto simp: alarms_inv_def ids_below_def restored_alarm_def list_all_iff)

lemma restored_world_inv:
  assumes "list_all (restored_world n) world" "distinct (map we_id world)" "distinct (map we_offset_minutes world)"
    "length world \<le> CLOCK_WORLD_LIMIT"
  shows "world_inv n world"
  using assms by (auto simp: world_inv_def ids_below_def restored_world_def list_all_iff)

lemma read_preferences_inv:
  assumes "clock_model_init wall now = Some m0" "read_preferences J object m0 = Some m"
  shows "clock_inv m"
proof -
  have i: "clock_inv m0" and w: "cm_wall_utc m0 = wall" using clock_init_inv [OF assms(1)] assms(1)
    by (auto simp: clock_model_init_def split: if_split_asm)
  from assms(2) obtain view snooze lh lm d na nw ai wi alarms world where
    v: "unsigned_value J object ''snooze_minutes'' 30 = Some snooze" "snooze \<noteq> 0"
      "unsigned_value J object ''last_alarm_hour'' 23 = Some lh" "unsigned_value J object ''last_alarm_minute'' 59 = Some lm"
      "unsigned_value J object ''timer_duration_seconds'' (of_nat CLOCK_TIMER_MAX_SECONDS) = Some d"
      "unsigned_value J object ''next_alarm_id'' 0xffffffff = Some na"
      "unsigned_value J object ''next_world_id'' 0xffffffff = Some nw"
      "array_value J object ''alarms'' CLOCK_ALARM_LIMIT = Some ai" "array_value J object ''world'' CLOCK_WORLD_LIMIT = Some wi"
    and r: "read_items (read_stored_alarm J wall na) new_alarm_id ai [] = Some alarms"
      "read_items (read_stored_world J nw) new_world_entry wi [] = Some world"
    and m: "m = m0\<lparr>cm_view := view, cm_snooze_minutes := unat snooze, cm_last_alarm_hour := unat lh,
         cm_last_alarm_minute := unat lm,
         cm_timer := (cm_timer m0)\<lparr>ct_duration_seconds := unat d, ct_remaining_ms := d * 1000\<rparr>,
         cm_next_alarm_id := ucast na, cm_next_world_id := ucast nw, cm_alarms := alarms, cm_world := world\<rparr>"
    by (auto simp: read_preferences_def bind_eq_Some_conv w)
  have b: "unat snooze \<le> 30" "unat lh \<le> 23" "unat lm \<le> 59" "unat d \<le> CLOCK_TIMER_MAX_SECONDS"
    "unat na \<le> unat (0xffffffff :: u64)" "unat nw \<le> unat (0xffffffff :: u64)"
    using v(1,3-7) [THEN unsigned_value_le] by (simp_all add: CLOCK_TIMER_MAX_SECONDS_def)
  have a: "list_all (restored_alarm wall (ucast na)) alarms" "distinct (map al_id alarms)"
    using read_stored_alarms [OF r(1) b(5)] by auto
  have l: "length alarms \<le> CLOCK_ALARM_LIMIT" "length world \<le> CLOCK_WORLD_LIMIT"
    using array_value_length [OF v(8)] array_value_length [OF v(9)] read_items_inv(2) [OF r(1), of "\<lambda>_. True"]
      read_items_inv(2) [OF r(2), of "\<lambda>_. True"] by simp_all
  have ai: "alarms_inv (ucast na) alarms" using restored_alarms_inv [OF a l(1)] .
  have wi: "world_inv (ucast nw) world" using restored_world_inv read_stored_worlds [OF r(2) b(6)] l(2) by blast
  have ti: "unat (d * 1000) = unat d * 1000" using b(4) timer_ms [of "unat d"] by simp
  have q: "list_all (\<lambda>a. (sp_enabled (al_spec a) \<longrightarrow> wall < al_next_due_utc a) \<and> \<not> al_snoozed a) alarms"
    using a(1) by (auto simp: list_all_iff restored_alarm_def)
  have t: "ct_state (cm_timer m0) = TIMER_STOPPED" "pending_events m0 = []" "cm_queue m0 = []" "ev_kind (cm_active m0) = EVENT_NONE"
    using assms(1) by (auto simp: clock_model_init_def zero_timer_def pending_events_def zero_event_def split: if_split_asm)
  have p: "pending_events m = []" unfolding m using t by (simp add: pending_events_def)
  have s: "1 \<le> unat snooze" using v(2) by (simp add: Suc_le_eq unat_gt_0)
  show ?thesis
    using i s b(1-4) ai wi ti q t p w
    by (auto simp: inv_defs m timer_inv_def queue_inv_def list_all_iff)
qed

lemma preferences_decode_inv:
  "clock_inv m \<Longrightarrow> clock_inv (snd (clock_wire_preferences_decode J json m))"
  by (auto simp: clock_wire_preferences_decode_def split: option.split intro: read_preferences_inv)

subsection \<open>Requests\<close>

text \<open>A checked request is a step of the model or leaves it as it is.\<close>

lemma apply_checked_step: "clock_step\<^sup>=\<^sup>= m (snd (apply_checked m request))"
proof -
  note steps = clock_step.intros [of m]
  have "snd (case x of (status, ident, model) \<Rightarrow> (status, model)) = snd (snd x)" for x :: "clock_status \<times> u32 option \<times> clock_model"
    by (simp split: prod.split)
  then show ?thesis
    by (cases "rq_op request") (simp_all add: apply_checked_def steps)
qed

lemma request_apply_step: "clock_step\<^sup>=\<^sup>= m (snd (clock_wire_request_apply J m request))"
  using apply_checked_step [of m] by (auto simp: clock_wire_request_apply_def split: option.split)

lemma request_apply_inv: "clock_inv m \<Longrightarrow> clock_inv (snd (clock_wire_request_apply J m request))"
  using request_apply_step [of m J request] clock_step_inv by auto

subsection \<open>The daemon\<close>

text \<open>
  What the daemon does to its model: it ticks, it applies the requests of its clients and it takes
  over stored preferences.
\<close>

inductive daemon_step :: "'j json_library \<Rightarrow> clock_model \<Rightarrow> clock_model \<Rightarrow> bool" for J where
  daemon_tick: "daemon_step J m (snd (clock_model_tick m wall now))"
| daemon_request: "daemon_step J m (snd (clock_wire_request_apply J m request))"
| daemon_restore: "daemon_step J m (snd (clock_wire_preferences_decode J json m))"

lemma daemon_step_inv: "daemon_step J m m' \<Longrightarrow> clock_inv m \<Longrightarrow> clock_inv m'"
  by (induction rule: daemon_step.induct) (simp_all add: clock_tick_inv request_apply_inv preferences_decode_inv)

interpretation daemon: transition_system clock_initial "daemon_step J" clock_inv for J
  by unfold_locales (auto simp: clock_initial_def clock_init_inv daemon_step_inv)

definition daemon_reachable :: "'j json_library \<Rightarrow> clock_model \<Rightarrow> bool" where
  "daemon_reachable J m \<longleftrightarrow> (\<exists>m0. clock_initial m0 \<and> (daemon_step J)\<^sup>*\<^sup>* m0 m)"

lemma daemon_reachable_inv: "daemon_reachable J m \<Longrightarrow> clock_inv m"
  using daemon.reachable by (auto simp: daemon_reachable_def)

subsection \<open>The lexical check ends\<close>

text \<open>No scan returns more bytes than it was given, so the fuel of the two loops is enough.\<close>

lemma skip_space_length: "length (skip_space bs) \<le> length bs"
  by (simp add: skip_space_def length_dropWhile_le)

lemma scan_characters_shorter: "scan_characters bs = Some rest \<Longrightarrow> length rest < length bs"
proof (induction bs rule: scan_characters.induct)
  case (2 byte rest)
  then show ?case by (fastforce split: if_split_asm list.split_asm option.split_asm)
qed simp

lemma scan_string_shorter: "scan_string bs = Some (token, rest) \<Longrightarrow> length rest < length bs"
  by (auto simp: scan_string_def dest: scan_characters_shorter split: list.split_asm if_split_asm option.split_asm)

definition scan_shrinks :: "('j option \<Rightarrow> bytes \<Rightarrow> bytes option) \<Rightarrow> bool" where
  "scan_shrinks scan \<longleftrightarrow> (\<forall>v bs rest. scan v bs = Some rest \<longrightarrow> length rest \<le> length bs)"

lemma scan_members_shrinks:
  "scan_members J ob scan n e bs = Some (e', rest) \<Longrightarrow> scan_shrinks scan \<Longrightarrow> length rest \<le> length bs"
proof (induction n arbitrary: e bs)
  case (Suc n)
  show ?case
  proof (cases "bs = [] \<or> hd bs = 0x7d")
    case False
    with Suc.prems(1) obtain token b1 v b2 where s: "scan_string bs = Some (token, b1)"
      "scan v (tl (skip_space b1)) = Some b2"
      and r: "skip_space b2 = rest \<or> scan_members J ob scan n (e + 1) (skip_space (tl (skip_space b2))) = Some (e', rest)"
      by (auto simp: bind_eq_Some_conv Let_def split: if_split_asm)
    have "length b2 \<le> length bs" using scan_string_shorter [OF s(1)] skip_space_length [of b1] Suc.prems(2) s(2)
      by (force simp: scan_shrinks_def)
    moreover have "length (skip_space (tl (skip_space b2))) \<le> length b2"
      using skip_space_length [of "tl (skip_space b2)"] skip_space_length [of b2] by simp
    ultimately show ?thesis using r Suc.IH [OF _ Suc.prems(2)] skip_space_length [of b2] by (meson le_trans)
  qed (use Suc.prems in auto)
qed simp

lemma scan_elements_shrinks:
  "scan_elements J ob scan n e bs = Some (e', rest) \<Longrightarrow> scan_shrinks scan \<Longrightarrow> length rest \<le> length bs"
proof (induction n arbitrary: e bs)
  case (Suc n)
  show ?case
  proof (cases "bs = [] \<or> hd bs = 0x5d")
    case False
    with Suc.prems(1) obtain v b2 where s: "scan v bs = Some b2"
      and r: "skip_space b2 = rest \<or> scan_elements J ob scan n (e + 1) (skip_space (tl (skip_space b2))) = Some (e', rest)"
      by (auto simp: bind_eq_Some_conv Let_def split: if_split_asm)
    have "length b2 \<le> length bs" using Suc.prems(2) s by (auto simp: scan_shrinks_def)
    moreover have "length (skip_space (tl (skip_space b2))) \<le> length b2"
      using skip_space_length [of "tl (skip_space b2)"] skip_space_length [of b2] by simp
    ultimately show ?thesis using r Suc.IH [OF _ Suc.prems(2)] skip_space_length [of b2] by (meson le_trans)
  qed (use Suc.prems in auto)
qed simp

lemma scan_tree_shrinks: "scan_shrinks (scan_tree levels J)"
proof (induction levels)
  case (Suc levels)
  show ?case unfolding scan_shrinks_def
  proof (intro allI impI)
    fix v bs rest assume a: "scan_tree (Suc levels) J v bs = Some rest"
    let ?b = "skip_space bs"
    consider (ob) ob e b n where "scan_members J ob (scan_tree levels J) n 0 (skip_space (tl ?b)) = Some (e, b)" "rest = tl b"
      | (arr) ob e b n where "scan_elements J ob (scan_tree levels J) n 0 (skip_space (tl ?b)) = Some (e, b)" "rest = tl b"
      | (str) t where "scan_string ?b = Some (t, rest)" | (scalar) "scan_scalar J v ?b = Some rest"
      using a by (auto simp: Let_def bind_eq_Some_conv split: if_split_asm)
    then have "length rest \<le> length ?b"
    proof cases
      case ob
      then show ?thesis using scan_members_shrinks [OF ob(1) Suc.IH] skip_space_length [of "tl ?b"] by simp
    next
      case arr
      then show ?thesis using scan_elements_shrinks [OF arr(1) Suc.IH] skip_space_length [of "tl ?b"] by simp
    next
      case str
      then show ?thesis using scan_string_shorter [OF str] by simp
    next
      case scalar
      then show ?thesis by (auto simp: scan_scalar_def Let_def length_dropWhile_le split: option.split_asm if_split_asm)
    qed
    then show "length rest \<le> length bs" using skip_space_length [of bs] by simp
  qed
qed (simp add: scan_shrinks_def)

lemma scan_members_fuel:
  "scan_shrinks scan \<Longrightarrow> length bs < n \<Longrightarrow> scan_members J ob scan (Suc n) e bs = scan_members J ob scan n e bs"
proof (induction n arbitrary: e bs)
  case (Suc n)
  have "scan_members J ob scan (Suc n) (e + 1) (skip_space (tl b3)) = scan_members J ob scan n (e + 1) (skip_space (tl b3))"
    if "scan_string bs = Some (token, b1)" "scan v (tl (skip_space b1)) = Some b2" "b3 = skip_space b2" for token b1 v b2 b3
  proof (rule Suc.IH [OF Suc.prems(1)])
    have "length b2 \<le> length (tl (skip_space b1))" using Suc.prems(1) that(2) unfolding scan_shrinks_def by blast
    moreover have "length (skip_space (tl b3)) \<le> length b2"
      using that(3) skip_space_length [of "tl b3"] skip_space_length [of b2] by simp
    moreover have "length (tl (skip_space b1)) \<le> length b1" using skip_space_length [of b1] by simp
    ultimately show "length (skip_space (tl b3)) < n"
      using scan_string_shorter [OF that(1)] Suc.prems(2) by linarith
  qed
  then show ?case
    unfolding scan_members.simps(2) [of J ob scan "Suc n"] scan_members.simps(2) [of J ob scan n]
    by (auto simp: Let_def intro!: bind_option_cong split: prod.split)
qed simp

lemma scan_elements_fuel:
  "scan_shrinks scan \<Longrightarrow> length bs < n \<Longrightarrow> scan_elements J ob scan (Suc n) e bs = scan_elements J ob scan n e bs"
proof (induction n arbitrary: e bs)
  case (Suc n)
  have "scan_elements J ob scan (Suc n) (e + 1) (skip_space (tl b3)) = scan_elements J ob scan n (e + 1) (skip_space (tl b3))"
    if "scan v bs = Some b2" "b3 = skip_space b2" "b3 \<noteq> []" for v b2 b3
  proof (rule Suc.IH [OF Suc.prems(1)])
    have "length b2 \<le> length bs" using Suc.prems(1) that(1) unfolding scan_shrinks_def by blast
    moreover have "length (skip_space (tl b3)) < length b3"
      using that(3) skip_space_length [of "tl b3"] by (cases b3) auto
    moreover have "length b3 \<le> length b2" using that(2) skip_space_length [of b2] by simp
    ultimately show "length (skip_space (tl b3)) < n" using Suc.prems(2) by linarith
  qed
  then show ?case
    unfolding scan_elements.simps(2) [of J ob scan "Suc n"] scan_elements.simps(2) [of J ob scan n]
    by (auto simp: Let_def intro!: bind_option_cong split: prod.split)
qed simp

end
