(* ===== verification/Clock_Sendable.thy ===== *)
theory Clock_Sendable
  imports Clock_Storage
begin

section \<open>Everything the daemon holds can be sent\<close>

text \<open>
  The readers of \<^verbatim>\<open>clock-wire.c\<close> ask for more than the invariant of the clock states: generations
  that are not 0, texts without NUL, full minutes, due times within the range of the wall clock.
  This is an invariant of the daemon as well.
\<close>

subsection \<open>The invariant\<close>

definition label_ok :: "bytes \<Rightarrow> bool" where
  "label_ok label \<longleftrightarrow> clock_model_validate_text label True = CLOCK_OK"

lemma label_ok_Nil [simp]: "label_ok []"
  by (simp add: label_ok_def clock_model_validate_text_def check_text.simps)

definition alarm_sendable :: "clock_alarm \<Rightarrow> bool" where
  "alarm_sendable a \<longleftrightarrow> al_generation a \<noteq> 0 \<and> label_ok (sp_label (al_spec a)) \<and> al_last_due_utc a mod 60 = 0 \<and>
     (sp_enabled (al_spec a) \<longrightarrow> al_last_due_utc a < al_next_due_utc a)"

definition event_sendable :: "clock_event \<Rightarrow> bool" where
  "event_sendable e \<longleftrightarrow> ev_id e \<noteq> 0 \<and> ev_generation e \<noteq> 0 \<and> label_ok (ev_label e) \<and> valid_wall (ev_due_wall_utc e) \<and>
     (case ev_kind e of
        EVENT_NONE \<Rightarrow> False
      | EVENT_ALARM \<Rightarrow> ev_source_id e \<noteq> 0
      | EVENT_TIMER \<Rightarrow> ev_source_id e = 0 \<and> \<not> ev_snoozed e)"

definition fresh_event :: "clock_event \<Rightarrow> bool" where
  "fresh_event e \<longleftrightarrow> event_sendable e \<and> ev_missed_reason e = MISSED_NONE"

definition sendable :: "clock_model \<Rightarrow> bool" where
  "sendable m \<longleftrightarrow> list_all alarm_sendable (cm_alarms m) \<and> (cm_active m = zero_event \<or> fresh_event (cm_active m)) \<and>
     list_all fresh_event (cm_queue m) \<and> list_all event_sendable (cm_missed m) \<and> ct_generation (cm_timer m) \<noteq> 0"

subsection \<open>Events\<close>

lemma event_sendable_frame [simp]:
  "event_sendable (e\<lparr>ev_ring_started_ms := t\<rparr>) = event_sendable e"
  "event_sendable (e\<lparr>ev_missed_reason := r\<rparr>) = event_sendable e"
  "fresh_event (e\<lparr>ev_ring_started_ms := t\<rparr>) = fresh_event e"
  by (simp_all add: event_sendable_def fresh_event_def cong: clock_event_kind.case_cong)

lemma fresh_sendable [simp]: "fresh_event e \<Longrightarrow> event_sendable e"
  by (simp add: fresh_event_def)

lemma promote_sendable: "sendable m \<Longrightarrow> sendable (promote_event m)"
  by (auto simp: promote_event_def sendable_def split: list.split)

lemma list_all_tl: "list_all P xs \<Longrightarrow> list_all P (tl xs)"
  by (cases xs) auto

lemma record_missed_sendable: "sendable m \<Longrightarrow> event_sendable e \<Longrightarrow> sendable (record_missed m e reason)"
  by (auto simp: record_missed_def Let_def sendable_def list_all_tl)

lemma submit_sendable: "sendable m \<Longrightarrow> fresh_event e \<Longrightarrow> sendable (submit_event m e late)"
  by (auto simp: submit_event_def record_missed_sendable) (auto simp: sendable_def)

lemma drop_active_sendable: "sendable m \<Longrightarrow> sendable (m\<lparr>cm_active := zero_event\<rparr>)"
  by (simp add: sendable_def)

lemma cancel_sendable: "sendable m \<Longrightarrow> sendable (cancel_events m kind source)"
  by (auto simp: cancel_events_def Let_def intro!: promote_sendable) (auto simp: sendable_def list_all_iff)

lemma sendable_frame:
  assumes "sendable m" "cm_alarms m' = cm_alarms m" "cm_active m' = cm_active m" "cm_queue m' = cm_queue m"
    "cm_missed m' = cm_missed m" "ct_generation (cm_timer m') = ct_generation (cm_timer m)"
  shows "sendable m'"
  using assms by (simp add: sendable_def)

lemma sendable_alarms: "sendable m \<Longrightarrow> list_all alarm_sendable as \<Longrightarrow> sendable (m\<lparr>cm_alarms := as\<rparr>)"
  by (simp add: sendable_def)

lemma sendable_alarm:
  assumes "sendable m" "alarm_sendable a"
  shows "sendable (m\<lparr>cm_alarms := (cm_alarms m)[j := a]\<rparr>)"
  using assms by (auto simp: sendable_def list_all_iff dest!: set_update_subset_insert [THEN subsetD])

lemma remember_sendable [simp]: "sendable (remember_alarm_time m spec) = sendable m"
  by (simp add: sendable_def remember_alarm_time_def Let_def split: clock_alarm_schedule.split)

subsection \<open>Alarms\<close>

lemma occurs_minute: "occurs spec t \<Longrightarrow> valid_spec spec \<Longrightarrow> t mod 60 = 0"
proof (cases "sp_schedule spec")
  case ALARM_WEEKLY
  assume o: "occurs spec t" and v: "valid_spec spec"
  then have "t = due_candidate spec (t div 86400)"
    using occurs_weekly [OF v ALARM_WEEKLY, of t] by (simp add: occurs_def)
  also have "\<dots> = 60 * ((t div 86400) * 1440 + int (sp_hour spec) * 60 + int (sp_minute spec))"
    by (simp add: due_candidate_def SECONDS_PER_DAY_def algebra_simps)
  finally show ?thesis by (metis mod_mult_self1_is_0)
qed (simp add: occurs_def valid_spec_def)

lemma consume_sendable:
  assumes "alarm_sendable a" "alarm_wf a" "alarm_ready m snoozed a"
  shows "alarm_sendable (consume_alarm m snoozed a)"
proof (cases snoozed)
  case False
  then have "occurs (al_spec a) (al_next_due_utc a)" "valid_spec (al_spec a)" "al_next_due_utc a \<le> cm_wall_utc m"
    using assms by (simp_all add: alarm_wf_def alarm_ready_def)
  then show ?thesis using assms(1) False occurs_minute next_due_Some(2)
    by (force simp: consume_alarm_def alarm_sendable_def Let_def split: clock_alarm_schedule.split option.split)
qed (use assms in \<open>simp add: consume_alarm_def alarm_sendable_def\<close>)

lemma alarm_event_fresh:
  assumes "clock_wf m" "sendable m" "cm_next_event_id m \<noteq> 0" "j < length (cm_alarms m)"
    "alarm_ready m snoozed (cm_alarms m ! j)"
  shows "fresh_event (alarm_event m snoozed (cm_alarms m ! j))"
proof -
  let ?a = "cm_alarms m ! j"
  have a: "?a \<in> set (cm_alarms m)" "alarm_wf ?a" using assms(4) alarm_nth_wf [OF assms(1,4)] by auto
  then have "al_id ?a \<noteq> 0" using assms(1) by (force simp: clock_wf_def alarms_inv_def ids_below_def)
  moreover have "\<not> snoozed \<Longrightarrow> valid_wall (al_next_due_utc ?a)" "valid_wall (cm_wall_utc m)"
    using a(2) assms(1,5) by (auto simp: alarm_wf_def alarm_ready_def occurs_def clock_wf_def settings_inv_def)
  moreover have "alarm_sendable ?a" using a(1) assms(2) by (simp add: sendable_def list_all_iff)
  ultimately show ?thesis using assms(3)
    by (simp add: fresh_event_def event_sendable_def alarm_event_def alarm_sendable_def)
qed

lemma round_sendable:
  assumes "clock_wf m" "sendable m" "cm_next_event_id m \<noteq> 0" "j < length (cm_alarms m)"
    "alarm_ready m snoozed (cm_alarms m ! j)"
  shows "sendable (alarm_round m snoozed j)"
proof -
  have "alarm_sendable (cm_alarms m ! j)" using assms(2,4) by (simp add: sendable_def list_all_iff)
  then have "alarm_sendable (consume_alarm m snoozed (cm_alarms m ! j))"
    using consume_sendable alarm_nth_wf [OF assms(1,4)] assms(5) by blast
  from sendable_alarm [OF assms(2) this, of j]
  have "sendable (m\<lparr>cm_next_event_id := cm_next_event_id m + 1,
      cm_alarms := (cm_alarms m)[j := consume_alarm m snoozed (cm_alarms m ! j)]\<rparr>)"
    by (simp add: sendable_def)
  then show ?thesis unfolding alarm_round_def by (rule submit_sendable) (rule alarm_event_fresh [OF assms])
qed

lemma tick_alarms_from_sendable:
  "clock_wf m \<Longrightarrow> sendable m \<Longrightarrow> sendable (snd (tick_alarms_from n m snoozed))"
proof (induction n arbitrary: m)
  case (Suc n)
  show ?case
  proof (cases "select_due m snoozed")
    case (Some j)
    then have j: "j < length (cm_alarms m)" "alarm_ready m snoozed (cm_alarms m ! j)"
      using select_due_least [of m snoozed] by auto
    then show ?thesis using Suc.prems Suc.IH round_wf round_sendable Some
      by (simp add: tick_alarms_round del: tick_alarms_from.simps)
  qed (use Suc in \<open>simp add: tick_alarms_round del: tick_alarms_from.simps\<close>)
qed simp

lemma tick_alarms_sendable: "clock_wf m \<Longrightarrow> sendable m \<Longrightarrow> sendable (snd (tick_alarms m snoozed))"
  by (simp add: tick_alarms_def tick_alarms_from_sendable)

subsection \<open>The tick\<close>

lemma tick_clocks_sendable: "sendable m \<Longrightarrow> sendable (tick_clocks m wall now)"
  by (auto simp: tick_clocks_def Let_def sendable_def)

lemma zero_not_fresh: "fresh_event e \<Longrightarrow> ev_kind e \<noteq> EVENT_NONE"
  by (auto simp: fresh_event_def event_sendable_def)

lemma tick_ring_sendable: "sendable m \<Longrightarrow> sendable (tick_ring m)"
proof (cases "ev_kind (cm_active m) = EVENT_NONE")
  case False
  assume m: "sendable m"
  then have "event_sendable (cm_active m)" using False by (auto simp: sendable_def zero_event_def)
  then show ?thesis using m
    by (simp add: tick_ring_def promote_sendable drop_active_sendable record_missed_sendable)
qed (simp add: tick_ring_def)

lemma tick_timer_sendable:
  assumes "sendable m" "clock_wf m"
  shows "sendable (snd (tick_timer m))"
proof -
  have v: "valid_wall (cm_wall_utc m)" using assms(2) by (simp add: clock_wf_def settings_inv_def)
  have "fresh_event \<lparr> ev_id = cm_next_event_id m, ev_kind = EVENT_TIMER, ev_source_id = 0,
      ev_generation = ct_generation (cm_timer m), ev_label = [], ev_due_wall_utc = cm_wall_utc m,
      ev_due_monotonic_ms = d, ev_ring_started_ms = 0, ev_snoozed = False, ev_missed_reason = MISSED_NONE \<rparr>"
    if "cm_next_event_id m \<noteq> 0" for d
    using that v assms(1) by (simp add: fresh_event_def event_sendable_def sendable_def)
  then show ?thesis using assms(1)
    by (auto simp: tick_timer_def create_event_def Let_def intro!: submit_sendable) (auto simp: sendable_def)
qed

lemma tick_sendable:
  assumes "clock_wf m" "sendable m"
  shows "sendable (snd (clock_model_tick m wall now))"
proof (cases "valid_wall wall \<and> \<not> now < cm_monotonic_ms m")
  case True
  let ?m = "tick_ring (tick_clocks m wall now)"
  have m: "clock_wf ?m" "sendable ?m"
    using True assms by (auto simp: tick_ring_wf tick_clocks_wf tick_ring_sendable tick_clocks_sendable not_less)
  obtain s1 m1 where 1: "tick_alarms ?m False = (s1, m1)" by force
  have m1: "clock_wf m1" "sendable m1" using tick_alarms_spec [OF m(1) 1] tick_alarms_sendable [OF m, of False] 1 by auto
  obtain s2 m2 where 2: "tick_alarms m1 True = (s2, m2)" by force
  have m2: "clock_wf m2" "sendable m2" using tick_alarms_spec [OF m1(1) 2] tick_alarms_sendable [OF m1, of True] 2 by auto
  show ?thesis using True 1 2 m1(2) m2 tick_timer_sendable by (simp add: clock_model_tick_def)
qed (use assms in \<open>auto simp: clock_model_tick_def\<close>)

subsection \<open>Requests and preferences\<close>

lemma spec_due_later: "spec_due spec after = Some due \<Longrightarrow> sp_enabled spec \<Longrightarrow> after < due"
  using next_due_Some(2) by (auto simp: spec_due_def)

lemma alarm_add_sendable:
  assumes "sendable m" "clock_wf m" "label_ok (sp_label spec)"
  shows "sendable (snd (snd (clock_model_alarm_add m spec)))"
proof -
  have "0 < cm_wall_utc m" using assms(2) by (simp add: clock_wf_def settings_inv_def valid_wall_def CLOCK_WALL_MIN_def)
  then have "alarm_sendable \<lparr> al_id = i, al_generation = 1, al_spec = spec, al_next_due_utc = due,
      al_last_due_utc = 0, al_snoozed = False, al_snooze_deadline_ms = 0 \<rparr>"
    if "spec_due spec (cm_wall_utc m) = Some due" for i due
    using that assms(3) spec_due_later by (fastforce simp: alarm_sendable_def)
  then show ?thesis using assms(1)
    by (auto simp: clock_model_alarm_add_def split: option.split) (auto simp: sendable_def)
qed

lemma next_generation: "g \<noteq> 0xffffffff \<Longrightarrow> g + 1 \<noteq> (0 :: u32)"
proof
  assume "g \<noteq> 0xffffffff" "g + 1 = 0"
  then have "g = - 1" by (simp add: eq_neg_iff_add_eq_0)
  with \<open>g \<noteq> 0xffffffff\<close> show False by simp
qed

lemma alarm_edit_sendable:
  assumes "sendable m" "label_ok (sp_label spec)"
  shows "sendable (snd (clock_model_alarm_edit m k spec cancel))"
proof -
  have "alarm_sendable ((cm_alarms m ! j)\<lparr>al_spec := spec, al_generation := al_generation (cm_alarms m ! j) + 1, al_snoozed := False,
      al_snooze_deadline_ms := 0, al_next_due_utc := due\<rparr>)"
    if "find_alarm m k = Some j" "al_generation (cm_alarms m ! j) \<noteq> 0xffffffff"
      "spec_due spec (if cm_wall_utc m > al_last_due_utc (cm_alarms m ! j) then cm_wall_utc m
         else al_last_due_utc (cm_alarms m ! j)) = Some due" for j due
  proof -
    have "alarm_sendable (cm_alarms m ! j)" using find_alarm_nth [OF that(1)] assms(1) by (simp add: sendable_def list_all_iff)
    moreover have "al_generation (cm_alarms m ! j) + 1 \<noteq> 0"
      using that(2) by (rule next_generation)
    ultimately show ?thesis using assms(2) spec_due_later [OF that(3)] by (auto simp: alarm_sendable_def split: if_split_asm)
  qed
  then show ?thesis using assms(1)
    by (auto simp: clock_model_alarm_edit_def Let_def intro!: cancel_sendable sendable_alarm split: option.split)
qed

lemma alarm_enable_sendable:
  assumes "sendable m"
  shows "sendable (snd (clock_model_alarm_enable m k on cancel))"
proof -
  have "label_ok (sp_label (al_spec (cm_alarms m ! j)))" if "find_alarm m k = Some j" for j
    using find_alarm_nth [OF that] assms by (simp add: sendable_def list_all_iff alarm_sendable_def)
  then show ?thesis using assms alarm_edit_sendable
    by (auto simp: clock_model_alarm_enable_def Let_def split: option.split)
qed

lemma alarm_delete_sendable: "sendable m \<Longrightarrow> sendable (snd (clock_model_alarm_delete m k cancel))"
proof -
  assume m: "sendable m"
  have "list_all alarm_sendable (take j as @ drop (Suc j) as)" if "list_all alarm_sendable as" for as j
    using that by (auto simp: list_all_iff dest: in_set_takeD in_set_dropD)
  then show ?thesis using cancel_sendable [OF m, of EVENT_ALARM k]
    by (auto simp: clock_model_alarm_delete_def Let_def m split: option.split) (auto simp: sendable_def)
qed

lemma set_snooze_sendable:
  assumes "sendable m" "find_alarm m k = Some j"
  shows "sendable (m\<lparr>cm_alarms := (cm_alarms m)[j := (cm_alarms m ! j)\<lparr>al_snoozed := s, al_snooze_deadline_ms := d\<rparr>]\<rparr>)"
proof (rule sendable_alarm [OF assms(1)])
  have "alarm_sendable (cm_alarms m ! j)" using find_alarm_nth [OF assms(2)] assms(1) by (simp add: sendable_def list_all_iff)
  then show "alarm_sendable ((cm_alarms m ! j)\<lparr>al_snoozed := s, al_snooze_deadline_ms := d\<rparr>)" by (simp add: alarm_sendable_def)
qed

lemma cancel_snooze_sendable: "sendable m \<Longrightarrow> sendable (snd (clock_model_alarm_cancel_snooze m k))"
  by (auto simp: clock_model_alarm_cancel_snooze_def set_snooze_sendable split: option.split)

lemma dismiss_sendable: "sendable m \<Longrightarrow> sendable (snd (clock_model_dismiss m event))"
  by (simp add: clock_model_dismiss_def promote_sendable drop_active_sendable)

lemma snooze_sendable: "sendable m \<Longrightarrow> sendable (snd (clock_model_snooze m event minutes))"
  by (auto simp: clock_model_snooze_def Let_def set_snooze_sendable split: option.split intro!: dismiss_sendable)

lemma timer_set_sendable: "sendable m \<Longrightarrow> sendable (snd (clock_model_timer_set m seconds))"
  by (auto simp: clock_model_timer_set_def intro!: cancel_sendable) (auto simp: sendable_def next_generation)

lemma run_timer_sendable: "sendable m \<Longrightarrow> sendable (snd (run_timer m))"
  by (auto simp: run_timer_def sendable_def)

lemma timer_start_sendable: "sendable m \<Longrightarrow> sendable (snd (clock_model_timer_start m))"
  by (simp add: clock_model_timer_start_def run_timer_sendable)

lemma timer_restart_sendable: "sendable m \<Longrightarrow> sendable (snd (clock_model_timer_restart m))"
proof -
  assume m: "sendable m"
  obtain s m' where r: "clock_model_timer_stop m = (s, m')" by force
  then have "sendable m'" using timer_set_sendable [OF m, of "ct_duration_seconds (cm_timer m)"] by (simp add: clock_model_timer_stop_def)
  then show ?thesis using m timer_start_sendable by (auto simp: clock_model_timer_restart_def r)
qed

lemma plain_ops_sendable:
  assumes "sendable m"
  shows "sendable (snd (clock_model_timer_pause m))" "sendable (snd (clock_model_timer_resume m))"
    "sendable (snd (clock_model_timer_stop m))" "sendable (snd (clock_model_stopwatch_start m))"
    "sendable (snd (clock_model_stopwatch_pause m))" "sendable (snd (clock_model_stopwatch_reset m))"
    "sendable (snd (clock_model_stopwatch_lap m))" "sendable (snd (snd (clock_model_world_add m offset)))"
    "sendable (snd (clock_model_world_edit m k offset))" "sendable (snd (clock_model_world_delete m k))"
    "sendable (snd (clock_model_set_view m view))" "sendable (snd (clock_model_set_snooze m minutes))"
    "sendable (clock_model_clear_missed m)"
proof -
  show "sendable (snd (clock_model_timer_resume m))" "sendable (snd (clock_model_timer_stop m))"
    using assms by (simp_all add: clock_model_timer_resume_def run_timer_sendable clock_model_timer_stop_def timer_set_sendable)
qed (use assms in \<open>auto simp: clock_model_timer_pause_def clock_model_stopwatch_start_def clock_model_stopwatch_pause_def
    clock_model_stopwatch_reset_def clock_model_stopwatch_lap_def Let_def clock_model_world_add_def
    clock_model_world_edit_def clock_model_world_delete_def clock_model_set_view_def clock_model_set_snooze_def
    clock_model_clear_missed_def sendable_def split: option.split\<close>)

lemmas op_sendable = alarm_add_sendable alarm_edit_sendable alarm_enable_sendable alarm_delete_sendable
  cancel_snooze_sendable dismiss_sendable snooze_sendable timer_set_sendable timer_start_sendable
  timer_restart_sendable plain_ops_sendable

lemma read_alarm_spec_label: "read_alarm_spec J object = Some spec \<Longrightarrow> label_ok (sp_label spec)"
  by (auto simp: read_alarm_spec_def bind_eq_Some_conv label_ok_def dest: text_value_valid)

lemma read_request_label:
  assumes "read_request J object = Some r" "rq_op r \<in> {REQUEST_ALARM_ADD, REQUEST_ALARM_EDIT}"
  shows "label_ok (sp_label (rq_alarm r))"
proof -
  have op: "rq_op (fst s') = rq_op (fst s)" if "read_id J object s = Some s' \<or> read_cancel J object s = Some s' \<or> read_arguments J object s = Some s'" for s s'
    using that by (cases s) (auto simp: read_id_def read_cancel_def read_arguments_def bind_eq_Some_conv split: if_split_asm)
  from assms(1) obtain s n where s: "read_arguments J object s = Some (r, n)"
    by (auto simp: read_request_def bind_eq_Some_conv)
  then show ?thesis using op [of s "(r, n)"] assms(2)
    by (cases s) (auto simp: read_arguments_def bind_eq_Some_conv dest: read_alarm_spec_label)
qed

lemma request_apply_sendable:
  assumes "clock_wf m" "sendable m"
  shows "sendable (snd (clock_wire_request_apply J m request))"
proof -
  have "sendable (snd (apply_checked m r))" if "read_request J object = Some r" for r object
  proof -
    have l: "rq_op r = REQUEST_ALARM_ADD \<Longrightarrow> label_ok (sp_label (rq_alarm r))"
      "rq_op r = REQUEST_ALARM_EDIT \<Longrightarrow> label_ok (sp_label (rq_alarm r))"
      using read_request_label [OF that] by auto
    have p: "snd (case x of (status, ident, model) \<Rightarrow> (status, model)) = snd (snd x)" for x :: "clock_status \<times> u32 option \<times> clock_model"
      by (simp split: prod.split)
    show ?thesis
      by (cases "rq_op r") (simp_all add: apply_checked_def p op_sendable assms l)
  qed
  then show ?thesis using assms(2) by (auto simp: clock_wire_request_apply_def split: option.split)
qed

lemma read_stored_alarm_sendable:
  assumes "read_stored_alarm J wall n object = Some a"
  shows "alarm_sendable a"
proof -
  from assms obtain g spec l i where g: "unsigned_value J object ''generation'' 0xffffffff = Some g" "g \<noteq> 0"
    and s: "label_ok (sp_label spec)" and l: "60 dvd l"
    and a: "a = schedule_stored wall \<lparr> al_id = i, al_generation = ucast g, al_spec = spec, al_next_due_utc = 0,
         al_last_due_utc = l, al_snoozed = False, al_snooze_deadline_ms = 0 \<rparr>"
    by (auto simp: read_stored_alarm_def bind_eq_Some_conv dest!: read_alarm_spec_label)
  have "(ucast g :: u32) \<noteq> 0" using narrow_0 unsigned_value_le [OF g(1)] g(2) by blast
  with s l show ?thesis using next_due_Some(2) unfolding a
    by (fastforce simp: schedule_stored_def alarm_sendable_def split: option.split)
qed

lemma init_sendable: "clock_model_init wall now = Some m \<Longrightarrow> sendable m"
  by (auto simp: clock_model_init_def sendable_def zero_timer_def split: if_split_asm)

lemma read_preferences_sendable:
  assumes "sendable m0" "read_preferences J object m0 = Some m"
  shows "sendable m"
proof -
  from assms(2) obtain wall na ai alarms where r: "read_items (read_stored_alarm J wall na) new_alarm_id ai [] = Some alarms"
    and m: "cm_alarms m = alarms" "cm_active m = cm_active m0" "cm_queue m = cm_queue m0" "cm_missed m = cm_missed m0"
      "ct_generation (cm_timer m) = ct_generation (cm_timer m0)"
    by (auto simp: read_preferences_def bind_eq_Some_conv)
  have "list_all alarm_sendable alarms"
    by (rule read_items_inv(1) [OF r]) (auto dest: read_stored_alarm_sendable)
  then show ?thesis using assms(1) m by (simp add: sendable_def)
qed

lemma preferences_decode_sendable: "sendable m \<Longrightarrow> sendable (snd (clock_wire_preferences_decode J json m))"
  by (auto simp: clock_wire_preferences_decode_def split: option.split
      intro: read_preferences_sendable [OF init_sendable])

subsection \<open>The daemon\<close>

definition wire_inv :: "clock_model \<Rightarrow> bool" where
  "wire_inv m \<longleftrightarrow> clock_inv m \<and> sendable m"

lemma daemon_step_wire: "daemon_step J m m' \<Longrightarrow> wire_inv m \<Longrightarrow> wire_inv m'"
  using daemon_step_inv [of J m m']
  by (auto simp: wire_inv_def clock_inv_def tick_sendable request_apply_sendable preferences_decode_sendable
      elim!: daemon_step.cases)

interpretation wire: transition_system clock_initial "daemon_step J" wire_inv for J
  by unfold_locales (auto simp: clock_initial_def wire_inv_def clock_init_inv init_sendable
      dest: daemon_step_wire [unfolded wire_inv_def])

lemma daemon_wire_inv: "daemon_reachable J m \<Longrightarrow> wire_inv m"
  using wire.reachable by (auto simp: daemon_reachable_def)

end
