(* ===== verification/Clock_Json.thy ===== *)
theory Clock_Json
  imports Clock_Sendable
begin

section \<open>Round trips through JSON objects\<close>

text \<open>
  What \<^verbatim>\<open>clock-wire.c\<close> relies on of the JSON library, as the laws of a locale, and what follows for
  the writers and readers.  The laws are the documented behaviour of json-c for an owner that adds
  members to a new object and reads them back: a member added is found under its key, a new integer
  is the integer given, and so on; allocation succeeds.
\<close>

subsection \<open>The laws\<close>

locale json_laws =
  fixes J :: "'j json_library"
  assumes new_object: "\<exists>ob. js_new_object J = Some ob \<and> js_get_type J ob = json_type_object \<and>
      js_object_length J ob = 0 \<and> (\<forall>k. js_object_get_ex J ob k = None)"
    and object_add: "js_get_type J ob = json_type_object \<Longrightarrow> js_object_get_ex J ob k = None \<Longrightarrow>
      js_get_type J (js_object_add J ob k v) = json_type_object \<and>
      js_object_length J (js_object_add J ob k v) = Suc (js_object_length J ob) \<and>
      js_object_get_ex J (js_object_add J ob k v) = (js_object_get_ex J ob)(k \<mapsto> v)"
    and new_array: "\<exists>arr. js_new_array J = Some arr \<and> js_get_type J arr = json_type_array \<and> js_array_length J arr = 0"
    and array_add: "js_get_type J arr = json_type_array \<Longrightarrow>
      js_get_type J (js_array_add J arr v) = json_type_array \<and>
      js_array_length J (js_array_add J arr v) = Suc (js_array_length J arr) \<and>
      js_array_get_idx J (js_array_add J arr v) (js_array_length J arr) = v \<and>
      (\<forall>i < js_array_length J arr. js_array_get_idx J (js_array_add J arr v) i = js_array_get_idx J arr i)"
    and new_uint64: "\<exists>j. js_new_uint64 J n = Some j \<and> js_get_type J j = json_type_int \<and> js_get_uint64 J j = n \<and>
      \<not> prints_minus J j"
    and new_int64: "- (2 ^ 63) \<le> i \<Longrightarrow> i < 2 ^ 63 \<Longrightarrow>
      \<exists>j. js_new_int64 J i = Some j \<and> js_get_type J j = json_type_int \<and> js_get_int64 J j = i \<and>
        (prints_minus J j \<longleftrightarrow> i < 0) \<and> (0 \<le> i \<longrightarrow> js_get_uint64 J j = of_int i)"
    and new_boolean: "\<exists>j. js_new_boolean J b = Some j \<and> js_get_type J j = json_type_boolean \<and> js_get_boolean J j = b"
    and new_string: "\<exists>j. js_new_string J bs = Some j \<and> js_get_type J j = json_type_string \<and> js_get_string J j = bs"

text \<open>An object as the list of the members that were added to it, and what a reader sees of one member.\<close>

definition build :: "'j json_library \<Rightarrow> (string \<times> 'j option) list \<Rightarrow> 'j option" where
  "build J kvs = map_option (\<lambda>ob. foldl (\<lambda>ob (k, v). js_object_add J ob k v) ob kvs) (js_new_object J)"

definition typed_field :: "'j json_library \<Rightarrow> 'j option option \<Rightarrow> json_type \<Rightarrow> 'j option" where
  "typed_field J field type = do { found \<leftarrow> field; value \<leftarrow> found; require (js_get_type J value = type); Some value }"

definition unsigned_field :: "'j json_library \<Rightarrow> 'j option option \<Rightarrow> u64 \<Rightarrow> u64 option" where
  "unsigned_field J field maximum =
     do {
       number \<leftarrow> typed_field J field json_type_int;
       require (\<not> prints_minus J number);
       require (js_get_uint64 J number \<le> maximum);
       Some (js_get_uint64 J number)
     }"

definition signed_field :: "'j json_library \<Rightarrow> 'j option option \<Rightarrow> int \<Rightarrow> int \<Rightarrow> int option" where
  "signed_field J field minimum maximum =
     do {
       number \<leftarrow> typed_field J field json_type_int;
       require (\<not> (\<not> prints_minus J number \<and> js_get_uint64 J number > 0x7fffffffffffffff));
       require (js_get_int64 J number \<ge> minimum \<and> js_get_int64 J number \<le> maximum);
       Some (js_get_int64 J number)
     }"

definition boolean_field :: "'j json_library \<Rightarrow> 'j option option \<Rightarrow> bool option" where
  "boolean_field J field = do { boolean \<leftarrow> typed_field J field json_type_boolean; Some (js_get_boolean J boolean) }"

definition label_field :: "'j json_library \<Rightarrow> 'j option option \<Rightarrow> bool \<Rightarrow> bytes option" where
  "label_field J field allow_empty =
     do {
       str \<leftarrow> typed_field J field json_type_string;
       require (clock_model_validate_text (js_get_string J str) allow_empty = CLOCK_OK);
       Some (js_get_string J str)
     }"

definition literal_field :: "'j json_library \<Rightarrow> 'j option option \<Rightarrow> string \<Rightarrow> bool" where
  "literal_field J field literal =
     (case typed_field J field json_type_string of None \<Rightarrow> False | Some str \<Rightarrow> js_get_string J str = bytes_of literal)"

definition array_field :: "'j json_library \<Rightarrow> 'j option option \<Rightarrow> nat \<Rightarrow> 'j option list option" where
  "array_field J field maximum =
     do {
       arr \<leftarrow> typed_field J field json_type_array;
       require (js_array_length J arr \<le> maximum);
       Some (map (js_array_get_idx J arr) [0..<js_array_length J arr])
     }"

context json_laws
begin

lemma build_laws:
  assumes "distinct (map fst kvs)"
  obtains ob where "build J kvs = Some ob" "js_get_type J ob = json_type_object" "js_object_length J ob = length kvs"
    "js_object_get_ex J ob = map_of kvs"
proof -
  obtain o0 where n: "js_new_object J = Some o0" "js_get_type J o0 = json_type_object" "js_object_length J o0 = 0"
      "js_object_get_ex J o0 = Map.empty"
    using new_object by (auto simp: fun_eq_iff)
  have "js_get_type J (foldl (\<lambda>ob (k, v). js_object_add J ob k v) o0 kvs) = json_type_object \<and>
      js_object_length J (foldl (\<lambda>ob (k, v). js_object_add J ob k v) o0 kvs) = length kvs \<and>
      js_object_get_ex J (foldl (\<lambda>ob (k, v). js_object_add J ob k v) o0 kvs) = map_of kvs"
    using assms
  proof (induction kvs rule: rev_induct)
    case (snoc kv kvs)
    obtain k v where kv: "kv = (k, v)" by force
    let ?o = "foldl (\<lambda>ob (k, v). js_object_add J ob k v) o0 kvs"
    have IH: "js_get_type J ?o = json_type_object" "js_object_length J ?o = length kvs" "js_object_get_ex J ?o = map_of kvs"
      using snoc by auto
    have "map_of kvs k = None" using snoc.prems by (simp add: kv map_of_eq_None_iff)
    moreover from this have "map_of (kvs @ [kv]) = (map_of kvs)(k \<mapsto> v)"
      by (auto simp: kv fun_eq_iff map_add_def split: option.split)
    ultimately show ?case using object_add [of ?o k v] IH by (simp add: kv del: map_of_append)
  qed (simp add: n)
  with n(1) show thesis by (intro that [of "foldl (\<lambda>ob (k, v). js_object_add J ob k v) o0 kvs"]) (auto simp: build_def)
qed

lemma shape_build [simp]: "distinct (map fst kvs) \<Longrightarrow> shape J (build J kvs) n \<longleftrightarrow> n = length kvs"
  by (rule build_laws [of kvs]) (auto simp: shape_def)

lemma member_build: "distinct (map fst kvs) \<Longrightarrow> object_member J (build J kvs) k type = typed_field J (map_of kvs k) type"
  by (rule build_laws [of kvs]) (auto simp: object_member_def typed_field_def)

lemma typed_object [simp]: "distinct (map fst kvs) \<Longrightarrow> typed_field J (Some (build J kvs)) json_type_object = build J kvs"
  by (rule build_laws [of kvs]) (auto simp: typed_field_def)

lemma unsigned_build: "distinct (map fst kvs) \<Longrightarrow>
   unsigned_value J (build J kvs) k maximum = unsigned_field J (map_of kvs k) maximum"
  by (simp add: unsigned_value_def unsigned_field_def member_build)

lemma signed_build: "distinct (map fst kvs) \<Longrightarrow>
   signed_value J (build J kvs) k minimum maximum = signed_field J (map_of kvs k) minimum maximum"
  by (simp add: signed_value_def signed_field_def member_build)

lemma boolean_build: "distinct (map fst kvs) \<Longrightarrow> boolean_value J (build J kvs) k = boolean_field J (map_of kvs k)"
  by (simp add: boolean_value_def boolean_field_def member_build)

lemma text_build: "distinct (map fst kvs) \<Longrightarrow> text_value J (build J kvs) k allow = label_field J (map_of kvs k) allow"
  by (simp add: text_value_def label_field_def member_build)

lemma literal_build: "distinct (map fst kvs) \<Longrightarrow>
   literal_value J (build J kvs) k literal = literal_field J (map_of kvs k) literal"
  by (simp add: literal_value_def literal_field_def member_build)

lemma array_build: "distinct (map fst kvs) \<Longrightarrow> array_value J (build J kvs) k maximum = array_field J (map_of kvs k) maximum"
  by (simp add: array_value_def array_field_def member_build)

lemmas read_build = unsigned_build signed_build boolean_build text_build literal_build array_build member_build

lemma unsigned_uint [simp]: "unsigned_field J (Some (js_new_uint64 J n)) maximum = (if n \<le> maximum then Some n else None)"
  using new_uint64 [of n] by (auto simp: unsigned_field_def typed_field_def)

lemma unsigned_int [simp]:
  "0 \<le> i \<Longrightarrow> i < 2 ^ 63 \<Longrightarrow>
   unsigned_field J (Some (js_new_int64 J i)) maximum = (if of_int i \<le> maximum then Some (of_int i) else None)"
  using new_int64 [of i] by (auto simp: unsigned_field_def typed_field_def)

lemma signed_int [simp]:
  assumes "- (2 ^ 63) \<le> i" "i < 2 ^ 63"
  shows "signed_field J (Some (js_new_int64 J i)) minimum maximum = (if minimum \<le> i \<and> i \<le> maximum then Some i else None)"
proof -
  obtain j where j: "js_new_int64 J i = Some j" "js_get_type J j = json_type_int" "js_get_int64 J j = i"
    "prints_minus J j \<longleftrightarrow> i < 0" "0 \<le> i \<longrightarrow> js_get_uint64 J j = of_int i"
    using new_int64 [OF assms] by blast
  have "unat (of_int i :: u64) \<le> 0x7fffffffffffffff" if "0 \<le> i"
    using that assms(2) by (simp add: unat_eq_nat_uint uint_word_of_int take_bit_eq_mod)
  then have "0 \<le> i \<Longrightarrow> \<not> js_get_uint64 J j > 0x7fffffffffffffff" using j(5) by (simp add: word_less_nat_alt)
  then show ?thesis using j by (auto simp: signed_field_def typed_field_def)
qed

lemma boolean_bool [simp]: "boolean_field J (Some (js_new_boolean J b)) = Some b"
  using new_boolean [of b] by (auto simp: boolean_field_def typed_field_def)

lemma text_string [simp]:
  "label_field J (Some (js_new_string J bs)) allow = (if clock_model_validate_text bs allow = CLOCK_OK then Some bs else None)"
  using new_string [of bs] by (auto simp: label_field_def typed_field_def)

lemma literal_string [simp]: "literal_field J (Some (js_new_string J bs)) literal \<longleftrightarrow> bs = bytes_of literal"
  using new_string [of bs] by (auto simp: literal_field_def typed_field_def)

lemma typed_string [simp]: "typed_field J (Some (js_new_string J bs)) json_type_string = js_new_string J bs"
  using new_string [of bs] by (auto simp: typed_field_def)

text \<open>An array is the list of the elements that were added.\<close>

lemma add_items_laws:
  assumes "js_get_type J arr = json_type_array" "map (js_array_get_idx J arr) [0..<js_array_length J arr] = vs"
  shows "js_get_type J (add_items J mk items arr) = json_type_array \<and>
    map (js_array_get_idx J (add_items J mk items arr)) [0..<js_array_length J (add_items J mk items arr)] = vs @ map mk items"
  using assms
proof (induction items arbitrary: arr vs)
  case (Cons x items)
  let ?a = "js_array_add J arr (mk x)"
  note add = array_add [OF Cons.prems(1), of "mk x"]
  have "map (js_array_get_idx J ?a) [0..<js_array_length J ?a] = vs @ [mk x]"
    using add Cons.prems(2) by auto
  with Cons.IH [of ?a] add show ?case by (auto simp: add_items_def)
qed (simp add: add_items_def)

lemma array_items:
  assumes "js_new_array J = Some arr"
  shows "array_field J (Some (Some (add_items J mk items arr))) maximum =
    (if length items \<le> maximum then Some (map mk items) else None)"
proof -
  have "js_get_type J arr = json_type_array" "js_array_length J arr = 0" using new_array assms by auto
  note laws = add_items_laws [of arr "[]" mk items, OF this(1)] this
  then have "js_array_length J (add_items J mk items arr) = length items"
    by (metis append_Nil diff_zero length_map length_upt list.simps(8) upt_0)
  with laws show ?thesis by (auto simp: array_field_def typed_field_def)
qed

end

text \<open>Reading back what was written item by item.\<close>

lemma read_items_map:
  assumes "\<And>x. x \<in> set items \<Longrightarrow> rd (mk x) = Some (f x)"
    and "\<And>i. i < length items \<Longrightarrow> ok (previous @ map f (take i items)) (f (items ! i))"
  shows "read_items rd ok (map mk items) previous = Some (previous @ map f items)"
  using assms
proof (induction items arbitrary: previous)
  case (Cons x items)
  have "ok previous (f x)" using Cons.prems(2) [of 0] by simp
  moreover have "read_items rd ok (map mk items) (previous @ [f x]) = Some ((previous @ [f x]) @ map f items)"
    using Cons.prems(1) Cons.prems(2) [of "Suc _"] by (intro Cons.IH) auto
  ultimately show ?case using Cons.prems(1) by simp
qed simp

subsection \<open>Numbers of the enumerations\<close>

lemma enum_numbers [simp]:
  "schedule_of (schedule_number s) = s" "view_of (view_number v) = v" "kind_of (kind_number k) = k"
  "reason_of (reason_number r) = r" "timer_of (timer_number t) = t"
  by (cases s, simp_all add: schedule_of_def) (cases v, simp_all add: view_of_def,
      cases k, simp_all add: kind_of_def, cases r, simp_all add: reason_of_def, cases t, simp_all add: timer_of_def)

lemma enum_bounds [simp]:
  "schedule_number s \<le> 1" "view_number v \<le> 1" "kind_number k \<le> 2" "reason_number r \<le> 3" "timer_number t \<le> 3"
proof -
  show "schedule_number s \<le> 1" "view_number v \<le> 1" by (cases s; cases v; simp)+
  show "kind_number k \<le> 2" "reason_number r \<le> 3" "timer_number t \<le> 3" by (cases k; cases r; cases t; simp)+
qed

lemma unat_small [simp]: "n < 2 ^ 64 \<Longrightarrow> unat (of_nat n :: u64) = n"
  by (simp add: unat_of_nat take_bit_nat_eq_self_iff)

lemma unat_widen: "unat (ucast (w :: u32) :: u64) = unat w"
  using unsigned_less [of w, where 'a = nat] by (simp add: unsigned_ucast_eq take_bit_nat_eq_self_iff)

lemma widen [simp]: "ucast (ucast (w :: u32) :: u64) = w"
  by (rule bit_word_eqI) (simp add: bit_simps)

lemma widen_le [simp]: "(ucast (w :: u32) :: u64) \<le> 0xffffffff"
  using unsigned_less [of w, where 'a = nat] by (simp add: word_le_nat_alt unat_widen)

lemma widen_0 [simp]: "(ucast (w :: u32) :: u64) = 0 \<longleftrightarrow> w = 0"
  by (simp add: word_unat_eq_iff unat_widen)

end
