(* ===== verification/Clock_Codec.thy ===== *)
theory Clock_Codec
  imports Clock_Json
begin

section \<open>The messages of the clock, written and read back\<close>

text \<open>
  For a JSON library that obeys its laws: every structure that satisfies the conditions of its
  reader is read back as it was written.
\<close>

lemma text_of_label: "label_ok label \<Longrightarrow> takeWhile (\<lambda>b. b \<noteq> 0) label = label" "label_ok label \<Longrightarrow> length label \<le> CLOCK_TEXT_BYTES"
  unfolding label_ok_def by (rule validate_text_string(2), assumption) (rule validate_text_string(3))

lemmas add_defs = add_uint_def add_int_def add_bool_def add_object_def add_literal_def

lemma wall_int64: "valid_wall t \<or> t = 0 \<Longrightarrow> - (2 ^ 63) \<le> t \<and> t < 2 ^ 63"
  by (auto simp: valid_wall_def CLOCK_WALL_MIN_def CLOCK_WALL_MAX_def)

lemma wall_between:
  "valid_wall t \<or> t = 0 \<Longrightarrow> 0 \<le> t \<and> t \<le> CLOCK_WALL_MAX \<and> (CLOCK_WALL_MIN \<le> t \<or> t = 0)"
  by (auto simp: valid_wall_def CLOCK_WALL_MIN_def CLOCK_WALL_MAX_def)

lemma small_le: "n \<le> k \<Longrightarrow> k < 2 ^ 64 \<Longrightarrow> (of_nat n :: u64) \<le> of_nat k"
  by (simp add: word_le_nat_alt)

lemma small_0: "n < 2 ^ 64 \<Longrightarrow> (of_nat n :: u64) = 0 \<longleftrightarrow> n = 0"
  by (simp add: word_unat_eq_iff)

definition spec_fields :: "'j json_library \<Rightarrow> clock_alarm_spec \<Rightarrow> (string \<times> 'j option) list" where
  "spec_fields J spec =
     [(''label'', js_new_string J (sp_label spec)), (''schedule'', js_new_uint64 J (schedule_number (sp_schedule spec))),
      (''once_utc'', js_new_int64 J (sp_once_utc spec)), (''hour'', js_new_uint64 J (of_nat (sp_hour spec))),
      (''minute'', js_new_uint64 J (of_nat (sp_minute spec))),
      (''repeat_days'', js_new_uint64 J (of_nat (sp_repeat_days spec))), (''enabled'', js_new_boolean J (sp_enabled spec))]"

lemma make_spec_build: "label_ok (sp_label spec) \<Longrightarrow> make_alarm_spec J spec = build J (spec_fields J spec)"
  by (cases "js_new_object J")
    (simp_all add: make_alarm_spec_def build_def spec_fields_def add_defs add_text_def text_of_label)

definition event_fields :: "'j json_library \<Rightarrow> clock_event \<Rightarrow> (string \<times> 'j option) list" where
  "event_fields J event =
     [(''id'', js_new_uint64 J (ev_id event)), (''kind'', js_new_uint64 J (kind_number (ev_kind event))),
      (''source_id'', js_new_uint64 J (ucast (ev_source_id event))), (''generation'', js_new_uint64 J (ucast (ev_generation event))),
      (''label'', js_new_string J (ev_label event)), (''due_wall_utc'', js_new_int64 J (ev_due_wall_utc event)),
      (''due_monotonic_ms'', js_new_uint64 J (ev_due_monotonic_ms event)),
      (''ring_started_ms'', js_new_uint64 J (ev_ring_started_ms event)), (''snoozed'', js_new_boolean J (ev_snoozed event)),
      (''missed_reason'', js_new_uint64 J (reason_number (ev_missed_reason event)))]"

lemma make_event_build: "label_ok (ev_label event) \<Longrightarrow> make_event J event = build J (event_fields J event)"
  by (cases "js_new_object J")
    (simp_all add: make_event_def build_def event_fields_def add_defs add_text_def text_of_label)

definition alarm_fields :: "'j json_library \<Rightarrow> clock_alarm \<Rightarrow> (string \<times> 'j option) list" where
  "alarm_fields J alarm =
     [(''id'', js_new_uint64 J (ucast (al_id alarm))), (''generation'', js_new_uint64 J (ucast (al_generation alarm))),
      (''spec'', make_alarm_spec J (al_spec alarm)), (''next_due_utc'', js_new_int64 J (al_next_due_utc alarm)),
      (''last_due_utc'', js_new_int64 J (al_last_due_utc alarm)), (''snoozed'', js_new_boolean J (al_snoozed alarm)),
      (''snooze_deadline_ms'', js_new_uint64 J (al_snooze_deadline_ms alarm))]"

lemma make_alarm_build: "make_alarm J alarm = build J (alarm_fields J alarm)"
  by (cases "js_new_object J") (simp_all add: make_alarm_def build_def alarm_fields_def add_defs)

definition stored_fields :: "'j json_library \<Rightarrow> clock_alarm \<Rightarrow> (string \<times> 'j option) list" where
  "stored_fields J alarm =
     [(''id'', js_new_uint64 J (ucast (al_id alarm))), (''generation'', js_new_uint64 J (ucast (al_generation alarm))),
      (''spec'', make_alarm_spec J (al_spec alarm)), (''last_due_utc'', js_new_int64 J (al_last_due_utc alarm))]"

lemma make_stored_build: "make_stored_alarm J alarm = build J (stored_fields J alarm)"
  by (cases "js_new_object J") (simp_all add: make_stored_alarm_def build_def stored_fields_def add_defs)

definition timer_fields :: "'j json_library \<Rightarrow> clock_timer \<Rightarrow> (string \<times> 'j option) list" where
  "timer_fields J timer =
     [(''state'', js_new_uint64 J (timer_number (ct_state timer))), (''generation'', js_new_uint64 J (ucast (ct_generation timer))),
      (''duration_seconds'', js_new_uint64 J (of_nat (ct_duration_seconds timer))),
      (''remaining_ms'', js_new_uint64 J (ct_remaining_ms timer)), (''deadline_ms'', js_new_uint64 J (ct_deadline_ms timer))]"

lemma make_timer_build: "make_timer J timer = build J (timer_fields J timer)"
  by (cases "js_new_object J") (simp_all add: make_timer_def build_def timer_fields_def add_defs)

definition lap_fields :: "'j json_library \<Rightarrow> clock_lap \<Rightarrow> (string \<times> 'j option) list" where
  "lap_fields J lap =
     [(''elapsed_ms'', js_new_uint64 J (lap_elapsed_ms lap)), (''difference_ms'', js_new_uint64 J (lap_difference_ms lap))]"

lemma make_lap_build: "make_lap J lap = build J (lap_fields J lap)"
  by (cases "js_new_object J") (simp_all add: make_lap_def build_def lap_fields_def add_defs)

definition stopwatch_fields :: "'j json_library \<Rightarrow> 'j \<Rightarrow> clock_stopwatch \<Rightarrow> (string \<times> 'j option) list" where
  "stopwatch_fields J arr stopwatch =
     [(''running'', js_new_boolean J (sw_running stopwatch)), (''elapsed_ms'', js_new_uint64 J (sw_elapsed_ms stopwatch)),
      (''laps'', Some (add_items J (make_lap J) (sw_laps stopwatch) arr))]"

lemma make_stopwatch_build: "js_new_array J = Some arr \<Longrightarrow> make_stopwatch J stopwatch = build J (stopwatch_fields J arr stopwatch)"
  by (cases "js_new_object J") (simp_all add: make_stopwatch_def build_def stopwatch_fields_def add_defs)

definition world_fields :: "'j json_library \<Rightarrow> clock_world_entry \<Rightarrow> (string \<times> 'j option) list" where
  "world_fields J entry =
     [(''id'', js_new_uint64 J (ucast (we_id entry))), (''offset_minutes'', js_new_int64 J (we_offset_minutes entry))]"

lemma make_world_build: "make_world J entry = build J (world_fields J entry)"
  by (cases "js_new_object J") (simp_all add: make_world_def build_def world_fields_def add_defs)

lemma distinct_fields [simp]:
  "distinct (map fst (spec_fields J spec))" "distinct (map fst (event_fields J event))"
  "distinct (map fst (alarm_fields J alarm))" "distinct (map fst (stored_fields J alarm))"
  "distinct (map fst (timer_fields J timer))" "distinct (map fst (lap_fields J lap))"
  "distinct (map fst (stopwatch_fields J arr stopwatch))" "distinct (map fst (world_fields J entry))"
  by (simp_all add: spec_fields_def event_fields_def alarm_fields_def stored_fields_def timer_fields_def lap_fields_def
      stopwatch_fields_def world_fields_def)

lemma length_fields [simp]:
  "length (spec_fields J spec) = 7" "length (event_fields J event) = 10" "length (alarm_fields J alarm) = 7"
  "length (stored_fields J alarm) = 4" "length (timer_fields J timer) = 5" "length (lap_fields J lap) = 2"
  "length (stopwatch_fields J arr stopwatch) = 3" "length (world_fields J entry) = 2"
  by (simp_all add: spec_fields_def event_fields_def alarm_fields_def stored_fields_def timer_fields_def lap_fields_def
      stopwatch_fields_def world_fields_def)

context json_laws
begin

lemma spec_round_trip:
  assumes "valid_spec spec" "label_ok (sp_label spec)"
  shows "read_alarm_spec J (make_alarm_spec J spec) = Some spec"
proof -
  have b: "sp_hour spec \<le> 23" "sp_minute spec \<le> 59" "sp_repeat_days spec \<le> 127" "valid_wall (sp_once_utc spec) \<or> sp_once_utc spec = 0"
    using assms(1) by (auto simp: valid_spec_def split: clock_alarm_schedule.split_asm)
  have n: "(of_nat (sp_hour spec) :: u64) \<le> 23" "(of_nat (sp_minute spec) :: u64) \<le> 59" "(of_nat (sp_repeat_days spec) :: u64) \<le> 127"
    using b(1-3) [THEN small_le] by simp_all
  have o: "0 \<le> sp_once_utc spec" "sp_once_utc spec \<le> CLOCK_WALL_MAX" using b(4) by (auto simp: valid_wall_def CLOCK_WALL_MIN_def CLOCK_WALL_MAX_def)
  have l: "clock_model_validate_text (sp_label spec) True = CLOCK_OK" using assms(2) by (simp add: label_ok_def)
  have r: "case sp_schedule spec of
      ALARM_ONCE \<Rightarrow> CLOCK_WALL_MIN \<le> sp_once_utc spec \<and> sp_once_utc spec mod 60 = 0 \<and> (of_nat (sp_hour spec) :: u64) = 0 \<and>
        (of_nat (sp_minute spec) :: u64) = 0 \<and> (of_nat (sp_repeat_days spec) :: u64) = 0
    | ALARM_WEEKLY \<Rightarrow> sp_once_utc spec = 0 \<and> (of_nat (sp_repeat_days spec) :: u64) \<noteq> 0"
    using assms(1) b(1-3) by (auto simp: valid_spec_def valid_wall_def small_0 split: clock_alarm_schedule.split_asm)
  show ?thesis
    unfolding make_spec_build [OF assms(2)] read_alarm_spec_def
    using b(1-3) n wall_int64 [OF b(4)] o l r
    by (simp add: read_build) (simp add: spec_fields_def)
qed

lemma event_round_trip:
  assumes "event_sendable e \<or> e = zero_event"
  shows "read_event J (make_event J e) = Some e"
proof -
  have l: "label_ok (ev_label e)" and w: "valid_wall (ev_due_wall_utc e) \<or> ev_due_wall_utc e = 0"
    using assms by (auto simp: event_sendable_def zero_event_def)
  have o: "0 \<le> ev_due_wall_utc e" "ev_due_wall_utc e \<le> CLOCK_WALL_MAX" "CLOCK_WALL_MIN \<le> ev_due_wall_utc e \<or> ev_due_wall_utc e = 0"
    using w by (auto simp: valid_wall_def CLOCK_WALL_MIN_def CLOCK_WALL_MAX_def)
  have t: "clock_model_validate_text (ev_label e) True = CLOCK_OK" using l by (simp add: label_ok_def)
  have r: "if ev_kind e = EVENT_NONE
          then ev_id e = 0 \<and> ev_source_id e = 0 \<and> ev_generation e = 0 \<and> ev_label e = [] \<and> ev_due_wall_utc e = 0 \<and>
               ev_due_monotonic_ms e = 0 \<and> ev_ring_started_ms e = 0 \<and> \<not> ev_snoozed e \<and> reason_number (ev_missed_reason e) = 0
          else ev_id e \<noteq> 0 \<and> ev_generation e \<noteq> 0 \<and> ev_due_wall_utc e \<ge> CLOCK_WALL_MIN \<and>
               (if ev_kind e = EVENT_ALARM then ev_source_id e \<noteq> 0 else ev_source_id e = 0) \<and>
               (ev_kind e = EVENT_ALARM \<or> \<not> ev_snoozed e)"
    using assms by (cases "ev_kind e") (auto simp: event_sendable_def zero_event_def valid_wall_def)
  show ?thesis
    unfolding make_event_build [OF l] read_event_def wall_value_def
    using wall_int64 [OF w] o t r
    by (simp add: read_build) (simp add: event_fields_def)
qed

lemma built_object:
  assumes "object = build J kvs" "distinct (map fst kvs)"
  obtains ob where "object = Some ob" "js_get_type J ob = json_type_object" "typed_field J (Some (Some ob)) json_type_object = Some ob"
  using build_laws [OF assms(2)] assms(1) by (metis typed_object [OF assms(2)])

lemma alarm_round_trip:
  assumes "alarm_wf a" "alarm_sendable a" "al_id a \<noteq> 0"
  shows "read_alarm J (make_alarm J a) = Some a"
proof -
  have v: "valid_spec (al_spec a)" "label_ok (sp_label (al_spec a))" "al_generation a \<noteq> 0"
    using assms by (simp_all add: alarm_wf_def alarm_sendable_def)
  have w: "valid_wall (al_next_due_utc a) \<or> al_next_due_utc a = 0" "valid_wall (al_last_due_utc a) \<or> al_last_due_utc a = 0"
    using assms(1) by (auto simp: alarm_wf_def occurs_def split: if_split_asm)
  obtain ob where ob: "make_alarm_spec J (al_spec a) = Some ob" "typed_field J (Some (Some ob)) json_type_object = Some ob"
    using built_object [OF make_spec_build [OF v(2)]] by auto
  show ?thesis
    unfolding make_alarm_build read_alarm_def wall_value_def
    using w [THEN wall_int64] w [THEN wall_between] v(3) assms(3) spec_round_trip [OF v(1,2)]
    by (simp add: read_build) (simp add: alarm_fields_def ob)
qed

lemma stored_round_trip:
  assumes "alarm_wf a" "alarm_sendable a" "al_id a \<noteq> 0" "n = 0 \<or> \<not> n \<le> ucast (al_id a)"
  shows "read_stored_alarm J wall n (make_stored_alarm J a) =
    Some (schedule_stored wall (a\<lparr>al_next_due_utc := 0, al_snoozed := False, al_snooze_deadline_ms := 0\<rparr>))"
proof -
  have v: "valid_spec (al_spec a)" "label_ok (sp_label (al_spec a))" "al_generation a \<noteq> 0" "60 dvd al_last_due_utc a"
    using assms by (auto simp: alarm_wf_def alarm_sendable_def)
  have w: "valid_wall (al_last_due_utc a) \<or> al_last_due_utc a = 0"
    using assms(1) by (auto simp: alarm_wf_def)
  obtain ob where ob: "make_alarm_spec J (al_spec a) = Some ob" "typed_field J (Some (Some ob)) json_type_object = Some ob"
    using built_object [OF make_spec_build [OF v(2)]] by auto
  have e: "a\<lparr>al_next_due_utc := 0, al_snoozed := False, al_snooze_deadline_ms := 0\<rparr> =
      \<lparr> al_id = al_id a, al_generation = al_generation a, al_spec = al_spec a, al_next_due_utc = 0,
        al_last_due_utc = al_last_due_utc a, al_snoozed = False, al_snooze_deadline_ms = 0 \<rparr>"
    by (cases a) simp
  show ?thesis
    unfolding make_stored_build read_stored_alarm_def wall_value_def e
    using wall_int64 [OF w] wall_between [OF w] v(3,4) assms(3,4) spec_round_trip [OF v(1,2)]
    by (simp add: read_build) (simp add: stored_fields_def ob)
qed

lemma timer_round_trip:
  assumes "ct_generation t \<noteq> 0" "ct_duration_seconds t \<le> CLOCK_TIMER_MAX_SECONDS"
    "unat (ct_remaining_ms t) \<le> ct_duration_seconds t * 1000"
  shows "read_timer J (make_timer J t) = Some t"
proof -
  have "unat (ct_remaining_ms t) \<le> 359999000" using assms(2,3) by (simp add: CLOCK_TIMER_MAX_SECONDS_def)
  then have "ct_remaining_ms t \<le> 359999000" by (simp add: word_le_nat_alt)
  moreover have "(of_nat (ct_duration_seconds t) :: u64) \<le> 359999" "ct_duration_seconds t < 2 ^ 64"
    using assms(2) small_le [of _ 359999] by (simp_all add: CLOCK_TIMER_MAX_SECONDS_def)
  ultimately show ?thesis
    unfolding make_timer_build read_timer_def using assms(1)
    by (simp add: read_build CLOCK_TIMER_MAX_SECONDS_def) (simp add: timer_fields_def)
qed

lemma lap_round_trip: "read_lap J (make_lap J lap) = Some lap"
  unfolding make_lap_build read_lap_def by (simp add: read_build) (simp add: lap_fields_def)

lemma stopwatch_round_trip:
  assumes "length (sw_laps sw) \<le> CLOCK_LAP_LIMIT"
  shows "read_stopwatch J (make_stopwatch J sw) = Some sw"
proof -
  obtain arr where a: "js_new_array J = Some arr" using new_array by blast
  have "read_items (read_lap J) (\<lambda>previous lap. True) (map (make_lap J) (sw_laps sw)) [] = Some (sw_laps sw)"
    using read_items_map [of "sw_laps sw" "read_lap J" "make_lap J" "\<lambda>x. x"] by (simp add: lap_round_trip)
  then show ?thesis
    unfolding make_stopwatch_build [OF a] read_stopwatch_def using assms
    by (simp add: read_build) (simp add: stopwatch_fields_def array_items [OF a])
qed

lemma world_round_trip:
  assumes "we_id w \<noteq> 0" "clock_model_world_offset_valid (we_offset_minutes w)"
  shows "read_world J (make_world J w) = Some w"
proof -
  have "- 720 \<le> we_offset_minutes w" "we_offset_minutes w \<le> 840" using assms(2) by (simp_all add: clock_model_world_offset_valid_def)
  then show ?thesis
    unfolding make_world_build read_world_def offset_value_def using assms
    by (simp add: read_build) (simp add: world_fields_def)
qed

end

subsection \<open>The whole model\<close>

definition model_fields :: "'j json_library \<Rightarrow> 'j \<Rightarrow> clock_model \<Rightarrow> (string \<times> 'j option) list" where
  "model_fields J arr model =
     [(''wall_utc'', js_new_int64 J (cm_wall_utc model)), (''monotonic_ms'', js_new_uint64 J (cm_monotonic_ms model)),
      (''view'', js_new_uint64 J (view_number (cm_view model))),
      (''snooze_minutes'', js_new_uint64 J (of_nat (cm_snooze_minutes model))),
      (''last_alarm_hour'', js_new_uint64 J (of_nat (cm_last_alarm_hour model))),
      (''last_alarm_minute'', js_new_uint64 J (of_nat (cm_last_alarm_minute model))),
      (''alarms'', Some (add_items J (make_alarm J) (cm_alarms model) arr)), (''active'', make_event J (cm_active model)),
      (''queue'', Some (add_items J (make_event J) (cm_queue model) arr)),
      (''missed'', Some (add_items J (make_event J) (cm_missed model) arr)),
      (''missed_total'', js_new_uint64 J (cm_missed_total model)), (''timer'', make_timer J (cm_timer model)),
      (''stopwatch'', make_stopwatch J (cm_stopwatch model)),
      (''world'', Some (add_items J (make_world J) (cm_world model) arr)),
      (''next_alarm_id'', js_new_uint64 J (ucast (cm_next_alarm_id model))),
      (''next_world_id'', js_new_uint64 J (ucast (cm_next_world_id model))),
      (''next_event_id'', js_new_uint64 J (cm_next_event_id model))]"

definition within_limits :: "clock_model \<Rightarrow> bool" where
  "within_limits m \<longleftrightarrow> length (cm_alarms m) \<le> CLOCK_ALARM_LIMIT \<and> length (cm_queue m) \<le> CLOCK_QUEUE_LIMIT \<and>
     length (cm_missed m) \<le> CLOCK_MISSED_LIMIT \<and> length (cm_world m) \<le> CLOCK_WORLD_LIMIT \<and>
     length (sw_laps (cm_stopwatch m)) \<le> CLOCK_LAP_LIMIT"

lemma make_model_build:
  "js_new_array J = Some arr \<Longrightarrow> within_limits m \<Longrightarrow> make_model J m = build J (model_fields J arr m)"
  by (cases "js_new_object J")
    (simp_all add: make_model_def build_def model_fields_def add_defs within_limits_def not_less)

lemma model_fields_shape [simp]: "distinct (map fst (model_fields J arr m))" "length (model_fields J arr m) = 17"
  by (simp_all add: model_fields_def)

lemma distinct_before:
  assumes "distinct (map f xs)" "i < length xs"
  shows "list_all (\<lambda>y. f (xs ! i) \<noteq> f y) (take i xs)"
  using assms by (auto simp: list_all_iff in_set_conv_nth distinct_conv_nth)

context json_laws
begin

lemma alarms_round_trip:
  assumes "alarms_inv n alarms" "list_all alarm_sendable alarms"
  shows "read_items (read_alarm J) new_alarm_id (map (make_alarm J) alarms) [] = Some alarms"
proof -
  have "read_alarm J (make_alarm J a) = Some a" if "a \<in> set alarms" for a
    using that assms by (intro alarm_round_trip) (auto simp: alarms_inv_def list_all_iff ids_below_def)
  moreover have "distinct (map al_id alarms)" using assms(1) by (simp add: alarms_inv_def ids_below_def)
  note distinct_before [OF this]
  ultimately show ?thesis
    using read_items_map [of alarms "read_alarm J" "make_alarm J" "\<lambda>x. x" new_alarm_id "[]"]
    by (simp add: new_alarm_id_def)
qed

lemma worlds_round_trip:
  assumes "world_inv n world"
  shows "read_items (read_world J) new_world_entry (map (make_world J) world) [] = Some world"
proof -
  have "read_world J (make_world J w) = Some w" if "w \<in> set world" for w
    using that assms by (intro world_round_trip) (auto simp: world_inv_def list_all_iff ids_below_def)
  moreover have "list_all (\<lambda>y. we_id (world ! i) \<noteq> we_id y \<and> we_offset_minutes (world ! i) \<noteq> we_offset_minutes y) (take i world)"
    if "i < length world" for i
    using that assms distinct_before [of we_id world i] distinct_before [of we_offset_minutes world i]
    by (auto simp: world_inv_def ids_below_def list_all_iff)
  ultimately show ?thesis
    using read_items_map [of world "read_world J" "make_world J" "\<lambda>x. x" new_world_entry "[]"]
    by (simp add: new_world_entry_def)
qed

lemma events_round_trip:
  assumes "list_all event_sendable events" "list_all ok events"
  shows "read_items (read_event J) (\<lambda>previous. ok) (map (make_event J) events) [] = Some events"
  using read_items_map [of events "read_event J" "make_event J" "\<lambda>x. x" "\<lambda>previous. ok" "[]"] assms event_round_trip
  by (auto simp: list_all_iff)

lemma model_round_trip:
  assumes "wire_inv m"
  shows "read_model J (make_model J m) = Some m"
proof -
  have wf: "clock_wf m" and s: "sendable m" using assms by (simp_all add: wire_inv_def clock_inv_def)
  obtain arr where arr: "js_new_array J = Some arr" using new_array by blast
  have lim: "within_limits m" using wf
    by (simp add: within_limits_def clock_wf_def alarms_inv_def queue_inv_def missed_inv_def world_inv_def stopwatch_inv_def)
  have b: "cm_snooze_minutes m \<le> 30" "cm_last_alarm_hour m \<le> 23" "cm_last_alarm_minute m \<le> 59" "1 \<le> cm_snooze_minutes m"
    using wf by (auto simp: clock_wf_def settings_inv_def)
  have n: "(of_nat (cm_snooze_minutes m) :: u64) \<le> 30" "(of_nat (cm_last_alarm_hour m) :: u64) \<le> 23"
      "(of_nat (cm_last_alarm_minute m) :: u64) \<le> 59" "(of_nat (cm_snooze_minutes m) :: u64) \<noteq> 0"
    using b small_le [of _ 30] small_le [of _ 23] small_le [of _ 59] by (simp_all add: small_0)
  have w: "valid_wall (cm_wall_utc m)" using wf by (simp add: clock_wf_def settings_inv_def)
  have act: "read_event J (make_event J (cm_active m)) = Some (cm_active m)" "ev_missed_reason (cm_active m) = MISSED_NONE"
      "label_ok (ev_label (cm_active m))"
    using s event_round_trip [of "cm_active m"]
    by (auto simp: sendable_def fresh_event_def zero_event_def event_sendable_def)
  obtain ao where ao: "make_event J (cm_active m) = Some ao" "typed_field J (Some (Some ao)) json_type_object = Some ao"
    using built_object [OF make_event_build [OF act(3)]] by auto
  obtain to where to: "make_timer J (cm_timer m) = Some to" "typed_field J (Some (Some to)) json_type_object = Some to"
    using built_object [OF make_timer_build] by auto
  obtain so where so: "make_stopwatch J (cm_stopwatch m) = Some so" "typed_field J (Some (Some so)) json_type_object = Some so"
    using built_object [OF make_stopwatch_build [OF arr]] by auto
  have t: "read_timer J (make_timer J (cm_timer m)) = Some (cm_timer m)"
    using wf s by (intro timer_round_trip) (auto simp: clock_wf_def timer_inv_def sendable_def)
  have sw: "read_stopwatch J (make_stopwatch J (cm_stopwatch m)) = Some (cm_stopwatch m)"
    using lim by (intro stopwatch_round_trip) (simp add: within_limits_def)
  have al: "read_items (read_alarm J) new_alarm_id (map (make_alarm J) (cm_alarms m)) [] = Some (cm_alarms m)"
    using wf s by (intro alarms_round_trip) (auto simp: clock_wf_def sendable_def)
  have wo: "read_items (read_world J) new_world_entry (map (make_world J) (cm_world m)) [] = Some (cm_world m)"
    using wf by (intro worlds_round_trip) (auto simp: clock_wf_def)
  have qu: "read_items (read_event J) (\<lambda>previous event. ev_kind event \<noteq> EVENT_NONE \<and> ev_missed_reason event = MISSED_NONE)
      (map (make_event J) (cm_queue m)) [] = Some (cm_queue m)"
    using s by (intro events_round_trip) (auto simp: sendable_def list_all_iff fresh_event_def event_sendable_def)
  have mi: "read_items (read_event J) (\<lambda>previous event. ev_kind event \<noteq> EVENT_NONE \<and> ev_missed_reason event \<noteq> MISSED_NONE)
      (map (make_event J) (cm_missed m)) [] = Some (cm_missed m)"
    using s wf by (intro events_round_trip) (auto simp: sendable_def clock_wf_def missed_inv_def)
  have "length (cm_missed m) < 2 ^ 64" "length (cm_missed m) \<le> unat (cm_missed_total m)"
    using wf by (auto simp: clock_wf_def missed_inv_def CLOCK_MISSED_LIMIT_def)
  then have mt: "(of_nat (length (cm_missed m)) :: u64) \<le> cm_missed_total m" by (simp add: word_le_nat_alt)
  show ?thesis
    unfolding make_model_build [OF arr lim] read_model_def wall_value_def
    using wall_int64 [of "cm_wall_utc m"] w b n act t sw al wo qu mi mt lim
    by (simp add: read_build) (simp add: model_fields_def ao to so array_items [OF arr] within_limits_def valid_wall_def)
qed

end

subsection \<open>Preferences\<close>

definition preference_fields :: "'j json_library \<Rightarrow> 'j \<Rightarrow> clock_model \<Rightarrow> (string \<times> 'j option) list" where
  "preference_fields J arr model =
     [(''view'', js_new_uint64 J (view_number (cm_view model))),
      (''snooze_minutes'', js_new_uint64 J (of_nat (cm_snooze_minutes model))),
      (''last_alarm_hour'', js_new_uint64 J (of_nat (cm_last_alarm_hour model))),
      (''last_alarm_minute'', js_new_uint64 J (of_nat (cm_last_alarm_minute model))),
      (''timer_duration_seconds'', js_new_uint64 J (of_nat (ct_duration_seconds (cm_timer model)))),
      (''next_alarm_id'', js_new_uint64 J (ucast (cm_next_alarm_id model))),
      (''next_world_id'', js_new_uint64 J (ucast (cm_next_world_id model))),
      (''alarms'', Some (add_items J (make_stored_alarm J) (cm_alarms model) arr)),
      (''world'', Some (add_items J (make_world J) (cm_world model) arr))]"

lemma make_preferences_build:
  "js_new_array J = Some arr \<Longrightarrow> within_limits m \<Longrightarrow> make_preferences J m = build J (preference_fields J arr m)"
  by (cases "js_new_object J")
    (simp_all add: make_preferences_def build_def preference_fields_def add_defs within_limits_def not_less)

lemma preference_fields_shape [simp]:
  "distinct (map fst (preference_fields J arr m))" "length (preference_fields J arr m) = 9"
  by (simp_all add: preference_fields_def)

text \<open>
  What the storage keeps: the settings, the alarms without a snooze and due again after the
  current time, the duration of the timer and the world clocks; everything else starts anew.
\<close>

definition stored_alarm :: "clock_alarm \<Rightarrow> clock_alarm" where
  "stored_alarm a = a\<lparr>al_next_due_utc := 0, al_snoozed := False, al_snooze_deadline_ms := 0\<rparr>"

definition restart :: "clock_model \<Rightarrow> clock_model \<Rightarrow> clock_model" where
  "restart m0 m =
     m0\<lparr>cm_view := cm_view m, cm_snooze_minutes := cm_snooze_minutes m, cm_last_alarm_hour := cm_last_alarm_hour m,
        cm_last_alarm_minute := cm_last_alarm_minute m,
        cm_timer := (cm_timer m0)\<lparr>ct_duration_seconds := ct_duration_seconds (cm_timer m),
          ct_remaining_ms := of_nat (ct_duration_seconds (cm_timer m)) * 1000\<rparr>,
        cm_next_alarm_id := cm_next_alarm_id m, cm_next_world_id := cm_next_world_id m,
        cm_alarms := map (\<lambda>a. schedule_stored (cm_wall_utc m0) (stored_alarm a)) (cm_alarms m), cm_world := cm_world m\<rparr>"

lemma schedule_stored_id: "al_id (schedule_stored wall a) = al_id a"
  by (simp add: schedule_stored_def split: option.split)

context json_laws
begin

lemma stored_alarms_round_trip:
  assumes "alarms_inv n alarms" "list_all alarm_sendable alarms"
  shows "read_items (read_stored_alarm J wall (ucast n)) new_alarm_id (map (make_stored_alarm J) alarms) [] =
    Some (map (\<lambda>a. schedule_stored wall (stored_alarm a)) alarms)"
proof -
  have "read_stored_alarm J wall (ucast n) (make_stored_alarm J a) = Some (schedule_stored wall (stored_alarm a))"
    if "a \<in> set alarms" for a
    unfolding stored_alarm_def using that assms
    by (intro stored_round_trip)
      (auto simp: alarms_inv_def list_all_iff ids_below_def word_le_nat_alt word_less_nat_alt unat_widen not_le)
  moreover have "distinct (map al_id alarms)" using assms(1) by (simp add: alarms_inv_def ids_below_def)
  note distinct_before [OF this]
  then have "new_alarm_id (map (\<lambda>a. schedule_stored wall (stored_alarm a)) (take i alarms))
      (schedule_stored wall (stored_alarm (alarms ! i)))" if "i < length alarms" for i
    using that by (auto simp: new_alarm_id_def list_all_iff schedule_stored_id stored_alarm_def)
  ultimately show ?thesis
    using read_items_map [of alarms "read_stored_alarm J wall (ucast n)" "make_stored_alarm J"
        "\<lambda>a. schedule_stored wall (stored_alarm a)" new_alarm_id "[]"]
    by simp
qed

lemma stored_worlds_round_trip:
  assumes "world_inv n world"
  shows "read_items (read_stored_world J (ucast n)) new_world_entry (map (make_world J) world) [] = Some world"
proof -
  have "read_stored_world J (ucast n) (make_world J w) = Some w" if "w \<in> set world" for w
  proof -
    have "we_id w \<noteq> 0" "clock_model_world_offset_valid (we_offset_minutes w)" "n = 0 \<or> we_id w < n"
      using that assms by (auto simp: world_inv_def list_all_iff ids_below_def)
    then show ?thesis
      by (simp add: read_stored_world_def world_round_trip word_le_nat_alt word_less_nat_alt unat_widen not_le)
  qed
  moreover have "list_all (\<lambda>y. we_id (world ! i) \<noteq> we_id y \<and> we_offset_minutes (world ! i) \<noteq> we_offset_minutes y) (take i world)"
    if "i < length world" for i
    using that assms distinct_before [of we_id world i] distinct_before [of we_offset_minutes world i]
    by (auto simp: world_inv_def ids_below_def list_all_iff)
  ultimately show ?thesis
    using read_items_map [of world "read_stored_world J (ucast n)" "make_world J" "\<lambda>x. x" new_world_entry "[]"]
    by (simp add: new_world_entry_def)
qed

lemma preferences_round_trip:
  assumes "wire_inv m"
  shows "read_preferences J (make_preferences J m) m0 = Some (restart m0 m)"
proof -
  have wf: "clock_wf m" and s: "sendable m" using assms by (simp_all add: wire_inv_def clock_inv_def)
  obtain arr where arr: "js_new_array J = Some arr" using new_array by blast
  have lim: "within_limits m" using wf
    by (simp add: within_limits_def clock_wf_def alarms_inv_def queue_inv_def missed_inv_def world_inv_def stopwatch_inv_def)
  have b: "cm_snooze_minutes m \<le> 30" "cm_last_alarm_hour m \<le> 23" "cm_last_alarm_minute m \<le> 59" "1 \<le> cm_snooze_minutes m"
      "ct_duration_seconds (cm_timer m) \<le> 359999"
    using wf by (auto simp: clock_wf_def settings_inv_def timer_inv_def CLOCK_TIMER_MAX_SECONDS_def)
  have n: "(of_nat (cm_snooze_minutes m) :: u64) \<le> 30" "(of_nat (cm_last_alarm_hour m) :: u64) \<le> 23"
      "(of_nat (cm_last_alarm_minute m) :: u64) \<le> 59" "(of_nat (cm_snooze_minutes m) :: u64) \<noteq> 0"
      "(of_nat (ct_duration_seconds (cm_timer m)) :: u64) \<le> 359999"
    using b small_le [of _ 30] small_le [of _ 23] small_le [of _ 59] small_le [of _ 359999] by (simp_all add: small_0)
  have al: "read_items (read_stored_alarm J (cm_wall_utc m0) (ucast (cm_next_alarm_id m))) new_alarm_id
      (map (make_stored_alarm J) (cm_alarms m)) [] = Some (map (\<lambda>a. schedule_stored (cm_wall_utc m0) (stored_alarm a)) (cm_alarms m))"
    using wf s by (intro stored_alarms_round_trip) (auto simp: clock_wf_def sendable_def)
  have wo: "read_items (read_stored_world J (ucast (cm_next_world_id m))) new_world_entry (map (make_world J) (cm_world m)) [] =
      Some (cm_world m)"
    using wf by (intro stored_worlds_round_trip) (auto simp: clock_wf_def)
  show ?thesis
    unfolding make_preferences_build [OF arr lim] read_preferences_def
    using b n al wo lim
    by (simp add: read_build CLOCK_TIMER_MAX_SECONDS_def)
      (simp add: preference_fields_def array_items [OF arr] within_limits_def restart_def)
qed

end

subsection \<open>Requests\<close>

lemma bytes_of_inj: "bytes_of s = bytes_of t \<longleftrightarrow> s = t"
proof
  have inj: "inj (\<lambda>c. of_nat (of_char c) :: u8)"
  proof (rule injI)
    fix c d :: char
    assume *: "(of_nat (of_char c) :: u8) = of_nat (of_char d)"
    have "unat (of_nat (of_char e :: nat) :: u8) = of_char e" for e :: char
      by (simp add: unat_of_nat take_bit_nat_eq_self_iff)
    with * have "(of_char c :: nat) = of_char d" by metis
    then show "c = d" by simp
  qed
  assume "bytes_of s = bytes_of t"
  then show "s = t" using inj by (simp add: bytes_of_def inj_map_eq_map)
qed simp

text \<open>The requests that are accepted, and what is left of one: the fields of its operation.\<close>

definition request_ok :: "clock_request \<Rightarrow> bool" where
  "request_ok r \<longleftrightarrow> (has_id (rq_op r) \<longrightarrow> rq_id r \<noteq> 0) \<and>
     (rq_op r \<in> {REQUEST_ALARM_ADD, REQUEST_ALARM_EDIT} \<longrightarrow> valid_spec (rq_alarm r) \<and> label_ok (sp_label (rq_alarm r))) \<and>
     (rq_op r \<in> {REQUEST_DISMISS, REQUEST_SNOOZE} \<longrightarrow> rq_event_id r \<noteq> 0) \<and>
     (rq_op r \<in> {REQUEST_SNOOZE, REQUEST_SET_SNOOZE} \<longrightarrow> rq_minutes r \<le> 30) \<and>
     (rq_op r = REQUEST_SET_SNOOZE \<longrightarrow> rq_minutes r \<noteq> 0) \<and>
     (rq_op r = REQUEST_TIMER_SET \<longrightarrow> rq_seconds r \<le> CLOCK_TIMER_MAX_SECONDS) \<and>
     (rq_op r \<in> {REQUEST_WORLD_ADD, REQUEST_WORLD_EDIT} \<longrightarrow> clock_model_world_offset_valid (rq_offset_minutes r))"

definition kept :: "clock_request \<Rightarrow> clock_request" where
  "kept r = \<lparr> rq_op = rq_op r,
     rq_alarm = (if rq_op r \<in> {REQUEST_ALARM_ADD, REQUEST_ALARM_EDIT} then rq_alarm r else zero_spec),
     rq_id = (if has_id (rq_op r) then rq_id r else 0),
     rq_event_id = (if rq_op r \<in> {REQUEST_DISMISS, REQUEST_SNOOZE} then rq_event_id r else 0),
     rq_cancel_active = (has_cancel (rq_op r) \<and> rq_cancel_active r),
     rq_enabled = (rq_op r = REQUEST_ALARM_ENABLE \<and> rq_enabled r),
     rq_seconds = (if rq_op r = REQUEST_TIMER_SET then rq_seconds r else 0),
     rq_minutes = (if rq_op r \<in> {REQUEST_SNOOZE, REQUEST_SET_SNOOZE} then rq_minutes r else 0),
     rq_offset_minutes = (if rq_op r \<in> {REQUEST_WORLD_ADD, REQUEST_WORLD_EDIT} then rq_offset_minutes r else 0),
     rq_view = (if rq_op r = REQUEST_SET_VIEW then rq_view r else VIEW_DIGITAL) \<rparr>"

definition argument_fields :: "'j json_library \<Rightarrow> clock_request \<Rightarrow> (string \<times> 'j option) list" where
  "argument_fields J r =
     (if rq_op r \<in> {REQUEST_ALARM_ADD, REQUEST_ALARM_EDIT} then [(''alarm'', make_alarm_spec J (rq_alarm r))]
      else if rq_op r = REQUEST_ALARM_ENABLE then [(''enabled'', js_new_boolean J (rq_enabled r))]
      else if rq_op r = REQUEST_DISMISS then [(''event_id'', js_new_uint64 J (rq_event_id r))]
      else if rq_op r = REQUEST_SNOOZE
      then [(''event_id'', js_new_uint64 J (rq_event_id r)), (''minutes'', js_new_uint64 J (of_nat (rq_minutes r)))]
      else if rq_op r = REQUEST_TIMER_SET then [(''seconds'', js_new_uint64 J (of_nat (rq_seconds r)))]
      else if rq_op r \<in> {REQUEST_WORLD_ADD, REQUEST_WORLD_EDIT}
      then [(''offset_minutes'', js_new_int64 J (rq_offset_minutes r))]
      else if rq_op r = REQUEST_SET_VIEW then [(''view'', js_new_uint64 J (view_number (rq_view r)))]
      else if rq_op r = REQUEST_SET_SNOOZE then [(''minutes'', js_new_uint64 J (of_nat (rq_minutes r)))]
      else [])"

definition request_fields :: "'j json_library \<Rightarrow> clock_request \<Rightarrow> (string \<times> 'j option) list" where
  "request_fields J r =
     (''op'', js_new_string J (bytes_of (the (clock_wire_request_name (rq_op r))))) #
     (if has_id (rq_op r) then [(''id'', js_new_uint64 J (ucast (rq_id r)))] else []) @
     (if has_cancel (rq_op r) then [(''cancel_active'', js_new_boolean J (rq_cancel_active r))] else []) @
     argument_fields J r"

lemma make_request_build: "make_request J r = build J (request_fields J r)"
proof (cases "js_new_object J")
  case None
  then show ?thesis by (cases "clock_wire_request_name (rq_op r)") (simp_all add: make_request_def build_def)
next
  case (Some ob)
  have name: "clock_wire_request_name (rq_op r) = Some (the (clock_wire_request_name (rq_op r)))"
    by (cases "rq_op r") (simp_all add: clock_wire_request_name_def request_names_def)
  let ?add = "foldl (\<lambda>ob (k, v). js_object_add J ob k v)"
  have "add_arguments J r o1 = ?add o1 (argument_fields J r)" for o1
    by (simp add: argument_fields_def add_arguments_def add_defs)
  then show ?thesis
    unfolding make_request_def build_def request_fields_def by (subst name) (simp add: Some add_defs del: bytes_of_simps)
qed

lemma request_fields_distinct [simp]: "distinct (map fst (request_fields J r))"
  by (simp add: request_fields_def argument_fields_def)

lemma find_request:
  "find (\<lambda>(op, name). the (clock_wire_request_name op0) = name) request_names = Some (op0, the (clock_wire_request_name op0))"
  by (cases op0) (simp_all add: clock_wire_request_name_def request_names_def)

context json_laws
begin

lemma request_round_trip:
  assumes "request_ok r"
  shows "read_request J (make_request J r) = Some (kept r)"
proof -
  let ?o = "build J (request_fields J r)"
  have op: "object_member J ?o ''op'' json_type_string \<noteq> None"
    using new_string [of "bytes_of (the (clock_wire_request_name (rq_op r)))"]
    by (simp add: member_build) (auto simp: request_fields_def simp del: bytes_of_simps)
  have f: "find (\<lambda>(op, name). literal_value J ?o ''op'' name) request_names = Some (rq_op r, the (clock_wire_request_name (rq_op r)))"
    using find_request [of "rq_op r"]
    by (simp add: literal_build) (simp add: request_fields_def bytes_of_inj del: bytes_of_simps)
  obtain so where so: "rq_op r \<in> {REQUEST_ALARM_ADD, REQUEST_ALARM_EDIT} \<Longrightarrow>
      make_alarm_spec J (rq_alarm r) = Some so \<and> typed_field J (Some (Some so)) json_type_object = Some so \<and>
      read_alarm_spec J (Some so) = Some (rq_alarm r)"
  proof (cases "rq_op r \<in> {REQUEST_ALARM_ADD, REQUEST_ALARM_EDIT}")
    case True
    then have v: "valid_spec (rq_alarm r)" "label_ok (sp_label (rq_alarm r))" using assms by (auto simp: request_ok_def)
    from built_object [OF make_spec_build [OF v(2)]] obtain so where "make_alarm_spec J (rq_alarm r) = Some so"
      "typed_field J (Some (Some so)) json_type_object = Some so" by auto
    with spec_round_trip [OF v] that show thesis by auto
  qed (use that in blast)
  have m: "rq_minutes r \<le> 30 \<Longrightarrow> (of_nat (rq_minutes r) :: u64) \<le> 30" "rq_seconds r \<le> 359999 \<Longrightarrow> (of_nat (rq_seconds r) :: u64) \<le> 359999"
    using small_le [of _ 30] small_le [of _ 359999] by simp_all
  have o: "clock_model_world_offset_valid i \<Longrightarrow>
      signed_field J (Some (js_new_int64 J i)) (- 2147483648) 2147483647 = Some i" for i
    by (simp add: clock_model_world_offset_valid_def)
  let ?q1 = "zero_request\<lparr>rq_op := rq_op r, rq_id := (if has_id (rq_op r) then rq_id r else 0)\<rparr>"
  let ?n1 = "if has_id (rq_op r) then 2 else 1 :: nat"
  let ?q2 = "?q1\<lparr>rq_cancel_active := (has_cancel (rq_op r) \<and> rq_cancel_active r)\<rparr>"
  let ?n2 = "if has_cancel (rq_op r) then ?n1 + 1 else ?n1"
  have z: "rq_op (zero_request\<lparr>rq_op := rq_op r\<rparr>) = rq_op r" by simp
  have i: "read_id J ?o (zero_request\<lparr>rq_op := rq_op r\<rparr>, 1) = Some (?q1, ?n1)"
    using assms by (simp add: read_id_def read_build) (simp add: request_fields_def request_ok_def zero_request_def)
  have c: "read_cancel J ?o (?q1, ?n1) = Some (?q2, ?n2)"
    by (simp add: read_cancel_def read_build) (simp add: request_fields_def zero_request_def)
  have a: "read_arguments J ?o (?q2, ?n2) = Some (kept r, length (request_fields J r))"
  proof -
    define q n where "q = ?q2" and "n = ?n2"
    then have q: "rq_op q = rq_op r" by simp
    have "read_arguments J ?o (q, n) = Some (kept r, length (request_fields J r))"
      using assms so m
      by (cases "rq_op r"; simp add: q read_arguments_def offset_value_def read_build request_ok_def has_id_def has_cancel_def;
          simp add: q_def n_def kept_def zero_request_def request_fields_def argument_fields_def has_id_def has_cancel_def
            CLOCK_TIMER_MAX_SECONDS_def small_0 o numeral_3_eq_3)
    then show ?thesis by (simp only: q_def n_def)
  qed
  show ?thesis
    using op unfolding make_request_build read_request_def
    by (auto simp only: f i c a fst_conv Option.bind.simps prod.case shape_build request_fields_distinct require_True simp_thms)
qed

end

subsection \<open>Snapshots and rings\<close>

definition result_ok :: "clock_result \<Rightarrow> bool" where
  "result_ok r \<longleftrightarrow> 0 \<le> rs_error r \<and> rs_error r \<le> 2147483647 \<and> (rs_state r = STORAGE_DURABLE \<longleftrightarrow> rs_error r = 0) \<and>
     (if rs_status r = CLOCK_OK then rs_applied r else rs_status r = CLOCK_STORAGE_ERROR \<or> \<not> rs_applied r)"

definition snapshot_fields :: "'j json_library \<Rightarrow> clock_model \<Rightarrow> clock_result \<Rightarrow> u64 \<Rightarrow> (string \<times> 'j option) list" where
  "snapshot_fields J m r serial =
     [(''op'', js_new_string J (bytes_of ''snapshot'')),
      (''status'', js_new_string J (bytes_of (clock_model_status_name (rs_status r)))),
      (''applied'', js_new_boolean J (rs_applied r)), (''storage'', js_new_string J (bytes_of (storage_name (rs_state r)))),
      (''error'', js_new_int64 J (rs_error r)), (''serial'', js_new_uint64 J serial), (''model'', make_model J m)]"

lemma make_snapshot_build: "make_snapshot J m r serial = build J (snapshot_fields J m r serial)"
  by (cases "js_new_object J") (simp_all add: make_snapshot_def build_def snapshot_fields_def add_defs del: bytes_of_simps)

definition ring_fields :: "'j json_library \<Rightarrow> clock_ring \<Rightarrow> u64 \<Rightarrow> (string \<times> 'j option) list" where
  "ring_fields J ring serial =
     [(''op'', js_new_string J (bytes_of ''ring'')), (''serial'', js_new_uint64 J serial),
      (''event'', make_event J (rg_event ring)), (''snooze_minutes'', js_new_uint64 J (of_nat (rg_snooze_minutes ring))),
      (''missed_total'', js_new_uint64 J (rg_missed_total ring))]"

lemma make_ring_build: "make_ring J ring serial = build J (ring_fields J ring serial)"
  by (cases "js_new_object J") (simp_all add: make_ring_def build_def ring_fields_def add_defs del: bytes_of_simps)

lemma message_fields_shape [simp]:
  "distinct (map fst (snapshot_fields J m r serial))" "length (snapshot_fields J m r serial) = 7"
  "distinct (map fst (ring_fields J ring serial))" "length (ring_fields J ring serial) = 5"
  by (simp_all add: snapshot_fields_def ring_fields_def)

lemma find_status: "find (\<lambda>s. clock_model_status_name s0 = clock_model_status_name s) all_statuses = Some s0"
  by (cases s0) (simp_all add: all_statuses_def)

lemma find_storage:
  "find (\<lambda>s. storage_name s0 = storage_name s) [STORAGE_UNPUBLISHED, STORAGE_PUBLISHED_UNSYNCED, STORAGE_DURABLE] = Some s0"
  by (cases s0) simp_all

context json_laws
begin

lemma result_round_trip:
  assumes "result_ok r"
  shows "read_result J (build J (snapshot_fields J m r serial)) = Some r"
proof -
  let ?o = "build J (snapshot_fields J m r serial)"
  have s: "read_status J ?o = Some (rs_status r)"
    unfolding read_status_def literal_build [OF message_fields_shape(1)] using find_status [of "rs_status r"]
    by (simp add: snapshot_fields_def bytes_of_inj del: bytes_of_simps)
  have t: "find (\<lambda>state. literal_value J ?o ''storage'' (storage_name state))
      [STORAGE_UNPUBLISHED, STORAGE_PUBLISHED_UNSYNCED, STORAGE_DURABLE] = Some (rs_state r)"
    unfolding literal_build [OF message_fields_shape(1)] using find_storage [of "rs_state r"]
    by (simp add: snapshot_fields_def bytes_of_inj del: bytes_of_simps)
  have u: "uint (of_int (rs_error r) :: u64) = rs_error r" using assms
    by (simp add: result_ok_def uint_word_of_int take_bit_int_eq_self_iff)
  then have e: "(of_int (rs_error r) :: u64) \<le> 0x7fffffff" "(of_int (rs_error r) :: u64) = 0 \<longleftrightarrow> rs_error r = 0"
    using assms by (simp_all add: result_ok_def word_le_def word_uint_eq_iff)
  have b: "boolean_value J ?o ''applied'' = Some (rs_applied r)" "unsigned_value J ?o ''error'' 0x7fffffff = Some (of_int (rs_error r))"
    using assms e(1) by (simp_all add: read_build) (simp_all add: snapshot_fields_def result_ok_def)
  have c: "if rs_state r = STORAGE_DURABLE then (of_int (rs_error r) :: u64) = 0 else (of_int (rs_error r) :: u64) \<noteq> 0"
    "if rs_status r = CLOCK_OK then rs_applied r else rs_status r = CLOCK_STORAGE_ERROR \<or> \<not> rs_applied r"
    using assms by (auto simp: result_ok_def e(2))
  show ?thesis
    unfolding read_result_def s b t Option.bind.simps using c by (simp add: u)
qed

lemma snapshot_round_trip:
  assumes "wire_inv m" "result_ok r"
  shows "read_snapshot J (make_snapshot J m r serial) = Some (m, r, serial)"
proof -
  obtain arr where arr: "js_new_array J = Some arr" using new_array by blast
  have lim: "within_limits m" using assms(1)
    by (simp add: within_limits_def wire_inv_def clock_inv_def clock_wf_def alarms_inv_def queue_inv_def missed_inv_def world_inv_def stopwatch_inv_def)
  obtain mo where mo: "make_model J m = Some mo" "typed_field J (Some (Some mo)) json_type_object = Some mo"
    using built_object [OF make_model_build [OF arr lim]] by auto
  have "literal_value J (build J (snapshot_fields J m r serial)) ''op'' ''snapshot''"
    by (simp add: literal_build) (simp add: snapshot_fields_def del: bytes_of_simps)
  moreover have "unsigned_value J (build J (snapshot_fields J m r serial)) ''serial'' UINT64_MAX = Some serial"
    by (simp add: unsigned_build) (simp add: snapshot_fields_def)
  moreover have "object_member J (build J (snapshot_fields J m r serial)) ''model'' json_type_object = Some mo"
    by (simp add: member_build) (simp add: snapshot_fields_def mo)
  ultimately show ?thesis
    unfolding make_snapshot_build read_snapshot_def
    using result_round_trip [OF assms(2), of m serial] model_round_trip [OF assms(1)] by (simp add: mo)
qed

lemma ring_round_trip:
  assumes "wire_inv m"
  shows "read_ring J (make_ring J (clock_wire_ring_from_model m) serial) = Some (clock_wire_ring_from_model m, serial)"
proof -
  have s: "sendable m" and w: "1 \<le> cm_snooze_minutes m" "cm_snooze_minutes m \<le> 30"
    using assms by (simp_all add: wire_inv_def clock_inv_def clock_wf_def settings_inv_def)
  have act: "read_event J (make_event J (cm_active m)) = Some (cm_active m)" "ev_missed_reason (cm_active m) = MISSED_NONE"
      "label_ok (ev_label (cm_active m))"
    using s event_round_trip [of "cm_active m"]
    by (auto simp: sendable_def fresh_event_def zero_event_def event_sendable_def)
  obtain ao where ao: "make_event J (cm_active m) = Some ao" "typed_field J (Some (Some ao)) json_type_object = Some ao"
    using built_object [OF make_event_build [OF act(3)]] by auto
  have n: "(of_nat (cm_snooze_minutes m) :: u64) \<le> 30" "(of_nat (cm_snooze_minutes m) :: u64) \<noteq> 0"
    using w small_le [of _ 30] by (simp_all add: small_0)
  show ?thesis
    unfolding make_ring_build read_ring_def using act n w
    by (simp add: read_build) (simp add: ring_fields_def clock_wire_ring_from_model_def ao del: bytes_of_simps)
qed

end

end
