(* ===== verification/Clock_Messages.thy ===== *)
theory Clock_Messages
  imports Clock_Codec
begin

section \<open>The clock daemon and its messages\<close>

text \<open>
  What the daemon promises to its clients and to its storage, over the model of the clock and the
  codec together.
\<close>

subsection \<open>A JSON library for the witnesses\<close>

text \<open>
  Trees with the functions that \<^verbatim>\<open>clock-wire.c\<close> calls.  Numbers are printed, the other values are
  not, and no text is parsed: the laws ask for nothing else.
\<close>

datatype json = JNull | JBool bool | JInt int | JStr bytes | JArr "json option list" | JObj "(string \<times> json option) list"

fun json_type_of :: "json \<Rightarrow> json_type" where
  "json_type_of JNull = json_type_null"
| "json_type_of (JBool b) = json_type_boolean"
| "json_type_of (JInt i) = json_type_int"
| "json_type_of (JStr bs) = json_type_string"
| "json_type_of (JArr vs) = json_type_array"
| "json_type_of (JObj kvs) = json_type_object"

definition tree_library :: "json json_library" where
  "tree_library =
     \<lparr> js_get_type = json_type_of,
       js_object_get_ex = (\<lambda>ob k. case ob of JObj kvs \<Rightarrow> map_of kvs k | _ \<Rightarrow> None),
       js_object_length = (\<lambda>ob. case ob of JObj kvs \<Rightarrow> length kvs | _ \<Rightarrow> 0),
       js_array_length = (\<lambda>arr. case arr of JArr vs \<Rightarrow> length vs | _ \<Rightarrow> 0),
       js_array_get_idx = (\<lambda>arr i. case arr of JArr vs \<Rightarrow> if i < length vs then vs ! i else None | _ \<Rightarrow> None),
       js_get_uint64 = (\<lambda>j. case j of JInt i \<Rightarrow> of_int i | _ \<Rightarrow> 0),
       js_get_int64 = (\<lambda>j. case j of JInt i \<Rightarrow> i | _ \<Rightarrow> 0),
       js_get_boolean = (\<lambda>j. case j of JBool b \<Rightarrow> b | _ \<Rightarrow> False),
       js_get_string = (\<lambda>j. case j of JStr bs \<Rightarrow> bs | _ \<Rightarrow> []),
       js_to_json_string = (\<lambda>j. case j of JInt i \<Rightarrow> Some (if i < 0 then [0x2d] else [0x30]) | _ \<Rightarrow> Some []),
       js_new_object = Some (JObj []), js_new_array = Some (JArr []),
       js_new_uint64 = (\<lambda>n. Some (JInt (uint n))), js_new_int64 = (\<lambda>i. Some (JInt i)),
       js_new_boolean = (\<lambda>b. Some (JBool b)), js_new_string = (\<lambda>bs. Some (JStr bs)),
       js_object_add = (\<lambda>ob k v. case ob of JObj kvs \<Rightarrow> JObj ((k, v) # kvs) | _ \<Rightarrow> ob),
       js_array_add = (\<lambda>arr v. case arr of JArr vs \<Rightarrow> JArr (vs @ [v]) | _ \<Rightarrow> arr),
       js_tokener_parse = (\<lambda>depth validate bs. None) \<rparr>"

interpretation tree: json_laws tree_library
proof unfold_locales
  fix ob k v
  assume "js_get_type tree_library ob = json_type_object" "js_object_get_ex tree_library ob k = None"
  then show "js_get_type tree_library (js_object_add tree_library ob k v) = json_type_object \<and>
      js_object_length tree_library (js_object_add tree_library ob k v) = Suc (js_object_length tree_library ob) \<and>
      js_object_get_ex tree_library (js_object_add tree_library ob k v) = (js_object_get_ex tree_library ob)(k \<mapsto> v)"
    by (cases ob) (auto simp: tree_library_def)
next
  fix arr v
  assume "js_get_type tree_library arr = json_type_array"
  then show "js_get_type tree_library (js_array_add tree_library arr v) = json_type_array \<and>
      js_array_length tree_library (js_array_add tree_library arr v) = Suc (js_array_length tree_library arr) \<and>
      js_array_get_idx tree_library (js_array_add tree_library arr v) (js_array_length tree_library arr) = v \<and>
      (\<forall>i < js_array_length tree_library arr.
         js_array_get_idx tree_library (js_array_add tree_library arr v) i = js_array_get_idx tree_library arr i)"
    by (cases arr) (auto simp: tree_library_def nth_append)
qed (auto simp: tree_library_def prints_minus_def)

lemma evening_daemon: "daemon_reachable J evening"
  using evening_init by (auto simp: daemon_reachable_def clock_initial_def)

subsection \<open>Properties\<close>

text \<open>
  C2.  Whatever requests its clients send, whatever the storage holds and however the time runs,
  the daemon keeps the invariant of the clock: at most eight valid alarms with different ids, a
  bounded queue of events that stand for existing alarms or the finished timer, consistent timer,
  stopwatch and world clocks, and nothing that is overdue while event ids are left.  This holds
  for any behaviour of the JSON library.
\<close>

theorem daemon_keeps_invariant:
  assumes "daemon_reachable J m"
  shows "clock_inv m"
  by (rule daemon_reachable_inv [OF assms])

theorem daemon_keeps_invariant_witness: "clock_inv evening"
  by (rule daemon_keeps_invariant [OF evening_daemon [of tree_library]])


definition set_snooze_request :: clock_request where
  "set_snooze_request = zero_request\<lparr>rq_op := REQUEST_SET_SNOOZE, rq_minutes := 10\<rparr>"

lemma set_snooze_kept: "request_ok set_snooze_request" "kept set_snooze_request = set_snooze_request"
  by (simp_all add: set_snooze_request_def zero_request_def request_ok_def kept_def has_id_def has_cancel_def)

lemma set_snooze_applied:
  "clock_wire_request_apply tree_library evening set_snooze_request = (CLOCK_OK, evening\<lparr>cm_snooze_minutes := 10\<rparr>)"
proof -
  have "rq_op set_snooze_request = REQUEST_SET_SNOOZE" "rq_minutes set_snooze_request = 10"
    by (simp_all add: set_snooze_request_def)
  then show ?thesis using tree.request_round_trip [OF set_snooze_kept(1)]
    by (simp add: clock_wire_request_apply_def set_snooze_kept once_elapsed_def apply_checked_def clock_model_set_snooze_def)
qed


text \<open>
  C32.  A request within its bounds passes the codec: the encoder does not refuse it, the reader
  gives back the request with the fields of its operation and zeros elsewhere, and applying it
  performs this operation, unless it asks for a single alarm in the past.
\<close>

theorem request_read_back:
  assumes "json_laws J" "request_ok r"
  shows "clock_wire_request_encode J r capacity = write_object J (make_request J r) capacity \<and>
    read_request J (make_request J r) = Some (kept r) \<and>
    clock_wire_request_apply J m r =
      (if once_elapsed m (kept r) then (CLOCK_INVALID, m) else apply_checked m (kept r))"
  using json_laws.request_round_trip [OF assms]
  by (simp add: clock_wire_request_encode_def clock_wire_request_apply_def)

theorem request_read_back_witness:
  "read_request tree_library (make_request tree_library set_snooze_request) = Some set_snooze_request"
  using request_read_back [OF tree.json_laws_axioms set_snooze_kept(1)] by (simp add: set_snooze_kept)



lemma next_due_exists:
  assumes "valid_spec spec" "valid_wall after" "occurs spec u" "after < u"
  shows "clock_model_alarm_next_due spec after \<noteq> None"
proof (cases "sp_schedule spec")
  case ALARM_ONCE
  then show ?thesis using assms by (simp add: clock_model_alarm_next_due_def occurs_def)
next
  case ALARM_WEEKLY
  then show ?thesis using next_due_weekly(1) [OF assms(1) _ assms(2), of u] assms(3,4) by force
qed

lemma schedule_stored_spec:
  assumes "alarm_wf a" "alarm_sendable a" "valid_wall wall" "sp_enabled (al_spec a) \<longrightarrow> wall < al_next_due_utc a"
  shows "al_spec (schedule_stored wall (stored_alarm a)) = al_spec a"
    "al_generation (schedule_stored wall (stored_alarm a)) = al_generation a"
proof -
  have "clock_model_alarm_next_due (al_spec a) (if wall > al_last_due_utc a then wall else al_last_due_utc a) \<noteq> None"
    if "sp_enabled (al_spec a)"
    using that assms by (intro next_due_exists [of _ _ "al_next_due_utc a"])
      (auto simp: alarm_wf_def alarm_sendable_def valid_wall_def CLOCK_WALL_MIN_def)
  then show "al_spec (schedule_stored wall (stored_alarm a)) = al_spec a"
    "al_generation (schedule_stored wall (stored_alarm a)) = al_generation a"
    by (auto simp: schedule_stored_def stored_alarm_def split: option.split if_split_asm)
qed



end
