(* ===== verification/Audio_Mixer.thy ===== *)
theory Audio_Mixer
  imports Prelude "HOL-Library.Signed_Division"
begin

section \<open>The mixing core of the audio service\<close>

text \<open>
  \<^verbatim>\<open>alpine/aports/fplinux-audiod/audio-mixer.c\<close>.  Counters, phases and masks keep their width:
  stream positions are 32-bit words that wrap, output positions 64-bit words.  Samples, gains and
  the mix are \<open>int\<close>; that no signed operation leaves the 32 bits of the source is proved below.
  \<open>>>\<close> of a signed value rounds down, \<open>/\<close> rounds to zero (\<open>sdiv\<close>).  The frames of a ring are
  shared memory: what they hold is an argument of the operations that read them, where the source
  has the pointer \<^verbatim>\<open>frames\<close>.  The mix is the list of its interleaved samples.  A period has at
  least one frame, since the source divides by their number.
\<close>

subsection \<open>Data\<close>

definition MIXER_RATE :: u32 where "MIXER_RATE = 48000"
definition UNITY :: int where "UNITY = 32768"
definition HISTORY :: nat where "HISTORY = 16"

record fplinux_audio_mixer_gain =
  mg_current :: int
  mg_target :: int

record fplinux_audio_mixer_mark =
  mk_output :: u64
  mk_read :: u32

record fplinux_audio_mixer_stream =
  ms_mask :: u32
  ms_channels :: nat
  ms_step :: u64
  ms_read :: u32
  ms_phase :: u32
  ms_heard :: u32
  ms_paused :: bool
  ms_gain :: fplinux_audio_mixer_gain
  ms_last :: "int \<times> int"
  ms_marks :: "fplinux_audio_mixer_mark list"
  ms_newest :: nat
  ms_count :: nat

definition zero_mark :: fplinux_audio_mixer_mark where
  "zero_mark = \<lparr> mk_output = 0, mk_read = 0 \<rparr>"

subsection \<open>Operations\<close>

definition fplinux_audio_mixer_stream_init :: "u32 \<Rightarrow> u32 \<Rightarrow> nat \<Rightarrow> u64 \<Rightarrow> fplinux_audio_mixer_stream" where
  "fplinux_audio_mixer_stream_init capacity rate channels output =
     \<lparr> ms_mask = capacity - 1, ms_channels = channels,
       ms_step = push_bit 32 (ucast rate) div ucast MIXER_RATE,
       ms_read = 0, ms_phase = 0, ms_heard = 0, ms_paused = False,
       ms_gain = \<lparr> mg_current = UNITY, mg_target = UNITY \<rparr>, ms_last = (0, 0),
       ms_marks = \<lparr> mk_output = output, mk_read = 0 \<rparr> # replicate (HISTORY - 1) zero_mark,
       ms_newest = 0, ms_count = 1 \<rparr>"

definition frame_at :: "int list \<Rightarrow> fplinux_audio_mixer_stream \<Rightarrow> u32 \<Rightarrow> int \<times> int" where
  "frame_at ring stream index =
     (let at = unat (index AND ms_mask stream) * ms_channels stream
      in (ring ! at, ring ! (at + ms_channels stream - 1)))"

definition sample :: "int \<Rightarrow> int \<Rightarrow> int \<Rightarrow> int \<Rightarrow> int" where
  "sample first next fraction gain = (first + (next - first) * fraction div 32768) * gain div 32768"

definition ramp_slope :: "fplinux_audio_mixer_gain \<Rightarrow> nat \<Rightarrow> int" where
  "ramp_slope gain frames = (mg_target gain - mg_current gain) * 32768 sdiv int frames"

definition remember :: "fplinux_audio_mixer_stream \<Rightarrow> u64 \<Rightarrow> fplinux_audio_mixer_stream" where
  "remember stream output =
     (let newest = (ms_newest stream + 1) mod HISTORY
      in stream\<lparr>ms_newest := newest,
                ms_marks := (ms_marks stream)[newest := \<lparr> mk_output = output, mk_read = ms_read stream \<rparr>],
                ms_count := (if ms_count stream < HISTORY then ms_count stream + 1 else ms_count stream)\<rparr>)"

text \<open>Adding to the two samples of an output frame.\<close>

definition add_frame :: "int list \<Rightarrow> nat \<Rightarrow> int \<times> int \<Rightarrow> int list" where
  "add_frame mix k lr = mix[2 * k := mix ! (2 * k) + fst lr, 2 * k + 1 := mix ! (2 * k + 1) + snd lr]"

text \<open>
  The body of the loop of \<^verbatim>\<open>resample\<close>: the samples of the output frame at an offset, with the
  last frame written standing in for its missing successor.
\<close>

definition resample_frame ::
    "int list \<Rightarrow> fplinux_audio_mixer_stream \<Rightarrow> u32 \<Rightarrow> u64 \<Rightarrow> int \<Rightarrow> int \<times> int" where
  "resample_frame ring stream available offset level =
     (let whole = ucast (drop_bit 32 offset) :: u32;
          (left0, right0) = frame_at ring stream (ms_read stream + whole);
          (left1, right1) = (if whole + 1 < available then frame_at ring stream (ms_read stream + whole + 1)
                             else (left0, right0));
          fraction = uint (drop_bit 17 (ucast offset :: u32));
          gain = level div 32768
      in (sample left0 left1 fraction gain, sample right0 right1 fraction gain))"

fun resample_loop ::
    "int list \<Rightarrow> fplinux_audio_mixer_stream \<Rightarrow> u32 \<Rightarrow> int \<Rightarrow> nat \<Rightarrow> nat \<Rightarrow> u64 \<Rightarrow> int \<Rightarrow> int \<times> int \<Rightarrow> int list \<Rightarrow>
     nat \<times> u64 \<times> (int \<times> int) \<times> int list" where
  "resample_loop ring stream available slope 0 made offset level lr mix = (made, offset, lr, mix)"
| "resample_loop ring stream available slope (Suc n) made offset level lr mix =
     (if (ucast (drop_bit 32 offset) :: u32) \<ge> available then (made, offset, lr, mix)
      else
        let lr = resample_frame ring stream available offset level
        in resample_loop ring stream available slope n (made + 1) (offset + ms_step stream) (level + slope) lr
             (add_frame mix made lr))"

definition resample ::
    "int list \<Rightarrow> fplinux_audio_mixer_stream \<Rightarrow> u32 \<Rightarrow> int list \<Rightarrow> nat \<Rightarrow>
     nat \<times> fplinux_audio_mixer_stream \<times> int list" where
  "resample ring stream available mix frames =
     (case resample_loop ring stream available (ramp_slope (ms_gain stream) frames) frames 0
             (ucast (ms_phase stream)) (mg_current (ms_gain stream) * 32768) (0, 0) mix of
        (made, offset, lr, mix) \<Rightarrow>
          (made,
           stream\<lparr>ms_read := ms_read stream + ucast (drop_bit 32 offset), ms_phase := ucast offset,
                  ms_gain := (ms_gain stream)\<lparr>mg_current := mg_target (ms_gain stream)\<rparr>,
                  ms_last := (if made = frames then lr else (0, 0))\<rparr>,
           mix))"

fun ramp_down_loop :: "nat \<Rightarrow> nat \<Rightarrow> int \<Rightarrow> int \<Rightarrow> int \<times> int \<Rightarrow> int list \<Rightarrow> int list" where
  "ramp_down_loop 0 i level slope tail mix = mix"
| "ramp_down_loop (Suc n) i level slope tail mix =
     (let level = level - slope; factor = level div 32768
      in ramp_down_loop n (i + 1) level slope tail
           (add_frame mix i (fst tail * factor div 32768, snd tail * factor div 32768)))"

definition fplinux_audio_mixer_ramp_down :: "int list \<Rightarrow> nat \<Rightarrow> int \<times> int \<Rightarrow> int list" where
  "fplinux_audio_mixer_ramp_down mix frames tail =
     (if fst tail = 0 \<and> snd tail = 0 then mix
      else ramp_down_loop frames 0 (2 ^ 30) (2 ^ 30 div int frames) tail mix)"

text \<open>\<^const>\<open>None\<close> is the result -1: the write counter is further ahead than the ring is long.\<close>

definition fplinux_audio_mixer_mix ::
    "int list \<Rightarrow> fplinux_audio_mixer_stream \<Rightarrow> u32 \<Rightarrow> int list \<Rightarrow> nat \<Rightarrow> u64 \<Rightarrow>
     nat option \<times> fplinux_audio_mixer_stream \<times> int list" where
  "fplinux_audio_mixer_mix ring stream write mix frames output_end =
     (if ms_paused stream then
        (Some 0,
         remember (stream\<lparr>ms_last := (0, 0), ms_gain := (ms_gain stream)\<lparr>mg_current := 0\<rparr>\<rparr>) output_end,
         fplinux_audio_mixer_ramp_down mix frames (ms_last stream))
      else
        let available = write - ms_read stream in
        if available > ms_mask stream + 1 then (None, stream, mix)
        else case resample ring stream available mix frames of
          (made, stream, mix) \<Rightarrow> (Some made, remember stream output_end, mix))"

text \<open>The search of \<^verbatim>\<open>fplinux_audio_mixer_heard\<close>, back from the newest mark.\<close>

definition heard_at :: "nat \<Rightarrow> fplinux_audio_mixer_mark \<Rightarrow> fplinux_audio_mixer_mark \<Rightarrow> u64 \<Rightarrow> u32" where
  "heard_at i mark later played =
     (if i = 0 then mk_read mark
      else mk_read mark + ucast ((ucast (mk_read later - mk_read mark) :: u64) * (played - mk_output mark) div
                                 (mk_output later - mk_output mark)))"

fun heard_search :: "fplinux_audio_mixer_stream \<Rightarrow> u64 \<Rightarrow> nat \<Rightarrow> nat \<Rightarrow> nat \<Rightarrow> nat \<Rightarrow> u32 option" where
  "heard_search stream played 0 i index later = None"
| "heard_search stream played (Suc n) i index later =
     (if mk_output (ms_marks stream ! index) \<le> played
      then Some (heard_at i (ms_marks stream ! index) (ms_marks stream ! later) played)
      else heard_search stream played n (i + 1) ((index + HISTORY - 1) mod HISTORY) index)"

definition fplinux_audio_mixer_heard ::
    "fplinux_audio_mixer_stream \<Rightarrow> u64 \<Rightarrow> u32 \<times> fplinux_audio_mixer_stream" where
  "fplinux_audio_mixer_heard stream played =
     (let stream =
        (case heard_search stream played (ms_count stream) 0 (ms_newest stream) (ms_newest stream) of
           None \<Rightarrow> stream
         | Some heard \<Rightarrow> if sint (heard - ms_heard stream) > 0 then stream\<lparr>ms_heard := heard\<rparr> else stream)
      in (ms_heard stream, stream))"

definition saturate :: "int \<Rightarrow> int" where
  "saturate value = (if value > 32767 then 32767 else if value < -32768 then -32768 else value)"

fun master_loop :: "nat \<Rightarrow> nat \<Rightarrow> int \<Rightarrow> int \<Rightarrow> int list \<Rightarrow> int list" where
  "master_loop 0 i level slope mix = mix"
| "master_loop (Suc n) i level slope mix =
     (let factor = level div 32768
      in master_loop n (i + 1) (level + slope) slope
           (mix[2 * i := mix ! (2 * i) * factor div 32768, 2 * i + 1 := mix ! (2 * i + 1) * factor div 32768]))"

definition fplinux_audio_mixer_master ::
    "int list \<Rightarrow> nat \<Rightarrow> fplinux_audio_mixer_gain \<Rightarrow> int list \<times> fplinux_audio_mixer_gain" where
  "fplinux_audio_mixer_master mix frames gain =
     (master_loop frames 0 (mg_current gain * 32768) (ramp_slope gain frames) mix,
      gain\<lparr>mg_current := mg_target gain\<rparr>)"

definition fplinux_audio_mixer_output :: "int list \<Rightarrow> nat \<Rightarrow> int list" where
  "fplinux_audio_mixer_output mix frames = map (\<lambda>i. saturate (mix ! i)) [0..<2 * frames]"

subsection \<open>Positions\<close>

lemma unat_whole: "unat (ucast (drop_bit 32 (x :: u64)) :: u32) = unat x div 2 ^ 32"
proof -
  have "unat x < 2 ^ 64" using unsigned_less [of x, where 'a=nat] by simp
  then have "unat x div 2 ^ 32 < 2 ^ 32" by (simp add: div_less_iff_less_mult)
  then show ?thesis by (simp add: unsigned_ucast_eq unat_drop_bit take_bit_nat_eq_self_iff)
qed

lemma unat_low: "unat (ucast (x :: u64) :: u32) = unat x mod 2 ^ 32"
  by (simp add: unsigned_ucast_eq take_bit_eq_mod)

lemma unat_phase: "unat (ucast (x :: u32) :: u64) = unat x"
  using unsigned_less [of x, where 'a=nat] by (simp add: unsigned_ucast_eq take_bit_nat_eq_self_iff)

abbreviation whole :: "u64 \<Rightarrow> nat" where
  "whole offset \<equiv> unat offset div 2 ^ 32"

lemma add_frame_nth:
  "2 * k + 1 < length mix \<Longrightarrow> j < length mix \<Longrightarrow>
   add_frame mix k lr ! j = mix ! j + (if j = 2 * k then fst lr else if j = 2 * k + 1 then snd lr else 0)"
  by (auto simp: add_frame_def nth_list_update)

lemma length_add_frame [simp]: "length (add_frame mix k lr) = length mix"
  by (simp add: add_frame_def)

text \<open>
  What a run of the loop has done when it stops: output frame \<open>k\<close> was made at the offset \<open>k\<close>
  steps on, with the level \<open>k\<close> slopes on, and the loop stopped because the period was full or the
  next offset lies past the frames available.
\<close>

lemma resample_loop_spec:
  assumes "resample_loop ring s available slope n m offset level lr mix = (m', offset', lr', mix')"
    "2 * (m + n) \<le> length mix"
  shows "m \<le> m' \<and> m' \<le> m + n \<and> offset' = offset + of_nat (m' - m) * ms_step s \<and> length mix' = length mix \<and>
    (\<forall>k. m \<le> k \<and> k < m' \<longrightarrow> whole (offset + of_nat (k - m) * ms_step s) < unat available) \<and>
    (m' < m + n \<longrightarrow> unat available \<le> whole offset') \<and>
    (\<forall>j < length mix. mix' ! j = mix ! j +
       (if m \<le> j div 2 \<and> j div 2 < m'
        then (if even j then fst else snd) (resample_frame ring s available
          (offset + of_nat (j div 2 - m) * ms_step s) (level + int (j div 2 - m) * slope))
        else 0)) \<and>
    lr' = (if m' = m then lr else resample_frame ring s available (offset + of_nat (m' - 1 - m) * ms_step s)
             (level + int (m' - 1 - m) * slope))"
  using assms
proof (induction n arbitrary: m offset level lr mix)
  case (Suc n)
  show ?case
  proof (cases "(ucast (drop_bit 32 offset) :: u32) \<ge> available")
    case True
    then show ?thesis using Suc.prems(1) by (auto simp: word_le_nat_alt unat_whole)
  next
    case False
    define f where "f = resample_frame ring s available offset level"
    have run: "resample_loop ring s available slope n (m + 1) (offset + ms_step s) (level + slope) f (add_frame mix m f) =
        (m', offset', lr', mix')"
      using Suc.prems(1) False by (simp add: f_def Let_def)
    have len: "2 * (m + 1 + n) \<le> length (add_frame mix m f)" using Suc.prems(2) by simp
    note IH = Suc.IH [OF run len]
    have shift: "offset + ms_step s + of_nat (k - (m + 1)) * ms_step s = offset + of_nat (k - m) * ms_step s"
      "level + slope + int (k - (m + 1)) * slope = level + int (k - m) * slope" if "m < k" for k
    proof -
      have k: "k - m = Suc (k - (m + 1))" using that by simp
      show "offset + ms_step s + of_nat (k - (m + 1)) * ms_step s = offset + of_nat (k - m) * ms_step s"
        "level + slope + int (k - (m + 1)) * slope = level + int (k - m) * slope"
        unfolding k by (simp_all add: algebra_simps)
    qed
    define g where "g k = resample_frame ring s available (offset + of_nat (k - m) * ms_step s) (level + int (k - m) * slope)" for k
    have g: "g m = f" "m < k \<Longrightarrow> resample_frame ring s available (offset + ms_step s + of_nat (k - (m + 1)) * ms_step s)
        (level + slope + int (k - (m + 1)) * slope) = g k" for k
      by (simp add: g_def f_def) (simp only: g_def shift)
    have IH1: "m + 1 \<le> m'" "m' \<le> m + 1 + n" "length mix' = length mix" "m' < m + 1 + n \<longrightarrow> unat available \<le> whole offset'"
      "offset' = offset + ms_step s + of_nat (m' - (m + 1)) * ms_step s"
      using IH unfolding length_add_frame by blast+
    have first: "whole offset < unat available" using False by (simp add: word_le_nat_alt unat_whole)
    have "whole (offset + of_nat (k - m) * ms_step s) < unat available" if "m \<le> k" "k < m'" for k
    proof (cases "k = m")
      case False
      then have "whole (offset + ms_step s + of_nat (k - (m + 1)) * ms_step s) < unat available" using IH that by auto
      moreover have "m < k" using False that by simp
      ultimately show ?thesis by (simp only: shift(1))
    qed (use first in simp)
    moreover have "mix' ! j = mix ! j + (if m \<le> j div 2 \<and> j div 2 < m' then (if even j then fst else snd) (g (j div 2)) else 0)"
      if "j < length mix" for j
    proof -
      have two: "2 * m + 1 < length mix" using Suc.prems(2) by simp
      have add: "add_frame mix m f ! j = mix ! j + (if j div 2 = m then (if even j then fst else snd) f else 0)"
        using add_frame_nth [OF two that, of f] by (auto elim!: evenE oddE)
      have "mix' ! j = add_frame mix m f ! j +
         (if m + 1 \<le> j div 2 \<and> j div 2 < m'
          then (if even j then fst else snd) (resample_frame ring s available
            (offset + ms_step s + of_nat (j div 2 - (m + 1)) * ms_step s) (level + slope + int (j div 2 - (m + 1)) * slope))
          else 0)"
        using IH that by (simp only: length_add_frame)
      then have "mix' ! j = add_frame mix m f ! j + (if m < j div 2 \<and> j div 2 < m' then (if even j then fst else snd) (g (j div 2)) else 0)"
        using g(2) [of "j div 2"] by (simp add: Suc_le_eq split: if_split_asm)
      then show ?thesis using IH1(1) unfolding add by (cases "j div 2" m rule: linorder_cases) (simp_all add: g(1))
    qed
    moreover have "offset' = offset + of_nat (m' - m) * ms_step s" using IH1(1,5) shift(1) [of m'] by simp
    moreover have "lr' = g (m' - 1)"
    proof (cases "m' = m + 1")
      case True
      then show ?thesis using IH by (simp add: g(1))
    next
      case False
      then have "lr' = resample_frame ring s available (offset + ms_step s + of_nat (m' - 1 - (m + 1)) * ms_step s)
          (level + slope + int (m' - 1 - (m + 1)) * slope)"
        using IH by (simp only: if_False)
      then show ?thesis using False IH1(1) g(2) [of "m' - 1"] by simp
    qed
    ultimately show ?thesis using IH1 unfolding g_def by auto
  qed
qed auto

text \<open>With at most one stream frame per output frame the offset never passes the frames available.\<close>

lemma offset_step:
  assumes "unat step \<le> 2 ^ 32" "whole offset < unat (available :: u32)"
  shows "unat (offset + step) = unat offset + unat step" "whole (offset + step) \<le> unat available"
proof -
  have a: "unat available < 2 ^ 32" using unsigned_less [of available, where 'a=nat] by simp
  have "unat offset < (whole offset + 1) * 2 ^ 32" by (simp add: div_mult_mod_eq [symmetric] dividend_less_div_times)
  also have "\<dots> \<le> unat available * 2 ^ 32" using assms(2) by (intro mult_right_mono) auto
  finally have o: "unat offset + unat step < (unat available + 1) * 2 ^ 32" using assms(1) by simp
  also have "\<dots> \<le> 2 ^ 32 * 2 ^ 32" using a by (intro mult_right_mono) auto
  finally show sum: "unat (offset + step) = unat offset + unat step" by (simp add: unat_add_lem [THEN iffD1])
  have "(unat offset + unat step) div 2 ^ 32 < unat available + 1" using o by (simp add: div_less_iff_less_mult)
  then show "whole (offset + step) \<le> unat available" unfolding sum by simp
qed

lemma offset_run:
  assumes "unat (ms_step s) \<le> 2 ^ 32" "whole offset \<le> unat (available :: u32)"
    "\<And>k. k < n \<Longrightarrow> whole (offset + of_nat k * ms_step s) < unat available"
  shows "unat (offset + of_nat n * ms_step s) = unat offset + n * unat (ms_step s) \<and>
    whole (offset + of_nat n * ms_step s) \<le> unat available"
  using assms(3)
proof (induction n)
  case (Suc n)
  have eq: "offset + of_nat (Suc n) * ms_step s = offset + of_nat n * ms_step s + ms_step s" by (simp add: algebra_simps)
  have "whole (offset + of_nat n * ms_step s) < unat available" using Suc.prems by blast
  from offset_step [OF assms(1) this] Suc show ?case unfolding eq by auto
qed (use assms(2) in simp)

text \<open>A ramp stays between its ends, and its gain within 0 and unity.\<close>

definition gain_ok :: "fplinux_audio_mixer_gain \<Rightarrow> bool" where
  "gain_ok g \<longleftrightarrow> 0 \<le> mg_current g \<and> mg_current g \<le> UNITY \<and> 0 \<le> mg_target g \<and> mg_target g \<le> UNITY"

lemma sdiv_between:
  fixes d :: int
  assumes "0 < n" "k \<le> n"
  shows "0 \<le> d \<Longrightarrow> 0 \<le> int k * (d sdiv int n) \<and> int k * (d sdiv int n) \<le> d"
    "d \<le> 0 \<Longrightarrow> d \<le> int k * (d sdiv int n) \<and> int k * (d sdiv int n) \<le> 0"
proof -
  have *: "0 \<le> int k * (e div int n) \<and> int k * (e div int n) \<le> e" if "0 \<le> e" for e :: int
  proof -
    have q: "0 \<le> e div int n" using that assms(1) by (simp add: pos_imp_zdiv_nonneg_iff)
    have "int k * (e div int n) \<le> int n * (e div int n)" using assms(2) q by (intro mult_right_mono) auto
    also have "\<dots> \<le> e" using assms(1) pos_mod_sign [of "int n" e] mult_div_mod_eq [of "int n" e] by linarith
    finally show ?thesis using q by simp
  qed
  show "0 \<le> int k * (d sdiv int n) \<and> int k * (d sdiv int n) \<le> d" if "0 \<le> d"
    using * [OF that] that assms(1) by (simp add: signed_divide_int_def sgn_if)
  show "d \<le> int k * (d sdiv int n) \<and> int k * (d sdiv int n) \<le> 0" if "d \<le> 0"
    using * [of "- d"] that assms(1) by (simp add: signed_divide_int_def sgn_if)
qed

lemma level_bounds:
  assumes "gain_ok g" "0 < frames" "k \<le> frames"
  shows "0 \<le> mg_current g * 32768 + int k * ramp_slope g frames \<and>
    mg_current g * 32768 + int k * ramp_slope g frames \<le> 2 ^ 30"
proof -
  let ?d = "(mg_target g - mg_current g) * 32768"
  note between = sdiv_between [OF assms(2,3), of ?d]
  consider "0 \<le> ?d" | "?d \<le> 0" by linarith
  then show ?thesis using assms(1) between unfolding ramp_slope_def gain_ok_def UNITY_def by cases auto
qed

lemma gain_bounds:
  assumes "gain_ok g" "0 < frames" "k \<le> frames"
  shows "0 \<le> (mg_current g * 32768 + int k * ramp_slope g frames) div 32768"
    "(mg_current g * 32768 + int k * ramp_slope g frames) div 32768 \<le> UNITY"
proof -
  note b = level_bounds [OF assms]
  show "0 \<le> (mg_current g * 32768 + int k * ramp_slope g frames) div 32768"
    using b by (simp only: pos_imp_zdiv_nonneg_iff zero_less_numeral)
  have "(mg_current g * 32768 + int k * ramp_slope g frames) div 32768 \<le> 2 ^ 30 div 32768" using b by (intro zdiv_mono1) auto
  then show "(mg_current g * 32768 + int k * ramp_slope g frames) div 32768 \<le> UNITY" by (simp add: UNITY_def)
qed

subsection \<open>Samples\<close>

definition int16 :: "int \<Rightarrow> bool" where
  "int16 x \<longleftrightarrow> - (2 ^ 15) \<le> x \<and> x < 2 ^ 15"

definition int32 :: "int \<Rightarrow> bool" where
  "int32 x \<longleftrightarrow> - (2 ^ 31) \<le> x \<and> x < 2 ^ 31"

lemma scaled_between:
  fixes d :: int
  assumes "0 \<le> f" "f < 32768"
  shows "min 0 d * 32768 \<le> d * f \<and> d * f \<le> max 0 d * 32768"
proof (cases "0 \<le> d")
  case True
  then have "0 \<le> d * f" "d * f \<le> d * 32768" using assms by (auto intro: mult_nonneg_nonneg mult_left_mono)
  then show ?thesis using True by simp
next
  case False
  then have "d * f \<le> 0" "d * 32768 \<le> d * f" using assms by (auto intro: mult_nonpos_nonneg mult_left_mono_neg)
  then show ?thesis using False by simp
qed

lemma interpolate_int16:
  assumes "int16 a" "int16 b" "0 \<le> f" "f < 32768"
  shows "int16 (a + (b - a) * f div 32768)" "int32 ((b - a) * f)"
proof -
  have ends: "min 0 (b - a) * 32768 \<le> (b - a) * f" "(b - a) * f \<le> max 0 (b - a) * 32768"
    using scaled_between [OF assms(3,4), of "b - a"] by auto
  have "min 0 (b - a) * 32768 div 32768 \<le> (b - a) * f div 32768" using ends(1) by (rule zdiv_mono1) simp
  moreover have "(b - a) * f div 32768 \<le> max 0 (b - a) * 32768 div 32768" using ends(2) by (rule zdiv_mono1) simp
  ultimately have "min 0 (b - a) \<le> (b - a) * f div 32768" "(b - a) * f div 32768 \<le> max 0 (b - a)" by simp_all
  then show "int16 (a + (b - a) * f div 32768)" using assms(1,2) by (auto simp: int16_def min_def max_def split: if_split_asm)
  have d: "\<bar>b - a\<bar> \<le> 65535" using assms(1,2) by (auto simp: int16_def)
  have "\<bar>(b - a) * f\<bar> = \<bar>b - a\<bar> * f" using assms(3) by (simp add: abs_mult)
  also have "\<dots> \<le> 65535 * 32767" using d assms(3,4) by (intro mult_mono) auto
  finally show "int32 ((b - a) * f)" by (auto simp: int32_def abs_le_iff)
qed

lemma scale_int16:
  assumes "int16 x" "0 \<le> g" "g \<le> UNITY"
  shows "int16 (x * g div 32768)" "int32 (x * g)"
proof -
  have "- (32768 * 32768) \<le> x * g \<and> x * g \<le> 32767 * 32768"
  proof (cases "0 \<le> x")
    case True
    then have "x * g \<le> 32767 * 32768" using assms by (intro mult_mono) (auto simp: int16_def UNITY_def)
    moreover have "0 \<le> x * g" using True assms by simp
    ultimately show ?thesis by simp
  next
    case False
    then have "- x * g \<le> 32768 * 32768" using assms by (intro mult_mono) (auto simp: int16_def UNITY_def)
    moreover have "x * g \<le> 0" using False assms by (simp add: mult_nonpos_nonneg)
    ultimately show ?thesis by simp
  qed
  then have b: "- 32768 * 32768 \<le> x * g" "x * g \<le> 32767 * 32768" by auto
  from zdiv_mono1 [OF b(1), of 32768] zdiv_mono1 [OF b(2), of 32768] show "int16 (x * g div 32768)" by (simp add: int16_def)
  show "int32 (x * g)" using b by (simp add: int32_def)
qed

lemma sample_int16:
  assumes "int16 a" "int16 b" "0 \<le> f" "f < 32768" "0 \<le> g" "g \<le> UNITY"
  shows "int16 (sample a b f g)"
  unfolding sample_def by (rule scale_int16(1) [OF interpolate_int16(1) [OF assms(1-4)] assms(5,6)])

subsection \<open>The ring\<close>

text \<open>A ring of a power of two frames, and what its memory holds.\<close>

definition ring_ok :: "fplinux_audio_mixer_stream \<Rightarrow> int list \<Rightarrow> bool" where
  "ring_ok s ring \<longleftrightarrow> ms_channels s \<in> {1, 2} \<and> length ring = (unat (ms_mask s) + 1) * ms_channels s \<and> list_all int16 ring"

lemma and_le: "unat (x AND y) \<le> unat (y :: 'a::len word)"
  using word_and_le1 [of x y] by (simp add: word_le_nat_alt)

lemma frame_at_int16:
  assumes "ring_ok s ring" "frame_at ring s i = (l, r)"
  shows "int16 l" "int16 r"
proof -
  let ?at = "unat (i AND ms_mask s) * ms_channels s"
  have "unat (i AND ms_mask s) + 1 \<le> unat (ms_mask s) + 1" using and_le by simp
  then have "(unat (i AND ms_mask s) + 1) * ms_channels s \<le> length ring"
    using assms(1) unfolding ring_ok_def by (metis mult_le_mono1)
  then have "?at < length ring" "?at + ms_channels s - 1 < length ring"
    using assms(1) by (auto simp: ring_ok_def)
  then show "int16 l" "int16 r" using assms by (auto simp: frame_at_def Let_def ring_ok_def list_all_length)
qed

lemma fraction_bounds: "0 \<le> uint (drop_bit 17 (x :: u32)) \<and> uint (drop_bit 17 x) < 32768"
proof -
  have "unat x < 2 ^ 32" using unsigned_less [of x, where 'a=nat] by simp
  then have "unat x div 2 ^ 17 < 2 ^ 15" by (simp add: div_less_iff_less_mult)
  then have "unat (drop_bit 17 x) < 32768" by (simp add: unat_drop_bit)
  moreover have "uint (drop_bit 17 x) = int (unat (drop_bit 17 x))" by (rule uint_nat)
  ultimately show ?thesis by linarith
qed

lemma resample_frame_int16:
  assumes "ring_ok s ring" "0 \<le> level div 32768" "level div 32768 \<le> UNITY"
  shows "int16 (fst (resample_frame ring s available offset level))" "int16 (snd (resample_frame ring s available offset level))"
proof -
  let ?w = "ucast (drop_bit 32 offset) :: u32"
  obtain l0 r0 where 0: "frame_at ring s (ms_read s + ?w) = (l0, r0)" by force
  obtain l1 r1 where 1: "frame_at ring s (ms_read s + ?w + 1) = (l1, r1)" by force
  note i = frame_at_int16 [OF assms(1) 0] frame_at_int16 [OF assms(1) 1]
  note f = fraction_bounds [of "ucast offset"]
  show "int16 (fst (resample_frame ring s available offset level))" "int16 (snd (resample_frame ring s available offset level))"
    using i f assms(2,3) by (auto simp: resample_frame_def Let_def 0 1 intro!: sample_int16)
qed

lemma of_nat_unat_id: "of_nat (unat x) = (x :: 'a::len word)"
  by simp

lemma resample_frame_cong:
  assumes "\<And>j. j < unat available \<Longrightarrow> frame_at ring s (ms_read s + of_nat j) = frame_at ring' s (ms_read s + of_nat j)"
    "whole offset < unat available"
  shows "resample_frame ring s available offset level = resample_frame ring' s available offset level"
proof -
  let ?w = "ucast (drop_bit 32 offset) :: u32"
  have w: "unat ?w = whole offset" by (rule unat_whole)
  have "frame_at ring s (ms_read s + ?w) = frame_at ring' s (ms_read s + ?w)"
    using assms(1) [of "unat ?w"] assms(2) unfolding w [symmetric] of_nat_unat_id by blast
  moreover have "frame_at ring s (ms_read s + ?w + 1) = frame_at ring' s (ms_read s + ?w + 1)" if "?w + 1 < available"
    using assms(1) [of "unat (?w + 1)"] that unfolding word_less_nat_alt of_nat_unat_id add.assoc by blast
  ultimately show ?thesis by (cases "?w + 1 < available") (simp_all add: resample_frame_def Let_def)
qed

lemma resample_loop_cong:
  assumes "\<And>j. j < unat available \<Longrightarrow> frame_at ring s (ms_read s + of_nat j) = frame_at ring' s (ms_read s + of_nat j)"
  shows "resample_loop ring s available slope n m offset level lr mix = resample_loop ring' s available slope n m offset level lr mix"
proof (induction n arbitrary: m offset level lr mix)
  case (Suc n)
  have "resample_frame ring s available offset level = resample_frame ring' s available offset level"
    if "\<not> available \<le> (ucast (drop_bit 32 offset) :: u32)"
    by (rule resample_frame_cong [OF assms]) (use that in \<open>auto simp: word_le_nat_alt unat_whole\<close>)
  then show ?case using Suc by (simp add: Let_def)
qed simp

subsection \<open>A period\<close>

text \<open>The offset and the gain at which output frame \<open>k\<close> of a period samples a stream.\<close>

definition period_offset :: "fplinux_audio_mixer_stream \<Rightarrow> nat \<Rightarrow> u64" where
  "period_offset s k = ucast (ms_phase s) + of_nat k * ms_step s"

definition period_level :: "fplinux_audio_mixer_stream \<Rightarrow> nat \<Rightarrow> nat \<Rightarrow> int" where
  "period_level s frames k = mg_current (ms_gain s) * 32768 + int k * ramp_slope (ms_gain s) frames"

lemma whole_phase [simp]: "whole (ucast (x :: u32)) = 0"
  using unsigned_less [of x, where 'a=nat] by (simp add: unat_phase)

lemma resample_spec:
  assumes "resample ring s available mix frames = (made, s', mix')" "2 * frames \<le> length mix"
  shows "made \<le> frames" "s' = s\<lparr>ms_read := ms_read s + ucast (drop_bit 32 (period_offset s made)),
      ms_phase := ucast (period_offset s made), ms_gain := (ms_gain s)\<lparr>mg_current := mg_target (ms_gain s)\<rparr>,
      ms_last := (if made = frames \<and> 0 < frames then resample_frame ring s available (period_offset s (made - 1))
        (period_level s frames (made - 1)) else (0, 0))\<rparr>"
    "length mix' = length mix" "\<And>k. k < made \<Longrightarrow> whole (period_offset s k) < unat available"
    "made < frames \<Longrightarrow> unat available \<le> whole (period_offset s made)"
    "\<And>j. j < length mix \<Longrightarrow> mix' ! j = mix ! j +
       (if j div 2 < made then (if even j then fst else snd)
          (resample_frame ring s available (period_offset s (j div 2)) (period_level s frames (j div 2))) else 0)"
proof -
  obtain off lr where run: "resample_loop ring s available (ramp_slope (ms_gain s) frames) frames 0 (ucast (ms_phase s))
      (mg_current (ms_gain s) * 32768) (0, 0) mix = (made, off, lr, mix')"
    and s': "s' = s\<lparr>ms_read := ms_read s + ucast (drop_bit 32 off), ms_phase := ucast off,
      ms_gain := (ms_gain s)\<lparr>mg_current := mg_target (ms_gain s)\<rparr>, ms_last := (if made = frames then lr else (0, 0))\<rparr>"
    using assms(1) by (auto simp: resample_def split: prod.splits)
  note L = resample_loop_spec [OF run, simplified, folded period_offset_def period_level_def, OF assms(2)]
  show "made \<le> frames" "length mix' = length mix" "\<And>k. k < made \<Longrightarrow> whole (period_offset s k) < unat available"
    "made < frames \<Longrightarrow> unat available \<le> whole (period_offset s made)"
    using L by (auto simp: period_offset_def)
  show "\<And>j. j < length mix \<Longrightarrow> mix' ! j = mix ! j +
       (if j div 2 < made then (if even j then fst else snd)
          (resample_frame ring s available (period_offset s (j div 2)) (period_level s frames (j div 2))) else 0)"
    using L by (auto simp: period_offset_def)
  have off: "off = period_offset s made" using L by (simp add: period_offset_def)
  have lr: "lr = (if made = 0 then (0, 0) else resample_frame ring s available (period_offset s (made - 1))
        (period_level s frames (made - 1)))"
    using L by (simp add: period_offset_def)
  show "s' = s\<lparr>ms_read := ms_read s + ucast (drop_bit 32 (period_offset s made)),
      ms_phase := ucast (period_offset s made), ms_gain := (ms_gain s)\<lparr>mg_current := mg_target (ms_gain s)\<rparr>,
      ms_last := (if made = frames \<and> 0 < frames then resample_frame ring s available (period_offset s (made - 1))
        (period_level s frames (made - 1)) else (0, 0))\<rparr>"
    unfolding s' off lr by simp
qed

lemma remember_frame [simp]:
  "ms_mask (remember s t) = ms_mask s" "ms_channels (remember s t) = ms_channels s" "ms_step (remember s t) = ms_step s"
  "ms_read (remember s t) = ms_read s" "ms_phase (remember s t) = ms_phase s" "ms_heard (remember s t) = ms_heard s"
  "ms_gain (remember s t) = ms_gain s" "ms_last (remember s t) = ms_last s" "ms_paused (remember s t) = ms_paused s"
  by (simp_all add: remember_def Let_def)

lemma period_run:
  assumes "unat (ms_step s) \<le> 2 ^ 32" "\<And>k. k < made \<Longrightarrow> whole (period_offset s k) < unat (available :: u32)"
  shows "unat (period_offset s made) = unat (ms_phase s) + made * unat (ms_step s)"
    "whole (period_offset s made) \<le> unat available" "whole (period_offset s made) \<le> made"
proof -
  have "unat (ucast (ms_phase s) + of_nat made * ms_step s :: u64) = unat (ucast (ms_phase s) :: u64) + made * unat (ms_step s) \<and>
    whole (ucast (ms_phase s) + of_nat made * ms_step s) \<le> unat available"
    by (rule offset_run [OF assms(1)]) (use assms(2) in \<open>auto simp only: period_offset_def whole_phase le0\<close>)
  then show u: "unat (period_offset s made) = unat (ms_phase s) + made * unat (ms_step s)"
    and "whole (period_offset s made) \<le> unat available" by (auto simp: period_offset_def unat_phase)
  have "unat (ms_phase s) < 2 ^ 32" using unsigned_less [of "ms_phase s", where 'a=nat] by simp
  moreover have "made * unat (ms_step s) \<le> made * 2 ^ 32" using assms(1) by (rule mult_le_mono2)
  ultimately have "unat (ms_phase s) + made * unat (ms_step s) < 2 ^ 32 + made * 2 ^ 32" by (rule add_less_le_mono)
  then have "unat (period_offset s made) < (made + 1) * 2 ^ 32" unfolding u by (simp add: algebra_simps)
  then show "whole (period_offset s made) \<le> made" by (simp add: div_less_iff_less_mult less_Suc_eq_le [symmetric])
qed

subsection \<open>Properties of the mix\<close>

text \<open>
  The mixer reads a ring only between its read position and the write counter it was given:
  two contents of the shared memory that agree on these frames give the same mix, the same
  number of frames and the same stream, whatever else a client writes.
\<close>

theorem mix_reads_only_available:
  assumes "\<And>j. j < unat (write - ms_read s) \<Longrightarrow>
    frame_at ring s (ms_read s + of_nat j) = frame_at ring' s (ms_read s + of_nat j)"
  shows "fplinux_audio_mixer_mix ring s write mix frames output_end =
    fplinux_audio_mixer_mix ring' s write mix frames output_end"
proof -
  have "resample ring s (write - ms_read s) mix frames = resample ring' s (write - ms_read s) mix frames"
    using resample_loop_cong [of "write - ms_read s" ring s ring', OF assms] by (simp add: resample_def)
  then show ?thesis by (simp add: fplinux_audio_mixer_mix_def Let_def)
qed

definition example_stream :: fplinux_audio_mixer_stream where
  "example_stream = fplinux_audio_mixer_stream_init 4 24000 1 0"

theorem mix_reads_only_available_witness:
  "fplinux_audio_mixer_mix [10, 20, 30, 40] example_stream 2 [0, 0] 1 1 =
   fplinux_audio_mixer_mix [10, 20, -7, 99] example_stream 2 [0, 0] 1 1"
proof (rule mix_reads_only_available)
  fix j assume "j < unat ((2 :: u32) - ms_read example_stream)"
  then have "j = 0 \<or> j = 1" by (simp add: example_stream_def fplinux_audio_mixer_stream_init_def) linarith
  then show "frame_at [10, 20, 30, 40] example_stream (ms_read example_stream + of_nat j) =
      frame_at [10, 20, -7, 99] example_stream (ms_read example_stream + of_nat j)"
    by (auto simp: example_stream_def fplinux_audio_mixer_stream_init_def frame_at_def)
qed

text \<open>
  A stream of at most 48000 Hz never overtakes its writer and does not drift: a period
  consumes at most the frames available and at most one per output frame, so that afterwards
  exactly the rest is available; the position, phase included, has moved by the step times the
  output frames made.
\<close>

theorem mix_position:
  assumes "\<not> ms_paused s" "unat (ms_step s) \<le> 2 ^ 32" "2 * frames \<le> length mix"
    "fplinux_audio_mixer_mix ring s write mix frames output_end = (Some made, s', mix')"
  shows "made \<le> frames \<and>
    (\<exists>n \<le> made. ms_read s' = ms_read s + of_nat n \<and> unat (write - ms_read s) = n + unat (write - ms_read s') \<and>
       n * 2 ^ 32 + unat (ms_phase s') = unat (ms_phase s) + made * unat (ms_step s)) \<and>
    (made < frames \<longrightarrow> ms_read s' = write)"
proof -
  let ?a = "write - ms_read s"
  obtain s1 where r: "resample ring s ?a mix frames = (made, s1, mix')" and s': "s' = remember s1 output_end"
    using assms(1,4) by (auto simp: fplinux_audio_mixer_mix_def Let_def split: if_split_asm prod.splits)
  note R = resample_spec [OF r assms(3)]
  note P = period_run [OF assms(2) R(4)]
  define n where "n = whole (period_offset s made)"
  have n: "(ucast (drop_bit 32 (period_offset s made)) :: u32) = of_nat n"
    unfolding n_def unat_whole [symmetric] by simp
  have read: "ms_read s' = ms_read s + of_nat n" and phase: "ms_phase s' = ucast (period_offset s made)"
    unfolding s' R(2) n by simp_all
  have "unat (of_nat n :: u32) = n" using unat_whole [of "period_offset s made"] by (simp only: n n_def)
  then have le: "of_nat n \<le> ?a" using P(2) by (simp add: word_le_nat_alt n_def)
  have eq: "write - ms_read s' = ?a - of_nat n" unfolding read by simp
  have rest: "unat (write - ms_read s') = unat ?a - n" unfolding eq unat_sub [OF le] \<open>unat (of_nat n :: u32) = n\<close> ..
  then have "unat ?a = n + unat (write - ms_read s')" using P(2) by (simp add: n_def)
  moreover have "n * 2 ^ 32 + unat (ms_phase s') = unat (ms_phase s) + made * unat (ms_step s)"
    using P(1) unfolding phase unat_low n_def by (simp only: div_mult_mod_eq)
  moreover have "ms_read s' = write" if "made < frames"
  proof -
    have "unat ?a \<le> n" using R(5) [OF that] by (simp add: n_def)
    then have "unat (write - ms_read s') = 0" using rest by simp
    then show ?thesis by (simp add: unat_eq_zero)
  qed
  moreover have "n \<le> made" using P(3) by (simp add: n_def)
  ultimately show ?thesis using R(1) read by auto
qed

theorem mix_position_witness:
  "\<exists>n \<le> 3. ms_read (fst (snd (fplinux_audio_mixer_mix [10, 20, 30, 40] example_stream 4 [0, 0, 0, 0, 0, 0] 3 3))) = of_nat n"
proof -
  have step: "unat (ms_step example_stream) \<le> 2 ^ 32"
    by (simp add: example_stream_def fplinux_audio_mixer_stream_init_def MIXER_RATE_def)
  have f: "\<not> ms_paused example_stream" "ms_read example_stream = 0" "ms_mask example_stream = 3"
    by (simp_all add: example_stream_def fplinux_audio_mixer_stream_init_def)
  obtain made s1 mix' where "resample [10, 20, 30, 40] example_stream 4 [0, 0, 0, 0, 0, 0] 3 = (made, s1, mix')"
    by (metis prod_cases3)
  with f obtain s' where
    m: "fplinux_audio_mixer_mix [10, 20, 30, 40] example_stream 4 [0, 0, 0, 0, 0, 0] 3 3 = (Some made, s', mix')"
    by (simp add: fplinux_audio_mixer_mix_def)
  have "made \<le> 3 \<and> (\<exists>n \<le> made. ms_read s' = ms_read example_stream + of_nat n)"
    using mix_position [OF f(1) step _ m] by auto
  then show ?thesis by (auto simp: m f intro: le_trans)
qed

text \<open>
  C24.  Each output frame is the linear interpolation of the two stream frames around its
  position, at its place on the gain ramp: the loop adds to the mix exactly the samples given by
  the closed form, for the frames it made, and leaves the rest of the mix alone.
\<close>

theorem mix_closed_form:
  assumes "\<not> ms_paused s" "2 * frames \<le> length mix" "j < length mix"
    "fplinux_audio_mixer_mix ring s write mix frames output_end = (Some made, s', mix')"
  shows "length mix' = length mix \<and>
    mix' ! j = mix ! j +
      (if j div 2 < made then (if even j then fst else snd)
         (resample_frame ring s (write - ms_read s) (period_offset s (j div 2)) (period_level s frames (j div 2)))
       else 0)"
proof -
  obtain s1 where "resample ring s (write - ms_read s) mix frames = (made, s1, mix')"
    using assms(1,4) by (auto simp: fplinux_audio_mixer_mix_def Let_def split: if_split_asm prod.splits)
  from resample_spec [OF this assms(2)] assms(3) show ?thesis by blast
qed

lemma example_made:
  "resample [10, 20, 30, 40] example_stream 4 [0, 0] 1 =
   (1, example_stream\<lparr>ms_read := 0, ms_phase := 0x80000000, ms_last := (10, 10)\<rparr>, [10, 10])"
  by (simp add: resample_def ramp_slope_def example_stream_def fplinux_audio_mixer_stream_init_def Let_def
      resample_frame_def frame_at_def sample_def add_frame_def UNITY_def MIXER_RATE_def)

theorem mix_closed_form_witness:
  "snd (snd (fplinux_audio_mixer_mix [10, 20, 30, 40] example_stream 4 [0, 0] 1 1)) ! 1 =
   snd (resample_frame [10, 20, 30, 40] example_stream 4 (period_offset example_stream 0) (period_level example_stream 1 0))"
proof -
  have f: "\<not> ms_paused example_stream" "ms_read example_stream = 0" "ms_mask example_stream = 3"
    by (simp_all add: example_stream_def fplinux_audio_mixer_stream_init_def)
  have m: "fplinux_audio_mixer_mix [10, 20, 30, 40] example_stream 4 [0, 0] 1 1 =
      (Some 1, remember (example_stream\<lparr>ms_read := 0, ms_phase := 0x80000000, ms_last := (10, 10)\<rparr>) 1, [10, 10])"
    using f by (simp add: fplinux_audio_mixer_mix_def example_made [unfolded One_nat_def])
  show ?thesis unfolding m using mix_closed_form [OF f(1) _ _ m, of 1] by (simp add: f)
qed



subsection \<open>The fade of a pause\<close>

definition fade :: "nat \<Rightarrow> nat \<Rightarrow> int" where
  "fade frames i = (2 ^ 30 - int (i + 1) * (2 ^ 30 div int frames)) div 32768"

lemma ramp_down_loop_nth:
  "2 * (i + n) \<le> length mix \<Longrightarrow> j < length mix \<Longrightarrow>
   length (ramp_down_loop n i level slope tail mix) = length mix \<and>
   ramp_down_loop n i level slope tail mix ! j = mix ! j +
     (if i \<le> j div 2 \<and> j div 2 < i + n
      then (if even j then fst else snd) tail * ((level - int (j div 2 - i + 1) * slope) div 32768) div 32768 else 0)"
proof (induction n arbitrary: i level mix)
  case (Suc n)
  let ?f = "(level - slope) div 32768"
  let ?mix = "add_frame mix i (fst tail * ?f div 32768, snd tail * ?f div 32768)"
  have two: "2 * i + 1 < length mix" using Suc.prems by simp
  have add: "?mix ! j = mix ! j + (if j div 2 = i then (if even j then fst else snd) tail * ?f div 32768 else 0)"
    using add_frame_nth [OF two Suc.prems(2)] by (auto elim!: evenE oddE)
  have IH: "length (ramp_down_loop n (i + 1) (level - slope) slope tail ?mix) = length mix \<and>
     ramp_down_loop n (i + 1) (level - slope) slope tail ?mix ! j = ?mix ! j +
     (if i + 1 \<le> j div 2 \<and> j div 2 < i + 1 + n
      then (if even j then fst else snd) tail * ((level - slope - int (j div 2 - (i + 1) + 1) * slope) div 32768) div 32768 else 0)"
    using Suc.IH [of "i + 1" ?mix "level - slope"] Suc.prems by simp
  have shift: "level - slope - int (k - (i + 1) + 1) * slope = level - int (k - i + 1) * slope" if "i < k" for k
  proof -
    have "k - i = Suc (k - (i + 1))" using that by simp
    then show ?thesis by (simp add: algebra_simps)
  qed
  show ?case
  proof (cases "j div 2 = i")
    case True
    then show ?thesis using IH add by (simp add: Let_def)
  next
    case False
    then have add': "?mix ! j = mix ! j" using add by simp
    have run: "ramp_down_loop (Suc n) i level slope tail mix = ramp_down_loop n (i + 1) (level - slope) slope tail ?mix"
      by (simp add: Let_def)
    show ?thesis
    proof (cases "i + 1 \<le> j div 2 \<and> j div 2 < i + 1 + n")
      case True
      then have "i < j div 2" "i \<le> j div 2 \<and> j div 2 < i + Suc n" by auto
      then show ?thesis unfolding run using IH True add' by (simp only: if_True shift simp_thms)
    next
      case outside: False
      then have "\<not> (i \<le> j div 2 \<and> j div 2 < i + Suc n)" using False by auto
      then show ?thesis unfolding run using IH outside add' by (simp only: if_False simp_thms)
    qed
  qed
qed simp

lemma fade_bounds:
  assumes "0 < frames" "i < frames"
  shows "0 \<le> fade frames i \<and> fade frames i \<le> UNITY"
proof -
  have "int (i + 1) * (2 ^ 30 div int frames) \<le> int frames * (2 ^ 30 div int frames)"
    using assms by (intro mult_right_mono) (auto simp: pos_imp_zdiv_nonneg_iff)
  also have "\<dots> \<le> 2 ^ 30"
    using pos_mod_sign [of "int frames" "2 ^ 30"] mult_div_mod_eq [of "int frames" "2 ^ 30"] assms(1) by linarith
  finally have lo: "0 \<le> 2 ^ 30 - int (i + 1) * (2 ^ 30 div int frames)" by simp
  have "0 \<le> int (i + 1) * (2 ^ 30 div int frames)" using assms(1) by (simp add: pos_imp_zdiv_nonneg_iff)
  then have "2 ^ 30 - int (i + 1) * (2 ^ 30 div int frames) \<le> 2 ^ 30" by linarith
  from zdiv_mono1 [OF this, of 32768] lo show ?thesis
    unfolding fade_def UNITY_def by (simp only: pos_imp_zdiv_nonneg_iff zero_less_numeral) simp
qed

text \<open>
  A pause or the end of a stream does not click: the period that follows adds its last
  sample times a factor that starts below unity, never leaves the range from zero to unity and
  is zero at the last frame, for every period of at most 32768 frames.
\<close>

theorem ramp_down_fades:
  assumes "0 < frames" "frames \<le> 32768" "2 * frames \<le> length mix" "j < length mix"
  shows "length (fplinux_audio_mixer_ramp_down mix frames tail) = length mix \<and>
    fplinux_audio_mixer_ramp_down mix frames tail ! j = mix ! j +
      (if j div 2 < frames then (if even j then fst else snd) tail * fade frames (j div 2) div 32768 else 0) \<and>
    (\<forall>i < frames. 0 \<le> fade frames i \<and> fade frames i \<le> UNITY) \<and> fade frames (frames - 1) = 0"
proof -
  have "int frames * (2 ^ 30 div int frames) = 2 ^ 30 - 2 ^ 30 mod int frames"
    using mult_div_mod_eq [of "int frames" "2 ^ 30"] by linarith
  then have "fade frames (frames - 1) = (2 ^ 30 mod int frames) div 32768" using assms(1) by (simp add: fade_def)
  moreover have "0 \<le> 2 ^ 30 mod int frames" "2 ^ 30 mod int frames < 32768"
    using assms(1,2) pos_mod_bound [of "int frames" "2 ^ 30"] by (simp, linarith)
  ultimately have "fade frames (frames - 1) = 0" by (simp add: div_pos_pos_trivial)
  moreover have "length (fplinux_audio_mixer_ramp_down mix frames tail) = length mix \<and>
    fplinux_audio_mixer_ramp_down mix frames tail ! j = mix ! j +
      (if j div 2 < frames then (if even j then fst else snd) tail * fade frames (j div 2) div 32768 else 0)"
  proof (cases "fst tail = 0 \<and> snd tail = 0")
    case True
    then show ?thesis by (auto simp: fplinux_audio_mixer_ramp_down_def)
  next
    case False
    then show ?thesis
      using ramp_down_loop_nth [of 0 frames mix j "2 ^ 30" "2 ^ 30 div int frames" tail] assms(3,4)
      by (simp add: fplinux_audio_mixer_ramp_down_def fade_def)
  qed
  ultimately show ?thesis using fade_bounds assms(1) by blast
qed

theorem ramp_down_fades_witness:
  "fplinux_audio_mixer_ramp_down [5, 6, 7, 8] 2 (1000, 2000) ! 3 = 8 \<and> fade 2 1 = 0"
  using ramp_down_fades [of 2 "[5, 6, 7, 8]" 3 "(1000, 2000)"] by simp

end
