(* ===== verification/Audio_Streams.thy ===== *)
theory Audio_Streams
  imports Audio_Mixer
begin

section \<open>The streams of the audio service\<close>

text \<open>
  \<open>src/alpine/aports/fplinux-audiod/audio-streams.c\<close> and the protocol of
  \<open>src/include/fplinux/fplinux-audio-protocol.h\<close>: which processes the session manager announced, the
  connections of applications, and their streams.  A ring is memory shared with the application;
  the model keeps its contents in the stream that maps it, and an application may replace them at any
  time.  What the service sends, closes and ends is appended to a log; whether a message can be sent and a
  ring be mapped is answered by the environment, which sees the log.  Counters and times are words
  of their width and wrap.
\<close>

subsection \<open>Data\<close>

definition AUDIO_PROCESSES :: nat where "AUDIO_PROCESSES = 5"
definition AUDIO_CONNECTIONS :: nat where "AUDIO_CONNECTIONS = 16"
definition AUDIO_GONE :: nat where "AUDIO_GONE = 5"
definition AUDIO_APP_STREAMS :: nat where "AUDIO_APP_STREAMS = 8"
definition AUDIO_CLOCK_STREAM_INDEX :: nat where "AUDIO_CLOCK_STREAM_INDEX = AUDIO_APP_STREAMS"
definition AUDIO_STREAMS :: nat where "AUDIO_STREAMS = AUDIO_APP_STREAMS + 1"
definition AUDIO_CLIENT_STREAMS :: nat where "AUDIO_CLIENT_STREAMS = 4"
definition AUDIO_CHANNELS_MAX :: u32 where "AUDIO_CHANNELS_MAX = 2"
definition AUDIO_RATE_MIN :: u32 where "AUDIO_RATE_MIN = 8000"
definition AUDIO_RATE_MAX :: u32 where "AUDIO_RATE_MAX = 48000"
definition AUDIO_PROTOCOL_VERSION :: u32 where "AUDIO_PROTOCOL_VERSION = 1"
definition AUDIO_RESYNC_MS :: u64 where "AUDIO_RESYNC_MS = 1000"
definition AUDIO_HELLO_DEADLINE_MS :: u64 where "AUDIO_HELLO_DEADLINE_MS = 1000"
definition PACKETS_PER_ROUND :: nat where "PACKETS_PER_ROUND = 16"
definition AUDIO_RING_MAGIC :: u32 where "AUDIO_RING_MAGIC = 0x31415046"

definition AUDIO_HELLO :: u32 where "AUDIO_HELLO = 1"
definition AUDIO_OPEN :: u32 where "AUDIO_OPEN = 2"
definition AUDIO_OPENED :: u32 where "AUDIO_OPENED = 3"
definition AUDIO_ERROR :: u32 where "AUDIO_ERROR = 4"
definition AUDIO_CLOSE :: u32 where "AUDIO_CLOSE = 5"
definition AUDIO_KICK :: u32 where "AUDIO_KICK = 6"

record audio_process =
  ap_pid :: int
  ap_uid :: u32
  ap_audible :: bool
  ap_clock :: bool

datatype connection_state = CONNECTION_FREE | CONNECTION_NEW | CONNECTION_WAITING | CONNECTION_READY

record audio_connection =
  ac_state :: connection_state
  ac_fd :: int
  ac_pid :: int
  ac_uid :: u32
  ac_clock :: bool
  ac_deadline_ms :: u64
  ac_last_id :: u32

datatype ring_state = RING_PLAYING | RING_PAUSED | RING_UNAVAILABLE | RING_ENDED

record audio_ring =
  ri_magic :: u32
  ri_rate :: u32
  ri_channels :: u32
  ri_capacity :: u32
  ri_write :: u32
  ri_read :: u32
  ri_heard :: u32
  ri_state :: ring_state
  ri_sleeping :: bool
  ri_frames :: "int list"

record audio_stream =
  au_ring :: "audio_ring option"
  au_bytes :: nat
  au_connection :: nat
  au_id :: u32
  au_state :: ring_state
  au_sleeping :: bool
  au_mixer :: fplinux_audio_mixer_stream

datatype audio_output = OUTPUT_CLOSED | OUTPUT_OPEN | OUTPUT_UNAVAILABLE

record audio_message =
  me_type :: u32
  me_version :: u32
  me_stream :: u32
  me_rate :: u32
  me_channels :: u32
  me_flags :: u32
  me_error :: int
  me_reserved :: u32

datatype audio_errno = EINVAL | EMFILE | EBUSY | ENOMEM | EPROTONOSUPPORT | EAGAIN | EACCES

datatype audio_effect =
  Opened (effect_fd: int) (effect_stream: u32) (effect_rate: u32) (effect_channels: u32) (effect_sent: bool)
| Refused (effect_fd: int) (effect_error: audio_errno) (effect_sent: bool)
| Ended (effect_connection: nat) (effect_stream: u32)
| Closed (effect_fd: int)

record audio_streams =
  as_processes :: "audio_process list"
  as_gone :: "int list"
  as_last_gone :: nat
  as_connections :: "audio_connection list"
  as_streams :: "audio_stream list"
  as_output :: audio_output
  as_mixed :: u64
  as_resync_ms :: u64
  as_tail :: "int \<times> int"
  as_log :: "audio_effect list"

text \<open>Whether the next \<open>sendmsg\<close> delivers its message and the next ring can be mapped.\<close>

record audio_env =
  ae_send :: "audio_effect list \<Rightarrow> bool"
  ae_map :: "audio_effect list \<Rightarrow> bool"

definition zero_process :: audio_process where
  "zero_process = \<lparr> ap_pid = 0, ap_uid = 0, ap_audible = False, ap_clock = False \<rparr>"

definition free_connection :: audio_connection where
  "free_connection = \<lparr> ac_state = CONNECTION_FREE, ac_fd = -1, ac_pid = 0, ac_uid = 0, ac_clock = False,
     ac_deadline_ms = 0, ac_last_id = 0 \<rparr>"

definition zero_mixer :: fplinux_audio_mixer_stream where
  "zero_mixer = \<lparr> ms_mask = 0, ms_channels = 0, ms_step = 0, ms_read = 0, ms_phase = 0, ms_heard = 0,
     ms_paused = False, ms_gain = \<lparr> mg_current = 0, mg_target = 0 \<rparr>, ms_last = (0, 0),
     ms_marks = replicate HISTORY zero_mark, ms_newest = 0, ms_count = 0 \<rparr>"

definition zero_stream :: audio_stream where
  "zero_stream = \<lparr> au_ring = None, au_bytes = 0, au_connection = 0, au_id = 0, au_state = RING_PLAYING,
     au_sleeping = False, au_mixer = zero_mixer \<rparr>"

subsection \<open>Tables\<close>

definition fplinux_audio_streams_init :: audio_streams where
  "fplinux_audio_streams_init =
     \<lparr> as_processes = replicate AUDIO_PROCESSES zero_process, as_gone = replicate AUDIO_GONE 0, as_last_gone = 0,
       as_connections = replicate AUDIO_CONNECTIONS free_connection,
       as_streams = replicate AUDIO_STREAMS zero_stream,
       as_output = OUTPUT_CLOSED, as_mixed = 0, as_resync_ms = 0, as_tail = (0, 0), as_log = [] \<rparr>"

text \<open>The first index whose entry satisfies a condition, as the searching loops find it.\<close>

fun first_index :: "('a \<Rightarrow> bool) \<Rightarrow> 'a list \<Rightarrow> nat option" where
  "first_index P [] = None"
| "first_index P (x # xs) = (if P x then Some 0 else map_option Suc (first_index P xs))"

definition find_process :: "audio_streams \<Rightarrow> int \<Rightarrow> nat option" where
  "find_process s pid = (if pid > 0 then first_index (\<lambda>p. ap_pid p = pid) (as_processes s) else None)"

definition find_gone :: "audio_streams \<Rightarrow> int \<Rightarrow> nat option" where
  "find_gone s pid = (if pid > 0 then first_index (\<lambda>g. g = pid) (as_gone s) else None)"

definition stream_pid :: "audio_streams \<Rightarrow> audio_stream \<Rightarrow> int" where
  "stream_pid s stream = ac_pid (as_connections s ! au_connection stream)"

definition put_effect :: "audio_effect \<Rightarrow> audio_streams \<Rightarrow> audio_streams" where
  "put_effect e s = s\<lparr> as_log := as_log s @ [e] \<rparr>"

definition put_stream :: "nat \<Rightarrow> audio_stream \<Rightarrow> audio_streams \<Rightarrow> audio_streams" where
  "put_stream i stream s = s\<lparr> as_streams := (as_streams s)[i := stream] \<rparr>"

definition put_connection :: "nat \<Rightarrow> audio_connection \<Rightarrow> audio_streams \<Rightarrow> audio_streams" where
  "put_connection i c s = s\<lparr> as_connections := (as_connections s)[i := c] \<rparr>"

definition refuse :: "audio_env \<Rightarrow> int \<Rightarrow> audio_errno \<Rightarrow> audio_streams \<Rightarrow> bool \<times> audio_streams" where
  "refuse E fd error s = (let sent = ae_send E (as_log s) in (sent, put_effect (Refused fd error sent) s))"

definition end_stream :: "nat \<Rightarrow> audio_streams \<Rightarrow> audio_streams" where
  "end_stream i s =
     (let stream = as_streams s ! i; last = ms_last (au_mixer stream);
          s = (if as_output s = OUTPUT_OPEN
               then s\<lparr> as_tail := (fst (as_tail s) + fst last, snd (as_tail s) + snd last) \<rparr> else s)
      in put_stream i (stream\<lparr> au_ring := None \<rparr>) (put_effect (Ended (au_connection stream) (au_id stream)) s))"

definition end_streams_of :: "nat \<Rightarrow> nat \<Rightarrow> audio_streams \<Rightarrow> audio_streams" where
  "end_streams_of index i s =
     (if au_ring (as_streams s ! i) \<noteq> None \<and> au_connection (as_streams s ! i) = index then end_stream i s else s)"

definition fplinux_audio_streams_disconnect :: "nat \<Rightarrow> audio_streams \<Rightarrow> audio_streams" where
  "fplinux_audio_streams_disconnect index s =
     (let s = fold (end_streams_of index) [0..<AUDIO_STREAMS] s
      in put_connection index free_connection (put_effect (Closed (ac_fd (as_connections s ! index))) s))"

definition update :: "nat \<Rightarrow> audio_streams \<Rightarrow> bool \<times> audio_streams" where
  "update i s =
     (let stream = as_streams s ! i;
          paused = (case find_process s (stream_pid s stream) of
                      None \<Rightarrow> True | Some p \<Rightarrow> \<not> ap_audible (as_processes s ! p));
          sleeping = (paused \<or> as_output s \<noteq> OUTPUT_OPEN);
          state = (if paused then RING_PAUSED else if as_output s = OUTPUT_UNAVAILABLE then RING_UNAVAILABLE else RING_PLAYING);
          stream = stream\<lparr> au_mixer := (au_mixer stream)\<lparr> ms_paused := paused \<rparr> \<rparr>;
          stream = (if au_state stream \<noteq> state
                    then stream\<lparr> au_ring := map_option (\<lambda>r. r\<lparr> ri_state := state \<rparr>) (au_ring stream), au_state := state \<rparr>
                    else stream);
          stream = (if au_sleeping stream \<noteq> sleeping
                    then stream\<lparr> au_ring := map_option (\<lambda>r. r\<lparr> ri_sleeping := sleeping \<rparr>) (au_ring stream), au_sleeping := sleeping \<rparr>
                    else stream)
      in (\<not> paused \<and> sleeping, put_stream i stream s))"

text \<open>\<open>fplinux_audio_ring_capacity\<close>: the smallest power of two of at least a quarter of the rate.\<close>

function double_until :: "nat \<Rightarrow> nat \<Rightarrow> nat" where
  "double_until target capacity =
     (if 0 < capacity \<and> capacity < target then double_until target (2 * capacity) else capacity)"
  by pat_completeness auto
termination by (relation "measure (\<lambda>(target, capacity). target - capacity)") auto

declare double_until.simps [simp del]

definition fplinux_audio_ring_capacity :: "u32 \<Rightarrow> u32" where
  "fplinux_audio_ring_capacity rate = of_nat (double_until (unat ((rate + 3) div 4)) 1)"

definition AUDIO_RING_BYTES :: "u32 \<Rightarrow> u32 \<Rightarrow> nat" where
  "AUDIO_RING_BYTES capacity channels = 64 + unat capacity * unat channels * 2"

definition new_ring :: "u32 \<Rightarrow> u32 \<Rightarrow> u32 \<Rightarrow> audio_ring" where
  "new_ring rate channels capacity =
     \<lparr> ri_magic = AUDIO_RING_MAGIC, ri_rate = rate, ri_channels = channels, ri_capacity = capacity,
       ri_write = 0, ri_read = 0, ri_heard = 0, ri_state = RING_PLAYING, ri_sleeping = False,
       ri_frames = replicate (unat capacity * unat channels) 0 \<rparr>"

text \<open>Stream IDs are not zero.\<close>

definition next_id :: "u32 \<Rightarrow> u32" where
  "next_id last_id = (if last_id + 1 = 0 then 1 else last_id + 1)"

definition format_ok :: "audio_message \<Rightarrow> bool" where
  "format_ok request \<longleftrightarrow> AUDIO_RATE_MIN \<le> me_rate request \<and> me_rate request \<le> AUDIO_RATE_MAX \<and>
     me_channels request \<noteq> 0 \<and> me_channels request \<le> AUDIO_CHANNELS_MAX \<and> me_flags request = 0"

definition slots_of :: "audio_connection \<Rightarrow> nat list" where
  "slots_of c = (if ac_clock c then [AUDIO_CLOCK_STREAM_INDEX..<AUDIO_STREAMS] else [0..<AUDIO_APP_STREAMS])"

definition streams_of_pid :: "audio_streams \<Rightarrow> int \<Rightarrow> nat list \<Rightarrow> nat" where
  "streams_of_pid s pid slots =
     length (filter (\<lambda>i. au_ring (as_streams s ! i) \<noteq> None \<and> stream_pid s (as_streams s ! i) = pid) slots)"

definition open_stream :: "audio_env \<Rightarrow> nat \<Rightarrow> audio_message \<Rightarrow> audio_streams \<Rightarrow> bool \<times> audio_streams" where
  "open_stream E index request s =
     (let c = as_connections s ! index; slots = slots_of c
      in if \<not> format_ok request then refuse E (ac_fd c) EINVAL s
         else if streams_of_pid s (ac_pid c) slots \<ge> (if ac_clock c then 1 else AUDIO_CLIENT_STREAMS)
         then refuse E (ac_fd c) EMFILE s
         else case filter (\<lambda>i. au_ring (as_streams s ! i) = None) slots of
           [] \<Rightarrow> refuse E (ac_fd c) EBUSY s
         | i # _ \<Rightarrow>
             if \<not> ae_map E (as_log s) then refuse E (ac_fd c) ENOMEM s
             else let rate = me_rate request; channels = me_channels request;
                      capacity = fplinux_audio_ring_capacity rate;
                      c = c\<lparr> ac_last_id := next_id (ac_last_id c) \<rparr>;
                      stream = \<lparr> au_ring = Some (new_ring rate channels capacity),
                                 au_bytes = AUDIO_RING_BYTES capacity channels,
                                 au_connection = index, au_id = ac_last_id c, au_state = RING_PLAYING, au_sleeping = False,
                                 au_mixer = fplinux_audio_mixer_stream_init capacity rate (unat channels) (as_mixed s) \<rparr>;
                      s = snd (update i (put_stream i stream (put_connection index c s)));
                      sent = ae_send E (as_log s);
                      s = put_effect (Opened (ac_fd c) (ac_last_id c) rate channels sent) s
                  in if sent then (True, s)
                     else (False, put_stream i ((as_streams s ! i)\<lparr> au_ring := None \<rparr>) s))"

definition find_stream :: "audio_streams \<Rightarrow> nat \<Rightarrow> u32 \<Rightarrow> nat option" where
  "find_stream s index ident =
     first_index (\<lambda>t. au_ring t \<noteq> None \<and> au_connection t = index \<and> au_id t = ident) (as_streams s)"

subsection \<open>Packets\<close>

definition handle_hello :: "audio_env \<Rightarrow> nat \<Rightarrow> audio_message \<Rightarrow> audio_streams \<Rightarrow> bool \<times> audio_streams" where
  "handle_hello E index message s =
     (let c = as_connections s ! index
      in if ac_state c \<noteq> CONNECTION_NEW \<or> me_stream message \<noteq> 0 \<or> me_rate message \<noteq> 0 \<or> me_channels message \<noteq> 0 \<or>
            me_flags message \<noteq> 0
         then (False, s)
         else if me_version message \<noteq> AUDIO_PROTOCOL_VERSION then (False, snd (refuse E (ac_fd c) EPROTONOSUPPORT s))
         else case find_process s (ac_pid c) of
           None \<Rightarrow>
             if find_gone s (ac_pid c) \<noteq> None then (False, snd (refuse E (ac_fd c) EAGAIN s))
             else (True, put_connection index (c\<lparr> ac_state := CONNECTION_WAITING \<rparr>) s)
         | Some p \<Rightarrow>
             if ap_uid (as_processes s ! p) \<noteq> ac_uid c then (False, snd (refuse E (ac_fd c) EACCES s))
             else (True, put_connection index (c\<lparr> ac_state := CONNECTION_READY, ac_clock := ap_clock (as_processes s ! p) \<rparr>) s))"

definition handle :: "audio_env \<Rightarrow> nat \<Rightarrow> audio_message \<Rightarrow> audio_streams \<Rightarrow> bool \<times> audio_streams" where
  "handle E index message s =
     (let c = as_connections s ! index
      in if me_error message \<noteq> 0 \<or> me_reserved message \<noteq> 0 then (False, s)
         else if me_type message = AUDIO_HELLO then handle_hello E index message s
         else if me_type message = AUDIO_OPEN
         then if ac_state c \<noteq> CONNECTION_READY \<or> me_version message \<noteq> 0 \<or> me_stream message \<noteq> 0 then (False, s)
              else open_stream E index message s
         else if me_type message = AUDIO_CLOSE \<or> me_type message = AUDIO_KICK
         then if ac_state c \<noteq> CONNECTION_READY \<or> me_version message \<noteq> 0 \<or> me_rate message \<noteq> 0 \<or>
                 me_channels message \<noteq> 0 \<or> me_flags message \<noteq> 0
              then (False, s)
              else (True, case find_stream s index (me_stream message) of
                            Some i \<Rightarrow> if me_type message = AUDIO_CLOSE then end_stream i s else s
                          | None \<Rightarrow> s)
         else (False, s))"

text \<open>What one \<open>recv\<close> gives: nothing yet, something that is not one whole message, or a message.\<close>

datatype received = Nothing_yet | No_message | Message audio_message

fun receive_packets :: "audio_env \<Rightarrow> nat \<Rightarrow> nat \<Rightarrow> received list \<Rightarrow> audio_streams \<Rightarrow> audio_streams" where
  "receive_packets E index 0 packets s = s"
| "receive_packets E index (Suc n) packets s =
     (if ac_state (as_connections s ! index) = CONNECTION_FREE \<or> ac_state (as_connections s ! index) = CONNECTION_WAITING
      then s
      else case packets of
        Message message # packets \<Rightarrow>
          (case handle E index message s of
             (True, s) \<Rightarrow> receive_packets E index n packets s
           | (False, s) \<Rightarrow> fplinux_audio_streams_disconnect index s)
      | No_message # _ \<Rightarrow> fplinux_audio_streams_disconnect index s
      | _ \<Rightarrow> s)"

definition fplinux_audio_streams_receive :: "audio_env \<Rightarrow> nat \<Rightarrow> received list \<Rightarrow> audio_streams \<Rightarrow> audio_streams" where
  "fplinux_audio_streams_receive E index packets s = receive_packets E index PACKETS_PER_ROUND packets s"

definition fplinux_audio_streams_accept :: "int \<Rightarrow> int \<Rightarrow> u32 \<Rightarrow> u64 \<Rightarrow> audio_streams \<Rightarrow> bool \<times> audio_streams" where
  "fplinux_audio_streams_accept fd pid uid now_ms s =
     (case first_index (\<lambda>c. ac_state c = CONNECTION_FREE) (as_connections s) of
        None \<Rightarrow> (False, s)
      | Some i \<Rightarrow> (True, put_connection i \<lparr> ac_state = CONNECTION_NEW, ac_fd = fd, ac_pid = pid, ac_uid = uid,
                     ac_clock = False, ac_deadline_ms = now_ms + AUDIO_HELLO_DEADLINE_MS, ac_last_id = 0 \<rparr> s))"

subsection \<open>The policy of the manager\<close>

text \<open>What an announcement does to one connection.\<close>

definition announce_connection :: "audio_env \<Rightarrow> int \<Rightarrow> u32 \<Rightarrow> bool \<Rightarrow> nat \<Rightarrow> audio_streams \<Rightarrow> audio_streams" where
  "announce_connection E pid uid clock i s =
     (let c = as_connections s ! i
      in if ac_pid c \<noteq> pid \<or> ac_state c = CONNECTION_FREE \<or> ac_state c = CONNECTION_NEW then s
         else if ac_uid c = uid \<and> (ac_state c = CONNECTION_WAITING \<or> ac_clock c = clock)
         then put_connection i (c\<lparr> ac_state := CONNECTION_READY, ac_clock := clock \<rparr>) s
         else fplinux_audio_streams_disconnect i
                (if ac_state c = CONNECTION_WAITING then snd (refuse E (ac_fd c) EACCES s) else s))"

definition other_clock :: "audio_streams \<Rightarrow> int \<Rightarrow> bool" where
  "other_clock s pid \<longleftrightarrow> (\<exists>p \<in> set (as_processes s). ap_pid p \<noteq> 0 \<and> ap_pid p \<noteq> pid \<and> ap_clock p)"

definition announce :: "audio_env \<Rightarrow> int \<Rightarrow> u32 \<Rightarrow> bool \<Rightarrow> audio_streams \<Rightarrow> audio_streams" where
  "announce E pid uid clock s =
     (if clock \<and> other_clock s pid then s
      else let known = find_process s pid;
               s = (case find_gone s pid of Some g \<Rightarrow> s\<lparr> as_gone := (as_gone s)[g := 0] \<rparr> | None \<Rightarrow> s)
           in case (case known of Some p \<Rightarrow> Some p | None \<Rightarrow> first_index (\<lambda>p. ap_pid p = 0) (as_processes s)) of
                None \<Rightarrow> s
              | Some p \<Rightarrow>
                  fold (announce_connection E pid uid clock) [0..<AUDIO_CONNECTIONS]
                    (s\<lparr> as_processes := (as_processes s)
                        [p := \<lparr> ap_pid = pid, ap_uid = uid, ap_audible = False, ap_clock = clock \<rparr>] \<rparr>))"

definition forget_connection :: "audio_env \<Rightarrow> int \<Rightarrow> nat \<Rightarrow> audio_streams \<Rightarrow> audio_streams" where
  "forget_connection E pid i s =
     (let c = as_connections s ! i
      in if ac_state c = CONNECTION_FREE \<or> ac_pid c \<noteq> pid then s
         else fplinux_audio_streams_disconnect i
                (if ac_state c \<noteq> CONNECTION_READY then snd (refuse E (ac_fd c) EAGAIN s) else s))"

definition forget :: "audio_env \<Rightarrow> int \<Rightarrow> audio_streams \<Rightarrow> audio_streams" where
  "forget E pid s =
     (let known = find_process s pid;
          s = fold (forget_connection E pid) [0..<AUDIO_CONNECTIONS] s;
          s = (case known of Some p \<Rightarrow> s\<lparr> as_processes := (as_processes s)[p := zero_process] \<rparr> | None \<Rightarrow> s)
      in if find_gone s pid \<noteq> None then s
         else let last_gone = (as_last_gone s + 1) mod AUDIO_GONE
              in s\<lparr> as_last_gone := last_gone, as_gone := (as_gone s)[last_gone := pid] \<rparr>)"

subsection \<open>Control commands\<close>

definition cli_space :: "char \<Rightarrow> bool" where
  "cli_space c \<longleftrightarrow> c = CHR '' '' \<or> (9 \<le> (of_char c :: nat) \<and> (of_char c :: nat) \<le> 13)"

definition digit_value :: "char \<Rightarrow> nat option" where
  "digit_value c = (if 48 \<le> (of_char c :: nat) \<and> (of_char c :: nat) \<le> 57 then Some (of_char c - 48) else None)"

fun read_digits :: "nat \<Rightarrow> string \<Rightarrow> nat option" where
  "read_digits v [] = Some v"
| "read_digits v (c # cs) = (case digit_value c of None \<Rightarrow> None | Some d \<Rightarrow> read_digits (10 * v + d) cs)"

text \<open>\<open>strtoul\<close> skips space and takes one sign; the whole text has to be a number in the range.\<close>

definition fplinux_cli_unsigned :: "string \<Rightarrow> nat \<Rightarrow> nat \<Rightarrow> nat option" where
  "fplinux_cli_unsigned s minimum maximum =
     (let t = dropWhile cli_space s; ds = (if t \<noteq> [] \<and> hd t = CHR ''+'' then tl t else t)
      in if ds = [] then None
         else case read_digits 0 ds of
           None \<Rightarrow> None
         | Some v \<Rightarrow> if v < minimum \<or> v > maximum then None else Some v)"

fun split :: "string \<Rightarrow> string list" where
  "split [] = [[]]"
| "split (c # cs) = (if c = CHR '' '' then [] # split cs else (c # hd (split cs)) # tl (split cs))"

definition INT_MAX :: nat where "INT_MAX = 2147483647"
definition UINT_MAX :: nat where "UINT_MAX = 4294967295"

datatype control = App int u32 | Clock int u32 | Gone int | Audible int bool | Ignored

text \<open>The number of words is exact: the source stops splitting past four, which no command has.\<close>

definition parse_command :: "string \<Rightarrow> control" where
  "parse_command command =
     (case split command of
        [w0, w1, w2, w3] \<Rightarrow>
          if w0 = ''APP'' \<and> w3 \<noteq> []
          then (case (fplinux_cli_unsigned w1 1 INT_MAX, fplinux_cli_unsigned w2 0 (UINT_MAX - 1)) of
                  (Some pid, Some uid) \<Rightarrow> App (int pid) (of_nat uid) | _ \<Rightarrow> Ignored)
          else Ignored
      | [w0, w1, w2] \<Rightarrow>
          if w0 = ''CLOCK''
          then (case (fplinux_cli_unsigned w1 1 INT_MAX, fplinux_cli_unsigned w2 0 (UINT_MAX - 1)) of
                  (Some pid, Some uid) \<Rightarrow> Clock (int pid) (of_nat uid) | _ \<Rightarrow> Ignored)
          else if w0 = ''AUDIBLE''
          then (case (fplinux_cli_unsigned w1 1 INT_MAX, fplinux_cli_unsigned w2 0 1) of
                  (Some pid, Some audible) \<Rightarrow> if length w2 \<le> 1 then Audible (int pid) (audible \<noteq> 0) else Ignored
                | _ \<Rightarrow> Ignored)
          else Ignored
      | [w0, w1] \<Rightarrow>
          if w0 = ''GONE''
          then (case fplinux_cli_unsigned w1 1 INT_MAX of Some pid \<Rightarrow> Gone (int pid) | None \<Rightarrow> Ignored)
          else Ignored
      | _ \<Rightarrow> Ignored)"

definition set_audible :: "int \<Rightarrow> bool \<Rightarrow> audio_streams \<Rightarrow> audio_streams" where
  "set_audible pid audible s =
     (case find_process s pid of
        None \<Rightarrow> s
      | Some p \<Rightarrow> s\<lparr> as_processes := (as_processes s)[p := (as_processes s ! p)\<lparr> ap_audible := audible \<rparr>] \<rparr>)"

definition fplinux_audio_streams_command :: "audio_env \<Rightarrow> string \<Rightarrow> audio_streams \<Rightarrow> audio_streams" where
  "fplinux_audio_streams_command E command s =
     (case parse_command command of
        App pid uid \<Rightarrow> announce E pid uid False s
      | Clock pid uid \<Rightarrow> announce E pid uid True s
      | Gone pid \<Rightarrow> forget E pid s
      | Audible pid audible \<Rightarrow> set_audible pid audible s
      | Ignored \<Rightarrow> s)"

definition fplinux_audio_streams_manager :: "bool \<Rightarrow> u64 \<Rightarrow> audio_streams \<Rightarrow> audio_streams" where
  "fplinux_audio_streams_manager connected now_ms s =
     (if connected then s\<lparr> as_resync_ms := now_ms + AUDIO_RESYNC_MS \<rparr>
      else s\<lparr> as_processes := replicate AUDIO_PROCESSES zero_process, as_gone := replicate AUDIO_GONE 0,
              as_resync_ms := 0 \<rparr>)"

subsection \<open>Deadlines\<close>

definition resync_connection :: "nat \<Rightarrow> audio_streams \<Rightarrow> audio_streams" where
  "resync_connection i s =
     (let c = as_connections s ! i
      in if ac_state c \<noteq> CONNECTION_READY then s
         else case find_process s (ac_pid c) of
           Some p \<Rightarrow> if ap_uid (as_processes s ! p) = ac_uid c \<and> ap_clock (as_processes s ! p) = ac_clock c then s
                     else fplinux_audio_streams_disconnect i s
         | None \<Rightarrow> fplinux_audio_streams_disconnect i s)"

definition expire_connection :: "audio_env \<Rightarrow> u64 \<Rightarrow> nat \<Rightarrow> u64 \<times> audio_streams \<Rightarrow> u64 \<times> audio_streams" where
  "expire_connection E now_ms i ns =
     (let (next, s) = ns; c = as_connections s ! i
      in if ac_state c \<noteq> CONNECTION_NEW \<and> ac_state c \<noteq> CONNECTION_WAITING then (next, s)
         else if now_ms < ac_deadline_ms c then (if ac_deadline_ms c < next then ac_deadline_ms c else next, s)
         else (next, fplinux_audio_streams_disconnect i
                (if ac_state c = CONNECTION_WAITING then snd (refuse E (ac_fd c) EACCES s) else s)))"

definition fplinux_audio_streams_expire :: "audio_env \<Rightarrow> u64 \<Rightarrow> audio_streams \<Rightarrow> u64 \<times> audio_streams" where
  "fplinux_audio_streams_expire E now_ms s =
     (let s = (if as_resync_ms s \<noteq> 0 \<and> now_ms \<ge> as_resync_ms s
               then fold resync_connection [0..<AUDIO_CONNECTIONS] (s\<lparr> as_resync_ms := 0 \<rparr>) else s);
          next = (if as_resync_ms s \<noteq> 0 then as_resync_ms s else - 1)
      in fold (expire_connection E now_ms) [0..<AUDIO_CONNECTIONS] (next, s))"

subsection \<open>Playing\<close>

definition refresh_stream :: "nat \<Rightarrow> bool \<times> audio_streams \<Rightarrow> bool \<times> audio_streams" where
  "refresh_stream i ws =
     (let (wanted, s) = ws
      in if au_ring (as_streams s ! i) = None then (wanted, s)
         else case update i s of
           (False, s) \<Rightarrow> (wanted, s)
         | (True, s) \<Rightarrow>
             let stream = as_streams s ! i; available = ri_write (the (au_ring stream)) - ms_read (au_mixer stream)
             in if available > ms_mask (au_mixer stream) + 1 then (wanted, end_stream i s)
                else (wanted \<or> available \<noteq> 0, s))"

definition fplinux_audio_streams_refresh :: "audio_streams \<Rightarrow> bool \<times> audio_streams" where
  "fplinux_audio_streams_refresh s = fold refresh_stream [0..<AUDIO_STREAMS] (False, s)"

definition mix_stream :: "nat \<Rightarrow> nat \<Rightarrow> bool \<times> int list \<times> audio_streams \<Rightarrow> bool \<times> int list \<times> audio_streams" where
  "mix_stream frames i pms =
     (let (played, mix, s) = pms; stream = as_streams s ! i
      in case au_ring stream of
           None \<Rightarrow> (played, mix, s)
         | Some ring \<Rightarrow>
             let write = (if \<not> ms_paused (au_mixer stream) then ri_write ring else 0)
             in case fplinux_audio_mixer_mix (ri_frames ring) (au_mixer stream) write mix frames (as_mixed s) of
                  (made, mixer, mix) \<Rightarrow>
                    let s = put_stream i (stream\<lparr> au_mixer := mixer \<rparr>) s
                    in case made of
                         None \<Rightarrow> (played, mix, end_stream i s)
                       | Some n \<Rightarrow> (played \<or> n \<noteq> 0, mix, s))"

definition fplinux_audio_streams_mix :: "nat \<Rightarrow> audio_streams \<Rightarrow> bool \<times> int list \<times> audio_streams" where
  "fplinux_audio_streams_mix frames s =
     fold (mix_stream frames) [0..<AUDIO_STREAMS]
       (False, fplinux_audio_mixer_ramp_down (replicate (2 * frames) 0) frames (as_tail s),
        s\<lparr> as_tail := (0, 0), as_mixed := as_mixed s + of_nat frames \<rparr>)"

definition publish_stream :: "u64 \<Rightarrow> audio_stream \<Rightarrow> audio_stream" where
  "publish_stream played stream =
     (case au_ring stream of
        None \<Rightarrow> stream
      | Some ring \<Rightarrow>
          (case fplinux_audio_mixer_heard (au_mixer stream) played of
             (heard, mixer) \<Rightarrow>
               stream\<lparr> au_mixer := mixer, au_ring := Some (ring\<lparr> ri_read := ms_read mixer, ri_heard := heard \<rparr>) \<rparr>))"

definition fplinux_audio_streams_publish :: "u64 \<Rightarrow> audio_streams \<Rightarrow> audio_streams" where
  "fplinux_audio_streams_publish played s = s\<lparr> as_streams := map (publish_stream played) (as_streams s) \<rparr>"

definition stop_connection :: "nat \<Rightarrow> audio_streams \<Rightarrow> audio_streams" where
  "stop_connection i s =
     (if ac_state (as_connections s ! i) \<noteq> CONNECTION_FREE then fplinux_audio_streams_disconnect i s else s)"

definition fplinux_audio_streams_stop :: "audio_streams \<Rightarrow> audio_streams" where
  "fplinux_audio_streams_stop s = fold stop_connection [0..<AUDIO_CONNECTIONS] s"

end
