(* ===== verification/Audio_Policy.thy ===== *)
theory Audio_Policy
  imports Audio_Streams
begin

section \<open>The invariant of the audio service\<close>

text \<open>
  What every operation of \<open>audio-streams.c\<close> keeps: the tables have their sizes, processes are
  announced once and at most one of them is the clock, a connection that is ready has the user and
  role its process was announced with, every stream belongs to a ready connection and lies in the slots
  of its role, no process has more streams than it may have, and the mixer's copy of a ring fits the memory.
\<close>

subsection \<open>Searching\<close>

lemma first_index_Some: "first_index P xs = Some i \<Longrightarrow> i < length xs \<and> P (xs ! i) \<and> (\<forall>j < i. \<not> P (xs ! j))"
proof (induction xs arbitrary: i)
  case (Cons x xs)
  then show ?case by (auto split: if_splits simp: less_Suc_eq_0_disj)
qed simp

lemma first_index_None: "first_index P xs = None \<longleftrightarrow> (\<forall>x \<in> set xs. \<not> P x)"
  by (induction xs) auto

subsection \<open>What the small steps change\<close>

lemma put_simps [simp]:
  "as_processes (put_effect e s) = as_processes s" "as_gone (put_effect e s) = as_gone s"
  "as_last_gone (put_effect e s) = as_last_gone s" "as_connections (put_effect e s) = as_connections s"
  "as_streams (put_effect e s) = as_streams s" "as_output (put_effect e s) = as_output s"
  "as_mixed (put_effect e s) = as_mixed s" "as_resync_ms (put_effect e s) = as_resync_ms s" "as_tail (put_effect e s) = as_tail s"
  "as_processes (put_stream i t s) = as_processes s" "as_gone (put_stream i t s) = as_gone s"
  "as_last_gone (put_stream i t s) = as_last_gone s" "as_connections (put_stream i t s) = as_connections s"
  "as_streams (put_stream i t s) = (as_streams s)[i := t]" "as_output (put_stream i t s) = as_output s"
  "as_mixed (put_stream i t s) = as_mixed s" "as_resync_ms (put_stream i t s) = as_resync_ms s" "as_tail (put_stream i t s) = as_tail s"
  "as_processes (put_connection i c s) = as_processes s" "as_gone (put_connection i c s) = as_gone s"
  "as_last_gone (put_connection i c s) = as_last_gone s" "as_connections (put_connection i c s) = (as_connections s)[i := c]"
  "as_streams (put_connection i c s) = as_streams s" "as_output (put_connection i c s) = as_output s"
  "as_mixed (put_connection i c s) = as_mixed s" "as_resync_ms (put_connection i c s) = as_resync_ms s"
  "as_tail (put_connection i c s) = as_tail s"
  by (simp_all add: put_effect_def put_stream_def put_connection_def)

lemma refuse_snd: "snd (refuse E fd e s) = put_effect (Refused fd e (ae_send E (as_log s))) s"
  by (simp add: refuse_def Let_def)

definition unmapped :: "audio_stream \<Rightarrow> audio_stream" where
  "unmapped t = t\<lparr> au_ring := None \<rparr>"

lemma unmapped_simps [simp]:
  "au_ring (unmapped t) = None" "au_connection (unmapped t) = au_connection t" "au_id (unmapped t) = au_id t"
  "au_mixer (unmapped t) = au_mixer t" "unmapped (unmapped t) = unmapped t"
  by (simp_all add: unmapped_def)

lemma end_stream_simps [simp]:
  "as_processes (end_stream i s) = as_processes s" "as_gone (end_stream i s) = as_gone s"
  "as_last_gone (end_stream i s) = as_last_gone s" "as_connections (end_stream i s) = as_connections s"
  "as_streams (end_stream i s) = (as_streams s)[i := unmapped (as_streams s ! i)]" "as_output (end_stream i s) = as_output s"
  "as_mixed (end_stream i s) = as_mixed s" "as_resync_ms (end_stream i s) = as_resync_ms s"
  by (simp_all add: end_stream_def Let_def unmapped_def)

definition without :: "nat \<Rightarrow> audio_stream \<Rightarrow> audio_stream" where
  "without index t = (if au_ring t \<noteq> None \<and> au_connection t = index then unmapped t else t)"

lemma end_streams_of_simps [simp]:
  "as_processes (end_streams_of index i s) = as_processes s" "as_gone (end_streams_of index i s) = as_gone s"
  "as_last_gone (end_streams_of index i s) = as_last_gone s" "as_connections (end_streams_of index i s) = as_connections s"
  "as_streams (end_streams_of index i s) = (as_streams s)[i := without index (as_streams s ! i)]"
  "as_output (end_streams_of index i s) = as_output s"
  "as_mixed (end_streams_of index i s) = as_mixed s" "as_resync_ms (end_streams_of index i s) = as_resync_ms s"
  by (simp_all add: end_streams_of_def without_def)

lemma fold_upt_keeps: "(\<And>i s. f (g i s) = f s) \<Longrightarrow> f (fold g is s) = f s"
  by (induction "is" arbitrary: s) auto

lemma fold_update_map:
  assumes "\<And>i s. h (g i s) = (h s)[i := m (h s ! i)]" "n \<le> length (h s)"
  shows "h (fold g [0..<n] s) = map m (take n (h s)) @ drop n (h s)"
  using assms(2)
proof (induction n)
  case (Suc n)
  then have ih: "h (fold g [0..<n] s) = map m (take n (h s)) @ drop n (h s)" by simp
  have d: "drop n (h s) = h s ! n # drop (Suc n) (h s)" using Suc.prems by (metis Cons_nth_drop_Suc Suc_le_lessD)
  have "h (fold g [0..<Suc n] s) = (map m (take n (h s)) @ drop n (h s))[n := m ((map m (take n (h s)) @ drop n (h s)) ! n)]"
    by (simp add: assms(1) ih)
  also have "\<dots> = map m (take (Suc n) (h s)) @ drop (Suc n) (h s)"
    using Suc.prems by (simp add: d list_update_append nth_append take_Suc_conv_app_nth)
  finally show ?case .
qed simp

lemma disconnect_simps [simp]:
  "as_processes (fplinux_audio_streams_disconnect index s) = as_processes s"
  "as_gone (fplinux_audio_streams_disconnect index s) = as_gone s"
  "as_last_gone (fplinux_audio_streams_disconnect index s) = as_last_gone s"
  "as_connections (fplinux_audio_streams_disconnect index s) = (as_connections s)[index := free_connection]"
  "as_output (fplinux_audio_streams_disconnect index s) = as_output s"
  "as_mixed (fplinux_audio_streams_disconnect index s) = as_mixed s"
  "as_resync_ms (fplinux_audio_streams_disconnect index s) = as_resync_ms s"
  by (simp_all add: fplinux_audio_streams_disconnect_def Let_def fold_upt_keeps [where f = as_processes]
      fold_upt_keeps [where f = as_gone] fold_upt_keeps [where f = as_last_gone] fold_upt_keeps [where f = as_connections]
      fold_upt_keeps [where f = as_output] fold_upt_keeps [where f = as_mixed] fold_upt_keeps [where f = as_resync_ms])

lemma disconnect_streams:
  assumes "length (as_streams s) = AUDIO_STREAMS"
  shows "as_streams (fplinux_audio_streams_disconnect index s) = map (without index) (as_streams s)"
  using fold_update_map [of as_streams "end_streams_of index" "without index" AUDIO_STREAMS s] assms
  by (simp add: fplinux_audio_streams_disconnect_def Let_def)

subsection \<open>The invariant\<close>

abbreviation live :: "audio_stream \<Rightarrow> bool" where
  "live t \<equiv> au_ring t \<noteq> None"

definition tables_ok :: "audio_streams \<Rightarrow> bool" where
  "tables_ok s \<longleftrightarrow> length (as_processes s) = AUDIO_PROCESSES \<and> length (as_gone s) = AUDIO_GONE \<and>
     as_last_gone s < AUDIO_GONE \<and> length (as_connections s) = AUDIO_CONNECTIONS \<and> length (as_streams s) = AUDIO_STREAMS"

text \<open>An entry with a process number is the only one with it, and the only clock.\<close>

definition announced_ok :: "audio_process list \<Rightarrow> bool" where
  "announced_ok ps \<longleftrightarrow> (\<forall>i < length ps. 0 \<le> ap_pid (ps ! i)) \<and>
     (\<forall>i < length ps. \<forall>j < length ps. i \<noteq> j \<longrightarrow> ap_pid (ps ! i) \<noteq> 0 \<longrightarrow> ap_pid (ps ! j) \<noteq> 0 \<longrightarrow>
        ap_pid (ps ! i) \<noteq> ap_pid (ps ! j) \<and> \<not> (ap_clock (ps ! i) \<and> ap_clock (ps ! j)))"

definition role_ok :: "audio_process list \<Rightarrow> audio_connection \<Rightarrow> bool" where
  "role_ok ps c \<longleftrightarrow> (ac_state c = CONNECTION_READY \<longrightarrow>
     (\<forall>p \<in> set ps. 0 < ap_pid p \<longrightarrow> ap_pid p = ac_pid c \<longrightarrow> ap_uid p = ac_uid c \<and> ap_clock p = ac_clock c))"

definition owner_ok :: "audio_connection list \<Rightarrow> nat \<Rightarrow> audio_stream \<Rightarrow> bool" where
  "owner_ok cs i t \<longleftrightarrow> (live t \<longrightarrow> au_connection t < length cs \<and> au_id t \<noteq> 0 \<and>
     ac_state (cs ! au_connection t) = CONNECTION_READY \<and>
     ac_clock (cs ! au_connection t) = (i = AUDIO_CLOCK_STREAM_INDEX))"

definition limits_ok :: "audio_streams \<Rightarrow> bool" where
  "limits_ok s \<longleftrightarrow> (\<forall>pid. streams_of_pid s pid [0..<AUDIO_APP_STREAMS] \<le> AUDIO_CLIENT_STREAMS)"

definition mixer_fits :: "fplinux_audio_mixer_stream \<Rightarrow> int list \<Rightarrow> bool" where
  "mixer_fits m frames \<longleftrightarrow> ring_ok m frames \<and> gain_ok (ms_gain m) \<and> unat (ms_step m) \<le> 2 ^ 32"

definition ring_fits :: "audio_stream \<Rightarrow> bool" where
  "ring_fits t \<longleftrightarrow> (\<forall>r. au_ring t = Some r \<longrightarrow> mixer_fits (au_mixer t) (ri_frames r))"

definition core_ok :: "audio_streams \<Rightarrow> bool" where
  "core_ok s \<longleftrightarrow> tables_ok s \<and> announced_ok (as_processes s) \<and>
     (\<forall>i < AUDIO_STREAMS. owner_ok (as_connections s) i (as_streams s ! i)) \<and> limits_ok s \<and> list_all ring_fits (as_streams s)"

definition audio_ok :: "audio_streams \<Rightarrow> bool" where
  "audio_ok s \<longleftrightarrow> core_ok s \<and> list_all (role_ok (as_processes s)) (as_connections s)"

lemma audio_ok_parts:
  "audio_ok s \<longleftrightarrow> tables_ok s \<and> announced_ok (as_processes s) \<and> list_all (role_ok (as_processes s)) (as_connections s) \<and>
     (\<forall>i < AUDIO_STREAMS. owner_ok (as_connections s) i (as_streams s ! i)) \<and> limits_ok s \<and> list_all ring_fits (as_streams s)"
  by (auto simp: audio_ok_def core_ok_def)

lemma find_process_Some:
  assumes "find_process s pid = Some p"
  shows "p < length (as_processes s)" "0 < pid" "ap_pid (as_processes s ! p) = pid"
  using assms first_index_Some [of _ "as_processes s" p] by (auto simp: find_process_def split: if_splits)

lemma find_process_None: "find_process s pid = None \<Longrightarrow> 0 < pid \<Longrightarrow> q \<in> set (as_processes s) \<Longrightarrow> ap_pid q \<noteq> pid"
  by (auto simp: find_process_def first_index_None split: if_splits)

text \<open>Steps that only end streams: those that live on keep their connection and its rights.\<close>

definition same_rights :: "audio_connection \<Rightarrow> audio_connection \<Rightarrow> bool" where
  "same_rights c c' \<longleftrightarrow> ac_state c' = ac_state c \<and> ac_pid c' = ac_pid c \<and> ac_clock c' = ac_clock c"

definition keeps_stream :: "audio_streams \<Rightarrow> audio_streams \<Rightarrow> nat \<Rightarrow> bool" where
  "keeps_stream s s' i \<longleftrightarrow> live (as_streams s ! i) \<and>
     au_connection (as_streams s' ! i) = au_connection (as_streams s ! i) \<and> au_id (as_streams s' ! i) = au_id (as_streams s ! i) \<and>
     same_rights (as_connections s ! au_connection (as_streams s ! i)) (as_connections s' ! au_connection (as_streams s ! i))"

definition keeps :: "audio_streams \<Rightarrow> audio_streams \<Rightarrow> bool" where
  "keeps s s' \<longleftrightarrow> length (as_streams s') = length (as_streams s) \<and> length (as_connections s') = length (as_connections s) \<and>
     (\<forall>i < length (as_streams s). live (as_streams s' ! i) \<longrightarrow> keeps_stream s s' i)"

lemma keeps_refl [simp]: "keeps s s"
  by (simp add: keeps_def keeps_stream_def same_rights_def)

lemma keeps_stream_trans: "keeps_stream s s' i \<Longrightarrow> keeps_stream s' s'' i \<Longrightarrow> keeps_stream s s'' i"
  by (simp add: keeps_stream_def same_rights_def)

lemma keeps_trans: "keeps s s' \<Longrightarrow> keeps s' s'' \<Longrightarrow> keeps s s''"
  using keeps_stream_trans [of s s' _ s''] unfolding keeps_def
  by (metis keeps_stream_def)

lemma keeps_owner:
  assumes "keeps s s'" "i < length (as_streams s)" "owner_ok (as_connections s) i (as_streams s ! i)"
  shows "owner_ok (as_connections s') i (as_streams s' ! i)"
  using assms by (auto simp: keeps_def keeps_stream_def same_rights_def owner_ok_def)

lemma filter_length_mono: "(\<And>x. x \<in> set xs \<Longrightarrow> P x \<Longrightarrow> Q x) \<Longrightarrow> length (filter P xs) \<le> length (filter Q xs)"
  by (induction xs) auto

lemma keeps_limits:
  assumes "keeps s s'" "tables_ok s" "limits_ok s"
  shows "limits_ok s'"
  unfolding limits_ok_def
proof
  fix pid
  have "streams_of_pid s' pid [0..<AUDIO_APP_STREAMS] \<le> streams_of_pid s pid [0..<AUDIO_APP_STREAMS]"
    unfolding streams_of_pid_def using assms(1,2)
    by (intro filter_length_mono) (auto simp: keeps_def keeps_stream_def same_rights_def tables_ok_def AUDIO_STREAMS_def stream_pid_def)
  then show "streams_of_pid s' pid [0..<AUDIO_APP_STREAMS] \<le> AUDIO_CLIENT_STREAMS"
    using assms(3) by (auto simp: limits_ok_def intro: le_trans)
qed

text \<open>So the invariant is kept by a step of this kind that keeps the tables and roles.\<close>

lemma core_okI:
  assumes "core_ok s" "keeps s s'" "tables_ok s'" "announced_ok (as_processes s')" "list_all ring_fits (as_streams s')"
  shows "core_ok s'"
proof -
  have "tables_ok s" "limits_ok s" "i < AUDIO_STREAMS \<Longrightarrow> owner_ok (as_connections s) i (as_streams s ! i)" for i
    using assms(1) by (simp_all add: core_ok_def)
  then show ?thesis
    using keeps_limits [OF assms(2)] keeps_owner [OF assms(2)] assms(3-5) by (simp add: core_ok_def tables_ok_def)
qed

lemma audio_okI:
  assumes "audio_ok s" "keeps s s'" "tables_ok s'" "announced_ok (as_processes s')"
    "list_all (role_ok (as_processes s')) (as_connections s')" "list_all ring_fits (as_streams s')"
  shows "audio_ok s'"
  using assms core_okI [of s s'] by (simp add: audio_ok_def)

subsection \<open>Steps that end streams and change connections\<close>

lemma effect_ok [simp]: "core_ok (put_effect e s) = core_ok s" "audio_ok (put_effect e s) = audio_ok s"
  by (simp_all add: audio_ok_def core_ok_def tables_ok_def limits_ok_def streams_of_pid_def stream_pid_def)

lemma keeps_effect [simp]: "keeps s (put_effect e s)"
  by (simp add: keeps_def keeps_stream_def same_rights_def)

lemma ring_fits_unmapped [simp]: "ring_fits (unmapped t)"
  by (simp add: ring_fits_def)

lemma ring_fits_without [simp]: "ring_fits t \<Longrightarrow> ring_fits (without index t)"
  by (simp add: without_def)

lemma list_all_update: "list_all P xs \<Longrightarrow> P x \<Longrightarrow> list_all P (xs[i := x])"
  by (auto simp: list_all_iff dest: set_update_subset_insert [THEN subsetD])

lemma live_update: "live (xs[i := unmapped (xs ! i)] ! j) \<Longrightarrow> xs[i := unmapped (xs ! i)] ! j = xs ! j"
  by (cases "i = j"; cases "i < length xs") (auto simp: not_less list_update_beyond)

lemma keeps_end: "keeps s (end_stream i s)"
  using live_update [of "as_streams s" i] by (auto simp: keeps_def keeps_stream_def same_rights_def)

lemma end_stream_ok: assumes "audio_ok s" shows "audio_ok (end_stream i s)"
  by (rule audio_okI [OF assms keeps_end])
     (use assms in \<open>simp_all add: audio_ok_parts tables_ok_def list_all_update\<close>)

lemma without_live: "live (without index t) \<Longrightarrow> without index t = t \<and> au_connection t \<noteq> index"
  by (auto simp: without_def split: if_splits)

lemma keeps_disconnect: assumes "tables_ok s" shows "keeps s (fplinux_audio_streams_disconnect index s)"
proof -
  have "keeps_stream s (fplinux_audio_streams_disconnect index s) i"
    if "i < length (as_streams s)" "live (as_streams (fplinux_audio_streams_disconnect index s) ! i)" for i
    using that without_live [of index "as_streams s ! i"] assms
    by (auto simp: keeps_stream_def same_rights_def disconnect_streams tables_ok_def)
  then show ?thesis using assms by (simp add: keeps_def disconnect_streams tables_ok_def)
qed

lemma role_ok_free [simp]: "role_ok ps free_connection"
  by (simp add: role_ok_def free_connection_def)

lemma disconnect_core: assumes "core_ok s" shows "core_ok (fplinux_audio_streams_disconnect index s)"
proof (rule core_okI [OF assms keeps_disconnect])
  show "list_all ring_fits (as_streams (fplinux_audio_streams_disconnect index s))"
    using assms by (auto simp: core_ok_def tables_ok_def disconnect_streams list_all_iff)
qed (use assms in \<open>simp_all add: core_ok_def tables_ok_def disconnect_streams\<close>)

lemma disconnect_ok: "audio_ok s \<Longrightarrow> audio_ok (fplinux_audio_streams_disconnect index s)"
  by (simp add: audio_ok_def disconnect_core list_all_update)

lemma keeps_connection:
  assumes "core_ok s" "ac_state (as_connections s ! index) \<noteq> CONNECTION_READY \<or> same_rights (as_connections s ! index) c"
  shows "keeps s (put_connection index c s)"
proof -
  have "same_rights (as_connections s ! j) ((as_connections s)[index := c] ! j)"
    if "ac_state (as_connections s ! j) = CONNECTION_READY" for j
    using assms(2) that by (cases "j = index"; cases "index < length (as_connections s)") (auto simp: same_rights_def not_less list_update_beyond)
  then show ?thesis
    using assms(1) by (auto simp: keeps_def keeps_stream_def core_ok_def owner_ok_def tables_ok_def)
qed

lemma connection_core:
  assumes "core_ok s" "ac_state (as_connections s ! index) \<noteq> CONNECTION_READY \<or> same_rights (as_connections s ! index) c"
  shows "core_ok (put_connection index c s)"
  by (rule core_okI [OF assms(1) keeps_connection]) (use assms in \<open>simp_all add: core_ok_def tables_ok_def\<close>)

lemma connection_ok:
  assumes "audio_ok s" "ac_state (as_connections s ! index) \<noteq> CONNECTION_READY \<or> same_rights (as_connections s ! index) c"
    "role_ok (as_processes s) c"
  shows "audio_ok (put_connection index c s)"
  using assms by (simp add: audio_ok_def connection_core list_all_update)

subsection \<open>Storing the state of a stream\<close>

text \<open>A stream replaced by one of the same identity.\<close>

lemma replace_ok:
  assumes "audio_ok s" "live t \<Longrightarrow> live (as_streams s ! i)" "au_connection t = au_connection (as_streams s ! i)"
    "au_id t = au_id (as_streams s ! i)" "ring_fits t"
  shows "audio_ok (put_stream i t s)"
proof -
  have "keeps_stream s (put_stream i t s) j" if "live (as_streams (put_stream i t s) ! j)" for j
    using that assms(2-4) by (cases "i = j"; cases "i < length (as_streams s)") (auto simp: keeps_stream_def same_rights_def not_less list_update_beyond)
  then have "keeps s (put_stream i t s)" by (simp add: keeps_def)
  then show ?thesis
    by (rule audio_okI [OF assms(1)]) (use assms in \<open>simp_all add: audio_ok_parts tables_ok_def list_all_update\<close>)
qed

definition stream_paused :: "audio_streams \<Rightarrow> audio_stream \<Rightarrow> bool" where
  "stream_paused s t = (case find_process s (stream_pid s t) of None \<Rightarrow> True | Some p \<Rightarrow> \<not> ap_audible (as_processes s ! p))"

definition stream_state :: "audio_streams \<Rightarrow> audio_stream \<Rightarrow> ring_state" where
  "stream_state s t = (if stream_paused s t then RING_PAUSED
     else if as_output s = OUTPUT_UNAVAILABLE then RING_UNAVAILABLE else RING_PLAYING)"

definition stream_sleeping :: "audio_streams \<Rightarrow> audio_stream \<Rightarrow> bool" where
  "stream_sleeping s t \<longleftrightarrow> stream_paused s t \<or> as_output s \<noteq> OUTPUT_OPEN"

text \<open>What \<open>update\<close> stores in the stream; in the ring it only touches the state and the flag.\<close>

lemma update_stream:
  obtains t where "update i s = (\<not> stream_paused s (as_streams s ! i) \<and> stream_sleeping s (as_streams s ! i), put_stream i t s)"
    "au_connection t = au_connection (as_streams s ! i)" "au_id t = au_id (as_streams s ! i)"
    "au_mixer t = (au_mixer (as_streams s ! i))\<lparr> ms_paused := stream_paused s (as_streams s ! i) \<rparr>"
    "au_state t = stream_state s (as_streams s ! i)" "au_sleeping t = stream_sleeping s (as_streams s ! i)"
    "live t = live (as_streams s ! i)"
    "\<And>r. au_ring t = Some r \<Longrightarrow> \<exists>q. au_ring (as_streams s ! i) = Some q \<and> ri_frames r = ri_frames q \<and> ri_write r = ri_write q"
proof -
  define u where "u = as_streams s ! i"
  define t1 where "t1 = u\<lparr> au_mixer := (au_mixer u)\<lparr> ms_paused := stream_paused s u \<rparr> \<rparr>"
  define t2 where "t2 = (if au_state t1 \<noteq> stream_state s u
      then t1\<lparr> au_ring := map_option (\<lambda>r. r\<lparr> ri_state := stream_state s u \<rparr>) (au_ring t1), au_state := stream_state s u \<rparr> else t1)"
  define t where "t = (if au_sleeping t2 \<noteq> stream_sleeping s u
      then t2\<lparr> au_ring := map_option (\<lambda>r. r\<lparr> ri_sleeping := stream_sleeping s u \<rparr>) (au_ring t2), au_sleeping := stream_sleeping s u \<rparr> else t2)"
  have "update i s = (\<not> stream_paused s u \<and> stream_sleeping s u, put_stream i t s)"
    unfolding update_def Let_def u_def [symmetric] stream_paused_def [symmetric] stream_sleeping_def [symmetric]
      stream_state_def [symmetric] t1_def [symmetric] t2_def [symmetric] t_def [symmetric] by (rule refl)
  moreover have "au_connection t = au_connection u" "au_id t = au_id u" "live t = live u"
    "au_mixer t = (au_mixer u)\<lparr> ms_paused := stream_paused s u \<rparr>" "au_state t = stream_state s u" "au_sleeping t = stream_sleeping s u"
    by (simp_all add: t_def t2_def t1_def)
  moreover have "\<exists>q. au_ring u = Some q \<and> ri_frames r = ri_frames q \<and> ri_write r = ri_write q" if "au_ring t = Some r" for r
    using that by (auto simp: t_def t2_def t1_def split: if_splits)
  ultimately show ?thesis using that unfolding u_def by blast
qed

lemma mixer_fits_paused [simp]: "mixer_fits (m\<lparr> ms_paused := b \<rparr>) frames = mixer_fits m frames"
  by (simp add: mixer_fits_def ring_ok_def)

lemma update_ok: assumes "audio_ok s" "i < AUDIO_STREAMS" shows "audio_ok (snd (update i s))"
proof (rule update_stream [of i s])
  fix t
  assume t: "update i s = (\<not> stream_paused s (as_streams s ! i) \<and> stream_sleeping s (as_streams s ! i), put_stream i t s)"
    "au_connection t = au_connection (as_streams s ! i)" "au_id t = au_id (as_streams s ! i)"
    "au_mixer t = (au_mixer (as_streams s ! i))\<lparr> ms_paused := stream_paused s (as_streams s ! i) \<rparr>"
    "live t = live (as_streams s ! i)"
    and r: "\<And>r. au_ring t = Some r \<Longrightarrow> \<exists>q. au_ring (as_streams s ! i) = Some q \<and> ri_frames r = ri_frames q \<and> ri_write r = ri_write q"
  have "ring_fits (as_streams s ! i)"
    using assms by (auto simp: audio_ok_parts tables_ok_def list_all_iff)
  then have "ring_fits t" using r by (fastforce simp: ring_fits_def t(4))
  then have "audio_ok (put_stream i t s)" using assms(1) t by (intro replace_ok) auto
  then show ?thesis by (simp add: t(1))
qed

subsection \<open>Opening a stream\<close>

lemma double_until_bounds:
  assumes "0 < c" "c < target \<or> c \<le> 1"
  shows "c \<le> double_until target c \<and> target \<le> double_until target c \<and>
    (double_until target c < 2 * target \<or> double_until target c = 1) \<and> (\<exists>k. double_until target c = c * 2 ^ k)"
  using assms
proof (induction target c rule: double_until.induct)
  case (1 target c)
  show ?case
  proof (cases "c < target")
    case False
    then have "double_until target c = c" by (simp add: double_until.simps [of target c])
    then show ?thesis using 1(2,3) False by (auto intro: exI [of _ 0])
  next
    case True
    then have d: "double_until target c = double_until target (2 * c)" using 1(2) by (simp add: double_until.simps [of target c])
    show ?thesis
    proof (cases "2 * c < target")
      case True
      then obtain k where "double_until target (2 * c) = 2 * c * 2 ^ k" using 1 \<open>c < target\<close> by auto
      then have "double_until target c = c * 2 ^ Suc k" using d by simp
      then show ?thesis using 1(1) [OF conjI] 1(2) True \<open>c < target\<close> d by (auto intro!: exI [of _ "Suc k"])
    next
      case False
      then have "double_until target (2 * c) = 2 * c" by (simp add: double_until.simps [of target "2 * c"])
      then show ?thesis using d True False by (auto intro: exI [of _ 1])
    qed
  qed
qed

text \<open>For a rate in range the capacity is a power of two of at least a quarter of the rate.\<close>

lemma ring_capacity:
  assumes "AUDIO_RATE_MIN \<le> rate" "rate \<le> AUDIO_RATE_MAX"
  shows "unat rate \<le> 4 * unat (fplinux_audio_ring_capacity rate)" "unat (fplinux_audio_ring_capacity rate) \<le> 16384"
    "\<exists>k. unat (fplinux_audio_ring_capacity rate) = 2 ^ k"
proof -
  define t where "t = unat ((rate + 3) div 4)"
  have r: "8000 \<le> unat rate" "unat rate \<le> 48000"
    using assms by (simp_all add: AUDIO_RATE_MIN_def AUDIO_RATE_MAX_def word_le_nat_alt)
  have t: "t = (unat rate + 3) div 4"
  proof -
    have "unat (rate + 3) = unat rate + 3" using r by (simp add: unat_add_lem [THEN iffD1])
    then show ?thesis by (simp add: t_def unat_div)
  qed
  have c: "1 < t" "t \<le> 12000" using r t by auto
  have d: "t \<le> double_until t 1" "double_until t 1 < 2 * t \<or> double_until t 1 = 1" "\<exists>k. double_until t 1 = 2 ^ k"
    using double_until_bounds [of 1 t] by simp_all
  then obtain k where k: "double_until t 1 = 2 ^ k" by blast
  have "(2 :: nat) ^ k < 2 ^ 15" using d(2) c k by auto
  then have "k < 15" by (rule power_less_imp_less_exp [rotated]) simp
  then have le: "double_until t 1 \<le> 16384" using power_increasing [of k 14 "2 :: nat"] unfolding k by simp
  then have u: "unat (fplinux_audio_ring_capacity rate) = double_until t 1"
    unfolding fplinux_audio_ring_capacity_def t_def [symmetric] by (simp add: unat_of_nat)
  show "unat rate \<le> 4 * unat (fplinux_audio_ring_capacity rate)" unfolding u using d(1) t by linarith
  show "unat (fplinux_audio_ring_capacity rate) \<le> 16384" "\<exists>k. unat (fplinux_audio_ring_capacity rate) = 2 ^ k"
    unfolding u using le d(3) by simp_all
qed

lemma step_bound:
  assumes "rate \<le> AUDIO_RATE_MAX"
  shows "unat (push_bit 32 (ucast (rate :: u32)) div ucast MIXER_RATE :: u64) \<le> 2 ^ 32"
proof -
  have r: "unat rate \<le> 48000" using assms by (simp add: AUDIO_RATE_MAX_def word_le_nat_alt)
  have "unat (push_bit 32 (ucast rate) :: u64) = unat rate * 2 ^ 32"
    using r by (simp add: push_bit_eq_mult unat_mult_lem [THEN iffD1] unat_phase)
  then show ?thesis using r by (simp add: unat_div MIXER_RATE_def)
qed

lemma new_stream_fits:
  assumes "format_ok request" "capacity = fplinux_audio_ring_capacity (me_rate request)"
  shows "mixer_fits (fplinux_audio_mixer_stream_init capacity (me_rate request) (unat (me_channels request)) output)
    (ri_frames (new_ring (me_rate request) (me_channels request) capacity))"
proof -
  have c: "unat (me_channels request) \<in> {1, 2}"
  proof -
    have "0 < unat (me_channels request)" "unat (me_channels request) \<le> 2"
      using assms(1) by (auto simp: format_ok_def AUDIO_CHANNELS_MAX_def word_le_nat_alt unat_gt_0)
    then show ?thesis by auto
  qed
  have "unat (me_rate request) \<le> 4 * unat capacity" "8000 \<le> unat (me_rate request)"
    using ring_capacity [of "me_rate request"] assms by (simp_all add: format_ok_def AUDIO_RATE_MIN_def word_le_nat_alt)
  then have "capacity \<noteq> 0" by auto
  then have m: "unat (capacity - 1) + 1 = unat capacity" by (simp add: unat_minus_one) (metis One_nat_def Suc_pred unat_gt_0)
  show ?thesis
    using c m assms(1) step_bound [of "me_rate request"]
    by (auto simp: mixer_fits_def ring_ok_def gain_ok_def fplinux_audio_mixer_stream_init_def new_ring_def UNITY_def format_ok_def
        list_all_iff int16_def)
qed

lemma streams_of_pid_put:
  assumes "i < length (as_streams s)" "distinct slots"
  shows "streams_of_pid (put_stream i t s) pid slots \<le>
    streams_of_pid s pid slots + (if i \<in> set slots \<and> live t \<and> stream_pid s t = pid then 1 else 0)"
proof -
  define P where "P j \<longleftrightarrow> live (as_streams s ! j) \<and> stream_pid s (as_streams s ! j) = pid" for j
  define Q where "Q \<longleftrightarrow> live t \<and> stream_pid s t = pid"
  define R where "R j \<longleftrightarrow> (if j = i then Q else P j)" for j
  have f: "live (as_streams (put_stream i t s) ! j) \<and> stream_pid (put_stream i t s) (as_streams (put_stream i t s) ! j) = pid \<longleftrightarrow>
     R j" for j
    using assms(1) by (simp add: stream_pid_def P_def Q_def R_def)
  have "length (filter R slots) \<le> length (filter P slots) + (if i \<in> set slots \<and> Q then 1 else 0)"
    using assms(2)
  proof (induction slots)
    case (Cons k slots)
    have "filter R slots = filter P slots" if "i \<notin> set slots"
      using that by (intro filter_cong) (auto simp: R_def)
    moreover have "R k = (if k = i then Q else P k)" by (simp add: R_def)
    ultimately show ?case using Cons by (cases "k = i") auto
  qed simp
  moreover have "streams_of_pid s pid slots = length (filter P slots)" unfolding streams_of_pid_def P_def ..
  moreover have "streams_of_pid (put_stream i t s) pid slots = length (filter R slots)" unfolding streams_of_pid_def f ..
  ultimately show ?thesis by (simp only: Q_def)
qed

lemma slots_of_props: "i \<in> set (slots_of c) \<Longrightarrow> i < AUDIO_STREAMS \<and> (ac_clock c \<longleftrightarrow> i = AUDIO_CLOCK_STREAM_INDEX)"
  by (auto simp: slots_of_def AUDIO_STREAMS_def AUDIO_CLOCK_STREAM_INDEX_def split: if_splits)

text \<open>A new stream in a free slot of the role of its connection.\<close>

lemma new_stream_ok:
  assumes ok: "audio_ok s" and i: "i \<in> set (slots_of c)" and c: "c = as_connections s ! index" "index < AUDIO_CONNECTIONS"
    and ready: "ac_state c = CONNECTION_READY" and t: "au_connection t = index" "au_id t \<noteq> 0" "ring_fits t"
    and few: "streams_of_pid s (ac_pid c) (slots_of c) < (if ac_clock c then 1 else AUDIO_CLIENT_STREAMS)"
  shows "audio_ok (put_stream i t s)"
proof -
  have i9: "i < AUDIO_STREAMS" "ac_clock c \<longleftrightarrow> i = AUDIO_CLOCK_STREAM_INDEX" using slots_of_props [OF i] by simp_all
  have len: "length (as_streams s) = AUDIO_STREAMS" "length (as_connections s) = AUDIO_CONNECTIONS"
    using ok by (simp_all add: audio_ok_parts tables_ok_def)
  have "streams_of_pid (put_stream i t s) pid [0..<AUDIO_APP_STREAMS] \<le> AUDIO_CLIENT_STREAMS" for pid
  proof -
    have "streams_of_pid s pid [0..<AUDIO_APP_STREAMS] \<le> AUDIO_CLIENT_STREAMS" using ok by (simp add: audio_ok_parts limits_ok_def)
    moreover have "streams_of_pid s pid [0..<AUDIO_APP_STREAMS] < AUDIO_CLIENT_STREAMS" if "i < AUDIO_APP_STREAMS" "stream_pid s t = pid"
      using few that i9(2) by (simp add: slots_of_def stream_pid_def t(1) c(1) [symmetric] AUDIO_CLOCK_STREAM_INDEX_def split: if_splits)
    ultimately show ?thesis
      using streams_of_pid_put [of i s "[0..<AUDIO_APP_STREAMS]" t pid] i9(1) len(1) by (auto split: if_splits)
  qed
  moreover have "owner_ok (as_connections s) j ((as_streams s)[i := t] ! j)" if "j < AUDIO_STREAMS" for j
    using ok that ready t c i9 len by (cases "j = i") (auto simp: audio_ok_parts owner_ok_def)
  ultimately show ?thesis
    using ok t(3) by (simp add: audio_ok_parts tables_ok_def limits_ok_def list_all_update)
qed

lemma next_id_nonzero [simp]: "next_id x \<noteq> 0"
  by (simp add: next_id_def)

lemma refuse_ok [simp]: "audio_ok (snd (refuse E fd e s)) = audio_ok s" "core_ok (snd (refuse E fd e s)) = core_ok s"
  by (simp_all add: refuse_snd)

lemma open_stream_ok:
  assumes ok: "audio_ok s" and index: "index < AUDIO_CONNECTIONS" and ready: "ac_state (as_connections s ! index) = CONNECTION_READY"
  shows "audio_ok (snd (open_stream E index request s))"
proof -
  define c where "c = as_connections s ! index"
  define c' where "c' = c\<lparr> ac_last_id := next_id (ac_last_id c) \<rparr>"
  define rate channels capacity where "rate = me_rate request" "channels = me_channels request"
    "capacity = fplinux_audio_ring_capacity rate"
  define t where "t = \<lparr> au_ring = Some (new_ring rate channels capacity), au_bytes = AUDIO_RING_BYTES capacity channels,
      au_connection = index, au_id = ac_last_id c', au_state = RING_PLAYING, au_sleeping = False,
      au_mixer = fplinux_audio_mixer_stream_init capacity rate (unat channels) (as_mixed s) \<rparr>"
  have len: "length (as_connections s) = AUDIO_CONNECTIONS" using ok by (simp add: audio_ok_parts tables_ok_def)
  have opened: "audio_ok (snd (update i (put_stream i t (put_connection index c' s))))" (is "audio_ok ?s3")
    if fmt: "format_ok request" and few: "\<not> streams_of_pid s (ac_pid c) (slots_of c) \<ge> (if ac_clock c then 1 else AUDIO_CLIENT_STREAMS)"
      and free: "filter (\<lambda>i. au_ring (as_streams s ! i) = None) (slots_of c) = i # rest" for i rest
  proof -
    have i: "i \<in> set (slots_of c)" using arg_cong [OF free, of set] by auto
    have r: "same_rights c c'" by (simp add: same_rights_def c'_def)
    have "role_ok (as_processes s) c'"
      using ok index len by (auto simp: audio_ok_parts list_all_iff role_ok_def c'_def c_def)
    then have ok1: "audio_ok (put_connection index c' s)" using connection_ok [OF ok, of index c'] r by (simp add: c_def)
    have c1: "c' = as_connections (put_connection index c' s) ! index" using index len by simp
    have fits: "ring_fits t"
      using new_stream_fits [OF fmt, of capacity "as_mixed s"] by (simp add: ring_fits_def t_def rate_channels_capacity_def)
    have pids: "ac_pid ((as_connections s)[index := c'] ! j) = ac_pid (as_connections s ! j)" for j
      using index len by (cases "j = index") (simp_all add: c'_def c_def)
    have "streams_of_pid (put_connection index c' s) (ac_pid c') (slots_of c') = streams_of_pid s (ac_pid c) (slots_of c)"
    proof -
      have "slots_of c' = slots_of c" "ac_pid c' = ac_pid c" by (simp_all add: c'_def slots_of_def)
      then show ?thesis by (simp add: streams_of_pid_def stream_pid_def pids)
    qed
    then have "audio_ok (put_stream i t (put_connection index c' s))"
      using new_stream_ok [OF ok1 _ c1 index, of i t] i few fits ready
      by (simp add: t_def c'_def c_def slots_of_def not_le)
    then show ?thesis using slots_of_props [OF i] by (simp add: update_ok)
  qed
  have ended: "audio_ok (put_stream i ((as_streams u ! i)\<lparr> au_ring := None \<rparr>) (put_effect e u))" if "audio_ok u" for i u e
    using replace_ok [of "put_effect e u" "unmapped (as_streams u ! i)" i] that by (simp add: unmapped_def ring_fits_def)
  show ?thesis
    unfolding open_stream_def Let_def c_def [symmetric] c'_def [symmetric] rate_channels_capacity_def(1,2) [symmetric]
      rate_channels_capacity_def(3) [symmetric] t_def [symmetric]
    using ok opened ended by (auto split: list.splits)
qed

subsection \<open>Packets and connections\<close>

lemma announced_distinct:
  assumes "announced_ok ps" "i < length ps" "j < length ps" "i \<noteq> j" "ap_pid (ps ! i) \<noteq> 0" "ap_pid (ps ! j) \<noteq> 0"
  shows "ap_pid (ps ! i) \<noteq> ap_pid (ps ! j)" "\<not> (ap_clock (ps ! i) \<and> ap_clock (ps ! j))"
  using assms unfolding announced_ok_def by blast+

lemma announced_unique:
  assumes "announced_ok ps" "p < length ps" "q \<in> set ps" "ap_pid q = ap_pid (ps ! p)" "0 < ap_pid q"
  shows "q = ps ! p"
proof -
  obtain i where i: "i < length ps" "q = ps ! i" using assms(3) by (auto simp: in_set_conv_nth)
  then show ?thesis using announced_distinct(1) [OF assms(1) i(1) assms(2)] assms(4,5) by (cases "i = p") auto
qed

lemma handle_ok:
  assumes ok: "audio_ok s" and index: "index < AUDIO_CONNECTIONS"
  shows "audio_ok (snd (handle E index message s))"
proof -
  define c where "c = as_connections s ! index"
  have hello: "audio_ok (snd (handle_hello E index message s))"
  proof -
    have ready: "audio_ok (put_connection index (c\<lparr> ac_state := CONNECTION_READY, ac_clock := ap_clock (as_processes s ! p) \<rparr>) s)"
      if "ac_state c = CONNECTION_NEW" "find_process s (ac_pid c) = Some p" "ap_uid (as_processes s ! p) = ac_uid c" for p
    proof (rule connection_ok [OF ok])
      note p = find_process_Some [OF that(2)]
      have "announced_ok (as_processes s)" using ok by (simp add: audio_ok_parts)
      then show "role_ok (as_processes s) (c\<lparr> ac_state := CONNECTION_READY, ac_clock := ap_clock (as_processes s ! p) \<rparr>)"
        using announced_unique [of "as_processes s" p] p that(3) by (auto simp: role_ok_def)
    qed (use that in \<open>simp add: c_def\<close>)
    have "audio_ok (put_connection index (c\<lparr> ac_state := CONNECTION_WAITING \<rparr>) s)" if "ac_state c = CONNECTION_NEW"
      using that by (intro connection_ok [OF ok]) (simp_all add: c_def role_ok_def)
    then show ?thesis
      unfolding handle_hello_def Let_def c_def [symmetric] using ok ready by (auto split: option.splits)
  qed
  show ?thesis
    unfolding handle_def Let_def
    using ok hello open_stream_ok [OF ok index] end_stream_ok [OF ok] by (auto split: option.splits)
qed

lemma receive_packets_ok:
  "audio_ok s \<Longrightarrow> index < AUDIO_CONNECTIONS \<Longrightarrow> audio_ok (receive_packets E index n packets s)"
proof (induction E index n packets s rule: receive_packets.induct)
  case (2 E index n packets s)
  show ?case
  proof (cases packets)
    case (Cons x rest)
    show ?thesis
    proof (cases x)
      case (Message m)
      obtain b s' where h: "handle E index m s = (b, s')" by fastforce
      then have "audio_ok s'" using handle_ok [OF 2(2,3), of E m] by simp
      then show ?thesis using 2 Cons Message h by (auto simp: disconnect_ok split: bool.splits)
    qed (use 2 Cons in \<open>auto simp: disconnect_ok\<close>)
  qed (use 2 in simp)
qed simp

lemma accept_ok: assumes "audio_ok s" shows "audio_ok (snd (fplinux_audio_streams_accept fd pid uid now_ms s))"
proof (cases "first_index (\<lambda>c. ac_state c = CONNECTION_FREE) (as_connections s)")
  case (Some i)
  then have "ac_state (as_connections s ! i) = CONNECTION_FREE" using first_index_Some [OF Some] by simp
  then show ?thesis
    using assms by (auto simp: fplinux_audio_streams_accept_def Some role_ok_def intro!: connection_ok)
qed (use assms in \<open>simp add: fplinux_audio_streams_accept_def\<close>)

end
