(* ===== verification/Audio_Service.thy ===== *)
theory Audio_Service
  imports Audio_Policy
begin

section \<open>What the audio service guarantees\<close>

text \<open>
  The control commands, deadlines and periods of \<open>audio-streams.c\<close> keep the invariant of
  \<open>Audio_Policy\<close>; so it holds after every sequence of steps, with applications free to
  write anything into their rings.
\<close>

subsection \<open>Control commands\<close>

lemma fold_keeps: "P s \<Longrightarrow> (\<And>i s. i \<in> set is \<Longrightarrow> P s \<Longrightarrow> P (g i s)) \<Longrightarrow> P (fold g is s)"
  by (induction "is" arbitrary: s) auto

lemma fold_maps:
  assumes "\<And>i s. Q s \<Longrightarrow> h (g i s) = (h s)[i := m (h s ! i)] \<and> Q (g i s)" "Q s" "length (h s) = n"
  shows "h (fold g [0..<n] s) = map m (h s)"
proof -
  have "h (fold g [0..<k] s) = map m (take k (h s)) @ drop k (h s) \<and> Q (fold g [0..<k] s)" if "k \<le> n" for k
    using that
  proof (induction k)
    case (Suc k)
    have d: "drop k (h s) = h s ! k # drop (Suc k) (h s)" using Suc.prems assms(3) by (metis Cons_nth_drop_Suc Suc_le_lessD)
    have ih: "h (fold g [0..<k] s) = map m (take k (h s)) @ drop k (h s)" "Q (fold g [0..<k] s)" using Suc by simp_all
    show ?case
      using assms(1) [OF ih(2), of k] Suc.prems assms(3)
      by (simp add: ih d list_update_append nth_append take_Suc_conv_app_nth)
  qed (simp add: assms(2))
  from this [of n] show ?thesis using assms(3) by simp
qed

definition announced_connection :: "int \<Rightarrow> u32 \<Rightarrow> bool \<Rightarrow> audio_connection \<Rightarrow> audio_connection" where
  "announced_connection pid uid clock c =
     (if ac_pid c \<noteq> pid \<or> ac_state c = CONNECTION_FREE \<or> ac_state c = CONNECTION_NEW then c
      else if ac_uid c = uid \<and> (ac_state c = CONNECTION_WAITING \<or> ac_clock c = clock)
      then c\<lparr> ac_state := CONNECTION_READY, ac_clock := clock \<rparr> else free_connection)"

lemma announce_connection_map:
  "as_connections (announce_connection E pid uid clock i s) =
     (as_connections s)[i := announced_connection pid uid clock (as_connections s ! i)]"
  "as_processes (announce_connection E pid uid clock i s) = as_processes s"
  by (auto simp: announce_connection_def announced_connection_def Let_def refuse_snd)

lemma announce_connection_core: assumes "core_ok s" shows "core_ok (announce_connection E pid uid clock i s)"
proof -
  let ?c = "as_connections s ! i"
  have "core_ok (put_connection i (?c\<lparr> ac_state := CONNECTION_READY, ac_clock := clock \<rparr>) s)"
    if "ac_state ?c = CONNECTION_WAITING \<or> ac_state ?c = CONNECTION_READY \<and> ac_clock ?c = clock"
    using that by (intro connection_core [OF assms]) (auto simp: same_rights_def)
  moreover have "ac_state ?c \<noteq> CONNECTION_FREE \<Longrightarrow> ac_state ?c \<noteq> CONNECTION_NEW \<Longrightarrow>
      ac_state ?c = CONNECTION_WAITING \<or> ac_state ?c = CONNECTION_READY" by (cases "ac_state ?c") auto
  ultimately show ?thesis
    using assms disconnect_core unfolding announce_connection_def Let_def by auto
qed

lemma processes_ok:
  assumes "core_ok s" "length ps = AUDIO_PROCESSES" "announced_ok ps"
  shows "core_ok (s\<lparr> as_processes := ps \<rparr>)"
  by (rule core_okI [OF assms(1)])
     (use assms in \<open>simp_all add: core_ok_def tables_ok_def keeps_def keeps_stream_def same_rights_def\<close>)

lemma gone_ok:
  assumes "audio_ok s" "length g = AUDIO_GONE" "k < AUDIO_GONE"
  shows "audio_ok (s\<lparr> as_gone := g \<rparr>)" "audio_ok (s\<lparr> as_last_gone := k, as_gone := g \<rparr>)"
  by (rule audio_okI [OF assms(1)];
      use assms in \<open>simp add: audio_ok_parts tables_ok_def keeps_def keeps_stream_def same_rights_def\<close>)+

lemma announced_update:
  assumes ps: "announced_ok ps" "p < length ps" and pid: "0 < pid"
    and p: "ap_pid (ps ! p) = pid \<or> ap_pid (ps ! p) = 0 \<and> pid \<notin> ap_pid ` set ps"
    and clock: "clock \<longrightarrow> (\<forall>q \<in> set ps. ap_pid q \<noteq> 0 \<longrightarrow> ap_pid q \<noteq> pid \<longrightarrow> \<not> ap_clock q)"
  shows "announced_ok (ps[p := \<lparr> ap_pid = pid, ap_uid = uid, ap_audible = a, ap_clock = clock \<rparr>])"
proof -
  have other: "ap_pid (ps ! j) \<noteq> pid" "clock \<longrightarrow> ap_pid (ps ! j) \<noteq> 0 \<longrightarrow> \<not> ap_clock (ps ! j)" if "j < length ps" "j \<noteq> p" for j
  proof -
    show "ap_pid (ps ! j) \<noteq> pid"
      using p announced_distinct(1) [OF ps(1) that(1) ps(2) that(2)] pid that(1) by (cases "ap_pid (ps ! p) = pid") auto
    then show "clock \<longrightarrow> ap_pid (ps ! j) \<noteq> 0 \<longrightarrow> \<not> ap_clock (ps ! j)" using clock that(1) by auto
  qed
  define q where "q = \<lparr> ap_pid = pid, ap_uid = uid, ap_audible = a, ap_clock = clock \<rparr>"
  have q: "ap_pid q = pid" "ap_clock q = clock" by (simp_all add: q_def)
  have "ap_pid (ps[p := q] ! i) \<noteq> ap_pid (ps[p := q] ! j) \<and> \<not> (ap_clock (ps[p := q] ! i) \<and> ap_clock (ps[p := q] ! j))"
    if ij: "i < length ps" "j < length ps" "i \<noteq> j" "ap_pid (ps[p := q] ! i) \<noteq> 0" "ap_pid (ps[p := q] ! j) \<noteq> 0" for i j
  proof -
    consider "i = p" "j \<noteq> p" | "j = p" "i \<noteq> p" | "i \<noteq> p" "j \<noteq> p" using ij(3) by blast
    then show ?thesis
    proof cases
      case 1
      then show ?thesis using other [OF ij(2)] ij ps(2) q by auto
    next
      case 2
      then show ?thesis using other [OF ij(1)] ij ps(2) q by auto
    next
      case 3
      then show ?thesis using announced_distinct [OF ps(1) ij(1-3)] ij(4,5) by auto
    qed
  qed
  moreover have "0 \<le> ap_pid (ps[p := q] ! i)" if "i < length ps" for i
    using that ps pid q by (cases "i = p") (auto simp: announced_ok_def)
  ultimately show ?thesis unfolding announced_ok_def q_def [symmetric] by simp
qed

lemma role_other:
  assumes "role_ok ps c" "ac_pid c \<noteq> pid" "ap_pid q = pid"
  shows "role_ok (ps[p := q]) c"
  using assms by (auto simp: role_ok_def dest!: set_update_subset_insert [THEN subsetD])

lemma announce_ok: assumes ok: "audio_ok s" and pid: "0 < pid" shows "audio_ok (announce E pid uid clock s)"
proof -
  define s1 where "s1 = (case find_gone s pid of Some g \<Rightarrow> s\<lparr> as_gone := (as_gone s)[g := 0] \<rparr> | None \<Rightarrow> s)"
  have ok1: "audio_ok s1" "as_processes s1 = as_processes s"
    using ok gone_ok(1) [OF ok, of "(as_gone s)[g := 0]" 0 for g] by (auto simp: s1_def audio_ok_parts tables_ok_def AUDIO_GONE_def split: option.splits)
  define q where "q = \<lparr> ap_pid = pid, ap_uid = uid, ap_audible = False, ap_clock = clock \<rparr>"
  have step: "audio_ok (fold (announce_connection E pid uid clock) [0..<AUDIO_CONNECTIONS] (s1\<lparr> as_processes := (as_processes s1)[p := q] \<rparr>))"
    if p: "p < AUDIO_PROCESSES" "ap_pid (as_processes s ! p) = pid \<or> ap_pid (as_processes s ! p) = 0 \<and> pid \<notin> ap_pid ` set (as_processes s)"
      and c: "\<not> (clock \<and> other_clock s pid)" for p
  proof -
    let ?s2 = "s1\<lparr> as_processes := (as_processes s1)[p := q] \<rparr>"
    let ?f = "fold (announce_connection E pid uid clock) [0..<AUDIO_CONNECTIONS] ?s2"
    have t: "announced_ok (as_processes s)" "length (as_processes s) = AUDIO_PROCESSES" "length (as_connections s1) = AUDIO_CONNECTIONS"
      using ok ok1 by (simp_all add: audio_ok_parts tables_ok_def)
    have "announced_ok ((as_processes s)[p := q])"
      unfolding q_def using t(1,2) p pid c by (intro announced_update) (auto simp: other_clock_def)
    then have "core_ok ?s2" using ok1 t(2) by (intro processes_ok) (simp_all add: audio_ok_def)
    then have core: "core_ok ?f" by (rule fold_keeps) (rule announce_connection_core)
    have cs: "as_connections ?f = map (announced_connection pid uid clock) (as_connections s1)"
      using fold_maps [of "\<lambda>_. True" as_connections "announce_connection E pid uid clock" _ ?s2 AUDIO_CONNECTIONS] t(3)
      by (simp add: announce_connection_map)
    have ps: "as_processes ?f = (as_processes s)[p := q]"
      using fold_upt_keeps [of as_processes "announce_connection E pid uid clock" _ ?s2] by (simp add: announce_connection_map ok1)
    have "role_ok ((as_processes s)[p := q]) (announced_connection pid uid clock c)" if "c \<in> set (as_connections s1)" for c
    proof (cases "ac_pid c = pid")
      case False
      then show ?thesis
        using that ok1 role_other [of "as_processes s" c pid q p] by (simp add: announced_connection_def q_def audio_ok_def list_all_iff)
    next
      case True
      have "ap_uid x = uid \<and> ap_clock x = clock" if "x \<in> set ((as_processes s)[p := q])" "ap_pid x = pid" for x
      proof -
        have "x = q"
          using announced_unique [OF \<open>announced_ok ((as_processes s)[p := q])\<close>, of p x] that p(1) t(2) pid by (simp add: q_def)
        then show ?thesis by (simp add: q_def)
      qed
      then show ?thesis using True by (auto simp: role_ok_def announced_connection_def free_connection_def)
    qed
    then show ?thesis using core by (simp add: audio_ok_def cs ps list_all_iff)
  qed
  have "p < AUDIO_PROCESSES \<and> (ap_pid (as_processes s ! p) = pid \<or> ap_pid (as_processes s ! p) = 0 \<and> pid \<notin> ap_pid ` set (as_processes s))"
    if "(case find_process s pid of Some p \<Rightarrow> Some p | None \<Rightarrow> first_index (\<lambda>p. ap_pid p = 0) (as_processes s1)) = Some p" for p
  proof (cases "find_process s pid")
    case (Some p')
    then show ?thesis using that find_process_Some [OF Some] ok by (simp add: audio_ok_parts tables_ok_def)
  next
    case None
    then show ?thesis
      using that first_index_Some [of "\<lambda>p. ap_pid p = 0" "as_processes s1" p] find_process_None [OF None pid] ok ok1
      by (auto simp: audio_ok_parts tables_ok_def)
  qed
  then show ?thesis
    using ok ok1(1) step unfolding announce_def Let_def s1_def [symmetric] q_def [symmetric] by (simp split: option.split)
qed

lemma announced_zero: assumes "announced_ok ps" shows "announced_ok (ps[p := zero_process])"
proof -
  have "ap_pid (ps[p := zero_process] ! i) \<noteq> 0 \<Longrightarrow> ps[p := zero_process] ! i = ps ! i" for i
    by (cases "i = p"; cases "p < length ps") (auto simp: zero_process_def not_less list_update_beyond)
  moreover have "0 \<le> ap_pid (ps[p := zero_process] ! i)" if "i < length ps" for i
    using assms that by (cases "i = p") (auto simp: announced_ok_def zero_process_def)
  ultimately show ?thesis using assms unfolding announced_ok_def by (metis length_list_update)
qed

lemma forget_connection_ok: "audio_ok s \<Longrightarrow> audio_ok (forget_connection E pid i s)"
  by (simp add: forget_connection_def Let_def disconnect_ok)

lemma forget_connection_map:
  "as_connections (forget_connection E pid i s) =
     (as_connections s)[i := (if ac_pid (as_connections s ! i) = pid then if ac_state (as_connections s ! i) = CONNECTION_FREE
        then as_connections s ! i else free_connection else as_connections s ! i)]"
  "as_processes (forget_connection E pid i s) = as_processes s" "as_gone (forget_connection E pid i s) = as_gone s"
  "as_last_gone (forget_connection E pid i s) = as_last_gone s"
  by (auto simp: forget_connection_def Let_def refuse_snd)

lemma role_subset: "role_ok ps c \<Longrightarrow> ap_pid q = 0 \<Longrightarrow> role_ok (ps[p := q]) c"
  by (auto simp: role_ok_def dest!: set_update_subset_insert [THEN subsetD])

lemma process_gone_ok: assumes "audio_ok s" shows "audio_ok (s\<lparr> as_processes := (as_processes s)[p := zero_process] \<rparr>)"
proof -
  have "core_ok (s\<lparr> as_processes := (as_processes s)[p := zero_process] \<rparr>)"
    using assms by (intro processes_ok announced_zero) (simp_all add: audio_ok_parts tables_ok_def core_ok_def)
  then show ?thesis
    using assms by (auto simp: audio_ok_def list_all_iff zero_process_def intro!: role_subset)
qed

lemma forget_ok: assumes "audio_ok s" shows "audio_ok (forget E pid s)"
proof -
  define s1 where "s1 = fold (forget_connection E pid) [0..<AUDIO_CONNECTIONS] s"
  define s2 where "s2 = (case find_process s pid of Some p \<Rightarrow> s1\<lparr> as_processes := (as_processes s1)[p := zero_process] \<rparr> | None \<Rightarrow> s1)"
  have "audio_ok s1" unfolding s1_def using assms by (rule fold_keeps) (rule forget_connection_ok)
  then have ok: "audio_ok s2" using process_gone_ok by (auto simp: s2_def split: option.split)
  have "audio_ok (s2\<lparr> as_last_gone := (as_last_gone s2 + 1) mod AUDIO_GONE,
      as_gone := (as_gone s2)[(as_last_gone s2 + 1) mod AUDIO_GONE := pid] \<rparr>)"
    using ok by (intro gone_ok(2) [OF ok]) (simp_all add: audio_ok_parts tables_ok_def AUDIO_GONE_def)
  then show ?thesis using ok unfolding forget_def Let_def s1_def [symmetric] s2_def [symmetric] by simp
qed

lemma set_audible_ok: assumes "audio_ok s" shows "audio_ok (set_audible pid audible s)"
proof (cases "find_process s pid")
  case (Some p)
  let ?ps = "(as_processes s)[p := (as_processes s ! p)\<lparr> ap_audible := audible \<rparr>]"
  note p = find_process_Some [OF Some]
  have eq: "ap_pid (?ps ! i) = ap_pid (as_processes s ! i) \<and> ap_clock (?ps ! i) = ap_clock (as_processes s ! i) \<and>
      ap_uid (?ps ! i) = ap_uid (as_processes s ! i)" for i
    using p by (cases "i = p") simp_all
  then have "announced_ok ?ps" using assms by (simp add: audio_ok_parts announced_ok_def)
  then have "core_ok (s\<lparr> as_processes := ?ps \<rparr>)" using assms by (intro processes_ok) (simp_all add: audio_ok_parts tables_ok_def core_ok_def)
  moreover have "role_ok ?ps c" if "role_ok (as_processes s) c" for c
    unfolding role_ok_def
  proof (intro impI ballI)
    fix q assume q: "ac_state c = CONNECTION_READY" "q \<in> set ?ps" "0 < ap_pid q" "ap_pid q = ac_pid c"
    obtain i where i: "i < length (as_processes s)" "q = ?ps ! i" using q(2) by (metis in_set_conv_nth length_list_update)
    then show "ap_uid q = ac_uid c \<and> ap_clock q = ac_clock c"
      using that q eq [of i] nth_mem [OF i(1)] by (auto simp: role_ok_def simp del: nth_mem)
  qed
  ultimately show ?thesis using assms by (auto simp: set_audible_def Some audio_ok_def list_all_iff)
qed (use assms in \<open>simp add: set_audible_def\<close>)

lemma cli_unsigned_range: "fplinux_cli_unsigned w lo hi = Some v \<Longrightarrow> lo \<le> v \<and> v \<le> hi"
  by (auto simp: fplinux_cli_unsigned_def Let_def split: if_splits option.splits)

lemma parse_command_pid:
  "parse_command w = App pid uid \<or> parse_command w = Clock pid uid \<Longrightarrow> 0 < pid"
  by (auto simp: parse_command_def split: list.splits if_splits option.splits dest!: cli_unsigned_range)

lemma command_ok: "audio_ok s \<Longrightarrow> audio_ok (fplinux_audio_streams_command E w s)"
  using parse_command_pid [of w]
  by (auto simp: fplinux_audio_streams_command_def announce_ok forget_ok set_audible_ok split: control.split)

lemma manager_ok: assumes "audio_ok s" shows "audio_ok (fplinux_audio_streams_manager connected now_ms s)"
proof -
  have "announced_ok (replicate AUDIO_PROCESSES zero_process)" by (simp add: announced_ok_def zero_process_def)
  moreover have "role_ok (replicate AUDIO_PROCESSES zero_process) c" for c by (auto simp: role_ok_def zero_process_def)
  ultimately show ?thesis
    unfolding fplinux_audio_streams_manager_def
    by (intro audio_okI [OF assms]) (use assms in \<open>auto simp: audio_ok_parts tables_ok_def keeps_def keeps_stream_def same_rights_def list_all_iff\<close>)
qed

subsection \<open>Deadlines and periods\<close>

lemma resync_connection_ok: "audio_ok s \<Longrightarrow> audio_ok (resync_connection i s)"
  by (simp add: resync_connection_def Let_def disconnect_ok split: option.split)

lemma resync_time_ok: assumes "audio_ok s" shows "audio_ok (s\<lparr> as_resync_ms := r \<rparr>)"
  by (rule audio_okI [OF assms]) (use assms in \<open>simp_all add: audio_ok_parts tables_ok_def keeps_def keeps_stream_def same_rights_def\<close>)

lemma expire_connection_ok: "audio_ok (snd ns) \<Longrightarrow> audio_ok (snd (expire_connection E now_ms i ns))"
  by (cases ns) (simp add: expire_connection_def Let_def disconnect_ok)

definition resynced :: "u64 \<Rightarrow> audio_streams \<Rightarrow> audio_streams" where
  "resynced now_ms s = (if as_resync_ms s \<noteq> 0 \<and> now_ms \<ge> as_resync_ms s
     then fold resync_connection [0..<AUDIO_CONNECTIONS] (s\<lparr> as_resync_ms := 0 \<rparr>) else s)"

lemma resynced_ok: "audio_ok s \<Longrightarrow> audio_ok (resynced now_ms s)"
  using fold_keeps [of audio_ok "s\<lparr> as_resync_ms := 0 \<rparr>" "[0..<AUDIO_CONNECTIONS]" resync_connection]
  by (simp add: resynced_def resync_connection_ok resync_time_ok)

lemma expire_ok: "audio_ok s \<Longrightarrow> audio_ok (snd (fplinux_audio_streams_expire E now_ms s))"
  unfolding fplinux_audio_streams_expire_def Let_def resynced_def [symmetric]
  by (rule fold_keeps [where P = "\<lambda>ns. audio_ok (snd ns)"]) (simp_all add: expire_connection_ok resynced_ok)

lemma refresh_stream_ok:
  assumes "audio_ok (snd ws)" "i < AUDIO_STREAMS"
  shows "audio_ok (snd (refresh_stream i ws))"
proof -
  obtain w s where ws: "ws = (w, s)" by fastforce
  obtain b s' where u: "update i s = (b, s')" by fastforce
  then have "audio_ok s'" using update_ok [of s i] assms ws by simp
  then show ?thesis using assms(1) unfolding refresh_stream_def ws prod.case u Let_def by (simp add: end_stream_ok split: bool.split)
qed

lemma streams_refresh_ok: "audio_ok s \<Longrightarrow> audio_ok (snd (fplinux_audio_streams_refresh s))"
  unfolding fplinux_audio_streams_refresh_def
  by (rule fold_keeps [where P = "\<lambda>ws. audio_ok (snd ws)"]) (simp_all add: refresh_stream_ok)

lemma remember_fits [simp]: "mixer_fits (remember m output) frames = mixer_fits m frames"
  by (simp add: mixer_fits_def ring_ok_def)

lemma mixer_mix_fits:
  assumes "mixer_fits m ring" "fplinux_audio_mixer_mix ring m write mix frames output = (made, m', mix')"
  shows "mixer_fits m' ring"
proof (cases "ms_paused m")
  case True
  then show ?thesis using assms by (auto simp: fplinux_audio_mixer_mix_def mixer_fits_def ring_ok_def gain_ok_def UNITY_def)
next
  case False
  obtain n m1 mix1 where r: "resample ring m (write - ms_read m) mix frames = (n, m1, mix1)" by (metis prod_cases3)
  then have "mixer_fits m1 ring"
    using assms(1) by (auto simp: resample_def mixer_fits_def ring_ok_def gain_ok_def split: prod.splits)
  then show ?thesis
    using assms False r by (auto simp: fplinux_audio_mixer_mix_def Let_def split: if_splits)
qed

lemma mix_stream_ok:
  assumes "audio_ok (snd (snd pms))" "i < AUDIO_STREAMS"
  shows "audio_ok (snd (snd (mix_stream frames i pms)))"
proof -
  obtain played mix s where pms: "pms = (played, mix, s)" by (metis prod_cases3)
  let ?t = "as_streams s ! i"
  have ok: "audio_ok s" using assms(1) pms by simp
  show ?thesis
  proof (cases "au_ring ?t")
    case (Some ring)
    define w where "w = (if \<not> ms_paused (au_mixer ?t) then ri_write ring else 0)"
    obtain made m mix' where m: "fplinux_audio_mixer_mix (ri_frames ring) (au_mixer ?t) w mix frames (as_mixed s) = (made, m, mix')"
      by (metis prod_cases3)
    have "ring_fits ?t" using ok assms(2) by (auto simp: audio_ok_parts tables_ok_def list_all_iff)
    then have "ring_fits (?t\<lparr> au_mixer := m \<rparr>)" using mixer_mix_fits [OF _ m] Some by (simp add: ring_fits_def)
    then have "audio_ok (put_stream i (?t\<lparr> au_mixer := m \<rparr>) s)" using ok by (intro replace_ok) simp_all
    then show ?thesis
      unfolding mix_stream_def pms prod.case Let_def Some option.case w_def [symmetric] m by (simp add: end_stream_ok split: option.split)
  qed (use ok in \<open>simp add: mix_stream_def pms\<close>)
qed

lemma mix_ok: assumes "audio_ok s" shows "audio_ok (snd (snd (fplinux_audio_streams_mix frames s)))"
proof -
  have "audio_ok (s\<lparr> as_tail := (0, 0), as_mixed := as_mixed s + of_nat frames \<rparr>)"
    by (rule audio_okI [OF assms]) (use assms in \<open>simp_all add: audio_ok_parts tables_ok_def keeps_def keeps_stream_def same_rights_def\<close>)
  then show ?thesis
    unfolding fplinux_audio_streams_mix_def
    by (intro fold_keeps [where P = "\<lambda>pms. audio_ok (snd (snd pms))"]) (simp_all add: mix_stream_ok)
qed

lemma heard_fits: "fplinux_audio_mixer_heard m played = (heard, m') \<Longrightarrow> mixer_fits m' frames = mixer_fits m frames"
  by (auto simp: fplinux_audio_mixer_heard_def Let_def mixer_fits_def ring_ok_def split: option.splits if_splits)

lemma publish_stream_same:
  "au_connection (publish_stream played t) = au_connection t" "au_id (publish_stream played t) = au_id t"
  "au_ring (publish_stream played t) = None \<longleftrightarrow> au_ring t = None" "ring_fits t \<Longrightarrow> ring_fits (publish_stream played t)"
  by (auto simp: publish_stream_def ring_fits_def heard_fits split: option.splits prod.splits)

lemma publish_ok: assumes "audio_ok s" shows "audio_ok (fplinux_audio_streams_publish played s)"
  unfolding fplinux_audio_streams_publish_def
  by (rule audio_okI [OF assms])
     (use assms in \<open>auto simp: audio_ok_parts tables_ok_def keeps_def keeps_stream_def same_rights_def list_all_iff publish_stream_same
        simp del: not_None_eq\<close>)

lemma stop_ok: "audio_ok s \<Longrightarrow> audio_ok (fplinux_audio_streams_stop s)"
  unfolding fplinux_audio_streams_stop_def
  by (rule fold_keeps) (simp_all add: stop_connection_def disconnect_ok)

lemma output_ok: assumes "audio_ok s" shows "audio_ok (s\<lparr> as_output := output \<rparr>)"
  by (rule audio_okI [OF assms]) (use assms in \<open>simp_all add: audio_ok_parts tables_ok_def keeps_def keeps_stream_def same_rights_def\<close>)

lemma streams_init_ok: "audio_ok fplinux_audio_streams_init"
proof -
  have t: "as_streams fplinux_audio_streams_init ! i = zero_stream" if "i < AUDIO_STREAMS" for i
    using that by (simp add: fplinux_audio_streams_init_def)
  have z: "au_ring zero_stream = None" by (simp add: zero_stream_def)
  have "streams_of_pid fplinux_audio_streams_init pid [0..<AUDIO_APP_STREAMS] = 0" for pid
    by (simp add: streams_of_pid_def filter_empty_conv t z AUDIO_STREAMS_def)
  moreover have "announced_ok (replicate AUDIO_PROCESSES zero_process)" by (simp add: announced_ok_def zero_process_def)
  ultimately show ?thesis
    by (simp add: audio_ok_parts limits_ok_def owner_ok_def t z)
       (simp add: fplinux_audio_streams_init_def tables_ok_def ring_fits_def z AUDIO_GONE_def list_all_iff)
qed

end
