(* ===== verification/Audio_Steps.thy ===== *)
theory Audio_Steps
  imports Audio_Service
begin

section \<open>Steps of the audio service\<close>

text \<open>
  The steps of the service and its applications as a transition system, and what refreshing and mixing do
  stream by stream.
\<close>

subsection \<open>Steps\<close>

inductive audio_step :: "audio_env \<Rightarrow> audio_streams \<Rightarrow> audio_streams \<Rightarrow> bool" for E where
  accept: "audio_step E s (snd (fplinux_audio_streams_accept fd pid uid now_ms s))"
| receive: "index < AUDIO_CONNECTIONS \<Longrightarrow> audio_step E s (fplinux_audio_streams_receive E index packets s)"
| command: "audio_step E s (fplinux_audio_streams_command E w s)"
| manager: "audio_step E s (fplinux_audio_streams_manager connected now_ms s)"
| expire: "audio_step E s (snd (fplinux_audio_streams_expire E now_ms s))"
| refresh: "audio_step E s (snd (fplinux_audio_streams_refresh s))"
| mix: "audio_step E s (snd (snd (fplinux_audio_streams_mix frames s)))"
| publish: "audio_step E s (fplinux_audio_streams_publish played s)"
| stop: "audio_step E s (fplinux_audio_streams_stop s)"
| set_output: "audio_step E s (s\<lparr> as_output := output \<rparr>)"
| application: "i < AUDIO_STREAMS \<Longrightarrow> live (as_streams s ! i) \<Longrightarrow> length (ri_frames r) = length (ri_frames (the (au_ring (as_streams s ! i)))) \<Longrightarrow>
    list_all int16 (ri_frames r) \<Longrightarrow> audio_step E s (put_stream i ((as_streams s ! i)\<lparr> au_ring := Some r \<rparr>) s)"

lemma application_ok:
  assumes "audio_ok s" "i < AUDIO_STREAMS" "live (as_streams s ! i)"
    "length (ri_frames r) = length (ri_frames (the (au_ring (as_streams s ! i))))" "list_all int16 (ri_frames r)"
  shows "audio_ok (put_stream i ((as_streams s ! i)\<lparr> au_ring := Some r \<rparr>) s)"
proof (rule replace_ok [OF assms(1)])
  have "ring_fits (as_streams s ! i)" using assms(1,2) by (auto simp: audio_ok_parts tables_ok_def list_all_iff)
  then show "ring_fits ((as_streams s ! i)\<lparr> au_ring := Some r \<rparr>)"
    using assms(3-5) by (auto simp: ring_fits_def mixer_fits_def ring_ok_def)
qed (use assms(3) in simp_all)

interpretation audio: transition_system "\<lambda>s. s = fplinux_audio_streams_init" "audio_step E" audio_ok for E
proof unfold_locales
  show "audio_ok s'" if "audio_ok s" "audio_step E s s'" for s s'
    using that(2,1) by (induction rule: audio_step.induct)
      (simp_all add: accept_ok fplinux_audio_streams_receive_def receive_packets_ok command_ok manager_ok expire_ok streams_refresh_ok
        mix_ok publish_ok stop_ok output_ok application_ok)
qed (simp add: streams_init_ok)

lemma announced_Cons:
  assumes "announced_ok (p # ps)"
  shows "announced_ok ps" "q \<in> set ps \<Longrightarrow> ap_pid p \<noteq> 0 \<Longrightarrow> ap_pid q \<noteq> 0 \<Longrightarrow> ap_pid p \<noteq> ap_pid q \<and> \<not> (ap_clock p \<and> ap_clock q)"
proof -
  have n: "(p # ps) ! Suc i = ps ! i" for i by simp
  have "ap_pid (ps ! i) \<noteq> ap_pid (ps ! j) \<and> \<not> (ap_clock (ps ! i) \<and> ap_clock (ps ! j))"
    if "i < length ps" "j < length ps" "i \<noteq> j" "ap_pid (ps ! i) \<noteq> 0" "ap_pid (ps ! j) \<noteq> 0" for i j
    using announced_distinct [OF assms, of "Suc i" "Suc j"] that by simp
  moreover have "0 \<le> ap_pid (ps ! i)" if "i < length ps" for i
    using assms that unfolding announced_ok_def by (metis Suc_mono length_Cons n)
  ultimately show "announced_ok ps" by (simp add: announced_ok_def)
  assume q: "q \<in> set ps" "ap_pid p \<noteq> 0" "ap_pid q \<noteq> 0"
  obtain j where "j < length ps" "q = ps ! j" using q(1) by (metis in_set_conv_nth)
  then show "ap_pid p \<noteq> ap_pid q \<and> \<not> (ap_clock p \<and> ap_clock q)"
    using announced_distinct [OF assms, of 0 "Suc j"] q by simp
qed

lemma announced_summary:
  assumes "announced_ok ps"
  shows "distinct (filter (\<lambda>pid. pid \<noteq> 0) (map ap_pid ps)) \<and> length (filter (\<lambda>p. ap_pid p \<noteq> 0 \<and> ap_clock p) ps) \<le> 1"
  using assms
proof (induction ps)
  case (Cons p ps)
  note c = announced_Cons [OF Cons.prems]
  have "filter (\<lambda>p. ap_pid p \<noteq> 0 \<and> ap_clock p) ps = []" if "ap_pid p \<noteq> 0" "ap_clock p"
    using c(2) that by (auto simp: filter_empty_conv)
  moreover have "ap_pid p \<notin> set (filter (\<lambda>pid. pid \<noteq> 0) (map ap_pid ps))" if "ap_pid p \<noteq> 0"
  proof
    assume "ap_pid p \<in> set (filter (\<lambda>pid. pid \<noteq> 0) (map ap_pid ps))"
    then obtain q where "q \<in> set ps" "ap_pid q = ap_pid p" by auto
    then show False using c(2) [of q] that by simp
  qed
  ultimately show ?case using Cons.IH [OF c(1)] by auto
qed simp

subsection \<open>Which streams are heard\<close>

definition stored_ok :: "audio_streams \<Rightarrow> audio_stream \<Rightarrow> bool" where
  "stored_ok s t \<longleftrightarrow> (live t \<longrightarrow> ms_paused (au_mixer t) = stream_paused s t \<and> au_state t = stream_state s t \<and>
     au_sleeping t = stream_sleeping s t)"

definition same_policy :: "audio_streams \<Rightarrow> audio_streams \<Rightarrow> bool" where
  "same_policy s s' \<longleftrightarrow> as_processes s' = as_processes s \<and> as_connections s' = as_connections s \<and> as_output s' = as_output s"

lemma policy_view:
  assumes "same_policy s s'"
  shows "stream_paused s' t = stream_paused s t" "stream_state s' t = stream_state s t" "stream_sleeping s' t = stream_sleeping s t"
    "stored_ok s' t = stored_ok s t"
proof -
  show p: "stream_paused s' t = stream_paused s t"
    using assms by (simp add: stream_paused_def same_policy_def find_process_def stream_pid_def split: option.split)
  show q: "stream_state s' t = stream_state s t" "stream_sleeping s' t = stream_sleeping s t"
    using assms by (simp_all add: p stream_state_def stream_sleeping_def same_policy_def)
  show "stored_ok s' t = stored_ok s t" by (simp add: stored_ok_def p q)
qed

lemma refresh_stream_effect:
  assumes "i < length (as_streams (snd ws))"
  obtains t where "as_streams (snd (refresh_stream i ws)) = (as_streams (snd ws))[i := t]" "stored_ok (snd ws) t"
    "same_policy (snd ws) (snd (refresh_stream i ws))" "au_connection t = au_connection (as_streams (snd ws) ! i)"
    "live (as_streams (snd ws) ! i) \<Longrightarrow> stream_paused (snd ws) (as_streams (snd ws) ! i) \<Longrightarrow> live t"
proof (cases "au_ring (as_streams (snd ws) ! i)")
  case None
  then have "refresh_stream i ws = ws" by (cases ws) (simp add: refresh_stream_def)
  then show ?thesis using that [of "as_streams (snd ws) ! i"] None by (simp add: stored_ok_def same_policy_def)
next
  case (Some ring)
  define w s where "w = fst ws" and "s = snd ws"
  have ws: "ws = (w, s)" by (simp add: w_def s_def)
  show ?thesis
  proof (rule update_stream [of i s])
    fix t
    assume u: "update i s = (\<not> stream_paused s (as_streams s ! i) \<and> stream_sleeping s (as_streams s ! i), put_stream i t s)"
      and t: "au_connection t = au_connection (as_streams s ! i)"
      "au_mixer t = (au_mixer (as_streams s ! i))\<lparr> ms_paused := stream_paused s (as_streams s ! i) \<rparr>"
      "au_state t = stream_state s (as_streams s ! i)" "au_sleeping t = stream_sleeping s (as_streams s ! i)" "live t = live (as_streams s ! i)"
    have p: "stream_paused s t = stream_paused s (as_streams s ! i)" "stream_state s t = stream_state s (as_streams s ! i)"
      "stream_sleeping s t = stream_sleeping s (as_streams s ! i)"
      using t(1) by (simp_all add: stream_paused_def stream_state_def stream_sleeping_def stream_pid_def)
    have st: "stored_ok s t" "stored_ok s (unmapped t)" using t by (simp_all add: stored_ok_def p)
    have "refresh_stream i ws = (fst (refresh_stream i ws), put_stream i t s) \<or>
        refresh_stream i ws = (fst (refresh_stream i ws), end_stream i (put_stream i t s)) \<and> \<not> stream_paused s (as_streams s ! i)"
      using Some unfolding refresh_stream_def ws prod.case u Let_def by (auto split: bool.split)
    then have "snd (refresh_stream i ws) = put_stream i t s \<or>
        snd (refresh_stream i ws) = end_stream i (put_stream i t s) \<and> \<not> stream_paused s (as_streams s ! i)"
      by (metis snd_conv)
    then show ?thesis
    proof
      assume "snd (refresh_stream i ws) = put_stream i t s"
      then show ?thesis using that [of t] st t by (simp add: ws same_policy_def)
    next
      assume "snd (refresh_stream i ws) = end_stream i (put_stream i t s) \<and> \<not> stream_paused s (as_streams s ! i)"
      then show ?thesis using that [of "unmapped t"] st t assms by (simp add: ws same_policy_def)
    qed
  qed
qed

lemma refresh_stores:
  assumes "n \<le> length (as_streams s)"
  shows "same_policy s (snd (fold refresh_stream [0..<n] (b, s))) \<and>
    length (as_streams (snd (fold refresh_stream [0..<n] (b, s)))) = length (as_streams s) \<and>
    (\<forall>i < length (as_streams s). let t = as_streams (snd (fold refresh_stream [0..<n] (b, s))) ! i in
       (i < n \<longrightarrow> stored_ok s t) \<and> au_connection t = au_connection (as_streams s ! i) \<and>
       (live (as_streams s ! i) \<and> stream_paused s (as_streams s ! i) \<longrightarrow> live t))"
  using assms
proof (induction n)
  case (Suc n)
  let ?ws = "fold refresh_stream [0..<n] (b, s)"
  have ih: "same_policy s (snd ?ws)" "length (as_streams (snd ?ws)) = length (as_streams s)"
    "i < length (as_streams s) \<Longrightarrow> (i < n \<longrightarrow> stored_ok s (as_streams (snd ?ws) ! i)) \<and>
       au_connection (as_streams (snd ?ws) ! i) = au_connection (as_streams s ! i) \<and>
       (live (as_streams s ! i) \<and> stream_paused s (as_streams s ! i) \<longrightarrow> live (as_streams (snd ?ws) ! i))" for i
    using Suc unfolding Let_def by (simp_all del: not_None_eq)
  then have n: "n < length (as_streams (snd ?ws))" using Suc.prems by simp
  obtain t where t: "as_streams (snd (refresh_stream n ?ws)) = (as_streams (snd ?ws))[n := t]" "stored_ok (snd ?ws) t"
    "same_policy (snd ?ws) (snd (refresh_stream n ?ws))" "au_connection t = au_connection (as_streams (snd ?ws) ! n)"
    "live (as_streams (snd ?ws) ! n) \<Longrightarrow> stream_paused (snd ?ws) (as_streams (snd ?ws) ! n) \<Longrightarrow> live t"
    by (rule refresh_stream_effect [OF n]) blast
  have "same_policy s (snd (refresh_stream n ?ws))" using ih(1) t(3) by (simp add: same_policy_def)
  moreover have "stored_ok s t" using t(2) policy_view(4) [OF ih(1)] by simp
  moreover have "stream_paused (snd ?ws) (as_streams (snd ?ws) ! n) = stream_paused s (as_streams s ! n)"
    using policy_view(1) [OF ih(1)] ih(3) [of n] Suc.prems by (simp add: stream_paused_def stream_pid_def)
  ultimately show ?case
    using ih t(1,4,5) n Suc.prems unfolding Let_def by (auto simp: nth_list_update less_Suc_eq simp del: not_None_eq)
qed (simp add: same_policy_def)

subsection \<open>Mixing stream by stream\<close>

lemma resample_loop_mix:
  "fst (resample_loop ring m available slope n made offset level lr mix) = fst (resample_loop ring m available slope n made offset level lr mix')"
  "fst (snd (resample_loop ring m available slope n made offset level lr mix)) = fst (snd (resample_loop ring m available slope n made offset level lr mix'))"
  "fst (snd (snd (resample_loop ring m available slope n made offset level lr mix))) = fst (snd (snd (resample_loop ring m available slope n made offset level lr mix')))"
  by (induction n arbitrary: made offset level lr mix mix') (simp_all add: Let_def)

lemma resample_mix:
  "fst (resample ring m available mix frames) = fst (resample ring m available mix' frames)"
  "fst (snd (resample ring m available mix frames)) = fst (snd (resample ring m available mix' frames))"
  using resample_loop_mix [of ring m available "ramp_slope (ms_gain m) frames" frames 0 "ucast (ms_phase m)" "mg_current (ms_gain m) * 32768" "(0, 0)" mix mix']
  by (auto simp: resample_def split: prod.split)

lemma mixer_mix_mix:
  "fst (fplinux_audio_mixer_mix ring m w mix frames out) = fst (fplinux_audio_mixer_mix ring m w mix' frames out)"
  "fst (snd (fplinux_audio_mixer_mix ring m w mix frames out)) = fst (snd (fplinux_audio_mixer_mix ring m w mix' frames out))"
  using resample_mix [of ring m "w - ms_read m" mix frames mix']
  by (auto simp: fplinux_audio_mixer_mix_def Let_def split: prod.split)

text \<open>What a period makes of one stream; it does not depend on the other streams.\<close>

definition mixed_stream :: "nat \<Rightarrow> u64 \<Rightarrow> audio_stream \<Rightarrow> audio_stream" where
  "mixed_stream frames out t =
     (case au_ring t of
        None \<Rightarrow> t
      | Some ring \<Rightarrow>
          (case fplinux_audio_mixer_mix (ri_frames ring) (au_mixer t) (if \<not> ms_paused (au_mixer t) then ri_write ring else 0) [] frames out of
             (made, m, _) \<Rightarrow>
               if made = None then unmapped (t\<lparr> au_mixer := m \<rparr>) else t\<lparr> au_mixer := m \<rparr>))"

lemma mix_stream_effect:
  assumes "i < length (as_streams (snd (snd pms)))"
  shows "as_streams (snd (snd (mix_stream frames i pms))) =
      (as_streams (snd (snd pms)))[i := mixed_stream frames (as_mixed (snd (snd pms))) (as_streams (snd (snd pms)) ! i)]"
    "as_mixed (snd (snd (mix_stream frames i pms))) = as_mixed (snd (snd pms))"
proof -
  obtain played mix s where pms: "pms = (played, mix, s)" by (metis prod_cases3)
  let ?t = "as_streams s ! i"
  have "as_streams (snd (snd (mix_stream frames i pms))) = (as_streams s)[i := mixed_stream frames (as_mixed s) ?t] \<and>
      as_mixed (snd (snd (mix_stream frames i pms))) = as_mixed s"
  proof (cases "au_ring ?t")
    case None
    then show ?thesis by (simp add: mix_stream_def pms mixed_stream_def)
  next
    case (Some ring)
    define w where "w = (if \<not> ms_paused (au_mixer ?t) then ri_write ring else 0)"
    obtain made m mix' where m: "fplinux_audio_mixer_mix (ri_frames ring) (au_mixer ?t) w mix frames (as_mixed s) = (made, m, mix')"
      by (metis prod_cases3)
    obtain mix'' where e: "fplinux_audio_mixer_mix (ri_frames ring) (au_mixer ?t) w [] frames (as_mixed s) = (made, m, mix'')"
      using mixer_mix_mix [of "ri_frames ring" "au_mixer ?t" w mix frames "as_mixed s" "[]"] by (metis m prod.collapse fst_conv snd_conv)
    have "mixed_stream frames (as_mixed s) ?t = (if made = None then unmapped (?t\<lparr> au_mixer := m \<rparr>) else ?t\<lparr> au_mixer := m \<rparr>)"
      unfolding mixed_stream_def Some option.case w_def [symmetric] e by simp
    then show ?thesis
      using assms unfolding mix_stream_def pms prod.case Let_def Some option.case w_def [symmetric] m
      by (cases made) (simp_all add: pms)
  qed
  then show "as_streams (snd (snd (mix_stream frames i pms))) =
      (as_streams (snd (snd pms)))[i := mixed_stream frames (as_mixed (snd (snd pms))) (as_streams (snd (snd pms)) ! i)]"
    "as_mixed (snd (snd (mix_stream frames i pms))) = as_mixed (snd (snd pms))"
    by (simp_all add: pms)
qed

lemma mix_streams:
  assumes "length (as_streams s) = AUDIO_STREAMS"
  shows "as_streams (snd (snd (fplinux_audio_streams_mix frames s))) = map (mixed_stream frames (as_mixed s + of_nat frames)) (as_streams s)"
proof -
  define start where "start = (False, fplinux_audio_mixer_ramp_down (replicate (2 * frames) 0) frames (as_tail s),
      s\<lparr> as_tail := (0, 0), as_mixed := as_mixed s + of_nat frames \<rparr>)"
  let ?f = "\<lambda>k. snd (snd (fold (mix_stream frames) [0..<k] start))"
  let ?m = "mixed_stream frames (as_mixed s + of_nat frames)"
  have "as_streams (?f k) = map ?m (take k (as_streams s)) @ drop k (as_streams s) \<and> as_mixed (?f k) = as_mixed s + of_nat frames"
    if "k \<le> AUDIO_STREAMS" for k
    using that
  proof (induction k)
    case (Suc k)
    have d: "drop k (as_streams s) = as_streams s ! k # drop (Suc k) (as_streams s)"
      using Suc.prems assms by (metis Cons_nth_drop_Suc Suc_le_lessD)
    have ih: "as_streams (?f k) = map ?m (take k (as_streams s)) @ drop k (as_streams s)" "as_mixed (?f k) = as_mixed s + of_nat frames"
      using Suc by simp_all
    have "k < length (as_streams (?f k))" using Suc.prems assms by (simp add: ih)
    then show ?case
      using mix_stream_effect [of k "fold (mix_stream frames) [0..<k] start" frames] Suc.prems assms
      by (simp add: ih d list_update_append nth_append take_Suc_conv_app_nth)
  qed (simp add: start_def)
  from this [of AUDIO_STREAMS] show ?thesis using assms by (simp add: fplinux_audio_streams_mix_def start_def)
qed

end
