(* ===== verification/Audio_Properties.thy ===== *)
theory Audio_Properties
  imports Audio_Steps
begin

section \<open>Properties of the audio service\<close>

text \<open>
  What holds after every sequence of steps: who owns a stream, which streams are heard, when
  deadlines fall, what is left of a process that went, and that a corrupt ring spoils only its own stream.
\<close>

subsection \<open>A service with one stream\<close>

definition audio_example_env :: audio_env where
  "audio_example_env = \<lparr> ae_send = (\<lambda>_. True), ae_map = (\<lambda>_. True) \<rparr>"

definition zero_message :: audio_message where
  "zero_message = \<lparr> me_type = 0, me_version = 0, me_stream = 0, me_rate = 0, me_channels = 0, me_flags = 0, me_error = 0, me_reserved = 0 \<rparr>"

definition hello :: audio_message where
  "hello = zero_message\<lparr> me_type := AUDIO_HELLO, me_version := AUDIO_PROTOCOL_VERSION \<rparr>"

definition open_request :: audio_message where
  "open_request = zero_message\<lparr> me_type := AUDIO_OPEN, me_rate := 8000, me_channels := 1 \<rparr>"

definition example_process :: audio_process where
  "example_process = \<lparr> ap_pid = 7, ap_uid = 100, ap_audible = False, ap_clock = False \<rparr>"

definition example_connection :: audio_connection where
  "example_connection = \<lparr> ac_state = CONNECTION_NEW, ac_fd = 5, ac_pid = 7, ac_uid = 100, ac_clock = False,
     ac_deadline_ms = 1000, ac_last_id = 0 \<rparr>"

definition example_announced :: audio_streams where
  "example_announced = fplinux_audio_streams_init\<lparr> as_processes := (replicate AUDIO_PROCESSES zero_process)[0 := example_process] \<rparr>"

definition example_accepted :: audio_streams where
  "example_accepted = example_announced\<lparr> as_connections := (replicate AUDIO_CONNECTIONS free_connection)[0 := example_connection] \<rparr>"

definition example_ready :: audio_streams where
  "example_ready = put_connection 0 (example_connection\<lparr> ac_state := CONNECTION_READY \<rparr>) example_accepted"

lemma fold_id: "(\<And>i. i \<in> set is \<Longrightarrow> g i s = s) \<Longrightarrow> fold g is s = s"
  by (induction "is") auto

lemmas parse_simps = parse_command_def fplinux_cli_unsigned_def cli_space_def digit_value_def INT_MAX_def UINT_MAX_def

lemma parse_app: "parse_command ''APP 7 100 x'' = App 7 100"
  by (simp add: parse_simps)

lemma step_announced: "fplinux_audio_streams_command E ''APP 7 100 x'' fplinux_audio_streams_init = example_announced"
proof -
  have f: "first_index (\<lambda>p. ap_pid p = 7) (replicate AUDIO_PROCESSES zero_process) = None"
    "first_index (\<lambda>p. ap_pid p = 0) (replicate AUDIO_PROCESSES zero_process) = Some 0"
    "first_index (\<lambda>g. g = 7) (replicate AUDIO_GONE (0::int)) = None"
    by (simp_all add: AUDIO_PROCESSES_def AUDIO_GONE_def numeral_eq_Suc zero_process_def)
  have "announce_connection E 7 100 False i example_announced = example_announced" if "i < AUDIO_CONNECTIONS" for i
    using that by (simp add: announce_connection_def example_announced_def fplinux_audio_streams_init_def free_connection_def)
  then have "fold (announce_connection E 7 100 False) [0..<AUDIO_CONNECTIONS] example_announced = example_announced"
    by (intro fold_id) simp
  then show ?thesis
    by (simp add: fplinux_audio_streams_command_def parse_app announce_def find_process_def find_gone_def f
        fplinux_audio_streams_init_def example_announced_def example_process_def)
qed

lemma step_accepted: "snd (fplinux_audio_streams_accept 5 7 100 0 example_announced) = example_accepted"
proof -
  have "first_index (\<lambda>c. ac_state c = CONNECTION_FREE) (replicate AUDIO_CONNECTIONS free_connection) = Some 0"
    by (simp add: AUDIO_CONNECTIONS_def numeral_eq_Suc free_connection_def)
  then show ?thesis
    by (simp add: fplinux_audio_streams_accept_def example_accepted_def example_announced_def fplinux_audio_streams_init_def
        put_connection_def example_connection_def AUDIO_HELLO_DEADLINE_MS_def)
qed

lemma example_find: "find_process example_accepted 7 = Some 0" "as_processes example_accepted ! 0 = example_process"
  "as_connections example_accepted ! 0 = example_connection"
  by (simp_all add: find_process_def example_accepted_def example_announced_def AUDIO_PROCESSES_def AUDIO_CONNECTIONS_def numeral_eq_Suc example_process_def)

lemma receive_one:
  assumes "handle E index m s = (True, s')" "ac_state (as_connections s ! index) \<notin> {CONNECTION_FREE, CONNECTION_WAITING}"
  shows "fplinux_audio_streams_receive E index [Message m] s = s'"
proof -
  have "receive_packets E index (Suc (Suc n)) [Message m] s = s'" for n using assms by simp
  from this [of 14] show ?thesis by (simp add: fplinux_audio_streams_receive_def PACKETS_PER_ROUND_def)
qed

lemma step_ready: "fplinux_audio_streams_receive E 0 [Message hello] example_accepted = example_ready"
proof -
  have "handle E 0 hello example_accepted = (True, example_ready)"
    using example_find
    by (simp add: handle_def handle_hello_def hello_def zero_message_def AUDIO_PROTOCOL_VERSION_def AUDIO_HELLO_def example_ready_def
        example_connection_def example_process_def Let_def put_connection_def)
  then show ?thesis by (rule receive_one) (simp add: example_find example_connection_def)
qed

lemma example_ready_reached: "(audio_step E)\<^sup>*\<^sup>* fplinux_audio_streams_init example_ready"
proof -
  have "audio_step E fplinux_audio_streams_init example_announced" using audio_step.command [of E _ "''APP 7 100 x''"] by (metis step_announced)
  moreover have "audio_step E example_announced example_accepted" using audio_step.accept [of E example_announced 5 7 100 0] by (simp add: step_accepted)
  moreover have "audio_step E example_accepted example_ready"
    using audio_step.receive [of 0 E example_accepted "[Message hello]"] by (simp add: step_ready AUDIO_CONNECTIONS_def)
  ultimately show ?thesis by (meson converse_rtranclp_into_rtranclp rtranclp.rtrancl_refl)
qed


text \<open>An application that is ready, asks for a known format, and has few streams gets one.\<close>

lemma open_stream_opens:
  assumes "c = as_connections s ! index" "format_ok request" "ae_send E = (\<lambda>_. True)" "ae_map E = (\<lambda>_. True)"
    "streams_of_pid s (ac_pid c) (slots_of c) < (if ac_clock c then 1 else AUDIO_CLIENT_STREAMS)"
    "filter (\<lambda>i. au_ring (as_streams s ! i) = None) (slots_of c) = i # rest" "i < length (as_streams s)"
  shows "fst (open_stream E index request s)" "live (as_streams (snd (open_stream E index request s)) ! i)"
    "au_connection (as_streams (snd (open_stream E index request s)) ! i) = index"
proof -
  define t s1 where "t = \<lparr> au_ring = Some (new_ring (me_rate request) (me_channels request) (fplinux_audio_ring_capacity (me_rate request))),
      au_bytes = AUDIO_RING_BYTES (fplinux_audio_ring_capacity (me_rate request)) (me_channels request), au_connection = index,
      au_id = next_id (ac_last_id c), au_state = RING_PLAYING, au_sleeping = False,
      au_mixer = fplinux_audio_mixer_stream_init (fplinux_audio_ring_capacity (me_rate request)) (me_rate request)
        (unat (me_channels request)) (as_mixed s) \<rparr>"
    and "s1 = put_stream i t (put_connection index (c\<lparr> ac_last_id := next_id (ac_last_id c) \<rparr>) s)"
  have o: "fst (open_stream E index request s)" "as_streams (snd (open_stream E index request s)) = as_streams (snd (update i s1))"
    using assms(2-6) by (simp_all add: open_stream_def assms(1) [symmetric] Let_def t_def [symmetric] s1_def [symmetric])
  have n: "as_streams s1 ! i = t" using assms(7) by (simp add: s1_def)
  obtain t' where "as_streams (snd (update i s1)) ! i = t'" "live t'" "au_connection t' = index"
    by (rule update_stream [of i s1]) (use assms(7) n in \<open>auto simp: t_def s1_def\<close>)
  then show "live (as_streams (snd (open_stream E index request s)) ! i)"
    "au_connection (as_streams (snd (open_stream E index request s)) ! i) = index" by (simp_all add: o)
  show "fst (open_stream E index request s)" by (rule o(1))
qed

lemma update_processes [simp]: "as_processes (snd (update i s)) = as_processes s"
  by (rule update_stream [of i s]) simp

lemma open_processes: "as_processes (snd (open_stream E index request s)) = as_processes s"
  by (simp add: open_stream_def Let_def refuse_snd split: list.split)

definition example_open :: audio_streams where
  "example_open = snd (open_stream audio_example_env 0 open_request example_ready)"

lemma example_open_step: "audio_step audio_example_env example_ready example_open"
  and example_open_live: "au_ring (as_streams example_open ! 0) \<noteq> None" "au_connection (as_streams example_open ! 0) = 0"
proof -
  have c: "as_connections example_ready ! 0 = example_connection\<lparr> ac_state := CONNECTION_READY \<rparr>"
    by (simp add: example_ready_def example_accepted_def AUDIO_CONNECTIONS_def)
  have z: "as_streams example_ready ! i = zero_stream" if "i < AUDIO_STREAMS" for i
    using that by (simp add: example_ready_def example_accepted_def example_announced_def fplinux_audio_streams_init_def)
  have sl: "slots_of (example_connection\<lparr> ac_state := CONNECTION_READY \<rparr>) = [0..<AUDIO_APP_STREAMS]"
    by (simp add: slots_of_def example_connection_def)
  have free: "filter (\<lambda>i. au_ring (as_streams example_ready ! i) = None) [0..<AUDIO_APP_STREAMS] = 0 # [1..<AUDIO_APP_STREAMS]"
  proof -
    have "filter (\<lambda>i. au_ring (as_streams example_ready ! i) = None) [0..<AUDIO_APP_STREAMS] = [0..<AUDIO_APP_STREAMS]"
      by (rule filter_True) (simp add: z AUDIO_STREAMS_def zero_stream_def)
    then show ?thesis by (simp add: AUDIO_APP_STREAMS_def upt_conv_Cons)
  qed
  have none: "streams_of_pid example_ready pid [0..<AUDIO_APP_STREAMS] = 0" for pid
    by (simp add: streams_of_pid_def filter_empty_conv z AUDIO_STREAMS_def zero_stream_def)
  have len: "0 < length (as_streams example_ready)"
    by (simp add: example_ready_def example_accepted_def example_announced_def fplinux_audio_streams_init_def AUDIO_STREAMS_def)
  have f: "format_ok open_request"
    by (simp add: format_ok_def open_request_def zero_message_def AUDIO_RATE_MIN_def AUDIO_RATE_MAX_def AUDIO_CHANNELS_MAX_def)
  have few: "streams_of_pid example_ready (ac_pid (as_connections example_ready ! 0)) (slots_of (as_connections example_ready ! 0)) <
      (if ac_clock (as_connections example_ready ! 0) then 1 else AUDIO_CLIENT_STREAMS)"
    by (simp add: c sl none AUDIO_CLIENT_STREAMS_def)
  have free': "filter (\<lambda>i. au_ring (as_streams example_ready ! i) = None) (slots_of (as_connections example_ready ! 0)) = 0 # [1..<AUDIO_APP_STREAMS]"
    using free by (simp add: c sl)
  have env: "ae_send audio_example_env = (\<lambda>_. True)" "ae_map audio_example_env = (\<lambda>_. True)" by (simp_all add: audio_example_env_def)
  have op: "fst (open_stream audio_example_env 0 open_request example_ready)" "live (as_streams example_open ! 0)"
    "au_connection (as_streams example_open ! 0) = 0"
    unfolding example_open_def by (rule open_stream_opens [OF refl f env few free' len])+
  then show "au_ring (as_streams example_open ! 0) \<noteq> None" "au_connection (as_streams example_open ! 0) = 0" by simp_all
  have "handle audio_example_env 0 open_request example_ready = (True, example_open)"
    using op(1) by (simp add: handle_def c example_connection_def open_request_def zero_message_def AUDIO_OPEN_def AUDIO_HELLO_def
        example_open_def prod_eq_iff)
  then have "fplinux_audio_streams_receive audio_example_env 0 [Message open_request] example_ready = example_open"
    by (rule receive_one) (simp add: c)
  then show "audio_step audio_example_env example_ready example_open"
    using audio_step.receive [of 0 audio_example_env example_ready "[Message open_request]"] by (simp add: AUDIO_CONNECTIONS_def)
qed

lemma example_open_reached: "(audio_step audio_example_env)\<^sup>*\<^sup>* fplinux_audio_streams_init example_open"
  using example_ready_reached example_open_step by (rule rtranclp.rtrancl_into_rtrancl)

subsection \<open>A process that went\<close>

lemma parse_gone_pid: "parse_command w = Gone pid \<Longrightarrow> 0 < pid"
  by (auto simp: parse_command_def split: list.splits if_splits option.splits dest!: cli_unsigned_range)

lemma forget_result:
  assumes ok: "audio_ok s" and pid: "0 < pid"
  shows "as_connections (forget E pid s) =
      map (\<lambda>c. if ac_pid c = pid then if ac_state c = CONNECTION_FREE then c else free_connection else c) (as_connections s)"
    "pid \<notin> ap_pid ` set (as_processes (forget E pid s))" "find_gone (forget E pid s) pid \<noteq> None"
proof -
  define s1 where "s1 = fold (forget_connection E pid) [0..<AUDIO_CONNECTIONS] s"
  define s2 where "s2 = (case find_process s pid of Some p \<Rightarrow> s1\<lparr> as_processes := (as_processes s1)[p := zero_process] \<rparr> | None \<Rightarrow> s1)"
  define k where "k = (as_last_gone s2 + 1) mod AUDIO_GONE"
  have f: "forget E pid s = (if find_gone s2 pid \<noteq> None then s2 else s2\<lparr> as_last_gone := k, as_gone := (as_gone s2)[k := pid] \<rparr>)"
    unfolding forget_def Let_def s1_def [symmetric] s2_def [symmetric] k_def [symmetric] by simp
  have t: "length (as_connections s) = AUDIO_CONNECTIONS" "length (as_gone s) = AUDIO_GONE" "announced_ok (as_processes s)"
    using ok by (simp_all add: audio_ok_parts tables_ok_def)
  have c1: "as_connections s1 = map (\<lambda>c. if ac_pid c = pid then if ac_state c = CONNECTION_FREE then c else free_connection else c) (as_connections s)"
    unfolding s1_def using t(1) by (intro fold_maps [where Q = "\<lambda>_. True"]) (simp_all add: forget_connection_map)
  have p1: "as_processes s1 = as_processes s" "as_gone s1 = as_gone s"
    unfolding s1_def by (rule fold_upt_keeps; simp add: forget_connection_map)+
  have "as_connections s2 = as_connections s1" "as_gone s2 = as_gone s1" by (simp_all add: s2_def split: option.split)
  then show "as_connections (forget E pid s) =
      map (\<lambda>c. if ac_pid c = pid then if ac_state c = CONNECTION_FREE then c else free_connection else c) (as_connections s)"
    by (simp add: f c1)
  have g: "length (as_gone s2) = AUDIO_GONE" by (simp add: \<open>as_gone s2 = as_gone s1\<close> p1 t)
  have "k < AUDIO_GONE" by (simp add: k_def AUDIO_GONE_def)
  then have "pid \<in> set ((as_gone s2)[k := pid])" using g by (simp add: set_update_memI)
  then show "find_gone (forget E pid s) pid \<noteq> None"
    using pid by (auto simp: f find_gone_def first_index_None)
  have "pid \<notin> ap_pid ` set (as_processes s2)"
  proof (cases "find_process s pid")
    case None
    then show ?thesis using find_process_None [OF None pid] by (auto simp: s2_def p1)
  next
    case (Some p)
    note q = find_process_Some [OF Some]
    have "ap_pid ((as_processes s)[p := zero_process] ! i) \<noteq> pid" if "i < length (as_processes s)" for i
      using announced_distinct(1) [OF t(3) that q(1)] q that pid by (cases "i = p") (auto simp: zero_process_def)
    then have "\<forall>q \<in> set ((as_processes s)[p := zero_process]). ap_pid q \<noteq> pid"
      unfolding set_conv_nth by auto
    then show ?thesis by (auto simp: s2_def Some p1)
  qed
  then show "pid \<notin> ap_pid ` set (as_processes (forget E pid s))" by (simp add: f)
qed

subsection \<open>Deadlines\<close>

abbreviation waiting :: "audio_connection \<Rightarrow> bool" where
  "waiting c \<equiv> ac_state c = CONNECTION_NEW \<or> ac_state c = CONNECTION_WAITING"

definition expired_connection :: "u64 \<Rightarrow> audio_connection \<Rightarrow> audio_connection" where
  "expired_connection now_ms c = (if waiting c \<and> ac_deadline_ms c \<le> now_ms then free_connection else c)"

lemma expire_connection_effect:
  "as_connections (snd (expire_connection E now_ms i ns)) =
     (as_connections (snd ns))[i := expired_connection now_ms (as_connections (snd ns) ! i)]"
  "as_processes (snd (expire_connection E now_ms i ns)) = as_processes (snd ns)"
  "as_resync_ms (snd (expire_connection E now_ms i ns)) = as_resync_ms (snd ns)"
  "fst (expire_connection E now_ms i ns) =
     (let c = as_connections (snd ns) ! i in if waiting c \<and> now_ms < ac_deadline_ms c \<and> ac_deadline_ms c < fst ns then ac_deadline_ms c else fst ns)"
  by (cases ns; auto simp: expire_connection_def expired_connection_def refuse_snd Let_def)+

lemma expired_waiting: "waiting (expired_connection now_ms c) \<longleftrightarrow> waiting c \<and> now_ms < ac_deadline_ms c"
  "waiting c \<Longrightarrow> now_ms < ac_deadline_ms c \<Longrightarrow> expired_connection now_ms c = c"
  by (auto simp: expired_connection_def free_connection_def)

lemma expire_fold:
  assumes "length (as_connections s) = AUDIO_CONNECTIONS" "n \<le> AUDIO_CONNECTIONS"
  shows "let (m, u) = fold (expire_connection E now_ms) [0..<n] (start, s)
    in as_connections u = map (expired_connection now_ms) (take n (as_connections s)) @ drop n (as_connections s) \<and>
       as_processes u = as_processes s \<and> as_resync_ms u = as_resync_ms s \<and> m \<le> start \<and>
       (\<forall>c \<in> set (map (expired_connection now_ms) (take n (as_connections s))). waiting c \<longrightarrow> m \<le> ac_deadline_ms c) \<and>
       (m = start \<or> m \<in> ac_deadline_ms ` {c \<in> set (map (expired_connection now_ms) (take n (as_connections s))). waiting c})"
  using assms(2)
proof (induction n)
  case (Suc n)
  obtain m u where mu: "fold (expire_connection E now_ms) [0..<n] (start, s) = (m, u)" by fastforce
  let ?c = "as_connections s ! n"
  have n: "n < length (as_connections s)" using Suc.prems assms(1) by simp
  have ih: "as_connections u = map (expired_connection now_ms) (take n (as_connections s)) @ drop n (as_connections s)"
    "as_processes u = as_processes s" "as_resync_ms u = as_resync_ms s" "m \<le> start"
    "\<forall>c \<in> set (map (expired_connection now_ms) (take n (as_connections s))). waiting c \<longrightarrow> m \<le> ac_deadline_ms c"
    "m = start \<or> m \<in> ac_deadline_ms ` {c \<in> set (map (expired_connection now_ms) (take n (as_connections s))). waiting c}"
    using Suc mu by simp_all
  have d: "drop n (as_connections s) = ?c # drop (Suc n) (as_connections s)" using n by (simp add: Cons_nth_drop_Suc)
  have t: "take (Suc n) (as_connections s) = take n (as_connections s) @ [?c]" using n by (simp add: take_Suc_conv_app_nth)
  have c: "as_connections u ! n = ?c" using n by (simp add: ih(1) nth_append)
  obtain m' u' where mu': "expire_connection E now_ms n (m, u) = (m', u')" by fastforce
  have u': "as_connections u' = map (expired_connection now_ms) (take (Suc n) (as_connections s)) @ drop (Suc n) (as_connections s)"
    "as_processes u' = as_processes s" "as_resync_ms u' = as_resync_ms s"
    "m' = (if waiting ?c \<and> now_ms < ac_deadline_ms ?c \<and> ac_deadline_ms ?c < m then ac_deadline_ms ?c else m)"
  proof -
    have e: "as_connections u' = (as_connections u)[n := expired_connection now_ms ?c]" "as_processes u' = as_processes u"
      "as_resync_ms u' = as_resync_ms u"
      "m' = (if waiting ?c \<and> now_ms < ac_deadline_ms ?c \<and> ac_deadline_ms ?c < m then ac_deadline_ms ?c else m)"
      using expire_connection_effect [of E now_ms n "(m, u)"] unfolding mu' by (simp_all only: fst_conv snd_conv c Let_def)
    show "m' = (if waiting ?c \<and> now_ms < ac_deadline_ms ?c \<and> ac_deadline_ms ?c < m then ac_deadline_ms ?c else m)" by (rule e(4))
    show "as_connections u' = map (expired_connection now_ms) (take (Suc n) (as_connections s)) @ drop (Suc n) (as_connections s)"
      "as_processes u' = as_processes s" "as_resync_ms u' = as_resync_ms s"
      using n by (simp_all add: e(1-3) ih(1-3) d t list_update_append)
  qed
  have le: "m' \<le> m" "waiting (expired_connection now_ms ?c) \<Longrightarrow> m' \<le> ac_deadline_ms (expired_connection now_ms ?c)"
    using expired_waiting [where c = ?c and now_ms = now_ms] by (auto simp: u'(4))
  have "m' \<le> start" using le(1) ih(4) by simp
  moreover have "\<forall>c \<in> set (map (expired_connection now_ms) (take (Suc n) (as_connections s))). waiting c \<longrightarrow> m' \<le> ac_deadline_ms c"
    using ih(5) le by (auto simp: t)
  moreover have "m' = start \<or> m' \<in> ac_deadline_ms ` {c \<in> set (map (expired_connection now_ms) (take (Suc n) (as_connections s))). waiting c}"
    using ih(6) expired_waiting [where c = ?c and now_ms = now_ms] by (auto simp: t u'(4))
  ultimately show ?case using u'(1-3) by (simp add: mu mu')
qed simp

lemma resynced_resync: "as_resync_ms (resynced now_ms s) \<noteq> 0 \<Longrightarrow> now_ms < as_resync_ms (resynced now_ms s)"
proof -
  have "as_resync_ms (fold resync_connection is u) = as_resync_ms u" for "is" u
    by (rule fold_upt_keeps) (simp add: resync_connection_def Let_def split: option.split)
  then show "as_resync_ms (resynced now_ms s) \<noteq> 0 \<Longrightarrow> now_ms < as_resync_ms (resynced now_ms s)"
    by (auto simp: resynced_def split: if_splits)
qed

lemma resynced_ready:
  assumes ok: "audio_ok s" and due: "as_resync_ms s \<noteq> 0" "as_resync_ms s \<le> now_ms"
    and c: "c \<in> set (as_connections (resynced now_ms s))" "ac_state c = CONNECTION_READY"
  shows "\<exists>p \<in> set (as_processes (resynced now_ms s)). ap_pid p = ac_pid c \<and> ap_uid p = ac_uid c \<and> ap_clock p = ac_clock c"
proof -
  define u where "u = s\<lparr> as_resync_ms := 0 \<rparr>"
  define matched where "matched c = (case find_process s (ac_pid c) of
      Some p \<Rightarrow> ap_uid (as_processes s ! p) = ac_uid c \<and> ap_clock (as_processes s ! p) = ac_clock c | None \<Rightarrow> False)" for c :: audio_connection
  have eff: "as_connections (resync_connection i v) =
        (as_connections v)[i := (if ac_state (as_connections v ! i) = CONNECTION_READY \<and> \<not> matched (as_connections v ! i)
           then free_connection else as_connections v ! i)] \<and> as_processes (resync_connection i v) = as_processes s"
    if "as_processes v = as_processes s" for i v
    using that by (auto simp: resync_connection_def matched_def find_process_def Let_def split: option.split)
  have r: "resynced now_ms s = fold resync_connection [0..<AUDIO_CONNECTIONS] u" using due by (simp add: resynced_def u_def)
  have l: "length (as_connections u) = AUDIO_CONNECTIONS" using ok by (simp add: audio_ok_parts tables_ok_def u_def)
  have cs: "as_connections (resynced now_ms s) =
      map (\<lambda>c. if ac_state c = CONNECTION_READY \<and> \<not> matched c then free_connection else c) (as_connections u)"
    unfolding r by (rule fold_maps [where Q = "\<lambda>v. as_processes v = as_processes s"]) (use eff l in \<open>auto simp: u_def\<close>)
  have ps: "as_processes (resynced now_ms s) = as_processes s"
    unfolding r using fold_keeps [of "\<lambda>v. as_processes v = as_processes s" u "[0..<AUDIO_CONNECTIONS]" resync_connection] eff
    by (simp add: u_def)
  have "matched c" using c by (auto simp: cs free_connection_def split: if_splits)
  then obtain p where p: "find_process s (ac_pid c) = Some p" "ap_uid (as_processes s ! p) = ac_uid c" "ap_clock (as_processes s ! p) = ac_clock c"
    by (auto simp: matched_def split: option.splits)
  show ?thesis
    unfolding ps using find_process_Some [OF p(1)] p by (intro bexI [of _ "as_processes s ! p"]) simp_all
qed

subsection \<open>Properties\<close>

text \<open>
  C7. In every state the service can reach, each stream has a nonzero ID and belongs to a ready connection, in
  the clock's slot exactly when the connection has the clock's role; where the process of the connection is announced, it is
  announced with the user and role of the connection; at most one announced process is the clock, no process number is
  announced twice; and no process holds more than four application streams.
\<close>

theorem streams_have_rights:
  assumes "(audio_step E)\<^sup>*\<^sup>* fplinux_audio_streams_init s" "i < AUDIO_STREAMS" "au_ring (as_streams s ! i) \<noteq> None"
    "c = as_connections s ! au_connection (as_streams s ! i)"
  shows "au_id (as_streams s ! i) \<noteq> 0 \<and> au_connection (as_streams s ! i) < AUDIO_CONNECTIONS \<and>
    ac_state c = CONNECTION_READY \<and> ac_clock c = (i = AUDIO_CLOCK_STREAM_INDEX) \<and>
    (\<forall>p \<in> set (as_processes s). 0 < ap_pid p \<and> ap_pid p = ac_pid c \<longrightarrow> ap_uid p = ac_uid c \<and> ap_clock p = ac_clock c) \<and>
    distinct (filter (\<lambda>pid. pid \<noteq> 0) (map ap_pid (as_processes s))) \<and>
    length (filter (\<lambda>p. ap_pid p \<noteq> 0 \<and> ap_clock p) (as_processes s)) \<le> 1 \<and>
    streams_of_pid s pid [0..<AUDIO_APP_STREAMS] \<le> AUDIO_CLIENT_STREAMS"
proof -
  have ok: "audio_ok s" using audio.reachable [OF refl assms(1)] .
  then have l: "length (as_connections s) = AUDIO_CONNECTIONS"
    and a: "announced_ok (as_processes s)" and o: "owner_ok (as_connections s) i (as_streams s ! i)" and m: "limits_ok s"
    and r: "list_all (role_ok (as_processes s)) (as_connections s)"
    using assms(2) by (simp_all add: audio_ok_parts tables_ok_def)
  have c: "c \<in> set (as_connections s)" "ac_state c = CONNECTION_READY" "ac_clock c = (i = AUDIO_CLOCK_STREAM_INDEX)"
    "au_connection (as_streams s ! i) < AUDIO_CONNECTIONS" "au_id (as_streams s ! i) \<noteq> 0"
    using o assms(3,4) l by (auto simp: owner_ok_def)
  then have "role_ok (as_processes s) c" using r by (simp add: list_all_iff)
  then show ?thesis using c m announced_summary [OF a] by (auto simp: limits_ok_def role_ok_def)
qed

theorem streams_have_rights_witness:
  "ac_state (as_connections example_open ! 0) = CONNECTION_READY \<and> \<not> ac_clock (as_connections example_open ! 0)"
  using streams_have_rights [OF example_open_reached _ example_open_live(1) refl]
  by (simp add: example_open_live(2) AUDIO_STREAMS_def AUDIO_CLOCK_STREAM_INDEX_def AUDIO_APP_STREAMS_def)

text \<open>
  C8. After the service refreshed its streams, a stream plays, or waits for the output, exactly when the
  manager announced its process with the user and role of its connection and made it audible; every
  other stream is stored as paused and sleeping, and the next period takes no frame of it and does not end it.
\<close>

theorem only_audible_heard:
  assumes "(audio_step E)\<^sup>*\<^sup>* fplinux_audio_streams_init s" "s' = snd (fplinux_audio_streams_refresh s)" "i < AUDIO_STREAMS"
    "t = as_streams s' ! i" "au_ring t \<noteq> None" "c = as_connections s' ! au_connection t"
  shows "if \<exists>p \<in> set (as_processes s'). 0 < ap_pid p \<and> ap_pid p = ac_pid c \<and> ap_uid p = ac_uid c \<and> ap_clock p = ac_clock c \<and> ap_audible p
    then au_state t = (if as_output s' = OUTPUT_UNAVAILABLE then RING_UNAVAILABLE else RING_PLAYING) \<and>
      au_sleeping t = (as_output s' \<noteq> OUTPUT_OPEN)
    else au_state t = RING_PAUSED \<and> au_sleeping t \<and>
      (let t' = as_streams (snd (snd (fplinux_audio_streams_mix frames s'))) ! i
       in au_ring t' \<noteq> None \<and> ms_read (au_mixer t') = ms_read (au_mixer t))"
proof -
  have ok: "audio_ok s" using audio.reachable [OF refl assms(1)] .
  then have ok': "audio_ok s'" using streams_refresh_ok by (simp add: assms(2))
  have l: "length (as_streams s) = AUDIO_STREAMS" "length (as_streams s') = AUDIO_STREAMS"
    using ok ok' by (simp_all add: audio_ok_parts tables_ok_def)
  have st: "same_policy s s'" "stored_ok s t"
    using refresh_stores [of AUDIO_STREAMS s False] l assms(2-4) by (simp_all add: fplinux_audio_streams_refresh_def Let_def)
  then have st': "ms_paused (au_mixer t) = stream_paused s' t" "au_state t = stream_state s' t" "au_sleeping t = stream_sleeping s' t"
    using policy_view [OF st(1)] assms(5) by (simp_all add: stored_ok_def)
  have r: "role_ok (as_processes s') c" "ac_state c = CONNECTION_READY"
    using ok' assms(3-6) by (auto simp: audio_ok_parts owner_ok_def list_all_iff)
  have a: "announced_ok (as_processes s')" using ok' by (simp add: audio_ok_parts)
  define audible where "audible \<longleftrightarrow> (\<exists>p \<in> set (as_processes s'). 0 < ap_pid p \<and> ap_pid p = ac_pid c \<and> ap_uid p = ac_uid c \<and>
      ap_clock p = ac_clock c \<and> ap_audible p)"
  have pid: "stream_pid s' t = ac_pid c" by (simp add: stream_pid_def assms(6))
  have "stream_paused s' t = (\<not> audible)"
  proof (cases "find_process s' (ac_pid c)")
    case None
    have "\<not> audible" using find_process_None [OF None] by (auto simp: audible_def)
    then show ?thesis by (simp add: stream_paused_def pid None)
  next
    case (Some p)
    note f = find_process_Some [OF Some]
    have "audible = ap_audible (as_processes s' ! p)"
    proof
      assume "audible"
      then show "ap_audible (as_processes s' ! p)" using announced_unique [OF a f(1)] f by (auto simp: audible_def)
    next
      assume "ap_audible (as_processes s' ! p)"
      then show "audible" using r f nth_mem [OF f(1)] by (auto simp: audible_def role_ok_def simp del: nth_mem intro!: bexI [of _ "as_processes s' ! p"])
    qed
    then show ?thesis by (simp add: stream_paused_def pid Some)
  qed
  moreover have "as_streams (snd (snd (fplinux_audio_streams_mix frames s'))) ! i = mixed_stream frames (as_mixed s' + of_nat frames) t"
    using mix_streams [OF l(2)] l(2) assms(3,4) by simp
  moreover have "au_ring (mixed_stream frames out t) \<noteq> None \<and> ms_read (au_mixer (mixed_stream frames out t)) = ms_read (au_mixer t)"
    if "ms_paused (au_mixer t)" for out
    using that assms(5) by (auto simp: mixed_stream_def fplinux_audio_mixer_mix_def)
  ultimately show ?thesis using st' unfolding audible_def [symmetric] by (simp add: stream_state_def stream_sleeping_def Let_def)
qed

theorem only_audible_heard_witness:
  "au_state (as_streams (snd (fplinux_audio_streams_refresh example_open)) ! 0) = RING_PAUSED"
proof -
  let ?s = "example_open" and ?s' = "snd (fplinux_audio_streams_refresh example_open)"
  have ok: "audio_ok ?s" using audio.reachable [OF refl example_open_reached] .
  have pr: "as_processes ?s = as_processes example_ready"
    by (simp add: example_open_def open_processes)
  then have quiet: "\<not> ap_audible p" if "p \<in> set (as_processes ?s)" for p
    using that by (auto simp: example_ready_def example_accepted_def example_announced_def example_process_def zero_process_def
        dest!: set_update_subset_insert [THEN subsetD])
  have paused: "stream_paused ?s t" for t
    using quiet find_process_Some(1) by (auto simp: stream_paused_def split: option.split)
  have l: "length (as_streams ?s) = AUDIO_STREAMS" using ok by (simp add: audio_ok_parts tables_ok_def)
  then have n: "0 < AUDIO_STREAMS" "au_ring (as_streams ?s' ! 0) \<noteq> None" "same_policy ?s ?s'"
    using refresh_stores [of AUDIO_STREAMS ?s False] example_open_live(1) paused
    by (auto simp: fplinux_audio_streams_refresh_def Let_def AUDIO_STREAMS_def simp del: not_None_eq)
  then have "\<not> ap_audible p" if "p \<in> set (as_processes ?s')" for p using quiet that by (simp add: same_policy_def)
  then show ?thesis
    using only_audible_heard [OF example_open_reached refl n(1) refl n(2) refl] by (auto split: if_splits)
qed



text \<open>
  Once the manager reports a process as gone, no connection and no stream of it is left, it is not announced, and it is
  remembered as gone: a new connection of it is refused with EAGAIN at its first message.
\<close>

theorem gone_process_leaves_nothing:
  assumes "(audio_step E)\<^sup>*\<^sup>* fplinux_audio_streams_init s" "parse_command w = Gone pid" "s' = fplinux_audio_streams_command E w s"
  shows "(\<forall>c \<in> set (as_connections s'). ac_pid c = pid \<longrightarrow> ac_state c = CONNECTION_FREE) \<and>
    (\<forall>i < AUDIO_STREAMS. au_ring (as_streams s' ! i) \<noteq> None \<longrightarrow> stream_pid s' (as_streams s' ! i) \<noteq> pid) \<and>
    pid \<notin> ap_pid ` set (as_processes s') \<and>
    (\<forall>index < AUDIO_CONNECTIONS. \<forall>c. ac_state c = CONNECTION_NEW \<and> ac_pid c = pid \<longrightarrow>
       handle E index hello (put_connection index c s') = (False, snd (refuse E (ac_fd c) EAGAIN (put_connection index c s'))))"
proof -
  have ok: "audio_ok s" using audio.reachable [OF refl assms(1)] .
  then have ok': "audio_ok s'" using command_ok by (simp add: assms(3))
  have pid: "0 < pid" using assms(2) by (rule parse_gone_pid)
  have s': "s' = forget E pid s" by (simp add: assms(2,3) fplinux_audio_streams_command_def)
  note f = forget_result [OF ok pid, of E, folded s']
  have free: "\<forall>c \<in> set (as_connections s'). ac_pid c = pid \<longrightarrow> ac_state c = CONNECTION_FREE"
    using f(1) pid by (auto simp: free_connection_def)
  have "stream_pid s' (as_streams s' ! i) \<noteq> pid" if "i < AUDIO_STREAMS" "au_ring (as_streams s' ! i) \<noteq> None" for i
  proof -
    have "owner_ok (as_connections s') i (as_streams s' ! i)" using ok' that(1) by (simp add: audio_ok_parts)
    then show ?thesis using that(2) free nth_mem by (fastforce simp: owner_ok_def stream_pid_def)
  qed
  moreover have "handle E index hello (put_connection index c s') = (False, snd (refuse E (ac_fd c) EAGAIN (put_connection index c s')))"
    if "index < AUDIO_CONNECTIONS" "ac_state c = CONNECTION_NEW" "ac_pid c = pid" for index c
  proof -
    have "find_process s' pid = None"
      using find_process_Some [of s' pid] f(2) by (cases "find_process s' pid") (auto simp: image_iff)
    then have "find_process (put_connection index c s') pid = None" "find_gone (put_connection index c s') pid \<noteq> None"
      using f(3) pid by (simp_all add: find_process_def find_gone_def)
    moreover have "length (as_connections s') = AUDIO_CONNECTIONS" using ok' by (simp add: audio_ok_parts tables_ok_def)
    ultimately show ?thesis
      using that by (simp add: handle_def handle_hello_def hello_def zero_message_def Let_def)
  qed
  ultimately show ?thesis using free f(2) by blast
qed

theorem gone_process_leaves_nothing_witness:
  "7 \<notin> ap_pid ` set (as_processes (fplinux_audio_streams_command audio_example_env ''GONE 7'' example_open))"
proof -
  have "parse_command ''GONE 7'' = Gone 7" by (simp add: parse_simps)
  then show ?thesis using gone_process_leaves_nothing [OF example_open_reached _ refl] by blast
qed

text \<open>
  C34. \<open>fplinux_audio_streams_expire\<close> leaves no connection waiting past its deadline and no resynchronization overdue, and returns
  the earliest deadline that is left, or the largest number when there is none; when the resynchronization was due, every
  connection still ready belongs to a process announced again with its user and role.
\<close>

theorem expire_returns_next_deadline:
  assumes "(audio_step E)\<^sup>*\<^sup>* fplinux_audio_streams_init s" "fplinux_audio_streams_expire E now_ms s = (earliest, s')"
    "deadlines = [ac_deadline_ms c. c \<leftarrow> as_connections s', ac_state c = CONNECTION_NEW \<or> ac_state c = CONNECTION_WAITING] @
       (if as_resync_ms s' \<noteq> 0 then [as_resync_ms s'] else [])"
  shows "(\<forall>d \<in> set deadlines. now_ms < d \<and> earliest \<le> d) \<and> (earliest = - 1 \<or> earliest \<in> set deadlines) \<and>
    (as_resync_ms s \<noteq> 0 \<and> as_resync_ms s \<le> now_ms \<longrightarrow>
       (\<forall>c \<in> set (as_connections s'). ac_state c = CONNECTION_READY \<longrightarrow>
          (\<exists>p \<in> set (as_processes s'). ap_pid p = ac_pid c \<and> ap_uid p = ac_uid c \<and> ap_clock p = ac_clock c)))"
proof -
  have ok: "audio_ok s" using audio.reachable [OF refl assms(1)] .
  have l: "length (as_connections (resynced now_ms s)) = AUDIO_CONNECTIONS"
    using resynced_ok [OF ok] by (simp add: audio_ok_parts tables_ok_def)
  define start where "start = (if as_resync_ms (resynced now_ms s) \<noteq> 0 then as_resync_ms (resynced now_ms s) else - 1)"
  have e: "fold (expire_connection E now_ms) [0..<AUDIO_CONNECTIONS] (start, resynced now_ms s) = (earliest, s')"
    using assms(2) unfolding fplinux_audio_streams_expire_def Let_def resynced_def [symmetric] start_def [symmetric] .
  note f = expire_fold [OF l order_refl, of E now_ms start, unfolded e]
  have cs: "as_connections s' = map (expired_connection now_ms) (as_connections (resynced now_ms s))"
    and ps: "as_processes s' = as_processes (resynced now_ms s)" and r: "as_resync_ms s' = as_resync_ms (resynced now_ms s)"
    using f l by simp_all
  have rs: "as_resync_ms s' \<noteq> 0 \<Longrightarrow> now_ms < as_resync_ms s'"
    using resynced_resync [of now_ms s] by (auto simp: r)
  have "now_ms < ac_deadline_ms c" if "c \<in> set (as_connections s')" "waiting c" for c
    using that by (auto simp: cs expired_connection_def free_connection_def split: if_splits)
  moreover have "earliest \<le> ac_deadline_ms c" if "c \<in> set (as_connections s')" "waiting c" for c
    using f l that by (auto simp: cs)
  moreover have "earliest \<le> start" "earliest = start \<or> earliest \<in> ac_deadline_ms ` {c \<in> set (as_connections s'). waiting c}"
    using f l by (auto simp: cs)
  ultimately have "(\<forall>d \<in> set deadlines. now_ms < d \<and> earliest \<le> d) \<and> (earliest = - 1 \<or> earliest \<in> set deadlines)"
    using rs by (auto simp: assms(3) start_def r [symmetric] split: if_splits)
  moreover have "\<exists>p \<in> set (as_processes s'). ap_pid p = ac_pid c \<and> ap_uid p = ac_uid c \<and> ap_clock p = ac_clock c"
    if "as_resync_ms s \<noteq> 0" "as_resync_ms s \<le> now_ms" "c \<in> set (as_connections s')" "ac_state c = CONNECTION_READY" for c
    using resynced_ready [OF ok that(1,2), of c] that(3,4)
    by (auto simp: cs ps expired_connection_def free_connection_def split: if_splits)
  ultimately show ?thesis by blast
qed

theorem expire_returns_next_deadline_witness:
  "fst (fplinux_audio_streams_expire audio_example_env 10 example_open) = - 1 \<or>
   fst (fplinux_audio_streams_expire audio_example_env 10 example_open) \<in>
     set ([ac_deadline_ms c. c \<leftarrow> as_connections (snd (fplinux_audio_streams_expire audio_example_env 10 example_open)),
         ac_state c = CONNECTION_NEW \<or> ac_state c = CONNECTION_WAITING] @
       (if as_resync_ms (snd (fplinux_audio_streams_expire audio_example_env 10 example_open)) \<noteq> 0
        then [as_resync_ms (snd (fplinux_audio_streams_expire audio_example_env 10 example_open))] else []))"
  using expire_returns_next_deadline [OF example_open_reached prod.collapse [symmetric] refl] by blast

end
