(* ===== verification/Screen_Rules.thy ===== *)
theory Screen_Rules
  imports Prelude
begin

section \<open>Rules of the high-level screens\<close>

text \<open>
  The part of \<open>lib/fplinux/fplinux-ui-screen-model.c\<close> that assigns commands to the soft keys,
  moves row indices over insertions and deletions, moves the focus and chooses scroll positions.
  \<open>size_t\<close> is a natural number below \<open>2\<^sup>3\<^sup>2\<close>, its width on the target; where an
  operation can leave that range the reduction is written out.  \<open>SIZE_MAX\<close> stands for
  ``none'' as in the source.
\<close>

definition SIZE_MAX :: nat where
  "SIZE_MAX = 2 ^ 32 - 1"

abbreviation (input) COMMAND_NONE :: nat where
  "COMMAND_NONE \<equiv> SIZE_MAX"

subsection \<open>Commands on the keys\<close>

datatype command_role = ROLE_BACK | ROLE_OK | ROLE_HELP | ROLE_OTHER

record command_entry =
  ce_role :: command_role
  ce_priority :: int

record command_keys =
  ck_right :: nat
  ck_ok :: nat
  ck_left :: nat
  ck_options :: bool
  ck_menu_count :: nat

definition before :: "command_entry list \<Rightarrow> nat \<Rightarrow> nat \<Rightarrow> bool" where
  "before commands a b \<longleftrightarrow>
     ce_priority (commands ! a) < ce_priority (commands ! b) \<or>
     ce_priority (commands ! a) = ce_priority (commands ! b) \<and> a < b"

definition first_step :: "command_entry list \<Rightarrow> command_role \<Rightarrow> nat \<Rightarrow> nat \<Rightarrow> nat" where
  "first_step commands role i found =
     (if ce_role (commands ! i) = role \<and> (found = COMMAND_NONE \<or> before commands i found)
      then i else found)"

definition first_with_role :: "command_entry list \<Rightarrow> command_role \<Rightarrow> nat" where
  "first_with_role commands role =
     fold (first_step commands role) [0..<length commands] COMMAND_NONE"

text \<open>
  \<open>menu\<close> is the caller's array; the insertion shifts the entries that come after command
  \<open>i\<close> one place up, from place \<open>at\<close> downwards.
\<close>

fun menu_insert :: "command_entry list \<Rightarrow> nat \<Rightarrow> nat \<Rightarrow> nat list \<Rightarrow> nat list" where
  "menu_insert commands i 0 menu = menu[0 := i]"
| "menu_insert commands i (Suc p) menu =
     (if before commands i (menu ! p)
      then menu_insert commands i p (menu[Suc p := menu ! p])
      else menu[Suc p := i])"

record menu_state =
  ms_help :: bool
  ms_remaining :: nat
  ms_menu :: "nat list"

definition menu_step ::
  "command_entry list \<Rightarrow> bool \<Rightarrow> nat \<Rightarrow> nat \<Rightarrow> nat \<Rightarrow> menu_state \<Rightarrow> menu_state" where
  "menu_step commands right_taken right ok i s =
     (if \<not> right_taken \<and> i = right \<or> i = ok then s
      else \<lparr> ms_help = (ms_help s \<or> ce_role (commands ! i) = ROLE_HELP),
             ms_remaining = Suc (ms_remaining s),
             ms_menu = menu_insert commands i (ms_remaining s) (ms_menu s) \<rparr>)"

definition fplinux_ui_command_keys_assign ::
  "command_entry list \<Rightarrow> bool \<Rightarrow> bool \<Rightarrow> nat list \<Rightarrow> command_keys \<times> nat list" where
  "fplinux_ui_command_keys_assign commands element_acts right_taken menu =
     (let right = first_with_role commands ROLE_BACK;
          ok = (if element_acts then COMMAND_NONE else first_with_role commands ROLE_OK);
          s = fold (menu_step commands right_taken right ok) [0..<length commands]
                \<lparr> ms_help = False, ms_remaining = 0, ms_menu = menu \<rparr>;
          keys = \<lparr> ck_right = (if right_taken then COMMAND_NONE else right), ck_ok = ok,
                   ck_left = COMMAND_NONE, ck_options = False, ck_menu_count = 0 \<rparr>
      in (if ms_remaining s = 1 \<and> \<not> ms_help s \<and> \<not> (right_taken \<and> right \<noteq> COMMAND_NONE)
          then keys\<lparr> ck_left := ms_menu s ! 0 \<rparr>
          else if ms_remaining s \<noteq> 0
          then keys\<lparr> ck_options := True, ck_menu_count := ms_remaining s \<rparr>
          else keys, ms_menu s))"

text \<open>\<open>memmove\<close> shifts \<open>menu_count\<close> entries one place up; the array has room for them.\<close>

definition fplinux_ui_command_keys_collapse ::
  "command_keys \<Rightarrow> nat list \<Rightarrow> command_keys \<times> nat list" where
  "fplinux_ui_command_keys_collapse keys menu =
     (if ck_left keys = COMMAND_NONE then (keys, menu)
      else (keys\<lparr> ck_left := COMMAND_NONE, ck_options := True,
                  ck_menu_count := Suc (ck_menu_count keys) \<rparr>,
            ck_left keys # take (ck_menu_count keys) menu @ drop (Suc (ck_menu_count keys)) menu))"

subsection \<open>Row indices\<close>

definition fplinux_ui_index_inserted :: "nat \<Rightarrow> nat \<Rightarrow> nat \<Rightarrow> nat" where
  "fplinux_ui_index_inserted index at count =
     (if index \<noteq> SIZE_MAX \<and> at \<le> index then (index + count) mod 2 ^ 32 else index)"

definition fplinux_ui_index_deleted :: "nat \<Rightarrow> nat \<Rightarrow> nat \<Rightarrow> nat" where
  "fplinux_ui_index_deleted index at count =
     (if index = SIZE_MAX \<or> index < at then index
      else if index - at < count then SIZE_MAX else index - count)"

definition fplinux_ui_focus_deleted :: "nat \<Rightarrow> nat \<Rightarrow> nat \<Rightarrow> nat \<Rightarrow> nat" where
  "fplinux_ui_focus_deleted focus at count rows =
     (if rows \<le> at then focus
      else let count = (if rows - at < count then rows - at else count)
      in if count = rows then SIZE_MAX
         else let index = fplinux_ui_index_deleted focus at count
         in if index \<noteq> SIZE_MAX \<or> focus = SIZE_MAX then index
            else if at < rows - count then at else rows - count - 1)"

definition fplinux_ui_focus_next :: "nat \<Rightarrow> nat \<Rightarrow> (nat \<Rightarrow> bool) \<Rightarrow> nat" where
  "fplinux_ui_focus_next from count focusable =
     (case find focusable [from..<count] of
        Some i \<Rightarrow> i
      | None \<Rightarrow> (case find focusable (rev [0..<(if from < count then from else count)]) of
                   Some i \<Rightarrow> i
                 | None \<Rightarrow> SIZE_MAX))"

datatype focus_boundary = FOCUS_CLAMP | FOCUS_WRAP

text \<open>\<open>long\<close> has 32 bits on the target; its negation is taken as an unsigned number.\<close>

definition unsigned_long :: "int \<Rightarrow> nat" where
  "unsigned_long x = nat (x mod 2 ^ 32)"

definition fplinux_ui_focus_step :: "nat \<Rightarrow> nat \<Rightarrow> int \<Rightarrow> focus_boundary \<Rightarrow> nat" where
  "fplinux_ui_focus_step focus count rows boundary =
     (if count = 0 then SIZE_MAX
      else if count \<le> focus then 0
      else if rows < 0 then
        let back = unsigned_long (- rows)
        in (case boundary of
              FOCUS_WRAP \<Rightarrow>
                let back = back mod count
                in if focus < back then count - (back - focus) else focus - back
            | FOCUS_CLAMP \<Rightarrow> if focus \<le> back then 0 else focus - back)
      else (case boundary of
              FOCUS_WRAP \<Rightarrow>
                let step = unsigned_long rows mod count
                in if count - focus \<le> step then step - (count - focus) else focus + step
            | FOCUS_CLAMP \<Rightarrow>
                if count - 1 - focus \<le> unsigned_long rows then count - 1
                else focus + unsigned_long rows))"

subsection \<open>Scroll positions\<close>

text \<open>
  Pixel coordinates are \<open>int32_t\<close>; they are far from its bounds, so the sums are those of
  the integers.  The quotients of \<open>fplinux_ui_line_scroll\<close> are taken of positive numbers.
\<close>

definition fplinux_ui_reveal_scroll :: "int \<Rightarrow> int \<Rightarrow> int \<Rightarrow> int \<Rightarrow> int \<Rightarrow> int" where
  "fplinux_ui_reveal_scroll view_top view_bottom span_top span_bottom step =
     (let least = (if span_top < view_top \<or> view_bottom - view_top < span_bottom - span_top then view_top - span_top
                   else if view_bottom < span_bottom then view_bottom - span_bottom else 0);
          extent = (if least < 0 then - least else least)
      in if least = 0 \<or> step \<le> 4 * extent then least
         else let most = (if least < 0 then span_top - view_top else view_bottom - span_bottom);
                  most = (if step < most then step else most)
              in if most < extent then least
                 else if least < 0 then - most else most)"

definition fplinux_ui_settle_scroll :: "int \<Rightarrow> int \<Rightarrow> int \<Rightarrow> int \<Rightarrow> int" where
  "fplinux_ui_settle_scroll from to last_top step =
     (let last_top = (if last_top < 0 then 0 else last_top);
          to = (if to < 0 then 0 else to);
          to = (if last_top < to then last_top else to)
      in if from < to \<and> 4 * (last_top - to) < step then last_top
         else if to < from \<and> 4 * to < step then 0
         else to)"

definition fplinux_ui_line_scroll :: "int \<Rightarrow> int \<Rightarrow> int \<Rightarrow> int \<Rightarrow> int" where
  "fplinux_ui_line_scroll from step last_top line =
     (let extent = (if step < 0 then - step else step);
          to = from + step;
          line = (if line < 1 then 1 else line);
          last_top = (if last_top < 0 then 0 else last_top);
          to = (if extent = line \<and> 0 < to
                then if 0 < step then (to + line - 1) div line * line else to div line * line
                else to);
          to = (if to < 0 then 0 else to);
          to = (if last_top < to then last_top else to)
      in if extent = line
         then if from < to \<and> last_top - to < line then last_top
              else if to < from \<and> to < line then 0 else to
         else to)"


subsection \<open>System words\<close>

definition labels :: "string list" where
  "labels =
     [''Options'', ''Select'', ''Mark'', ''Unmark'', ''Edit'', ''Done'', ''Close'', ''Clear'', ''Back'', ''Cancel'',
      ''Exit'', ''Stop'', ''OK'', ''Help'', ''New line'', ''Insert'', ''Information'', ''Confirmation'',
      ''Warning'', ''Error'']"

definition fplinux_ui_label :: "nat \<Rightarrow> string" where
  "fplinux_ui_label label = (if length labels \<le> label then [] else labels ! label)"

subsection \<open>The assignment is complete and ordered\<close>

lemma before_trans: "before cs a b \<Longrightarrow> before cs b c \<Longrightarrow> before cs a c"
  by (auto simp: before_def)

lemma before_total: "a \<noteq> b \<Longrightarrow> before cs a b \<or> before cs b a"
  by (auto simp: before_def)

lemma before_asym: "before cs a b \<Longrightarrow> \<not> before cs b a"
  by (auto simp: before_def)

text \<open>What the search returns after the first \<open>n\<close> commands.\<close>

definition is_first :: "command_entry list \<Rightarrow> command_role \<Rightarrow> nat \<Rightarrow> nat \<Rightarrow> bool" where
  "is_first commands role n r \<longleftrightarrow>
     (if r = COMMAND_NONE then \<forall>i < n. ce_role (commands ! i) \<noteq> role
      else r < n \<and> ce_role (commands ! r) = role \<and>
           (\<forall>i < n. ce_role (commands ! i) = role \<longrightarrow> i = r \<or> before commands r i))"

lemma first_with_role_prefix:
  "n \<le> SIZE_MAX \<Longrightarrow> is_first cs role n (fold (first_step cs role) [0..<n] COMMAND_NONE)"
proof (induction n)
  case 0
  then show ?case by (simp add: is_first_def)
next
  case (Suc n)
  let ?r = "fold (first_step cs role) [0..<n] COMMAND_NONE"
  have r: "is_first cs role n ?r" and n: "n \<noteq> COMMAND_NONE" using Suc by simp_all
  have "is_first cs role (Suc n) (first_step cs role n ?r)"
  proof (cases "ce_role (cs ! n) = role \<and> (?r = COMMAND_NONE \<or> before cs n ?r)")
    case True
    then show ?thesis
      using r n before_trans [of cs n ?r]
      by (cases "?r = COMMAND_NONE") (auto simp: is_first_def first_step_def less_Suc_eq)
  next
    case False
    then have "ce_role (cs ! n) = role \<longrightarrow> before cs ?r n"
      using r before_total [of n ?r cs] by (auto simp: is_first_def split: if_splits)
    with False r show ?thesis
      by (cases "?r = COMMAND_NONE") (auto simp: is_first_def first_step_def less_Suc_eq)
  qed
  then show ?case by simp
qed

lemma first_with_role_first:
  "length cs \<le> SIZE_MAX \<Longrightarrow> is_first cs role (length cs) (first_with_role cs role)"
  unfolding first_with_role_def by (rule first_with_role_prefix)

lemma menu_insert_split:
  assumes "n < length menu"
  shows "\<exists>k \<le> n. menu_insert cs i n menu = take k menu @ i # drop k (take n menu) @ drop (Suc n) menu \<and>
           (\<forall>m \<in> set (drop k (take n menu)). before cs i m) \<and>
           (k = 0 \<or> \<not> before cs i (menu ! (k - 1)))"
  using assms
proof (induction n arbitrary: menu)
  case 0
  then show ?case by (cases menu) auto
next
  case (Suc p)
  show ?case
  proof (cases "before cs i (menu ! p)")
    case True
    let ?m = "menu[Suc p := menu ! p]"
    have "p < length ?m" using Suc.prems by simp
    from Suc.IH [OF this] obtain k where k: "k \<le> p"
      "menu_insert cs i p ?m = take k ?m @ i # drop k (take p ?m) @ drop (Suc p) ?m"
      "\<forall>m \<in> set (drop k (take p ?m)). before cs i m" "k = 0 \<or> \<not> before cs i (?m ! (k - 1))"
      by blast
    have "drop (Suc p) ?m = menu ! p # drop (Suc (Suc p)) menu"
      using Suc.prems by (simp add: drop_update_swap Cons_nth_drop_Suc [symmetric])
    moreover have "drop k (take (Suc p) menu) = drop k (take p menu) @ [menu ! p]"
      using Suc.prems k(1) by (simp add: take_Suc_conv_app_nth)
    ultimately show ?thesis
      using k True Suc.prems by (intro exI [of _ k]) (auto simp: nth_list_update)
  next
    case False
    then show ?thesis
      using Suc.prems by (intro exI [of _ "Suc p"]) (simp add: upd_conv_take_nth_drop)
  qed
qed

lemma menu_insert_sorted:
  assumes "n < length menu" and sorted: "sorted_wrt (before cs) (take n menu)"
    and fresh: "i \<notin> set (take n menu)"
  shows "sorted_wrt (before cs) (take (Suc n) (menu_insert cs i n menu))"
    and "set (take (Suc n) (menu_insert cs i n menu)) = insert i (set (take n menu))"
    and "length (menu_insert cs i n menu) = length menu"
proof -
  from menu_insert_split [OF assms(1), of cs i] obtain k where k: "k \<le> n"
    "menu_insert cs i n menu = take k menu @ i # drop k (take n menu) @ drop (Suc n) menu"
    "\<forall>m \<in> set (drop k (take n menu)). before cs i m" "k = 0 \<or> \<not> before cs i (menu ! (k - 1))"
    by blast
  have split: "take n menu = take k menu @ drop k (take n menu)"
    using k(1) by (metis append_take_drop_id min.absorb1 take_take)
  have taken: "take (Suc n) (menu_insert cs i n menu) = take k menu @ i # drop k (take n menu)"
    using k(1,2) assms(1) by (simp add: min_absorb2 Suc_diff_le)
  have low: "before cs m i" if "m \<in> set (take k menu)" for m
  proof -
    from that obtain j where j: "j < k" "m = menu ! j" using assms(1) k(1) by (auto simp: in_set_conv_nth)
    have last_in: "menu ! (k - 1) \<in> set (take n menu)"
      using j k(1) assms(1) by (auto simp: in_set_conv_nth intro!: exI [of _ "k - 1"])
    have "before cs (menu ! (k - 1)) i"
      using k(4) j(1) fresh last_in before_total [of i "menu ! (k - 1)" cs] by auto
    moreover have "m = menu ! (k - 1) \<or> before cs m (menu ! (k - 1))"
    proof (cases "j = k - 1")
      case False
      then have "before cs (take n menu ! j) (take n menu ! (k - 1))"
        using sorted_wrt_nth_less [OF sorted, of j "k - 1"] j(1) k(1) assms(1) by simp
      then show ?thesis using j k(1) by simp
    qed (use j in simp)
    ultimately show ?thesis by (auto intro: before_trans)
  qed
  have parts: "sorted_wrt (before cs) (take k menu) \<and> sorted_wrt (before cs) (drop k (take n menu)) \<and>
      (\<forall>x \<in> set (take k menu). \<forall>y \<in> set (drop k (take n menu)). before cs x y)"
    using sorted by (subst (asm) split) (simp add: sorted_wrt_append)
  show "sorted_wrt (before cs) (take (Suc n) (menu_insert cs i n menu))"
    unfolding taken using parts low k(3) by (simp add: sorted_wrt_append)
  show "set (take (Suc n) (menu_insert cs i n menu)) = insert i (set (take n menu))"
    unfolding taken by (subst split) auto
  show "length (menu_insert cs i n menu) = length menu"
    unfolding k(2) using k(1) assms(1) by (simp add: min_absorb2)
qed

text \<open>The loop leaves the commands without a key of their own, in order.\<close>

definition menu_ok :: "command_entry list \<Rightarrow> bool \<Rightarrow> nat \<Rightarrow> nat \<Rightarrow> nat \<Rightarrow> nat \<Rightarrow> menu_state \<Rightarrow> bool" where
  "menu_ok commands right_taken right ok n room s \<longleftrightarrow>
     length (ms_menu s) = room \<and> ms_remaining s \<le> n \<and>
     sorted_wrt (before commands) (take (ms_remaining s) (ms_menu s)) \<and>
     set (take (ms_remaining s) (ms_menu s)) =
       {i. i < n \<and> \<not> (\<not> right_taken \<and> i = right \<or> i = ok)} \<and>
     (ms_help s \<longleftrightarrow> (\<exists>i \<in> set (take (ms_remaining s) (ms_menu s)). ce_role (commands ! i) = ROLE_HELP))"

lemma menu_step_ok:
  assumes "menu_ok cs rt right ok n room s" and "n < room"
  shows "menu_ok cs rt right ok (Suc n) room (menu_step cs rt right ok n s)"
proof (cases "\<not> rt \<and> n = right \<or> n = ok")
  case True
  then have "{i. i < Suc n \<and> \<not> (\<not> rt \<and> i = right \<or> i = ok)} =
      {i. i < n \<and> \<not> (\<not> rt \<and> i = right \<or> i = ok)}"
    by (auto simp: less_Suc_eq)
  with True assms show ?thesis by (simp add: menu_ok_def menu_step_def)
next
  case False
  let ?m = "take (ms_remaining s) (ms_menu s)"
  have s: "length (ms_menu s) = room" "ms_remaining s \<le> n" "sorted_wrt (before cs) ?m"
    "set ?m = {i. i < n \<and> \<not> (\<not> rt \<and> i = right \<or> i = ok)}"
    "ms_help s \<longleftrightarrow> (\<exists>i \<in> set ?m. ce_role (cs ! i) = ROLE_HELP)"
    using assms(1) unfolding menu_ok_def by blast+
  have room: "ms_remaining s < length (ms_menu s)" and fresh: "n \<notin> set ?m"
    using s(1,2) assms(2) by (simp, simp only: s(4)) simp
  note ins = menu_insert_sorted [OF room s(3) fresh]
  have rest: "{i. i < Suc n \<and> \<not> (\<not> rt \<and> i = right \<or> i = ok)} = insert n (set ?m)"
    unfolding s(4) using False by (auto simp: less_Suc_eq)
  have step: "menu_step cs rt right ok n s =
      \<lparr> ms_help = (ms_help s \<or> ce_role (cs ! n) = ROLE_HELP), ms_remaining = Suc (ms_remaining s),
        ms_menu = menu_insert cs n (ms_remaining s) (ms_menu s) \<rparr>"
    using False by (auto simp: menu_step_def)
  show ?thesis
    unfolding menu_ok_def step menu_state.select_convs rest ins(2)
    using ins(1,3) s(1,2,5) by simp blast
qed

lemma menu_steps_ok:
  "n \<le> length menu \<Longrightarrow>
   menu_ok cs rt right ok n (length menu)
     (fold (menu_step cs rt right ok) [0..<n] \<lparr> ms_help = False, ms_remaining = 0, ms_menu = menu \<rparr>)"
proof (induction n)
  case 0
  then show ?case by (simp add: menu_ok_def)
next
  case (Suc n)
  then show ?case by (simp add: menu_step_ok)
qed


text \<open>The commands a user can reach: those on the three keys and those of the options menu.\<close>

definition placed_commands :: "command_keys \<Rightarrow> nat list \<Rightarrow> nat list" where
  "placed_commands keys menu =
     filter (\<lambda>c. c \<noteq> COMMAND_NONE) [ck_right keys, ck_ok keys, ck_left keys] @
     take (ck_menu_count keys) menu"

definition keys_ok :: "command_entry list \<Rightarrow> command_keys \<Rightarrow> nat list \<Rightarrow> bool" where
  "keys_ok commands keys menu \<longleftrightarrow>
     distinct (placed_commands keys menu) \<and>
     set (placed_commands keys menu) = {..<length commands} \<and>
     sorted_wrt (before commands) (take (ck_menu_count keys) menu) \<and>
     (ck_options keys \<longleftrightarrow> 0 < ck_menu_count keys) \<and>
     (ck_options keys \<longrightarrow> ck_left keys = COMMAND_NONE)"

lemma sorted_before_distinct: "sorted_wrt (before cs) xs \<Longrightarrow> distinct xs"
  by (induction xs) (auto dest: before_asym)

lemma keys_okI:
  assumes sorted: "sorted_wrt (before cs) rest"
    and left: "rest = filter (\<lambda>c. c \<noteq> COMMAND_NONE) [ck_left keys] @ take (ck_menu_count keys) menu"
    and rest: "set rest = {i. i < length cs \<and> i \<noteq> ck_right keys \<and> i \<noteq> ck_ok keys}"
    and right: "ck_right keys \<noteq> COMMAND_NONE \<Longrightarrow> ck_right keys < length cs \<and> ck_right keys \<noteq> ck_ok keys"
    and ok: "ck_ok keys \<noteq> COMMAND_NONE \<Longrightarrow> ck_ok keys < length cs"
    and small: "length cs \<le> SIZE_MAX"
    and options: "ck_options keys \<longleftrightarrow> 0 < ck_menu_count keys"
    and single: "ck_options keys \<Longrightarrow> ck_left keys = COMMAND_NONE"
  shows "keys_ok cs keys menu"
proof -
  let ?keyed = "filter (\<lambda>c. c \<noteq> COMMAND_NONE) [ck_right keys, ck_ok keys]"
  have placed: "placed_commands keys menu = ?keyed @ rest"
    unfolding placed_commands_def left by simp
  have keyed: "distinct ?keyed \<and> set ?keyed \<inter> set rest = {} \<and> set ?keyed \<subseteq> {..<length cs}"
    using right ok unfolding rest by auto
  have "{..<length cs} \<subseteq> set ?keyed \<union> set rest"
    using small unfolding rest by auto
  moreover have "set rest \<subseteq> {..<length cs}" unfolding rest by auto
  moreover have "sorted_wrt (before cs) (take (ck_menu_count keys) menu)"
    using sorted unfolding left by (simp add: sorted_wrt_append)
  ultimately show ?thesis
    unfolding keys_ok_def placed
    using keyed sorted_before_distinct [OF sorted] options single by auto
qed

lemma assign_ok:
  assumes room: "length cs \<le> length menu" and small: "length cs \<le> SIZE_MAX"
    and assign: "fplinux_ui_command_keys_assign cs acts taken menu = (keys, menu')"
  shows "keys_ok cs keys menu' \<and>
         ck_right keys = (if taken then COMMAND_NONE else first_with_role cs ROLE_BACK) \<and>
         ck_ok keys = (if acts then COMMAND_NONE else first_with_role cs ROLE_OK) \<and>
         (ck_left keys \<noteq> COMMAND_NONE \<longrightarrow> ce_role (cs ! ck_left keys) \<noteq> ROLE_HELP \<and>
            \<not> (taken \<and> first_with_role cs ROLE_BACK \<noteq> COMMAND_NONE))"
proof -
  let ?leave = "first_with_role cs ROLE_BACK"
  define right where "right = (if taken then COMMAND_NONE else ?leave)"
  define ok where "ok = (if acts then COMMAND_NONE else first_with_role cs ROLE_OK)"
  define s where "s = fold (menu_step cs taken ?leave ok) [0..<length cs]
      \<lparr> ms_help = False, ms_remaining = 0, ms_menu = menu \<rparr>"
  define left where "left \<longleftrightarrow> ms_remaining s = 1 \<and> \<not> ms_help s \<and> \<not> (taken \<and> ?leave \<noteq> COMMAND_NONE)"
  let ?m = "take (ms_remaining s) (ms_menu s)"
  have "menu_ok cs taken ?leave ok (length cs) (length menu) s"
    unfolding s_def using room by (rule menu_steps_ok)
  then have s: "length (ms_menu s) = length menu" "ms_remaining s \<le> length cs" "sorted_wrt (before cs) ?m"
    "set ?m = {i. i < length cs \<and> \<not> (\<not> taken \<and> i = ?leave \<or> i = ok)}"
    "ms_help s \<longleftrightarrow> (\<exists>i \<in> set ?m. ce_role (cs ! i) = ROLE_HELP)"
    unfolding menu_ok_def by blast+
  have keys: "keys = \<lparr> ck_right = right, ck_ok = ok, ck_left = (if left then ms_menu s ! 0 else COMMAND_NONE),
      ck_options = (\<not> left \<and> ms_remaining s \<noteq> 0), ck_menu_count = (if left then 0 else ms_remaining s) \<rparr>"
    and menu': "menu' = ms_menu s"
    using assign unfolding fplinux_ui_command_keys_assign_def Let_def ok_def [symmetric] s_def [symmetric]
      right_def left_def by auto
  have firsts: "is_first cs ROLE_BACK (length cs) ?leave"
    "is_first cs ROLE_OK (length cs) (first_with_role cs ROLE_OK)"
    using small by (simp_all add: first_with_role_first)
  have m: "?m = [ms_menu s ! 0]" if left
    using that s(1,2) room unfolding left_def by (cases "ms_menu s") auto
  have rest: "set ?m = {i. i < length cs \<and> i \<noteq> right \<and> i \<noteq> ok}"
    unfolding s(4) right_def using small by auto
  have "keys_ok cs keys menu'"
  proof (rule keys_okI [OF s(3)])
    have "ms_menu s ! 0 < length cs" if left using m [OF that] rest by auto
    then show "?m = filter (\<lambda>c. c \<noteq> COMMAND_NONE) [ck_left keys] @ take (ck_menu_count keys) menu'"
      unfolding keys menu' using m small by auto
    show "ck_right keys < length cs \<and> ck_right keys \<noteq> ck_ok keys" if "ck_right keys \<noteq> COMMAND_NONE"
      using that firsts unfolding keys by (auto simp: is_first_def right_def ok_def split: if_splits)
    show "ck_ok keys < length cs" if "ck_ok keys \<noteq> COMMAND_NONE"
      using that firsts unfolding keys by (auto simp: is_first_def ok_def split: if_splits)
    show "length cs \<le> SIZE_MAX" by (fact small)
  qed (simp_all add: keys rest split: if_splits)
  moreover have "ce_role (cs ! ck_left keys) \<noteq> ROLE_HELP \<and> \<not> (taken \<and> ?leave \<noteq> COMMAND_NONE)"
    if "ck_left keys \<noteq> COMMAND_NONE"
  proof -
    have l: left using that unfolding keys by (simp split: if_splits)
    then have "ck_left keys \<in> set ?m" using m unfolding keys by simp
    with l s(5) show ?thesis unfolding left_def by blast
  qed
  ultimately show ?thesis unfolding keys right_def ok_def by simp
qed

lemma collapse_ok:
  assumes keys: "keys_ok cs keys menu"
    and collapse: "fplinux_ui_command_keys_collapse keys menu = (keys', menu')"
  shows "keys_ok cs keys' menu' \<and> ck_left keys' = COMMAND_NONE \<and>
         ck_right keys' = ck_right keys \<and> ck_ok keys' = ck_ok keys"
proof (cases "ck_left keys = COMMAND_NONE")
  case False
  then have none: "ck_menu_count keys = 0" using keys by (auto simp: keys_ok_def)
  with False have "placed_commands keys' menu' = placed_commands keys menu" "menu' = ck_left keys # drop 1 menu"
    "keys' = keys\<lparr> ck_left := COMMAND_NONE, ck_options := True, ck_menu_count := 1 \<rparr>"
    using collapse by (auto simp: placed_commands_def fplinux_ui_command_keys_collapse_def)
  with keys none show ?thesis by (simp add: keys_ok_def)
qed (use assms in \<open>simp add: fplinux_ui_command_keys_collapse_def\<close>)


subsection \<open>Indices follow their rows\<close>

text \<open>What an insertion and a deletion do to the rows themselves.\<close>

definition insert_rows :: "nat \<Rightarrow> 'a list \<Rightarrow> 'a list \<Rightarrow> 'a list" where
  "insert_rows at new rows = take at rows @ new @ drop at rows"

definition delete_rows :: "nat \<Rightarrow> nat \<Rightarrow> 'a list \<Rightarrow> 'a list" where
  "delete_rows at n rows = take at rows @ drop (at + n) rows"

lemma length_insert_rows [simp]: "length (insert_rows at new rows) = length rows + length new"
  by (simp add: insert_rows_def min_def)

lemma length_delete_rows:
  "length (delete_rows at n rows) = length rows - (if length rows - at < n then length rows - at else n)"
  by (auto simp: delete_rows_def min_def)

lemma insert_rows_nth:
  assumes "i < length rows" and "at \<le> length rows"
  shows "insert_rows at new rows ! (if at \<le> i then i + length new else i) = rows ! i"
  using assms by (auto simp: insert_rows_def nth_append min_def)

lemma delete_rows_nth:
  assumes "i < length rows" and "at < length rows" and "i < at \<or> at + n \<le> i"
  shows "delete_rows at n rows ! (if i < at then i else i - n) = rows ! i"
  using assms by (auto simp: delete_rows_def nth_append min_def)

lemma index_inserted_row:
  assumes "i < length rows" and "at \<le> length rows" and "length rows + length new \<le> SIZE_MAX"
  shows "insert_rows at new rows ! fplinux_ui_index_inserted i at (length new) = rows ! i"
    and "fplinux_ui_index_inserted i at (length new) < length rows + length new"
  using insert_rows_nth [OF assms(1,2), of new] assms
  by (auto simp: fplinux_ui_index_inserted_def SIZE_MAX_def)

lemma index_deleted_row:
  assumes "i < length rows" and "at < length rows" and "length rows \<le> SIZE_MAX"
  shows "if at \<le> i \<and> i < at + n then fplinux_ui_index_deleted i at n = SIZE_MAX
         else fplinux_ui_index_deleted i at n < length (delete_rows at n rows) \<and>
              delete_rows at n rows ! fplinux_ui_index_deleted i at n = rows ! i"
  using delete_rows_nth [OF assms(1,2), of n] assms
  by (auto simp: fplinux_ui_index_deleted_def length_delete_rows)

lemma focus_deleted_row:
  assumes "i < length rows" and "at < length rows" and "length rows \<le> SIZE_MAX"
    and "delete_rows at n rows \<noteq> []"
  shows "fplinux_ui_focus_deleted i at n (length rows) < length (delete_rows at n rows)"
    and "at \<le> i \<and> i < at + n \<Longrightarrow>
         fplinux_ui_focus_deleted i at n (length rows) = min at (length (delete_rows at n rows) - 1)"
    and "\<not> (at \<le> i \<and> i < at + n) \<Longrightarrow>
         delete_rows at n rows ! fplinux_ui_focus_deleted i at n (length rows) = rows ! i"
proof -
  let ?n = "if length rows - at < n then length rows - at else n"
  have left: "?n \<noteq> length rows"
    using assms(2,4) by (auto simp: delete_rows_def)
  have eq: "fplinux_ui_focus_deleted i at n (length rows) =
      (if at \<le> i \<and> i < at + n then min at (length rows - ?n - 1) else fplinux_ui_index_deleted i at n)"
    using left assms(1-3) by (auto simp: fplinux_ui_focus_deleted_def fplinux_ui_index_deleted_def Let_def min_def)
  show "fplinux_ui_focus_deleted i at n (length rows) < length (delete_rows at n rows)"
    using index_deleted_row [OF assms(1-3), of n] left assms(2)
    unfolding eq by (auto simp: length_delete_rows min_def split: if_splits)
  show "at \<le> i \<and> i < at + n \<Longrightarrow>
      fplinux_ui_focus_deleted i at n (length rows) = min at (length (delete_rows at n rows) - 1)"
    unfolding eq by (simp add: length_delete_rows)
  show "\<not> (at \<le> i \<and> i < at + n) \<Longrightarrow>
      delete_rows at n rows ! fplinux_ui_focus_deleted i at n (length rows) = rows ! i"
    using index_deleted_row [OF assms(1-3), of n] unfolding eq by (simp only: if_False)
qed

text \<open>The focus moves by plain arithmetic, in a cycle or up to the ends of the list.\<close>

lemma unsigned_long_nat: "0 \<le> x \<Longrightarrow> x < 2 ^ 32 \<Longrightarrow> unsigned_long x = nat x"
  by (simp add: unsigned_long_def)

lemma focus_step_backwards:
  assumes "f < n" and "b < 2 ^ 32" and that: "b \<noteq> 0"
  shows "int (fplinux_ui_focus_step f n (- int b) boundary) =
    (case boundary of FOCUS_WRAP \<Rightarrow> (int f - int b) mod int n | FOCUS_CLAMP \<Rightarrow> max 0 (int f - int b))"
proof (cases boundary)
  case FOCUS_CLAMP
  then show ?thesis
    using assms that by (auto simp: fplinux_ui_focus_step_def unsigned_long_nat Let_def)
next
  case FOCUS_WRAP
  let ?r = "b mod n"
  have r: "?r < n" using assms(1) by simp
  have "(int f - int b) mod int n = (int f - int ?r) mod int n"
    by (simp add: zmod_int mod_diff_right_eq)
  also have "\<dots> = (if f < ?r then int f - int ?r + int n else int f - int ?r)"
  proof (cases "f < ?r")
    case True
    then have "(int f - int ?r + int n) mod int n = int f - int ?r + int n"
      using assms(1) r by (intro mod_pos_pos_trivial) auto
    then show ?thesis using True by simp
  qed (use assms(1) in auto)
  also have "\<dots> = int (if f < ?r then n - (?r - f) else f - ?r)"
    using r by (auto simp: of_nat_diff)
  also have "(if f < ?r then n - (?r - f) else f - ?r) = fplinux_ui_focus_step f n (- int b) boundary"
    using FOCUS_WRAP assms by (simp add: fplinux_ui_focus_step_def unsigned_long_nat Let_def)
  finally show ?thesis using FOCUS_WRAP by simp
qed

lemma focus_step_forwards:
  assumes "f < n" and "b < 2 ^ 31"
  shows "int (fplinux_ui_focus_step f n (int b) boundary) =
    (case boundary of FOCUS_WRAP \<Rightarrow> (int f + int b) mod int n | FOCUS_CLAMP \<Rightarrow> min (int n - 1) (int f + int b))"
proof (cases boundary)
  case FOCUS_CLAMP
  then show ?thesis
    using assms by (auto simp: fplinux_ui_focus_step_def unsigned_long_nat Let_def)
next
  case FOCUS_WRAP
  let ?r = "b mod n"
  have r: "?r < n" using assms(1) by simp
  have "(f + b) mod n = (f + ?r) mod n" by (simp add: mod_add_right_eq)
  also have "\<dots> = (if n - f \<le> ?r then ?r - (n - f) else f + ?r)"
  proof (cases "n - f \<le> ?r")
    case True
    then have "f + ?r = ?r - (n - f) + n" "?r - (n - f) < n" using assms(1) r by linarith+
    then show ?thesis using True by (metis mod_add_self2 mod_less)
  qed (use assms(1) in simp)
  also have "\<dots> = fplinux_ui_focus_step f n (int b) boundary"
    using FOCUS_WRAP assms by (simp add: fplinux_ui_focus_step_def unsigned_long_nat Let_def)
  finally have "fplinux_ui_focus_step f n (int b) boundary = (f + b) mod n" ..
  then show ?thesis using FOCUS_WRAP by (simp add: zmod_int)
qed


lemma step_arithmetic:
  assumes "focus < rows" and "- (2 ^ 31) \<le> delta" and "delta < 2 ^ 31"
  shows "int (fplinux_ui_focus_step focus rows delta FOCUS_WRAP) = (int focus + delta) mod int rows \<and>
         int (fplinux_ui_focus_step focus rows delta FOCUS_CLAMP) =
           max 0 (min (int rows - 1) (int focus + delta))"
proof (cases "delta < 0")
  case True
  then obtain b where b: "delta = - int b" "b \<noteq> 0" by (cases delta rule: int_cases4) auto
  then have "b < 2 ^ 32" using assms(2) by simp
  then show ?thesis using focus_step_backwards [OF assms(1) _ b(2)] assms(1) b by simp
next
  case False
  then obtain b where b: "delta = int b" by (cases delta) auto
  then have "b < 2 ^ 31" using assms(3) by simp
  then show ?thesis using focus_step_forwards [OF assms(1), of b] assms(1) b by simp
qed

lemma round_up_line:
  assumes "0 < line"
  shows "line dvd (t + line - 1) div line * line" "t \<le> (t + line - 1) div line * line"
    "(t + line - 1) div line * line < t + (line :: int)"
proof -
  have "(t + line - 1) div line * line + (t + line - 1) mod line = t + line - 1" by (rule div_mult_mod_eq)
  moreover have "0 \<le> (t + line - 1) mod line" "(t + line - 1) mod line < line" using assms by simp_all
  ultimately show "t \<le> (t + line - 1) div line * line" "(t + line - 1) div line * line < t + line" by linarith+
qed simp

lemma round_down_line:
  assumes "0 < line"
  shows "line dvd t div line * line" "t div line * line \<le> t" "t < t div line * line + (line :: int)"
proof -
  have "t div line * line + t mod line = t" by (rule div_mult_mod_eq)
  moreover have "0 \<le> t mod line" "t mod line < line" using assms by simp_all
  ultimately show "t div line * line \<le> t" "t < t div line * line + line" by linarith+
qed simp

section \<open>Properties of the screen rules\<close>

text \<open>
  C19. Whatever the commands, their priorities and the state of the focused element, every command
  is on exactly one of the three keys or exactly once in the options menu, the menu is in the order
  of priority and then of position, the left key opens the menu exactly when there is one, OK and
  the right key carry the first command of their role, a help command or a displaced back command
  never sits on the left key; collapsing a legend that does not fit keeps all of this.
\<close>

theorem commands_all_placed:
  assumes "length commands \<le> length menu" and "length commands \<le> SIZE_MAX"
    and "fplinux_ui_command_keys_assign commands element_acts right_taken menu = (keys, menu')"
    and "fplinux_ui_command_keys_collapse keys menu' = (keys', menu'')"
  shows "keys_ok commands keys menu' \<and> keys_ok commands keys' menu'' \<and>
         is_first commands ROLE_BACK (length commands) (first_with_role commands ROLE_BACK) \<and>
         is_first commands ROLE_OK (length commands) (first_with_role commands ROLE_OK) \<and>
         ck_right keys = (if right_taken then COMMAND_NONE else first_with_role commands ROLE_BACK) \<and>
         ck_ok keys = (if element_acts then COMMAND_NONE else first_with_role commands ROLE_OK) \<and>
         (ck_left keys \<noteq> COMMAND_NONE \<longrightarrow> ce_role (commands ! ck_left keys) \<noteq> ROLE_HELP \<and>
            \<not> (right_taken \<and> first_with_role commands ROLE_BACK \<noteq> COMMAND_NONE)) \<and>
         ck_left keys' = COMMAND_NONE \<and> ck_right keys' = ck_right keys \<and> ck_ok keys' = ck_ok keys"
  using assign_ok [OF assms(1-3)] assms(2,4)
  by (simp add: first_with_role_first collapse_ok [of commands keys menu' keys' menu''])

definition example_commands :: "command_entry list" where
  "example_commands =
     [\<lparr> ce_role = ROLE_OTHER, ce_priority = 3 \<rparr>, \<lparr> ce_role = ROLE_BACK, ce_priority = 2 \<rparr>,
      \<lparr> ce_role = ROLE_OK, ce_priority = 0 \<rparr>]"

lemma example_assigned:
  "fplinux_ui_command_keys_assign example_commands False False [0, 0, 0] =
     (\<lparr> ck_right = 1, ck_ok = 2, ck_left = 0, ck_options = False, ck_menu_count = 0 \<rparr>, [0, 0, 0])"
  "fplinux_ui_command_keys_collapse
     \<lparr> ck_right = 1, ck_ok = 2, ck_left = 0, ck_options = False, ck_menu_count = 0 \<rparr> [0, 0, 0] =
     (\<lparr> ck_right = 1, ck_ok = 2, ck_left = COMMAND_NONE, ck_options = True, ck_menu_count = 1 \<rparr>, [0, 0, 0])"
  by (simp_all add: fplinux_ui_command_keys_assign_def fplinux_ui_command_keys_collapse_def
      first_with_role_def first_step_def before_def menu_step_def example_commands_def SIZE_MAX_def
      upt_rec)

lemma example_room: "length example_commands \<le> length [0, 0, 0 :: nat]" "length example_commands \<le> SIZE_MAX"
  by (simp_all add: example_commands_def SIZE_MAX_def)

theorem commands_all_placed_witness:
  "keys_ok example_commands
     \<lparr> ck_right = 1, ck_ok = 2, ck_left = COMMAND_NONE, ck_options = True, ck_menu_count = 1 \<rparr> [0, 0, 0]"
  using commands_all_placed [OF example_room example_assigned] by blast

text \<open>
  Indices follow their rows: after rows were inserted the index of a row points at the same
  row; after a deletion it does too, or is none exactly when the row was deleted; the focus stays
  on its row, and when that was deleted it goes to the row that took its place or the new last row.
\<close>

theorem indices_follow_rows:
  assumes "i < length rows" and "length rows + length new \<le> SIZE_MAX"
  shows "(at \<le> length rows \<longrightarrow>
            insert_rows at new rows ! fplinux_ui_index_inserted i at (length new) = rows ! i) \<and>
         (at < length rows \<longrightarrow>
            (if at \<le> i \<and> i < at + n then fplinux_ui_index_deleted i at n = SIZE_MAX
             else delete_rows at n rows ! fplinux_ui_index_deleted i at n = rows ! i)) \<and>
         (at < length rows \<and> delete_rows at n rows \<noteq> [] \<longrightarrow>
            fplinux_ui_focus_deleted i at n (length rows) < length (delete_rows at n rows) \<and>
            (if at \<le> i \<and> i < at + n
             then fplinux_ui_focus_deleted i at n (length rows) =
                    min at (length (delete_rows at n rows) - 1)
             else delete_rows at n rows ! fplinux_ui_focus_deleted i at n (length rows) = rows ! i))"
proof -
  have small: "length rows \<le> SIZE_MAX" using assms(2) by simp
  show ?thesis
  proof (intro conjI impI)
    show "if at \<le> i \<and> i < at + n then fplinux_ui_index_deleted i at n = SIZE_MAX
          else delete_rows at n rows ! fplinux_ui_index_deleted i at n = rows ! i" if "at < length rows"
      using index_deleted_row [OF assms(1) that small, of n] by (meson if_split)
    show "if at \<le> i \<and> i < at + n
          then fplinux_ui_focus_deleted i at n (length rows) = min at (length (delete_rows at n rows) - 1)
          else delete_rows at n rows ! fplinux_ui_focus_deleted i at n (length rows) = rows ! i"
      if "at < length rows \<and> delete_rows at n rows \<noteq> []"
      using focus_deleted_row(2,3) [OF assms(1) _ small] that by (simp only: split: if_split) blast
  qed (use assms small index_inserted_row focus_deleted_row(1) in blast)+
qed

theorem indices_follow_rows_witness:
  "insert_rows 1 ''xy'' ''abc'' ! fplinux_ui_index_inserted 2 1 (length ''xy'') = ''abc'' ! 2"
  using indices_follow_rows [of 2 "''abc''" "''xy''" 1 0] by (simp add: SIZE_MAX_def)

text \<open>
  Moving the focus by a signed number of rows is plain arithmetic in every case the C type
  allows, the most negative number included: modulo the number of rows where the list wraps, and
  cut to the first and the last row where it does not.
\<close>

theorem focus_step_arithmetic:
  assumes "focus < rows" and "- (2 ^ 31) \<le> delta" and "delta < 2 ^ 31"
  shows "int (fplinux_ui_focus_step focus rows delta FOCUS_WRAP) = (int focus + delta) mod int rows \<and>
         int (fplinux_ui_focus_step focus rows delta FOCUS_CLAMP) =
           max 0 (min (int rows - 1) (int focus + delta))"
  using assms by (rule step_arithmetic)

theorem focus_step_arithmetic_witness:
  "int (fplinux_ui_focus_step 1 5 (- (2 ^ 31)) FOCUS_WRAP) = (1 - 2 ^ 31) mod 5"
  using focus_step_arithmetic [of 1 5 "- (2 ^ 31)"] by simp

text \<open>
  A one-line scroll stays within the content and makes progress: it reaches the edge it heads
  for or a line of the grid at least one line further on that leaves at least a whole line before
  the edge; any other scroll covers exactly its distance up to the edges.
\<close>

theorem line_scroll_progress:
  assumes "0 \<le> from" and "from \<le> bottom" and "1 \<le> line"
  shows "(let to = fplinux_ui_line_scroll from line bottom line
          in to = bottom \<or> line dvd to \<and> from + line \<le> to \<and> to < from + 2 * line \<and> to + line \<le> bottom) \<and>
         (let to = fplinux_ui_line_scroll from (- line) bottom line
          in to = 0 \<or> line dvd to \<and> to + line \<le> from \<and> from < to + 2 * line \<and> line \<le> to) \<and>
         (\<bar>step\<bar> \<noteq> line \<longrightarrow>
            fplinux_ui_line_scroll from step bottom line = max 0 (min bottom (from + step)))"
proof (intro conjI)
  show "let to = fplinux_ui_line_scroll from line bottom line
      in to = bottom \<or> line dvd to \<and> from + line \<le> to \<and> to < from + 2 * line \<and> to + line \<le> bottom"
    using round_up_line [of line "from + line"] assms by (simp add: fplinux_ui_line_scroll_def Let_def)
  show "let to = fplinux_ui_line_scroll from (- line) bottom line
      in to = 0 \<or> line dvd to \<and> to + line \<le> from \<and> from < to + 2 * line \<and> line \<le> to"
    using round_down_line [of line "from - line"] assms by (simp add: fplinux_ui_line_scroll_def Let_def)
  show "\<bar>step\<bar> \<noteq> line \<longrightarrow> fplinux_ui_line_scroll from step bottom line = max 0 (min bottom (from + step))"
    using assms by (auto simp: fplinux_ui_line_scroll_def Let_def abs_if)
qed

theorem line_scroll_progress_witness:
  "fplinux_ui_line_scroll 5 7 100 10 = 12 \<and> fplinux_ui_line_scroll 5 10 100 10 = 20"
  using line_scroll_progress [of 5 100 10 7] by (simp add: fplinux_ui_line_scroll_def)

text \<open>
  Scrolling by the distance that is reported brings a span that fits wholly into the view and
  the top of a taller one to the top of the view; a span in view does not move, and no more than a
  step is scrolled beyond what is needed.
\<close>

theorem reveal_scroll_reveals:
  assumes "view_top \<le> view_bottom" and "span_top \<le> span_bottom"
    and "d = fplinux_ui_reveal_scroll view_top view_bottom span_top span_bottom step"
  shows "(if span_bottom - span_top \<le> view_bottom - view_top
          then view_top \<le> span_top + d \<and> span_bottom + d \<le> view_bottom
          else span_top + d = view_top) \<and>
         (view_top \<le> span_top \<and> span_bottom \<le> view_bottom \<longrightarrow> d = 0) \<and>
         \<bar>d\<bar> \<le> max step (max (view_top - span_top) (max (span_bottom - view_bottom) (span_top - view_top)))"
  using assms by (auto simp: fplinux_ui_reveal_scroll_def Let_def split: if_splits)

theorem reveal_scroll_reveals_witness:
  "fplinux_ui_reveal_scroll 0 100 90 120 40 = - 20 \<and>
   0 \<le> 90 + fplinux_ui_reveal_scroll 0 100 90 120 40 \<and>
   120 + fplinux_ui_reveal_scroll 0 100 90 120 40 \<le> 100"
  using reveal_scroll_reveals [of 0 100 90 120 "- 20" 40] by (simp add: fplinux_ui_reveal_scroll_def)

end
