(* ===== verification/Virtual_List.thy ===== *)
theory Virtual_List
  imports Screen_Rules "HOL-Library.Signed_Division"
begin

section \<open>The rows a virtual list shows\<close>

text \<open>
  The window of a virtual list in \<open>lib/fplinux/fplinux-ui-screen-model.c\<close>: which data rows the
  pooled rows (slots) show, where the content is scrolled to, and which slots have to be filled
  again after each operation.  \<open>size_t\<close> is a natural number as in \<open>Screen_Rules\<close>; the 64-bit
  intermediate values cannot overflow and are integers, the conversions back to \<open>int32_t\<close> and
  \<open>size_t\<close> are written out.
\<close>

definition VIRTUAL_SLOTS_MAX :: nat where
  "VIRTUAL_SLOTS_MAX = 16"

record virtual_window =
  vw_count :: nat
  vw_slots :: nat
  vw_pitch :: int
  vw_view :: int
  vw_focus :: nat
  vw_top :: int
  vw_first :: nat
  vw_bound :: "nat list"

definition int32 :: "int \<Rightarrow> int" where
  "int32 x = signed_take_bit 31 x"

definition top_max :: "virtual_window \<Rightarrow> int" where
  "top_max w = (let over = int (vw_count w) * vw_pitch w - vw_view w in if 0 < over then over else 0)"

definition show_focus :: "virtual_window \<Rightarrow> int \<Rightarrow> virtual_window" where
  "show_focus w y =
     (let high = top_max w;
          y = (if y < 0 then 0 else if high < y then high else y);
          row = int (vw_focus w) * vw_pitch w;
          y = (if vw_focus w \<noteq> SIZE_MAX
                    then if row < y then row
                         else if y + vw_view w < row + vw_pitch w
                         then row + vw_pitch w - vw_view w else y
                    else y)
      in w\<lparr> vw_top := int32 y \<rparr>)"

definition focus_offset :: "virtual_window \<Rightarrow> int" where
  "focus_offset w =
     (if vw_focus w = SIZE_MAX then 0 else int (vw_focus w) * vw_pitch w - vw_top w)"

definition keep_focus :: "virtual_window \<Rightarrow> int \<Rightarrow> virtual_window" where
  "keep_focus w offset =
     (if vw_focus w = SIZE_MAX then show_focus w 0
      else show_focus w (int (vw_focus w) * vw_pitch w - offset))"

definition pool_size :: "virtual_window \<Rightarrow> nat" where
  "pool_size w =
     (let slots = 1;
          slots = (if 0 < vw_view w then slots + nat ((vw_view w + vw_pitch w - 2) sdiv vw_pitch w) else slots);
          slots = (if VIRTUAL_SLOTS_MAX < slots then VIRTUAL_SLOTS_MAX else slots)
      in if slots < vw_count w then slots else vw_count w)"

text \<open>The data row of a slot, and the test that puts a slot on the list to be filled again.\<close>

definition slot_row :: "nat \<Rightarrow> nat \<Rightarrow> nat \<Rightarrow> nat" where
  "slot_row first slots slot =
     (if slot < slots then first + (slot + slots - first mod slots) mod slots else SIZE_MAX)"

definition must_rebind :: "nat \<Rightarrow> nat \<Rightarrow> nat \<Rightarrow> nat \<Rightarrow> bool" where
  "must_rebind dirty changed old row \<longleftrightarrow>
     row \<noteq> old \<or> row \<noteq> SIZE_MAX \<and> dirty \<le> row \<and> row - dirty < changed"

definition bind_window :: "virtual_window \<Rightarrow> nat \<Rightarrow> nat \<Rightarrow> virtual_window \<times> nat list" where
  "bind_window w dirty changed =
     (let slots = pool_size w;
          first = nat ((vw_top w sdiv vw_pitch w) mod 2 ^ 32);
          first = (if vw_count w - slots < first then vw_count w - slots else first);
          rows = map (slot_row first slots) [0..<VIRTUAL_SLOTS_MAX]
      in (w\<lparr> vw_slots := slots, vw_first := first, vw_bound := rows \<rparr>,
          filter (\<lambda>slot. must_rebind dirty changed (vw_bound w ! slot) (rows ! slot)) [0..<VIRTUAL_SLOTS_MAX]))"

subsection \<open>The operations\<close>

definition fplinux_ui_virtual_init :: "nat \<Rightarrow> int \<Rightarrow> int \<Rightarrow> virtual_window \<times> nat list" where
  "fplinux_ui_virtual_init count pitch view =
     bind_window
       \<lparr> vw_count = count, vw_slots = 0, vw_pitch = (if 0 < pitch then pitch else 1),
         vw_view = (if 0 < view then view else 0),
         vw_focus = (if count \<noteq> 0 then 0 else SIZE_MAX), vw_top = 0, vw_first = 0,
         vw_bound = replicate VIRTUAL_SLOTS_MAX SIZE_MAX \<rparr> 0 0"

definition fplinux_ui_virtual_set_focus :: "virtual_window \<Rightarrow> nat \<Rightarrow> virtual_window \<times> nat list" where
  "fplinux_ui_virtual_set_focus w focus =
     (if vw_count w \<le> focus then (w, [])
      else let w = w\<lparr> vw_focus := focus \<rparr> in bind_window (show_focus w (vw_top w)) 0 0)"

definition fplinux_ui_virtual_set_top :: "virtual_window \<Rightarrow> nat \<Rightarrow> virtual_window \<times> nat list" where
  "fplinux_ui_virtual_set_top w row =
     (if vw_count w = 0 then (w, [])
      else let row = (if vw_count w \<le> row then vw_count w - 1 else row)
           in bind_window (show_focus w (int row * vw_pitch w)) 0 0)"

definition fplinux_ui_virtual_inserted :: "virtual_window \<Rightarrow> nat \<Rightarrow> nat \<Rightarrow> virtual_window \<times> nat list" where
  "fplinux_ui_virtual_inserted w at count =
     (let offset = focus_offset w
      in if count = 0 \<or> vw_count w < at then (w, [])
         else let w = w\<lparr> vw_count := (vw_count w + count) mod 2 ^ 32,
                         vw_focus := (if vw_focus w = SIZE_MAX then 0
                                      else fplinux_ui_index_inserted (vw_focus w) at count) \<rparr>
              in bind_window (keep_focus w offset) at SIZE_MAX)"

definition fplinux_ui_virtual_deleted :: "virtual_window \<Rightarrow> nat \<Rightarrow> nat \<Rightarrow> virtual_window \<times> nat list" where
  "fplinux_ui_virtual_deleted w at count =
     (let offset = focus_offset w
      in if count = 0 \<or> vw_count w \<le> at then (w, [])
         else let count = (if vw_count w - at < count then vw_count w - at else count);
                  w = w\<lparr> vw_focus := fplinux_ui_focus_deleted (vw_focus w) at count (vw_count w),
                         vw_count := vw_count w - count \<rparr>
              in bind_window (keep_focus w offset) at SIZE_MAX)"

definition fplinux_ui_virtual_invalidate :: "virtual_window \<Rightarrow> nat \<Rightarrow> nat \<Rightarrow> virtual_window \<times> nat list" where
  "fplinux_ui_virtual_invalidate w first count = bind_window w first count"

definition fplinux_ui_virtual_resize :: "virtual_window \<Rightarrow> int \<Rightarrow> int \<Rightarrow> virtual_window \<times> nat list" where
  "fplinux_ui_virtual_resize w pitch view =
     (let offset = focus_offset w;
          pitch = (if 0 < pitch then pitch else 1);
          moved = (pitch \<noteq> vw_pitch w);
          w = w\<lparr> vw_pitch := pitch, vw_view := (if 0 < view then view else 0) \<rparr>
      in bind_window (keep_focus w offset) 0 (if moved then SIZE_MAX else 0))"

subsection \<open>The invariant\<close>

text \<open>
  The header asks that \<open>count * pitch\<close> fits \<open>int32_t\<close>.  Then the window is within the
  content and, where the view is high enough for a row, shows the focused row wholly; a smaller
  view lies within the focused row.
\<close>

definition geometry_ok :: "virtual_window \<Rightarrow> bool" where
  "geometry_ok w \<longleftrightarrow>
     0 < vw_pitch w \<and> vw_pitch w < 2 ^ 31 \<and> 0 \<le> vw_view w \<and> vw_view w < 2 ^ 31 \<and>
     int (vw_count w) * vw_pitch w < 2 ^ 31 \<and>
     (if vw_count w = 0 then vw_focus w = SIZE_MAX else vw_focus w < vw_count w)"

definition focus_shown :: "virtual_window \<Rightarrow> bool" where
  "focus_shown w \<longleftrightarrow>
     (let row = int (vw_focus w) * vw_pitch w
      in if vw_pitch w \<le> vw_view w
         then vw_top w \<le> row \<and> row + vw_pitch w \<le> vw_top w + vw_view w
         else row \<le> vw_top w \<and> vw_top w + vw_view w \<le> row + vw_pitch w)"

definition window_placed :: "virtual_window \<Rightarrow> bool" where
  "window_placed w \<longleftrightarrow>
     geometry_ok w \<and> 0 \<le> vw_top w \<and> vw_top w \<le> top_max w \<and> (vw_count w \<noteq> 0 \<longrightarrow> focus_shown w)"

definition window_bound :: "virtual_window \<Rightarrow> bool" where
  "window_bound w \<longleftrightarrow>
     vw_slots w = pool_size w \<and>
     vw_first w = min (nat (vw_top w div vw_pitch w)) (vw_count w - vw_slots w) \<and>
     vw_bound w = map (slot_row (vw_first w) (vw_slots w)) [0..<VIRTUAL_SLOTS_MAX]"

definition window_ok :: "virtual_window \<Rightarrow> bool" where
  "window_ok w \<longleftrightarrow> window_placed w \<and> window_bound w"

lemma int32_id [simp]: "0 \<le> x \<Longrightarrow> x < 2 ^ 31 \<Longrightarrow> int32 x = x"
  unfolding int32_def by (rule signed_take_bit_int_eq_self) simp_all

lemma sdiv_div: "0 \<le> a \<Longrightarrow> 0 < b \<Longrightarrow> a sdiv b = a div (b :: int)"
  by (auto simp: signed_divide_int_def sgn_if)

lemma count_small:
  assumes "geometry_ok w"
  shows "int (vw_count w) < 2 ^ 31" "vw_count w < SIZE_MAX"
proof -
  have "int (vw_count w) * 1 \<le> int (vw_count w) * vw_pitch w"
    using assms by (intro mult_left_mono) (auto simp: geometry_ok_def)
  then show *: "int (vw_count w) < 2 ^ 31" using assms by (simp add: geometry_ok_def)
  then show "vw_count w < SIZE_MAX" by (simp add: SIZE_MAX_def)
qed

lemma focus_row:
  assumes "geometry_ok w" "vw_count w \<noteq> 0"
  shows "0 \<le> int (vw_focus w) * vw_pitch w"
    "int (vw_focus w) * vw_pitch w + vw_pitch w \<le> int (vw_count w) * vw_pitch w"
    "vw_focus w \<noteq> SIZE_MAX"
proof -
  have "int (vw_focus w) + 1 \<le> int (vw_count w)" and p: "0 < vw_pitch w"
    using assms by (auto simp: geometry_ok_def)
  then have "(int (vw_focus w) + 1) * vw_pitch w \<le> int (vw_count w) * vw_pitch w"
    by (intro mult_right_mono) auto
  then show "int (vw_focus w) * vw_pitch w + vw_pitch w \<le> int (vw_count w) * vw_pitch w"
    by (simp add: distrib_right)
  show "0 \<le> int (vw_focus w) * vw_pitch w" using p by simp
  show "vw_focus w \<noteq> SIZE_MAX" using assms count_small(2) [OF assms(1)] by (auto simp: geometry_ok_def)
qed

text \<open>Where \<open>show_focus\<close> scrolls to, before the conversion to \<open>int32_t\<close>.\<close>

definition shown_top :: "virtual_window \<Rightarrow> int \<Rightarrow> int" where
  "shown_top w y =
     (let t = max 0 (min (top_max w) y); row = int (vw_focus w) * vw_pitch w
      in if vw_count w = 0 then t
         else if row < t then row else max t (row + vw_pitch w - vw_view w))"

lemma show_focus_top:
  assumes "geometry_ok w"
  shows "show_focus w t = w\<lparr> vw_top := shown_top w t \<rparr>"
    and "0 \<le> shown_top w t" and "shown_top w t \<le> top_max w"
proof -
  show b: "0 \<le> shown_top w t" "shown_top w t \<le> top_max w"
    using assms focus_row [OF assms]
    by (auto simp: shown_top_def top_max_def geometry_ok_def Let_def)
  then have "shown_top w t < 2 ^ 31"
    using assms by (auto simp: top_max_def geometry_ok_def Let_def split: if_splits)
  with b(1) have id: "int32 (shown_top w t) = shown_top w t" by simp
  have high: "0 \<le> top_max w" by (simp add: top_max_def Let_def)
  show "show_focus w t = w\<lparr> vw_top := shown_top w t \<rparr>"
  proof (cases "vw_count w = 0")
    case True
    then have "vw_focus w = SIZE_MAX" using assms by (simp add: geometry_ok_def)
    then show ?thesis
      using True high by (subst id [symmetric]) (auto simp: show_focus_def shown_top_def Let_def)
  next
    case False
    then show ?thesis
      using focus_row(3) [OF assms] high
      by (subst id [symmetric]) (auto simp: show_focus_def shown_top_def Let_def)
  qed
qed

lemma show_focus_placed:
  assumes "geometry_ok w"
  shows "window_placed (show_focus w t)"
proof -
  note top = show_focus_top [OF assms, of t]
  have "geometry_ok (w\<lparr> vw_top := shown_top w t \<rparr>)" using assms by (simp add: geometry_ok_def)
  moreover have "top_max (w\<lparr> vw_top := shown_top w t \<rparr>) = top_max w" by (simp add: top_max_def)
  moreover have "focus_shown (w\<lparr> vw_top := shown_top w t \<rparr>)" if "vw_count w \<noteq> 0"
    using that by (auto simp: focus_shown_def shown_top_def Let_def)
  ultimately show ?thesis using top by (simp add: window_placed_def)
qed

lemma keep_focus_placed: "geometry_ok w \<Longrightarrow> window_placed (keep_focus w offset)"
  by (simp add: keep_focus_def show_focus_placed)

subsection \<open>The pool\<close>

text \<open>The most rows the view shows in part, without the limits of the pool.\<close>

definition rows_in_view :: "virtual_window \<Rightarrow> nat" where
  "rows_in_view w = (if 0 < vw_view w then nat ((vw_view w + vw_pitch w - 2) div vw_pitch w) + 1 else 1)"

lemma pool_size_min:
  assumes "geometry_ok w"
  shows "pool_size w = min (min VIRTUAL_SLOTS_MAX (rows_in_view w)) (vw_count w)"
proof -
  have "(vw_view w + vw_pitch w - 2) sdiv vw_pitch w = (vw_view w + vw_pitch w - 2) div vw_pitch w"
    if "0 < vw_view w"
    using assms that by (intro sdiv_div) (auto simp: geometry_ok_def)
  then show ?thesis by (simp add: pool_size_def rows_in_view_def Let_def min_def)
qed

lemma pool_size_bounds:
  assumes "geometry_ok w"
  shows "pool_size w \<le> vw_count w" "pool_size w \<le> VIRTUAL_SLOTS_MAX" "vw_count w \<noteq> 0 \<Longrightarrow> 0 < pool_size w"
  by (auto simp: pool_size_min [OF assms] rows_in_view_def VIRTUAL_SLOTS_MAX_def)

lemma bind_window_fields:
  "vw_count (fst (bind_window w d c)) = vw_count w" "vw_pitch (fst (bind_window w d c)) = vw_pitch w"
  "vw_view (fst (bind_window w d c)) = vw_view w" "vw_focus (fst (bind_window w d c)) = vw_focus w"
  "vw_top (fst (bind_window w d c)) = vw_top w"
  by (simp_all add: bind_window_def Let_def)

lemma bind_window_rebind:
  "snd (bind_window w d c) =
     filter (\<lambda>slot. must_rebind d c (vw_bound w ! slot) (vw_bound (fst (bind_window w d c)) ! slot))
       [0..<VIRTUAL_SLOTS_MAX]"
  by (simp add: bind_window_def Let_def)

lemma bind_window_ok:
  assumes "window_placed w"
  shows "window_ok (fst (bind_window w d c))"
proof -
  have g: "geometry_ok w" and t: "0 \<le> vw_top w" "vw_top w \<le> top_max w"
    using assms by (auto simp: window_placed_def)
  have p: "0 < vw_pitch w" using g by (simp add: geometry_ok_def)
  have "vw_top w div vw_pitch w \<le> vw_top w" using zdiv_mono2 [of "vw_top w" 1 "vw_pitch w"] t(1) p by simp
  moreover have "vw_top w < 2 ^ 31"
    using t g by (auto simp: top_max_def geometry_ok_def Let_def split: if_splits)
  moreover have "0 \<le> vw_top w div vw_pitch w" using t(1) p by (simp add: pos_imp_zdiv_nonneg_iff)
  ultimately have first: "(vw_top w sdiv vw_pitch w) mod 2 ^ 32 = vw_top w div vw_pitch w"
    using t(1) p by (simp add: sdiv_div)
  let ?w = "fst (bind_window w d c)"
  have same: "geometry_ok ?w = geometry_ok w" "focus_shown ?w = focus_shown w" "top_max ?w = top_max w"
    "pool_size ?w = pool_size w"
    unfolding geometry_ok_def focus_shown_def top_max_def pool_size_def by (simp_all add: bind_window_fields)
  have "window_placed ?w"
    using assms unfolding window_placed_def same bind_window_fields .
  moreover have "window_bound ?w"
    unfolding window_bound_def same bind_window_fields
    unfolding bind_window_def Let_def first by (simp add: min_def del: upt_Suc)
  ultimately show ?thesis by (simp add: window_ok_def)
qed

lemma slot_row_mod:
  assumes "first \<le> r" and "r < first + slots"
  shows "slot_row first slots (r mod slots) = r"
proof -
  define k where "k = r - first"
  have r: "r = first + k" and k: "k < slots" using assms by (auto simp: k_def)
  have "(r mod slots + slots - first mod slots) mod slots = ((first + k) mod slots + (slots - first mod slots)) mod slots"
    using k unfolding r by simp
  also have "\<dots> = (first mod slots + (slots - first mod slots) + k) mod slots"
    by (metis (no_types, lifting) add.assoc add.commute mod_add_left_eq)
  also have "first mod slots + (slots - first mod slots) = slots" using k by (simp add: less_imp_le)
  finally show ?thesis using k r by (simp add: slot_row_def)
qed

lemma slot_row_range:
  assumes "slot < slots"
  shows "first \<le> slot_row first slots slot" "slot_row first slots slot < first + slots"
    "slot_row first slots slot mod slots = slot"
proof -
  show "first \<le> slot_row first slots slot" "slot_row first slots slot < first + slots"
    using assms by (auto simp: slot_row_def)
  have "first mod slots < slots" using assms by (intro mod_less_divisor) simp
  then have le: "first mod slots \<le> slot + slots" by simp
  have "slot_row first slots slot mod slots = (first + (slot + slots - first mod slots)) mod slots"
    using assms by (simp add: slot_row_def mod_add_right_eq)
  also have "\<dots> = (first mod slots + (slot + slots - first mod slots)) mod slots" by (simp add: mod_add_left_eq)
  also have "\<dots> = (slot + slots) mod slots" using le by simp
  finally show "slot_row first slots slot mod slots = slot" using assms by simp
qed

lemma bound_nth:
  assumes "window_ok w" and "slot < VIRTUAL_SLOTS_MAX"
  shows "vw_bound w ! slot = slot_row (vw_first w) (vw_slots w) slot"
  using assms by (simp add: window_ok_def window_bound_def)

lemma window_okD:
  assumes "window_ok w"
  shows "geometry_ok w" "vw_slots w = pool_size w" "vw_first w + vw_slots w \<le> vw_count w"
    "vw_slots w \<le> VIRTUAL_SLOTS_MAX" "length (vw_bound w) = VIRTUAL_SLOTS_MAX"
    "vw_first w = min (nat (vw_top w div vw_pitch w)) (vw_count w - vw_slots w)"
  using assms pool_size_bounds [of w]
  by (auto simp: window_ok_def window_placed_def window_bound_def min_def)

lemma visible_in_pool:
  assumes ok: "window_ok w" and r: "r < vw_count w" and small: "rows_in_view w \<le> VIRTUAL_SLOTS_MAX"
    and above: "vw_top w < (int r + 1) * vw_pitch w" and below: "int r * vw_pitch w < vw_top w + vw_view w"
  shows "vw_first w \<le> r" and "r < vw_first w + vw_slots w"
proof -
  note g = window_okD(1) [OF ok]
  have p: "0 < vw_pitch w" and t: "0 \<le> vw_top w" using g ok by (auto simp: geometry_ok_def window_ok_def window_placed_def)
  let ?q = "vw_top w div vw_pitch w"
  have "?q * vw_pitch w + vw_top w mod vw_pitch w = vw_top w" "vw_top w mod vw_pitch w < vw_pitch w"
    "0 \<le> vw_top w mod vw_pitch w"
    using p by simp_all
  then have q: "vw_top w \<le> ?q * vw_pitch w + vw_pitch w - 1" "?q * vw_pitch w \<le> vw_top w" by linarith+
  have "?q * vw_pitch w < (int r + 1) * vw_pitch w" using above q(2) by linarith
  then have "?q < int r + 1" using p by (simp add: mult_less_cancel_right_pos)
  then show "vw_first w \<le> r" unfolding window_okD(6) [OF ok] by simp
  have "int r \<le> ?q + int (rows_in_view w) - 1"
  proof (cases "0 < vw_view w")
    case True
    then have "(int r - ?q) * vw_pitch w \<le> vw_view w + vw_pitch w - 2"
      using below q(1) by (simp add: left_diff_distrib)
    from zdiv_mono1 [OF this p] have "int r - ?q \<le> (vw_view w + vw_pitch w - 2) div vw_pitch w"
      using p by simp
    then show ?thesis using True p by (simp add: rows_in_view_def pos_imp_zdiv_nonneg_iff)
  next
    case False
    then have "int r * vw_pitch w < (?q + 1) * vw_pitch w" using below q(1) by (simp add: distrib_right)
    then have "int r < ?q + 1" using p by (simp add: mult_less_cancel_right_pos)
    then show ?thesis using False by (simp add: rows_in_view_def)
  qed
  then have "r < nat ?q + rows_in_view w" using t p by (simp add: pos_imp_zdiv_nonneg_iff)
  moreover have "pool_size w = min (rows_in_view w) (vw_count w)"
    using small by (simp add: pool_size_min [OF g])
  ultimately show "r < vw_first w + vw_slots w"
    unfolding window_okD(6) [OF ok] window_okD(2) [OF ok] using r by (simp add: min_def split: if_splits)
qed


subsection \<open>Every operation keeps the invariant\<close>

lemma show_focus_fields [simp]:
  "vw_count (show_focus w t) = vw_count w" "vw_pitch (show_focus w t) = vw_pitch w"
  "vw_view (show_focus w t) = vw_view w" "vw_focus (show_focus w t) = vw_focus w"
  "vw_bound (show_focus w t) = vw_bound w"
  by (simp_all add: show_focus_def Let_def)

lemma keep_focus_fields [simp]:
  "vw_count (keep_focus w t) = vw_count w" "vw_pitch (keep_focus w t) = vw_pitch w"
  "vw_view (keep_focus w t) = vw_view w" "vw_focus (keep_focus w t) = vw_focus w"
  "vw_bound (keep_focus w t) = vw_bound w"
  by (simp_all add: keep_focus_def)

lemma window_init_ok [inv_intros]:
  assumes "pitch < 2 ^ 31" and "view < 2 ^ 31" and "int n * max 1 pitch < 2 ^ 31"
  shows "window_ok (fst (fplinux_ui_virtual_init n pitch view))"
  unfolding fplinux_ui_virtual_init_def
proof (rule bind_window_ok)
  have "vw_pitch v = max 1 pitch \<Longrightarrow> int n * vw_pitch v < 2 ^ 31" for v using assms(3) by simp
  moreover have "(if 0 < pitch then pitch else 1) = max 1 pitch" by simp
  ultimately show "window_placed \<lparr> vw_count = n, vw_slots = 0, vw_pitch = (if 0 < pitch then pitch else 1),
      vw_view = (if 0 < view then view else 0), vw_focus = (if n \<noteq> 0 then 0 else SIZE_MAX),
      vw_top = 0, vw_first = 0, vw_bound = replicate VIRTUAL_SLOTS_MAX SIZE_MAX \<rparr>"
    using assms by (auto simp: window_placed_def geometry_ok_def focus_shown_def top_max_def Let_def)
qed

lemma set_focus_ok [inv_intros]:
  "window_ok w \<Longrightarrow> window_ok (fst (fplinux_ui_virtual_set_focus w f))"
  unfolding fplinux_ui_virtual_set_focus_def Let_def
  by (auto dest!: window_okD(1) intro!: bind_window_ok show_focus_placed simp: geometry_ok_def)

lemma set_top_ok [inv_intros]:
  "window_ok w \<Longrightarrow> window_ok (fst (fplinux_ui_virtual_set_top w r))"
  unfolding fplinux_ui_virtual_set_top_def Let_def
  by (auto dest: window_okD(1) intro!: bind_window_ok show_focus_placed)

lemma index_inserted_less:
  "i < n \<Longrightarrow> n + m \<le> SIZE_MAX \<Longrightarrow> fplinux_ui_index_inserted i at m < n + m"
  by (simp add: fplinux_ui_index_inserted_def SIZE_MAX_def)

lemma inserted_ok [inv_intros]:
  assumes "window_ok w" and "int (vw_count w + n) * vw_pitch w < 2 ^ 31"
  shows "window_ok (fst (fplinux_ui_virtual_inserted w at n))"
proof -
  note g = window_okD(1) [OF assms(1)]
  have "int (vw_count w + n) * 1 \<le> int (vw_count w + n) * vw_pitch w"
    using g by (intro mult_left_mono) (auto simp: geometry_ok_def)
  then have small: "vw_count w + n < 2 ^ 31" using assms(2) by simp
  let ?w = "w\<lparr> vw_count := (vw_count w + n) mod 2 ^ 32,
      vw_focus := (if vw_focus w = SIZE_MAX then 0 else fplinux_ui_index_inserted (vw_focus w) at n) \<rparr>"
  have "geometry_ok ?w" if "n \<noteq> 0"
    using g that assms(2) small count_small [OF g] index_inserted_less [of "vw_focus w" "vw_count w" n at]
    by (auto simp: geometry_ok_def SIZE_MAX_def split: if_splits)
  then show ?thesis
    using assms(1) unfolding fplinux_ui_virtual_inserted_def Let_def
    by (auto intro!: bind_window_ok keep_focus_placed)
qed

lemma focus_deleted_less:
  assumes "f < n" "n \<le> SIZE_MAX" "at < n" "m \<le> n - at" "m \<noteq> n"
  shows "fplinux_ui_focus_deleted f at m n < n - m"
proof -
  have "0 < at \<or> \<not> n \<le> at + m" using assms(3-5) by linarith
  then show ?thesis
    using focus_deleted_row(1) [of f "replicate n ()" at m] assms
    by (simp add: length_delete_rows delete_rows_def split: if_splits)
qed

lemma geometry_fewer:
  assumes "geometry_ok w" and "m \<le> vw_count w" and "if m = 0 then f = SIZE_MAX else f < m"
  shows "geometry_ok (w\<lparr> vw_focus := f, vw_count := m \<rparr>)"
proof -
  have "int m * vw_pitch w \<le> int (vw_count w) * vw_pitch w"
    using assms(1,2) by (intro mult_right_mono) (auto simp: geometry_ok_def)
  then have "int m * vw_pitch w < 2 ^ 31" using assms(1) unfolding geometry_ok_def by linarith
  then show ?thesis using assms unfolding geometry_ok_def by simp
qed

lemma deleted_ok [inv_intros]:
  assumes "window_ok w"
  shows "window_ok (fst (fplinux_ui_virtual_deleted w at n))"
proof -
  note g = window_okD(1) [OF assms(1)]
  let ?n = "if vw_count w - at < n then vw_count w - at else n"
  let ?w = "w\<lparr> vw_focus := fplinux_ui_focus_deleted (vw_focus w) at ?n (vw_count w),
      vw_count := vw_count w - ?n \<rparr>"
  have "geometry_ok ?w" if "at < vw_count w" "n \<noteq> 0"
  proof -
    have f: "vw_focus w < vw_count w" using g that by (auto simp: geometry_ok_def)
    have "if vw_count w - ?n = 0 then fplinux_ui_focus_deleted (vw_focus w) at ?n (vw_count w) = SIZE_MAX
        else fplinux_ui_focus_deleted (vw_focus w) at ?n (vw_count w) < vw_count w - ?n"
    proof (cases "?n = vw_count w")
      case True
      then have "at = 0" using that by (simp split: if_splits)
      then show ?thesis using that True by (simp add: fplinux_ui_focus_deleted_def)
    next
      case False
      then have "0 < vw_count w - ?n" using that by auto
      then show ?thesis
        using focus_deleted_less [OF f _ that(1) _ False] count_small(2) [OF g] by simp
    qed
    then show ?thesis by (intro geometry_fewer [OF g]) simp_all
  qed
  then show ?thesis
    using assms(1) unfolding fplinux_ui_virtual_deleted_def Let_def
    by (auto intro!: bind_window_ok keep_focus_placed)
qed

lemma invalidate_ok [inv_intros]:
  "window_ok w \<Longrightarrow> window_ok (fst (fplinux_ui_virtual_invalidate w f n))"
  unfolding fplinux_ui_virtual_invalidate_def by (rule bind_window_ok) (simp add: window_ok_def)

lemma resize_ok [inv_intros]:
  assumes "window_ok w" and "pitch < 2 ^ 31" and "view < 2 ^ 31" and "int (vw_count w) * max 1 pitch < 2 ^ 31"
  shows "window_ok (fst (fplinux_ui_virtual_resize w pitch view))"
proof -
  have p: "(if 0 < pitch then pitch else 1) = max 1 pitch" by simp
  have "geometry_ok (w\<lparr> vw_pitch := max 1 pitch, vw_view := (if 0 < view then view else 0) \<rparr>)"
    using window_okD(1) [OF assms(1)] assms(2-4) by (auto simp: geometry_ok_def)
  then show ?thesis
    unfolding fplinux_ui_virtual_resize_def Let_def p by (intro bind_window_ok keep_focus_placed)
qed


subsection \<open>Reachable windows\<close>

inductive window_step :: "virtual_window \<Rightarrow> virtual_window \<Rightarrow> bool" where
  step_focus: "window_step w (fst (fplinux_ui_virtual_set_focus w f))"
| step_top: "window_step w (fst (fplinux_ui_virtual_set_top w r))"
| step_inserted: "int (vw_count w + n) * vw_pitch w < 2 ^ 31 \<Longrightarrow>
    window_step w (fst (fplinux_ui_virtual_inserted w at n))"
| step_deleted: "window_step w (fst (fplinux_ui_virtual_deleted w at n))"
| step_invalidate: "window_step w (fst (fplinux_ui_virtual_invalidate w f n))"
| step_resize: "\<lbrakk> pitch < 2 ^ 31; view < 2 ^ 31; int (vw_count w) * max 1 pitch < 2 ^ 31 \<rbrakk> \<Longrightarrow>
    window_step w (fst (fplinux_ui_virtual_resize w pitch view))"

inductive window_initial :: "virtual_window \<Rightarrow> bool" where
  "\<lbrakk> pitch < 2 ^ 31; view < 2 ^ 31; int n * max 1 pitch < 2 ^ 31 \<rbrakk> \<Longrightarrow>
   window_initial (fst (fplinux_ui_virtual_init n pitch view))"

interpretation window: transition_system window_initial window_step window_ok
proof
  show "window_initial w \<Longrightarrow> window_ok w" for w by (induction rule: window_initial.induct) (rule window_init_ok)
  show "window_ok w'" if "window_ok w" and "window_step w w'" for w w'
    using that(2,1) by (induction rule: window_step.induct) (auto intro: inv_intros)
qed

subsection \<open>Moving by one row\<close>

lemma slot_row_next:
  assumes "slot \<noteq> first mod slots"
  shows "slot_row (Suc first) slots slot = slot_row first slots slot"
proof (cases "slot < slots")
  case True
  let ?r = "slot_row first slots slot"
  note r = slot_row_range [OF True, of first]
  have "?r \<noteq> first" using r(3) assms by auto
  then have "Suc first \<le> ?r" "?r < Suc first + slots" using r(1,2) by auto
  from slot_row_mod [OF this] r(3) show ?thesis by simp
qed (simp add: slot_row_def)

definition rows_bound :: "nat \<Rightarrow> nat \<Rightarrow> nat list" where
  "rows_bound first slots = map (slot_row first slots) [0..<VIRTUAL_SLOTS_MAX]"

lemma length_rows_bound [simp]: "length (rows_bound first slots) = VIRTUAL_SLOTS_MAX"
  by (simp add: rows_bound_def)

lemma rows_bound_nth [simp]: "slot < VIRTUAL_SLOTS_MAX \<Longrightarrow> rows_bound first slots ! slot = slot_row first slots slot"
  by (simp add: rows_bound_def)

text \<open>The slots whose row differs between two places of a pool of the same size.\<close>

lemma few_slots_differ:
  assumes "a = b \<or> a = Suc b \<or> b = Suc a \<or> slots \<le> 1"
  shows "length (filter (\<lambda>slot. rows_bound a slots ! slot \<noteq> rows_bound b slots ! slot) [0..<VIRTUAL_SLOTS_MAX]) \<le> 1"
proof -
  obtain k where k: "\<And>slot. slot_row a slots slot \<noteq> slot_row b slots slot \<Longrightarrow> slot = k"
  proof (cases "slots \<le> 1")
    case True
    then have "slot_row a slots slot \<noteq> slot_row b slots slot \<Longrightarrow> slot = 0" for slot
      by (auto simp: slot_row_def split: if_splits)
    then show ?thesis by (rule that)
  next
    case False
    then consider "a = b" | "a = Suc b" | "b = Suc a" using assms by blast
    then show ?thesis
    proof cases
      case 2
      then show ?thesis using slot_row_next [of _ b slots] by (intro that [of "b mod slots"]) metis
    next
      case 3
      then show ?thesis using slot_row_next [of _ a slots] by (intro that [of "a mod slots"]) metis
    qed (rule that [of 0], simp)
  qed
  let ?l = "filter (\<lambda>slot. rows_bound a slots ! slot \<noteq> rows_bound b slots ! slot) [0..<VIRTUAL_SLOTS_MAX]"
  have "set ?l \<subseteq> {k}" using k by auto
  moreover have "card (set ?l) = length ?l" by (intro distinct_card) simp
  ultimately show ?thesis using card_mono [of "{k}" "set ?l"] by simp
qed

lemma div_near:
  assumes "0 < p" and "\<bar>s - t\<bar> \<le> (p :: int)"
  shows "\<bar>s div p - t div p\<bar> \<le> 1"
proof -
  have "t div p \<le> (s + p) div p" "s div p \<le> (t + p) div p"
    using assms by (auto intro!: zdiv_mono1)
  moreover have "(s + p) div p = s div p + 1" "(t + p) div p = t div p + 1"
    using assms(1) by (auto intro!: div_add_self2)
  ultimately show ?thesis by linarith
qed

text \<open>The pages of two tops differ by at most one row when the focus moves by one row.\<close>

lemma top_pages_near:
  assumes w: "window_placed w" and w': "window_placed w'"
    and same: "vw_pitch w' = vw_pitch w" "vw_view w' = vw_view w" "vw_count w' = vw_count w"
    and near: "vw_focus w' = Suc (vw_focus w) \<or> vw_focus w = Suc (vw_focus w')"
    and count: "vw_count w \<noteq> 0" and view: "0 < vw_view w"
    and least: "vw_pitch w \<le> vw_view w \<Longrightarrow> \<bar>vw_top w' - vw_top w\<bar> \<le> vw_pitch w"
  shows "\<bar>vw_top w' div vw_pitch w - vw_top w div vw_pitch w\<bar> \<le> 1"
proof (cases "vw_pitch w \<le> vw_view w")
  case True
  have "0 < vw_pitch w" using w by (simp add: window_placed_def geometry_ok_def)
  then show ?thesis using least [OF True] by (intro div_near) auto
next
  case False
  have p: "0 < vw_pitch w" using w by (simp add: window_placed_def geometry_ok_def)
  have page: "vw_top v div vw_pitch v = int (vw_focus v)"
    if "window_placed v" "\<not> vw_pitch v \<le> vw_view v" "0 < vw_view v" "vw_count v \<noteq> 0" "0 < vw_pitch v" for v
  proof -
    have "int (vw_focus v) * vw_pitch v \<le> vw_top v" "vw_top v < int (vw_focus v) * vw_pitch v + vw_pitch v"
      using that by (auto simp: window_placed_def focus_shown_def Let_def)
    then have "vw_top v - int (vw_focus v) * vw_pitch v < vw_pitch v" "0 \<le> vw_top v - int (vw_focus v) * vw_pitch v"
      by linarith+
    then have "(vw_top v - int (vw_focus v) * vw_pitch v) div vw_pitch v = 0" by simp
    moreover have "(vw_top v - int (vw_focus v) * vw_pitch v + int (vw_focus v) * vw_pitch v) div vw_pitch v =
        int (vw_focus v) + (vw_top v - int (vw_focus v) * vw_pitch v) div vw_pitch v"
      using that(5) by (intro div_mult_self1) simp
    ultimately show ?thesis by simp
  qed
  show ?thesis using page [OF w] page [OF w'] False p view count near same by auto
qed


text \<open>Keeping the scroll position and moving the focus by one row scrolls by at most one row.\<close>

lemma shown_top_near:
  assumes ok: "window_placed w" and f: "f < vw_count w"
    and near: "f = Suc (vw_focus w) \<or> vw_focus w = Suc f" and view: "vw_pitch w \<le> vw_view w"
  shows "\<bar>shown_top (w\<lparr> vw_focus := f \<rparr>) (vw_top w) - vw_top w\<bar> \<le> vw_pitch w"
proof -
  have rows: "int f * vw_pitch w = int (vw_focus w) * vw_pitch w + vw_pitch w \<or>
      int f * vw_pitch w = int (vw_focus w) * vw_pitch w - vw_pitch w"
    using near by (auto simp: distrib_right)
  have t: "0 \<le> vw_top w" "vw_top w \<le> top_max w" "0 < vw_pitch w"
    "vw_top w \<le> int (vw_focus w) * vw_pitch w" "int (vw_focus w) * vw_pitch w + vw_pitch w \<le> vw_top w + vw_view w"
    using ok view f by (auto simp: window_placed_def geometry_ok_def focus_shown_def Let_def)
  have "top_max (w\<lparr> vw_focus := f \<rparr>) = top_max w" by (simp add: top_max_def)
  then show ?thesis using t f rows view by (auto simp: shown_top_def Let_def)
qed

lemma near_pages:
  assumes "\<bar>a - b\<bar> \<le> 1"
  shows "min (nat a) c = min (nat b) c \<or> min (nat a) c = Suc (min (nat b) c) \<or> min (nat b) c = Suc (min (nat a) c)"
proof -
  have "nat a = nat b \<or> nat a = Suc (nat b) \<or> nat b = Suc (nat a)" using assms by linarith
  then show ?thesis by (auto simp: min_def)
qed

lemma set_focus_rebind:
  assumes ok: "window_ok w" and f: "f < vw_count w"
    and near: "f = Suc (vw_focus w) \<or> vw_focus w = Suc f"
  shows "length (snd (fplinux_ui_virtual_set_focus w f)) \<le> 1"
proof -
  let ?v = "w\<lparr> vw_focus := f \<rparr>"
  define u where "u = show_focus ?v (vw_top w)"
  define w' where "w' = fst (bind_window u 0 0)"
  have g: "geometry_ok ?v" using window_okD(1) [OF ok] f by (simp add: geometry_ok_def)
  have u: "window_placed u" unfolding u_def using g by (rule show_focus_placed)
  have uf: "vw_count u = vw_count w" "vw_pitch u = vw_pitch w" "vw_view u = vw_view w" "vw_focus u = f"
    "vw_bound u = vw_bound w" "vw_top u = shown_top ?v (vw_top w)"
    using show_focus_top(1) [OF g] by (simp_all add: u_def)
  have w': "window_ok w'" unfolding w'_def using u by (rule bind_window_ok)
  have pool: "pool_size w' = pool_size w" "vw_count w' = vw_count w" "vw_pitch w' = vw_pitch w"
    by (simp_all add: w'_def bind_window_fields uf pool_size_def)
  have old: "vw_bound w = rows_bound (vw_first w) (pool_size w)"
    and new: "vw_bound w' = rows_bound (vw_first w') (pool_size w)"
    using ok w' pool by (simp_all add: window_ok_def window_bound_def rows_bound_def)
  have near': "vw_first w' = vw_first w \<or> vw_first w' = Suc (vw_first w) \<or> vw_first w = Suc (vw_first w') \<or>
      pool_size w \<le> 1"
  proof (cases "0 < vw_view w")
    case True
    have "\<bar>vw_top u div vw_pitch w - vw_top w div vw_pitch w\<bar> \<le> 1"
      using ok f near True u uf shown_top_near [of w f]
      by (intro top_pages_near [of w u]) (auto simp: window_ok_def)
    moreover have "vw_top w' = vw_top u" by (simp add: w'_def bind_window_fields)
    ultimately have "min (nat (vw_top w' div vw_pitch w)) c = min (nat (vw_top w div vw_pitch w)) c \<or>
        min (nat (vw_top w' div vw_pitch w)) c = Suc (min (nat (vw_top w div vw_pitch w)) c) \<or>
        min (nat (vw_top w div vw_pitch w)) c = Suc (min (nat (vw_top w' div vw_pitch w)) c)" for c
      by (intro near_pages) simp
    then show ?thesis
      unfolding window_okD(6) [OF ok] window_okD(6) [OF w'] window_okD(2) [OF ok] window_okD(2) [OF w'] pool
      by blast
  next
    case False
    then have "pool_size w \<le> 1"
      using pool_size_min [OF window_okD(1) [OF ok]] by (simp add: rows_in_view_def)
    then show ?thesis by simp
  qed
  have "snd (fplinux_ui_virtual_set_focus w f) =
      filter (\<lambda>slot. must_rebind 0 0 (vw_bound w ! slot) (vw_bound w' ! slot)) [0..<VIRTUAL_SLOTS_MAX]"
    using f by (simp add: fplinux_ui_virtual_set_focus_def Let_def bind_window_rebind flip: uf(5) u_def w'_def)
  also have "\<dots> = filter (\<lambda>slot. vw_bound w' ! slot \<noteq> vw_bound w ! slot) [0..<VIRTUAL_SLOTS_MAX]"
    by (simp add: must_rebind_def)
  also have "length \<dots> \<le> 1"
    unfolding old new using near' by (intro few_slots_differ) auto
  finally show ?thesis .
qed


subsection \<open>The focused row keeps its place\<close>

lemma keep_focus_place:
  assumes g: "geometry_ok v" and count: "vw_count v \<noteq> 0"
    and inside: "0 \<le> offset" "offset + vw_pitch v \<le> vw_view v"
    and room: "0 \<le> int (vw_focus v) * vw_pitch v - offset" "int (vw_focus v) * vw_pitch v - offset \<le> top_max v"
  shows "focus_offset (keep_focus v offset) = offset"
proof -
  have f: "vw_focus v \<noteq> SIZE_MAX" using focus_row(3) [OF g count] .
  have "shown_top v (int (vw_focus v) * vw_pitch v - offset) = int (vw_focus v) * vw_pitch v - offset"
    using inside room count by (simp add: shown_top_def Let_def)
  then show ?thesis using f by (simp add: keep_focus_def focus_offset_def show_focus_top(1) [OF g])
qed

lemma focus_offset_inside:
  assumes "window_ok w" and "vw_count w \<noteq> 0" and "vw_pitch w \<le> vw_view w"
  shows "0 \<le> focus_offset w" "focus_offset w + vw_pitch w \<le> vw_view w"
  using assms focus_row(3) [OF window_okD(1) [OF assms(1)] assms(2)]
  by (auto simp: window_ok_def window_placed_def focus_shown_def focus_offset_def Let_def)

lemma focus_offset_bind: "focus_offset (fst (bind_window w d c)) = focus_offset w"
  by (simp add: focus_offset_def bind_window_fields)

lemma inserted_window:
  assumes "P w" and "\<And>v d c. vw_pitch v = vw_pitch w \<Longrightarrow> vw_view v = vw_view w \<Longrightarrow>
      P (fst (bind_window (keep_focus v (focus_offset w)) d c))"
  shows "P (fst (fplinux_ui_virtual_inserted w at n))"
  using assms by (simp add: fplinux_ui_virtual_inserted_def Let_def)

lemma deleted_window:
  assumes "P w" and "\<And>v d c. vw_pitch v = vw_pitch w \<Longrightarrow> vw_view v = vw_view w \<Longrightarrow>
      P (fst (bind_window (keep_focus v (focus_offset w)) d c))"
  shows "P (fst (fplinux_ui_virtual_deleted w at n))"
  using assms by (simp add: fplinux_ui_virtual_deleted_def Let_def)

section \<open>Properties of the virtual list\<close>

text \<open>
  In every window that is reached the content is scrolled within its bounds, the focused row
  exists and is wholly visible when the view is high enough for one row, the slots show distinct
  rows, and every row that is visible even in part is shown, by the slot of its index modulo the
  number of slots, provided the pool is large enough for the view.
\<close>

theorem window_shows_rows:
  assumes "window_initial w0" and "window_step\<^sup>*\<^sup>* w0 w"
  shows "0 \<le> vw_top w \<and> vw_top w \<le> top_max w \<and>
         (vw_count w \<noteq> 0 \<longrightarrow> vw_focus w < vw_count w \<and>
            (vw_pitch w \<le> vw_view w \<longrightarrow>
               vw_top w \<le> int (vw_focus w) * vw_pitch w \<and>
               (int (vw_focus w) + 1) * vw_pitch w \<le> vw_top w + vw_view w)) \<and>
         distinct (take (vw_slots w) (vw_bound w)) \<and>
         set (take (vw_slots w) (vw_bound w)) = {vw_first w..<vw_first w + vw_slots w} \<and>
         (\<forall>r < vw_count w. rows_in_view w \<le> VIRTUAL_SLOTS_MAX \<and>
            vw_top w < (int r + 1) * vw_pitch w \<and> int r * vw_pitch w < vw_top w + vw_view w \<longrightarrow>
            vw_bound w ! (r mod vw_slots w) = r)"
proof -
  have ok: "window_ok w" using assms by (rule window.reachable)
  let ?rows = "take (vw_slots w) (vw_bound w)"
  have rows: "?rows = map (slot_row (vw_first w) (vw_slots w)) [0..<vw_slots w]"
    using ok window_okD(4) [OF ok]
    by (simp add: window_ok_def window_bound_def take_map take_upt del: upt_Suc)
  have inj: "inj_on (slot_row (vw_first w) (vw_slots w)) {0..<vw_slots w}"
    by (rule inj_on_inverseI [of _ "\<lambda>r. r mod vw_slots w"]) (simp add: slot_row_range(3))
  have "slot_row (vw_first w) (vw_slots w) ` {0..<vw_slots w} = {vw_first w..<vw_first w + vw_slots w}"
  proof (intro equalityI subsetI)
    fix r assume "r \<in> {vw_first w..<vw_first w + vw_slots w}"
    then show "r \<in> slot_row (vw_first w) (vw_slots w) ` {0..<vw_slots w}"
      using slot_row_mod [of "vw_first w" r "vw_slots w"]
      by (intro image_eqI [of _ _ "r mod vw_slots w"]) (auto intro!: mod_less_divisor)
  qed (auto simp: slot_row_range)
  moreover have "vw_bound w ! (r mod vw_slots w) = r"
    if "r < vw_count w" "rows_in_view w \<le> VIRTUAL_SLOTS_MAX"
      "vw_top w < (int r + 1) * vw_pitch w" "int r * vw_pitch w < vw_top w + vw_view w" for r
  proof -
    note r = visible_in_pool [OF ok that]
    then have "r mod vw_slots w < vw_slots w" by (intro mod_less_divisor) linarith
    then show ?thesis
      using slot_row_mod [OF r] bound_nth [OF ok, of "r mod vw_slots w"] window_okD(4) [OF ok] by simp
  qed
  ultimately show ?thesis
    using ok inj unfolding rows
    by (auto simp: window_ok_def window_placed_def geometry_ok_def focus_shown_def Let_def distinct_map distrib_right)
qed

definition example_window :: virtual_window where
  "example_window = fst (fplinux_ui_virtual_set_focus (fst (fplinux_ui_virtual_init 100 20 95)) 7)"

lemma size_max_numeral:
  "numeral k = SIZE_MAX \<longleftrightarrow> numeral k = (4294967295 :: nat)" "0 \<noteq> SIZE_MAX" "Suc 0 \<noteq> SIZE_MAX"
  by (simp_all add: SIZE_MAX_def)

lemma bind_window_eval:
  assumes "pool_size w = slots" and "nat ((vw_top w sdiv vw_pitch w) mod 2 ^ 32) = page"
  shows "fst (bind_window w d c) =
    w\<lparr> vw_slots := slots, vw_first := min page (vw_count w - slots),
       vw_bound := rows_bound (min page (vw_count w - slots)) slots \<rparr>"
  unfolding bind_window_def Let_def assms by (simp add: rows_bound_def min_def)

lemmas window_eval =
  show_focus_def keep_focus_def focus_offset_def top_max_def size_max_numeral signed_divide_int_def
  pool_size_def VIRTUAL_SLOTS_MAX_def

lemma example_init:
  "fst (fplinux_ui_virtual_init 100 20 95) =
     \<lparr> vw_count = 100, vw_slots = 6, vw_pitch = 20, vw_view = 95, vw_focus = 0, vw_top = 0,
       vw_first = 0, vw_bound = rows_bound 0 6 \<rparr>"
  unfolding fplinux_ui_virtual_init_def
  by (subst bind_window_eval [where slots = 6 and page = 0]) (simp_all add: window_eval)

lemma example_window_simp:
  "example_window = \<lparr> vw_count = 100, vw_slots = 6, vw_pitch = 20, vw_view = 95, vw_focus = 7, vw_top = 65,
     vw_first = 3, vw_bound = rows_bound 3 6 \<rparr>"
  unfolding example_window_def fplinux_ui_virtual_set_focus_def example_init
  by (simp add: window_eval, subst bind_window_eval [where slots = 6 and page = 3]) (simp_all add: window_eval)

theorem window_shows_rows_witness:
  "vw_bound example_window ! (7 mod 6) = 7 \<and> vw_bound example_window ! (3 mod 6) = 3"
proof -
  have init: "window_initial (fst (fplinux_ui_virtual_init 100 20 95))"
    by (rule window_initial.intros) simp_all
  have step: "window_step\<^sup>*\<^sup>* (fst (fplinux_ui_virtual_init 100 20 95)) example_window"
    unfolding example_window_def by (intro r_into_rtranclp step_focus)
  have "rows_in_view example_window \<le> VIRTUAL_SLOTS_MAX"
    by (simp add: rows_in_view_def example_window_simp VIRTUAL_SLOTS_MAX_def)
  with window_shows_rows [OF init step] have "vw_bound example_window ! (r mod vw_slots example_window) = r"
    if "r < 100" "65 < (int r + 1) * 20" "int r * 20 < 160" for r
    using that by (simp add: example_window_simp)
  from this [of 7] this [of 3] show ?thesis by (simp add: example_window_simp)
qed

text \<open>
  Moving the focus by one row has at most one slot filled again, whatever the height of the
  view.
\<close>

theorem one_row_rebinds_one_slot:
  assumes "window_initial w0" and "window_step\<^sup>*\<^sup>* w0 w" and "focus < vw_count w"
    and "focus = Suc (vw_focus w) \<or> vw_focus w = Suc focus"
  shows "length (snd (fplinux_ui_virtual_set_focus w focus)) \<le> 1"
  using window.reachable [OF assms(1,2)] assms(3,4) by (rule set_focus_rebind)

theorem one_row_rebinds_one_slot_witness:
  "length (snd (fplinux_ui_virtual_set_focus (fst (fplinux_ui_virtual_init 100 20 95)) 1)) \<le> 1"
proof -
  have "window_initial (fst (fplinux_ui_virtual_init 100 20 95))"
    by (rule window_initial.intros) simp_all
  from one_row_rebinds_one_slot [OF this rtranclp.rtrancl_refl, of 1] show ?thesis
    by (simp add: example_init)
qed

text \<open>
  When rows are inserted or deleted the focused row keeps its place in the view, to the pixel,
  whenever the list can be scrolled there.
\<close>

theorem edits_keep_focus_place:
  assumes "window_initial w0" and "window_step\<^sup>*\<^sup>* w0 w" and "vw_count w \<noteq> 0" and "vw_pitch w \<le> vw_view w"
    and "int (vw_count w + n) * vw_pitch w < 2 ^ 31"
    and "w' = fst (fplinux_ui_virtual_inserted w at n) \<or> w' = fst (fplinux_ui_virtual_deleted w at n)"
    and "vw_count w' \<noteq> 0"
    and "0 \<le> int (vw_focus w') * vw_pitch w' - focus_offset w"
    and "int (vw_focus w') * vw_pitch w' - focus_offset w \<le> top_max w'"
  shows "focus_offset w' = focus_offset w"
proof -
  have ok: "window_ok w" using assms(1,2) by (rule window.reachable)
  have ok': "window_ok w'" using assms(5,6) ok inserted_ok deleted_ok by blast
  define P where "P u \<longleftrightarrow> (window_ok u \<and> vw_count u \<noteq> 0 \<and> 0 \<le> int (vw_focus u) * vw_pitch u - focus_offset w \<and>
      int (vw_focus u) * vw_pitch u - focus_offset w \<le> top_max u \<longrightarrow> focus_offset u = focus_offset w)" for u
  have "P (fst (bind_window (keep_focus v (focus_offset w)) d c))"
    if v: "vw_pitch v = vw_pitch w" "vw_view v = vw_view w" for v d c
    unfolding P_def focus_offset_bind
  proof (intro impI)
    let ?u = "fst (bind_window (keep_focus v (focus_offset w)) d c)"
    assume u: "window_ok ?u \<and> vw_count ?u \<noteq> 0 \<and> 0 \<le> int (vw_focus ?u) * vw_pitch ?u - focus_offset w \<and>
      int (vw_focus ?u) * vw_pitch ?u - focus_offset w \<le> top_max ?u"
    have same: "vw_count ?u = vw_count v" "vw_focus ?u = vw_focus v" "vw_pitch ?u = vw_pitch v"
      "vw_view ?u = vw_view v" "top_max ?u = top_max v"
      by (simp_all add: bind_window_fields top_max_def)
    have g: "geometry_ok v" using window_okD(1) [of ?u] u same unfolding geometry_ok_def by simp
    show "focus_offset (keep_focus v (focus_offset w)) = focus_offset w"
      using focus_offset_inside [OF ok assms(3,4)] u same v by (intro keep_focus_place [OF g]) simp_all
  qed
  moreover have "P w" by (simp add: P_def)
  ultimately have "P w'" using assms(6) inserted_window [of P w] deleted_window [of P w] by blast
  then show ?thesis using ok' assms(7-9) by (simp add: P_def)
qed

theorem edits_keep_focus_place_witness:
  "focus_offset (fst (fplinux_ui_virtual_inserted example_window 2 5)) = focus_offset example_window"
proof -
  have init: "window_initial (fst (fplinux_ui_virtual_init 100 20 95))"
    by (rule window_initial.intros) simp_all
  have step: "window_step\<^sup>*\<^sup>* (fst (fplinux_ui_virtual_init 100 20 95)) example_window"
    unfolding example_window_def by (intro r_into_rtranclp step_focus)
  have new: "fst (fplinux_ui_virtual_inserted example_window 2 5) =
      \<lparr> vw_count = 105, vw_slots = 6, vw_pitch = 20, vw_view = 95, vw_focus = 12, vw_top = 165,
        vw_first = 8, vw_bound = rows_bound 8 6 \<rparr>"
    unfolding fplinux_ui_virtual_inserted_def example_window_simp fplinux_ui_index_inserted_def
    by (simp add: window_eval, subst bind_window_eval [where slots = 6 and page = 8]) (simp_all add: window_eval)
  show ?thesis
    by (rule edits_keep_focus_place [OF init step, where n = 5 and at = 2])
      (simp_all add: new, simp_all add: example_window_simp window_eval)
qed

end
