(* ===== verification/List_View.thy ===== *)
theory List_View
  imports Virtual_List
begin

section \<open>The pooled rows of a virtual list\<close>

text \<open>
  The virtual part of \<open>lib/fplinux/fplinux-ui-listview.c\<close>: how a list view keeps its pooled rows
  in step with the window of \<open>Virtual_List\<close> and with the data of the application.  A pooled row
  is hidden or shows a row of data at a content position; icons, markers, styles and the marquee
  are presentation and left out.  The application's row callback is a parameter: its answer for
  each index as the data stand when it is called.
\<close>

record virtual_row =
  vr_text :: "bytes option"
  vr_detail :: "bytes option"

datatype pooled_row = Hidden_row | Shown_row virtual_row int

record listview =
  li_count :: nat
  li_selected :: nat
  li_inline_detail :: bool
  li_details :: bool
  li_pitch :: int
  li_detail_pitch :: int
  li_started :: bool
  li_start_first :: nat
  li_window :: virtual_window
  li_slots :: "pooled_row list"
  li_height :: int
  li_scroll :: int

type_synonym row_cb = "nat \<Rightarrow> virtual_row option"

text \<open>What is shown of an index: a callback that fails or gives no text leaves an empty row.\<close>

definition row_data :: "row_cb \<Rightarrow> nat \<Rightarrow> virtual_row" where
  "row_data cb index =
     (case cb index of
        Some data \<Rightarrow> if vr_text data = None then \<lparr> vr_text = Some [], vr_detail = None \<rparr> else data
      | None \<Rightarrow> \<lparr> vr_text = Some [], vr_detail = None \<rparr>)"

definition has_detail :: "virtual_row \<Rightarrow> bool" where
  "has_detail data \<longleftrightarrow> (case vr_detail data of Some d \<Rightarrow> d \<noteq> [] | None \<Rightarrow> False)"

definition use_details :: "listview \<Rightarrow> listview" where
  "use_details l = l\<lparr> li_details := True, li_pitch := li_detail_pitch l \<rparr>"

definition set_detail :: "listview \<Rightarrow> virtual_row \<Rightarrow> listview" where
  "set_detail l data =
     (if has_detail data \<and> \<not> li_inline_detail l \<and> \<not> li_details l then use_details l else l)"

text \<open>The row is placed before its detail is set, so the first detail leaves it at the old pitch.\<close>

definition bind_slot :: "row_cb \<Rightarrow> nat \<Rightarrow> listview \<Rightarrow> listview" where
  "bind_slot cb slot l =
     (let index = vw_bound (li_window l) ! slot
      in if index = SIZE_MAX then l\<lparr> li_slots := (li_slots l)[slot := Hidden_row] \<rparr>
         else let data = row_data cb index;
                  l = l\<lparr> li_slots := (li_slots l)[slot := Shown_row data (int32 (int index) * li_pitch l)] \<rparr>
              in set_detail l data)"

definition size_pool :: "listview \<Rightarrow> listview" where
  "size_pool l =
     l\<lparr> li_slots := take (vw_slots (li_window l)) (li_slots l) @
                    replicate (vw_slots (li_window l) - length (li_slots l)) Hidden_row \<rparr>"

definition fill_slots :: "row_cb \<Rightarrow> nat list \<Rightarrow> listview \<Rightarrow> listview" where
  "fill_slots cb rebind l =
     fold (\<lambda>slot l. if slot < length (li_slots l) then bind_slot cb slot l else l) rebind l"

lemma bind_slot_details: "li_details l \<Longrightarrow> li_details (bind_slot cb slot l)"
  by (simp add: bind_slot_def set_detail_def use_details_def Let_def)

text \<open>
  \<open>apply_window\<close> and \<open>bind_slots\<close> call each other: the first detail switches the pitch and
  applies the resized window once more.  Details are never switched off here, so the inner call
  does not recur.
\<close>

function apply_window :: "row_cb \<Rightarrow> listview \<Rightarrow> nat list \<Rightarrow> listview" where
  "apply_window cb l rebind =
     (let w = li_window l;
          l = l\<lparr> li_count := vw_count w,
                 li_selected := (if vw_focus w = SIZE_MAX then 0 else vw_focus w),
                 li_height := int32 (int (vw_count w)) * vw_pitch w \<rparr>
      in if \<not> li_started l then l
         else let filled = fill_slots cb rebind (size_pool l);
                  l' = (if li_details filled \<and> \<not> li_details l
                        then let (w', again) = fplinux_ui_virtual_resize (li_window filled) (li_pitch filled)
                                                 (vw_view (li_window filled))
                             in apply_window cb (filled\<lparr> li_window := w' \<rparr>) again
                        else filled)
              in l'\<lparr> li_scroll := vw_top (li_window l') \<rparr>)"
  by pat_completeness auto
termination
  by (relation "measure (\<lambda>(cb, l, rebind). if li_details l then 0 else 1)") auto

declare apply_window.simps [simp del]

subsection \<open>Operations\<close>

definition fplinux_ui_listview_create_virtual :: "nat \<Rightarrow> int \<Rightarrow> int \<Rightarrow> bool \<Rightarrow> int \<Rightarrow> row_cb \<Rightarrow> listview" where
  "fplinux_ui_listview_create_virtual count row_height row_height_detail inline_detail view cb =
     (let w = fst (fplinux_ui_virtual_init count row_height view)
      in apply_window cb
           \<lparr> li_count = 0, li_selected = 0, li_inline_detail = inline_detail, li_details = False,
             li_pitch = row_height, li_detail_pitch = row_height_detail, li_started = False,
             li_start_first = SIZE_MAX, li_window = w, li_slots = [], li_height = 0, li_scroll = 0 \<rparr> [])"

definition fplinux_ui_listview_set_first_visible :: "row_cb \<Rightarrow> listview \<Rightarrow> nat \<Rightarrow> listview" where
  "fplinux_ui_listview_set_first_visible cb l index =
     (if li_count l = 0 then l
      else let index = (if li_count l \<le> index then li_count l - 1 else index)
           in if \<not> li_started l then l\<lparr> li_start_first := index \<rparr>
              else let (w, rebind) = fplinux_ui_virtual_set_top (li_window l) index
                   in if vw_top w \<noteq> vw_top (li_window l)
                      then apply_window cb (l\<lparr> li_window := w \<rparr>) rebind
                      else l\<lparr> li_window := w \<rparr>)"

definition start_virtual :: "row_cb \<Rightarrow> listview \<Rightarrow> listview" where
  "start_virtual cb l =
     (let l = apply_window cb (l\<lparr> li_started := True \<rparr>) [0..<vw_slots (li_window l)]
      in if li_start_first l \<noteq> SIZE_MAX
         then fplinux_ui_listview_set_first_visible cb (l\<lparr> li_start_first := SIZE_MAX \<rparr>) (li_start_first l)
         else l)"

definition virtual_focus :: "row_cb \<Rightarrow> listview \<Rightarrow> nat \<Rightarrow> listview" where
  "virtual_focus cb l index =
     (if index = SIZE_MAX \<or> index = vw_focus (li_window l) then l
      else let (w, rebind) = fplinux_ui_virtual_set_focus (li_window l) index
           in apply_window cb (l\<lparr> li_window := w \<rparr>) rebind)"

definition move_rows :: "row_cb \<Rightarrow> listview \<Rightarrow> int \<Rightarrow> focus_boundary \<Rightarrow> listview \<times> bool" where
  "move_rows cb l rows boundary =
     (if li_count l = 0 then (l, False)
      else (virtual_focus cb l (fplinux_ui_focus_step (li_selected l) (li_count l) rows boundary), True))"

definition size_changed_cb :: "row_cb \<Rightarrow> listview \<Rightarrow> int \<Rightarrow> listview" where
  "size_changed_cb cb l view =
     (if view = vw_view (li_window l) then l
      else let (w, rebind) = fplinux_ui_virtual_resize (li_window l) (li_pitch l) view
           in apply_window cb (l\<lparr> li_window := w \<rparr>) rebind)"

definition fplinux_ui_listview_invalidate :: "row_cb \<Rightarrow> listview \<Rightarrow> nat \<Rightarrow> nat \<Rightarrow> listview" where
  "fplinux_ui_listview_invalidate cb l first count =
     (let (w, rebind) = fplinux_ui_virtual_invalidate (li_window l) first count
      in apply_window cb (l\<lparr> li_window := w \<rparr>) rebind)"

definition fplinux_ui_listview_rows_inserted :: "row_cb \<Rightarrow> listview \<Rightarrow> nat \<Rightarrow> nat \<Rightarrow> listview" where
  "fplinux_ui_listview_rows_inserted cb l index count =
     (if count = 0 then l
      else let (w, rebind) = fplinux_ui_virtual_inserted (li_window l) index count
           in apply_window cb (l\<lparr> li_window := w \<rparr>) rebind)"

definition fplinux_ui_listview_rows_deleted :: "row_cb \<Rightarrow> listview \<Rightarrow> nat \<Rightarrow> nat \<Rightarrow> listview" where
  "fplinux_ui_listview_rows_deleted cb l index count =
     (if count = 0 then l
      else let (w, rebind) = fplinux_ui_virtual_deleted (li_window l) index count
           in apply_window cb (l\<lparr> li_window := w \<rparr>) rebind)"

definition fplinux_ui_listview_select :: "row_cb \<Rightarrow> listview \<Rightarrow> nat \<Rightarrow> listview" where
  "fplinux_ui_listview_select cb l index =
     (if li_count l \<le> index \<or> index = li_selected l then l else virtual_focus cb l index)"

subsection \<open>The pool shows the data\<close>

text \<open>What a slot has to show, and the invariant of the list view for the data of the application.\<close>

definition wanted_row :: "row_cb \<Rightarrow> virtual_window \<Rightarrow> nat \<Rightarrow> pooled_row" where
  "wanted_row cb w slot =
     Shown_row (row_data cb (vw_bound w ! slot)) (int (vw_bound w ! slot) * vw_pitch w)"

definition listview_fits :: "listview \<Rightarrow> bool" where
  "listview_fits l \<longleftrightarrow>
     window_ok (li_window l) \<and> vw_pitch (li_window l) = li_pitch l \<and>
     0 < li_detail_pitch l \<and> li_detail_pitch l < 2 ^ 31 \<and>
     int (vw_count (li_window l)) * li_detail_pitch l < 2 ^ 31 \<and>
     (li_details l \<longrightarrow> li_pitch l = li_detail_pitch l)"

definition pool_shows :: "row_cb \<Rightarrow> listview \<Rightarrow> bool" where
  "pool_shows cb l \<longleftrightarrow>
     length (li_slots l) = vw_slots (li_window l) \<and>
     (\<forall>slot < vw_slots (li_window l). li_slots l ! slot = wanted_row cb (li_window l) slot) \<and>
     li_scroll l = vw_top (li_window l)"

definition listview_ok :: "row_cb \<Rightarrow> listview \<Rightarrow> bool" where
  "listview_ok cb l \<longleftrightarrow>
     listview_fits l \<and> li_count l = vw_count (li_window l) \<and>
     li_selected l = (if vw_focus (li_window l) = SIZE_MAX then 0 else vw_focus (li_window l)) \<and>
     li_height l = int (li_count l) * li_pitch l \<and>
     (li_started l \<longrightarrow> pool_shows cb l)"

lemma bound_row:
  assumes "window_ok w" and "slot < vw_slots w"
  shows "vw_bound w ! slot < vw_count w" "vw_bound w ! slot \<noteq> SIZE_MAX" "int32 (int (vw_bound w ! slot)) = int (vw_bound w ! slot)"
proof -
  have "slot < VIRTUAL_SLOTS_MAX" using assms window_okD(4) by (meson less_le_trans)
  then show r: "vw_bound w ! slot < vw_count w"
    using slot_row_range(2) [OF assms(2), of "vw_first w"] bound_nth [OF assms(1)] window_okD(3) [OF assms(1)] by simp
  then show "vw_bound w ! slot \<noteq> SIZE_MAX" "int32 (int (vw_bound w ! slot)) = int (vw_bound w ! slot)"
    using count_small [OF window_okD(1) [OF assms(1)]] by simp_all
qed

text \<open>What filling slots keeps.\<close>

lemma set_detail_simps [simp]:
  "li_window (set_detail l d) = li_window l" "li_slots (set_detail l d) = li_slots l"
  "li_started (set_detail l d) = li_started l" "li_start_first (set_detail l d) = li_start_first l"
  "li_inline_detail (set_detail l d) = li_inline_detail l"
  "li_detail_pitch (set_detail l d) = li_detail_pitch l" "li_count (set_detail l d) = li_count l"
  "li_selected (set_detail l d) = li_selected l" "li_height (set_detail l d) = li_height l"
  by (simp_all add: set_detail_def use_details_def)

lemma bind_slot_simps [simp]:
  "li_window (bind_slot cb slot l) = li_window l" "length (li_slots (bind_slot cb slot l)) = length (li_slots l)"
  "li_started (bind_slot cb slot l) = li_started l" "li_start_first (bind_slot cb slot l) = li_start_first l"
  "li_inline_detail (bind_slot cb slot l) = li_inline_detail l"
  "li_detail_pitch (bind_slot cb slot l) = li_detail_pitch l" "li_count (bind_slot cb slot l) = li_count l"
  "li_selected (bind_slot cb slot l) = li_selected l" "li_height (bind_slot cb slot l) = li_height l"
  by (simp_all add: bind_slot_def Let_def)

lemma bind_slot_pitch:
  "li_pitch (bind_slot cb slot l) =
     (if li_details (bind_slot cb slot l) \<and> \<not> li_details l then li_detail_pitch l else li_pitch l)"
  by (simp add: bind_slot_def set_detail_def use_details_def Let_def)

lemma fill_slots_keeps:
  assumes "P l" and "\<And>slot l. P l \<Longrightarrow> P (bind_slot cb slot l)"
  shows "P (fill_slots cb rebind l)"
  using assms(1) unfolding fill_slots_def
  by (induction rebind arbitrary: l) (auto intro: assms(2))

lemma fill_slots_frame:
  "li_window (fill_slots cb rebind l) = li_window l" "length (li_slots (fill_slots cb rebind l)) = length (li_slots l)"
  "li_started (fill_slots cb rebind l) = li_started l" "li_start_first (fill_slots cb rebind l) = li_start_first l"
  "li_inline_detail (fill_slots cb rebind l) = li_inline_detail l"
  "li_detail_pitch (fill_slots cb rebind l) = li_detail_pitch l" "li_count (fill_slots cb rebind l) = li_count l"
  "li_selected (fill_slots cb rebind l) = li_selected l" "li_height (fill_slots cb rebind l) = li_height l"
proof -
  let ?same = "\<lambda>m. li_window m = li_window l \<and> length (li_slots m) = length (li_slots l) \<and>
      li_started m = li_started l \<and> li_start_first m = li_start_first l \<and>
      li_inline_detail m = li_inline_detail l \<and> li_detail_pitch m = li_detail_pitch l \<and>
      li_count m = li_count l \<and> li_selected m = li_selected l \<and> li_height m = li_height l"
  have same: "?same (fill_slots cb rebind l)"
    using fill_slots_keeps [where P = ?same] by simp
  then show "li_window (fill_slots cb rebind l) = li_window l"
    "length (li_slots (fill_slots cb rebind l)) = length (li_slots l)"
    "li_started (fill_slots cb rebind l) = li_started l" "li_start_first (fill_slots cb rebind l) = li_start_first l"
    "li_inline_detail (fill_slots cb rebind l) = li_inline_detail l"
    "li_detail_pitch (fill_slots cb rebind l) = li_detail_pitch l" "li_count (fill_slots cb rebind l) = li_count l"
    "li_selected (fill_slots cb rebind l) = li_selected l" "li_height (fill_slots cb rebind l) = li_height l"
    by blast+
qed

lemma fill_slots_pitch:
  "(li_details l \<longrightarrow> li_details (fill_slots cb rebind l)) \<and>
   li_pitch (fill_slots cb rebind l) =
     (if li_details (fill_slots cb rebind l) \<and> \<not> li_details l then li_detail_pitch l else li_pitch l)"
proof -
  let ?P = "\<lambda>m. li_detail_pitch m = li_detail_pitch l \<and> (li_details l \<longrightarrow> li_details m) \<and>
      li_pitch m = (if li_details m \<and> \<not> li_details l then li_detail_pitch l else li_pitch l)"
  have "?P (bind_slot cb slot m)" if "?P m" for slot m
    using that bind_slot_details [of m cb slot]
    by (cases "li_details m"; cases "li_details (bind_slot cb slot m)"; cases "li_details l")
      (simp_all add: bind_slot_pitch)
  then have "?P (fill_slots cb rebind l)" by (intro fill_slots_keeps [of ?P]) simp_all
  then show ?thesis by simp
qed

lemma fill_slots_simps:
  "fill_slots cb [] l = l"
  "fill_slots cb (s # rebind) l = fill_slots cb rebind (if s < length (li_slots l) then bind_slot cb s l else l)"
  by (simp_all add: fill_slots_def)

lemma bind_slot_row:
  assumes "slot < length (li_slots l)" "window_ok (li_window l)" "slot < vw_slots (li_window l)"
    "li_pitch l = vw_pitch (li_window l)"
  shows "li_slots (bind_slot cb slot l) = (li_slots l)[slot := wanted_row cb (li_window l) slot]"
  using assms bound_row [OF assms(2,3)] by (simp add: bind_slot_def wanted_row_def Let_def)

text \<open>With an unchanged pitch the filled slots show what they should and the others stay.\<close>

lemma fill_slots_rows:
  assumes "length (li_slots l) = vw_slots (li_window l)" "window_ok (li_window l)"
    "li_pitch l = vw_pitch (li_window l)"
    "\<not> li_details l \<Longrightarrow> li_details (fill_slots cb rebind l) \<Longrightarrow> li_detail_pitch l = li_pitch l"
    "slot < vw_slots (li_window l)"
  shows "li_slots (fill_slots cb rebind l) ! slot =
    (if slot \<in> set rebind then wanted_row cb (li_window l) slot else li_slots l ! slot)"
  using assms
proof (induction rebind arbitrary: l)
  case (Cons s rebind)
  show ?case
  proof (cases "s < length (li_slots l)")
    case False
    then have "fill_slots cb (s # rebind) l = fill_slots cb rebind l" by (simp add: fill_slots_simps)
    then show ?thesis using Cons.IH [of l] Cons.prems False by auto
  next
    case True
    let ?l = "bind_slot cb s l"
    have eq: "fill_slots cb (s # rebind) l = fill_slots cb rebind ?l" using True by (simp add: fill_slots_simps)
    have later: "li_details ?l \<Longrightarrow> li_details (fill_slots cb rebind ?l)"
      using fill_slots_pitch [of ?l cb rebind] by blast
    have pitch: "li_pitch ?l = li_pitch l"
      using bind_slot_pitch [of cb s l] Cons.prems(4) later unfolding eq by (auto split: if_splits)
    have det: "\<not> li_details ?l \<Longrightarrow> \<not> li_details l" using bind_slot_details by blast
    have row: "li_slots ?l = (li_slots l)[s := wanted_row cb (li_window l) s]"
      using True Cons.prems by (intro bind_slot_row) simp_all
    have "li_slots (fill_slots cb rebind ?l) ! slot =
        (if slot \<in> set rebind then wanted_row cb (li_window ?l) slot else li_slots ?l ! slot)"
      using Cons.prems pitch det unfolding eq by (intro Cons.IH) simp_all
    then show ?thesis using Cons.prems unfolding eq by (simp add: row nth_list_update)
  qed
qed (simp add: fill_slots_simps)


text \<open>A slot that is not listed for filling shows the same data row as before.\<close>

lemma unlisted_slot:
  assumes ok: "window_ok w" "window_ok w'"
    and w': "bind_window v d c = (w', rebind)" "vw_bound v = vw_bound w"
    and slot: "slot < vw_slots w'" "slot \<notin> set rebind"
  shows "slot < vw_slots w" "vw_bound w' ! slot = vw_bound w ! slot"
    "\<not> (d \<le> vw_bound w' ! slot \<and> vw_bound w' ! slot - d < c)"
proof -
  have s: "slot < VIRTUAL_SLOTS_MAX" using slot(1) window_okD(4) [OF ok(2)] by simp
  have "rebind = filter (\<lambda>s. must_rebind d c (vw_bound w ! s) (vw_bound w' ! s)) [0..<VIRTUAL_SLOTS_MAX]"
    using bind_window_rebind [of v d c] w' by simp
  then have same: "\<not> must_rebind d c (vw_bound w ! slot) (vw_bound w' ! slot)" using s slot(2) by simp
  then show eq: "vw_bound w' ! slot = vw_bound w ! slot" by (simp add: must_rebind_def)
  show "\<not> (d \<le> vw_bound w' ! slot \<and> vw_bound w' ! slot - d < c)"
    using same bound_row(2) [OF ok(2) slot(1)] by (simp add: must_rebind_def)
  show "slot < vw_slots w"
    using bound_row(2) [OF ok(2) slot(1)] bound_nth [OF ok(1) s] eq by (simp add: slot_row_def split: if_splits)
qed

text \<open>What \<open>apply_window\<close> needs: the unlisted slots show the right rows already.\<close>

definition others_right :: "row_cb \<Rightarrow> listview \<Rightarrow> nat list \<Rightarrow> bool" where
  "others_right cb l rebind \<longleftrightarrow>
     (\<forall>slot < vw_slots (li_window l). slot \<notin> set rebind \<longrightarrow>
        slot < length (li_slots l) \<and> li_slots l ! slot = wanted_row cb (li_window l) slot)"

lemma size_pool_simps [simp]:
  "li_window (size_pool l) = li_window l" "length (li_slots (size_pool l)) = vw_slots (li_window l)"
  "li_details (size_pool l) = li_details l" "li_pitch (size_pool l) = li_pitch l"
  "li_detail_pitch (size_pool l) = li_detail_pitch l" "li_started (size_pool l) = li_started l"
  "li_start_first (size_pool l) = li_start_first l" "li_count (size_pool l) = li_count l"
  "li_selected (size_pool l) = li_selected l" "li_height (size_pool l) = li_height l"
  by (simp_all add: size_pool_def)

lemma size_pool_row:
  "slot < length (li_slots l) \<Longrightarrow> slot < vw_slots (li_window l) \<Longrightarrow> li_slots (size_pool l) ! slot = li_slots l ! slot"
  by (simp add: size_pool_def nth_append)

text \<open>The list view once its slots are filled, before a switch of the pitch.\<close>

lemma filled_rows:
  assumes fits: "listview_fits l" and others: "others_right cb l rebind"
    and still: "\<not> li_details l \<Longrightarrow> li_details (fill_slots cb rebind (size_pool l)) \<Longrightarrow> li_detail_pitch l = li_pitch l"
    and slot: "slot < vw_slots (li_window l)"
  shows "li_slots (fill_slots cb rebind (size_pool l)) ! slot = wanted_row cb (li_window l) slot"
  using fill_slots_rows [of "size_pool l" cb rebind slot] assms size_pool_row [of slot l]
  by (simp add: listview_fits_def others_right_def)


text \<open>The first lines of \<open>apply_window\<close>, which a list view not yet started runs alone.\<close>

definition take_window :: "listview \<Rightarrow> listview" where
  "take_window l =
     l\<lparr> li_count := vw_count (li_window l),
        li_selected := (if vw_focus (li_window l) = SIZE_MAX then 0 else vw_focus (li_window l)),
        li_height := int32 (int (vw_count (li_window l))) * vw_pitch (li_window l) \<rparr>"

lemma take_window_simps [simp]:
  "li_window (take_window l) = li_window l" "li_slots (take_window l) = li_slots l"
  "li_started (take_window l) = li_started l" "li_details (take_window l) = li_details l"
  "li_pitch (take_window l) = li_pitch l" "li_detail_pitch (take_window l) = li_detail_pitch l"
  "listview_fits (take_window l) = listview_fits l" "others_right cb (take_window l) rebind = others_right cb l rebind"
  "li_start_first (take_window l) = li_start_first l" "li_count (take_window l) = vw_count (li_window l)"
  "li_selected (take_window l) = (if vw_focus (li_window l) = SIZE_MAX then 0 else vw_focus (li_window l))"
  by (simp_all add: take_window_def listview_fits_def others_right_def)

lemma take_window_height: "listview_fits l \<Longrightarrow> li_height (take_window l) = int (vw_count (li_window l)) * li_pitch l"
  using count_small(1) [OF window_okD(1), of "li_window l"] by (simp add: take_window_def listview_fits_def)

lemma apply_window_idle: "\<not> li_started l \<Longrightarrow> apply_window cb l rebind = take_window l"
  by (subst apply_window.simps) (simp add: take_window_def Let_def)

abbreviation filled :: "row_cb \<Rightarrow> nat list \<Rightarrow> listview \<Rightarrow> listview" where
  "filled cb rebind l \<equiv> fill_slots cb rebind (size_pool (take_window l))"

lemma apply_window_plain:
  assumes "li_started l" and "\<not> (li_details (filled cb rebind l) \<and> \<not> li_details l)"
  shows "apply_window cb l rebind = (filled cb rebind l)\<lparr> li_scroll := vw_top (li_window l) \<rparr>"
  using assms by (subst apply_window.simps) (auto simp: Let_def fill_slots_frame simp flip: take_window_def)

lemma apply_window_switch:
  assumes "li_started l" and "li_details (filled cb rebind l)" and "\<not> li_details l"
    and "fplinux_ui_virtual_resize (li_window l) (li_pitch (filled cb rebind l)) (vw_view (li_window l)) = (w', again)"
  shows "apply_window cb l rebind =
    (let l' = apply_window cb ((filled cb rebind l)\<lparr> li_window := w' \<rparr>) again
     in l'\<lparr> li_scroll := vw_top (li_window l') \<rparr>)"
  using assms by (subst apply_window.simps) (simp add: Let_def fill_slots_frame flip: take_window_def)

lemma apply_window_settles:
  assumes fits: "listview_fits l" and others: "li_started l \<Longrightarrow> others_right cb l rebind"
    and plain: "li_started l \<Longrightarrow> \<not> (li_details (filled cb rebind l) \<and> \<not> li_details l)"
  shows "listview_ok cb (apply_window cb l rebind) \<and> li_started (apply_window cb l rebind) = li_started l \<and>
    li_window (apply_window cb l rebind) = li_window l \<and> li_start_first (apply_window cb l rebind) = li_start_first l"
proof (cases "li_started l")
  case False
  have "listview_fits (take_window l)" using fits by simp
  then show ?thesis
    using False take_window_height [OF fits] by (simp add: apply_window_idle listview_ok_def)
next
  case True
  let ?f = "filled cb rebind l"
  have rows: "li_slots ?f ! slot = wanted_row cb (li_window l) slot" if "slot < vw_slots (li_window l)" for slot
    using filled_rows [of "take_window l" cb rebind slot] fits others [OF True] plain [OF True] that by simp
  have pitch: "li_pitch ?f = li_pitch l" "li_details ?f \<longrightarrow> li_details l"
    using fill_slots_pitch [of "size_pool (take_window l)" cb rebind] plain [OF True] by (auto split: if_splits)
  have "listview_fits ?f" using fits pitch by (auto simp: listview_fits_def fill_slots_frame)
  then show ?thesis
    using apply_window_plain [OF True plain [OF True]] rows pitch take_window_height [OF fits] True
    by (simp add: listview_ok_def pool_shows_def fill_slots_frame listview_fits_def)
qed

lemma resize_bind:
  assumes "0 < pitch"
  shows "\<exists>v. fplinux_ui_virtual_resize w pitch view = bind_window v 0 (if pitch \<noteq> vw_pitch w then SIZE_MAX else 0) \<and>
    vw_bound v = vw_bound w \<and> vw_pitch v = pitch \<and> vw_count v = vw_count w"
  using assms unfolding fplinux_ui_virtual_resize_def Let_def
  by (intro exI [of _ "keep_focus (w\<lparr>vw_pitch := pitch, vw_view := (if 0 < view then view else 0)\<rparr>) (focus_offset w)"]) auto

lemma apply_window_ok:
  assumes fits: "listview_fits l" and others: "li_started l \<Longrightarrow> others_right cb l rebind"
  shows "listview_ok cb (apply_window cb l rebind) \<and> li_started (apply_window cb l rebind) = li_started l \<and>
    li_start_first (apply_window cb l rebind) = li_start_first l"
proof (cases "li_started l \<and> li_details (filled cb rebind l) \<and> \<not> li_details l")
  case False
  then show ?thesis using apply_window_settles [of l cb rebind] assms by blast
next
  case True
  let ?f = "filled cb rebind l"
  let ?w = "li_window l"
  have pitch: "li_pitch ?f = li_detail_pitch l" "li_detail_pitch ?f = li_detail_pitch l"
    using fill_slots_pitch [of "size_pool (take_window l)" cb rebind] True by (simp_all add: fill_slots_frame)
  have g: "window_ok ?w" "0 < li_detail_pitch l" "li_detail_pitch l < 2 ^ 31" "0 \<le> vw_view ?w" "vw_view ?w < 2 ^ 31"
    "int (vw_count ?w) * li_detail_pitch l < 2 ^ 31" "li_pitch l = vw_pitch ?w"
    using fits window_okD(1) [of ?w] by (auto simp: listview_fits_def geometry_ok_def)
  obtain w' again where r: "fplinux_ui_virtual_resize ?w (li_detail_pitch l) (vw_view ?w) = (w', again)"
    by (cases "fplinux_ui_virtual_resize ?w (li_detail_pitch l) (vw_view ?w)")
  obtain v where v: "bind_window v 0 (if li_detail_pitch l \<noteq> vw_pitch ?w then SIZE_MAX else 0) = (w', again)"
    "vw_bound v = vw_bound ?w" "vw_pitch v = li_detail_pitch l" "vw_count v = vw_count ?w"
    using resize_bind [OF g(2), of ?w "vw_view ?w"] r by auto
  have w': "window_ok w'" using resize_ok [OF g(1,3,5)] g(2,6) r by (simp add: max_absorb2)
  have w'f: "vw_pitch w' = li_detail_pitch l" "vw_count w' = vw_count ?w"
    using bind_window_fields(1,2) [of v] v by (metis fst_conv)+
  let ?m = "?f\<lparr> li_window := w' \<rparr>"
  have mfits: "listview_fits ?m"
    using g(2,3,6) w' w'f pitch by (simp add: listview_fits_def)
  have "others_right cb ?m again"
    unfolding others_right_def
  proof (intro allI impI)
    fix slot assume slot: "slot < vw_slots (li_window ?m)" "slot \<notin> set again"
    then have s: "slot < vw_slots w'" by simp
    note u = unlisted_slot [OF g(1) w' v(1,2) s slot(2)]
    have same: "li_detail_pitch l = vw_pitch ?w"
      using u(3) bound_row(1) [OF w' s] count_small(2) [OF window_okD(1) [OF w']] by (auto split: if_splits)
    have "li_slots ?f ! slot = wanted_row cb ?w slot"
      using filled_rows [of "take_window l" cb rebind slot] fits others True u(1) g(7) same by simp
    moreover have "wanted_row cb w' slot = wanted_row cb ?w slot"
      using u(2) w'f same by (simp add: wanted_row_def)
    ultimately show "slot < length (li_slots ?m) \<and> li_slots ?m ! slot = wanted_row cb (li_window ?m) slot"
      using u(1) by (simp add: fill_slots_frame)
  qed
  moreover have "li_started ?m" "li_details ?m" using True by (simp_all add: fill_slots_frame)
  ultimately have inner: "listview_ok cb (apply_window cb ?m again) \<and> li_started (apply_window cb ?m again) \<and>
      li_start_first (apply_window cb ?m again) = li_start_first l"
    using apply_window_settles [OF mfits, of cb again] by (simp add: fill_slots_frame)
  have "apply_window cb l rebind = (let l' = apply_window cb ?m again in l'\<lparr> li_scroll := vw_top (li_window l') \<rparr>)"
    using True r pitch by (intro apply_window_switch) simp_all
  moreover have "listview_ok cb (l'\<lparr> li_scroll := vw_top (li_window l') \<rparr>)" if "listview_ok cb l'" for l'
    using that by (auto simp: listview_ok_def listview_fits_def pool_shows_def)
  ultimately show ?thesis using inner True by (simp add: Let_def)
qed


subsection \<open>Every operation keeps the pool right\<close>

text \<open>The data that a filled slot read before are still the same.\<close>

definition same_outside :: "row_cb \<Rightarrow> row_cb \<Rightarrow> nat \<Rightarrow> nat \<Rightarrow> nat \<Rightarrow> bool" where
  "same_outside cb cb' count dirty changed \<longleftrightarrow>
     (\<forall>r < count. \<not> (dirty \<le> r \<and> r - dirty < changed) \<longrightarrow> row_data cb' r = row_data cb r)"

lemma same_outside_refl [simp]: "same_outside cb cb n d c"
  by (simp add: same_outside_def)

lemma refresh_ok:
  assumes ok: "listview_ok cb l" and w': "window_ok w'" "bind_window v d c = (w', rebind)"
    and v: "vw_bound v = vw_bound (li_window l)" "vw_pitch v = li_pitch l"
    and room: "int (vw_count w') * li_detail_pitch l < 2 ^ 31"
    and data: "same_outside cb cb' (vw_count w') d c"
  shows "listview_ok cb' (apply_window cb' (l\<lparr> li_window := w' \<rparr>) rebind) \<and>
    li_started (apply_window cb' (l\<lparr> li_window := w' \<rparr>) rebind) = li_started l \<and>
    li_start_first (apply_window cb' (l\<lparr> li_window := w' \<rparr>) rebind) = li_start_first l"
proof -
  have p: "vw_pitch w' = li_pitch l" using bind_window_fields(2) [of v d c] w'(2) v(2) by simp
  have old: "window_ok (li_window l)" "vw_pitch (li_window l) = li_pitch l"
    using ok by (simp_all add: listview_ok_def listview_fits_def)
  have fits: "listview_fits (l\<lparr> li_window := w' \<rparr>)"
    using ok w'(1) p room by (simp add: listview_ok_def listview_fits_def)
  have "others_right cb' (l\<lparr> li_window := w' \<rparr>) rebind" if "li_started l"
    unfolding others_right_def
  proof (intro allI impI)
    fix slot assume "slot < vw_slots (li_window (l\<lparr> li_window := w' \<rparr>))" and slot: "slot \<notin> set rebind"
    then have s: "slot < vw_slots w'" by simp
    note u = unlisted_slot [OF old(1) w' v(1) s slot]
    have shows_old: "pool_shows cb l" using ok that by (simp add: listview_ok_def)
    have "row_data cb' (vw_bound w' ! slot) = row_data cb (vw_bound w' ! slot)"
      using data u(3) bound_row(1) [OF w'(1) s] by (simp add: same_outside_def)
    then have "wanted_row cb' w' slot = wanted_row cb (li_window l) slot"
      using u(2) p old(2) by (simp add: wanted_row_def)
    then show "slot < length (li_slots (l\<lparr> li_window := w' \<rparr>)) \<and>
        li_slots (l\<lparr> li_window := w' \<rparr>) ! slot = wanted_row cb' (li_window (l\<lparr> li_window := w' \<rparr>)) slot"
      using shows_old u(1) by (simp add: pool_shows_def)
  qed
  then show ?thesis using apply_window_ok [OF fits, of cb' rebind] by simp
qed

text \<open>An operation that leaves the window as it is.\<close>

lemma refresh_same:
  assumes ok: "listview_ok cb l" and data: "\<And>r. r < vw_count (li_window l) \<Longrightarrow> row_data cb' r = row_data cb r"
  shows "listview_ok cb' (apply_window cb' l []) \<and> li_started (apply_window cb' l []) = li_started l \<and>
    li_start_first (apply_window cb' l []) = li_start_first l"
proof -
  have w: "window_ok (li_window l)" using ok by (simp add: listview_ok_def listview_fits_def)
  have "others_right cb' l []" if "li_started l"
    using ok that data bound_row(1) [OF w] by (auto simp: others_right_def listview_ok_def pool_shows_def wanted_row_def)
  then show ?thesis using apply_window_ok [of l cb' "[]"] ok by (simp add: listview_ok_def)
qed

lemma window_bind_same:
  assumes "window_ok w"
  shows "fst (bind_window w d c) = w"
proof -
  let ?w = "fst (bind_window w d c)"
  have ok: "window_ok ?w" using assms by (intro bind_window_ok) (simp add: window_ok_def)
  have "pool_size ?w = pool_size w" by (simp add: pool_size_def bind_window_fields)
  then have slots: "vw_slots ?w = vw_slots w" using window_okD(2) ok assms by simp
  then have first: "vw_first ?w = vw_first w" using window_okD(6) [OF ok] window_okD(6) [OF assms] by (simp add: bind_window_fields)
  have "vw_bound ?w = vw_bound w" using ok assms slots first by (simp add: window_ok_def window_bound_def)
  with slots first show ?thesis by (intro virtual_window.equality) (simp_all add: bind_window_fields)
qed


lemma listview_okD:
  assumes "listview_ok cb l"
  shows "window_ok (li_window l)" "vw_pitch (li_window l) = li_pitch l" "0 < li_pitch l" "li_pitch l < 2 ^ 31"
    "int (vw_count (li_window l)) * li_detail_pitch l < 2 ^ 31" "li_count l = vw_count (li_window l)"
    "int (vw_count (li_window l)) * li_pitch l < 2 ^ 31"
  using assms window_okD(1) [of "li_window l"] by (auto simp: listview_ok_def listview_fits_def geometry_ok_def)

lemma virtual_focus_ok:
  assumes ok: "listview_ok cb l"
  shows "listview_ok cb (virtual_focus cb l i) \<and> li_started (virtual_focus cb l i) = li_started l"
proof (cases "vw_count (li_window l) \<le> i")
  case True
  then show ?thesis
    using refresh_same [OF ok, of cb] ok
    by (simp add: virtual_focus_def fplinux_ui_virtual_set_focus_def)
next
  case False
  let ?v = "show_focus ((li_window l)\<lparr> vw_focus := i \<rparr>) (vw_top (li_window l))"
  obtain w' rebind where b: "bind_window ?v 0 0 = (w', rebind)" by fastforce
  have set: "fplinux_ui_virtual_set_focus (li_window l) i = (w', rebind)"
    using False b by (simp add: fplinux_ui_virtual_set_focus_def)
  have "window_ok w'" using set_focus_ok [OF listview_okD(1) [OF ok], of i] set by simp
  moreover have "vw_count w' = vw_count (li_window l)" using bind_window_fields(1) [of ?v 0 0] b by simp
  ultimately show ?thesis
    using refresh_ok [OF ok _ b, of cb] listview_okD [OF ok] ok by (simp add: virtual_focus_def set)
qed

lemma set_first_ok:
  assumes ok: "listview_ok cb l"
  shows "listview_ok cb (fplinux_ui_listview_set_first_visible cb l i) \<and>
    li_started (fplinux_ui_listview_set_first_visible cb l i) = li_started l"
proof (cases "li_count l = 0 \<or> \<not> li_started l")
  case True
  then show ?thesis
    using ok by (auto simp: fplinux_ui_listview_set_first_visible_def listview_ok_def listview_fits_def pool_shows_def Let_def)
next
  case False
  have c: "li_count l = vw_count (li_window l)" using ok by (rule listview_okD)
  define j where "j = (if li_count l \<le> i then li_count l - 1 else i)"
  have j: "j < vw_count (li_window l)" using False by (auto simp: j_def c)
  let ?v = "show_focus (li_window l) (int j * vw_pitch (li_window l))"
  obtain w' rebind where b: "bind_window ?v 0 0 = (w', rebind)" by fastforce
  have set: "fplinux_ui_virtual_set_top (li_window l) j = (w', rebind)"
    using j b by (simp add: fplinux_ui_virtual_set_top_def)
  have w': "window_ok w'" using set_top_ok [OF listview_okD(1) [OF ok], of j] set by simp
  have eq: "fplinux_ui_listview_set_first_visible cb l i =
      (if vw_top w' \<noteq> vw_top (li_window l) then apply_window cb (l\<lparr> li_window := w' \<rparr>) rebind else l\<lparr> li_window := w' \<rparr>)"
    using False unfolding fplinux_ui_listview_set_first_visible_def Let_def j_def [symmetric] set by simp
  show ?thesis
  proof (cases "vw_top w' = vw_top (li_window l)")
    case True
    have "vw_top w' = vw_top ?v" using bind_window_fields(5) [of ?v 0 0] b by simp
    then have "?v = li_window l" using True by (simp add: show_focus_def Let_def)
    then have "w' = li_window l" using window_bind_same [OF listview_okD(1) [OF ok], of 0 0] b by simp
    then show ?thesis using eq True ok by simp
  next
    case moved: False
    have "vw_count w' = vw_count (li_window l)" using bind_window_fields(1) [of ?v 0 0] b by simp
    then show ?thesis using refresh_ok [OF ok w' b, of cb] listview_okD [OF ok] moved eq by simp
  qed
qed

lemma start_virtual_ok:
  assumes ok: "listview_ok cb l"
  shows "listview_ok cb (start_virtual cb l)"
proof -
  let ?l = "apply_window cb (l\<lparr> li_started := True \<rparr>) [0..<vw_slots (li_window l)]"
  have fits: "listview_fits (l\<lparr> li_started := True \<rparr>)" using ok by (simp add: listview_ok_def listview_fits_def)
  have "listview_ok cb ?l"
    using apply_window_ok [OF fits, of cb "[0..<vw_slots (li_window l)]"] by (simp add: others_right_def)
  moreover from this have "listview_ok cb (?l\<lparr> li_start_first := SIZE_MAX \<rparr>)"
    by (simp add: listview_ok_def listview_fits_def pool_shows_def)
  ultimately show ?thesis unfolding start_virtual_def Let_def by (simp add: set_first_ok)
qed

lemma size_changed_ok:
  assumes ok: "listview_ok cb l" and view: "view < 2 ^ 31"
  shows "listview_ok cb (size_changed_cb cb l view)"
proof -
  note l = listview_okD [OF ok]
  obtain w' rebind where r: "fplinux_ui_virtual_resize (li_window l) (li_pitch l) view = (w', rebind)" by fastforce
  obtain v where v: "bind_window v 0 0 = (w', rebind)" "vw_bound v = vw_bound (li_window l)" "vw_pitch v = li_pitch l"
    "vw_count v = vw_count (li_window l)"
    using resize_bind [OF l(3), of "li_window l" view] r l(2) by auto
  have "window_ok w'" using resize_ok [OF l(1,4) view] l(3,7) r by (simp add: max_absorb2)
  moreover have "vw_count w' = vw_count (li_window l)" using bind_window_fields(1) [of v 0 0] v by simp
  ultimately show ?thesis
    using refresh_ok [OF ok _ v(1), of cb] v l(5) ok by (simp add: size_changed_cb_def r)
qed

lemma invalidate_view_ok:
  assumes ok: "listview_ok cb l" and data: "same_outside cb cb' (li_count l) first n"
  shows "listview_ok cb' (fplinux_ui_listview_invalidate cb' l first n)"
proof -
  note l = listview_okD [OF ok]
  obtain w' rebind where b: "bind_window (li_window l) first n = (w', rebind)" by fastforce
  have "w' = li_window l" using window_bind_same [OF l(1), of first n] b by simp
  then show ?thesis
    using refresh_ok [OF ok _ b, of cb'] l data
    by (simp add: fplinux_ui_listview_invalidate_def fplinux_ui_virtual_invalidate_def b)
qed


lemma rows_inserted_ok:
  assumes ok: "listview_ok cb l" and room: "int (li_count l + n) * max (li_pitch l) (li_detail_pitch l) < 2 ^ 31"
    and data: "\<And>r. r < at \<Longrightarrow> r < li_count l \<Longrightarrow> row_data cb' r = row_data cb r"
  shows "n \<noteq> 0 \<Longrightarrow> listview_ok cb' (fplinux_ui_listview_rows_inserted cb' l at n)"
proof (cases "vw_count (li_window l) < at")
  case True
  assume "n \<noteq> 0"
  then show ?thesis
    using True refresh_same [OF ok, of cb'] data listview_okD(6) [OF ok]
    by (simp add: fplinux_ui_listview_rows_inserted_def fplinux_ui_virtual_inserted_def Let_def)
next
  case False
  assume n: "n \<noteq> 0"
  note l = listview_okD [OF ok]
  have "int (li_count l + n) * li_pitch l \<le> int (li_count l + n) * max (li_pitch l) (li_detail_pitch l)"
    "int (li_count l + n) * li_detail_pitch l \<le> int (li_count l + n) * max (li_pitch l) (li_detail_pitch l)"
    by (intro mult_left_mono; simp)+
  then have rooms: "int (vw_count (li_window l) + n) * vw_pitch (li_window l) < 2 ^ 31"
    "int (vw_count (li_window l) + n) * li_detail_pitch l < 2 ^ 31"
    using room l(2,6) by simp_all
  let ?v = "keep_focus ((li_window l)\<lparr> vw_count := (vw_count (li_window l) + n) mod 2 ^ 32,
      vw_focus := (if vw_focus (li_window l) = SIZE_MAX then 0
                   else fplinux_ui_index_inserted (vw_focus (li_window l)) at n) \<rparr>) (focus_offset (li_window l))"
  obtain w' rebind where b: "bind_window ?v at SIZE_MAX = (w', rebind)" by fastforce
  have ins: "fplinux_ui_virtual_inserted (li_window l) at n = (w', rebind)"
    using False n b by (simp add: fplinux_ui_virtual_inserted_def)
  have w': "window_ok w'" using inserted_ok [OF l(1) rooms(1), of at] ins by simp
  have "vw_count w' = (vw_count (li_window l) + n) mod 2 ^ 32" using bind_window_fields(1) [of ?v at SIZE_MAX] b by simp
  also have "\<dots> \<le> vw_count (li_window l) + n" by (rule mod_less_eq_dividend)
  finally have le: "vw_count w' \<le> vw_count (li_window l) + n" .
  have "int (vw_count w') * li_detail_pitch l \<le> int (vw_count (li_window l) + n) * li_detail_pitch l"
    using le ok by (intro mult_right_mono) (auto simp: listview_ok_def listview_fits_def)
  moreover have "same_outside cb cb' (vw_count w') at SIZE_MAX"
    using data False count_small(2) [OF window_okD(1) [OF w']] l(6) by (auto simp: same_outside_def)
  ultimately show ?thesis
    using refresh_ok [OF ok w' b, of cb'] rooms(2) l(2) n by (simp add: fplinux_ui_listview_rows_inserted_def ins)
qed

lemma rows_deleted_ok:
  assumes ok: "listview_ok cb l" and data: "\<And>r. r < at \<Longrightarrow> r < li_count l \<Longrightarrow> row_data cb' r = row_data cb r"
  shows "n \<noteq> 0 \<Longrightarrow> listview_ok cb' (fplinux_ui_listview_rows_deleted cb' l at n)"
proof (cases "vw_count (li_window l) \<le> at")
  case True
  assume "n \<noteq> 0"
  then show ?thesis
    using True refresh_same [OF ok, of cb'] data listview_okD(6) [OF ok]
    by (simp add: fplinux_ui_listview_rows_deleted_def fplinux_ui_virtual_deleted_def Let_def)
next
  case False
  assume n: "n \<noteq> 0"
  note l = listview_okD [OF ok]
  define m where "m = (if vw_count (li_window l) - at < n then vw_count (li_window l) - at else n)"
  let ?v = "keep_focus ((li_window l)\<lparr> vw_focus := fplinux_ui_focus_deleted (vw_focus (li_window l)) at m (vw_count (li_window l)),
      vw_count := vw_count (li_window l) - m \<rparr>) (focus_offset (li_window l))"
  obtain w' rebind where b: "bind_window ?v at SIZE_MAX = (w', rebind)" by fastforce
  have del: "fplinux_ui_virtual_deleted (li_window l) at n = (w', rebind)"
    using False n b unfolding fplinux_ui_virtual_deleted_def Let_def m_def [symmetric] by simp
  have w': "window_ok w'" using deleted_ok [OF l(1), of at n] del by simp
  have le: "vw_count w' \<le> vw_count (li_window l)" using bind_window_fields(1) [of ?v at SIZE_MAX] b by simp
  have "int (vw_count w') * li_detail_pitch l \<le> int (vw_count (li_window l)) * li_detail_pitch l"
    using le ok by (intro mult_right_mono) (auto simp: listview_ok_def listview_fits_def)
  moreover have "same_outside cb cb' (vw_count w') at SIZE_MAX"
    using data le False count_small(2) [OF window_okD(1) [OF w']] l(6) by (auto simp: same_outside_def)
  ultimately show ?thesis
    using refresh_ok [OF ok w' b, of cb'] l(2,5) n by (simp add: fplinux_ui_listview_rows_deleted_def del)
qed

lemma create_virtual_ok:
  assumes "0 < pitch" "pitch < 2 ^ 31" "0 < pitch2" "pitch2 < 2 ^ 31" "view < 2 ^ 31"
    "int n * max pitch pitch2 < 2 ^ 31"
  shows "listview_ok cb (fplinux_ui_listview_create_virtual n pitch pitch2 inl view cb)"
proof -
  let ?w = "fst (fplinux_ui_virtual_init n pitch view)"
  have "int n * pitch \<le> int n * max pitch pitch2" "int n * pitch2 \<le> int n * max pitch pitch2"
    by (intro mult_left_mono; simp)+
  then have "int n * max 1 pitch < 2 ^ 31" "int n * pitch2 < 2 ^ 31" using assms(1,6) by (simp_all add: max_absorb2)
  then have "window_ok ?w" "vw_pitch ?w = pitch" "int (vw_count ?w) * pitch2 < 2 ^ 31"
    using window_init_ok [of pitch view n] assms by (simp_all add: fplinux_ui_virtual_init_def bind_window_fields)
  then show ?thesis
    unfolding fplinux_ui_listview_create_virtual_def Let_def
    using assms by (intro apply_window_ok [THEN conjunct1]) (simp_all add: listview_fits_def)
qed


lemma resize_focus: "vw_focus (fst (fplinux_ui_virtual_resize w p v)) = vw_focus w"
  "vw_count (fst (fplinux_ui_virtual_resize w p v)) = vw_count w"
  by (simp_all add: fplinux_ui_virtual_resize_def Let_def bind_window_fields)

lemma apply_window_same:
  "\<not> (li_started l \<and> li_details (filled cb rebind l) \<and> \<not> li_details l) \<Longrightarrow>
   li_window (apply_window cb l rebind) = li_window l"
  by (cases "li_started l") (simp_all add: apply_window_idle apply_window_plain fill_slots_frame)

lemma apply_window_focus:
  "vw_focus (li_window (apply_window cb l rebind)) = vw_focus (li_window l)"
  "vw_count (li_window (apply_window cb l rebind)) = vw_count (li_window l)"
proof -
  have "vw_focus (li_window (apply_window cb l rebind)) = vw_focus (li_window l) \<and>
      vw_count (li_window (apply_window cb l rebind)) = vw_count (li_window l)"
  proof (cases "li_started l \<and> li_details (filled cb rebind l) \<and> \<not> li_details l")
    case False
    then show ?thesis by (simp add: apply_window_same)
  next
    case True
    let ?f = "filled cb rebind l"
    obtain w' again where r: "fplinux_ui_virtual_resize (li_window l) (li_pitch ?f) (vw_view (li_window l)) = (w', again)"
      by fastforce
    have "vw_focus w' = vw_focus (li_window l)" "vw_count w' = vw_count (li_window l)"
      using resize_focus [of "li_window l" "li_pitch ?f" "vw_view (li_window l)"] r by simp_all
    moreover have "li_window (apply_window cb (?f\<lparr> li_window := w' \<rparr>) again) = w'"
      using True by (subst apply_window_same) simp_all
    ultimately show ?thesis using True by (simp add: apply_window_switch [OF _ _ _ r] Let_def)
  qed
  then show "vw_focus (li_window (apply_window cb l rebind)) = vw_focus (li_window l)"
    "vw_count (li_window (apply_window cb l rebind)) = vw_count (li_window l)" by simp_all
qed

subsection \<open>Reachable list views\<close>

inductive view_step :: "row_cb \<times> listview \<Rightarrow> row_cb \<times> listview \<Rightarrow> bool" where
  view_start: "view_step (cb, l) (cb, start_virtual cb l)"
| view_focus: "view_step (cb, l) (cb, virtual_focus cb l i)"
| view_select: "view_step (cb, l) (cb, fplinux_ui_listview_select cb l i)"
| view_move: "view_step (cb, l) (cb, fst (move_rows cb l rows boundary))"
| view_first: "view_step (cb, l) (cb, fplinux_ui_listview_set_first_visible cb l i)"
| view_size: "view < 2 ^ 31 \<Longrightarrow> view_step (cb, l) (cb, size_changed_cb cb l view)"
| view_invalidate: "same_outside cb cb' (li_count l) i n \<Longrightarrow>
    view_step (cb, l) (cb', fplinux_ui_listview_invalidate cb' l i n)"
| view_inserted: "\<lbrakk> n \<noteq> 0; int (li_count l + n) * max (li_pitch l) (li_detail_pitch l) < 2 ^ 31;
      \<forall>r < li_count l. r < i \<longrightarrow> row_data cb' r = row_data cb r \<rbrakk> \<Longrightarrow>
    view_step (cb, l) (cb', fplinux_ui_listview_rows_inserted cb' l i n)"
| view_deleted: "\<lbrakk> n \<noteq> 0; \<forall>r < li_count l. r < i \<longrightarrow> row_data cb' r = row_data cb r \<rbrakk> \<Longrightarrow>
    view_step (cb, l) (cb', fplinux_ui_listview_rows_deleted cb' l i n)"

inductive view_initial :: "row_cb \<times> listview \<Rightarrow> bool" where
  "\<lbrakk> 0 < pitch; pitch < 2 ^ 31; 0 < pitch2; pitch2 < 2 ^ 31; view < 2 ^ 31; int n * max pitch pitch2 < 2 ^ 31 \<rbrakk> \<Longrightarrow>
   view_initial (cb, fplinux_ui_listview_create_virtual n pitch pitch2 inl view cb)"

definition view_ok :: "row_cb \<times> listview \<Rightarrow> bool" where
  "view_ok s = listview_ok (fst s) (snd s)"

lemma select_ok: "listview_ok cb l \<Longrightarrow> listview_ok cb (fplinux_ui_listview_select cb l i)"
  by (simp add: fplinux_ui_listview_select_def virtual_focus_ok)

lemma move_rows_ok: "listview_ok cb l \<Longrightarrow> listview_ok cb (fst (move_rows cb l rows boundary))"
  by (simp add: move_rows_def virtual_focus_ok)

interpretation list_view: transition_system view_initial view_step view_ok
proof
  show "view_initial s \<Longrightarrow> view_ok s" for s
    by (induction rule: view_initial.induct) (simp add: view_ok_def create_virtual_ok)
  show "view_ok s'" if "view_ok s" and "view_step s s'" for s s'
    using that(2,1)
    by (induction rule: view_step.induct)
      (auto simp: view_ok_def intro: start_virtual_ok virtual_focus_ok [THEN conjunct1] select_ok move_rows_ok
        set_first_ok [THEN conjunct1] size_changed_ok invalidate_view_ok rows_inserted_ok rows_deleted_ok)
qed

section \<open>Properties of the list view\<close>

text \<open>
  C17. Whatever rows the application inserts, deletes and changes, however the user moves and the
  screen changes size, every pooled row of a started list view shows the present data of its row
  at the place of that row, every row that is visible even in part is among them, and the selected
  row is wholly visible.
\<close>

theorem listview_shows_data:
  assumes "view_initial s" and "view_step\<^sup>*\<^sup>* s (cb, l)" and "li_started l"
  shows "(\<forall>row \<in> set (li_slots l). \<exists>r < li_count l. row = Shown_row (row_data cb r) (int r * li_pitch l)) \<and>
         (\<forall>r < li_count l. rows_in_view (li_window l) \<le> VIRTUAL_SLOTS_MAX \<and>
            li_scroll l < (int r + 1) * li_pitch l \<and> int r * li_pitch l < li_scroll l + vw_view (li_window l) \<longrightarrow>
            Shown_row (row_data cb r) (int r * li_pitch l) \<in> set (li_slots l)) \<and>
         (li_count l \<noteq> 0 \<and> li_pitch l \<le> vw_view (li_window l) \<longrightarrow>
            li_selected l < li_count l \<and> li_scroll l \<le> int (li_selected l) * li_pitch l \<and>
            (int (li_selected l) + 1) * li_pitch l \<le> li_scroll l + vw_view (li_window l))"
proof -
  have ok: "listview_ok cb l" using list_view.reachable [OF assms(1,2)] by (simp add: view_ok_def)
  note l = listview_okD [OF ok]
  let ?w = "li_window l"
  have pool: "pool_shows cb l" using ok assms(3) by (simp add: listview_ok_def)
  then have shown: "length (li_slots l) = vw_slots ?w" "\<And>slot. slot < vw_slots ?w \<Longrightarrow> li_slots l ! slot = wanted_row cb ?w slot"
    "li_scroll l = vw_top ?w"
    by (simp_all add: pool_shows_def)
  have "\<exists>r < li_count l. row = Shown_row (row_data cb r) (int r * li_pitch l)" if row: "row \<in> set (li_slots l)" for row
  proof -
    from row obtain slot where "slot < vw_slots ?w" "row = li_slots l ! slot" using shown(1) by (auto simp: in_set_conv_nth)
    then show ?thesis using shown(2) bound_row(1) [OF l(1)] l(2,6) by (auto simp: wanted_row_def)
  qed
  moreover have "Shown_row (row_data cb r) (int r * li_pitch l) \<in> set (li_slots l)"
    if r: "r < li_count l" "rows_in_view ?w \<le> VIRTUAL_SLOTS_MAX"
      "li_scroll l < (int r + 1) * li_pitch l" "int r * li_pitch l < li_scroll l + vw_view ?w" for r
  proof -
    have vis: "vw_first ?w \<le> r" "r < vw_first ?w + vw_slots ?w"
      using visible_in_pool [OF l(1), of r] r l(2,6) shown(3) by simp_all
    then have s: "r mod vw_slots ?w < vw_slots ?w" by (intro mod_less_divisor) linarith
    have "vw_bound ?w ! (r mod vw_slots ?w) = r"
      using slot_row_mod [OF vis] bound_nth [OF l(1), of "r mod vw_slots ?w"] s window_okD(4) [OF l(1)] by simp
    then have "li_slots l ! (r mod vw_slots ?w) = Shown_row (row_data cb r) (int r * li_pitch l)"
      using shown(2) [OF s] l(2) by (simp add: wanted_row_def)
    then show ?thesis using s shown(1) by (metis nth_mem)
  qed
  moreover have "li_selected l < li_count l \<and> li_scroll l \<le> int (li_selected l) * li_pitch l \<and>
      (int (li_selected l) + 1) * li_pitch l \<le> li_scroll l + vw_view ?w"
    if "li_count l \<noteq> 0" "li_pitch l \<le> vw_view ?w"
  proof -
    have "vw_focus ?w \<noteq> SIZE_MAX" using that l(1,6) focus_row(3) window_okD(1) by metis
    then have "li_selected l = vw_focus ?w" using ok by (simp add: listview_ok_def)
    then show ?thesis
      using that l(1,2,6) shown(3)
      by (auto simp: window_ok_def window_placed_def geometry_ok_def focus_shown_def Let_def distrib_right)
  qed
  ultimately show ?thesis by blast
qed


definition example_rows :: row_cb where
  "example_rows i = (if i < 100 then Some \<lparr> vr_text = Some [of_nat i], vr_detail = None \<rparr> else None)"

definition example_view :: listview where
  "example_view = start_virtual example_rows (fplinux_ui_listview_create_virtual 100 20 32 False 95 example_rows)"

lemma fill_slots_plain:
  assumes "\<And>r. \<not> has_detail (row_data cb r)"
  shows "li_details (fill_slots cb rebind l) = li_details l"
  using fill_slots_keeps [where P = "\<lambda>m. li_details m = li_details l" and cb = cb and rebind = rebind and l = l] assms
  by (simp add: bind_slot_def set_detail_def Let_def)

lemma example_view_simps:
  "li_started example_view" "li_scroll example_view = 0" "li_count example_view = 100" "li_pitch example_view = 20"
  "li_window example_view = fst (fplinux_ui_virtual_init 100 20 95)" "li_selected example_view = 0"
proof -
  have plain: "\<not> has_detail (row_data example_rows r)" for r
    by (simp add: example_rows_def row_data_def has_detail_def)
  have none: "(0 :: nat) \<noteq> SIZE_MAX" by (simp add: SIZE_MAX_def)
  have same: "apply_window example_rows l rebind = (filled example_rows rebind l)\<lparr> li_scroll := vw_top (li_window l) \<rparr>"
    if "li_started l" for l rebind
    using that by (intro apply_window_plain) (simp_all add: fill_slots_plain [OF plain])
  have pitch: "li_pitch (fill_slots example_rows rebind l) = li_pitch l" for rebind l
    using fill_slots_pitch [of l example_rows rebind] fill_slots_plain [OF plain, of rebind l] by simp
  note eval = example_view_def start_virtual_def fplinux_ui_listview_create_virtual_def apply_window_idle same
    fill_slots_frame pitch example_init take_window_def Let_def none
  show "li_started example_view" "li_scroll example_view = 0" "li_count example_view = 100" "li_pitch example_view = 20"
    "li_window example_view = fst (fplinux_ui_virtual_init 100 20 95)" "li_selected example_view = 0"
    by (simp_all add: eval)
qed

lemma example_view_reachable:
  "view_initial (example_rows, fplinux_ui_listview_create_virtual 100 20 32 False 95 example_rows)"
  "view_step\<^sup>*\<^sup>* (example_rows, fplinux_ui_listview_create_virtual 100 20 32 False 95 example_rows)
     (example_rows, example_view)"
  unfolding example_view_def by (auto intro: view_initial.intros view_start)

theorem listview_shows_data_witness:
  "Shown_row \<lparr> vr_text = Some [4], vr_detail = None \<rparr> 80 \<in> set (li_slots example_view)"
proof -
  have "rows_in_view (li_window example_view) \<le> VIRTUAL_SLOTS_MAX"
    by (simp add: example_view_simps example_init rows_in_view_def VIRTUAL_SLOTS_MAX_def)
  with listview_shows_data [OF example_view_reachable example_view_simps(1)]
  have "Shown_row (row_data example_rows r) (int r * 20) \<in> set (li_slots example_view)"
    if "r < 100" "0 < (int r + 1) * 20" "int r * 20 < 95" for r
    using that by (simp add: example_view_simps) (simp add: example_init)
  from this [of 4] show ?thesis by (simp add: row_data_def example_rows_def)
qed

text \<open>
  Moving by rows selects the row that plain arithmetic says, in a cycle for single rows and up
  to the ends for pages, and changes nothing in an empty list.
\<close>

theorem move_selects_row:
  assumes "view_initial s" and "view_step\<^sup>*\<^sup>* s (cb, l)" and "- (2 ^ 31) \<le> rows" and "rows < 2 ^ 31"
  shows "if li_count l = 0 then move_rows cb l rows boundary = (l, False)
         else snd (move_rows cb l rows boundary) \<and>
              li_count (fst (move_rows cb l rows boundary)) = li_count l \<and>
              int (li_selected (fst (move_rows cb l rows boundary))) =
                (case boundary of
                   FOCUS_WRAP \<Rightarrow> (int (li_selected l) + rows) mod int (li_count l)
                 | FOCUS_CLAMP \<Rightarrow> max 0 (min (int (li_count l) - 1) (int (li_selected l) + rows)))"
proof (cases "li_count l = 0")
  case False
  have ok: "listview_ok cb l" using list_view.reachable [OF assms(1,2)] by (simp add: view_ok_def)
  note l = listview_okD [OF ok]
  let ?w = "li_window l"
  have f: "vw_focus ?w < li_count l" "vw_focus ?w \<noteq> SIZE_MAX"
    using window_okD(1) [OF l(1)] False l(6) focus_row(3) [of ?w] by (auto simp: geometry_ok_def)
  then have sel: "li_selected l = vw_focus ?w" using ok by (simp add: listview_ok_def)
  define i where "i = fplinux_ui_focus_step (li_selected l) (li_count l) rows boundary"
  have i: "int i = (case boundary of FOCUS_WRAP \<Rightarrow> (int (li_selected l) + rows) mod int (li_count l)
      | FOCUS_CLAMP \<Rightarrow> max 0 (min (int (li_count l) - 1) (int (li_selected l) + rows)))"
    unfolding i_def using step_arithmetic [OF f(1) assms(3,4)] sel by (cases boundary) simp_all
  have "int i < int (li_count l)" using False unfolding i by (cases boundary) auto
  then have small: "i < li_count l" by simp
  have none: "i \<noteq> SIZE_MAX" using small l(6) count_small(2) [OF window_okD(1) [OF l(1)]] by simp
  let ?l = "virtual_focus cb l i"
  have ok': "listview_ok cb ?l" using virtual_focus_ok [OF ok] by simp
  have w: "vw_focus (li_window ?l) = i" "vw_count (li_window ?l) = li_count l"
    using small none l(6)
    by (simp_all add: virtual_focus_def fplinux_ui_virtual_set_focus_def Let_def case_prod_beta apply_window_focus
        bind_window_fields)
  from none have "li_selected ?l = i" "li_count ?l = li_count l" using ok' w by (simp_all add: listview_ok_def)
  then show ?thesis using False i by (simp add: move_rows_def i_def [symmetric])
qed (simp add: move_rows_def)


theorem move_selects_row_witness:
  "int (li_selected (fst (move_rows example_rows example_view (- 1) FOCUS_WRAP))) = (0 - 1) mod 100"
  using move_selects_row [OF example_view_reachable, of "- 1" FOCUS_WRAP] by (simp add: example_view_simps)

end
