(* ===== verification/Date_Editor.thy ===== *)
theory Date_Editor
  imports Prelude "HOL-Library.Signed_Division"
begin

section \<open>The editor of dates, times and durations\<close>

text \<open>
  The last part of \<open>lib/fplinux/fplinux-ui-screen-model.c\<close>: an editor that shows a local time or
  a duration as parts in the order of the language and takes steps, moves and digits.  The array
  \<open>values\<close> indexed by the enumeration of the parts is a function of the part; the mask
  \<open>seen\<close> of parts is a set.  \<open>localtime_r\<close> and \<open>mktime\<close> are parameters.  The sums of C \<open>int\<close>s are
  written without wrapping; \<open>step_sums_fit\<close> shows that those of a step cannot overflow for a step
  below \<open>2\<^sup>3\<^sup>1 - 200\<close>, and the toolkit only ever takes steps of one.
\<close>

datatype date_part =
  DATE_DAY | DATE_MONTH | DATE_YEAR | DATE_HOUR | DATE_MINUTE | DATE_SECOND | DURATION_HOUR

definition DATE_YEAR_MIN :: int where "DATE_YEAR_MIN = 1900"
definition DATE_YEAR_MAX :: int where "DATE_YEAR_MAX = 2099"
definition DURATION_MAX_SECONDS :: u32 where "DURATION_MAX_SECONDS = 359999"
definition DATE_SEPARATOR_BYTES :: nat where "DATE_SEPARATOR_BYTES = 8"
definition DATE_TEXT_BYTES :: nat where
  "DATE_TEXT_BYTES = 12 + 4 * (DATE_SEPARATOR_BYTES - 1) + 1"
definition DATE_DEFAULT_PATTERN :: bytes where
  "DATE_DEFAULT_PATTERN = bytes_of ''{dd}.{mm}.{yyyy}''"

record local_tm =
  lt_sec :: int
  lt_min :: int
  lt_hour :: int
  lt_mday :: int
  lt_mon :: int
  lt_year :: int
  lt_wday :: int
  lt_yday :: int
  lt_isdst :: int

definition zero_tm :: local_tm where
  "zero_tm = \<lparr> lt_sec = 0, lt_min = 0, lt_hour = 0, lt_mday = 0, lt_mon = 0, lt_year = 0, lt_wday = 0,
     lt_yday = 0, lt_isdst = 0 \<rparr>"

record date_edit =
  de_duration :: bool
  de_time :: local_tm
  de_values :: "date_part \<Rightarrow> int"
  de_day :: int
  de_order :: "date_part list"
  de_separator :: "bytes list"
  de_count :: nat
  de_position :: nat
  de_part :: date_part
  de_typed :: nat

definition zero_edit :: date_edit where
  "zero_edit = \<lparr> de_duration = False, de_time = zero_tm, de_values = (\<lambda>_. 0), de_day = 0,
     de_order = replicate 7 DATE_DAY, de_separator = replicate 7 [], de_count = 0, de_position = 0,
     de_part = DATE_DAY, de_typed = 0 \<rparr>"

subsection \<open>Parts and their ranges\<close>

fun part_limits :: "date_part \<Rightarrow> int \<times> int" where
  "part_limits DATE_DAY = (1, 31)"
| "part_limits DATE_MONTH = (1, 12)"
| "part_limits DATE_YEAR = (DATE_YEAR_MIN, DATE_YEAR_MAX)"
| "part_limits DATE_HOUR = (0, 23)"
| "part_limits DATE_MINUTE = (0, 59)"
| "part_limits DATE_SECOND = (0, 59)"
| "part_limits DURATION_HOUR = (0, 99)"

definition clamp :: "int \<Rightarrow> int \<Rightarrow> int \<Rightarrow> int" where
  "clamp v low high = (if v < low then low else if high < v then high else v)"

definition days_in_month :: "int \<Rightarrow> int \<Rightarrow> int" where
  "days_in_month year month =
     (let days = [31, 28, 31, 30, 31, 30, 31, 31, 30, 31, 30, 31];
          leap = (year smod 4 = 0 \<and> year smod 100 \<noteq> 0) \<or> year smod 400 = 0
      in if month < 1 \<or> 12 < month then 31
         else if month = 2 \<and> leap then 29 else days ! nat (month - 1))"

definition part_high :: "date_edit \<Rightarrow> date_part \<Rightarrow> int" where
  "part_high e part =
     (if part = DATE_DAY then days_in_month (de_values e DATE_YEAR) (de_values e DATE_MONTH)
      else snd (part_limits part))"

definition part_width :: "date_part \<Rightarrow> nat" where
  "part_width part = (if part = DATE_YEAR then 4 else 2)"

definition set_value :: "date_part \<Rightarrow> int \<Rightarrow> date_edit \<Rightarrow> date_edit" where
  "set_value part v e = e\<lparr> de_values := (de_values e)(part := v) \<rparr>"

definition fit_day :: "date_edit \<Rightarrow> date_edit" where
  "fit_day e =
     (if de_duration e then e
      else set_value DATE_DAY (clamp (de_day e) 1 (part_high e DATE_DAY)) e)"

subsection \<open>The layout of the parts\<close>

definition placeholder_part :: "bytes \<Rightarrow> date_part option" where
  "placeholder_part name =
     map_of [(bytes_of ''dd'', DATE_DAY), (bytes_of ''day'', DATE_DAY), (bytes_of ''mm'', DATE_MONTH),
             (bytes_of ''month'', DATE_MONTH), (bytes_of ''month.genitive'', DATE_MONTH),
             (bytes_of ''yyyy'', DATE_YEAR)] name"

definition add_part :: "date_edit \<Rightarrow> date_part \<Rightarrow> bytes \<Rightarrow> bool \<times> date_edit" where
  "add_part e part separator =
     (if DATE_SEPARATOR_BYTES \<le> length separator then (False, e)
      else (True, e\<lparr> de_separator := (de_separator e)[de_count e := separator],
                     de_order := (de_order e)[de_count e := part],
                     de_count := de_count e + 1 \<rparr>))"

text \<open>One placeholder: the text up to it, its name and the rest of the pattern.\<close>

definition next_placeholder :: "bytes \<Rightarrow> (bytes \<times> (bytes \<times> bytes) option) option" where
  "next_placeholder pattern =
     (let literal = takeWhile (\<lambda>b. b \<noteq> 0x7b) pattern
      in case dropWhile (\<lambda>b. b \<noteq> 0x7b) pattern of
           [] \<Rightarrow> None
         | _ # name \<Rightarrow>
             Some (literal,
               case dropWhile (\<lambda>b. b \<noteq> 0x7d) name of
                 [] \<Rightarrow> None
               | _ # rest \<Rightarrow> Some (takeWhile (\<lambda>b. b \<noteq> 0x7d) name, rest)))"

lemma next_placeholder_shorter:
  "next_placeholder pattern = Some (literal, Some (name, rest)) \<Longrightarrow> length rest < length pattern"
proof -
  assume a: "next_placeholder pattern = Some (literal, Some (name, rest))"
  let ?t = "dropWhile (\<lambda>b. b \<noteq> 0x7b) pattern"
  obtain x ys where t: "?t = x # ys" using a by (cases ?t) (auto simp: next_placeholder_def Let_def)
  obtain y zs where d: "dropWhile (\<lambda>b. b \<noteq> 0x7d) ys = y # zs" "rest = zs"
    using a t by (auto simp: next_placeholder_def Let_def split: list.splits)
  have "length (x # ys) \<le> length pattern" unfolding t [symmetric] by (rule length_dropWhile_le)
  moreover have "length (y # zs) \<le> length ys" unfolding d(1) [symmetric] by (rule length_dropWhile_le)
  ultimately show ?thesis using d(2) by simp
qed

function add_parts_from :: "date_part set \<Rightarrow> date_edit \<Rightarrow> bytes \<Rightarrow> bool \<times> date_edit" where
  "add_parts_from seen e pattern =
     (case next_placeholder pattern of
        None \<Rightarrow> (seen = {DATE_DAY, DATE_MONTH, DATE_YEAR}, e)
      | Some (literal, None) \<Rightarrow> (False, e)
      | Some (literal, Some (name, rest)) \<Rightarrow>
          (case placeholder_part name of
             None \<Rightarrow> (False, e)
           | Some part \<Rightarrow>
               if part \<in> seen then (False, e)
               else (case add_part e part (if seen = {} then [] else literal) of
                       (False, e) \<Rightarrow> (False, e)
                     | (True, e) \<Rightarrow> add_parts_from (insert part seen) e rest)))"
  by pat_completeness auto
termination
  by (relation "measure (\<lambda>(seen, e, pattern). length pattern)") (auto dest: next_placeholder_shorter)

definition add_date_parts :: "date_edit \<Rightarrow> bytes option \<Rightarrow> bool \<times> date_edit" where
  "add_date_parts e pattern =
     (case pattern of None \<Rightarrow> (False, e) | Some p \<Rightarrow> add_parts_from {} e p)"

subsection \<open>Operations\<close>

definition fplinux_ui_date_edit_begin ::
  "(int \<Rightarrow> local_tm option) \<Rightarrow> int \<Rightarrow> bool \<Rightarrow> bool \<Rightarrow> bytes option \<Rightarrow> date_edit" where
  "fplinux_ui_date_edit_begin localtime_r v date time pattern =
     (let t = (case localtime_r v of Some t \<Rightarrow> t | None \<Rightarrow> zero_tm\<lparr> lt_year := 2000 - 1900, lt_mday := 1 \<rparr>);
          e = zero_edit\<lparr> de_time := t, de_day := clamp (lt_mday t) 1 31 \<rparr>;
          e = set_value DATE_MONTH (clamp (lt_mon t + 1) 1 12) e;
          e = set_value DATE_YEAR (clamp (lt_year t + 1900) DATE_YEAR_MIN DATE_YEAR_MAX) e;
          e = set_value DATE_HOUR (clamp (lt_hour t) 0 23) e;
          e = set_value DATE_MINUTE (clamp (lt_min t) 0 59) e;
          e = fit_day e;
          e = (if date \<or> \<not> time
               then (case add_date_parts e pattern of
                       (True, e) \<Rightarrow> e
                     | (False, e) \<Rightarrow> snd (add_date_parts (e\<lparr> de_count := 0 \<rparr>) (Some DATE_DEFAULT_PATTERN)))
               else e);
          e = (if time
               then let e = snd (add_part e DATE_HOUR (if de_count e \<noteq> 0 then bytes_of '' '' else []))
                    in snd (add_part e DATE_MINUTE (bytes_of '':''))
               else e)
      in e\<lparr> de_part := de_order e ! 0 \<rparr>)"

definition fplinux_ui_duration_edit_begin :: "u32 \<Rightarrow> date_edit" where
  "fplinux_ui_duration_edit_begin seconds =
     (let e = zero_edit\<lparr> de_duration := True \<rparr>;
          seconds = (if DURATION_MAX_SECONDS < seconds then DURATION_MAX_SECONDS else seconds);
          e = set_value DURATION_HOUR (uint (seconds div 3600)) e;
          e = set_value DATE_MINUTE (uint (seconds div 60 mod 60)) e;
          e = set_value DATE_SECOND (uint (seconds mod 60)) e;
          e = snd (add_part e DURATION_HOUR []);
          e = snd (add_part e DATE_MINUTE (bytes_of '':''));
          e = snd (add_part e DATE_SECOND (bytes_of '':''))
      in e\<lparr> de_part := de_order e ! 0 \<rparr>)"

definition complete_part :: "date_edit \<Rightarrow> date_edit" where
  "complete_part e =
     (let v = clamp (de_values e (de_part e)) (fst (part_limits (de_part e))) (snd (part_limits (de_part e)));
          e = set_value (de_part e) v e;
          e = (if de_part e = DATE_DAY then e\<lparr> de_day := v \<rparr> else e)
      in fit_day (e\<lparr> de_typed := 0 \<rparr>))"

definition fplinux_ui_date_edit_finish :: "date_edit \<Rightarrow> date_edit" where
  "fplinux_ui_date_edit_finish e = fit_day (if de_typed e \<noteq> 0 then complete_part e else e)"

definition fplinux_ui_date_edit_step :: "date_edit \<Rightarrow> int \<Rightarrow> date_edit" where
  "fplinux_ui_date_edit_step e delta =
     (let part = de_part e; low = fst (part_limits part);
          e = fplinux_ui_date_edit_finish e;
          span = part_high e part - low + 1;
          e = set_value part (low + ((de_values e part - low + delta) smod span + span) smod span) e;
          e = (if part = DATE_DAY then e\<lparr> de_day := de_values e part \<rparr> else e)
      in fit_day e)"

definition fplinux_ui_date_edit_move :: "date_edit \<Rightarrow> int \<Rightarrow> date_edit" where
  "fplinux_ui_date_edit_move e delta =
     (let count = int (de_count e);
          e = fplinux_ui_date_edit_finish e;
          p = nat (((int (de_position e) + delta) smod count + count) smod count)
      in e\<lparr> de_position := p, de_part := de_order e ! p \<rparr>)"

definition fplinux_ui_date_edit_digit :: "date_edit \<Rightarrow> nat \<Rightarrow> date_edit" where
  "fplinux_ui_date_edit_digit e digit =
     (if 9 < digit then e
      else let v = de_values e (de_part e);
               e = set_value (de_part e) (if de_typed e \<noteq> 0 then v * 10 + int digit else int digit) e;
               e = e\<lparr> de_typed := de_typed e + 1 \<rparr>
           in if de_typed e < part_width (de_part e) then e
              else let e = complete_part e
                   in if de_position e + 1 < de_count e
                      then e\<lparr> de_position := de_position e + 1, de_part := de_order e ! (de_position e + 1) \<rparr>
                      else e)"

text \<open>The broken-down time handed to \<open>mktime\<close>.\<close>

definition edited_time :: "date_edit \<Rightarrow> local_tm" where
  "edited_time e =
     (let c = fplinux_ui_date_edit_finish e
      in (de_time e)\<lparr> lt_mday := de_values c DATE_DAY, lt_mon := de_values c DATE_MONTH - 1,
           lt_year := de_values c DATE_YEAR - 1900, lt_hour := de_values c DATE_HOUR,
           lt_min := de_values c DATE_MINUTE, lt_isdst := - 1 \<rparr>)"

definition fplinux_ui_date_edit_value :: "(local_tm \<Rightarrow> int) \<Rightarrow> date_edit \<Rightarrow> int" where
  "fplinux_ui_date_edit_value mktime e = mktime (edited_time e)"

definition fplinux_ui_duration_edit_value :: "date_edit \<Rightarrow> u32" where
  "fplinux_ui_duration_edit_value e =
     (let c = fplinux_ui_date_edit_finish e
      in word_of_int (de_values c DURATION_HOUR) * 3600 + word_of_int (de_values c DATE_MINUTE) * 60 +
         word_of_int (de_values c DATE_SECOND))"

subsection \<open>The text of the editor\<close>

definition count_characters :: "bytes \<Rightarrow> nat" where
  "count_characters s = length (filter (\<lambda>b. b AND 0xc0 \<noteq> 0x80) s)"

fun decimal :: "nat \<Rightarrow> bytes" where
  "decimal n = (if n < 10 then [0x30 + of_nat n] else decimal (n div 10) @ [0x30 + of_nat (n mod 10)])"

declare decimal.simps [simp del]

text \<open>\<open>%0*d\<close>: the sign, then zeros up to the width, then the digits.\<close>

definition print_padded :: "nat \<Rightarrow> int \<Rightarrow> bytes" where
  "print_padded width v =
     (let digits = decimal (nat \<bar>v\<bar>); sign = (if v < 0 then [0x2d] else [])
      in sign @ replicate (width - length sign - length digits) 0x30 @ digits)"

fun format_parts :: "date_edit \<Rightarrow> nat \<Rightarrow> nat list \<Rightarrow> bytes \<Rightarrow> nat \<Rightarrow> nat \<Rightarrow> nat \<Rightarrow> bytes \<times> nat \<times> nat" where
  "format_parts e room [] out characters first past = (out, first, past)"
| "format_parts e room (i # is) out characters first past =
     (let part = de_order e ! i; separator = de_separator e ! i
      in if room - length out \<le> length separator
         then (out @ take (room - length out - 1) separator, first, past)
         else let out = out @ separator;
                  characters = characters + count_characters separator;
                  first = (if i = de_position e then characters else first);
                  digits = print_padded (part_width part) (de_values e part)
              in if room - length out \<le> length digits
                 then (out @ take (room - length out - 1) digits, first, past)
                 else let out = out @ digits;
                          characters = characters + length digits;
                          past = (if i = de_position e then characters else past)
                      in format_parts e room is out characters first past)"

definition fplinux_ui_date_edit_format :: "date_edit \<Rightarrow> nat \<Rightarrow> bytes \<times> nat \<times> nat" where
  "fplinux_ui_date_edit_format e room = format_parts e room [0..<de_count e] [] 0 0 0"


subsection \<open>The invariant\<close>

definition edited_parts :: "date_edit \<Rightarrow> date_part set" where
  "edited_parts e =
     (if de_duration e then {DURATION_HOUR, DATE_MINUTE, DATE_SECOND}
      else {DATE_DAY, DATE_MONTH, DATE_YEAR, DATE_HOUR, DATE_MINUTE})"

definition layout_ok :: "date_edit \<Rightarrow> bool" where
  "layout_ok e \<longleftrightarrow>
     length (de_order e) = 7 \<and> length (de_separator e) = 7 \<and> 0 < de_count e \<and> de_count e \<le> 7 \<and>
     distinct (take (de_count e) (de_order e)) \<and> set (take (de_count e) (de_order e)) \<subseteq> edited_parts e \<and>
     de_separator e ! 0 = [] \<and> (\<forall>i < de_count e. length (de_separator e ! i) < DATE_SEPARATOR_BYTES)"

definition in_limits :: "date_part \<Rightarrow> int \<Rightarrow> bool" where
  "in_limits part v \<longleftrightarrow> fst (part_limits part) \<le> v \<and> v \<le> snd (part_limits part)"

text \<open>Everything but the value of the focused part.\<close>

definition edit_frame :: "date_edit \<Rightarrow> bool" where
  "edit_frame e \<longleftrightarrow>
     layout_ok e \<and> de_position e < de_count e \<and> de_part e = de_order e ! de_position e \<and>
     (\<forall>p \<in> edited_parts e. p \<noteq> de_part e \<longrightarrow> in_limits p (de_values e p)) \<and>
     (\<not> de_duration e \<longrightarrow> 1 \<le> de_day e \<and> de_day e \<le> 31)"

text \<open>No digit is pending, every part is in range and the day fits its month.\<close>

definition edit_settled :: "date_edit \<Rightarrow> bool" where
  "edit_settled e \<longleftrightarrow>
     edit_frame e \<and> de_typed e = 0 \<and> in_limits (de_part e) (de_values e (de_part e)) \<and>
     (\<not> de_duration e \<longrightarrow> de_values e DATE_DAY = min (de_day e) (part_high e DATE_DAY))"

definition edit_ok :: "date_edit \<Rightarrow> bool" where
  "edit_ok e \<longleftrightarrow>
     edit_settled e \<or>
     edit_frame e \<and> 0 < de_typed e \<and> de_typed e < part_width (de_part e) \<and>
     0 \<le> de_values e (de_part e) \<and> de_values e (de_part e) < 10 ^ de_typed e"

lemma days_in_month_bounds: "28 \<le> days_in_month y m" "days_in_month y m \<le> 31"
proof -
  have *: "set [31, 28, 31, 30, 31, 30, 31, 31, 30, 31, 30, 31 :: int] \<subseteq> {28..31}" by simp
  have "[31, 28, 31, 30, 31, 30, 31, 31, 30, 31, 30, 31 :: int] ! nat (m - 1) \<in> {28..31}" if "1 \<le> m" "m \<le> 12"
    by (rule subsetD [OF * nth_mem]) (use that in simp)
  then show "28 \<le> days_in_month y m" "days_in_month y m \<le> 31" by (auto simp: days_in_month_def Let_def)
qed

lemma clamp_in: "low \<le> high \<Longrightarrow> low \<le> clamp v low high \<and> clamp v low high \<le> high"
  by (simp add: clamp_def)

lemma clamp_id: "low \<le> v \<Longrightarrow> v \<le> high \<Longrightarrow> clamp v low high = v"
  by (simp add: clamp_def)

lemma limits_ordered: "fst (part_limits p) \<le> snd (part_limits p)"
  by (cases p) (simp_all add: DATE_YEAR_MIN_def DATE_YEAR_MAX_def)

lemma limits_nonneg: "0 \<le> fst (part_limits p)" "snd (part_limits p) < 10 ^ part_width p"
  by (cases p; simp add: DATE_YEAR_MIN_def DATE_YEAR_MAX_def part_width_def)+

lemma set_value_simps [simp]:
  "de_duration (set_value p v e) = de_duration e" "de_time (set_value p v e) = de_time e"
  "de_values (set_value p v e) = (de_values e)(p := v)" "de_day (set_value p v e) = de_day e"
  "de_order (set_value p v e) = de_order e" "de_separator (set_value p v e) = de_separator e"
  "de_count (set_value p v e) = de_count e" "de_position (set_value p v e) = de_position e"
  "de_part (set_value p v e) = de_part e" "de_typed (set_value p v e) = de_typed e"
  by (simp_all add: set_value_def)

lemma edited_parts_simps [simp]:
  "edited_parts (set_value p v e) = edited_parts e" "edited_parts (e\<lparr> de_typed := t \<rparr>) = edited_parts e"
  "edited_parts (e\<lparr> de_day := y \<rparr>) = edited_parts e"
  "edited_parts (e\<lparr> de_position := i, de_part := q \<rparr>) = edited_parts e"
  by (simp_all add: edited_parts_def set_value_def)

lemma part_high_other [simp]: "part_high (set_value DATE_DAY v e) p = part_high e p"
  by (simp add: part_high_def)

lemma fit_day_simps [simp]:
  "de_duration (fit_day e) = de_duration e" "de_time (fit_day e) = de_time e" "de_day (fit_day e) = de_day e"
  "de_order (fit_day e) = de_order e" "de_separator (fit_day e) = de_separator e" "de_count (fit_day e) = de_count e"
  "de_position (fit_day e) = de_position e" "de_part (fit_day e) = de_part e" "de_typed (fit_day e) = de_typed e"
  "p \<noteq> DATE_DAY \<Longrightarrow> de_values (fit_day e) p = de_values e p"
  "de_duration e \<Longrightarrow> fit_day e = e"
  by (simp_all add: fit_day_def)

lemma fit_day_day:
  assumes "\<not> de_duration e" "1 \<le> de_day e"
  shows "de_values (fit_day e) DATE_DAY = min (de_day e) (part_high e DATE_DAY)"
    "part_high (fit_day e) p = part_high e p"
  using assms days_in_month_bounds [of "de_values e DATE_YEAR" "de_values e DATE_MONTH"]
  by (auto simp: fit_day_def clamp_def part_high_def)

lemma layout_part:
  assumes "layout_ok e" and "i < de_count e"
  shows "de_order e ! i \<in> edited_parts e"
proof -
  have "take (de_count e) (de_order e) ! i \<in> set (take (de_count e) (de_order e))"
    using assms by (intro nth_mem) (simp add: layout_ok_def)
  then show ?thesis using assms by (auto simp: layout_ok_def)
qed

text \<open>The day fitted to the month is in range, so only the other parts are left to check.\<close>

lemma fit_settled:
  assumes layout: "layout_ok e" "de_position e < de_count e" "de_part e = de_order e ! de_position e"
    and vals: "\<And>p. p \<in> edited_parts e \<Longrightarrow> p \<noteq> DATE_DAY \<Longrightarrow> in_limits p (de_values e p)"
    and day: "\<not> de_duration e \<Longrightarrow> 1 \<le> de_day e \<and> de_day e \<le> 31" and typed: "de_typed e = 0"
  shows "edit_settled (fit_day e)"
proof -
  have dayval: "in_limits DATE_DAY (de_values (fit_day e) DATE_DAY)" if "\<not> de_duration e"
    using fit_day_day(1) [of e] day that days_in_month_bounds [of "de_values e DATE_YEAR" "de_values e DATE_MONTH"]
    by (auto simp: in_limits_def part_high_def)
  have parts: "edited_parts (fit_day e) = edited_parts e" by (simp add: edited_parts_def)
  have all: "in_limits p (de_values (fit_day e) p)" if "p \<in> edited_parts e" for p
  proof (cases "p = DATE_DAY")
    case True
    with that have "\<not> de_duration e" by (auto simp: edited_parts_def split: if_splits)
    with True dayval show ?thesis by simp
  next
    case False
    with vals that show ?thesis by simp
  qed
  have "layout_ok (fit_day e)" using layout(1) parts by (simp add: layout_ok_def)
  moreover have "de_part e \<in> edited_parts e"
    using layout layout_part by simp
  ultimately show ?thesis
    using all layout(2,3) day typed fit_day_day [of e]
    by (auto simp: edit_settled_def edit_frame_def parts)
qed

lemma focused_part: "edit_frame e \<Longrightarrow> de_part e \<in> edited_parts e"
  by (simp add: edit_frame_def layout_part)

lemma complete_settled:
  assumes "edit_frame e"
  shows "edit_settled (complete_part e)"
proof -
  let ?p = "de_part e"
  let ?v = "clamp (de_values e ?p) (fst (part_limits ?p)) (snd (part_limits ?p))"
  have v: "in_limits ?p ?v" using clamp_in [OF limits_ordered [of ?p]] by (simp add: in_limits_def)
  let ?e = "if ?p = DATE_DAY then (set_value ?p ?v e)\<lparr> de_day := ?v \<rparr> else set_value ?p ?v e"
  have eq: "complete_part e = fit_day (?e\<lparr> de_typed := 0 \<rparr>)" by (simp add: complete_part_def Let_def)
  have parts: "edited_parts (?e\<lparr> de_typed := 0 \<rparr>) = edited_parts e" by (simp add: edited_parts_def)
  have layout: "layout_ok (?e\<lparr> de_typed := 0 \<rparr>)" using assms parts by (simp add: edit_frame_def layout_ok_def)
  show ?thesis
    unfolding eq
  proof (rule fit_settled)
    show "in_limits p (de_values (?e\<lparr> de_typed := 0 \<rparr>) p)"
      if "p \<in> edited_parts (?e\<lparr> de_typed := 0 \<rparr>)" "p \<noteq> DATE_DAY" for p
      using that v assms unfolding parts by (auto simp: edit_frame_def)
    show "1 \<le> de_day (?e\<lparr> de_typed := 0 \<rparr>) \<and> de_day (?e\<lparr> de_typed := 0 \<rparr>) \<le> 31"
      if "\<not> de_duration (?e\<lparr> de_typed := 0 \<rparr>)"
      using that v assms by (auto simp: edit_frame_def in_limits_def)
  qed (use layout assms in \<open>simp_all add: edit_frame_def\<close>)
qed

lemma settled_fit [simp]:
  assumes "edit_settled e"
  shows "fit_day e = e"
proof (cases "de_duration e")
  case False
  then have "clamp (de_day e) 1 (part_high e DATE_DAY) = de_values e DATE_DAY"
    using assms days_in_month_bounds [of "de_values e DATE_YEAR" "de_values e DATE_MONTH"]
    by (auto simp: edit_settled_def edit_frame_def clamp_def part_high_def)
  then show ?thesis using False by (simp add: fit_day_def set_value_def)
qed simp

lemma finish_settled: "edit_settled e \<Longrightarrow> fplinux_ui_date_edit_finish e = e"
  by (simp add: fplinux_ui_date_edit_finish_def edit_settled_def [of e])


lemma finish_ok:
  assumes "edit_ok e"
  shows "edit_settled (fplinux_ui_date_edit_finish e)"
proof (cases "edit_settled e")
  case True
  then show ?thesis by (simp add: finish_settled)
next
  case False
  with assms have "edit_frame e" "de_typed e \<noteq> 0" by (auto simp: edit_ok_def)
  then show ?thesis using complete_settled [of e] by (simp add: fplinux_ui_date_edit_finish_def)
qed

lemma finish_simps [simp]:
  "de_duration (fplinux_ui_date_edit_finish e) = de_duration e" "de_order (fplinux_ui_date_edit_finish e) = de_order e"
  "de_count (fplinux_ui_date_edit_finish e) = de_count e" "de_position (fplinux_ui_date_edit_finish e) = de_position e"
  "de_part (fplinux_ui_date_edit_finish e) = de_part e" "de_separator (fplinux_ui_date_edit_finish e) = de_separator e"
  "de_time (fplinux_ui_date_edit_finish e) = de_time e"
  by (simp_all add: fplinux_ui_date_edit_finish_def complete_part_def Let_def)

text \<open>C's remainder, made positive as the code does, is the modulus.\<close>

lemma smod_positive:
  assumes "0 < s"
  shows "(x smod s + s) smod s = x mod (s :: int)"
proof -
  have sm: "y smod s = (if y < 0 then - ((- y) mod s) else y mod s)" for y
    using assms by (auto simp: signed_modulo_int_def signed_divide_int_def sgn_if minus_mult_div_eq_mod minus_div_mult_eq_mod)
  show ?thesis
  proof (cases "x < 0")
    case True
    have "0 \<le> (- x) mod s" "(- x) mod s < s" using assms by simp_all
    then have "(x smod s + s) smod s = (s - (- x) mod s) mod s" using True sm by simp
    also have "\<dots> = x mod s" by (simp add: mod_minus_eq)
    finally show ?thesis .
  next
    case False
    have "0 \<le> x mod s" using assms by simp
    then show ?thesis using False sm assms by (simp add: not_less)
  qed
qed

lemma part_high_limits: "fst (part_limits p) \<le> part_high e p" "part_high e p \<le> snd (part_limits p)"
  using days_in_month_bounds [of "de_values e DATE_YEAR" "de_values e DATE_MONTH"] limits_ordered [of p]
  by (auto simp: part_high_def)

definition cycle :: "int \<Rightarrow> int \<Rightarrow> int \<Rightarrow> int" where
  "cycle low high v = low + (v - low) mod (high - low + 1)"

lemma cycle_bounds: "low \<le> high \<Longrightarrow> low \<le> cycle low high v \<and> cycle low high v \<le> high"
proof -
  assume "low \<le> high"
  then have "0 \<le> (v - low) mod (high - low + 1)" "(v - low) mod (high - low + 1) < high - low + 1"
    using pos_mod_bound [of "high - low + 1" "v - low"] by simp_all
  then show ?thesis by (simp add: cycle_def)
qed

text \<open>What a step does to a settled editor.\<close>

lemma step_eq:
  assumes "edit_settled e"
  shows "fplinux_ui_date_edit_step e delta =
    (let v = cycle (fst (part_limits (de_part e))) (part_high e (de_part e)) (de_values e (de_part e) + delta);
         s = set_value (de_part e) v e
     in fit_day (if de_part e = DATE_DAY then s\<lparr> de_day := v \<rparr> else s))"
proof -
  let ?p = "de_part e"
  have "0 < part_high e ?p - fst (part_limits ?p) + 1" using part_high_limits(1) [of ?p e] by simp
  note m = smod_positive [OF this]
  show ?thesis
    unfolding fplinux_ui_date_edit_step_def finish_settled [OF assms] Let_def m cycle_def
    by (simp add: algebra_simps)
qed

text \<open>No sum of a step leaves the range of a C \<open>int\<close>.\<close>

lemma step_sums_fit:
  assumes "in_limits (de_part e) (de_values e (de_part e))" "\<bar>delta\<bar> < 2 ^ 31 - 200"
  shows "(let low = fst (part_limits (de_part e)); s = de_values e (de_part e) - low + delta
          in - (2 ^ 31) \<le> s \<and> s < 2 ^ 31)"
  using assms by (cases "de_part e") (auto simp: in_limits_def DATE_YEAR_MIN_def DATE_YEAR_MAX_def Let_def)

lemma settled_values: "edit_settled e \<Longrightarrow> p \<in> edited_parts e \<Longrightarrow> in_limits p (de_values e p)"
  by (auto simp: edit_settled_def edit_frame_def)

lemma step_settled:
  assumes e: "edit_settled e"
  shows "edit_settled (fplinux_ui_date_edit_step e delta)"
proof -
  let ?p = "de_part e"
  let ?v = "cycle (fst (part_limits ?p)) (part_high e ?p) (de_values e ?p + delta)"
  have v: "fst (part_limits ?p) \<le> ?v" "?v \<le> snd (part_limits ?p)"
    using cycle_bounds [OF part_high_limits(1), of ?p e] part_high_limits(2) [of e ?p] by (meson order_trans)+
  let ?s = "set_value ?p ?v e"
  let ?t = "if ?p = DATE_DAY then ?s\<lparr> de_day := ?v \<rparr> else ?s"
  have parts: "edited_parts ?t = edited_parts e" by (simp add: edited_parts_def)
  have layout: "layout_ok ?t" using e parts by (simp add: edit_settled_def edit_frame_def layout_ok_def)
  show ?thesis
    unfolding step_eq [OF e] Let_def
  proof (rule fit_settled)
    show "in_limits p (de_values ?t p)" if "p \<in> edited_parts ?t" "p \<noteq> DATE_DAY" for p
      using that v settled_values [OF e] unfolding parts by (auto simp: in_limits_def)
    show "1 \<le> de_day ?t \<and> de_day ?t \<le> 31" if "\<not> de_duration ?t"
      using that v e by (auto simp: edit_settled_def edit_frame_def)
  qed (use layout e in \<open>simp_all add: edit_settled_def edit_frame_def\<close>)
qed

lemma step_finish: "edit_ok e \<Longrightarrow>
  fplinux_ui_date_edit_step e delta = fplinux_ui_date_edit_step (fplinux_ui_date_edit_finish e) delta"
  using finish_settled [OF finish_ok, of e] by (simp add: fplinux_ui_date_edit_step_def)

lemma edit_step_ok: "edit_ok e \<Longrightarrow> edit_settled (fplinux_ui_date_edit_step e delta)"
  by (subst step_finish) (simp_all add: step_settled finish_ok)

lemma move_position:
  assumes "edit_ok e"
  shows "de_position (fplinux_ui_date_edit_move e delta) = nat ((int (de_position e) + delta) mod int (de_count e))"
proof -
  have "0 < int (de_count e)" using assms by (auto simp: edit_ok_def edit_settled_def edit_frame_def layout_ok_def)
  from smod_positive [OF this] show ?thesis by (simp add: fplinux_ui_date_edit_move_def Let_def)
qed

text \<open>The focus of a settled editor can be put on any part.\<close>

lemma refocus_settled:
  assumes e: "edit_settled e" and p: "p < de_count e"
  shows "edit_settled (e\<lparr> de_position := p, de_part := de_order e ! p \<rparr>)"
proof -
  let ?e = "e\<lparr> de_position := p, de_part := de_order e ! p \<rparr>"
  have parts: "edited_parts ?e = edited_parts e" by (simp add: edited_parts_def)
  have layout: "layout_ok e" using e by (simp add: edit_settled_def edit_frame_def)
  have "layout_ok ?e" using layout parts by (simp add: layout_ok_def)
  moreover have "\<And>q. q \<in> edited_parts e \<Longrightarrow> in_limits q (de_values e q)" using settled_values [OF e] .
  moreover have "part_high ?e DATE_DAY = part_high e DATE_DAY" by (simp add: part_high_def)
  ultimately show ?thesis
    using e p layout_part [OF layout p] by (auto simp: edit_settled_def edit_frame_def parts)
qed

lemma move_ok_edit:
  assumes "edit_ok e"
  shows "edit_settled (fplinux_ui_date_edit_move e delta)"
proof -
  let ?f = "fplinux_ui_date_edit_finish e"
  let ?p = "nat ((int (de_position e) + delta) mod int (de_count e))"
  have c: "0 < int (de_count e)" using assms by (auto simp: edit_ok_def edit_settled_def edit_frame_def layout_ok_def)
  then have "?p < de_count e" by (simp add: nat_less_iff)
  moreover have "fplinux_ui_date_edit_move e delta = ?f\<lparr> de_position := ?p, de_part := de_order ?f ! ?p \<rparr>"
    using smod_positive [OF c] by (simp add: fplinux_ui_date_edit_move_def Let_def)
  ultimately show ?thesis using refocus_settled [OF finish_ok [OF assms], of ?p] by simp
qed


lemma digit_ok:
  assumes "edit_ok e"
  shows "edit_ok (fplinux_ui_date_edit_digit e d)"
proof (cases "9 < d")
  case False
  let ?p = "de_part e"
  let ?v = "if de_typed e \<noteq> 0 then de_values e ?p * 10 + int d else int d"
  let ?e = "(set_value ?p ?v e)\<lparr> de_typed := de_typed e + 1 \<rparr>"
  have frame: "edit_frame e" using assms by (auto simp: edit_ok_def edit_settled_def)
  have parts: "edited_parts ?e = edited_parts e" by (simp add: edited_parts_def)
  have frame': "edit_frame ?e" using frame unfolding edit_frame_def layout_ok_def by simp
  have v: "0 \<le> ?v" "?v < 10 ^ (de_typed e + 1)"
    using assms False by (auto simp: edit_ok_def edit_settled_def)
  show ?thesis
  proof (cases "de_typed e + 1 < part_width ?p")
    case True
    then have "fplinux_ui_date_edit_digit e d = ?e" using False by (simp add: fplinux_ui_date_edit_digit_def Let_def)
    then show ?thesis using frame' v True by (simp add: edit_ok_def)
  next
    case full: False
    let ?c = "complete_part ?e"
    have c: "edit_settled ?c" using frame' by (rule complete_settled)
    have "fplinux_ui_date_edit_digit e d =
        (if de_position ?c + 1 < de_count ?c
         then ?c\<lparr> de_position := de_position ?c + 1, de_part := de_order ?c ! (de_position ?c + 1) \<rparr> else ?c)"
      using False full unfolding fplinux_ui_date_edit_digit_def Let_def by simp
    then show ?thesis using c refocus_settled [OF c] by (simp add: edit_ok_def)
  qed
qed (use assms in \<open>simp add: fplinux_ui_date_edit_digit_def\<close>)

subsection \<open>The layout that is built\<close>

definition laid_out :: "date_part set \<Rightarrow> date_edit \<Rightarrow> bool" where
  "laid_out S e \<longleftrightarrow>
     length (de_order e) = 7 \<and> length (de_separator e) = 7 \<and> finite S \<and> de_count e = card S \<and>
     set (take (de_count e) (de_order e)) = S \<and> distinct (take (de_count e) (de_order e)) \<and>
     (S \<noteq> {} \<longrightarrow> de_separator e ! 0 = []) \<and> (\<forall>i < de_count e. length (de_separator e ! i) < DATE_SEPARATOR_BYTES)"

text \<open>Adding parts changes nothing but the layout.\<close>

definition same_but_layout :: "date_edit \<Rightarrow> date_edit \<Rightarrow> bool" where
  "same_but_layout e f \<longleftrightarrow>
     f = e\<lparr> de_order := de_order f, de_separator := de_separator f, de_count := de_count f \<rparr> \<and>
     length (de_order f) = length (de_order e) \<and> length (de_separator f) = length (de_separator e)"

lemma same_but_layout_refl [simp]: "same_but_layout e e"
  by (simp add: same_but_layout_def)

lemma same_but_layout_trans: "same_but_layout e f \<Longrightarrow> same_but_layout f g \<Longrightarrow> same_but_layout e g"
  unfolding same_but_layout_def by (cases e; cases f; cases g) simp

lemma same_but_layoutD:
  assumes "same_but_layout e f"
  shows "de_values f = de_values e" "de_day f = de_day e" "de_duration f = de_duration e"
    "de_typed f = de_typed e" "de_position f = de_position e" "de_time f = de_time e"
    "length (de_order f) = length (de_order e)" "length (de_separator f) = length (de_separator e)"
  using assms unfolding same_but_layout_def by (cases e; cases f; simp)+

lemma add_part_same: "same_but_layout e (snd (add_part e p sep))"
  by (simp add: add_part_def same_but_layout_def)

lemma add_part_laid:
  assumes laid: "laid_out S e" and p: "p \<notin> S" and room: "card S < 7"
    and sep: "length sep < DATE_SEPARATOR_BYTES" and first: "S = {} \<Longrightarrow> sep = []"
  shows "fst (add_part e p sep)" "laid_out (insert p S) (snd (add_part e p sep))"
proof -
  let ?f = "snd (add_part e p sep)"
  show "fst (add_part e p sep)" using sep by (simp add: add_part_def)
  have f: "?f = e\<lparr> de_separator := (de_separator e)[de_count e := sep], de_order := (de_order e)[de_count e := p],
      de_count := de_count e + 1 \<rparr>"
    using sep by (simp add: add_part_def)
  have c: "de_count e = card S" "finite S" "length (de_order e) = 7" "length (de_separator e) = 7"
    using laid by (simp_all add: laid_out_def)
  have taken: "take (de_count e + 1) ((de_order e)[de_count e := p]) = take (de_count e) (de_order e) @ [p]"
    using c room by (simp add: take_Suc_conv_app_nth)
  have "card S = 0 \<longleftrightarrow> S = {}" using c(2) by simp
  then have "(de_separator e)[de_count e := sep] ! 0 = []"
    using laid first c room by (cases "S = {}") (simp_all add: laid_out_def)
  moreover have "length ((de_separator e)[de_count e := sep] ! i) < DATE_SEPARATOR_BYTES" if "i < de_count e + 1" for i
    using that laid sep c room by (cases "i = de_count e") (simp_all add: laid_out_def)
  ultimately show "laid_out (insert p S) ?f"
    unfolding f laid_out_def using laid p c taken by (simp add: laid_out_def)
qed

lemma placeholder_date: "placeholder_part name = Some p \<Longrightarrow> p \<in> {DATE_DAY, DATE_MONTH, DATE_YEAR}"
  by (auto simp: placeholder_part_def split: if_splits)

lemma add_parts_from_laid:
  assumes "laid_out seen e" and "seen \<subseteq> {DATE_DAY, DATE_MONTH, DATE_YEAR}"
  shows "same_but_layout e (snd (add_parts_from seen e pattern)) \<and>
    (fst (add_parts_from seen e pattern) \<longrightarrow>
       laid_out {DATE_DAY, DATE_MONTH, DATE_YEAR} (snd (add_parts_from seen e pattern)))"
  using assms
proof (induction seen e pattern rule: add_parts_from.induct)
  case (1 seen e pattern)
  show ?case
  proof (cases "next_placeholder pattern")
    case None
    then show ?thesis using 1(2) by (subst (1 2 3) add_parts_from.simps) auto
  next
    case (Some pr)
    obtain literal more where pr: "pr = (literal, more)" by fastforce
    show ?thesis
    proof (cases more)
      case None
      then show ?thesis using Some pr by (subst (1 2 3) add_parts_from.simps) simp
    next
      case more: (Some nr)
      obtain name rest where nr: "nr = (name, rest)" by fastforce
      let ?np = "next_placeholder pattern = Some (literal, Some (name, rest))"
      have np: ?np using Some pr more nr by simp
      show ?thesis
      proof (cases "placeholder_part name")
        case None
        then show ?thesis using np by (subst (1 2 3) add_parts_from.simps) simp
      next
        case part: (Some p)
        let ?sep = "if seen = {} then [] else literal"
        obtain ok f where f: "add_part e p ?sep = (ok, f)" by fastforce
        have same: "same_but_layout e f" using add_part_same [of e p ?sep] f by simp
        show ?thesis
        proof (cases "p \<in> seen \<or> \<not> ok")
          case True
          then show ?thesis using np part f same by (subst (1 2 3) add_parts_from.simps) (auto split: if_splits)
        next
          case False
          have "card seen \<le> card {DATE_DAY, DATE_MONTH, DATE_YEAR}" using 1(3) by (intro card_mono) simp_all
          then have "card seen < 7" by simp
          moreover have "length ?sep < DATE_SEPARATOR_BYTES" using f False by (auto simp: add_part_def split: if_splits)
          ultimately have laid: "laid_out (insert p seen) f"
            using add_part_laid(2) [OF 1(2), of p ?sep] False f by simp
          have rec: "add_parts_from seen e pattern = add_parts_from (insert p seen) f rest"
            using np part f False by (subst add_parts_from.simps) simp
          have "same_but_layout f (snd (add_parts_from (insert p seen) f rest)) \<and>
              (fst (add_parts_from (insert p seen) f rest) \<longrightarrow>
                laid_out {DATE_DAY, DATE_MONTH, DATE_YEAR} (snd (add_parts_from (insert p seen) f rest)))"
            using 1(1) [OF np refl refl refl part _ f [symmetric]] False laid 1(3) placeholder_date [OF part] by auto
          then show ?thesis unfolding rec using same_but_layout_trans [OF same] by blast
        qed
      qed
    qed
  qed
qed


lemma laid_settled:
  assumes same: "same_but_layout b f" and laid: "laid_out S f" and S: "S \<noteq> {}" "S \<subseteq> edited_parts b"
    and start: "de_position b = 0" "de_typed b = 0"
    and vals: "\<And>p. p \<in> edited_parts b \<Longrightarrow> in_limits p (de_values b p)"
    and day: "\<not> de_duration b \<Longrightarrow> 1 \<le> de_day b \<and> de_day b \<le> 31 \<and> de_values b DATE_DAY = min (de_day b) (part_high b DATE_DAY)"
  shows "edit_settled (f\<lparr> de_part := de_order f ! 0 \<rparr>)"
proof -
  note f = same_but_layoutD [OF same]
  let ?e = "f\<lparr> de_part := de_order f ! 0 \<rparr>"
  have parts: "edited_parts ?e = edited_parts b" using f by (simp add: edited_parts_def)
  have fin: "card S \<noteq> 0" using laid S(1) by (simp add: laid_out_def)
  have "S \<subseteq> {DATE_DAY, DATE_MONTH, DATE_YEAR, DATE_HOUR, DATE_MINUTE, DATE_SECOND, DURATION_HOUR}"
    using S(2) by (auto simp: edited_parts_def split: if_splits)
  then have "card S \<le> card {DATE_DAY, DATE_MONTH, DATE_YEAR, DATE_HOUR, DATE_MINUTE, DATE_SECOND, DURATION_HOUR}"
    by (intro card_mono) simp_all
  then have "card S \<le> 7" by simp
  then have layout: "layout_ok ?e" using laid S fin unfolding layout_ok_def parts by (auto simp: laid_out_def card_gt_0_iff)
  have "part_high ?e DATE_DAY = part_high b DATE_DAY" using f by (simp add: part_high_def)
  then show ?thesis
    using layout layout_part [OF layout, of 0] f start vals day fin laid
    unfolding edit_settled_def edit_frame_def parts by (simp add: laid_out_def)
qed

lemma default_pattern_accepted: "fst (add_parts_from {} e DATE_DEFAULT_PATTERN)"
  by (simp add: DATE_DEFAULT_PATTERN_def add_parts_from.simps next_placeholder_def placeholder_part_def add_part_def
      DATE_SEPARATOR_BYTES_def insert_commute)

lemma date_parts_laid:
  assumes "laid_out {} e"
  shows "\<exists>f. (case add_date_parts e pattern of (True, f) \<Rightarrow> f
           | (False, f) \<Rightarrow> snd (add_date_parts (f\<lparr> de_count := 0 \<rparr>) (Some DATE_DEFAULT_PATTERN))) = f \<and>
         same_but_layout e f \<and> laid_out {DATE_DAY, DATE_MONTH, DATE_YEAR} f"
proof -
  obtain ok f where f: "add_date_parts e pattern = (ok, f)" by fastforce
  have same: "same_but_layout e f \<and> (ok \<longrightarrow> laid_out {DATE_DAY, DATE_MONTH, DATE_YEAR} f)"
    using add_parts_from_laid [OF assms, of "the pattern"] f by (auto simp: add_date_parts_def split: option.splits)
  show ?thesis
  proof (cases ok)
    case True
    then show ?thesis using f same by simp
  next
    case False
    let ?g = "f\<lparr> de_count := 0 \<rparr>"
    have "same_but_layout e ?g" using same unfolding same_but_layout_def by (cases e; cases f) simp
    moreover have "laid_out {} ?g"
      using assms same_but_layoutD [of e f] same by (simp add: laid_out_def)
    moreover note add_parts_from_laid [OF this, of DATE_DEFAULT_PATTERN] default_pattern_accepted [of ?g]
    ultimately show ?thesis using f False same_but_layout_trans by (auto simp: add_date_parts_def)
  qed
qed

lemma begin_settled: "edit_settled (fplinux_ui_date_edit_begin localtime_r v date time pattern)"
proof -
  define t where "t = (case localtime_r v of Some t \<Rightarrow> t | None \<Rightarrow> zero_tm\<lparr> lt_year := 2000 - 1900, lt_mday := 1 \<rparr>)"
  define b where "b = fit_day (set_value DATE_MINUTE (clamp (lt_min t) 0 59) (set_value DATE_HOUR (clamp (lt_hour t) 0 23)
      (set_value DATE_YEAR (clamp (lt_year t + 1900) DATE_YEAR_MIN DATE_YEAR_MAX)
        (set_value DATE_MONTH (clamp (lt_mon t + 1) 1 12) (zero_edit\<lparr> de_time := t, de_day := clamp (lt_mday t) 1 31 \<rparr>)))))"
  define d where "d = (if date \<or> \<not> time
      then (case add_date_parts b pattern of (True, e) \<Rightarrow> e
            | (False, e) \<Rightarrow> snd (add_date_parts (e\<lparr> de_count := 0 \<rparr>) (Some DATE_DEFAULT_PATTERN)))
      else b)"
  define f where "f = (if time
      then snd (add_part (snd (add_part d DATE_HOUR (if de_count d \<noteq> 0 then bytes_of '' '' else []))) DATE_MINUTE (bytes_of '':''))
      else d)"
  have eq: "fplinux_ui_date_edit_begin localtime_r v date time pattern = f\<lparr> de_part := de_order f ! 0 \<rparr>"
    unfolding fplinux_ui_date_edit_begin_def Let_def t_def [symmetric] b_def [symmetric] d_def [symmetric] f_def [symmetric] ..
  have b: "de_duration b = False" "de_position b = 0" "de_typed b = 0" "1 \<le> de_day b" "de_day b \<le> 31" "laid_out {} b"
    using clamp_in [of 1 31] by (simp_all add: b_def zero_edit_def laid_out_def)
  have fitted: "de_values b DATE_DAY = min (de_day b) (part_high b DATE_DAY)"
    unfolding b_def using clamp_in [of 1 31] by (simp add: fit_day_day zero_edit_def)
  have vals: "in_limits p (de_values b p)" if "p \<in> edited_parts b" for p
  proof (cases "p = DATE_DAY")
    case True
    then show ?thesis
      using b fitted days_in_month_bounds [of "de_values b DATE_YEAR" "de_values b DATE_MONTH"]
      by (auto simp: in_limits_def part_high_def)
  next
    case False
    then show ?thesis
      using that b(1) clamp_in
      by (auto simp: edited_parts_def b_def in_limits_def DATE_YEAR_MIN_def DATE_YEAR_MAX_def)
  qed
  let ?ymd = "{DATE_DAY, DATE_MONTH, DATE_YEAR}"
  let ?S = "if date \<or> \<not> time then ?ymd else {}"
  have d: "same_but_layout b d \<and> laid_out ?S d"
    using date_parts_laid [OF b(6), of pattern] b(6) unfolding d_def by auto
  let ?h = "add_part d DATE_HOUR (if de_count d \<noteq> 0 then bytes_of '' '' else [])"
  have "de_count d = card ?S" using d by (simp add: laid_out_def)
  then have h: "same_but_layout d (snd ?h) \<and> laid_out (insert DATE_HOUR ?S) (snd ?h)"
    using add_part_laid(2) [of ?S d DATE_HOUR "if de_count d \<noteq> 0 then bytes_of '' '' else []"] d
    by (auto simp: add_part_same DATE_SEPARATOR_BYTES_def)
  let ?m = "add_part (snd ?h) DATE_MINUTE (bytes_of '':'')"
  have m: "same_but_layout (snd ?h) (snd ?m) \<and> laid_out (insert DATE_MINUTE (insert DATE_HOUR ?S)) (snd ?m)"
    using add_part_laid(2) [of "insert DATE_HOUR ?S" "snd ?h" DATE_MINUTE "bytes_of '':''"] h
    by (auto simp: add_part_same DATE_SEPARATOR_BYTES_def)
  let ?T = "if time then insert DATE_MINUTE (insert DATE_HOUR ?S) else ?S"
  have "same_but_layout b f" unfolding f_def using d h m by (auto intro: same_but_layout_trans)
  moreover have "laid_out ?T f" unfolding f_def using d m by auto
  ultimately show ?thesis
    unfolding eq using b fitted vals by (intro laid_settled [of b f ?T]) (auto simp: edited_parts_def)
qed

lemma duration_parts:
  fixes s :: u32
  shows "uint (s div 3600) = int (unat s div 3600)" "uint (s div 60 mod 60) = int (unat s div 60 mod 60)"
    "uint (s mod 60) = int (unat s mod 60)"
  unfolding uint_nat unat_div unat_mod by simp_all

lemma duration_begin_settled: "edit_settled (fplinux_ui_duration_edit_begin seconds)"
proof -
  let ?s = "if DURATION_MAX_SECONDS < seconds then DURATION_MAX_SECONDS else seconds"
  have s: "unat ?s \<le> 359999" by (simp add: DURATION_MAX_SECONDS_def word_less_nat_alt)
  define b where "b = set_value DATE_SECOND (uint (?s mod 60)) (set_value DATE_MINUTE (uint (?s div 60 mod 60))
      (set_value DURATION_HOUR (uint (?s div 3600)) (zero_edit\<lparr> de_duration := True \<rparr>)))"
  let ?h = "snd (add_part b DURATION_HOUR [])"
  let ?m = "snd (add_part ?h DATE_MINUTE (bytes_of '':''))"
  let ?f = "snd (add_part ?m DATE_SECOND (bytes_of '':''))"
  have eq: "fplinux_ui_duration_edit_begin seconds = ?f\<lparr> de_part := de_order ?f ! 0 \<rparr>"
    unfolding fplinux_ui_duration_edit_begin_def Let_def b_def ..
  have b: "de_duration b" "de_position b = 0" "de_typed b = 0" "laid_out {} b"
    by (simp_all add: b_def zero_edit_def laid_out_def)
  have vals: "in_limits p (de_values b p)" if "p \<in> edited_parts b" for p
  proof -
    have "unat ?s div 3600 \<le> 99" using s div_le_mono [of "unat ?s" 359999 3600] by simp
    moreover have "unat ?s div 60 mod 60 \<le> 59" "unat ?s mod 60 \<le> 59"
      using mod_less_divisor [of 60 "unat ?s div 60"] mod_less_divisor [of 60 "unat ?s"] by linarith+
    ultimately show ?thesis
      using that b(1) unfolding b_def duration_parts edited_parts_def in_limits_def by auto
  qed
  have h: "same_but_layout b ?h" "laid_out {DURATION_HOUR} ?h"
    using add_part_laid(2) [OF b(4), of DURATION_HOUR "[]"] by (simp_all add: add_part_same DATE_SEPARATOR_BYTES_def)
  have m: "same_but_layout ?h ?m" "laid_out {DATE_MINUTE, DURATION_HOUR} ?m"
    using add_part_laid(2) [OF h(2), of DATE_MINUTE "bytes_of '':''"] by (simp_all add: add_part_same DATE_SEPARATOR_BYTES_def)
  have f: "same_but_layout ?m ?f" "laid_out {DATE_SECOND, DATE_MINUTE, DURATION_HOUR} ?f"
    using add_part_laid(2) [OF m(2), of DATE_SECOND "bytes_of '':''"] by (simp_all add: add_part_same DATE_SEPARATOR_BYTES_def)
  show ?thesis
    unfolding eq
  proof (rule laid_settled)
    show "same_but_layout b ?f" using h(1) m(1) f(1) by (blast intro: same_but_layout_trans)
  qed (use f(2) b vals in \<open>auto simp: edited_parts_def\<close>)
qed

end
