(* ===== verification/Date_Properties.thy ===== *)
theory Date_Properties
  imports Date_Editor
begin

section \<open>Properties of the date editor\<close>

text \<open>
  What a user of the editor of \<open>Date_Editor\<close> relies on, for every editor that is reached by
  steps, moves and digits: the date handed to \<open>mktime\<close> is a real one, the day once chosen comes
  back, typed digits arrive, durations survive, and the text fits its buffer.
\<close>

inductive edit_initial :: "date_edit \<Rightarrow> bool" where
  "edit_initial (fplinux_ui_date_edit_begin localtime_r v date time pattern)"
| "edit_initial (fplinux_ui_duration_edit_begin seconds)"

inductive edit_step :: "date_edit \<Rightarrow> date_edit \<Rightarrow> bool" where
  "edit_step e (fplinux_ui_date_edit_step e delta)"
| "edit_step e (fplinux_ui_date_edit_move e delta)"
| "edit_step e (fplinux_ui_date_edit_digit e digit)"
| "edit_step e (fplinux_ui_date_edit_finish e)"

lemma settled_ok: "edit_settled e \<Longrightarrow> edit_ok e"
  by (simp add: edit_ok_def)

interpretation editor: transition_system edit_initial edit_step edit_ok
proof
  show "edit_initial e \<Longrightarrow> edit_ok e" for e
    by (induction rule: edit_initial.induct) (simp_all add: settled_ok begin_settled duration_begin_settled)
  show "edit_ok e'" if "edit_ok e" and "edit_step e e'" for e e'
    using that(2,1)
    by (induction rule: edit_step.induct) (simp_all add: settled_ok edit_step_ok move_ok_edit digit_ok finish_ok)
qed

subsection \<open>Dates\<close>

text \<open>
  The Gregorian calendar, stated apart from the code: the leap years by divisibility, the
  lengths of the months as a table.  The table is checked against a day number that knows no
  month lengths, the count of days of a calendar whose year begins in March.
\<close>

definition gregorian_leap :: "int \<Rightarrow> bool" where
  "gregorian_leap y \<longleftrightarrow> 400 dvd y \<or> (4 dvd y \<and> \<not> 100 dvd y)"

definition gregorian_days :: "int \<Rightarrow> int \<Rightarrow> int" where
  "gregorian_days y m =
     (if m \<in> {4, 6, 9, 11} then 30 else if m = 2 then (if gregorian_leap y then 29 else 28) else 31)"

definition day_number :: "int \<Rightarrow> int \<Rightarrow> int \<Rightarrow> int" where
  "day_number y m d =
     (let march_year = (if m \<le> 2 then y - 1 else y); month = (m + 9) mod 12
      in 365 * march_year + march_year div 4 - march_year div 100 + march_year div 400 + (153 * month + 2) div 5 + d)"

lemma div_pred: "0 < k \<Longrightarrow> (y :: int) div k - (y - 1) div k = of_bool (k dvd y)"
proof -
  assume k: "0 < k"
  have "y div k = (y - 1) div k + of_bool (k dvd y)"
  proof (cases "k dvd y")
    case True
    then obtain q where q: "y = k * q" by (rule dvdE)
    have "(k * q - 1) div k = q - 1" using k by (intro int_div_pos_eq [where r = "k - 1"]) (simp_all add: algebra_simps)
    with q k show ?thesis by simp
  next
    case False
    then have r: "0 < y mod k" "y mod k < k" using k using pos_mod_bound [of k y] pos_mod_sign [of k y]
      by (auto simp: dvd_eq_mod_eq_0 order_less_le)
    have "(y - 1) div k = y div k"
      by (rule int_div_pos_eq [where r = "y mod k - 1"]) (use r in simp_all)
    with False show ?thesis by simp
  qed
  then show ?thesis by simp
qed

lemma gregorian_days_counted:
  assumes "1 \<le> m" "m \<le> 12"
  shows "gregorian_days y m =
    (if m = 12 then day_number (y + 1) 1 1 else day_number y (m + 1) 1) - day_number y m 1"
proof -
  have m: "m \<in> {1, 2, 3, 4, 5, 6, 7, 8, 9, 10, 11, 12}" using assms by (simp only: insert_iff empty_iff) presburger
  have leap: "(of_bool (4 dvd y) - of_bool (100 dvd y) + of_bool (400 dvd y) :: int) = of_bool (gregorian_leap y)"
    using dvd_trans [of 4 100 y] dvd_trans [of 100 400 y] by (auto simp: gregorian_leap_def)
  show ?thesis
  proof (cases "m = 2")
    case True
    have "day_number y 3 1 - day_number y 2 1 = 28 + of_bool (gregorian_leap y)"
      unfolding leap [symmetric] using div_pred [of 4 y] div_pred [of 100 y] div_pred [of 400 y]
      by (simp add: day_number_def Let_def)
    with True show ?thesis by (simp add: gregorian_days_def)
  next
    case False
    with m show ?thesis by (auto simp: gregorian_days_def day_number_def Let_def)
  qed
qed

lemma days_in_month_gregorian: "1 \<le> m \<Longrightarrow> m \<le> 12 \<Longrightarrow> 0 \<le> y \<Longrightarrow> days_in_month y m = gregorian_days y m"
proof -
  assume a: "1 \<le> m" "m \<le> 12" "0 \<le> y"
  have m: "m \<in> {1, 2, 3, 4, 5, 6, 7, 8, 9, 10, 11, 12}" using a(1,2) by (simp only: insert_iff empty_iff) presburger
  have leap: "((y smod 4 = 0 \<and> y smod 100 \<noteq> 0) \<or> y smod 400 = 0) = gregorian_leap y"
    using a(3) by (cases "y = 0") (auto simp: gregorian_leap_def signed_modulo_int_def dvd_eq_mod_eq_0)
  show ?thesis using m unfolding days_in_month_def leap by (auto simp: gregorian_days_def)
qed

text \<open>
  C18. Whatever is typed and stepped, the broken-down time handed to \<open>mktime\<close> is a real date of
  the Gregorian calendar and a real time, of the years 1900 to 2099, with the seconds of the
  original time, and its day is the chosen day cut to the length that the month has in that
  calendar.
\<close>

theorem edited_time_real:
  assumes "edit_initial e0" and "edit_step\<^sup>*\<^sup>* e0 e" and "\<not> de_duration e"
  shows "(let t = edited_time e; days = gregorian_days (lt_year t + 1900) (lt_mon t + 1)
          in 0 \<le> lt_mon t \<and> lt_mon t \<le> 11 \<and> 1900 \<le> lt_year t + 1900 \<and> lt_year t + 1900 \<le> 2099 \<and>
             1 \<le> lt_mday t \<and> lt_mday t \<le> days \<and>
             lt_mday t = min (de_day (fplinux_ui_date_edit_finish e)) days \<and>
             0 \<le> lt_hour t \<and> lt_hour t \<le> 23 \<and> 0 \<le> lt_min t \<and> lt_min t \<le> 59 \<and>
             lt_sec t = lt_sec (de_time e) \<and> lt_isdst t = - 1) \<and>
         fplinux_ui_date_edit_value mktime e = mktime (edited_time e)"
proof -
  let ?c = "fplinux_ui_date_edit_finish e"
  have c: "edit_settled ?c" using editor.reachable [OF assms(1,2)] by (rule finish_ok)
  have d: "\<not> de_duration ?c" using assms(3) by simp
  have "in_limits p (de_values ?c p)" if "p \<in> {DATE_DAY, DATE_MONTH, DATE_YEAR, DATE_HOUR, DATE_MINUTE}" for p
    using settled_values [OF c, of p] that d by (auto simp: edited_parts_def)
  note limits = this [of DATE_MONTH] this [of DATE_YEAR] this [of DATE_HOUR] this [of DATE_MINUTE] this [of DATE_DAY]
  have "days_in_month (de_values ?c DATE_YEAR) (de_values ?c DATE_MONTH) =
      gregorian_days (de_values ?c DATE_YEAR) (de_values ?c DATE_MONTH)"
    by (rule days_in_month_gregorian) (use limits in \<open>simp_all add: in_limits_def DATE_YEAR_MIN_def\<close>)
  with limits show ?thesis
    using c d by (simp add: edited_time_def fplinux_ui_date_edit_value_def Let_def in_limits_def edit_settled_def
        part_high_def DATE_YEAR_MIN_def DATE_YEAR_MAX_def)
qed

text \<open>The time editor at midnight on 1 January 2000, where \<open>localtime_r\<close> fails.\<close>

definition midnight :: date_edit where
  "midnight = fplinux_ui_date_edit_begin (\<lambda>_. None) 0 False True None"

lemma midnight_initial: "edit_initial midnight" "edit_step\<^sup>*\<^sup>* midnight midnight"
  unfolding midnight_def by (auto intro: edit_initial.intros)

lemma midnight_simps:
  "\<not> de_duration midnight" "de_part midnight = DATE_HOUR" "de_typed midnight = 0" "de_position midnight = 0"
  "de_count midnight = 2"
  by (simp_all add: midnight_def fplinux_ui_date_edit_begin_def Let_def add_part_def DATE_SEPARATOR_BYTES_def zero_edit_def)

theorem edited_time_real_witness:
  "1 \<le> lt_mday (edited_time midnight) \<and> lt_mon (edited_time midnight) \<le> 11"
  using edited_time_real [OF midnight_initial midnight_simps(1), where mktime = "\<lambda>_. 0"]
  unfolding Let_def by (elim conjE) (intro conjI; assumption)

lemma cycle_back: "low \<le> v \<Longrightarrow> v \<le> high \<Longrightarrow> cycle low high (cycle low high (v + d) - d) = v"
proof -
  assume v: "low \<le> v" "v \<le> high"
  let ?m = "high - low + 1"
  have "cycle low high (cycle low high (v + d) - d) = low + ((v + d - low) mod ?m - d) mod ?m"
    by (simp add: cycle_def algebra_simps)
  also have "((v + d - low) mod ?m - d) mod ?m = (v + d - low - d) mod ?m" by (rule mod_diff_left_eq)
  also have "\<dots> = v - low" using v by simp
  finally show ?thesis by simp
qed

lemma set_value_again: "p \<noteq> DATE_DAY \<Longrightarrow> set_value p w (fit_day (set_value p v e)) =
    (set_value p w e)\<lparr> de_values := (de_values e)(p := w, DATE_DAY := de_values (fit_day (set_value p v e)) DATE_DAY) \<rparr>"
  by (cases "de_duration e") (auto simp: set_value_def fit_day_def fun_eq_iff)

text \<open>
  A step of the month, the year or a time part taken back leaves the editor as it was, also
  when the month in between is too short for the chosen day: the day comes back.
\<close>

theorem step_back_restores:
  assumes "edit_initial e0" and "edit_step\<^sup>*\<^sup>* e0 e" and "de_part e \<noteq> DATE_DAY"
  shows "fplinux_ui_date_edit_step (fplinux_ui_date_edit_step e delta) (- delta) = fplinux_ui_date_edit_finish e"
proof -
  let ?c = "fplinux_ui_date_edit_finish e"
  let ?p = "de_part e"
  have ok: "edit_ok e" using assms(1,2) by (rule editor.reachable)
  have c: "edit_settled ?c" using ok by (rule finish_ok)
  let ?low = "fst (part_limits ?p)" and ?high = "snd (part_limits ?p)"
  have high: "part_high x ?p = ?high" for x using assms(3) by (simp add: part_high_def)
  have "in_limits ?p (de_values ?c ?p)" using c by (simp add: edit_settled_def)
  then have v: "?low \<le> de_values ?c ?p" "de_values ?c ?p \<le> ?high" by (simp_all add: in_limits_def)
  let ?v = "cycle ?low ?high (de_values ?c ?p + delta)"
  let ?s = "fit_day (set_value ?p ?v ?c)"
  have s: "fplinux_ui_date_edit_step e delta = ?s"
    using step_finish [OF ok, of delta] step_eq [OF c, of delta] assms(3) by (simp add: high Let_def)
  have st: "edit_settled ?s" using edit_step_ok [OF ok, of delta] s by simp
  have "de_values ?s ?p = ?v" using assms(3) by simp
  then have "fplinux_ui_date_edit_step ?s (- delta) = fit_day (set_value ?p (de_values ?c ?p) ?s)"
    using step_eq [OF st, of "- delta"] assms(3) cycle_back [OF v, of delta] by (simp add: high Let_def)
  also have "\<dots> = fit_day ?c"
    unfolding set_value_again [OF assms(3)] using assms(3)
    by (auto simp: fit_day_def set_value_def part_high_def fun_eq_iff)
  also have "\<dots> = ?c" using c by simp
  finally show ?thesis using s by simp
qed


theorem step_back_restores_witness:
  "fplinux_ui_date_edit_step (fplinux_ui_date_edit_step midnight 5) (- 5) = fplinux_ui_date_edit_finish midnight"
  by (rule step_back_restores [OF midnight_initial]) (simp add: midnight_simps)

subsection \<open>Typing\<close>

definition typed_number :: "nat list \<Rightarrow> int" where
  "typed_number ds = foldl (\<lambda>n d. n * 10 + int d) 0 ds"

abbreviation type_digits :: "date_edit \<Rightarrow> nat list \<Rightarrow> date_edit" where
  "type_digits \<equiv> foldl fplinux_ui_date_edit_digit"

lemma type_some:
  assumes "de_typed e = 0" and "ds \<noteq> []" and "length ds < part_width (de_part e)" and "\<forall>d \<in> set ds. d \<le> 9"
  shows "type_digits e ds = (set_value (de_part e) (typed_number ds) e)\<lparr> de_typed := length ds \<rparr>"
  using assms(2-4)
proof (induction ds rule: rev_nonempty_induct)
  case (single d)
  then show ?case
    using assms(1) by (simp add: fplinux_ui_date_edit_digit_def typed_number_def set_value_def Let_def)
next
  case (snoc d ds)
  then show ?case
    using assms(1) by (simp add: fplinux_ui_date_edit_digit_def typed_number_def set_value_def Let_def)
qed

lemma type_full:
  assumes "de_typed e = 0" and "length ds = part_width (de_part e)" and "\<forall>d \<in> set ds. d \<le> 9"
  shows "type_digits e ds =
    (let c = complete_part ((set_value (de_part e) (typed_number ds) e)\<lparr> de_typed := length ds \<rparr>)
     in if de_position c + 1 < de_count c
        then c\<lparr> de_position := de_position c + 1, de_part := de_order c ! (de_position c + 1) \<rparr> else c)"
proof -
  have "2 \<le> length ds" using assms(2) by (simp add: part_width_def split: if_splits)
  then obtain ks k where "ds = ks @ [k]" by (cases ds rule: rev_cases) auto
  moreover from this \<open>2 \<le> length ds\<close> have "ks \<noteq> []" by auto
  ultimately have ds: "ds = ks @ [k]" "ks \<noteq> []" by simp_all
  have "type_digits e ks = (set_value (de_part e) (typed_number ks) e)\<lparr> de_typed := length ks \<rparr>"
    using assms ds by (intro type_some) auto
  moreover have "typed_number ds = typed_number ks * 10 + int k" by (simp add: typed_number_def ds)
  ultimately show ?thesis
    using assms ds by (simp add: fplinux_ui_date_edit_digit_def Let_def set_value_def)
qed

lemma complete_simps [simp]:
  "de_position (complete_part e) = de_position e" "de_count (complete_part e) = de_count e"
  "de_order (complete_part e) = de_order e" "de_typed (complete_part e) = 0"
  by (simp_all add: complete_part_def Let_def)

text \<open>
  Typing as many digits as a part has sets the part to the number typed, brought into its
  range, and puts the focus on the next part; of the day it is the choice that is set.
\<close>

theorem typing_sets_part:
  assumes "edit_initial e0" and "edit_step\<^sup>*\<^sup>* e0 e" and "de_typed e = 0"
    and "length ds = part_width (de_part e)" and "\<forall>d \<in> set ds. d \<le> 9"
  shows "(let e' = type_digits e ds; v = clamp (typed_number ds) (fst (part_limits (de_part e))) (snd (part_limits (de_part e)))
          in (if de_part e = DATE_DAY then de_day e' = v else de_values e' (de_part e) = v \<and> de_day e' = de_day e) \<and>
             de_typed e' = 0 \<and>
             de_position e' = (if de_position e + 1 < de_count e then de_position e + 1 else de_position e) \<and>
             de_part e' = de_order e ! de_position e')"
proof -
  have frame: "edit_frame e" using editor.reachable [OF assms(1,2)] by (auto simp: edit_ok_def edit_settled_def)
  have part: "de_part e = de_order e ! de_position e" using frame by (simp add: edit_frame_def)
  let ?t = "(set_value (de_part e) (typed_number ds) e)\<lparr> de_typed := length ds \<rparr>"
  let ?v = "clamp (typed_number ds) (fst (part_limits (de_part e))) (snd (part_limits (de_part e)))"
  have c: "if de_part e = DATE_DAY then de_day (complete_part ?t) = ?v
      else de_values (complete_part ?t) (de_part e) = ?v \<and> de_day (complete_part ?t) = de_day e"
    "de_part (complete_part ?t) = de_part e"
    by (simp_all add: complete_part_def Let_def)
  show ?thesis
    unfolding type_full [OF assms(3-5)] Let_def
    using c part by (auto split: if_splits)
qed

theorem typing_sets_part_witness:
  "de_values (type_digits midnight [2, 7]) DATE_HOUR = 23 \<and> de_position (type_digits midnight [2, 7]) = 1"
  using typing_sets_part [OF midnight_initial midnight_simps(3), of "[2, 7]"]
  by (simp add: midnight_simps part_width_def typed_number_def clamp_def Let_def)

subsection \<open>Durations\<close>

lemma uint_of_small: "0 \<le> x \<Longrightarrow> x < 2 ^ 32 \<Longrightarrow> unat (word_of_int x :: u32) = nat x"
  by (simp add: unat_eq_nat_uint uint_word_of_int)

lemma duration_value:
  assumes c: "edit_settled e" "de_duration e"
  shows "int (unat (fplinux_ui_duration_edit_value e)) =
      de_values e DURATION_HOUR * 3600 + de_values e DATE_MINUTE * 60 + de_values e DATE_SECOND"
    and "de_values e DURATION_HOUR * 3600 + de_values e DATE_MINUTE * 60 + de_values e DATE_SECOND \<le> 359999"
proof -
  have l: "in_limits p (de_values e p)" if "p \<in> {DURATION_HOUR, DATE_MINUTE, DATE_SECOND}" for p
    using settled_values [OF c(1)] that c(2) by (simp add: edited_parts_def)
  obtain h m s where v: "de_values e DURATION_HOUR = int h" "de_values e DATE_MINUTE = int m" "de_values e DATE_SECOND = int s"
    "h \<le> 99" "m \<le> 59" "s \<le> 59"
    using l [of DURATION_HOUR] l [of DATE_MINUTE] l [of DATE_SECOND]
    by (auto simp: in_limits_def elim!: nonneg_int_cases)
  have "fplinux_ui_duration_edit_value e = word_of_nat (h * 3600 + m * 60 + s)"
    by (simp add: fplinux_ui_duration_edit_value_def finish_settled [OF c(1)] Let_def v(1-3))
  moreover have "h * 3600 + m * 60 + s \<le> 359999" using v by linarith
  ultimately have "unat (fplinux_ui_duration_edit_value e) = h * 3600 + m * 60 + s"
    by (simp only: unat_of_nat) simp
  then show "int (unat (fplinux_ui_duration_edit_value e)) =
      de_values e DURATION_HOUR * 3600 + de_values e DATE_MINUTE * 60 + de_values e DATE_SECOND"
    and "de_values e DURATION_HOUR * 3600 + de_values e DATE_MINUTE * 60 + de_values e DATE_SECOND \<le> 359999"
    using v by simp_all
qed

lemma duration_begin_values:
  assumes "unat seconds \<le> 359999"
  shows "de_values (fplinux_ui_duration_edit_begin seconds) DURATION_HOUR = int (unat seconds div 3600)"
    "de_values (fplinux_ui_duration_edit_begin seconds) DATE_MINUTE = int (unat seconds div 60 mod 60)"
    "de_values (fplinux_ui_duration_edit_begin seconds) DATE_SECOND = int (unat seconds mod 60)"
    "de_duration (fplinux_ui_duration_edit_begin seconds)"
proof -
  have "\<not> DURATION_MAX_SECONDS < seconds" using assms by (simp add: DURATION_MAX_SECONDS_def word_less_nat_alt)
  then show "de_values (fplinux_ui_duration_edit_begin seconds) DURATION_HOUR = int (unat seconds div 3600)"
    "de_values (fplinux_ui_duration_edit_begin seconds) DATE_MINUTE = int (unat seconds div 60 mod 60)"
    "de_values (fplinux_ui_duration_edit_begin seconds) DATE_SECOND = int (unat seconds mod 60)"
    "de_duration (fplinux_ui_duration_edit_begin seconds)"
    by (simp_all add: fplinux_ui_duration_edit_begin_def Let_def add_part_def DATE_SEPARATOR_BYTES_def
        zero_edit_def duration_parts unat_div)
qed

lemma hms_split:
  fixes h m s :: nat
  assumes "m < 60" "s < 60"
  shows "(h * 3600 + m * 60 + s) div 3600 = h" "(h * 3600 + m * 60 + s) div 60 mod 60 = m"
    "(h * 3600 + m * 60 + s) mod 60 = s"
proof -
  have eq: "h * 3600 + m * 60 + s = s + (h * 60 + m) * 60" by simp
  have q: "(h * 3600 + m * 60 + s) div 60 = h * 60 + m" unfolding eq using assms by (subst div_mult_self1) simp_all
  show "(h * 3600 + m * 60 + s) mod 60 = s" unfolding eq using assms by (subst mod_mult_self1) simp
  show "(h * 3600 + m * 60 + s) div 60 mod 60 = m" unfolding q using assms by simp
  have "(h * 3600 + m * 60 + s) div 3600 = (h * 3600 + m * 60 + s) div 60 div 60"
    by (simp flip: div_mult2_eq)
  then show "(h * 3600 + m * 60 + s) div 3600 = h" unfolding q using assms by simp
qed

lemma hms_join: "n div 3600 * 3600 + n div 60 mod 60 * 60 + n mod 60 = (n :: nat)"
proof -
  have "n div 3600 = n div 60 div 60" by (simp flip: div_mult2_eq)
  moreover have "(n div 60) div 60 * 60 + (n div 60) mod 60 = n div 60" by (rule div_mult_mod_eq)
  moreover have "n div 60 * 60 + n mod 60 = n" by (rule div_mult_mod_eq)
  ultimately show ?thesis by linarith
qed

text \<open>
  A duration of up to 99:59:59 comes out of the editor as it went in; whatever is typed, the
  value stays below 100 hours, and starting the editor again with the value shows the same parts.
\<close>

theorem duration_round_trip:
  assumes "edit_initial e0" and "edit_step\<^sup>*\<^sup>* e0 e" and "de_duration e"
  shows "unat (fplinux_ui_duration_edit_value e) \<le> 359999 \<and>
         (\<forall>p \<in> {DURATION_HOUR, DATE_MINUTE, DATE_SECOND}.
            de_values (fplinux_ui_duration_edit_begin (fplinux_ui_duration_edit_value e)) p =
            de_values (fplinux_ui_date_edit_finish e) p) \<and>
         (unat seconds \<le> 359999 \<longrightarrow>
            fplinux_ui_duration_edit_value (fplinux_ui_duration_edit_begin seconds) = seconds)"
proof -
  let ?c = "fplinux_ui_date_edit_finish e"
  have c: "edit_settled ?c" "de_duration ?c"
    using finish_ok [OF editor.reachable [OF assms(1,2)]] assms(3) by simp_all
  have same: "fplinux_ui_duration_edit_value e = fplinux_ui_duration_edit_value ?c"
    unfolding fplinux_ui_duration_edit_value_def finish_settled [OF c(1)] ..
  note v = duration_value [OF c]
  have l: "in_limits p (de_values ?c p)" if "p \<in> {DURATION_HOUR, DATE_MINUTE, DATE_SECOND}" for p
    using settled_values [OF c(1)] that c(2) by (simp add: edited_parts_def)
  obtain h m s where hms: "de_values ?c DURATION_HOUR = int h" "de_values ?c DATE_MINUTE = int m"
    "de_values ?c DATE_SECOND = int s" "m < 60" "s < 60"
    using l [of DURATION_HOUR] l [of DATE_MINUTE] l [of DATE_SECOND]
    by (auto simp: in_limits_def elim!: nonneg_int_cases)
  have n: "unat (fplinux_ui_duration_edit_value ?c) = h * 3600 + m * 60 + s" "h * 3600 + m * 60 + s \<le> 359999"
    using v unfolding hms by linarith+
  note parts = hms_split [OF hms(4,5), of h]
  have "de_values (fplinux_ui_duration_edit_begin (fplinux_ui_duration_edit_value ?c)) p = de_values ?c p"
    if "p \<in> {DURATION_HOUR, DATE_MINUTE, DATE_SECOND}" for p
    using that duration_begin_values [of "fplinux_ui_duration_edit_value ?c"] n parts hms by auto
  moreover have "fplinux_ui_duration_edit_value (fplinux_ui_duration_edit_begin seconds) = seconds"
    if "unat seconds \<le> 359999"
  proof -
    let ?b = "fplinux_ui_duration_edit_begin seconds"
    have "int (unat (fplinux_ui_duration_edit_value ?b)) =
        int (unat seconds div 3600) * 3600 + int (unat seconds div 60 mod 60) * 60 + int (unat seconds mod 60)"
      using duration_value(1) [OF duration_begin_settled, of seconds] duration_begin_values [OF that] by simp
    also have "\<dots> = int (unat seconds div 3600 * 3600 + unat seconds div 60 mod 60 * 60 + unat seconds mod 60)" by simp
    also have "unat seconds div 3600 * 3600 + unat seconds div 60 mod 60 * 60 + unat seconds mod 60 = unat seconds"
      by (rule hms_join)
    finally have "unat (fplinux_ui_duration_edit_value ?b) = unat seconds" by linarith
    then show ?thesis by (simp only: word_unat_eq_iff)
  qed
  ultimately show ?thesis using n unfolding same by simp
qed


theorem duration_round_trip_witness:
  "fplinux_ui_duration_edit_value (fplinux_ui_duration_edit_begin 3661) = 3661"
proof -
  have "edit_initial (fplinux_ui_duration_edit_begin 60)" by (rule edit_initial.intros)
  moreover have "de_duration (fplinux_ui_duration_edit_begin 60)" by (rule duration_begin_values) simp
  ultimately show ?thesis using duration_round_trip [of "fplinux_ui_duration_edit_begin 60" _ 3661] by auto
qed

subsection \<open>The text\<close>

definition piece :: "date_edit \<Rightarrow> nat \<Rightarrow> bytes" where
  "piece e i = de_separator e ! i @ print_padded (part_width (de_order e ! i)) (de_values e (de_order e ! i))"

lemma digit_byte: "k < 10 \<Longrightarrow> unat (0x30 + word_of_nat k :: u8) = 48 + k"
  by (simp add: unat_word_ariths unat_of_nat)

lemma digit_not_cont: "k < 10 \<Longrightarrow> (0x30 + word_of_nat k :: u8) AND 0xc0 \<noteq> 0x80"
  unfolding cont_byte_iff by (simp add: digit_byte)

lemma decimal_digits: "\<forall>b \<in> set (decimal n). b AND 0xc0 \<noteq> 0x80"
proof (induction n rule: decimal.induct)
  case (1 n)
  then show ?case
    using digit_not_cont [of n] digit_not_cont [of "n mod 10"] by (subst decimal.simps) auto
qed

lemma decimal_length: "n < 10 ^ w \<Longrightarrow> 0 < w \<Longrightarrow> length (decimal n) \<le> w"
proof (induction n arbitrary: w rule: decimal.induct)
  case (1 n)
  show ?case
  proof (cases "n < 10")
    case False
    then obtain v where v: "w = Suc v" "0 < v" using 1(2,3) by (cases w; cases "w = 1") auto
    then have "n div 10 < 10 ^ v" using 1(2) by (simp add: less_mult_imp_div_less mult.commute)
    then have "length (decimal (n div 10)) \<le> v" using 1(1) False v(2) by blast
    then show ?thesis using v False by (subst decimal.simps) simp
  qed (use 1 in \<open>subst decimal.simps, simp\<close>)
qed

lemma print_padded_length:
  assumes "0 \<le> v" "v < 10 ^ w" "0 < w"
  shows "length (print_padded w v) = w" "count_characters (print_padded w v) = w"
proof -
  have "nat v < 10 ^ w" using assms(1,2) by (simp add: nat_less_iff)
  then have l: "length (decimal (nat v)) \<le> w" using assms(3) by (rule decimal_length)
  have eq: "print_padded w v = replicate (w - length (decimal (nat v))) 0x30 @ decimal (nat v)"
    using assms(1) by (simp add: print_padded_def Let_def)
  show len: "length (print_padded w v) = w" using l by (simp add: eq)
  have "\<forall>b \<in> set (print_padded w v). b AND 0xc0 \<noteq> 0x80"
    using decimal_digits [of "nat v"] digit_not_cont [of 0] by (auto simp: eq)
  then have "filter (\<lambda>b. b AND 0xc0 \<noteq> 0x80) (print_padded w v) = print_padded w v" by (intro filter_True)
  then show "count_characters (print_padded w v) = w" using len by (simp add: count_characters_def)
qed

lemma count_characters_Nil [simp]: "count_characters [] = 0"
  by (simp add: count_characters_def)

lemma count_characters_append [simp]: "count_characters (a @ b) = count_characters a + count_characters b"
  by (simp add: count_characters_def)

text \<open>With room for everything the text is the parts in their order.\<close>

lemma format_parts_all:
  assumes "length out + length (concat (map (piece e) is)) < room"
    and "\<forall>i \<in> set is. count_characters (print_padded (part_width (de_order e ! i)) (de_values e (de_order e ! i))) =
        length (print_padded (part_width (de_order e ! i)) (de_values e (de_order e ! i)))"
    and "distinct is" "characters = count_characters out"
  shows "format_parts e room is out characters first past =
    (out @ concat (map (piece e) is),
     if de_position e \<in> set is
     then count_characters (out @ concat (map (piece e) (takeWhile (\<lambda>i. i \<noteq> de_position e) is)) @ de_separator e ! de_position e)
     else first,
     if de_position e \<in> set is
     then count_characters (out @ concat (map (piece e) (takeWhile (\<lambda>i. i \<noteq> de_position e) is)) @ piece e (de_position e))
     else past)"
  using assms
proof (induction "is" arbitrary: out characters first past)
  case (Cons i "is")
  let ?d = "print_padded (part_width (de_order e ! i)) (de_values e (de_order e ! i))"
  let ?s = "de_separator e ! i"
  have room: "\<not> room - length out \<le> length ?s" "\<not> room - (length out + length ?s) \<le> length ?d"
    using Cons.prems(1) by (auto simp: piece_def)
  have d: "count_characters ?d = length ?d" using Cons.prems(2) by simp
  let ?first = "if i = de_position e then characters + count_characters ?s else first"
  let ?past = "if i = de_position e then characters + count_characters ?s + length ?d else past"
  have "format_parts e room (i # is) out characters first past =
      format_parts e room is ((out @ ?s) @ ?d) (characters + count_characters ?s + length ?d) ?first ?past"
    using room by (simp add: Let_def)
  also have "\<dots> = (((out @ ?s) @ ?d) @ concat (map (piece e) is),
     if de_position e \<in> set is
     then count_characters (((out @ ?s) @ ?d) @ concat (map (piece e) (takeWhile (\<lambda>i. i \<noteq> de_position e) is)) @ de_separator e ! de_position e)
     else ?first,
     if de_position e \<in> set is
     then count_characters (((out @ ?s) @ ?d) @ concat (map (piece e) (takeWhile (\<lambda>i. i \<noteq> de_position e) is)) @ piece e (de_position e))
     else ?past)"
    by (rule Cons.IH) (use Cons.prems d in \<open>simp_all add: piece_def\<close>)
  finally show ?case
    using Cons.prems(3,4) d piece_def [of e i]
    by (cases "i = de_position e") (simp_all del: format_parts.simps)
qed simp

lemma shown_value:
  assumes ok: "edit_ok e" and i: "i < de_count e"
  shows "0 \<le> de_values e (de_order e ! i)" "de_values e (de_order e ! i) < 10 ^ part_width (de_order e ! i)"
proof -
  let ?p = "de_order e ! i"
  have frame: "edit_frame e" using ok by (auto simp: edit_ok_def edit_settled_def)
  then have p: "?p \<in> edited_parts e" using i layout_part by (simp add: edit_frame_def)
  consider "in_limits ?p (de_values e ?p)"
    | "?p = de_part e" "0 \<le> de_values e ?p" "de_values e ?p < 10 ^ de_typed e" "de_typed e < part_width ?p"
    using ok frame p by (auto simp: edit_ok_def edit_settled_def edit_frame_def)
  then have "0 \<le> de_values e ?p \<and> de_values e ?p < 10 ^ part_width ?p"
  proof cases
    case 1
    then show ?thesis using limits_nonneg [of ?p] by (auto simp: in_limits_def)
  next
    case 2
    have "(10 :: int) ^ de_typed e \<le> 10 ^ part_width ?p" using 2(4) by (intro power_increasing) simp_all
    then show ?thesis using 2 by linarith
  qed
  then show "0 \<le> de_values e ?p" "de_values e ?p < 10 ^ part_width ?p" by simp_all
qed

lemma part_width_pos [simp]: "0 < part_width p"
  by (simp add: part_width_def)

lemma layout_widths:
  assumes "layout_ok e"
  shows "sum_list (map (\<lambda>i. part_width (de_order e ! i)) [0..<de_count e]) \<le> 12" "de_count e \<le> 5"
proof -
  let ?o = "take (de_count e) (de_order e)"
  have o: "distinct ?o" "set ?o \<subseteq> edited_parts e" "length ?o = de_count e" using assms by (simp_all add: layout_ok_def)
  have "map (\<lambda>i. part_width (de_order e ! i)) [0..<de_count e] = map part_width ?o"
    using o(3) by (intro nth_equalityI) simp_all
  then have "sum_list (map (\<lambda>i. part_width (de_order e ! i)) [0..<de_count e]) = sum part_width (set ?o)"
    using o(1) by (simp add: sum_list_distinct_conv_sum_set)
  also have "\<dots> \<le> sum part_width (edited_parts e)"
    using o(2) by (intro sum_mono2) (simp_all add: edited_parts_def)
  also have "\<dots> \<le> 12" by (simp add: edited_parts_def part_width_def)
  finally show "sum_list (map (\<lambda>i. part_width (de_order e ! i)) [0..<de_count e]) \<le> 12" .
  have "de_count e = card (set ?o)" using o(1,3) distinct_card [of ?o] by simp
  also have "\<dots> \<le> card (edited_parts e)" using o(2) by (intro card_mono) (simp_all add: edited_parts_def)
  also have "\<dots> \<le> 5" by (simp add: edited_parts_def)
  finally show "de_count e \<le> 5" .
qed

lemma layout_separators:
  assumes "layout_ok e" and "n \<le> de_count e"
  shows "sum_list (map (\<lambda>i. length (de_separator e ! i)) [0..<n]) \<le> 7 * (n - 1)"
  using assms(2)
proof (induction n)
  case (Suc n)
  have "length (de_separator e ! n) \<le> (if n = 0 then 0 else 7)"
    using assms(1) Suc.prems by (simp add: layout_ok_def DATE_SEPARATOR_BYTES_def Suc_le_eq less_Suc_eq_le [symmetric])
  then show ?case using Suc by (cases n) auto
qed simp

lemma text_length:
  assumes ok: "edit_ok e"
  shows "length (concat (map (piece e) [0..<de_count e])) < DATE_TEXT_BYTES"
proof -
  have layout: "layout_ok e" using ok by (auto simp: edit_ok_def edit_settled_def edit_frame_def)
  have "length (piece e i) = length (de_separator e ! i) + part_width (de_order e ! i)" if "i < de_count e" for i
    using print_padded_length(1) [OF shown_value [OF ok that]] by (simp add: piece_def)
  then have "map (length \<circ> piece e) [0..<de_count e] =
      map (\<lambda>i. length (de_separator e ! i) + part_width (de_order e ! i)) [0..<de_count e]"
    by simp
  from this [THEN arg_cong, of sum_list] have "length (concat (map (piece e) [0..<de_count e])) =
      sum_list (map (\<lambda>i. length (de_separator e ! i)) [0..<de_count e]) +
      sum_list (map (\<lambda>i. part_width (de_order e ! i)) [0..<de_count e])"
    by (simp add: length_concat sum_list_addf)
  also have "\<dots> \<le> 7 * (de_count e - 1) + 12"
    using layout_separators [OF layout order_refl] layout_widths(1) [OF layout] by simp
  also have "\<dots> < DATE_TEXT_BYTES"
    using layout_widths(2) [OF layout] by (simp add: DATE_TEXT_BYTES_def DATE_SEPARATOR_BYTES_def)
  finally show ?thesis .
qed

lemma takeWhile_upt: "k < n \<Longrightarrow> takeWhile (\<lambda>i. i \<noteq> k) [0..<n] = [0..<k]"
proof -
  assume "k < n"
  then have "[0..<n] = [0..<k] @ k # [Suc k..<n]"
    by (metis less_imp_le_nat upt_add_eq_append upt_conv_Cons zero_le le_add_diff_inverse)
  then have "takeWhile (\<lambda>i. i \<noteq> k) [0..<n] = [0..<k] @ takeWhile (\<lambda>i. i \<noteq> k) (k # [Suc k..<n])"
    by (simp only:) (rule takeWhile_append2, simp)
  then show ?thesis by simp
qed

text \<open>
  A buffer of the documented size always holds the whole text: each part with the text before
  it and all its digits; and the reported range in characters covers exactly the digits of the
  focused part.
\<close>

theorem format_shows_all:
  assumes "edit_initial e0" and "edit_step\<^sup>*\<^sup>* e0 e" and "DATE_TEXT_BYTES \<le> room"
  shows "(let first = count_characters (concat (map (piece e) [0..<de_position e]) @ de_separator e ! de_position e)
          in fplinux_ui_date_edit_format e room =
               (concat (map (piece e) [0..<de_count e]), first, first + part_width (de_part e))) \<and>
         length (concat (map (piece e) [0..<de_count e])) < DATE_TEXT_BYTES"
proof -
  have ok: "edit_ok e" using assms(1,2) by (rule editor.reachable)
  have pos: "de_position e < de_count e" "de_part e = de_order e ! de_position e"
    using ok by (auto simp: edit_ok_def edit_settled_def edit_frame_def)
  note len = text_length [OF ok]
  have chars: "count_characters (print_padded (part_width (de_order e ! i)) (de_values e (de_order e ! i))) =
      part_width (de_order e ! i)"
    "length (print_padded (part_width (de_order e ! i)) (de_values e (de_order e ! i))) = part_width (de_order e ! i)"
    if "i < de_count e" for i
    using print_padded_length [OF shown_value [OF ok that]] by simp_all
  have "fplinux_ui_date_edit_format e room =
      (concat (map (piece e) [0..<de_count e]),
       count_characters (concat (map (piece e) [0..<de_position e]) @ de_separator e ! de_position e),
       count_characters (concat (map (piece e) [0..<de_position e]) @ piece e (de_position e)))"
    unfolding fplinux_ui_date_edit_format_def
    using len assms(3) chars pos(1) by (subst format_parts_all) (simp_all add: takeWhile_upt)
  then show ?thesis using len chars [OF pos(1)] pos(2) by (simp add: piece_def Let_def)
qed


theorem format_shows_all_witness:
  "snd (fplinux_ui_date_edit_format midnight 41) = (0, 2)"
proof -
  have "DATE_TEXT_BYTES \<le> 41" by (simp add: DATE_TEXT_BYTES_def DATE_SEPARATOR_BYTES_def)
  moreover have "de_separator midnight ! 0 = []"
    by (simp add: midnight_def fplinux_ui_date_edit_begin_def Let_def add_part_def DATE_SEPARATOR_BYTES_def zero_edit_def)
  ultimately show ?thesis
    using format_shows_all [OF midnight_initial, of 41] by (simp add: midnight_simps part_width_def Let_def)
qed

end
