(* ===== verification/Calculator.thy ===== *)
theory Calculator
  imports Prelude
begin

section \<open>The calculator\<close>

text \<open>
  \<open>src/alpine/aports/fplinux-calculator/calculator.c\<close>: a keypad calculator that applies its
  operations from left to right.  The floating-point unit and the conversions of the C library,
  \<open>strtod\<close> and \<open>printf\<close> with \<open>%.*g\<close>, are the parameter \<open>F\<close>; what the code relies on of them
  are the laws of the locale \<open>float_laws\<close>.  A C string is the list of its characters.
\<close>

record 'f floats =
  fl_zero :: 'f
  fl_add :: "'f \<Rightarrow> 'f \<Rightarrow> 'f"
  fl_sub :: "'f \<Rightarrow> 'f \<Rightarrow> 'f"
  fl_mul :: "'f \<Rightarrow> 'f \<Rightarrow> 'f"
  fl_div :: "'f \<Rightarrow> 'f \<Rightarrow> 'f"
  fl_neg :: "'f \<Rightarrow> 'f"
  fl_is_zero :: "'f \<Rightarrow> bool"
  fl_finite :: "'f \<Rightarrow> bool"
  fl_read :: "string \<Rightarrow> 'f \<times> nat"
  fl_print :: "nat \<Rightarrow> 'f \<Rightarrow> string"

definition CALCULATOR_DIGIT_COUNT :: nat where "CALCULATOR_DIGIT_COUNT = 12"
definition CALCULATOR_TEXT_CHARS :: nat where "CALCULATOR_TEXT_CHARS = 14"
definition CALCULATOR_TEXT_BYTES :: nat where "CALCULATOR_TEXT_BYTES = CALCULATOR_TEXT_CHARS + 1"
definition CALCULATOR_SAVE_BYTES :: nat where "CALCULATOR_SAVE_BYTES = 64"

datatype calculator_state = STATE_EMPTY | STATE_FIRST_NUMBER | STATE_OPERATION | STATE_RESULT | STATE_ERROR
datatype calculator_error = NO_ERROR | DIVIDE_BY_ZERO | OVERFLOW
datatype calculator_input_result = IGNORED | CHANGED | DIGIT_LIMIT

record 'f calculator =
  ca_entry :: string
  ca_accumulator :: 'f
  ca_operation :: "char option"
  ca_result :: bool
  ca_error :: calculator_error

definition decimal_char :: "char \<Rightarrow> bool" where
  "decimal_char c \<longleftrightarrow> c \<in> set ''0123456789''"

definition count_digits :: "string \<Rightarrow> nat" where
  "count_digits s = length (filter decimal_char s)"

text \<open>\<open>snprintf\<close> into a buffer of the given size.\<close>

definition fit_text :: "nat \<Rightarrow> string \<Rightarrow> string" where
  "fit_text capacity s = take (capacity - 1) s"

definition clear :: "'f floats \<Rightarrow> 'f calculator" where
  "clear F = \<lparr> ca_entry = [], ca_accumulator = fl_zero F, ca_operation = None, ca_result = False, ca_error = NO_ERROR \<rparr>"

definition fail :: "'f floats \<Rightarrow> calculator_error \<Rightarrow> 'f calculator" where
  "fail F error = (clear F)\<lparr> ca_error := error \<rparr>"

definition strtod :: "'f floats \<Rightarrow> string \<Rightarrow> 'f" where
  "strtod F s = fst (fl_read F s)"

definition round_digits :: "'f floats \<Rightarrow> 'f \<Rightarrow> 'f" where
  "round_digits F v =
     (let v = strtod F (fit_text 32 (fl_print F CALCULATOR_DIGIT_COUNT v))
      in if fl_is_zero F v then fl_zero F else v)"

definition calculate :: "'f floats \<Rightarrow> 'f calculator \<Rightarrow> bool \<times> 'f calculator" where
  "calculate F c =
     (let operand = strtod F (ca_entry c); v = ca_accumulator c
      in if ca_operation c \<notin> {Some CHR ''+'', Some CHR ''-'', Some CHR ''*''} \<and> fl_is_zero F operand
         then (False, fail F DIVIDE_BY_ZERO)
         else let v = (if ca_operation c = Some CHR ''+'' then fl_add F v operand
                       else if ca_operation c = Some CHR ''-'' then fl_sub F v operand
                       else if ca_operation c = Some CHR ''*'' then fl_mul F v operand
                       else fl_div F v operand);
                  v = round_digits F v
              in if \<not> fl_finite F v then (False, fail F OVERFLOW)
                 else (True, c\<lparr> ca_accumulator := v, ca_entry := [] \<rparr>))"

definition type_digit :: "'f floats \<Rightarrow> 'f calculator \<Rightarrow> char \<Rightarrow> calculator_input_result \<times> 'f calculator" where
  "type_digit F c digit =
     (let c = (if ca_result c then clear F else c); entry = ca_entry c
      in if entry = ''0'' \<or> entry = ''-0''
         then if digit = CHR ''0'' then (IGNORED, c)
              else (CHANGED, c\<lparr> ca_entry := butlast entry @ [digit] \<rparr>)
         else if CALCULATOR_DIGIT_COUNT \<le> count_digits entry then (DIGIT_LIMIT, c)
         else (CHANGED, c\<lparr> ca_entry := entry @ [digit] \<rparr>))"

definition type_separator :: "'f floats \<Rightarrow> 'f calculator \<Rightarrow> calculator_input_result \<times> 'f calculator" where
  "type_separator F c =
     (let c = (if ca_result c then clear F else c); entry = ca_entry c; digits = count_digits entry
      in if CHR ''.'' \<in> set entry then (IGNORED, c)
         else if CALCULATOR_DIGIT_COUNT \<le> digits then (DIGIT_LIMIT, c)
         else (CHANGED, c\<lparr> ca_entry := entry @ (if digits \<noteq> 0 then ''.'' else ''0.'') \<rparr>))"

definition change_sign :: "'f floats \<Rightarrow> 'f calculator \<Rightarrow> bool \<times> 'f calculator" where
  "change_sign F c =
     (if ca_result c
      then if fl_is_zero F (ca_accumulator c) then (False, c)
           else (True, c\<lparr> ca_accumulator := fl_neg F (ca_accumulator c) \<rparr>)
      else (True, c\<lparr> ca_entry := (case ca_entry c of
                                   [] \<Rightarrow> ''-''
                                 | x # xs \<Rightarrow> if x = CHR ''-'' then xs else CHR ''-'' # x # xs) \<rparr>))"

definition choose_operation :: "'f floats \<Rightarrow> 'f calculator \<Rightarrow> char \<Rightarrow> bool \<times> 'f calculator" where
  "choose_operation F c operation =
     (let chosen = (\<lambda>c. (True, c\<lparr> ca_entry := [], ca_result := False, ca_operation := Some operation \<rparr>))
      in if count_digits (ca_entry c) \<noteq> 0
         then if ca_operation c = None
              then chosen (c\<lparr> ca_accumulator := round_digits F (strtod F (ca_entry c)) \<rparr>)
              else (case calculate F c of (True, c) \<Rightarrow> chosen c | (False, c) \<Rightarrow> (True, c))
         else if ca_operation c = None \<and> \<not> ca_result c
         then chosen (c\<lparr> ca_accumulator := fl_zero F \<rparr>)
         else if ca_operation c = Some operation \<and> ca_entry c = [] then (False, c)
         else chosen c)"

definition fplinux_calculator_can_evaluate :: "'f calculator \<Rightarrow> bool" where
  "fplinux_calculator_can_evaluate c \<longleftrightarrow>
     ca_error c = NO_ERROR \<and> ca_operation c \<noteq> None \<and> count_digits (ca_entry c) \<noteq> 0"

definition evaluate :: "'f floats \<Rightarrow> 'f calculator \<Rightarrow> bool \<times> 'f calculator" where
  "evaluate F c =
     (if \<not> fplinux_calculator_can_evaluate c then (False, c)
      else (case calculate F c of
              (True, c) \<Rightarrow> (True, c\<lparr> ca_operation := None, ca_result := True \<rparr>)
            | (False, c) \<Rightarrow> (True, c)))"

definition edit_accumulator :: "'f floats \<Rightarrow> 'f calculator \<Rightarrow> 'f calculator" where
  "edit_accumulator F c =
     (let c = c\<lparr> ca_operation := None \<rparr>
      in if fl_is_zero F (ca_accumulator c) then c
         else let s = fit_text 32 (fl_print F CALCULATOR_DIGIT_COUNT (ca_accumulator c))
              in if CHR ''e'' \<in> set s \<or> CALCULATOR_DIGIT_COUNT < count_digits s \<or> CALCULATOR_TEXT_BYTES \<le> length s
                 then c\<lparr> ca_result := True \<rparr>
                 else c\<lparr> ca_entry := s, ca_accumulator := fl_zero F \<rparr>)"

definition delete_character :: "'f floats \<Rightarrow> 'f calculator \<Rightarrow> bool \<times> 'f calculator" where
  "delete_character F c =
     (if ca_result c then (True, clear F)
      else if ca_entry c \<noteq> [] then (True, c\<lparr> ca_entry := butlast (ca_entry c) \<rparr>)
      else if ca_operation c = None then (False, c)
      else (True, edit_accumulator F c))"

definition fplinux_calculator_get_state :: "'f calculator \<Rightarrow> calculator_state" where
  "fplinux_calculator_get_state c =
     (if ca_error c \<noteq> NO_ERROR then STATE_ERROR
      else if ca_result c then STATE_RESULT
      else if ca_operation c \<noteq> None then STATE_OPERATION
      else if ca_entry c \<noteq> [] then STATE_FIRST_NUMBER
      else STATE_EMPTY)"

definition changed_result :: "bool \<times> 'f calculator \<Rightarrow> calculator_input_result \<times> 'f calculator" where
  "changed_result r = (if fst r then CHANGED else IGNORED, snd r)"

definition is_key :: "char \<Rightarrow> bool" where
  "is_key c \<longleftrightarrow> c \<in> set ''0123456789.#+-*/=<C''"

definition fplinux_calculator_input :: "'f floats \<Rightarrow> 'f calculator \<Rightarrow> char \<Rightarrow> calculator_input_result \<times> 'f calculator" where
  "fplinux_calculator_input F c key =
     (let starts_number = (decimal_char key \<or> key = CHR ''.'')
      in if \<not> is_key key then (IGNORED, c)
         else if ca_error c \<noteq> NO_ERROR \<and> \<not> starts_number \<or> key = CHR ''C''
         then (if fplinux_calculator_get_state c \<noteq> STATE_EMPTY then CHANGED else IGNORED, clear F)
         else let c = (if ca_error c \<noteq> NO_ERROR then clear F else c)
              in if decimal_char key then type_digit F c key
                 else if key = CHR ''.'' then type_separator F c
                 else if key = CHR ''#'' then changed_result (change_sign F c)
                 else if key = CHR ''='' then changed_result (evaluate F c)
                 else if key = CHR ''<'' then changed_result (delete_character F c)
                 else changed_result (choose_operation F c key))"

subsection \<open>Texts\<close>

fun use_separator :: "char \<Rightarrow> string \<Rightarrow> string" where
  "use_separator separator [] = []"
| "use_separator separator (x # xs) = (if x = CHR ''.'' then separator # xs else x # use_separator separator xs)"

fun drop_zeros :: "string \<Rightarrow> string" where
  "drop_zeros (x # y # xs) = (if x = CHR ''0'' then drop_zeros (y # xs) else x # y # xs)"
| "drop_zeros s = s"

definition shorten_exponent :: "string \<Rightarrow> string" where
  "shorten_exponent s =
     (case dropWhile (\<lambda>x. x \<noteq> CHR ''e'') s of
        [] \<Rightarrow> s
      | e # digits \<Rightarrow>
          takeWhile (\<lambda>x. x \<noteq> CHR ''e'') s @ e #
            (if digits \<noteq> [] \<and> hd digits = CHR ''+'' then drop_zeros (tl digits)
             else if digits \<noteq> [] \<and> hd digits = CHR ''-'' then hd digits # drop_zeros (tl digits)
             else drop_zeros digits))"

text \<open>The loop of \<open>fplinux_calculator_format\<close>; the precision is 1 more than the argument.\<close>

fun format_from :: "'f floats \<Rightarrow> 'f \<Rightarrow> nat \<Rightarrow> string" where
  "format_from F v 0 = shorten_exponent (fit_text 32 (fl_print F 1 v))"
| "format_from F v (Suc p) =
     (let s = shorten_exponent (fit_text 32 (fl_print F (Suc (Suc p)) v))
      in if length s \<le> CALCULATOR_TEXT_CHARS then s else format_from F v p)"

definition fplinux_calculator_format :: "'f floats \<Rightarrow> 'f \<Rightarrow> char \<Rightarrow> nat \<Rightarrow> string" where
  "fplinux_calculator_format F v separator capacity =
     (let v = (if fl_is_zero F v then fl_zero F else v)
      in fit_text capacity (use_separator separator (format_from F v (CALCULATOR_DIGIT_COUNT - 1))))"

definition fplinux_calculator_display :: "'f floats \<Rightarrow> 'f calculator \<Rightarrow> char \<Rightarrow> nat \<Rightarrow> string" where
  "fplinux_calculator_display F c separator capacity =
     (if ca_error c \<noteq> NO_ERROR then []
      else if ca_entry c \<noteq> [] then use_separator separator (fit_text capacity (ca_entry c))
      else if ca_result c \<or> ca_operation c \<noteq> None
      then fplinux_calculator_format F (ca_accumulator c) separator capacity
      else fit_text capacity ''0'')"

definition fplinux_calculator_save :: "'f floats \<Rightarrow> 'f calculator \<Rightarrow> nat \<Rightarrow> string" where
  "fplinux_calculator_save F c capacity =
     (let mode = (if ca_error c = DIVIDE_BY_ZERO then CHR ''d''
                  else if ca_error c = OVERFLOW then CHR ''o''
                  else if ca_result c then CHR ''r'' else CHR ''i'');
          operation = (case ca_operation c of Some x \<Rightarrow> x | None \<Rightarrow> CHR ''n'')
      in fit_text capacity ([mode, CHR '' '', operation, CHR '' ''] @ fl_print F 17 (ca_accumulator c) @ '' '' @ ca_entry c))"

text \<open>Typing a saved number again, with the sign key for \<open>-\<close>.\<close>

definition retype :: "'f floats \<Rightarrow> string \<Rightarrow> 'f calculator \<Rightarrow> 'f calculator" where
  "retype F entry c =
     fold (\<lambda>x c. snd (fplinux_calculator_input F c (if x = CHR ''-'' then CHR ''#'' else x))) entry c"

text \<open>The result says whether the text was accepted; the calculator is cleared otherwise.\<close>

definition fplinux_calculator_restore :: "'f floats \<Rightarrow> string \<Rightarrow> bool \<times> 'f calculator" where
  "fplinux_calculator_restore F s =
     (let failed = (False, clear F)
      in if length s < 5 \<or> s ! 1 \<noteq> CHR '' '' \<or> s ! 3 \<noteq> CHR '' '' then failed
         else let (accumulator, n) = fl_read F (drop 4 s); rest = drop (4 + n) s
              in if n = 0 \<or> (rest \<noteq> [] \<and> hd rest \<noteq> CHR '' '') \<or> \<not> fl_finite F accumulator then failed
                 else let entry = tl rest
                      in if CALCULATOR_TEXT_CHARS < length entry \<or> \<not> set entry \<subseteq> set ''0123456789.-'' then failed
                         else if s ! 0 = CHR ''i'' \<and> s ! 2 \<in> set ''+-*/n''
                         then let operation = (if s ! 2 = CHR ''n'' then None else Some (s ! 2));
                                  c = (clear F)\<lparr> ca_operation := operation,
                                        ca_accumulator := (if operation \<noteq> None then accumulator else fl_zero F) \<rparr>;
                                  c = retype F entry c
                              in if ca_entry c \<noteq> entry then failed else (True, c)
                         else if s ! 0 \<in> set ''rdo'' \<and> s ! 2 = CHR ''n'' \<and> entry = []
                         then (True, (clear F)\<lparr> ca_result := (s ! 0 = CHR ''r''),
                                ca_error := (if s ! 0 = CHR ''d'' then DIVIDE_BY_ZERO
                                             else if s ! 0 = CHR ''o'' then OVERFLOW else NO_ERROR),
                                ca_accumulator := (if s ! 0 = CHR ''r'' then accumulator else fl_zero F) \<rparr>)
                         else failed)"

end
