(* ===== verification/Calculator_Invariant.thy ===== *)
theory Calculator_Invariant
  imports Calculator
begin

section \<open>The invariant of the calculator\<close>

text \<open>
  The laws of the floating-point unit that \<open>calculator.c\<close> relies on, the shape of a number being
  typed, the invariant of a calculator under every sequence of keys, saving and restoring, the length of
  the display and the reference for chains of operations.
\<close>

subsection \<open>Numbers being typed\<close>

definition whole_ok :: "string \<Rightarrow> bool" where
  "whole_ok xs \<longleftrightarrow> xs \<noteq> [] \<and> (hd xs = CHR ''0'' \<longrightarrow> tl xs = [])"

definition unsigned_ok :: "string \<Rightarrow> bool" where
  "unsigned_ok u \<longleftrightarrow> u = [] \<or>
     (whole_ok (takeWhile decimal_char u) \<and>
      (case dropWhile decimal_char u of [] \<Rightarrow> True | p # ds \<Rightarrow> p = CHR ''.'' \<and> list_all decimal_char ds))"

definition strip_sign :: "string \<Rightarrow> string" where
  "strip_sign e = (case e of [] \<Rightarrow> [] | x # xs \<Rightarrow> if x = CHR ''-'' then xs else e)"

text \<open>A number text: a sign, digits without a superfluous zero, one point; and its digits fit.\<close>

definition digits_fit :: "string \<Rightarrow> bool" where
  "digits_fit u \<longleftrightarrow> count_digits u \<le> CALCULATOR_DIGIT_COUNT \<and>
     (u \<noteq> [] \<longrightarrow> last u = CHR ''.'' \<longrightarrow> count_digits u < CALCULATOR_DIGIT_COUNT)"

definition entry_ok :: "string \<Rightarrow> bool" where
  "entry_ok e \<longleftrightarrow> unsigned_ok (strip_sign e) \<and> digits_fit (strip_sign e)"

lemma point_no_digit [simp]: "\<not> decimal_char CHR ''.''" "\<not> decimal_char CHR ''-''" "\<not> decimal_char CHR ''#''"
  by (simp_all add: decimal_char_def)

lemma count_digits_simps [simp]:
  "count_digits [] = 0" "count_digits (x # xs) = (if decimal_char x then Suc (count_digits xs) else count_digits xs)"
  "count_digits (xs @ ys) = count_digits xs + count_digits ys"
  by (simp_all add: count_digits_def)

lemma count_digits_all: "list_all decimal_char ds \<Longrightarrow> count_digits ds = length ds"
  by (simp add: count_digits_def list_all_iff)

lemma whole_ok_snoc: "decimal_char c \<Longrightarrow> whole_ok (w @ [c]) \<longleftrightarrow> w = [] \<or> whole_ok w \<and> w \<noteq> ''0''"
  by (cases w) (auto simp: whole_ok_def)

lemma unsigned_ok_snoc:
  "unsigned_ok (u @ [c]) \<longleftrightarrow> unsigned_ok u \<and>
     (if decimal_char c then u \<noteq> ''0'' else c = CHR ''.'' \<and> u \<noteq> [] \<and> CHR ''.'' \<notin> set u)"
proof (cases "list_all decimal_char u")
  case True
  then have a: "takeWhile decimal_char u = u" "dropWhile decimal_char u = []" "CHR ''.'' \<notin> set u"
    by (auto simp: list_all_iff)
  have ok: "unsigned_ok u \<longleftrightarrow> u = [] \<or> whole_ok u" by (simp only: unsigned_ok_def a list.case simp_thms)
  show ?thesis
  proof (cases "decimal_char c")
    case True
    have b: "takeWhile decimal_char (u @ [c]) = u @ [c]" "dropWhile decimal_char (u @ [c]) = []"
      using a True \<open>list_all decimal_char u\<close> by (auto simp: list_all_iff)
    have "unsigned_ok (u @ [c]) \<longleftrightarrow> whole_ok (u @ [c])" by (simp only: unsigned_ok_def b list.case) simp
    then show ?thesis using True by (auto simp: ok whole_ok_snoc)
  next
    case False
    have b: "takeWhile decimal_char (u @ [c]) = u" "dropWhile decimal_char (u @ [c]) = [c]"
      using a False \<open>list_all decimal_char u\<close> by (auto simp: list_all_iff takeWhile_append2)
    have "unsigned_ok (u @ [c]) \<longleftrightarrow> whole_ok u \<and> c = CHR ''.''" by (simp only: unsigned_ok_def b list.case) simp
    then show ?thesis using False a(3) by (auto simp: ok whole_ok_def)
  qed
next
  case False
  then obtain x where "x \<in> set u" "\<not> decimal_char x" by (auto simp: list_all_iff)
  then have b: "takeWhile decimal_char (u @ [c]) = takeWhile decimal_char u"
     "dropWhile decimal_char (u @ [c]) = dropWhile decimal_char u @ [c]"
    by (auto simp: takeWhile_append1 dropWhile_append1)
  obtain p ds where d: "dropWhile decimal_char u = p # ds"
    using False by (cases "dropWhile decimal_char u") (auto simp: list_all_iff dropWhile_eq_Nil_conv)
  then have "p \<in> set u" by (metis list.set_intros(1) set_dropWhileD)
  then have "p = CHR ''.'' \<Longrightarrow> CHR ''.'' \<in> set u" by simp
  moreover have "u \<noteq> []" "u \<noteq> ''0''" using False by (auto simp: decimal_char_def)
  ultimately show ?thesis by (auto simp: unsigned_ok_def b d)
qed

lemma unsigned_ok_length: "unsigned_ok u \<Longrightarrow> length u \<le> count_digits u + (if CHR ''.'' \<in> set u then 1 else 0)"
  by (induction u rule: rev_induct) (auto simp: unsigned_ok_snoc split: if_splits)

lemma unsigned_ok_chars: "unsigned_ok u \<Longrightarrow> set u \<subseteq> set ''0123456789.''"
  by (induction u rule: rev_induct) (auto simp: unsigned_ok_snoc decimal_char_def split: if_splits)

lemma unsigned_ok_no_minus: "unsigned_ok u \<Longrightarrow> CHR ''-'' \<notin> set u"
  by (drule unsigned_ok_chars) auto

lemma unsigned_ok_point: "unsigned_ok u \<Longrightarrow> u \<noteq> [] \<Longrightarrow> count_digits u \<noteq> 0"
  by (induction u rule: rev_induct) (auto simp: unsigned_ok_snoc split: if_splits)

lemma unsigned_ok_Nil [simp]: "unsigned_ok []" "digits_fit []"
  by (simp_all add: unsigned_ok_def digits_fit_def)

lemma digits_fit_snoc:
  "digits_fit (u @ [c]) \<Longrightarrow> unsigned_ok (u @ [c]) \<Longrightarrow> digits_fit u \<and> count_digits u < CALCULATOR_DIGIT_COUNT"
  by (cases "decimal_char c") (simp_all add: digits_fit_def unsigned_ok_snoc)

lemma strip_sign_cases:
  obtains "e = strip_sign e" "e = [] \<or> hd e \<noteq> CHR ''-''" | "e = CHR ''-'' # strip_sign e"
  by (cases e; cases "hd e = CHR ''-''") (auto simp: strip_sign_def)

lemma strip_sign_unsigned [simp]: "unsigned_ok u \<Longrightarrow> strip_sign u = u"
  using unsigned_ok_no_minus [of u] by (cases u) (auto simp: strip_sign_def)

lemma strip_sign_minus [simp]: "strip_sign (CHR ''-'' # u) = u"
  by (simp add: strip_sign_def)

lemma count_strip [simp]: "count_digits (strip_sign e) = count_digits e"
  by (cases e) (simp_all add: strip_sign_def)

lemma entry_ok_length: assumes "entry_ok e" shows "length e \<le> CALCULATOR_TEXT_CHARS"
proof -
  have "length (strip_sign e) \<le> 13"
    using unsigned_ok_length [of "strip_sign e"] assms
    by (auto simp: entry_ok_def digits_fit_def CALCULATOR_DIGIT_COUNT_def split: if_splits)
  moreover have "length e \<le> Suc (length (strip_sign e))" by (cases e) (simp_all add: strip_sign_def)
  ultimately show ?thesis by (simp add: CALCULATOR_TEXT_CHARS_def)
qed

lemma entry_ok_chars: assumes "entry_ok e" shows "set e \<subseteq> set ''0123456789.-''"
proof -
  have "set (strip_sign e) \<subseteq> set ''0123456789.''" using assms unsigned_ok_chars by (simp add: entry_ok_def)
  moreover have "set e \<subseteq> insert CHR ''-'' (set (strip_sign e))"
    by (cases e) (auto simp: strip_sign_def)
  moreover have "insert CHR ''-'' (set ''0123456789.'') \<subseteq> set ''0123456789.-''" by simp
  ultimately show ?thesis by blast
qed


subsection \<open>Typing a number\<close>

definition ready :: "'f calculator \<Rightarrow> bool" where
  "ready c \<longleftrightarrow> ca_error c = NO_ERROR \<and> \<not> ca_result c"

lemma key_char: "decimal_char x \<Longrightarrow> is_key x \<and> x \<noteq> CHR ''C''"
  by (auto simp: decimal_char_def is_key_def)

lemma input_digit:
  assumes "ready c" "decimal_char x"
  shows "fplinux_calculator_input F c x = type_digit F c x"
  using assms key_char [of x] unfolding fplinux_calculator_input_def Let_def by (simp add: ready_def)

lemma input_point:
  assumes "ready c"
  shows "fplinux_calculator_input F c CHR ''.'' = type_separator F c"
  using assms unfolding fplinux_calculator_input_def Let_def by (simp add: ready_def is_key_def)

lemma input_sign:
  assumes "ready c"
  shows "fplinux_calculator_input F c CHR ''#'' = changed_result (change_sign F c)"
  using assms unfolding fplinux_calculator_input_def Let_def by (simp add: ready_def is_key_def)

lemma retype_simps [simp]:
  "retype F [] c = c"
  "retype F (xs @ ys) c = retype F ys (retype F xs c)"
  "retype F [x] c = snd (fplinux_calculator_input F c (if x = CHR ''-'' then CHR ''#'' else x))"
  by (simp_all add: retype_def)

text \<open>One more character of a number is appended to it, with a sign in front or without.\<close>

lemma type_character:
  assumes "ready c" "ca_entry c = p @ u" "p = [] \<or> p = ''-''"
    "unsigned_ok (u @ [x])" "digits_fit (u @ [x])"
  shows "fplinux_calculator_input F c x = (CHANGED, c\<lparr> ca_entry := p @ u @ [x] \<rparr>)"
proof -
  have ok: "unsigned_ok u" and x: "if decimal_char x then u \<noteq> ''0'' else x = CHR ''.'' \<and> u \<noteq> [] \<and> CHR ''.'' \<notin> set u"
    using assms(4) unfolding unsigned_ok_snoc by blast+
  have n: "count_digits u < CALCULATOR_DIGIT_COUNT" using digits_fit_snoc [OF assms(5,4)] by simp
  have c: "count_digits (p @ u) = count_digits u" using assms(3) by auto
  show ?thesis
  proof (cases "decimal_char x")
    case True
    have "p @ u \<noteq> ''0''" "p @ u \<noteq> ''-0''"
      using True x assms(3) unsigned_ok_no_minus [OF ok] by (auto simp: append_eq_Cons_conv)
    then show ?thesis
      using assms(1,2) True n c by (simp add: input_digit type_digit_def Let_def ready_def)
  next
    case False
    then have "x = CHR ''.''" "u \<noteq> []" "CHR ''.'' \<notin> set (p @ u)" using x assms(3) by auto
    then show ?thesis
      using assms(1,2) n c unsigned_ok_point [OF ok] by (simp add: input_point type_separator_def Let_def ready_def)
  qed
qed

lemma retype_unsigned:
  assumes "ready c" "p = [] \<or> p = ''-''" "unsigned_ok u" "digits_fit u"
  shows "retype F u (c\<lparr> ca_entry := p \<rparr>) = c\<lparr> ca_entry := p @ u \<rparr>"
  using assms(3,4)
proof (induction u rule: rev_induct)
  case (snoc x u)
  have ih: "retype F u (c\<lparr> ca_entry := p \<rparr>) = c\<lparr> ca_entry := p @ u \<rparr>"
    using snoc digits_fit_snoc [OF snoc.prems(2,1)] by (simp add: unsigned_ok_snoc)
  have "x \<noteq> CHR ''-''" using unsigned_ok_no_minus [OF snoc.prems(1)] by auto
  moreover have "fplinux_calculator_input F (c\<lparr> ca_entry := p @ u \<rparr>) x = (CHANGED, c\<lparr> ca_entry := p @ u @ [x] \<rparr>)"
    using type_character [of "c\<lparr> ca_entry := p @ u \<rparr>" p u x F] assms(1,2) snoc.prems by (simp add: ready_def)
  ultimately show ?case by (simp add: ih)
qed simp

lemma retype_entry:
  assumes "ready c" "entry_ok e"
  shows "retype F e (c\<lparr> ca_entry := [] \<rparr>) = c\<lparr> ca_entry := e \<rparr>"
proof (rule strip_sign_cases [of e])
  assume "e = strip_sign e"
  then show ?thesis using retype_unsigned [of c "[]" e F] assms by (simp add: entry_ok_def)
next
  assume e: "e = CHR ''-'' # strip_sign e"
  have "retype F e (c\<lparr> ca_entry := [] \<rparr>) = retype F (''-'' @ strip_sign e) (c\<lparr> ca_entry := [] \<rparr>)"
    using e by simp
  also have "\<dots> = retype F (strip_sign e) (c\<lparr> ca_entry := ''-'' \<rparr>)"
    using assms(1) by (simp del: append_Cons add: input_sign ready_def changed_result_def change_sign_def)
  also have "\<dots> = c\<lparr> ca_entry := ''-'' @ strip_sign e \<rparr>"
    using retype_unsigned [of c "''-''" "strip_sign e" F] assms by (simp add: entry_ok_def)
  finally show ?thesis using e by simp
qed

subsection \<open>Floating point\<close>

text \<open>What the C library promises of \<open>double\<close>: seventeen digits name one number, a printed
  number is at most 24 characters and, without an exponent, an ordinary decimal.\<close>

locale float_laws =
  fixes F :: "'f floats"
  assumes zero_law: "fl_is_zero F (fl_zero F)" "fl_finite F (fl_zero F)"
    and neg_law: "fl_finite F x \<Longrightarrow> fl_finite F (fl_neg F x)" "fl_is_zero F (fl_neg F x) = fl_is_zero F x"
    and read_print: "fl_finite F x \<Longrightarrow> rest = [] \<or> hd rest = CHR '' '' \<Longrightarrow>
        fl_read F (fl_print F 17 x @ rest) = (x, length (fl_print F 17 x))"
    and print_length: "fl_finite F x \<Longrightarrow> n \<le> 17 \<Longrightarrow> fl_print F n x \<noteq> [] \<and> length (fl_print F n x) \<le> 24" 
    and print_plain: "fl_finite F x \<Longrightarrow> \<not> fl_is_zero F x \<Longrightarrow> CHR ''e'' \<notin> set (fl_print F n x) \<Longrightarrow>
        unsigned_ok (strip_sign (fl_print F n x)) \<and> last (fl_print F n x) \<noteq> CHR ''.''"
    and print_one: "fl_finite F x \<Longrightarrow> length (fl_print F 1 x) \<le> CALCULATOR_TEXT_CHARS"
    and read_digits: "entry_ok e \<Longrightarrow> fl_finite F (fst (fl_read F e))"
    and read_rounded: "fl_finite F x \<Longrightarrow> fl_finite F (fst (fl_read F (fl_print F CALCULATOR_DIGIT_COUNT x)))"
begin

lemma fit_print: "fl_finite F x \<Longrightarrow> n \<le> 17 \<Longrightarrow> fit_text 32 (fl_print F n x) = fl_print F n x"
  using print_length [of x n] by (simp add: fit_text_def)

lemma round_finite: assumes "fl_finite F x" shows "fl_finite F (round_digits F x)"
  using assms read_rounded [OF assms] zero_law fit_print [OF assms, of CALCULATOR_DIGIT_COUNT]
  by (simp add: round_digits_def strtod_def CALCULATOR_DIGIT_COUNT_def Let_def)

lemma round_zero: "fl_is_zero F (round_digits F x) \<Longrightarrow> round_digits F x = fl_zero F"
  by (auto simp: round_digits_def Let_def split: if_splits)

end

subsection \<open>The invariant\<close>

text \<open>\<open>Z\<close> says which zeros may be accumulated: the keys alone only ever accumulate the positive
  one, a restored calculator may hold the negative one.  A result or an error leaves no number half typed, and without an
  operation or a result nothing is accumulated.\<close>

definition operations :: "char option set" where
  "operations = insert None (Some ` set ''+-*/'')"

lemma operations_None [simp]: "None \<in> operations"
  by (simp add: operations_def)

definition calc_ok :: "'f floats \<Rightarrow> ('f \<Rightarrow> bool) \<Rightarrow> 'f calculator \<Rightarrow> bool" where
  "calc_ok F Z c \<longleftrightarrow> entry_ok (ca_entry c) \<and> fl_finite F (ca_accumulator c) \<and>
     (fl_is_zero F (ca_accumulator c) \<longrightarrow> Z (ca_accumulator c)) \<and>
     ca_operation c \<in> operations \<and> (ca_operation c = None \<longrightarrow> \<not> ca_result c \<longrightarrow> Z (ca_accumulator c)) \<and>
     (ca_result c \<longrightarrow> ca_operation c = None \<and> ca_entry c = []) \<and>
     (ca_error c \<noteq> NO_ERROR \<longrightarrow> ca_entry c = [] \<and> ca_operation c = None \<and> \<not> ca_result c)"

lemma entry_ok_Nil [simp]: "entry_ok []"
  by (simp add: entry_ok_def strip_sign_def)

lemma calculator_eqI: 
  "ca_entry c = ca_entry d \<Longrightarrow> ca_accumulator c = ca_accumulator d \<Longrightarrow> ca_operation c = ca_operation d \<Longrightarrow>
   ca_result c = ca_result d \<Longrightarrow> ca_error c = ca_error d \<Longrightarrow> c = (d :: 'f calculator)"
  by simp

lemma clear_simps [simp]:
  "ca_entry (clear F) = []" "ca_accumulator (clear F) = fl_zero F" "ca_operation (clear F) = None"
  "ca_result (clear F) = False" "ca_error (clear F) = NO_ERROR"
  by (simp_all add: clear_def)

lemma entry_ok_digit:
  assumes "entry_ok e" "decimal_char x" "e \<noteq> ''0''" "e \<noteq> ''-0''" "count_digits e < CALCULATOR_DIGIT_COUNT"
  shows "entry_ok (e @ [x])"
proof -
  have x: "x \<noteq> CHR ''-''" "x \<noteq> CHR ''.''" using assms(2) by auto
  have s: "strip_sign (e @ [x]) = strip_sign e @ [x]" using x(1) by (cases e) (simp_all add: strip_sign_def)
  have "strip_sign e \<noteq> ''0''" using assms(3,4) by (cases e) (auto simp: strip_sign_def split: if_splits)
  then have "unsigned_ok (strip_sign e @ [x])" using assms(1,2) by (simp add: unsigned_ok_snoc entry_ok_def)
  moreover have "digits_fit (strip_sign e @ [x])" using assms(2,5) x by (simp add: digits_fit_def)
  ultimately show ?thesis by (simp add: entry_ok_def s)
qed

lemma entry_ok_point:
  assumes "entry_ok e" "CHR ''.'' \<notin> set e" "count_digits e < CALCULATOR_DIGIT_COUNT"
  shows "entry_ok (e @ (if count_digits e \<noteq> 0 then ''.'' else ''0.''))"
proof (cases "count_digits e \<noteq> 0")
  case True
  then have "strip_sign e \<noteq> []" using count_strip [of e] by (metis count_digits_simps(1))
  moreover have "strip_sign (e @ ''.'') = strip_sign e @ ''.''" by (cases e) (auto simp: strip_sign_def)
  moreover have "CHR ''.'' \<notin> set (strip_sign e)" using assms(2) by (cases e) (auto simp: strip_sign_def)
  ultimately show ?thesis using True assms(1,3) by (simp add: entry_ok_def unsigned_ok_snoc digits_fit_def)
next
  case False
  then have e: "strip_sign e = []" using assms(1) unsigned_ok_point [of "strip_sign e"] by (auto simp: entry_ok_def)
  have "entry_ok ''0.''" "entry_ok ''-0.''" by (code_simp, code_simp)
  then show ?thesis using False by (cases rule: strip_sign_cases [of e]) (simp_all add: e)
qed

lemma entry_ok_butlast: "entry_ok e \<Longrightarrow> entry_ok (butlast e)"
proof (cases "strip_sign e" rule: rev_cases)
  case Nil
  then show ?thesis by (cases e) (auto simp: strip_sign_def split: if_splits)
next
  case (snoc u x)
  assume e: "entry_ok e"
  then have "unsigned_ok u" "digits_fit u"
    using snoc digits_fit_snoc [of u x] by (auto simp: entry_ok_def unsigned_ok_snoc)
  moreover have "butlast e = u \<or> butlast e = CHR ''-'' # u"
    using snoc by (cases rule: strip_sign_cases [of e]) (metis butlast_snoc, metis butlast_snoc append_Cons)
  ultimately show ?thesis by (auto simp: entry_ok_def)
qed

lemma entry_ok_replace: "e = ''0'' \<or> e = ''-0'' \<Longrightarrow> decimal_char x \<Longrightarrow> x \<noteq> CHR ''0'' \<Longrightarrow> entry_ok (butlast e @ [x])"
  using entry_ok_digit [of "[]" x] entry_ok_digit [of "''-''" x]
  by (auto simp: CALCULATOR_DIGIT_COUNT_def entry_ok_def)

lemma entry_ok_sign: "entry_ok e \<Longrightarrow> entry_ok (case e of [] \<Rightarrow> ''-'' | x # xs \<Rightarrow> if x = CHR ''-'' then xs else CHR ''-'' # x # xs)"
  by (cases rule: strip_sign_cases [of e]) (auto simp: entry_ok_def split: list.splits)


text \<open>The invariant of a calculator in no error.\<close>

lemma calc_okI:
  assumes "ca_error c = NO_ERROR" "entry_ok (ca_entry c)" "fl_finite F (ca_accumulator c)"
    "fl_is_zero F (ca_accumulator c) \<Longrightarrow> Z (ca_accumulator c)"
    "ca_operation c \<in> operations" "ca_operation c = None \<Longrightarrow> \<not> ca_result c \<Longrightarrow> Z (ca_accumulator c)"
    "ca_result c \<Longrightarrow> ca_operation c = None \<and> ca_entry c = []"
  shows "calc_ok F Z c"
  using assms unfolding calc_ok_def by blast

locale zero_choice = float_laws +
  fixes Z :: "'a \<Rightarrow> bool"
  assumes zero_chosen: "Z (fl_zero F)"
begin

lemma round_chosen: "fl_is_zero F (round_digits F x) \<Longrightarrow> Z (round_digits F x)"
  using round_zero zero_chosen by force

lemma clear_ok: "calc_ok F Z (clear F)"
  using zero_law zero_chosen by (simp add: calc_ok_def)

lemma fail_ok: "calc_ok F Z (fail F e)"
  using zero_law zero_chosen by (simp add: calc_ok_def fail_def)

lemma type_digit_ok: assumes "calc_ok F Z c" "ca_error c = NO_ERROR" "decimal_char x" shows "calc_ok F Z (snd (type_digit F c x))"
proof -
  define d where "d = (if ca_result c then clear F else c)"
  have d: "calc_ok F Z d" "ca_error d = NO_ERROR" "\<not> ca_result d" using assms clear_ok by (auto simp: d_def)
  have set: "calc_ok F Z (d\<lparr> ca_entry := e \<rparr>)" if "entry_ok e" for e
    using d that by (simp add: calc_ok_def)
  show ?thesis
    using d set [OF entry_ok_replace [of "ca_entry d" x]] set [OF entry_ok_digit [of "ca_entry d" x]] assms(3)
    unfolding type_digit_def Let_def d_def [symmetric] by (auto simp: calc_ok_def)
qed

lemma separator_key_ok: assumes "calc_ok F Z c" "ca_error c = NO_ERROR" shows "calc_ok F Z (snd (type_separator F c))"
proof -
  define d where "d = (if ca_result c then clear F else c)"
  have d: "calc_ok F Z d" "ca_error d = NO_ERROR" "\<not> ca_result d" using assms clear_ok by (auto simp: d_def)
  have set: "calc_ok F Z (d\<lparr> ca_entry := e \<rparr>)" if "entry_ok e" for e
    using d that by (simp add: calc_ok_def)
  show ?thesis
    using d set [OF entry_ok_point [of "ca_entry d"]]
    unfolding type_separator_def Let_def d_def [symmetric] by (simp add: calc_ok_def not_le)
qed

lemma change_sign_ok: assumes "calc_ok F Z c" "ca_error c = NO_ERROR" shows "calc_ok F Z (snd (change_sign F c))"
proof (cases "ca_result c")
  case True
  then show ?thesis using assms neg_law by (simp add: calc_ok_def change_sign_def)
next
  case False
  define e where "e = (case ca_entry c of [] \<Rightarrow> ''-'' | x # xs \<Rightarrow> if x = CHR ''-'' then xs else CHR ''-'' # x # xs)"
  have "entry_ok e" using assms(1) entry_ok_sign [of "ca_entry c"] by (simp add: e_def calc_ok_def)
  then show ?thesis using assms False by (simp add: change_sign_def e_def [symmetric] calc_ok_def)
qed

lemma calculate_ok:
  assumes "calc_ok F Z c" "ca_error c = NO_ERROR" "calculate F c = (b, d)"
  shows "if b then ca_error d = NO_ERROR \<and> fl_finite F (ca_accumulator d) \<and> ca_entry d = [] \<and>
            (fl_is_zero F (ca_accumulator d) \<longrightarrow> Z (ca_accumulator d))
         else calc_ok F Z d"
  using assms fail_ok round_chosen unfolding calculate_def Let_def
  by (auto split: if_splits)

lemma choose_operation_ok:
  assumes "calc_ok F Z c" "ca_error c = NO_ERROR" "Some x \<in> operations"
  shows "calc_ok F Z (snd (choose_operation F c x))"
proof -
  have chosen: "calc_ok F Z (d\<lparr> ca_entry := [], ca_result := False, ca_operation := Some x \<rparr>)"
    if "ca_error d = NO_ERROR" "fl_finite F (ca_accumulator d)"
      "fl_is_zero F (ca_accumulator d) \<Longrightarrow> Z (ca_accumulator d)" for d
    using that assms(3) by (intro calc_okI) simp_all
  have e: "fl_finite F (round_digits F (strtod F (ca_entry c)))"
    using assms(1) read_digits [of "ca_entry c"] round_finite by (simp add: calc_ok_def strtod_def)
  have "calc_ok F Z (snd (case calculate F c of (True, c) \<Rightarrow> (True, c\<lparr> ca_entry := [], ca_result := False, ca_operation := Some x \<rparr>)
             | (False, c) \<Rightarrow> (True, c)))"
    using calculate_ok [OF assms(1,2)] chosen by (auto split: prod.splits bool.splits)
  moreover have "calc_ok F Z ((c\<lparr> ca_accumulator := round_digits F (strtod F (ca_entry c)) \<rparr>)\<lparr> ca_entry := [], ca_result := False, ca_operation := Some x \<rparr>)"
    using assms(2) e round_chosen by (intro chosen) simp_all
  moreover have "calc_ok F Z ((c\<lparr> ca_accumulator := fl_zero F \<rparr>)\<lparr> ca_entry := [], ca_result := False, ca_operation := Some x \<rparr>)"
    using assms(2) zero_law zero_chosen by (intro chosen) simp_all
  moreover have "calc_ok F Z (c\<lparr> ca_entry := [], ca_result := False, ca_operation := Some x \<rparr>)"
    using assms(1,2) by (intro chosen) (simp_all add: calc_ok_def)
  ultimately show ?thesis
    using assms(1) unfolding choose_operation_def Let_def by (simp only: snd_conv split: if_split) blast
qed

lemma evaluate_ok:
  assumes "calc_ok F Z c" "ca_error c = NO_ERROR"
  shows "calc_ok F Z (snd (evaluate F c))"
proof -
  have "calc_ok F Z (d\<lparr> ca_operation := None, ca_result := True \<rparr>)" if "calculate F c = (True, d)" for d
    using calculate_ok [OF assms that] by (intro calc_okI) simp_all
  then show ?thesis
    using calculate_ok [OF assms] assms(1) unfolding evaluate_def by (auto split: prod.splits bool.splits)
qed

lemma delete_character_ok:
  assumes "calc_ok F Z c" "ca_error c = NO_ERROR"
  shows "calc_ok F Z (snd (delete_character F c))"
proof -
  have "calc_ok F Z (edit_accumulator F c)" if "ca_entry c = []" "\<not> ca_result c"
  proof -
    let ?s = "fl_print F CALCULATOR_DIGIT_COUNT (ca_accumulator c)"
    have f: "fl_finite F (ca_accumulator c)" using assms by (simp add: calc_ok_def)
    have s: "fit_text 32 ?s = ?s" "?s \<noteq> []"
      using fit_print [OF f, of CALCULATOR_DIGIT_COUNT] print_length [OF f, of CALCULATOR_DIGIT_COUNT]
      by (simp_all add: CALCULATOR_DIGIT_COUNT_def)
    have "entry_ok ?s" if "\<not> fl_is_zero F (ca_accumulator c)" "CHR ''e'' \<notin> set ?s" "count_digits ?s \<le> CALCULATOR_DIGIT_COUNT"
    proof -
      have "unsigned_ok (strip_sign ?s)" "last ?s \<noteq> CHR ''.''" using print_plain [OF f that(1,2)] by simp_all
      moreover have "strip_sign ?s \<noteq> [] \<Longrightarrow> last (strip_sign ?s) = last ?s"
        by (cases ?s) (auto simp: strip_sign_def)
      ultimately show ?thesis using that(3) by (auto simp: entry_ok_def digits_fit_def)
    qed
    then show ?thesis
      using assms that zero_law zero_chosen s(1) unfolding edit_accumulator_def Let_def by (simp add: calc_ok_def)
  qed
  moreover have "calc_ok F Z (c\<lparr> ca_entry := butlast (ca_entry c) \<rparr>)" if "\<not> ca_result c"
    using assms that entry_ok_butlast [of "ca_entry c"] by (simp add: calc_ok_def)
  ultimately show ?thesis
    using assms(1) clear_ok unfolding delete_character_def by simp
qed

lemma input_ok: assumes "calc_ok F Z c" shows "calc_ok F Z (snd (fplinux_calculator_input F c key))"
proof -
  define d where "d = (if ca_error c \<noteq> NO_ERROR then clear F else c)"
  have d: "calc_ok F Z d" "ca_error d = NO_ERROR" using assms clear_ok by (auto simp: d_def)
  have "is_key key \<Longrightarrow> \<not> decimal_char key \<Longrightarrow> key \<noteq> CHR ''.'' \<Longrightarrow> key \<noteq> CHR ''#'' \<Longrightarrow> key \<noteq> CHR ''='' \<Longrightarrow>
     key \<noteq> CHR ''<'' \<Longrightarrow> key \<noteq> CHR ''C'' \<Longrightarrow> Some key \<in> operations"
    by (auto simp: is_key_def decimal_char_def operations_def)
  then show ?thesis
    using assms clear_ok type_digit_ok [OF d] separator_key_ok [OF d] change_sign_ok [OF d] evaluate_ok [OF d]
      delete_character_ok [OF d] choose_operation_ok [OF d]
    unfolding fplinux_calculator_input_def Let_def d_def [symmetric] changed_result_def by simp
qed

end


subsection \<open>Sequences of keys\<close>

inductive key_step :: "'f floats \<Rightarrow> 'f calculator \<Rightarrow> 'f calculator \<Rightarrow> bool" for F :: "'f floats" where
  key: "key_step F c (snd (fplinux_calculator_input F c k))"

sublocale zero_choice \<subseteq> keys: transition_system "\<lambda>c. c = clear F" "key_step F" "calc_ok F Z"
  by unfold_locales (auto simp: clear_ok intro: input_ok elim!: key_step.cases)

sublocale float_laws \<subseteq> exact: zero_choice F "\<lambda>x. x = fl_zero F"
  by unfold_locales simp

sublocale float_laws \<subseteq> any: zero_choice F "fl_is_zero F"
  by unfold_locales (rule zero_law)

lemma retype_steps: "(key_step F)\<^sup>*\<^sup>* c (retype F xs c)"
proof (induction xs rule: rev_induct)
  case (snoc x xs)
  then show ?case using key_step.key [of F "retype F xs c"] by (simp add: rtranclp.rtrancl_into_rtrancl)
qed simp

subsection \<open>Saving and restoring\<close>

lemma snd_if: "(b \<Longrightarrow> P (snd x)) \<Longrightarrow> (\<not> b \<Longrightarrow> P (snd y)) \<Longrightarrow> P (snd (if b then x else y))"
  by simp

context float_laws
begin

lemma restore_ok: "calc_ok F (fl_is_zero F) (snd (fplinux_calculator_restore F s))"
proof -
  have "calc_ok F (fl_is_zero F) (snd (fplinux_calculator_restore F s))"
    if "fl_read F (drop 4 s) = (a, n)" "fl_finite F a" for a n
  proof -
    define op where "op = (if s ! 2 = CHR ''n'' then None else Some (s ! 2))"
    define c where "c = (clear F)\<lparr> ca_operation := op, ca_accumulator := (if op \<noteq> None then a else fl_zero F) \<rparr>"
    have c: "calc_ok F (fl_is_zero F) c" if "s ! 2 \<in> set ''+-*/n''"
      using that \<open>fl_finite F a\<close> zero_law
      by (intro calc_okI) (auto simp: c_def op_def operations_def)
    then have r: "calc_ok F (fl_is_zero F) (retype F e c)" if "s ! 2 \<in> set ''+-*/n''" for e
      using any.keys.reached [OF retype_steps] that by blast
    have "calc_ok F (fl_is_zero F) ((clear F)\<lparr> ca_result := (s ! 0 = CHR ''r''),
                                ca_error := (if s ! 0 = CHR ''d'' then DIVIDE_BY_ZERO
                                             else if s ! 0 = CHR ''o'' then OVERFLOW else NO_ERROR),
                                ca_accumulator := (if s ! 0 = CHR ''r'' then a else fl_zero F) \<rparr>)"
      using \<open>fl_finite F a\<close> zero_law by (simp add: calc_ok_def fail_def)
    then show ?thesis
      using r any.clear_ok unfolding fplinux_calculator_restore_def Let_def that(1) op_def [symmetric] c_def [symmetric] prod.case
      by (intro snd_if [where P = "calc_ok F (fl_is_zero F)"]) (simp_all only: snd_conv)
  qed
  moreover have "fplinux_calculator_restore F s = (False, clear F)" if "fl_read F (drop 4 s) = (a, n)" "\<not> fl_finite F a" for a n
    using that(2) unfolding fplinux_calculator_restore_def Let_def that(1) prod.case by (simp only: simp_thms if_True if_cancel)
  ultimately show ?thesis using any.clear_ok by (cases "fl_read F (drop 4 s)") fastforce
qed

lemma save_restore:
  assumes ok: "calc_ok F (\<lambda>x. x = fl_zero F) c" and room: "CALCULATOR_SAVE_BYTES \<le> capacity"
  shows "fplinux_calculator_restore F (fplinux_calculator_save F c capacity) = (True, c)"
proof -
  let ?p = "fl_print F 17 (ca_accumulator c)"
  define op where "op = (case ca_operation c of Some x \<Rightarrow> x | None \<Rightarrow> CHR ''n'')"
  define mode where "mode = (if ca_error c = DIVIDE_BY_ZERO then CHR ''d''
                  else if ca_error c = OVERFLOW then CHR ''o'' else if ca_result c then CHR ''r'' else CHR ''i'')"
  define s where "s = [mode, CHR '' '', op, CHR '' ''] @ ?p @ '' '' @ ca_entry c"
  have f: "fl_finite F (ca_accumulator c)" "entry_ok (ca_entry c)" using ok by (simp_all add: calc_ok_def)
  have p: "?p \<noteq> []" "length ?p \<le> 24" using print_length [OF f(1), of 17] by simp_all
  have l: "length (ca_entry c) \<le> CALCULATOR_TEXT_CHARS" using f(2) by (rule entry_ok_length)
  have "length s < capacity"
    using l p(2) room by (simp add: s_def CALCULATOR_SAVE_BYTES_def CALCULATOR_TEXT_CHARS_def)
  then have save: "fplinux_calculator_save F c capacity = s"
    by (simp add: fplinux_calculator_save_def s_def op_def mode_def fit_text_def Let_def)
  have read: "fl_read F (drop 4 s) = (ca_accumulator c, length ?p)"
    using read_print [OF f(1), of "CHR '' '' # ca_entry c"] by (simp add: s_def)
  have "drop (length ?p) (drop 4 s) = CHR '' '' # ca_entry c" by (simp add: s_def)
  then have rest: "drop (4 + length ?p) s = CHR '' '' # ca_entry c" by (simp only: drop_drop add.commute)
  have at: "s ! 0 = mode" "s ! 1 = CHR '' ''" "s ! 2 = op" "s ! 3 = CHR '' ''" "\<not> length s < 5"
    using p by (simp_all add: s_def numeral_eq_Suc)
  have "restored = (True, c)" if "restored = fplinux_calculator_restore F s" for restored
  proof (cases "ca_error c = NO_ERROR \<and> \<not> ca_result c")
    case True
    have m: "mode = CHR ''i''" using True by (simp add: mode_def)
    have o: "op \<in> set ''+-*/n''" "(if op = CHR ''n'' then None else Some op) = ca_operation c"
      using ok by (auto simp: op_def calc_ok_def operations_def)
    define d where "d = (clear F)\<lparr> ca_operation := ca_operation c,
       ca_accumulator := (if ca_operation c \<noteq> None then ca_accumulator c else fl_zero F) \<rparr>"
    have d: "d = c\<lparr> ca_entry := [] \<rparr>"
      using True ok by (intro calculator_eqI) (simp_all add: d_def calc_ok_def)
    have "retype F (ca_entry c) d = c"
      using retype_entry [of c "ca_entry c" F] True f(2) by (simp add: d ready_def)
    then show ?thesis
      using that o(1) l entry_ok_chars [OF f(2)] p(1) f(1) at(5)
      unfolding fplinux_calculator_restore_def Let_def read prod.case rest list.sel at(1-4) o(2) m d_def [symmetric]
      by simp
  next
    case False
    have e: "ca_entry c = []" "ca_operation c = None" using False ok by (auto simp: calc_ok_def)
    have m: "mode \<noteq> CHR ''i''" "mode \<in> set ''rdo''" "op = CHR ''n''"
      using False e by (cases "ca_error c"; auto simp: mode_def op_def)+
    have "c = (clear F)\<lparr> ca_result := (mode = CHR ''r''),
        ca_error := (if mode = CHR ''d'' then DIVIDE_BY_ZERO else if mode = CHR ''o'' then OVERFLOW else NO_ERROR),
        ca_accumulator := (if mode = CHR ''r'' then ca_accumulator c else fl_zero F) \<rparr>" (is "c = ?d")
      using False ok e by (cases "ca_error c") (auto simp: mode_def calc_ok_def fail_def intro!: calculator_eqI)
    then show ?thesis
      using that m e p(1) f(1) at(5)
      unfolding fplinux_calculator_restore_def Let_def read prod.case rest list.sel at(1-4)
      by simp
  qed
  then show ?thesis by (simp add: save)
qed

end


subsection \<open>The display\<close>

lemma drop_zeros_length: "length (drop_zeros s) \<le> length s"
  by (induction s rule: drop_zeros.induct) auto

lemma shorten_exponent_length: "length (shorten_exponent s) \<le> length s"
proof (cases "dropWhile (\<lambda>x. x \<noteq> CHR ''e'') s")
  case (Cons e ds)
  have eq: "length s = length (takeWhile (\<lambda>x. x \<noteq> CHR ''e'') s) + Suc (length ds)"
    using takeWhile_dropWhile_id [of "\<lambda>x. x \<noteq> CHR ''e''" s] Cons by (metis length_append length_Cons)
  show ?thesis
    using eq drop_zeros_length [of ds] drop_zeros_length [of "tl ds"]
    unfolding shorten_exponent_def Cons list.case by (cases ds) simp_all
next
  case Nil
  then show ?thesis unfolding shorten_exponent_def Nil by simp
qed

lemma use_separator_length [simp]: "length (use_separator separator s) = length s"
  by (induction s) auto

context float_laws
begin

lemma format_length: assumes "fl_finite F v" shows "length (fplinux_calculator_format F v separator capacity) \<le> CALCULATOR_TEXT_CHARS"
proof -
  have "length (format_from F v n) \<le> CALCULATOR_TEXT_CHARS" if "fl_finite F v" for v n
    using that shorten_exponent_length [of "fit_text 32 (fl_print F 1 v)"] print_one [of v]
    by (induction n) (auto simp: Let_def fit_text_def)
  then show ?thesis using assms zero_law by (simp add: fplinux_calculator_format_def fit_text_def Let_def min.coboundedI1)
qed

lemma keys_keep_exact: "(key_step F)\<^sup>*\<^sup>* (clear F) c \<Longrightarrow> calc_ok F (\<lambda>x. x = fl_zero F) c"
  by (rule exact.keys.reachable) simp_all

lemma keys_keep_any:
  "c = clear F \<or> c = snd (fplinux_calculator_restore F s) \<Longrightarrow> (key_step F)\<^sup>*\<^sup>* c d \<Longrightarrow> calc_ok F (fl_is_zero F) d"
  using any.keys.reached any.clear_ok restore_ok by blast

lemma display_length:
  assumes "calc_ok F Z c"
  shows "length (fplinux_calculator_display F c separator capacity) \<le> CALCULATOR_TEXT_CHARS"
  using assms entry_ok_length [of "ca_entry c"] format_length
  by (auto simp: fplinux_calculator_display_def calc_ok_def fit_text_def CALCULATOR_TEXT_CHARS_def)

end

subsection \<open>Chains of operations\<close>

definition press :: "'f floats \<Rightarrow> string \<Rightarrow> 'f calculator \<Rightarrow> 'f calculator" where
  "press F keys c = fold (\<lambda>k c. snd (fplinux_calculator_input F c k)) keys c"

definition type_keys :: "string \<Rightarrow> string" where
  "type_keys e = map (\<lambda>x. if x = CHR ''-'' then CHR ''#'' else x) e"

definition operate :: "'f floats \<Rightarrow> char \<Rightarrow> 'f \<Rightarrow> string \<Rightarrow> calculator_error + 'f" where
  "operate F op v e =
     (let x = strtod F e;
          w = round_digits F (if op = CHR ''+'' then fl_add F v x else if op = CHR ''-'' then fl_sub F v x
                              else if op = CHR ''*'' then fl_mul F v x else fl_div F v x)
      in if op = CHR ''/'' \<and> fl_is_zero F x then Inl DIVIDE_BY_ZERO
         else if fl_finite F w then Inr w else Inl OVERFLOW)"

text \<open>The reference: operations apply in the order they are written.\<close>

fun running :: "'f floats \<Rightarrow> 'f \<Rightarrow> (char \<times> string) list \<Rightarrow> calculator_error + 'f" where
  "running F v [] = Inr v"
| "running F v ((op, e) # ts) = (case operate F op v e of Inl x \<Rightarrow> Inl x | Inr w \<Rightarrow> running F w ts)"

definition term_keys :: "(char \<times> string) list \<Rightarrow> string" where
  "term_keys ts = concat (map (\<lambda>(op, e). op # type_keys e) ts)"

definition number_text :: "string \<Rightarrow> bool" where
  "number_text e \<longleftrightarrow> entry_ok e \<and> count_digits e \<noteq> 0"

definition term_ok :: "char \<times> string \<Rightarrow> bool" where
  "term_ok t \<longleftrightarrow> fst t \<in> set ''+-*/'' \<and> number_text (snd t)"

definition awaiting :: "'f floats \<Rightarrow> 'f \<Rightarrow> char \<Rightarrow> string \<Rightarrow> 'f calculator" where
  "awaiting F v op e = (clear F)\<lparr> ca_entry := e, ca_accumulator := v, ca_operation := Some op \<rparr>"

lemma press_simps [simp]:
  "press F [] c = c" "press F (k # ks) c = press F ks (snd (fplinux_calculator_input F c k))"
  "press F (xs @ ys) c = press F ys (press F xs c)"
  by (simp_all add: press_def)

lemma press_type: "ready c \<Longrightarrow> entry_ok e \<Longrightarrow> ca_entry c = [] \<Longrightarrow> press F (type_keys e) c = c\<lparr> ca_entry := e \<rparr>"
proof -
  assume "ready c" "entry_ok e" "ca_entry c = []"
  moreover have "press F (type_keys e) c = retype F e c"
    by (simp add: press_def retype_def type_keys_def fold_map comp_def)
  moreover have "c = c\<lparr> ca_entry := [] \<rparr>" using \<open>ca_entry c = []\<close> by simp
  ultimately show ?thesis using retype_entry [of c e F] by metis
qed

lemma input_operation:
  assumes "ready c" "op \<in> set ''+-*/''"
  shows "fplinux_calculator_input F c op = changed_result (choose_operation F c op)"
proof -
  have "is_key op \<and> \<not> decimal_char op \<and> op \<noteq> CHR ''.'' \<and> op \<noteq> CHR ''#'' \<and> op \<noteq> CHR ''='' \<and> op \<noteq> CHR ''<'' \<and> op \<noteq> CHR ''C''"
    using assms(2) by (auto simp: is_key_def decimal_char_def)
  then show ?thesis
    using assms(1) unfolding fplinux_calculator_input_def Let_def by (simp add: ready_def)
qed

lemma input_equals: "ready c \<Longrightarrow> fplinux_calculator_input F c CHR ''='' = changed_result (evaluate F c)"
  unfolding fplinux_calculator_input_def Let_def by (simp add: ready_def is_key_def decimal_char_def)

lemma calculate_awaiting:
  assumes "op \<in> set ''+-*/''"
  shows "calculate F (awaiting F v op e) =
    (case operate F op v e of Inl x \<Rightarrow> (False, fail F x) | Inr w \<Rightarrow> (True, awaiting F w op []))"
  using assms unfolding calculate_def operate_def Let_def
  by (cases "op = CHR ''/''") (auto simp: awaiting_def)

lemma ready_awaiting [simp]: "ready (awaiting F v op e)"
  by (simp add: ready_def awaiting_def)

lemma press_first:
  assumes "number_text a" "op \<in> set ''+-*/''" "number_text e"
  shows "press F (type_keys a @ op # type_keys e) (clear F) = awaiting F (round_digits F (strtod F a)) op e"
proof -
  have "press F (type_keys a) (clear F) = (clear F)\<lparr> ca_entry := a \<rparr>"
    using assms(1) by (intro press_type) (simp_all add: ready_def number_text_def)
  moreover have "snd (fplinux_calculator_input F ((clear F)\<lparr> ca_entry := a \<rparr>) op) = awaiting F (round_digits F (strtod F a)) op []"
    using assms(1,2) by (subst input_operation) (simp_all add: ready_def number_text_def choose_operation_def changed_result_def awaiting_def)
  moreover have "press F (type_keys e) (awaiting F v op []) = awaiting F v op e" for v
    using press_type [of "awaiting F v op []" e F] assms(3) by (simp add: number_text_def awaiting_def ready_def)
  ultimately show ?thesis by simp
qed

lemma press_term:
  assumes "number_text e" "op \<in> set ''+-*/''" "op' \<in> set ''+-*/''" "number_text e'" "operate F op v e = Inr w"
  shows "press F (op' # type_keys e') (awaiting F v op e) = awaiting F w op' e'"
proof -
  have "snd (fplinux_calculator_input F (awaiting F v op e) op') = awaiting F w op' []"
    using assms(1,3,5) calculate_awaiting [OF assms(2), of F v e]
    by (subst input_operation) (simp_all add: choose_operation_def changed_result_def number_text_def awaiting_def ready_def)
  moreover have "press F (type_keys e') (awaiting F w op' []) = awaiting F w op' e'"
    using press_type [of "awaiting F w op' []" e' F] assms(4) by (simp add: number_text_def awaiting_def ready_def)
  ultimately show ?thesis by simp
qed

lemma press_terms:
  assumes "running F v ((op, e) # ts) = Inr w" "list_all term_ok ((op, e) # ts)" "term_ok (op', e')"
  shows "press F (term_keys (ts @ [(op', e')])) (awaiting F v op e) = awaiting F w op' e'"
  using assms
proof (induction ts arbitrary: v op e)
  case Nil
  then show ?case
    using press_term [of e op op' e' F v w] by (simp add: term_keys_def term_ok_def split: sum.splits)
next
  case (Cons t ts)
  obtain op1 e1 where t: "t = (op1, e1)" by fastforce
  obtain v1 where v1: "operate F op v e = Inr v1" "running F v1 ((op1, e1) # ts) = Inr w"
    using Cons.prems(1) by (auto simp: t split: sum.splits)
  have "press F (op1 # type_keys e1) (awaiting F v op e) = awaiting F v1 op1 e1"
    using Cons.prems(2) v1(1) by (intro press_term) (simp_all add: t term_ok_def)
  then show ?case
    using Cons.IH [OF v1(2)] Cons.prems(2,3) by (simp add: t term_keys_def)
qed

lemma press_equals:
  assumes "term_ok (op, e)"
  shows "press F ''='' (awaiting F v op e) =
    (case operate F op v e of Inl x \<Rightarrow> fail F x | Inr w \<Rightarrow> (clear F)\<lparr> ca_accumulator := w, ca_result := True \<rparr>)"
proof -
  have "fplinux_calculator_can_evaluate (awaiting F v op e)"
    using assms by (simp add: fplinux_calculator_can_evaluate_def awaiting_def term_ok_def number_text_def)
  then show ?thesis
    using assms calculate_awaiting [of op F v e]
    by (simp add: input_equals evaluate_def changed_result_def term_ok_def split: sum.splits) (simp add: awaiting_def)
qed

lemma press_chain:
  assumes "number_text a" "list_all term_ok (ts @ [(op, e)])" "running F (round_digits F (strtod F a)) ts = Inr v"
  shows "press F (type_keys a @ term_keys (ts @ [(op, e)])) (clear F) = awaiting F v op e"
proof (cases ts)
  case Nil
  then show ?thesis using press_first [of a op e F] assms by (simp add: term_keys_def term_ok_def)
next
  case (Cons t us)
  obtain op1 e1 where t: "t = (op1, e1)" by fastforce
  have "press F (type_keys a @ op1 # type_keys e1) (clear F) = awaiting F (round_digits F (strtod F a)) op1 e1"
    using assms(1,2) by (intro press_first) (simp_all add: Cons t term_ok_def)
  then show ?thesis
    using press_terms [of F "round_digits F (strtod F a)" op1 e1 us v op e] assms(2,3)
    by (simp add: Cons t term_keys_def)
qed

end
