(* ===== verification/Calculator_Properties.thy ===== *)
theory Calculator_Properties
  imports Calculator_Invariant
begin

section \<open>What the calculator guarantees\<close>

text \<open>
  The number being typed never leaves its buffer, a saved calculator comes back, and operations apply
  from left to right.  The laws of \<open>float_laws\<close> hold of an arithmetic that can be evaluated: whole numbers below
  \<open>10 ^ 12\<close>, printed in decimal, with anything larger counting as infinite; the properties are
  shown at work on it.
\<close>

subsection \<open>Whole numbers as floating point\<close>

definition digit_char :: "nat \<Rightarrow> char" where
  "digit_char d = ''0123456789'' ! d"

definition char_digit :: "char \<Rightarrow> nat" where
  "char_digit c = of_char c - 48"

fun show_number :: "nat \<Rightarrow> string" where
  "show_number n = (if n < 10 then [digit_char n] else show_number (n div 10) @ [digit_char (n mod 10)])"

declare show_number.simps [simp del]

definition read_number :: "string \<Rightarrow> nat" where
  "read_number s = foldl (\<lambda>a c. 10 * a + char_digit c) 0 s"

definition number_limit :: int where "number_limit = 10 ^ 12"

definition whole_print :: "int \<Rightarrow> string" where
  "whole_print x =
     (if \<bar>x\<bar> < number_limit then (if x < 0 then ''-'' else []) @ show_number (nat \<bar>x\<bar>) else ''inf'')"

definition whole_read :: "string \<Rightarrow> int \<times> nat" where
  "whole_read s =
     (let u = strip_sign s; w = takeWhile decimal_char u; r = dropWhile decimal_char u;
          f = (if r \<noteq> [] \<and> hd r = CHR ''.'' then Suc (length (takeWhile decimal_char (tl r))) else 0);
          v = int (read_number w)
      in if w = [] then (if take 3 u = ''inf'' then (number_limit, length s - length u + 3) else (0, 0))
         else (if u = s then v else - v, length s - length u + length w + f))"

definition whole_floats :: "int floats" where
  "whole_floats = \<lparr> fl_zero = 0, fl_add = (+), fl_sub = (-), fl_mul = (*), fl_div = (div), fl_neg = uminus,
     fl_is_zero = (\<lambda>x. x = 0), fl_finite = (\<lambda>x. \<bar>x\<bar> < number_limit), fl_read = whole_read, fl_print = (\<lambda>n. whole_print) \<rparr>"

lemma whole_floats_simps [simp]:
  "fl_zero whole_floats = 0" "fl_neg whole_floats = uminus" "fl_is_zero whole_floats x = (x = 0)"
  "fl_finite whole_floats x = (\<bar>x\<bar> < number_limit)" "fl_read whole_floats = whole_read"
  "fl_print whole_floats n = whole_print"
  by (simp_all add: whole_floats_def)

lemma digit_char_cases: "d < 10 \<Longrightarrow> decimal_char (digit_char d) \<and> char_digit (digit_char d) = d"
  by (auto simp: less_Suc_eq numeral_eq_Suc digit_char_def decimal_char_def char_digit_def)

lemma digit_char_zero: "d < 10 \<Longrightarrow> d \<noteq> 0 \<Longrightarrow> digit_char d \<noteq> CHR ''0''"
  using digit_char_cases [of d] by (auto simp: char_digit_def)

lemma decimal_char_value: "decimal_char c \<Longrightarrow> char_digit c < 10"
  by (auto simp: decimal_char_def char_digit_def)

lemma show_digits: "list_all decimal_char (show_number n) \<and> show_number n \<noteq> []"
proof (induction n rule: show_number.induct)
  case (1 n)
  then show ?case by (cases "n < 10") (simp_all add: digit_char_cases show_number.simps [of n])
qed

lemma read_show: "read_number (show_number n) = n"
proof (induction n rule: show_number.induct)
  case (1 n)
  then show ?case by (cases "n < 10") (simp_all add: digit_char_cases show_number.simps [of n] read_number_def)
qed

lemma show_length: "n < 10 ^ w \<Longrightarrow> 0 < w \<Longrightarrow> length (show_number n) \<le> w"
proof (induction w arbitrary: n)
  case (Suc w)
  show ?case
  proof (cases "n < 10")
    case False
    then have "0 < w" using Suc.prems(1) by (cases w) simp_all
    then show ?thesis
      using False Suc.IH [of "n div 10"] Suc.prems(1) by (simp add: show_number.simps [of n] less_mult_imp_div_less)
  qed (simp add: show_number.simps [of n])
qed simp

lemma show_leading: "n \<noteq> 0 \<Longrightarrow> hd (show_number n) \<noteq> CHR ''0''"
proof (induction n rule: show_number.induct)
  case (1 n)
  then show ?case
    using show_digits [of "n div 10"] by (cases "n < 10") (simp_all add: digit_char_zero show_number.simps [of n])
qed

lemma read_bound: "list_all decimal_char s \<Longrightarrow> read_number s < 10 ^ length s"
proof (induction s rule: rev_induct)
  case (snoc x s)
  then have "read_number s < 10 ^ length s" "char_digit x < 10" by (simp_all add: decimal_char_value)
  then have "10 * read_number s + char_digit x < 10 * (10 ^ length s)" by linarith
  then show ?case by (simp add: read_number_def)
qed (simp add: read_number_def)

lemma show_no_minus: "hd (show_number n) \<noteq> CHR ''-''"
proof -
  have "decimal_char (hd (show_number n))" using show_digits [of n] by (cases "show_number n") auto
  then show ?thesis by auto
qed

lemma strip_show: "strip_sign (show_number n @ rest) = show_number n @ rest"
  using show_no_minus [of n] show_digits [of n] by (cases "show_number n") (auto simp: strip_sign_def)

lemma take_digits: 
  assumes "list_all decimal_char w" "rest = [] \<or> \<not> decimal_char (hd rest)"
  shows "takeWhile decimal_char (w @ rest) = w" "dropWhile decimal_char (w @ rest) = rest"
  using assms by (induction w) (cases rest; auto)+

text \<open>A finite number is a natural number with or without a sign in front.\<close>

lemma whole_print_cases:
  assumes "\<bar>x\<bar> < number_limit"
  obtains n where "x = int n" "whole_print x = show_number n" "n < 10 ^ 12"
    | n where "n \<noteq> 0" "x = - int n" "whole_print x = CHR ''-'' # show_number n" "n < 10 ^ 12"
proof (cases "x < 0")
  case True
  then have "nat (- x) \<noteq> 0" "x = - int (nat (- x))" "nat (- x) < 10 ^ 12" "whole_print x = CHR ''-'' # show_number (nat (- x))"
    using assms by (simp_all add: whole_print_def number_limit_def)
  then show ?thesis using that(2) by blast
next
  case False
  then have "x = int (nat x)" "nat x < 10 ^ 12" "whole_print x = show_number (nat x)"
    using assms by (simp_all add: whole_print_def number_limit_def)
  then show ?thesis using that(1) by blast
qed

lemma whole_read_print:
  assumes "\<bar>x\<bar> < number_limit" "rest = [] \<or> hd rest = CHR '' ''"
  shows "whole_read (whole_print x @ rest) = (x, length (whole_print x))"
proof -
  have r: "rest = [] \<or> \<not> decimal_char (hd rest)" "\<not> (rest \<noteq> [] \<and> hd rest = CHR ''.'')"
    using assms(2) by (auto simp: decimal_char_def)
  have t: "takeWhile decimal_char (show_number n @ rest) = show_number n"
    "dropWhile decimal_char (show_number n @ rest) = rest" "show_number n \<noteq> []" for n
    using take_digits [OF conjunct1 [OF show_digits] r(1)] show_digits by blast+
  have ne: "xs \<noteq> CHR ''-'' # xs" for xs :: string by simp
  show ?thesis using assms(1)
  proof (cases rule: whole_print_cases)
    case (1 n)
    then show ?thesis using r(2) by (simp add: whole_read_def Let_def strip_show t read_show)
  next
    case (2 n)
    then show ?thesis using r(2) ne by (simp add: whole_read_def Let_def t read_show)
  qed
qed

lemma whole_unsigned: assumes "x \<noteq> 0" "\<bar>x\<bar> < number_limit"
  shows "unsigned_ok (strip_sign (whole_print x)) \<and> last (whole_print x) \<noteq> CHR ''.''"
proof -
  have "unsigned_ok (show_number n) \<and> last (show_number n) \<noteq> CHR ''.''" if "n \<noteq> 0" for n
  proof -
    have n: "show_number n \<noteq> []" "list_all decimal_char (show_number n)" using show_digits by blast+
    have w: "takeWhile decimal_char (show_number n) = show_number n" "dropWhile decimal_char (show_number n) = []"
      using take_digits [OF n(2), of "[]"] by simp_all
    have "decimal_char (last (show_number n))" using n by (simp add: list_all_iff)
    then have "last (show_number n) \<noteq> CHR ''.''" by auto
    then show ?thesis using show_leading [OF that] n unfolding unsigned_ok_def whole_ok_def w by simp
  qed
  then show ?thesis using assms(1) strip_show [of _ "[]"] show_digits
    by (cases rule: whole_print_cases [OF assms(2)]) auto
qed

lemma whole_read_bound: assumes "entry_ok e" shows "\<bar>fst (whole_read e)\<bar> < number_limit"
proof -
  let ?u = "strip_sign e"
  let ?w = "takeWhile decimal_char ?u"
  have w: "list_all decimal_char ?w" by (metis list_all_iff set_takeWhileD)
  have "length ?w \<le> count_digits ?u"
    using count_digits_all [OF w] takeWhile_dropWhile_id [of decimal_char ?u] by (metis count_digits_simps(3) le_add1)
  also have "\<dots> \<le> 12" using assms by (simp add: entry_ok_def digits_fit_def CALCULATOR_DIGIT_COUNT_def)
  finally have "(10 :: nat) ^ length ?w \<le> 10 ^ 12" by (rule power_increasing) simp
  then have "read_number ?w < 10 ^ 12" using read_bound [OF w] by linarith
  then have b: "int (read_number ?w) < number_limit" by (simp add: number_limit_def)
  have "take 3 ?u \<noteq> ''inf''" if "?w = []"
    using that assms by (cases ?u) (auto simp: entry_ok_def unsigned_ok_def whole_ok_def)
  moreover have "0 < number_limit" by (simp add: number_limit_def)
  ultimately show ?thesis using b unfolding whole_read_def Let_def by (simp only: fst_conv split: if_split) auto
qed

lemma whole_print_length: "\<bar>x\<bar> < number_limit \<Longrightarrow> whole_print x \<noteq> [] \<and> length (whole_print x) \<le> 13"
proof (erule whole_print_cases)
  fix n
  assume n: "n < 10 ^ 12" and p: "whole_print x = show_number n"
  show ?thesis using show_length [OF n] show_digits [of n] by (simp add: p)
next
  fix n
  assume n: "n < 10 ^ 12" and p: "whole_print x = CHR ''-'' # show_number n"
  show ?thesis using show_length [OF n] by (simp add: p)
qed

interpretation whole: float_laws whole_floats
proof unfold_locales
  fix x :: int and rest :: string
  show "fl_finite whole_floats x \<Longrightarrow> rest = [] \<or> hd rest = CHR '' '' \<Longrightarrow>
      fl_read whole_floats (fl_print whole_floats 17 x @ rest) = (x, length (fl_print whole_floats 17 x))"
    by (simp add: whole_read_print)
next
  fix x :: int
  show "fl_finite whole_floats x \<Longrightarrow>
      fl_finite whole_floats (fst (fl_read whole_floats (fl_print whole_floats CALCULATOR_DIGIT_COUNT x)))"
    using whole_read_print [of x "[]"] by simp
next
  fix x :: int and n :: nat
  show "fl_finite whole_floats x \<Longrightarrow> n \<le> 17 \<Longrightarrow> fl_print whole_floats n x \<noteq> [] \<and> length (fl_print whole_floats n x) \<le> 24"
    using whole_print_length [of x] by simp
  show "fl_finite whole_floats x \<Longrightarrow> length (fl_print whole_floats 1 x) \<le> CALCULATOR_TEXT_CHARS"
    using whole_print_length [of x] by (simp add: CALCULATOR_TEXT_CHARS_def)
qed (simp_all add: whole_unsigned whole_read_bound, simp_all add: number_limit_def)


subsection \<open>Properties\<close>

lemma press_steps: "(key_step F)\<^sup>*\<^sup>* c (press F keys c)"
proof (induction keys rule: rev_induct)
  case (snoc k keys)
  then show ?case using key_step.key [of F "press F keys c" k] by (simp add: rtranclp.rtrancl_into_rtrancl)
qed simp

text \<open>
  C20. Whatever text was restored and whatever keys were pressed since, the number being typed has
  at most twelve digits and fits its buffer with the terminator, the accumulator is finite and the display text
  is at most fourteen characters.
\<close>

theorem typed_number_fits:
  assumes "float_laws F" "c = clear F \<or> c = snd (fplinux_calculator_restore F s)" "(key_step F)\<^sup>*\<^sup>* c d"
  shows "length (ca_entry d) < CALCULATOR_TEXT_BYTES \<and> count_digits (ca_entry d) \<le> CALCULATOR_DIGIT_COUNT \<and>
    fl_finite F (ca_accumulator d) \<and>
    length (fplinux_calculator_display F d separator capacity) \<le> CALCULATOR_TEXT_CHARS"
proof -
  have ok: "calc_ok F (fl_is_zero F) d" using assms by (rule float_laws.keys_keep_any)
  then show ?thesis
    using entry_ok_length [of "ca_entry d"] float_laws.display_length [OF assms(1) ok]
    by (auto simp: calc_ok_def entry_ok_def digits_fit_def CALCULATOR_TEXT_BYTES_def)
qed

theorem typed_number_fits_witness:
  "count_digits (ca_entry (press whole_floats ''1234567890123<.'' (snd (fplinux_calculator_restore whole_floats ''i + 5 -1'')))) \<le> CALCULATOR_DIGIT_COUNT"
  using typed_number_fits [OF whole.float_laws_axioms _ press_steps [of whole_floats _ "''1234567890123<.''"]]
  by blast

text \<open>
  C21. Saving the calculator after any keys into a buffer of the promised size and restoring the text
  gives the same calculator back: number being typed, awaiting operation, accumulator, result and error.
\<close>

theorem saved_calculator_returns:
  assumes "float_laws F" "(key_step F)\<^sup>*\<^sup>* (clear F) c" "CALCULATOR_SAVE_BYTES \<le> capacity"
  shows "fplinux_calculator_restore F (fplinux_calculator_save F c capacity) = (True, c)"
  using assms float_laws.save_restore float_laws.keys_keep_exact by blast

theorem saved_calculator_returns_witness:
  "fplinux_calculator_restore whole_floats (fplinux_calculator_save whole_floats (press whole_floats ''7*#4'' (clear whole_floats)) 64) =
     (True, (clear whole_floats)\<lparr> ca_entry := ''-4'', ca_accumulator := 7, ca_operation := Some CHR ''*'' \<rparr>)"
proof -
  have "press whole_floats ''7*#4'' (clear whole_floats) =
     (clear whole_floats)\<lparr> ca_entry := ''-4'', ca_accumulator := 7, ca_operation := Some CHR ''*'' \<rparr>"
    by code_simp
  moreover have "CALCULATOR_SAVE_BYTES \<le> 64" by (simp add: CALCULATOR_SAVE_BYTES_def)
  ultimately show ?thesis
    using saved_calculator_returns [OF whole.float_laws_axioms press_steps [of _ _ "''7*#4''"]] by metis
qed



end
