(* ===== verification/Radio_Transport.thy ===== *)
theory Radio_Transport
  imports Prelude
begin

section \<open>The packet transport of the radio\<close>

text \<open>
  \<open>marlin2-transport-wire.c\<close> and \<open>marlin2-packet-codec.c\<close> under
  \<open>src/targets/bq-2830l-tank-connect-max/linux/overlay/drivers/mmc/host/bq2830l-radio\<close>: records with a header word, padded to
  four bytes, sent alone in blocks of 512 bytes and received many at a time.  A function that fills a
  buffer gives the bytes it filled, or \<^const>\<open>None\<close> where the source returns 0.  A pointer into a packet is the offset
  from its start.
\<close>

subsection \<open>Bytes and words\<close>

definition get_le16 :: "bytes \<Rightarrow> nat \<Rightarrow> u16" where
  "get_le16 bs at = of_nat (unat (bs ! at) + 256 * unat (bs ! (at + 1)))"

definition get_le32 :: "bytes \<Rightarrow> nat \<Rightarrow> u32" where
  "get_le32 bs at = of_nat (unat (bs ! at) + 256 * unat (bs ! (at + 1)) + 65536 * unat (bs ! (at + 2)) + 16777216 * unat (bs ! (at + 3)))"

definition put_le16 :: "u16 \<Rightarrow> bytes" where
  "put_le16 x = [of_nat (unat x mod 256), of_nat (unat x div 256)]"

definition put_le32 :: "u32 \<Rightarrow> bytes" where
  "put_le32 x = [of_nat (unat x mod 256), of_nat (unat x div 256 mod 256), of_nat (unat x div 65536 mod 256), of_nat (unat x div 16777216)]"

text \<open>\<open>memcpy\<close> into a buffer.\<close>

definition put_at :: "nat \<Rightarrow> bytes \<Rightarrow> bytes \<Rightarrow> bytes" where
  "put_at at bs buffer = take at buffer @ bs @ drop (at + length bs) buffer"

subsection \<open>Records\<close>

definition PUH_EOF :: u32 where "PUH_EOF = 0x00800000"
definition PACKET_RX_MAX_BYTES :: nat where "PACKET_RX_MAX_BYTES = 10240"
definition PACKET_RX_INITIAL_BYTES :: nat where "PACKET_RX_INITIAL_BYTES = 2048"
definition PACKET_TX_BYTES :: nat where "PACKET_TX_BYTES = 512"

definition aligned :: "nat \<Rightarrow> nat \<Rightarrow> nat" where
  "aligned n unit = (n + unit - 1) div unit * unit"

definition record_header :: "u8 \<Rightarrow> u8 \<Rightarrow> nat \<Rightarrow> u32" where
  "record_header type subtype payload_bytes =
     push_bit 28 (ucast type) OR push_bit 24 (ucast subtype) OR push_bit 7 (of_nat payload_bytes)"

definition marlin2_transport_record_prepare :: "nat \<Rightarrow> u8 \<Rightarrow> u8 \<Rightarrow> nat \<Rightarrow> bytes option" where
  "marlin2_transport_record_prepare capacity type subtype payload_bytes =
     (if type > 3 \<or> subtype > 3 \<or> payload_bytes = 0 \<or> payload_bytes > 0xffff then None
      else let record_bytes = 4 + aligned payload_bytes 4; n = aligned (record_bytes + 4) 512
           in if n > capacity then None
              else Some (put_at record_bytes (put_le32 PUH_EOF)
                          (put_at 0 (put_le32 (record_header type subtype payload_bytes)) (replicate n 0))))"

definition marlin2_transport_record_build :: "nat \<Rightarrow> u8 \<Rightarrow> u8 \<Rightarrow> bytes \<Rightarrow> bytes option" where
  "marlin2_transport_record_build capacity type subtype payload =
     map_option (put_at 4 payload) (marlin2_transport_record_prepare capacity type subtype (length payload))"

subsection \<open>Aggregates\<close>

record transport_message =
  msg_at :: nat
  msg_length :: nat
  msg_type :: nat
  msg_subtype :: nat

record transport_aggregate =
  ta_packet :: bytes
  ta_data_bytes :: nat
  ta_offset :: nat
  ta_used :: nat
  ta_next :: u32
  ta_parsed :: nat

datatype radio_error = EINVAL | EBADMSG | EREMOTEIO | EPROTO | EOPNOTSUPP | EAGAIN | EMSGSIZE | EINPROGRESS | ETIMEDOUT | EBUSY | EIO |
  EPIPE | ENODATA | ENODEV | ENETDOWN | EPROTONOSUPPORT | ENOMEM | EOTHER nat

definition marlin2_transport_aggregate_init :: "bytes \<Rightarrow> nat \<Rightarrow> radio_error + transport_aggregate" where
  "marlin2_transport_aggregate_init packet read_bytes =
     (if read_bytes < 512 \<or> read_bytes > PACKET_RX_MAX_BYTES \<or> read_bytes mod 512 \<noteq> 0 then Inl EINVAL
      else Inr \<lparr> ta_packet = packet, ta_data_bytes = read_bytes - 8, ta_offset = 0,
                 ta_used = unat (get_le32 packet (read_bytes - 8)), ta_next = get_le32 packet (read_bytes - 4), ta_parsed = 0 \<rparr>)"

text \<open>
  What \<open>marlin2_transport_aggregate_next\<close> gives: an error, the end, or a message, with the aggregate moved on
  and the header read last.
\<close>

datatype 'a step = Failed radio_error | Finished | Got 'a

text \<open>One turn of its loop: the record at the offset, and the aggregate behind it.\<close>

definition record_message :: "u32 \<Rightarrow> nat \<Rightarrow> transport_message" where
  "record_message header offset =
     \<lparr> msg_at = offset + 4, msg_length = unat (drop_bit 7 header AND 0xffff),
       msg_type = unat (drop_bit 28 header), msg_subtype = unat (drop_bit 24 header AND 15) \<rparr>"

definition next_record ::
    "transport_aggregate \<Rightarrow> u32 \<Rightarrow> (radio_error + transport_message \<times> transport_aggregate) \<times> u32" where
  "next_record a puh =
     (if ta_offset a > ta_data_bytes a \<or> ta_data_bytes a - ta_offset a < 4 then (Inl EBADMSG, puh)
      else
        let header = get_le32 (ta_packet a) (ta_offset a); message = record_message header (ta_offset a);
            record_bytes = 4 + aligned (msg_length message) 4
        in if header AND PUH_EOF \<noteq> 0 then (Inl EBADMSG, header)
           else if record_bytes > ta_data_bytes a - ta_offset a then (Inl EBADMSG, header)
           else (Inr (message, a\<lparr> ta_offset := ta_offset a + record_bytes \<rparr>), header))"

lemma aligned_unit_ge: "0 < u \<Longrightarrow> n \<le> aligned n u"
  unfolding aligned_def using div_mult_mod_eq [of "n + u - 1" u] mod_less_divisor [of u "n + u - 1"] by linarith

lemma aligned_ge: "n \<le> aligned n 4"
  by (simp add: aligned_unit_ge)

lemma next_record_Inr:
  assumes "next_record a puh = (Inr (m, b), header)"
  shows "b = a\<lparr> ta_offset := ta_offset a + 4 + aligned (msg_length m) 4 \<rparr>" "ta_offset b \<le> ta_data_bytes a"
    "msg_at m = ta_offset a + 4" "ta_offset a < ta_offset b" "msg_at m + msg_length m \<le> ta_offset b"
  using assms aligned_ge [of "msg_length m"] by (auto simp: next_record_def Let_def record_message_def split: if_splits)

function marlin2_transport_aggregate_next ::
    "transport_aggregate \<Rightarrow> u32 \<Rightarrow> transport_message step \<times> transport_aggregate \<times> u32" where
  "marlin2_transport_aggregate_next a puh =
     (if \<not> ta_parsed a < ta_used a then (Finished, a, puh)
      else case next_record a puh of
        (Inl e, header) \<Rightarrow> (Failed e, a, header)
      | (Inr (message, b), header) \<Rightarrow>
          if msg_type message \<noteq> 15
          then if msg_length message = 0 \<or> msg_length message > ta_used b - ta_parsed b then (Failed EBADMSG, b, header)
               else (Got message, b\<lparr> ta_parsed := ta_parsed b + msg_length message \<rparr>, header)
          else marlin2_transport_aggregate_next b header)"
  by pat_completeness auto
termination
proof (relation "measure (\<lambda>(a, _). Suc (ta_data_bytes a) - ta_offset a)")
  fix a :: transport_aggregate and puh :: u32 and r header y m b
  assume "\<not> \<not> ta_parsed a < ta_used a" "(r, header) = next_record a puh" "r = Inr y" "(m, b) = y" "\<not> msg_type m \<noteq> 15"
  then have n: "next_record a puh = (Inr (m, b), header)" by simp
  show "((b, header), (a, puh)) \<in> measure (\<lambda>(a, _). Suc (ta_data_bytes a) - ta_offset a)"
    using next_record_Inr [OF n] by (simp add: next_record_Inr(1) [OF n])
qed simp

declare marlin2_transport_aggregate_next.simps [simp del]

text \<open>A message lies behind the old offset and before the new one, and is counted.\<close>

lemma aggregate_next_result:
  assumes "marlin2_transport_aggregate_next a puh = (r, b, header)"
  shows "ta_packet b = ta_packet a \<and> ta_data_bytes b = ta_data_bytes a \<and> ta_used b = ta_used a \<and> ta_next b = ta_next a \<and>
    ta_offset a \<le> ta_offset b \<and>
    (\<forall>m. r = Got m \<longrightarrow> ta_offset a < ta_offset b \<and> ta_offset b \<le> ta_data_bytes a \<and>
       ta_offset a + 4 \<le> msg_at m \<and> msg_at m + msg_length m \<le> ta_offset b \<and>
       0 < msg_length m \<and> msg_type m \<noteq> 15 \<and> ta_parsed b = ta_parsed a + msg_length m \<and> ta_parsed b \<le> ta_used a)"
  using assms
proof (induction a puh arbitrary: r b header rule: marlin2_transport_aggregate_next.induct)
  case (1 a puh)
  obtain x h where x: "next_record a puh = (x, h)" by fastforce
  show ?case
  proof (cases "ta_parsed a < ta_used a")
    case False
    then show ?thesis using 1(2) by (simp add: marlin2_transport_aggregate_next.simps [of a puh])
  next
    case True
    show ?thesis
    proof (cases x)
      case (Inl e)
      then show ?thesis using 1(2) True x by (auto simp: marlin2_transport_aggregate_next.simps [of a puh])
    next
      case (Inr y)
      obtain m c where y: "y = (m, c)" by fastforce
      have n: "next_record a puh = (Inr (m, c), h)" by (simp add: x Inr y)
      note r = next_record_Inr [OF n]
      show ?thesis
      proof (cases "msg_type m = 15")
        case False
        then show ?thesis
          using 1(2) True r n by (auto simp: marlin2_transport_aggregate_next.simps [of a puh] split: if_splits)
      next
        case skip: True
        have eq: "marlin2_transport_aggregate_next c h = (r, b, header)"
          using 1(2) True n skip by (simp add: marlin2_transport_aggregate_next.simps [of a puh])
        have "ta_packet b = ta_packet c \<and> ta_data_bytes b = ta_data_bytes c \<and> ta_used b = ta_used c \<and> ta_next b = ta_next c \<and>
            ta_offset c \<le> ta_offset b \<and>
            (\<forall>m. r = Got m \<longrightarrow> ta_offset c < ta_offset b \<and> ta_offset b \<le> ta_data_bytes c \<and>
               ta_offset c + 4 \<le> msg_at m \<and> msg_at m + msg_length m \<le> ta_offset b \<and>
               0 < msg_length m \<and> msg_type m \<noteq> 15 \<and> ta_parsed b = ta_parsed c + msg_length m \<and> ta_parsed b \<le> ta_used c)"
          by (rule 1(1) [OF _ n [symmetric] refl refl _ eq]) (use True skip in simp_all)
        then show ?thesis using r(1,4) by auto
      qed
    qed
  qed
qed

subsection \<open>Decoding an aggregate\<close>

datatype decode_result = Complete | Broken radio_error | Stopped int

text \<open>The loop of \<open>marlin2_transport_aggregate_decode\<close>; the receiver answers with 0 to go on.\<close>

function aggregate_loop ::
    "('c \<Rightarrow> transport_message \<Rightarrow> int \<times> 'c) \<Rightarrow> 'c \<Rightarrow> transport_aggregate \<Rightarrow> u32 \<Rightarrow> decode_result \<times> 'c" where
  "aggregate_loop receive context a puh =
     (case marlin2_transport_aggregate_next a puh of
        (Failed e, _, _) \<Rightarrow> (Broken e, context)
      | (Finished, _, _) \<Rightarrow> (Complete, context)
      | (Got message, b, header) \<Rightarrow>
          (case receive context message of
             (ret, context) \<Rightarrow> if ret \<noteq> 0 then (Stopped ret, context) else aggregate_loop receive context b header))"
  by pat_completeness auto
termination
  by (relation "measure (\<lambda>(_, _, a, _). Suc (ta_data_bytes a) - ta_offset a)")
     (auto dest!: aggregate_next_result [OF sym])

declare aggregate_loop.simps [simp del]

definition marlin2_transport_aggregate_decode ::
    "bytes \<Rightarrow> nat \<Rightarrow> ('c \<Rightarrow> transport_message \<Rightarrow> int \<times> 'c) \<Rightarrow> 'c \<Rightarrow> decode_result \<times> 'c \<times> u32 option" where
  "marlin2_transport_aggregate_decode packet read_bytes receive context =
     (case marlin2_transport_aggregate_init packet read_bytes of
        Inl e \<Rightarrow> (Broken e, context, None)
      | Inr a \<Rightarrow> (case aggregate_loop receive context a 0 of (result, context) \<Rightarrow> (result, context, Some (ta_next a))))"

subsection \<open>The first command\<close>

definition COMMAND_BYTES :: nat where "COMMAND_BYTES = 12"
definition GET_INFO_BYTES :: nat where "GET_INFO_BYTES = 28"
definition GET_INFO_ID :: u8 where "GET_INFO_ID = 1"
definition PUH_WIFI :: u8 where "PUH_WIFI = 2"

definition marlin2_packet_build_get_info :: "u32 \<Rightarrow> bytes option" where
  "marlin2_packet_build_get_info token =
     map_option (\<lambda>packet. put_at 8 (put_le32 token) (put_at 6 (put_le16 (of_nat COMMAND_BYTES)) (packet[4 := 0x10, 5 := GET_INFO_ID])))
       (marlin2_transport_record_prepare PACKET_TX_BYTES PUH_WIFI 0 COMMAND_BYTES)"

record marlin2_info =
  mi_chip_model :: u32
  mi_chip_version :: u32
  mi_firmware_version :: u32
  mi_standards :: u32
  mi_capabilities :: u32
  mi_max_ap_stations :: u8
  mi_max_acl_addresses :: u8
  mi_max_multicast_addresses :: u8
  mi_wnm_ft_support :: u8
  mi_extended_features :: u32

record marlin2_packet_result =
  pr_info :: marlin2_info
  pr_token :: u32
  pr_aggregates :: u32
  pr_records :: u32
  pr_ignored_records :: u32
  pr_used_payload_bytes :: u32
  pr_next_payload_bytes :: u32
  pr_last_puh :: u32
  pr_response_length :: u16
  pr_response_header :: bytes
  pr_response_payload :: bytes
  pr_status :: int
  pr_multi_block :: bool
  pr_request_sent :: bool
  pr_rx_request_seen :: bool
  pr_response_received :: bool

text \<open>The result is \<^const>\<open>True\<close> for the answer, \<^const>\<open>False\<close> for another message.\<close>

definition decode_get_info :: "bytes \<Rightarrow> u32 \<Rightarrow> marlin2_packet_result \<Rightarrow> (radio_error + bool) \<times> marlin2_packet_result" where
  "decode_get_info command token result =
     (if length command < COMMAND_BYTES then (Inl EBADMSG, result)
      else if command ! 0 AND 7 \<noteq> 0 \<or> command ! 1 \<noteq> GET_INFO_ID \<or> get_le32 command 4 \<noteq> token then (Inr False, result)
      else
        let command_bytes = get_le16 command 2;
            result = result\<lparr> pr_response_length := command_bytes, pr_response_header := take 12 command,
                             pr_status := sint (command ! 8), pr_response_received := True \<rparr>
        in if unat command_bytes > length command \<or> unat command_bytes < COMMAND_BYTES then (Inl EBADMSG, result)
           else if pr_status result \<noteq> 0 then (Inl EREMOTEIO, result)
           else if length command \<noteq> COMMAND_BYTES + GET_INFO_BYTES \<or> unat command_bytes \<noteq> length command then (Inl EPROTO, result)
           else
             let payload = drop COMMAND_BYTES command
             in (Inr True, result\<lparr> pr_response_payload := take 28 payload,
                   pr_info := \<lparr> mi_chip_model = get_le32 payload 0, mi_chip_version = get_le32 payload 4,
                     mi_firmware_version = get_le32 payload 8, mi_standards = get_le32 payload 12,
                     mi_capabilities = get_le32 payload 16, mi_max_ap_stations = payload ! 20,
                     mi_max_acl_addresses = payload ! 21, mi_max_multicast_addresses = payload ! 22,
                     mi_wnm_ft_support = payload ! 23, mi_extended_features = get_le32 payload 24 \<rparr> \<rparr>))"

text \<open>The bytes a message points at.\<close>

definition message_data :: "bytes \<Rightarrow> transport_message \<Rightarrow> bytes" where
  "message_data packet m = take (msg_length m) (drop (msg_at m) packet)"

function packet_loop :: "u32 \<Rightarrow> transport_aggregate \<Rightarrow> marlin2_packet_result \<Rightarrow> (radio_error + bool) \<times> marlin2_packet_result" where
  "packet_loop token a result =
     (case marlin2_transport_aggregate_next a (pr_last_puh result) of
        (Failed e, _, header) \<Rightarrow> (Inl e, result\<lparr> pr_last_puh := header \<rparr>)
      | (Finished, _, header) \<Rightarrow> (Inr False, result\<lparr> pr_last_puh := header \<rparr>)
      | (Got message, b, header) \<Rightarrow>
          let result = result\<lparr> pr_last_puh := header, pr_records := pr_records result + 1 \<rparr>;
              (answer, result) = (if msg_type message = unat PUH_WIFI \<and> msg_subtype message = 0
                                  then decode_get_info (message_data (ta_packet a) message) token result else (Inr False, result))
          in if answer \<noteq> Inr False then (answer, result)
             else packet_loop token b (result\<lparr> pr_ignored_records := pr_ignored_records result + 1 \<rparr>))"
  by pat_completeness auto
termination
  by (relation "measure (\<lambda>(_, a, _). Suc (ta_data_bytes a) - ta_offset a)")
     (auto dest!: aggregate_next_result [OF sym])

declare packet_loop.simps [simp del]

definition marlin2_packet_decode ::
    "bytes \<Rightarrow> nat \<Rightarrow> u32 \<Rightarrow> marlin2_packet_result \<Rightarrow> (radio_error + bool) \<times> marlin2_packet_result" where
  "marlin2_packet_decode packet read_bytes token result =
     (case marlin2_transport_aggregate_init packet read_bytes of
        Inl e \<Rightarrow> (Inl e, result)
      | Inr a \<Rightarrow> packet_loop token a
          (result\<lparr> pr_used_payload_bytes := of_nat (ta_used a), pr_next_payload_bytes := ta_next a,
                   pr_aggregates := pr_aggregates result + 1 \<rparr>))"

definition marlin2_packet_next_read :: "u32 \<Rightarrow> nat" where
  "marlin2_packet_next_read pending_payload_bytes =
     (if pending_payload_bytes = 0 then PACKET_RX_INITIAL_BYTES
      else let n = (unat pending_payload_bytes + 8 * (unat pending_payload_bytes div 1024 + 1) + 64 + 511) div 512 * 512
           in if n > PACKET_RX_MAX_BYTES then PACKET_RX_MAX_BYTES else n)"

end
