(* ===== verification/Radio_Aggregate.thy ===== *)
theory Radio_Aggregate
  imports Radio_Transport
begin

section \<open>What the packet transport delivers\<close>

text \<open>
  A reference encoder for records and whole reads, the round trip through the decoder, the place of every
  delivered message inside the read, and what the record builders leave in a block.
\<close>

unbundle bit_operations_syntax

subsection \<open>Words on the wire\<close>

lemma unat_of_byte [simp]: "unat (of_nat k :: u8) = k mod 256"
  by (simp add: unat_of_nat)

lemma length_put [simp]: "length (put_le16 y) = 2" "length (put_le32 x) = 4"
  by (simp_all add: put_le16_def put_le32_def)

lemma split_32: "x mod 256 + 256 * (x div 256 mod 256) + 65536 * (x div 65536 mod 256) + 16777216 * (x div 16777216) = (x::nat)"
proof -
  have "x div 65536 = x div 256 div 256" "x div 16777216 = x div 65536 div 256" by (simp_all add: div_mult2_eq [symmetric])
  moreover have "256 * (x div 256) + x mod 256 = x" "256 * (x div 256 div 256) + x div 256 mod 256 = x div 256"
    "256 * (x div 65536 div 256) + x div 65536 mod 256 = x div 65536" by simp_all
  ultimately show ?thesis by linarith
qed

lemma get_put_le32 [simp]: "get_le32 (pre @ put_le32 x @ post) (length pre) = x"
proof -
  have "unat x < 2 ^ 32" using unsigned_less [of x] by simp
  then have "unat x div 16777216 < 256" by simp
  then show ?thesis
    using split_32 [of "unat x"]
    by (simp add: get_le32_def put_le32_def nth_append nth_Cons' unat_of_nat del: of_nat_add of_nat_mult)
qed

lemma get_put_le16 [simp]: "get_le16 (pre @ put_le16 x @ post) (length pre) = x"
proof -
  have "unat x < 2 ^ 16" using unsigned_less [of x] by simp
  then have "unat x div 256 < 256" by simp
  then show ?thesis
    by (simp add: get_le16_def put_le16_def nth_append nth_Cons' unat_of_nat del: of_nat_add of_nat_mult)
qed

lemma small_bits: "n < 2 ^ k \<Longrightarrow> bit (n::nat) i \<Longrightarrow> i < k"
  by (metis bit_take_bit_iff take_bit_nat_eq_self)

lemma header_bits:
  assumes "t < 16" "s < 16" "n < 65536"
  shows "unat (drop_bit 28 (record_header t s n)) = unat t" "unat (drop_bit 24 (record_header t s n) AND 15) = unat s"
    "unat (drop_bit 7 (record_header t s n) AND 0xffff) = n" "record_header t s n AND PUH_EOF = 0"
proof -
  have t: "i < 4" if "bit t i" for i
    using that small_bits [of "unat t" 4 i] assms(1) by (simp add: word_less_nat_alt bit_unsigned_iff)
  have s: "i < 4" if "bit s i" for i
    using that small_bits [of "unat s" 4 i] assms(2) by (simp add: word_less_nat_alt bit_unsigned_iff)
  have n: "i < 16" if "bit n i" for i using that small_bits [of n 16 i] assms(3) by simp
  have 15: "(15::u32) = mask 4" "(0xffff::u32) = mask 16" by (simp_all add: mask_eq_exp_minus_1)
  have two: "PUH_EOF = 2 ^ 23" by (simp add: PUH_EOF_def)
  have eof: "bit PUH_EOF i \<longleftrightarrow> i = 23" for i unfolding two bit_exp_iff by auto
  have "drop_bit 28 (record_header t s n) = ucast t"
    by (rule bit_word_eqI) (auto simp: record_header_def bit_simps dest: t s n)
  then show "unat (drop_bit 28 (record_header t s n)) = unat t" by (simp add: unsigned_ucast_eq take_bit_nat_eq_self)
  have "drop_bit 24 (record_header t s n) AND 15 = ucast s"
    unfolding 15 by (rule bit_word_eqI) (auto simp: record_header_def bit_simps dest: t s n)
  then show "unat (drop_bit 24 (record_header t s n) AND 15) = unat s" by (simp add: unsigned_ucast_eq take_bit_nat_eq_self)
  have "drop_bit 7 (record_header t s n) AND 0xffff = of_nat n"
    unfolding 15 by (rule bit_word_eqI) (auto simp: record_header_def bit_simps dest: t s n)
  then show "unat (drop_bit 7 (record_header t s n) AND 0xffff) = n" using assms(3) by (simp add: unat_of_nat)
  show "record_header t s n AND PUH_EOF = 0"
    by (rule bit_word_eqI) (auto simp: eof record_header_def bit_simps dest: t s n)
qed

subsection \<open>Records and reads\<close>

text \<open>A record of the radio, of any of its 16 types, and a read of blocks with its trailer.\<close>

type_synonym wire_record = "u8 \<times> u8 \<times> bytes"

definition encode_record :: "wire_record \<Rightarrow> bytes" where
  "encode_record r = (case r of (type, subtype, payload) \<Rightarrow>
     put_le32 (record_header type subtype (length payload)) @ payload @ replicate (aligned (length payload) 4 - length payload) 0)"

definition dummy :: "wire_record \<Rightarrow> bool" where
  "dummy r \<longleftrightarrow> fst r = 15"

definition sendable_record :: "wire_record \<Rightarrow> bool" where
  "sendable_record r = (case r of (type, subtype, payload) \<Rightarrow>
     type < 16 \<and> subtype < 16 \<and> length payload < 65536 \<and> (type \<noteq> 15 \<longrightarrow> payload \<noteq> []))"

definition payload_bytes :: "wire_record list \<Rightarrow> nat" where
  "payload_bytes rs = sum_list (map (\<lambda>(_, _, payload). length payload) (filter (\<lambda>r. \<not> dummy r) rs))"

definition encode_read :: "wire_record list \<Rightarrow> bytes \<Rightarrow> u32 \<Rightarrow> bytes" where
  "encode_read rs filler pending = concat (map encode_record rs) @ filler @ put_le32 (of_nat (payload_bytes rs)) @ put_le32 pending"

text \<open>A receiver that takes every message in, and one that keeps what it is given.\<close>

definition delivering :: "bytes \<Rightarrow> (nat \<times> nat \<times> bytes \<Rightarrow> 'c \<Rightarrow> 'c) \<Rightarrow> 'c \<Rightarrow> transport_message \<Rightarrow> int \<times> 'c" where
  "delivering packet take_in c m = (0, take_in (msg_type m, msg_subtype m, message_data packet m) c)"

definition collect :: "bytes \<Rightarrow> (nat \<times> nat \<times> bytes) list \<Rightarrow> transport_message \<Rightarrow> int \<times> (nat \<times> nat \<times> bytes) list" where
  "collect packet = delivering packet (\<lambda>x got. got @ [x])"

definition delivered :: "wire_record list \<Rightarrow> (nat \<times> nat \<times> bytes) list" where
  "delivered rs = map (\<lambda>(type, subtype, payload). (unat type, unat subtype, payload)) (filter (\<lambda>r. \<not> dummy r) rs)"

lemma length_encode_record: "length (encode_record (t, s, payload)) = 4 + aligned (length payload) 4"
  using aligned_ge [of "length payload"] by (simp add: encode_record_def)

lemma next_record_encoded:
  assumes "ta_packet a = pre @ encode_record (t, s, payload) @ post" "ta_offset a = length pre"
    and "length pre + length (encode_record (t, s, payload)) \<le> ta_data_bytes a" "sendable_record (t, s, payload)"
  shows "\<exists>m. next_record a puh =
      (Inr (m, a\<lparr> ta_offset := ta_offset a + length (encode_record (t, s, payload)) \<rparr>), record_header t s (length payload)) \<and>
    msg_type m = unat t \<and> msg_subtype m = unat s \<and> msg_length m = length payload \<and> message_data (ta_packet a) m = payload"
proof -
  have bits: "t < 16" "s < 16" "length payload < 65536" using assms(4) by (auto simp: sendable_record_def)
  define pad where "pad = replicate (aligned (length payload) 4 - length payload) (0::u8)"
  have packet: "ta_packet a = pre @ put_le32 (record_header t s (length payload)) @ payload @ pad @ post"
    by (simp add: assms(1) encode_record_def pad_def)
  have "get_le32 (ta_packet a) (ta_offset a) = record_header t s (length payload)"
    unfolding packet assms(2) by (rule get_put_le32)
  moreover have "take (length payload) (drop (length pre + 4) (ta_packet a)) = payload" by (simp add: packet)
  ultimately show ?thesis
    using assms(2,3) header_bits [OF bits]
    by (auto simp: next_record_def Let_def record_message_def length_encode_record message_data_def)
qed

subsection \<open>The decoder reads what was encoded\<close>

lemma aggregate_loop_dummy:
  assumes "ta_parsed a < ta_used a" "next_record a puh = (Inr (m, b), header)" "msg_type m = 15"
  shows "aggregate_loop receive context a puh = aggregate_loop receive context b header"
  using assms by (simp add: aggregate_loop.simps [of _ _ a] aggregate_loop.simps [of _ _ b] marlin2_transport_aggregate_next.simps [of a])

lemma aggregate_loop_message:
  assumes "ta_parsed a < ta_used a" "next_record a puh = (Inr (m, b), header)" "msg_type m \<noteq> 15"
    and "0 < msg_length m" "msg_length m \<le> ta_used a - ta_parsed a" "receive c m = (0, c')"
  shows "aggregate_loop receive c a puh =
    aggregate_loop receive c' (b\<lparr> ta_parsed := ta_parsed a + msg_length m \<rparr>) header"
  using assms next_record_Inr(1) [OF assms(2)]
  by (simp add: aggregate_loop.simps [of _ _ a] marlin2_transport_aggregate_next.simps [of a])

lemma payload_bytes_simps [simp]:
  "payload_bytes [] = 0" "dummy r \<Longrightarrow> payload_bytes (r # rs) = payload_bytes rs"
  "\<not> dummy (t, s, payload) \<Longrightarrow> payload_bytes ((t, s, payload) # rs) = length payload + payload_bytes rs"
  by (simp_all add: payload_bytes_def)

lemma delivered_simps [simp]:
  "delivered [] = []" "dummy r \<Longrightarrow> delivered (r # rs) = delivered rs"
  "\<not> dummy (t, s, payload) \<Longrightarrow> delivered ((t, s, payload) # rs) = (unat t, unat s, payload) # delivered rs"
  by (simp_all add: delivered_def)

lemma no_payload:
  assumes "payload_bytes rs = 0" "\<forall>r\<in>set rs. sendable_record r"
  shows "delivered rs = []"
  using assms by (fastforce simp: payload_bytes_def delivered_def dummy_def sendable_record_def filter_empty_conv)

lemma payload_bytes_le: "payload_bytes rs \<le> length (concat (map encode_record rs))"
proof (induction rs)
  case (Cons r rs)
  then show ?case
    using aligned_ge [of "length (snd (snd r))"]
    by (cases r; cases "dummy r") (simp_all add: length_encode_record del: length_concat)
qed simp

lemma aggregate_loop_finished: "\<not> ta_parsed a < ta_used a \<Longrightarrow> aggregate_loop receive context a puh = (Complete, context)"
  by (simp add: aggregate_loop.simps [of _ _ a] marlin2_transport_aggregate_next.simps [of a])

lemma aggregate_loop_encoded:
  assumes "ta_packet a = pre @ concat (map encode_record rs) @ post" "ta_offset a = length pre"
    and "length pre + length (concat (map encode_record rs)) \<le> ta_data_bytes a" "\<forall>r\<in>set rs. sendable_record r"
    and "ta_used a = ta_parsed a + payload_bytes rs"
  shows "aggregate_loop (delivering (ta_packet a) take_in) got a puh = (Complete, fold take_in (delivered rs) got)"
  using assms
proof (induction rs arbitrary: a pre got puh)
  case Nil
  then show ?case by (simp add: aggregate_loop_finished)
next
  case (Cons r rs)
  obtain t s payload where r: "r = (t, s, payload)" by (cases r)
  show ?case
  proof (cases "payload_bytes (r # rs) = 0")
    case True
    then show ?thesis using Cons.prems no_payload [of "r # rs"] by (simp add: aggregate_loop_finished)
  next
    case False
    let ?n = "length (encode_record r)" and ?post = "concat (map encode_record rs) @ post"
    have packet: "ta_packet a = pre @ encode_record (t, s, payload) @ ?post" using Cons.prems(1) by (simp add: r)
    have unread: "ta_parsed a < ta_used a" using False Cons.prems(5) by simp
    obtain m where m: "next_record a puh = (Inr (m, a\<lparr> ta_offset := ta_offset a + ?n \<rparr>), record_header t s (length payload))"
      "msg_type m = unat t" "msg_subtype m = unat s" "msg_length m = length payload" "message_data (ta_packet a) m = payload"
      using next_record_encoded [OF packet Cons.prems(2), of puh] Cons.prems(3,4) by (auto simp: r)
    have 15: "unat t = 15 \<longleftrightarrow> t = 15" by (simp add: word_unat_eq_iff)
    have pre: "ta_packet a = (pre @ encode_record r) @ concat (map encode_record rs) @ post" using packet by (simp add: r)
    have bound: "length (pre @ encode_record r) + length (concat (map encode_record rs)) \<le> ta_data_bytes a"
      using Cons.prems(3) by simp
    show ?thesis
    proof (cases "dummy r")
      case True
      then have "msg_type m = 15" by (simp add: m(2) 15 dummy_def r)
      then have "aggregate_loop (delivering (ta_packet a) take_in) got a puh =
          aggregate_loop (delivering (ta_packet a) take_in) got (a\<lparr> ta_offset := ta_offset a + ?n \<rparr>) (record_header t s (length payload))"
        by (rule aggregate_loop_dummy [OF unread m(1)])
      then show ?thesis
        using Cons.IH [of "a\<lparr> ta_offset := ta_offset a + ?n \<rparr>" "pre @ encode_record r"] pre bound Cons.prems(2,4,5) True
        by simp
    next
      case False
      let ?b = "a\<lparr> ta_offset := ta_offset a + ?n, ta_parsed := ta_parsed a + length payload \<rparr>"
      have "payload \<noteq> []" "msg_type m \<noteq> 15" using False Cons.prems(4) m(2) 15 by (auto simp: sendable_record_def dummy_def r)
      then have "aggregate_loop (delivering (ta_packet a) take_in) got a puh =
          aggregate_loop (delivering (ta_packet a) take_in) (take_in (unat t, unat s, payload) got) ?b (record_header t s (length payload))"
        using aggregate_loop_message [OF unread m(1), where receive = "delivering (ta_packet a) take_in" and c = got] Cons.prems(5) False m(2-5)
        by (simp add: r delivering_def)
      then show ?thesis
        using Cons.IH [of ?b "pre @ encode_record r"] pre bound Cons.prems(2,4,5) False by (simp add: r)
    qed
  qed
qed

lemma decode_encoded:
  assumes "\<forall>r\<in>set rs. sendable_record r" "packet = encode_read rs filler pending"
    and "length packet mod 512 = 0" "length packet \<le> PACKET_RX_MAX_BYTES" "0 < length packet"
  shows "marlin2_transport_aggregate_decode packet (length packet) (delivering packet take_in) got = (Complete, fold take_in (delivered rs) got, Some pending)"
proof -
  let ?body = "concat (map encode_record rs) @ filler"
  have packet: "packet = ?body @ put_le32 (of_nat (payload_bytes rs)) @ put_le32 pending"
    "packet = (?body @ put_le32 (of_nat (payload_bytes rs))) @ put_le32 pending @ []"
    using assms(2) by (simp_all add: encode_read_def)
  have n: "length packet = length ?body + 8" "length packet - 8 = length ?body"
    "length packet - 4 = length (?body @ put_le32 (of_nat (payload_bytes rs)))" by (simp_all add: packet(1))
  have "length packet \<ge> 512" using assms(3,5) by presburger
  moreover have "payload_bytes rs \<le> length (concat (map encode_record rs))" by (rule payload_bytes_le)
  then have "payload_bytes rs \<le> 10240" using n(1) assms(4) by (simp add: PACKET_RX_MAX_BYTES_def)
  then have "unat (of_nat (payload_bytes rs) :: u32) = payload_bytes rs" by (simp add: unat_of_nat)
  moreover have "get_le32 packet (length packet - 8) = of_nat (payload_bytes rs)"
    unfolding n(2) by (subst packet(1)) (rule get_put_le32)
  moreover have "get_le32 packet (length packet - 4) = pending"
    unfolding n(3) by (subst packet(2)) (rule get_put_le32)
  ultimately have "marlin2_transport_aggregate_init packet (length packet) = Inr \<lparr> ta_packet = packet,
      ta_data_bytes = length packet - 8, ta_offset = 0, ta_used = payload_bytes rs, ta_next = pending, ta_parsed = 0 \<rparr>"
    using assms(3,4) by (simp add: marlin2_transport_aggregate_init_def)
  then show ?thesis
    using aggregate_loop_encoded [of "\<lparr> ta_packet = packet, ta_data_bytes = length packet - 8, ta_offset = 0,
        ta_used = payload_bytes rs, ta_next = pending, ta_parsed = 0 \<rparr>" "[]" rs _ take_in got 0] packet(1) n(1) assms(1)
    by (simp add: marlin2_transport_aggregate_decode_def)
qed

lemma fold_append_one: "fold (\<lambda>x got. got @ [x]) xs ys = ys @ xs"
  by (induction xs arbitrary: ys) simp_all

text \<open>
  C14. Whatever records the radio puts into a read, dummy records between them and any bytes behind them
  included, the decoder hands exactly the payloads of the real ones to the receiver, each once and in order, with
  their types, and reports the number of bytes that wait.
\<close>

theorem read_delivers_records:
  assumes "\<forall>r\<in>set rs. sendable_record r" "packet = encode_read rs filler pending"
    and "length packet mod 512 = 0" "length packet \<le> PACKET_RX_MAX_BYTES" "0 < length packet"
  shows "marlin2_transport_aggregate_decode packet (length packet) (collect packet) [] = (Complete, delivered rs, Some pending)"
  using decode_encoded [OF assms, of "\<lambda>x got. got @ [x]" "[]"] by (simp add: collect_def fold_append_one)

theorem read_delivers_records_witness:
  "marlin2_transport_aggregate_decode (encode_read [(15, 0, []), (2, 1, [7, 8, 9])] (replicate 492 0) 33) 512
     (collect (encode_read [(15, 0, []), (2, 1, [7, 8, 9])] (replicate 492 0) 33)) [] = (Complete, [(2, 1, [7, 8, 9])], Some 33)"
proof -
  have "length (encode_read [(15, 0, []), (2, 1, [7, 8, 9])] (replicate 492 0) 33) = 512"
    by (simp add: encode_read_def encode_record_def aligned_def)
  then show ?thesis
    using read_delivers_records [of "[(15, 0, []), (2, 1, [7, 8, 9])]" _ "replicate 492 0" 33]
    by (simp add: sendable_record_def delivered_def dummy_def PACKET_RX_MAX_BYTES_def)
qed

subsection \<open>Any read at all\<close>

definition watched :: "('c \<Rightarrow> transport_message \<Rightarrow> int \<times> 'c) \<Rightarrow> 'c \<times> transport_message list \<Rightarrow> transport_message \<Rightarrow>
    int \<times> 'c \<times> transport_message list" where
  "watched receive = (\<lambda>(c, ms) m. case receive c m of (ret, c) \<Rightarrow> (ret, c, ms @ [m]))"

definition heard_inside :: "transport_aggregate \<Rightarrow> transport_message list \<Rightarrow> bool" where
  "heard_inside a ms \<longleftrightarrow>
     (\<forall>m\<in>set ms. msg_at m + msg_length m \<le> ta_offset a \<and> 4 \<le> msg_at m \<and> 0 < msg_length m \<and> msg_type m \<noteq> 15) \<and>
     sorted_wrt (\<lambda>m m'. msg_at m + msg_length m + 4 \<le> msg_at m') ms \<and>
     sum_list (map msg_length ms) = ta_parsed a \<and> ta_parsed a \<le> ta_used a \<and> ta_offset a \<le> ta_data_bytes a"

lemma aggregate_next_finished:
  "marlin2_transport_aggregate_next a puh = (Finished, b, header) \<Longrightarrow> \<not> ta_parsed b < ta_used b \<and> ta_parsed b = ta_parsed a"
proof (induction a puh rule: marlin2_transport_aggregate_next.induct)
  case (1 a puh)
  show ?case
  proof (cases "ta_parsed a < ta_used a")
    case True
    obtain m c h where n: "next_record a puh = (Inr (m, c), h)" "msg_type m = 15" "marlin2_transport_aggregate_next c h = (Finished, b, header)"
      using 1(2) True by (auto simp: marlin2_transport_aggregate_next.simps [of a puh] split: prod.splits sum.splits if_splits)
    show ?thesis using 1(1) [OF _ n(1) [symmetric] refl refl _ n(3)] True n(2) next_record_Inr(1) [OF n(1)] by simp
  qed (use 1(2) in \<open>simp add: marlin2_transport_aggregate_next.simps [of a puh]\<close>)
qed

lemma loop_heard_inside:
  assumes "aggregate_loop (watched receive) (c, ms) a puh = (result, c', ms')" "heard_inside a ms"
  shows "\<exists>b. heard_inside b ms' \<and> ta_data_bytes b = ta_data_bytes a \<and> ta_used b = ta_used a \<and>
    (result = Complete \<longrightarrow> ta_parsed b = ta_used a)"
  using assms
proof (induction "watched receive" "(c, ms)" a puh arbitrary: c ms rule: aggregate_loop.induct)
  case (1 a puh c ms)
  obtain r b header where n: "marlin2_transport_aggregate_next a puh = (r, b, header)" by (cases "marlin2_transport_aggregate_next a puh")
  note step = aggregate_next_result [OF n]
  show ?case
  proof (cases r)
    case (Got m)
    obtain ret d where d: "receive c m = (ret, d)" by fastforce
    have w: "watched receive (c, ms) m = (ret, d, ms @ [m])" by (simp add: watched_def d)
    have inside: "heard_inside b (ms @ [m])"
      using step Got 1(3) by (fastforce simp: heard_inside_def sorted_wrt_append)
    show ?thesis
    proof (cases "ret = 0")
      case True
      have "aggregate_loop (watched receive) (d, ms @ [m]) b header = (result, c', ms')"
        using 1(2) n Got w True by (simp add: aggregate_loop.simps [of _ _ a])
      then show ?thesis using 1(1) [OF n [symmetric] Got refl w [symmetric] _ _ inside] True step by simp
    next
      case False
      then show ?thesis using 1(2) n Got w inside step by (auto simp: aggregate_loop.simps [of _ _ a])
    qed
  next
    case Finished
    then show ?thesis
      using 1(2,3) n aggregate_next_finished [of a puh b header] step
      by (intro exI [of _ a]) (auto simp: aggregate_loop.simps [of _ _ a] heard_inside_def)
  next
    case (Failed e)
    then show ?thesis using 1(2,3) n by (intro exI [of _ a]) (auto simp: aggregate_loop.simps [of _ _ a])
  qed
qed

text \<open>
  C11. Of any bytes the radio may send, and for any receiver, every message handed on lies inside the data of the read, behind its own
  header and behind the messages before it; together they hold at most the announced number of bytes, and
  exactly that many when the decoder reports success.
\<close>

theorem messages_inside_read:
  assumes "marlin2_transport_aggregate_decode packet read_bytes (watched receive) (c, []) = (result, (c', ms), pending)"
  shows "(\<forall>m\<in>set ms. 4 \<le> msg_at m \<and> 0 < msg_length m \<and> msg_at m + msg_length m \<le> read_bytes - 8 \<and> msg_type m \<noteq> 15) \<and>
    sorted_wrt (\<lambda>m m'. msg_at m + msg_length m + 4 \<le> msg_at m') ms \<and>
    sum_list (map msg_length ms) \<le> unat (get_le32 packet (read_bytes - 8)) \<and>
    (result = Complete \<longrightarrow> sum_list (map msg_length ms) = unat (get_le32 packet (read_bytes - 8)))"
proof (cases "marlin2_transport_aggregate_init packet read_bytes")
  case (Inl e)
  then show ?thesis using assms by (auto simp: marlin2_transport_aggregate_decode_def)
next
  case (Inr a)
  have a: "ta_data_bytes a = read_bytes - 8" "ta_used a = unat (get_le32 packet (read_bytes - 8))" "ta_parsed a = 0" "ta_offset a = 0"
    using Inr by (auto simp: marlin2_transport_aggregate_init_def split: if_splits)
  have loop: "aggregate_loop (watched receive) (c, []) a 0 = (result, c', ms)"
    using assms Inr by (simp add: marlin2_transport_aggregate_decode_def split: prod.splits)
  have start: "heard_inside a []" by (simp add: heard_inside_def a)
  obtain b where b: "heard_inside b ms" "ta_data_bytes b = ta_data_bytes a" "ta_used b = ta_used a"
      "result = Complete \<longrightarrow> ta_parsed b = ta_used a"
    using loop_heard_inside [OF loop start] by (elim exE conjE) (rule that)
  then have "ta_offset b \<le> read_bytes - 8" "ta_parsed b \<le> ta_used a" "sum_list (map msg_length ms) = ta_parsed b"
    by (simp_all add: heard_inside_def a(1))
  then show ?thesis using b(1,4) unfolding a(2) heard_inside_def by auto
qed

theorem messages_inside_read_witness:
  "\<exists>m. marlin2_transport_aggregate_decode (encode_read [(2, 1, [7])] (replicate 496 0) 0) 512 (watched (\<lambda>c m. (0, c))) ((), []) =
      (Complete, ((), [m]), Some 0) \<and> msg_at m + msg_length m \<le> 504 \<and> msg_length m = 1"
proof -
  let ?packet = "encode_read [(2, 1, [7])] (replicate 496 0) 0"
  define a where "a = \<lparr> ta_packet = ?packet, ta_data_bytes = 504, ta_offset = 0, ta_used = 1, ta_next = 0, ta_parsed = 0 \<rparr>"
  have packet: "?packet = [] @ encode_record (2, 1, [7]) @ replicate 496 0 @ put_le32 1 @ put_le32 0"
    by (simp add: encode_read_def payload_bytes_def dummy_def)
  have "get_le32 ?packet 504 = 1" "get_le32 ?packet 508 = 0"
    using get_put_le32 [of "encode_record (2, 1, [7]) @ replicate 496 0" 1 "put_le32 0"]
      get_put_le32 [of "encode_record (2, 1, [7]) @ replicate 496 0 @ put_le32 1" 0 "[]"]
    by (simp_all add: packet length_encode_record aligned_def)
  then have init: "marlin2_transport_aggregate_init ?packet 512 = Inr a"
    by (simp add: marlin2_transport_aggregate_init_def PACKET_RX_MAX_BYTES_def a_def)
  have "ta_packet a = [] @ encode_record (2, 1, [7]) @ replicate 496 0 @ put_le32 1 @ put_le32 0" by (simp only: a_def packet transport_aggregate.simps)
  moreover have "ta_offset a = length ([] :: bytes)" "length ([] :: bytes) + length (encode_record (2, 1, [7])) \<le> ta_data_bytes a" "sendable_record (2, 1, [7])"
    by (simp_all add: a_def sendable_record_def length_encode_record aligned_def)
  ultimately obtain m where m: "next_record a 0 = (Inr (m, a\<lparr> ta_offset := ta_offset a + length (encode_record (2, 1, [7])) \<rparr>), record_header 2 1 (length [7 :: u8]))"
      "msg_type m = unat (2 :: u8)" "msg_length m = length [7 :: u8]"
    using next_record_encoded by blast
  then have "aggregate_loop (watched (\<lambda>c m. (0, c))) ((), []) a 0 = (Complete, (), [m])"
    using aggregate_loop_message [OF _ m(1), where receive = "watched (\<lambda>c m. (0, c))" and c = "((), [])" and c' = "((), [m])"] m(2,3)
    by (simp add: a_def watched_def aggregate_loop_finished)
  then have d: "marlin2_transport_aggregate_decode ?packet 512 (watched (\<lambda>c m. (0, c))) ((), []) = (Complete, ((), [m]), Some 0)"
    using init by (simp add: marlin2_transport_aggregate_decode_def a_def)
  show ?thesis using d m(3) messages_inside_read [OF d] by (intro exI [of _ m]) simp
qed

subsection \<open>Building a block\<close>

lemma aligned_mod: "0 < u \<Longrightarrow> aligned n u mod u = 0"
  by (simp add: aligned_def)

lemma aligned_512_ge: "n \<le> aligned n 512"
  by (simp add: aligned_unit_ge)

lemma put_at_middle: "length old = length bs \<Longrightarrow> put_at (length pre) bs (pre @ old @ post) = pre @ bs @ post"
  by (simp add: put_at_def)

lemma record_prepare_layout:
  "marlin2_transport_record_prepare capacity t s n =
     (if t > 3 \<or> s > 3 \<or> n = 0 \<or> n > 0xffff \<or> aligned (4 + aligned n 4 + 4) 512 > capacity then None
      else Some (put_le32 (record_header t s n) @ replicate (aligned n 4) 0 @ put_le32 PUH_EOF @
             replicate (aligned (4 + aligned n 4 + 4) 512 - (4 + aligned n 4 + 4)) 0))"
proof -
  let ?n = "aligned (4 + aligned n 4 + 4) 512" and ?m = "4 + aligned n 4 + 4"
  have "?n = 4 + (aligned n 4 + (4 + (?n - ?m)))" using aligned_512_ge [of ?m] by simp
  then have zeros: "replicate ?n (0::u8) = replicate 4 0 @ replicate (aligned n 4) 0 @ replicate 4 0 @ replicate (?n - ?m) 0"
    by (metis replicate_add)
  have "put_at (4 + aligned n 4) (put_le32 PUH_EOF) (put_at 0 (put_le32 h) (replicate ?n 0)) =
      put_le32 h @ replicate (aligned n 4) 0 @ put_le32 PUH_EOF @ replicate (?n - ?m) 0" for h
    unfolding zeros
    using put_at_middle [of "replicate 4 0" "put_le32 h" "[]"]
      put_at_middle [of "replicate 4 0" "put_le32 PUH_EOF" "put_le32 h @ replicate (aligned n 4) 0"]
    by simp
  then show ?thesis by (simp add: marlin2_transport_record_prepare_def Let_def)
qed

lemma record_build_layout:
  "marlin2_transport_record_build capacity t s payload =
     (if t > 3 \<or> s > 3 \<or> payload = [] \<or> length payload > 0xffff \<or> aligned (4 + aligned (length payload) 4 + 4) 512 > capacity then None
      else Some (encode_record (t, s, payload) @ put_le32 PUH_EOF @
             replicate (aligned (4 + aligned (length payload) 4 + 4) 512 - (4 + aligned (length payload) 4 + 4)) 0))"
proof -
  let ?n = "length payload"
  have "replicate (aligned ?n 4) (0::u8) = replicate ?n 0 @ replicate (aligned ?n 4 - ?n) 0"
    by (metis replicate_add aligned_ge le_add_diff_inverse)
  then have "put_at 4 payload (put_le32 h @ replicate (aligned ?n 4) 0 @ post) = put_le32 h @ payload @ replicate (aligned ?n 4 - ?n) 0 @ post" for h post
    using put_at_middle [of "replicate ?n 0" payload "put_le32 h"] by simp
  then show ?thesis by (simp add: marlin2_transport_record_build_def record_prepare_layout encode_record_def)
qed

text \<open>
  A block that was built has a whole number of 512-byte units within the given room; reading it back finds exactly the
  type, the subtype and the payload, and behind the record the word that ends the block.  Every payload of up to 65535
  bytes that fits is built.
\<close>

theorem built_block_reads_back:
  assumes "t \<le> 3" "s \<le> 3" "payload \<noteq> []" "length payload \<le> 0xffff"
  shows "case marlin2_transport_record_build capacity t s payload of
     None \<Rightarrow> capacity < aligned (length payload + 11) 512
   | Some bs \<Rightarrow> length bs mod 512 = 0 \<and> length bs \<le> capacity \<and>
       (\<exists>m. fst (next_record \<lparr> ta_packet = bs, ta_data_bytes = length bs, ta_offset = 0, ta_used = 0, ta_next = 0, ta_parsed = 0 \<rparr> 0) =
           Inr (m, \<lparr> ta_packet = bs, ta_data_bytes = length bs, ta_offset = 4 + aligned (length payload) 4, ta_used = 0, ta_next = 0, ta_parsed = 0 \<rparr>) \<and>
         msg_type m = unat t \<and> msg_subtype m = unat s \<and> message_data bs m = payload \<and>
         get_le32 bs (4 + aligned (length payload) 4) = PUH_EOF)"
proof -
  let ?n = "length payload"
  let ?m = "4 + aligned ?n 4 + 4"
  have guards: "\<not> t > 3" "\<not> s > 3" "\<not> length payload > 0xffff" using assms by auto
  have "aligned ?n 4 \<le> ?n + 3" by (simp add: aligned_def)
  then have mono: "aligned ?m 512 \<le> aligned (?n + 11) 512" by (simp add: aligned_def div_le_mono)
  show ?thesis
  proof (cases "aligned ?m 512 > capacity")
    case True
    then show ?thesis using mono by (simp add: record_build_layout)
  next
    case False
    define rest where "rest = put_le32 PUH_EOF @ replicate (aligned ?m 512 - ?m) 0"
    let ?bs = "encode_record (t, s, payload) @ rest"
    let ?a = "\<lparr> ta_packet = ?bs, ta_data_bytes = length ?bs, ta_offset = 0, ta_used = 0, ta_next = 0, ta_parsed = 0 \<rparr>"
    have built: "marlin2_transport_record_build capacity t s payload = Some ?bs"
      using False guards assms(3) by (simp add: record_build_layout rest_def)
    have n: "length ?bs = aligned ?m 512" using aligned_512_ge [of ?m] by (simp add: length_encode_record rest_def)
    have "t < 16" "s < 16" using assms(1,2) by (auto intro: order.strict_trans1)
    then have "sendable_record (t, s, payload)" using assms(3,4) by (simp add: sendable_record_def)
    then obtain m where m: "next_record ?a 0 = (Inr (m, ?a\<lparr> ta_offset := length (encode_record (t, s, payload)) \<rparr>), record_header t s ?n)"
        "msg_type m = unat t" "msg_subtype m = unat s" "message_data ?bs m = payload"
      using next_record_encoded [of ?a "[]" t s payload rest 0] by auto
    have "get_le32 ?bs (length (encode_record (t, s, payload))) = PUH_EOF" unfolding rest_def by (rule get_put_le32)
    then show ?thesis
      unfolding built using m n aligned_mod [of 512 ?m] False by (simp add: length_encode_record)
  qed
qed

theorem built_block_reads_back_witness:
  "\<exists>bs. marlin2_transport_record_build 512 2 0 [1, 2, 3] = Some bs \<and> length bs mod 512 = 0 \<and> length bs \<le> 512 \<and> get_le32 bs 8 = PUH_EOF"
proof -
  have "aligned (length [1, 2, 3 :: u8] + 11) 512 = 512" "aligned (length [1, 2, 3 :: u8]) 4 = 4" by (simp_all add: aligned_def)
  then show ?thesis
    using built_block_reads_back [of 2 0 "[1, 2, 3]" 512]
    by (cases "marlin2_transport_record_build 512 2 0 [1, 2, 3]") auto
qed

subsection \<open>The next read\<close>

lemma next_read_bounds:
  "marlin2_packet_next_read pending mod 512 = 0 \<and> 512 \<le> marlin2_packet_next_read pending \<and>
   marlin2_packet_next_read pending \<le> PACKET_RX_MAX_BYTES \<and>
   (marlin2_packet_next_read pending = PACKET_RX_MAX_BYTES \<or>
    unat pending + 8 * (unat pending div 1024 + 1) + 8 \<le> marlin2_packet_next_read pending)"
proof (cases "pending = 0")
  case True
  then show ?thesis
    by (simp add: marlin2_packet_next_read_def PACKET_RX_INITIAL_BYTES_def PACKET_RX_MAX_BYTES_def)
next
  case False
  define x where "x = unat pending + 8 * (unat pending div 1024 + 1) + 64"
  have aligned: "(x + 511) div 512 * 512 = aligned x 512" by (simp add: aligned_def)
  have x: "64 \<le> x" "x \<le> aligned x 512" "aligned x 512 mod 512 = 0" by (simp_all add: x_def aligned_unit_ge aligned_mod)
  then have "512 \<le> aligned x 512" by presburger
  then show ?thesis
    using x False unfolding marlin2_packet_next_read_def Let_def x_def [symmetric] aligned
    by (auto simp: PACKET_RX_MAX_BYTES_def x_def)
qed

text \<open>
  The size asked for next is always one the decoder takes, and as long as the largest read is not reached it has
  room for the bytes that wait, a header for every kilobyte of them and the trailer.
\<close>

theorem next_read_taken:
  "(\<exists>a. marlin2_transport_aggregate_init packet (marlin2_packet_next_read pending) = Inr a) \<and>
   (marlin2_packet_next_read pending = PACKET_RX_MAX_BYTES \<or>
    unat pending + 8 * (unat pending div 1024 + 1) + 8 \<le> marlin2_packet_next_read pending)"
  using next_read_bounds [of pending] by (auto simp: marlin2_transport_aggregate_init_def)

end
