(* ===== verification/Radio_Wlan.thy ===== *)
theory Radio_Wlan
  imports Radio_Aggregate
begin

section \<open>The wireless LAN messages of the radio\<close>

text \<open>
  \<open>marlin2-wlan-wire.c\<close>: the messages the driver sends and the fields of those it receives.  A builder gives the bytes
  it filled, or \<^const>\<open>None\<close> where the source returns 0; a pointer that may be null is an option; a pointer into a
  received message is the offset from its start, and a decoder that fails leaves nothing for its caller.
\<close>

subsection \<open>Information elements\<close>

fun marlin2_wlan_ies_validate :: "bytes \<Rightarrow> radio_error option" where
  "marlin2_wlan_ies_validate [] = None"
| "marlin2_wlan_ies_validate [_] = Some EINVAL"
| "marlin2_wlan_ies_validate (element # n # ies) =
     (if unat n > length ies then Some EINVAL
      else if element = 0x7f \<and> n > 7 then Some EOPNOTSUPP
      else marlin2_wlan_ies_validate (drop (unat n) ies))"

subsection \<open>Commands and frames\<close>

definition WLAN_DATA_BYTES :: nat where "WLAN_DATA_BYTES = 8"
definition SCAN_COLOCATED_6GHZ_FLAG :: u32 where "SCAN_COLOCATED_6GHZ_FLAG = 0x4000"

definition marlin2_wlan_command_build :: "nat \<Rightarrow> u8 \<Rightarrow> u8 \<Rightarrow> u32 \<Rightarrow> bytes \<Rightarrow> bytes option" where
  "marlin2_wlan_command_build capacity mode command token payload =
     (let message_bytes = COMMAND_BYTES + length payload
      in if mode > 7 \<or> length payload > 0xffff - COMMAND_BYTES then None
         else map_option (\<lambda>packet. put_at 16 payload (put_at 8 (put_le32 token) (put_at 6 (put_le16 (of_nat message_bytes))
                            (packet[4 := push_bit 5 mode OR 0x10, 5 := command]))))
                (marlin2_transport_record_prepare capacity 2 0 message_bytes))"

definition marlin2_wlan_data_build :: "nat \<Rightarrow> u8 \<Rightarrow> bool \<Rightarrow> bytes \<Rightarrow> bytes option" where
  "marlin2_wlan_data_build capacity mode shared_credit frame =
     (let message_bytes = WLAN_DATA_BYTES + length frame
      in if mode > 7 \<or> length frame > 0xffff - WLAN_DATA_BYTES then None
         else map_option (\<lambda>packet. put_at 12 frame ((put_at 6 (put_le16 (of_nat message_bytes)) (packet[4 := push_bit 5 mode OR 2]))
                            [11 := if shared_credit then 0 else 1]))
                (marlin2_transport_record_prepare capacity 2 1 message_bytes))"

definition marlin2_wlan_beacon_build :: "nat \<Rightarrow> bytes \<Rightarrow> bytes \<Rightarrow> bytes \<Rightarrow> u8 \<Rightarrow> bytes option" where
  "marlin2_wlan_beacon_build capacity head tail ssid hidden =
     (if ssid = [] \<or> length ssid > 32 \<or> hidden > 2 \<or> length head < 38 \<or> head ! 36 \<noteq> 0 \<or> unat (head ! 37) > length head - 38 then None
      else
        let old_ssid_bytes = unat (head ! 37); suffix_bytes = length head - 38 - old_ssid_bytes
        in if suffix_bytes > 768 - 39 - length ssid \<or> length tail > 768 - 39 - length ssid - suffix_bytes then None
           else
             let beacon_bytes = 39 + length ssid + suffix_bytes + length tail
             in if capacity < beacon_bytes + 2 then None
                else Some (put_at (41 + length ssid + suffix_bytes) tail
                            (put_at (41 + length ssid) (take suffix_bytes (drop (38 + old_ssid_bytes) head))
                              ((put_at 40 ssid
                                  ((put_at 2 (take 37 head) (put_at 0 (put_le16 (of_nat beacon_bytes)) (replicate (beacon_bytes + 2) 0)))
                                     [39 := of_nat (length ssid + 1)]))
                                 [40 + length ssid := hidden]))))"

record station_event =
  se_mac :: nat
  se_ies :: "nat option"
  se_ie_bytes :: nat
  se_connected :: bool

definition marlin2_wlan_station_decode :: "bytes \<Rightarrow> radio_error + station_event" where
  "marlin2_wlan_station_decode payload =
     (if length payload < 7 \<or> length payload = 8 then Inl EBADMSG
      else let ie_bytes = (if length payload = 7 then 0 else unat (get_le16 payload 7))
           in if length payload > 7 \<and> ie_bytes > length payload - 9 then Inl EBADMSG
              else Inr \<lparr> se_mac = 1, se_ies = (if ie_bytes \<noteq> 0 then Some 9 else None), se_ie_bytes = ie_bytes,
                         se_connected = (payload ! 0 \<noteq> 0) \<rparr>)"

record data_message =
  dm_frame :: nat
  dm_credits :: nat
  dm_management_metadata :: "nat option"
  dm_frame_bytes :: nat
  dm_mode :: u8
  dm_frame_type :: u8
  dm_has_credits :: bool

definition marlin2_wlan_data_decode :: "bytes \<Rightarrow> radio_error + data_message" where
  "marlin2_wlan_data_decode payload =
     (let n = length payload
      in if n < WLAN_DATA_BYTES \<or> payload ! 0 AND 7 \<noteq> 2 \<or> unat (get_le16 payload 2) \<noteq> n then Inl EBADMSG
         else
           let offset = unat (payload ! 1 AND 31)
           in if offset > n - WLAN_DATA_BYTES then Inl EBADMSG
              else
                let message = \<lparr> dm_frame = WLAN_DATA_BYTES + offset, dm_credits = 4, dm_management_metadata = None,
                      dm_frame_bytes = n - WLAN_DATA_BYTES - offset, dm_mode = drop_bit 5 (payload ! 0),
                      dm_frame_type = payload ! 1 AND 0xe0, dm_has_credits = (payload ! 0 AND 0x10 \<noteq> 0) \<rparr>
                in if dm_frame_type message = 0x40
                   then if offset < 12 then Inl EBADMSG
                        else
                          let metadata = n - 12; frame_bytes = unat (get_le16 payload (metadata + 10))
                          in if frame_bytes > dm_frame_bytes message then Inl EBADMSG
                             else Inr (message\<lparr> dm_management_metadata := Some metadata,
                                                dm_frame := dm_frame message - 12, dm_frame_bytes := frame_bytes \<rparr>)
                   else Inr message)"

definition marlin2_wlan_event_for_mode :: "u8 \<Rightarrow> u8 \<Rightarrow> u8 \<Rightarrow> bool" where
  "marlin2_wlan_event_for_mode common event mode \<longleftrightarrow>
     common AND 7 = 1 \<and> (event = 0xb3 \<or> drop_bit 5 common = 0 \<or> drop_bit 5 common = mode)"

definition marlin2_wlan_scan_flags_supported :: "u32 \<Rightarrow> bool" where
  "marlin2_wlan_scan_flags_supported flags \<longleftrightarrow> flags AND NOT SCAN_COLOCATED_6GHZ_FLAG = 0"

subsection \<open>Scanning, connecting and keys\<close>

text \<open>The loop over the names, from the bytes written before; the first ten are filled at the end.\<close>

fun scan_names :: "nat \<Rightarrow> bytes list \<Rightarrow> bytes \<Rightarrow> bytes option" where
  "scan_names capacity [] written = Some written"
| "scan_names capacity (ssid # ssids) written =
     (if length ssid > 32 then None
      else if ssid = [] then scan_names capacity ssids written
      else if capacity - length written < 1 + length ssid then None
      else scan_names capacity ssids (written @ [of_nat (length ssid)] @ ssid))"

definition marlin2_wlan_scan_build :: "nat \<Rightarrow> u32 \<Rightarrow> bytes list \<Rightarrow> bytes option" where
  "marlin2_wlan_scan_build capacity channels ssids =
     (if length ssids > 4 \<or> capacity < 10 then None
      else map_option (\<lambda>payload. put_at 8 (put_le16 (of_nat (length payload - 10))) (put_at 4 (put_le32 0) (put_at 0 (put_le32 channels) payload)))
             (scan_names capacity ssids (replicate 10 0)))"

definition marlin2_wlan_connect_build :: "bool \<Rightarrow> bytes option \<Rightarrow> u8 \<Rightarrow> bytes \<Rightarrow> bytes" where
  "marlin2_wlan_connect_build wpa2 bssid channel ssid =
     (let payload = (replicate 82 0)[12 := 0x80, 13 := 0x80, 14 := 0x80];
          payload = (if wpa2 then (put_at 0 (put_le32 2) payload)[12 := 0x84, 13 := 0x84, 14 := 0x82] else payload);
          payload = (case bssid of None \<Rightarrow> payload | Some address \<Rightarrow> put_at 4 address payload)
      in put_at 50 ssid (payload[10 := channel, 17 := of_nat (length ssid)]))"

definition marlin2_wlan_key_build :: "u8 \<Rightarrow> bool \<Rightarrow> bytes option \<Rightarrow> bytes \<Rightarrow> bytes \<Rightarrow> radio_error + bytes" where
  "marlin2_wlan_key_build index is_pairwise mac sequence key =
     (if index > 3 \<or> length sequence > 8 \<or> (is_pairwise \<and> mac = None) then Inl EINVAL
      else
        let payload = (replicate 35 0)[0 := 3, 1 := index, 2 := of_bool is_pairwise];
            payload = (case mac of None \<Rightarrow> payload | Some address \<Rightarrow> put_at 3 address payload);
            payload = put_at 9 sequence payload
        in Inr (put_at 19 key (payload[17 := 4, 18 := 16])))"

end
