(* ===== verification/Radio_Bluetooth.thy ===== *)
theory Radio_Bluetooth
  imports Radio_Aggregate
begin

section \<open>The Bluetooth messages of the radio\<close>

text \<open>
  \<open>marlin2-bluetooth-wire.c\<close>: the length of a received frame from its first bytes, the frame to send from a
  packet of the host stack, and the answer to a setup command.
\<close>

unbundle bit_operations_syntax

text \<open>The length of a frame, with the byte that tells its kind.\<close>

definition marlin2_bluetooth_frame_length :: "bytes \<Rightarrow> radio_error + nat" where
  "marlin2_bluetooth_frame_length bs =
     (if bs = [] then Inl EAGAIN
      else
        let kind = bs ! 0
        in if kind \<notin> {1, 2, 3, 4} then Inl EPROTO
           else
             let header_bytes = (if kind = 2 then 5 else if kind = 4 then 3 else 4)
             in if length bs < header_bytes then Inl EAGAIN
                else Inr (header_bytes + (if kind = 2 then unat (bs ! 3) + 256 * unat (bs ! 4) else unat (bs ! (header_bytes - 1)))))"

datatype tx_path = BLUETOOTH_DIRECT | BLUETOOTH_PACKET

definition marlin2_bluetooth_tx_build :: "nat \<Rightarrow> u8 \<Rightarrow> bytes \<Rightarrow> radio_error + bytes \<times> tx_path" where
  "marlin2_bluetooth_tx_build capacity kind payload =
     (if kind \<notin> {1, 2, 3} then Inl EPROTO
      else
        let header_bytes = (if kind = 2 then 4 else 3)
        in if length payload < header_bytes then Inl EPROTO
           else
             let declared_bytes = (if kind = 2 then unat (payload ! 2) + 256 * unat (payload ! 3) else unat (payload ! 2))
             in if declared_bytes \<noteq> length payload - header_bytes then Inl EPROTO
                else
                  let frame_bytes = 1 + header_bytes + declared_bytes;
                      aligned_bytes = (if kind = 3 then frame_bytes else aligned frame_bytes 8)
                  in if aligned_bytes > capacity then Inl EMSGSIZE
                     else Inr (kind # payload @ replicate (aligned_bytes - frame_bytes) 0,
                               if kind = 3 then BLUETOOTH_PACKET else BLUETOOTH_DIRECT))"

definition BLUETOOTH_WRITE_PSKEY :: u16 where "BLUETOOTH_WRITE_PSKEY = 0xfca0"
definition BLUETOOTH_MODULE_ENABLE :: u16 where "BLUETOOTH_MODULE_ENABLE = 0xfca1"

definition marlin2_bluetooth_setup_reply :: "u16 \<Rightarrow> u16 \<Rightarrow> u8 \<Rightarrow> bytes \<Rightarrow> radio_error option" where
  "marlin2_bluetooth_setup_reply opcode mode state event =
     (let n = length event
      in if n < 3 \<or> event ! 0 \<noteq> 4 then Some EAGAIN
         else if event ! 1 \<noteq> 0x0e \<and> event ! 1 \<noteq> 0x0f then Some EAGAIN
         else if n < (if event ! 1 = 0x0e then 6 else 7) then Some EAGAIN
         else if get_le16 event (if event ! 1 = 0x0e then 4 else 5) \<noteq> opcode then Some EAGAIN
         else if unat (event ! 2) + 3 \<noteq> n then Some EPROTO
         else if event ! 1 = 0x0f then Some (if event ! 3 \<noteq> 0 then EREMOTEIO else EINPROGRESS)
         else if opcode = BLUETOOTH_WRITE_PSKEY
         then if n < 7 then Some EPROTO else if event ! 6 \<noteq> 0 then Some EREMOTEIO else None
         else if opcode = BLUETOOTH_MODULE_ENABLE
         then if n < 9 then Some EPROTO
              else if get_le16 event 6 = mode \<and> event ! 8 = state then None else Some EREMOTEIO
         else Some EINVAL)"

end
