(* ===== verification/Radio_Messages.thy ===== *)
theory Radio_Messages
  imports Radio_Wlan Radio_Bluetooth
begin

section \<open>What the radio messages mean\<close>

text \<open>
  The builders against the plain layout of their messages, what the decoders make of a built message, and that every
  place a decoder reports lies inside the message.
\<close>

subsection \<open>Information elements\<close>

definition element :: "u8 \<times> bytes \<Rightarrow> bytes" where
  "element e = fst e # of_nat (length (snd e)) # snd e"

definition element_ok :: "u8 \<times> bytes \<Rightarrow> bool" where
  "element_ok e \<longleftrightarrow> length (snd e) < 256 \<and> (fst e = 0x7f \<longrightarrow> length (snd e) \<le> 7)"

lemma ies_validate_elements: "\<forall>e\<in>set es. element_ok e \<Longrightarrow> marlin2_wlan_ies_validate (concat (map element es)) = None"
proof (induction es)
  case (Cons e es)
  then show ?case by (auto simp: element_def element_ok_def word_less_nat_alt)
qed simp

lemma ies_validate_splits:
  "marlin2_wlan_ies_validate ies = None \<Longrightarrow> \<exists>es. ies = concat (map element es) \<and> (\<forall>e\<in>set es. element_ok e)"
proof (induction ies rule: marlin2_wlan_ies_validate.induct)
  case 1
  then show ?case by (intro exI [of _ "[]"]) simp
next
  case (3 e n ies)
  have n: "unat n \<le> length ies" "e = 0x7f \<longrightarrow> \<not> n > 7" "marlin2_wlan_ies_validate (drop (unat n) ies) = None"
    using "3.prems" by (auto split: if_splits)
  then obtain es where es: "drop (unat n) ies = concat (map element es)" "\<forall>e\<in>set es. element_ok e"
    using "3.IH" by auto
  have "unat n < 2 ^ 8" using unsigned_less [of n] by simp
  then have "element_ok (e, take (unat n) ies)" using n(1,2) by (auto simp: element_ok_def word_less_nat_alt)
  moreover have "e # n # ies = element (e, take (unat n) ies) @ drop (unat n) ies" using n(1) by (simp add: element_def)
  ultimately show ?case using es by (intro exI [of _ "(e, take (unat n) ies) # es"]) (auto simp: es(1))
qed simp

text \<open>
  The check of information elements accepts exactly the concatenations of whole elements in which no extended
  capability element is longer than the seven bytes the radio takes.
\<close>

theorem ies_accepted_exactly:
  "marlin2_wlan_ies_validate ies = None \<longleftrightarrow> (\<exists>es. ies = concat (map element es) \<and> list_all element_ok es)"
  using ies_validate_elements ies_validate_splits by (auto simp: list_all_iff)

subsection \<open>Frames\<close>

definition data_payload :: "u8 \<Rightarrow> bool \<Rightarrow> bytes \<Rightarrow> bytes" where
  "data_payload mode shared frame =
     [push_bit 5 mode OR 2, 0] @ put_le16 (of_nat (8 + length frame)) @ [0, 0, 0, if shared then 0 else 1] @ frame"

lemma word_bytes: "\<exists>p q r s. put_le32 x = [p, q, r, s]" "\<exists>p q. put_le16 y = [p, q]"
  by (simp_all add: put_le32_def put_le16_def)

lemma four_bytes:
  assumes "length h = 4"
  obtains p q r s where "h = [p, q, r, s]"
  using assms by (cases h; cases "tl h"; cases "tl (tl h)"; cases "tl (tl (tl h))") auto

lemma put_at_drop: "put_at at bs buffer = take at buffer @ bs @ drop (length bs) (drop at buffer)"
  by (simp add: put_at_def add.commute)

text \<open>Filling a prepared record in place builds the same block as handing over its payload.\<close>

lemma filled_record:
  assumes "\<And>h rest. length h = 4 \<Longrightarrow> f (h @ replicate (length payload) 0 @ rest) = h @ payload @ rest"
  shows "map_option f (marlin2_transport_record_prepare capacity t s (length payload)) = marlin2_transport_record_build capacity t s payload"
proof -
  let ?n = "length payload"
  have "replicate (aligned ?n 4) (0::u8) = replicate ?n 0 @ replicate (aligned ?n 4 - ?n) 0"
    by (metis replicate_add aligned_ge le_add_diff_inverse)
  then show ?thesis using assms by (simp add: record_prepare_layout record_build_layout encode_record_def)
qed

lemma data_build_layout:
  assumes "mode \<le> 7" "length frame \<le> 0xfff7"
  shows "marlin2_wlan_data_build capacity mode shared frame = marlin2_transport_record_build capacity 2 1 (data_payload mode shared frame)"
proof -
  define l where "l = put_le16 (of_nat (8 + length frame))"
  obtain u v where uv: "l = [u, v]" using word_bytes(2) unfolding l_def by blast
  have payload: "data_payload mode shared frame = [push_bit 5 mode OR 2, 0] @ l @ [0, 0, 0, if shared then 0 else 1] @ frame"
    by (simp only: data_payload_def l_def)
  have n: "length (data_payload mode shared frame) = 8 + length frame" by (simp add: payload uv)
  have fill: "put_at 12 frame ((put_at 6 l ((h @ replicate (8 + length frame) 0 @ rest)[4 := push_bit 5 mode OR 2]))[11 := if shared then 0 else 1]) =
      h @ data_payload mode shared frame @ rest" if four: "length h = 4" for h rest
  proof -
    obtain p q r s where h: "h = [p, q, r, s]" using four_bytes [OF four] .
    have "replicate (8 + length frame) (0::u8) = [0, 0, 0, 0, 0, 0, 0, 0] @ replicate (length frame) 0"
      unfolding replicate_add by (simp add: numeral_eq_Suc)
    then show ?thesis by (simp add: h uv payload put_at_drop)
  qed
  have "map_option (\<lambda>packet. put_at 12 frame ((put_at 6 l (packet[4 := push_bit 5 mode OR 2]))[11 := if shared then 0 else 1]))
        (marlin2_transport_record_prepare capacity 2 1 (8 + length frame)) = marlin2_transport_record_build capacity 2 1 (data_payload mode shared frame)"
    by (rule filled_record [where payload = "data_payload mode shared frame", unfolded n]) (rule fill)
  moreover have "\<not> mode > 7" "\<not> length frame > 65535 - WLAN_DATA_BYTES" using assms by (auto simp: WLAN_DATA_BYTES_def)
  ultimately show ?thesis by (simp only: marlin2_wlan_data_build_def Let_def l_def WLAN_DATA_BYTES_def if_False simp_thms)
qed

definition command_payload :: "u8 \<Rightarrow> u8 \<Rightarrow> u32 \<Rightarrow> bytes \<Rightarrow> bytes" where
  "command_payload mode command token payload =
     [push_bit 5 mode OR 0x10, command] @ put_le16 (of_nat (12 + length payload)) @ put_le32 token @ [0, 0, 0, 0] @ payload"

lemma command_build_layout:
  assumes "mode \<le> 7" "length payload \<le> 0xfff3"
  shows "marlin2_wlan_command_build capacity mode command token payload =
    marlin2_transport_record_build capacity 2 0 (command_payload mode command token payload)"
proof -
  define l where "l = put_le16 (of_nat (12 + length payload))"
  obtain u v where uv: "l = [u, v]" using word_bytes(2) unfolding l_def by blast
  obtain w x y z where t: "put_le32 token = [w, x, y, z]" using word_bytes(1) by blast
  let ?whole = "command_payload mode command token payload"
  have whole: "?whole = [push_bit 5 mode OR 0x10, command] @ l @ put_le32 token @ [0, 0, 0, 0] @ payload"
    by (simp only: command_payload_def l_def)
  have n: "length ?whole = 12 + length payload" by (simp add: whole uv)
  have fill: "put_at 16 payload (put_at 8 (put_le32 token) (put_at 6 l ((h @ replicate (12 + length payload) 0 @ rest)[4 := push_bit 5 mode OR 0x10, 5 := command]))) =
      h @ ?whole @ rest" if four: "length h = 4" for h rest
  proof -
    obtain p q r s where h: "h = [p, q, r, s]" using four_bytes [OF four] .
    have "replicate (12 + length payload) (0::u8) = [0, 0, 0, 0, 0, 0, 0, 0, 0, 0, 0, 0] @ replicate (length payload) 0"
      unfolding replicate_add by (simp add: numeral_eq_Suc)
    then show ?thesis by (simp add: h uv t whole put_at_drop)
  qed
  have "map_option (\<lambda>packet. put_at 16 payload (put_at 8 (put_le32 token) (put_at 6 l (packet[4 := push_bit 5 mode OR 0x10, 5 := command]))))
        (marlin2_transport_record_prepare capacity 2 0 (12 + length payload)) = marlin2_transport_record_build capacity 2 0 ?whole"
    by (rule filled_record [where payload = ?whole, unfolded n]) (rule fill)
  moreover have "\<not> mode > 7" "\<not> length payload > 65535 - COMMAND_BYTES" using assms by (auto simp: COMMAND_BYTES_def)
  ultimately show ?thesis by (simp only: marlin2_wlan_command_build_def Let_def l_def COMMAND_BYTES_def if_False simp_thms)
qed

text \<open>The first and the second byte of a frame message.\<close>

lemma data_flags:
  assumes "mode \<le> 7"
  shows "(push_bit 5 mode OR 2 :: u8) AND 7 = 2" "(push_bit 5 mode OR 2 :: u8) AND 0x10 = 0" "drop_bit 5 (push_bit 5 mode OR 2 :: u8) = mode"
proof -
  have "unat mode \<le> 7" using assms by (simp add: word_le_nat_alt)
  then have "unat mode \<in> {0, 1, 2, 3, 4, 5, 6, 7}" by auto
  then have "mode \<in> {0, 1, 2, 3, 4, 5, 6, 7}" by (auto simp: word_unat_eq_iff)
  then show "(push_bit 5 mode OR 2 :: u8) AND 7 = 2" "(push_bit 5 mode OR 2 :: u8) AND 0x10 = 0" "drop_bit 5 (push_bit 5 mode OR 2 :: u8) = mode"
    by auto
qed

lemma data_decode_payload:
  assumes "mode \<le> 7" "length frame \<le> 0xfff7"
  shows "marlin2_wlan_data_decode (data_payload mode shared frame) = Inr \<lparr> dm_frame = 8, dm_credits = 4,
    dm_management_metadata = None, dm_frame_bytes = length frame, dm_mode = mode, dm_frame_type = 0, dm_has_credits = False \<rparr>"
proof -
  define x :: u16 where "x = of_nat (8 + length frame)"
  let ?p = "data_payload mode shared frame"
  have p: "?p = [push_bit 5 mode OR 2, 0] @ put_le16 x @ [0, 0, 0, if shared then 0 else 1] @ frame"
    by (simp only: data_payload_def x_def)
  have two: "2 = length [push_bit 5 mode OR 2, 0 :: u8]" by simp
  have "get_le16 ?p 2 = x" by (subst two, subst p) (rule get_put_le16)
  moreover have "unat x = 8 + length frame" using assms(2) unfolding x_def unat_of_nat by simp
  moreover have "length ?p = 8 + length frame" "?p ! 0 = push_bit 5 mode OR 2" "?p ! 1 = 0" by (simp_all add: p)
  ultimately show ?thesis using data_flags [OF assms(1)] by (simp add: marlin2_wlan_data_decode_def Let_def WLAN_DATA_BYTES_def)
qed

lemma record_build_Some:
  assumes "marlin2_transport_record_build capacity t s payload = Some bs"
  shows "\<exists>rest. bs = encode_record (t, s, payload) @ put_le32 PUH_EOF @ rest \<and> length bs \<le> capacity \<and> length bs mod 512 = 0 \<and>
    t \<le> 3 \<and> s \<le> 3 \<and> payload \<noteq> [] \<and> length payload \<le> 0xffff"
proof -
  let ?m = "4 + aligned (length payload) 4 + 4"
  have "bs = encode_record (t, s, payload) @ put_le32 PUH_EOF @ replicate (aligned ?m 512 - ?m) 0"
    "t \<le> 3" "s \<le> 3" "payload \<noteq> []" "length payload \<le> 0xffff" "aligned ?m 512 \<le> capacity"
    using assms unfolding record_build_layout by (auto split: if_splits)
  moreover from this(1) have "length bs = aligned ?m 512"
    using aligned_512_ge [of ?m] by (simp add: length_encode_record)
  ultimately show ?thesis using aligned_mod [of 512 ?m] by auto
qed

text \<open>
  C36. A frame sent to the radio is found again: the block holds one record of the frame kind, and decoding its payload gives
  the mode and exactly the bytes of the frame, at its offset.
\<close>

theorem data_frame_round_trip:
  assumes "marlin2_wlan_data_build capacity mode shared frame = Some bs"
  shows "\<exists>payload rest d. bs = encode_record (2, 1, payload) @ put_le32 PUH_EOF @ rest \<and> length bs \<le> capacity \<and>
    marlin2_wlan_data_decode payload = Inr d \<and> dm_mode d = mode \<and> dm_frame_type d = 0 \<and> dm_management_metadata d = None \<and>
    take (dm_frame_bytes d) (drop (dm_frame d) payload) = frame"
proof -
  have small: "mode \<le> 7" "length frame \<le> 0xfff7"
    using assms by (auto simp: marlin2_wlan_data_build_def Let_def WLAN_DATA_BYTES_def split: if_splits)
  note decoded = data_decode_payload [OF small, of shared]
  obtain rest where "bs = encode_record (2, 1, data_payload mode shared frame) @ put_le32 PUH_EOF @ rest" "length bs \<le> capacity"
    using record_build_Some [of capacity 2 1 _ bs] assms unfolding data_build_layout [OF small] by blast
  moreover have "take (length frame) (drop 8 (data_payload mode shared frame)) = frame" by (simp add: data_payload_def put_le16_def)
  ultimately show ?thesis
    using decoded by (intro exI [of _ "data_payload mode shared frame"] exI [of _ rest]) simp
qed

theorem data_frame_round_trip_witness:
  "\<exists>payload rest d. map_option (\<lambda>_. ()) (marlin2_wlan_data_build 512 1 False [1, 2, 3]) = Some () \<and>
     the (marlin2_wlan_data_build 512 1 False [1, 2, 3]) = encode_record (2, 1, payload) @ put_le32 PUH_EOF @ rest \<and>
     marlin2_wlan_data_decode payload = Inr d \<and> take (dm_frame_bytes d) (drop (dm_frame d) payload) = [1, 2, 3]"
proof -
  have "marlin2_wlan_data_build 512 1 False [1, 2, 3] \<noteq> None"
    by (simp add: marlin2_wlan_data_build_def marlin2_transport_record_prepare_def Let_def WLAN_DATA_BYTES_def aligned_def)
  then obtain bs where "marlin2_wlan_data_build 512 1 False [1, 2, 3] = Some bs" by blast
  then show ?thesis using data_frame_round_trip [of 512 1 False "[1, 2, 3]" bs] by auto
qed

text \<open>
  Whatever the radio sends, the frame, the credits and the management data of a frame message that is accepted lie inside the
  message, and the management data stand behind the frame.
\<close>

theorem data_message_inside:
  assumes "marlin2_wlan_data_decode payload = Inr d"
  shows "dm_credits d + 4 \<le> length payload \<and> dm_frame d + dm_frame_bytes d \<le> length payload \<and> 8 \<le> dm_frame d \<and>
    (case dm_management_metadata d of
       None \<Rightarrow> dm_frame_type d \<noteq> 0x40 \<and> dm_frame d + dm_frame_bytes d = length payload
     | Some metadata \<Rightarrow> dm_frame_type d = 0x40 \<and> metadata + 12 = length payload \<and> dm_frame d + dm_frame_bytes d \<le> metadata)"
  using assms by (auto simp: marlin2_wlan_data_decode_def Let_def WLAN_DATA_BYTES_def split: if_splits)

theorem data_message_inside_witness:
  "\<exists>d. marlin2_wlan_data_decode [2, 0, 9, 0, 0, 0, 0, 0, 77] = Inr d \<and> dm_frame d + dm_frame_bytes d \<le> 9 \<and> dm_frame_bytes d = 1"
proof -
  have "\<exists>d. marlin2_wlan_data_decode [2, 0, 9, 0, 0, 0, 0, 0, 77] = Inr d \<and> dm_frame_bytes d = 1"
    by (simp add: marlin2_wlan_data_decode_def Let_def WLAN_DATA_BYTES_def get_le16_def)
  then show ?thesis using data_message_inside [of "[2, 0, 9, 0, 0, 0, 0, 0, 77]"] by fastforce
qed

lemma put_at_Nil [simp]: "put_at at [] buffer = buffer"
  by (simp add: put_at_def)

text \<open>The first command of the driver is the command without payload that the wireless LAN part would build.\<close>

lemma get_info_is_command: "marlin2_packet_build_get_info token = marlin2_wlan_command_build PACKET_TX_BYTES 0 GET_INFO_ID token []"
  by (simp add: marlin2_packet_build_get_info_def marlin2_wlan_command_build_def PUH_WIFI_def COMMAND_BYTES_def)

subsection \<open>Beacons\<close>

definition beacon :: "bytes \<Rightarrow> bytes \<Rightarrow> bytes \<Rightarrow> u8 \<Rightarrow> bytes" where
  "beacon head tail ssid hidden =
     take 36 head @ element (0, ssid @ [hidden]) @ drop (38 + unat (head ! 37)) head @ tail"

lemma fill_at: "at = length pre \<Longrightarrow> length old = length bs \<Longrightarrow> put_at at bs (pre @ old @ post) = (pre @ bs) @ post"
  using put_at_middle [of old bs pre post] by simp

lemma set_at: "at = length pre \<Longrightarrow> (pre @ [x] @ post)[at := y] = (pre @ [y]) @ post"
  by simp

text \<open>
  A beacon for the radio is the beacon of the host with the name element replaced by one that holds the network name and the
  hidden flag, everything else unchanged and in its place; its length stands before it and never exceeds 768 bytes.
\<close>

theorem beacon_replaces_name:
  assumes "marlin2_wlan_beacon_build capacity head tail ssid hidden = Some bs"
  shows "bs = put_le16 (of_nat (length (beacon head tail ssid hidden))) @ beacon head tail ssid hidden \<and>
    length (beacon head tail ssid hidden) \<le> 768 \<and> length bs \<le> capacity \<and>
    head = take 36 head @ element (0, take (unat (head ! 37)) (drop 38 head)) @ drop (38 + unat (head ! 37)) head"
proof -
  define old where "old = unat (head ! 37)"
  define suffix where "suffix = drop (38 + old) head"
  have guards: "ssid \<noteq> []" "length ssid \<le> 32" "38 \<le> length head" "head ! 36 = 0" "old \<le> length head - 38"
    and room: "length suffix \<le> 768 - 39 - length ssid" "length tail \<le> 768 - 39 - length ssid - length suffix"
      "39 + length ssid + length suffix + length tail + 2 \<le> capacity"
    using assms by (auto simp: marlin2_wlan_beacon_build_def Let_def old_def suffix_def split: if_splits)
  have sn: "length head - 38 - old = length suffix" "take (length suffix) (drop (38 + old) head) = suffix" by (simp_all add: suffix_def)
  define n where "n = 39 + length ssid + length suffix + length tail"
  have head36: "take 37 head = take 36 head @ [0]" using guards(3,4) take_Suc_conv_app_nth [of 36 head] by simp
  have length36: "length (take 36 head) = 36" using guards(3) by simp
  have b: "beacon head tail ssid hidden = take 36 head @ element (0, ssid @ [hidden]) @ suffix @ tail"
    by (simp add: beacon_def suffix_def old_def)
  have n': "length (beacon head tail ssid hidden) = n" using length36 by (simp add: b element_def n_def)
  have zeros: "replicate (n + 2) (0::u8) = replicate 2 0 @ replicate 37 0 @ [0] @ replicate (length ssid) 0 @ [0] @ replicate (length suffix) 0 @ replicate (length tail) 0"
    unfolding replicate_add [symmetric] replicate_Suc [symmetric] append_Cons append_Nil n_def by (simp add: ac_simps)
  define l c where "l = put_le16 (of_nat n)" and "c = (of_nat (length ssid + 1) :: u8)"
  have l2: "length l = 2" by (simp add: l_def)
  have t37: "length (take 37 head) = 37" using guards(3) by simp
  have "put_at (41 + length ssid + length suffix) tail (put_at (41 + length ssid) suffix ((put_at 40 ssid
      ((put_at 2 (take 37 head) (put_at 0 l (replicate (n + 2) 0)))[39 := c]))[40 + length ssid := hidden])) =
    l @ take 37 head @ [c] @ ssid @ [hidden] @ suffix @ tail"
    (is "?filled = _")
  proof -
    have "put_at 0 l (replicate (n + 2) 0) = l @ replicate 37 0 @ [0] @ replicate (length ssid) 0 @ [0] @ replicate (length suffix) 0 @ replicate (length tail) 0"
      unfolding zeros using fill_at [of 0 "[]" "replicate 2 0" l] by (simp add: l2)
    moreover have "put_at 2 (take 37 head) (l @ replicate 37 0 @ post) = (l @ take 37 head) @ post" for post
      by (rule fill_at) (use l2 t37 in simp_all)
    moreover have "((l @ take 37 head) @ [0] @ post)[39 := c] = ((l @ take 37 head) @ [c]) @ post" for post
      by (rule set_at) (use l2 t37 in simp)
    moreover have "put_at 40 ssid (((l @ take 37 head) @ [c]) @ replicate (length ssid) 0 @ post) = (((l @ take 37 head) @ [c]) @ ssid) @ post" for post
      by (rule fill_at) (use l2 t37 in simp_all)
    moreover have "((((l @ take 37 head) @ [c]) @ ssid) @ [0] @ post)[40 + length ssid := hidden] = ((((l @ take 37 head) @ [c]) @ ssid) @ [hidden]) @ post" for post
      by (rule set_at) (use l2 t37 in simp)
    moreover have "put_at (41 + length ssid) suffix (((((l @ take 37 head) @ [c]) @ ssid) @ [hidden]) @ replicate (length suffix) 0 @ post) =
        (((((l @ take 37 head) @ [c]) @ ssid) @ [hidden]) @ suffix) @ post" for post
      by (rule fill_at) (use l2 t37 in simp_all)
    moreover have "put_at (41 + length ssid + length suffix) tail ((((((l @ take 37 head) @ [c]) @ ssid) @ [hidden]) @ suffix) @ replicate (length tail) 0 @ []) =
        ((((((l @ take 37 head) @ [c]) @ ssid) @ [hidden]) @ suffix) @ tail) @ []"
      by (rule fill_at) (use l2 t37 in simp_all)
    ultimately show ?thesis by (simp only: append_Nil2 append_assoc)
  qed
  then have "bs = l @ take 37 head @ [c] @ ssid @ [hidden] @ suffix @ tail"
    using assms unfolding marlin2_wlan_beacon_build_def Let_def old_def [symmetric] sn n_def [symmetric] l_def [symmetric] c_def [symmetric]
    by (simp only: option.distinct option.inject split: if_splits)
  then have bs: "bs = put_le16 (of_nat n) @ beacon head tail ssid hidden"
    by (simp add: b element_def head36 l_def c_def)
  have "old < 2 ^ 8" unfolding old_def using unsigned_less [of "head ! 37"] by simp
  have "drop 36 head = 0 # drop 37 head" "drop 37 head = head ! 37 # drop 38 head"
    using guards(3,4) Cons_nth_drop_Suc [of 36 head] Cons_nth_drop_Suc [of 37 head] by simp_all
  moreover have "element (0, take old (drop 38 head)) = [0, head ! 37] @ take old (drop 38 head)"
    using guards(5) by (simp add: element_def old_def)
  ultimately have "head = take 36 head @ element (0, take old (drop 38 head)) @ suffix"
    using append_take_drop_id [of 36 head] append_take_drop_id [of old "drop 38 head"] by (simp add: suffix_def add.commute)
  then show ?thesis using bs n' room guards(2) by (simp add: n_def old_def suffix_def)
qed

theorem beacon_replaces_name_witness:
  "\<exists>bs. marlin2_wlan_beacon_build 100 (replicate 36 5 @ [0, 2, 65, 66, 7]) [9] [67] 1 = Some bs \<and>
     bs = put_le16 42 @ replicate 36 5 @ [0, 2, 67, 1, 7, 9]"
proof -
  let ?head = "replicate 36 5 @ [0, 2, 65, 66, 7] :: bytes"
  have nth: "?head ! 36 = 0" "?head ! 37 = 2" by (simp_all add: nth_append)
  have "marlin2_wlan_beacon_build 100 ?head [9] [67] 1 \<noteq> None"
    by (simp add: marlin2_wlan_beacon_build_def nth Let_def del: nth_append)
  then obtain bs where bs: "marlin2_wlan_beacon_build 100 ?head [9] [67] 1 = Some bs" by blast
  have b: "beacon ?head [9] [67] 1 = replicate 36 5 @ [0, 2, 67, 1, 7, 9]" by (simp add: beacon_def nth element_def)
  show ?thesis using bs beacon_replaces_name [OF bs] by (simp add: b)
qed

subsection \<open>Scans\<close>

definition names :: "bytes list \<Rightarrow> bytes" where
  "names ssids = concat (map (\<lambda>ssid. of_nat (length ssid) # ssid) (filter (\<lambda>ssid. ssid \<noteq> []) ssids))"

lemma scan_names_all:
  "length written \<le> capacity \<Longrightarrow> scan_names capacity ssids written =
     (if list_all (\<lambda>ssid. length ssid \<le> 32) ssids \<and> length written + length (names ssids) \<le> capacity
      then Some (written @ names ssids) else None)"
proof (induction ssids arbitrary: written)
  case (Cons ssid ssids)
  show ?case
  proof (cases "length ssid > 32 \<or> ssid = [] \<or> capacity - length written < 1 + length ssid")
    case True
    then show ?thesis using Cons by (auto simp: names_def)
  next
    case False
    then have "length (written @ [of_nat (length ssid)] @ ssid) \<le> capacity" using Cons.prems by auto
    then show ?thesis using False Cons.IH [of "written @ [of_nat (length ssid)] @ ssid"] by (simp add: names_def add.assoc)
  qed
qed (simp add: names_def)

text \<open>
  A scan request is refused for more than four names, a name of more than 32 bytes or too little room, and is
  otherwise the channels, four zero bytes, the length of the names, and the names that are not empty, each behind its length.
\<close>

theorem scan_request_exact:
  "marlin2_wlan_scan_build capacity channels ssids =
     (if length ssids \<le> 4 \<and> list_all (\<lambda>ssid. length ssid \<le> 32) ssids \<and> 10 + length (names ssids) \<le> capacity
      then Some (put_le32 channels @ put_le32 0 @ put_le16 (of_nat (length (names ssids))) @ names ssids) else None)"
proof -
  have "put_at 8 (put_le16 l) (put_at 4 (put_le32 0) (put_at 0 (put_le32 channels) (replicate 10 0 @ post))) =
      put_le32 channels @ put_le32 0 @ put_le16 l @ post" for l post
  proof -
    have "replicate 10 (0::u8) = replicate 4 0 @ replicate 4 0 @ replicate 2 0" by (simp add: numeral_eq_Suc)
    then show ?thesis
      using fill_at [of 0 "[]" "replicate 4 0" "put_le32 channels"] fill_at [of 4 "put_le32 channels" "replicate 4 0" "put_le32 0"]
        fill_at [of 8 "put_le32 channels @ put_le32 0" "replicate 2 0" "put_le16 l"] by simp
  qed
  then show ?thesis by (auto simp: marlin2_wlan_scan_build_def scan_names_all)
qed

subsection \<open>Keys and connections\<close>

text \<open>A key message and a connection message, in the order of their bytes.\<close>

lemma key_layout:
  assumes "length key = 16" "\<And>address. mac = Some address \<Longrightarrow> length address = 6"
  shows "marlin2_wlan_key_build index is_pairwise mac sequence key =
    (if index > 3 \<or> length sequence > 8 \<or> (is_pairwise \<and> mac = None) then Inl EINVAL
     else Inr ([3, index, of_bool is_pairwise] @ (case mac of None \<Rightarrow> replicate 6 0 | Some address \<Rightarrow> address) @
            sequence @ replicate (8 - length sequence) 0 @ [4, 16] @ key))"
proof (cases "length sequence > 8")
  case False
  define address where "address = (case mac of None \<Rightarrow> replicate 6 (0::u8) | Some a \<Rightarrow> a)"
  have six: "length address = 6" using assms(2) by (cases mac) (simp_all add: address_def)
  define start where "start = [3, index, of_bool is_pairwise :: u8]"
  let ?post = "replicate (8 - length sequence) (0::u8)"
  have three: "length start = 3" by (simp add: start_def)
  have "replicate 35 (0::u8) = [0, 0, 0] @ replicate 6 0 @ replicate (length sequence) 0 @ ?post @ [0] @ [0] @ replicate 16 0"
    using False unfolding replicate_add [symmetric] replicate_Suc [symmetric] append_Cons append_Nil by simp
  then have "(replicate 35 0)[0 := 3, 1 := index, 2 := of_bool is_pairwise] =
      start @ replicate 6 0 @ replicate (length sequence) 0 @ ?post @ [0] @ [0] @ replicate 16 0"
    by (simp add: start_def)
  moreover have "(case mac of None \<Rightarrow> start @ replicate 6 0 @ post | Some a \<Rightarrow> put_at 3 a (start @ replicate 6 0 @ post)) = (start @ address) @ post" for post
    using fill_at [of 3 start "replicate 6 0" _ post] three assms(2) by (cases mac) (simp_all add: address_def)
  moreover have "put_at 9 sequence ((start @ address) @ replicate (length sequence) 0 @ post) = ((start @ address) @ sequence) @ post" for post
    by (rule fill_at) (simp_all add: three six)
  moreover have "((((start @ address) @ sequence) @ ?post) @ [0] @ post)[17 := 4] = ((((start @ address) @ sequence) @ ?post) @ [4]) @ post" for post
    by (rule set_at) (use False in \<open>simp add: three six\<close>)
  moreover have "(((((start @ address) @ sequence) @ ?post) @ [4]) @ [0] @ post)[18 := 16] = (((((start @ address) @ sequence) @ ?post) @ [4]) @ [16]) @ post" for post
    by (rule set_at) (use False in \<open>simp add: three six\<close>)
  moreover have "put_at 19 key ((((((start @ address) @ sequence) @ ?post) @ [4]) @ [16]) @ replicate 16 0 @ []) =
      ((((((start @ address) @ sequence) @ ?post) @ [4]) @ [16]) @ key) @ []"
    by (rule fill_at) (use False assms(1) in \<open>simp_all add: three six\<close>)
  ultimately show ?thesis
    by (simp only: marlin2_wlan_key_build_def Let_def address_def [symmetric] append_assoc append_Nil2 start_def [symmetric]) simp
qed (simp add: marlin2_wlan_key_build_def)

lemma connect_length:
  assumes "length ssid \<le> 32" "\<And>address. bssid = Some address \<Longrightarrow> length address = 6"
  shows "length (marlin2_wlan_connect_build wpa2 bssid channel ssid) = 82"
  using assms by (cases bssid; cases wpa2) (simp_all add: marlin2_wlan_connect_build_def Let_def put_at_def)

subsection \<open>Bluetooth frames\<close>

text \<open>
  A packet of the Bluetooth stack that is sent is found again by the reader of frames: its kind and its bytes come
  first, the length read from them is the length of exactly these bytes, and only zeros follow, up to the next multiple
  of eight for the direct path and none for the packet path.  A length once known does not change with the bytes
  that arrive later.
\<close>

theorem bluetooth_frame_found:
  assumes "marlin2_bluetooth_tx_build capacity kind payload = Inr (bs, path)"
  shows "marlin2_bluetooth_frame_length (bs @ later) = Inr (1 + length payload) \<and> take (1 + length payload) bs = kind # payload \<and>
    set (drop (1 + length payload) bs) \<subseteq> {0} \<and> length bs \<le> capacity \<and>
    length bs = (if path = BLUETOOTH_PACKET then 1 + length payload else aligned (1 + length payload) 8)"
proof -
  define h where "h = (if kind = 2 then 4 else 3 :: nat)"
  define declared where "declared = (if kind = 2 then unat (payload ! 2) + 256 * unat (payload ! 3) else unat (payload ! 2))"
  define m where "m = (if kind = 3 then 1 + h + declared else aligned (1 + h + declared) 8)"
  have k: "kind = 1 \<or> kind = 2 \<or> kind = 3" and n: "h \<le> length payload" "declared = length payload - h"
    and bs: "bs = kind # payload @ replicate (m - (1 + h + declared)) 0" "m \<le> capacity"
      "path = (if kind = 3 then BLUETOOTH_PACKET else BLUETOOTH_DIRECT)"
    using assms unfolding marlin2_bluetooth_tx_build_def Let_def h_def [symmetric] declared_def [symmetric] m_def [symmetric]
    by (auto split: if_splits)
  have frame: "1 + h + declared = 1 + length payload" using n by simp
  have "1 + length payload \<le> m" unfolding m_def frame by (simp add: aligned_unit_ge)
  moreover have "marlin2_bluetooth_frame_length (bs @ later) = Inr (1 + h + declared)"
  proof -
    have "2 < length payload" "kind = 2 \<Longrightarrow> 3 < length payload" using n(1) by (auto simp: h_def split: if_splits)
    then have nth: "(bs @ later) ! 0 = kind" "(bs @ later) ! 3 = payload ! 2" "kind = 2 \<Longrightarrow> (bs @ later) ! 4 = payload ! 3"
      by (simp_all add: bs(1) nth_append)
    have len: "1 + h \<le> length (bs @ later)" "bs @ later \<noteq> []" using n(1) by (simp_all add: bs(1))
    show ?thesis
      using k nth len unfolding marlin2_bluetooth_frame_length_def Let_def by (elim disjE) (simp_all add: h_def declared_def)
  qed
  ultimately show ?thesis using bs m_def unfolding frame by (auto split: if_splits)
qed

theorem bluetooth_frame_found_witness:
  "marlin2_bluetooth_frame_length ([1, 3, 12, 0, 0, 0, 0, 0] @ [4, 4]) = Inr 4 \<and> take 4 [1, 3, 12, 0, 0, 0, 0, 0 :: u8] = [1, 3, 12, 0]"
proof -
  have "marlin2_bluetooth_tx_build 8 1 [3, 12, 0] = Inr ([1, 3, 12, 0, 0, 0, 0, 0], BLUETOOTH_DIRECT)"
  proof -
    have "replicate 4 (0::u8) = [0, 0, 0, 0]" by (simp add: numeral_eq_Suc)
    then show ?thesis by (simp add: marlin2_bluetooth_tx_build_def aligned_def Let_def)
  qed
  from bluetooth_frame_found [OF this, of "[4, 4]"] show ?thesis by simp
qed

text \<open>A reply is taken as a success only for a whole event that names the command.\<close>

lemma setup_reply_success:
  assumes "marlin2_bluetooth_setup_reply opcode mode state event = None"
  shows "event ! 0 = 4 \<and> event ! 1 = 0x0e \<and> get_le16 event 4 = opcode \<and> length event = unat (event ! 2) + 3 \<and>
    opcode \<in> {BLUETOOTH_WRITE_PSKEY, BLUETOOTH_MODULE_ENABLE} \<and>
    (if opcode = BLUETOOTH_WRITE_PSKEY then event ! 6 = 0 else get_le16 event 6 = mode \<and> event ! 8 = state)"
  using assms by (auto simp: marlin2_bluetooth_setup_reply_def Let_def split: if_splits)

end
