(* ===== verification/Radio_Info.thy ===== *)
theory Radio_Info
  imports Radio_Aggregate
begin

section \<open>The first exchange with the radio\<close>

text \<open>
  \<open>marlin2-packet-sdio.c\<close>: the request for the chip's description and the wait for its answer.  What the board and the bus do in
  one turn of the loop is an argument; a loop that has seen no end after the turns given still runs, which is \<^const>\<open>None\<close>.
\<close>

unbundle bit_operations_syntax

definition info_zero :: marlin2_info where
  "info_zero = \<lparr> mi_chip_model = 0, mi_chip_version = 0, mi_firmware_version = 0, mi_standards = 0, mi_capabilities = 0,
     mi_max_ap_stations = 0, mi_max_acl_addresses = 0, mi_max_multicast_addresses = 0, mi_wnm_ft_support = 0, mi_extended_features = 0 \<rparr>"

definition result_zero :: marlin2_packet_result where
  "result_zero = \<lparr> pr_info = info_zero, pr_token = 0, pr_aggregates = 0, pr_records = 0, pr_ignored_records = 0, pr_used_payload_bytes = 0,
     pr_next_payload_bytes = 0, pr_last_puh = 0, pr_response_length = 0, pr_response_header = replicate 12 0,
     pr_response_payload = replicate 28 0, pr_status = 0, pr_multi_block = False, pr_request_sent = False, pr_rx_request_seen = False,
     pr_response_received = False \<rparr>"

text \<open>One turn: whether a deadline has passed, the request line, and the answer of the bus to a read.\<close>

record info_turn =
  it_late :: bool
  it_request :: "radio_error + bool"
  it_read :: "radio_error + bytes"

fun get_info_loop ::
    "u32 \<Rightarrow> info_turn list \<Rightarrow> nat \<Rightarrow> u32 \<Rightarrow> marlin2_packet_result \<Rightarrow> (radio_error option option) \<times> marlin2_packet_result" where
  "get_info_loop token [] read_bytes pending result = (None, result)"
| "get_info_loop token (t # ts) read_bytes pending result =
     (if it_late t then (Some (Some ETIMEDOUT), result)
      else case (if pending = 0 then it_request t else Inr True) of
             Inl e \<Rightarrow> (Some (Some e), result)
           | Inr False \<Rightarrow> get_info_loop token ts read_bytes pending result
           | Inr True \<Rightarrow>
               let result = (if pending = 0 then result\<lparr> pr_rx_request_seen := True \<rparr> else result)
               in case it_read t of
                    Inl e \<Rightarrow> (Some (Some e), result)
                  | Inr buffer \<Rightarrow>
                      (case marlin2_packet_decode buffer read_bytes token result of
                         (Inl e, result) \<Rightarrow> (Some (Some e), result)
                       | (Inr True, result) \<Rightarrow> (Some None, result)
                       | (Inr False, result) \<Rightarrow>
                           get_info_loop token ts (marlin2_packet_next_read (pr_next_payload_bytes result)) (pr_next_payload_bytes result) result))"

text \<open>
  The function and its host suit when the function is number 1 with blocks of 512 bytes and the host takes the longest read; \<open>late\<close> says that a
  deadline has passed before the request is written, \<open>written\<close> is the answer of the bus to it.
\<close>

definition marlin2_packet_get_info_locked ::
    "bool \<Rightarrow> bool \<Rightarrow> bool \<Rightarrow> bool \<Rightarrow> radio_error option \<Rightarrow> u32 \<Rightarrow> info_turn list \<Rightarrow>
     (radio_error option option) \<times> marlin2_packet_result \<times> bytes option" where
  "marlin2_packet_get_info_locked multi_block suits memory late written token ts =
     (let result = result_zero\<lparr> pr_token := token, pr_multi_block := multi_block \<rparr>
      in if \<not> suits \<or> \<not> multi_block then (Some (Some EPROTONOSUPPORT), result, None)
         else if \<not> memory then (Some (Some ENOMEM), result, None)
         else if late then (Some (Some ETIMEDOUT), result, None)
         else
           let request = marlin2_packet_build_get_info token
           in case written of
                Some e \<Rightarrow> (Some (Some e), result, request)
              | None \<Rightarrow>
                  (case get_info_loop token ts PACKET_RX_INITIAL_BYTES 0 (result\<lparr> pr_request_sent := True \<rparr>) of
                     (ret, result) \<Rightarrow> (ret, result, request)))"

subsection \<open>Only an answer is believed\<close>

definition info_of :: "bytes \<Rightarrow> marlin2_info" where
  "info_of p = \<lparr> mi_chip_model = get_le32 p 0, mi_chip_version = get_le32 p 4, mi_firmware_version = get_le32 p 8,
     mi_standards = get_le32 p 12, mi_capabilities = get_le32 p 16, mi_max_ap_stations = p ! 20, mi_max_acl_addresses = p ! 21,
     mi_max_multicast_addresses = p ! 22, mi_wnm_ft_support = p ! 23, mi_extended_features = get_le32 p 24 \<rparr>"

definition info_answered :: "u32 \<Rightarrow> marlin2_packet_result \<Rightarrow> bool" where
  "info_answered token r \<longleftrightarrow> pr_response_received r \<and> pr_status r = 0 \<and>
     length (pr_response_header r) = 12 \<and> pr_response_header r ! 1 = GET_INFO_ID \<and> pr_response_header r ! 8 = 0 \<and>
     get_le32 (pr_response_header r) 4 = token \<and> pr_response_length r = 40 \<and>
     length (pr_response_payload r) = 28 \<and> pr_info r = info_of (pr_response_payload r)"

lemma get_le32_take: "at + 4 \<le> n \<Longrightarrow> get_le32 (take n bs) at = get_le32 bs at"
  by (simp add: get_le32_def)

lemma decode_get_info_answered:
  assumes "decode_get_info command token r = (Inr True, r')"
  shows "info_answered token r'"
proof -
  define n where "n = get_le16 command 2"
  have len: "length command = 40" and "unat n = 40" and id: "command ! 1 = GET_INFO_ID" and token: "get_le32 command 4 = token"
    and status: "sint (command ! 8) = 0"
    and r': "r' = r\<lparr> pr_response_length := n, pr_response_header := take 12 command, pr_status := sint (command ! 8), pr_response_received := True,
      pr_response_payload := take 28 (drop 12 command), pr_info := info_of (drop 12 command) \<rparr>"
    using assms by (auto simp: decode_get_info_def Let_def COMMAND_BYTES_def GET_INFO_BYTES_def n_def info_of_def split: if_splits)
  have "n = 40" using \<open>unat n = 40\<close> by (simp add: word_unat_eq_iff)
  moreover have "command ! 8 = 0" using status by (metis signed_0 signed_word_eqI)
  moreover have "take 28 (drop 12 command) = drop 12 command" using len by simp
  ultimately show ?thesis
    using len id token by (simp add: info_answered_def r' get_le32_take)
qed

lemma packet_loop_answered: "packet_loop token a r = (Inr True, r') \<Longrightarrow> info_answered token r'"
proof (induction token a r rule: packet_loop.induct)
  case (1 token a r)
  obtain s b h where n: "marlin2_transport_aggregate_next a (pr_last_puh r) = (s, b, h)"
    by (cases "marlin2_transport_aggregate_next a (pr_last_puh r)")
  show ?case
  proof (cases s)
    case (Got m)
    define q where "q = r\<lparr> pr_last_puh := h, pr_records := pr_records r + 1 \<rparr>"
    obtain answer p where d: "(if msg_type m = unat PUH_WIFI \<and> msg_subtype m = 0
        then decode_get_info (message_data (ta_packet a) m) token q else (Inr False, q)) = (answer, p)" by fastforce
    have eq: "packet_loop token a r = (if answer \<noteq> Inr False then (answer, p) else packet_loop token b (p\<lparr> pr_ignored_records := pr_ignored_records p + 1 \<rparr>))"
      using n Got d unfolding q_def by (simp add: packet_loop.simps [of token a r])
    show ?thesis
    proof (cases "answer = Inr False")
      case True
      then have "packet_loop token b (p\<lparr> pr_ignored_records := pr_ignored_records p + 1 \<rparr>) = (Inr True, r')" using eq 1(2) by simp
      then show ?thesis using 1(1) [OF n [symmetric] Got refl refl _ refl] d True unfolding q_def by simp
    next
      case False
      then have "decode_get_info (message_data (ta_packet a) m) token q = (Inr True, r')" using eq 1(2) d by (auto split: if_splits)
      then show ?thesis by (rule decode_get_info_answered)
    qed
  qed (use 1(2) n in \<open>simp_all add: packet_loop.simps [of token a r]\<close>)
qed

lemma packet_decode_answered: "marlin2_packet_decode packet n token r = (Inr True, r') \<Longrightarrow> info_answered token r'"
  by (auto simp: marlin2_packet_decode_def dest: packet_loop_answered split: sum.splits)

lemma get_info_loop_answered:
  "get_info_loop token ts n pending r = (Some None, r') \<Longrightarrow> info_answered token r'"
proof (induction ts arbitrary: n pending r)
  case (Cons t ts)
  show ?case
  proof (cases "it_late t \<or> (if pending = 0 then it_request t else Inr True) \<noteq> Inr True")
    case True
    then show ?thesis using Cons by (auto split: if_splits sum.splits bool.splits)
  next
    case False
    define q where "q = (if pending = 0 then r\<lparr> pr_rx_request_seen := True \<rparr> else r)"
    show ?thesis
    proof (cases "it_read t")
      case (Inl e)
      then show ?thesis using Cons.prems False by simp
    next
      case (Inr buffer)
      obtain ret p where d: "marlin2_packet_decode buffer n token q = (ret, p)" by fastforce
      have "get_info_loop token (t # ts) n pending r = (case ret of
          Inl e \<Rightarrow> (Some (Some e), p) | Inr True \<Rightarrow> (Some None, p)
        | Inr False \<Rightarrow> get_info_loop token ts (marlin2_packet_next_read (pr_next_payload_bytes p)) (pr_next_payload_bytes p) p)"
        using False Inr d by (simp add: Let_def q_def [symmetric] split: sum.splits bool.splits)
      then show ?thesis using Cons d packet_decode_answered by (auto split: sum.splits bool.splits)
    qed
  qed
qed simp


subsection \<open>An answer is found\<close>

lemma packet_loop_found:
  assumes "ta_packet a = encode_record (2, 0, answer) @ post" "ta_offset a = 0" "length (encode_record (2, 0, answer)) \<le> ta_data_bytes a"
    and "ta_used a = length answer" "ta_parsed a = 0" "sendable_record (2, 0, answer)" "\<And>r. fst (decode_get_info answer token r) = Inr True"
  shows "fst (packet_loop token a r) = Inr True"
proof -
  let ?puh = "pr_last_puh r"
  obtain m b h where m: "next_record a ?puh = (Inr (m, b), h)" "msg_type m = 2" "msg_subtype m = 0" "msg_length m = length answer"
      "message_data (ta_packet a) m = answer"
    using next_record_encoded [of a "[]" 2 0 answer post ?puh] assms(1-3,6) by auto
  have "answer \<noteq> []" using assms(6) by (simp add: sendable_record_def)
  then obtain c where next_m: "marlin2_transport_aggregate_next a ?puh = (Got m, c, h)"
    using m next_record_Inr(1) [OF m(1)] assms(4,5) by (simp add: marlin2_transport_aggregate_next.simps [of a ?puh])
  define q where "q = r\<lparr> pr_last_puh := h, pr_records := pr_records r + 1 \<rparr>"
  obtain p where "decode_get_info answer token q = (Inr True, p)" using assms(7) [of q] by (metis prod.collapse)
  then show ?thesis
    using m(2,3,5) next_m unfolding q_def by (simp add: packet_loop.simps [of token a r] PUH_WIFI_def)
qed


end
