(* ===== verification/Radio_Channels.thy ===== *)
theory Radio_Channels
  imports Radio_Aggregate
begin

section \<open>The channels of the radio\<close>

text \<open>
  \<open>marlin2-transport.c\<close>: the three clients of the radio, the life of the transport they share, the receive interrupt and the
  writes.  A channel is its place in the list.  What the driver asks of the board, the SDIO bus and its clients is a list of calls in the
  order they are made; their answers are arguments.  The locks and the read-once accesses have no counterpart: an
  operation that holds the lifetime lock is one step.
\<close>

definition CLIENT_COUNT :: nat where "CLIENT_COUNT = 3"
definition CLIENT_BLUETOOTH :: nat where "CLIENT_BLUETOOTH = 0"
definition TRANSPORT_TX_MAX_BYTES :: nat where "TRANSPORT_TX_MAX_BYTES = 4096"

record channel =
  ch_ops :: bool
  ch_error_op :: bool
  ch_active :: bool

datatype call =
    Acquire
  | Release
  | Read nat
  | Write bytes
  | Write_bluetooth bytes
  | Receive nat nat bytes
  | Report nat radio_error
  | Disable_irq

record transport =
  tp_channels :: "channel list"
  tp_users :: nat
  tp_running :: bool
  tp_irq_requested :: bool
  tp_func :: bool
  tp_io_error :: "radio_error option"
  tp_calls :: "call list"

definition calls :: "call list \<Rightarrow> transport \<Rightarrow> transport" where
  "calls cs tp = tp\<lparr> tp_calls := tp_calls tp @ cs \<rparr>"

definition set_channel :: "nat \<Rightarrow> (channel \<Rightarrow> channel) \<Rightarrow> transport \<Rightarrow> transport" where
  "set_channel c f tp = tp\<lparr> tp_channels := (tp_channels tp)[c := f (tp_channels tp ! c)] \<rparr>"

definition transport_created :: transport where
  "transport_created = \<lparr> tp_channels = replicate CLIENT_COUNT \<lparr> ch_ops = False, ch_error_op = False, ch_active = False \<rparr>,
     tp_users = 0, tp_running = False, tp_irq_requested = False, tp_func = False, tp_io_error = None, tp_calls = [] \<rparr>"

definition marlin2_transport_create :: "bool \<Rightarrow> bool \<Rightarrow> radio_error + transport" where
  "marlin2_transport_create board_ops memory =
     (if \<not> board_ops then Inl EINVAL else if \<not> memory then Inl ENOMEM else Inr transport_created)"

text \<open>The transport is freed unless a channel is still registered.\<close>

definition marlin2_transport_destroy :: "transport \<Rightarrow> bool" where
  "marlin2_transport_destroy tp \<longleftrightarrow> \<not> list_ex ch_ops (tp_channels tp)"

subsection \<open>Receiving\<close>

definition receive_message :: "bytes \<Rightarrow> transport \<Rightarrow> transport_message \<Rightarrow> int \<times> transport" where
  "receive_message packet tp message =
     (if msg_type message \<ge> CLIENT_COUNT then (0, tp)
      else if ch_active (tp_channels tp ! msg_type message)
      then (0, calls [Receive (msg_type message) (msg_subtype message) (message_data packet message)] tp)
      else (0, tp))"

definition receive_error :: "radio_error \<Rightarrow> transport \<Rightarrow> transport" where
  "receive_error e tp =
     calls (map (\<lambda>c. Report c e) (filter (\<lambda>c. ch_active (tp_channels tp ! c) \<and> ch_error_op (tp_channels tp ! c)) [0..<CLIENT_COUNT]))
       (tp\<lparr> tp_io_error := Some e \<rparr>)"

text \<open>
  The loop of \<open>receive_irq\<close> over the answers of the bus: an error or the bytes read, with whether the transport still runs afterwards.
  The outer \<^const>\<open>None\<close> says that the loop waits for another answer.
\<close>

fun receive_loop :: "((radio_error + bytes) \<times> bool) list \<Rightarrow> nat \<Rightarrow> transport \<Rightarrow> radio_error option option \<times> transport" where
  "receive_loop [] n tp = (None, tp)"
| "receive_loop ((answer, running) # answers) n tp =
     (let tp = calls [Read n] tp
      in case answer of
           Inl e \<Rightarrow> (Some (Some e), tp)
         | Inr packet \<Rightarrow>
             (case marlin2_transport_aggregate_decode packet n (receive_message packet) tp of
                (Broken e, tp, _) \<Rightarrow> (Some (Some e), tp)
              | (Stopped _, tp, _) \<Rightarrow> (Some None, tp)
              | (Complete, tp, next_bytes) \<Rightarrow>
                  if the next_bytes \<noteq> 0 \<and> running then receive_loop answers (marlin2_packet_next_read (the next_bytes)) tp
                  else (Some None, tp)))"

definition receive_irq :: "((radio_error + bytes) \<times> bool) list \<Rightarrow> transport \<Rightarrow> transport" where
  "receive_irq answers tp =
     (if \<not> tp_running tp then tp
      else case receive_loop answers PACKET_RX_INITIAL_BYTES tp of
             (Some (Some e), tp) \<Rightarrow> receive_error e (calls [Disable_irq] tp)
           | (_, tp) \<Rightarrow> tp)"

subsection \<open>Starting and stopping\<close>

definition stop_transport :: "transport \<Rightarrow> transport" where
  "stop_transport tp = calls [Release] (tp\<lparr> tp_running := False, tp_irq_requested := False, tp_func := False \<rparr>)"

text \<open>What the board and the kernel answer: the acquisition, whether function and host suit, the interrupt number and its request.\<close>

record start =
  st_acquire :: "radio_error option"
  st_suits :: bool
  st_irq :: "radio_error option"
  st_request :: "radio_error option"

definition start_transport :: "start \<Rightarrow> transport \<Rightarrow> radio_error option \<times> transport" where
  "start_transport st tp =
     (case st_acquire st of
        Some e \<Rightarrow> (Some e, tp)
      | None \<Rightarrow>
          let tp = calls [Acquire] (tp\<lparr> tp_func := True \<rparr>);
              release = (\<lambda>tp. calls [Release] (tp\<lparr> tp_running := False, tp_func := False \<rparr>))
          in if \<not> st_suits st then (Some EPROTONOSUPPORT, release tp)
             else case st_irq st of
                    Some e \<Rightarrow> (Some e, release tp)
                  | None \<Rightarrow>
                      let tp = tp\<lparr> tp_io_error := None, tp_running := True \<rparr>
                      in case st_request st of
                           Some e \<Rightarrow> (Some e, release tp)
                         | None \<Rightarrow> (None, tp\<lparr> tp_irq_requested := True \<rparr>))"

definition marlin2_channel_register :: "nat \<Rightarrow> bool \<Rightarrow> bool \<Rightarrow> transport \<Rightarrow> radio_error option \<times> transport" where
  "marlin2_channel_register client has_receive has_error tp =
     (if client \<ge> CLIENT_COUNT \<or> \<not> has_receive then (Some EINVAL, tp)
      else if ch_ops (tp_channels tp ! client) then (Some EBUSY, tp)
      else (None, set_channel client (\<lambda>ch. ch\<lparr> ch_ops := True, ch_error_op := has_error \<rparr>) tp))"

definition open_channel :: "nat \<Rightarrow> bool \<Rightarrow> start \<Rightarrow> transport \<Rightarrow> radio_error option \<times> transport" where
  "open_channel client fresh st tp =
     (if ch_active (tp_channels tp ! client) \<or> (fresh \<and> tp_users tp \<noteq> 0) then (Some EBUSY, tp)
      else if tp_users tp \<noteq> 0 \<and> tp_io_error tp \<noteq> None then (tp_io_error tp, tp)
      else
        let tp = set_channel client (\<lambda>ch. ch\<lparr> ch_active := True \<rparr>) tp
        in case (if tp_users tp = 0 then start_transport st tp else (None, tp)) of
             (Some e, tp) \<Rightarrow> (Some e, set_channel client (\<lambda>ch. ch\<lparr> ch_active := False \<rparr>) tp)
           | (None, tp) \<Rightarrow> (None, tp\<lparr> tp_users := tp_users tp + 1 \<rparr>))"

definition close_channel :: "nat \<Rightarrow> transport \<Rightarrow> transport" where
  "close_channel client tp =
     (if \<not> ch_active (tp_channels tp ! client) then tp
      else
        let tp = (set_channel client (\<lambda>ch. ch\<lparr> ch_active := False \<rparr>) tp)\<lparr> tp_users := tp_users tp - 1 \<rparr>
        in if tp_users tp = 0 then stop_transport tp else tp)"

definition marlin2_channel_unregister :: "nat \<Rightarrow> transport \<Rightarrow> transport" where
  "marlin2_channel_unregister client tp = set_channel client (\<lambda>ch. ch\<lparr> ch_ops := False \<rparr>) (close_channel client tp)"

subsection \<open>Writing\<close>

definition channel_io_error :: "nat \<Rightarrow> transport \<Rightarrow> radio_error option" where
  "channel_io_error client tp =
     (if \<not> ch_active (tp_channels tp ! client) \<or> \<not> tp_running tp then Some ENETDOWN else tp_io_error tp)"

definition marlin2_channel_write :: "nat \<Rightarrow> bytes \<Rightarrow> radio_error option \<Rightarrow> transport \<Rightarrow> radio_error option \<times> transport" where
  "marlin2_channel_write client packet bus tp =
     (if length packet = 0 \<or> length packet > TRANSPORT_TX_MAX_BYTES \<or> length packet mod 512 \<noteq> 0 then (Some EMSGSIZE, tp)
      else case channel_io_error client tp of
             Some e \<Rightarrow> (Some e, tp)
           | None \<Rightarrow> (bus, calls [Write packet] tp))"

definition marlin2_channel_send ::
    "bool \<Rightarrow> nat \<Rightarrow> u8 \<Rightarrow> bytes \<Rightarrow> radio_error option \<Rightarrow> transport \<Rightarrow> radio_error option \<times> transport" where
  "marlin2_channel_send memory client subtype payload bus tp =
     (if \<not> memory then (Some ENOMEM, tp)
      else case marlin2_transport_record_build TRANSPORT_TX_MAX_BYTES (of_nat client) subtype payload of
        None \<Rightarrow> (Some EMSGSIZE, tp)
      | Some packet \<Rightarrow> marlin2_channel_write client packet bus tp)"

definition marlin2_channel_write_bluetooth ::
    "bool \<Rightarrow> nat \<Rightarrow> bytes \<Rightarrow> radio_error option \<Rightarrow> transport \<Rightarrow> radio_error option \<times> transport" where
  "marlin2_channel_write_bluetooth has_op client data bus tp =
     (if client \<noteq> CLIENT_BLUETOOTH \<or> \<not> has_op then (Some EOPNOTSUPP, tp)
      else case channel_io_error client tp of
             Some e \<Rightarrow> (Some e, tp)
           | None \<Rightarrow> (bus, calls [Write_bluetooth data] tp))"

subsection \<open>Sequences of operations\<close>

text \<open>A client opens only a channel it has registered.\<close>

inductive transport_step :: "transport \<Rightarrow> transport \<Rightarrow> bool" where
  "transport_step tp (snd (marlin2_channel_register client has_receive has_error tp))"
| "client < CLIENT_COUNT \<Longrightarrow> ch_ops (tp_channels tp ! client) \<Longrightarrow> transport_step tp (snd (open_channel client fresh st tp))"
| "client < CLIENT_COUNT \<Longrightarrow> transport_step tp (close_channel client tp)"
| "client < CLIENT_COUNT \<Longrightarrow> transport_step tp (marlin2_channel_unregister client tp)"
| "transport_step tp (receive_irq answers tp)"
| "client < CLIENT_COUNT \<Longrightarrow> transport_step tp (snd (marlin2_channel_write client packet bus tp))"
| "client < CLIENT_COUNT \<Longrightarrow> transport_step tp (snd (marlin2_channel_send memory client subtype payload bus tp))"
| "client < CLIENT_COUNT \<Longrightarrow> transport_step tp (snd (marlin2_channel_write_bluetooth has_op client data bus tp))"

definition active_channels :: "transport \<Rightarrow> nat" where
  "active_channels tp = length (filter ch_active (tp_channels tp))"

definition call_ok :: "call \<Rightarrow> bool" where
  "call_ok c = (case c of
     Read n \<Rightarrow> n mod 512 = 0 \<and> 512 \<le> n \<and> n \<le> PACKET_RX_MAX_BYTES
   | Write packet \<Rightarrow> length packet mod 512 = 0 \<and> 512 \<le> length packet \<and> length packet \<le> TRANSPORT_TX_MAX_BYTES
   | Receive client _ _ \<Rightarrow> client < CLIENT_COUNT
   | Report client _ \<Rightarrow> client < CLIENT_COUNT
   | _ \<Rightarrow> True)"

definition transport_ok :: "transport \<Rightarrow> bool" where
  "transport_ok tp \<longleftrightarrow> length (tp_channels tp) = CLIENT_COUNT \<and> tp_users tp = active_channels tp \<and>
     (tp_running tp \<longleftrightarrow> tp_users tp \<noteq> 0) \<and> (tp_irq_requested tp \<longleftrightarrow> tp_users tp \<noteq> 0) \<and> (tp_func tp \<longleftrightarrow> tp_users tp \<noteq> 0) \<and>
     list_all (\<lambda>ch. ch_active ch \<longrightarrow> ch_ops ch) (tp_channels tp) \<and> list_all call_ok (tp_calls tp) \<and>
     count_list (tp_calls tp) Acquire = count_list (tp_calls tp) Release + of_bool (tp_func tp)"

text \<open>Only the calls of the list change, and none of them starts or stops the radio.\<close>

definition only_calls :: "transport \<Rightarrow> transport \<Rightarrow> bool" where
  "only_calls tp tp' \<longleftrightarrow> (\<exists>cs. tp' = calls cs tp \<and> list_all call_ok cs \<and> Acquire \<notin> set cs \<and> Release \<notin> set cs)"

lemma calls_calls: "calls cs (calls cs' tp) = calls (cs' @ cs) tp"
  by (simp add: calls_def)

lemma calls_channels [simp]: "tp_channels (calls cs tp) = tp_channels tp" "tp_running (calls cs tp) = tp_running tp"
  by (simp_all add: calls_def)

lemma only_calls_refl: "only_calls tp tp"
  unfolding only_calls_def by (rule exI [of _ "[]"]) (simp add: calls_def)

lemma only_calls_trans: "only_calls tp tp' \<Longrightarrow> only_calls tp' tp'' \<Longrightarrow> only_calls tp tp''"
  unfolding only_calls_def by (metis (no_types, lifting) Un_iff calls_calls list_all_append set_append)

lemma only_calls_one: "call_ok c \<Longrightarrow> c \<noteq> Acquire \<Longrightarrow> c \<noteq> Release \<Longrightarrow> only_calls tp (calls [c] tp)"
  unfolding only_calls_def by (rule exI [of _ "[c]"]) simp

lemma only_calls_ok: "only_calls tp tp' \<Longrightarrow> transport_ok tp \<Longrightarrow> transport_ok tp'"
  by (auto simp: only_calls_def transport_ok_def calls_def active_channels_def count_list_0_iff)

lemma receive_message_only: "only_calls tp (snd (receive_message packet tp message))"
  using only_calls_one [of "Receive (msg_type message) (msg_subtype message) (message_data packet message)" tp] only_calls_refl [of tp]
  by (simp add: receive_message_def call_ok_def)

lemma aggregate_loop_only:
  "only_calls tp (snd (aggregate_loop (receive_message packet) tp a puh))"
proof (induction "receive_message packet" tp a puh rule: aggregate_loop.induct)
  case (1 tp a puh)
  obtain r b h where n: "marlin2_transport_aggregate_next a puh = (r, b, h)" by (cases "marlin2_transport_aggregate_next a puh")
  show ?case
  proof (cases r)
    case (Got m)
    obtain ret tp' where m: "receive_message packet tp m = (ret, tp')" by fastforce
    then have only: "only_calls tp tp'" and ret: "ret = 0"
      using receive_message_only [of tp packet m] by (auto simp: receive_message_def split: if_splits)
    show ?thesis
      using 1 [OF n [symmetric] Got refl m [symmetric]] only_calls_trans [OF only] n Got m ret
      by (simp add: aggregate_loop.simps [of _ tp a])
  qed (simp_all add: n aggregate_loop.simps [of _ tp a] only_calls_refl)
qed

lemma decode_only:
  "marlin2_transport_aggregate_decode packet n (receive_message packet) tp = (r, tp', pending) \<Longrightarrow> only_calls tp tp'"
  using aggregate_loop_only [of tp packet] only_calls_refl [of tp]
  by (auto simp: marlin2_transport_aggregate_decode_def split: sum.splits prod.splits) (metis snd_conv)

lemma receive_loop_only:
  "call_ok (Read n) \<Longrightarrow> only_calls tp (snd (receive_loop answers n tp))"
proof (induction answers n tp rule: receive_loop.induct)
  case (1 n tp)
  then show ?case by (simp add: only_calls_refl)
next
  case (2 answer running answers n tp)
  let ?tp = "calls [Read n] tp"
  have read: "only_calls tp ?tp" by (rule only_calls_one) (simp_all add: 2(2))
  show ?case
  proof (cases answer)
    case (Inl e)
    then show ?thesis using read by simp
  next
    case (Inr packet)
    obtain r tp' pending where d: "marlin2_transport_aggregate_decode packet n (receive_message packet) ?tp = (r, tp', pending)"
      by (cases "marlin2_transport_aggregate_decode packet n (receive_message packet) ?tp")
    have only: "only_calls tp tp'" using only_calls_trans [OF read decode_only [OF d]] .
    have "call_ok (Read (marlin2_packet_next_read (the pending)))" using next_read_bounds [of "the pending"] by (simp add: call_ok_def)
    then have "only_calls tp (snd (receive_loop answers (marlin2_packet_next_read (the pending)) tp'))" if "r = Complete" "the pending \<noteq> 0 \<and> running"
      using only_calls_trans [OF only] 2(1) [OF refl Inr d [symmetric] _ refl _] that by auto
    then show ?thesis using only Inr d by (cases r) auto
  qed
qed

lemma receive_irq_ok:
  assumes "transport_ok tp"
  shows "transport_ok (receive_irq answers tp)"
proof (cases "tp_running tp")
  case True
  obtain ret tp' where l: "receive_loop answers PACKET_RX_INITIAL_BYTES tp = (ret, tp')" by fastforce
  have "call_ok (Read PACKET_RX_INITIAL_BYTES)" by (simp add: call_ok_def PACKET_RX_INITIAL_BYTES_def PACKET_RX_MAX_BYTES_def)
  then have "only_calls tp tp'" using receive_loop_only [of PACKET_RX_INITIAL_BYTES tp answers] l by simp
  then have ok: "transport_ok tp'" using assms only_calls_ok by blast
  have off: "transport_ok (calls [Disable_irq] tp')"
    by (rule only_calls_ok [OF only_calls_one ok]) (simp_all add: call_ok_def)
  have error: "transport_ok (receive_error e t)" if "transport_ok t" for e t
  proof -
    have "only_calls (t\<lparr> tp_io_error := Some e \<rparr>) (receive_error e t)"
      unfolding only_calls_def receive_error_def by (intro exI conjI, rule refl) (auto simp: call_ok_def list_all_iff)
    moreover have "transport_ok (t\<lparr> tp_io_error := Some e \<rparr>)" using that by (simp add: transport_ok_def active_channels_def)
    ultimately show ?thesis by (rule only_calls_ok)
  qed
  show ?thesis using True l ok off error by (auto simp: receive_irq_def split: option.splits)
qed (simp add: receive_irq_def assms)

text \<open>Opening and closing.\<close>

lemma active_update:
  assumes "c < length chs"
  shows "length (filter ch_active (chs[c := ch])) + of_bool (ch_active (chs ! c)) = length (filter ch_active chs) + of_bool (ch_active ch)"
  using assms
proof (induction chs arbitrary: c)
  case (Cons x chs)
  then show ?case by (cases c) auto
qed simp

lemma channels_all_update: "list_all P xs \<Longrightarrow> P x \<Longrightarrow> list_all P (xs[c := x])"
  by (cases "c < length xs") (auto simp: list_all_length nth_list_update)

lemma start_transport_result:
  assumes "start_transport st tp = (e, tp')"
  shows "\<exists>cs. tp_calls tp' = tp_calls tp @ cs \<and> list_all call_ok cs \<and> tp_channels tp' = tp_channels tp \<and> tp_users tp' = tp_users tp \<and>
    (if e = None then tp_running tp' \<and> tp_irq_requested tp' \<and> tp_func tp' \<and> count_list cs Acquire = count_list cs Release + 1
     else tp_irq_requested tp' = tp_irq_requested tp \<and> count_list cs Acquire = count_list cs Release \<and>
          (cs = [] \<and> tp_running tp' = tp_running tp \<and> tp_func tp' = tp_func tp \<or> \<not> tp_running tp' \<and> \<not> tp_func tp'))"
  using assms by (auto simp: start_transport_def Let_def calls_def call_ok_def split: option.splits if_splits)

lemma open_channel_ok:
  assumes "transport_ok tp" "client < CLIENT_COUNT" "ch_ops (tp_channels tp ! client)"
  shows "transport_ok (snd (open_channel client fresh st tp))"
proof (cases "ch_active (tp_channels tp ! client) \<or> (fresh \<and> tp_users tp \<noteq> 0) \<or> (tp_users tp \<noteq> 0 \<and> tp_io_error tp \<noteq> None)")
  case True
  then show ?thesis using assms(1) by (auto simp: open_channel_def)
next
  case False
  let ?ch = "tp_channels tp ! client"
  define chs where "chs = (tp_channels tp)[client := ?ch\<lparr> ch_active := True \<rparr>]"
  have n: "client < length (tp_channels tp)" using assms(1,2) by (simp add: transport_ok_def)
  have chs: "length chs = CLIENT_COUNT" "length (filter ch_active chs) = active_channels tp + 1" "list_all (\<lambda>ch. ch_active ch \<longrightarrow> ch_ops ch) chs"
    using assms active_update [OF n, of "?ch\<lparr> ch_active := True \<rparr>"] False
    by (simp_all add: chs_def transport_ok_def active_channels_def channels_all_update)
  have undo: "chs[client := (chs ! client)\<lparr> ch_active := False \<rparr>] = tp_channels tp"
    using n False by (simp add: chs_def list_update_same_conv)
  let ?tp = "tp\<lparr> tp_channels := chs \<rparr>"
  have set: "set_channel client (\<lambda>ch. ch\<lparr> ch_active := True \<rparr>) tp = ?tp" by (simp add: set_channel_def chs_def)
  show ?thesis
  proof (cases "tp_users tp = 0")
    case True
    obtain e tp' where s: "start_transport st ?tp = (e, tp')" by fastforce
    have eq: "snd (open_channel client fresh st tp) =
        (case e of Some _ \<Rightarrow> set_channel client (\<lambda>ch. ch\<lparr> ch_active := False \<rparr>) tp' | None \<Rightarrow> tp'\<lparr> tp_users := tp_users tp' + 1 \<rparr>)"
      using False True s by (simp add: open_channel_def set Let_def split: option.splits)
    show ?thesis
      using start_transport_result [OF s] assms(1) chs undo True unfolding eq
      by (cases e) (auto simp: transport_ok_def active_channels_def set_channel_def)
  next
    case busy: False
    then have "snd (open_channel client fresh st tp) = ?tp\<lparr> tp_users := tp_users tp + 1 \<rparr>"
      using False by (simp add: open_channel_def set Let_def)
    then show ?thesis using assms(1) chs busy by (simp add: transport_ok_def active_channels_def)
  qed
qed

lemma close_channel_ok:
  assumes "transport_ok tp" "client < CLIENT_COUNT"
  shows "transport_ok (close_channel client tp) \<and> \<not> ch_active (tp_channels (close_channel client tp) ! client)"
proof (cases "ch_active (tp_channels tp ! client)")
  case True
  let ?ch = "tp_channels tp ! client"
  define chs where "chs = (tp_channels tp)[client := ?ch\<lparr> ch_active := False \<rparr>]"
  have n: "client < length (tp_channels tp)" using assms by (simp add: transport_ok_def)
  have chs: "length chs = CLIENT_COUNT" "length (filter ch_active chs) + 1 = active_channels tp" "list_all (\<lambda>ch. ch_active ch \<longrightarrow> ch_ops ch) chs"
    "\<not> ch_active (chs ! client)"
    using assms(1) active_update [OF n, of "?ch\<lparr> ch_active := False \<rparr>"] True n
    by (simp_all add: chs_def transport_ok_def active_channels_def channels_all_update)
  have "close_channel client tp = (let tp = tp\<lparr> tp_channels := chs, tp_users := tp_users tp - 1 \<rparr> in if tp_users tp = 0 then stop_transport tp else tp)"
    using True by (simp add: close_channel_def set_channel_def chs_def)
  moreover have "tp_users tp = Suc (length (filter ch_active chs))" using assms(1) chs(2) by (simp add: transport_ok_def)
  moreover have "tp_running tp" "tp_irq_requested tp" "tp_func tp" "list_all call_ok (tp_calls tp)"
    "count_list (tp_calls tp) Acquire = count_list (tp_calls tp) Release + 1"
    using assms(1) chs(2) by (auto simp: transport_ok_def)
  ultimately show ?thesis
    using chs(1,3,4) by (simp add: transport_ok_def active_channels_def stop_transport_def calls_def call_ok_def Let_def)
qed (simp add: close_channel_def assms(1))

lemma unregister_channel_ok:
  assumes "transport_ok tp" "client < CLIENT_COUNT"
  shows "transport_ok (marlin2_channel_unregister client tp)"
proof -
  let ?tp = "close_channel client tp"
  have ok: "transport_ok ?tp" "\<not> ch_active (tp_channels ?tp ! client)" using close_channel_ok [OF assms] by auto
  have n: "client < length (tp_channels ?tp)" using ok(1) assms(2) by (simp add: transport_ok_def)
  show ?thesis
    using ok active_update [OF n, of "(tp_channels ?tp ! client)\<lparr> ch_ops := False \<rparr>"]
    by (simp add: marlin2_channel_unregister_def set_channel_def transport_ok_def active_channels_def channels_all_update)
qed

lemma register_channel_ok:
  assumes "transport_ok tp"
  shows "transport_ok (snd (marlin2_channel_register client has_receive has_error tp))"
proof (cases "client < CLIENT_COUNT")
  case True
  then have n: "client < length (tp_channels tp)" using assms by (simp add: transport_ok_def)
  show ?thesis
    using assms active_update [OF n, of "(tp_channels tp ! client)\<lparr> ch_ops := True, ch_error_op := has_error \<rparr>"]
    by (simp add: marlin2_channel_register_def set_channel_def transport_ok_def active_channels_def channels_all_update)
qed (simp add: marlin2_channel_register_def assms)

lemma write_ok:
  assumes "transport_ok tp"
  shows "transport_ok (snd (marlin2_channel_write client packet bus tp))"
proof -
  have "call_ok (Write packet)" if "length packet \<noteq> 0" "length packet \<le> TRANSPORT_TX_MAX_BYTES" "length packet mod 512 = 0"
    using that dvd_imp_le [OF mod_0_imp_dvd [OF that(3)]] by (simp add: call_ok_def)
  then have "only_calls tp (snd (marlin2_channel_write client packet bus tp))"
    using only_calls_one [of "Write packet" tp] only_calls_refl [of tp]
    by (auto simp: marlin2_channel_write_def split: option.splits)
  then show ?thesis by (rule only_calls_ok [OF _ assms])
qed

lemma send_ok: "transport_ok tp \<Longrightarrow> transport_ok (snd (marlin2_channel_send memory client subtype payload bus tp))"
  by (simp add: marlin2_channel_send_def write_ok split: option.splits)

lemma write_bluetooth_ok:
  assumes "transport_ok tp"
  shows "transport_ok (snd (marlin2_channel_write_bluetooth has_op client bs bus tp))"
proof -
  have "only_calls tp (snd (marlin2_channel_write_bluetooth has_op client bs bus tp))"
    using only_calls_one [of "Write_bluetooth bs" tp] only_calls_refl [of tp]
    by (auto simp: marlin2_channel_write_bluetooth_def call_ok_def split: option.splits)
  then show ?thesis by (rule only_calls_ok [OF _ assms])
qed

interpretation transport: transition_system "\<lambda>tp. tp = transport_created" transport_step transport_ok
proof unfold_locales
  show "transport_ok tp" if "tp = transport_created" for tp
    using that by (simp add: transport_created_def transport_ok_def active_channels_def list_all_iff)
  show "transport_ok tp'" if "transport_ok tp" "transport_step tp tp'" for tp tp'
    using that(2,1) by (induction rule: transport_step.induct)
      (simp_all add: register_channel_ok open_channel_ok close_channel_ok unregister_channel_ok receive_irq_ok write_ok send_ok write_bluetooth_ok)
qed

text \<open>A transport on which the FM client is open.\<close>

definition fm_open :: transport where
  "fm_open = snd (open_channel 1 False \<lparr> st_acquire = None, st_suits = True, st_irq = None, st_request = None \<rparr>
     (snd (marlin2_channel_register 1 True True transport_created)))"

lemma fm_open_value:
  "fm_open = \<lparr> tp_channels = [\<lparr> ch_ops = False, ch_error_op = False, ch_active = False \<rparr>, \<lparr> ch_ops = True, ch_error_op = True, ch_active = True \<rparr>,
     \<lparr> ch_ops = False, ch_error_op = False, ch_active = False \<rparr>], tp_users = 1, tp_running = True, tp_irq_requested = True, tp_func = True,
     tp_io_error = None, tp_calls = [Acquire] \<rparr>"
proof -
  have three: "replicate CLIENT_COUNT x = [x, x, x]" for x :: channel by (simp add: CLIENT_COUNT_def numeral_eq_Suc)
  show ?thesis
    unfolding fm_open_def transport_created_def three
    by (simp add: marlin2_channel_register_def CLIENT_COUNT_def set_channel_def open_channel_def start_transport_def calls_def Let_def)
qed

lemma fm_open_reached: "transport_step\<^sup>*\<^sup>* transport_created fm_open"
proof -
  let ?tp = "snd (marlin2_channel_register 1 True True transport_created)"
  have "transport_step transport_created ?tp" by (rule transport_step.intros)
  moreover have "transport_step ?tp fm_open"
    unfolding fm_open_def by (rule transport_step.intros)
      (simp_all add: marlin2_channel_register_def transport_created_def CLIENT_COUNT_def set_channel_def)
  ultimately show ?thesis by (meson converse_rtranclp_into_rtranclp rtranclp.rtrancl_refl)
qed

text \<open>
  C13. Whatever the clients open, close, send and receive, the radio is held exactly while a channel is open: the board was asked for it once
  more often than it was given back, and not at all otherwise; the users counted are the open channels; the interrupt is requested and
  the transport runs exactly then; only registered channels are open.
\<close>

theorem radio_held_while_used:
  assumes "transport_step\<^sup>*\<^sup>* transport_created tp"
  shows "tp_users tp = length (filter ch_active (tp_channels tp)) \<and>
    count_list (tp_calls tp) Acquire = count_list (tp_calls tp) Release + (if list_ex ch_active (tp_channels tp) then 1 else 0) \<and>
    (tp_running tp \<longleftrightarrow> list_ex ch_active (tp_channels tp)) \<and> (tp_irq_requested tp \<longleftrightarrow> tp_running tp) \<and>
    list_all (\<lambda>ch. ch_active ch \<longrightarrow> ch_ops ch) (tp_channels tp)"
proof -
  have "list_ex ch_active (tp_channels tp) \<longleftrightarrow> filter ch_active (tp_channels tp) \<noteq> []" by (auto simp: list_ex_iff filter_empty_conv)
  then show ?thesis using transport.reachable [OF refl assms] by (auto simp: transport_ok_def active_channels_def)
qed

theorem radio_held_while_used_witness:
  "tp_users fm_open = 1 \<and> count_list (tp_calls fm_open) Acquire = count_list (tp_calls fm_open) Release + 1 \<and> tp_running fm_open"
  using radio_held_while_used [OF fm_open_reached] by (simp add: fm_open_value)

text \<open>
  Every read asked of the bus fits the buffer of the driver and every block written has a size the radio takes: a multiple of 512 bytes
  of at most 10240 and 4096 bytes.
\<close>

theorem transfers_fit:
  assumes "transport_step\<^sup>*\<^sup>* transport_created tp"
  shows "(Read n \<in> set (tp_calls tp) \<longrightarrow> n mod 512 = 0 \<and> 0 < n \<and> n \<le> PACKET_RX_MAX_BYTES) \<and>
    (Write packet \<in> set (tp_calls tp) \<longrightarrow> length packet mod 512 = 0 \<and> 0 < length packet \<and> length packet \<le> TRANSPORT_TX_MAX_BYTES)"
proof -
  have all: "\<forall>c\<in>set (tp_calls tp). call_ok c" using transport.reachable [OF refl assms] by (simp add: transport_ok_def list_all_iff)
  then have "Read n \<in> set (tp_calls tp) \<Longrightarrow> call_ok (Read n)" "Write packet \<in> set (tp_calls tp) \<Longrightarrow> call_ok (Write packet)" by blast+
  then show ?thesis by (auto simp: call_ok_def simp del: length_greater_0_conv)
qed

theorem transfers_fit_witness:
  "Read 2048 \<in> set (tp_calls (receive_irq [(Inl EIO, True)] fm_open)) \<and> (2048 :: nat) mod 512 = 0 \<and> 2048 \<le> PACKET_RX_MAX_BYTES"
proof -
  have "transport_step fm_open (receive_irq [(Inl EIO, True)] fm_open)" by (rule transport_step.intros)
  then have reached: "transport_step\<^sup>*\<^sup>* transport_created (receive_irq [(Inl EIO, True)] fm_open)" using fm_open_reached by simp
  have "Read 2048 \<in> set (tp_calls (receive_irq [(Inl EIO, True)] fm_open))"
    by (simp add: receive_irq_def fm_open_value calls_def receive_error_def PACKET_RX_INITIAL_BYTES_def)
  then show ?thesis using transfers_fit [OF reached, of 2048] by simp
qed

subsection \<open>From the bus to the clients\<close>

definition for_clients :: "transport \<Rightarrow> (nat \<times> nat \<times> bytes) list \<Rightarrow> call list" where
  "for_clients tp ms = map (\<lambda>(c, s, d). Receive c s d) (filter (\<lambda>(c, _, _). c < CLIENT_COUNT \<and> ch_active (tp_channels tp ! c)) ms)"

definition dispatch :: "nat \<times> nat \<times> bytes \<Rightarrow> transport \<Rightarrow> transport" where
  "dispatch m tp = calls (for_clients tp [m]) tp"

lemma receive_message_dispatch: "receive_message packet = delivering packet dispatch"
  by (auto simp: fun_eq_iff receive_message_def delivering_def dispatch_def for_clients_def calls_def)

lemma fold_dispatch: "fold dispatch ms tp = calls (for_clients tp ms) tp"
proof (induction ms arbitrary: tp)
  case (Cons m ms)
  have "for_clients (dispatch m tp) ms = for_clients tp ms" by (simp add: dispatch_def for_clients_def)
  then show ?case using Cons [of "dispatch m tp"] by (auto simp: dispatch_def calls_calls for_clients_def)
qed (simp add: calls_def for_clients_def)

text \<open>
  C37. One read of the interrupt handler hands every record the radio put into it to its client, in order and once, if the client's channel is
  open, and drops the records of other types; it stops there when no bytes wait.
\<close>

theorem read_reaches_clients:
  assumes "\<forall>r\<in>set rs. sendable_record r" "packet = encode_read rs filler 0" "length packet = PACKET_RX_INITIAL_BYTES" "tp_running tp"
  shows "receive_irq ((Inr packet, running) # answers) tp = calls (Read PACKET_RX_INITIAL_BYTES # for_clients tp (delivered rs)) tp"
proof -
  let ?tp = "calls [Read PACKET_RX_INITIAL_BYTES] tp"
  have n: "length packet mod 512 = 0" "length packet \<le> PACKET_RX_MAX_BYTES" "0 < length packet"
    unfolding assms(3) by (simp_all add: PACKET_RX_INITIAL_BYTES_def PACKET_RX_MAX_BYTES_def)
  have "marlin2_transport_aggregate_decode packet PACKET_RX_INITIAL_BYTES (receive_message packet) ?tp =
      (Complete, calls (for_clients ?tp (delivered rs)) ?tp, Some 0)"
    using decode_encoded [OF assms(1,2) n, of dispatch ?tp] unfolding assms(3) receive_message_dispatch fold_dispatch .
  moreover have "for_clients ?tp ms = for_clients tp ms" for ms by (simp add: for_clients_def)
  ultimately show ?thesis using assms(4) by (simp add: receive_irq_def calls_calls)
qed

theorem read_reaches_clients_witness:
  "receive_irq [(Inr (encode_read [(2, 0, [1]), (1, 0, [7])] (replicate 2024 0) 0), True)] fm_open =
     calls [Read 2048, Receive 1 0 [7]] fm_open"
proof -
  let ?rs = "[(2, 0, [1]), (1, 0, [7])] :: wire_record list"
  have n: "length (encode_read ?rs (replicate 2024 0) 0) = PACKET_RX_INITIAL_BYTES"
    by (simp add: encode_read_def encode_record_def aligned_def PACKET_RX_INITIAL_BYTES_def)
  have "delivered ?rs = [(2, 0, [1]), (1, 0, [7])]" by (simp add: delivered_def dummy_def)
  then have "for_clients fm_open (delivered ?rs) = [Receive 1 0 [7]]"
    by (simp add: for_clients_def fm_open_value CLIENT_COUNT_def)
  moreover have "\<forall>r\<in>set ?rs. sendable_record r" "tp_running fm_open" by (simp_all add: sendable_record_def fm_open_value)
  ultimately show ?thesis
    using read_reaches_clients [of ?rs _ "replicate 2024 0" fm_open True "[]"] n by (simp add: PACKET_RX_INITIAL_BYTES_def)
qed

end
