(* ===== verification/Fm_Radio.thy ===== *)
theory Fm_Radio
  imports Radio_Aggregate
begin

section \<open>The FM receiver\<close>

text \<open>
  \<open>ums9117-fm-wire.c\<close> (events of the FM firmware cut from a stream of bytes) and \<open>marlin2-fm.c\<close> (the driver: its
  commands, the enabled, disabled and unknown states, tuning and seeking).  A field of the firmware state is one of the
  record; the error 0 is \<^const>\<open>None\<close>.  The first \<open>event_bytes\<close> bytes of the event buffer and the first
  \<open>reply_bytes\<close> of the reply buffer, the only ones that are ever read, are lists.
\<close>

unbundle bit_operations_syntax

subsection \<open>The wire\<close>

definition FM_COMMAND_BYTES :: nat where "FM_COMMAND_BYTES = 259"
definition FM_EVENT_BYTES :: nat where "FM_EVENT_BYTES = 258"

record fm_wire =
  fw_event :: bytes
  fw_reply :: bytes
  fw_expected_bytes :: nat
  fw_seek :: bool
  fw_acknowledged :: bool
  fw_complete :: bool

definition fm_wire_cleared :: fm_wire where
  "fm_wire_cleared = \<lparr> fw_event = [], fw_reply = [], fw_expected_bytes = 0, fw_seek = False, fw_acknowledged = False, fw_complete = False \<rparr>"

definition ums9117_fm_command_build :: "nat \<Rightarrow> u8 \<Rightarrow> bytes \<Rightarrow> bytes option" where
  "ums9117_fm_command_build capacity subcommand payload =
     (if length payload > 254 \<or> capacity < 5 + length payload then None
      else Some ([0x01, 0x8c, 0xfc, of_nat (length payload + 1), subcommand] @ payload))"

definition ums9117_fm_wire_begin :: "fm_wire \<Rightarrow> nat \<Rightarrow> nat \<Rightarrow> bool \<Rightarrow> radio_error + fm_wire" where
  "ums9117_fm_wire_begin wire capacity expected_bytes seek =
     (if expected_bytes < 7 \<or> expected_bytes > capacity \<or> expected_bytes > FM_EVENT_BYTES \<or> (seek \<and> expected_bytes \<noteq> 9) then Inl EINVAL
      else Inr (wire\<lparr> fw_reply := [], fw_expected_bytes := expected_bytes, fw_seek := seek, fw_acknowledged := False, fw_complete := False \<rparr>))"

definition store_reply :: "fm_wire \<Rightarrow> fm_wire" where
  "store_reply wire = wire\<lparr> fw_reply := fw_event wire, fw_complete := True \<rparr>"

definition complete_event :: "fm_wire \<Rightarrow> radio_error option \<times> fm_wire" where
  "complete_event wire =
     (let event = fw_event wire; n = length event
      in if event ! 1 = 0x0e \<and> n \<ge> 7 \<and> event ! 4 = 0x8c \<and> event ! 5 = 0xfc
         then if fw_seek wire \<and> event ! 6 = 0
              then if n \<noteq> 7 \<or> fw_acknowledged wire then (Some EPROTO, wire) else (None, wire\<lparr> fw_acknowledged := True \<rparr>)
              else if n \<noteq> fw_expected_bytes wire \<and> \<not> (n = 7 \<and> event ! 6 \<noteq> 0) then (Some EPROTO, wire)
              else (None, store_reply wire)
         else if fw_seek wire \<and> event ! 1 = 0xff \<and> n \<ge> 4 \<and> event ! 3 = 0x30
         then if \<not> fw_acknowledged wire \<or> n \<noteq> 9 then (Some EPROTO, wire) else (None, store_reply wire)
         else (None, wire))"

definition event_whole :: "bytes \<Rightarrow> bool" where
  "event_whole event \<longleftrightarrow> \<not> (length event < 3 \<or> length event < 3 + unat (event ! 2))"

text \<open>One turn of the loop of \<open>ums9117_fm_wire_receive\<close>.\<close>

definition receive_byte :: "bool \<Rightarrow> u8 \<Rightarrow> fm_wire \<Rightarrow> radio_error option \<times> fm_wire" where
  "receive_byte awaiting_reply x wire =
     (if fw_event wire = [] \<and> x \<noteq> 0x04 then (Some EPROTO, wire)
      else
        let wire = wire\<lparr> fw_event := fw_event wire @ [x] \<rparr>
        in if \<not> event_whole (fw_event wire) then (None, wire)
           else case (if awaiting_reply \<and> \<not> fw_complete wire then complete_event wire else (None, wire)) of
                  (Some e, wire) \<Rightarrow> (Some e, wire)
                | (None, wire) \<Rightarrow> (None, wire\<lparr> fw_event := [] \<rparr>))"

fun ums9117_fm_wire_receive :: "bool \<Rightarrow> bytes \<Rightarrow> fm_wire \<Rightarrow> radio_error option \<times> fm_wire" where
  "ums9117_fm_wire_receive awaiting_reply [] wire = (None, wire)"
| "ums9117_fm_wire_receive awaiting_reply (x # input) wire =
     (case receive_byte awaiting_reply x wire of
        (Some e, wire) \<Rightarrow> (Some e, wire)
      | (None, wire) \<Rightarrow> ums9117_fm_wire_receive awaiting_reply input wire)"

subsection \<open>The driver\<close>

definition FM_MIN_10KHZ :: nat where "FM_MIN_10KHZ = 8750"
definition FM_MAX_10KHZ :: nat where "FM_MAX_10KHZ = 10800"
definition FM_FREQ_SCALE :: nat where "FM_FREQ_SCALE = 160"

datatype fm_state = FM_OFF | FM_ON | FM_UNKNOWN

text \<open>\<open>fm_done\<close> counts what a completion has signalled; \<open>fm_sent\<close> is what the channel was given to send, in order.\<close>

record marlin2_fm =
  fm_wire :: fm_wire
  fm_done :: nat
  fm_error :: "radio_error option"
  fm_pending :: bool
  fm_state :: fm_state
  fm_frequency_10khz :: u16
  fm_opened :: bool
  fm_held :: bool
  fm_sent :: "bytes list"

definition REPLY_BYTES :: nat where "REPLY_BYTES = 11"

definition marlin2_fm_register :: marlin2_fm where
  "marlin2_fm_register = \<lparr> fm_wire = fm_wire_cleared, fm_done = 0, fm_error = None, fm_pending = False, fm_state = FM_OFF,
     fm_frequency_10khz = 0, fm_opened = False, fm_held = False, fm_sent = [] \<rparr>"

definition unknown_state :: "marlin2_fm \<Rightarrow> marlin2_fm" where
  "unknown_state radio = radio\<lparr> fm_state := FM_UNKNOWN \<rparr>"

definition transport_error :: "radio_error \<Rightarrow> marlin2_fm \<Rightarrow> marlin2_fm" where
  "transport_error e radio = radio\<lparr> fm_error := Some e, fm_pending := False, fm_wire := (fm_wire radio)\<lparr> fw_event := [] \<rparr>,
     fm_done := fm_done radio + 1 \<rparr>"

definition fm_receive :: "u8 \<Rightarrow> bytes \<Rightarrow> marlin2_fm \<Rightarrow> marlin2_fm" where
  "fm_receive subtype payload radio =
     (if subtype \<noteq> 0 then radio
      else
        let pending = fm_pending radio;
            (ret, wire) = (case fm_error radio of
                             Some e \<Rightarrow> (Some e, fm_wire radio)
                           | None \<Rightarrow> ums9117_fm_wire_receive pending payload (fm_wire radio));
            radio = (case ret of
                       Some e \<Rightarrow> radio\<lparr> fm_error := Some e, fm_pending := False, fm_wire := wire\<lparr> fw_event := [] \<rparr> \<rparr>
                     | None \<Rightarrow> if fw_complete wire then radio\<lparr> fm_wire := wire, fm_pending := False \<rparr> else radio\<lparr> fm_wire := wire \<rparr>)
        in if ret \<noteq> None \<or> (pending \<and> \<not> fm_pending radio) then radio\<lparr> fm_done := fm_done radio + 1 \<rparr> else radio)"

text \<open>
  What the channel does while a command waits: the answer of \<open>marlin2_channel_send\<close>, and the calls of the two channel
  callbacks up to the moment the driver looks at the outcome.
\<close>

datatype air = Incoming u8 bytes | Lost radio_error

primrec on_air :: "air \<Rightarrow> marlin2_fm \<Rightarrow> marlin2_fm" where
  "on_air (Incoming subtype payload) = fm_receive subtype payload"
| "on_air (Lost e) = transport_error e"

record turn =
  tn_send :: "radio_error option"
  tn_air :: "air list"

text \<open>The parts of \<open>command\<close>: what it does before it sends, and from sending on.\<close>

definition command_start :: "nat \<Rightarrow> bool \<Rightarrow> marlin2_fm \<Rightarrow> radio_error + fm_wire" where
  "command_start reply_bytes seek radio =
     (case fm_error radio of
        Some e \<Rightarrow> Inl e
      | None \<Rightarrow> if fm_pending radio \<or> fw_event (fm_wire radio) \<noteq> [] then Inl EBUSY
                else ums9117_fm_wire_begin (fm_wire radio) REPLY_BYTES reply_bytes seek)"

definition command_answer :: "nat \<Rightarrow> marlin2_fm \<Rightarrow> (radio_error + bytes) \<times> marlin2_fm" where
  "command_answer reply_bytes radio =
     (case fm_error radio of
        Some e \<Rightarrow> (Inl e, unknown_state radio)
      | None \<Rightarrow>
          let reply = fw_reply (fm_wire radio)
          in if reply ! 1 = 0x0e \<and> reply ! 6 \<noteq> 0 then (Inl EREMOTEIO, unknown_state radio)
             else if length reply \<noteq> reply_bytes then (Inl EPROTO, unknown_state radio)
             else (Inr reply, radio))"

definition command_wait :: "nat \<Rightarrow> radio_error option \<Rightarrow> marlin2_fm \<Rightarrow> (radio_error + bytes) \<times> marlin2_fm" where
  "command_wait reply_bytes sent radio =
     (case sent of
        Some e \<Rightarrow> (Inl e, unknown_state (transport_error e radio))
      | None \<Rightarrow>
          if fm_done radio = 0 then (Inl ETIMEDOUT, unknown_state (transport_error ETIMEDOUT radio))
          else command_answer reply_bytes (radio\<lparr> fm_done := fm_done radio - 1 \<rparr>))"

definition fm_command ::
    "u8 \<Rightarrow> bytes \<Rightarrow> nat \<Rightarrow> bool \<Rightarrow> turn \<Rightarrow> marlin2_fm \<Rightarrow> (radio_error + bytes) \<times> marlin2_fm" where
  "fm_command subcommand payload reply_bytes seek turn radio =
     (case ums9117_fm_command_build FM_COMMAND_BYTES subcommand payload of
        None \<Rightarrow> (Inl EINVAL, radio)
      | Some request \<Rightarrow>
          (case command_start reply_bytes seek radio of
             Inl e \<Rightarrow> (Inl e, unknown_state (radio\<lparr> fm_done := 0 \<rparr>))
           | Inr wire \<Rightarrow>
               command_wait reply_bytes (tn_send turn)
                 (fold on_air (tn_air turn)
                    (radio\<lparr> fm_done := 0, fm_wire := wire, fm_pending := True, fm_sent := fm_sent radio @ [request] \<rparr>))))"

definition set_mute :: "bool \<Rightarrow> turn \<Rightarrow> marlin2_fm \<Rightarrow> radio_error option \<times> marlin2_fm" where
  "set_mute muted turn radio =
     (case fm_command 0x02 [of_bool muted] 8 False turn radio of
        (Inl e, radio) \<Rightarrow> (Some e, radio)
      | (Inr reply, radio) \<Rightarrow> if reply ! 7 \<noteq> of_bool muted then (Some EPROTO, unknown_state radio) else (None, radio))"

text \<open>
  \<open>channel\<close> is the answer of \<open>marlin2_channel_open\<close> or \<open>marlin2_channel_open_fresh\<close>, \<open>control\<close> that of \<open>v4l2_ctrl_s_ctrl\<close>, which
  sets the mute control to 1; the control operation it may call changes nothing, because the receiver is off there.
\<close>

definition enable_with :: "radio_error option \<Rightarrow> turn \<Rightarrow> turn \<Rightarrow> marlin2_fm \<Rightarrow> radio_error option \<times> marlin2_fm" where
  "enable_with control t1 t2 radio =
     (let radio = radio\<lparr> fm_held := True \<rparr>
      in case control of
           Some e \<Rightarrow> (Some e, radio)
         | None \<Rightarrow>
             (case fm_command 0x00 [0x00, 0x01] 7 False t1 radio of
                (Inl e, radio) \<Rightarrow> (Some e, radio)
              | (Inr _, radio) \<Rightarrow> set_mute True t2 (radio\<lparr> fm_state := FM_ON \<rparr>)))"

definition fm_enable ::
    "radio_error option \<Rightarrow> radio_error option \<Rightarrow> turn \<Rightarrow> turn \<Rightarrow> marlin2_fm \<Rightarrow> radio_error option \<times> marlin2_fm" where
  "fm_enable channel control t1 t2 radio =
     (if fm_state radio = FM_UNKNOWN \<and> fm_held radio then (Some EIO, radio)
      else if fm_state radio = FM_ON then (None, radio)
      else case channel of
             Some e \<Rightarrow> (Some e, radio)
           | None \<Rightarrow>
               enable_with control t1 t2
                 (if fm_state radio = FM_UNKNOWN
                  then radio\<lparr> fm_wire := fm_wire_cleared, fm_error := None, fm_pending := False, fm_done := 0, fm_state := FM_OFF,
                              fm_frequency_10khz := 0 \<rparr>
                  else radio))"

definition fm_disable :: "turn \<Rightarrow> turn \<Rightarrow> marlin2_fm \<Rightarrow> radio_error option \<times> marlin2_fm" where
  "fm_disable t1 t2 radio =
     (case fm_state radio of
        FM_OFF \<Rightarrow> (None, radio)
      | FM_UNKNOWN \<Rightarrow> (Some EIO, radio)
      | FM_ON \<Rightarrow>
          (case set_mute True t1 radio of
             (Some e, radio) \<Rightarrow> (Some e, radio)
           | (None, radio) \<Rightarrow>
               (case fm_command 0x12 [0] 7 False t2 radio of
                  (Inl e, radio) \<Rightarrow> (Some e, radio)
                | (Inr _, radio) \<Rightarrow> (None, radio\<lparr> fm_state := FM_OFF, fm_frequency_10khz := 0 \<rparr>))))"

definition tune :: "u16 \<Rightarrow> turn \<Rightarrow> marlin2_fm \<Rightarrow> radio_error option \<times> marlin2_fm" where
  "tune frequency turn radio =
     (case fm_command 0x01 (put_le16 frequency) 11 False turn radio of
        (Inl e, radio) \<Rightarrow> (Some e, radio)
      | (Inr reply, radio) \<Rightarrow>
          if get_le16 reply 9 \<noteq> frequency then (Some EPROTO, unknown_state radio)
          else (None, radio\<lparr> fm_frequency_10khz := frequency \<rparr>))"

subsection \<open>The requests of the application\<close>

definition get_frequency :: "u32 \<Rightarrow> marlin2_fm \<Rightarrow> radio_error + nat" where
  "get_frequency tuner radio =
     (if tuner \<noteq> 0 then Inl EINVAL
      else if fm_state radio = FM_UNKNOWN then Inl EIO
      else Inr (unat (fm_frequency_10khz radio) * FM_FREQ_SCALE))"

definition set_frequency ::
    "u32 \<Rightarrow> bool \<Rightarrow> u32 \<Rightarrow> radio_error option \<Rightarrow> radio_error option \<Rightarrow> turn \<Rightarrow> turn \<Rightarrow> turn \<Rightarrow> marlin2_fm \<Rightarrow>
     radio_error option \<times> marlin2_fm" where
  "set_frequency tuner type_radio frequency channel control t1 t2 t3 radio =
     (if tuner \<noteq> 0 \<or> \<not> type_radio then (Some EINVAL, radio)
      else
        let v = max (FM_MIN_10KHZ * FM_FREQ_SCALE) (min (unat frequency) (FM_MAX_10KHZ * FM_FREQ_SCALE));
            v = (v + FM_FREQ_SCALE div 2) div FM_FREQ_SCALE
        in case fm_enable channel control t1 t2 radio of
             (Some e, radio) \<Rightarrow> (Some e, radio)
           | (None, radio) \<Rightarrow> tune (of_nat v) t3 radio)"

record seek_request =
  sk_tuner :: u32
  sk_type_radio :: bool
  sk_wrap_around :: bool
  sk_spacing :: u32
  sk_rangelow :: u32
  sk_rangehigh :: u32
  sk_upward :: bool
  sk_nonblock :: bool

definition seek_frequency :: "seek_request \<Rightarrow> turn \<Rightarrow> turn \<Rightarrow> marlin2_fm \<Rightarrow> radio_error option \<times> marlin2_fm" where
  "seek_frequency seek t1 t2 radio =
     (let previous = fm_frequency_10khz radio
      in if sk_tuner seek \<noteq> 0 \<or> \<not> sk_type_radio seek \<or> sk_wrap_around seek \<or> (sk_spacing seek \<noteq> 0 \<and> sk_spacing seek \<noteq> 100000) \<or>
            (sk_rangelow seek \<noteq> 0 \<and> sk_rangelow seek \<noteq> of_nat (FM_MIN_10KHZ * FM_FREQ_SCALE)) \<or>
            (sk_rangehigh seek \<noteq> 0 \<and> sk_rangehigh seek \<noteq> of_nat (FM_MAX_10KHZ * FM_FREQ_SCALE)) then (Some EINVAL, radio)
         else if sk_nonblock seek then (Some EAGAIN, radio)
         else if fm_state radio = FM_UNKNOWN then (Some EIO, radio)
         else if fm_state radio \<noteq> FM_ON \<or> previous = 0 then (Some EPIPE, radio)
         else
           case fm_command 0x04 (put_le16 previous @ [of_bool (\<not> sk_upward seek)]) 9 True t1 radio of
             (Inl e, radio) \<Rightarrow> (Some e, radio)
           | (Inr reply, radio) \<Rightarrow>
               if reply ! 4 \<noteq> 0 then (Some EREMOTEIO, unknown_state radio)
               else
                 let found = get_le16 reply 7
                 in if unat found < FM_MIN_10KHZ \<or> unat found > FM_MAX_10KHZ then (Some EPROTO, unknown_state radio)
                    else if (sk_upward seek \<and> found < previous) \<or> (\<not> sk_upward seek \<and> found > previous)
                    then case tune previous t2 radio of
                           (Some e, radio) \<Rightarrow> (Some e, radio)
                         | (None, radio) \<Rightarrow> (Some ENODATA, radio)
                    else (None, radio\<lparr> fm_frequency_10khz := found \<rparr>))"

definition set_control :: "bool \<Rightarrow> turn \<Rightarrow> marlin2_fm \<Rightarrow> radio_error option \<times> marlin2_fm" where
  "set_control val turn radio =
     (case fm_state radio of
        FM_UNKNOWN \<Rightarrow> (Some EIO, radio)
      | FM_OFF \<Rightarrow> (if val then None else Some EPIPE, radio)
      | FM_ON \<Rightarrow> set_mute val turn radio)"

definition radio_open :: "bool \<Rightarrow> radio_error option \<Rightarrow> marlin2_fm \<Rightarrow> radio_error option \<times> marlin2_fm" where
  "radio_open registered handle radio =
     (if \<not> registered then (Some ENODEV, radio)
      else if fm_opened radio then (Some EBUSY, radio)
      else case handle of Some e \<Rightarrow> (Some e, radio) | None \<Rightarrow> (None, radio\<lparr> fm_opened := True \<rparr>))"

definition radio_close :: "bool \<Rightarrow> turn \<Rightarrow> turn \<Rightarrow> marlin2_fm \<Rightarrow> marlin2_fm" where
  "radio_close registered t1 t2 radio =
     (if registered then snd (fm_disable t1 t2 radio) else radio)\<lparr> fm_held := False, fm_opened := False \<rparr>"

definition marlin2_fm_unregister :: "turn \<Rightarrow> turn \<Rightarrow> marlin2_fm \<Rightarrow> marlin2_fm" where
  "marlin2_fm_unregister t1 t2 radio = (snd (fm_disable t1 t2 radio))\<lparr> fm_held := False \<rparr>"

end
