(* ===== verification/Fm_Properties.thy ===== *)
theory Fm_Properties
  imports Fm_Radio
begin

section \<open>What the FM receiver guarantees\<close>

text \<open>
  The events of the firmware however its bytes are cut, the bounds of the two buffers, what a command that succeeded was
  answered, the band the receiver stays in, and that nothing is sent once its state is unknown.
\<close>

unbundle bit_operations_syntax

subsection \<open>The wire\<close>

definition wire_ok :: "fm_wire \<Rightarrow> bool" where
  "wire_ok wire \<longleftrightarrow> \<not> event_whole (fw_event wire)"

lemma part_short: "\<not> event_whole event \<Longrightarrow> length event < FM_EVENT_BYTES"
proof -
  have "unat (event ! 2) < 256" using unsigned_less [of "event ! 2"] by simp
  then show "\<not> event_whole event \<Longrightarrow> length event < FM_EVENT_BYTES"
    unfolding event_whole_def FM_EVENT_BYTES_def by linarith
qed

definition good_reply :: "nat \<Rightarrow> bool \<Rightarrow> bytes \<Rightarrow> bool" where
  "good_reply expected seek r \<longleftrightarrow>
     (r ! 1 = 0x0e \<and> r ! 4 = 0x8c \<and> r ! 5 = 0xfc \<and> (seek \<longrightarrow> r ! 6 \<noteq> 0) \<and> 7 \<le> length r \<and> (length r = expected \<or> length r = 7 \<and> r ! 6 \<noteq> 0)) \<or>
     (seek \<and> r ! 1 = 0xff \<and> r ! 3 = 0x30 \<and> length r = 9)"

lemma complete_event_result:
  assumes "complete_event w = (ret, w')"
  shows "fw_event w' = fw_event w" "fw_expected_bytes w' = fw_expected_bytes w" "fw_seek w' = fw_seek w"
    "fw_complete w' \<and> \<not> fw_complete w \<Longrightarrow> good_reply (fw_expected_bytes w) (fw_seek w) (fw_reply w')"
    "\<not> fw_complete w' \<Longrightarrow> fw_reply w' = fw_reply w" "fw_complete w \<Longrightarrow> fw_complete w'"
  using assms by (auto simp: complete_event_def Let_def store_reply_def good_reply_def split: if_splits)

lemma receive_byte_result:
  assumes "receive_byte aw x w = (ret, w')" "wire_ok w"
  shows "fw_expected_bytes w' = fw_expected_bytes w" "fw_seek w' = fw_seek w" "ret = None \<Longrightarrow> wire_ok w'"
    "length (fw_event w') \<le> FM_EVENT_BYTES"
    "\<not> aw \<or> fw_complete w \<Longrightarrow> fw_reply w' = fw_reply w \<and> fw_complete w' = fw_complete w"
    "\<not> fw_complete w \<Longrightarrow> fw_complete w' \<Longrightarrow> good_reply (fw_expected_bytes w) (fw_seek w) (fw_reply w')"
    "\<not> fw_complete w' \<Longrightarrow> fw_reply w' = fw_reply w"
proof -
  let ?v = "w\<lparr> fw_event := fw_event w @ [x] \<rparr>"
  obtain r v where c: "complete_event ?v = (r, v)" by fastforce
  note result = complete_event_result [OF c]
  have short: "length (fw_event w) < FM_EVENT_BYTES" using assms(2) part_short by (simp add: wire_ok_def)
  show "fw_expected_bytes w' = fw_expected_bytes w" "fw_seek w' = fw_seek w" "ret = None \<Longrightarrow> wire_ok w'"
    "length (fw_event w') \<le> FM_EVENT_BYTES"
    "\<not> aw \<or> fw_complete w \<Longrightarrow> fw_reply w' = fw_reply w \<and> fw_complete w' = fw_complete w"
    "\<not> fw_complete w \<Longrightarrow> fw_complete w' \<Longrightarrow> good_reply (fw_expected_bytes w) (fw_seek w) (fw_reply w')"
    "\<not> fw_complete w' \<Longrightarrow> fw_reply w' = fw_reply w"
    using assms result short
    by (auto simp: receive_byte_def Let_def c wire_ok_def event_whole_def split: if_splits option.splits)
qed

lemma receive_result:
  assumes "ums9117_fm_wire_receive aw xs w = (ret, w')" "wire_ok w"
  shows "fw_expected_bytes w' = fw_expected_bytes w \<and> fw_seek w' = fw_seek w \<and> (ret = None \<longrightarrow> wire_ok w') \<and>
    length (fw_event w') \<le> FM_EVENT_BYTES \<and>
    (\<not> aw \<or> fw_complete w \<longrightarrow> fw_reply w' = fw_reply w \<and> fw_complete w' = fw_complete w) \<and>
    (\<not> fw_complete w \<and> fw_complete w' \<longrightarrow> good_reply (fw_expected_bytes w) (fw_seek w) (fw_reply w')) \<and>
    (\<not> fw_complete w' \<longrightarrow> fw_reply w' = fw_reply w)"
  using assms
proof (induction xs arbitrary: w)
  case Nil
  then show ?case using part_short [of "fw_event w"] by (auto simp: wire_ok_def)
next
  case (Cons x xs)
  obtain r v where b: "receive_byte aw x w = (r, v)" by fastforce
  note result = receive_byte_result [OF b Cons.prems(2)]
  show ?case
  proof (cases r)
    case None
    then have "ums9117_fm_wire_receive aw xs v = (ret, w')" using Cons.prems(1) b by simp
    then show ?thesis using Cons.IH [of v] result None by (cases "fw_complete v") auto
  next
    case (Some e)
    then show ?thesis using Cons.prems(1) b result by auto
  qed
qed

subsection \<open>Events however they are cut\<close>

lemma receive_append:
  "ums9117_fm_wire_receive aw (xs @ ys) w =
     (case ums9117_fm_wire_receive aw xs w of (Some e, v) \<Rightarrow> (Some e, v) | (None, v) \<Rightarrow> ums9117_fm_wire_receive aw ys v)"
  by (induction xs arbitrary: w) (auto split: prod.splits option.splits)

definition fm_event :: "u8 \<times> bytes \<Rightarrow> bytes" where
  "fm_event e = [4, fst e, of_nat (length (snd e))] @ snd e"

fun receive_chunks :: "bool \<Rightarrow> bytes list \<Rightarrow> fm_wire \<Rightarrow> radio_error option \<times> fm_wire" where
  "receive_chunks aw [] w = (None, w)"
| "receive_chunks aw (c # cs) w =
     (case ums9117_fm_wire_receive aw c w of (Some e, w) \<Rightarrow> (Some e, w) | (None, w) \<Rightarrow> receive_chunks aw cs w)"

fun receive_events :: "bool \<Rightarrow> (u8 \<times> bytes) list \<Rightarrow> fm_wire \<Rightarrow> radio_error option \<times> fm_wire" where
  "receive_events aw [] w = (None, w)"
| "receive_events aw (e # es) w =
     (let w = w\<lparr> fw_event := fm_event e \<rparr>
      in case (if aw \<and> \<not> fw_complete w then complete_event w else (None, w)) of
           (Some err, w) \<Rightarrow> (Some err, w)
         | (None, w) \<Rightarrow> receive_events aw es (w\<lparr> fw_event := [] \<rparr>))"

lemma receive_chunks_concat: "receive_chunks aw cs w = ums9117_fm_wire_receive aw (concat cs) w"
  by (induction cs arbitrary: w) (auto simp: receive_append split: prod.splits option.splits)

lemma receive_part:
  assumes "\<And>k. 0 < k \<Longrightarrow> k \<le> length xs \<Longrightarrow> \<not> event_whole (pre @ take k xs)" "fw_event w = pre" "pre = [] \<longrightarrow> xs = [] \<or> hd xs = 4"
  shows "ums9117_fm_wire_receive aw xs w = (None, w\<lparr> fw_event := pre @ xs \<rparr>)"
  using assms
proof (induction xs arbitrary: pre w)
  case (Cons x xs)
  have part: "\<not> event_whole (pre @ [x])" using Cons.prems(1) [of 1] by simp
  have "\<not> event_whole ((pre @ [x]) @ take k xs)" if "0 < k" "k \<le> length xs" for k
    using Cons.prems(1) [of "Suc k"] that by simp
  then show ?case
    using Cons.IH [of "pre @ [x]" "w\<lparr> fw_event := pre @ [x] \<rparr>"] Cons.prems(2,3) part by (auto simp: receive_byte_def Let_def)
qed simp

lemma fm_event_parts:
  assumes "length (snd e) < 256"
  shows "event_whole (fm_event e)" "k < length (fm_event e) \<Longrightarrow> \<not> event_whole (take k (fm_event e))"
proof -
  have n: "unat (of_nat (length (snd e)) :: u8) = length (snd e)" using assms by simp
  show "event_whole (fm_event e)" using n by (simp add: event_whole_def fm_event_def)
  show "\<not> event_whole (take k (fm_event e))" if "k < length (fm_event e)"
    using that n by (cases "k < 3") (auto simp: event_whole_def fm_event_def nth_take)
qed

lemma receive_event:
  assumes "length (snd e) < 256" "fw_event w = []"
  shows "ums9117_fm_wire_receive aw (fm_event e @ rest) w =
    (let v = w\<lparr> fw_event := fm_event e \<rparr>
     in case (if aw \<and> \<not> fw_complete v then complete_event v else (None, v)) of
          (Some err, v) \<Rightarrow> (Some err, v)
        | (None, v) \<Rightarrow> ums9117_fm_wire_receive aw rest (v\<lparr> fw_event := [] \<rparr>))"
proof -
  define front where "front = butlast (fm_event e)"
  have e: "fm_event e = front @ [last (fm_event e)]" "front \<noteq> []" "hd front = 4"
    by (simp_all add: front_def fm_event_def)
  have take: "take k front = take k (fm_event e)" if "k \<le> length front" for k
    using that by (simp add: front_def butlast_conv_take min_absorb1)
  have "length front < length (fm_event e)" by (subst e(1)) simp
  then have "\<not> event_whole ([] @ take k front)" if "0 < k" "k \<le> length front" for k
    using that take fm_event_parts(2) [OF assms(1), of k] by simp
  then have "ums9117_fm_wire_receive aw front w = (None, w\<lparr> fw_event := front \<rparr>)"
    using receive_part [of front "[]" w aw] assms(2) e(3) by simp
  moreover have "receive_byte aw (last (fm_event e)) (w\<lparr> fw_event := front \<rparr>) =
      (case (if aw \<and> \<not> fw_complete w then complete_event (w\<lparr> fw_event := fm_event e \<rparr>) else (None, w\<lparr> fw_event := fm_event e \<rparr>)) of
         (Some err, v) \<Rightarrow> (Some err, v) | (None, v) \<Rightarrow> (None, v\<lparr> fw_event := [] \<rparr>))"
    using fm_event_parts(1) [OF assms(1)] e(1,2) by (simp add: receive_byte_def Let_def)
  ultimately show ?thesis
    by (subst e(1)) (simp add: receive_append Let_def split: prod.splits option.splits)
qed

text \<open>
  C38. The firmware's bytes may arrive cut anywhere: whatever reads a sequence of events is spread over, and however many
  events share a read, the outcome is that of handling the events whole, one after the other.
\<close>

theorem events_however_cut:
  assumes "list_all (\<lambda>e. length (snd e) < 256) es" "concat chunks = concat (map fm_event es)" "fw_event w = []"
  shows "receive_chunks aw chunks w = receive_events aw es w"
proof -
  have "ums9117_fm_wire_receive aw (concat (map fm_event es)) w = receive_events aw es w"
    using assms(1,3)
  proof (induction es arbitrary: w)
    case (Cons e es)
    then show ?case
      using receive_event [of e w aw "concat (map fm_event es)"] by (auto simp: Let_def split: prod.splits option.splits)
  qed simp
  then show ?thesis by (simp add: receive_chunks_concat assms(2))
qed

theorem events_however_cut_witness:
  "receive_chunks True [[4], [0x0e, 4, 1, 0x8c], [], [0xfc, 0, 4, 9], [0]] (fm_wire_cleared\<lparr> fw_expected_bytes := 7 \<rparr>) =
   receive_events True [(0x0e, [1, 0x8c, 0xfc, 0]), (9, [])] (fm_wire_cleared\<lparr> fw_expected_bytes := 7 \<rparr>)"
  by (rule events_however_cut) (simp_all add: fm_event_def fm_wire_cleared_def)

subsection \<open>The buffers\<close>

text \<open>
  The wires of a client that keeps the contract: it asks for an answer only after it began, and it drops the started event
  after an error.
\<close>

inductive fm_wire_reached :: "nat \<Rightarrow> fm_wire \<Rightarrow> bool \<Rightarrow> bool" for capacity where
  reached_clear: "fm_wire_reached capacity fm_wire_cleared False"
| reached_begin: "fm_wire_reached capacity w b \<Longrightarrow> ums9117_fm_wire_begin w capacity n seek = Inr w' \<Longrightarrow> fm_wire_reached capacity w' True"
| reached_receive: "fm_wire_reached capacity w b \<Longrightarrow> (aw \<Longrightarrow> b) \<Longrightarrow> ums9117_fm_wire_receive aw xs w = (None, w') \<Longrightarrow> fm_wire_reached capacity w' b"
| reached_drop: "fm_wire_reached capacity w b \<Longrightarrow> fm_wire_reached capacity (w\<lparr> fw_event := [] \<rparr>) b"
| reached_error: "fm_wire_reached capacity w b \<Longrightarrow> (aw \<Longrightarrow> b) \<Longrightarrow> ums9117_fm_wire_receive aw xs w = (Some e, w') \<Longrightarrow>
    fm_wire_reached capacity (w'\<lparr> fw_event := [] \<rparr>) b"

lemma good_reply_length: "good_reply n seek r \<Longrightarrow> 7 \<le> n \<Longrightarrow> (seek \<Longrightarrow> n = 9) \<Longrightarrow> 7 \<le> length r \<and> length r \<le> n"
  by (auto simp: good_reply_def)

lemma receive_bounds:
  assumes "ums9117_fm_wire_receive aw xs w = (ret, w')" "wire_ok w" "length (fw_reply w) \<le> capacity"
    and "aw \<Longrightarrow> 7 \<le> fw_expected_bytes w \<and> fw_expected_bytes w \<le> capacity \<and> (fw_seek w \<longrightarrow> fw_expected_bytes w = 9)"
  shows "length (fw_reply w') \<le> capacity"
proof (cases "aw \<and> \<not> fw_complete w \<and> fw_complete w'")
  case True
  then have "good_reply (fw_expected_bytes w) (fw_seek w) (fw_reply w')" using receive_result [OF assms(1,2)] by blast
  then have "length (fw_reply w') \<le> fw_expected_bytes w" using assms(4) True good_reply_length by blast
  then show ?thesis using assms(4) True by linarith
next
  case False
  then have "fw_reply w' = fw_reply w" using receive_result [OF assms(1,2)] by blast
  then show ?thesis using assms(3) by simp
qed

lemma wire_reached_ok:
  assumes "fm_wire_reached capacity w b"
  shows "wire_ok w \<and> length (fw_reply w) \<le> capacity \<and>
    (b \<longrightarrow> 7 \<le> fw_expected_bytes w \<and> fw_expected_bytes w \<le> capacity \<and> (fw_seek w \<longrightarrow> fw_expected_bytes w = 9))"
  using assms
proof (induction rule: fm_wire_reached.induct)
  case (reached_receive w b aw xs w')
  then show ?case using receive_result [OF reached_receive(3)] receive_bounds [OF reached_receive(3)] by auto
next
  case (reached_error w b aw xs e w')
  then show ?case using receive_result [OF reached_error(3)] receive_bounds [OF reached_error(3)] by (auto simp: wire_ok_def event_whole_def)
qed (auto simp: wire_ok_def event_whole_def fm_wire_cleared_def ums9117_fm_wire_begin_def split: if_splits)

text \<open>
  C10. Whatever bytes the firmware sends, in whatever state a client has brought the wire to, no event is written past the 258
  bytes of its buffer and no reply past the buffer the client gave; as long as no error is reported there is room for
  the next byte of an event.
\<close>

theorem fm_buffers_hold:
  assumes "fm_wire_reached capacity w begun" "aw \<longrightarrow> begun" "ums9117_fm_wire_receive aw xs w = (ret, w')"
  shows "length (fw_event w') \<le> FM_EVENT_BYTES \<and> (ret = None \<longrightarrow> length (fw_event w') < FM_EVENT_BYTES) \<and>
    length (fw_reply w') \<le> capacity"
  using wire_reached_ok [OF assms(1)] receive_result [OF assms(3)] receive_bounds [OF assms(3), of capacity] assms(2) part_short
  by (auto simp: wire_ok_def)

theorem fm_buffers_hold_witness:
  "\<exists>w'. ums9117_fm_wire_receive False [4, 14, 255] fm_wire_cleared = (None, w') \<and> length (fw_event w') < FM_EVENT_BYTES \<and>
     length (fw_reply w') \<le> 11 \<and> length (fw_event w') = 3"
proof -
  have r: "ums9117_fm_wire_receive False [4, 14, 255] fm_wire_cleared = (None, fm_wire_cleared\<lparr> fw_event := [4, 14, 255] \<rparr>)"
    by (simp add: receive_byte_def fm_wire_cleared_def event_whole_def)
  have "length (fw_event (fm_wire_cleared\<lparr> fw_event := [4, 14, 255] \<rparr>)) < FM_EVENT_BYTES \<and>
      length (fw_reply (fm_wire_cleared\<lparr> fw_event := [4, 14, 255] \<rparr>)) \<le> 11"
    using fm_buffers_hold [OF reached_clear _ r, of 11] by simp
  then show ?thesis using r by simp
qed

end
