(* ===== verification/Fm_Driver.thy ===== *)
theory Fm_Driver
  imports Fm_Properties
begin

section \<open>The FM driver\<close>

text \<open>
  The invariant of the driver while a command waits and between the requests of applications, and what follows for its
  commands, its band and its unknown state.
\<close>

unbundle bit_operations_syntax

subsection \<open>While a command waits\<close>

definition command_waiting :: "nat \<Rightarrow> bool \<Rightarrow> marlin2_fm \<Rightarrow> bool" where
  "command_waiting n seek radio \<longleftrightarrow>
     fm_wire_reached REPLY_BYTES (fm_wire radio) True \<and> fw_expected_bytes (fm_wire radio) = n \<and> fw_seek (fm_wire radio) = seek \<and>
     (fm_pending radio \<longrightarrow> \<not> fw_complete (fm_wire radio) \<and> fm_done radio = 0 \<and> fm_error radio = None) \<and>
     (\<not> fm_pending radio \<and> fm_error radio = None \<longrightarrow> fw_complete (fm_wire radio) \<and> good_reply n seek (fw_reply (fm_wire radio)))"

definition same_receiver :: "marlin2_fm \<Rightarrow> marlin2_fm \<Rightarrow> bool" where
  "same_receiver r r' \<longleftrightarrow> fm_state r' = fm_state r \<and> fm_frequency_10khz r' = fm_frequency_10khz r \<and> fm_opened r' = fm_opened r \<and>
     fm_held r' = fm_held r \<and> fm_sent r' = fm_sent r"

lemma fm_receive_cases:
  assumes "subtype = 0"
  obtains e where "fm_error radio = Some e"
      "fm_receive subtype payload radio = radio\<lparr> fm_pending := False, fm_wire := (fm_wire radio)\<lparr> fw_event := [] \<rparr>, fm_done := fm_done radio + 1 \<rparr>"
  | e w where "fm_error radio = None" "ums9117_fm_wire_receive (fm_pending radio) payload (fm_wire radio) = (Some e, w)"
      "fm_receive subtype payload radio = radio\<lparr> fm_error := Some e, fm_pending := False, fm_wire := w\<lparr> fw_event := [] \<rparr>, fm_done := fm_done radio + 1 \<rparr>"
  | w where "fm_error radio = None" "ums9117_fm_wire_receive (fm_pending radio) payload (fm_wire radio) = (None, w)"
      "fm_receive subtype payload radio = radio\<lparr> fm_wire := w, fm_pending := (fm_pending radio \<and> \<not> fw_complete w),
         fm_done := fm_done radio + (if fm_pending radio \<and> fw_complete w then 1 else 0) \<rparr>"
proof (cases "fm_error radio")
  case (Some e)
  then show ?thesis using assms that(1) [of e] by (simp add: fm_receive_def Let_def)
next
  case None
  obtain ret w where r: "ums9117_fm_wire_receive (fm_pending radio) payload (fm_wire radio) = (ret, w)" by fastforce
  show ?thesis
  proof (cases ret)
    case None
    then show ?thesis using \<open>fm_error radio = None\<close> assms r that(3) [of w] by (simp add: fm_receive_def Let_def)
  next
    case (Some e)
    then show ?thesis using \<open>fm_error radio = None\<close> assms r that(2) [of e w] by (simp add: fm_receive_def Let_def)
  qed
qed

lemma fm_receive_same: "same_receiver radio (fm_receive subtype payload radio)"
proof (cases "subtype = 0")
  case True
  then show ?thesis by (rule fm_receive_cases [of subtype radio payload]) (simp_all add: same_receiver_def)
qed (simp add: fm_receive_def same_receiver_def)

lemma on_air_same: "same_receiver radio (fold on_air airs radio)"
proof (induction airs arbitrary: radio)
  case (Cons a airs)
  have "same_receiver radio (on_air a radio)"
    by (cases a) (simp_all add: fm_receive_same, simp add: same_receiver_def transport_error_def)
  then show ?case using Cons [of "on_air a radio"] by (simp add: same_receiver_def)
qed (simp add: same_receiver_def)

lemma fm_receive_waiting:
  assumes "command_waiting n seek radio"
  shows "command_waiting n seek (fm_receive subtype payload radio)"
proof (cases "subtype = 0")
  case True
  have reached: "fm_wire_reached REPLY_BYTES (fm_wire radio) True" using assms by (simp add: command_waiting_def)
  note ok = wire_reached_ok [OF reached]
  show ?thesis
    using True
  proof (cases rule: fm_receive_cases [of subtype radio payload])
    case (1 e)
    then show ?thesis using assms reached_drop [OF reached] by (simp add: command_waiting_def)
  next
    case (2 e w)
    then show ?thesis using assms reached_error [OF reached _ 2(2)] receive_result [OF 2(2)] ok by (simp add: command_waiting_def)
  next
    case (3 w)
    then show ?thesis using assms reached_receive [OF reached _ 3(2)] receive_result [OF 3(2)] ok by (auto simp: command_waiting_def)
  qed
qed (simp add: fm_receive_def assms)

lemma on_air_waiting: "command_waiting n seek radio \<Longrightarrow> command_waiting n seek (fold on_air airs radio)"
proof (induction airs arbitrary: radio)
  case (Cons a airs)
  have "command_waiting n seek (on_air a radio)"
  proof (cases a)
    case (Lost e)
    then show ?thesis using Cons.prems by (auto simp: command_waiting_def transport_error_def intro: reached_drop)
  qed (simp add: fm_receive_waiting Cons.prems)
  then show ?case using Cons.IH by simp
qed simp

subsection \<open>Between requests\<close>

definition in_band :: "u16 \<Rightarrow> bool" where
  "in_band f \<longleftrightarrow> f = 0 \<or> FM_MIN_10KHZ \<le> unat f \<and> unat f \<le> FM_MAX_10KHZ"

definition fm_ok :: "marlin2_fm \<Rightarrow> bool" where
  "fm_ok radio \<longleftrightarrow> (\<exists>b. fm_wire_reached REPLY_BYTES (fm_wire radio) b) \<and> \<not> fm_pending radio \<and> in_band (fm_frequency_10khz radio) \<and>
     (fm_state radio = FM_OFF \<longrightarrow> fm_frequency_10khz radio = 0)"

lemma fm_receive_ok:
  assumes "fm_ok radio"
  shows "fm_ok (fm_receive subtype payload radio)"
proof (cases "subtype = 0")
  case True
  obtain b where reached: "fm_wire_reached REPLY_BYTES (fm_wire radio) b" and idle: "\<not> fm_pending radio"
    using assms by (auto simp: fm_ok_def)
  show ?thesis
    using True
  proof (cases rule: fm_receive_cases [of subtype radio payload])
    case (1 e)
    then show ?thesis using assms reached_drop [OF reached] by (auto simp: fm_ok_def)
  next
    case (2 e w)
    then show ?thesis using assms reached_error [OF reached _ 2(2)] idle by (auto simp: fm_ok_def)
  next
    case (3 w)
    then show ?thesis using assms reached_receive [OF reached _ 3(2)] idle by (auto simp: fm_ok_def)
  qed
qed (simp add: fm_receive_def assms)

lemma transport_error_ok: "fm_ok radio \<Longrightarrow> fm_ok (transport_error e radio)"
  by (auto simp: fm_ok_def transport_error_def intro: reached_drop)

lemma unknown_state_ok: "fm_ok radio \<Longrightarrow> fm_ok (unknown_state radio)"
  by (simp add: fm_ok_def unknown_state_def)

subsection \<open>Commands\<close>

lemma begun_waiting:
  assumes "fm_ok radio" "ums9117_fm_wire_begin (fm_wire radio) REPLY_BYTES n seek = Inr wire" "fm_error radio = None"
  shows "command_waiting n seek (radio\<lparr> fm_done := 0, fm_wire := wire, fm_pending := True, fm_sent := sent \<rparr>)"
  using assms reached_begin [of REPLY_BYTES "fm_wire radio" _ n seek wire]
  by (auto simp: fm_ok_def command_waiting_def ums9117_fm_wire_begin_def split: if_splits)

lemma waited_idle: "command_waiting n seek radio \<Longrightarrow> fm_done radio \<noteq> 0 \<Longrightarrow> \<not> fm_pending radio"
  by (auto simp: command_waiting_def)

text \<open>How a command ends: not begun, or begun and failed, or answered.\<close>

definition command_result :: "nat \<Rightarrow> bool \<Rightarrow> marlin2_fm \<Rightarrow> bytes \<Rightarrow> (radio_error + bytes) \<Rightarrow> marlin2_fm \<Rightarrow> bool" where
  "command_result n seek r request res r' \<longleftrightarrow>
     fm_ok r' \<and> fm_frequency_10khz r' = fm_frequency_10khz r \<and> fm_opened r' = fm_opened r \<and> fm_held r' = fm_held r \<and>
     (case res of
        Inl e \<Rightarrow> fm_state r' = FM_UNKNOWN \<and> fm_sent r' \<in> {fm_sent r, fm_sent r @ [request]}
      | Inr reply \<Rightarrow> fm_state r' = fm_state r \<and> fm_error r = None \<and> fm_error r' = None \<and> fm_sent r' = fm_sent r @ [request] \<and>
          length reply = n \<and> good_reply n seek reply \<and> (reply ! 1 = 0x0e \<longrightarrow> reply ! 6 = 0))"

lemma fm_command_result:
  assumes "fm_ok r" "length payload \<le> 254" "fm_command sub payload n seek turn r = (res, r')"
  shows "command_result n seek r ([0x01, 0x8c, 0xfc, of_nat (length payload + 1), sub] @ payload) res r'"
proof -
  define request where "request = [0x01, 0x8c, 0xfc, of_nat (length payload + 1), sub] @ payload"
  have build: "ums9117_fm_command_build FM_COMMAND_BYTES sub payload = Some request"
    using assms(2) by (simp add: ums9117_fm_command_build_def FM_COMMAND_BYTES_def request_def)
  have ok0: "fm_ok (unknown_state (r\<lparr> fm_done := 0 \<rparr>))" using assms(1) by (simp add: fm_ok_def unknown_state_def)
  have "command_result n seek r request res r'"
  proof (cases "command_start n seek r")
    case (Inl e)
    then have "(res, r') = (Inl e, unknown_state (r\<lparr> fm_done := 0 \<rparr>))"
      using assms(3) by (simp add: fm_command_def build)
    then show ?thesis using ok0 by (simp add: command_result_def unknown_state_def)
  next
    case (Inr wire)
    define begun where "begun = r\<lparr> fm_done := 0, fm_wire := wire, fm_pending := True, fm_sent := fm_sent r @ [request] \<rparr>"
    define ended where "ended = fold on_air (tn_air turn) begun"
    have wire: "ums9117_fm_wire_begin (fm_wire r) REPLY_BYTES n seek = Inr wire" "fm_error r = None"
      using Inr by (auto simp: command_start_def split: option.splits if_splits)
    have w: "command_waiting n seek ended" unfolding ended_def begun_def by (intro on_air_waiting begun_waiting assms(1) wire)
    have same: "same_receiver begun ended" by (simp add: ended_def on_air_same)
    have ok: "fm_ok (f ended)" if "\<not> fm_pending (f ended)" "\<exists>b. fm_wire_reached REPLY_BYTES (fm_wire (f ended)) b"
        "fm_frequency_10khz (f ended) = fm_frequency_10khz ended" "fm_state (f ended) \<in> {fm_state ended, FM_UNKNOWN}" for f
      using that same assms(1) by (auto simp: fm_ok_def same_receiver_def begun_def)
    have reached: "\<exists>b. fm_wire_reached REPLY_BYTES (fm_wire ended) b" "\<exists>b. fm_wire_reached REPLY_BYTES ((fm_wire ended)\<lparr> fw_event := [] \<rparr>) b"
      using w reached_drop by (auto simp: command_waiting_def)
    have lost: "command_result n seek r request (Inl e) (unknown_state (transport_error e ended))" for e
      using ok [of "\<lambda>x. unknown_state (transport_error e x)"] same reached
      by (simp add: command_result_def unknown_state_def transport_error_def same_receiver_def begun_def)
    have failed: "command_result n seek r request (Inl e) (unknown_state (ended\<lparr> fm_done := fm_done ended - 1 \<rparr>))" if "fm_done ended \<noteq> 0" for e
      using ok [of "\<lambda>x. unknown_state (x\<lparr> fm_done := fm_done x - 1 \<rparr>)"] same reached waited_idle [OF w that]
      by (simp add: command_result_def unknown_state_def same_receiver_def begun_def)
    have good: "command_result n seek r request (Inr reply) (ended\<lparr> fm_done := fm_done ended - 1 \<rparr>)"
      if "fm_done ended \<noteq> 0" "fm_error ended = None" "reply = fw_reply (fm_wire ended)" "\<not> (reply ! 1 = 0x0e \<and> reply ! 6 \<noteq> 0)" "length reply = n" for reply
      using ok [of "\<lambda>x. x\<lparr> fm_done := fm_done x - 1 \<rparr>"] same reached waited_idle [OF w that(1)] w that wire(2)
      by (simp add: command_result_def same_receiver_def begun_def command_waiting_def)
    have "(res, r') = command_wait n (tn_send turn) ended"
      using assms(3) Inr by (simp add: fm_command_def build ended_def begun_def)
    then show ?thesis
      using lost failed good by (auto simp: command_wait_def command_answer_def Let_def split: option.splits if_splits)
  qed
  then show ?thesis by (simp only: request_def)
qed

lemma fm_command_keeps:
  assumes "fm_ok r" "length payload \<le> 254" "fm_command sub payload n seek turn r = (res, r')"
  shows "fm_ok r'" "fm_frequency_10khz r' = fm_frequency_10khz r" "fm_held r' = fm_held r" "fm_opened r' = fm_opened r"
    "res = Inl e \<Longrightarrow> fm_state r' = FM_UNKNOWN" "res = Inr reply \<Longrightarrow> fm_state r' = fm_state r"
    "res = Inr reply \<Longrightarrow> fm_error r' = None"
    "res = Inr reply \<Longrightarrow> fm_sent r' = fm_sent r @ [[0x01, 0x8c, 0xfc, of_nat (length payload + 1), sub] @ payload]"
  using fm_command_result [OF assms] by (auto simp: command_result_def split: sum.splits)

text \<open>An operation that ends in an error leaves the state unknown, one that succeeds leaves it as it was.\<close>

definition op_result :: "marlin2_fm \<Rightarrow> radio_error option \<Rightarrow> marlin2_fm \<Rightarrow> bool" where
  "op_result r e r' \<longleftrightarrow> fm_ok r' \<and> fm_held r' = fm_held r \<and> fm_opened r' = fm_opened r \<and>
     (if e = None then fm_state r' = fm_state r \<and> fm_error r' = None else fm_state r' = FM_UNKNOWN)"

lemma set_mute_result:
  assumes "fm_ok r" "set_mute muted turn r = (e, r')"
  shows "op_result r e r' \<and> fm_frequency_10khz r' = fm_frequency_10khz r"
proof -
  obtain res v where c: "fm_command 0x02 [of_bool muted] 8 False turn r = (res, v)" by fastforce
  note k = fm_command_keeps [OF assms(1) _ c]
  show ?thesis
  proof (cases res)
    case (Inl x)
    then show ?thesis using k assms(2) c by (auto simp: set_mute_def op_result_def)
  next
    case (Inr reply)
    then show ?thesis using k assms(2) c unknown_state_ok [of v]
      by (auto simp: set_mute_def op_result_def unknown_state_def split: if_splits)
  qed
qed

lemma tune_result:
  assumes "fm_ok r" "fm_state r = FM_ON" "in_band frequency" "tune frequency turn r = (e, r')"
  shows "op_result r e r'"
    "e = None \<Longrightarrow> fm_frequency_10khz r' = frequency \<and> last (fm_sent r') = [0x01, 0x8c, 0xfc, 3, 0x01] @ put_le16 frequency"
proof -
  obtain res v where c: "fm_command 0x01 (put_le16 frequency) 11 False turn r = (res, v)" by fastforce
  note k = fm_command_keeps [OF assms(1) _ c]
  have "op_result r e r' \<and> (e = None \<longrightarrow> fm_frequency_10khz r' = frequency \<and> last (fm_sent r') = [0x01, 0x8c, 0xfc, 3, 0x01] @ put_le16 frequency)"
  proof (cases res)
    case (Inl x)
    then show ?thesis using k assms(4) c by (auto simp: tune_def op_result_def)
  next
    case (Inr reply)
    then have "fm_ok (v\<lparr> fm_frequency_10khz := frequency \<rparr>)" using k assms(2,3) by (auto simp: fm_ok_def)
    then show ?thesis using Inr k assms(4) c unknown_state_ok [of v]
      by (auto simp: tune_def op_result_def unknown_state_def split: if_splits)
  qed
  then show "op_result r e r'"
    "e = None \<Longrightarrow> fm_frequency_10khz r' = frequency \<and> last (fm_sent r') = [0x01, 0x8c, 0xfc, 3, 0x01] @ put_le16 frequency" by auto
qed

lemma enable_with_result:
  assumes "fm_ok r" "enable_with control t1 t2 r = (e, r')"
  shows "fm_ok r'" "e = None \<Longrightarrow> fm_state r' = FM_ON \<and> fm_error r' = None"
proof -
  obtain res v where c: "fm_command 0x00 [0x00, 0x01] 7 False t1 (r\<lparr> fm_held := True \<rparr>) = (res, v)" by fastforce
  have ok: "fm_ok (r\<lparr> fm_held := True \<rparr>)" using assms(1) by (simp add: fm_ok_def)
  note k = fm_command_keeps [OF ok _ c]
  have "fm_ok r' \<and> (e = None \<longrightarrow> fm_state r' = FM_ON \<and> fm_error r' = None)"
  proof (cases "control = None \<and> (\<exists>reply. res = Inr reply)")
    case True
    then have "set_mute True t2 (v\<lparr> fm_state := FM_ON \<rparr>) = (e, r')" using assms(2) c by (auto simp: enable_with_def)
    moreover have "fm_ok (v\<lparr> fm_state := FM_ON \<rparr>)" using k(1) by (simp add: fm_ok_def)
    ultimately show ?thesis using set_mute_result [of "v\<lparr> fm_state := FM_ON \<rparr>"] by (auto simp: op_result_def split: if_splits)
  next
    case False
    then show ?thesis using assms(2) c ok k(1) by (cases control; cases res) (auto simp: enable_with_def Let_def)
  qed
  then show "fm_ok r'" "e = None \<Longrightarrow> fm_state r' = FM_ON \<and> fm_error r' = None" by auto
qed

lemma fm_enable_result:
  assumes "fm_ok r" "fm_enable channel control t1 t2 r = (e, r')"
  shows "fm_ok r'" "e = None \<Longrightarrow> fm_state r' = FM_ON"
proof -
  define s where "s = (if fm_state r = FM_UNKNOWN
      then r\<lparr> fm_wire := fm_wire_cleared, fm_error := None, fm_pending := False, fm_done := 0, fm_state := FM_OFF, fm_frequency_10khz := 0 \<rparr> else r)"
  have ok: "fm_ok s" using assms(1) reached_clear [of REPLY_BYTES] by (auto simp: s_def fm_ok_def in_band_def)
  have "fm_ok r' \<and> (e = None \<longrightarrow> fm_state r' = FM_ON)"
    using assms enable_with_result [OF ok] unfolding fm_enable_def s_def [symmetric] by (auto split: if_splits option.splits)
  then show "fm_ok r'" "e = None \<Longrightarrow> fm_state r' = FM_ON" by auto
qed

lemma fm_disable_result:
  assumes "fm_ok r" "fm_disable t1 t2 r = (e, r')"
  shows "fm_ok r'" "fm_state r' \<noteq> FM_ON"
proof -
  have "fm_ok r' \<and> fm_state r' \<noteq> FM_ON"
  proof (cases "fm_state r = FM_ON")
    case True
    obtain x v where m: "set_mute True t1 r = (x, v)" by fastforce
    note mute = set_mute_result [OF assms(1) m]
    show ?thesis
    proof (cases x)
      case None
      obtain res u where c: "fm_command 0x12 [0] 7 False t2 v = (res, u)" by fastforce
      have "fm_ok v" using mute by (simp add: op_result_def)
      note k = fm_command_keeps [OF this _ c]
      show ?thesis
        using k(1,5) assms(2) m None c True by (cases res) (auto simp: fm_disable_def fm_ok_def in_band_def)
    next
      case (Some y)
      then show ?thesis using mute assms(2) m True by (auto simp: fm_disable_def op_result_def)
    qed
  qed (use assms in \<open>auto simp: fm_disable_def split: fm_state.splits\<close>)
  then show "fm_ok r'" "fm_state r' \<noteq> FM_ON" by auto
qed

subsection \<open>Requests and their sequences\<close>

definition asked :: "u32 \<Rightarrow> u16" where
  "asked frequency = of_nat ((max (FM_MIN_10KHZ * FM_FREQ_SCALE) (min (unat frequency) (FM_MAX_10KHZ * FM_FREQ_SCALE)) + FM_FREQ_SCALE div 2) div FM_FREQ_SCALE)"

lemma asked_band: "FM_MIN_10KHZ \<le> unat (asked frequency) \<and> unat (asked frequency) \<le> FM_MAX_10KHZ"
  "unat frequency \<in> {1400000..1728000} \<Longrightarrow> unat (asked frequency) = (unat frequency + 80) div 160"
proof -
  define v where "v = max (FM_MIN_10KHZ * FM_FREQ_SCALE) (min (unat frequency) (FM_MAX_10KHZ * FM_FREQ_SCALE)) + FM_FREQ_SCALE div 2"
  have "1400080 \<le> v" "v \<le> 1728080" by (simp_all add: v_def FM_MIN_10KHZ_def FM_MAX_10KHZ_def FM_FREQ_SCALE_def)
  then have d: "8750 \<le> v div 160" "v div 160 \<le> 10800"
    using div_le_mono [of 1400080 v 160] div_le_mono [of v 1728080 160] by simp_all
  have a0: "asked frequency = of_nat (v div 160)" by (simp only: asked_def v_def FM_FREQ_SCALE_def)
  from d have a: "unat (asked frequency) = v div 160"
    by (simp only: a0 unat_of_nat) simp
  then show "FM_MIN_10KHZ \<le> unat (asked frequency) \<and> unat (asked frequency) \<le> FM_MAX_10KHZ"
    using d by (simp add: FM_MIN_10KHZ_def FM_MAX_10KHZ_def)
  show "unat (asked frequency) = (unat frequency + 80) div 160" if "unat frequency \<in> {1400000..1728000}"
    using that unfolding a by (simp add: v_def FM_MIN_10KHZ_def FM_MAX_10KHZ_def FM_FREQ_SCALE_def max_def min_def)
qed

lemma set_frequency_asked:
  "set_frequency tuner type_radio frequency channel control t1 t2 t3 r =
     (if tuner \<noteq> 0 \<or> \<not> type_radio then (Some EINVAL, r)
      else case fm_enable channel control t1 t2 r of (Some e, v) \<Rightarrow> (Some e, v) | (None, v) \<Rightarrow> tune (asked frequency) t3 v)"
  unfolding set_frequency_def Let_def asked_def by (rule refl)

lemma set_frequency_result:
  assumes "fm_ok r" "set_frequency tuner type_radio frequency channel control t1 t2 t3 r = (e, r')"
  shows "fm_ok r'" "e = None \<Longrightarrow> fm_state r' = FM_ON \<and> fm_error r' = None \<and> fm_frequency_10khz r' = asked frequency \<and>
    last (fm_sent r') = [0x01, 0x8c, 0xfc, 3, 0x01] @ put_le16 (asked frequency)"
proof -
  obtain x v where en: "fm_enable channel control t1 t2 r = (x, v)" by fastforce
  note enabled = fm_enable_result [OF assms(1) en]
  have "fm_ok r' \<and> (e = None \<longrightarrow> fm_state r' = FM_ON \<and> fm_error r' = None \<and> fm_frequency_10khz r' = asked frequency \<and>
      last (fm_sent r') = [0x01, 0x8c, 0xfc, 3, 0x01] @ put_le16 (asked frequency))"
  proof (cases "tuner \<noteq> 0 \<or> \<not> type_radio \<or> x \<noteq> None")
    case True
    then show ?thesis using assms en enabled(1) by (cases x) (auto simp: set_frequency_asked split: if_splits)
  next
    case False
    then have "tune (asked frequency) t3 v = (e, r')" using assms(2) en by (simp add: set_frequency_asked)
    then show ?thesis
      using tune_result [of v "asked frequency" t3 e r'] enabled False asked_band(1) [of frequency]
      by (auto simp: op_result_def in_band_def split: if_splits)
  qed
  then show "fm_ok r'" "e = None \<Longrightarrow> fm_state r' = FM_ON \<and> fm_error r' = None \<and> fm_frequency_10khz r' = asked frequency \<and>
    last (fm_sent r') = [0x01, 0x8c, 0xfc, 3, 0x01] @ put_le16 (asked frequency)" by auto
qed

lemma seek_frequency_ok:
  assumes "fm_ok r"
  shows "fm_ok (snd (seek_frequency seek t1 t2 r))"
proof (cases "fm_state r = FM_ON")
  case True
  let ?p = "fm_frequency_10khz r"
  obtain res v where c: "fm_command 0x04 (put_le16 ?p @ [of_bool (\<not> sk_upward seek)]) 9 True t1 r = (res, v)" by fastforce
  note k = fm_command_keeps [OF assms _ c]
  obtain x u where t: "tune ?p t2 v = (x, u)" by fastforce
  show ?thesis
  proof (cases res)
    case (Inl e)
    then show ?thesis using assms k(1) c by (simp add: seek_frequency_def Let_def)
  next
    case (Inr reply)
    have v: "fm_ok v" "fm_state v = FM_ON" "in_band ?p" using k(1,6) Inr True assms by (auto simp: fm_ok_def)
    then have "fm_ok u" using tune_result(1) [OF v t] by (simp add: op_result_def)
    moreover have "fm_ok (v\<lparr> fm_frequency_10khz := f \<rparr>)" if "\<not> unat f < FM_MIN_10KHZ" "\<not> unat f > FM_MAX_10KHZ" for f
      using v that by (auto simp: fm_ok_def in_band_def)
    ultimately show ?thesis
      using assms v c t Inr unknown_state_ok [OF v(1)]
      by (cases x) (simp_all add: seek_frequency_def Let_def)
  qed
qed (simp add: seek_frequency_def Let_def assms)

lemma set_control_ok: "fm_ok r \<Longrightarrow> fm_ok (snd (set_control val turn r))"
  using set_mute_result [of r val turn] by (cases "set_mute val turn r") (auto simp: set_control_def op_result_def split: fm_state.splits)

lemma radio_open_ok: "fm_ok r \<Longrightarrow> fm_ok (snd (radio_open registered handle r))"
  by (auto simp: radio_open_def fm_ok_def split: option.splits)

lemma radio_close_ok: "fm_ok r \<Longrightarrow> fm_ok (radio_close registered t1 t2 r)"
  using fm_disable_result(1) [of r t1 t2] by (cases "fm_disable t1 t2 r") (auto simp: radio_close_def fm_ok_def)

lemma unregister_ok: "fm_ok r \<Longrightarrow> fm_ok (marlin2_fm_unregister t1 t2 r)"
  using fm_disable_result(1) [of r t1 t2] by (cases "fm_disable t1 t2 r") (auto simp: marlin2_fm_unregister_def fm_ok_def)

text \<open>The requests of the application that holds the device, with what arrives between them, and with the end of its use.\<close>

inductive fm_request :: "marlin2_fm \<Rightarrow> marlin2_fm \<Rightarrow> bool" where
  "fm_request r (snd (set_frequency tuner type_radio frequency channel control t1 t2 t3 r))"
| "fm_request r (snd (seek_frequency seek t1 t2 r))"
| "fm_request r (snd (set_control val turn r))"
| "fm_request r (snd (radio_open registered handle r))"
| "fm_request r (on_air event r)"

inductive fm_step :: "marlin2_fm \<Rightarrow> marlin2_fm \<Rightarrow> bool" where
  "fm_request r r' \<Longrightarrow> fm_step r r'"
| "fm_step r (radio_close registered t1 t2 r)"
| "fm_step r (marlin2_fm_unregister t1 t2 r)"

lemma fm_request_ok:
  assumes "fm_request r r'" "fm_ok r"
  shows "fm_ok r'"
  using assms
proof (cases rule: fm_request.cases)
  case (1 tuner type_radio frequency channel control t1 t2 t3)
  then show ?thesis using set_frequency_result(1) [OF assms(2)] by (metis prod.collapse)
next
  case (5 event)
  then show ?thesis using assms(2) by (cases event) (simp_all add: fm_receive_ok transport_error_ok)
qed (simp_all add: assms(2) seek_frequency_ok set_control_ok radio_open_ok)

interpretation fm: transition_system "\<lambda>r. r = marlin2_fm_register" fm_step fm_ok
proof unfold_locales
  show "fm_ok r" if "r = marlin2_fm_register" for r
    using that reached_clear [of REPLY_BYTES] by (auto simp: marlin2_fm_register_def fm_ok_def in_band_def)
  show "fm_ok r'" if "fm_ok r" "fm_step r r'" for r r'
    using that(2,1) by (induction rule: fm_step.induct) (auto intro: fm_request_ok radio_close_ok unregister_ok)
qed

text \<open>
  C39. After any requests and whatever the firmware sends, the receiver reports no frequency or one of the band from 87.5 to
  108 MHz, none while it is off, and its wire is in a state where every buffer has room.
\<close>

theorem fm_stays_in_band:
  assumes "fm_step\<^sup>*\<^sup>* marlin2_fm_register r"
  shows "(\<forall>f. get_frequency tuner r = Inr f \<longrightarrow> f = 0 \<or> 1400000 \<le> f \<and> f \<le> 1728000) \<and>
    (fm_state r = FM_OFF \<longrightarrow> fm_frequency_10khz r = 0) \<and> (\<exists>begun. fm_wire_reached REPLY_BYTES (fm_wire r) begun)"
  using fm.reachable [OF refl assms]
  by (auto simp: fm_ok_def get_frequency_def in_band_def FM_MIN_10KHZ_def FM_MAX_10KHZ_def FM_FREQ_SCALE_def)

theorem fm_stays_in_band_witness:
  "fm_step\<^sup>*\<^sup>* marlin2_fm_register (transport_error EIO marlin2_fm_register) \<and>
   (\<exists>begun. fm_wire_reached REPLY_BYTES (fm_wire (transport_error EIO marlin2_fm_register)) begun)"
proof -
  have "fm_request marlin2_fm_register (on_air (Lost EIO) marlin2_fm_register)" by (rule fm_request.intros)
  then have "fm_step\<^sup>*\<^sup>* marlin2_fm_register (transport_error EIO marlin2_fm_register)" by (auto intro: fm_step.intros)
  then show ?thesis using fm_stays_in_band [of "transport_error EIO marlin2_fm_register" 0] by simp
qed

subsection \<open>An answered command\<close>

definition answered :: "u8 \<Rightarrow> bytes \<Rightarrow> bytes \<Rightarrow> marlin2_fm \<Rightarrow> marlin2_fm" where
  "answered sub payload reply r = r\<lparr> fm_done := 0, fm_pending := False,
     fm_wire := (fm_wire r)\<lparr> fw_reply := reply, fw_expected_bytes := length reply, fw_seek := False, fw_acknowledged := False, fw_complete := True \<rparr>,
     fm_sent := fm_sent r @ [[0x01, 0x8c, 0xfc, of_nat (length payload + 1), sub] @ payload] \<rparr>"

definition confirmation :: "bytes \<Rightarrow> bytes" where
  "confirmation rest = fm_event (0x0e, [1, 0x8c, 0xfc, 0] @ rest)"

lemma confirmation_bytes [simp]:
  "length (confirmation rest) = 7 + length rest" "confirmation rest ! Suc 0 = 0x0e" "confirmation rest ! 4 = 0x8c" "confirmation rest ! 5 = 0xfc"
  "confirmation rest ! 6 = 0"
  by (simp_all add: confirmation_def fm_event_def)

lemma answered_command:
  assumes "fm_error r = None" "\<not> fm_pending r" "fw_event (fm_wire r) = []" "length payload \<le> 254" "length rest \<le> 4"
  shows "fm_command sub payload (7 + length rest) False \<lparr> tn_send = None, tn_air = [Incoming 0 (confirmation rest)] \<rparr> r =
    (Inr (confirmation rest), answered sub payload (confirmation rest) r)"
proof -
  define w where "w = (fm_wire r)\<lparr> fw_reply := [], fw_expected_bytes := 7 + length rest, fw_seek := False, fw_acknowledged := False, fw_complete := False \<rparr>"
  have start: "command_start (7 + length rest) False r = Inr w"
    using assms by (simp add: command_start_def ums9117_fm_wire_begin_def REPLY_BYTES_def FM_EVENT_BYTES_def w_def)
  have "complete_event (w\<lparr> fw_event := confirmation rest \<rparr>) = (None, store_reply (w\<lparr> fw_event := confirmation rest \<rparr>))"
    by (simp add: complete_event_def Let_def w_def)
  then have "ums9117_fm_wire_receive True (confirmation rest) w = (None, w\<lparr> fw_reply := confirmation rest, fw_complete := True \<rparr>)"
    using receive_event [of "(0x0e, [1, 0x8c, 0xfc, 0] @ rest)" w True "[]"] assms(3,5)
    unfolding confirmation_def [symmetric] by (simp add: Let_def store_reply_def w_def)
  then show ?thesis
    using assms(1,4) start
    by (simp add: fm_command_def ums9117_fm_command_build_def FM_COMMAND_BYTES_def fm_receive_def command_wait_def command_answer_def
        Let_def answered_def w_def)
qed


definition turn_of :: "bytes \<Rightarrow> turn" where
  "turn_of rest = \<lparr> tn_send = None, tn_air = [Incoming 0 (confirmation rest)] \<rparr>"


lemma unknown_request:
  assumes "fm_request r r'" "fm_state r = FM_UNKNOWN" "fm_held r"
  shows "fm_state r' = FM_UNKNOWN \<and> fm_held r' \<and> fm_sent r' = fm_sent r"
  using assms
proof (cases rule: fm_request.cases)
  case (1 tuner type_radio frequency channel control t1 t2 t3)
  then show ?thesis using assms(2,3) by (simp add: set_frequency_asked fm_enable_def)
next
  case (5 event)
  then show ?thesis using assms(2,3) on_air_same [of r "[event]"] by (simp add: same_receiver_def)
qed (use assms(2,3) in \<open>auto simp: seek_frequency_def set_control_def radio_open_def Let_def split: option.splits\<close>)

text \<open>
  C12. A command that fails leaves the state of the receiver unknown; from then on no request of the application and nothing the
  firmware sends makes the driver send anything or trust its state, until the device is closed.
\<close>

theorem failure_silences_driver:
  assumes "fm_step\<^sup>*\<^sup>* marlin2_fm_register r" "length payload \<le> 254" "fm_command sub payload n seek turn r = (Inl e, r')"
    and "fm_held r" "fm_request\<^sup>*\<^sup>* r' r''"
  shows "fm_state r'' = FM_UNKNOWN \<and> fm_sent r'' = fm_sent r'"
proof -
  note k = fm_command_keeps [OF fm.reachable [OF refl assms(1)] assms(2,3)]
  have "fm_state r' = FM_UNKNOWN" "fm_held r'" using k(5) [OF refl] k(3) assms(4) by auto
  with assms(5) have "fm_state r'' = FM_UNKNOWN \<and> fm_held r'' \<and> fm_sent r'' = fm_sent r'"
    by (induction rule: rtranclp_induct) (auto dest: unknown_request)
  then show ?thesis by blast
qed

theorem failure_silences_driver_witness:
  "fm_state (snd (fm_command 0 [] 7 False \<lparr> tn_send = Some EIO, tn_air = [] \<rparr> (marlin2_fm_register\<lparr> fm_held := True \<rparr>))) = FM_UNKNOWN"
proof -
  let ?r = "marlin2_fm_register\<lparr> fm_held := True \<rparr>"
  have "snd (set_frequency 0 True 0 None (Some EIO) t t t marlin2_fm_register) = ?r" for t
    by (simp add: set_frequency_asked fm_enable_def enable_with_def marlin2_fm_register_def)
  then have "fm_request marlin2_fm_register ?r" by (metis fm_request.intros(1))
  then have reached: "fm_step\<^sup>*\<^sup>* marlin2_fm_register ?r" by (auto intro: fm_step.intros)
  have start: "command_start 7 False ?r = Inr ((fm_wire_cleared)\<lparr> fw_expected_bytes := 7 \<rparr>)"
    by (simp add: command_start_def marlin2_fm_register_def fm_wire_cleared_def ums9117_fm_wire_begin_def REPLY_BYTES_def FM_EVENT_BYTES_def)
  obtain r' where r: "fm_command 0 [] 7 False \<lparr> tn_send = Some EIO, tn_air = [] \<rparr> ?r = (Inl EIO, r')"
    using start by (simp add: fm_command_def ums9117_fm_command_build_def FM_COMMAND_BYTES_def command_wait_def)
  show ?thesis using failure_silences_driver [OF reached _ r _ rtranclp.rtrancl_refl] r by simp
qed

text \<open>
  A command that succeeds was sent, and was answered by an event of exactly the asked length: the firmware's confirmation of an FM
  command without an error, or for a seek the report of its end.
\<close>

theorem success_was_answered:
  assumes "fm_step\<^sup>*\<^sup>* marlin2_fm_register r" "length payload \<le> 254" "fm_command sub payload n seek turn r = (Inr reply, r')"
  shows "fm_sent r' = fm_sent r @ [[0x01, 0x8c, 0xfc, of_nat (length payload + 1), sub] @ payload] \<and> length reply = n \<and>
    (if seek then reply ! 1 = 0xff \<and> reply ! 3 = 0x30 else reply ! 1 = 0x0e \<and> reply ! 4 = 0x8c \<and> reply ! 5 = 0xfc \<and> reply ! 6 = 0)"
proof -
  have r: "command_result n seek r ([0x01, 0x8c, 0xfc, of_nat (length payload + 1), sub] @ payload) (Inr reply) r'"
    by (rule fm_command_result [OF fm.reachable [OF refl assms(1)] assms(2,3)])
  then have "good_reply n seek reply" "reply ! 1 = 0x0e \<longrightarrow> reply ! 6 = 0" "length reply = n"
    "fm_sent r' = fm_sent r @ [[0x01, 0x8c, 0xfc, of_nat (length payload + 1), sub] @ payload]"
    by (simp_all add: command_result_def)
  then show ?thesis by (auto simp: good_reply_def)
qed

theorem success_was_answered_witness:
  "\<exists>r'. fm_command 0 [0, 1] 7 False (turn_of []) marlin2_fm_register = (Inr (confirmation []), r') \<and>
     fm_sent r' = [[0x01, 0x8c, 0xfc, 3, 0, 0, 1]] \<and> length (confirmation []) = 7"
proof -
  have "fm_error marlin2_fm_register = None" "\<not> fm_pending marlin2_fm_register" "fw_event (fm_wire marlin2_fm_register) = []"
      "fm_sent marlin2_fm_register = []"
    by (simp_all add: marlin2_fm_register_def fm_wire_cleared_def)
  moreover obtain r' where r: "fm_command 0 [0, 1] 7 False (turn_of []) marlin2_fm_register = (Inr (confirmation []), r')"
    using calculation answered_command [of marlin2_fm_register "[0, 1]" "[]" 0] by (simp add: turn_of_def)
  ultimately show ?thesis using success_was_answered [OF rtranclp.rtrancl_refl _ r] by simp
qed

end
